(* ===== verification/Prelude.thy ===== *)
theory Prelude
  imports Complex_Main "HOL-Library.Monad_Syntax"
begin

text \<open>
  Shared vocabulary of the development.

  \<^item> Machine integers. Rust's unsigned integers are natural numbers with the width written out at
    every operation that can leave it: \<open>sat_add_u64\<close> is \<open>u64::saturating_add\<close>, \<open>wrap_u64\<close> and
    \<open>wrap_u32\<close> are the wrap-around of \<open>fetch_add\<close> on an atomic; \<open>saturating_sub\<close> is the truncating
    subtraction of \<open>nat\<close>. Signed 64-bit integers are \<open>int\<close> with \<open>wrap_i64\<close> and \<open>sat_i64\<close>.
  \<^item> Panics. An operation of the standard library that panics (\<open>Ord::clamp\<close> with an empty range,
    an index out of bounds) returns \<open>None\<close>, and the operations that call it run in the option
    monad, so that "no panic" is a theorem and never an artefact of the model.
  \<^item> Generic lemmas on lists, association lists and options that the components share.
\<close>

named_theorems machine_defs \<open>definitions of the machine-integer operations\<close>
named_theorems frame_simps \<open>fields an operation leaves unchanged\<close>
named_theorems wf_intros \<open>well-formedness is kept by an operation\<close>

subsection \<open>Widths\<close>

definition u32_max :: nat where
  "u32_max = 4294967295"

definition u64_max :: nat where
  "u64_max = 18446744073709551615"

definition i64_max :: int where
  "i64_max = 9223372036854775807"

definition i64_min :: int where
  "i64_min = -9223372036854775808"

definition wrap_u32 :: "nat \<Rightarrow> nat" where
  "wrap_u32 n = n mod 4294967296"

definition wrap_u64 :: "nat \<Rightarrow> nat" where
  "wrap_u64 n = n mod 18446744073709551616"

definition wrap_u128 :: "nat \<Rightarrow> nat" where
  "wrap_u128 n = n mod 340282366920938463463374607431768211456"

definition wrap_i64 :: "int \<Rightarrow> int" where
  "wrap_i64 x = (x + 9223372036854775808) mod 18446744073709551616 - 9223372036854775808"

definition sat_add_u64 :: "nat \<Rightarrow> nat \<Rightarrow> nat" where
  "sat_add_u64 a b = min (a + b) u64_max"

definition sat_i64 :: "int \<Rightarrow> int" where
  "sat_i64 x = max i64_min (min i64_max x)"

text \<open>\<open>u64::saturating_add_signed\<close>: add a signed delta, clamped to the range of \<open>u64\<close>.\<close>

definition sat_add_signed_u64 :: "nat \<Rightarrow> int \<Rightarrow> nat" where
  "sat_add_signed_u64 a d = min (nat (int a + d)) u64_max"

text \<open>\<open>i64::try_from(v).unwrap_or(i64::MAX)\<close> on an unsigned value.\<close>

definition i64_of_nat :: "nat \<Rightarrow> int" where
  "i64_of_nat n = min (int n) i64_max"

text \<open>Signed division of Rust, which truncates towards zero.\<close>

definition tdiv :: "int \<Rightarrow> int \<Rightarrow> int" where
  "tdiv a b = (if (a < 0) = (b < 0) then \<bar>a\<bar> div \<bar>b\<bar> else - (\<bar>a\<bar> div \<bar>b\<bar>))"

text \<open>\<open>Ord::clamp\<close> panics when its lower bound exceeds its upper bound.\<close>

definition clamp :: "nat \<Rightarrow> nat \<Rightarrow> nat \<Rightarrow> nat option" where
  "clamp x lo hi = (if hi < lo then None else Some (max lo (min x hi)))"

lemmas [machine_defs] = u32_max_def u64_max_def i64_max_def i64_min_def wrap_u32_def wrap_u64_def
  wrap_u128_def wrap_i64_def sat_add_u64_def sat_i64_def sat_add_signed_u64_def i64_of_nat_def

lemma wrap_u32_le [simp]: "wrap_u32 n \<le> u32_max"
  by (simp add: machine_defs flip: less_Suc_eq_le)

lemma wrap_u64_le [simp]: "wrap_u64 n \<le> u64_max"
  by (simp add: machine_defs flip: less_Suc_eq_le)

lemma wrap_u64_advances:
  assumes "a \<le> u64_max" "0 < k" "k \<le> u64_max"
  shows "wrap_u64 (a + k) \<noteq> a"
proof (cases "a + k < 18446744073709551616")
  case False
  then show ?thesis using assms by (simp add: wrap_u64_def u64_max_def le_mod_geq not_less)
qed (use assms in \<open>simp add: wrap_u64_def\<close>)

lemma sat_add_u64_le [simp]: "sat_add_u64 a b \<le> u64_max"
  by (simp add: sat_add_u64_def)

lemma sat_add_u64_exact: "a + b \<le> u64_max \<Longrightarrow> sat_add_u64 a b = a + b"
  by (simp add: sat_add_u64_def)

lemma sat_add_u64_0 [simp]: "a \<le> u64_max \<Longrightarrow> sat_add_u64 a 0 = a"
  by (simp add: sat_add_u64_def)

lemma sat_add_u64_ge: "a \<le> u64_max \<Longrightarrow> a \<le> sat_add_u64 a b"
  by (simp add: sat_add_u64_def)

lemma sat_add_u64_mono: "a \<le> a' \<Longrightarrow> b \<le> b' \<Longrightarrow> sat_add_u64 a b \<le> sat_add_u64 a' b'"
  by (auto simp: sat_add_u64_def)

lemma sat_add_u64_gt: "0 < b \<Longrightarrow> a < u64_max \<Longrightarrow> a < sat_add_u64 a b"
  by (simp add: sat_add_u64_def)

lemma wrap_i64_id: "i64_min \<le> x \<Longrightarrow> x \<le> i64_max \<Longrightarrow> wrap_i64 x = x"
  by (simp add: machine_defs)

lemma wrap_i64_range: "i64_min \<le> wrap_i64 x \<and> wrap_i64 x \<le> i64_max"
proof -
  have "0 \<le> (x + 9223372036854775808) mod 18446744073709551616"
    and "(x + 9223372036854775808) mod 18446744073709551616 < 18446744073709551616"
    by simp_all
  then show ?thesis by (simp add: machine_defs)
qed

lemma wrap_i64_add_left: "wrap_i64 (wrap_i64 a + b) = wrap_i64 (a + b)"
proof -
  have "(wrap_i64 a + b + 9223372036854775808) mod 18446744073709551616 =
        ((a + 9223372036854775808) mod 18446744073709551616 + b) mod 18446744073709551616"
    by (simp add: wrap_i64_def algebra_simps)
  also have "\<dots> = (a + b + 9223372036854775808) mod 18446744073709551616"
    by (subst mod_add_left_eq) (simp add: algebra_simps)
  finally show ?thesis by (simp add: wrap_i64_def)
qed

lemma tdiv_nonneg: "0 \<le> a \<Longrightarrow> 0 < b \<Longrightarrow> tdiv a b = a div b"
  by (simp add: tdiv_def)

text \<open>The usual correction of a truncating division into a flooring one.\<close>

lemma tdiv_floor: "0 < k \<Longrightarrow> tdiv (if 0 \<le> z then z else z - (k - 1)) k = z div k"
proof (cases "0 \<le> z")
  case False
  assume k: "0 < k"
  have "\<bar>z - (k - 1)\<bar> = - z + (k - 1)" using False k by simp
  moreover have "(- z + (k - 1)) div k = - (z div k)"
  proof -
    have r: "0 \<le> z mod k" "z mod k < k" using k by simp_all
    have "- z + (k - 1) = (k - 1 - z mod k) + (- (z div k)) * k"
      using div_mult_mod_eq [of z k] by (simp add: algebra_simps)
    then have "(- z + (k - 1)) div k = (k - 1 - z mod k) div k + - (z div k)"
      using k by (simp only: div_mult_self1)
    then show ?thesis using r by (simp add: div_pos_pos_trivial)
  qed
  ultimately show ?thesis using False k by (simp add: tdiv_def)
qed (simp add: tdiv_nonneg)

lemma sat_add_signed_exact:
  "0 \<le> int a + d \<Longrightarrow> int a + d \<le> int u64_max \<Longrightarrow> int (sat_add_signed_u64 a d) = int a + d"
  by (auto simp: sat_add_signed_u64_def)

lemma sat_add_signed_le [simp]: "sat_add_signed_u64 a d \<le> u64_max"
  by (simp add: sat_add_signed_u64_def)

lemma clamp_SomeD: "clamp x lo hi = Some y \<Longrightarrow> lo \<le> y \<and> y \<le> hi \<and> lo \<le> hi"
  by (auto simp: clamp_def split: if_splits)

lemma clamp_total: "lo \<le> hi \<Longrightarrow> clamp x lo hi = Some (max lo (min x hi))"
  by (simp add: clamp_def)

subsection \<open>Association lists in insertion order\<close>

text \<open>
  \<open>Vec<(K, V)>\<close> scanned with \<open>iter().find\<close>: the first entry with the key wins. \<open>al_put\<close> writes the
  first entry with the key in place and pushes a new entry when there is none.
\<close>

fun al_get :: "('k \<times> 'v) list \<Rightarrow> 'k \<Rightarrow> 'v option" where
  "al_get [] k = None"
| "al_get ((k', v) # xs) k = (if k' = k then Some v else al_get xs k)"

fun al_put :: "('k \<times> 'v) list \<Rightarrow> 'k \<Rightarrow> 'v \<Rightarrow> ('k \<times> 'v) list" where
  "al_put [] k v = [(k, v)]"
| "al_put ((k', v') # xs) k v = (if k' = k then (k', v) # xs else (k', v') # al_put xs k v)"

lemma al_get_put [simp]: "al_get (al_put xs k v) k' = (if k' = k then Some v else al_get xs k')"
  by (induction xs) auto

lemma al_put_put [simp]: "al_put (al_put xs k v) k w = al_put xs k w"
  by (induction xs) auto

lemma keys_al_put: "fst ` set (al_put xs k v) = insert k (fst ` set xs)"
proof (induction xs)
  case (Cons x xs)
  then show ?case by (cases x) (simp add: insert_commute)
qed simp

lemma distinct_al_put:
  "distinct (map fst xs) \<Longrightarrow> distinct (map fst (al_put xs k v))"
proof (induction xs)
  case (Cons x xs)
  then show ?case
    using keys_al_put [of xs k v] by (cases x) (auto simp flip: set_map)
qed simp

lemma al_put_keys_if_mem: "al_get xs k \<noteq> None \<Longrightarrow> map fst (al_put xs k v) = map fst xs"
  by (induction xs) (auto split: if_splits)

lemma al_put_same [simp]: "al_get xs k = Some v \<Longrightarrow> al_put xs k v = xs"
  by (induction xs) (auto split: if_splits)

lemma al_get_append: "al_get (xs @ ys) k = (case al_get xs k of Some v \<Rightarrow> Some v | None \<Rightarrow> al_get ys k)"
  by (induction xs) auto

lemma al_get_map: "al_get (map (\<lambda>(k, v). (k, f k v)) xs) k = map_option (f k) (al_get xs k)"
  by (induction xs) auto

lemma al_get_mem: "al_get xs k = Some v \<Longrightarrow> (k, v) \<in> set xs"
  by (induction xs) (auto split: if_splits)

lemma mem_al_get: "distinct (map fst xs) \<Longrightarrow> (k, v) \<in> set xs \<Longrightarrow> al_get xs k = Some v"
  by (induction xs) (force split: if_splits)+

lemma al_get_None: "al_get xs k = None \<longleftrightarrow> k \<notin> fst ` set xs"
proof (induction xs)
  case (Cons x xs)
  then show ?case by (cases x) auto
qed simp

lemma set_al_put_subset: "set (al_put xs k v) \<subseteq> insert (k, v) (set xs)"
proof (induction xs)
  case (Cons x xs)
  then show ?case by (cases x) (simp, blast)
qed simp

subsection \<open>Lists\<close>

text \<open>A loop over a list whose body may panic, collecting the results.\<close>

fun traverse :: "('a \<Rightarrow> 'b option) \<Rightarrow> 'a list \<Rightarrow> 'b list option" where
  "traverse f [] = Some []"
| "traverse f (x # xs) = do { y \<leftarrow> f x; ys \<leftarrow> traverse f xs; Some (y # ys) }"

lemma traverse_Some_iff: "traverse f xs = Some ys \<longleftrightarrow> map f xs = map Some ys"
proof (induction xs arbitrary: ys)
  case (Cons x xs)
  show ?case
    using Cons.IH [of "tl ys"] by (cases ys; cases "f x"; cases "traverse f xs") auto
qed auto

lemma traverse_total: "\<forall>x \<in> set xs. f x \<noteq> None \<Longrightarrow> traverse f xs \<noteq> None"
  by (induction xs) (auto split: bind_splits)

lemma foldl_max_ge_init: "(a::nat) \<le> foldl (\<lambda>m x. max m (f x)) a xs"
  by (induction xs arbitrary: a) (auto intro: order_trans [OF max.cobounded1])

lemma sum_list_update_int:
  "i < length xs \<Longrightarrow> sum_list (xs[i := x]) = sum_list xs - xs ! i + (x::int)"
  by (induction xs arbitrary: i) (auto simp: nth_Cons split: nat.splits)

end
