(* ===== verification/F64.thy ===== *)
theory F64
  imports Prelude
begin

text \<open>
  Rust's \<open>f64\<close>, as far as the program uses it: finite binary64 values are the rationals they
  denote, results of arithmetic are rounded to nearest, ties to even, with gradual underflow and
  overflow to infinity. The sign of zero is not represented (no modelled operation observes it).
  The rounding function is executable, and \<open>fl_mono\<close>, \<open>fl_pow2\<close> are what the breaker's error-rate
  comparison rests on.
\<close>

datatype f64 = NaN | Inf bool | Fin rat

fun bitlen :: "nat \<Rightarrow> nat" where
  "bitlen n = (if n = 0 then 0 else Suc (bitlen (n div 2)))"

declare bitlen.simps [simp del]

definition pow2 :: "int \<Rightarrow> rat" where
  "pow2 e = (if 0 \<le> e then 2 ^ nat e else 1 / 2 ^ nat (- e))"

definition exponent :: "rat \<Rightarrow> int" where
  "exponent x =
     (let (n, d) = quotient_of x; e = int (bitlen (nat n)) - int (bitlen (nat d))
      in if x < pow2 e then e - 1 else e)"

definition rne :: "rat \<Rightarrow> int" where
  "rne x =
     (let f = \<lfloor>x\<rfloor>; r = x - of_int f
      in if r < 1 / 2 then f else if 1 / 2 < r then f + 1 else if even f then f else f + 1)"

text \<open>Rounding of a positive rational to a multiple of the unit in the last place.\<close>

definition quantum :: "rat \<Rightarrow> int" where
  "quantum x = max (exponent x - 52) (-1074)"

definition round_pos :: "rat \<Rightarrow> rat" where
  "round_pos x = of_int (rne (x / pow2 (quantum x))) * pow2 (quantum x)"

definition fl :: "rat \<Rightarrow> f64" where
  "fl x =
     (if x = 0 then Fin 0
      else let v = round_pos \<bar>x\<bar>
           in if pow2 1024 \<le> v then Inf (x < 0) else Fin (if x < 0 then - v else v))"

fun f64_of_nat :: "nat \<Rightarrow> f64" where
  "f64_of_nat n = fl (of_nat n)"

fun f64_div :: "f64 \<Rightarrow> f64 \<Rightarrow> f64" where
  "f64_div (Fin a) (Fin b) =
     (if b = 0 then (if a = 0 then NaN else Inf (a < 0)) else fl (a / b))"
| "f64_div (Fin a) (Inf _) = Fin 0"
| "f64_div (Inf s) (Fin b) = Inf (s \<noteq> (b < 0))"
| "f64_div _ _ = NaN"

fun f64_mul :: "f64 \<Rightarrow> f64 \<Rightarrow> f64" where
  "f64_mul (Fin a) (Fin b) = fl (a * b)"
| "f64_mul (Inf s) (Fin b) = (if b = 0 then NaN else Inf (s \<noteq> (b < 0)))"
| "f64_mul (Fin a) (Inf s) = (if a = 0 then NaN else Inf (s \<noteq> (a < 0)))"
| "f64_mul (Inf s) (Inf t) = Inf (s \<noteq> t)"
| "f64_mul _ _ = NaN"

fun f64_add :: "f64 \<Rightarrow> f64 \<Rightarrow> f64" where
  "f64_add (Fin a) (Fin b) = fl (a + b)"
| "f64_add (Inf s) (Fin b) = Inf s"
| "f64_add (Fin a) (Inf s) = Inf s"
| "f64_add (Inf s) (Inf t) = (if s = t then Inf s else NaN)"
| "f64_add _ _ = NaN"

fun f64_neg :: "f64 \<Rightarrow> f64" where
  "f64_neg (Fin a) = Fin (- a)"
| "f64_neg (Inf s) = Inf (\<not> s)"
| "f64_neg NaN = NaN"

text \<open>\<open>a >= b\<close>: false when either side is a NaN.\<close>

fun f64_ge :: "f64 \<Rightarrow> f64 \<Rightarrow> bool" where
  "f64_ge (Fin a) (Fin b) = (b \<le> a)"
| "f64_ge (Inf s) (Fin b) = (\<not> s)"
| "f64_ge (Fin a) (Inf s) = s"
| "f64_ge (Inf s) (Inf t) = (t \<or> \<not> s)"
| "f64_ge _ _ = False"

definition f64_gt :: "f64 \<Rightarrow> f64 \<Rightarrow> bool" where
  "f64_gt a b \<longleftrightarrow> f64_ge a b \<and> \<not> f64_ge b a"

fun f64_is_finite :: "f64 \<Rightarrow> bool" where
  "f64_is_finite (Fin _) = True"
| "f64_is_finite _ = False"

subsection \<open>Powers of two and exponents\<close>

lemma pow2_pos [simp]: "0 < pow2 e"
  by (simp add: pow2_def)

lemma pow2_nonzero [simp]: "pow2 e \<noteq> 0"
  by (simp add: pow2_def)

lemma pow2_not_neg [simp]: "\<not> pow2 e < 0" and pow2_nonneg [simp]: "0 \<le> pow2 e"
  using pow2_pos [of e] by (simp_all add: not_less less_imp_le)

lemma pow2_add: "pow2 (a + b) = pow2 a * pow2 b"
proof -
  have eq: "pow2 e = 2 powi e" for e
    by (simp add: pow2_def power_int_def field_simps)
  show ?thesis by (simp add: eq power_int_add)
qed

lemma pow2_Suc: "pow2 (e + 1) = 2 * pow2 e"
  by (simp add: pow2_add) (simp add: pow2_def)

lemma pow2_mono: "a \<le> b \<Longrightarrow> pow2 a \<le> pow2 b"
proof -
  assume "a \<le> b"
  then have "pow2 b = pow2 a * pow2 (b - a)" by (simp flip: pow2_add)
  moreover have "1 \<le> pow2 (b - a)" using \<open>a \<le> b\<close> by (simp add: pow2_def)
  ultimately show ?thesis by (simp add: mult_le_cancel_left1)
qed

lemma pow2_less_cancel: "pow2 a < pow2 b \<Longrightarrow> a < b"
  using pow2_mono [of b a] by (cases "a < b") auto

lemma bitlen_bounds: "0 < n \<Longrightarrow> 2 ^ (bitlen n - 1) \<le> n \<and> n < 2 ^ bitlen n \<and> 0 < bitlen n"
proof (induction n rule: bitlen.induct)
  case (1 n)
  show ?case
  proof (cases "n = 1")
    case True
    then show ?thesis by (simp add: bitlen.simps)
  next
    case False
    with 1 have IH: "2 ^ (bitlen (n div 2) - 1) \<le> n div 2" "n div 2 < 2 ^ bitlen (n div 2)"
      "0 < bitlen (n div 2)"
      by (auto simp: Suc_le_eq)
    moreover have "bitlen n = Suc (bitlen (n div 2))"
      using 1 by (subst bitlen.simps) simp
    moreover obtain k where "bitlen (n div 2) = Suc k"
      using IH(3) gr0_conv_Suc by blast
    ultimately have lo: "2 ^ k \<le> n div 2" and hi: "n div 2 < 2 * 2 ^ k"
      and len: "bitlen n = Suc (Suc k)" by simp_all
    have "2 * 2 ^ k \<le> n" using lo by linarith
    moreover have "n < 4 * 2 ^ k" using hi by linarith
    ultimately show ?thesis using len by simp
  qed
qed

lemma exponent_bounds:
  assumes "0 < x"
  shows "pow2 (exponent x) \<le> x \<and> x < pow2 (exponent x + 1)"
proof -
  obtain n d where nd: "quotient_of x = (n, d)" by (cases "quotient_of x")
  have d: "0 < d" and x: "x = of_int n / of_int d"
    using quotient_of_denom_pos [OF nd] quotient_of_div [OF nd] by simp_all
  with assms have n: "0 < n" by (simp add: zero_less_divide_iff)
  define N D where "N = nat n" and "D = nat d"
  then have pos: "0 < N" "0 < D" and xq: "x = of_nat N / of_nat D"
    using n d x by simp_all
  define e where "e = int (bitlen N) - int (bitlen D)"
  have pw: "pow2 (int k) = 2 ^ k" for k by (simp add: pow2_def)
  have N: "pow2 (int (bitlen N) - 1) \<le> of_nat N" "of_nat N < pow2 (int (bitlen N))"
    and D: "pow2 (int (bitlen D) - 1) \<le> of_nat D" "of_nat D < pow2 (int (bitlen D))"
    using bitlen_bounds [OF pos(1)] bitlen_bounds [OF pos(2)]
    by (auto simp: pw pow2_def nat_diff_distrib simp flip: of_nat_le_iff of_nat_less_iff)
  have D0: "0 < (of_nat D :: rat)" using pos by simp
  have "pow2 (e - 1) * of_nat D < pow2 (e - 1) * pow2 (int (bitlen D))"
    using D(2) by simp
  also have "\<dots> = pow2 (int (bitlen N) - 1)" by (simp add: e_def flip: pow2_add)
  finally have lo: "pow2 (e - 1) \<le> x"
    using N(1) D0 by (simp add: xq pos_le_divide_eq)
  have "of_nat N < pow2 (int (bitlen N))" by (rule N(2))
  also have "\<dots> = pow2 (e + 1) * pow2 (int (bitlen D) - 1)" by (simp add: e_def flip: pow2_add)
  also have "\<dots> \<le> pow2 (e + 1) * of_nat D" using D(1) by simp
  finally have hi: "x < pow2 (e + 1)"
    using D0 by (simp add: xq pos_divide_less_eq)
  have "exponent x = (if x < pow2 e then e - 1 else e)"
    by (simp add: exponent_def nd e_def N_def D_def)
  then show ?thesis using lo hi by auto
qed

lemma exponent_unique: "pow2 e \<le> x \<Longrightarrow> x < pow2 (e + 1) \<Longrightarrow> exponent x = e"
proof -
  assume e: "pow2 e \<le> x" "x < pow2 (e + 1)"
  then have "0 < x" using pow2_pos [of e] by linarith
  note b = exponent_bounds [OF this]
  have "pow2 e < pow2 (exponent x + 1)" and "pow2 (exponent x) < pow2 (e + 1)"
    using e b by linarith+
  then show ?thesis by (auto dest!: pow2_less_cancel)
qed

lemma exponent_mono: "0 < x \<Longrightarrow> x \<le> y \<Longrightarrow> exponent x \<le> exponent y"
proof -
  assume "0 < x" "x \<le> y"
  then have "pow2 (exponent x) < pow2 (exponent y + 1)"
    using exponent_bounds [of x] exponent_bounds [of y] by linarith
  then show ?thesis by (auto dest!: pow2_less_cancel)
qed

subsection \<open>Rounding is monotone and exact on representable values\<close>

lemma rne_bounds: "\<lfloor>x\<rfloor> \<le> rne x \<and> rne x \<le> \<lfloor>x\<rfloor> + 1"
  by (simp add: rne_def Let_def)

lemma rne_of_int [simp]: "rne (of_int k) = k"
  by (simp add: rne_def)

lemma rne_mono: "x \<le> y \<Longrightarrow> rne x \<le> rne y"
proof (cases "\<lfloor>x\<rfloor> = \<lfloor>y\<rfloor>")
  case True
  moreover assume "x \<le> y"
  ultimately show ?thesis by (auto simp: rne_def Let_def)
next
  case False
  moreover assume "x \<le> y"
  ultimately have "\<lfloor>x\<rfloor> + 1 \<le> \<lfloor>y\<rfloor>" using floor_mono [of x y] by simp
  then show ?thesis using rne_bounds [of x] rne_bounds [of y] by linarith
qed

lemma rne_le: "x \<le> of_int k \<Longrightarrow> rne x \<le> k" and rne_ge: "of_int k \<le> x \<Longrightarrow> k \<le> rne x"
  using rne_mono [of x "of_int k"] rne_mono [of "of_int k" x] by simp_all

lemma pow2_multiple:
  assumes "q \<le> e"
  shows "\<exists>k. pow2 e = of_int k * pow2 q"
proof
  show "pow2 e = of_int (2 ^ nat (e - q)) * pow2 q"
    using assms pow2_add [of "e - q" q] by (simp add: pow2_def)
qed

lemma round_pos_le_pow2: "0 < x \<Longrightarrow> x \<le> pow2 e \<Longrightarrow> quantum x \<le> e \<Longrightarrow> round_pos x \<le> pow2 e"
proof -
  assume x: "0 < x" "x \<le> pow2 e" "quantum x \<le> e"
  then obtain k where k: "pow2 e = of_int k * pow2 (quantum x)"
    using pow2_multiple by blast
  with x(2) have "x / pow2 (quantum x) \<le> of_int k" by (simp add: pos_divide_le_eq)
  then show ?thesis using rne_le k by (simp add: round_pos_def)
qed

lemma round_pos_ge_pow2: "0 < x \<Longrightarrow> pow2 e \<le> x \<Longrightarrow> quantum x \<le> e \<Longrightarrow> pow2 e \<le> round_pos x"
proof -
  assume x: "0 < x" "pow2 e \<le> x" "quantum x \<le> e"
  then obtain k where k: "pow2 e = of_int k * pow2 (quantum x)"
    using pow2_multiple by blast
  with x(2) have "of_int k \<le> x / pow2 (quantum x)" by (simp add: pos_le_divide_eq)
  then show ?thesis using rne_ge k by (simp add: round_pos_def)
qed

lemma round_pos_mono:
  assumes "0 < x" "x \<le> y"
  shows "round_pos x \<le> round_pos y"
proof (cases "quantum x = quantum y")
  case True
  have "x / pow2 (quantum x) \<le> y / pow2 (quantum x)"
    using assms(2) by (simp add: divide_right_mono less_imp_le)
  then show ?thesis
    using rne_mono True by (simp add: round_pos_def)
next
  case False
  have y: "0 < y" using assms by linarith
  have le: "exponent x \<le> exponent y" using exponent_mono assms by blast
  with False have lt: "exponent x + 1 \<le> exponent y" "quantum y = exponent y - 52"
    "quantum x \<le> exponent y"
    by (auto simp: quantum_def max_def split: if_splits)
  have "x \<le> pow2 (exponent y)"
    using exponent_bounds [OF assms(1)] pow2_mono [OF lt(1)] by linarith
  then have "round_pos x \<le> pow2 (exponent y)"
    using round_pos_le_pow2 assms(1) lt(3) by blast
  also have "\<dots> \<le> round_pos y"
    using round_pos_ge_pow2 [OF y] exponent_bounds [OF y] lt(2) by simp
  finally show ?thesis .
qed

lemma round_pos_nonneg: "0 < x \<Longrightarrow> 0 \<le> round_pos x"
  using rne_ge [of 0 "x / pow2 (quantum x)"] by (simp add: round_pos_def less_imp_le)

lemma fl_pow2: "-1074 \<le> e \<Longrightarrow> e < 1024 \<Longrightarrow> fl (pow2 e) = Fin (pow2 e)"
proof -
  assume e: "-1074 \<le> e" "e < 1024"
  have "exponent (pow2 e) = e" by (rule exponent_unique) (simp_all add: pow2_Suc)
  then have "quantum (pow2 e) \<le> e" using e by (simp add: quantum_def)
  then have "round_pos (pow2 e) = pow2 e"
    using round_pos_le_pow2 [of "pow2 e" e] round_pos_ge_pow2 [of "pow2 e" e] by force
  moreover have "pow2 e < pow2 1024"
    using e pow2_mono [of "e + 1" 1024] pow2_pos [of e] unfolding pow2_Suc by linarith
  ultimately show ?thesis by (simp add: fl_def Let_def)
qed

lemma fl_0 [simp]: "fl 0 = Fin 0" and fl_1 [simp]: "fl 1 = Fin 1"
  using fl_pow2 [of 0] by (simp_all add: fl_def pow2_def)

lemma fl_mono: "0 \<le> x \<Longrightarrow> x \<le> y \<Longrightarrow> f64_ge (fl x) t \<Longrightarrow> f64_ge (fl y) t"
proof -
  assume a: "0 \<le> x" "x \<le> y" "f64_ge (fl x) t"
  consider "x = 0" "y = 0" | "x = 0" "0 < y" | "0 < x" using a by linarith
  then show ?thesis
  proof cases
    case 2
    then show ?thesis
      using a round_pos_nonneg [of y] by (cases t) (auto simp: fl_def Let_def)
  next
    case 3
    then show ?thesis
      using a round_pos_mono [of x y] by (cases t) (auto simp: fl_def Let_def split: if_splits)
  qed (use a in simp)
qed

text \<open>Integers below \<open>2^53\<close> convert exactly.\<close>

lemma fl_of_nat_exact: "n < 2 ^ 53 \<Longrightarrow> fl (of_nat n) = Fin (of_nat n)"
proof (cases "n = 0")
  case False
  assume n: "n < 2 ^ 53"
  have x0: "0 < (of_nat n :: rat)" using False by simp
  have "(of_nat n :: rat) < of_nat (2 ^ 53)" using n by (simp only: of_nat_less_iff)
  then have lt: "(of_nat n :: rat) < pow2 53" by (simp add: pow2_def)
  have "exponent (of_nat n) < 53"
    using pow2_less_cancel exponent_bounds [OF x0] lt by (meson order_le_less_trans)
  then have q: "quantum (of_nat n) \<le> 0" by (simp add: quantum_def)
  then obtain k where k: "1 = of_int k * pow2 (quantum (of_nat n))"
    using pow2_multiple [OF q] by (auto simp: pow2_def)
  then have "of_nat n / pow2 (quantum (of_nat n)) = of_int (int n * k)"
    by (metis (no_types) mult.assoc mult.right_neutral nonzero_mult_div_cancel_right of_int_mult
        of_int_of_nat_eq pow2_nonzero)
  then have "round_pos (of_nat n) = of_int (int n * k) * pow2 (quantum (of_nat n))"
    by (simp only: round_pos_def rne_of_int)
  also have "\<dots> = of_nat n" using k by simp
  finally have "round_pos (of_nat n) = of_nat n" .
  moreover have "pow2 53 \<le> pow2 1024" by (rule pow2_mono) simp
  ultimately show ?thesis using lt False by (simp add: fl_def)
qed simp

end
