(* ===== verification/Window.thy ===== *)
theory Window
  imports F64
begin

text \<open>
  The bounded sliding window of request outcomes (\<open>OutcomeWindow\<close> of
  \<open>crates/busbar/src/store/in_memory.rs\<close>) that feeds the error-rate trip signal, and the trip
  decision on the counts it reports. The interface the breaker relies on is the locale
  \<open>outcome_log\<close>; its interpretation on the modelled window is at the end.
\<close>

record OutcomeWindow =
  entries :: "(nat \<times> bool) list"
  capacity :: nat

definition OUTCOME_WINDOW_CAPACITY :: nat where
  "OUTCOME_WINDOW_CAPACITY = 1024"

definition ow_new :: "nat \<Rightarrow> OutcomeWindow" where
  "ow_new cap = \<lparr>entries = [], capacity = cap\<rparr>"

definition ow_push :: "OutcomeWindow \<Rightarrow> nat \<Rightarrow> bool \<Rightarrow> OutcomeWindow" where
  "ow_push w ts is_error =
     (let es = (if capacity w \<le> length (entries w) then tl (entries w) else entries w)
      in w\<lparr>entries := es @ [(ts, is_error)]\<rparr>)"

definition count_in_window :: "OutcomeWindow \<Rightarrow> nat \<Rightarrow> nat \<Rightarrow> nat" where
  "count_in_window w now window_s = length (filter (\<lambda>(ts, _). now - window_s \<le> ts) (entries w))"

definition error_count_in_window :: "OutcomeWindow \<Rightarrow> nat \<Rightarrow> nat \<Rightarrow> nat" where
  "error_count_in_window w now window_s =
     length (filter (\<lambda>(ts, e). now - window_s \<le> ts \<and> e) (entries w))"

definition ow_clear :: "OutcomeWindow \<Rightarrow> OutcomeWindow" where
  "ow_clear w = w\<lparr>entries := []\<rparr>"

subsection \<open>The window is the most recent suffix of the outcome log\<close>

definition ow_wf :: "OutcomeWindow \<Rightarrow> bool" where
  "ow_wf w \<longleftrightarrow> 0 < capacity w \<and> length (entries w) \<le> capacity w"

definition last_n :: "nat \<Rightarrow> 'a list \<Rightarrow> 'a list" where
  "last_n n xs = drop (length xs - n) xs"

lemma last_n_all [simp]: "length xs \<le> n \<Longrightarrow> last_n n xs = xs"
  by (simp add: last_n_def)

lemma length_last_n [simp]: "length (last_n n xs) = min n (length xs)"
  by (simp add: last_n_def)

lemma last_n_snoc: "0 < n \<Longrightarrow> last_n n (last_n n xs @ [x]) = last_n n (xs @ [x])"
proof (cases "length xs < n")
  case False
  moreover assume "0 < n"
  ultimately show ?thesis
    by (simp add: last_n_def Suc_diff_le drop_Suc)
qed simp

lemma ow_push_entries:
  "ow_wf w \<Longrightarrow> entries (ow_push w ts e) = last_n (capacity w) (entries w @ [(ts, e)])"
  by (auto simp: ow_wf_def ow_push_def last_n_def Let_def drop_Suc)

lemma ow_push_capacity [simp]: "capacity (ow_push w ts e) = capacity w"
  by (simp add: ow_push_def Let_def)

lemma ow_push_wf [wf_intros]: "ow_wf w \<Longrightarrow> ow_wf (ow_push w ts e)"
  by (auto simp: ow_wf_def ow_push_def Let_def)

lemma ow_clear_wf [wf_intros]: "ow_wf w \<Longrightarrow> ow_wf (ow_clear w)"
  by (simp add: ow_wf_def ow_clear_def)

lemma ow_new_wf [wf_intros]: "ow_wf (ow_new OUTCOME_WINDOW_CAPACITY)"
  by (simp add: ow_wf_def ow_new_def OUTCOME_WINDOW_CAPACITY_def)

lemma foldl_ow_push:
  "ow_wf w \<Longrightarrow>
   capacity (foldl (\<lambda>v (ts, e). ow_push v ts e) w xs) = capacity w
   \<and> ow_wf (foldl (\<lambda>v (ts, e). ow_push v ts e) w xs)
   \<and> entries (foldl (\<lambda>v (ts, e). ow_push v ts e) w xs) = last_n (capacity w) (entries w @ xs)"
proof (induction xs rule: rev_induct)
  case Nil
  then show ?case by (simp add: ow_wf_def)
next
  case (snoc x xs)
  obtain ts e where x: "x = (ts, e)" by (cases x)
  let ?v = "foldl (\<lambda>v (ts, e). ow_push v ts e) w xs"
  from snoc have v: "capacity ?v = capacity w" "ow_wf ?v"
    "entries ?v = last_n (capacity w) (entries w @ xs)" by simp_all
  have cap: "0 < capacity w" using snoc.prems by (simp add: ow_wf_def)
  have "entries (ow_push ?v ts e) = last_n (capacity w) (entries w @ xs @ [(ts, e)])"
    using v last_n_snoc [OF cap, of "entries w @ xs"] by (simp add: ow_push_entries)
  with v show ?case by (simp add: x ow_push_wf)
qed

lemma error_le_count: "error_count_in_window w now s \<le> count_in_window w now s"
proof -
  have "length (filter (\<lambda>(ts, e). now - s \<le> ts \<and> e) es)
      \<le> length (filter (\<lambda>(ts, _). now - s \<le> ts) es)" for es :: "(nat \<times> bool) list"
    by (induction es) auto
  then show ?thesis by (simp add: count_in_window_def error_count_in_window_def)
qed

lemma count_le_capacity: "ow_wf w \<Longrightarrow> count_in_window w now s \<le> capacity w"
  unfolding count_in_window_def ow_wf_def by (meson length_filter_le order_trans)

subsection \<open>The interface the breaker relies on\<close>

text \<open>
  A log of outcomes that reports how many outcomes and how many errors lie in a time window.
\<close>

locale outcome_log =
  fixes push :: "'w \<Rightarrow> nat \<Rightarrow> bool \<Rightarrow> 'w"
    and total :: "'w \<Rightarrow> nat \<Rightarrow> nat \<Rightarrow> nat"
    and errors :: "'w \<Rightarrow> nat \<Rightarrow> nat \<Rightarrow> nat"
    and clear :: "'w \<Rightarrow> 'w"
    and ok :: "'w \<Rightarrow> bool"
    and bound :: nat
  assumes errors_le_total: "errors w now s \<le> total w now s"
    and total_bounded: "ok w \<Longrightarrow> total w now s \<le> bound"
    and total_clear: "total (clear w) now s = 0"
    and ok_push: "ok w \<Longrightarrow> ok (push w ts e)"
    and ok_clear: "ok w \<Longrightarrow> ok (clear w)"
    and bound_small: "bound < 2 ^ 53"
begin

definition rate_reached :: "'w \<Rightarrow> nat \<Rightarrow> nat \<Rightarrow> f64 \<Rightarrow> bool" where
  "rate_reached w now s thr =
     f64_ge (f64_div (f64_of_nat (errors w now s)) (f64_of_nat (total w now s))) thr"

text \<open>On the counts a log can report, the comparison sees the correctly rounded fraction.\<close>

lemma rate_exact:
  assumes "ok w" and "0 < total w now s"
  shows "rate_reached w now s thr =
    f64_ge (fl (of_nat (errors w now s) / of_nat (total w now s))) thr"
proof -
  have "total w now s < 2 ^ 53" and "errors w now s < 2 ^ 53"
    using total_bounded [OF assms(1), of now s] errors_le_total [of w now s] bound_small
    by linarith+
  then show ?thesis
    using assms(2) by (simp add: rate_reached_def fl_of_nat_exact)
qed

lemma rate_all_errors:
  assumes "ok w" and "0 < total w now s" and "errors w now s = total w now s"
    and "thr = Fin t" and "t \<le> 1"
  shows "rate_reached w now s thr"
  using assms by (simp add: rate_exact)

lemma rate_no_errors:
  assumes "ok w" and "0 < total w now s" and "errors w now s = 0" and "thr = Fin t" and "0 < t"
  shows "\<not> rate_reached w now s thr"
  using assms by (simp add: rate_exact)

lemma rate_mono:
  assumes "ok w" "ok v" and "0 < total w now s" and "total v now' s' = total w now s"
    and "errors w now s \<le> errors v now' s'" and "rate_reached w now s thr"
  shows "rate_reached v now' s' thr"
proof -
  have "(of_nat (errors w now s) / of_nat (total w now s) :: rat)
      \<le> of_nat (errors v now' s') / of_nat (total v now' s')"
    using assms(4,5) by (simp add: divide_right_mono)
  then show ?thesis
    using assms rate_exact [of w now s thr] rate_exact [of v now' s' thr]
    by (auto intro: fl_mono [rotated 2])
qed

end

interpretation ow: outcome_log ow_push count_in_window error_count_in_window ow_clear
  "\<lambda>w. ow_wf w \<and> capacity w = OUTCOME_WINDOW_CAPACITY" OUTCOME_WINDOW_CAPACITY
proof (unfold_locales, goal_cases)
  case (2 w now s)
  then show ?case using count_le_capacity [of w now s] by simp
next
  case (3 w now s)
  show ?case by (simp add: count_in_window_def ow_clear_def)
next
  case (5 w)
  then show ?case by (simp add: ow_clear_wf) (simp add: ow_clear_def)
next
  case 6
  show ?case by (simp add: OUTCOME_WINDOW_CAPACITY_def)
qed (auto intro: error_le_count wf_intros)

text \<open>
  After any sequence of outcomes the window holds exactly the last \<open>capacity\<close> outcomes,
  oldest first, so its memory is bounded and its counts are counts of recent outcomes.
\<close>
theorem window_is_recent_suffix:
  assumes "0 < cap"
  shows "entries (foldl (\<lambda>v (ts, e). ow_push v ts e) (ow_new cap) xs) = last_n cap xs"
  using foldl_ow_push [of "ow_new cap" xs] assms by (simp add: ow_new_def ow_wf_def)

theorem window_is_recent_suffix_witness:
  "entries (foldl (\<lambda>v (ts, e). ow_push v ts e) (ow_new 2) [(1, True), (2, False), (3, True)])
   = [(2, False), (3, True)]"
  using window_is_recent_suffix [of 2 "[(1, True), (2, False), (3, True)]"]
  by (simp add: last_n_def)

end
