(* ===== verification/Hash.thy ===== *)
theory Hash
  imports Prelude
begin

text \<open>
  FNV-1a, as \<open>crates/busbar/src/store/in_memory.rs\<close> uses it: over the bytes of a pool name, to pick
  the lock shard its selections serialise on, and over three 128-bit inputs, to seed the cooldown
  jitter. A string is its byte sequence.
\<close>

unbundle bit_operations_syntax

definition FNV1A_OFFSET_BASIS :: nat where
  "FNV1A_OFFSET_BASIS = 0xcbf29ce484222325"

definition FNV1A_PRIME :: nat where
  "FNV1A_PRIME = 0x100000001b3"

definition fnv1a_u64 :: "string \<Rightarrow> nat" where
  "fnv1a_u64 s = foldl (\<lambda>hash byte. wrap_u64 ((hash XOR of_char byte) * FNV1A_PRIME)) FNV1A_OFFSET_BASIS s"

definition SWRR_SHARDS :: nat where
  "SWRR_SHARDS = 64"

definition swrr_shard_index :: "string \<Rightarrow> nat" where
  "swrr_shard_index pool = fnv1a_u64 pool AND (SWRR_SHARDS - 1)"

text \<open>The seed mixer of \<open>compute_cooldown_with_retry_after\<close>: the same fold on 128-bit parts.\<close>

definition jitter_seed :: "nat \<Rightarrow> nat \<Rightarrow> nat \<Rightarrow> nat" where
  "jitter_seed time_seed cell_id st =
     foldl (\<lambda>seed part. wrap_u128 ((seed XOR part) * FNV1A_PRIME)) FNV1A_OFFSET_BASIS
       [time_seed, cell_id, st]"

lemma fnv1a_u64_range: "fnv1a_u64 s \<le> u64_max"
proof (cases s rule: rev_cases)
  case Nil
  then show ?thesis by (simp add: fnv1a_u64_def FNV1A_OFFSET_BASIS_def u64_max_def)
next
  case (snoc ys y)
  then show ?thesis by (simp add: fnv1a_u64_def)
qed

text \<open>The mask is a reduction modulo the number of shards, so the shard array is never overrun.\<close>

lemma swrr_shard_index_mod: "swrr_shard_index pool = fnv1a_u64 pool mod SWRR_SHARDS"
proof -
  have m: "SWRR_SHARDS - 1 = (mask 6 :: nat)" by (simp add: SWRR_SHARDS_def mask_eq_exp_minus_1)
  show ?thesis
    unfolding swrr_shard_index_def m by (simp add: SWRR_SHARDS_def take_bit_eq_mod flip: take_bit_eq_mask)
qed

lemma swrr_shard_index_lt: "swrr_shard_index pool < SWRR_SHARDS"
  by (simp add: swrr_shard_index_mod) (simp add: SWRR_SHARDS_def)

end
