(* ===== verification/Cell.thy ===== *)
theory Cell
  imports Window Hash
begin

text \<open>
  One circuit-breaker cell (\<open>BreakerCell\<close> and the static \<open>cell_*\<close> functions of
  \<open>crates/busbar/src/store/in_memory.rs\<close>) with the configuration that drives it. Every state change
  of a cell runs under its transition lock, so each operation is one atomic step of the model; the
  wall clock, the nanosecond reading and the cell's address (both only feed the jitter seed) are
  arguments. The state is stored as in the code, as a number with three legal values; an operation
  that can panic (\<open>clamp\<close>) returns \<open>None\<close> for the panic.
\<close>

subsection \<open>Configuration\<close>

datatype TripMode = ErrorRate | Consecutive

record TripConfig =
  mode :: TripMode
  window_s :: nat
  threshold :: f64
  min_requests :: nat
  consecutive_n :: nat

definition TripConfig_default :: TripConfig where
  "TripConfig_default = \<lparr>mode = ErrorRate, window_s = 30, threshold = Fin (1 / 2), min_requests = 5,
     consecutive_n = 3\<rparr>"

record BreakerCfg =
  base_cooldown_secs :: nat
  max_cooldown_secs :: nat
  honor_retry_after :: bool
  trip :: TripConfig

definition BreakerCfg_default :: BreakerCfg where
  "BreakerCfg_default = \<lparr>base_cooldown_secs = 15, max_cooldown_secs = 120, honor_retry_after = True,
     trip = TripConfig_default\<rparr>"

text \<open>The parsed \<open>breaker:\<close> block of a pool (\<open>config::BreakerCfg\<close>), before it is resolved.\<close>

record ConfigBreakerCfg =
  cfg_base_cooldown_secs :: nat
  cfg_max_cooldown_secs :: nat
  cfg_trip :: "TripConfig option"

definition BreakerCfg_from :: "ConfigBreakerCfg \<Rightarrow> BreakerCfg" where
  "BreakerCfg_from c = \<lparr>base_cooldown_secs = cfg_base_cooldown_secs c,
     max_cooldown_secs = cfg_max_cooldown_secs c, honor_retry_after = True,
     trip = (case cfg_trip c of Some t \<Rightarrow> t | None \<Rightarrow> TripConfig_default)\<rparr>"

text \<open>Rule 6 of the configuration validator: the errors it reports for one breaker block.\<close>

datatype BreakerCfgError = ZeroBaseCooldown | ZeroMaxCooldown | MaxBelowBase | ZeroMinRequests
  | ZeroWindow | BadThreshold | ZeroConsecutive

definition validate_breaker :: "ConfigBreakerCfg \<Rightarrow> BreakerCfgError list" where
  "validate_breaker c =
     (if cfg_base_cooldown_secs c = 0 then [ZeroBaseCooldown] else []) @
     (if cfg_max_cooldown_secs c = 0 then [ZeroMaxCooldown] else []) @
     (if cfg_max_cooldown_secs c < cfg_base_cooldown_secs c then [MaxBelowBase] else []) @
     (case cfg_trip c of None \<Rightarrow> [] | Some t \<Rightarrow>
        (if min_requests t = 0 then [ZeroMinRequests] else []) @
        (if window_s t = 0 then [ZeroWindow] else []) @
        (case mode t of
           ErrorRate \<Rightarrow>
             if \<not> (f64_gt (threshold t) (Fin 0) \<and> f64_ge (Fin 1) (threshold t))
             then [BadThreshold] else []
         | Consecutive \<Rightarrow> if consecutive_n t = 0 then [ZeroConsecutive] else []))"

subsection \<open>State\<close>

definition ST_CLOSED :: nat where
  "ST_CLOSED = 0"

definition ST_OPEN :: nat where
  "ST_OPEN = 1"

definition ST_HALF_OPEN :: nat where
  "ST_HALF_OPEN = 2"

lemmas st_defs = ST_CLOSED_def ST_OPEN_def ST_HALF_OPEN_def

definition restored_breaker_state :: "nat \<Rightarrow> nat" where
  "restored_breaker_state state = (if state = ST_HALF_OPEN then ST_OPEN else state)"

datatype BreakerState = Closed | Open nat | HalfOpen

record BreakerCell =
  breaker_state :: nat
  streak :: nat
  cooldown_until :: nat
  probe_in_flight :: bool
  probe_epoch :: nat
  err :: nat
  outcome_window :: OutcomeWindow
  current_weight :: int

definition BreakerCell_new :: BreakerCell where
  "BreakerCell_new = \<lparr>breaker_state = ST_CLOSED, streak = 0, cooldown_until = 0,
     probe_in_flight = False, probe_epoch = 0, err = 0,
     outcome_window = ow_new OUTCOME_WINDOW_CAPACITY, current_weight = 0\<rparr>"

subsection \<open>Operations\<close>

definition should_trip :: "BreakerCell \<Rightarrow> nat \<Rightarrow> BreakerCfg \<Rightarrow> bool" where
  "should_trip c now cfg =
     (case mode (trip cfg) of
        ErrorRate \<Rightarrow>
          (let count = count_in_window (outcome_window c) now (window_s (trip cfg))
           in if count < min_requests (trip cfg) then False
              else (let errors = error_count_in_window (outcome_window c) now (window_s (trip cfg))
                    in f64_ge (f64_div (f64_of_nat errors) (f64_of_nat count)) (threshold (trip cfg))))
      | Consecutive \<Rightarrow> consecutive_n (trip cfg) \<le> streak c)"

text \<open>The doubling backoff before jitter.\<close>

definition backoff :: "BreakerCfg \<Rightarrow> nat \<Rightarrow> nat" where
  "backoff cfg st =
     (if st = 0 then base_cooldown_secs cfg
      else let shifted = base_cooldown_secs cfg * 2 ^ min st 63
           in min (if shifted \<le> u64_max then shifted else u64_max) (max_cooldown_secs cfg))"

text \<open>
  The signed jitter of at most a tenth of the duration (at least one second). The casts to \<open>i64\<close>
  are exact, since the span is at most \<open>2 * (u64::MAX / 10) + 1\<close>.
\<close>

definition apply_jitter :: "nat \<Rightarrow> nat \<Rightarrow> nat" where
  "apply_jitter duration seed =
     (let jitter_range = max (duration div 10) 1;
          span = 2 * jitter_range + 1;
          unbiased = int (seed mod span);
          jitter = unbiased - int jitter_range
      in if 0 \<le> jitter then sat_add_u64 duration (nat jitter) else duration - nat (- jitter))"

definition compute_cooldown_with_retry_after ::
  "BreakerCell \<Rightarrow> BreakerCfg \<Rightarrow> nat option \<Rightarrow> nat \<Rightarrow> nat \<times> nat \<Rightarrow> nat option" where
  "compute_cooldown_with_retry_after c cfg retry_after max_honored sd =
     (let d0 = backoff cfg (streak c);
          jittered = apply_jitter d0 (jitter_seed (fst sd) (snd sd) (streak c))
      in do {
        duration \<leftarrow> clamp jittered (max (d0 div 2) 1) (max_cooldown_secs cfg);
        Some (case (honor_retry_after cfg, retry_after) of
            (True, Some ra) \<Rightarrow> max duration (min ra max_honored)
          | (False, Some _) \<Rightarrow> duration
          | (_, None) \<Rightarrow> duration)
      })"

definition cell_open_locked ::
  "BreakerCell \<Rightarrow> nat \<Rightarrow> BreakerCfg \<Rightarrow> nat option \<Rightarrow> nat \<Rightarrow> nat \<times> nat \<Rightarrow> BreakerCell option" where
  "cell_open_locked c now cfg retry_after max_honored sd =
     do {
       duration \<leftarrow> compute_cooldown_with_retry_after c cfg retry_after max_honored sd;
       Some (c\<lparr>cooldown_until := sat_add_u64 now duration, breaker_state := ST_OPEN,
               probe_in_flight := False\<rparr>)
     }"

definition cell_closed_locked :: "BreakerCell \<Rightarrow> BreakerCell" where
  "cell_closed_locked c =
     c\<lparr>streak := 0, outcome_window := ow_clear (outcome_window c), cooldown_until := 0,
       breaker_state := ST_CLOSED, probe_in_flight := False\<rparr>"

definition suppressed :: "BreakerCell \<Rightarrow> nat \<Rightarrow> bool" where
  "suppressed c now \<longleftrightarrow> breaker_state c \<noteq> ST_CLOSED \<or> now < cooldown_until c"

definition cell_closed_if_recoverable ::
  "BreakerCell \<Rightarrow> nat \<Rightarrow> nat \<Rightarrow> BreakerCell \<times> bool" where
  "cell_closed_if_recoverable c now observed_cooldown =
     (if observed_cooldown < cooldown_until c then (c, False)
      else if suppressed c now then (cell_closed_locked c, True) else (c, False))"

definition reset_swrr :: "BreakerCell \<Rightarrow> BreakerCell" where
  "reset_swrr c = c\<lparr>current_weight := 0\<rparr>"

definition cell_release_probe :: "BreakerCell \<Rightarrow> BreakerCell" where
  "cell_release_probe c =
     c\<lparr>breaker_state := (if breaker_state c = ST_HALF_OPEN then ST_OPEN else breaker_state c),
       probe_in_flight := False\<rparr>"

definition cell_release_probe_owned :: "BreakerCell \<Rightarrow> nat \<Rightarrow> BreakerCell" where
  "cell_release_probe_owned c owned_epoch =
     (if probe_epoch c \<noteq> owned_epoch then c
      else c\<lparr>breaker_state := (if breaker_state c = ST_HALF_OPEN then ST_OPEN else breaker_state c),
             probe_in_flight := False\<rparr>)"

definition cell_ready_breaker :: "BreakerCell \<Rightarrow> nat \<Rightarrow> bool" where
  "cell_ready_breaker c now =
     (if breaker_state c = ST_CLOSED then cooldown_until c \<le> now
      else if breaker_state c = ST_OPEN then cooldown_until c \<le> now
      else False)"

text \<open>
  The lock-free pre-check of \<open>cell_acquire_breaker\<close> and the section it runs under the transition
  lock, which re-reads what the pre-check saw.
\<close>

definition acquire_locked :: "BreakerCell \<Rightarrow> nat \<Rightarrow> BreakerCell \<times> bool" where
  "acquire_locked c now =
     (if breaker_state c \<noteq> ST_OPEN \<or> now < cooldown_until c then (c, False)
      else (c\<lparr>breaker_state := ST_HALF_OPEN, probe_epoch := wrap_u64 (probe_epoch c + 1),
              probe_in_flight := True\<rparr>, True))"

definition cell_acquire_breaker :: "BreakerCell \<Rightarrow> nat \<Rightarrow> BreakerCell \<times> bool" where
  "cell_acquire_breaker c now =
     (if breaker_state c = ST_CLOSED then (c, cooldown_until c \<le> now)
      else if breaker_state c = ST_OPEN then
        (if cooldown_until c \<le> now then acquire_locked c now else (c, False))
      else (c, False))"

definition cell_breaker_state :: "BreakerCell \<Rightarrow> BreakerState" where
  "cell_breaker_state c =
     (if breaker_state c = ST_CLOSED then Closed
      else if breaker_state c = ST_OPEN then Open (cooldown_until c)
      else if breaker_state c = ST_HALF_OPEN then HalfOpen
      else Closed)"

definition cell_record_failure ::
  "BreakerCell \<Rightarrow> nat \<Rightarrow> BreakerCfg \<Rightarrow> nat option \<Rightarrow> nat \<Rightarrow> nat \<times> nat \<Rightarrow> (BreakerCell \<times> bool) option"
where
  "cell_record_failure c now cfg retry_after max_honored sd =
     (let c1 = c\<lparr>outcome_window := ow_push (outcome_window c) now True,
                 err := wrap_u64 (err c + 1)\<rparr>
      in if breaker_state c1 = ST_CLOSED then
           (let c2 = c1\<lparr>streak := wrap_u32 (streak c1 + 1)\<rparr>
            in if should_trip c2 now cfg
               then do {
                 c3 \<leftarrow> cell_open_locked c2 now cfg retry_after max_honored sd;
                 Some (c3, True)
               }
               else do {
                 duration \<leftarrow> compute_cooldown_with_retry_after c2 cfg retry_after max_honored sd;
                 Some (c2\<lparr>cooldown_until := sat_add_u64 now duration\<rparr>, False)
               })
         else if breaker_state c1 = ST_HALF_OPEN then
           (let c2 = c1\<lparr>streak := wrap_u32 (streak c1 + 1)\<rparr>
            in do {
              c3 \<leftarrow> cell_open_locked c2 now cfg retry_after max_honored sd;
              Some (c3, False)
            })
         else if breaker_state c1 = ST_OPEN then Some (c1, False)
         else Some (c1, False))"

definition cell_record_success :: "BreakerCell \<Rightarrow> nat \<Rightarrow> BreakerCell \<times> bool" where
  "cell_record_success c now =
     (let c1 = (if breaker_state c \<noteq> ST_OPEN then c\<lparr>streak := 0\<rparr> else c);
          c2 = c1\<lparr>outcome_window := ow_push (outcome_window c1) now False\<rparr>
      in if breaker_state c2 = ST_HALF_OPEN
         then (cell_closed_locked (c2\<lparr>breaker_state := ST_CLOSED\<rparr>), True)
         else (c2, False))"

text \<open>The trip of a hard-down (\<open>trip\<close> in \<open>record_hard_down_all_cells\<close>).\<close>

definition cell_hard_down :: "BreakerCell \<Rightarrow> nat \<Rightarrow> nat \<Rightarrow> BreakerCell" where
  "cell_hard_down c now hard_down_cooldown =
     c\<lparr>cooldown_until := sat_add_u64 now hard_down_cooldown, breaker_state := ST_OPEN,
       probe_in_flight := False\<rparr>"

text \<open>The \<open>close\<close> closure of \<open>recover_lane\<close>: a lock-free observation, then the locked close.\<close>

definition cell_recover :: "BreakerCell \<Rightarrow> nat \<Rightarrow> BreakerCell \<times> bool" where
  "cell_recover c now =
     (if suppressed c now then cell_closed_if_recoverable c now (cooldown_until c) else (c, False))"

subsection \<open>Cooldown arithmetic\<close>

definition cfg_ok :: "BreakerCfg \<Rightarrow> bool" where
  "cfg_ok cfg \<longleftrightarrow> 1 \<le> base_cooldown_secs cfg \<and> base_cooldown_secs cfg \<le> max_cooldown_secs cfg
     \<and> max_cooldown_secs cfg \<le> u64_max"

lemma validated_cfg_ok:
  "validate_breaker pc = [] \<Longrightarrow> cfg_max_cooldown_secs pc \<le> u64_max \<Longrightarrow> cfg_ok (BreakerCfg_from pc)"
  by (auto simp: validate_breaker_def cfg_ok_def BreakerCfg_from_def Suc_le_eq split: if_splits)

lemma BreakerCfg_default_ok: "cfg_ok BreakerCfg_default"
  by (simp add: cfg_ok_def BreakerCfg_default_def u64_max_def)

lemma backoff_bounds:
  assumes "cfg_ok cfg"
  shows "base_cooldown_secs cfg \<le> backoff cfg st \<and> backoff cfg st \<le> max_cooldown_secs cfg"
  using assms by (auto simp: backoff_def cfg_ok_def Let_def)

lemma backoff_mono:
  assumes "cfg_ok cfg" "st \<le> st'"
  shows "backoff cfg st \<le> backoff cfg st'"
proof (cases "st = 0")
  case True
  then show ?thesis using backoff_bounds [OF assms(1), of st'] by (simp add: backoff_def)
next
  case False
  have "base_cooldown_secs cfg * 2 ^ min st 63 \<le> base_cooldown_secs cfg * 2 ^ min st' 63"
    using assms(2) by (intro mult_le_mono2 power_increasing) auto
  then have "min (base_cooldown_secs cfg * 2 ^ min st 63) u64_max
      \<le> min (base_cooldown_secs cfg * 2 ^ min st' 63) u64_max" by (rule min.mono) simp
  then have "min (min (base_cooldown_secs cfg * 2 ^ min st 63) u64_max) (max_cooldown_secs cfg)
      \<le> min (min (base_cooldown_secs cfg * 2 ^ min st' 63) u64_max) (max_cooldown_secs cfg)"
    by (rule min.mono) simp
  moreover have "(if x \<le> u64_max then x else u64_max) = min x u64_max" for x by simp
  ultimately show ?thesis using False assms(2) by (simp only: backoff_def Let_def) simp
qed

lemma apply_jitter_bounds:
  assumes "d \<le> u64_max"
  shows "d - max (d div 10) 1 \<le> apply_jitter d seed \<and> apply_jitter d seed \<le> d + max (d div 10) 1"
proof -
  have "let u = int (seed mod (2 * r + 1)); j = u - int r;
          v = (if 0 \<le> j then sat_add_u64 d (nat j) else d - nat (- j)) in
        d - r \<le> v \<and> v \<le> d + r" for r
  proof -
    obtain u where u: "seed mod (2 * r + 1) = u" by simp
    then have "u \<le> 2 * r" using mod_less_divisor [of "2 * r + 1" seed] by linarith
    then show ?thesis using assms unfolding u by (auto simp: Let_def sat_add_u64_def)
  qed
  from this [of "max (d div 10) 1"] show ?thesis
    unfolding apply_jitter_def Let_def by blast
qed

lemma clamped_jitter:
  assumes "cfg_ok cfg"
  shows "\<exists>d. clamp (apply_jitter (backoff cfg st) seed) (max (backoff cfg st div 2) 1)
               (max_cooldown_secs cfg) = Some d
           \<and> 1 \<le> d \<and> d \<le> max_cooldown_secs cfg
           \<and> backoff cfg st - max (backoff cfg st div 10) 1 \<le> d
           \<and> d \<le> backoff cfg st + max (backoff cfg st div 10) 1"
proof -
  let ?b = "backoff cfg st"
  have b: "1 \<le> ?b" "?b \<le> max_cooldown_secs cfg" "?b \<le> u64_max"
    using backoff_bounds [OF assms, of st] assms by (auto simp: cfg_ok_def)
  then have "max (?b div 2) 1 \<le> max_cooldown_secs cfg" by simp
  then show ?thesis
    using apply_jitter_bounds [OF b(3), of seed] b by (auto simp: clamp_total le_max_iff_disj)
qed

text \<open>What the code guarantees of every cooldown it computes under a validated configuration.\<close>

lemma cooldown_SomeE:
  assumes "cfg_ok cfg"
  obtains d where "compute_cooldown_with_retry_after c cfg ra mh sd = Some d"
    and "1 \<le> d" and "d \<le> max (max_cooldown_secs cfg) mh"
    and "backoff cfg (streak c) - max (backoff cfg (streak c) div 10) 1 \<le> d"
    and "ra = None \<or> \<not> honor_retry_after cfg \<Longrightarrow>
      d \<le> max_cooldown_secs cfg \<and> d \<le> backoff cfg (streak c) + max (backoff cfg (streak c) div 10) 1"
    and "\<And>r. ra = Some r \<Longrightarrow> honor_retry_after cfg \<Longrightarrow> min r mh \<le> d"
proof -
  obtain d where d: "clamp (apply_jitter (backoff cfg (streak c)) (jitter_seed (fst sd) (snd sd) (streak c)))
       (max (backoff cfg (streak c) div 2) 1) (max_cooldown_secs cfg) = Some d"
    "1 \<le> d" "d \<le> max_cooldown_secs cfg"
    "backoff cfg (streak c) - max (backoff cfg (streak c) div 10) 1 \<le> d"
    "d \<le> backoff cfg (streak c) + max (backoff cfg (streak c) div 10) 1"
    using clamped_jitter [OF assms] by blast
  show thesis
  proof (rule that)
    show "compute_cooldown_with_retry_after c cfg ra mh sd =
      Some (case (honor_retry_after cfg, ra) of (True, Some r) \<Rightarrow> max d (min r mh)
          | (False, Some _) \<Rightarrow> d | (_, None) \<Rightarrow> d)"
      using d(1) by (simp add: compute_cooldown_with_retry_after_def Let_def)
  qed (use d(2-) in \<open>auto simp: le_max_iff_disj split: option.splits bool.splits\<close>)
qed

lemma cooldown_total: "cfg_ok cfg \<Longrightarrow> compute_cooldown_with_retry_after c cfg ra mh sd \<noteq> None"
  by (erule cooldown_SomeE [of cfg c ra mh sd]) simp

subsection \<open>Well-formed cells\<close>

text \<open>
  The encoding is one of the three legal values, a half-open cell has its probe in flight, and every
  field is within its width.
\<close>

definition cell_wf :: "BreakerCell \<Rightarrow> bool" where
  "cell_wf c \<longleftrightarrow> breaker_state c \<le> ST_HALF_OPEN
     \<and> (breaker_state c = ST_HALF_OPEN \<longrightarrow> probe_in_flight c)
     \<and> ow_wf (outcome_window c) \<and> capacity (outcome_window c) = OUTCOME_WINDOW_CAPACITY
     \<and> cooldown_until c \<le> u64_max \<and> streak c \<le> u32_max \<and> probe_epoch c \<le> u64_max
     \<and> err c \<le> u64_max"

lemmas cell_ops = cell_open_locked_def cell_closed_locked_def cell_closed_if_recoverable_def
  cell_release_probe_def cell_release_probe_owned_def cell_acquire_breaker_def acquire_locked_def
  cell_record_failure_def cell_record_success_def cell_hard_down_def cell_recover_def reset_swrr_def

lemma cell_wf_enc: "cell_wf c \<Longrightarrow>
  breaker_state c = ST_CLOSED \<or> breaker_state c = ST_OPEN \<or> breaker_state c = ST_HALF_OPEN"
  by (auto simp: cell_wf_def st_defs)

lemma BreakerCell_new_wf [wf_intros]: "cell_wf BreakerCell_new"
  using ow_new_wf by (simp add: cell_wf_def BreakerCell_new_def st_defs) (simp add: ow_new_def)

lemma ow_clear_capacity [simp]: "capacity (ow_clear w) = capacity w"
  by (simp add: ow_clear_def)

lemma cell_open_locked_wf [wf_intros]:
  "cell_open_locked c now cfg ra mh sd = Some c' \<Longrightarrow> cell_wf c \<Longrightarrow> cell_wf c'"
  by (auto simp: cell_open_locked_def cell_wf_def st_defs split: bind_splits)

lemma cell_record_failure_wf [wf_intros]:
  assumes "cell_record_failure c now cfg ra mh sd = Some (c', r)" "cell_wf c"
  shows "cell_wf c'"
proof -
  define c1 where "c1 = c\<lparr>outcome_window := ow_push (outcome_window c) now True, err := wrap_u64 (err c + 1)\<rparr>"
  define c2 where "c2 = c1\<lparr>streak := wrap_u32 (streak c1 + 1)\<rparr>"
  have 1: "cell_wf c1" using assms(2) by (simp add: c1_def cell_wf_def ow_push_wf)
  then have 2: "cell_wf c2" by (simp add: c2_def cell_wf_def)
  have "c' = c1 \<or> (\<exists>d. c' = c2\<lparr>cooldown_until := sat_add_u64 now d\<rparr>)
      \<or> cell_open_locked c2 now cfg ra mh sd = Some c'"
    using assms(1) unfolding cell_record_failure_def Let_def c1_def [symmetric] c2_def [symmetric]
    by (auto split: if_splits bind_splits)
  moreover have "cell_wf (c2\<lparr>cooldown_until := sat_add_u64 now d\<rparr>)" for d
    using 2 by (simp add: cell_wf_def)
  ultimately show ?thesis
    using 1 cell_open_locked_wf [OF _ 2] by blast
qed

lemma cell_closed_locked_wf [wf_intros]: "cell_wf c \<Longrightarrow> cell_wf (cell_closed_locked c)"
  by (simp add: cell_closed_locked_def cell_wf_def ow_clear_wf st_defs)

lemma cell_record_success_wf [wf_intros]: "cell_wf c \<Longrightarrow> cell_wf (fst (cell_record_success c now))"
  by (auto simp: cell_record_success_def cell_closed_locked_def cell_wf_def Let_def ow_push_wf
      ow_clear_wf st_defs)

lemma cell_acquire_wf [wf_intros]: "cell_wf c \<Longrightarrow> cell_wf (fst (cell_acquire_breaker c now))"
  by (auto simp: cell_acquire_breaker_def acquire_locked_def cell_wf_def st_defs)

lemma cell_release_probe_wf [wf_intros]: "cell_wf c \<Longrightarrow> cell_wf (cell_release_probe c)"
  by (auto simp: cell_release_probe_def cell_wf_def st_defs)

lemma cell_release_probe_owned_wf [wf_intros]: "cell_wf c \<Longrightarrow> cell_wf (cell_release_probe_owned c e)"
  by (auto simp: cell_release_probe_owned_def cell_wf_def st_defs)

lemma cell_hard_down_wf [wf_intros]: "cell_wf c \<Longrightarrow> cell_wf (cell_hard_down c now cd)"
  by (simp add: cell_hard_down_def cell_wf_def st_defs)

lemma cell_recover_wf [wf_intros]: "cell_wf c \<Longrightarrow> cell_wf (fst (cell_recover c now))"
  by (simp add: cell_recover_def cell_closed_if_recoverable_def cell_closed_locked_wf)

lemma reset_swrr_wf [wf_intros]: "cell_wf c \<Longrightarrow> cell_wf (reset_swrr c)"
  by (simp add: reset_swrr_def cell_wf_def)

end
