(* ===== verification/Store.thy ===== *)
theory Store
  imports Cell
begin

text \<open>
  The in-memory state store (\<open>InMemoryStore\<close> of \<open>crates/busbar/src/store/in_memory.rs\<close>): lanes with
  their lane-global counters and default breaker cell, per-(pool, lane) breaker cells created on
  first touch, the shard memo, smooth weighted round-robin selection, the lifetime request budget,
  the latency average, and health export and restore.

  Correspondence. \<open>LaneState\<close> embeds the fields of its default breaker cell; here they are the field
  \<open>def_cell\<close> (so \<open>LaneState.err\<close> is \<open>err (def_cell ls)\<close>, as the trait implementation has it). The
  hash map of per-lane cell vectors is a function with the empty vector for an absent lane, which no
  operation distinguishes. Mutable references to a cell become \<open>cell_in\<close> (resolve, creating on first
  touch) and \<open>put_cell\<close> (write back). The locks (the shard array \<open>swrr_shards\<close>, the transition locks) make
  each operation atomic and hold no data, so they have no field. An index out of range panics: \<open>None\<close>. The clock is an argument,
  and so is \<open>js\<close>, which gives each cell's nanosecond reading and address for the jitter seed. The
  latency average is \<open>None\<close> for the bit pattern \<open>0\<close>. The semaphore is tokio's: its operations are
  arguments of the definitions that use them.
\<close>

record LaneState =
  ls_model :: string
  ls_provider :: string
  ls_max :: nat
  ls_permits :: nat
  limited :: bool
  dead :: bool
  def_cell :: BreakerCell
  budget :: int
  ok :: nat
  client_fault :: nat
  latency_ewma :: "f64 option"
  trips :: nat
  last_trip_at :: nat
  dead_reason :: string

record LaneData =
  ld_model :: string
  ld_provider :: string
  ld_max :: nat
  ld_permits :: nat
  ld_limited :: bool
  ld_budget :: int
  ld_cooldown_until :: nat
  ld_streak :: nat
  ld_dead :: bool
  ld_dead_reason :: string
  ld_ok :: nat
  ld_err :: nat
  ld_client_fault :: nat
  ld_upstream_model :: "string option"
  ld_attempt_timeout_ms :: "nat option"
  ld_reasoning :: bool
  ld_prompt_caching :: bool

record InMemoryStore =
  lanes :: "LaneState list"
  pool_cells :: "nat \<Rightarrow> (string \<times> BreakerCell) list"
  hard_down_cooldown_secs :: nat
  max_honored_retry_after_secs :: nat
  pool_shards :: "(string \<times> nat) list"

definition LaneState_new :: "LaneData \<Rightarrow> LaneState" where
  "LaneState_new ld = \<lparr>ls_model = ld_model ld, ls_provider = ld_provider ld, ls_max = ld_max ld,
     ls_permits = ld_permits ld, limited = ld_limited ld, dead = ld_dead ld,
     def_cell = BreakerCell_new\<lparr>cooldown_until := ld_cooldown_until ld, streak := ld_streak ld,
       err := ld_err ld\<rparr>,
     budget = ld_budget ld, ok = ld_ok ld, client_fault = ld_client_fault ld, latency_ewma = None,
     trips = 0, last_trip_at = 0, dead_reason = ld_dead_reason ld\<rparr>"

definition new_with_limits :: "LaneData list \<Rightarrow> nat \<Rightarrow> nat \<Rightarrow> InMemoryStore" where
  "new_with_limits lds hd_secs max_ra =
     \<lparr>lanes = map LaneState_new lds, pool_cells = (\<lambda>_. []), hard_down_cooldown_secs = hd_secs,
      max_honored_retry_after_secs = max_ra, pool_shards = []\<rparr>"

subsection \<open>Lanes and cells\<close>

definition get_lane :: "InMemoryStore \<Rightarrow> nat \<Rightarrow> LaneState option" where
  "get_lane st lane = (if lane < length (lanes st) then Some (lanes st ! lane) else None)"

definition set_lane :: "InMemoryStore \<Rightarrow> nat \<Rightarrow> LaneState \<Rightarrow> InMemoryStore" where
  "set_lane st lane ls = st\<lparr>lanes := (lanes st)[lane := ls]\<rparr>"

text \<open>The memoised shard of a pool: its index and the store with the memo filled.\<close>

definition swrr_shard :: "InMemoryStore \<Rightarrow> string \<Rightarrow> InMemoryStore \<times> nat" where
  "swrr_shard st pool =
     (case al_get (pool_shards st) pool of
        Some idx \<Rightarrow> (st, idx)
      | None \<Rightarrow>
          (let idx = swrr_shard_index pool
           in (st\<lparr>pool_shards := pool_shards st @ [(pool, idx)]\<rparr>, idx)))"

definition inherited_cell :: "BreakerCell \<Rightarrow> BreakerCell" where
  "inherited_cell d =
     BreakerCell_new\<lparr>breaker_state := (if breaker_state d = ST_HALF_OPEN then ST_OPEN else breaker_state d),
       cooldown_until := cooldown_until d, streak := streak d\<rparr>"

definition cell_in :: "InMemoryStore \<Rightarrow> string \<Rightarrow> nat \<Rightarrow> (InMemoryStore \<times> BreakerCell) option" where
  "cell_in st pool lane =
     (if pool = [] then do { ls \<leftarrow> get_lane st lane; Some (st, def_cell ls) }
      else case al_get (pool_cells st lane) pool of
          Some c \<Rightarrow> Some (st, c)
        | None \<Rightarrow> do {
            ls \<leftarrow> get_lane st lane;
            let c = inherited_cell (def_cell ls);
            Some (st\<lparr>pool_cells := (pool_cells st)(lane := pool_cells st lane @ [(pool, c)])\<rparr>, c)
          })"

definition put_cell :: "InMemoryStore \<Rightarrow> string \<Rightarrow> nat \<Rightarrow> BreakerCell \<Rightarrow> InMemoryStore" where
  "put_cell st pool lane c =
     (if pool = [] then st\<lparr>lanes := (lanes st)[lane := (lanes st ! lane)\<lparr>def_cell := c\<rparr>]\<rparr>
      else st\<lparr>pool_cells := (pool_cells st)(lane := al_put (pool_cells st lane) pool c)\<rparr>)"

definition reset_swrr_for :: "InMemoryStore \<Rightarrow> string \<Rightarrow> nat \<Rightarrow> BreakerCell \<Rightarrow> InMemoryStore" where
  "reset_swrr_for st pool lane c = put_cell (fst (swrr_shard st pool)) pool lane (reset_swrr c)"

definition lane_admissible :: "InMemoryStore \<Rightarrow> nat \<Rightarrow> bool option" where
  "lane_admissible st lane =
     do {
       ls \<leftarrow> get_lane st lane;
       Some (if dead ls then False else if limited ls \<and> budget ls \<le> 0 then False else True)
     }"

subsection \<open>Admission\<close>

definition usable_for :: "InMemoryStore \<Rightarrow> string \<Rightarrow> nat \<Rightarrow> nat \<Rightarrow> (InMemoryStore \<times> bool) option" where
  "usable_for st pool lane now =
     do {
       adm \<leftarrow> lane_admissible st lane;
       if \<not> adm then Some (st, False)
       else do {
         (st1, c) \<leftarrow> cell_in st pool lane;
         let (c', r) = cell_acquire_breaker c now;
         Some (put_cell st1 pool lane c', r)
       }
     }"

definition ready_for :: "InMemoryStore \<Rightarrow> string \<Rightarrow> nat \<Rightarrow> nat \<Rightarrow> (InMemoryStore \<times> bool) option" where
  "ready_for st pool lane now =
     do {
       adm \<leftarrow> lane_admissible st lane;
       if \<not> adm then Some (st, False)
       else do {
         (st1, c) \<leftarrow> cell_in st pool lane;
         Some (st1, cell_ready_breaker c now)
       }
     }"

definition breaker_state_for :: "InMemoryStore \<Rightarrow> string \<Rightarrow> nat \<Rightarrow> (InMemoryStore \<times> BreakerState) option" where
  "breaker_state_for st pool lane =
     do {
       ls \<leftarrow> get_lane st lane;
       if dead ls then Some (st, Open u64_max)
       else do {
         (st1, c) \<leftarrow> cell_in st pool lane;
         Some (st1, cell_breaker_state c)
       }
     }"

definition cooldown_remaining_for ::
  "InMemoryStore \<Rightarrow> string \<Rightarrow> nat \<Rightarrow> nat \<Rightarrow> (InMemoryStore \<times> nat) option" where
  "cooldown_remaining_for st pool lane now =
     do {
       (st1, c) \<leftarrow> cell_in st pool lane;
       Some (st1, cooldown_until c - now)
     }"

definition lane_usable_any_cell :: "InMemoryStore \<Rightarrow> nat \<Rightarrow> nat \<Rightarrow> bool option" where
  "lane_usable_any_cell st lane now =
     do {
       adm \<leftarrow> lane_admissible st lane;
       if \<not> adm then Some False
       else if pool_cells st lane \<noteq> []
         then Some (\<exists>(p, c) \<in> set (pool_cells st lane). cell_ready_breaker c now)
         else do {
           ls \<leftarrow> get_lane st lane;
           Some (cell_ready_breaker (def_cell ls) now)
         }
     }"

definition lane_max_cooldown_remaining :: "InMemoryStore \<Rightarrow> nat \<Rightarrow> nat \<Rightarrow> nat option" where
  "lane_max_cooldown_remaining st lane now =
     do {
       ls \<leftarrow> get_lane st lane;
       Some (foldl (\<lambda>worst (p, c). max worst (cooldown_until c - now))
               (cooldown_until (def_cell ls) - now) (pool_cells st lane))
     }"

definition lane_max_streak :: "InMemoryStore \<Rightarrow> nat \<Rightarrow> nat option" where
  "lane_max_streak st lane =
     do {
       ls \<leftarrow> get_lane st lane;
       Some (foldl (\<lambda>worst (p, c). max worst (streak c)) (streak (def_cell ls)) (pool_cells st lane))
     }"

subsection \<open>Outcome recording\<close>

definition record_failure_for ::
  "InMemoryStore \<Rightarrow> string \<Rightarrow> nat \<Rightarrow> nat \<Rightarrow> BreakerCfg \<Rightarrow> nat option \<Rightarrow> nat \<times> nat \<Rightarrow>
   (InMemoryStore \<times> bool) option" where
  "record_failure_for st pool lane now cfg retry_after sd =
     do {
       ls0 \<leftarrow> get_lane st lane;
       if dead ls0 then Some (st, False)
       else do {
         (st1, c) \<leftarrow> cell_in st pool lane;
         (c', tripped) \<leftarrow> cell_record_failure c now cfg retry_after (max_honored_retry_after_secs st) sd;
         let st2 = put_cell st1 pool lane c';
         ls2 \<leftarrow> get_lane st2 lane;
         let ls3 = (if pool \<noteq> [] then ls2\<lparr>def_cell := (def_cell ls2)\<lparr>err := wrap_u64 (err (def_cell ls2) + 1)\<rparr>\<rparr>
                    else ls2);
         let ls4 = (if tripped then ls3\<lparr>trips := wrap_u64 (trips ls3 + 1), last_trip_at := now\<rparr> else ls3);
         Some (set_lane st2 lane ls4, tripped)
       }
     }"

definition record_success_for :: "InMemoryStore \<Rightarrow> string \<Rightarrow> nat \<Rightarrow> nat \<Rightarrow> InMemoryStore option" where
  "record_success_for st pool lane now =
     do {
       ls \<leftarrow> get_lane st lane;
       if dead ls then Some (set_lane st lane (ls\<lparr>ok := wrap_u64 (ok ls + 1)\<rparr>))
       else do {
         (st1, c) \<leftarrow> cell_in st pool lane;
         let (c', recovered) = cell_record_success c now;
         let st2 = (if recovered then reset_swrr_for st1 pool lane c' else put_cell st1 pool lane c');
         ls2 \<leftarrow> get_lane st2 lane;
         Some (set_lane st2 lane (ls2\<lparr>ok := wrap_u64 (ok ls2 + 1)\<rparr>))
       }
     }"

definition record_hard_down_for ::
  "InMemoryStore \<Rightarrow> string \<Rightarrow> nat \<Rightarrow> string \<Rightarrow> nat \<Rightarrow> InMemoryStore option" where
  "record_hard_down_for st pool lane reason now =
     do {
       ls \<leftarrow> get_lane st lane;
       (st1, c) \<leftarrow> cell_in (set_lane st lane (ls\<lparr>dead_reason := reason\<rparr>)) pool lane;
       Some (put_cell st1 pool lane (cell_hard_down c now (hard_down_cooldown_secs st)))
     }"

definition record_client_fault :: "InMemoryStore \<Rightarrow> nat \<Rightarrow> InMemoryStore option" where
  "record_client_fault st lane =
     do {
       ls \<leftarrow> get_lane st lane;
       Some (set_lane st lane (ls\<lparr>client_fault := wrap_u64 (client_fault ls + 1)\<rparr>))
     }"

subsection \<open>Operations on every cell of a lane\<close>

text \<open>
  A sweep that may close cells: every cell of the lane runs \<open>f\<close>, and a cell that \<open>f\<close> reports
  recovered has its selection weight reset under its pool's shard.
\<close>

definition sweep_cell :: "(BreakerCell \<Rightarrow> BreakerCell \<times> bool) \<Rightarrow> BreakerCell \<Rightarrow> BreakerCell" where
  "sweep_cell f c = (case f c of (c', r) \<Rightarrow> if r then reset_swrr c' else c')"

definition touch_shards :: "InMemoryStore \<Rightarrow> string list \<Rightarrow> InMemoryStore" where
  "touch_shards st pools = foldl (\<lambda>s p. fst (swrr_shard s p)) st pools"

definition sweep_cells ::
  "InMemoryStore \<Rightarrow> nat \<Rightarrow> (BreakerCell \<Rightarrow> BreakerCell \<times> bool) \<Rightarrow> InMemoryStore option" where
  "sweep_cells st lane f =
     do {
       ls \<leftarrow> get_lane st lane;
       let closed = (if snd (f (def_cell ls)) then [[]] else []) @
         map fst (filter (\<lambda>(p, c). snd (f c)) (pool_cells st lane));
       let st1 = touch_shards st closed;
       let st2 = set_lane st1 lane (ls\<lparr>def_cell := sweep_cell f (def_cell ls)\<rparr>);
       Some (st2\<lparr>pool_cells := (pool_cells st2)(lane := map (\<lambda>(p, c). (p, sweep_cell f c)) (pool_cells st2 lane))\<rparr>)
     }"

definition record_probe_success_all_cells :: "InMemoryStore \<Rightarrow> nat \<Rightarrow> nat \<Rightarrow> InMemoryStore option" where
  "record_probe_success_all_cells st lane now =
     do {
       ls \<leftarrow> get_lane st lane;
       if dead ls then Some (set_lane st lane (ls\<lparr>ok := wrap_u64 (ok ls + 1)\<rparr>))
       else do {
         st1 \<leftarrow> sweep_cells st lane (\<lambda>c. cell_record_success c now);
         ls1 \<leftarrow> get_lane st1 lane;
         Some (set_lane st1 lane (ls1\<lparr>ok := wrap_u64 (ok ls1 + 1)\<rparr>))
       }
     }"

definition recover_lane :: "InMemoryStore \<Rightarrow> nat \<Rightarrow> nat \<Rightarrow> InMemoryStore option" where
  "recover_lane st lane now = sweep_cells st lane (\<lambda>c. cell_recover c now)"

definition record_hard_down_all_cells ::
  "InMemoryStore \<Rightarrow> nat \<Rightarrow> string \<Rightarrow> nat \<Rightarrow> (InMemoryStore \<times> bool) option" where
  "record_hard_down_all_cells st lane reason now =
     do {
       ls \<leftarrow> get_lane st lane;
       let trip = (\<lambda>c. cell_hard_down c now (hard_down_cooldown_secs st));
       let default_was_closed = (breaker_state (def_cell ls) = ST_CLOSED);
       let st1 = set_lane st lane (ls\<lparr>dead_reason := reason, def_cell := trip (def_cell ls)\<rparr>);
       Some (st1\<lparr>pool_cells := (pool_cells st1)(lane := map (\<lambda>(p, c). (p, trip c)) (pool_cells st1 lane))\<rparr>,
             default_was_closed)
     }"

definition record_probe_failure_all_cells ::
  "InMemoryStore \<Rightarrow> nat \<Rightarrow> nat \<Rightarrow> (string \<Rightarrow> BreakerCfg) \<Rightarrow> nat option \<Rightarrow> (string \<Rightarrow> nat \<times> nat) \<Rightarrow>
   InMemoryStore option" where
  "record_probe_failure_all_cells st lane now resolve_cfg retry_after js =
     do {
       ls \<leftarrow> get_lane st lane;
       if dead ls then Some st
       else do {
         let fail = (\<lambda>p c. cell_record_failure c now (resolve_cfg p) retry_after
                             (max_honored_retry_after_secs st) (js p));
         (d, _) \<leftarrow> fail [] (def_cell ls);
         cs \<leftarrow> traverse (\<lambda>(p, c). do { (c', _) \<leftarrow> fail p c; Some (p, c') }) (pool_cells st lane);
         let st1 = set_lane st lane (ls\<lparr>def_cell := d\<rparr>);
         Some (st1\<lparr>pool_cells := (pool_cells st1)(lane := cs)\<rparr>)
       }
     }"

definition lane_needs_probe :: "InMemoryStore \<Rightarrow> nat \<Rightarrow> nat \<Rightarrow> bool option" where
  "lane_needs_probe st lane now =
     do {
       ls \<leftarrow> get_lane st lane;
       Some (suppressed (def_cell ls) now \<or> (\<exists>(p, c) \<in> set (pool_cells st lane). suppressed c now))
     }"

subsection \<open>Probe release\<close>

definition release_probe_in :: "InMemoryStore \<Rightarrow> string \<Rightarrow> nat \<Rightarrow> InMemoryStore option" where
  "release_probe_in st pool lane =
     do { (st1, c) \<leftarrow> cell_in st pool lane; Some (put_cell st1 pool lane (cell_release_probe c)) }"

definition probe_epoch_in :: "InMemoryStore \<Rightarrow> string \<Rightarrow> nat \<Rightarrow> (InMemoryStore \<times> nat) option" where
  "probe_epoch_in st pool lane =
     do { (st1, c) \<leftarrow> cell_in st pool lane; Some (st1, probe_epoch c) }"

definition release_probe_owned_in :: "InMemoryStore \<Rightarrow> string \<Rightarrow> nat \<Rightarrow> nat \<Rightarrow> InMemoryStore option" where
  "release_probe_owned_in st pool lane owned_epoch =
     do { (st1, c) \<leftarrow> cell_in st pool lane; Some (put_cell st1 pool lane (cell_release_probe_owned c owned_epoch)) }"

subsection \<open>Smooth weighted round-robin\<close>

text \<open>The members that selection considers, with the store after their cells have been created.\<close>

fun healthy_set ::
  "InMemoryStore \<Rightarrow> string \<Rightarrow> (nat \<times> nat) list \<Rightarrow> nat \<Rightarrow> (InMemoryStore \<times> (nat \<times> int) list) option" where
  "healthy_set st pool [] now = Some (st, [])"
| "healthy_set st pool ((candidate, weight) # rest) now =
     (if weight = 0 then healthy_set st pool rest now
      else do {
        adm \<leftarrow> lane_admissible st candidate;
        if \<not> adm then healthy_set st pool rest now
        else do {
          (st1, c) \<leftarrow> cell_in st pool candidate;
          (st2, h) \<leftarrow> healthy_set st1 pool rest now;
          Some (st2, if cell_ready_breaker c now then (candidate, int weight) # h else h)
        }
      })"

definition add_weight :: "InMemoryStore \<Rightarrow> string \<Rightarrow> nat \<Rightarrow> int \<Rightarrow> InMemoryStore option" where
  "add_weight st pool lane w =
     do {
       (st1, c) \<leftarrow> cell_in st pool lane;
       Some (put_cell st1 pool lane (c\<lparr>current_weight := wrap_i64 (current_weight c + w)\<rparr>))
     }"

fun add_weights :: "InMemoryStore \<Rightarrow> string \<Rightarrow> (nat \<times> int) list \<Rightarrow> InMemoryStore option" where
  "add_weights st pool [] = Some st"
| "add_weights st pool ((lane, w) # h) = do { st1 \<leftarrow> add_weight st pool lane w; add_weights st1 pool h }"

text \<open>The scan for the largest weight: the first lane whose weight exceeds every one before it.\<close>

fun find_best :: "InMemoryStore \<Rightarrow> string \<Rightarrow> (nat \<times> int) list \<Rightarrow> nat option \<Rightarrow> int \<Rightarrow> nat option option" where
  "find_best st pool [] best best_weight = Some best"
| "find_best st pool ((lane, w) # h) best best_weight =
     do {
       (_, c) \<leftarrow> cell_in st pool lane;
       if best_weight < current_weight c then find_best st pool h (Some lane) (current_weight c)
       else find_best st pool h best best_weight
     }"

definition select_weighted_for ::
  "InMemoryStore \<Rightarrow> string \<Rightarrow> nat list \<Rightarrow> nat list \<Rightarrow> nat \<Rightarrow> (InMemoryStore \<times> nat option) option" where
  "select_weighted_for st pool candidates weights now =
     do {
       (st1, healthy) \<leftarrow> healthy_set st pool (zip candidates weights) now;
       if healthy = [] then Some (st1, None)
       else do {
         let st2 = fst (swrr_shard st1 pool);
         let total = wrap_i64 (sum_list (map snd healthy));
         st3 \<leftarrow> add_weights st2 pool healthy;
         best \<leftarrow> find_best st3 pool healthy None i64_min;
         case best of
           None \<Rightarrow> Some (st3, None)
         | Some lane \<Rightarrow> do { st4 \<leftarrow> add_weight st3 pool lane (- total); Some (st4, Some lane) }
       }
     }"

subsection \<open>Budget, latency, permits\<close>

definition lane_budget_remaining :: "InMemoryStore \<Rightarrow> nat \<Rightarrow> int option option" where
  "lane_budget_remaining st lane =
     do { ls \<leftarrow> get_lane st lane; Some (if limited ls then Some (budget ls) else None) }"

definition spend_budget :: "InMemoryStore \<Rightarrow> nat \<Rightarrow> (InMemoryStore \<times> bool) option" where
  "spend_budget st lane =
     do {
       ls \<leftarrow> get_lane st lane;
       Some (if \<not> limited ls then (st, True)
             else if budget ls \<le> 0 then (st, False)
             else (set_lane st lane (ls\<lparr>budget := budget ls - 1\<rparr>), True))
     }"

definition refund_budget :: "InMemoryStore \<Rightarrow> nat \<Rightarrow> InMemoryStore option" where
  "refund_budget st lane =
     do {
       ls \<leftarrow> get_lane st lane;
       Some (if \<not> limited ls then st
             else set_lane st lane (ls\<lparr>budget := wrap_i64 (budget ls + 1)\<rparr>))
     }"

definition LATENCY_EWMA_ALPHA :: f64 where
  "LATENCY_EWMA_ALPHA = fl (1 / 5)"

definition lane_latency_ms :: "InMemoryStore \<Rightarrow> nat \<Rightarrow> f64 option option" where
  "lane_latency_ms st lane = do { ls \<leftarrow> get_lane st lane; Some (latency_ewma ls) }"

definition ewma_next :: "f64 option \<Rightarrow> f64 \<Rightarrow> f64" where
  "ewma_next cur latency_ms =
     (case cur of
        None \<Rightarrow> latency_ms
      | Some prev \<Rightarrow>
          f64_add (f64_mul LATENCY_EWMA_ALPHA latency_ms)
            (f64_mul (f64_add (Fin 1) (f64_neg LATENCY_EWMA_ALPHA)) prev))"

definition record_latency_in :: "InMemoryStore \<Rightarrow> nat \<Rightarrow> f64 \<Rightarrow> InMemoryStore option" where
  "record_latency_in st lane latency_ms =
     (if \<not> f64_is_finite latency_ms \<or> f64_ge (Fin 0) latency_ms then Some st
      else do {
        ls \<leftarrow> get_lane st lane;
        let next = ewma_next (latency_ewma ls) latency_ms;
        if next = Fin 0 then Some st
        else Some (set_lane st lane (ls\<lparr>latency_ewma := Some next\<rparr>))
      })"

text \<open>A permit: a counted slot of the semaphore, or nothing for an unbounded lane.\<close>

datatype Permit = Bounded | Unbounded

definition try_acquire ::
  "nat \<Rightarrow> (nat \<Rightarrow> nat option) \<Rightarrow> InMemoryStore \<Rightarrow> nat \<Rightarrow> (InMemoryStore \<times> Permit option) option" where
  "try_acquire max_permits try_acquire_owned st lane =
     do {
       ls \<leftarrow> get_lane st lane;
       if max_permits \<le> ls_max ls then Some (st, Some Unbounded)
       else (case try_acquire_owned (ls_permits ls) of
               None \<Rightarrow> Some (st, None)
             | Some left \<Rightarrow> Some (set_lane st lane (ls\<lparr>ls_permits := left\<rparr>), Some Bounded))
     }"

subsection \<open>Observation, export and restore\<close>

record LaneSnapshot =
  sn_model :: string
  sn_provider :: string
  max_concurrent :: nat
  inflight :: int
  free_slots :: nat
  sn_ok :: nat
  sn_err :: nat
  sn_client_fault :: nat
  usable :: bool
  sn_dead :: bool
  sn_dead_reason :: string
  cooldown_remaining_s :: nat
  sn_streak :: nat
  sn_budget :: int
  sn_trips :: nat
  sn_last_trip_at :: nat

definition snapshot :: "InMemoryStore \<Rightarrow> nat \<Rightarrow> nat \<Rightarrow> LaneSnapshot option" where
  "snapshot st lane t =
     do {
       ls \<leftarrow> get_lane st lane;
       us \<leftarrow> lane_usable_any_cell st lane t;
       cd \<leftarrow> lane_max_cooldown_remaining st lane t;
       sk \<leftarrow> lane_max_streak st lane;
       Some \<lparr>sn_model = ls_model ls, sn_provider = ls_provider ls, max_concurrent = ls_max ls,
         inflight = wrap_i64 (int (ls_max ls - ls_permits ls)), free_slots = ls_permits ls,
         sn_ok = ok ls, sn_err = err (def_cell ls), sn_client_fault = client_fault ls, usable = us,
         sn_dead = dead ls, sn_dead_reason = dead_reason ls, cooldown_remaining_s = cd,
         sn_streak = sk, sn_budget = (if limited ls then budget ls else -1),
         sn_trips = trips ls, sn_last_trip_at = last_trip_at ls\<rparr>
     }"

record PoolCellHealthSnapshot =
  pc_pool :: string
  pc_breaker_state :: nat
  pc_cooldown_until :: nat
  pc_streak :: nat
  pc_err :: nat

record LaneHealthSnapshot =
  h_model :: string
  h_provider :: string
  h_budget :: int
  h_breaker_state :: nat
  h_cooldown_until :: nat
  h_streak :: nat
  h_dead :: bool
  h_dead_reason :: string
  h_ok :: nat
  h_err :: nat
  h_client_fault :: nat
  h_latency_ewma :: "f64 option"
  h_trips :: nat
  h_last_trip_at :: nat
  h_cells :: "PoolCellHealthSnapshot list"

definition export_cell :: "string \<times> BreakerCell \<Rightarrow> PoolCellHealthSnapshot" where
  "export_cell pc = (case pc of (p, c) \<Rightarrow>
     \<lparr>pc_pool = p, pc_breaker_state = breaker_state c, pc_cooldown_until = cooldown_until c,
      pc_streak = streak c, pc_err = err c\<rparr>)"

definition export_lane :: "LaneState \<Rightarrow> (string \<times> BreakerCell) list \<Rightarrow> LaneHealthSnapshot" where
  "export_lane ls cells = (let d = def_cell ls in
     \<lparr>h_model = ls_model ls, h_provider = ls_provider ls,
      h_budget = (if limited ls then budget ls else -1),
      h_breaker_state = breaker_state d, h_cooldown_until = cooldown_until d, h_streak = streak d,
      h_dead = dead ls, h_dead_reason = dead_reason ls, h_ok = ok ls, h_err = err d,
      h_client_fault = client_fault ls, h_latency_ewma = latency_ewma ls, h_trips = trips ls,
      h_last_trip_at = last_trip_at ls, h_cells = map export_cell cells\<rparr>)"

definition export_health :: "InMemoryStore \<Rightarrow> LaneHealthSnapshot list" where
  "export_health st = map (\<lambda>i. export_lane (lanes st ! i) (pool_cells st i)) [0..<length (lanes st)]"

definition restore_cell :: "BreakerCell \<Rightarrow> PoolCellHealthSnapshot \<Rightarrow> BreakerCell" where
  "restore_cell c cs =
     c\<lparr>breaker_state := restored_breaker_state (pc_breaker_state cs),
       cooldown_until := pc_cooldown_until cs, streak := pc_streak cs, err := pc_err cs\<rparr>"

fun restore_cells ::
  "(string \<times> BreakerCell) list \<Rightarrow> PoolCellHealthSnapshot list \<Rightarrow> (string \<times> BreakerCell) list" where
  "restore_cells cells [] = cells"
| "restore_cells cells (cs # rest) =
     (case al_get cells (pc_pool cs) of
        Some c \<Rightarrow> restore_cells (al_put cells (pc_pool cs) (restore_cell c cs)) rest
      | None \<Rightarrow> restore_cells (cells @ [(pc_pool cs, restore_cell BreakerCell_new cs)]) rest)"

definition restore_lane :: "LaneState \<Rightarrow> LaneHealthSnapshot \<Rightarrow> LaneState" where
  "restore_lane ls s =
     ls\<lparr>budget := (if limited ls \<and> 0 \<le> h_budget s then min (h_budget s) (budget ls) else budget ls),
        def_cell := (def_cell ls)\<lparr>breaker_state := restored_breaker_state (h_breaker_state s),
          cooldown_until := h_cooldown_until s, streak := h_streak s, err := h_err s\<rparr>,
        dead := h_dead s, dead_reason := h_dead_reason s, ok := h_ok s,
        client_fault := h_client_fault s, latency_ewma := h_latency_ewma s, trips := h_trips s,
        last_trip_at := h_last_trip_at s\<rparr>"

definition matches :: "LaneState \<Rightarrow> LaneHealthSnapshot \<Rightarrow> bool" where
  "matches ls s \<longleftrightarrow> h_model s = ls_model ls \<and> h_provider s = ls_provider ls"

definition restore_one :: "LaneHealthSnapshot list \<Rightarrow> InMemoryStore \<Rightarrow> nat \<Rightarrow> InMemoryStore" where
  "restore_one restored st idx =
     (case find (matches (lanes st ! idx)) restored of
        None \<Rightarrow> st
      | Some s \<Rightarrow>
          (let st1 = set_lane st idx (restore_lane (lanes st ! idx) s)
           in st1\<lparr>pool_cells := (pool_cells st1)(idx := restore_cells (pool_cells st1 idx) (h_cells s))\<rparr>))"

definition restore_health_impl :: "InMemoryStore \<Rightarrow> LaneHealthSnapshot list \<Rightarrow> InMemoryStore" where
  "restore_health_impl st restored = foldl (restore_one restored) st [0..<length (lanes st)]"

definition new_with_limits_restored ::
  "LaneData list \<Rightarrow> nat \<Rightarrow> nat \<Rightarrow> LaneHealthSnapshot list \<Rightarrow> InMemoryStore" where
  "new_with_limits_restored lds hd_secs max_ra restored =
     restore_health_impl (new_with_limits lds hd_secs max_ra) restored"

end
