(* ===== verification/CellFsm.thy ===== *)
theory CellFsm
  imports Cell
begin

text \<open>
  The circuit breaker as a state machine. \<open>cell_exec\<close> runs one operation of the code on a cell;
  \<open>fsm_step\<close> is the three-state breaker of the design document (Closed, Open until an instant,
  HalfOpen), and the simulation \<open>cell_exec_refines\<close> says that the code implements it. The trace
  properties are proved on \<open>fsm_step\<close> by rule induction and carried to runs of the code.
\<close>

subsection \<open>Operations as events\<close>

datatype cell_event =
    Fail nat BreakerCfg "nat option" nat "nat \<times> nat"
  | Success nat
  | Acquire nat
  | ReleaseProbe
  | ReleaseOwned nat
  | HardDownAt nat nat
  | Recover nat
  | AcquireLate nat
  | RecoverLate nat nat

text \<open>
  \<open>AcquireLate\<close> is the locked section of a probe acquisition whose lock-free check ran at some
  earlier point, and \<open>RecoverLate\<close> the locked close of a recovery whose observation did: between the
  check and the section any other operation may run. With them a list of events is an interleaving
  of the threads that share a cell.
\<close>

fun cell_exec :: "BreakerCell \<Rightarrow> cell_event \<Rightarrow> (BreakerCell \<times> bool) option" where
  "cell_exec c (Fail now cfg ra mh sd) = cell_record_failure c now cfg ra mh sd"
| "cell_exec c (Success now) = Some (cell_record_success c now)"
| "cell_exec c (Acquire now) = Some (cell_acquire_breaker c now)"
| "cell_exec c ReleaseProbe = Some (cell_release_probe c, False)"
| "cell_exec c (ReleaseOwned e) = Some (cell_release_probe_owned c e, False)"
| "cell_exec c (HardDownAt now s) = Some (cell_hard_down c now s, breaker_state c = ST_CLOSED)"
| "cell_exec c (Recover now) = Some (cell_recover c now)"
| "cell_exec c (AcquireLate now) = Some (acquire_locked c now)"
| "cell_exec c (RecoverLate now observed) = Some (cell_closed_if_recoverable c now observed)"

fun cell_run :: "BreakerCell \<Rightarrow> cell_event list \<Rightarrow> (BreakerCell \<times> (cell_event \<times> bool) list) option" where
  "cell_run c [] = Some (c, [])"
| "cell_run c (e # es) =
     do {
       (c1, r) \<leftarrow> cell_exec c e;
       (c2, rs) \<leftarrow> cell_run c1 es;
       Some (c2, (e, r) # rs)
     }"

fun event_ok :: "cell_event \<Rightarrow> bool" where
  "event_ok (Fail now cfg ra mh sd) = cfg_ok cfg"
| "event_ok _ = True"

subsection \<open>The abstract breaker\<close>

inductive fsm_step :: "BreakerState \<Rightarrow> cell_event \<Rightarrow> bool \<Rightarrow> BreakerState \<Rightarrow> bool" where
  soft_cooldown: "fsm_step Closed (Fail now cfg ra mh sd) False Closed"
| trips: "now \<le> u \<Longrightarrow> fsm_step Closed (Fail now cfg ra mh sd) True (Open u)"
| reopens: "now \<le> u \<Longrightarrow> fsm_step HalfOpen (Fail now cfg ra mh sd) False (Open u)"
| open_ignores: "fsm_step (Open u) (Fail now cfg ra mh sd) False (Open u)"
| closes: "fsm_step HalfOpen (Success now) True Closed"
| success_keeps: "s \<noteq> HalfOpen \<Longrightarrow> fsm_step s (Success now) False s"
| closed_admits: "fsm_step Closed (Acquire now) r Closed"
| closed_late: "fsm_step Closed (AcquireLate now) False Closed"
| probes: "u \<le> now \<Longrightarrow> ev = Acquire now \<or> ev = AcquireLate now \<Longrightarrow> fsm_step (Open u) ev True HalfOpen"
| open_rejects: "now < u \<Longrightarrow> ev = Acquire now \<or> ev = AcquireLate now \<Longrightarrow>
    fsm_step (Open u) ev False (Open u)"
| half_open_rejects: "ev = Acquire now \<or> ev = AcquireLate now \<Longrightarrow> fsm_step HalfOpen ev False HalfOpen"
| release_reverts: "ev = ReleaseProbe \<or> ev = ReleaseOwned e \<Longrightarrow> fsm_step HalfOpen ev False (Open u)"
| release_keeps: "s \<noteq> HalfOpen \<Longrightarrow> fsm_step s ReleaseProbe False s"
| release_stale: "fsm_step s (ReleaseOwned e) False s"
| hard_down: "fsm_step s (HardDownAt now d) (s = Closed) (Open (sat_add_u64 now d))"
| recovers: "fsm_step s (Recover now) True Closed"
| recover_idle: "fsm_step Closed (Recover now) False Closed"
| recovers_late: "fsm_step s (RecoverLate now observed) True Closed"
| recover_stale: "fsm_step s (RecoverLate now observed) False s"

inductive_cases fsm_open_acquireE: "fsm_step (Open u) (Acquire now) r s"
inductive_cases fsm_half_acquireE: "fsm_step HalfOpen (Acquire now) r s"
inductive_cases fsm_open_lateE: "fsm_step (Open u) (AcquireLate now) r s"
inductive_cases fsm_half_lateE: "fsm_step HalfOpen (AcquireLate now) r s"
inductive_cases fsm_open_failE: "fsm_step (Open u) (Fail now cfg ra mh sd) r s"
inductive_cases fsm_open_successE: "fsm_step (Open u) (Success now) r s"
inductive_cases fsm_open_releaseE: "fsm_step (Open u) ReleaseProbe r s"
inductive_cases fsm_open_ownedE: "fsm_step (Open u) (ReleaseOwned e) r s"

lemmas fsm_open_elims = fsm_open_acquireE fsm_open_lateE fsm_open_failE fsm_open_successE fsm_open_releaseE
  fsm_open_ownedE

inductive fsm_run :: "BreakerState \<Rightarrow> (cell_event \<times> bool) list \<Rightarrow> BreakerState \<Rightarrow> bool" where
  run_nil: "fsm_run s [] s"
| run_cons: "fsm_step s e r s1 \<Longrightarrow> fsm_run s1 tr s2 \<Longrightarrow> fsm_run s ((e, r) # tr) s2"

inductive_simps fsm_run_nil [simp]: "fsm_run s [] s'"
inductive_simps fsm_run_Cons: "fsm_run s (x # tr) s'"

subsection \<open>The code simulates the abstract breaker\<close>

lemma abs_simps [simp]:
  "breaker_state c = ST_CLOSED \<Longrightarrow> cell_breaker_state c = Closed"
  "breaker_state c = ST_OPEN \<Longrightarrow> cell_breaker_state c = Open (cooldown_until c)"
  "breaker_state c = ST_HALF_OPEN \<Longrightarrow> cell_breaker_state c = HalfOpen"
  by (simp_all add: cell_breaker_state_def st_defs)

lemma st_distinct [simp]:
  "ST_CLOSED \<noteq> ST_OPEN" "ST_CLOSED \<noteq> ST_HALF_OPEN" "ST_OPEN \<noteq> ST_HALF_OPEN"
  "ST_OPEN \<noteq> ST_CLOSED" "ST_HALF_OPEN \<noteq> ST_CLOSED" "ST_HALF_OPEN \<noteq> ST_OPEN"
  by (simp_all add: st_defs)

lemma cell_open_locked_state:
  "cell_open_locked c now cfg ra mh sd = Some c' \<Longrightarrow> now \<le> u64_max \<Longrightarrow>
   breaker_state c' = ST_OPEN \<and> now \<le> cooldown_until c' \<and> \<not> probe_in_flight c'"
  by (auto simp: cell_open_locked_def sat_add_u64_ge split: bind_splits)

lemma cell_record_failure_cases:
  assumes "cell_record_failure c now cfg ra mh sd = Some (c', r)" "cell_wf c" "now \<le> u64_max"
  shows "breaker_state c = ST_CLOSED \<and>
           (\<not> r \<and> breaker_state c' = ST_CLOSED
            \<or> r \<and> breaker_state c' = ST_OPEN \<and> now \<le> cooldown_until c')
       \<or> breaker_state c = ST_HALF_OPEN \<and> \<not> r \<and> breaker_state c' = ST_OPEN \<and> now \<le> cooldown_until c'
       \<or> breaker_state c = ST_OPEN \<and> \<not> r \<and> breaker_state c' = ST_OPEN
         \<and> cooldown_until c' = cooldown_until c \<and> streak c' = streak c"
  using cell_wf_enc [OF assms(2)] assms(1,3)
  by (elim disjE)
    (auto simp: cell_record_failure_def Let_def dest: cell_open_locked_state
      split: if_splits bind_splits)

fun event_time :: "cell_event \<Rightarrow> nat" where
  "event_time (Fail now cfg ra mh sd) = now"
| "event_time (Success now) = now"
| "event_time (Acquire now) = now"
| "event_time ReleaseProbe = 0"
| "event_time (ReleaseOwned e) = 0"
| "event_time (HardDownAt now s) = now"
| "event_time (Recover now) = now"
| "event_time (AcquireLate now) = now"
| "event_time (RecoverLate now observed) = now"

lemma cell_exec_wf: "cell_exec c ev = Some (c', r) \<Longrightarrow> cell_wf c \<Longrightarrow> cell_wf c'"
proof (cases ev)
  case (Success now)
  then show "cell_exec c ev = Some (c', r) \<Longrightarrow> cell_wf c \<Longrightarrow> cell_wf c'"
    using cell_record_success_wf [of c now] by simp
next
  case (Acquire now)
  then show "cell_exec c ev = Some (c', r) \<Longrightarrow> cell_wf c \<Longrightarrow> cell_wf c'"
    using cell_acquire_wf [of c now] by simp
next
  case (Recover now)
  then show "cell_exec c ev = Some (c', r) \<Longrightarrow> cell_wf c \<Longrightarrow> cell_wf c'"
    using cell_recover_wf [of c now] by simp
next
  case (AcquireLate now)
  then show "cell_exec c ev = Some (c', r) \<Longrightarrow> cell_wf c \<Longrightarrow> cell_wf c'"
    by (auto simp: acquire_locked_def cell_wf_def split: if_splits)
next
  case (RecoverLate now obs)
  then show "cell_exec c ev = Some (c', r) \<Longrightarrow> cell_wf c \<Longrightarrow> cell_wf c'"
    by (auto simp: cell_closed_if_recoverable_def cell_closed_locked_wf split: if_splits)
qed (auto intro: wf_intros)

lemma refines_fail:
  assumes "cell_record_failure c now cfg ra mh sd = Some (c', r)" "cell_wf c" "now \<le> u64_max"
  shows "fsm_step (cell_breaker_state c) (Fail now cfg ra mh sd) r (cell_breaker_state c')"
  using cell_record_failure_cases [OF assms] by (auto intro: fsm_step.intros)

lemma refines_success:
  "cell_record_success c now = (c', r) \<Longrightarrow> cell_wf c \<Longrightarrow>
   fsm_step (cell_breaker_state c) (Success now) r (cell_breaker_state c')"
  by (drule cell_wf_enc)
    (auto simp: cell_record_success_def cell_closed_locked_def Let_def intro: fsm_step.intros
      split: if_splits)

lemma refines_acquire:
  "cell_acquire_breaker c now = (c', r) \<Longrightarrow> cell_wf c \<Longrightarrow>
   fsm_step (cell_breaker_state c) (Acquire now) r (cell_breaker_state c')"
  by (drule cell_wf_enc)
    (auto simp: cell_acquire_breaker_def acquire_locked_def not_le intro: fsm_step.intros split: if_splits)

lemma refines_recover:
  "cell_recover c now = (c', r) \<Longrightarrow> cell_wf c \<Longrightarrow>
   fsm_step (cell_breaker_state c) (Recover now) r (cell_breaker_state c')"
  by (drule cell_wf_enc)
    (auto simp: cell_recover_def cell_closed_if_recoverable_def cell_closed_locked_def suppressed_def
      intro: fsm_step.intros split: if_splits)

lemma refines_acquire_late:
  "acquire_locked c now = (c', r) \<Longrightarrow> cell_wf c \<Longrightarrow>
   fsm_step (cell_breaker_state c) (AcquireLate now) r (cell_breaker_state c')"
  by (drule cell_wf_enc)
    (auto simp: acquire_locked_def not_less intro: fsm_step.intros split: if_splits)

lemma refines_recover_late:
  "cell_closed_if_recoverable c now observed = (c', r) \<Longrightarrow>
   fsm_step (cell_breaker_state c) (RecoverLate now observed) r (cell_breaker_state c')"
  by (auto simp: cell_closed_if_recoverable_def cell_closed_locked_def intro: fsm_step.intros
      split: if_splits)

lemma refines_release:
  "cell_wf c \<Longrightarrow> fsm_step (cell_breaker_state c) ReleaseProbe False (cell_breaker_state (cell_release_probe c))"
  "cell_wf c \<Longrightarrow> fsm_step (cell_breaker_state c) (ReleaseOwned e) False
     (cell_breaker_state (cell_release_probe_owned c e))"
  by (drule cell_wf_enc;
      auto simp: cell_release_probe_def cell_release_probe_owned_def intro: fsm_step.intros)+

lemma refines_hard_down:
  assumes "cell_wf c"
  shows "fsm_step (cell_breaker_state c) (HardDownAt now s) (breaker_state c = ST_CLOSED)
    (cell_breaker_state (cell_hard_down c now s))"
proof -
  have "(breaker_state c = ST_CLOSED) = (cell_breaker_state c = Closed)"
    using cell_wf_enc [OF assms] by auto
  moreover have "cell_breaker_state (cell_hard_down c now s) = Open (sat_add_u64 now s)"
    by (simp add: cell_hard_down_def)
  ultimately show ?thesis by (simp add: fsm_step.hard_down)
qed

lemma cell_exec_refines:
  assumes "cell_exec c ev = Some (c', r)" "cell_wf c" "event_time ev \<le> u64_max"
  shows "fsm_step (cell_breaker_state c) ev r (cell_breaker_state c')"
  using assms
  by (cases ev) (auto intro: refines_fail refines_success refines_acquire refines_recover
      refines_release refines_hard_down
      refines_acquire_late refines_recover_late)

lemma cell_exec_total: "event_ok ev \<Longrightarrow> cell_exec c ev \<noteq> None"
proof (cases ev)
  case (Fail now cfg ra mh sd)
  moreover assume "event_ok ev"
  ultimately have "\<forall>d. \<exists>y. compute_cooldown_with_retry_after d cfg ra mh sd = Some y"
    using cooldown_total by auto
  then obtain f where "\<And>d. compute_cooldown_with_retry_after d cfg ra mh sd = Some (f d)"
    by metis
  with Fail show ?thesis
    by (simp add: cell_record_failure_def cell_open_locked_def Let_def) auto
qed auto

lemma cell_run_ConsE:
  assumes "cell_run c (e # es) = Some (c', tr)"
  obtains c1 r tr1 where "cell_exec c e = Some (c1, r)" "cell_run c1 es = Some (c', tr1)"
    "tr = (e, r) # tr1"
  using assms by (auto split: bind_splits)

lemma cell_run_wf: "cell_run c es = Some (c', tr) \<Longrightarrow> cell_wf c \<Longrightarrow> cell_wf c'"
proof (induction es arbitrary: c tr)
  case (Cons e es)
  from Cons.prems(1) show ?case by (rule cell_run_ConsE) (use Cons cell_exec_wf in blast)
qed simp

lemma cell_run_events: "cell_run c es = Some (c', tr) \<Longrightarrow> map fst tr = es"
  by (induction es arbitrary: c tr) (auto split: bind_splits)

lemma cell_run_refines:
  "cell_run c es = Some (c', tr) \<Longrightarrow> cell_wf c \<Longrightarrow> \<forall>e \<in> set es. event_time e \<le> u64_max \<Longrightarrow>
   fsm_run (cell_breaker_state c) tr (cell_breaker_state c')"
proof (induction es arbitrary: c tr)
  case Nil
  then show ?case by (auto intro: run_nil)
next
  case (Cons e es)
  obtain c1 r tr1 where 1: "cell_exec c e = Some (c1, r)" "cell_run c1 es = Some (c', tr1)"
    "tr = (e, r) # tr1"
    using Cons.prems(1) by (rule cell_run_ConsE)
  have "fsm_step (cell_breaker_state c) e r (cell_breaker_state c1)"
    using cell_exec_refines [OF 1(1)] Cons.prems by simp
  moreover have "fsm_run (cell_breaker_state c1) tr1 (cell_breaker_state c')"
    using Cons 1 cell_exec_wf by simp
  ultimately show ?case unfolding 1(3) by (rule run_cons)
qed

lemma cell_run_append:
  "cell_run c (es @ fs) = Some (c', tr) \<Longrightarrow>
   \<exists>c1 tr1 tr2. cell_run c es = Some (c1, tr1) \<and> cell_run c1 fs = Some (c', tr2) \<and> tr = tr1 @ tr2"
proof (induction es arbitrary: c tr)
  case (Cons e es)
  from Cons.prems have "cell_run c (e # (es @ fs)) = Some (c', tr)" by simp
  then show ?case by (rule cell_run_ConsE) (use Cons.IH in fastforce)
qed simp

lemma cell_run_total: "\<forall>e \<in> set es. event_ok e \<Longrightarrow> \<exists>c' tr. cell_run c es = Some (c', tr)"
proof (induction es arbitrary: c)
  case (Cons e es)
  obtain c1 r where 1: "cell_exec c e = Some (c1, r)"
    using cell_exec_total [of e c] Cons.prems by auto
  obtain c2 tr where "cell_run c1 es = Some (c2, tr)"
    using Cons by fastforce
  with 1 show ?case by simp
qed simp

subsection \<open>Traces of the abstract breaker\<close>

fun is_override :: "cell_event \<Rightarrow> bool" where
  "is_override (HardDownAt now s) = True"
| "is_override (Recover now) = True"
| "is_override (RecoverLate now observed) = True"
| "is_override _ = False"

fun is_acquire :: "cell_event \<Rightarrow> bool" where
  "is_acquire (Acquire now) = True"
| "is_acquire (AcquireLate now) = True"
| "is_acquire _ = False"

lemma fsm_open_stays:
  "fsm_run s tr s' \<Longrightarrow> s = Open u \<Longrightarrow>
   \<forall>(e, r) \<in> set tr. \<not> is_override e \<and> (is_acquire e \<longrightarrow> event_time e < u) \<Longrightarrow>
   s' = Open u \<and> (\<forall>(e, r) \<in> set tr. \<not> r)"
proof (induction rule: fsm_run.induct)
  case (run_cons s e r s1 tr s2)
  have "s1 = Open u \<and> \<not> r"
    using run_cons.hyps(1) run_cons.prems by (cases e) (auto elim: fsm_open_elims)
  then show ?case using run_cons by simp
qed simp

lemma fsm_half_open_single_flight:
  "fsm_run s tr s' \<Longrightarrow> s = HalfOpen \<Longrightarrow> \<forall>(e, r) \<in> set tr. is_acquire e \<Longrightarrow>
   s' = HalfOpen \<and> (\<forall>(e, r) \<in> set tr. \<not> r)"
proof (induction rule: fsm_run.induct)
  case (run_cons s e r s1 tr s2)
  have "s1 = HalfOpen \<and> \<not> r"
    using run_cons.hyps(1) run_cons.prems by (cases e) (auto elim: fsm_half_acquireE fsm_half_lateE)
  then show ?case using run_cons by simp
qed simp

subsection \<open>Counting probe wins\<close>

text \<open>How many events of a run win the single-flight probe (the cell goes from Open to HalfOpen).\<close>

fun probe_wins :: "BreakerCell \<Rightarrow> cell_event list \<Rightarrow> nat" where
  "probe_wins c [] = 0"
| "probe_wins c (e # es) =
     (case cell_exec c e of
        None \<Rightarrow> 0
      | Some (c1, r) \<Rightarrow>
          (if is_acquire e \<and> r \<and> breaker_state c = ST_OPEN then 1 else 0) + probe_wins c1 es)"

lemma fail_epoch: "cell_record_failure c now cfg ra mh sd = Some (c', r) \<Longrightarrow> probe_epoch c' = probe_epoch c"
  by (auto simp: cell_record_failure_def cell_open_locked_def Let_def split: if_splits bind_splits)

lemma cell_exec_epoch:
  assumes "cell_exec c e = Some (c', r)" "cell_wf c"
  shows "probe_epoch c' = (if is_acquire e \<and> r \<and> breaker_state c = ST_OPEN
     then wrap_u64 (probe_epoch c + 1) else probe_epoch c)"
  using assms
  by (cases e)
    (auto simp: fail_epoch cell_record_success_def cell_closed_locked_def Let_def
      cell_acquire_breaker_def acquire_locked_def cell_release_probe_def cell_release_probe_owned_def
      cell_hard_down_def cell_recover_def cell_closed_if_recoverable_def
      split: if_splits)

lemma probe_epoch_counts:
  "cell_run c es = Some (c', tr) \<Longrightarrow> cell_wf c \<Longrightarrow>
   probe_epoch c' = wrap_u64 (probe_epoch c + probe_wins c es)"
proof (induction es arbitrary: c tr)
  case Nil
  then show ?case by (simp add: cell_wf_def wrap_u64_def u64_max_def)
next
  case (Cons e es)
  obtain c1 r tr1 where 1: "cell_exec c e = Some (c1, r)" "cell_run c1 es = Some (c', tr1)"
    using Cons.prems(1) by (rule cell_run_ConsE)
  have "probe_epoch c' = wrap_u64 (probe_epoch c1 + probe_wins c1 es)"
    using Cons.IH [OF 1(2)] cell_exec_wf [OF 1(1)] Cons.prems(2) by simp
  then show ?case
    using 1(1) cell_exec_epoch [OF 1(1) Cons.prems(2)]
    by (auto simp: wrap_u64_def mod_add_left_eq add.assoc split: if_splits)
qed

subsection \<open>Trip decisions\<close>

definition failure_recorded :: "BreakerCell \<Rightarrow> nat \<Rightarrow> BreakerCell" where
  "failure_recorded c now = c\<lparr>outcome_window := ow_push (outcome_window c) now True,
     err := wrap_u64 (err c + 1), streak := wrap_u32 (streak c + 1)\<rparr>"

lemma fail_closed:
  assumes "breaker_state c = ST_CLOSED" "cfg_ok cfg" "cell_wf c"
  shows "\<exists>c'. cell_record_failure c now cfg ra mh sd = Some (c', should_trip (failure_recorded c now) now cfg)
    \<and> breaker_state c' = (if should_trip (failure_recorded c now) now cfg then ST_OPEN else ST_CLOSED)
    \<and> streak c' = wrap_u32 (streak c + 1) \<and> cell_wf c'"
proof -
  obtain d where d: "compute_cooldown_with_retry_after (failure_recorded c now) cfg ra mh sd = Some d"
    using cooldown_total [OF assms(2), of "failure_recorded c now" ra mh sd] by auto
  have "\<exists>c'. cell_record_failure c now cfg ra mh sd = Some (c', should_trip (failure_recorded c now) now cfg)
    \<and> breaker_state c' = (if should_trip (failure_recorded c now) now cfg then ST_OPEN else ST_CLOSED)
    \<and> streak c' = wrap_u32 (streak c + 1)"
    using assms(1) d by (auto simp: cell_record_failure_def cell_open_locked_def Let_def failure_recorded_def)
  then show ?thesis using cell_record_failure_wf assms(3) by blast
qed

lemma consecutive_run:
  assumes "cfg_ok cfg" "mode (trip cfg) = Consecutive" "consecutive_n (trip cfg) \<le> u32_max"
  shows "cell_wf c \<Longrightarrow> breaker_state c = ST_CLOSED \<Longrightarrow> streak c + Suc (length xs) = consecutive_n (trip cfg) \<Longrightarrow>
    \<exists>c' tr. cell_run c (map (\<lambda>(now, ra, sd). Fail now cfg ra mh sd) (xs @ [x])) = Some (c', tr)
      \<and> map snd tr = replicate (length xs) False @ [True] \<and> breaker_state c' = ST_OPEN"
proof (induction xs arbitrary: c)
  case Nil
  obtain now ra sd where x: "x = (now, ra, sd)" by (cases x)
  have "wrap_u32 (Suc (streak c)) = consecutive_n (trip cfg)"
    using Nil(3) assms(3) by (simp add: wrap_u32_def u32_max_def)
  then show ?case
    using fail_closed [OF Nil(2) assms(1) Nil(1), of now ra mh sd] assms(2)
    by (auto simp: x should_trip_def failure_recorded_def)
next
  case (Cons y ys)
  obtain now ra sd where y: "y = (now, ra, sd)" by (cases y)
  have w: "wrap_u32 (Suc (streak c)) = Suc (streak c)"
    using Cons.prems(3) assms(3) by (simp add: wrap_u32_def u32_max_def)
  obtain c1 where c1: "cell_record_failure c now cfg ra mh sd = Some (c1, False)" "cell_wf c1"
    "breaker_state c1 = ST_CLOSED" "streak c1 = Suc (streak c)"
    using fail_closed [OF Cons.prems(2) assms(1) Cons.prems(1), of now ra mh sd] assms(2)
      Cons.prems(3) by (auto simp: should_trip_def failure_recorded_def w)
  from Cons.IH [OF c1(2,3)] Cons.prems(3) c1(4) show ?case by (auto simp: y c1(1))
qed

section \<open>Properties of the breaker cell\<close>

text \<open>
  Under any breaker configuration the validator accepts, the cooldown computation never
  panics; the cooldown is at least one second, within a tenth (at least one second) of the doubling
  backoff, at most the configured maximum, and an honoured \<open>Retry-After\<close> is a floor capped at the
  operator's ceiling.
\<close>
theorem cooldown_bounds:
  assumes "validate_breaker pc = []" and "cfg_max_cooldown_secs pc \<le> u64_max"
  shows "\<exists>d. compute_cooldown_with_retry_after c (BreakerCfg_from pc) ra mh sd = Some d
    \<and> 1 \<le> d \<and> d \<le> max (cfg_max_cooldown_secs pc) mh
    \<and> (let b = backoff (BreakerCfg_from pc) (streak c) in
         b - max (b div 10) 1 \<le> d \<and>
         (case ra of
            None \<Rightarrow> d \<le> b + max (b div 10) 1 \<and> d \<le> cfg_max_cooldown_secs pc
          | Some r \<Rightarrow> min r mh \<le> d))"
proof -
  have h: "honor_retry_after (BreakerCfg_from pc)"
    "max_cooldown_secs (BreakerCfg_from pc) = cfg_max_cooldown_secs pc"
    by (simp_all add: BreakerCfg_from_def)
  show ?thesis
    by (rule cooldown_SomeE [OF validated_cfg_ok [OF assms], of c ra mh sd])
      (auto simp: h Let_def split: option.split)
qed

theorem cooldown_bounds_witness:
  "\<exists>d. compute_cooldown_with_retry_after BreakerCell_new
      (BreakerCfg_from \<lparr>cfg_base_cooldown_secs = 15, cfg_max_cooldown_secs = 120, cfg_trip = None\<rparr>)
      None 86400 (7, 9) = Some d \<and> 14 \<le> d \<and> d \<le> 16"
  using cooldown_bounds [of "\<lparr>cfg_base_cooldown_secs = 15, cfg_max_cooldown_secs = 120, cfg_trip = None\<rparr>"
      BreakerCell_new None 86400 "(7, 9)"]
  by (auto simp: validate_breaker_def u64_max_def backoff_def BreakerCfg_from_def BreakerCell_new_def
      Let_def)

text \<open>
  Claim C1. The code refines the three-state breaker: every interleaving of operations on a
  well-formed cell runs without a panic when its configurations are valid, and its states and
  results are a run of \<open>fsm_step\<close>; the cell stays well formed.
\<close>
theorem breaker_refines_fsm:
  assumes "cell_wf c" and "\<forall>e \<in> set es. event_ok e \<and> event_time e \<le> u64_max"
  shows "\<exists>c' tr. cell_run c es = Some (c', tr) \<and> cell_wf c' \<and>
    fsm_run (cell_breaker_state c) tr (cell_breaker_state c')"
  using cell_run_total [of es c] cell_run_wf [of c es] cell_run_refines [of c es] assms by blast

theorem breaker_refines_fsm_witness:
  "\<exists>c' tr. cell_run BreakerCell_new
       [Fail 5 BreakerCfg_default None 100 (1, 2), HardDownAt 6 10, Acquire 20, ReleaseOwned 1, Recover 21]
     = Some (c', tr) \<and> cell_wf c' \<and>
     fsm_run (cell_breaker_state BreakerCell_new) tr (cell_breaker_state c')"
  using breaker_refines_fsm [of BreakerCell_new
      "[Fail 5 BreakerCfg_default None 100 (1, 2), HardDownAt 6 10, Acquire 20, ReleaseOwned 1, Recover 21]"]
    BreakerCell_new_wf BreakerCfg_default_ok
  by (simp add: u64_max_def)

text \<open>
  Claim C2. A tripped cell admits nobody before its cooldown expires: in any interleaving of
  failures, successes, probe releases and acquisitions (with or without a stale lock-free check), as
  long as no hard-down and no recovery intervenes and every acquisition happens before the
  deadline, no acquisition succeeds and the cell is still Open with the same deadline.
\<close>
theorem open_cell_admits_nobody:
  assumes "cell_wf c" and "breaker_state c = ST_OPEN" and "cell_run c es = Some (c', tr)"
    and "\<forall>e \<in> set es. event_time e \<le> u64_max \<and> \<not> is_override e \<and>
      (is_acquire e \<longrightarrow> event_time e < cooldown_until c)"
  shows "cell_breaker_state c' = Open (cooldown_until c) \<and> (\<forall>(e, r) \<in> set tr. \<not> r)"
proof -
  have "fsm_run (Open (cooldown_until c)) tr (cell_breaker_state c')"
    using cell_run_refines [OF assms(3,1)] assms(2,4) by simp
  moreover have "\<forall>(e, r) \<in> set tr. \<not> is_override e \<and> (is_acquire e \<longrightarrow> event_time e < cooldown_until c)"
    using cell_run_events [OF assms(3)] assms(4) by fastforce
  ultimately show ?thesis using fsm_open_stays by blast
qed

theorem open_cell_admits_nobody_witness:
  "\<exists>c' tr. cell_run (BreakerCell_new\<lparr>breaker_state := ST_OPEN, cooldown_until := 100\<rparr>)
      [Acquire 50, Success 60, AcquireLate 99] = Some (c', tr)
    \<and> cell_breaker_state c' = Open 100 \<and> True \<notin> snd ` set tr"
proof -
  let ?c = "BreakerCell_new\<lparr>breaker_state := ST_OPEN, cooldown_until := 100\<rparr>"
  let ?es = "[Acquire 50, Success 60, AcquireLate 99]"
  obtain c' tr where run: "cell_run ?c ?es = Some (c', tr)" using cell_run_total [of ?es ?c] by auto
  have wf: "cell_wf ?c" using BreakerCell_new_wf by (simp add: cell_wf_def u64_max_def st_defs)
  have "cell_breaker_state c' = Open 100 \<and> (\<forall>(e, r) \<in> set tr. \<not> r)"
    using open_cell_admits_nobody [OF wf _ run] by (simp add: u64_max_def)
  then show ?thesis using run by (intro exI [of _ c'] exI [of _ tr]) force
qed

text \<open>
  Claim C3. The recovery probe is single-flight and owned: after a caller wins the probe, any number
  of further acquisitions, including ones whose lock-free check ran before the win, are refused; and
  once a later probe has been won (fewer than \<open>2^64\<close> of them), the owner-checked release of the
  earlier winner leaves the cell exactly as it is.
\<close>
theorem probe_single_flight_owned:
  assumes "cell_wf c" and "breaker_state c = ST_OPEN" and "cell_acquire_breaker c now = (c1, True)"
  shows "(\<forall>es c2 tr. cell_run c1 es = Some (c2, tr) \<and> (\<forall>e \<in> set es. is_acquire e \<and> event_time e \<le> u64_max)
            \<longrightarrow> cell_breaker_state c2 = HalfOpen \<and> (\<forall>(e, r) \<in> set tr. \<not> r))
    \<and> (\<forall>es c2 tr. cell_run c1 es = Some (c2, tr) \<and> 0 < probe_wins c1 es \<and> probe_wins c1 es \<le> u64_max
            \<longrightarrow> cell_release_probe_owned c2 (probe_epoch c1) = c2)"
proof (intro conjI allI impI; elim conjE)
  have half: "breaker_state c1 = ST_HALF_OPEN" and wf: "cell_wf c1"
    using assms cell_acquire_wf [of c now]
    by (auto simp: cell_acquire_breaker_def acquire_locked_def split: if_splits)
  {
    fix es c2 tr
    assume run: "cell_run c1 es = Some (c2, tr)"
      and acq: "\<forall>e \<in> set es. is_acquire e \<and> event_time e \<le> u64_max"
    have "fsm_run HalfOpen tr (cell_breaker_state c2)"
      using cell_run_refines [OF run wf] acq half by simp
    moreover have "\<forall>(e, r) \<in> set tr. is_acquire e"
      using cell_run_events [OF run] acq by fastforce
    ultimately show "cell_breaker_state c2 = HalfOpen" and "\<forall>(e, r) \<in> set tr. \<not> r"
      using fsm_half_open_single_flight by blast+
  }
  fix es c2 tr
  assume run: "cell_run c1 es = Some (c2, tr)"
    and wins: "0 < probe_wins c1 es" "probe_wins c1 es \<le> u64_max"
  have "probe_epoch c2 = wrap_u64 (probe_epoch c1 + probe_wins c1 es)"
    by (rule probe_epoch_counts [OF run wf])
  moreover have "probe_epoch c1 \<le> u64_max" using wf by (simp add: cell_wf_def)
  ultimately have "probe_epoch c2 \<noteq> probe_epoch c1"
    using wins wrap_u64_advances by simp
  then show "cell_release_probe_owned c2 (probe_epoch c1) = c2"
    by (simp add: cell_release_probe_owned_def)
qed

theorem probe_single_flight_owned_witness:
  "\<exists>c2 tr. cell_run (BreakerCell_new\<lparr>breaker_state := ST_HALF_OPEN, cooldown_until := 10, probe_epoch := 1,
        probe_in_flight := True\<rparr>) [AcquireLate 12, Acquire 13] = Some (c2, tr)
      \<and> cell_breaker_state c2 = HalfOpen \<and> True \<notin> snd ` set tr"
proof -
  let ?c = "BreakerCell_new\<lparr>breaker_state := ST_OPEN, cooldown_until := 10\<rparr>"
  let ?h = "BreakerCell_new\<lparr>breaker_state := ST_HALF_OPEN, cooldown_until := 10, probe_epoch := 1,
        probe_in_flight := True\<rparr>"
  let ?es = "[AcquireLate 12, Acquire 13]"
  have wf: "cell_wf ?c" using BreakerCell_new_wf by (simp add: cell_wf_def u64_max_def st_defs)
  have acq: "cell_acquire_breaker ?c 11 = (?h, True)"
    by (simp add: cell_acquire_breaker_def acquire_locked_def BreakerCell_new_def st_defs wrap_u64_def)
  obtain c2 tr where run: "cell_run ?h ?es = Some (c2, tr)" using cell_run_total [of ?es ?h] by auto
  have "cell_breaker_state c2 = HalfOpen \<and> (\<forall>(e, r) \<in> set tr. \<not> r)"
    using probe_single_flight_owned [OF wf _ acq, THEN conjunct1, THEN spec, of ?es] run
    by (simp add: u64_max_def del: cell_run.simps)
  then show ?thesis using run by (intro exI [of _ c2] exI [of _ tr]) force
qed

fun concludes_probe :: "cell_event \<Rightarrow> BreakerCell \<Rightarrow> bool" where
  "concludes_probe (Acquire now) c = False"
| "concludes_probe (AcquireLate now) c = False"
| "concludes_probe (RecoverLate now observed) c = (cooldown_until c \<le> observed)"
| "concludes_probe (ReleaseOwned e) c = (e = probe_epoch c)"
| "concludes_probe _ c = True"

lemma acquire_after_cooldown:
  "cell_wf c \<Longrightarrow> breaker_state c \<noteq> ST_HALF_OPEN \<Longrightarrow> cooldown_until c \<le> now \<Longrightarrow>
   snd (cell_acquire_breaker c now)"
  by (drule cell_wf_enc) (auto simp: cell_acquire_breaker_def acquire_locked_def)

lemma concluded_not_half_open:
  assumes "cell_exec c ev = Some (c', r)" "breaker_state c = ST_HALF_OPEN" "concludes_probe ev c"
  shows "breaker_state c' \<noteq> ST_HALF_OPEN \<and> \<not> probe_in_flight c'"
proof (cases ev)
  case (Fail now cfg ra mh sd)
  then show ?thesis
    using assms by (auto simp: cell_record_failure_def cell_open_locked_def Let_def split: bind_splits)
qed (use assms in \<open>auto simp: cell_record_success_def cell_closed_locked_def Let_def
      cell_release_probe_def cell_release_probe_owned_def cell_hard_down_def cell_recover_def
      cell_closed_if_recoverable_def suppressed_def split: if_splits\<close>)

text \<open>
  Claim C4. No cell is benched for good: a well-formed cell that is not half-open admits a request at
  every instant from its deadline on, and a half-open cell leaves that state, its probe flag cleared,
  on every way its probe can end (success, failure, release by its owner, hard-down, recovery), so
  that it admits again from the deadline it is left with.
\<close>
theorem never_benched:
  assumes "cell_wf c"
  shows "(breaker_state c \<noteq> ST_HALF_OPEN \<longrightarrow>
            (\<forall>now. cooldown_until c \<le> now \<longrightarrow> snd (cell_acquire_breaker c now)))
    \<and> (breaker_state c = ST_HALF_OPEN \<and> event_ok ev \<and> concludes_probe ev c \<longrightarrow>
            (\<exists>c' r. cell_exec c ev = Some (c', r) \<and> \<not> probe_in_flight c' \<and>
               (\<forall>now. cooldown_until c' \<le> now \<longrightarrow> snd (cell_acquire_breaker c' now))))"
proof (intro conjI impI allI; (elim conjE)?)
  show "snd (cell_acquire_breaker c now)"
    if "breaker_state c \<noteq> ST_HALF_OPEN" "cooldown_until c \<le> now" for now
    using acquire_after_cooldown assms that by blast
  assume h: "breaker_state c = ST_HALF_OPEN" "event_ok ev" "concludes_probe ev c"
  obtain c' r where x: "cell_exec c ev = Some (c', r)"
    using cell_exec_total [OF h(2), of c] by auto
  show "\<exists>c' r. cell_exec c ev = Some (c', r) \<and> \<not> probe_in_flight c' \<and>
      (\<forall>now. cooldown_until c' \<le> now \<longrightarrow> snd (cell_acquire_breaker c' now))"
    using concluded_not_half_open [OF x h(1,3)] acquire_after_cooldown cell_exec_wf [OF x assms] x
    by blast
qed

theorem never_benched_witness:
  "snd (cell_acquire_breaker BreakerCell_new 0)"
  using never_benched [OF BreakerCell_new_wf, of "Success 0"]
  by (simp add: BreakerCell_new_def st_defs)

text \<open>
  In consecutive mode a closed cell trips exactly on the failure that brings its streak to
  \<open>consecutive_n\<close>: the failures before it report no trip, that one reports the trip, and the cell is
  then Open.
\<close>
theorem consecutive_trips_at_n:
  assumes "cfg_ok cfg" and "mode (trip cfg) = Consecutive" and "consecutive_n (trip cfg) \<le> u32_max"
    and "cell_wf c" and "breaker_state c = ST_CLOSED"
    and "streak c + Suc (length xs) = consecutive_n (trip cfg)"
  shows "\<exists>c' tr. cell_run c (map (\<lambda>(now, ra, sd). Fail now cfg ra mh sd) (xs @ [x])) = Some (c', tr)
      \<and> map snd tr = replicate (length xs) False @ [True] \<and> breaker_state c' = ST_OPEN"
  by (rule consecutive_run [OF assms])

theorem consecutive_trips_at_n_witness:
  "\<exists>c' tr. cell_run BreakerCell_new
      (map (\<lambda>(now, ra, sd). Fail now (BreakerCfg_default\<lparr>trip := TripConfig_default\<lparr>mode := Consecutive\<rparr>\<rparr>) ra 60 sd)
        [(1, None, (3, 4)), (2, Some 9, (5, 6)), (3, None, (7, 8))]) = Some (c', tr)
    \<and> map snd tr = [False, False, True] \<and> breaker_state c' = ST_OPEN"
  using consecutive_trips_at_n [of "BreakerCfg_default\<lparr>trip := TripConfig_default\<lparr>mode := Consecutive\<rparr>\<rparr>"
      BreakerCell_new "[(1, None, (3, 4)), (2, Some 9, (5, 6))]" 60 "(3, None, (7, 8))"]
    BreakerCell_new_wf BreakerCfg_default_ok
  by (simp add: cfg_ok_def TripConfig_default_def u32_max_def BreakerCell_new_def)

text \<open>
  In error-rate mode a failure on a closed cell trips it if and only if the window (the
  last 1024 outcomes with this failure appended, restricted to \<open>window_s\<close> seconds) holds at least
  \<open>min_requests\<close> outcomes and the correctly rounded error fraction reaches the threshold.
\<close>
theorem error_rate_trip_exact:
  assumes "cfg_ok cfg" and "mode (trip cfg) = ErrorRate" and "1 \<le> min_requests (trip cfg)"
    and "cell_wf c" and "breaker_state c = ST_CLOSED"
  shows "let w = ow_push (outcome_window c) now True;
             n = count_in_window w now (window_s (trip cfg));
             e = error_count_in_window w now (window_s (trip cfg));
             tripped = (min_requests (trip cfg) \<le> n \<and> f64_ge (fl (of_nat e / of_nat n)) (threshold (trip cfg)))
         in \<exists>c'. cell_record_failure c now cfg ra mh sd = Some (c', tripped)
              \<and> cell_breaker_state c' = (if tripped then Open (cooldown_until c') else Closed)"
proof -
  define w where "w = ow_push (outcome_window c) now True"
  let ?n = "count_in_window w now (window_s (trip cfg))"
  have ok: "ow_wf w \<and> capacity w = OUTCOME_WINDOW_CAPACITY"
    using assms(4) by (simp add: w_def cell_wf_def ow_push_wf)
  have "should_trip (failure_recorded c now) now cfg \<longleftrightarrow> min_requests (trip cfg) \<le> ?n \<and>
      ow.rate_reached w now (window_s (trip cfg)) (threshold (trip cfg))"
    using assms(2) by (simp add: should_trip_def failure_recorded_def ow.rate_reached_def Let_def w_def not_less)
  also have "\<dots> \<longleftrightarrow> min_requests (trip cfg) \<le> ?n \<and>
      f64_ge (fl (of_nat (error_count_in_window w now (window_s (trip cfg))) / of_nat ?n)) (threshold (trip cfg))"
    using ow.rate_exact [OF ok, of now "window_s (trip cfg)"] assms(3) by (cases "?n = 0") auto
  finally have t: "should_trip (failure_recorded c now) now cfg \<longleftrightarrow> \<dots>" .
  then show ?thesis
    using fail_closed [OF assms(5,1,4), of now ra mh sd]
    by (auto simp: Let_def simp flip: w_def split: if_splits)
qed

theorem error_rate_trip_exact_witness:
  "\<exists>c'. cell_record_failure BreakerCell_new 7
       (BreakerCfg_default\<lparr>trip := TripConfig_default\<lparr>min_requests := 1\<rparr>\<rparr>) None 60 (1, 2) = Some (c', True)
     \<and> cell_breaker_state c' = Open (cooldown_until c')"
  using error_rate_trip_exact [of "BreakerCfg_default\<lparr>trip := TripConfig_default\<lparr>min_requests := 1\<rparr>\<rparr>"
      BreakerCell_new 7 None 60 "(1, 2)"] BreakerCell_new_wf BreakerCfg_default_ok
  by (simp add: cfg_ok_def TripConfig_default_def BreakerCell_new_def ow_new_def ow_push_def
      count_in_window_def error_count_in_window_def OUTCOME_WINDOW_CAPACITY_def Let_def)

text \<open>
  A health probe never undoes a suppression armed after it looked: once a hard-down has
  parked the cell beyond the deadline the probe observed, the probe's locked close finds the newer
  deadline and leaves the cell alone, whatever failures, successes, releases and early acquisitions
  ran in between.
\<close>
theorem recovery_race_safe:
  assumes "cell_wf c" and "observed < sat_add_u64 t secs"
    and "cell_run (cell_hard_down c t secs) es = Some (c', tr)"
    and "\<forall>e \<in> set es. event_time e \<le> u64_max \<and> \<not> is_override e \<and>
      (is_acquire e \<longrightarrow> event_time e < sat_add_u64 t secs)"
  shows "cell_closed_if_recoverable c' now observed = (c', False)
    \<and> cell_breaker_state c' = Open (sat_add_u64 t secs)"
proof -
  have h: "cell_breaker_state (cell_hard_down c t secs) = Open (sat_add_u64 t secs)"
    by (simp add: cell_hard_down_def)
  have wf: "cell_wf c'" using cell_run_wf [OF assms(3)] cell_hard_down_wf [OF assms(1)] by blast
  have "fsm_run (Open (sat_add_u64 t secs)) tr (cell_breaker_state c')"
    using cell_run_refines [OF assms(3) cell_hard_down_wf [OF assms(1)]] assms(4) h by simp
  moreover have "\<forall>(e, r) \<in> set tr. \<not> is_override e \<and> (is_acquire e \<longrightarrow> event_time e < sat_add_u64 t secs)"
    using cell_run_events [OF assms(3)] assms(4) by fastforce
  ultimately have o: "cell_breaker_state c' = Open (sat_add_u64 t secs)"
    using fsm_open_stays by blast
  then have "cooldown_until c' = sat_add_u64 t secs"
    using cell_wf_enc [OF wf] by auto
  then show ?thesis using o assms(2) by (simp add: cell_closed_if_recoverable_def)
qed

theorem recovery_race_safe_witness:
  "\<exists>c' tr. cell_run (cell_hard_down BreakerCell_new 100 1800) [Success 101, Acquire 150] = Some (c', tr)
     \<and> cell_closed_if_recoverable c' 151 120 = (c', False) \<and> cell_breaker_state c' = Open 1900"
proof -
  let ?es = "[Success 101, Acquire 150]"
  obtain c' tr where run: "cell_run (cell_hard_down BreakerCell_new 100 1800) ?es = Some (c', tr)"
    using cell_run_total [of ?es "cell_hard_down BreakerCell_new 100 1800"] by auto
  show ?thesis
    using recovery_race_safe [OF BreakerCell_new_wf _ run, of 120 151] run
    by (simp add: sat_add_u64_def u64_max_def del: cell_run.simps)
qed

end
