(* ===== verification/StoreCells.thy ===== *)
theory StoreCells
  imports Store CellFsm
begin

text \<open>
  The cells of the store behind one interface. \<open>view\<close> is the cell an operation on (pool, lane) would
  see, whether or not it has been created; \<open>store_wf\<close> is the store's invariant. The locale
  \<open>cell_store\<close> states what the operations rely on (fetching is invisible, writing changes one cell),
  proves the effect of a read-modify-write once, and is interpreted on the store of the program.
\<close>

definition view :: "InMemoryStore \<Rightarrow> string \<Rightarrow> nat \<Rightarrow> BreakerCell option" where
  "view st pool lane =
     (if lane < length (lanes st) then
        Some (if pool = [] then def_cell (lanes st ! lane)
              else case al_get (pool_cells st lane) pool of
                  Some c \<Rightarrow> c
                | None \<Rightarrow> inherited_cell (def_cell (lanes st ! lane)))
      else None)"

definition cells_wf :: "(string \<times> BreakerCell) list \<Rightarrow> bool" where
  "cells_wf cs \<longleftrightarrow> distinct (map fst cs) \<and> [] \<notin> fst ` set cs \<and> (\<forall>(p, c) \<in> set cs. cell_wf c)"

definition store_wf :: "InMemoryStore \<Rightarrow> bool" where
  "store_wf st \<longleftrightarrow>
     (\<forall>lane. length (lanes st) \<le> lane \<longrightarrow> pool_cells st lane = [])
     \<and> (\<forall>lane. cells_wf (pool_cells st lane))
     \<and> (\<forall>ls \<in> set (lanes st). cell_wf (def_cell ls))
     \<and> (\<forall>(p, i) \<in> set (pool_shards st). i = swrr_shard_index p)"

lemma cells_wf_append: "cells_wf cs \<Longrightarrow> cell_wf c \<Longrightarrow> p \<noteq> [] \<Longrightarrow> al_get cs p = None \<Longrightarrow> cells_wf (cs @ [(p, c)])"
  by (auto simp: cells_wf_def al_get_None)

lemma cells_wf_put: "cells_wf cs \<Longrightarrow> cell_wf c \<Longrightarrow> p \<noteq> [] \<Longrightarrow> cells_wf (al_put cs p c)"
  using set_al_put_subset [of cs p c] by (auto simp: cells_wf_def keys_al_put distinct_al_put dest!: subsetD)

lemma cells_wf_map: "cells_wf cs \<Longrightarrow> (\<And>p c. cell_wf c \<Longrightarrow> cell_wf (f p c)) \<Longrightarrow> cells_wf (map (\<lambda>(p, c). (p, f p c)) cs)"
  by (force simp: cells_wf_def o_def case_prod_unfold image_iff)

lemma store_wf_cells: "store_wf st \<Longrightarrow> lane < length (lanes st) \<Longrightarrow> cells_wf cs \<Longrightarrow>
  store_wf (st\<lparr>pool_cells := (pool_cells st)(lane := cs)\<rparr>)"
  by (auto simp: store_wf_def)

lemma store_wf_set_lane: "store_wf st \<Longrightarrow> cell_wf (def_cell ls) \<Longrightarrow> store_wf (set_lane st lane ls)"
  using set_update_subset_insert [of "lanes st" lane ls] by (auto simp: store_wf_def set_lane_def dest!: subsetD)

lemma store_wf_def_cell: "store_wf st \<Longrightarrow> lane < length (lanes st) \<Longrightarrow> cell_wf (def_cell (lanes st ! lane))"
  by (simp add: store_wf_def)

lemma store_wf_get: "store_wf st \<Longrightarrow> cells_wf (pool_cells st lane)"
  by (simp add: store_wf_def)

lemma inherited_cell_wf [wf_intros]: "cell_wf d \<Longrightarrow> cell_wf (inherited_cell d)"
  using BreakerCell_new_wf by (auto simp: inherited_cell_def cell_wf_def st_defs)

lemma view_wf: "store_wf st \<Longrightarrow> view st pool lane = Some c \<Longrightarrow> cell_wf c"
  using store_wf_def_cell [of st lane] store_wf_get [of st lane]
  by (auto simp: cells_wf_def view_def inherited_cell_wf dest!: al_get_mem
      split: if_splits option.splits)

lemma cell_in_range:
  "store_wf st \<Longrightarrow> cell_in st pool lane = Some (st', c) \<Longrightarrow> lane < length (lanes st)"
  by (cases "lane < length (lanes st)")
    (auto simp: cell_in_def get_lane_def store_wf_def split: if_splits option.splits)

lemma cell_in_view: "lane < length (lanes st) \<Longrightarrow>
  \<exists>st'. cell_in st pool lane = Some (st', the (view st pool lane)) \<and> lanes st' = lanes st
    \<and> pool_shards st' = pool_shards st
    \<and> hard_down_cooldown_secs st' = hard_down_cooldown_secs st
    \<and> max_honored_retry_after_secs st' = max_honored_retry_after_secs st"
  by (auto simp: cell_in_def view_def get_lane_def Let_def split: option.split)

lemma cell_in_keeps_view:
  "cell_in st pool lane = Some (st', c) \<Longrightarrow> view st' p l = view st p l"
  by (auto simp: cell_in_def view_def get_lane_def Let_def al_get_append split: if_splits option.splits)

lemma cell_in_wf:
  assumes "store_wf st" "cell_in st pool lane = Some (st', c)"
  shows "store_wf st' \<and> cell_wf c \<and> view st pool lane = Some c"
proof -
  have r: "lane < length (lanes st)" using cell_in_range assms by blast
  then have v: "view st pool lane = Some c"
    using cell_in_view [OF r, of pool] assms(2) by (auto simp: view_def)
  then have c: "cell_wf c" using view_wf assms(1) by blast
  have "st' = st \<or> (pool \<noteq> [] \<and> al_get (pool_cells st lane) pool = None \<and>
      st' = st\<lparr>pool_cells := (pool_cells st)(lane := pool_cells st lane @ [(pool, c)])\<rparr>)"
    using assms(2) by (auto simp: cell_in_def Let_def split: if_splits option.splits bind_splits)
  then show ?thesis
    using assms(1) r c v store_wf_get [OF assms(1)] by (auto intro: store_wf_cells cells_wf_append)
qed

lemma put_cell_lanes [simp]: "length (lanes (put_cell st pool lane c)) = length (lanes st)"
  by (simp add: put_cell_def)

lemma put_cell_view:
  assumes "lane < length (lanes st)" "pool = [] \<and> l = lane \<longrightarrow> p = []"
  shows "view (put_cell st pool lane c) p l = (if p = pool \<and> l = lane then Some c else view st p l)"
  using assms by (auto simp: put_cell_def view_def nth_list_update split: option.split)

lemma put_cell_wf:
  assumes "store_wf st" "lane < length (lanes st)" "cell_wf c"
  shows "store_wf (put_cell st pool lane c)"
proof (cases "pool = []")
  case True
  then have "put_cell st pool lane c = set_lane st lane ((lanes st ! lane)\<lparr>def_cell := c\<rparr>)"
    by (simp add: put_cell_def set_lane_def)
  then show ?thesis using store_wf_set_lane assms by simp
next
  case False
  then show ?thesis
    using assms store_wf_get [OF assms(1)] by (simp add: put_cell_def store_wf_cells cells_wf_put)
qed

subsection \<open>The interface\<close>

locale cell_store =
  fixes fetch :: "'s \<Rightarrow> string \<Rightarrow> nat \<Rightarrow> ('s \<times> 'c) option"
    and put :: "'s \<Rightarrow> string \<Rightarrow> nat \<Rightarrow> 'c \<Rightarrow> 's"
    and vw :: "'s \<Rightarrow> string \<Rightarrow> nat \<Rightarrow> 'c option"
    and inv :: "'s \<Rightarrow> bool"
    and cinv :: "'c \<Rightarrow> bool"
  assumes fetch_total: "vw s p l = Some c \<Longrightarrow> \<exists>s'. fetch s p l = Some (s', c)"
    and fetch_sound: "inv s \<Longrightarrow> fetch s p l = Some (s', c) \<Longrightarrow> inv s' \<and> vw s p l = Some c \<and> cinv c"
    and fetch_invisible: "fetch s p l = Some (s', c) \<Longrightarrow> vw s' q k = vw s q k"
    and put_vw: "vw s p l \<noteq> None \<Longrightarrow> (p = [] \<and> k = l \<longrightarrow> q = []) \<Longrightarrow>
      vw (put s p l c) q k = (if q = p \<and> k = l then Some c else vw s q k)"
    and put_inv: "inv s \<Longrightarrow> vw s p l \<noteq> None \<Longrightarrow> cinv c \<Longrightarrow> inv (put s p l c)"
begin

text \<open>A read-modify-write of one cell.\<close>

definition modify :: "('c \<Rightarrow> 'c) \<Rightarrow> 's \<Rightarrow> string \<Rightarrow> nat \<Rightarrow> 's option" where
  "modify f s p l = Option.bind (fetch s p l) (\<lambda>(s1, c). Some (put s1 p l (f c)))"

lemma modify_effect:
  assumes "inv s" "vw s p l = Some c" "cinv (f c)"
  shows "\<exists>s'. modify f s p l = Some s' \<and> inv s' \<and> vw s' p l = Some (f c)
    \<and> (\<forall>q k. (p = [] \<and> k = l \<longrightarrow> q = []) \<longrightarrow> (q, k) \<noteq> (p, l) \<longrightarrow> vw s' q k = vw s q k)"
proof -
  obtain s1 where 1: "fetch s p l = Some (s1, c)" using fetch_total assms(2) by blast
  note inv1 = fetch_sound [OF assms(1) 1] and vw1 = fetch_invisible [OF 1]
  have "vw s1 p l \<noteq> None" using vw1 assms(2) by simp
  then show ?thesis
    using 1 inv1 vw1 put_vw [of s1 p l] put_inv [of s1 p l] assms(3) by (auto simp: modify_def)
qed

text \<open>Modifying the same pool's cells of distinct lanes, one after the other.\<close>

fun modify_all :: "(nat \<Rightarrow> 'c \<Rightarrow> 'c) \<Rightarrow> 's \<Rightarrow> string \<Rightarrow> nat list \<Rightarrow> 's option" where
  "modify_all f s p [] = Some s"
| "modify_all f s p (l # ls) = Option.bind (modify (f l) s p l) (\<lambda>s1. modify_all f s1 p ls)"

lemma modify_all_effect:
  assumes "\<And>l c. cinv c \<Longrightarrow> cinv (f l c)"
  shows "inv s \<Longrightarrow> distinct ls \<Longrightarrow> \<forall>l \<in> set ls. vw s p l \<noteq> None \<Longrightarrow>
    \<exists>s'. modify_all f s p ls = Some s' \<and> inv s'
      \<and> (\<forall>l. vw s' p l = (if l \<in> set ls then map_option (f l) (vw s p l) else vw s p l))
      \<and> (\<forall>q k. q \<noteq> p \<longrightarrow> p \<noteq> [] \<or> k \<notin> set ls \<longrightarrow> vw s' q k = vw s q k)"
proof (induction ls arbitrary: s)
  case (Cons l ls)
  obtain c where c: "vw s p l = Some c" using Cons.prems by auto
  then have "cinv c" using fetch_total fetch_sound Cons.prems(1) by blast
  with assms obtain s1 where s1: "modify (f l) s p l = Some s1" "inv s1" "vw s1 p l = Some (f l c)"
    "\<forall>q k. (p = [] \<and> k = l \<longrightarrow> q = []) \<longrightarrow> (q, k) \<noteq> (p, l) \<longrightarrow> vw s1 q k = vw s q k"
    using modify_effect [OF Cons.prems(1) c] by blast
  have "\<forall>k \<in> set ls. vw s1 p k \<noteq> None" using Cons.prems s1(4) by fastforce
  then obtain s2 where s2: "modify_all f s1 p ls = Some s2" "inv s2"
    "\<forall>l. vw s2 p l = (if l \<in> set ls then map_option (f l) (vw s1 p l) else vw s1 p l)"
    "\<forall>q k. q \<noteq> p \<longrightarrow> p \<noteq> [] \<or> k \<notin> set ls \<longrightarrow> vw s2 q k = vw s1 q k"
    using Cons.IH [OF s1(2)] Cons.prems(2) by auto
  have "vw s2 p k = (if k \<in> set (l # ls) then map_option (f k) (vw s p k) else vw s p k)" for k
    using s2(3) s1(3,4) c Cons.prems(2) by (cases "k = l") auto
  moreover have "vw s2 q k = vw s q k" if "q \<noteq> p" "p \<noteq> [] \<or> k \<notin> set (l # ls)" for q k
    using that s2(4) s1(4) by auto
  ultimately show ?case using s1(1) s2(1,2) by auto
qed simp

end

interpretation cs: cell_store cell_in put_cell view store_wf cell_wf
proof (unfold_locales, goal_cases)
  case (1 s p l c)
  then have "l < length (lanes s)" by (simp add: view_def split: if_splits)
  then show ?case using cell_in_view [of l s p] 1 by auto
next
  case (2 s p l s' c)
  then show ?case using cell_in_wf by blast
next
  case (3 s p l s' c q k)
  then show ?case by (rule cell_in_keeps_view)
next
  case (4 s p l k q c)
  then show ?case by (intro put_cell_view) (auto simp: view_def split: if_splits)
next
  case (5 s p l c)
  then show ?case by (intro put_cell_wf) (auto simp: view_def split: if_splits)
qed

end
