(* ===== verification/Swrr.thy ===== *)
theory Swrr
  imports Prelude
begin

text \<open>
  Smooth weighted round-robin as an abstract algorithm: the specification that the store's selection
  refines. Members are (lane, weight) pairs; the state is the accumulated weight of every lane. The
  lemmas show that the algorithm is proportionally fair, on every prefix of a run and exactly after
  one full cycle.
\<close>

definition wt :: "(nat \<times> int) list \<Rightarrow> nat \<Rightarrow> int" where
  "wt h l = (case map_of h l of Some w \<Rightarrow> w | None \<Rightarrow> 0)"

definition total_wt :: "(nat \<times> int) list \<Rightarrow> int" where
  "total_wt h = sum_list (map snd h)"

fun argmax :: "(nat \<Rightarrow> int) \<Rightarrow> (nat \<times> int) list \<Rightarrow> nat option \<Rightarrow> int \<Rightarrow> nat option" where
  "argmax cw [] best bw = best"
| "argmax cw ((l, w) # h) best bw =
     (if bw < cw l then argmax cw h (Some l) (cw l) else argmax cw h best bw)"

definition swrr_step :: "(nat \<times> int) list \<Rightarrow> (nat \<Rightarrow> int) \<Rightarrow> (nat \<Rightarrow> int) \<times> nat option" where
  "swrr_step h cw =
     (let cw1 = (\<lambda>l. cw l + wt h l)
      in case argmax cw1 h None i64_min of
           None \<Rightarrow> (cw1, None)
         | Some b \<Rightarrow> (cw1(b := cw1 b - total_wt h), Some b))"

fun swrr_run :: "(nat \<times> int) list \<Rightarrow> (nat \<Rightarrow> int) \<Rightarrow> nat \<Rightarrow> (nat \<Rightarrow> int) \<times> nat option list" where
  "swrr_run h cw 0 = (cw, [])"
| "swrr_run h cw (Suc n) =
     (let (cw1, b) = swrr_step h cw; (cw2, bs) = swrr_run h cw1 n in (cw2, b # bs))"

definition members_ok :: "(nat \<times> int) list \<Rightarrow> bool" where
  "members_ok h \<longleftrightarrow> h \<noteq> [] \<and> distinct (map fst h) \<and> (\<forall>(l, w) \<in> set h. 1 \<le> w)"

lemma wt_mem: "distinct (map fst h) \<Longrightarrow> (l, w) \<in> set h \<Longrightarrow> wt h l = w"
  by (simp add: wt_def)

lemma total_wt_sum: "distinct (map fst h) \<Longrightarrow> total_wt h = (\<Sum>l \<in> fst ` set h. wt h l)"
proof -
  assume d: "distinct (map fst h)"
  have "map snd h = map (wt h) (map fst h)"
    using wt_mem [OF d] by auto
  then have "total_wt h = sum_list (map (wt h) (map fst h))" by (simp only: total_wt_def)
  also have "\<dots> = sum (wt h) (set (map fst h))" by (rule sum_list_distinct_conv_sum_set [OF d])
  finally show ?thesis by simp
qed

lemma total_wt_pos: "members_ok h \<Longrightarrow> 1 \<le> total_wt h"
proof -
  assume "members_ok h"
  then obtain l w hs where h: "h = (l, w) # hs" "1 \<le> w" "\<forall>(l, w) \<in> set hs. 1 \<le> w"
    by (cases h) (auto simp: members_ok_def)
  have "0 \<le> sum_list (map snd hs)" by (rule sum_list_nonneg) (use h(3) in force)
  then show ?thesis using h by (simp add: total_wt_def)
qed

lemma wt_le_total: "members_ok h \<Longrightarrow> (l, w) \<in> set h \<Longrightarrow> w \<le> total_wt h"
proof -
  assume m: "members_ok h" and l: "(l, w) \<in> set h"
  have "w \<in> set (map snd h)" using l by force
  moreover have "\<forall>x \<in> set (map snd h). 0 \<le> x" using m by (force simp: members_ok_def)
  ultimately show ?thesis unfolding total_wt_def by (meson member_le_sum_list)
qed

lemma argmax_result:
  "argmax cw h best bw = b \<Longrightarrow>
   (b = best \<and> (\<forall>l \<in> fst ` set h. cw l \<le> bw))
   \<or> (\<exists>l \<in> fst ` set h. b = Some l \<and> bw < cw l \<and> (\<forall>l' \<in> fst ` set h. cw l' \<le> cw l))"
proof (induction h arbitrary: best bw)
  case (Cons x h)
  obtain l w where x: "x = (l, w)" by (cases x)
  show ?case
  proof (cases "bw < cw l")
    case True
    with Cons.prems have "argmax cw h (Some l) (cw l) = b" by (simp add: x)
    from Cons.IH [OF this] True show ?thesis by (auto simp: x)
  next
    case False
    with Cons.prems have "argmax cw h best bw = b" by (simp add: x)
    from Cons.IH [OF this] False show ?thesis by (auto simp: x)
  qed
qed simp

lemma argmax_Some:
  assumes "h \<noteq> []" "\<forall>l \<in> fst ` set h. i64_min < cw l"
  shows "\<exists>b \<in> fst ` set h. argmax cw h None i64_min = Some b \<and> (\<forall>l \<in> fst ` set h. cw l \<le> cw b)"
proof -
  obtain l where "l \<in> fst ` set h" using assms(1) by (cases h) auto
  with argmax_result [OF refl, of cw h None i64_min] assms(2) show ?thesis by force
qed

text \<open>The state after \<open>n\<close> picks with \<open>cnt\<close> the number of picks of each lane.\<close>

definition swrr_inv :: "(nat \<times> int) list \<Rightarrow> int \<Rightarrow> (nat \<Rightarrow> int) \<Rightarrow> (nat \<Rightarrow> int) \<Rightarrow> bool" where
  "swrr_inv h n cnt cw \<longleftrightarrow>
     (\<forall>l \<in> fst ` set h. cw l = n * wt h l - total_wt h * cnt l \<and> - total_wt h < cw l)
     \<and> (\<Sum>l \<in> fst ` set h. cw l) = 0"

lemma swrr_step_inv:
  assumes m: "members_ok h" and small: "total_wt h \<le> i64_max" and inv: "swrr_inv h n cnt cw"
  shows "\<exists>b \<in> fst ` set h. snd (swrr_step h cw) = Some b \<and>
    swrr_inv h (n + 1) (cnt(b := cnt b + 1)) (fst (swrr_step h cw))"
proof -
  let ?L = "fst ` set h" and ?W = "total_wt h"
  define cw1 where "cw1 = (\<lambda>l. cw l + wt h l)"
  have d: "distinct (map fst h)" and pos: "\<forall>l \<in> ?L. 1 \<le> wt h l"
    using m wt_mem by (auto simp: members_ok_def)
  have W: "1 \<le> ?W" by (rule total_wt_pos [OF m])
  have low: "\<forall>l \<in> ?L. - ?W < cw1 l"
  proof
    fix l assume l: "l \<in> ?L"
    have "- ?W < cw l" using inv l unfolding swrr_inv_def by blast
    then show "- ?W < cw1 l" using bspec [OF pos l] by (simp add: cw1_def)
  qed
  moreover have "i64_min \<le> - ?W" using small by (simp add: i64_min_def i64_max_def)
  ultimately have "\<forall>l \<in> ?L. i64_min < cw1 l" by force
  with m obtain b where b: "b \<in> ?L" "argmax cw1 h None i64_min = Some b" "\<forall>l \<in> ?L. cw1 l \<le> cw1 b"
    using argmax_Some [of h cw1] by (auto simp: members_ok_def)
  have sum1: "(\<Sum>l \<in> ?L. cw1 l) = ?W"
    using inv total_wt_sum [OF d] by (simp add: cw1_def swrr_inv_def sum.distrib)
  have "0 < cw1 b"
  proof (rule ccontr)
    assume "\<not> 0 < cw1 b"
    then have "(\<Sum>l \<in> ?L. cw1 l) \<le> 0" using b(3) by (intro sum_nonpos) force
    then show False using sum1 W by simp
  qed
  let ?cw2 = "cw1(b := cw1 b - ?W)"
  have s: "swrr_step h cw = (?cw2, Some b)"
    using b(2) by (simp add: swrr_step_def Let_def cw1_def)
  have "(\<Sum>l \<in> ?L. ?cw2 l) = cw1 b - ?W + (\<Sum>l \<in> ?L - {b}. ?cw2 l)"
    using b(1) by (subst sum.remove [of _ b]) auto
  also have "(\<Sum>l \<in> ?L - {b}. ?cw2 l) = (\<Sum>l \<in> ?L - {b}. cw1 l)" by (rule sum.cong) auto
  also have "cw1 b - ?W + \<dots> = (\<Sum>l \<in> ?L. cw1 l) - ?W"
    using b(1) by (simp add: sum.remove [of ?L b cw1])
  finally have "(\<Sum>l \<in> ?L. ?cw2 l) = 0" using sum1 by simp
  moreover have "?cw2 l = (n + 1) * wt h l - ?W * (cnt(b := cnt b + 1)) l \<and> - ?W < ?cw2 l"
    if "l \<in> ?L" for l
    using that inv low \<open>0 < cw1 b\<close> by (auto simp: swrr_inv_def cw1_def algebra_simps)
  ultimately have "swrr_inv h (n + 1) (cnt(b := cnt b + 1)) ?cw2"
    unfolding swrr_inv_def by blast
  then show ?thesis using b(1) s by auto
qed

lemma swrr_run_inv:
  "members_ok h \<Longrightarrow> total_wt h \<le> i64_max \<Longrightarrow> swrr_inv h n cnt cw \<Longrightarrow>
   set (snd (swrr_run h cw k)) \<subseteq> Some ` fst ` set h \<and>
   swrr_inv h (n + int k) (\<lambda>l. cnt l + int (count_list (snd (swrr_run h cw k)) (Some l)))
     (fst (swrr_run h cw k))"
proof (induction k arbitrary: n cnt cw)
  case (Suc k)
  obtain b where b: "b \<in> fst ` set h" "snd (swrr_step h cw) = Some b"
    "swrr_inv h (n + 1) (cnt(b := cnt b + 1)) (fst (swrr_step h cw))"
    using swrr_step_inv [OF Suc.prems] by blast
  let ?r = "swrr_run h (fst (swrr_step h cw)) k"
  have run: "swrr_run h cw (Suc k) = (fst ?r, Some b # snd ?r)"
    using b(2) by (simp add: split_def Let_def)
  have "(\<lambda>l. (cnt(b := cnt b + 1)) l + int (count_list (snd ?r) (Some l)))
      = (\<lambda>l. cnt l + int (count_list (Some b # snd ?r) (Some l)))" by auto
  then show ?case
    using Suc.IH [OF Suc.prems(1,2) b(3)] b(1) unfolding run
    by (auto simp: algebra_simps)
qed simp

lemma swrr_inv_init: "\<forall>l \<in> fst ` set h. cw l = 0 \<Longrightarrow> members_ok h \<Longrightarrow> swrr_inv h 0 (\<lambda>_. 0) cw"
  using total_wt_pos [of h] by (auto simp: swrr_inv_def intro: sum.neutral)

text \<open>After one full cycle every lane has been picked exactly as often as its weight says.\<close>

lemma swrr_inv_cycle:
  assumes m: "members_ok h" and inv: "swrr_inv h (total_wt h) cnt cw"
    and sum: "(\<Sum>l \<in> fst ` set h. cnt l) = total_wt h" and l: "l \<in> fst ` set h"
  shows "cnt l = wt h l"
proof -
  let ?L = "fst ` set h" and ?W = "total_wt h"
  have W: "1 \<le> ?W" by (rule total_wt_pos [OF m])
  have le: "cnt l \<le> wt h l" if "l \<in> ?L" for l
  proof -
    have "- ?W < ?W * (wt h l - cnt l)"
      using inv that by (auto simp: swrr_inv_def algebra_simps)
    then have "?W * (-1) < ?W * (wt h l - cnt l)" by simp
    then have "-1 < wt h l - cnt l" using W mult_less_cancel_left_pos [of ?W "-1"] by simp
    then show ?thesis by simp
  qed
  have "(\<Sum>l \<in> ?L. wt h l - cnt l) = 0"
    using sum total_wt_sum [of h] m by (simp add: sum_subtractf members_ok_def)
  moreover have "\<forall>l \<in> ?L. 0 \<le> wt h l - cnt l" using le by simp
  ultimately have "\<forall>l \<in> ?L. wt h l - cnt l = 0" by (subst (asm) sum_nonneg_eq_0_iff) auto
  then show ?thesis using l by auto
qed

lemma sum_count_list:
  "set xs \<subseteq> Some ` A \<Longrightarrow> finite A \<Longrightarrow> (\<Sum>l \<in> A. int (count_list xs (Some l))) = int (length xs)"
proof (induction xs)
  case (Cons x xs)
  then obtain a where a: "x = Some a" "a \<in> A" by auto
  have "(\<Sum>l \<in> A. int (count_list (x # xs) (Some l)))
      = (\<Sum>l \<in> A. int (count_list xs (Some l)) + (if l = a then 1 else 0))"
    by (rule sum.cong) (auto simp: a)
  then show ?case using Cons a by (simp add: sum.distrib sum.delta)
qed simp

text \<open>The accumulated weights of a run that started from zero stay below this bound.\<close>

lemma swrr_inv_bound:
  assumes "members_ok h" "swrr_inv h n cnt cw" "l \<in> fst ` set h"
  shows "\<bar>cw l\<bar> \<le> total_wt h * int (length h)"
proof -
  let ?L = "fst ` set h" and ?W = "total_wt h"
  have W: "1 \<le> ?W" by (rule total_wt_pos [OF assms(1)])
  have "cw l + (\<Sum>l' \<in> ?L - {l}. cw l') = 0"
    using assms(2,3) by (simp add: swrr_inv_def flip: sum.remove)
  moreover have "(\<Sum>l' \<in> ?L - {l}. - ?W) \<le> (\<Sum>l' \<in> ?L - {l}. cw l')"
    using assms(2) by (intro sum_mono) (auto simp: swrr_inv_def less_imp_le)
  ultimately have hi: "cw l \<le> int (card (?L - {l})) * ?W" by simp
  have "card (?L - {l}) \<le> length h"
    by (metis List.finite_set card_Diff1_le card_length finite_imageI length_map list.set_map order_trans)
  then have "int (card (?L - {l})) * ?W \<le> int (length h) * ?W"
    using W by (intro mult_right_mono) auto
  moreover have "Suc 0 \<le> length h" using assms(3) by (cases h) auto
  then have "?W * 1 \<le> ?W * int (length h)" using W by (intro mult_left_mono) auto
  moreover have "- ?W < cw l" using assms(2,3) by (auto simp: swrr_inv_def)
  ultimately show ?thesis using hi by (simp add: abs_le_iff mult.commute)
qed

end
