(* ===== verification/StoreSelect.thy ===== *)
theory StoreSelect
  imports StoreCells Swrr
begin

text \<open>
  Selection in the store refines the abstract smooth weighted round-robin of \<open>Swrr\<close>: one call of
  \<open>select_weighted_for\<close> is one \<open>swrr_step\<close> over the healthy members, and it changes nothing but
  selection weights. Fairness of the store's selection follows from the abstract algorithm.
\<close>

definition healthy_members ::
  "InMemoryStore \<Rightarrow> string \<Rightarrow> (nat \<times> nat) list \<Rightarrow> nat \<Rightarrow> (nat \<times> int) list" where
  "healthy_members st pool zs now =
     map (\<lambda>(l, w). (l, int w))
       (filter (\<lambda>(l, w). w \<noteq> 0 \<and> lane_admissible st l = Some True \<and>
          (case view st pool l of None \<Rightarrow> False | Some c \<Rightarrow> cell_ready_breaker c now)) zs)"

definition cw_of :: "InMemoryStore \<Rightarrow> string \<Rightarrow> nat \<Rightarrow> int" where
  "cw_of st pool l = (case view st pool l of None \<Rightarrow> 0 | Some c \<Rightarrow> current_weight c)"

text \<open>The lane-global state, without the breaker cells.\<close>

definition lane_globals :: "InMemoryStore \<Rightarrow> LaneState list" where
  "lane_globals st = map (\<lambda>ls. ls\<lparr>def_cell := BreakerCell_new\<rparr>) (lanes st)"

definition weightless :: "BreakerCell \<Rightarrow> BreakerCell" where
  "weightless c = c\<lparr>current_weight := 0\<rparr>"

lemma lane_globals_length: "lane_globals st' = lane_globals st \<Longrightarrow> length (lanes st') = length (lanes st)"
  by (drule arg_cong [where f = length]) (simp add: lane_globals_def)

lemma lane_admissible_globals:
  "lane_globals st' = lane_globals st \<Longrightarrow> lane_admissible st' l = lane_admissible st l"
proof -
  assume g: "lane_globals st' = lane_globals st"
  note len = lane_globals_length [OF g]
  have "(lanes st' ! l)\<lparr>def_cell := BreakerCell_new\<rparr> = (lanes st ! l)\<lparr>def_cell := BreakerCell_new\<rparr>"
    if "l < length (lanes st)"
    using that len arg_cong [OF g, of "\<lambda>xs. xs ! l"] by (simp add: lane_globals_def)
  then have "dead (lanes st' ! l) = dead (lanes st ! l) \<and> limited (lanes st' ! l) = limited (lanes st ! l)
      \<and> budget (lanes st' ! l) = budget (lanes st ! l)" if "l < length (lanes st)"
    using that by (metis LaneState.ext_inject LaneState.surjective LaneState.update_convs(7))
  then show ?thesis by (simp add: lane_admissible_def get_lane_def len)
qed

lemma cell_in_globals: "cell_in st p l = Some (st', c) \<Longrightarrow> lane_globals st' = lane_globals st"
  by (auto simp: cell_in_def lane_globals_def Let_def split: if_splits option.splits bind_splits)

lemma put_cell_globals: "l < length (lanes st) \<Longrightarrow> lane_globals (put_cell st p l c) = lane_globals st"
  by (auto simp: put_cell_def lane_globals_def map_update intro: nth_equalityI)
    (simp add: list_update_same_conv)

lemma modify_globals:
  assumes "cs.modify f st p l = Some st'" "l < length (lanes st)"
  shows "lane_globals st' = lane_globals st"
proof -
  obtain st1 c where 1: "cell_in st p l = Some (st1, c)" "st' = put_cell st1 p l (f c)"
    using assms(1) by (auto simp: cs.modify_def split: bind_splits)
  note g = cell_in_globals [OF 1(1)]
  show ?thesis using put_cell_globals lane_globals_length [OF g] assms(2) g 1(2) by simp
qed

lemma modify_all_globals:
  "cs.modify_all f st p ls = Some st' \<Longrightarrow> \<forall>l \<in> set ls. l < length (lanes st) \<Longrightarrow>
   lane_globals st' = lane_globals st"
proof (induction ls arbitrary: st)
  case (Cons l ls)
  then obtain st1 where 1: "cs.modify (f l) st p l = Some st1" "cs.modify_all f st1 p ls = Some st'"
    by (auto split: bind_splits)
  have g: "lane_globals st1 = lane_globals st" using modify_globals [OF 1(1)] Cons.prems by simp
  then show ?case using Cons.IH [OF 1(2)] Cons.prems lane_globals_length [OF g] by simp
qed simp

subsection \<open>The healthy set\<close>

lemma lane_admissible_Some: "l < length (lanes st) \<Longrightarrow> \<exists>b. lane_admissible st l = Some b"
  by (simp add: lane_admissible_def get_lane_def)

lemma weightless_ready: "weightless c = weightless d \<Longrightarrow> cell_ready_breaker c now = cell_ready_breaker d now"
  by (cases c; cases d) (simp add: weightless_def cell_ready_breaker_def)

lemma healthy_members_cong:
  assumes "lane_globals st' = lane_globals st"
    and "\<And>l. l \<in> fst ` set zs \<Longrightarrow> map_option weightless (view st' pool l) = map_option weightless (view st pool l)"
  shows "healthy_members st' pool zs now = healthy_members st pool zs now"
proof -
  have "(case view st' pool l of None \<Rightarrow> False | Some c \<Rightarrow> cell_ready_breaker c now)
      = (case view st pool l of None \<Rightarrow> False | Some c \<Rightarrow> cell_ready_breaker c now)"
    if "l \<in> fst ` set zs" for l
    using assms(2) [OF that]
    by (cases "view st' pool l"; cases "view st pool l") (simp_all, metis weightless_ready)
  then have "filter (\<lambda>(l, w). w \<noteq> 0 \<and> lane_admissible st l = Some True \<and>
        (case view st' pool l of None \<Rightarrow> False | Some c \<Rightarrow> cell_ready_breaker c now)) zs
      = filter (\<lambda>(l, w). w \<noteq> 0 \<and> lane_admissible st l = Some True \<and>
        (case view st pool l of None \<Rightarrow> False | Some c \<Rightarrow> cell_ready_breaker c now)) zs"
    by (intro filter_cong refl) (simp add: case_prod_unfold)
  then show ?thesis
    unfolding healthy_members_def lane_admissible_globals [OF assms(1)] by (rule arg_cong)
qed

lemma healthy_set_spec:
  "store_wf st \<Longrightarrow> \<forall>(l, w) \<in> set zs. l < length (lanes st) \<Longrightarrow>
   \<exists>st'. healthy_set st pool zs now = Some (st', healthy_members st pool zs now)
     \<and> store_wf st' \<and> lane_globals st' = lane_globals st \<and> (\<forall>p l. view st' p l = view st p l)"
proof (induction zs arbitrary: st)
  case Nil
  then show ?case by (simp add: healthy_members_def)
next
  case (Cons z zs)
  obtain l w where z: "z = (l, w)" by (cases z)
  have l: "l < length (lanes st)" and zs: "\<forall>(l, w) \<in> set zs. l < length (lanes st)"
    using Cons.prems by (auto simp: z)
  note IH = Cons.IH [OF Cons.prems(1) zs]
  consider "w = 0" | "w \<noteq> 0" "lane_admissible st l = Some False" | "w \<noteq> 0" "lane_admissible st l = Some True"
    using lane_admissible_Some [OF l] by (metis (full_types))
  then show ?case
  proof cases
    case 3
    obtain c where c: "view st pool l = Some c" using l by (simp add: view_def)
    obtain st1 where 1: "cell_in st pool l = Some (st1, c)" using cs.fetch_total [OF c] by blast
    note wf1 = cell_in_wf [OF Cons.prems(1) 1] and v1 = cell_in_keeps_view [OF 1]
      and g1 = cell_in_globals [OF 1]
    have "\<forall>(l, w) \<in> set zs. l < length (lanes st1)" using zs lane_globals_length [OF g1] by simp
    then obtain st2 where 2: "healthy_set st1 pool zs now = Some (st2, healthy_members st1 pool zs now)"
      "store_wf st2" "lane_globals st2 = lane_globals st1" "\<forall>p l. view st2 p l = view st1 p l"
      using Cons.IH wf1 by blast
    have "healthy_members st1 pool zs now = healthy_members st pool zs now"
      by (rule healthy_members_cong [OF g1]) (simp add: v1)
    then show ?thesis
      using 1 2 3 c v1 g1 by (auto simp: z healthy_members_def)
  qed (use IH in \<open>auto simp: z healthy_members_def\<close>)
qed

lemma healthy_members_lanes: "fst ` set (healthy_members st pool zs now) \<subseteq> fst ` set zs"
  by (force simp: healthy_members_def)

lemma healthy_members_distinct:
  "distinct (map fst zs) \<Longrightarrow> distinct (map fst (healthy_members st pool zs now))"
proof -
  assume "distinct (map fst zs)"
  moreover have "map fst (healthy_members st pool zs now) = map fst (filter (\<lambda>(l, w). w \<noteq> 0 \<and>
      lane_admissible st l = Some True \<and>
      (case view st pool l of None \<Rightarrow> False | Some c \<Rightarrow> cell_ready_breaker c now)) zs)"
    by (simp add: healthy_members_def o_def case_prod_unfold)
  ultimately show ?thesis by (simp add: distinct_map_filter)
qed

lemma healthy_members_ok:
  "distinct (map fst zs) \<Longrightarrow> healthy_members st pool zs now \<noteq> [] \<Longrightarrow> members_ok (healthy_members st pool zs now)"
  using healthy_members_distinct [of zs st pool now] by (auto simp: members_ok_def) (auto simp: healthy_members_def)

subsection \<open>One selection is one abstract step\<close>

definition bump :: "(nat \<times> int) list \<Rightarrow> nat \<Rightarrow> BreakerCell \<Rightarrow> BreakerCell" where
  "bump h l c = c\<lparr>current_weight := wrap_i64 (current_weight c + wt h l)\<rparr>"

lemma bump_wf: "cell_wf c \<Longrightarrow> cell_wf (bump h l c)"
  by (simp add: bump_def cell_wf_def)

lemma add_weight_modify:
  "add_weight st pool l w = cs.modify (\<lambda>c. c\<lparr>current_weight := wrap_i64 (current_weight c + w)\<rparr>) st pool l"
  by (simp add: add_weight_def cs.modify_def case_prod_unfold)

lemma add_weights_modify_all:
  "\<forall>(l, w) \<in> set h. wt g l = w \<Longrightarrow> add_weights st pool h = cs.modify_all (bump g) st pool (map fst h)"
proof (induction h arbitrary: st)
  case (Cons x h)
  obtain l w where x: "x = (l, w)" by (cases x)
  have "bump g l = (\<lambda>c. c\<lparr>current_weight := wrap_i64 (current_weight c + w)\<rparr>)"
    using Cons.prems by (auto simp: bump_def x)
  then show ?case using Cons by (simp add: x add_weight_modify cong: Option.bind_cong)
qed simp

lemma find_best_argmax:
  "\<forall>(l, w) \<in> set h. view st pool l \<noteq> None \<Longrightarrow>
   find_best st pool h best bw = Some (argmax (cw_of st pool) h best bw)"
proof (induction h arbitrary: best bw)
  case (Cons x h)
  obtain l w where x: "x = (l, w)" by (cases x)
  obtain c where c: "view st pool l = Some c" using Cons.prems by (auto simp: x)
  obtain st' where "cell_in st pool l = Some (st', c)" using cs.fetch_total [OF c] by blast
  then show ?case using Cons c by (simp add: x cw_of_def)
qed simp

lemma argmax_cong: "\<forall>l \<in> fst ` set h. f l = g l \<Longrightarrow> argmax f h best bw = argmax g h best bw"
  by (induction f h best bw rule: argmax.induct) auto

lemma swrr_shard_frame:
  "view (fst (swrr_shard st pool)) p l = view st p l"
  "lane_globals (fst (swrr_shard st pool)) = lane_globals st"
  "store_wf st \<Longrightarrow> store_wf (fst (swrr_shard st pool))"
  by (auto simp: swrr_shard_def view_def lane_globals_def store_wf_def Let_def split: option.split)

text \<open>Weights are small enough that no addition in a selection can wrap.\<close>

definition weights_small :: "InMemoryStore \<Rightarrow> string \<Rightarrow> (nat \<times> int) list \<Rightarrow> bool" where
  "weights_small st pool h \<longleftrightarrow>
     (\<forall>l \<in> fst ` set h. \<bar>cw_of st pool l\<bar> \<le> 2 ^ 61) \<and> total_wt h \<le> 2 ^ 61"

text \<open>What an operation that only moves selection weights of \<open>pool\<close> leaves alone.\<close>

definition only_weights :: "string \<Rightarrow> nat set \<Rightarrow> InMemoryStore \<Rightarrow> InMemoryStore \<Rightarrow> bool" where
  "only_weights pool L st st' \<longleftrightarrow>
     store_wf st' \<and> lane_globals st' = lane_globals st
     \<and> (\<forall>l. map_option weightless (view st' pool l) = map_option weightless (view st pool l))
     \<and> (\<forall>l. l \<notin> L \<longrightarrow> view st' pool l = view st pool l)
     \<and> (\<forall>p l. p \<noteq> pool \<longrightarrow> pool \<noteq> [] \<or> l \<notin> L \<longrightarrow> view st' p l = view st p l)"

lemma only_weights_trans:
  "only_weights pool L st st1 \<Longrightarrow> only_weights pool L st1 st2 \<Longrightarrow> only_weights pool L st st2"
  by (simp add: only_weights_def)

lemma only_weights_same_view:
  "store_wf st' \<Longrightarrow> lane_globals st' = lane_globals st \<Longrightarrow> \<forall>p l. view st' p l = view st p l \<Longrightarrow>
   only_weights pool L st st'"
  by (simp add: only_weights_def)

lemma add_weights_effect:
  assumes "store_wf st" "distinct (map fst h)" "\<forall>l \<in> fst ` set h. l < length (lanes st)"
    "\<forall>l \<in> fst ` set h. i64_min \<le> cw_of st pool l + wt h l \<and> cw_of st pool l + wt h l \<le> i64_max"
  shows "\<exists>st'. add_weights st pool h = Some st' \<and> only_weights pool (fst ` set h) st st'
    \<and> (\<forall>l \<in> fst ` set h. cw_of st' pool l = cw_of st pool l + wt h l)"
proof -
  have v: "\<forall>l \<in> set (map fst h). view st pool l \<noteq> None" using assms(3) by (auto simp: view_def)
  obtain st' where s: "cs.modify_all (bump h) st pool (map fst h) = Some st'" "store_wf st'"
    "\<forall>l. view st' pool l = (if l \<in> set (map fst h) then map_option (bump h l) (view st pool l) else view st pool l)"
    "\<forall>q k. q \<noteq> pool \<longrightarrow> pool \<noteq> [] \<or> k \<notin> set (map fst h) \<longrightarrow> view st' q k = view st q k"
    using cs.modify_all_effect [of "bump h", OF bump_wf assms(1,2) v] by auto
  have g: "lane_globals st' = lane_globals st"
    using modify_all_globals [OF s(1)] assms(3) by auto
  have w: "weightless (bump h l c) = weightless c" for l c by (simp add: weightless_def bump_def)
  have "only_weights pool (fst ` set h) st st'"
    unfolding only_weights_def
  proof (intro conjI allI impI)
    show "map_option weightless (view st' pool l) = map_option weightless (view st pool l)" for l
      by (cases "view st pool l") (simp_all add: s(3) w)
  qed (use s g in \<open>simp_all\<close>)
  moreover have "cw_of st' pool l = cw_of st pool l + wt h l" if l: "l \<in> fst ` set h" for l
  proof -
    obtain c where c: "view st pool l = Some c" using v l by fastforce
    then have "wrap_i64 (current_weight c + wt h l) = current_weight c + wt h l"
      using bspec [OF assms(4) l] by (intro wrap_i64_id) (simp_all add: cw_of_def)
    then show ?thesis using c l by (simp add: cw_of_def s(3) bump_def)
  qed
  ultimately show ?thesis
    using s(1) add_weights_modify_all [of h h st pool] wt_mem [OF assms(2)] by auto
qed

lemma add_weight_effect:
  assumes "store_wf st" "l < length (lanes st)" "l \<in> L"
    "i64_min \<le> cw_of st pool l + w" "cw_of st pool l + w \<le> i64_max"
  shows "\<exists>st'. add_weight st pool l w = Some st' \<and> only_weights pool L st st'
    \<and> (\<forall>k. cw_of st' pool k = (if k = l then cw_of st pool l + w else cw_of st pool k))"
proof -
  let ?f = "\<lambda>c. c\<lparr>current_weight := wrap_i64 (current_weight c + w)\<rparr> :: BreakerCell"
  obtain c where c: "view st pool l = Some c" using assms(2) by (simp add: view_def)
  have "cell_wf (?f c)" using view_wf [OF assms(1) c] by (simp add: cell_wf_def)
  from cs.modify_effect [OF assms(1) c, of ?f, OF this]
  obtain st' where s: "cs.modify ?f st pool l = Some st'" "store_wf st'" "view st' pool l = Some (?f c)"
    "\<forall>q k. (pool = [] \<and> k = l \<longrightarrow> q = []) \<longrightarrow> (q, k) \<noteq> (pool, l) \<longrightarrow> view st' q k = view st q k" by blast
  have g: "lane_globals st' = lane_globals st" by (rule modify_globals [OF s(1) assms(2)])
  have other: "view st' pool k = view st pool k" if "k \<noteq> l" for k using s(4) that by auto
  have "map_option weightless (view st' pool k) = map_option weightless (view st pool k)" for k
    using s(3) c other by (cases "k = l") (auto simp: weightless_def)
  moreover have "view st' p k = view st p k" if "p \<noteq> pool" "pool \<noteq> [] \<or> k \<notin> L" for p k
    using s(4) [rule_format, of k p] that assms(3) by auto
  moreover have "view st' pool k = view st pool k" if "k \<notin> L" for k
    using other that assms(3) by metis
  ultimately have "only_weights pool L st st'"
    using s(2) g by (simp add: only_weights_def)
  moreover have "cw_of st' pool k = (if k = l then cw_of st pool l + w else cw_of st pool k)" for k
    using assms(4,5) s(3) c other by (simp add: cw_of_def wrap_i64_id)
  ultimately show ?thesis using s(1) by (auto simp: add_weight_modify)
qed

lemma select_empty:
  assumes "store_wf st" "\<forall>(l, w) \<in> set (zip candidates weights). l < length (lanes st)"
    "healthy_members st pool (zip candidates weights) now = []"
  shows "\<exists>st'. select_weighted_for st pool candidates weights now = Some (st', None)
    \<and> only_weights pool {} st st'"
  using healthy_set_spec [OF assms(1,2), of pool now] assms(3)
  by (auto simp: select_weighted_for_def intro: only_weights_same_view)

lemma select_step:
  assumes zs: "zs = zip candidates weights" and wf: "store_wf st" and rng: "\<forall>(l, w) \<in> set zs. l < length (lanes st)"
    and d: "distinct (map fst zs)" and H: "H = healthy_members st pool zs now"
    and ne: "H \<noteq> []" and small: "weights_small st pool H"
  shows "\<exists>st' b. select_weighted_for st pool candidates weights now = Some (st', Some b)
    \<and> b \<in> fst ` set H \<and> only_weights pool (fst ` set H) st st'
    \<and> snd (swrr_step H (cw_of st pool)) = Some b
    \<and> (\<forall>l \<in> fst ` set H. cw_of st' pool l = fst (swrr_step H (cw_of st pool)) l)"
proof -
  let ?L = "fst ` set H" and ?cw1 = "\<lambda>l. cw_of st pool l + wt H l"
  have m: "members_ok H" unfolding H by (rule healthy_members_ok [OF d]) (use ne H in simp)
  have dH: "distinct (map fst H)" using m by (simp add: members_ok_def)
  have Lr: "\<forall>l \<in> ?L. l < length (lanes st)"
    using healthy_members_lanes [of st pool zs now] rng unfolding H by fastforce
  obtain st1 where 1: "healthy_set st pool zs now = Some (st1, H)" "store_wf st1"
    "lane_globals st1 = lane_globals st" "\<forall>p l. view st1 p l = view st p l"
    using healthy_set_spec [OF wf rng] unfolding H by blast
  define st2 where "st2 = fst (swrr_shard st1 pool)"
  have o2: "only_weights pool ?L st st2" and cw2: "cw_of st2 pool = cw_of st pool"
    using 1 swrr_shard_frame [of st1 pool] by (auto simp: st2_def only_weights_def cw_of_def fun_eq_iff)
  have wf2: "store_wf st2" and len2: "length (lanes st2) = length (lanes st)"
    using o2 by (auto simp: only_weights_def intro: lane_globals_length)
  have wt: "1 \<le> wt H l \<and> wt H l \<le> total_wt H" if l: "l \<in> ?L" for l
  proof -
    from l obtain w where "(l, w) \<in> set H" by auto
    then show ?thesis
      using m wt_mem [OF dH] wt_le_total [OF m] by (fastforce simp: members_ok_def)
  qed
  have cwb: "\<bar>cw_of st pool l\<bar> \<le> 2 ^ 61" if "l \<in> ?L" for l
    using small that by (auto simp: weights_small_def)
  have tot: "1 \<le> total_wt H" "total_wt H \<le> 2 ^ 61"
    using total_wt_pos [OF m] small by (auto simp: weights_small_def)
  have fits: "i64_min < ?cw1 l \<and> ?cw1 l \<le> i64_max \<and> i64_min \<le> ?cw1 l - total_wt H" if "l \<in> ?L" for l
    using wt [OF that] cwb [OF that] tot by (simp add: i64_min_def i64_max_def abs_le_iff)
  obtain st3 where 3: "add_weights st2 pool H = Some st3" "only_weights pool ?L st2 st3"
    "\<forall>l \<in> ?L. cw_of st3 pool l = ?cw1 l"
    using add_weights_effect [of st2 H pool, OF wf2 dH, unfolded cw2 len2, OF Lr] fits
    by (meson less_imp_le)
  have o3: "only_weights pool ?L st st3" by (rule only_weights_trans [OF o2 3(2)])
  then have len3: "length (lanes st3) = length (lanes st)"
    by (intro lane_globals_length) (simp add: only_weights_def)
  have wf3: "store_wf st3" using o3 by (simp add: only_weights_def)
  have v3: "\<forall>(l, w) \<in> set H. view st3 pool l \<noteq> None"
    using Lr len3 by (auto simp: view_def)
  have "argmax (cw_of st3 pool) H None i64_min = argmax ?cw1 H None i64_min"
    by (rule argmax_cong [OF 3(3)])
  moreover obtain b where b: "b \<in> ?L" "argmax ?cw1 H None i64_min = Some b"
    using argmax_Some [OF ne, of ?cw1] fits by blast
  ultimately have best: "find_best st3 pool H None i64_min = Some (Some b)"
    using find_best_argmax [OF v3] by simp
  have cwb: "cw_of st3 pool b = ?cw1 b" using 3(3) b(1) by blast
  obtain st4 where 4: "add_weight st3 pool b (- total_wt H) = Some st4" "only_weights pool ?L st3 st4"
    "\<forall>k. cw_of st4 pool k = (if k = b then ?cw1 b - total_wt H else cw_of st3 pool k)"
    using add_weight_effect [of st3 b ?L pool "- total_wt H", unfolded cwb len3] wf3 bspec [OF Lr b(1)] b(1)
      fits [OF b(1)] tot by auto
  have "wrap_i64 (sum_list (map snd H)) = total_wt H"
    using tot by (simp add: wrap_i64_id i64_min_def i64_max_def flip: total_wt_def)
  then have sel: "select_weighted_for st pool candidates weights now = Some (st4, Some b)"
    using 1(1) ne 3(1) best 4(1) by (simp add: select_weighted_for_def zs [symmetric] st2_def Let_def)
  have "swrr_step H (cw_of st pool) = (?cw1(b := ?cw1 b - total_wt H), Some b)"
    using b(2) by (simp add: swrr_step_def)
  then show ?thesis
    using sel b(1) only_weights_trans [OF o3 4(2)] 4(3) 3(3) by auto
qed

subsection \<open>Runs of selections\<close>

fun select_many ::
  "InMemoryStore \<Rightarrow> string \<Rightarrow> nat list \<Rightarrow> nat list \<Rightarrow> nat list \<Rightarrow> (InMemoryStore \<times> nat option list) option" where
  "select_many st pool candidates weights [] = Some (st, [])"
| "select_many st pool candidates weights (now # nows) =
     do {
       (st1, b) \<leftarrow> select_weighted_for st pool candidates weights now;
       (st2, bs) \<leftarrow> select_many st1 pool candidates weights nows;
       Some (st2, b # bs)
     }"

lemma swrr_step_cong:
  assumes "\<forall>l \<in> fst ` set h. f l = g l"
  shows "snd (swrr_step h f) = snd (swrr_step h g)
    \<and> (\<forall>l \<in> fst ` set h. fst (swrr_step h f) l = fst (swrr_step h g) l)"
proof -
  have "argmax (\<lambda>l. f l + wt h l) h None i64_min = argmax (\<lambda>l. g l + wt h l) h None i64_min"
    by (rule argmax_cong) (use assms in simp)
  then show ?thesis using assms argmax_result [OF refl, of "\<lambda>l. g l + wt h l" h None i64_min]
    by (auto simp: swrr_step_def Let_def split: option.splits)
qed

lemma swrr_run_cong:
  "\<forall>l \<in> fst ` set h. f l = g l \<Longrightarrow> snd (swrr_run h f n) = snd (swrr_run h g n)
    \<and> (\<forall>l \<in> fst ` set h. fst (swrr_run h f n) l = fst (swrr_run h g n) l)"
proof (induction n arbitrary: f g)
  case (Suc n)
  note st = swrr_step_cong [OF Suc.prems]
  from Suc.IH [of "fst (swrr_step h f)" "fst (swrr_step h g)"] st
  show ?case by (simp add: split_def Let_def)
qed simp

lemma swrr_inv_cong: "\<forall>l \<in> fst ` set h. f l = g l \<Longrightarrow> swrr_inv h n cnt f = swrr_inv h n cnt g"
proof -
  assume e: "\<forall>l \<in> fst ` set h. f l = g l"
  then have "sum f (fst ` set h) = sum g (fst ` set h)" by (intro sum.cong) auto
  with e show ?thesis by (simp add: swrr_inv_def)
qed

lemma length_le_total: "members_ok h \<Longrightarrow> int (length h) \<le> total_wt h"
proof -
  assume "members_ok h"
  then have "\<forall>(l, w) \<in> set h. 1 \<le> w" by (simp add: members_ok_def)
  then show ?thesis by (induction h) (auto simp: total_wt_def)
qed

lemma swrr_inv_small:
  assumes m: "members_ok h" and t: "total_wt h \<le> 2 ^ 30" and i: "swrr_inv h n cnt (cw_of st pool)"
  shows "weights_small st pool h"
proof -
  have "total_wt h * int (length h) \<le> 2 ^ 30 * 2 ^ 30"
    using t length_le_total [OF m] total_wt_pos [OF m] by (intro mult_mono) auto
  then have "\<bar>cw_of st pool l\<bar> \<le> 2 ^ 61" if "l \<in> fst ` set h" for l
    using swrr_inv_bound [OF m i that] by simp
  then show ?thesis using t by (simp add: weights_small_def)
qed

lemma select_many_refines:
  assumes "H \<noteq> []" and d: "distinct (map fst (zip candidates weights))" and t: "total_wt H \<le> 2 ^ 30"
  shows "store_wf st \<Longrightarrow> \<forall>(l, w) \<in> set (zip candidates weights). l < length (lanes st) \<Longrightarrow>
    \<forall>now \<in> set nows. healthy_members st pool (zip candidates weights) now = H \<Longrightarrow>
    swrr_inv H n cnt (cw_of st pool) \<Longrightarrow> members_ok H \<Longrightarrow>
    \<exists>st'. select_many st pool candidates weights nows
        = Some (st', snd (swrr_run H (cw_of st pool) (length nows)))
      \<and> only_weights pool (fst ` set H) st st'"
proof (induction nows arbitrary: st n cnt)
  case Nil
  then show ?case by (simp add: only_weights_def)
next
  case (Cons now nows)
  let ?zs = "zip candidates weights"
  have H: "H = healthy_members st pool ?zs now" using Cons.prems(3) by simp
  note m = Cons.prems(5)
  have small: "weights_small st pool H" by (rule swrr_inv_small [OF m t Cons.prems(4)])
  obtain st1 b where s: "select_weighted_for st pool candidates weights now = Some (st1, Some b)"
    "only_weights pool (fst ` set H) st st1" "snd (swrr_step H (cw_of st pool)) = Some b"
    "\<forall>l \<in> fst ` set H. cw_of st1 pool l = fst (swrr_step H (cw_of st pool)) l"
    using select_step [OF refl Cons.prems(1,2) d H assms(1) small] by blast
  have o: "store_wf st1" "lane_globals st1 = lane_globals st"
    "\<forall>l. map_option weightless (view st1 pool l) = map_option weightless (view st pool l)"
    using s(2) by (auto simp: only_weights_def)
  have rng1: "\<forall>(l, w) \<in> set ?zs. l < length (lanes st1)"
    using Cons.prems(2) lane_globals_length [OF o(2)] by simp
  have H1: "\<forall>now \<in> set nows. healthy_members st1 pool ?zs now = H"
    using healthy_members_cong [OF o(2), of ?zs pool] o(3) Cons.prems(3) by simp
  have t': "total_wt H \<le> i64_max" using t by (simp add: i64_max_def)
  obtain cnt' where "swrr_inv H (n + 1) cnt' (cw_of st1 pool)"
    using swrr_step_inv [OF m t' Cons.prems(4)] swrr_inv_cong [OF s(4)] by blast
  from Cons.IH [OF o(1) rng1 H1 this m] obtain st2 where
    2: "select_many st1 pool candidates weights nows = Some (st2, snd (swrr_run H (cw_of st1 pool) (length nows)))"
      "only_weights pool (fst ` set H) st1 st2" by blast
  have "snd (swrr_run H (cw_of st pool) (length (now # nows)))
      = Some b # snd (swrr_run H (cw_of st1 pool) (length nows))"
    using s(3) swrr_run_cong [OF s(4), of "length nows"] by (simp add: split_def Let_def)
  then show ?case using s(1) 2 only_weights_trans [OF s(2)] by auto
qed

section \<open>Properties of selection\<close>

text \<open>
  A selection over existing lanes never panics; it returns a lane if and only if some
  candidate with a non-zero weight is admissible and ready, and then it returns such a candidate; it
  creates cells and moves selection weights of its pool and changes nothing else, in particular it
  never takes the recovery probe.
\<close>
theorem selection_correct:
  assumes "store_wf st" and "\<forall>(l, w) \<in> set (zip candidates weights). l < length (lanes st)"
    and "distinct (map fst (zip candidates weights))"
    and "weights_small st pool (healthy_members st pool (zip candidates weights) now)"
  shows "\<exists>st' r. select_weighted_for st pool candidates weights now = Some (st', r)
    \<and> (r = None \<longleftrightarrow> healthy_members st pool (zip candidates weights) now = [])
    \<and> (\<forall>l. r = Some l \<longrightarrow> (\<exists>w. (l, w) \<in> set (zip candidates weights) \<and> w \<noteq> 0) \<and>
          lane_admissible st l = Some True \<and> (\<exists>c. view st pool l = Some c \<and> cell_ready_breaker c now))
    \<and> store_wf st' \<and> lane_globals st' = lane_globals st
    \<and> (\<forall>l. map_option weightless (view st' pool l) = map_option weightless (view st pool l))
    \<and> (pool \<noteq> [] \<longrightarrow> (\<forall>p l. p \<noteq> pool \<longrightarrow> view st' p l = view st p l))"
proof (cases "healthy_members st pool (zip candidates weights) now = []")
  case True
  then show ?thesis using select_empty [OF assms(1,2) True] by (auto simp: only_weights_def)
next
  case False
  let ?H = "healthy_members st pool (zip candidates weights) now"
  have mem: "(\<exists>w. (l, w) \<in> set (zip candidates weights) \<and> w \<noteq> 0) \<and> lane_admissible st l = Some True \<and>
      (\<exists>c. view st pool l = Some c \<and> cell_ready_breaker c now)" if "l \<in> fst ` set ?H" for l
    using that by (auto simp: healthy_members_def split: option.splits)
  from select_step [OF refl assms(1-3) refl False assms(4)] obtain st' b where
    s: "select_weighted_for st pool candidates weights now = Some (st', Some b)" "b \<in> fst ` set ?H"
      "only_weights pool (fst ` set ?H) st st'" by blast
  show ?thesis
    using False mem [OF s(2)] s(1,3) unfolding only_weights_def by (intro exI [of _ st'] exI [of _ "Some b"]) simp
qed

text \<open>A concrete store with two lanes, for the witnesses.\<close>

definition example_lane :: "string \<Rightarrow> LaneData" where
  "example_lane m = \<lparr>ld_model = m, ld_provider = ''prov'', ld_max = 8, ld_permits = 8, ld_limited = False,
     ld_budget = -1, ld_cooldown_until = 0, ld_streak = 0, ld_dead = False, ld_dead_reason = [], ld_ok = 0,
     ld_err = 0, ld_client_fault = 0, ld_upstream_model = None, ld_attempt_timeout_ms = None,
     ld_reasoning = False, ld_prompt_caching = False\<rparr>"

definition example_store :: InMemoryStore where
  "example_store = new_with_limits [example_lane ''a'', example_lane ''b''] 1800 86400"

lemma example_def_cell: "def_cell (LaneState_new (example_lane m)) = BreakerCell_new"
  by (simp add: LaneState_new_def example_lane_def BreakerCell_new_def)

lemma example_store_wf: "store_wf example_store"
  using BreakerCell_new_wf
  by (simp add: example_store_def new_with_limits_def store_wf_def cells_wf_def example_def_cell)

lemma example_length: "length (lanes example_store) = 2"
  by (simp add: example_store_def new_with_limits_def)

lemma example_nth: "l < 2 \<Longrightarrow> lanes example_store ! l = LaneState_new (example_lane (if l = 0 then ''a'' else ''b''))"
  by (auto simp: example_store_def new_with_limits_def less_2_cases_iff)

lemma inherited_new [simp]: "inherited_cell BreakerCell_new = BreakerCell_new"
  by (simp add: inherited_cell_def BreakerCell_new_def st_defs)

lemma example_pool_cells [simp]: "pool_cells example_store l = []"
  by (simp add: example_store_def new_with_limits_def)

lemma example_view: "p \<noteq> [] \<Longrightarrow> l < 2 \<Longrightarrow> view example_store p l = Some BreakerCell_new"
  by (simp add: view_def example_length example_nth example_def_cell)

lemma example_admissible: "l < 2 \<Longrightarrow> lane_admissible example_store l = Some True"
  by (simp add: lane_admissible_def get_lane_def example_length example_nth)
    (simp add: LaneState_new_def example_lane_def)

lemma example_healthy:
  "healthy_members example_store ''p'' [(0, 3), (1, 1)] now = [(0, 3), (1, 1)]"
  by (simp add: healthy_members_def example_admissible example_view cell_ready_breaker_def del: One_nat_def)
    (simp add: BreakerCell_new_def st_defs)

lemma example_cw: "p \<noteq> [] \<Longrightarrow> l < 2 \<Longrightarrow> cw_of example_store p l = 0"
  by (simp add: cw_of_def example_view BreakerCell_new_def)

theorem selection_correct_witness:
  "\<exists>st' r. select_weighted_for example_store ''p'' [0, 1] [3, 1] 5 = Some (st', r) \<and> r \<noteq> None"
proof -
  have "weights_small example_store ''p'' (healthy_members example_store ''p'' (zip [0, 1] [3, 1]) 5)"
    by (simp add: example_healthy weights_small_def example_cw total_wt_def del: One_nat_def)
  then show ?thesis
    using selection_correct [OF example_store_wf, of "[0, 1]" "[3, 1]" "''p''" 5]
    by (auto simp: example_length example_healthy simp del: One_nat_def)
qed

text \<open>
  Claim C28. Selection is proportionally fair: over a healthy set that does not change, starting
  from zero weights, every prefix of \<open>n\<close> picks gives a lane of weight \<open>w\<close> fewer than \<open>n * w / W + 1\<close>
  picks, and a full cycle of \<open>W\<close> picks (the sum of the weights) gives it exactly \<open>w\<close>.
\<close>
theorem swrr_fair:
  assumes "store_wf st" and "\<forall>(l, w) \<in> set (zip candidates weights). l < length (lanes st)"
    and "distinct (map fst (zip candidates weights))" and "H \<noteq> []"
    and "\<forall>now \<in> set nows. healthy_members st pool (zip candidates weights) now = H"
    and "members_ok H" and "\<forall>l \<in> fst ` set H. cw_of st pool l = 0" and "total_wt H \<le> 2 ^ 30"
  shows "\<exists>st' picks. select_many st pool candidates weights nows = Some (st', picks)
    \<and> (\<forall>(l, w) \<in> set H. int (count_list picks (Some l)) * total_wt H < int (length nows) * w + total_wt H)
    \<and> (int (length nows) = total_wt H \<longrightarrow> (\<forall>(l, w) \<in> set H. int (count_list picks (Some l)) = w))"
proof -
  let ?run = "swrr_run H (cw_of st pool) (length nows)"
  let ?cnt = "\<lambda>l. int (count_list (snd ?run) (Some l))"
  have i0: "swrr_inv H 0 (\<lambda>_. 0) (cw_of st pool)" by (rule swrr_inv_init [OF assms(7,6)])
  have t: "total_wt H \<le> i64_max" using assms(8) by (simp add: i64_max_def)
  obtain st' where s: "select_many st pool candidates weights nows = Some (st', snd ?run)"
    using select_many_refines [OF assms(4,3,8,1,2,5) i0 assms(6)] by blast
  have r: "set (snd ?run) \<subseteq> Some ` fst ` set H" and i: "swrr_inv H (int (length nows)) ?cnt (fst ?run)"
    using swrr_run_inv [OF assms(6) t i0, of "length nows"] by simp_all
  have len: "length (snd (swrr_run H cw n)) = n" for cw n
    by (induction n arbitrary: cw) (simp_all add: split_def Let_def)
  have wt: "(l, w) \<in> set H \<Longrightarrow> wt H l = w \<and> l \<in> fst ` set H" for l w
    using wt_mem assms(6) by (force simp: members_ok_def)
  have "?cnt l * total_wt H < int (length nows) * w + total_wt H" if "(l, w) \<in> set H" for l w
    using i wt [OF that] by (auto simp: swrr_inv_def algebra_simps)
  moreover have "?cnt l = w" if "int (length nows) = total_wt H" "(l, w) \<in> set H" for l w
    using swrr_inv_cycle [OF assms(6), of ?cnt "fst ?run" l] i sum_count_list [OF r] wt [OF that(2)] that(1) len
    by simp
  ultimately show ?thesis using s by blast
qed

theorem swrr_fair_witness:
  "\<exists>st' picks. select_many example_store ''p'' [0, 1] [3, 1] [5, 5, 6, 7] = Some (st', picks)
     \<and> count_list picks (Some 0) = 3 \<and> count_list picks (Some 1) = 1"
proof -
  have "members_ok [(0, 3), (1, 1)]" by (simp add: members_ok_def)
  then show ?thesis
    using swrr_fair [OF example_store_wf, of "[0, 1]" "[3, 1]" "[(0, 3), (1, 1)]" "[5, 5, 6, 7]" "''p''"]
    by (auto simp: example_length example_healthy example_cw total_wt_def
        simp del: One_nat_def select_many.simps)
qed

end
