(* ===== verification/StoreOps.thy ===== *)
theory StoreOps
  imports StoreSelect
begin

text \<open>
  Properties of the store's operations: none of them panics on an existing lane under a valid
  breaker configuration and all keep the invariant, pools are isolated, the lane counters and the
  lifetime budget are exact, and the operations on every cell of a lane reach every cell.
\<close>

subsection \<open>Frame lemmas\<close>

lemma get_lane_range: "lane < length (lanes st) \<Longrightarrow> get_lane st lane = Some (lanes st ! lane)"
  by (simp add: get_lane_def)

lemma set_lane_length [simp]: "length (lanes (set_lane st lane ls)) = length (lanes st)"
  by (simp add: set_lane_def)

lemma put_cell_nth:
  "lane < length (lanes st) \<Longrightarrow>
   lanes (put_cell st pool lane c) ! lane =
     (if pool = [] then (lanes st ! lane)\<lparr>def_cell := c\<rparr> else lanes st ! lane)"
  by (simp add: put_cell_def)

text \<open>Fetching a cell, packaged for the operations.\<close>

lemma fetchE:
  assumes "store_wf st" "lane < length (lanes st)"
  obtains st1 c where "cell_in st pool lane = Some (st1, c)" "store_wf st1" "cell_wf c"
    "view st pool lane = Some c" "\<And>p l. view st1 p l = view st p l" "lanes st1 = lanes st"
    "lane < length (lanes st1)" "max_honored_retry_after_secs st1 = max_honored_retry_after_secs st"
    "hard_down_cooldown_secs st1 = hard_down_cooldown_secs st" "pool_shards st1 = pool_shards st"
proof -
  obtain st1 where 1: "cell_in st pool lane = Some (st1, the (view st pool lane))" "lanes st1 = lanes st"
    "pool_shards st1 = pool_shards st" "hard_down_cooldown_secs st1 = hard_down_cooldown_secs st"
    "max_honored_retry_after_secs st1 = max_honored_retry_after_secs st"
    using cell_in_view [OF assms(2), of pool] by blast
  note w = cell_in_wf [OF assms(1) 1(1)]
  show thesis
    by (rule that [OF 1(1)]) (use 1 w assms(2) cell_in_keeps_view [OF 1(1)] in simp_all)
qed

lemma swrr_shard_lanes [simp]:
  "lanes (fst (swrr_shard st pool)) = lanes st" "pool_cells (fst (swrr_shard st pool)) = pool_cells st"
  by (simp_all add: swrr_shard_def Let_def split: option.split)

lemma reset_swrr_for_wf:
  "store_wf st \<Longrightarrow> lane < length (lanes st) \<Longrightarrow> cell_wf c \<Longrightarrow> store_wf (reset_swrr_for st pool lane c)"
  by (simp add: reset_swrr_for_def put_cell_wf reset_swrr_wf swrr_shard_frame)

lemma reset_swrr_for_length [simp]: "length (lanes (reset_swrr_for st pool lane c)) = length (lanes st)"
  by (simp add: reset_swrr_for_def)

lemma touch_shards_frame:
  "lanes (touch_shards st ps) = lanes st \<and> pool_cells (touch_shards st ps) = pool_cells st
   \<and> (store_wf st \<longrightarrow> store_wf (touch_shards st ps))"
  unfolding touch_shards_def
  by (induction ps arbitrary: st) (simp_all add: swrr_shard_frame(3))

lemma sweep_cell_wf: "(\<And>c. cell_wf c \<Longrightarrow> cell_wf (fst (f c))) \<Longrightarrow> cell_wf c \<Longrightarrow> cell_wf (sweep_cell f c)"
  using reset_swrr_wf by (fastforce simp: sweep_cell_def split: prod.split)

lemma sweep_cells_effect:
  assumes "store_wf st" "lane < length (lanes st)" "\<And>c. cell_wf c \<Longrightarrow> cell_wf (fst (f c))"
  shows "\<exists>st'. sweep_cells st lane f = Some st' \<and> store_wf st'
    \<and> lanes st' = (lanes st)[lane := (lanes st ! lane)\<lparr>def_cell := sweep_cell f (def_cell (lanes st ! lane))\<rparr>]
    \<and> pool_cells st' = (pool_cells st)(lane := map (\<lambda>(p, c). (p, sweep_cell f c)) (pool_cells st lane))"
proof -
  define closed where "closed = (if snd (f (def_cell (lanes st ! lane))) then [[]] else []) @
         map fst (filter (\<lambda>(p, c). snd (f c)) (pool_cells st lane))"
  define st2 where "st2 = set_lane (touch_shards st closed) lane
    ((lanes st ! lane)\<lparr>def_cell := sweep_cell f (def_cell (lanes st ! lane))\<rparr>)"
  note t = touch_shards_frame [of st closed]
  have l2: "lanes st2 = (lanes st)[lane := (lanes st ! lane)\<lparr>def_cell := sweep_cell f (def_cell (lanes st ! lane))\<rparr>]"
    "pool_cells st2 = pool_cells st"
    using t by (simp_all add: st2_def set_lane_def)
  have "store_wf st2"
    unfolding st2_def
    by (rule store_wf_set_lane) (use t assms sweep_cell_wf [of f, OF assms(3)] store_wf_def_cell in auto)
  then have "store_wf (st2\<lparr>pool_cells := (pool_cells st2)(lane := map (\<lambda>(p, c). (p, sweep_cell f c)) (pool_cells st2 lane))\<rparr>)"
    using assms l2 store_wf_get [of st2 lane] sweep_cell_wf [of f, OF assms(3)]
    by (intro store_wf_cells cells_wf_map) auto
  then show ?thesis
    using assms(2) l2 by (auto simp: sweep_cells_def get_lane_range Let_def st2_def closed_def)
qed

subsection \<open>Operations as data\<close>

datatype store_op =
    Usable string nat nat
  | Ready string nat nat
  | CooldownRemaining string nat nat
  | RecordFailure string nat nat BreakerCfg "nat option" "nat \<times> nat"
  | RecordSuccess string nat nat
  | RecordHardDown string nat string nat
  | ClientFaultOp nat
  | ProbeSuccessAll nat nat
  | RecoverLane nat nat
  | HardDownAll nat string nat
  | ProbeFailureAll nat nat "string \<Rightarrow> BreakerCfg" "nat option" "string \<Rightarrow> nat \<times> nat"
  | ReleaseProbeIn string nat
  | ProbeEpoch string nat
  | ReleaseOwnedIn string nat nat
  | Select string "nat list" "nat list" nat
  | Spend nat
  | Refund nat
  | Latency nat f64

fun store_exec :: "InMemoryStore \<Rightarrow> store_op \<Rightarrow> InMemoryStore option" where
  "store_exec st (Usable p l now) = map_option fst (usable_for st p l now)"
| "store_exec st (Ready p l now) = map_option fst (ready_for st p l now)"
| "store_exec st (CooldownRemaining p l now) = map_option fst (cooldown_remaining_for st p l now)"
| "store_exec st (RecordFailure p l now cfg ra sd) = map_option fst (record_failure_for st p l now cfg ra sd)"
| "store_exec st (RecordSuccess p l now) = record_success_for st p l now"
| "store_exec st (RecordHardDown p l reason now) = record_hard_down_for st p l reason now"
| "store_exec st (ClientFaultOp l) = record_client_fault st l"
| "store_exec st (ProbeSuccessAll l now) = record_probe_success_all_cells st l now"
| "store_exec st (RecoverLane l now) = recover_lane st l now"
| "store_exec st (HardDownAll l reason now) = map_option fst (record_hard_down_all_cells st l reason now)"
| "store_exec st (ProbeFailureAll l now rc ra js) = record_probe_failure_all_cells st l now rc ra js"
| "store_exec st (ReleaseProbeIn p l) = release_probe_in st p l"
| "store_exec st (ProbeEpoch p l) = map_option fst (probe_epoch_in st p l)"
| "store_exec st (ReleaseOwnedIn p l e) = release_probe_owned_in st p l e"
| "store_exec st (Select p cs ws now) = map_option fst (select_weighted_for st p cs ws now)"
| "store_exec st (Spend l) = map_option fst (spend_budget st l)"
| "store_exec st (Refund l) = refund_budget st l"
| "store_exec st (Latency l x) = record_latency_in st l x"

fun op_lanes :: "store_op \<Rightarrow> nat set" where
  "op_lanes (Usable p l now) = {l}"
| "op_lanes (Ready p l now) = {l}"
| "op_lanes (CooldownRemaining p l now) = {l}"
| "op_lanes (RecordFailure p l now cfg ra sd) = {l}"
| "op_lanes (RecordSuccess p l now) = {l}"
| "op_lanes (RecordHardDown p l reason now) = {l}"
| "op_lanes (ClientFaultOp l) = {l}"
| "op_lanes (ProbeSuccessAll l now) = {l}"
| "op_lanes (RecoverLane l now) = {l}"
| "op_lanes (HardDownAll l reason now) = {l}"
| "op_lanes (ProbeFailureAll l now rc ra js) = {l}"
| "op_lanes (ReleaseProbeIn p l) = {l}"
| "op_lanes (ProbeEpoch p l) = {l}"
| "op_lanes (ReleaseOwnedIn p l e) = {l}"
| "op_lanes (Select p cs ws now) = set cs"
| "op_lanes (Spend l) = {l}"
| "op_lanes (Refund l) = {l}"
| "op_lanes (Latency l x) = {l}"

fun op_cfg_ok :: "store_op \<Rightarrow> bool" where
  "op_cfg_ok (RecordFailure p l now cfg ra sd) = cfg_ok cfg"
| "op_cfg_ok (ProbeFailureAll l now rc ra js) = (\<forall>p. cfg_ok (rc p))"
| "op_cfg_ok _ = True"

text \<open>What an operation promises: it returns, keeps the invariant and the number of lanes.\<close>

definition keeps :: "InMemoryStore \<Rightarrow> InMemoryStore option \<Rightarrow> bool" where
  "keeps st r \<longleftrightarrow> (\<exists>st'. r = Some st' \<and> store_wf st' \<and> length (lanes st') = length (lanes st))"

lemma keeps_put:
  "store_wf st1 \<Longrightarrow> lane < length (lanes st1) \<Longrightarrow> lanes st1 = lanes st \<Longrightarrow> cell_wf c \<Longrightarrow>
   keeps st (Some (put_cell st1 pool lane c))"
  by (simp add: keeps_def put_cell_wf)

lemma keeps_set_lane:
  "store_wf st1 \<Longrightarrow> length (lanes st1) = length (lanes st) \<Longrightarrow> cell_wf (def_cell ls) \<Longrightarrow> keeps st (Some (set_lane st1 lane ls))"
  by (simp add: keeps_def store_wf_set_lane)

lemma usable_keeps: "store_wf st \<Longrightarrow> l < length (lanes st) \<Longrightarrow> keeps st (map_option fst (usable_for st p l now))"
proof -
  assume wf: "store_wf st" and l: "l < length (lanes st)"
  obtain st1 c where 1: "cell_in st p l = Some (st1, c)" "store_wf st1" "cell_wf c" "lanes st1 = lanes st"
    by (rule fetchE [OF wf l])
  have "cell_wf (fst (cell_acquire_breaker c now))" by (rule cell_acquire_wf [OF 1(3)])
  then show ?thesis
    using 1 l lane_admissible_Some [OF l] wf
    by (auto simp: usable_for_def case_prod_unfold Let_def keeps_put) (auto simp: keeps_def)
qed

lemma read_keeps:
  assumes "store_wf st" "l < length (lanes st)"
  shows "keeps st (map_option fst (ready_for st p l now))"
    and "keeps st (map_option fst (cooldown_remaining_for st p l now))"
    and "keeps st (map_option fst (probe_epoch_in st p l))"
proof -
  obtain st1 c where "cell_in st p l = Some (st1, c)" "store_wf st1" "lanes st1 = lanes st"
    by (rule fetchE [OF assms])
  then show "keeps st (map_option fst (ready_for st p l now))"
    and "keeps st (map_option fst (cooldown_remaining_for st p l now))"
    and "keeps st (map_option fst (probe_epoch_in st p l))"
    using lane_admissible_Some [OF assms(2)] assms(1)
    by (auto simp: ready_for_def cooldown_remaining_for_def probe_epoch_in_def keeps_def)
qed

lemma release_keeps:
  assumes "store_wf st" "l < length (lanes st)"
  shows "keeps st (release_probe_in st p l)" and "keeps st (release_probe_owned_in st p l e)"
proof -
  obtain st1 c where 1: "cell_in st p l = Some (st1, c)" "store_wf st1" "cell_wf c" "lanes st1 = lanes st"
    by (rule fetchE [OF assms])
  then show "keeps st (release_probe_in st p l)" and "keeps st (release_probe_owned_in st p l e)"
    using assms(2) by (simp_all add: release_probe_in_def release_probe_owned_in_def keeps_put
        cell_release_probe_wf cell_release_probe_owned_wf)
qed

lemma err_bump_wf: "cell_wf c \<Longrightarrow> cell_wf (c\<lparr>err := wrap_u64 n\<rparr>)"
  by (simp add: cell_wf_def)

lemma fail_total: "cfg_ok cfg \<Longrightarrow> \<exists>c' r. cell_record_failure c now cfg ra mh sd = Some (c', r)"
  using cell_exec_total [of "Fail now cfg ra mh sd" c] by auto

text \<open>The effect of a recorded failure, for every branch.\<close>

lemma record_failure_effect:
  assumes wf: "store_wf st" and l: "lane < length (lanes st)" and cfg: "cfg_ok cfg"
    and alive: "\<not> dead (lanes st ! lane)"
  obtains st1 c c' r ls' where "cell_in st pool lane = Some (st1, c)" "store_wf st1" "lanes st1 = lanes st"
    "cell_wf c" "view st pool lane = Some c" "cell_wf c'"
    "cell_record_failure c now cfg ra (max_honored_retry_after_secs st) sd = Some (c', r)"
    "record_failure_for st pool lane now cfg ra sd = Some (set_lane (put_cell st1 pool lane c') lane ls', r)"
    "ls' = (lanes st ! lane)\<lparr>def_cell := (if pool = [] then c'
         else (def_cell (lanes st ! lane))\<lparr>err := wrap_u64 (err (def_cell (lanes st ! lane)) + 1)\<rparr>),
       trips := (if r then wrap_u64 (trips (lanes st ! lane) + 1) else trips (lanes st ! lane)),
       last_trip_at := (if r then now else last_trip_at (lanes st ! lane))\<rparr>"
proof -
  obtain st1 c where 1: "cell_in st pool lane = Some (st1, c)" "store_wf st1" "cell_wf c" "view st pool lane = Some c"
    "lanes st1 = lanes st" "lane < length (lanes st1)"
    by (rule fetchE [OF wf l])
  obtain c' r where 2: "cell_record_failure c now cfg ra (max_honored_retry_after_secs st) sd = Some (c', r)"
    using fail_total [OF cfg] by blast
  show thesis
    by (rule that [OF 1(1,2,5,3,4) cell_record_failure_wf [OF 2 1(3)] 2 _ refl])
      (use 1 2 l alive in \<open>simp add: record_failure_for_def get_lane_range put_cell_nth Let_def\<close>)
qed

lemma record_failure_keeps:
  assumes "store_wf st" "lane < length (lanes st)" "cfg_ok cfg"
  shows "keeps st (map_option fst (record_failure_for st pool lane now cfg ra sd))"
proof (cases "dead (lanes st ! lane)")
  case True
  then show ?thesis using assms by (simp add: record_failure_for_def get_lane_range keeps_def)
next
  case False
  show ?thesis
    by (rule record_failure_effect [OF assms False, of pool now ra sd])
      (use assms(1,2) in \<open>auto simp: keeps_set_lane put_cell_wf err_bump_wf store_wf_def_cell\<close>)
qed

lemma record_success_effect:
  assumes wf: "store_wf st" and l: "lane < length (lanes st)" and alive: "\<not> dead (lanes st ! lane)"
  obtains st1 c st2 where "cell_in st pool lane = Some (st1, c)" "store_wf st1" "lanes st1 = lanes st"
    "cell_wf c" "view st pool lane = Some c"
    "st2 = put_cell (if snd (cell_record_success c now) then fst (swrr_shard st1 pool) else st1) pool lane
       (sweep_cell (\<lambda>c. cell_record_success c now) c)"
    "record_success_for st pool lane now =
       Some (set_lane st2 lane ((lanes st2 ! lane)\<lparr>ok := wrap_u64 (ok (lanes st ! lane) + 1)\<rparr>))"
    "ok (lanes st2 ! lane) = ok (lanes st ! lane)" "store_wf st2" "length (lanes st2) = length (lanes st)"
proof -
  obtain st1 c where 1: "cell_in st pool lane = Some (st1, c)" "store_wf st1" "cell_wf c" "view st pool lane = Some c"
    "lanes st1 = lanes st" "lane < length (lanes st1)"
    by (rule fetchE [OF wf l])
  define st2 where "st2 = put_cell (if snd (cell_record_success c now) then fst (swrr_shard st1 pool) else st1)
    pool lane (sweep_cell (\<lambda>c. cell_record_success c now) c)"
  have wf2: "store_wf st2" unfolding st2_def
    by (rule put_cell_wf) (use 1 in \<open>auto intro: sweep_cell_wf cell_record_success_wf swrr_shard_frame(3)\<close>)
  have ok2: "ok (lanes st2 ! lane) = ok (lanes st ! lane)" and len: "length (lanes st2) = length (lanes st)"
    using 1 by (auto simp: st2_def put_cell_def)
  have "(if snd (cell_record_success c now) then reset_swrr_for st1 pool lane (fst (cell_record_success c now))
      else put_cell st1 pool lane (fst (cell_record_success c now))) = st2"
    by (simp add: st2_def reset_swrr_for_def sweep_cell_def case_prod_unfold)
  then have "record_success_for st pool lane now =
       Some (set_lane st2 lane ((lanes st2 ! lane)\<lparr>ok := wrap_u64 (ok (lanes st ! lane) + 1)\<rparr>))"
    using 1 l alive len ok2
    by (cases "snd (cell_record_success c now)")
      (simp_all add: record_success_for_def get_lane_range case_prod_unfold Let_def)
  then show thesis using that [OF 1(1,2,5,3,4) st2_def] ok2 wf2 len by blast
qed

lemma record_success_keeps:
  assumes "store_wf st" "lane < length (lanes st)"
  shows "keeps st (record_success_for st pool lane now)"
proof (cases "dead (lanes st ! lane)")
  case True
  then show ?thesis
    using assms by (simp add: record_success_for_def get_lane_range keeps_set_lane store_wf_def_cell)
next
  case False
  show ?thesis
    by (rule record_success_effect [OF assms False, of pool now])
      (use assms in \<open>simp add: keeps_set_lane store_wf_def_cell\<close>)
qed

lemma hard_down_keeps:
  assumes "store_wf st" "lane < length (lanes st)"
  shows "keeps st (record_hard_down_for st pool lane reason now)"
proof -
  let ?st = "set_lane st lane ((lanes st ! lane)\<lparr>dead_reason := reason\<rparr>)"
  have wf: "store_wf ?st" by (rule store_wf_set_lane) (use assms store_wf_def_cell in simp_all)
  have l: "lane < length (lanes ?st)" using assms(2) by simp
  obtain st1 c where "cell_in ?st pool lane = Some (st1, c)" "store_wf st1" "cell_wf c" "lanes st1 = lanes ?st"
    by (rule fetchE [OF wf l])
  then show ?thesis
    using assms(2) by (simp add: record_hard_down_for_def get_lane_range keeps_def put_cell_wf cell_hard_down_wf)
qed

lemma sweep_keeps:
  assumes "store_wf st" "lane < length (lanes st)"
  shows "keeps st (recover_lane st lane now)" and "keeps st (record_probe_success_all_cells st lane now)"
proof -
  show "keeps st (recover_lane st lane now)"
    using sweep_cells_effect [OF assms, of "\<lambda>c. cell_recover c now", OF cell_recover_wf] by (auto simp: recover_lane_def keeps_def)
  obtain st1 where 1: "sweep_cells st lane (\<lambda>c. cell_record_success c now) = Some st1" "store_wf st1"
    "length (lanes st1) = length (lanes st)"
    using sweep_cells_effect [OF assms, of "\<lambda>c. cell_record_success c now", OF cell_record_success_wf] by auto
  then show "keeps st (record_probe_success_all_cells st lane now)"
    using assms by (simp add: record_probe_success_all_cells_def get_lane_range keeps_set_lane store_wf_def_cell)
qed

lemma hard_down_all_effect:
  assumes "lane < length (lanes st)" and f_def: "f = (\<lambda>c. cell_hard_down c now (hard_down_cooldown_secs st))"
  shows "\<exists>st'. record_hard_down_all_cells st lane reason now
      = Some (st', breaker_state (def_cell (lanes st ! lane)) = ST_CLOSED)
    \<and> lanes st' = (lanes st)[lane := (lanes st ! lane)\<lparr>dead_reason := reason, def_cell := f (def_cell (lanes st ! lane))\<rparr>]
    \<and> pool_cells st' = (pool_cells st)(lane := map (\<lambda>(p, c). (p, f c)) (pool_cells st lane))
    \<and> (store_wf st \<longrightarrow> store_wf st')"
proof -
  let ?st1 = "set_lane st lane ((lanes st ! lane)\<lparr>dead_reason := reason, def_cell := f (def_cell (lanes st ! lane))\<rparr>)"
  let ?st2 = "?st1\<lparr>pool_cells := (pool_cells ?st1)(lane := map (\<lambda>(p, c). (p, f c)) (pool_cells ?st1 lane))\<rparr>"
  have "store_wf ?st2" if wf: "store_wf st"
  proof (rule store_wf_cells)
    show "store_wf ?st1"
      by (rule store_wf_set_lane [OF wf]) (use wf assms(1) in \<open>simp add: f_def cell_hard_down_wf store_wf_def_cell\<close>)
    show "cells_wf (map (\<lambda>(p, c). (p, f c)) (pool_cells ?st1 lane))"
      by (rule cells_wf_map) (use wf in \<open>auto simp: set_lane_def store_wf_get f_def cell_hard_down_wf\<close>)
  qed (use assms(1) in simp)
  then show ?thesis
    using assms(1)
    by (intro exI [of _ ?st2])
      (auto simp: record_hard_down_all_cells_def get_lane_range Let_def f_def set_lane_def)
qed

lemma probe_failure_keeps:
  assumes wf: "store_wf st" and l: "lane < length (lanes st)" and cfg: "\<forall>p. cfg_ok (rc p)"
  shows "keeps st (record_probe_failure_all_cells st lane now rc ra js)"
proof (cases "dead (lanes st ! lane)")
  case True
  then show ?thesis using wf l by (simp add: record_probe_failure_all_cells_def get_lane_range keeps_def)
next
  case False
  define fail where "fail p c = cell_record_failure c now (rc p) ra (max_honored_retry_after_secs st) (js p)" for p c
  have tot: "\<exists>c' r. fail p c = Some (c', r)" for p c using fail_total cfg by (simp add: fail_def)
  define g where "g = (\<lambda>(p, c). do { (c', _) \<leftarrow> fail p c; Some (p, c') })"
  obtain d r where d: "fail [] (def_cell (lanes st ! lane)) = Some (d, r)" using tot by blast
  have "g x \<noteq> None" for x using tot [of "fst x" "snd x"] by (auto simp: g_def case_prod_unfold)
  then obtain cs where cs: "traverse g (pool_cells st lane) = Some cs"
    using traverse_total [of "pool_cells st lane" g] by auto
  have gp: "g x = Some y \<Longrightarrow> fst y = fst x \<and> (cell_wf (snd x) \<longrightarrow> cell_wf (snd y))" for x y
    by (auto simp: g_def fail_def case_prod_unfold dest: cell_record_failure_wf split: bind_splits)
  have cswf: "cells_wf cs"
  proof -
    have m: "map g (pool_cells st lane) = map Some cs" using cs by (simp add: traverse_Some_iff)
    then have len: "length cs = length (pool_cells st lane)"
      and nth: "i < length cs \<Longrightarrow> g (pool_cells st lane ! i) = Some (cs ! i)" for i
      by (metis length_map, metis length_map nth_map)
    have "map fst cs = map fst (pool_cells st lane)"
      by (rule nth_equalityI) (use len nth gp in auto)
    moreover have "cell_wf (snd y)" if y: "y \<in> set cs" for y
    proof -
      obtain i where i: "i < length cs" "y = cs ! i" using y by (auto simp: in_set_conv_nth)
      have "pool_cells st lane ! i \<in> set (pool_cells st lane)" using i(1) len by simp
      then have "cell_wf (snd (pool_cells st lane ! i))"
        using store_wf_get [OF wf, of lane] by (auto simp: cells_wf_def case_prod_unfold)
      then show ?thesis using gp [OF nth [OF i(1)]] i(2) by simp
    qed
    ultimately show ?thesis
      using store_wf_get [OF wf, of lane] by (auto simp: cells_wf_def simp flip: set_map)
  qed
  let ?st1 = "set_lane st lane ((lanes st ! lane)\<lparr>def_cell := d\<rparr>)"
  have "cell_wf d"
    using d cell_record_failure_wf store_wf_def_cell [OF wf l] unfolding fail_def by blast
  then have "store_wf ?st1" by (intro store_wf_set_lane wf) simp
  then have "store_wf (?st1\<lparr>pool_cells := (pool_cells ?st1)(lane := cs)\<rparr>)"
    using l cswf by (intro store_wf_cells) simp_all
  moreover have "record_probe_failure_all_cells st lane now rc ra js
      = Some (?st1\<lparr>pool_cells := (pool_cells ?st1)(lane := cs)\<rparr>)"
    using False l d cs unfolding record_probe_failure_all_cells_def g_def fail_def
    by (simp add: get_lane_range Let_def)
  ultimately show ?thesis using l by (simp add: keeps_def)
qed

lemma add_weight_keeps: "store_wf st \<Longrightarrow> l < length (lanes st) \<Longrightarrow> keeps st (add_weight st p l w)"
proof -
  assume "store_wf st" and l: "l < length (lanes st)"
  then obtain st1 c where "cell_in st p l = Some (st1, c)" "store_wf st1" "cell_wf c" "lanes st1 = lanes st"
    by (rule fetchE)
  then show ?thesis
    using l by (simp add: add_weight_def keeps_put cell_wf_def)
qed

lemma add_weights_keeps:
  "store_wf st \<Longrightarrow> \<forall>l \<in> fst ` set h. l < length (lanes st) \<Longrightarrow> keeps st (add_weights st p h)"
proof (induction h arbitrary: st)
  case (Cons x h)
  obtain l w where x: "x = (l, w)" by (cases x)
  obtain st1 where "add_weight st p l w = Some st1" "store_wf st1" "length (lanes st1) = length (lanes st)"
    using add_weight_keeps [OF Cons.prems(1), of l p w] Cons.prems(2) by (auto simp: x keeps_def)
  then show ?case using Cons.IH [of st1] Cons.prems(2) by (auto simp: x keeps_def)
qed (simp add: keeps_def)

lemma select_keeps:
  assumes "store_wf st" "\<forall>l \<in> set candidates. l < length (lanes st)"
  shows "keeps st (map_option fst (select_weighted_for st pool candidates weights now))"
proof -
  let ?H = "healthy_members st pool (zip candidates weights) now"
  have rng: "\<forall>(l, w) \<in> set (zip candidates weights). l < length (lanes st)"
    using assms(2) by (auto dest: set_zip_leftD)
  obtain st1 where 1: "healthy_set st pool (zip candidates weights) now = Some (st1, ?H)" "store_wf st1"
    "lane_globals st1 = lane_globals st"
    using healthy_set_spec [OF assms(1) rng] by blast
  have L: "\<forall>l \<in> fst ` set ?H. l < length (lanes st)"
    using healthy_members_lanes [of st pool "zip candidates weights" now] rng by fastforce
  note len1 = lane_globals_length [OF 1(3)]
  obtain st3 where 3: "add_weights (fst (swrr_shard st1 pool)) pool ?H = Some st3" "store_wf st3"
    "length (lanes st3) = length (lanes st)"
    using add_weights_keeps [of "fst (swrr_shard st1 pool)" ?H pool] 1(2) L len1
    by (auto simp: keeps_def swrr_shard_frame)
  have v: "\<forall>(l, w) \<in> set ?H. view st3 pool l \<noteq> None" using L 3(3) by (auto simp: view_def)
  note best = find_best_argmax [OF v, of None i64_min]
  have b: "argmax (cw_of st3 pool) ?H None i64_min = Some b \<Longrightarrow> b < length (lanes st3)" for b
    using argmax_result [of "cw_of st3 pool" ?H None i64_min "Some b"] L 3(3) by auto
  show ?thesis
  proof (cases "?H = []")
    case True
    then show ?thesis using 1(1,2) len1 by (simp add: select_weighted_for_def keeps_def)
  next
    case False
    show ?thesis
    proof (cases "argmax (cw_of st3 pool) ?H None i64_min")
      case None
      then show ?thesis
        using False 1(1) 3 best by (simp add: select_weighted_for_def keeps_def Let_def)
    next
      case (Some l)
      then show ?thesis
        using False 1(1) 3 best
          add_weight_keeps [OF 3(2) b [OF Some], of pool "- wrap_i64 (sum_list (map snd ?H))"]
        by (auto simp: select_weighted_for_def keeps_def Let_def)
    qed
  qed
qed

lemma store_exec_keeps:
  assumes "store_wf st" "\<forall>l \<in> op_lanes op. l < length (lanes st)" "op_cfg_ok op"
  shows "keeps st (store_exec st op)"
proof (cases op)
  case (HardDownAll l reason now)
  then show ?thesis
    using hard_down_all_effect [of l st _ now reason, OF _ refl] assms by (auto simp: keeps_def)
next
  case (Latency l x)
  then show ?thesis
    using assms by (auto simp: record_latency_in_def get_lane_range Let_def keeps_def store_wf_set_lane store_wf_def_cell)
qed (use assms in \<open>auto simp: usable_keeps read_keeps record_failure_keeps record_success_keeps hard_down_keeps
    sweep_keeps probe_failure_keeps release_keeps select_keeps record_client_fault_def get_lane_range
    keeps_set_lane store_wf_def_cell spend_budget_def refund_budget_def\<close>,
    auto simp: keeps_def store_wf_set_lane store_wf_def_cell)

fun store_run :: "InMemoryStore \<Rightarrow> store_op list \<Rightarrow> InMemoryStore option" where
  "store_run st [] = Some st"
| "store_run st (op # ops) = do { st1 \<leftarrow> store_exec st op; store_run st1 ops }"

lemma store_run_keeps:
  "store_wf st \<Longrightarrow> \<forall>op \<in> set ops. op_cfg_ok op \<and> (\<forall>l \<in> op_lanes op. l < length (lanes st)) \<Longrightarrow>
   keeps st (store_run st ops)"
proof (induction ops arbitrary: st)
  case (Cons op ops)
  obtain st1 where 1: "store_exec st op = Some st1" "store_wf st1" "length (lanes st1) = length (lanes st)"
    using store_exec_keeps [of st op] Cons.prems by (auto simp: keeps_def)
  then show ?case using Cons.IH [of st1] Cons.prems by (simp add: keeps_def)
qed (simp add: keeps_def)

definition lane_data_ok :: "LaneData \<Rightarrow> bool" where
  "lane_data_ok ld \<longleftrightarrow> ld_cooldown_until ld \<le> u64_max \<and> ld_streak ld \<le> u32_max \<and> ld_err ld \<le> u64_max"

lemma new_with_limits_wf:
  "\<forall>ld \<in> set lds. lane_data_ok ld \<Longrightarrow> store_wf (new_with_limits lds s m)"
  using BreakerCell_new_wf
  by (auto simp: new_with_limits_def store_wf_def cells_wf_def LaneState_new_def lane_data_ok_def
      cell_wf_def BreakerCell_new_def)

subsection \<open>Views under lane updates\<close>

text \<open>The breaker part of a cell: everything but the diagnostic error counter.\<close>

definition breaker_view :: "InMemoryStore \<Rightarrow> string \<Rightarrow> nat \<Rightarrow> BreakerCell option" where
  "breaker_view st p l = map_option (\<lambda>c. c\<lparr>err := 0\<rparr>) (view st p l)"

lemma inherited_err: "c\<lparr>err := 0\<rparr> = d\<lparr>err := 0\<rparr> \<Longrightarrow> inherited_cell c = inherited_cell d"
  by (cases c; cases d) (simp add: inherited_cell_def)

lemma breaker_view_set_lane:
  assumes "lane < length (lanes st)" "(def_cell ls)\<lparr>err := 0\<rparr> = (def_cell (lanes st ! lane))\<lparr>err := 0\<rparr>"
  shows "breaker_view (set_lane st lane ls) p l = breaker_view st p l"
  using assms inherited_err [OF assms(2)]
  by (auto simp: breaker_view_def view_def set_lane_def nth_list_update split: option.split)

lemma breaker_view_cong: "(\<And>p l. view st' p l = view st p l) \<Longrightarrow> breaker_view st' p l = breaker_view st p l"
  by (simp add: breaker_view_def)

lemma breaker_view_put_other:
  "lane < length (lanes st) \<Longrightarrow> pool \<noteq> [] \<Longrightarrow> (p, l) \<noteq> (pool, lane) \<Longrightarrow>
   breaker_view (put_cell st pool lane c) p l = breaker_view st p l"
  by (auto simp: breaker_view_def put_cell_view)

text \<open>The operations that act on the cell of one (pool, lane).\<close>

fun cell_op :: "string \<Rightarrow> nat \<Rightarrow> store_op \<Rightarrow> bool" where
  "cell_op p l (Usable q k now) = (q = p \<and> k = l)"
| "cell_op p l (Ready q k now) = (q = p \<and> k = l)"
| "cell_op p l (CooldownRemaining q k now) = (q = p \<and> k = l)"
| "cell_op p l (RecordFailure q k now cfg ra sd) = (q = p \<and> k = l)"
| "cell_op p l (RecordSuccess q k now) = (q = p \<and> k = l)"
| "cell_op p l (RecordHardDown q k reason now) = (q = p \<and> k = l)"
| "cell_op p l (ReleaseProbeIn q k) = (q = p \<and> k = l)"
| "cell_op p l (ReleaseOwnedIn q k e) = (q = p \<and> k = l)"
| "cell_op p l (ProbeEpoch q k) = (q = p \<and> k = l)"
| "cell_op p l _ = False"

text \<open>Every such operation writes that cell, and otherwise at most counters of the lane.\<close>

definition writes_one :: "InMemoryStore \<Rightarrow> string \<Rightarrow> nat \<Rightarrow> InMemoryStore \<Rightarrow> bool" where
  "writes_one st pool lane st' \<longleftrightarrow>
     (\<forall>p l. (p, l) \<noteq> (pool, lane) \<longrightarrow> breaker_view st' p l = breaker_view st p l)"

lemma writes_one_put:
  assumes "\<And>p l. view st1 p l = view st p l" "lane < length (lanes st1)" "pool \<noteq> []"
  shows "writes_one st pool lane (put_cell st1 pool lane c)"
  using breaker_view_put_other [OF assms(2,3)] breaker_view_cong [OF assms(1)] by (simp add: writes_one_def)

lemma writes_one_read: "(\<And>p l. view st1 p l = view st p l) \<Longrightarrow> writes_one st pool lane st1"
  unfolding writes_one_def by (intro allI impI breaker_view_cong)

lemma writes_one_refl: "writes_one st pool lane st"
  by (simp add: writes_one_def)

lemma writes_one_set_lane:
  assumes "writes_one st pool lane st1" "lane < length (lanes st1)"
    "(def_cell ls)\<lparr>err := 0\<rparr> = (def_cell (lanes st1 ! lane))\<lparr>err := 0\<rparr>"
  shows "writes_one st pool lane (set_lane st1 lane ls)"
  using assms(1) breaker_view_set_lane [OF assms(2,3)] by (simp add: writes_one_def)

lemma swrr_shard_view [simp]: "view (fst (swrr_shard st pool)) p l = view st p l"
  by (rule swrr_shard_frame)

lemma record_failure_isolated:
  assumes "store_wf st" "lane < length (lanes st)" "cfg_ok cfg" "pool \<noteq> []"
    "record_failure_for st pool lane now cfg ra sd = Some (st', r)"
  shows "writes_one st pool lane st'"
proof (cases "dead (lanes st ! lane)")
  case True
  then show ?thesis using assms by (simp add: record_failure_for_def get_lane_range writes_one_read)
next
  case False
  obtain st1 c c' r' ls' where e0: "cell_in st pool lane = Some (st1, c)" "lanes st1 = lanes st"
    "record_failure_for st pool lane now cfg ra sd = Some (set_lane (put_cell st1 pool lane c') lane ls', r')"
    "ls' = (lanes st ! lane)\<lparr>def_cell := (if pool = [] then c'
         else (def_cell (lanes st ! lane))\<lparr>err := wrap_u64 (err (def_cell (lanes st ! lane)) + 1)\<rparr>),
       trips := (if r' then wrap_u64 (trips (lanes st ! lane) + 1) else trips (lanes st ! lane)),
       last_trip_at := (if r' then now else last_trip_at (lanes st ! lane))\<rparr>"
    by (rule record_failure_effect [OF assms(1-3) False])
  then have e: "cell_in st pool lane = Some (st1, c)" "lanes st1 = lanes st"
    "record_failure_for st pool lane now cfg ra sd = Some (set_lane (put_cell st1 pool lane c') lane ls', r')"
    "(def_cell ls')\<lparr>err := 0\<rparr> = (def_cell (lanes st ! lane))\<lparr>err := 0\<rparr>"
    using assms(4) by simp_all
  have w: "writes_one st pool lane (put_cell st1 pool lane c')"
    by (rule writes_one_put) (use cell_in_keeps_view [OF e(1)] e(2) assms(2,4) in auto)
  have "lanes (put_cell st1 pool lane c') ! lane = lanes st ! lane"
    using e(2) assms(2,4) by (simp add: put_cell_nth)
  then have "writes_one st pool lane (set_lane (put_cell st1 pool lane c') lane ls')"
    using e(2,4) assms(2) by (intro writes_one_set_lane [OF w]) simp_all
  then show ?thesis using e(3) assms(5) by simp
qed

lemma record_success_isolated:
  assumes "store_wf st" "lane < length (lanes st)" "pool \<noteq> []"
    "record_success_for st pool lane now = Some st'"
  shows "writes_one st pool lane st'"
proof (cases "dead (lanes st ! lane)")
  case True
  then show ?thesis
    using assms by (auto simp: record_success_for_def get_lane_range intro!: writes_one_set_lane writes_one_refl)
next
  case False
  obtain st1 c st2 where e: "cell_in st pool lane = Some (st1, c)" "lanes st1 = lanes st"
    "st2 = put_cell (if snd (cell_record_success c now) then fst (swrr_shard st1 pool) else st1) pool lane
       (sweep_cell (\<lambda>c. cell_record_success c now) c)"
    "record_success_for st pool lane now =
       Some (set_lane st2 lane ((lanes st2 ! lane)\<lparr>ok := wrap_u64 (ok (lanes st ! lane) + 1)\<rparr>))"
    using record_success_effect [OF assms(1,2) False, of pool now] by blast
  have w: "writes_one st pool lane st2"
    unfolding e(3) by (rule writes_one_put) (use cell_in_keeps_view [OF e(1)] e(2) assms(2,3) in auto)
  have "lane < length (lanes st2)" using e(2,3) assms(2) by simp
  then show ?thesis using writes_one_set_lane [OF w] e(4) assms(4) by simp
qed

lemma hard_down_isolated:
  assumes "store_wf st" "lane < length (lanes st)" "pool \<noteq> []"
    "record_hard_down_for st pool lane reason now = Some st'"
  shows "writes_one st pool lane st'"
proof -
  let ?st = "set_lane st lane ((lanes st ! lane)\<lparr>dead_reason := reason\<rparr>)"
  have wf: "store_wf ?st" by (rule store_wf_set_lane) (use assms store_wf_def_cell in simp_all)
  have l: "lane < length (lanes ?st)" using assms(2) by simp
  have v: "breaker_view ?st p l = breaker_view st p l" for p l
    by (rule breaker_view_set_lane [OF assms(2)]) simp
  obtain st1 c where 1: "cell_in ?st pool lane = Some (st1, c)" "lanes st1 = lanes ?st"
    by (rule fetchE [OF wf l])
  have "writes_one ?st pool lane (put_cell st1 pool lane (cell_hard_down c now (hard_down_cooldown_secs st)))"
    by (rule writes_one_put) (use cell_in_keeps_view [OF 1(1)] 1(2) l assms(3) in auto)
  then show ?thesis
    using assms(2,4) 1(1) v by (simp add: record_hard_down_for_def get_lane_range writes_one_def)
qed

lemma cell_op_isolated:
  assumes wf: "store_wf st" and l: "lane < length (lanes st)" and p: "pool \<noteq> []"
    and op: "cell_op pool lane op" "op_cfg_ok op" and ex: "store_exec st op = Some st'"
  shows "writes_one st pool lane st'"
proof -
  obtain st1 c where 1: "cell_in st pool lane = Some (st1, c)" "lanes st1 = lanes st"
    by (rule fetchE [OF wf l])
  note v = cell_in_keeps_view [OF 1(1)]
  have put: "writes_one st pool lane (put_cell st1 pool lane c')" for c'
    by (rule writes_one_put) (use v 1 l p in auto)
  note read = writes_one_read [OF v] writes_one_refl
  obtain adm where adm: "lane_admissible st lane = Some adm" using lane_admissible_Some [OF l] by blast
  show ?thesis
  proof (cases op)
    case (Usable q k now)
    then show ?thesis
      using op ex 1(1) adm put read by (auto simp: usable_for_def case_prod_unfold Let_def split: if_splits)
  next
    case (Ready q k now)
    then show ?thesis
      using op ex 1(1) adm read by (auto simp: ready_for_def split: if_splits)
  next
    case (CooldownRemaining q k now)
    then show ?thesis using op ex 1(1) read by (auto simp: cooldown_remaining_for_def)
  next
    case (RecordFailure q k now cfg ra sd)
    then show ?thesis using op ex by (auto intro: record_failure_isolated [OF wf l _ p])
  next
    case (RecordSuccess q k now)
    then show ?thesis using op ex record_success_isolated [OF wf l p] by auto
  next
    case (RecordHardDown q k reason now)
    then show ?thesis using op ex hard_down_isolated [OF wf l p] by auto
  next
    case (ReleaseProbeIn q k)
    then show ?thesis using op ex 1(1) put by (auto simp: release_probe_in_def)
  next
    case (ReleaseOwnedIn q k e)
    then show ?thesis using op ex 1(1) put by (auto simp: release_probe_owned_in_def)
  next
    case (ProbeEpoch q k)
    then show ?thesis using op ex 1(1) read by (auto simp: probe_epoch_in_def)
  qed (use op in auto)
qed

section \<open>Properties of the store\<close>

text \<open>
  Claim C29. The store never panics on the request path: starting from the constructor on lane data
  within their widths, every sequence of store operations on existing lanes whose breaker
  configurations are valid returns, and the invariant holds after it (one cell per pool name, every
  cell well formed, the shard memo exact).
\<close>
theorem store_never_panics:
  assumes "\<forall>ld \<in> set lds. lane_data_ok ld"
    and "\<forall>op \<in> set ops. op_cfg_ok op \<and> (\<forall>l \<in> op_lanes op. l < length lds)"
  shows "\<exists>st'. store_run (new_with_limits lds hd_secs max_ra) ops = Some st' \<and> store_wf st'
    \<and> length (lanes st') = length lds"
  using store_run_keeps [OF new_with_limits_wf [OF assms(1)], of ops hd_secs max_ra] assms(2)
  by (auto simp: keeps_def new_with_limits_def)

theorem store_never_panics_witness:
  "\<exists>st'. store_run (new_with_limits [example_lane ''a'', example_lane ''b''] 1800 86400)
      [Select ''p'' [0, 1] [3, 1] 5, Usable ''p'' 0 5, RecordFailure ''p'' 0 6 BreakerCfg_default (Some 9) (1, 2),
       HardDownAll 0 ''auth'' 7, RecoverLane 0 8, Spend 1] = Some st' \<and> store_wf st'"
  using store_never_panics [of "[example_lane ''a'', example_lane ''b'']"
      "[Select ''p'' [0, 1] [3, 1] 5, Usable ''p'' 0 5, RecordFailure ''p'' 0 6 BreakerCfg_default (Some 9) (1, 2),
       HardDownAll 0 ''auth'' 7, RecoverLane 0 8, Spend 1]" 1800 86400] BreakerCfg_default_ok
  by (auto simp: lane_data_ok_def example_lane_def simp del: store_run.simps)

text \<open>
  Pools are isolated: an operation on the cell of a named pool and lane (admission, failure,
  success, hard-down, probe release) leaves the breaker of every other (pool, lane) exactly as it
  was, also of the lane's default cell and of cells not created yet.
\<close>
theorem pools_are_isolated:
  assumes "store_wf st" and "lane < length (lanes st)" and "pool \<noteq> []" and "cell_op pool lane op"
    and "op_cfg_ok op" and "store_exec st op = Some st'" and "(p, l) \<noteq> (pool, lane)"
  shows "breaker_view st' p l = breaker_view st p l"
  using cell_op_isolated [OF assms(1-6)] assms(7) unfolding writes_one_def by blast

theorem pools_are_isolated_witness:
  "\<exists>st'. store_exec example_store (RecordFailure ''p'' 0 6 BreakerCfg_default None (1, 2)) = Some st'
     \<and> breaker_view st' ''q'' 0 = breaker_view example_store ''q'' 0"
proof -
  let ?op = "RecordFailure ''p'' 0 6 BreakerCfg_default None (1, 2)"
  obtain st' where ex: "store_exec example_store ?op = Some st'"
    using store_exec_keeps [OF example_store_wf, of ?op] BreakerCfg_default_ok
    by (auto simp: keeps_def example_length simp del: store_exec.simps)
  then show ?thesis
    using pools_are_isolated [OF example_store_wf _ _ _ _ ex, of 0 "''p''" "''q''" 0] BreakerCfg_default_ok
    by (simp add: example_length del: store_exec.simps)
qed

text \<open>
  The lane counters are exact. A failure on a live lane raises the public error counter by
  one whether it was recorded on a named pool or on the default cell, and raises the trip counter
  and its time stamp exactly when the cell tripped; a success raises the success counter by one and
  not the error counter; a dead lane ignores failures and still counts successes.
\<close>
theorem lane_counters_exact:
  assumes "store_wf st" and "lane < length (lanes st)" and "cfg_ok cfg"
  shows "\<exists>st' r. record_failure_for st pool lane now cfg ra sd = Some (st', r) \<and>
      (let ls = lanes st ! lane; ls' = lanes st' ! lane in
        if dead ls then st' = st \<and> \<not> r
        else err (def_cell ls') = wrap_u64 (err (def_cell ls) + 1) \<and> ok ls' = ok ls
          \<and> trips ls' = (if r then wrap_u64 (trips ls + 1) else trips ls)
          \<and> last_trip_at ls' = (if r then now else last_trip_at ls))
    \<and> (\<exists>st'. record_success_for st pool lane now = Some st' \<and>
          ok (lanes st' ! lane) = wrap_u64 (ok (lanes st ! lane) + 1)
          \<and> err (def_cell (lanes st' ! lane)) = err (def_cell (lanes st ! lane)))"
proof (cases "dead (lanes st ! lane)")
  case True
  then show ?thesis
    using assms(2) by (auto simp: record_failure_for_def record_success_for_def get_lane_range set_lane_def)
next
  case False
  have fail_err: "err c' = wrap_u64 (err c + 1)"
    if "cell_record_failure c now cfg ra mh sd = Some (c', r)" for c c' r mh
    using that by (auto simp: cell_record_failure_def cell_open_locked_def Let_def split: if_splits bind_splits)
  obtain st1 c c' r ls' where e: "cell_in st pool lane = Some (st1, c)" "lanes st1 = lanes st"
    "view st pool lane = Some c" "cell_record_failure c now cfg ra (max_honored_retry_after_secs st) sd = Some (c', r)"
    "record_failure_for st pool lane now cfg ra sd = Some (set_lane (put_cell st1 pool lane c') lane ls', r)"
    "ls' = (lanes st ! lane)\<lparr>def_cell := (if pool = [] then c'
         else (def_cell (lanes st ! lane))\<lparr>err := wrap_u64 (err (def_cell (lanes st ! lane)) + 1)\<rparr>),
       trips := (if r then wrap_u64 (trips (lanes st ! lane) + 1) else trips (lanes st ! lane)),
       last_trip_at := (if r then now else last_trip_at (lanes st ! lane))\<rparr>"
    by (rule record_failure_effect [OF assms False])
  have "pool = [] \<Longrightarrow> c = def_cell (lanes st ! lane)" using e(3) by (auto simp: view_def split: if_splits)
  then have ls': "err (def_cell ls') = wrap_u64 (err (def_cell (lanes st ! lane)) + 1)" "ok ls' = ok (lanes st ! lane)"
    "trips ls' = (if r then wrap_u64 (trips (lanes st ! lane) + 1) else trips (lanes st ! lane))"
    "last_trip_at ls' = (if r then now else last_trip_at (lanes st ! lane))"
    using fail_err [OF e(4)] by (simp_all add: e(6))
  have nth: "lanes (set_lane (put_cell st1 pool lane c') lane ls') ! lane = ls'"
    using assms(2) e(2) by (simp add: set_lane_def)
  have succ_err: "err (sweep_cell (\<lambda>c. cell_record_success c now) c) = err c" for c
    by (simp add: sweep_cell_def cell_record_success_def cell_closed_locked_def reset_swrr_def Let_def)
  obtain st1' d st2 where g: "lanes st1' = lanes st" "view st pool lane = Some d"
    "st2 = put_cell (if snd (cell_record_success d now) then fst (swrr_shard st1' pool) else st1') pool lane
       (sweep_cell (\<lambda>c. cell_record_success c now) d)"
    "record_success_for st pool lane now =
       Some (set_lane st2 lane ((lanes st2 ! lane)\<lparr>ok := wrap_u64 (ok (lanes st ! lane) + 1)\<rparr>))"
    "length (lanes st2) = length (lanes st)"
    by (rule record_success_effect [OF assms(1,2) False])
  have d: "pool = [] \<Longrightarrow> d = def_cell (lanes st ! lane)" using g(2) by (auto simp: view_def split: if_splits)
  have "err (def_cell (lanes st2 ! lane)) = err (def_cell (lanes st ! lane))"
    unfolding g(3) using assms(2) g(1) d succ_err by (auto simp: put_cell_nth)
  then have "\<exists>st'. record_success_for st pool lane now = Some st' \<and>
      ok (lanes st' ! lane) = wrap_u64 (ok (lanes st ! lane) + 1)
      \<and> err (def_cell (lanes st' ! lane)) = err (def_cell (lanes st ! lane))"
    using g(4,5) assms(2) by (simp add: set_lane_def)
  then show ?thesis using e(5) nth ls' False by (simp add: Let_def)
qed

theorem lane_counters_exact_witness:
  "\<exists>st' r. record_failure_for example_store ''p'' 1 6 BreakerCfg_default None (1, 2) = Some (st', r)
     \<and> err (def_cell (lanes st' ! 1)) = 1"
  using lane_counters_exact [OF example_store_wf, of 1 BreakerCfg_default "''p''" 6 None "(1, 2)"] BreakerCfg_default_ok
  by (auto simp: example_length example_nth Let_def)
    (auto simp: LaneState_new_def example_lane_def BreakerCell_new_def wrap_u64_def split: if_splits)

subsection \<open>Lifetime budget\<close>

datatype budget_op = SpendOne | RefundOne

text \<open>A sequence of spends and refunds on one lane, with the number of spends granted.\<close>

fun budget_run :: "InMemoryStore \<Rightarrow> nat \<Rightarrow> budget_op list \<Rightarrow> (InMemoryStore \<times> nat) option" where
  "budget_run st lane [] = Some (st, 0)"
| "budget_run st lane (SpendOne # ops) =
     do {
       (st1, granted) \<leftarrow> spend_budget st lane;
       (st2, n) \<leftarrow> budget_run st1 lane ops;
       Some (st2, (if granted then 1 else 0) + n)
     }"
| "budget_run st lane (RefundOne # ops) =
     do { st1 \<leftarrow> refund_budget st lane; budget_run st1 lane ops }"

lemma budget_run_exact:
  "lane < length (lanes st) \<Longrightarrow> limited (lanes st ! lane) \<Longrightarrow> 0 \<le> budget (lanes st ! lane) \<Longrightarrow>
   budget (lanes st ! lane) + int (count_list ops RefundOne) \<le> i64_max \<Longrightarrow>
   \<exists>st' n. budget_run st lane ops = Some (st', n) \<and> 0 \<le> budget (lanes st' ! lane) \<and>
     budget (lanes st' ! lane) = budget (lanes st ! lane) + int (count_list ops RefundOne) - int n"
proof (induction st lane ops rule: budget_run.induct)
  case (2 st lane ops)
  show ?case
  proof (cases "budget (lanes st ! lane) \<le> 0")
    case True
    then have s: "spend_budget st lane = Some (st, False)" using 2 by (simp add: spend_budget_def get_lane_range)
    have "\<exists>st' n. budget_run st lane ops = Some (st', n) \<and> 0 \<le> budget (lanes st' ! lane) \<and>
        budget (lanes st' ! lane) = budget (lanes st ! lane) + int (count_list ops RefundOne) - int n"
      by (rule "2.IH" [OF s refl]) (use 2 in simp_all)
    then show ?thesis using s by auto
  next
    case False
    let ?st1 = "set_lane st lane ((lanes st ! lane)\<lparr>budget := budget (lanes st ! lane) - 1\<rparr>)"
    have s: "spend_budget st lane = Some (?st1, True)" using 2 False by (simp add: spend_budget_def get_lane_range)
    have n: "lanes ?st1 ! lane = (lanes st ! lane)\<lparr>budget := budget (lanes st ! lane) - 1\<rparr>"
      using 2 by (simp add: set_lane_def)
    have "\<exists>st' n. budget_run ?st1 lane ops = Some (st', n) \<and> 0 \<le> budget (lanes st' ! lane) \<and>
        budget (lanes st' ! lane) = budget (lanes ?st1 ! lane) + int (count_list ops RefundOne) - int n"
      by (rule "2.IH" [OF s refl]) (use 2 False n in simp_all)
    then show ?thesis using s n by auto
  qed
next
  case (3 st lane ops)
  let ?st1 = "set_lane st lane ((lanes st ! lane)\<lparr>budget := budget (lanes st ! lane) + 1\<rparr>)"
  have "wrap_i64 (budget (lanes st ! lane) + 1) = budget (lanes st ! lane) + 1"
    using 3 by (intro wrap_i64_id) (simp_all add: i64_min_def)
  then have s: "refund_budget st lane = Some ?st1" using 3 by (simp add: refund_budget_def get_lane_range)
  have n: "lanes ?st1 ! lane = (lanes st ! lane)\<lparr>budget := budget (lanes st ! lane) + 1\<rparr>"
    using 3 by (simp add: set_lane_def)
  have "\<exists>st' n. budget_run ?st1 lane ops = Some (st', n) \<and> 0 \<le> budget (lanes st' ! lane) \<and>
      budget (lanes st' ! lane) = budget (lanes ?st1 ! lane) + int (count_list ops RefundOne) - int n"
    by (rule "3.IH" [OF s]) (use 3 n in simp_all)
  then show ?case using s n by auto
qed simp

text \<open>
  The lifetime request budget of a limited lane is a hard ceiling: in every sequence of
  spends and refunds the budget is never negative, it is exactly what was there plus the refunds
  minus the granted spends, so the granted spends never exceed the budget plus the refunds; a lane
  whose budget is used up is not admissible.
\<close>
theorem budget_is_hard_ceiling:
  assumes "lane < length (lanes st)" and "limited (lanes st ! lane)" and "0 \<le> budget (lanes st ! lane)"
    and "budget (lanes st ! lane) + int (count_list ops RefundOne) \<le> i64_max"
  shows "\<exists>st' n. budget_run st lane ops = Some (st', n) \<and> 0 \<le> budget (lanes st' ! lane)
    \<and> budget (lanes st' ! lane) = budget (lanes st ! lane) + int (count_list ops RefundOne) - int n
    \<and> int n \<le> budget (lanes st ! lane) + int (count_list ops RefundOne)
    \<and> (budget (lanes st ! lane) = 0 \<longrightarrow> lane_admissible st lane = Some False)"
  using budget_run_exact [OF assms] assms(1,2) by (force simp: lane_admissible_def get_lane_range)

theorem budget_is_hard_ceiling_witness:
  "\<exists>st' n. budget_run (new_with_limits [(example_lane ''a'')\<lparr>ld_limited := True, ld_budget := 1\<rparr>] 1800 86400) 0
      [SpendOne, SpendOne, RefundOne, SpendOne] = Some (st', n) \<and> int n \<le> 2"
  using budget_is_hard_ceiling [of 0 "new_with_limits [(example_lane ''a'')\<lparr>ld_limited := True, ld_budget := 1\<rparr>] 1800 86400"
      "[SpendOne, SpendOne, RefundOne, SpendOne]"]
  by (auto simp: new_with_limits_def LaneState_new_def i64_max_def simp del: budget_run.simps)

subsection \<open>Operations on every cell\<close>

lemma view_hard_down_all:
  assumes "lane < length (lanes st)"
    and "lanes st' = (lanes st)[lane := ls']" "def_cell ls' = f (def_cell (lanes st ! lane))"
    and "pool_cells st' = (pool_cells st)(lane := map (\<lambda>(p, c). (p, f c)) (pool_cells st lane))"
    and "f = (\<lambda>c. cell_hard_down c now s)"
  shows "\<exists>c. view st' p lane = Some c \<and> breaker_state c = ST_OPEN \<and> cooldown_until c = sat_add_u64 now s
    \<and> \<not> probe_in_flight c"
  using assms
  by (auto simp: view_def al_get_map cell_hard_down_def inherited_cell_def BreakerCell_new_def split: option.split)

lemma recovered_not_suppressed: "\<not> suppressed (sweep_cell (\<lambda>c. cell_recover c now) c) now"
  by (simp add: sweep_cell_def cell_recover_def cell_closed_if_recoverable_def cell_closed_locked_def
      reset_swrr_def suppressed_def)

text \<open>
  Lane-wide operations reach every cell. After a hard-down every cell of the lane, the
  default cell, the existing pool cells and any cell a pool creates later, is Open until the sticky
  deadline with no probe in flight; after a recovery no cell of the lane needs a probe.
\<close>
theorem lane_wide_operations_reach_every_cell:
  assumes "store_wf st" and "lane < length (lanes st)"
  shows "(\<exists>st' r. record_hard_down_all_cells st lane reason now = Some (st', r) \<and> store_wf st' \<and>
           (\<forall>p. \<exists>c. view st' p lane = Some c \<and>
              cell_breaker_state c = Open (sat_add_u64 now (hard_down_cooldown_secs st)) \<and> \<not> probe_in_flight c))
    \<and> (\<exists>st'. recover_lane st lane now = Some st' \<and> store_wf st' \<and> lane_needs_probe st' lane now = Some False)"
proof
  obtain st' where h: "record_hard_down_all_cells st lane reason now
      = Some (st', breaker_state (def_cell (lanes st ! lane)) = ST_CLOSED)"
    "lanes st' = (lanes st)[lane := (lanes st ! lane)\<lparr>dead_reason := reason,
        def_cell := (\<lambda>c. cell_hard_down c now (hard_down_cooldown_secs st)) (def_cell (lanes st ! lane))\<rparr>]"
    "pool_cells st' = (pool_cells st)(lane := map (\<lambda>(p, c). (p, (\<lambda>c. cell_hard_down c now (hard_down_cooldown_secs st)) c))
        (pool_cells st lane))" "store_wf st'"
    using hard_down_all_effect [OF assms(2) refl] assms(1) by blast
  show "\<exists>st' r. record_hard_down_all_cells st lane reason now = Some (st', r) \<and> store_wf st' \<and>
      (\<forall>p. \<exists>c. view st' p lane = Some c \<and>
         cell_breaker_state c = Open (sat_add_u64 now (hard_down_cooldown_secs st)) \<and> \<not> probe_in_flight c)"
    using view_hard_down_all [OF assms(2) h(2) _ h(3) refl] h(1,4) by fastforce
  obtain st2 where r: "sweep_cells st lane (\<lambda>c. cell_recover c now) = Some st2" "store_wf st2"
    "lanes st2 = (lanes st)[lane := (lanes st ! lane)\<lparr>def_cell := sweep_cell (\<lambda>c. cell_recover c now) (def_cell (lanes st ! lane))\<rparr>]"
    "pool_cells st2 = (pool_cells st)(lane := map (\<lambda>(p, c). (p, sweep_cell (\<lambda>c. cell_recover c now) c)) (pool_cells st lane))"
    using sweep_cells_effect [OF assms, of "\<lambda>c. cell_recover c now", OF cell_recover_wf] by blast
  have "lane_needs_probe st2 lane now = Some False"
    using r(3,4) assms(2) recovered_not_suppressed by (auto simp: lane_needs_probe_def get_lane_def)
  then show "\<exists>st'. recover_lane st lane now = Some st' \<and> store_wf st' \<and> lane_needs_probe st' lane now = Some False"
    using r(1,2) by (simp add: recover_lane_def)
qed

theorem lane_wide_operations_reach_every_cell_witness:
  "\<exists>st' r. record_hard_down_all_cells example_store 0 ''auth'' 7 = Some (st', r) \<and> store_wf st'"
  using lane_wide_operations_reach_every_cell [OF example_store_wf, of 0 "''auth''" 7]
  by (auto simp: example_length)

end
