(* ===== verification/StoreRestore.thy ===== *)
theory StoreRestore
  imports StoreOps
begin

text \<open>
  Health export and restore: learned reliability survives a configuration change or a restart, by
  lane identity and not by position.
\<close>

lemma restore_lane_id: "matches (restore_lane ls s) = matches ls"
  by (simp add: matches_def restore_lane_def fun_eq_iff)

definition restored_lane :: "LaneHealthSnapshot list \<Rightarrow> LaneState \<Rightarrow> LaneState" where
  "restored_lane snaps ls = (case find (matches ls) snaps of None \<Rightarrow> ls | Some s \<Rightarrow> restore_lane ls s)"

definition restored_cells ::
  "LaneHealthSnapshot list \<Rightarrow> LaneState \<Rightarrow> (string \<times> BreakerCell) list \<Rightarrow> (string \<times> BreakerCell) list" where
  "restored_cells snaps ls cells =
     (case find (matches ls) snaps of None \<Rightarrow> cells | Some s \<Rightarrow> restore_cells cells (h_cells s))"

lemma restore_fold:
  "n \<le> length (lanes st) \<Longrightarrow>
   length (lanes (foldl (restore_one snaps) st [0..<n])) = length (lanes st) \<and>
   (\<forall>i < length (lanes st). lanes (foldl (restore_one snaps) st [0..<n]) ! i =
      (if i < n then restored_lane snaps (lanes st ! i) else lanes st ! i)) \<and>
   (\<forall>i. pool_cells (foldl (restore_one snaps) st [0..<n]) i =
      (if i < n then restored_cells snaps (lanes st ! i) (pool_cells st i) else pool_cells st i))"
proof (induction n)
  case (Suc n)
  let ?s = "foldl (restore_one snaps) st [0..<n]"
  have IH: "length (lanes ?s) = length (lanes st)" "lanes ?s ! n = lanes st ! n" "pool_cells ?s n = pool_cells st n"
    "\<forall>i < length (lanes st). lanes ?s ! i = (if i < n then restored_lane snaps (lanes st ! i) else lanes st ! i)"
    "\<forall>i. pool_cells ?s i = (if i < n then restored_cells snaps (lanes st ! i) (pool_cells st i) else pool_cells st i)"
    using Suc by simp_all
  have n: "n < length (lanes st)" using Suc.prems by simp
  have "foldl (restore_one snaps) st [0..<Suc n] = restore_one snaps ?s n" by simp
  moreover have "lanes (restore_one snaps ?s n) = (lanes ?s)[n := restored_lane snaps (lanes st ! n)]"
    using IH(1,2) n by (auto simp: restore_one_def restored_lane_def Let_def set_lane_def split: option.split
        intro: list_update_id [symmetric]) (metis IH(2) list_update_id)
  moreover have "pool_cells (restore_one snaps ?s n) = (pool_cells ?s)(n := restored_cells snaps (lanes st ! n) (pool_cells st n))"
    using IH(2,3) by (auto simp: restore_one_def restored_cells_def Let_def set_lane_def fun_eq_iff split: option.split)
  ultimately show ?case
    using IH n by (auto simp: nth_list_update less_Suc_eq)
qed simp

lemma restore_lanes:
  assumes "i < length (lanes st)"
  shows "lanes (restore_health_impl st snaps) ! i = restored_lane snaps (lanes st ! i)"
    and "pool_cells (restore_health_impl st snaps) i = restored_cells snaps (lanes st ! i) (pool_cells st i)"
    and "length (lanes (restore_health_impl st snaps)) = length (lanes st)"
  using restore_fold [of "length (lanes st)" st snaps] assms by (auto simp: restore_health_impl_def)

lemma find_unique: "x \<in> set xs \<Longrightarrow> P x \<Longrightarrow> \<forall>y \<in> set xs. P y \<longrightarrow> y = x \<Longrightarrow> find P xs = Some x"
proof (induction xs)
  case (Cons a xs)
  show ?case
  proof (cases "P a")
    case True
    then have "a = x" using Cons.prems(3) by (meson list.set_intros(1))
    with True show ?thesis by simp
  next
    case False
    then have "x \<in> set xs" using Cons.prems(1,2) by auto
    then have "find P xs = Some x"
      using Cons.prems(2,3) by (intro Cons.IH) (meson list.set_intros(2))+
    with False show ?thesis by simp
  qed
qed simp

definition ident :: "LaneState \<Rightarrow> string \<times> string" where
  "ident ls = (ls_model ls, ls_provider ls)"

lemma find_export:
  assumes "distinct (map ident (lanes st))" "j < length (lanes st)" "ident ls = ident (lanes st ! j)"
  shows "find (matches ls) (export_health st) = Some (export_lane (lanes st ! j) (pool_cells st j))"
proof (rule find_unique)
  show "export_lane (lanes st ! j) (pool_cells st j) \<in> set (export_health st)"
    using assms(2) by (auto simp: export_health_def)
  show "matches ls (export_lane (lanes st ! j) (pool_cells st j))"
    using assms(3) by (simp add: matches_def export_lane_def ident_def Let_def)
  show "\<forall>y \<in> set (export_health st). matches ls y \<longrightarrow> y = export_lane (lanes st ! j) (pool_cells st j)"
  proof (intro ballI impI)
    fix y assume "y \<in> set (export_health st)" "matches ls y"
    then obtain k where k: "k < length (lanes st)" "y = export_lane (lanes st ! k) (pool_cells st k)"
      "ident (lanes st ! k) = ident ls"
      by (auto simp: export_health_def matches_def export_lane_def ident_def Let_def)
    then have "k = j"
      using assms nth_eq_iff_index_eq [OF assms(1), of k j] by simp
    then show "y = export_lane (lanes st ! j) (pool_cells st j)" using k by simp
  qed
qed

definition revived :: "string \<Rightarrow> BreakerCell \<Rightarrow> BreakerCell" where
  "revived p c = restore_cell BreakerCell_new (export_cell (p, c))"

lemma restore_cells_fresh:
  "distinct (map fst cells) \<Longrightarrow> fst ` set acc \<inter> fst ` set cells = {} \<Longrightarrow>
   restore_cells acc (map export_cell cells) = acc @ map (\<lambda>(p, c). (p, revived p c)) cells"
proof (induction cells arbitrary: acc)
  case (Cons x cells)
  obtain p c where x: "x = (p, c)" by (cases x)
  have "al_get acc p = None" using Cons.prems(2) by (auto simp: al_get_None x)
  moreover have "pc_pool (export_cell (p, c)) = p" by (simp add: export_cell_def)
  ultimately have "restore_cells acc (map export_cell (x # cells))
      = restore_cells (acc @ [(p, revived p c)]) (map export_cell cells)"
    by (simp add: x revived_def)
  also have "\<dots> = (acc @ [(p, revived p c)]) @ map (\<lambda>(p, c). (p, revived p c)) cells"
    by (rule Cons.IH) (use Cons.prems in \<open>auto simp: x\<close>)
  finally show ?case by (simp add: x)
qed simp

text \<open>What a restored cell keeps of the cell that was exported.\<close>

definition carried :: "BreakerCell \<Rightarrow> BreakerCell \<Rightarrow> bool" where
  "carried c c' \<longleftrightarrow> breaker_state c' = restored_breaker_state (breaker_state c)
     \<and> cooldown_until c' = cooldown_until c \<and> streak c' = streak c \<and> err c' = err c
     \<and> \<not> probe_in_flight c' \<and> breaker_state c' \<noteq> ST_HALF_OPEN"

lemma carried_revived: "carried c (revived p c)"
  by (simp add: carried_def revived_def restore_cell_def export_cell_def restored_breaker_state_def
      BreakerCell_new_def)

lemma restored_view:
  assumes wf: "store_wf st" and d: "distinct (map ident (lanes st))"
    and i: "i < length lds" and j: "j < length (lanes st)"
    and id: "(ld_model (lds ! i), ld_provider (lds ! i)) = ident (lanes st ! j)"
    and p: "p = [] \<or> p \<in> fst ` set (pool_cells st j)"
  shows "\<exists>c c'. view st p j = Some c
    \<and> view (new_with_limits_restored lds hs ra (export_health st)) p i = Some c' \<and> carried c c'"
proof -
  define st0 where "st0 = new_with_limits lds hs ra"
  define st' where "st' = restore_health_impl st0 (export_health st)"
  have l0: "lanes st0 ! i = LaneState_new (lds ! i)" "pool_cells st0 i = []" "i < length (lanes st0)"
    using i by (simp_all add: st0_def new_with_limits_def)
  have f: "find (matches (lanes st0 ! i)) (export_health st) = Some (export_lane (lanes st ! j) (pool_cells st j))"
    by (rule find_export [OF d j]) (use id l0 in \<open>simp add: ident_def LaneState_new_def\<close>)
  note r = restore_lanes [OF l0(3), of "export_health st", folded st'_def]
  have names: "distinct (map fst (pool_cells st j))" "[] \<notin> fst ` set (pool_cells st j)"
    using store_wf_get [OF wf, of j] by (simp_all add: cells_wf_def)
  have cells: "pool_cells st' i = map (\<lambda>(p, c). (p, revived p c)) (pool_cells st j)"
    using restore_cells_fresh [OF names(1), of "[]"] f l0(2)
    by (simp add: r(2) restored_cells_def export_lane_def Let_def)
  show ?thesis
  proof (cases "p = []")
    case True
    have "carried (def_cell (lanes st ! j)) (def_cell (lanes st' ! i))"
      using f l0(1) by (simp add: r(1) restored_lane_def restore_lane_def export_lane_def Let_def carried_def
          restored_breaker_state_def LaneState_new_def BreakerCell_new_def)
    then show ?thesis
      using True j r(3) l0(3) by (auto simp: view_def new_with_limits_restored_def st'_def st0_def)
  next
    case False
    then obtain c where c: "al_get (pool_cells st j) p = Some c"
      using p al_get_None [of "pool_cells st j" p] by fastforce
    then have "al_get (pool_cells st' i) p = Some (revived p c)" by (simp add: cells al_get_map)
    then show ?thesis
      using False c j r(3) l0(3) carried_revived
      by (auto simp: view_def new_with_limits_restored_def st'_def st0_def)
  qed
qed

section \<open>Properties of restore\<close>

text \<open>
  Claim C30. Learned health survives a restart or a configuration change. Restoring an export into a
  store built from any new lane list gives every lane with the same model and provider, wherever it
  now stands, its latch, counters and latency, and each of its cells (the default one and every pool
  cell) its breaker state, deadline, streak and error count, with a half-open cell reopened so that
  no restored cell waits for a probe nobody owns; the remaining budget is carried over, capped by
  the new limit.
\<close>
theorem health_survives_restore:
  assumes "store_wf st" and "distinct (map ident (lanes st))" and "i < length lds" and "j < length (lanes st)"
    and "(ld_model (lds ! i), ld_provider (lds ! i)) = ident (lanes st ! j)"
  shows "let st' = new_with_limits_restored lds hs ra (export_health st); ls = lanes st ! j; ls' = lanes st' ! i in
      dead ls' = dead ls \<and> dead_reason ls' = dead_reason ls \<and> ok ls' = ok ls
      \<and> client_fault ls' = client_fault ls \<and> latency_ewma ls' = latency_ewma ls
      \<and> trips ls' = trips ls \<and> last_trip_at ls' = last_trip_at ls
      \<and> budget ls' = (if ld_limited (lds ! i) \<and> limited ls \<and> 0 \<le> budget ls
                      then min (budget ls) (ld_budget (lds ! i)) else ld_budget (lds ! i))
      \<and> (\<forall>p. p = [] \<or> p \<in> fst ` set (pool_cells st j) \<longrightarrow>
           (\<exists>c c'. view st p j = Some c \<and> view st' p i = Some c' \<and> carried c c'))"
proof -
  define st0 where "st0 = new_with_limits lds hs ra"
  have l0: "lanes st0 ! i = LaneState_new (lds ! i)" "i < length (lanes st0)"
    using assms(3) by (simp_all add: st0_def new_with_limits_def)
  have f: "find (matches (lanes st0 ! i)) (export_health st) = Some (export_lane (lanes st ! j) (pool_cells st j))"
    by (rule find_export [OF assms(2,4)]) (use assms(5) l0 in \<open>simp add: ident_def LaneState_new_def\<close>)
  have "lanes (new_with_limits_restored lds hs ra (export_health st)) ! i
      = restore_lane (LaneState_new (lds ! i)) (export_lane (lanes st ! j) (pool_cells st j))"
    using restore_lanes(1) [OF l0(2), of "export_health st"] f l0(1)
    by (simp add: new_with_limits_restored_def restored_lane_def flip: st0_def)
  then show ?thesis
    using restored_view [OF assms, of _ hs ra] unfolding Let_def
    by (auto simp: restore_lane_def export_lane_def LaneState_new_def Let_def)
qed

theorem health_survives_restore_witness:
  "\<exists>c'. view (new_with_limits_restored [example_lane ''b'', example_lane ''a''] 1800 86400
      (export_health example_store)) [] 1 = Some c' \<and> carried BreakerCell_new c'"
proof -
  have d: "distinct (map ident (lanes example_store))"
    by (simp add: example_store_def new_with_limits_def ident_def LaneState_new_def example_lane_def)
  have id: "(ld_model ([example_lane ''b'', example_lane ''a''] ! 1),
      ld_provider ([example_lane ''b'', example_lane ''a''] ! 1)) = ident (lanes example_store ! 0)"
    by (simp add: example_nth ident_def LaneState_new_def example_lane_def)
  have "\<exists>c c'. view example_store [] 0 = Some c \<and> view (new_with_limits_restored [example_lane ''b'', example_lane ''a'']
      1800 86400 (export_health example_store)) [] 1 = Some c' \<and> carried c c'"
    using health_survives_restore [OF example_store_wf d _ _ id, of 1800 86400] unfolding Let_def
    by (simp add: example_length)
  moreover have "view example_store [] 0 = Some BreakerCell_new"
    by (simp add: view_def example_length example_nth example_def_cell)
  ultimately show ?thesis by auto
qed

end
