(* ===== verification/Calendar.thy ===== *)
theory Calendar
  imports Prelude
begin

text \<open>
  Limit windows (\<open>crates/busbar/src/governance/mod.rs\<close>): the start and the end of the minute, hour,
  day, month or all-time window that contains an instant, on the proleptic Gregorian calendar in UTC.
  The lemmas show that the month arithmetic is exact, so that the windows of a period tile time.
\<close>

definition SECS_PER_DAY :: nat where
  "SECS_PER_DAY = 86400"

definition WINDOW_TOTAL :: string where
  "WINDOW_TOTAL = ''total''"

definition WINDOW_DAY :: string where
  "WINDOW_DAY = ''day''"

definition WINDOW_MONTH :: string where
  "WINDOW_MONTH = ''month''"

definition WINDOW_MINUTE :: string where
  "WINDOW_MINUTE = ''minute''"

definition WINDOW_HOUR :: string where
  "WINDOW_HOUR = ''hour''"

definition METERING_BUCKET_SECS :: nat where
  "METERING_BUCKET_SECS = 86400"

lemmas window_words = WINDOW_TOTAL_def WINDOW_DAY_def WINDOW_MONTH_def WINDOW_MINUTE_def WINDOW_HOUR_def

text \<open>The cast \<open>as u64\<close> of a signed value.\<close>

definition u64_of_i64 :: "int \<Rightarrow> nat" where
  "u64_of_i64 x = nat (x mod 18446744073709551616)"

definition civil_from_days :: "int \<Rightarrow> int \<times> int \<times> int" where
  "civil_from_days z0 =
     (let z = z0 + 719468;
          era = tdiv (if 0 \<le> z then z else z - 146096) 146097;
          doe = z - era * 146097;
          yoe = tdiv (doe - tdiv doe 1460 + tdiv doe 36524 - tdiv doe 146096) 365;
          y = yoe + era * 400;
          doy = doe - (365 * yoe + tdiv yoe 4 - tdiv yoe 100);
          mp = tdiv (5 * doy + 2) 153;
          d = doy - tdiv (153 * mp + 2) 5 + 1;
          m = (if mp < 10 then mp + 3 else mp - 9)
      in (if m \<le> 2 then y + 1 else y, m, d))"

definition days_from_civil :: "int \<Rightarrow> int \<Rightarrow> int \<Rightarrow> int" where
  "days_from_civil y0 m d =
     (let y = (if m \<le> 2 then y0 - 1 else y0);
          era = tdiv (if 0 \<le> y then y else y - 399) 400;
          yoe = y - era * 400;
          doy = tdiv (153 * (if m > 2 then m - 3 else m + 9) + 2) 5 + d - 1;
          doe = yoe * 365 + tdiv yoe 4 - tdiv yoe 100 + doy
      in era * 146097 + doe - 719468)"

definition budget_window :: "string \<Rightarrow> nat \<Rightarrow> nat" where
  "budget_window period now =
     (if period = WINDOW_MINUTE then now div 60 * 60
      else if period = WINDOW_HOUR then now div 3600 * 3600
      else if period = WINDOW_DAY then now div SECS_PER_DAY * SECS_PER_DAY
      else if period = WINDOW_MONTH then
        (let days = int (now div SECS_PER_DAY); (y, m, _) = civil_from_days days
         in wrap_u64 (u64_of_i64 (days_from_civil y m 1) * SECS_PER_DAY))
      else if period = WINDOW_TOTAL then 0
      else 0)"

definition window_end :: "string \<Rightarrow> nat \<Rightarrow> nat option" where
  "window_end period now =
     (if period = WINDOW_MINUTE then Some (wrap_u64 (now div 60 * 60 + 60))
      else if period = WINDOW_HOUR then Some (wrap_u64 (now div 3600 * 3600 + 3600))
      else if period = WINDOW_DAY then Some (wrap_u64 (now div SECS_PER_DAY * SECS_PER_DAY + SECS_PER_DAY))
      else if period = WINDOW_MONTH then
        (let days = int (now div SECS_PER_DAY); (y, m, _) = civil_from_days days;
             (ny, nm) = (if m = 12 then (y + 1, 1) else (y, m + 1))
         in Some (wrap_u64 (u64_of_i64 (days_from_civil ny nm 1) * SECS_PER_DAY)))
      else None)"

definition metering_bucket :: "nat \<Rightarrow> nat" where
  "metering_bucket now = now - now mod METERING_BUCKET_SECS"

subsection \<open>Years of an era\<close>

text \<open>The day of the 400-year era on which year \<open>y\<close> (counted from 1 March) starts.\<close>

definition year_start :: "int \<Rightarrow> int" where
  "year_start y = 365 * y + y div 4 - y div 100"

definition year_end :: "int \<Rightarrow> int" where
  "year_end y = (if y = 399 then 146097 else year_start (y + 1))"

definition year_num :: "int \<Rightarrow> int" where
  "year_num doe = doe - doe div 1460 + doe div 36524 - doe div 146096"

lemma year_num_mono:
  assumes "0 \<le> a" "a \<le> b" "b \<le> 146096"
  shows "year_num a \<le> year_num b"
proof -
  have "b div 1460 - a div 1460 \<le> b - a"
  proof -
    have "a = 1460 * (a div 1460) + a mod 1460" "b = 1460 * (b div 1460) + b mod 1460" by simp_all
    moreover have "0 \<le> a mod 1460" "a mod 1460 < 1460" "0 \<le> b mod 1460" "b mod 1460 < 1460" by simp_all
    moreover have "a div 1460 \<le> b div 1460" using assms(2) by (rule zdiv_mono1) simp
    ultimately show ?thesis using assms by linarith
  qed
  moreover have "a div 36524 - a div 146096 \<le> b div 36524 - b div 146096"
  proof (cases "b = 146096")
    case True
    have "a div 36524 \<le> 3 \<or> a = 146096" using assms True by linarith
    moreover have "0 \<le> a div 146096" using assms by simp
    ultimately show ?thesis using True by auto
  next
    case False
    then have "b div 146096 = 0" "a div 146096 = 0" using assms by (simp_all add: div_pos_pos_trivial)
    moreover have "a div 36524 \<le> b div 36524" using assms(2) by (rule zdiv_mono1) simp
    ultimately show ?thesis by simp
  qed
  ultimately show ?thesis by (simp add: year_num_def)
qed

lemma div_bounds: "0 < k \<Longrightarrow> k * (x div k) \<le> x \<and> x < k * (x div k) + k" for x k :: int
proof -
  assume k: "0 < k"
  have "x = k * (x div k) + x mod k" by simp
  moreover have "0 \<le> x mod k" "x mod k < k" using k by simp_all
  ultimately show ?thesis by linarith
qed

lemma year_parts:
  assumes "0 \<le> y" "y \<le> 399"
  obtains c q t :: int where "0 \<le> c" "c \<le> 3" "0 \<le> q" "q \<le> 24" "0 \<le> t" "t \<le> 3"
    "y = 100 * c + 4 * q + t" "y div 4 = 25 * c + q" "y div 100 = c"
proof -
  define c q t where "c = y div 100" and "q = (y mod 100) div 4" and "t = (y mod 100) mod 4"
  have "y = 100 * c + y mod 100" "0 \<le> y mod 100" "y mod 100 < 100" by (simp_all add: c_def)
  moreover have "y mod 100 = 4 * q + t" unfolding q_def t_def by simp
  moreover have "0 \<le> t" "t \<le> 3" by (simp_all add: t_def)
  ultimately have p: "y = 100 * c + 4 * q + t" "0 \<le> t" "t \<le> 3" "0 \<le> 4 * q + t" "4 * q + t < 100" by simp_all
  show thesis
  proof (rule that [of c q t])
    show "y div 4 = 25 * c + q" using div_bounds [of 4 y] p by linarith
  qed (use p assms in \<open>auto simp: c_def\<close>)
qed

lemma year_start_num:
  assumes "0 \<le> y" "y \<le> 399"
  shows "365 * y \<le> year_num (year_start y)"
proof -
  obtain c q t :: int where p: "0 \<le> c" "c \<le> 3" "0 \<le> q" "q \<le> 24" "0 \<le> t" "t \<le> 3"
    "y = 100 * c + 4 * q + t" "y div 4 = 25 * c + q" "y div 100 = c"
    using year_parts [OF assms] .
  define s where "s = year_start y"
  have s: "s = 36524 * c + 1461 * q + 365 * t" using p by (simp add: s_def year_start_def)
  have "s div 36524 = c" using div_bounds [of 36524 s] s p by linarith
  moreover have "s div 146096 = 0" using div_bounds [of 146096 s] s p by linarith
  moreover have "s div 1460 \<le> 25 * c + q" using div_bounds [of 1460 s] s p by linarith
  ultimately show ?thesis unfolding year_num_def s_def [symmetric] using s p by linarith
qed

lemma year_end_num:
  assumes "0 \<le> y" "y \<le> 399"
  shows "year_num (year_end y - 1) < 365 * y + 365"
proof (cases "y = 399")
  case True
  then show ?thesis by (simp add: year_end_def year_num_def)
next
  case False
  obtain c q t :: int where p: "0 \<le> c" "c \<le> 3" "0 \<le> q" "q \<le> 24" "0 \<le> t" "t \<le> 3"
    "y = 100 * c + 4 * q + t" "y div 4 = 25 * c + q" "y div 100 = c"
    using year_parts [OF assms] .
  have b: "0 \<le> y + 1" "y + 1 \<le> 399" using assms False by simp_all
  obtain c' q' t' :: int where p': "0 \<le> c'" "c' \<le> 3" "0 \<le> q'" "q' \<le> 24" "0 \<le> t'" "t' \<le> 3"
    "y + 1 = 100 * c' + 4 * q' + t'" "(y + 1) div 4 = 25 * c' + q'" "(y + 1) div 100 = c'"
    using year_parts [OF b] .
  define e where "e = year_end y - 1"
  have e: "e = 36524 * c' + 1461 * q' + 365 * t' - 1"
    using p' False by (simp add: e_def year_end_def year_start_def)
  have z: "e div 146096 = 0" using div_bounds [of 146096 e] e p p' assms by linarith
  consider "c' = c" | "c' = c + 1" "q' = 0" "t' = 0" "q = 24" "t = 3" using p p' by linarith
  then show ?thesis
  proof cases
    case 1
    have "e div 36524 \<le> c" using div_bounds [of 36524 e] e p p' 1 by linarith
    moreover have "e + c - (365 * y + 365) < e div 1460" using div_bounds [of 1460 e] e p p' 1 by linarith
    ultimately show ?thesis unfolding year_num_def e_def [symmetric] using z by linarith
  next
    case 2
    have "e div 36524 \<le> c" using div_bounds [of 36524 e] e p p' 2 by linarith
    moreover have "e + c - (365 * y + 365) < e div 1460" using div_bounds [of 1460 e] e p p' 2 by linarith
    ultimately show ?thesis unfolding year_num_def e_def [symmetric] using z by linarith
  qed
qed

text \<open>The year-of-era formula finds the year a day lies in.\<close>

lemma year_of_era:
  assumes "0 \<le> y" "y \<le> 399" "year_start y \<le> doe" "doe < year_end y"
  shows "year_num doe div 365 = y"
proof -
  have "year_start 399 = 145731" by (simp add: year_start_def)
  have s0: "0 \<le> year_start y" using assms(1,2) by (simp add: year_start_def)
  have e: "year_end y - 1 \<le> 146096"
  proof (cases "y = 399")
    case False
    have "(y + 1) div 4 \<le> 100" "0 \<le> (y + 1) div 100"
      using div_bounds [of 4 "y + 1"] div_bounds [of 100 "y + 1"] assms by linarith+
    then show ?thesis using assms False by (simp add: year_end_def year_start_def)
  qed (simp add: year_end_def)
  have "365 * y \<le> year_num doe"
    using year_start_num [OF assms(1,2)] year_num_mono [OF s0 assms(3)] assms(4) e by linarith
  moreover have "year_num doe < 365 * y + 365"
    using year_end_num [OF assms(1,2)] year_num_mono [of doe "year_end y - 1"] assms(3,4) s0 e by linarith
  ultimately show ?thesis using div_bounds [of 365 "year_num doe"] by linarith
qed

subsection \<open>Days, years and months\<close>

lemma year_exists:
  assumes "0 \<le> doe" "doe \<le> 146096"
  obtains y where "0 \<le> y" "y \<le> 399" "year_start y \<le> doe" "doe < year_end y"
proof -
  let ?S = "{y \<in> {0..399}. year_start y \<le> doe}"
  have f: "finite ?S" by (rule finite_subset [of _ "{0..399}"]) auto
  have "0 \<in> ?S" using assms(1) by (simp add: year_start_def)
  then have ne: "?S \<noteq> {}" by blast
  define y where "y = Max ?S"
  have y: "y \<in> ?S" using Max_in [OF f ne] by (simp add: y_def)
  have "doe < year_end y"
  proof (cases "y = 399")
    case False
    have "y + 1 \<notin> ?S" using Max_ge [OF f, of "y + 1"] by (auto simp: y_def)
    then show ?thesis using y False by (auto simp: year_end_def)
  qed (use assms(2) in \<open>simp add: year_end_def\<close>)
  then show thesis using y by (intro that [of y]) auto
qed

text \<open>A day as its era, its year in the era and its day in the year.\<close>

definition is_day :: "int \<Rightarrow> int \<Rightarrow> int \<Rightarrow> int \<Rightarrow> bool" where
  "is_day z era y doy \<longleftrightarrow> z = era * 146097 + year_start y + doy - 719468
     \<and> 0 \<le> y \<and> y \<le> 399 \<and> 0 \<le> doy \<and> year_start y + doy < year_end y"

lemma is_day_exists: obtains era y doy where "is_day z era y doy"
proof -
  define era where "era = (z + 719468) div 146097"
  define doe where "doe = (z + 719468) mod 146097"
  have doe: "0 \<le> doe" "doe \<le> 146096" and z: "z = era * 146097 + doe - 719468"
    by (simp_all add: era_def doe_def flip: zless_add1_eq)
  obtain y where "0 \<le> y" "y \<le> 399" "year_start y \<le> doe" "doe < year_end y"
    using year_exists [OF doe] .
  then show thesis by (intro that [of era y "doe - year_start y"]) (auto simp: is_day_def z)
qed

lemma year_length:
  assumes "0 \<le> y" "y \<le> 399"
  shows "365 \<le> year_end y - year_start y" and "year_end y - year_start y \<le> 366" and "0 \<le> year_start y"
proof -
  define p q a b where "p = y div 4" and "q = (y + 1) div 4" and "a = y div 100" and "b = (y + 1) div 100"
  have le: "p \<le> q" "q \<le> p + 1" "a \<le> b" "b \<le> a + 1"
    using div_bounds [of 4 y] div_bounds [of 4 "y + 1"] div_bounds [of 100 y] div_bounds [of 100 "y + 1"]
    unfolding p_def q_def a_def b_def by linarith+
  have leap: "p + 1 \<le> q" if "a < b"
  proof -
    have "y = 100 * a + 99"
      using that div_bounds [of 100 y] div_bounds [of 100 "y + 1"] unfolding a_def b_def by linarith
    then have "y = 3 + (25 * a + 24) * 4" "y + 1 = (25 * a + 25) * 4" by simp_all
    then have "y div 4 = 25 * a + 24" "(y + 1) div 4 = 25 * a + 25"
      by (simp_all only: div_mult_self1 nonzero_mult_div_cancel_right zero_neq_numeral not_False_eq_True)
    then show ?thesis by (simp add: p_def q_def)
  qed
  have len: "year_end y - year_start y = (if y = 399 then 366 else 365 + q - p - (b - a))"
    by (simp add: year_end_def year_start_def p_def q_def a_def b_def)
  show "365 \<le> year_end y - year_start y" and "year_end y - year_start y \<le> 366"
    unfolding len using le leap by (cases "a < b"; simp)+
  show "0 \<le> year_start y" using assms by (simp add: year_start_def)
qed

lemma year_end_le: "0 \<le> y \<Longrightarrow> y \<le> 399 \<Longrightarrow> year_end y \<le> 146097"
proof (cases "y = 399")
  case False
  assume y: "0 \<le> y" "y \<le> 399"
  have "(y + 1) div 4 \<le> 100" "0 \<le> (y + 1) div 100"
    using div_bounds [of 4 "y + 1"] div_bounds [of 100 "y + 1"] y by linarith+
  then show ?thesis using y False by (simp add: year_end_def year_start_def)
qed (simp add: year_end_def)

text \<open>Months counted from March, and the day of the year each starts on.\<close>

definition month_first :: "int \<Rightarrow> int" where
  "month_first mp = (153 * mp + 2) div 5"

lemma month_first_iff:
  "(5 * doy + 2) div 153 = mp \<longleftrightarrow> month_first mp \<le> doy \<and> doy < month_first (mp + 1)" for doy mp :: int
proof -
  have "(153 * mp + 2) div 5 \<le> doy \<longleftrightarrow> 153 * mp + 2 < 5 * doy + 5"
    using div_bounds [of 5 "153 * mp + 2"] by linarith
  moreover have "doy < (153 * (mp + 1) + 2) div 5 \<longleftrightarrow> 5 * doy + 5 \<le> 153 * (mp + 1) + 2"
    using div_bounds [of 5 "153 * (mp + 1) + 2"] by linarith
  moreover have "(5 * doy + 2) div 153 = mp \<longleftrightarrow> 153 * mp \<le> 5 * doy + 2 \<and> 5 * doy + 2 < 153 * mp + 153"
    using div_bounds [of 153 "5 * doy + 2"] by (intro iffI) linarith+
  ultimately show ?thesis unfolding month_first_def by auto
qed

lemma civil_of_day:
  assumes "is_day z era y doy"
  shows "civil_from_days z =
    (let mp = (5 * doy + 2) div 153; Y = y + era * 400; d = doy - month_first mp + 1
     in if mp < 10 then (Y, mp + 3, d) else (Y + 1, mp - 9, d))"
proof -
  note d = assms [unfolded is_day_def]
  have y: "0 \<le> y" "y \<le> 399" using d by simp_all
  let ?doe = "year_start y + doy"
  have doe: "0 \<le> ?doe" "?doe < 146097" "?doe < year_end y" "0 \<le> doy"
    using d year_length(3) [OF y] year_end_le [OF y] by linarith+
  have Z: "z + 719468 = era * 146097 + ?doe" using d by simp
  then have era: "tdiv (if 0 \<le> z + 719468 then z + 719468 else z + 719468 - 146096) 146097 = era"
    using tdiv_floor [of 146097 "z + 719468"] div_bounds [of 146097 "z + 719468"] doe by auto
  have num: "tdiv (?doe - tdiv ?doe 1460 + tdiv ?doe 36524 - tdiv ?doe 146096) 365 = y"
  proof -
    have "year_num ?doe div 365 = y" by (rule year_of_era [OF y]) (use doe in simp_all)
    moreover have "0 \<le> year_num ?doe" using year_num_mono [of 0 ?doe] doe by (simp add: year_num_def)
    ultimately show ?thesis using doe by (simp add: tdiv_nonneg year_num_def)
  qed
  have Zd: "z + 719468 - era * 146097 = ?doe" using Z by simp
  have doy: "?doe - (365 * y + tdiv y 4 - tdiv y 100) = doy"
    using y by (simp add: tdiv_nonneg year_start_def)
  have mp: "tdiv (5 * doy + 2) 153 = (5 * doy + 2) div 153" using doe by (simp add: tdiv_nonneg)
  have first: "tdiv (153 * ((5 * doy + 2) div 153) + 2) 5 = month_first ((5 * doy + 2) div 153)"
    using doe(4) by (simp add: tdiv_nonneg month_first_def)
  have "0 \<le> (5 * doy + 2) div 153" "(5 * doy + 2) div 153 \<le> 11"
    using div_bounds [of 153 "5 * doy + 2"] doe year_length(2) [OF y] by linarith+
  then show ?thesis
    unfolding civil_from_days_def Let_def era Zd num doy mp first by auto
qed

lemma days_of_month:
  assumes "0 \<le> y" "y \<le> 399" "0 \<le> mp" "mp \<le> 11"
  shows "days_from_civil (if mp < 10 then y + era * 400 else y + era * 400 + 1)
      (if mp < 10 then mp + 3 else mp - 9) d
    = era * 146097 + year_start y + month_first mp + d - 1 - 719468"
proof -
  let ?Y = "y + era * 400"
  have "(?Y) div 400 = era" using assms(1,2) by (simp add: div_pos_pos_trivial)
  then have era: "tdiv (if 0 \<le> ?Y then ?Y else ?Y - 399) 400 = era" using tdiv_floor [of 400 ?Y] by auto
  have t: "tdiv y 4 = y div 4" "tdiv y 100 = y div 100" "tdiv (153 * mp + 2) 5 = month_first mp"
    using assms by (simp_all add: tdiv_nonneg month_first_def)
  show ?thesis
  proof (cases "mp < 10")
    case True
    then show ?thesis using assms era t by (simp add: days_from_civil_def Let_def year_start_def)
  next
    case False
    then show ?thesis using assms era t by (simp add: days_from_civil_def Let_def year_start_def algebra_simps)
  qed
qed

text \<open>The first day of the month of day \<open>z\<close>, and of the month after it.\<close>

definition month_lo :: "int \<Rightarrow> int" where
  "month_lo z = (case civil_from_days z of (y, m, _) \<Rightarrow> days_from_civil y m 1)"

definition month_hi :: "int \<Rightarrow> int" where
  "month_hi z = (case civil_from_days z of (y, m, _) \<Rightarrow>
     (case (if m = 12 then (y + 1, 1) else (y, m + 1)) of (ny, nm) \<Rightarrow> days_from_civil ny nm 1))"

definition month_last :: "int \<Rightarrow> int \<Rightarrow> int" where
  "month_last y mp = (if mp = 11 then year_end y else year_start y + month_first (mp + 1))"

lemma month_bounds:
  assumes d: "is_day z era y doy" and mp: "mp = (5 * doy + 2) div 153"
  shows "month_lo z = era * 146097 + year_start y + month_first mp - 719468"
    and "month_hi z = era * 146097 + month_last y mp - 719468"
    and "0 \<le> mp" and "mp \<le> 11"
proof -
  note dd = d [unfolded is_day_def]
  have y: "0 \<le> y" "y \<le> 399" using dd by simp_all
  show r: "0 \<le> mp" "mp \<le> 11"
    using div_bounds [of 153 "5 * doy + 2"] dd year_length(2) [OF y] unfolding mp by linarith+
  have c: "civil_from_days z = (if mp < 10 then (y + era * 400, mp + 3, doy - month_first mp + 1)
      else (y + era * 400 + 1, mp - 9, doy - month_first mp + 1))"
    using civil_of_day [OF d] by (simp add: Let_def mp)
  show "month_lo z = era * 146097 + year_start y + month_first mp - 719468"
    using days_of_month [OF y r, of era 1] by (cases "mp < 10") (simp_all add: month_lo_def c)
  show "month_hi z = era * 146097 + month_last y mp - 719468"
  proof (cases "mp = 11")
    case False
    have "month_hi z = days_from_civil (if mp + 1 < 10 then y + era * 400 else y + era * 400 + 1)
        (if mp + 1 < 10 then mp + 1 + 3 else mp + 1 - 9) 1"
    proof -
      consider "mp < 9" | "mp = 9" | "mp = 10" using r False by linarith
      then show ?thesis by cases (simp_all add: month_hi_def c)
    qed
    also have "\<dots> = era * 146097 + year_start y + month_first (mp + 1) - 719468"
      using days_of_month [of y "mp + 1" era 1] y r False by simp
    finally show ?thesis using False by (simp add: month_last_def)
  next
    case True
    then have hi: "month_hi z = days_from_civil (y + era * 400 + 1) 3 1" by (simp add: month_hi_def c)
    show ?thesis
    proof (cases "y = 399")
      case y399: True
      then have "month_hi z = days_from_civil (0 + (era + 1) * 400) 3 1" using hi by (simp add: algebra_simps)
      also have "\<dots> = (era + 1) * 146097 + year_start 0 + month_first 0 - 719468"
        using days_of_month [of 0 0 "era + 1" 1] by simp
      finally show ?thesis using True y399
        by (simp add: month_last_def year_end_def year_start_def month_first_def)
    next
      case False
      then have "month_hi z = days_from_civil ((y + 1) + era * 400) 3 1" using hi by (simp add: algebra_simps)
      also have "\<dots> = era * 146097 + year_start (y + 1) + month_first 0 - 719468"
        using days_of_month [of "y + 1" 0 era 1] y False by simp
      finally show ?thesis using True False by (simp add: month_last_def year_end_def month_first_def)
    qed
  qed
qed

lemma month_tile:
  "month_lo z \<le> z \<and> z < month_hi z
   \<and> (\<forall>k. month_lo z \<le> k \<longrightarrow> k < month_hi z \<longrightarrow> month_lo k = month_lo z \<and> month_hi k = month_hi z)"
proof -
  obtain era y doy where d: "is_day z era y doy" using is_day_exists .
  note dd = d [unfolded is_day_def]
  define mp where "mp = (5 * doy + 2) div 153"
  note b = month_bounds [OF d mp_def]
  have m: "month_first mp \<le> doy" "doy < month_first (mp + 1)"
    using month_first_iff [of doy mp] by (simp_all add: mp_def)
  have f0: "0 \<le> month_first mp" using b(3) by (simp add: month_first_def)
  have y: "0 \<le> y" "y \<le> 399" using dd by simp_all
  have last: "month_last y mp \<le> year_end y" "month_last y mp \<le> year_start y + month_first (mp + 1)"
    using b(3,4) year_length [OF y]
    by (auto simp: month_last_def month_first_def intro!: order_trans [OF _ year_length(1) [OF y]])
  have "month_lo k = month_lo z \<and> month_hi k = month_hi z" if k: "month_lo z \<le> k" "k < month_hi z" for k
  proof -
    define doy' where "doy' = k + 719468 - era * 146097 - year_start y"
    have r: "month_first mp \<le> doy'" "year_start y + doy' < month_last y mp"
      using k b(1,2) by (simp_all add: doy'_def)
    then have dk: "is_day k era y doy'" using y f0 last(1) by (auto simp: is_day_def doy'_def)
    have "mp = (5 * doy' + 2) div 153"
      using month_first_iff [of doy' mp] r last(2) by simp
    from month_bounds [OF dk this] b(1,2) show ?thesis by simp
  qed
  moreover have "month_lo z \<le> z" using b(1) dd m(1) by linarith
  moreover have "z < month_hi z" using b(2) dd m(2) by (auto simp: month_last_def)
  ultimately show ?thesis by blast
qed

end
