(* ===== verification/Windows.thy ===== *)
theory Windows
  imports Calendar
begin

text \<open>
  The windows of \<open>governance/mod.rs\<close> tile time: each instant lies in exactly one window of a
  period, and \<open>window_end\<close> is the start of the next one.
\<close>

lemma month_contains: "month_lo z \<le> z" "z < month_hi z"
  using month_tile [of z] by (blast, blast)

lemma month_same:
  assumes "month_lo z \<le> k" "k < month_hi z"
  shows "month_lo k = month_lo z" "month_hi k = month_hi z"
  using month_tile [of z] assms by (blast, blast)

lemma month_next: "month_lo (month_hi z) = month_hi z"
proof (rule ccontr)
  assume "month_lo (month_hi z) \<noteq> month_hi z"
  then have lo: "month_lo (month_hi z) \<le> month_hi z - 1"
    using month_contains(1) [of "month_hi z"] by linarith
  have hi: "month_hi z < month_hi (month_hi z)" by (rule month_contains(2))
  have "month_hi (month_hi z - 1) = month_hi (month_hi z)" by (rule month_same(2) [OF lo]) (use hi in linarith)
  moreover have "month_hi (month_hi z - 1) = month_hi z"
    by (rule month_same(2)) (use month_contains [of z] in linarith)+
  ultimately show False using hi by linarith
qed

lemma month_at_most_31: "month_hi z \<le> month_lo z + 31"
proof -
  obtain era y doy where d: "is_day z era y doy" using is_day_exists .
  define mp where "mp = (5 * doy + 2) div 153"
  note b = month_bounds [OF d mp_def]
  have y: "0 \<le> y" "y \<le> 399" using d by (simp_all add: is_day_def)
  have f: "month_first (mp + 1) \<le> month_first mp + 31"
  proof -
    have "5 * month_first (mp + 1) \<le> 153 * (mp + 1) + 2" "153 * mp + 2 < 5 * month_first mp + 5"
      using div_bounds [of 5 "153 * (mp + 1) + 2"] div_bounds [of 5 "153 * mp + 2"]
      by (simp_all only: month_first_def zero_less_numeral simp_thms)
    moreover have "a \<le> b + 31" if "5 * a \<le> 153 * (m + 1) + 2" "153 * m + 2 < 5 * b + 5" for a b m :: int
      using that unfolding distrib_left by linarith
    ultimately show ?thesis by blast
  qed
  have "month_last y mp \<le> year_start y + month_first mp + 31"
  proof (cases "mp = 11")
    case True
    then show ?thesis using year_length(2) [OF y] by (simp add: month_last_def month_first_def)
  qed (use f in \<open>simp add: month_last_def\<close>)
  then show ?thesis using b(1,2) by simp
qed

lemma month_lo_nonneg: "0 \<le> z \<Longrightarrow> 0 \<le> month_lo z"
proof -
  assume z: "0 \<le> z"
  have "month_lo 0 = 0" by (simp add: month_lo_def civil_from_days_def days_from_civil_def tdiv_def Let_def)
  moreover have "month_lo 0 = month_lo z" if "month_lo z < 0"
    by (rule month_same(1)) (use that z month_contains(2) [of z] in linarith)+
  ultimately show ?thesis by linarith
qed

lemma civil_round_trip_month:
  assumes "civil_from_days z = (y, m, d)"
  shows "days_from_civil y m d = z \<and> 1 \<le> m \<and> m \<le> 12 \<and> 1 \<le> d \<and> d = z - month_lo z + 1"
proof -
  obtain era yy doy where dy: "is_day z era yy doy" using is_day_exists .
  define mp where "mp = (5 * doy + 2) div 153"
  note b = month_bounds [OF dy mp_def]
  have y: "0 \<le> yy" "yy \<le> 399" using dy by (simp_all add: is_day_def)
  have ymd: "y = (if mp < 10 then yy + era * 400 else yy + era * 400 + 1)"
    "m = (if mp < 10 then mp + 3 else mp - 9)" "d = doy - month_first mp + 1"
    using civil_of_day [OF dy] assms by (auto simp: Let_def mp_def split: if_splits)
  have first: "month_first mp \<le> doy" using month_first_iff [of doy mp] by (simp add: mp_def)
  have "days_from_civil y m d = z"
    using days_of_month [OF y b(3,4), of era d] dy unfolding ymd by (simp add: is_day_def)
  then show ?thesis using ymd b first dy by (auto simp: is_day_def)
qed

subsection \<open>Windows\<close>

lemma window_mult:
  fixes k now :: nat
  assumes "0 < k" "now div k * k \<le> t" "t < now div k * k + k"
  shows "t div k = now div k"
proof -
  have "t = k * (now div k) + (t - now div k * k)" using assms by simp
  then have "t div k = now div k + (t - now div k * k) div k"
    using assms(1) by (metis div_mult_self4 add.commute less_not_refl2)
  then show ?thesis using assms by simp
qed

lemma window_contains: "0 < k \<Longrightarrow> now < now div k * k + k" for now k :: nat
  by (metis add.commute div_mult_mod_eq mod_less_divisor nat_add_left_cancel_less)

lemma budget_window_month:
  assumes "now + 2678400 \<le> u64_max"
  shows "budget_window WINDOW_MONTH now = nat (month_lo (int (now div SECS_PER_DAY))) * SECS_PER_DAY"
    and "window_end WINDOW_MONTH now = Some (nat (month_hi (int (now div SECS_PER_DAY))) * SECS_PER_DAY)"
proof -
  define z where "z = int (now div SECS_PER_DAY)"
  have day: "now div SECS_PER_DAY * SECS_PER_DAY \<le> now" by simp
  have lo: "0 \<le> month_lo z" "month_lo z \<le> z" using month_lo_nonneg [of z] month_contains(1) [of z] by (simp_all add: z_def)
  have hi: "month_lo z \<le> month_hi z" "month_hi z \<le> z + 31"
    using month_at_most_31 [of z] month_contains [of z] by linarith+
  have nat: "nat (month_lo z) \<le> now div SECS_PER_DAY" "nat (month_hi z) \<le> now div SECS_PER_DAY + 31"
    using lo hi by (simp_all add: z_def)
  have fits: "nat (month_lo z) * SECS_PER_DAY \<le> u64_max" "nat (month_hi z) * SECS_PER_DAY \<le> u64_max"
    using mult_le_mono1 [OF nat(1), of SECS_PER_DAY] mult_le_mono1 [OF nat(2), of SECS_PER_DAY] day assms
    by (simp_all add: SECS_PER_DAY_def algebra_simps)
  have wrap: "wrap_u64 (u64_of_i64 x * SECS_PER_DAY) = nat x * SECS_PER_DAY"
    if "0 \<le> x" "nat x * SECS_PER_DAY \<le> u64_max" for x
  proof -
    have "nat x \<le> u64_max" using that(2) by (simp add: SECS_PER_DAY_def)
    then have "u64_of_i64 x = nat x" using that(1) by (simp add: u64_of_i64_def u64_max_def)
    then show ?thesis using that(2) by (simp add: wrap_u64_def u64_max_def)
  qed
  show "budget_window WINDOW_MONTH now = nat (month_lo (int (now div SECS_PER_DAY))) * SECS_PER_DAY"
    using wrap [OF lo(1) fits(1)] unfolding z_def
    by (simp add: budget_window_def window_words month_lo_def split: prod.splits)
  show "window_end WINDOW_MONTH now = Some (nat (month_hi (int (now div SECS_PER_DAY))) * SECS_PER_DAY)"
    using wrap [OF order_trans [OF lo(1) hi(1)] fits(2)] unfolding z_def
    by (cases "civil_from_days (int (now div SECS_PER_DAY))")
      (simp add: window_end_def window_words month_hi_def Let_def split: if_splits)
qed

lemma fixed_window:
  assumes "0 < k" "now + k \<le> u64_max"
  shows "now div k * k \<le> now" "now < now div k * k + k" "wrap_u64 (now div k * k + k) = now div k * k + k"
    "(now div k * k + k) div k * k = now div k * k + k"
proof -
  show le: "now div k * k \<le> now" by simp
  show "now < now div k * k + k" using assms(1) by (rule window_contains)
  show "wrap_u64 (now div k * k + k) = now div k * k + k"
    unfolding wrap_u64_def by (rule mod_less) (use le assms(2) in \<open>unfold u64_max_def, linarith\<close>)
  show "(now div k * k + k) div k * k = now div k * k + k" using assms(1) by simp
qed

text \<open>What it means for \<open>[lo, hi)\<close> to be the window of \<open>period\<close> around \<open>now\<close>.\<close>

definition tiles :: "string \<Rightarrow> nat \<Rightarrow> nat \<Rightarrow> bool" where
  "tiles period now hi \<longleftrightarrow> budget_window period now \<le> now \<and> now < hi
     \<and> (\<forall>t. budget_window period now \<le> t \<longrightarrow> t < hi \<longrightarrow> budget_window period t = budget_window period now)
     \<and> budget_window period hi = hi"

lemma tiles_fixed:
  assumes k: "0 < k" "now + k \<le> u64_max" and w: "\<And>t. budget_window period t = t div k * k"
  shows "tiles period now (wrap_u64 (now div k * k + k))"
  unfolding tiles_def w fixed_window(3,4) [OF k]
  using fixed_window(1,2) [OF k] window_mult [OF k(1), of now] by metis

lemma tiles_month:
  assumes now: "now + 2 * 2678400 \<le> u64_max" and e: "window_end WINDOW_MONTH now = Some hi"
  shows "tiles WINDOW_MONTH now hi"
proof -
  define z where "z = int (now div SECS_PER_DAY)"
  have room: "now + 2678400 \<le> u64_max" using now by simp
  note bw = budget_window_month [OF room, folded z_def]
  have hi: "hi = nat (month_hi z) * SECS_PER_DAY" using bw(2) e by simp
  have lo0: "0 \<le> month_lo z" using month_lo_nonneg [of z] by (simp add: z_def)
  note c = month_contains [of z]
  have day: "now div SECS_PER_DAY * SECS_PER_DAY \<le> now" "now < now div SECS_PER_DAY * SECS_PER_DAY + SECS_PER_DAY"
    using window_contains [of SECS_PER_DAY now] by (simp_all add: SECS_PER_DAY_def)
  have z_lo: "nat (month_lo z) \<le> now div SECS_PER_DAY" and z_hi: "now div SECS_PER_DAY + 1 \<le> nat (month_hi z)"
    using c lo0 by (simp_all add: z_def)
  have 1: "budget_window WINDOW_MONTH now \<le> now"
    unfolding bw(1) using mult_le_mono1 [OF z_lo] day(1) le_trans by blast
  have 2: "now < hi"
    unfolding hi using mult_le_mono1 [OF z_hi, of SECS_PER_DAY] day(2) by (simp add: algebra_simps)
  have hi_le: "hi \<le> now + 2678400"
  proof -
    have "nat (month_hi z) \<le> now div SECS_PER_DAY + 31"
      using month_at_most_31 [of z] c by (simp add: z_def)
    from mult_le_mono1 [OF this, of SECS_PER_DAY] show ?thesis
      unfolding hi using day(1) by (simp add: SECS_PER_DAY_def algebra_simps)
  qed
  have in_month: "month_lo z \<le> int (t div SECS_PER_DAY) \<and> int (t div SECS_PER_DAY) < month_hi z"
    if "budget_window WINDOW_MONTH now \<le> t" "t < hi" for t
  proof -
    have "nat (month_lo z) \<le> t div SECS_PER_DAY"
      using that(1) unfolding bw(1) by (simp add: less_eq_div_iff_mult_less_eq SECS_PER_DAY_def)
    moreover have "t div SECS_PER_DAY < nat (month_hi z)"
      using that(2) unfolding hi by (simp add: div_less_iff_less_mult SECS_PER_DAY_def)
    ultimately show ?thesis using lo0 by linarith
  qed
  have 3: "budget_window WINDOW_MONTH t = budget_window WINDOW_MONTH now"
    if t: "budget_window WINDOW_MONTH now \<le> t" "t < hi" for t
  proof -
    have "t + 2678400 \<le> u64_max" using t(2) hi_le now by simp
    then show ?thesis
      using in_month [OF t] month_same(1) [of z "int (t div SECS_PER_DAY)"]
      by (simp add: budget_window_month(1) bw(1))
  qed
  have "hi div SECS_PER_DAY = nat (month_hi z)" unfolding hi by (simp add: SECS_PER_DAY_def)
  moreover have "hi + 2678400 \<le> u64_max" using hi_le now by simp
  ultimately have 4: "budget_window WINDOW_MONTH hi = hi"
    using month_next [of z] c lo0 by (simp add: budget_window_month(1) hi)
  show ?thesis unfolding tiles_def using 1 2 3 4 by blast
qed

text \<open>
  The calendar arithmetic is a bijection between day numbers and dates: converting any day
  number (before or after 1970) to a civil date and back gives the day number, and the date has a
  month between 1 and 12 and a day between 1 and 31.
\<close>

theorem civil_round_trip:
  "\<exists>y m d. civil_from_days z = (y, m, d) \<and> days_from_civil y m d = z
     \<and> m \<in> {1..12} \<and> d \<in> {1..31}"
proof -
  obtain y m d where c: "civil_from_days z = (y, m, d)" by (cases "civil_from_days z")
  note r = civil_round_trip_month [OF c]
  moreover have "d \<le> 31" using r month_at_most_31 [of z] month_contains [of z] by linarith
  ultimately show ?thesis using c by auto
qed

text \<open>
  The limit windows tile time. Whenever a period has a window end, the window around an
  instant starts no later than the instant and ends after it, every instant of the window is
  assigned the same window start, and the window end is itself the start of the next window, so a
  counter keyed by the window start is reset exactly at the announced \<open>Retry-After\<close> instant. A period
  without a window end (\<open>total\<close>, or an unknown word) has the single window 0. The room of two months
  below the end of the \<open>u64\<close> range is where the additions of the code do not wrap.
\<close>

theorem windows_tile_time:
  assumes "now + 2 * 2678400 \<le> u64_max"
  shows "case window_end period now of
      Some hi \<Rightarrow> budget_window period now \<le> now \<and> now < hi
        \<and> (\<forall>t. budget_window period now \<le> t \<and> t < hi \<longrightarrow> budget_window period t = budget_window period now)
        \<and> budget_window period hi = hi
    | None \<Rightarrow> \<forall>t. budget_window period t = 0"
proof -
  have room: "now + 60 \<le> u64_max" "now + 3600 \<le> u64_max" "now + SECS_PER_DAY \<le> u64_max"
    using assms by (simp_all add: SECS_PER_DAY_def)
  have "tiles period now hi" if e: "window_end period now = Some hi" for hi
  proof -
    consider "period = WINDOW_MINUTE" | "period = WINDOW_HOUR" | "period = WINDOW_DAY" | "period = WINDOW_MONTH"
      using e by (auto simp: window_end_def split: if_splits)
    then show ?thesis
    proof cases
      case 1
      then show ?thesis using tiles_fixed [of 60 now period] room e
        by (simp add: window_end_def budget_window_def window_words)
    next
      case 2
      then show ?thesis using tiles_fixed [of 3600 now period] room e
        by (simp add: window_end_def budget_window_def window_words)
    next
      case 3
      then show ?thesis using tiles_fixed [of SECS_PER_DAY now period] room e
        by (simp add: window_end_def budget_window_def window_words SECS_PER_DAY_def)
    next
      case 4
      then show ?thesis using tiles_month assms e by simp
    qed
  qed
  moreover have "budget_window period t = 0" if "window_end period now = None" for t
    using that by (auto simp: window_end_def budget_window_def Let_def split: if_splits prod.splits)
  ultimately show ?thesis
  proof (cases "window_end period now")
    case (Some hi)
    with \<open>\<And>hi. window_end period now = Some hi \<Longrightarrow> tiles period now hi\<close> have "tiles period now hi" .
    then show ?thesis unfolding Some tiles_def option.case by blast
  qed simp
qed

text \<open>29 February 2024, 12:00 UTC: the month window is February, up to 1 March.\<close>

theorem windows_tile_time_witness:
  "window_end WINDOW_MONTH 1709208000 = Some 1709251200 \<and> budget_window WINDOW_MONTH 1709208000 = 1706745600
   \<and> budget_window WINDOW_MONTH 1709251200 = 1709251200"
proof -
  have c: "civil_from_days 19782 = (2024, 2, 29)" by (simp add: civil_from_days_def tdiv_def)
  have d: "days_from_civil 2024 2 1 = 19754" "days_from_civil 2024 3 1 = 19783"
    by (simp_all add: days_from_civil_def tdiv_def)
  have e: "window_end WINDOW_MONTH 1709208000 = Some 1709251200"
    using c d by (simp add: window_end_def window_words SECS_PER_DAY_def u64_of_i64_def wrap_u64_def)
  moreover have "budget_window WINDOW_MONTH 1709208000 = 1706745600"
    using c d by (simp add: budget_window_def window_words SECS_PER_DAY_def u64_of_i64_def wrap_u64_def)
  moreover have "budget_window WINDOW_MONTH 1709251200 = 1709251200"
    using windows_tile_time [of 1709208000 WINDOW_MONTH] e by (simp add: u64_max_def)
  ultimately show ?thesis by simp
qed

end
