(* ===== verification/Ledger.thy ===== *)
theory Ledger
  imports Prelude
begin

text \<open>
  The durable-store contract (\<open>crates/api/src/store.rs\<close>): virtual keys, AWS credentials, the token
  ledger of a bucket with its signed deltas, metering rows, audit records, the store's error type and
  the \<open>Store\<close> trait as a record of operations on an abstract store state \<open>'s\<close>. Reading operations
  return a result, writing operations a result and the state they leave behind, so that a backend
  that fails is a value of the model. The defaulted methods of the trait are definitions over such a
  record.
\<close>

subsection \<open>Records\<close>

record VirtualKey =
  vk_id :: string
  vk_key_hash :: string
  vk_name :: string
  vk_allowed_pools :: "string list option"
  vk_enabled :: bool
  vk_created_at :: nat
  vk_group :: "string option"
  vk_labels :: "(string \<times> string) list"

definition pool_allowed :: "VirtualKey \<Rightarrow> string \<Rightarrow> bool" where
  "pool_allowed k pool = (case vk_allowed_pools k of None \<Rightarrow> True | Some ps \<Rightarrow> list_ex (\<lambda>p. p = pool) ps)"

record AwsCredential =
  ac_access_key_id :: string
  ac_key_id :: string
  ac_secret_access_key :: string

record AwsKeyEntry =
  ake_key :: VirtualKey
  ake_secret_access_key :: string

record TierTokens =
  tt_input :: nat
  tt_output :: nat
  tt_cache_read :: nat
  tt_cache_write :: nat

definition tier_zero :: TierTokens where
  "tier_zero = \<lparr>tt_input = 0, tt_output = 0, tt_cache_read = 0, tt_cache_write = 0\<rparr>"

definition tier_is_zero :: "TierTokens \<Rightarrow> bool" where
  "tier_is_zero t \<longleftrightarrow> tt_input t = 0 \<and> tt_output t = 0 \<and> tt_cache_read t = 0 \<and> tt_cache_write t = 0"

definition tier_total :: "TierTokens \<Rightarrow> nat" where
  "tier_total t = sat_add_u64 (sat_add_u64 (sat_add_u64 (tt_input t) (tt_output t)) (tt_cache_read t))
     (tt_cache_write t)"

record TierTokensDelta =
  td_input :: int
  td_output :: int
  td_cache_read :: int
  td_cache_write :: int

definition tier_delta_is_zero :: "TierTokensDelta \<Rightarrow> bool" where
  "tier_delta_is_zero d \<longleftrightarrow> td_input d = 0 \<and> td_output d = 0 \<and> td_cache_read d = 0 \<and> td_cache_write d = 0"

text \<open>The ledger's \<open>Vec<ModelTokens>\<close> is an association list from model names to tier tokens.\<close>

record UsageLedger =
  ul_requests :: nat
  ul_billable_requests :: nat
  ul_models :: "(string \<times> TierTokens) list"

definition ledger_default :: UsageLedger where
  "ledger_default = \<lparr>ul_requests = 0, ul_billable_requests = 0, ul_models = []\<rparr>"

record UsageDelta =
  ud_requests :: int
  ud_billable_requests :: int
  ud_models :: "(string \<times> TierTokensDelta) list"

definition usage_delta_is_zero :: "UsageDelta \<Rightarrow> bool" where
  "usage_delta_is_zero d \<longleftrightarrow> ud_requests d = 0 \<and> ud_billable_requests d = 0
     \<and> list_all (\<lambda>m. tier_delta_is_zero (snd m)) (ud_models d)"

definition tokens_for :: "UsageLedger \<Rightarrow> string \<Rightarrow> TierTokens option" where
  "tokens_for l model = al_get (ul_models l) model"

definition ledger_total_tokens :: "UsageLedger \<Rightarrow> nat" where
  "ledger_total_tokens l = foldl (\<lambda>acc m. sat_add_u64 acc (tier_total (snd m))) 0 (ul_models l)"

definition tier_apply :: "TierTokens \<Rightarrow> TierTokensDelta \<Rightarrow> TierTokens" where
  "tier_apply t d =
     \<lparr>tt_input = sat_add_signed_u64 (tt_input t) (td_input d),
      tt_output = sat_add_signed_u64 (tt_output t) (td_output d),
      tt_cache_read = sat_add_signed_u64 (tt_cache_read t) (td_cache_read d),
      tt_cache_write = sat_add_signed_u64 (tt_cache_write t) (td_cache_write d)\<rparr>"

definition apply_model_delta :: "string \<times> TierTokensDelta \<Rightarrow> UsageLedger \<Rightarrow> UsageLedger" where
  "apply_model_delta m l =
     (let t = (case al_get (ul_models l) (fst m) of Some t \<Rightarrow> t | None \<Rightarrow> tier_zero)
      in l\<lparr>ul_models := al_put (ul_models l) (fst m) (tier_apply t (snd m))\<rparr>)"

definition apply_delta :: "UsageDelta \<Rightarrow> UsageLedger \<Rightarrow> UsageLedger" where
  "apply_delta d l =
     fold apply_model_delta (ud_models d)
       (l\<lparr>ul_requests := sat_add_signed_u64 (ul_requests l) (ud_requests d),
          ul_billable_requests := sat_add_signed_u64 (ul_billable_requests l) (ud_billable_requests d)\<rparr>)"

record MeteringDelta =
  md_key_id :: string
  md_bucket :: nat
  md_model :: string
  md_provider :: string
  md_tokens_input :: nat
  md_tokens_output :: nat
  md_tokens_cache_read :: nat
  md_tokens_cache_creation :: nat

record MeteringRow =
  mr_key_id :: string
  mr_model :: string
  mr_provider :: string
  mr_tokens_input :: nat
  mr_tokens_output :: nat
  mr_tokens_cache_read :: nat
  mr_tokens_cache_creation :: nat
  mr_requests :: nat

record AuditRecord =
  ar_seq :: nat
  ar_ts :: nat
  ar_action :: string
  ar_resource :: string
  ar_outcome :: string
  ar_principal :: string
  ar_prev_hash :: string
  ar_hash :: string

subsection \<open>The store trait\<close>

datatype StoreError = StoreError string

type_synonym 'a store_result = "StoreError + 'a"

record 's Store =
  put_key :: "VirtualKey \<Rightarrow> 's \<Rightarrow> unit store_result \<times> 's"
  get_key :: "string \<Rightarrow> 's \<Rightarrow> VirtualKey option store_result"
  list_keys :: "'s \<Rightarrow> VirtualKey list store_result"
  store_delete_key :: "string \<Rightarrow> 's \<Rightarrow> unit store_result \<times> 's"
  get_usage :: "string \<Rightarrow> nat \<Rightarrow> 's \<Rightarrow> UsageLedger store_result"
  put_usage :: "string \<Rightarrow> nat \<Rightarrow> UsageLedger \<Rightarrow> 's \<Rightarrow> unit store_result \<times> 's"
  add_usage :: "string \<Rightarrow> nat \<Rightarrow> UsageDelta \<Rightarrow> 's \<Rightarrow> unit store_result \<times> 's"
  add_metering :: "MeteringDelta \<Rightarrow> 's \<Rightarrow> unit store_result \<times> 's"
  list_metering :: "nat \<Rightarrow> 's \<Rightarrow> MeteringRow list store_result"
  put_aws_credential :: "AwsCredential \<Rightarrow> 's \<Rightarrow> unit store_result \<times> 's"
  put_key_with_aws_credential :: "VirtualKey \<Rightarrow> AwsCredential \<Rightarrow> 's \<Rightarrow> unit store_result \<times> 's"
  list_aws_credentials :: "'s \<Rightarrow> AwsCredential list store_result"
  append_audit :: "AuditRecord \<Rightarrow> 's \<Rightarrow> unit store_result \<times> 's"
  list_audit :: "'s \<Rightarrow> AuditRecord list store_result"
  add_denylist :: "string \<Rightarrow> string \<Rightarrow> 's \<Rightarrow> unit store_result \<times> 's"
  list_denylist :: "'s \<Rightarrow> string list store_result"
  list_audit_tail :: "nat \<Rightarrow> 's \<Rightarrow> AuditRecord list store_result"

text \<open>The defaulted methods, over the methods a backend must give.\<close>

definition default_add_usage ::
  "(string \<Rightarrow> nat \<Rightarrow> 's \<Rightarrow> UsageLedger store_result)
   \<Rightarrow> (string \<Rightarrow> nat \<Rightarrow> UsageLedger \<Rightarrow> 's \<Rightarrow> unit store_result \<times> 's)
   \<Rightarrow> string \<Rightarrow> nat \<Rightarrow> UsageDelta \<Rightarrow> 's \<Rightarrow> unit store_result \<times> 's" where
  "default_add_usage get put bucket_id window_start delta s =
     (case get bucket_id window_start s of
        Inl e \<Rightarrow> (Inl e, s)
      | Inr cur \<Rightarrow> put bucket_id window_start (apply_delta delta cur) s)"

definition default_put_aws_credential :: "AwsCredential \<Rightarrow> 's \<Rightarrow> unit store_result \<times> 's" where
  "default_put_aws_credential cred s = (Inl (StoreError ''this Store does not support AWS credentials''), s)"

definition default_put_key_with_aws_credential ::
  "(VirtualKey \<Rightarrow> 's \<Rightarrow> unit store_result \<times> 's) \<Rightarrow> (AwsCredential \<Rightarrow> 's \<Rightarrow> unit store_result \<times> 's)
   \<Rightarrow> VirtualKey \<Rightarrow> AwsCredential \<Rightarrow> 's \<Rightarrow> unit store_result \<times> 's" where
  "default_put_key_with_aws_credential putk putc key cred s =
     (case putk key s of
        (Inl e, s1) \<Rightarrow> (Inl e, s1)
      | (Inr _, s1) \<Rightarrow> (case putc cred s1 of (Inl e, s2) \<Rightarrow> (Inl e, s2) | (Inr _, s2) \<Rightarrow> (Inr (), s2)))"

definition default_list_aws_credentials :: "'s \<Rightarrow> AwsCredential list store_result" where
  "default_list_aws_credentials s = Inr []"

definition default_append_audit :: "AuditRecord \<Rightarrow> 's \<Rightarrow> unit store_result \<times> 's" where
  "default_append_audit entry s = (Inr (), s)"

definition default_list_audit :: "'s \<Rightarrow> AuditRecord list store_result" where
  "default_list_audit s = Inr []"

definition default_add_denylist :: "string \<Rightarrow> string \<Rightarrow> 's \<Rightarrow> unit store_result \<times> 's" where
  "default_add_denylist sub reason s =
     (Inl (StoreError ''this Store does not support the revocation denylist''), s)"

definition default_list_denylist :: "'s \<Rightarrow> string list store_result" where
  "default_list_denylist s = Inr []"

definition default_list_audit_tail ::
  "('s \<Rightarrow> AuditRecord list store_result) \<Rightarrow> nat \<Rightarrow> 's \<Rightarrow> AuditRecord list store_result" where
  "default_list_audit_tail lst limit s =
     (case lst s of
        Inl e \<Rightarrow> Inl e
      | Inr rows \<Rightarrow> Inr (if length rows > limit then drop (length rows - limit) rows else rows))"

subsection \<open>Ledger arithmetic\<close>

text \<open>The counters of a ledger as integers, so that deltas add up without a case split.\<close>

definition tier_add :: "TierTokensDelta \<Rightarrow> TierTokensDelta \<Rightarrow> TierTokensDelta" where
  "tier_add a b = \<lparr>td_input = td_input a + td_input b, td_output = td_output a + td_output b,
     td_cache_read = td_cache_read a + td_cache_read b, td_cache_write = td_cache_write a + td_cache_write b\<rparr>"

definition tier_int :: "TierTokens \<Rightarrow> TierTokensDelta" where
  "tier_int t = \<lparr>td_input = int (tt_input t), td_output = int (tt_output t),
     td_cache_read = int (tt_cache_read t), td_cache_write = int (tt_cache_write t)\<rparr>"

definition delta_zero :: TierTokensDelta where
  "delta_zero = \<lparr>td_input = 0, td_output = 0, td_cache_read = 0, td_cache_write = 0\<rparr>"

lemmas tier_defs = tier_add_def tier_int_def delta_zero_def tier_zero_def tier_is_zero_def tier_delta_is_zero_def

definition model_tokens :: "(string \<times> TierTokens) list \<Rightarrow> string \<Rightarrow> TierTokens" where
  "model_tokens ms m = (case al_get ms m of Some t \<Rightarrow> t | None \<Rightarrow> tier_zero)"

definition model_delta :: "(string \<times> TierTokensDelta) list \<Rightarrow> string \<Rightarrow> TierTokensDelta" where
  "model_delta ds m = (case al_get ds m of Some d \<Rightarrow> d | None \<Rightarrow> delta_zero)"

text \<open>A tier delta that leaves every counter in the range of \<open>u64\<close>.\<close>

definition tier_fits :: "TierTokensDelta \<Rightarrow> bool" where
  "tier_fits d \<longleftrightarrow> (\<forall>x \<in> {td_input d, td_output d, td_cache_read d, td_cache_write d}. 0 \<le> x \<and> x \<le> int u64_max)"

lemma tier_eqI: "tier_int a = tier_int b \<Longrightarrow> a = b"
  by (cases a; cases b) (simp add: tier_int_def)

lemma tier_add_zero [simp]: "tier_add d delta_zero = d" "tier_add delta_zero d = d"
  by (simp_all add: tier_defs)

lemma tier_int_zero [simp]: "tier_int tier_zero = delta_zero"
  by (simp add: tier_defs)

lemma tier_delta_zero_iff: "tier_delta_is_zero d \<longleftrightarrow> d = delta_zero"
  by (cases d) (simp add: tier_defs)

lemma tier_apply_exact: "tier_fits (tier_add (tier_int t) d) \<Longrightarrow> tier_int (tier_apply t d) = tier_add (tier_int t) d"
  by (simp add: tier_fits_def tier_add_def tier_int_def tier_apply_def sat_add_signed_exact)

lemma model_tokens_apply:
  "model_tokens (ul_models (apply_model_delta m l)) k =
     (if k = fst m then tier_apply (model_tokens (ul_models l) k) (snd m) else model_tokens (ul_models l) k)"
  by (simp add: apply_model_delta_def model_tokens_def Let_def)

lemma fold_model_delta_counts [simp]:
  "ul_requests (fold apply_model_delta ms l) = ul_requests l"
  "ul_billable_requests (fold apply_model_delta ms l) = ul_billable_requests l"
  by (induction ms arbitrary: l) (simp_all add: apply_model_delta_def Let_def)

lemma model_tokens_fold:
  assumes "distinct (map fst ms)"
  shows "model_tokens (ul_models (fold apply_model_delta ms l)) k =
    (case al_get ms k of Some d \<Rightarrow> tier_apply (model_tokens (ul_models l) k) d | None \<Rightarrow> model_tokens (ul_models l) k)"
  using assms
proof (induction ms arbitrary: l)
  case (Cons m ms)
  have "al_get ms (fst m) = None" using Cons.prems by (simp add: al_get_None)
  then show ?case using Cons by (cases m) (auto simp: model_tokens_apply split: option.splits)
qed simp

lemma apply_delta_counts:
  "ul_requests (apply_delta d l) = sat_add_signed_u64 (ul_requests l) (ud_requests d)"
  "ul_billable_requests (apply_delta d l) = sat_add_signed_u64 (ul_billable_requests l) (ud_billable_requests d)"
  by (simp_all add: apply_delta_def)

lemma apply_delta_models:
  assumes "distinct (map fst (ud_models d))"
  shows "model_tokens (ul_models (apply_delta d l)) k =
    (case al_get (ud_models d) k of Some x \<Rightarrow> tier_apply (model_tokens (ul_models l) k) x
     | None \<Rightarrow> model_tokens (ul_models l) k)"
  using assms by (simp add: apply_delta_def model_tokens_fold split: option.split)

end
