(* ===== verification/LimitGroups.thy ===== *)
theory LimitGroups
  imports Prelude
begin

text \<open>
  The \<open>groups:\<close> block of the configuration (\<open>crates/busbar/src/config/groups.rs\<close>): the limit tree,
  the hand-written reader and writer of one limit, the validation of the tree and the template of an
  auto-provisioned child. A mapping node of the configuration file is the list of its entries, whose
  values are the scalars the reader asks for; every error of the reader and of the validation is a
  constructor of an error type.
\<close>

subsection \<open>Data\<close>

datatype LimitMetric = Requests | Tokens | Budget | Concurrent

datatype LimitWindow = Minute | Hour | Day | Month | Total

datatype OnExhaust = Block | Downgrade

fun metric_as_str :: "LimitMetric \<Rightarrow> string" where
  "metric_as_str Requests = ''requests''"
| "metric_as_str Tokens = ''tokens''"
| "metric_as_str Budget = ''budget''"
| "metric_as_str Concurrent = ''concurrent''"

fun window_as_str :: "LimitWindow \<Rightarrow> string" where
  "window_as_str Minute = ''minute''"
| "window_as_str Hour = ''hour''"
| "window_as_str Day = ''day''"
| "window_as_str Month = ''month''"
| "window_as_str Total = ''total''"

fun on_exhaust_as_str :: "OnExhaust \<Rightarrow> string" where
  "on_exhaust_as_str Block = ''block''"
| "on_exhaust_as_str Downgrade = ''downgrade''"

record LimitCfg =
  lc_metric :: LimitMetric
  lc_amount :: nat
  lc_per :: "LimitWindow option"
  lc_pool :: "string option"
  lc_on_exhaust :: "OnExhaust option"
  lc_downgrade_to :: "string option"

type_synonym ChildDefault = "LimitCfg list"

record GroupCfg =
  gc_parent :: "string option"
  gc_enabled :: bool
  gc_limits :: "LimitCfg list"
  gc_child_default :: "ChildDefault option"

definition group_cfg_default :: GroupCfg where
  "group_cfg_default = \<lparr>gc_parent = None, gc_enabled = True, gc_limits = [], gc_child_default = None\<rparr>"

subsection \<open>Reading and writing one limit\<close>

datatype scalar = SInt nat | SStr string

datatype LimitError =
    DuplicateField string
  | UnknownField string
  | InvalidValue string
  | TwoMetrics LimitMetric LimitMetric
  | NoMetric
  | ConcurrentWithPool
  | DowngradeWithoutTarget
  | TargetWithoutDowngrade
  | OnExhaustNotBudget LimitMetric
  | DowngradeWithoutPool
  | DowngradeToOwnPool
  | ConcurrentWithWindow
  | WindowMissing LimitMetric

text \<open>The values the reader asks of the deserializer.\<close>

fun read_u64 :: "scalar \<Rightarrow> nat option" where
  "read_u64 (SInt n) = (if n \<le> u64_max then Some n else None)"
| "read_u64 (SStr _) = None"

fun read_string :: "scalar \<Rightarrow> string option" where
  "read_string (SStr s) = Some s"
| "read_string (SInt _) = None"

definition read_window :: "scalar \<Rightarrow> LimitWindow option" where
  "read_window v = find (\<lambda>w. v = SStr (window_as_str w)) [Minute, Hour, Day, Month, Total]"

definition read_on_exhaust :: "scalar \<Rightarrow> OnExhaust option" where
  "read_on_exhaust v = find (\<lambda>w. v = SStr (on_exhaust_as_str w)) [Block, Downgrade]"

record limit_acc =
  la_metric :: "(LimitMetric \<times> nat) option"
  la_per :: "LimitWindow option"
  la_pool :: "string option"
  la_on_exhaust :: "OnExhaust option"
  la_downgrade_to :: "string option"

definition limit_acc_init :: limit_acc where
  "limit_acc_init = \<lparr>la_metric = None, la_per = None, la_pool = None, la_on_exhaust = None, la_downgrade_to = None\<rparr>"

definition named_metric :: "string \<Rightarrow> LimitMetric option" where
  "named_metric key = find (\<lambda>m. key = metric_as_str m) [Requests, Tokens, Budget, Concurrent]"

definition visit_entry :: "string \<times> scalar \<Rightarrow> limit_acc \<Rightarrow> LimitError + limit_acc" where
  "visit_entry e a =
     (let (key, v) = e in
      case named_metric key of
        Some m \<Rightarrow>
          (case la_metric a of
             Some (prev, _) \<Rightarrow> Inl (TwoMetrics prev m)
           | None \<Rightarrow> (case read_u64 v of None \<Rightarrow> Inl (InvalidValue key) | Some n \<Rightarrow> Inr (a\<lparr>la_metric := Some (m, n)\<rparr>)))
      | None \<Rightarrow>
          if key = ''per'' then
            (if la_per a \<noteq> None then Inl (DuplicateField key)
             else case read_window v of None \<Rightarrow> Inl (InvalidValue key) | Some w \<Rightarrow> Inr (a\<lparr>la_per := Some w\<rparr>))
          else if key = ''pool'' then
            (if la_pool a \<noteq> None then Inl (DuplicateField key)
             else case read_string v of None \<Rightarrow> Inl (InvalidValue key) | Some p \<Rightarrow> Inr (a\<lparr>la_pool := Some p\<rparr>))
          else if key = ''on_exhaust'' then
            (if la_on_exhaust a \<noteq> None then Inl (DuplicateField key)
             else case read_on_exhaust v of None \<Rightarrow> Inl (InvalidValue key) | Some x \<Rightarrow> Inr (a\<lparr>la_on_exhaust := Some x\<rparr>))
          else if key = ''downgrade_to'' then
            (if la_downgrade_to a \<noteq> None then Inl (DuplicateField key)
             else case read_string v of None \<Rightarrow> Inl (InvalidValue key) | Some p \<Rightarrow> Inr (a\<lparr>la_downgrade_to := Some p\<rparr>))
          else Inl (UnknownField key))"

fun visit_entries :: "(string \<times> scalar) list \<Rightarrow> limit_acc \<Rightarrow> LimitError + limit_acc" where
  "visit_entries [] a = Inr a"
| "visit_entries (e # es) a = (case visit_entry e a of Inl x \<Rightarrow> Inl x | Inr a' \<Rightarrow> visit_entries es a')"

definition finish_limit :: "limit_acc \<Rightarrow> LimitError + LimitCfg" where
  "finish_limit a =
     (case la_metric a of
        None \<Rightarrow> Inl NoMetric
      | Some (metric, amount) \<Rightarrow>
          if metric = Concurrent \<and> la_pool a \<noteq> None then Inl ConcurrentWithPool
          else if la_on_exhaust a = Some Downgrade \<and> la_downgrade_to a = None then Inl DowngradeWithoutTarget
          else if la_downgrade_to a \<noteq> None \<and> la_on_exhaust a \<noteq> Some Downgrade then Inl TargetWithoutDowngrade
          else if la_on_exhaust a \<noteq> None \<and> metric \<noteq> Budget then Inl (OnExhaustNotBudget metric)
          else if la_on_exhaust a = Some Downgrade \<and> la_pool a = None then Inl DowngradeWithoutPool
          else if la_on_exhaust a = Some Downgrade \<and> la_downgrade_to a = la_pool a then Inl DowngradeToOwnPool
          else case (metric, la_per a) of
            (Concurrent, Some _) \<Rightarrow> Inl ConcurrentWithWindow
          | (Concurrent, None) \<Rightarrow>
              Inr \<lparr>lc_metric = metric, lc_amount = amount, lc_per = None, lc_pool = None,
                   lc_on_exhaust = None, lc_downgrade_to = None\<rparr>
          | (_, None) \<Rightarrow> Inl (WindowMissing metric)
          | (_, Some window) \<Rightarrow>
              Inr \<lparr>lc_metric = metric, lc_amount = amount, lc_per = Some window, lc_pool = la_pool a,
                   lc_on_exhaust = la_on_exhaust a, lc_downgrade_to = la_downgrade_to a\<rparr>)"

definition deserialize_limit :: "(string \<times> scalar) list \<Rightarrow> LimitError + LimitCfg" where
  "deserialize_limit es = (case visit_entries es limit_acc_init of Inl x \<Rightarrow> Inl x | Inr a \<Rightarrow> finish_limit a)"

definition serialize_limit :: "LimitCfg \<Rightarrow> (string \<times> scalar) list" where
  "serialize_limit l =
     [(metric_as_str (lc_metric l), SInt (lc_amount l))]
     @ (case lc_per l of Some w \<Rightarrow> [(''per'', SStr (window_as_str w))] | None \<Rightarrow> [])
     @ (case lc_pool l of Some p \<Rightarrow> [(''pool'', SStr p)] | None \<Rightarrow> [])
     @ (case lc_on_exhaust l of Some x \<Rightarrow> [(''on_exhaust'', SStr (on_exhaust_as_str x))] | None \<Rightarrow> [])
     @ (case lc_downgrade_to l of Some p \<Rightarrow> [(''downgrade_to'', SStr p)] | None \<Rightarrow> [])"

subsection \<open>Validation of the tree\<close>

datatype GroupsError =
    NoSuchPool string string string
  | NoSuchDowngradePool string string string
  | NoSuchParent string string
  | CyclicChain string "string list" string

definition limit_errors :: "string \<Rightarrow> string \<Rightarrow> (string \<Rightarrow> bool) \<Rightarrow> LimitCfg \<Rightarrow> GroupsError list" where
  "limit_errors name field pool_exists l =
     (case lc_pool l of Some p \<Rightarrow> (if pool_exists p then [] else [NoSuchPool name field p]) | None \<Rightarrow> [])
     @ (case lc_downgrade_to l of Some p \<Rightarrow> (if pool_exists p then [] else [NoSuchDowngradePool name field p]) | None \<Rightarrow> [])"

text \<open>
  The walk up the parents from one group. It ends because every step but the last adds a group of
  the map to the visited path.
\<close>

function (sequential) cycle_walk ::
  "(string \<times> GroupCfg) list \<Rightarrow> string list \<Rightarrow> string option \<Rightarrow> (string list \<times> string) option" where
  "cycle_walk gs path None = None"
| "cycle_walk gs path (Some cur) =
     (if cur \<in> set path then Some (path, cur)
      else cycle_walk gs (path @ [cur]) (case al_get gs cur of Some g \<Rightarrow> gc_parent g | None \<Rightarrow> None))"
  by pat_completeness auto
termination
proof (relation "measure (\<lambda>(gs, path, cursor). 2 * card (fst ` set gs - set path) + (if cursor = None then 0 else 1))")
  fix gs :: "(string \<times> GroupCfg) list" and path :: "string list" and cur assume cur: "cur \<notin> set path"
  have fin: "finite (fst ` set gs - set path)" by simp
  show "((gs, path @ [cur], case al_get gs cur of Some g \<Rightarrow> gc_parent g | None \<Rightarrow> None), gs, path, Some cur)
    \<in> measure (\<lambda>(gs, path, cursor). 2 * card (fst ` set gs - set path) + (if cursor = None then 0 else 1))"
  proof (cases "cur \<in> fst ` set gs")
    case True
    then have "cur \<in> fst ` set gs - set path" using cur by simp
    then have "card (fst ` set gs - set path - {cur}) < card (fst ` set gs - set path)"
      by (rule card_Diff1_less [OF fin])
    moreover have "fst ` set gs - set (path @ [cur]) = fst ` set gs - set path - {cur}" by auto
    ultimately show ?thesis by simp
  next
    case False
    then have "al_get gs cur = None" by (simp add: al_get_None)
    moreover have "fst ` set gs - set (path @ [cur]) = fst ` set gs - set path" using False by auto
    ultimately show ?thesis by simp
  qed
qed simp

definition validate_group :: "(string \<times> GroupCfg) list \<Rightarrow> (string \<Rightarrow> bool) \<Rightarrow> string \<times> GroupCfg \<Rightarrow> GroupsError list" where
  "validate_group gs pool_exists e =
     (let (name, g) = e in
      concat (map (limit_errors name ''limits'' pool_exists) (gc_limits g))
      @ (case gc_child_default g of
           Some cd \<Rightarrow> concat (map (limit_errors name ''child_default.limits'' pool_exists) cd)
         | None \<Rightarrow> [])
      @ (case gc_parent g of
           Some parent \<Rightarrow>
             if al_get gs parent = None then [NoSuchParent name parent]
             else (case cycle_walk gs [name] (gc_parent g) of
                     Some (path, cur) \<Rightarrow> [CyclicChain name path cur] | None \<Rightarrow> [])
         | None \<Rightarrow> []))"

definition validate_groups :: "(string \<times> GroupCfg) list \<Rightarrow> (string \<Rightarrow> bool) \<Rightarrow> GroupsError list" where
  "validate_groups gs pool_exists = concat (map (validate_group gs pool_exists) gs)"

subsection \<open>Templates of provisioned children\<close>

fun child_default_walk :: "nat \<Rightarrow> (string \<times> GroupCfg) list \<Rightarrow> string option \<Rightarrow> ChildDefault option" where
  "child_default_walk 0 gs cursor = None"
| "child_default_walk (Suc n) gs cursor =
     (case cursor of
        None \<Rightarrow> None
      | Some name \<Rightarrow>
          (case al_get gs name of
             None \<Rightarrow> None
           | Some g \<Rightarrow> (case gc_child_default g of Some cd \<Rightarrow> Some cd | None \<Rightarrow> child_default_walk n gs (gc_parent g))))"

definition resolve_child_default :: "(string \<times> GroupCfg) list \<Rightarrow> string \<Rightarrow> ChildDefault option" where
  "resolve_child_default gs parent = child_default_walk (length gs + 1) gs (Some parent)"

definition provision_child :: "(string \<times> GroupCfg) list \<Rightarrow> string \<Rightarrow> GroupCfg" where
  "provision_child gs parent =
     group_cfg_default\<lparr>gc_parent := Some parent,
       gc_limits := (case resolve_child_default gs parent of Some cd \<Rightarrow> cd | None \<Rightarrow> [])\<rparr>"

subsection \<open>A limit survives the overlay\<close>

lemma named_metric_str [simp]: "named_metric (metric_as_str m) = Some m"
  by (cases m) (simp_all add: named_metric_def)

lemma named_metric_fields [simp]:
  "named_metric ''per'' = None" "named_metric ''pool'' = None"
  "named_metric ''on_exhaust'' = None" "named_metric ''downgrade_to'' = None"
  by (simp_all add: named_metric_def)

lemma read_window_str [simp]: "read_window (SStr (window_as_str w)) = Some w"
  by (cases w) (simp_all add: read_window_def)

lemma read_on_exhaust_str [simp]: "read_on_exhaust (SStr (on_exhaust_as_str x)) = Some x"
  by (cases x) (simp_all add: read_on_exhaust_def)

lemma read_on_exhaust_words [simp]:
  "read_on_exhaust (SStr ''block'') = Some Block" "read_on_exhaust (SStr ''downgrade'') = Some Downgrade"
  by (simp_all add: read_on_exhaust_def)

lemma visit_amount_le:
  assumes "visit_entries es a = Inr a'" "\<forall>m n. la_metric a = Some (m, n) \<longrightarrow> n \<le> u64_max"
  shows "\<forall>m n. la_metric a' = Some (m, n) \<longrightarrow> n \<le> u64_max"
  using assms
proof (induction es arbitrary: a)
  case (Cons e es)
  obtain b where b: "visit_entry e a = Inr b" "visit_entries es b = Inr a'"
    using Cons.prems(1) by (auto split: sum.splits)
  have "\<forall>m n. la_metric b = Some (m, n) \<longrightarrow> n \<le> u64_max"
  proof (cases "named_metric (fst e)")
    case None
    then show ?thesis using b(1) Cons.prems(2)
      by (auto simp: visit_entry_def split: if_splits option.splits prod.splits)
  next
    case (Some m)
    then show ?thesis using b(1)
      by (cases "snd e") (auto simp: visit_entry_def split: if_splits option.splits prod.splits)
  qed
  then show ?case using Cons.IH [OF b(2)] by blast
qed simp

text \<open>
  Every limit the reader accepts is written in a form the reader reads back to the same
  limit. This is what keeps a group budget that was applied through the admin interface in force
  after a restart, when it is re-read from the overlay.
\<close>

theorem limit_round_trip:
  assumes "deserialize_limit es = Inr l"
  shows "deserialize_limit (serialize_limit l) = Inr l"
proof -
  obtain a where a: "visit_entries es limit_acc_init = Inr a" "finish_limit a = Inr l"
    using assms by (auto simp: deserialize_limit_def split: sum.splits)
  then obtain m n where m: "la_metric a = Some (m, n)" by (auto simp: finish_limit_def split: option.splits)
  have n: "n \<le> u64_max" using visit_amount_le [OF a(1)] m by (simp add: limit_acc_init_def)
  show ?thesis
    using a(2) m n
    by (cases m; cases "la_per a"; cases "la_pool a"; cases "la_on_exhaust a"; cases "la_downgrade_to a")
      (auto simp: finish_limit_def deserialize_limit_def serialize_limit_def visit_entry_def limit_acc_init_def
        split: if_splits OnExhaust.splits)
qed

theorem limit_round_trip_witness:
  "let l = \<lparr>lc_metric = Budget, lc_amount = 5000, lc_per = Some Month, lc_pool = Some ''frontier'',
            lc_on_exhaust = Some Downgrade, lc_downgrade_to = Some ''value''\<rparr>
   in deserialize_limit [(''per'', SStr ''month''), (''budget'', SInt 5000), (''pool'', SStr ''frontier''),
        (''downgrade_to'', SStr ''value''), (''on_exhaust'', SStr ''downgrade'')] = Inr l
    \<and> deserialize_limit (serialize_limit l) = Inr l"
proof -
  define l where "l = \<lparr>lc_metric = Budget, lc_amount = 5000, lc_per = Some Month, lc_pool = Some ''frontier'',
            lc_on_exhaust = Some Downgrade, lc_downgrade_to = Some ''value''\<rparr>"
  have 1: "deserialize_limit [(''per'', SStr ''month''), (''budget'', SInt 5000), (''pool'', SStr ''frontier''),
        (''downgrade_to'', SStr ''value''), (''on_exhaust'', SStr ''downgrade'')] = Inr l"
    by (simp add: l_def deserialize_limit_def visit_entry_def limit_acc_init_def finish_limit_def named_metric_def
        read_window_def read_on_exhaust_def u64_max_def)
  then show ?thesis using limit_round_trip [OF 1] unfolding Let_def l_def by simp
qed

end
