(* ===== verification/Cost.thy ===== *)
theory Cost
  imports F64 Ledger LimitGroups Calendar "HOL-Library.List_Lexorder" "HOL-Library.Char_ord"
begin

text \<open>
  The cost and limit model (\<open>crates/busbar/src/cost.rs\<close>): the integer rate card, the projection of
  the \<open>groups:\<close> tree into enforcement buckets, the derivation of spend from a token ledger, and the
  enforcement chain of a key. Indexing a vector is modelled with its panic (\<open>None\<close>).
\<close>

subsection \<open>Rates\<close>

definition NANOS_PER_CENT :: nat where
  "NANOS_PER_CENT = 10000000"

definition NANOS_PER_MICRO :: nat where
  "NANOS_PER_MICRO = 1000"

definition GROUP_BUCKET_PREFIX :: string where
  "GROUP_BUCKET_PREFIX = ''group:''"

record RateEntryCfg =
  input_utok :: f64
  output_utok :: f64
  cache_read_utok :: f64
  cache_write_utok :: f64

record RateNanos =
  rn_input :: nat
  rn_output :: nat
  rn_cache_read :: nat
  rn_cache_write :: nat

definition rate_zero :: RateNanos where
  "rate_zero = \<lparr>rn_input = 0, rn_output = 0, rn_cache_read = 0, rn_cache_write = 0\<rparr>"

text \<open>\<open>f64::round\<close> rounds half away from zero; the cast \<open>as u64\<close> of a float saturates.\<close>

definition round_half_away :: "rat \<Rightarrow> int" where
  "round_half_away x = (if 0 \<le> x then \<lfloor>x + 1 / 2\<rfloor> else - \<lfloor>- x + 1 / 2\<rfloor>)"

definition nanos :: "f64 \<Rightarrow> nat" where
  "nanos utok =
     (case f64_mul utok (Fin 1000) of
        Fin x \<Rightarrow> (let v = round_half_away x in if 0 < v then min (nat v) u64_max else 0)
      | _ \<Rightarrow> 0)"

definition rate_from_cfg :: "RateEntryCfg \<Rightarrow> RateNanos" where
  "rate_from_cfg r = \<lparr>rn_input = nanos (input_utok r), rn_output = nanos (output_utok r),
     rn_cache_read = nanos (cache_read_utok r), rn_cache_write = nanos (cache_write_utok r)\<rparr>"

text \<open>
  Each product of two \<open>u64\<close> fits in \<open>u128\<close>; the three additions are plain, so in a release build
  they wrap.
\<close>

definition cost_nanos :: "RateNanos \<Rightarrow> TierTokens \<Rightarrow> nat" where
  "cost_nanos r t =
     wrap_u128 (wrap_u128 (wrap_u128 (tt_input t * rn_input r + tt_output t * rn_output r)
       + tt_cache_read t * rn_cache_read r) + tt_cache_write t * rn_cache_write r)"

subsection \<open>Groups and buckets\<close>

record GroupBucket =
  gb_bucket_id :: string
  gb_window :: string
  gb_requests_cap :: "nat option"
  gb_tokens_cap :: "nat option"
  gb_budget_cap :: "int option"
  gb_pool :: "string option"
  gb_downgrade_to :: "string option"

record GroupRuntime =
  gr_name :: string
  gr_enabled :: bool
  gr_concurrent_cap :: "nat option"
  gr_buckets :: "GroupBucket list"
  gr_parent :: "nat option"

record ChainBucket =
  cb_bucket_id :: string
  cb_group_name :: "string option"
  cb_window :: string
  cb_requests_cap :: "nat option"
  cb_tokens_cap :: "nat option"
  cb_budget_cap :: "int option"
  cb_pool :: "string option"
  cb_downgrade_to :: "string option"

definition applies_to_pool :: "ChainBucket \<Rightarrow> string \<Rightarrow> bool" where
  "applies_to_pool b pool = (case cb_pool b of None \<Rightarrow> True | Some p \<Rightarrow> p = pool)"

record Chain =
  ch_buckets :: "ChainBucket list"
  ch_groups :: "nat list"

record CostModel =
  cm_rates :: "(string \<times> RateNanos) list option"
  cm_groups :: "GroupRuntime list"
  cm_group_idx :: "(string \<times> nat) list"
  cm_price_per_request_cents :: int

text \<open>\<open>Some(cur.map_or(amount, |c| c.min(amount)))\<close>\<close>

definition min_cap :: "'a::linorder \<Rightarrow> 'a option \<Rightarrow> 'a option" where
  "min_cap amount cur = Some (case cur of None \<Rightarrow> amount | Some c \<Rightarrow> min c amount)"

definition group_bucket_id :: "string \<Rightarrow> string \<Rightarrow> string option \<Rightarrow> string" where
  "group_bucket_id name w pool =
     GROUP_BUCKET_PREFIX @ name @ ''@'' @ w @ (case pool of Some p \<Rightarrow> ''#'' @ p | None \<Rightarrow> [])"

definition fresh_bucket :: "string \<Rightarrow> string \<Rightarrow> string option \<Rightarrow> GroupBucket" where
  "fresh_bucket name w pool =
     \<lparr>gb_bucket_id = group_bucket_id name w pool, gb_window = w, gb_requests_cap = None, gb_tokens_cap = None,
      gb_budget_cap = None, gb_pool = pool, gb_downgrade_to = None\<rparr>"

definition bucket_apply :: "LimitCfg \<Rightarrow> GroupBucket \<Rightarrow> GroupBucket" where
  "bucket_apply l b =
     (case lc_metric l of
        Requests \<Rightarrow> b\<lparr>gb_requests_cap := min_cap (lc_amount l) (gb_requests_cap b)\<rparr>
      | Tokens \<Rightarrow> b\<lparr>gb_tokens_cap := min_cap (lc_amount l) (gb_tokens_cap b)\<rparr>
      | Budget \<Rightarrow>
          (let amount = i64_of_nat (lc_amount l);
               b1 = (if (case gb_budget_cap b of None \<Rightarrow> True | Some c \<Rightarrow> amount < c)
                     then b\<lparr>gb_downgrade_to := lc_downgrade_to l\<rparr> else b)
           in b1\<lparr>gb_budget_cap := min_cap amount (gb_budget_cap b1)\<rparr>)
      | Concurrent \<Rightarrow> b)"

text \<open>Write the first bucket with the limit's window and pool, or push a fresh one.\<close>

fun put_limit :: "string \<Rightarrow> string \<Rightarrow> LimitCfg \<Rightarrow> GroupBucket list \<Rightarrow> GroupBucket list" where
  "put_limit name w l [] = [bucket_apply l (fresh_bucket name w (lc_pool l))]"
| "put_limit name w l (b # bs) =
     (if gb_window b = w \<and> gb_pool b = lc_pool l then bucket_apply l b # bs else b # put_limit name w l bs)"

definition project_limit :: "string \<Rightarrow> LimitCfg \<Rightarrow> GroupBucket list \<times> nat option \<Rightarrow> GroupBucket list \<times> nat option" where
  "project_limit name l acc =
     (let (buckets, concurrent_cap) = acc in
      case lc_metric l of
        Concurrent \<Rightarrow> (buckets, min_cap (lc_amount l) concurrent_cap)
      | _ \<Rightarrow> (case lc_per l of
                Some window \<Rightarrow> (put_limit name (window_as_str window) l buckets, concurrent_cap)
              | None \<Rightarrow> (buckets, concurrent_cap)))"

definition project_group :: "(string \<times> nat) list \<Rightarrow> string \<times> GroupCfg \<Rightarrow> GroupRuntime" where
  "project_group group_idx e =
     (let (name, g) = e;
          (buckets, concurrent_cap) = fold (project_limit name) (gc_limits g) ([], None)
      in \<lparr>gr_name = name, gr_enabled = gc_enabled g, gr_concurrent_cap = concurrent_cap, gr_buckets = buckets,
          gr_parent = Option.bind (gc_parent g) (al_get group_idx)\<rparr>)"

definition project_groups :: "(string \<times> GroupCfg) list \<Rightarrow> GroupRuntime list \<times> (string \<times> nat) list" where
  "project_groups groups_cfg =
     (let entries = sort_key fst groups_cfg;
          group_idx = zip (map fst entries) [0..<length entries]
      in (map (project_group group_idx) entries, group_idx))"

definition resolve_parts ::
  "(string \<times> RateEntryCfg) list option \<Rightarrow> int \<Rightarrow> (string \<times> GroupCfg) list \<Rightarrow> CostModel" where
  "resolve_parts rate_card per_request_fee groups_cfg =
     (let rates = map_option (map (\<lambda>(model, r). (model, rate_from_cfg r))) rate_card;
          (groups, group_idx) = project_groups groups_cfg
      in \<lparr>cm_rates = rates, cm_groups = groups, cm_group_idx = group_idx,
          cm_price_per_request_cents = max per_request_fee 0\<rparr>)"

definition with_groups :: "CostModel \<Rightarrow> (string \<times> GroupCfg) list \<Rightarrow> CostModel" where
  "with_groups cm groups_cfg =
     (let (groups, group_idx) = project_groups groups_cfg
      in cm\<lparr>cm_groups := groups, cm_group_idx := group_idx\<rparr>)"

definition pricing_enabled :: "CostModel \<Rightarrow> bool" where
  "pricing_enabled cm \<longleftrightarrow> cm_rates cm \<noteq> None"

definition group_named :: "CostModel \<Rightarrow> string \<Rightarrow> GroupRuntime option" where
  "group_named cm name = (case al_get (cm_group_idx cm) name of
     Some i \<Rightarrow> (if i < length (cm_groups cm) then Some (cm_groups cm ! i) else None) | None \<Rightarrow> None)"

definition rate_for :: "CostModel \<Rightarrow> string \<Rightarrow> RateNanos option" where
  "rate_for cm model = (case cm_rates cm of None \<Rightarrow> Some rate_zero | Some table \<Rightarrow> al_get table model)"

definition model_unpriced :: "CostModel \<Rightarrow> string \<Rightarrow> bool" where
  "model_unpriced cm model = (case cm_rates cm of None \<Rightarrow> False | Some table \<Rightarrow> al_get table model = None)"

subsection \<open>Spend\<close>

definition sat_add_u128 :: "nat \<Rightarrow> nat \<Rightarrow> nat" where
  "sat_add_u128 a b = min (a + b) 340282366920938463463374607431768211455"

definition spend_nanos :: "CostModel \<Rightarrow> (string \<times> TierTokens) list \<Rightarrow> nat" where
  "spend_nanos cm models =
     foldl (\<lambda>n (model, tokens). case rate_for cm model of Some r \<Rightarrow> sat_add_u128 n (cost_nanos r tokens) | None \<Rightarrow> n)
       0 models"

definition derive_spend_cents :: "CostModel \<Rightarrow> (string \<times> TierTokens) list \<Rightarrow> nat \<Rightarrow> bool \<Rightarrow> int" where
  "derive_spend_cents cm models fee_requests include_request_fee =
     (let cents = i64_of_nat (spend_nanos cm models div NANOS_PER_CENT);
          cents = (if include_request_fee
                   then sat_i64 (cents + sat_i64 (cm_price_per_request_cents cm * i64_of_nat fee_requests))
                   else cents)
      in max cents 0)"

definition derive_spend_micros :: "CostModel \<Rightarrow> (string \<times> TierTokens) list \<Rightarrow> nat \<Rightarrow> bool \<Rightarrow> int" where
  "derive_spend_micros cm models fee_requests include_request_fee =
     (let micros = i64_of_nat (spend_nanos cm models div NANOS_PER_MICRO)
      in if include_request_fee
         then sat_i64 (micros + sat_i64 (sat_i64 (cm_price_per_request_cents cm * 10000) * i64_of_nat fee_requests))
         else micros)"

subsection \<open>The enforcement chain\<close>

definition chain_bucket :: "GroupRuntime \<Rightarrow> GroupBucket \<Rightarrow> ChainBucket" where
  "chain_bucket g b =
     \<lparr>cb_bucket_id = gb_bucket_id b, cb_group_name = Some (gr_name g), cb_window = gb_window b,
      cb_requests_cap = gb_requests_cap b, cb_tokens_cap = gb_tokens_cap b, cb_budget_cap = gb_budget_cap b,
      cb_pool = gb_pool b, cb_downgrade_to = gb_downgrade_to b\<rparr>"

text \<open>The loop of the walk; \<open>n\<close> is the number of steps left before its length reaches the group count.\<close>

fun chain_walk :: "nat \<Rightarrow> GroupRuntime list \<Rightarrow> nat option \<Rightarrow> (ChainBucket list \<times> nat list) option" where
  "chain_walk n gs None = Some ([], [])"
| "chain_walk 0 gs (Some i) = Some ([], [])"
| "chain_walk (Suc n) gs (Some i) =
     (if i < length gs
      then do {
        (bs, js) \<leftarrow> chain_walk n gs (gr_parent (gs ! i));
        Some (map (chain_bucket (gs ! i)) (gr_buckets (gs ! i)) @ bs, i # js) }
      else None)"

definition key_bucket :: "VirtualKey \<Rightarrow> ChainBucket" where
  "key_bucket key =
     \<lparr>cb_bucket_id = vk_id key, cb_group_name = None, cb_window = WINDOW_TOTAL, cb_requests_cap = None,
      cb_tokens_cap = None, cb_budget_cap = None, cb_pool = None, cb_downgrade_to = None\<rparr>"

definition chain_for :: "CostModel \<Rightarrow> VirtualKey \<Rightarrow> (string + Chain) option" where
  "chain_for cm key =
     (case vk_group key of
        None \<Rightarrow> Some (Inr \<lparr>ch_buckets = [key_bucket key], ch_groups = []\<rparr>)
      | Some name \<Rightarrow>
          (case al_get (cm_group_idx cm) name of
             None \<Rightarrow> Some (Inl name)
           | Some i \<Rightarrow> do {
               (bs, js) \<leftarrow> chain_walk (length (cm_groups cm)) (cm_groups cm) (Some i);
               Some (Inr \<lparr>ch_buckets = key_bucket key # bs, ch_groups = js\<rparr>) }))"

end
