(* ===== verification/CostChain.thy ===== *)
theory CostChain
  imports Cost "HOL-Library.Multiset"
begin

text \<open>
  Properties of the cost model: the projection of a group's limits keeps the most restrictive cap of
  every window and pool, a validated tree gives every key the chain of all its ancestors, bucket
  names do not alias, and derived spend is exact below saturation and monotone.
\<close>

subsection \<open>Projection of limits\<close>

text \<open>The amounts a list of limits declares for one metric, window and pool, and their minimum.\<close>

definition limit_amounts :: "LimitMetric \<Rightarrow> LimitWindow \<Rightarrow> string option \<Rightarrow> LimitCfg list \<Rightarrow> nat list" where
  "limit_amounts m w pool ls =
     map lc_amount (filter (\<lambda>l. lc_metric l = m \<and> lc_per l = Some w \<and> lc_pool l = pool) ls)"

definition least :: "'a::linorder list \<Rightarrow> 'a option" where
  "least xs = (if xs = [] then None else Some (Min (set xs)))"

definition bucket_at :: "GroupBucket list \<Rightarrow> string \<Rightarrow> string option \<Rightarrow> GroupBucket option" where
  "bucket_at bs w pool = find (\<lambda>b. gb_window b = w \<and> gb_pool b = pool) bs"

text \<open>A list of buckets with the caps of the limits \<open>ls\<close> in one window and pool scope.\<close>

definition caps_of :: "string \<Rightarrow> LimitCfg list \<Rightarrow> GroupBucket list \<Rightarrow> LimitWindow \<Rightarrow> string option \<Rightarrow> bool" where
  "caps_of name ls bs w pool \<longleftrightarrow>
     (case bucket_at bs (window_as_str w) pool of
        None \<Rightarrow> \<forall>m \<in> {Requests, Tokens, Budget}. limit_amounts m w pool ls = []
      | Some b \<Rightarrow> gb_bucket_id b = group_bucket_id name (window_as_str w) pool
          \<and> gb_requests_cap b = least (limit_amounts Requests w pool ls)
          \<and> gb_tokens_cap b = least (limit_amounts Tokens w pool ls)
          \<and> gb_budget_cap b = map_option i64_of_nat (least (limit_amounts Budget w pool ls)))"

lemma least_snoc: "least (xs @ [x]) = min_cap x (least xs)"
  by (cases "xs = []") (auto simp: least_def min_cap_def min.commute)

lemma least_Nil [simp]: "least [] = None"
  by (simp add: least_def)

lemma least_single [simp]: "least [x] = Some x"
  by (simp add: least_def)

lemma i64_of_nat_mono: "a \<le> b \<Longrightarrow> i64_of_nat a \<le> i64_of_nat b"
  by (auto simp: i64_of_nat_def)

lemma i64_of_nat_min: "i64_of_nat (min a b) = min (i64_of_nat a) (i64_of_nat b)"
  by (cases "a \<le> b") (simp_all add: i64_of_nat_mono min_absorb1 min_absorb2)

lemma least_snoc_i64:
  "map_option i64_of_nat (least (xs @ [x])) = min_cap (i64_of_nat x) (map_option i64_of_nat (least xs))"
  by (cases "least xs") (simp_all add: least_snoc min_cap_def i64_of_nat_min)

lemma window_str_inj [simp]: "window_as_str a = window_as_str b \<longleftrightarrow> a = b"
  by (cases a; cases b) simp_all

lemma bucket_apply_scope [simp]:
  "gb_window (bucket_apply l b) = gb_window b" "gb_pool (bucket_apply l b) = gb_pool b"
  "gb_bucket_id (bucket_apply l b) = gb_bucket_id b"
  by (simp_all add: bucket_apply_def Let_def split: LimitMetric.splits)

lemma bucket_at_put:
  "bucket_at (put_limit name w l bs) w' pool =
     (if w' = w \<and> pool = lc_pool l
      then Some (bucket_apply l (case bucket_at bs w pool of Some b \<Rightarrow> b | None \<Rightarrow> fresh_bucket name w pool))
      else bucket_at bs w' pool)"
  by (induction bs) (auto simp: bucket_at_def fresh_bucket_def)

lemma limit_amounts_snoc:
  "limit_amounts m w pool (ls @ [l]) =
     limit_amounts m w pool ls @ (if lc_metric l = m \<and> lc_per l = Some w \<and> lc_pool l = pool then [lc_amount l] else [])"
  by (simp add: limit_amounts_def)

lemma caps_of_step:
  assumes "caps_of name ls (fst acc) w pool"
  shows "caps_of name (ls @ [l]) (fst (project_limit name l acc)) w pool"
proof (cases "lc_metric l = Concurrent \<or> lc_per l = None")
  case True
  then have same: "fst (project_limit name l acc) = fst acc"
    by (auto simp: project_limit_def split: LimitMetric.splits option.splits prod.splits)
  have none: "limit_amounts m w pool (ls @ [l]) = limit_amounts m w pool ls" if "m \<in> {Requests, Tokens, Budget}" for m
    using True that by (auto simp: limit_amounts_snoc)
  show ?thesis using assms by (simp add: caps_of_def same none split: option.splits)
next
  case False
  then obtain v where v: "lc_per l = Some v" by auto
  have put: "fst (project_limit name l acc) = put_limit name (window_as_str v) l (fst acc)"
    using False v by (auto simp: project_limit_def split: LimitMetric.splits prod.splits)
  show ?thesis
  proof (cases "w = v \<and> pool = lc_pool l")
    case True
    then show ?thesis
      using assms False v
      by (cases "lc_metric l"; cases "bucket_at (fst acc) (window_as_str v) pool")
        (simp_all add: caps_of_def put bucket_at_put bucket_apply_def limit_amounts_snoc fresh_bucket_def
          least_snoc min_cap_def i64_of_nat_min Let_def split: option.split)
  next
    case other: False
    then have none: "limit_amounts m w pool (ls @ [l]) = limit_amounts m w pool ls" for m
      using v by (auto simp: limit_amounts_snoc)
    show ?thesis
      using assms other by (auto simp: caps_of_def put bucket_at_put none split: option.splits)
  qed
qed

lemma caps_of_fold:
  "caps_of name ls (fst (fold (project_limit name) ls ([], None))) w pool"
proof (induction ls rule: rev_induct)
  case (snoc l ls)
  then show ?case using caps_of_step [of name ls "fold (project_limit name) ls ([], None)" w pool l] by simp
qed (simp add: caps_of_def bucket_at_def limit_amounts_def)

lemma concurrent_fold:
  "snd (fold (project_limit name) ls ([], None)) = least (map lc_amount (filter (\<lambda>l. lc_metric l = Concurrent) ls))"
proof (induction ls rule: rev_induct)
  case (snoc l ls)
  then show ?case
    by (cases "lc_metric l") (auto simp: project_limit_def least_snoc split: prod.splits option.splits)
qed simp

lemma put_limit_distinct:
  "distinct (map (\<lambda>b. (gb_window b, gb_pool b)) bs)
   \<Longrightarrow> distinct (map (\<lambda>b. (gb_window b, gb_pool b)) (put_limit name w l bs))"
proof (induction bs)
  case (Cons b bs)
  have "(\<lambda>b. (gb_window b, gb_pool b)) ` set (put_limit name w l bs)
      \<subseteq> insert (w, lc_pool l) ((\<lambda>b. (gb_window b, gb_pool b)) ` set bs)"
    by (induction bs) (auto simp: fresh_bucket_def)
  then show ?case using Cons by (auto simp: image_iff)
qed (simp add: fresh_bucket_def)

lemma fold_limits_distinct:
  "distinct (map (\<lambda>b. (gb_window b, gb_pool b)) (fst acc))
   \<Longrightarrow> distinct (map (\<lambda>b. (gb_window b, gb_pool b)) (fst (fold (project_limit name) ls acc)))"
proof (induction ls arbitrary: acc)
  case (Cons l ls)
  have "distinct (map (\<lambda>b. (gb_window b, gb_pool b)) (fst (project_limit name l acc)))"
    using Cons.prems put_limit_distinct
    by (auto simp: project_limit_def split: LimitMetric.splits option.splits prod.splits)
  then show ?case using Cons.IH by simp
qed simp

text \<open>
  The projection of a group into enforcement buckets loses no limit and invents none. For
  every window and pool scope there is at most one bucket; each of its three caps is the smallest
  amount any limit of the group declares for that metric in that scope (\<open>None\<close> when there is no such
  limit, and then, if no metric has one, no bucket); the in-flight cap is the smallest \<open>concurrent\<close>
  amount. Budget amounts above the \<open>i64\<close> range count as \<open>i64::MAX\<close>.
\<close>

theorem projection_keeps_tightest_caps:
  "let g = project_group idx (name, cfg) in
     distinct (map (\<lambda>b. (gb_window b, gb_pool b)) (gr_buckets g))
   \<and> gr_concurrent_cap g = least (map lc_amount (filter (\<lambda>l. lc_metric l = Concurrent) (gc_limits cfg)))
   \<and> (case bucket_at (gr_buckets g) (window_as_str w) pool of
        None \<Rightarrow> limit_amounts Requests w pool (gc_limits cfg) = []
          \<and> limit_amounts Tokens w pool (gc_limits cfg) = [] \<and> limit_amounts Budget w pool (gc_limits cfg) = []
      | Some b \<Rightarrow> gb_bucket_id b = group_bucket_id name (window_as_str w) pool
          \<and> gb_requests_cap b = least (limit_amounts Requests w pool (gc_limits cfg))
          \<and> gb_tokens_cap b = least (limit_amounts Tokens w pool (gc_limits cfg))
          \<and> gb_budget_cap b = map_option i64_of_nat (least (limit_amounts Budget w pool (gc_limits cfg))))"
proof -
  obtain bs cc where f: "fold (project_limit name) (gc_limits cfg) ([], None) = (bs, cc)"
    by (cases "fold (project_limit name) (gc_limits cfg) ([], None)")
  have g: "gr_buckets (project_group idx (name, cfg)) = bs" "gr_concurrent_cap (project_group idx (name, cfg)) = cc"
    by (simp_all add: project_group_def f)
  have d: "distinct (map (\<lambda>b. (gb_window b, gb_pool b)) bs)"
    using fold_limits_distinct [of "([], None)" name "gc_limits cfg"] f by simp
  have c: "cc = least (map lc_amount (filter (\<lambda>l. lc_metric l = Concurrent) (gc_limits cfg)))"
    using concurrent_fold [of name "gc_limits cfg"] f by simp
  have k: "caps_of name (gc_limits cfg) bs w pool" using caps_of_fold [of name "gc_limits cfg" w pool] f by simp
  show ?thesis unfolding Let_def g using d c k by (simp add: caps_of_def split: option.splits)
qed

subsection \<open>Well-formed models\<close>

definition cost_wf :: "CostModel \<Rightarrow> bool" where
  "cost_wf cm \<longleftrightarrow> (\<forall>(n, i) \<in> set (cm_group_idx cm). i < length (cm_groups cm))
     \<and> (\<forall>g \<in> set (cm_groups cm). \<forall>i. gr_parent g = Some i \<longrightarrow> i < length (cm_groups cm))
     \<and> 0 \<le> cm_price_per_request_cents cm"

lemma project_groups_wf:
  assumes "project_groups cfg = (gs, idx)"
  shows "\<forall>(n, i) \<in> set idx. i < length gs" and "\<forall>g \<in> set gs. \<forall>i. gr_parent g = Some i \<longrightarrow> i < length gs"
proof -
  have idx: "idx = zip (map fst (sort_key fst cfg)) [0..<length cfg]"
    and gs: "gs = map (project_group idx) (sort_key fst cfg)"
    using assms by (auto simp: project_groups_def Let_def)
  show 1: "\<forall>(n, i) \<in> set idx. i < length gs"
    by (auto simp: idx gs dest!: set_zip_rightD)
  show "\<forall>g \<in> set gs. \<forall>i. gr_parent g = Some i \<longrightarrow> i < length gs"
  proof (intro ballI allI impI)
    fix g i assume "g \<in> set gs" "gr_parent g = Some i"
    then obtain p where "al_get idx p = Some i"
      by (auto simp: gs project_group_def bind_eq_Some_conv split: prod.splits)
    then show "i < length gs" using 1 al_get_mem by fastforce
  qed
qed

lemma resolve_parts_wf: "cost_wf (resolve_parts rc fee cfg)"
proof -
  obtain gs idx where p: "project_groups cfg = (gs, idx)" by (cases "project_groups cfg")
  show ?thesis using project_groups_wf [OF p] by (simp add: cost_wf_def resolve_parts_def p)
qed

lemma with_groups_wf: "cost_wf cm \<Longrightarrow> cost_wf (with_groups cm cfg)"
proof -
  assume "cost_wf cm"
  moreover obtain gs idx where p: "project_groups cfg = (gs, idx)" by (cases "project_groups cfg")
  ultimately show ?thesis using project_groups_wf [OF p] by (simp add: cost_wf_def with_groups_def p)
qed

lemma chain_walk_total:
  assumes "\<forall>g \<in> set gs. \<forall>i. gr_parent g = Some i \<longrightarrow> i < length gs" "\<forall>i. next = Some i \<longrightarrow> i < length gs"
  shows "\<exists>bs js. chain_walk n gs next = Some (bs, js) \<and> (\<forall>j \<in> set js. j < length gs)
    \<and> (\<forall>b \<in> set bs. \<exists>j \<in> set js. cb_group_name b = Some (gr_name (gs ! j)))"
  using assms
proof (induction n gs "next" rule: chain_walk.induct)
  case (3 n gs i)
  then have "i < length gs" by simp
  moreover from this obtain bs js where "chain_walk n gs (gr_parent (gs ! i)) = Some (bs, js)"
    "\<forall>j \<in> set js. j < length gs" "\<forall>b \<in> set bs. \<exists>j \<in> set js. cb_group_name b = Some (gr_name (gs ! j))"
    using 3 nth_mem by metis
  ultimately show ?case by (auto simp: chain_bucket_def)
qed simp_all

text \<open>Resolving the chain of a key never indexes out of bounds; only group buckets carry caps.\<close>

lemma chain_for_total:
  assumes "cost_wf cm"
  obtains (missing) name where "vk_group key = Some name" "al_get (cm_group_idx cm) name = None"
      "chain_for cm key = Some (Inl name)"
    | (chain) ch where "chain_for cm key = Some (Inr ch)" "\<forall>j \<in> set (ch_groups ch). j < length (cm_groups cm)"
      "hd (ch_buckets ch) = key_bucket key" "ch_buckets ch \<noteq> []"
      "\<forall>b \<in> set (tl (ch_buckets ch)). cb_group_name b \<noteq> None"
proof (cases "vk_group key")
  case None
  then show thesis by (intro chain [of "\<lparr>ch_buckets = [key_bucket key], ch_groups = []\<rparr>"]) (simp_all add: chain_for_def)
next
  case (Some name)
  show thesis
  proof (cases "al_get (cm_group_idx cm) name")
    case None
    then show thesis using Some by (intro missing [of name]) (simp_all add: chain_for_def)
  next
    case i: (Some i)
    then have "i < length (cm_groups cm)" using assms al_get_mem by (fastforce simp: cost_wf_def)
    then obtain bs js where w: "chain_walk (length (cm_groups cm)) (cm_groups cm) (Some i) = Some (bs, js)"
      "\<forall>j \<in> set js. j < length (cm_groups cm)" "\<forall>b \<in> set bs. \<exists>j \<in> set js. cb_group_name b = Some (gr_name (cm_groups cm ! j))"
      using chain_walk_total [of "cm_groups cm" "Some i" "length (cm_groups cm)"] assms by (auto simp: cost_wf_def)
    then show thesis
      using Some i by (intro chain [of "\<lparr>ch_buckets = key_bucket key # bs, ch_groups = js\<rparr>"]) (auto simp: chain_for_def)
  qed
qed

subsection \<open>A validated tree\<close>

text \<open>The names from a group up to its root, following \<open>parent:\<close>.\<close>

fun ancestry :: "(string \<times> GroupCfg) list \<Rightarrow> string list \<Rightarrow> bool" where
  "ancestry gs [] = False"
| "ancestry gs [n] = (\<exists>g. al_get gs n = Some g \<and> gc_parent g = None)"
| "ancestry gs (n # m # r) = ((\<exists>g. al_get gs n = Some g \<and> gc_parent g = Some m) \<and> ancestry gs (m # r))"

lemma al_get_key: "al_get gs n = Some g \<Longrightarrow> n \<in> fst ` set gs"
  by (metis al_get_None option.distinct(1))

lemma ancestry_known: "ancestry gs p \<Longrightarrow> set p \<subseteq> fst ` set gs"
  by (induction gs p rule: ancestry.induct) (auto dest: al_get_key)

lemma cycle_walk_ancestry:
  assumes "cycle_walk gs path (Some cur) = None" "al_get gs cur \<noteq> None"
    and "\<forall>(n, g) \<in> set gs. \<forall>p. gc_parent g = Some p \<longrightarrow> al_get gs p \<noteq> None"
  shows "\<exists>q. ancestry gs (cur # q) \<and> distinct (cur # q) \<and> set (cur # q) \<inter> set path = {}"
  using assms
proof (induction gs path "Some cur" arbitrary: cur rule: cycle_walk.induct)
  case (2 gs path cur)
  obtain g where g: "al_get gs cur = Some g" using 2 by auto
  have cur: "cur \<notin> set path" using 2 by (auto split: if_splits)
  show ?case
  proof (cases "gc_parent g")
    case None
    then show ?thesis using g cur by (intro exI [of _ "[]"]) simp
  next
    case (Some p)
    have "al_get gs p \<noteq> None" using 2(4) al_get_mem [OF g] Some by fastforce
    moreover have "cycle_walk gs (path @ [cur]) (Some p) = None" using 2(2) cur g Some by simp
    ultimately obtain q where q: "ancestry gs (p # q)" "distinct (p # q)" "set (p # q) \<inter> set (path @ [cur]) = {}"
      using 2(1) [OF cur] g Some 2(4) by auto
    then show ?thesis using g Some cur by (intro exI [of _ "p # q"]) auto
  qed
qed

lemma validated_ancestry:
  assumes "validate_groups gs pe = []" "al_get gs name = Some g" "distinct (map fst gs)"
  obtains q where "ancestry gs (name # q)" "distinct (name # q)"
proof -
  have v: "validate_group gs pe (n, h) = []" if "(n, h) \<in> set gs" for n h
    using assms(1) that by (auto simp: validate_groups_def)
  have parents: "\<forall>(n, g) \<in> set gs. \<forall>p. gc_parent g = Some p \<longrightarrow> al_get gs p \<noteq> None"
    using v by (force simp: validate_group_def split: if_splits)
  show thesis
  proof (cases "gc_parent g")
    case None
    then show thesis using assms(2) by (intro that [of "[]"]) simp_all
  next
    case (Some p)
    have mem: "(name, g) \<in> set gs" using assms(2) by (rule al_get_mem)
    then have p: "al_get gs p \<noteq> None" using parents Some by fastforce
    have "cycle_walk gs [name] (Some p) = None"
      using v [OF mem] Some p by (auto simp: validate_group_def split: if_splits option.splits)
    then obtain q where "ancestry gs (p # q)" "distinct (p # q)" "set (p # q) \<inter> set [name] = {}"
      using cycle_walk_ancestry [OF _ p parents] by blast
    then show thesis using assms(2) Some by (intro that [of "p # q"]) auto
  qed
qed

lemma al_get_mset:
  assumes "mset xs = mset ys" "distinct (map fst xs)"
  shows "al_get xs k = al_get ys k"
proof -
  have d: "distinct (map fst ys)" using assms by (metis mset_eq_imp_distinct_iff mset_map)
  have s: "set xs = set ys" using assms(1) by (rule mset_eq_setD)
  show ?thesis
  proof (cases "al_get xs k")
    case None
    then show ?thesis using s al_get_None [of xs k] al_get_None [of ys k] by simp
  next
    case (Some v)
    then show ?thesis using al_get_mem [OF Some] s mem_al_get [OF d, of k v] by simp
  qed
qed

lemma al_get_zip_idx:
  "distinct ns \<Longrightarrow> al_get (zip ns [a..<a + length ns]) n = Some i \<longleftrightarrow> a \<le> i \<and> i < a + length ns \<and> ns ! (i - a) = n"
proof (induction ns arbitrary: a)
  case (Cons m ns)
  have "[a..<a + length (m # ns)] = a # [Suc a..<Suc a + length ns]" by (simp add: upt_rec)
  then have z: "zip (m # ns) [a..<a + length (m # ns)] = (m, a) # zip ns [Suc a..<Suc a + length ns]"
    by (simp only: zip_Cons_Cons)
  show ?case
  proof (cases "m = n")
    case True
    then have "(m # ns) ! (i - a) = n \<longleftrightarrow> i = a" if "a \<le> i" "i < a + length (m # ns)" for i
      using that Cons.prems nth_eq_iff_index_eq [of "m # ns" "i - a" 0] by (auto simp: True)
    then show ?thesis unfolding z using True by auto
  next
    case False
    have "al_get ((m, a) # zip ns [Suc a..<Suc a + length ns]) n = Some i \<longleftrightarrow>
        Suc a \<le> i \<and> i < Suc a + length ns \<and> ns ! (i - Suc a) = n"
      using Cons.IH [of "Suc a"] Cons.prems False by simp
    also have "\<dots> \<longleftrightarrow> a \<le> i \<and> i < a + length (m # ns) \<and> (m # ns) ! (i - a) = n"
      using False by (cases "i - a") (auto simp: nth_Cons diff_Suc split: nat.splits)
    finally show ?thesis unfolding z .
  qed
qed simp

text \<open>What the projected table holds, in terms of the configuration.\<close>

lemma projected:
  assumes "distinct (map fst cfg)" and p: "project_groups cfg = (gs, idx)"
  shows "al_get cfg n = Some g \<Longrightarrow> \<exists>i. al_get idx n = Some i \<and> i < length gs \<and> gs ! i = project_group idx (n, g)"
    and "al_get cfg n = None \<Longrightarrow> al_get idx n = None" and "length gs = length cfg"
proof -
  define es where "es = sort_key fst cfg"
  have idx: "idx = zip (map fst es) [0..<0 + length (map fst es)]" and gs: "gs = map (project_group idx) es"
    using p by (auto simp: project_groups_def Let_def es_def)
  show "length gs = length cfg" by (simp add: gs es_def)
  have d: "distinct (map fst es)"
    using assms(1) unfolding es_def by (metis mset_eq_imp_distinct_iff mset_map mset_sort)
  have get: "al_get es k = al_get cfg k" for k
    by (rule al_get_mset) (use d in \<open>simp_all add: es_def\<close>)
  note z = al_get_zip_idx [OF d, of 0, folded idx]
  show "\<exists>i. al_get idx n = Some i \<and> i < length gs \<and> gs ! i = project_group idx (n, g)" if "al_get cfg n = Some g"
  proof -
    have "(n, g) \<in> set es" using that get al_get_mem by metis
    then obtain i where i: "i < length es" "es ! i = (n, g)" by (auto simp: in_set_conv_nth)
    then have "al_get idx n = Some i" using z [of n i] by simp
    then show ?thesis using i by (auto simp: gs)
  qed
  show "al_get idx n = None" if none: "al_get cfg n = None"
  proof (cases "al_get idx n")
    case (Some i)
    then have "i < length es" "fst (es ! i) = n" using z [of n i] by (auto simp: nth_map)
    then have "n \<in> fst ` set es" using nth_mem by blast
    then show ?thesis using none get al_get_None [of es n] by simp
  qed
qed

lemma chain_walk_buckets:
  "chain_walk n gs next = Some (bs, js) \<Longrightarrow> bs = concat (map (\<lambda>j. map (chain_bucket (gs ! j)) (gr_buckets (gs ! j))) js)"
  by (induction n gs "next" arbitrary: bs js rule: chain_walk.induct) (auto split: if_splits bind_splits)

lemma chain_walk_ancestry:
  assumes d: "distinct (map fst cfg)" and p: "project_groups cfg = (gs, idx)"
    and "ancestry cfg path" "length path \<le> n" "al_get idx (hd path) = Some i"
  shows "\<exists>bs js. chain_walk n gs (Some i) = Some (bs, js) \<and> map (\<lambda>j. gr_name (gs ! j)) js = path"
  using assms(3-)
proof (induction path arbitrary: n i)
  case (Cons m r)
  obtain n' where n: "n = Suc n'" using Cons.prems(2) by (cases n) auto
  obtain g where g: "al_get cfg m = Some g" using Cons.prems(1) by (cases r) auto
  have i: "i < length gs" "gs ! i = project_group idx (m, g)"
    using projected(1) [OF d p g] Cons.prems(3) by auto
  have name: "gr_name (gs ! i) = m" and parent: "gr_parent (gs ! i) = Option.bind (gc_parent g) (al_get idx)"
    by (simp_all add: i(2) project_group_def split: prod.split)
  show ?case
  proof (cases r)
    case Nil
    then have "gr_parent (gs ! i) = None" using Cons.prems(1) g parent by simp
    then show ?thesis using i(1) name Nil by (simp add: n)
  next
    case (Cons k q)
    then have k: "gc_parent g = Some k" "ancestry cfg (k # q)" using Cons.prems(1) g by auto
    obtain h where "al_get cfg k = Some h" using k(2) by (cases q) auto
    then obtain j where j: "al_get idx k = Some j" using projected(1) [OF d p] by blast
    obtain bs js where "chain_walk n' gs (Some j) = Some (bs, js)" "map (\<lambda>j. gr_name (gs ! j)) js = r"
      using Cons.IH [of n' j] k(2) j Cons.prems(2) Cons n by auto
    then show ?thesis using i(1) name parent k(1) j by (simp add: n)
  qed
qed simp

text \<open>
  Claim C31. When the validation of the \<open>groups:\<close> tree reports nothing, the enforcement chain of a key
  is complete: it consists of the key's own bucket followed by every bucket of the bound group, of
  its parent, and so on up to a root, in that order. In particular the defensive bound on the walk
  never cuts an ancestor off, so no ancestor's limit goes unenforced. A key bound to a group that the
  configuration does not have gets the error that makes admission fail closed.
\<close>

theorem chain_is_whole_ancestry:
  assumes "validate_groups cfg pool_exists = []" "distinct (map fst cfg)" "vk_group key = Some name"
  shows "let cm = resolve_parts rate_card fee cfg in
    case al_get cfg name of
      None \<Rightarrow> chain_for cm key = Some (Inl name)
    | Some _ \<Rightarrow> \<exists>path ch. ancestry cfg (name # path) \<and> chain_for cm key = Some (Inr ch)
        \<and> map (\<lambda>j. gr_name (cm_groups cm ! j)) (ch_groups ch) = name # path
        \<and> ch_buckets ch = key_bucket key
            # concat (map (\<lambda>j. map (chain_bucket (cm_groups cm ! j)) (gr_buckets (cm_groups cm ! j))) (ch_groups ch))"
proof -
  obtain gs idx where p: "project_groups cfg = (gs, idx)" by (cases "project_groups cfg")
  define cm where "cm = resolve_parts rate_card fee cfg"
  have cm: "cm_groups cm = gs" "cm_group_idx cm = idx" by (simp_all add: cm_def resolve_parts_def p)
  show ?thesis
  proof (cases "al_get cfg name")
    case None
    then show ?thesis
      using projected(2) [OF assms(2) p None] assms(3) cm unfolding Let_def cm_def [symmetric]
      by (simp add: chain_for_def)
  next
    case (Some g)
    obtain path where path: "ancestry cfg (name # path)" "distinct (name # path)"
      using validated_ancestry [OF assms(1) Some assms(2)] .
    have "card (set (name # path)) \<le> card (fst ` set cfg)"
      by (rule card_mono) (use ancestry_known [OF path(1)] in simp_all)
    then have len: "length (name # path) \<le> length gs"
      using distinct_card [OF path(2)] card_image_le [of "set cfg" fst] card_length [of cfg] projected(3) [OF assms(2) p]
      by simp
    obtain i where i: "al_get idx name = Some i" using projected(1) [OF assms(2) p Some] by blast
    obtain bs js where w: "chain_walk (length gs) gs (Some i) = Some (bs, js)" "map (\<lambda>j. gr_name (gs ! j)) js = name # path"
      using chain_walk_ancestry [OF assms(2) p path(1) len] i by auto
    then show ?thesis
      using Some i assms(3) path(1) cm chain_walk_buckets [OF w(1)] unfolding Let_def cm_def [symmetric]
      by (simp add: chain_for_def)
  qed
qed

text \<open>A team under an organisation, the key bound to the team.\<close>

definition example_groups :: "(string \<times> GroupCfg) list" where
  "example_groups =
     [(''org'', \<lparr>gc_parent = None, gc_enabled = True,
        gc_limits = [\<lparr>lc_metric = Requests, lc_amount = 3, lc_per = Some Day, lc_pool = None,
                      lc_on_exhaust = None, lc_downgrade_to = None\<rparr>],
        gc_child_default = None\<rparr>),
      (''team'', \<lparr>gc_parent = Some ''org'', gc_enabled = True,
        gc_limits = [\<lparr>lc_metric = Requests, lc_amount = 2, lc_per = Some Day, lc_pool = None,
                      lc_on_exhaust = None, lc_downgrade_to = None\<rparr>,
                     \<lparr>lc_metric = Concurrent, lc_amount = 1, lc_per = None, lc_pool = None,
                      lc_on_exhaust = None, lc_downgrade_to = None\<rparr>],
        gc_child_default = None\<rparr>)]"

definition example_key :: VirtualKey where
  "example_key = \<lparr>vk_id = ''vk_1'', vk_key_hash = ''h'', vk_name = ''k'', vk_allowed_pools = None, vk_enabled = True,
     vk_created_at = 0, vk_group = Some ''team'', vk_labels = []\<rparr>"

theorem chain_is_whole_ancestry_witness:
  "\<exists>path ch. ancestry example_groups (''team'' # path)
     \<and> chain_for (resolve_parts None 1 example_groups) example_key = Some (Inr ch)
     \<and> map (\<lambda>j. gr_name (cm_groups (resolve_parts None 1 example_groups) ! j)) (ch_groups ch) = ''team'' # path"
proof -
  have v: "validate_groups example_groups (\<lambda>_. True) = []"
    by (simp add: example_groups_def validate_groups_def validate_group_def limit_errors_def)
  have d: "distinct (map fst example_groups)" by (simp add: example_groups_def)
  have g: "al_get example_groups ''team'' \<noteq> None" by (simp add: example_groups_def)
  show ?thesis
    using chain_is_whole_ancestry [OF v d, of example_key "''team''" None 1] g
    by (auto simp: Let_def example_key_def)
qed

subsection \<open>Bucket names\<close>

lemma split_at_first:
  assumes "c \<notin> set a" "c \<notin> set a'" "a @ c # x = a' @ c # x'"
  shows "a = a' \<and> x = x'"
proof -
  have t: "takeWhile (\<lambda>d. d \<noteq> c) (b @ c # y) = b" if "c \<notin> set b" for b y
    using that by (induction b) auto
  have "a = a'" using t [OF assms(1), of x] t [OF assms(2), of x'] assms(3) by simp
  then show ?thesis using assms(3) by simp
qed

lemma group_bucket_id_inj:
  assumes "CHR ''@'' \<notin> set name" "CHR ''@'' \<notin> set name'"
  shows "group_bucket_id name (window_as_str w) pool = group_bucket_id name' (window_as_str w') pool'
      \<longleftrightarrow> name = name' \<and> w = w' \<and> pool = pool'"
proof -
  define f where "f w p = window_as_str w @ (case p of Some p \<Rightarrow> CHR ''#'' # p | None \<Rightarrow> [])" for w p
  have word: "CHR ''#'' \<notin> set (window_as_str w)" for w by (cases w) simp_all
  have f: "w = w' \<and> pool = pool'" if eq: "f w pool = f w' pool'"
  proof -
    have "window_as_str w @ CHR ''#'' # p = window_as_str w' @ CHR ''#'' # p' \<Longrightarrow> w = w' \<and> p = p'" for p p'
      using split_at_first [OF word word] by auto
    moreover have "window_as_str v @ CHR ''#'' # a \<noteq> window_as_str v'" "window_as_str v' \<noteq> window_as_str v @ CHR ''#'' # a"
      for v v' a using word [of v'] by (metis in_set_conv_decomp)+
    ultimately show ?thesis
      using eq by (cases pool; cases pool') (auto simp: f_def)
  qed
  have id: "group_bucket_id n (window_as_str v) p = ''group:'' @ (n @ CHR ''@'' # f v p)" for n v p
    by (simp add: group_bucket_id_def GROUP_BUCKET_PREFIX_def f_def split: option.split)
  have "name = name' \<and> w = w' \<and> pool = pool'"
    if "name @ CHR ''@'' # f w pool = name' @ CHR ''@'' # f w' pool'"
    using split_at_first [OF assms that] f by simp
  then show ?thesis unfolding id same_append_eq by auto
qed

text \<open>
  When no group name contains an at sign, distinct (group, window, pool) scopes have
  distinct ledger buckets, and no group bucket is named like the bucket of a virtual key, so no two
  limits share a counter.
\<close>

theorem bucket_ids_distinct:
  assumes "CHR ''@'' \<notin> set name" "CHR ''@'' \<notin> set name'"
  shows "(group_bucket_id name (window_as_str w) pool = group_bucket_id name' (window_as_str w') pool'
      \<longleftrightarrow> name = name' \<and> w = w' \<and> pool = pool')
    \<and> group_bucket_id name (window_as_str w) pool \<noteq> ''vk_'' @ hex"
  using group_bucket_id_inj [OF assms, of w pool w' pool'] by (simp add: group_bucket_id_def GROUP_BUCKET_PREFIX_def)

theorem bucket_ids_distinct_witness:
  "group_bucket_id ''team'' (window_as_str Day) (Some ''fast'') \<noteq> group_bucket_id ''team'' (window_as_str Day) None"
  using bucket_ids_distinct [of "''team''" "''team''" Day "Some ''fast''" Day None] by simp

text \<open>Without that restriction two scopes can share one counter.\<close>

lemma bucket_ids_collide:
  "group_bucket_id ''x'' (window_as_str Day) (Some ''p@day'') = group_bucket_id ''x@day#p'' (window_as_str Day) None"
  by (simp add: group_bucket_id_def)

subsection \<open>Spend\<close>

definition exact_nanos :: "RateNanos \<Rightarrow> TierTokens \<Rightarrow> nat" where
  "exact_nanos r t = tt_input t * rn_input r + tt_output t * rn_output r
     + tt_cache_read t * rn_cache_read r + tt_cache_write t * rn_cache_write r"

definition exact_spend :: "CostModel \<Rightarrow> (string \<times> TierTokens) list \<Rightarrow> nat" where
  "exact_spend cm models =
     sum_list (map (\<lambda>(m, t). case rate_for cm m of Some r \<Rightarrow> exact_nanos r t | None \<Rightarrow> 0) models)"

definition tier_u64 :: "TierTokens \<Rightarrow> bool" where
  "tier_u64 t \<longleftrightarrow> tt_input t \<le> u64_max \<and> tt_output t \<le> u64_max \<and> tt_cache_read t \<le> u64_max \<and> tt_cache_write t \<le> u64_max"

definition rate_moderate :: "RateNanos \<Rightarrow> bool" where
  "rate_moderate r \<longleftrightarrow> rn_input r \<le> 4611686018427387904 \<and> rn_output r \<le> 4611686018427387904
     \<and> rn_cache_read r \<le> 4611686018427387904 \<and> rn_cache_write r \<le> 4611686018427387904"

definition rates_moderate :: "CostModel \<Rightarrow> bool" where
  "rates_moderate cm = (case cm_rates cm of None \<Rightarrow> True | Some table \<Rightarrow> list_all (\<lambda>(_, r). rate_moderate r) table)"

lemma cost_nanos_exact:
  assumes "rate_moderate r" "tier_u64 t"
  shows "cost_nanos r t = exact_nanos r t"
proof -
  have b: "x * y \<le> 85070591730234615861231965839514664960" if "x \<le> u64_max" "y \<le> 4611686018427387904" for x y
    using mult_le_mono [OF that] by (simp add: u64_max_def)
  have "exact_nanos r t \<le> 340282366920938463463374607431768211455"
    using assms b [of "tt_input t" "rn_input r"] b [of "tt_output t" "rn_output r"]
      b [of "tt_cache_read t" "rn_cache_read r"] b [of "tt_cache_write t" "rn_cache_write r"]
    unfolding exact_nanos_def rate_moderate_def tier_u64_def by linarith
  then show ?thesis by (simp add: cost_nanos_def wrap_u128_def exact_nanos_def)
qed

lemma rate_for_moderate: "rates_moderate cm \<Longrightarrow> rate_for cm m = Some r \<Longrightarrow> rate_moderate r"
  by (auto simp: rates_moderate_def rate_for_def rate_zero_def rate_moderate_def list_all_iff split: option.splits
      dest!: al_get_mem)

lemma spend_nanos_exact:
  assumes "rates_moderate cm" "list_all (\<lambda>(_, t). tier_u64 t) models"
  shows "spend_nanos cm models = min (exact_spend cm models) 340282366920938463463374607431768211455"
proof -
  let ?f = "\<lambda>n (model, tokens). case rate_for cm model of Some r \<Rightarrow> sat_add_u128 n (cost_nanos r tokens) | None \<Rightarrow> n"
  have "n \<le> 340282366920938463463374607431768211455 \<Longrightarrow>
      foldl ?f n models = min (n + exact_spend cm models) 340282366920938463463374607431768211455" for n
    using assms(2)
  proof (induction models arbitrary: n)
    case (Cons x models)
    obtain m t where x: "x = (m, t)" by (cases x)
    show ?case
    proof (cases "rate_for cm m")
      case (Some r)
      have "cost_nanos r t = exact_nanos r t"
        using cost_nanos_exact rate_for_moderate [OF assms(1) Some] Cons.prems(2) x by simp
      then show ?thesis
        using Cons.IH [of "sat_add_u128 n (exact_nanos r t)"] Cons.prems Some x
        by (auto simp: exact_spend_def sat_add_u128_def)
    qed (use Cons x in \<open>simp add: exact_spend_def\<close>)
  qed (simp add: exact_spend_def)
  from this [of 0] show ?thesis by (simp add: spend_nanos_def)
qed

text \<open>
  Derived spend is exact until it reaches the top of the \<open>i64\<close> range, where it stays: it is
  the sum over the models of tokens times rate, in whole cents, plus the flat fee for every billable
  request, or \<open>i64::MAX\<close> if that is larger. So an over-large ledger never derives as cheap, spend
  never falls when tokens or requests are added, and a budget cap cannot be escaped by overflow. The
  rates are assumed to be at most $2^{62}$ nano-units per token, which is where the sum of the four
  tier products cannot leave \<open>u128\<close>.
\<close>

theorem spend_is_exact_or_pinned:
  assumes "rates_moderate cm" "list_all (\<lambda>(_, t). tier_u64 t) models" "0 \<le> cm_price_per_request_cents cm"
  shows "derive_spend_cents cm models n True
    = min i64_max (int (exact_spend cm models div NANOS_PER_CENT) + cm_price_per_request_cents cm * int n)"
proof -
  define E where "E = exact_spend cm models"
  define fee where "fee = cm_price_per_request_cents cm"
  have c: "i64_of_nat (spend_nanos cm models div NANOS_PER_CENT) = min (int (E div NANOS_PER_CENT)) i64_max"
  proof (cases "E \<le> 340282366920938463463374607431768211455")
    case True
    then show ?thesis using spend_nanos_exact [OF assms(1,2)] by (simp add: E_def i64_of_nat_def)
  next
    case False
    then have "340282366920938463463374607431768211455 div NANOS_PER_CENT \<le> E div NANOS_PER_CENT"
      by (intro div_le_mono) simp
    then show ?thesis using spend_nanos_exact [OF assms(1,2)] False
      by (simp add: E_def i64_of_nat_def NANOS_PER_CENT_def i64_max_def)
  qed
  have pos: "0 \<le> fee * int n" using assms(3) by (simp add: fee_def)
  have f: "sat_i64 (fee * i64_of_nat n) = min (fee * int n) i64_max"
  proof (cases "int n \<le> i64_max")
    case True
    then have "i64_of_nat n = int n" by (simp add: i64_of_nat_def)
    then show ?thesis using pos by (simp add: sat_i64_def i64_min_def i64_max_def)
  next
    case False
    have n: "i64_of_nat n = i64_max" using False by (simp add: i64_of_nat_def)
    show ?thesis
    proof (cases "fee = 0")
      case False
      then have "1 \<le> fee" using assms(3) by (simp add: fee_def)
      then have "1 * i64_max \<le> fee * i64_max" "1 * int n \<le> fee * int n"
        by (intro mult_right_mono; simp add: i64_max_def)+
      moreover have "i64_max \<le> int n" using \<open>\<not> int n \<le> i64_max\<close> by simp
      ultimately have "i64_max \<le> fee * int n" "i64_max \<le> fee * i64_max" by linarith+
      then show ?thesis unfolding n sat_i64_def by (simp add: min_absorb1 min_absorb2 i64_min_def i64_max_def)
    qed (simp add: n sat_i64_def i64_min_def i64_max_def)
  qed
  show ?thesis
    using pos unfolding derive_spend_cents_def Let_def c fee_def [symmetric] f E_def [symmetric]
    by (simp add: sat_i64_def i64_max_def i64_min_def)
qed

theorem spend_is_exact_or_pinned_witness:
  "derive_spend_cents (resolve_parts (Some [(''m'', \<lparr>input_utok = Fin 3, output_utok = Fin 15, cache_read_utok = Fin 0,
       cache_write_utok = Fin 0\<rparr>)]) 2 [])
     [(''m'', \<lparr>tt_input = 1000000, tt_output = 200000, tt_cache_read = 0, tt_cache_write = 0\<rparr>)] 5 True = 610"
proof -
  have fl: "fl 3000 = Fin 3000" "fl 15000 = Fin 15000" using fl_of_nat_exact [of 3000] fl_of_nat_exact [of 15000] by simp_all
  have half: "\<lfloor>6001 / 2 :: rat\<rfloor> = 3000" "\<lfloor>30001 / 2 :: rat\<rfloor> = 15000" by (rule floor_unique, simp_all)+
  define cm where "cm = resolve_parts (Some [(''m'', \<lparr>input_utok = Fin 3, output_utok = Fin 15,
      cache_read_utok = Fin 0, cache_write_utok = Fin 0\<rparr>)]) 2 []"
  have r: "cm_rates cm = Some [(''m'', \<lparr>rn_input = 3000, rn_output = 15000, rn_cache_read = 0, rn_cache_write = 0\<rparr>)]"
    and fee: "cm_price_per_request_cents cm = 2"
    by (simp_all add: cm_def resolve_parts_def project_groups_def rate_from_cfg_def nanos_def fl round_half_away_def
        half u64_max_def)
  have "rates_moderate cm" by (simp add: rates_moderate_def r rate_moderate_def)
  then show ?thesis
    using spend_is_exact_or_pinned [of cm "[(''m'', \<lparr>tt_input = 1000000, tt_output = 200000, tt_cache_read = 0, tt_cache_write = 0\<rparr>)]" 5]
    unfolding cm_def [symmetric]
    by (simp add: tier_u64_def u64_max_def fee exact_spend_def rate_for_def r exact_nanos_def NANOS_PER_CENT_def i64_max_def)
qed

text \<open>Beyond that bound the plain additions of \<open>cost_nanos\<close> wrap, and a maximal ledger derives as almost free.\<close>

lemma cost_nanos_wraps:
  "cost_nanos \<lparr>rn_input = u64_max, rn_output = u64_max, rn_cache_read = 0, rn_cache_write = 0\<rparr>
     \<lparr>tt_input = u64_max, tt_output = u64_max, tt_cache_read = 0, tt_cache_write = 0\<rparr>
   < u64_max * u64_max"
  by (simp add: cost_nanos_def wrap_u128_def u64_max_def)

end
