(* ===== verification/MemStore.thy ===== *)
theory MemStore
  imports Ledger
begin

text \<open>
  The default backend \<open>MemoryStore\<close> (\<open>crates/store-memory/src/lib.rs\<close>) and the contract it gives its
  clients. Each \<open>HashMap\<close> is an association list, whose order stands for the unspecified iteration
  order; the \<open>RwLock\<close> of a map makes every operation on it one step. The locale \<open>durable_store\<close>
  states what the governance engine relies on, for a backend whose operations may fail, and is
  interpreted on \<open>MemoryStore\<close>.
\<close>

subsection \<open>Operations\<close>

record MemoryStore =
  ms_keys :: "(string \<times> VirtualKey) list"
  ms_creds :: "(string \<times> AwsCredential) list"
  ms_usage :: "((string \<times> nat) \<times> UsageLedger) list"
  ms_metering :: "((string \<times> nat \<times> string \<times> string) \<times> MeteringRow) list"
  ms_denylist :: "string list"

definition memory_store_new :: MemoryStore where
  "memory_store_new = \<lparr>ms_keys = [], ms_creds = [], ms_usage = [], ms_metering = [], ms_denylist = []\<rparr>"

definition mem_put_key :: "VirtualKey \<Rightarrow> MemoryStore \<Rightarrow> unit store_result \<times> MemoryStore" where
  "mem_put_key key s = (Inr (), s\<lparr>ms_keys := al_put (ms_keys s) (vk_id key) key\<rparr>)"

definition mem_get_key :: "string \<Rightarrow> MemoryStore \<Rightarrow> VirtualKey option store_result" where
  "mem_get_key i s = Inr (al_get (ms_keys s) i)"

definition mem_list_keys :: "MemoryStore \<Rightarrow> VirtualKey list store_result" where
  "mem_list_keys s = Inr (sort_key vk_created_at (map snd (ms_keys s)))"

definition mem_delete_key :: "string \<Rightarrow> MemoryStore \<Rightarrow> unit store_result \<times> MemoryStore" where
  "mem_delete_key i s =
     (Inr (), s\<lparr>ms_keys := filter (\<lambda>(k, _). k \<noteq> i) (ms_keys s),
        ms_usage := filter (\<lambda>((k, _), _). k \<noteq> i) (ms_usage s),
        ms_creds := filter (\<lambda>(_, c). ac_key_id c \<noteq> i) (ms_creds s)\<rparr>)"

definition mem_get_usage :: "string \<Rightarrow> nat \<Rightarrow> MemoryStore \<Rightarrow> UsageLedger store_result" where
  "mem_get_usage b w s = Inr (case al_get (ms_usage s) (b, w) of Some l \<Rightarrow> l | None \<Rightarrow> ledger_default)"

definition mem_put_usage :: "string \<Rightarrow> nat \<Rightarrow> UsageLedger \<Rightarrow> MemoryStore \<Rightarrow> unit store_result \<times> MemoryStore" where
  "mem_put_usage b w l s = (Inr (), s\<lparr>ms_usage := al_put (ms_usage s) (b, w) l\<rparr>)"

definition mem_add_usage :: "string \<Rightarrow> nat \<Rightarrow> UsageDelta \<Rightarrow> MemoryStore \<Rightarrow> unit store_result \<times> MemoryStore" where
  "mem_add_usage b w d s =
     (let u = (case al_get (ms_usage s) (b, w) of Some l \<Rightarrow> l | None \<Rightarrow> ledger_default)
      in (Inr (), s\<lparr>ms_usage := al_put (ms_usage s) (b, w) (apply_delta d u)\<rparr>))"

definition mem_add_metering :: "MeteringDelta \<Rightarrow> MemoryStore \<Rightarrow> unit store_result \<times> MemoryStore" where
  "mem_add_metering d s =
     (let k = (md_key_id d, md_bucket d, md_model d, md_provider d);
          e = (case al_get (ms_metering s) k of
                 Some r \<Rightarrow> r
               | None \<Rightarrow> \<lparr>mr_key_id = md_key_id d, mr_model = md_model d, mr_provider = md_provider d,
                   mr_tokens_input = 0, mr_tokens_output = 0, mr_tokens_cache_read = 0,
                   mr_tokens_cache_creation = 0, mr_requests = 0\<rparr>);
          e' = e\<lparr>mr_tokens_input := sat_add_u64 (mr_tokens_input e) (md_tokens_input d),
                 mr_tokens_output := sat_add_u64 (mr_tokens_output e) (md_tokens_output d),
                 mr_tokens_cache_read := sat_add_u64 (mr_tokens_cache_read e) (md_tokens_cache_read d),
                 mr_tokens_cache_creation := sat_add_u64 (mr_tokens_cache_creation e) (md_tokens_cache_creation d),
                 mr_requests := sat_add_u64 (mr_requests e) 1\<rparr>
      in (Inr (), s\<lparr>ms_metering := al_put (ms_metering s) k e'\<rparr>))"

definition mem_list_metering :: "nat \<Rightarrow> MemoryStore \<Rightarrow> MeteringRow list store_result" where
  "mem_list_metering bucket s =
     Inr (map snd (filter (\<lambda>((_, b, _, _), _). b = bucket) (ms_metering s)))"

definition mem_put_aws_credential :: "AwsCredential \<Rightarrow> MemoryStore \<Rightarrow> unit store_result \<times> MemoryStore" where
  "mem_put_aws_credential cred s = (Inr (), s\<lparr>ms_creds := al_put (ms_creds s) (ac_access_key_id cred) cred\<rparr>)"

definition mem_list_aws_credentials :: "MemoryStore \<Rightarrow> AwsCredential list store_result" where
  "mem_list_aws_credentials s = Inr (map snd (ms_creds s))"

definition mem_add_denylist :: "string \<Rightarrow> string \<Rightarrow> MemoryStore \<Rightarrow> unit store_result \<times> MemoryStore" where
  "mem_add_denylist sub reason s =
     (Inr (), s\<lparr>ms_denylist := (if sub \<in> set (ms_denylist s) then ms_denylist s else ms_denylist s @ [sub])\<rparr>)"

definition mem_list_denylist :: "MemoryStore \<Rightarrow> string list store_result" where
  "mem_list_denylist s = Inr (ms_denylist s)"

text \<open>The trait implementation: the methods above and the defaults of the trait.\<close>

definition memory_store :: "MemoryStore Store" where
  "memory_store =
     \<lparr>put_key = mem_put_key, get_key = mem_get_key, list_keys = mem_list_keys,
      store_delete_key = mem_delete_key, get_usage = mem_get_usage, put_usage = mem_put_usage,
      add_usage = mem_add_usage, add_metering = mem_add_metering, list_metering = mem_list_metering,
      put_aws_credential = mem_put_aws_credential,
      put_key_with_aws_credential = default_put_key_with_aws_credential mem_put_key mem_put_aws_credential,
      list_aws_credentials = mem_list_aws_credentials,
      append_audit = default_append_audit, list_audit = default_list_audit,
      add_denylist = mem_add_denylist, list_denylist = mem_list_denylist,
      list_audit_tail = default_list_audit_tail default_list_audit\<rparr>"

subsection \<open>The contract\<close>

text \<open>
  What a client relies on. Every law is conditional on the operation succeeding; a failed write
  leaves what can be read unchanged. \<open>inv\<close> is the backend's own invariant.
\<close>

locale durable_store =
  fixes vt :: "'s Store" and inv :: "'s \<Rightarrow> bool"
  assumes add_usage_inv: "inv s \<Longrightarrow> add_usage vt b w d s = (r, s') \<Longrightarrow> inv s'"
    and add_usage_ok: "inv s \<Longrightarrow> add_usage vt b w d s = (Inr u, s') \<Longrightarrow> get_usage vt b w s = Inr l
      \<Longrightarrow> get_usage vt b w s' = Inr (apply_delta d l)"
    and add_usage_frame: "inv s \<Longrightarrow> add_usage vt b w d s = (r, s') \<Longrightarrow> (b', w') \<noteq> (b, w)
      \<Longrightarrow> get_usage vt b' w' s' = get_usage vt b' w' s"
    and add_usage_err: "inv s \<Longrightarrow> add_usage vt b w d s = (Inl e, s')
      \<Longrightarrow> get_usage vt b w s' = get_usage vt b w s"
    and put_key_inv: "inv s \<Longrightarrow> put_key vt k s = (r, s') \<Longrightarrow> inv s'"
    and put_key_ok: "inv s \<Longrightarrow> put_key vt k s = (Inr u, s') \<Longrightarrow> list_keys vt s = Inr ks
      \<Longrightarrow> \<exists>ks'. list_keys vt s' = Inr ks' \<and> set ks' = insert k {k' \<in> set ks. vk_id k' \<noteq> vk_id k}"
    and put_key_creds: "inv s \<Longrightarrow> put_key vt k s = (r, s') \<Longrightarrow> list_aws_credentials vt s' = list_aws_credentials vt s"
    and get_key_ok: "inv s \<Longrightarrow> get_key vt i s = Inr ko \<Longrightarrow> list_keys vt s = Inr ks
      \<Longrightarrow> (\<forall>k. ko = Some k \<longleftrightarrow> k \<in> set ks \<and> vk_id k = i)"
    and delete_key_inv: "inv s \<Longrightarrow> store_delete_key vt i s = (r, s') \<Longrightarrow> inv s'"
    and delete_key_ok: "inv s \<Longrightarrow> store_delete_key vt i s = (Inr u, s') \<Longrightarrow> list_keys vt s = Inr ks
      \<Longrightarrow> \<exists>ks'. list_keys vt s' = Inr ks' \<and> set ks' = {k' \<in> set ks. vk_id k' \<noteq> i}"
    and add_denylist_ok: "inv s \<Longrightarrow> add_denylist vt sub reason s = (Inr u, s') \<Longrightarrow> list_denylist vt s = Inr ds
      \<Longrightarrow> \<exists>ds'. list_denylist vt s' = Inr ds' \<and> set ds' = insert sub (set ds)"
begin

text \<open>A row of the ledger holds the sum of the deltas written to it, in order.\<close>

lemma usage_after_writes:
  assumes "inv s" "get_usage vt b w s = Inr l"
    and "\<forall>d \<in> set ds. \<forall>s. inv s \<longrightarrow> fst (add_usage vt b w d s) = Inr ()"
  shows "get_usage vt b w (fold (\<lambda>d s. snd (add_usage vt b w d s)) ds s) = Inr (fold apply_delta ds l)"
  using assms
proof (induction ds arbitrary: s l)
  case (Cons d ds)
  obtain s' where s': "add_usage vt b w d s = (Inr (), s')"
    using Cons.prems by (cases "add_usage vt b w d s") auto
  then show ?case
    using Cons.IH [of s' "apply_delta d l"] add_usage_inv [OF _ s'] add_usage_ok [OF _ s'] Cons.prems by simp
qed simp

end

subsection \<open>The memory backend keeps the contract\<close>

definition mem_wf :: "MemoryStore \<Rightarrow> bool" where
  "mem_wf s \<longleftrightarrow> distinct (map fst (ms_keys s)) \<and> (\<forall>(i, k) \<in> set (ms_keys s). vk_id k = i)
     \<and> distinct (map fst (ms_creds s)) \<and> (\<forall>(i, c) \<in> set (ms_creds s). ac_access_key_id c = i)"

lemma mem_wf_new: "mem_wf memory_store_new"
  by (simp add: mem_wf_def memory_store_new_def)

lemma al_put_values:
  assumes "distinct (map fst xs)" "\<forall>(i, v) \<in> set xs. f v = i"
  shows "snd ` set (al_put xs (f k) k) = insert k {v \<in> snd ` set xs. f v \<noteq> f k}"
    and "\<forall>(i, v) \<in> set (al_put xs (f k) k). f v = i"
proof -
  have eq: "(i, v) \<in> set (al_put xs (f k) k) \<longleftrightarrow> (if i = f k then v = k else (i, v) \<in> set xs)" for i v
    using mem_al_get [OF distinct_al_put [OF assms(1), of "f k" k], of i v] al_get_mem [of "al_put xs (f k) k" i v]
      mem_al_get [OF assms(1), of i v] al_get_mem [of xs i v] by (auto split: if_splits)
  show inv: "\<forall>(i, v) \<in> set (al_put xs (f k) k). f v = i"
    using eq assms(2) by (auto split: if_splits)
  show "snd ` set (al_put xs (f k) k) = insert k {v \<in> snd ` set xs. f v \<noteq> f k}"
  proof (intro set_eqI iffI)
    fix v assume "v \<in> snd ` set (al_put xs (f k) k)"
    then show "v \<in> insert k {v \<in> snd ` set xs. f v \<noteq> f k}"
      using eq assms(2) by (force split: if_splits)
  next
    fix v assume "v \<in> insert k {v \<in> snd ` set xs. f v \<noteq> f k}"
    then have "(f v, v) \<in> set (al_put xs (f k) k)" using eq assms(2) by auto
    then show "v \<in> snd ` set (al_put xs (f k) k)" by force
  qed
qed

lemma al_get_values:
  assumes "distinct (map fst xs)" "\<forall>(i, v) \<in> set xs. f v = i"
  shows "al_get xs i = Some v \<longleftrightarrow> v \<in> snd ` set xs \<and> f v = i"
proof
  assume "al_get xs i = Some v"
  then have "(i, v) \<in> set xs" by (rule al_get_mem)
  then show "v \<in> snd ` set xs \<and> f v = i" using assms(2) by force
next
  assume "v \<in> snd ` set xs \<and> f v = i"
  then have "(i, v) \<in> set xs" using assms(2) by force
  then show "al_get xs i = Some v" using mem_al_get [OF assms(1)] by blast
qed

lemma filter_values:
  assumes "\<forall>(i, v) \<in> set xs. f v = i"
  shows "snd ` {x \<in> set xs. case x of (k, _) \<Rightarrow> k \<noteq> i} = {v \<in> snd ` set xs. f v \<noteq> i}"
  using assms by (auto simp: image_iff)

lemmas memory_store_ops = memory_store_def mem_put_key_def mem_get_key_def mem_list_keys_def mem_delete_key_def
  mem_get_usage_def mem_add_usage_def mem_add_denylist_def mem_list_denylist_def mem_list_aws_credentials_def
  default_put_key_with_aws_credential_def mem_put_aws_credential_def

interpretation mem: durable_store memory_store mem_wf
proof
  fix s :: MemoryStore and b w d r s' assume "mem_wf s" "add_usage memory_store b w d s = (r, s')"
  then show "mem_wf s'" by (auto simp: memory_store_ops mem_wf_def Let_def)
next
  fix s :: MemoryStore and b w d u s' l
  assume "add_usage memory_store b w d s = (Inr u, s')" "get_usage memory_store b w s = Inr l"
  then show "get_usage memory_store b w s' = Inr (apply_delta d l)" by (auto simp: memory_store_ops Let_def)
next
  fix s :: MemoryStore and b w d r s' b' w'
  assume "add_usage memory_store b w d s = (r, s')" "(b', w') \<noteq> (b, w)"
  then show "get_usage memory_store b' w' s' = get_usage memory_store b' w' s" by (auto simp: memory_store_ops Let_def)
next
  fix s :: MemoryStore and b w d e s'
  assume "add_usage memory_store b w d s = (Inl e, s')"
  then show "get_usage memory_store b w s' = get_usage memory_store b w s" by (simp add: memory_store_ops Let_def)
next
  fix s :: MemoryStore and k r s' assume "mem_wf s" "put_key memory_store k s = (r, s')"
  then show "mem_wf s'"
    using al_put_values(2) [of "ms_keys s" vk_id k] distinct_al_put [of "ms_keys s" "vk_id k" k]
    by (auto simp: memory_store_ops mem_wf_def)
next
  fix s :: MemoryStore and k u s' ks
  assume "mem_wf s" "put_key memory_store k s = (Inr u, s')" "list_keys memory_store s = Inr ks"
  then show "\<exists>ks'. list_keys memory_store s' = Inr ks' \<and> set ks' = insert k {k' \<in> set ks. vk_id k' \<noteq> vk_id k}"
    using al_put_values(1) [of "ms_keys s" vk_id k] by (clarsimp simp: memory_store_ops mem_wf_def)
next
  fix s :: MemoryStore and k r s' assume "put_key memory_store k s = (r, s')"
  then show "list_aws_credentials memory_store s' = list_aws_credentials memory_store s" by (auto simp: memory_store_ops)
next
  fix s :: MemoryStore and i ko ks
  assume "mem_wf s" "get_key memory_store i s = Inr ko" "list_keys memory_store s = Inr ks"
  then show "\<forall>k. ko = Some k \<longleftrightarrow> k \<in> set ks \<and> vk_id k = i"
    using al_get_values [of "ms_keys s" vk_id i] by (clarsimp simp: memory_store_ops mem_wf_def)
next
  fix s :: MemoryStore and i r s' assume "mem_wf s" "store_delete_key memory_store i s = (r, s')"
  then show "mem_wf s'" by (auto simp: memory_store_ops mem_wf_def distinct_map_filter)
next
  fix s :: MemoryStore and i u s' ks
  assume "mem_wf s" "store_delete_key memory_store i s = (Inr u, s')" "list_keys memory_store s = Inr ks"
  then show "\<exists>ks'. list_keys memory_store s' = Inr ks' \<and> set ks' = {k' \<in> set ks. vk_id k' \<noteq> i}"
    using filter_values [of "ms_keys s" vk_id i] by (clarsimp simp: memory_store_ops mem_wf_def)
next
  fix s :: MemoryStore and sub reason u s' ds
  assume "add_denylist memory_store sub reason s = (Inr u, s')" "list_denylist memory_store s = Inr ds"
  then show "\<exists>ds'. list_denylist memory_store s' = Inr ds' \<and> set ds' = insert sub (set ds)"
    by (cases "sub \<in> set (ms_denylist s)") (auto simp: memory_store_ops)
qed

lemma al_get_filter: "al_get (filter (\<lambda>(k, _). P k) xs) k = (if P k then al_get xs k else None)"
  by (induction xs) auto

text \<open>
  The atomic accumulate of the memory backend is the read-modify-write default of the
  \<open>Store\<close> trait, and a ledger row holds exactly what the sequence of deltas written to it adds up
  to, whatever was written to other rows before.
\<close>

theorem memory_ledger_accumulates:
  assumes "mem_wf s"
  shows "add_usage memory_store b w d s =
      default_add_usage (get_usage memory_store) (put_usage memory_store) b w d s
    \<and> (get_usage memory_store b w s = Inr l \<longrightarrow>
       get_usage memory_store b w (fold (\<lambda>d s. snd (add_usage memory_store b w d s)) ds s) = Inr (fold apply_delta ds l))"
proof
  show "add_usage memory_store b w d s =
      default_add_usage (get_usage memory_store) (put_usage memory_store) b w d s"
    by (simp add: memory_store_ops mem_put_usage_def default_add_usage_def Let_def)
  show "get_usage memory_store b w s = Inr l \<longrightarrow>
       get_usage memory_store b w (fold (\<lambda>d s. snd (add_usage memory_store b w d s)) ds s) = Inr (fold apply_delta ds l)"
    using mem.usage_after_writes [OF assms] by (simp add: memory_store_def mem_add_usage_def Let_def)
qed

text \<open>Two requests, one of them refunded later.\<close>

theorem memory_ledger_accumulates_witness:
  "let ds = [\<lparr>ud_requests = 2, ud_billable_requests = 2, ud_models = []\<rparr>,
             \<lparr>ud_requests = 0, ud_billable_requests = -1, ud_models = []\<rparr>]
   in get_usage memory_store ''vk_a'' 0 (fold (\<lambda>d s. snd (add_usage memory_store ''vk_a'' 0 d s)) ds memory_store_new)
      = Inr \<lparr>ul_requests = 2, ul_billable_requests = 1, ul_models = []\<rparr>"
  using memory_ledger_accumulates [OF mem_wf_new, of "''vk_a''" 0 undefined ledger_default
      "[\<lparr>ud_requests = 2, ud_billable_requests = 2, ud_models = []\<rparr>,
        \<lparr>ud_requests = 0, ud_billable_requests = -1, ud_models = []\<rparr>]"]
  by (simp add: memory_store_def mem_get_usage_def memory_store_new_def apply_delta_def ledger_default_def
      sat_add_signed_u64_def u64_max_def)

text \<open>
  Deleting a key cascades: afterwards the store has no key row, no ledger row in any
  window and no AWS credential of that key, while the rows of every other key are untouched and
  the revocation denylist is kept, so a deleted key's credentials cannot outlive it.
\<close>

theorem delete_key_cascades:
  "\<exists>s'. mem_delete_key i s = (Inr (), s')
     \<and> mem_get_key i s' = Inr None
     \<and> (\<forall>w. mem_get_usage i w s' = Inr ledger_default)
     \<and> (\<forall>c \<in> set (map snd (ms_creds s')). ac_key_id c \<noteq> i)
     \<and> (\<forall>j. j \<noteq> i \<longrightarrow> mem_get_key j s' = mem_get_key j s \<and> (\<forall>w. mem_get_usage j w s' = mem_get_usage j w s))
     \<and> {c \<in> snd ` set (ms_creds s). ac_key_id c \<noteq> i} = snd ` set (ms_creds s')
     \<and> mem_list_denylist s' = mem_list_denylist s"
proof -
  have usage: "al_get (filter (\<lambda>((k, _), _). k \<noteq> i) (ms_usage s)) (j, w) =
      (if j = i then None else al_get (ms_usage s) (j, w))" for j w
    using al_get_filter [of "\<lambda>(k, _). k \<noteq> i" "ms_usage s" "(j, w)"] by (simp add: case_prod_unfold)
  define s' where "s' = snd (mem_delete_key i s)"
  have k: "ms_keys s' = filter (\<lambda>(k, _). k \<noteq> i) (ms_keys s)"
    and u: "ms_usage s' = filter (\<lambda>((k, _), _). k \<noteq> i) (ms_usage s)"
    and c: "ms_creds s' = filter (\<lambda>(_, c). ac_key_id c \<noteq> i) (ms_creds s)"
    and d: "ms_denylist s' = ms_denylist s" and del: "mem_delete_key i s = (Inr (), s')"
    by (simp_all add: s'_def mem_delete_key_def)
  have creds: "{c \<in> snd ` set (ms_creds s). ac_key_id c \<noteq> i} = snd ` set (ms_creds s')"
    unfolding c by (auto simp: image_iff)
  then have "\<forall>c \<in> set (map snd (ms_creds s')). ac_key_id c \<noteq> i" by auto
  moreover have "mem_get_key i s' = Inr None" by (simp add: mem_get_key_def k al_get_filter)
  moreover have "mem_get_key j s' = mem_get_key j s" if "j \<noteq> i" for j
    using that by (simp add: mem_get_key_def k al_get_filter)
  moreover have "mem_get_usage j w s' = (if j = i then Inr ledger_default else mem_get_usage j w s)" for j w
    by (simp add: mem_get_usage_def u usage)
  ultimately show ?thesis using del creds d by (simp add: mem_list_denylist_def)
qed

theorem delete_key_cascades_witness:
  "let s = snd (mem_put_aws_credential \<lparr>ac_access_key_id = ''AKIA1'', ac_key_id = ''vk_a'', ac_secret_access_key = ''x''\<rparr>
        memory_store_new)
   in ms_creds s \<noteq> [] \<and> ms_creds (snd (mem_delete_key ''vk_a'' s)) = []"
proof -
  define s where "s = snd (mem_put_aws_credential
      \<lparr>ac_access_key_id = ''AKIA1'', ac_key_id = ''vk_a'', ac_secret_access_key = ''x''\<rparr> memory_store_new)"
  obtain s' where s': "mem_delete_key ''vk_a'' s = (Inr (), s')"
    "{c \<in> snd ` set (ms_creds s). ac_key_id c \<noteq> ''vk_a''} = snd ` set (ms_creds s')"
    using delete_key_cascades [of "''vk_a''" s] by (elim exE conjE)
  have creds: "ms_creds s = [(''AKIA1'', \<lparr>ac_access_key_id = ''AKIA1'', ac_key_id = ''vk_a'', ac_secret_access_key = ''x''\<rparr>)]"
    by (simp add: s_def mem_put_aws_credential_def memory_store_new_def)
  then have "snd ` set (ms_creds s') = {}" unfolding s'(2) [symmetric] by auto
  then have "ms_creds s' = []" by simp
  then show ?thesis using s'(1) creds unfolding Let_def s_def by simp
qed

end
