(* ===== verification/Gov.thy ===== *)
theory Gov
  imports Hash Calendar Cost MemStore
begin

text \<open>
  The governance runtime (\<open>crates/busbar/src/governance/mod.rs\<close> and \<open>governance/state.rs\<close>): the
  in-memory token-ledger cells of the limit buckets, sharded by bucket name; the in-flight gauges;
  admission, refund, accrual, the write-behind flush and the boot hydration. The state carries the
  state \<open>'s\<close> of the durable store, whose operations are the argument \<open>vt\<close>. A critical section under
  one set of locks is one definition; \<open>None\<close> is a panic.
\<close>

unbundle bit_operations_syntax

subsection \<open>Cells\<close>

record ModelCell =
  mc_cur :: TierTokens
  mc_flushed :: TierTokens

record BudgetCell =
  bc_window_start :: nat
  bc_requests :: nat
  bc_billable_requests :: nat
  bc_flushed_requests :: nat
  bc_flushed_billable_requests :: nat
  bc_models :: "(string \<times> ModelCell) list"
  bc_dirty :: bool

definition cell_fresh :: "nat \<Rightarrow> BudgetCell" where
  "cell_fresh window_start =
     \<lparr>bc_window_start = window_start, bc_requests = 0, bc_billable_requests = 0, bc_flushed_requests = 0,
      bc_flushed_billable_requests = 0, bc_models = [], bc_dirty = False\<rparr>"

definition tier_sat_add :: "TierTokens \<Rightarrow> TierTokens \<Rightarrow> TierTokens" where
  "tier_sat_add a t =
     \<lparr>tt_input = sat_add_u64 (tt_input a) (tt_input t), tt_output = sat_add_u64 (tt_output a) (tt_output t),
      tt_cache_read = sat_add_u64 (tt_cache_read a) (tt_cache_read t),
      tt_cache_write = sat_add_u64 (tt_cache_write a) (tt_cache_write t)\<rparr>"

definition accrue :: "string \<Rightarrow> TierTokens \<Rightarrow> BudgetCell \<Rightarrow> BudgetCell" where
  "accrue model t c =
     (let m = (case al_get (bc_models c) model of
                 Some m \<Rightarrow> m | None \<Rightarrow> \<lparr>mc_cur = tier_zero, mc_flushed = tier_zero\<rparr>)
      in c\<lparr>bc_models := al_put (bc_models c) model (m\<lparr>mc_cur := tier_sat_add (mc_cur m) t\<rparr>)\<rparr>)"

definition model_views :: "BudgetCell \<Rightarrow> (string \<times> TierTokens) list" where
  "model_views c = map (\<lambda>(m, x). (m, mc_cur x)) (bc_models c)"

definition cell_total_tokens :: "BudgetCell \<Rightarrow> nat" where
  "cell_total_tokens c = foldl (\<lambda>acc m. sat_add_u64 acc (tier_total (mc_cur (snd m)))) 0 (bc_models c)"

subsection \<open>Shards\<close>

definition GOV_SHARDS :: nat where
  "GOV_SHARDS = 64"

record 'v MapShard =
  sh_map :: "(string \<times> 'v) list"
  sh_sweep_ticker :: nat

definition sharded_new :: "'v MapShard list" where
  "sharded_new = replicate GOV_SHARDS \<lparr>sh_map = [], sh_sweep_ticker = 0\<rparr>"

definition shard_index :: "string \<Rightarrow> nat" where
  "shard_index key_id = fnv1a_u64 key_id AND (GOV_SHARDS - 1)"

text \<open>Reading and writing one entry in the shard that owns its key.\<close>

definition sh_get :: "'v MapShard list \<Rightarrow> string \<Rightarrow> 'v option" where
  "sh_get B k = al_get (sh_map (B ! shard_index k)) k"

definition sh_put :: "'v MapShard list \<Rightarrow> string \<Rightarrow> 'v \<Rightarrow> 'v MapShard list" where
  "sh_put B k v = B[shard_index k := (B ! shard_index k)\<lparr>sh_map := al_put (sh_map (B ! shard_index k)) k v\<rparr>]"

subsection \<open>State\<close>

text \<open>\<open>Limit\<close> carries the group, metric, window, pool, downgrade target and retry-after.\<close>

datatype LimitBlocked =
    Limit string string "string option" "string option" "string option" "nat option"
  | Disabled string
  | MissingGroup string

record AdmitGrant =
  ag_gauges :: "string list"

record DerivedUsage =
  du_spend_cents :: int
  du_tokens :: nat
  du_requests :: nat

record 's GovState =
  gv_store :: 's
  gv_by_hash :: "(string \<times> VirtualKey) list"
  gv_by_access_key_id :: "(string \<times> AwsKeyEntry) list"
  gv_concurrent :: "(string \<times> int) list"
  gv_admin_token_hash :: "string option"
  gv_budget :: "BudgetCell MapShard list"
  gv_denylist :: "string list"

subsection \<open>Accrual\<close>

text \<open>
  The cell a write lands on: a cell of an older window is replaced by a fresh one, a cell of the same
  or of a newer window is used in place, a missing cell is created.
\<close>

definition live_cell :: "BudgetCell option \<Rightarrow> nat \<Rightarrow> BudgetCell" where
  "live_cell co window =
     (case co of
        Some c \<Rightarrow> (if window > bc_window_start c then cell_fresh window else c)
      | None \<Rightarrow> cell_fresh window)"

definition accrue_bucket ::
  "string \<Rightarrow> string \<Rightarrow> string \<Rightarrow> TierTokens \<Rightarrow> nat \<Rightarrow> BudgetCell MapShard list \<Rightarrow> BudgetCell MapShard list" where
  "accrue_bucket bucket_id period model tokens now B =
     (let window = budget_window period now;
          cell = live_cell (sh_get B bucket_id) window
      in sh_put B bucket_id ((accrue model tokens cell)\<lparr>bc_dirty := True\<rparr>))"

definition record_usage ::
  "CostModel \<Rightarrow> VirtualKey \<Rightarrow> string \<Rightarrow> string \<Rightarrow> TierTokens \<Rightarrow> nat \<Rightarrow> 's GovState \<Rightarrow> 's GovState option" where
  "record_usage cm key pool model tokens now s =
     (if tier_is_zero tokens then Some s
      else do {
        r \<leftarrow> chain_for cm key;
        Some (case r of
          Inl missing \<Rightarrow> s\<lparr>gv_budget := accrue_bucket (vk_id key) WINDOW_TOTAL model tokens now (gv_budget s)\<rparr>
        | Inr chain \<Rightarrow>
            s\<lparr>gv_budget := fold (\<lambda>b. accrue_bucket (cb_bucket_id b) (cb_window b) model tokens now)
                (filter (\<lambda>b. applies_to_pool b pool) (ch_buckets chain)) (gv_budget s)\<rparr>) })"

record IrUsage =
  input_tokens :: nat
  output_tokens :: nat
  cache_creation_input_tokens :: "nat option"
  cache_read_input_tokens :: "nat option"

definition or_zero :: "nat option \<Rightarrow> nat" where
  "or_zero x = (case x of Some n \<Rightarrow> n | None \<Rightarrow> 0)"

text \<open>The write of \<open>offload_store_write\<close>: its error is logged and dropped.\<close>

definition record_metering ::
  "'s Store \<Rightarrow> string \<Rightarrow> string \<Rightarrow> string \<Rightarrow> IrUsage option \<Rightarrow> nat \<Rightarrow> 's GovState \<Rightarrow> 's GovState" where
  "record_metering vt key_id model provider usage now s =
     (let delta = \<lparr>md_key_id = key_id, md_bucket = metering_bucket now, md_model = model, md_provider = provider,
            md_tokens_input = or_zero (map_option input_tokens usage),
            md_tokens_output = or_zero (map_option output_tokens usage),
            md_tokens_cache_read = or_zero (Option.bind usage cache_read_input_tokens),
            md_tokens_cache_creation = or_zero (Option.bind usage cache_creation_input_tokens)\<rparr>
      in s\<lparr>gv_store := snd (add_metering vt delta (gv_store s))\<rparr>)"

subsection \<open>Admission\<close>

definition concurrent_gauge :: "string \<Rightarrow> (string \<times> int) list \<Rightarrow> int \<times> (string \<times> int) list" where
  "concurrent_gauge gname gauges =
     (case al_get gauges gname of Some v \<Rightarrow> (v, gauges) | None \<Rightarrow> (0, al_put gauges gname 0))"

text \<open>Dropping a grant decrements each gauge it holds.\<close>

definition release_gauge :: "string \<Rightarrow> (string \<times> int) list \<Rightarrow> (string \<times> int) list" where
  "release_gauge g gauges =
     (case al_get gauges g of Some v \<Rightarrow> al_put gauges g (wrap_i64 (v - 1)) | None \<Rightarrow> gauges)"

definition drop_grant :: "AdmitGrant \<Rightarrow> (string \<times> int) list \<Rightarrow> (string \<times> int) list" where
  "drop_grant grant gauges = fold release_gauge (ag_gauges grant) gauges"

fun freeze_check :: "GroupRuntime list \<Rightarrow> nat list \<Rightarrow> LimitBlocked option option" where
  "freeze_check groups [] = Some None"
| "freeze_check groups (gi # gis) =
     (if gi < length groups
      then if \<not> gr_enabled (groups ! gi) then Some (Some (Disabled (gr_name (groups ! gi)))) else freeze_check groups gis
      else None)"

text \<open>
  The in-flight holds, innermost group first. A full gauge releases the holds taken so far. The
  result is the rejection or the grant, with the gauges.
\<close>

fun take_gauges ::
  "GroupRuntime list \<Rightarrow> nat list \<Rightarrow> AdmitGrant \<Rightarrow> (string \<times> int) list
   \<Rightarrow> ((LimitBlocked + AdmitGrant) \<times> (string \<times> int) list) option" where
  "take_gauges groups [] grant gauges = Some (Inr grant, gauges)"
| "take_gauges groups (gi # gis) grant gauges =
     (if gi < length groups then
        (case gr_concurrent_cap (groups ! gi) of
           None \<Rightarrow> take_gauges groups gis grant gauges
         | Some cap \<Rightarrow>
             (let name = gr_name (groups ! gi);
                  (v, gauges1) = concurrent_gauge name gauges
              in if v < i64_of_nat cap
                 then take_gauges groups gis (grant\<lparr>ag_gauges := ag_gauges grant @ [name]\<rparr>) (al_put gauges1 name (v + 1))
                 else Some (Inl (Limit name ''concurrent'' None None None None), drop_grant grant gauges1)))
      else None)"

text \<open>Acquiring a shard ticks it, and every \<open>interval\<close>-th time evicts the cells no window can still use.\<close>

definition sweep_keeps :: "nat \<Rightarrow> BudgetCell \<Rightarrow> bool" where
  "sweep_keeps now c \<longleftrightarrow> bc_window_start c = 0 \<or> sat_add_u64 (bc_window_start c) (31 * SECS_PER_DAY) > now"

definition acquire_shard :: "nat \<Rightarrow> nat \<Rightarrow> nat \<Rightarrow> BudgetCell MapShard list \<Rightarrow> BudgetCell MapShard list" where
  "acquire_shard interval now sh B =
     (let shard = B ! sh;
          ticker = wrap_u32 (sh_sweep_ticker shard + 1);
          sweep_needed = interval dvd ticker
      in B[sh := shard\<lparr>sh_sweep_ticker := ticker,
             sh_map := (if sweep_needed then filter (\<lambda>(_, c). sweep_keeps now c) (sh_map shard) else sh_map shard)\<rparr>])"

definition acquire_shards :: "nat \<Rightarrow> nat \<Rightarrow> ChainBucket list \<Rightarrow> BudgetCell MapShard list \<Rightarrow> BudgetCell MapShard list" where
  "acquire_shards interval now buckets B =
     fold (acquire_shard interval now) (remdups_adj (sort (map (\<lambda>b. shard_index (cb_bucket_id b)) buckets))) B"

definition uncapped :: "ChainBucket \<Rightarrow> bool" where
  "uncapped b \<longleftrightarrow> cb_requests_cap b = None \<and> cb_tokens_cap b = None \<and> cb_budget_cap b = None"

definition over_cap :: "('a \<Rightarrow> bool) \<Rightarrow> 'a option \<Rightarrow> bool" where
  "over_cap P cap = (case cap of Some c \<Rightarrow> P c | None \<Rightarrow> False)"

definition blocked_metric :: "CostModel \<Rightarrow> nat \<Rightarrow> BudgetCell option \<Rightarrow> ChainBucket \<Rightarrow> string option" where
  "blocked_metric cm now co b =
     (let window = budget_window (cb_window b) now;
          fee = cm_price_per_request_cents cm;
          (requests, tokens, derived) =
            (case co of
               Some cell \<Rightarrow>
                 if bc_window_start cell \<ge> window
                 then (bc_requests cell,
                       if cb_tokens_cap b \<noteq> None then cell_total_tokens cell else 0,
                       if cb_budget_cap b \<noteq> None then derive_spend_cents cm (model_views cell) (bc_billable_requests cell) True
                       else 0)
                 else (0, 0, 0)
             | None \<Rightarrow> (0, 0, 0))
      in if over_cap (\<lambda>cap. sat_add_u64 requests 1 > cap) (cb_requests_cap b) then Some ''requests''
         else if over_cap (\<lambda>cap. tokens \<ge> cap) (cb_tokens_cap b) then Some ''tokens''
         else if over_cap (\<lambda>cap. derived \<ge> cap \<or> sat_i64 (derived + fee) > cap) (cb_budget_cap b) then Some ''budget''
         else None)"

fun check_buckets :: "CostModel \<Rightarrow> nat \<Rightarrow> BudgetCell MapShard list \<Rightarrow> ChainBucket list \<Rightarrow> LimitBlocked option option" where
  "check_buckets cm now B [] = Some None"
| "check_buckets cm now B (b # bs) =
     (if uncapped b then check_buckets cm now B bs
      else case blocked_metric cm now (sh_get B (cb_bucket_id b)) b of
        None \<Rightarrow> check_buckets cm now B bs
      | Some metric \<Rightarrow>
          (case cb_group_name b of
             None \<Rightarrow> None
           | Some gname \<Rightarrow>
               Some (Some (Limit gname metric (Some (cb_window b)) (cb_pool b)
                 (if metric = ''budget'' then cb_downgrade_to b else None)
                 (map_option (\<lambda>e. max (e - now) 1) (window_end (cb_window b) now))))))"

definition charge_bucket :: "nat \<Rightarrow> ChainBucket \<Rightarrow> BudgetCell MapShard list \<Rightarrow> BudgetCell MapShard list" where
  "charge_bucket now b B =
     (let window = budget_window (cb_window b) now;
          cell = live_cell (sh_get B (cb_bucket_id b)) window
      in sh_put B (cb_bucket_id b)
           (cell\<lparr>bc_requests := sat_add_u64 (bc_requests cell) 1,
                 bc_billable_requests := sat_add_u64 (bc_billable_requests cell) 1, bc_dirty := True\<rparr>))"

definition try_admit ::
  "CostModel \<Rightarrow> nat \<Rightarrow> VirtualKey \<Rightarrow> string \<Rightarrow> nat \<Rightarrow> 's GovState
   \<Rightarrow> ((LimitBlocked + AdmitGrant) \<times> 's GovState) option" where
  "try_admit cm interval key pool now s = do {
     r \<leftarrow> chain_for cm key;
     case r of
       Inl missing \<Rightarrow> Some (Inl (MissingGroup missing), s)
     | Inr chain \<Rightarrow> do {
         let buckets = filter (\<lambda>b. applies_to_pool b pool) (ch_buckets chain);
         frozen \<leftarrow> freeze_check (cm_groups cm) (ch_groups chain);
         case frozen of
           Some e \<Rightarrow> Some (Inl e, s)
         | None \<Rightarrow> do {
             (held, gauges) \<leftarrow> take_gauges (cm_groups cm) (ch_groups chain) \<lparr>ag_gauges = []\<rparr> (gv_concurrent s);
             case held of
               Inl e \<Rightarrow> Some (Inl e, s\<lparr>gv_concurrent := gauges\<rparr>)
             | Inr grant \<Rightarrow> do {
                 let B = acquire_shards interval now buckets (gv_budget s);
                 blocked \<leftarrow> check_buckets cm now B buckets;
                 case blocked of
                   Some e \<Rightarrow> Some (Inl e, s\<lparr>gv_concurrent := drop_grant grant gauges, gv_budget := B\<rparr>)
                 | None \<Rightarrow> Some (Inr grant, s\<lparr>gv_concurrent := gauges, gv_budget := fold (charge_bucket now) buckets B\<rparr>) } } } }"

definition drop_admit_grant :: "AdmitGrant \<Rightarrow> 's GovState \<Rightarrow> 's GovState" where
  "drop_admit_grant grant s = s\<lparr>gv_concurrent := drop_grant grant (gv_concurrent s)\<rparr>"

definition refund_bucket :: "string \<Rightarrow> string \<Rightarrow> nat \<Rightarrow> BudgetCell MapShard list \<Rightarrow> BudgetCell MapShard list" where
  "refund_bucket bucket_id period now B =
     (let window = budget_window period now in
      case sh_get B bucket_id of
        Some cell \<Rightarrow>
          if bc_window_start cell = window
          then sh_put B bucket_id (cell\<lparr>bc_billable_requests := bc_billable_requests cell - 1, bc_dirty := True\<rparr>)
          else B
      | None \<Rightarrow> B)"

definition refund_request :: "CostModel \<Rightarrow> VirtualKey \<Rightarrow> string \<Rightarrow> nat \<Rightarrow> 's GovState \<Rightarrow> 's GovState option" where
  "refund_request cm key pool now s = do {
     r \<leftarrow> chain_for cm key;
     Some (case r of
       Inl _ \<Rightarrow> s\<lparr>gv_budget := refund_bucket (vk_id key) WINDOW_TOTAL now (gv_budget s)\<rparr>
     | Inr chain \<Rightarrow>
         s\<lparr>gv_budget := fold (\<lambda>b. refund_bucket (cb_bucket_id b) (cb_window b) now)
             (filter (\<lambda>b. applies_to_pool b pool) (ch_buckets chain)) (gv_budget s)\<rparr>) }"

end
