(* ===== verification/GovLedger.thy ===== *)
theory GovLedger
  imports Gov
begin

text \<open>
  The governance ledger and its durable copy (\<open>governance/state.rs\<close>): the write-behind flush, the boot
  hydration, and the read-only views (derived usage, per-bucket budget state, limit headroom).
\<close>

subsection \<open>Flush\<close>

text \<open>\<open>signed\<close> is \<open>i64::try_from(v).unwrap_or(i64::MAX)\<close>; the difference of two such values fits.\<close>

definition tier_signed_diff :: "TierTokens \<Rightarrow> TierTokens \<Rightarrow> TierTokensDelta" where
  "tier_signed_diff cur flushed =
     \<lparr>td_input = i64_of_nat (tt_input cur) - i64_of_nat (tt_input flushed),
      td_output = i64_of_nat (tt_output cur) - i64_of_nat (tt_output flushed),
      td_cache_read = i64_of_nat (tt_cache_read cur) - i64_of_nat (tt_cache_read flushed),
      td_cache_write = i64_of_nat (tt_cache_write cur) - i64_of_nat (tt_cache_write flushed)\<rparr>"

record DirtySnap =
  ds_bucket_id :: string
  ds_window :: nat
  ds_delta :: UsageDelta
  ds_cur_requests :: nat
  ds_cur_billable_requests :: nat
  ds_cur_models :: "(string \<times> TierTokens) list"

definition cell_delta :: "BudgetCell \<Rightarrow> UsageDelta" where
  "cell_delta cell =
     \<lparr>ud_requests = i64_of_nat (bc_requests cell) - i64_of_nat (bc_flushed_requests cell),
      ud_billable_requests = i64_of_nat (bc_billable_requests cell) - i64_of_nat (bc_flushed_billable_requests cell),
      ud_models = filter (\<lambda>(_, d). \<not> tier_delta_is_zero d)
        (map (\<lambda>(m, x). (m, tier_signed_diff (mc_cur x) (mc_flushed x))) (bc_models cell))\<rparr>"

definition cell_snap :: "string \<Rightarrow> BudgetCell \<Rightarrow> DirtySnap" where
  "cell_snap i cell =
     \<lparr>ds_bucket_id = i, ds_window = bc_window_start cell, ds_delta = cell_delta cell,
      ds_cur_requests = bc_requests cell, ds_cur_billable_requests = bc_billable_requests cell,
      ds_cur_models = model_views cell\<rparr>"

text \<open>One locked pass over every shard: snapshot the dirty cells and clear their flags.\<close>

definition flush_snapshot :: "BudgetCell MapShard list \<Rightarrow> DirtySnap list \<times> BudgetCell MapShard list" where
  "flush_snapshot B =
     (concat (map (\<lambda>shard. map (\<lambda>(i, c). cell_snap i c) (filter (\<lambda>(_, c). bc_dirty c) (sh_map shard))) B),
      map (\<lambda>shard. shard\<lparr>sh_map := map (\<lambda>(i, c). (i, if bc_dirty c then c\<lparr>bc_dirty := False\<rparr> else c)) (sh_map shard)\<rparr>) B)"

definition ack_model :: "string \<times> TierTokens \<Rightarrow> (string \<times> ModelCell) list \<Rightarrow> (string \<times> ModelCell) list" where
  "ack_model e ms =
     (case al_get ms (fst e) of Some m \<Rightarrow> al_put ms (fst e) (m\<lparr>mc_flushed := snd e\<rparr>) | None \<Rightarrow> ms)"

definition ack_cell :: "DirtySnap \<Rightarrow> BudgetCell \<Rightarrow> BudgetCell" where
  "ack_cell snap cell =
     cell\<lparr>bc_flushed_requests := ds_cur_requests snap,
          bc_flushed_billable_requests := ds_cur_billable_requests snap,
          bc_models := fold ack_model (ds_cur_models snap) (bc_models cell)\<rparr>"

text \<open>Writing one snapshot back: the store write, then the acknowledgement or the re-mark.\<close>

definition flush_one ::
  "'s Store \<Rightarrow> DirtySnap \<Rightarrow> nat \<times> 's GovState \<Rightarrow> nat \<times> 's GovState" where
  "flush_one vt snap acc =
     (let (flushed, s) = acc;
          (outcome, st) = (if usage_delta_is_zero (ds_delta snap) then (Inr (), gv_store s)
                           else add_usage vt (ds_bucket_id snap) (ds_window snap) (ds_delta snap) (gv_store s));
          s = s\<lparr>gv_store := st\<rparr>;
          cell = sh_get (gv_budget s) (ds_bucket_id snap)
      in case outcome of
           Inr _ \<Rightarrow> (flushed + 1,
             (case cell of
                Some c \<Rightarrow> if bc_window_start c = ds_window snap
                          then s\<lparr>gv_budget := sh_put (gv_budget s) (ds_bucket_id snap) (ack_cell snap c)\<rparr> else s
              | None \<Rightarrow> s))
         | Inl _ \<Rightarrow> (flushed,
             (case cell of
                Some c \<Rightarrow> if bc_window_start c = ds_window snap
                          then s\<lparr>gv_budget := sh_put (gv_budget s) (ds_bucket_id snap) (c\<lparr>bc_dirty := True\<rparr>)\<rparr> else s
              | None \<Rightarrow> s)))"

definition flush_budgets :: "'s Store \<Rightarrow> 's GovState \<Rightarrow> nat \<times> 's GovState" where
  "flush_budgets vt s =
     (let (dirty, B) = flush_snapshot (gv_budget s)
      in fold (flush_one vt) dirty (0, s\<lparr>gv_budget := B\<rparr>))"

subsection \<open>Hydration\<close>

definition hydrate_cell :: "nat \<Rightarrow> UsageLedger \<Rightarrow> BudgetCell" where
  "hydrate_cell window ledger =
     (let billable = (if ul_billable_requests ledger = 0 \<and> ul_requests ledger > 0 then ul_requests ledger
                      else ul_billable_requests ledger)
      in (cell_fresh window)\<lparr>bc_requests := ul_requests ledger, bc_flushed_requests := ul_requests ledger,
           bc_billable_requests := billable, bc_flushed_billable_requests := billable,
           bc_models := map (\<lambda>(m, t). (m, \<lparr>mc_cur = t, mc_flushed = t\<rparr>)) (ul_models ledger)\<rparr>)"

fun hydrate_buckets ::
  "'s Store \<Rightarrow> 's \<Rightarrow> nat \<Rightarrow> (string \<times> string) list \<Rightarrow> BudgetCell MapShard list
   \<Rightarrow> unit store_result \<times> BudgetCell MapShard list" where
  "hydrate_buckets vt st now [] B = (Inr (), B)"
| "hydrate_buckets vt st now ((bucket_id, period) # bs) B =
     (let window = budget_window period now in
      case get_usage vt bucket_id window st of
        Inl e \<Rightarrow> (Inl e, B)
      | Inr ledger \<Rightarrow>
          if ul_requests ledger = 0 \<and> ul_models ledger = [] then hydrate_buckets vt st now bs B
          else hydrate_buckets vt st now bs (sh_put B bucket_id (hydrate_cell window ledger)))"

definition hydrate_list :: "VirtualKey list \<Rightarrow> CostModel \<Rightarrow> (string \<times> string) list" where
  "hydrate_list keys cm =
     map (\<lambda>k. (vk_id k, WINDOW_TOTAL)) keys
     @ concat (map (\<lambda>g. map (\<lambda>b. (gb_bucket_id b, gb_window b)) (gr_buckets g)) (cm_groups cm))"

definition hydrate_budgets :: "'s Store \<Rightarrow> CostModel \<Rightarrow> nat \<Rightarrow> 's GovState \<Rightarrow> unit store_result \<times> 's GovState" where
  "hydrate_budgets vt cm now s =
     (case list_keys vt (gv_store s) of
        Inl e \<Rightarrow> (Inl e, s)
      | Inr keys \<Rightarrow>
          (let (r, B) = hydrate_buckets vt (gv_store s) now (hydrate_list keys cm) (gv_budget s)
           in (r, s\<lparr>gv_budget := B\<rparr>)))"

subsection \<open>Views\<close>

definition derived_bucket_usage ::
  "'s Store \<Rightarrow> CostModel \<Rightarrow> string \<Rightarrow> string \<Rightarrow> bool \<Rightarrow> nat \<Rightarrow> 's GovState \<Rightarrow> DerivedUsage store_result" where
  "derived_bucket_usage vt cm bucket_id period include_request_fee now s =
     (let window = budget_window period now;
          durable = (case get_usage vt bucket_id window (gv_store s) of
             Inl e \<Rightarrow> Inl e
           | Inr ledger \<Rightarrow>
               Inr \<lparr>du_spend_cents = derive_spend_cents cm (ul_models ledger) (ul_billable_requests ledger) include_request_fee,
                    du_tokens = ledger_total_tokens ledger, du_requests = ul_requests ledger\<rparr>)
      in case sh_get (gv_budget s) bucket_id of
           Some cell \<Rightarrow>
             if bc_window_start cell = window
             then Inr \<lparr>du_spend_cents = derive_spend_cents cm (model_views cell) (bc_billable_requests cell) include_request_fee,
                       du_tokens = cell_total_tokens cell, du_requests = bc_requests cell\<rparr>
             else durable
         | None \<Rightarrow> durable)"

definition usage_for :: "'s Store \<Rightarrow> CostModel \<Rightarrow> string \<Rightarrow> nat \<Rightarrow> 's GovState \<Rightarrow> DerivedUsage option store_result" where
  "usage_for vt cm i now s =
     (case get_key vt i (gv_store s) of
        Inl e \<Rightarrow> Inl e
      | Inr None \<Rightarrow> Inr None
      | Inr (Some _) \<Rightarrow>
          (case derived_bucket_usage vt cm i WINDOW_TOTAL True now s of Inl e \<Rightarrow> Inl e | Inr u \<Rightarrow> Inr (Some u)))"

definition bucket_model_tokens ::
  "'s Store \<Rightarrow> string \<Rightarrow> string \<Rightarrow> nat \<Rightarrow> 's GovState \<Rightarrow> (string \<times> TierTokens) list" where
  "bucket_model_tokens vt bucket_id period now s =
     (let window = budget_window period now;
          durable = (case get_usage vt bucket_id window (gv_store s) of Inr ledger \<Rightarrow> ul_models ledger | Inl _ \<Rightarrow> [])
      in case sh_get (gv_budget s) bucket_id of
           Some cell \<Rightarrow> if bc_window_start cell = window then model_views cell else durable
         | None \<Rightarrow> durable)"

record BudgetBucketState =
  bs_bucket_id :: string
  bs_budget_group :: "string option"
  bs_pool :: "string option"
  bs_spend_micros :: int
  bs_remaining_micros :: "int option"
  bs_window_start :: nat
  bs_budget_period :: string

definition bucket_state :: "CostModel \<Rightarrow> nat \<Rightarrow> BudgetCell MapShard list \<Rightarrow> ChainBucket \<Rightarrow> BudgetBucketState" where
  "bucket_state cm now B b =
     (let window = budget_window (cb_window b) now;
          spend_micros = (case sh_get B (cb_bucket_id b) of
             Some cell \<Rightarrow> if bc_window_start cell = window
                          then derive_spend_micros cm (model_views cell) (bc_billable_requests cell) True else 0
           | None \<Rightarrow> 0)
      in \<lparr>bs_bucket_id = cb_bucket_id b, bs_budget_group = cb_group_name b, bs_pool = cb_pool b,
          bs_spend_micros = spend_micros,
          bs_remaining_micros = map_option (\<lambda>cap. max (sat_i64 (sat_i64 (cap * 10000) - spend_micros)) 0) (cb_budget_cap b),
          bs_window_start = window, bs_budget_period = cb_window b\<rparr>)"

definition budget_state :: "CostModel \<Rightarrow> VirtualKey \<Rightarrow> nat \<Rightarrow> 's GovState \<Rightarrow> BudgetBucketState list option" where
  "budget_state cm key now s = do {
     r \<leftarrow> chain_for cm key;
     Some (case r of Inl _ \<Rightarrow> [] | Inr chain \<Rightarrow> map (bucket_state cm now (gv_budget s)) (ch_buckets chain)) }"

text \<open>\<open>f64::min\<close> and \<open>f64::clamp(0.0, 1.0)\<close>; \<open>min\<close> ignores a NaN operand.\<close>

definition f64_min :: "f64 \<Rightarrow> f64 \<Rightarrow> f64" where
  "f64_min a b = (if a = NaN then b else if b = NaN then a else if f64_ge a b then b else a)"

definition f64_clamp01 :: "f64 \<Rightarrow> f64" where
  "f64_clamp01 x = (if f64_gt (Fin 0) x then Fin 0 else if f64_gt x (Fin 1) then Fin 1 else x)"

definition headroom_frac :: "nat \<Rightarrow> nat \<Rightarrow> f64" where
  "headroom_frac used cap =
     (if cap = 0 then Fin 0 else f64_add (Fin 1) (f64_neg (f64_div (f64_of_nat used) (f64_of_nat cap))))"

definition bucket_headroom :: "nat \<Rightarrow> BudgetCell MapShard list \<Rightarrow> ChainBucket \<Rightarrow> f64" where
  "bucket_headroom now B b =
     (let window = budget_window (cb_window b) now;
          (requests, tokens) = (case sh_get B (cb_bucket_id b) of
             Some cell \<Rightarrow> if bc_window_start cell = window then (bc_requests cell, cell_total_tokens cell) else (0, 0)
           | None \<Rightarrow> (0, 0));
          h = Inf False;
          h = (case cb_requests_cap b of Some cap \<Rightarrow> f64_min h (headroom_frac requests cap) | None \<Rightarrow> h);
          h = (case cb_tokens_cap b of Some cap \<Rightarrow> f64_min h (headroom_frac tokens cap) | None \<Rightarrow> h)
      in f64_clamp01 h)"

definition headroom_applies :: "string option \<Rightarrow> ChainBucket \<Rightarrow> bool" where
  "headroom_applies pool b \<longleftrightarrow> (cb_requests_cap b \<noteq> None \<or> cb_tokens_cap b \<noteq> None)
     \<and> (case pool of Some p \<Rightarrow> applies_to_pool b p | None \<Rightarrow> cb_pool b = None)"

definition rate_headroom :: "CostModel \<Rightarrow> VirtualKey \<Rightarrow> string option \<Rightarrow> nat \<Rightarrow> 's GovState \<Rightarrow> f64 option option" where
  "rate_headroom cm key pool now s = do {
     r \<leftarrow> chain_for cm key;
     Some (case r of
       Inl _ \<Rightarrow> None
     | Inr chain \<Rightarrow>
         foldl (\<lambda>headroom b.
             let h = bucket_headroom now (gv_budget s) b
             in Some (case headroom of None \<Rightarrow> h | Some cur \<Rightarrow> f64_min cur h))
           None (filter (headroom_applies pool) (ch_buckets chain))) }"

end
