(* ===== verification/GovCells.thy ===== *)
theory GovCells
  imports Gov Windows CostChain
begin

text \<open>
  The sharded cell map as a map, and what the loops over a chain's buckets do to it. The locale
  \<open>keyed_map\<close> is the interface the ledger operations rely on; it is interpreted on the sharded map.
\<close>

subsection \<open>The interface\<close>

locale keyed_map =
  fixes get :: "'m \<Rightarrow> 'k \<Rightarrow> 'v option" and put :: "'m \<Rightarrow> 'k \<Rightarrow> 'v \<Rightarrow> 'm" and wf :: "'m \<Rightarrow> bool"
  assumes get_put: "wf m \<Longrightarrow> get (put m k v) k' = (if k' = k then Some v else get m k')"
    and wf_put: "wf m \<Longrightarrow> wf (put m k v)"
begin

text \<open>A read-modify-write of each key of a list, in order.\<close>

lemma wf_fold: "wf m \<Longrightarrow> wf (fold (\<lambda>x m. put m (key x) (f x (get m (key x)))) xs m)"
  by (induction xs arbitrary: m) (simp_all add: wf_put)

lemma get_fold_other:
  "wf m \<Longrightarrow> k \<notin> key ` set xs \<Longrightarrow> get (fold (\<lambda>x m. put m (key x) (f x (get m (key x)))) xs m) k = get m k"
  by (induction xs arbitrary: m) (simp_all add: wf_put get_put)

lemma get_fold:
  assumes "wf m" "distinct (map key xs)" "x \<in> set xs"
  shows "get (fold (\<lambda>x m. put m (key x) (f x (get m (key x)))) xs m) (key x) = Some (f x (get m (key x)))"
  using assms
proof (induction xs arbitrary: m)
  case (Cons y ys)
  let ?m = "put m (key y) (f y (get m (key y)))"
  show ?case
  proof (cases "x = y")
    case True
    then have "key x \<notin> key ` set ys" using Cons.prems by auto
    then show ?thesis using get_fold_other [of ?m "key x" key ys f] Cons.prems True by (simp add: wf_put get_put)
  next
    case False
    then have "x \<in> set ys" using Cons.prems by simp
    then have "key x \<in> key ` set ys" by blast
    then have "key x \<noteq> key y" using Cons.prems by auto
    with \<open>x \<in> set ys\<close> show ?thesis using Cons.IH [of ?m] Cons.prems by (simp add: wf_put get_put)
  qed
qed simp

text \<open>A property of the values that every write establishes is kept by the loop.\<close>

lemma fold_keeps:
  assumes "wf m" "\<forall>k v. get m k = Some v \<longrightarrow> P k v"
    and "\<And>x vo. x \<in> set xs \<Longrightarrow> (\<forall>v. vo = Some v \<longrightarrow> P (key x) v) \<Longrightarrow> P (key x) (f x vo)"
  shows "\<forall>k v. get (fold (\<lambda>x m. put m (key x) (f x (get m (key x)))) xs m) k = Some v \<longrightarrow> P k v"
  using assms
proof (induction xs arbitrary: m)
  case (Cons y ys)
  have "\<forall>k v. get (put m (key y) (f y (get m (key y)))) k = Some v \<longrightarrow> P k v"
    using Cons.prems by (simp add: get_put)
  then show ?case using Cons.IH [of "put m (key y) (f y (get m (key y)))"] Cons.prems by (simp add: wf_put)
qed simp

end

subsection \<open>The sharded map\<close>

lemma gov_shard_lt: "shard_index k < GOV_SHARDS"
proof -
  have m: "GOV_SHARDS - 1 = (mask 6 :: nat)" by (simp add: GOV_SHARDS_def mask_eq_exp_minus_1)
  show ?thesis
    unfolding shard_index_def m by (simp add: GOV_SHARDS_def take_bit_eq_mod flip: take_bit_eq_mask)
qed

text \<open>Sixty-four shards, each entry once and in the shard that owns its name.\<close>

definition budget_wf :: "'v MapShard list \<Rightarrow> bool" where
  "budget_wf B \<longleftrightarrow> length B = GOV_SHARDS
     \<and> (\<forall>j < GOV_SHARDS. distinct (map fst (sh_map (B ! j))) \<and> (\<forall>x \<in> set (sh_map (B ! j)). shard_index (fst x) = j))"

lemma budget_wf_len: "budget_wf B \<Longrightarrow> length B = GOV_SHARDS"
  by (simp add: budget_wf_def)

lemma budget_wf_new: "budget_wf sharded_new"
  by (simp add: budget_wf_def sharded_new_def)

lemma sh_get_new [simp]: "sh_get sharded_new k = None"
  using gov_shard_lt [of k] by (simp add: sh_get_def sharded_new_def)

lemma sh_get_put: "length B = GOV_SHARDS \<Longrightarrow> sh_get (sh_put B k v) k' = (if k' = k then Some v else sh_get B k')"
  using gov_shard_lt [of k] gov_shard_lt [of k'] by (auto simp: sh_get_def sh_put_def nth_list_update)

lemma budget_wf_put: "budget_wf B \<Longrightarrow> budget_wf (sh_put B k v)"
proof -
  assume wf: "budget_wf B"
  have "distinct (map fst (sh_map (sh_put B k v ! j))) \<and> (\<forall>x \<in> set (sh_map (sh_put B k v ! j)). shard_index (fst x) = j)"
    if j: "j < GOV_SHARDS" for j
  proof (cases "j = shard_index k")
    case True
    have old: "distinct (map fst (sh_map (B ! j)))" "\<forall>x \<in> set (sh_map (B ! j)). shard_index (fst x) = j"
      using wf j by (auto simp: budget_wf_def)
    have "sh_map (sh_put B k v ! j) = al_put (sh_map (B ! j)) k v"
      using True j budget_wf_len [OF wf] by (simp add: sh_put_def)
    moreover have "\<forall>x \<in> set (al_put (sh_map (B ! j)) k v). shard_index (fst x) = j"
      using set_al_put_subset [of "sh_map (B ! j)" k v] old(2) True by fastforce
    ultimately show ?thesis using distinct_al_put [OF old(1)] by auto
  next
    case False
    then show ?thesis using wf j by (simp add: budget_wf_def sh_put_def)
  qed
  then show ?thesis using wf by (simp add: budget_wf_def sh_put_def)
qed

interpretation gm: keyed_map sh_get sh_put budget_wf
proof
  fix B :: "'v MapShard list" and k k' v assume wf: "budget_wf B"
  show "sh_get (sh_put B k v) k' = (if k' = k then Some v else sh_get B k')"
    using sh_get_put [OF budget_wf_len [OF wf]] .
  show "budget_wf (sh_put B k v)" using budget_wf_put [OF wf] .
qed

subsection \<open>Acquiring shards\<close>

lemma sweep_filter: "al_get (filter (\<lambda>(_, c). P c) xs) k = (case al_get xs k of Some c \<Rightarrow> if P c then Some c else None | None \<Rightarrow> None)"
  if "distinct (map fst xs)"
  using that
proof (induction xs)
  case (Cons x xs)
  then show ?case by (cases x) (auto simp: al_get_None dest: al_get_key split: option.splits)
qed simp

lemma acquire_shard_wf: "budget_wf B \<Longrightarrow> j < GOV_SHARDS \<Longrightarrow> budget_wf (acquire_shard interval now j B)"
  by (auto simp: budget_wf_def acquire_shard_def Let_def nth_list_update distinct_map_filter)

lemma acquire_shard_get:
  assumes "budget_wf B" "j < GOV_SHARDS"
  shows "sh_get (acquire_shard interval now j B) k = sh_get B k
    \<or> (\<exists>c. sh_get B k = Some c \<and> \<not> sweep_keeps now c \<and> sh_get (acquire_shard interval now j B) k = None)"
proof (cases "j = shard_index k")
  case True
  have "distinct (map fst (sh_map (B ! j)))" using assms by (simp add: budget_wf_def)
  then show ?thesis
    using assms True sweep_filter [of "sh_map (B ! j)" "sweep_keeps now" k] budget_wf_len [OF assms(1)]
    by (auto simp: sh_get_def acquire_shard_def Let_def split: option.splits)
next
  case False
  then show ?thesis by (simp add: sh_get_def acquire_shard_def Let_def)
qed

lemma acquire_fold:
  assumes "budget_wf B" "\<forall>j \<in> set js. j < GOV_SHARDS"
  shows "budget_wf (fold (acquire_shard interval now) js B)
    \<and> (sh_get (fold (acquire_shard interval now) js B) k = sh_get B k
       \<or> (\<exists>c. sh_get B k = Some c \<and> \<not> sweep_keeps now c \<and> sh_get (fold (acquire_shard interval now) js B) k = None))"
  using assms
proof (induction js arbitrary: B)
  case (Cons j js)
  have wf: "budget_wf (acquire_shard interval now j B)" using Cons.prems acquire_shard_wf by simp
  show ?case using Cons.IH [OF wf] acquire_shard_get [of B j interval now k] Cons.prems by auto
qed simp

lemma acquire_shards_wf: "budget_wf B \<Longrightarrow> budget_wf (acquire_shards interval now bs B)"
  unfolding acquire_shards_def by (rule conjunct1, rule acquire_fold) (auto simp: gov_shard_lt)

text \<open>Acquiring locks only ever evicts cells that the sweep does not keep.\<close>

lemma acquire_shards_get:
  "budget_wf B \<Longrightarrow> sh_get (acquire_shards interval now bs B) k = sh_get B k
    \<or> (\<exists>c. sh_get B k = Some c \<and> \<not> sweep_keeps now c \<and> sh_get (acquire_shards interval now bs B) k = None)"
  unfolding acquire_shards_def by (rule conjunct2, rule acquire_fold) (auto simp: gov_shard_lt)

lemma acquire_shards_keep:
  "budget_wf B \<Longrightarrow> sh_get (acquire_shards interval now bs B) k = Some c \<Longrightarrow> sh_get B k = Some c"
  using acquire_shards_get [of B interval now bs k] by auto

end
