(* ===== verification/GovFlush.thy ===== *)
theory GovFlush
  imports GovLedger GovCells
begin

text \<open>
  The write-behind flush conserves usage. For one bucket and window the books are the durable ledger
  row plus what the in-memory cell has accrued since its acknowledged baseline; a store write moves
  usage from the second part to the first, and a failed write moves nothing, whatever was charged or
  accrued between the snapshot and the acknowledgement.
\<close>

subsection \<open>Books\<close>

definition model_cell :: "BudgetCell \<Rightarrow> string \<Rightarrow> ModelCell" where
  "model_cell c m = (case al_get (bc_models c) m of Some x \<Rightarrow> x | None \<Rightarrow> \<lparr>mc_cur = tier_zero, mc_flushed = tier_zero\<rparr>)"

definition tier_diff :: "TierTokens \<Rightarrow> TierTokens \<Rightarrow> TierTokensDelta" where
  "tier_diff a b = \<lparr>td_input = int (tt_input a) - int (tt_input b), td_output = int (tt_output a) - int (tt_output b),
     td_cache_read = int (tt_cache_read a) - int (tt_cache_read b),
     td_cache_write = int (tt_cache_write a) - int (tt_cache_write b)\<rparr>"

definition unflushed :: "BudgetCell \<Rightarrow> string \<Rightarrow> TierTokensDelta" where
  "unflushed c m = tier_diff (mc_cur (model_cell c m)) (mc_flushed (model_cell c m))"

definition books_requests :: "UsageLedger \<Rightarrow> BudgetCell \<Rightarrow> int" where
  "books_requests l c = int (ul_requests l) + (int (bc_requests c) - int (bc_flushed_requests c))"

definition books_billable :: "UsageLedger \<Rightarrow> BudgetCell \<Rightarrow> int" where
  "books_billable l c = int (ul_billable_requests l) + (int (bc_billable_requests c) - int (bc_flushed_billable_requests c))"

definition books_tokens :: "UsageLedger \<Rightarrow> BudgetCell \<Rightarrow> string \<Rightarrow> TierTokensDelta" where
  "books_tokens l c m = tier_add (tier_int (model_tokens (ul_models l) m)) (unflushed c m)"

text \<open>The counters of a cell are in the signed range, its models are listed once, and its baselines are set.\<close>

definition tier_small :: "TierTokens \<Rightarrow> bool" where
  "tier_small t \<longleftrightarrow> int (tt_input t) \<le> i64_max \<and> int (tt_output t) \<le> i64_max
     \<and> int (tt_cache_read t) \<le> i64_max \<and> int (tt_cache_write t) \<le> i64_max"

definition cell_small :: "BudgetCell \<Rightarrow> bool" where
  "cell_small c \<longleftrightarrow> int (bc_requests c) \<le> i64_max \<and> int (bc_billable_requests c) \<le> i64_max
     \<and> int (bc_flushed_requests c) \<le> i64_max \<and> int (bc_flushed_billable_requests c) \<le> i64_max
     \<and> distinct (map fst (bc_models c))
     \<and> (\<forall>x \<in> set (bc_models c). tier_small (mc_cur (snd x)) \<and> tier_small (mc_flushed (snd x)))"

text \<open>The row the snapshot's delta is added to has room for it.\<close>

definition row_fits :: "UsageLedger \<Rightarrow> BudgetCell \<Rightarrow> bool" where
  "row_fits l c \<longleftrightarrow> 0 \<le> books_requests l c \<and> books_requests l c \<le> int u64_max
     \<and> 0 \<le> books_billable l c \<and> books_billable l c \<le> int u64_max \<and> (\<forall>m. tier_fits (books_tokens l c m))"

text \<open>
  The cell has the acknowledged baselines the snapshot was taken with; its counters may have moved,
  and it may have seen new models.
\<close>

definition same_baseline :: "BudgetCell \<Rightarrow> BudgetCell \<Rightarrow> bool" where
  "same_baseline c c1 \<longleftrightarrow> bc_window_start c1 = bc_window_start c \<and> bc_flushed_requests c1 = bc_flushed_requests c
     \<and> bc_flushed_billable_requests c1 = bc_flushed_billable_requests c
     \<and> (\<forall>m. mc_flushed (model_cell c1 m) = mc_flushed (model_cell c m))
     \<and> fst ` set (bc_models c) \<subseteq> fst ` set (bc_models c1)"

lemma i64_exact: "int n \<le> i64_max \<Longrightarrow> i64_of_nat n = int n"
  by (simp add: i64_of_nat_def)

lemma tier_signed_diff_exact: "tier_small a \<Longrightarrow> tier_small b \<Longrightarrow> tier_signed_diff a b = tier_diff a b"
  by (simp add: tier_small_def tier_signed_diff_def tier_diff_def i64_exact)

subsection \<open>The delta of a cell\<close>

lemma al_get_map_snd: "al_get (map (\<lambda>(m, x). (m, f x)) xs) k = map_option f (al_get xs k)"
  by (induction xs) auto

lemma cell_delta_keys: "distinct (map fst (bc_models c)) \<Longrightarrow> distinct (map fst (ud_models (cell_delta c)))"
  by (simp add: cell_delta_def distinct_map_filter comp_def case_prod_unfold)

lemma cell_delta_model:
  assumes "cell_small c"
  shows "model_delta (ud_models (cell_delta c)) m = unflushed c m"
proof -
  define ds where "ds = map (\<lambda>(m, x). (m, tier_signed_diff (mc_cur x) (mc_flushed x))) (bc_models c)"
  have d: "distinct (map fst ds)" using assms by (simp add: ds_def cell_small_def comp_def case_prod_unfold)
  have "al_get (filter (\<lambda>(_, d). \<not> tier_delta_is_zero d) ds) m =
      (case al_get ds m of Some x \<Rightarrow> if \<not> tier_delta_is_zero x then Some x else None | None \<Rightarrow> None)"
    by (rule sweep_filter [OF d])
  then have "model_delta (ud_models (cell_delta c)) m = (case al_get ds m of Some x \<Rightarrow> x | None \<Rightarrow> delta_zero)"
    by (auto simp: model_delta_def cell_delta_def ds_def tier_delta_zero_iff split: option.splits)
  also have "\<dots> = unflushed c m"
  proof (cases "al_get (bc_models c) m")
    case None
    then show ?thesis by (simp add: ds_def al_get_map_snd unflushed_def model_cell_def tier_diff_def tier_defs)
  next
    case (Some x)
    then have "(m, x) \<in> set (bc_models c)" by (rule al_get_mem)
    then have "tier_small (mc_cur x) \<and> tier_small (mc_flushed x)" using assms by (force simp: cell_small_def)
    then show ?thesis using Some by (simp add: ds_def al_get_map_snd unflushed_def model_cell_def tier_signed_diff_exact)
  qed
  finally show ?thesis .
qed

lemma usage_delta_zero_unflushed:
  assumes "cell_small c" "usage_delta_is_zero (cell_delta c)"
  shows "unflushed c m = delta_zero" and "bc_requests c = bc_flushed_requests c"
    and "bc_billable_requests c = bc_flushed_billable_requests c"
proof -
  have "model_delta (ud_models (cell_delta c)) m = delta_zero"
    using assms(2) al_get_mem [of "ud_models (cell_delta c)" m]
    by (fastforce simp: usage_delta_is_zero_def model_delta_def list_all_iff tier_delta_zero_iff split: option.splits)
  then show "unflushed c m = delta_zero" using cell_delta_model [OF assms(1)] by simp
  show "bc_requests c = bc_flushed_requests c" and "bc_billable_requests c = bc_flushed_billable_requests c"
    using assms by (simp_all add: usage_delta_is_zero_def cell_delta_def cell_small_def i64_exact)
qed

text \<open>Adding the delta to the row.\<close>

lemma apply_cell_delta:
  assumes "cell_small c" "row_fits l c"
  shows "int (ul_requests (apply_delta (cell_delta c) l)) = books_requests l c"
    and "int (ul_billable_requests (apply_delta (cell_delta c) l)) = books_billable l c"
    and "tier_int (model_tokens (ul_models (apply_delta (cell_delta c) l)) m) = books_tokens l c m"
proof -
  show "int (ul_requests (apply_delta (cell_delta c) l)) = books_requests l c"
    and "int (ul_billable_requests (apply_delta (cell_delta c) l)) = books_billable l c"
    using assms
    by (simp_all add: apply_delta_counts cell_delta_def cell_small_def i64_exact row_fits_def books_requests_def
        books_billable_def sat_add_signed_exact)
  have d: "distinct (map fst (ud_models (cell_delta c)))"
    using assms(1) cell_delta_keys by (simp add: cell_small_def)
  have u: "model_delta (ud_models (cell_delta c)) m = unflushed c m" by (rule cell_delta_model [OF assms(1)])
  show "tier_int (model_tokens (ul_models (apply_delta (cell_delta c) l)) m) = books_tokens l c m"
  proof (cases "al_get (ud_models (cell_delta c)) m")
    case None
    then show ?thesis using u by (simp add: apply_delta_models [OF d] model_delta_def books_tokens_def)
  next
    case (Some x)
    then have "x = unflushed c m" using u by (simp add: model_delta_def)
    moreover have "tier_fits (books_tokens l c m)" using assms(2) by (simp add: row_fits_def)
    ultimately show ?thesis
      using Some by (simp add: apply_delta_models [OF d] tier_apply_exact books_tokens_def)
  qed
qed

subsection \<open>Acknowledgement\<close>

lemma ack_model_get:
  "al_get (ack_model e ms) k = (if k = fst e then map_option (\<lambda>m. m\<lparr>mc_flushed := snd e\<rparr>) (al_get ms k) else al_get ms k)"
  by (auto simp: ack_model_def split: option.split)

lemma ack_fold_get:
  "distinct (map fst es) \<Longrightarrow> al_get (fold ack_model es ms) k =
     (case al_get es k of Some t \<Rightarrow> map_option (\<lambda>m. m\<lparr>mc_flushed := t\<rparr>) (al_get ms k) | None \<Rightarrow> al_get ms k)"
proof (induction es arbitrary: ms)
  case (Cons e es)
  have "al_get es (fst e) = None" using Cons.prems by (simp add: al_get_None)
  then show ?case
    using Cons by (cases e) (auto simp: ack_model_get split: option.split)
qed simp

lemma ack_model_cell:
  assumes "cell_small c" "same_baseline c c1"
  shows "model_cell (ack_cell (cell_snap k c) c1) m =
    (model_cell c1 m)\<lparr>mc_flushed := (if m \<in> fst ` set (bc_models c) then mc_cur (model_cell c m) else mc_flushed (model_cell c1 m))\<rparr>"
proof -
  have d: "distinct (map fst (model_views c))"
    using assms(1) by (simp add: model_views_def cell_small_def comp_def case_prod_unfold)
  have v: "al_get (model_views c) m = map_option mc_cur (al_get (bc_models c) m)"
    by (simp add: model_views_def al_get_map_snd)
  show ?thesis
  proof (cases "al_get (bc_models c) m")
    case None
    then show ?thesis
      using al_get_None [of "bc_models c" m]
      by (simp add: model_cell_def ack_cell_def cell_snap_def ack_fold_get [OF d] v split: option.split)
  next
    case (Some x)
    then have m: "m \<in> fst ` set (bc_models c)" by (rule al_get_key)
    then obtain y where "al_get (bc_models c1) m = Some y"
      using assms(2) al_get_None [of "bc_models c1" m] by (auto simp: same_baseline_def)
    then show ?thesis
      using Some m by (simp add: model_cell_def ack_cell_def cell_snap_def ack_fold_get [OF d] v)
  qed
qed

text \<open>The books before the write of the snapshot equal the books after its acknowledgement.\<close>

lemma ack_conserves:
  fixes k :: string
  assumes "cell_small c" "row_fits l c" "same_baseline c c1"
  defines "l' \<equiv> apply_delta (cell_delta c) l" and "c' \<equiv> ack_cell (cell_snap k c) c1"
  shows "books_requests l' c' = books_requests l c1" and "books_billable l' c' = books_billable l c1"
    and "books_tokens l' c' m = books_tokens l c1 m"
proof -
  note a = apply_cell_delta [OF assms(1,2)]
  note b = assms(3) [unfolded same_baseline_def]
  show "books_requests l' c' = books_requests l c1"
    using a(1) b by (simp add: books_requests_def l'_def c'_def ack_cell_def cell_snap_def)
  show "books_billable l' c' = books_billable l c1"
    using a(2) b by (simp add: books_billable_def l'_def c'_def ack_cell_def cell_snap_def)
  have mc: "mc_cur (model_cell c' m) = mc_cur (model_cell c1 m)"
    "mc_flushed (model_cell c' m) = mc_cur (model_cell c m)"
  proof -
    show "mc_cur (model_cell c' m) = mc_cur (model_cell c1 m)"
      unfolding c'_def ack_model_cell [OF assms(1,3)] by simp
    show "mc_flushed (model_cell c' m) = mc_cur (model_cell c m)"
    proof (cases "m \<in> fst ` set (bc_models c)")
      case False
      then have "model_cell c m = \<lparr>mc_cur = tier_zero, mc_flushed = tier_zero\<rparr>"
        using al_get_None [of "bc_models c" m] by (simp add: model_cell_def)
      then show ?thesis using False b unfolding c'_def ack_model_cell [OF assms(1,3)] by simp
    qed (simp add: c'_def ack_model_cell [OF assms(1,3)])
  qed
  show "books_tokens l' c' m = books_tokens l c1 m"
    unfolding books_tokens_def unflushed_def mc l'_def a(3) [unfolded books_tokens_def unflushed_def]
    using b by (simp add: tier_add_def tier_diff_def)
qed

lemma ack_zero_conserves:
  fixes k :: string
  assumes "cell_small c" "usage_delta_is_zero (cell_delta c)" "same_baseline c c1"
  defines "c' \<equiv> ack_cell (cell_snap k c) c1"
  shows "books_requests l c' = books_requests l c1" and "books_billable l c' = books_billable l c1"
    and "books_tokens l c' m = books_tokens l c1 m"
proof -
  note z = usage_delta_zero_unflushed [OF assms(1,2)]
  note b = assms(3) [unfolded same_baseline_def]
  show "books_requests l c' = books_requests l c1" "books_billable l c' = books_billable l c1"
    using z(2,3) b by (simp_all add: books_requests_def books_billable_def c'_def ack_cell_def cell_snap_def)
  have "mc_cur (model_cell c m) = mc_flushed (model_cell c m)"
    using z(1) [of m] by (intro tier_eqI) (simp add: unflushed_def tier_diff_def tier_int_def delta_zero_def)
  then have "unflushed c' m = unflushed c1 m"
    using b unfolding unflushed_def c'_def ack_model_cell [OF assms(1,3)] by simp
  then show "books_tokens l c' m = books_tokens l c1 m" by (simp add: books_tokens_def)
qed

subsection \<open>One write\<close>

text \<open>What a write of the snapshot of cell \<open>c\<close> did to the bucket \<open>k\<close>.\<close>

definition conserved :: "UsageLedger \<Rightarrow> BudgetCell \<Rightarrow> UsageLedger \<Rightarrow> BudgetCell \<Rightarrow> bool" where
  "conserved l c l' c' \<longleftrightarrow> books_requests l' c' = books_requests l c \<and> books_billable l' c' = books_billable l c
     \<and> (\<forall>m. books_tokens l' c' m = books_tokens l c m)
     \<and> bc_window_start c' = bc_window_start c \<and> bc_requests c' = bc_requests c
     \<and> bc_billable_requests c' = bc_billable_requests c \<and> (\<forall>m. mc_cur (model_cell c' m) = mc_cur (model_cell c m))"

definition acknowledged :: "BudgetCell \<Rightarrow> BudgetCell \<Rightarrow> bool" where
  "acknowledged c c' \<longleftrightarrow> bc_flushed_requests c' = bc_requests c \<and> bc_flushed_billable_requests c' = bc_billable_requests c
     \<and> (\<forall>m. mc_flushed (model_cell c' m) = mc_cur (model_cell c m))"

lemma ack_acknowledged:
  assumes "cell_small c" "same_baseline c c1"
  shows "acknowledged c (ack_cell (cell_snap k c) c1)"
proof -
  have "mc_flushed (model_cell (ack_cell (cell_snap k c) c1) m) = mc_cur (model_cell c m)" for m
  proof (cases "m \<in> fst ` set (bc_models c)")
    case False
    then have "model_cell c m = \<lparr>mc_cur = tier_zero, mc_flushed = tier_zero\<rparr>"
      using al_get_None [of "bc_models c" m] by (simp add: model_cell_def)
    then show ?thesis using False assms(2) unfolding ack_model_cell [OF assms] by (simp add: same_baseline_def)
  qed (simp add: ack_model_cell [OF assms])
  then show ?thesis by (simp add: acknowledged_def ack_cell_def cell_snap_def)
qed

lemma ack_kept:
  "bc_window_start (ack_cell snap c1) = bc_window_start c1" "bc_requests (ack_cell snap c1) = bc_requests c1"
  "bc_billable_requests (ack_cell snap c1) = bc_billable_requests c1" "bc_dirty (ack_cell snap c1) = bc_dirty c1"
  by (simp_all add: ack_cell_def)

lemma conserved_ack:
  assumes "cell_small c" "row_fits l c" "same_baseline c c1"
  shows "conserved l c1 (apply_delta (cell_delta c) l) (ack_cell (cell_snap k c) c1)"
    and "usage_delta_is_zero (cell_delta c) \<Longrightarrow> conserved l c1 l (ack_cell (cell_snap k c) c1)"
  using ack_conserves [OF assms, where k = k] ack_zero_conserves [OF assms(1) _ assms(3), where k = k and l = l]
  by (auto simp: conserved_def ack_model_cell [OF assms(1,3)] ack_kept)

lemma conserved_dirty: "conserved l c1 l (c1\<lparr>bc_dirty := True\<rparr>)"
  by (simp add: conserved_def books_requests_def books_billable_def books_tokens_def unflushed_def model_cell_def)

lemma flush_one_other:
  assumes "durable_store vt II" "II (gv_store s)" "budget_wf (gv_budget s)" "flush_one vt snap (n, s) = (n', s')"
  shows "II (gv_store s') \<and> budget_wf (gv_budget s')
    \<and> (k \<noteq> ds_bucket_id snap \<longrightarrow> sh_get (gv_budget s') k = sh_get (gv_budget s) k
         \<and> get_usage vt k w (gv_store s') = get_usage vt k w (gv_store s))"
proof -
  obtain r st where o: "(if usage_delta_is_zero (ds_delta snap) then (Inr (), gv_store s)
      else add_usage vt (ds_bucket_id snap) (ds_window snap) (ds_delta snap) (gv_store s)) = (r, st)"
    by (cases "if usage_delta_is_zero (ds_delta snap) then (Inr (), gv_store s)
      else add_usage vt (ds_bucket_id snap) (ds_window snap) (ds_delta snap) (gv_store s)")
  have st: "II st \<and> (k \<noteq> ds_bucket_id snap \<longrightarrow> get_usage vt k w st = get_usage vt k w (gv_store s))"
    using o assms(2) durable_store.add_usage_inv [OF assms(1,2)] durable_store.add_usage_frame [OF assms(1,2)]
    by (auto split: if_splits)
  have bud: "gv_store s' = st \<and> (gv_budget s' = gv_budget s
      \<or> (\<exists>c. gv_budget s' = sh_put (gv_budget s) (ds_bucket_id snap) c))"
    using assms(4) unfolding flush_one_def Let_def old.prod.case o
    by (cases r; cases "sh_get (gv_budget s) (ds_bucket_id snap)") (auto split: if_splits)
  then show ?thesis using st assms(3) gm.get_put [OF assms(3)] gm.wf_put [OF assms(3)] by auto
qed

lemma flush_one_self:
  assumes "durable_store vt II" "II (gv_store s)" "budget_wf (gv_budget s)"
    and "cell_small c" "same_baseline c c1" "sh_get (gv_budget s) k = Some c1"
    and "get_usage vt k (bc_window_start c) (gv_store s) = Inr l" "row_fits l c"
    and "flush_one vt (cell_snap k c) (n, s) = (n', s')"
  shows "\<exists>l' c'. sh_get (gv_budget s') k = Some c' \<and> get_usage vt k (bc_window_start c) (gv_store s') = Inr l'
    \<and> conserved l c1 l' c'
    \<and> (n' = n + 1 \<and> acknowledged c c' \<and> bc_dirty c' = bc_dirty c1 \<or> n' = n \<and> l' = l \<and> c' = c1\<lparr>bc_dirty := True\<rparr>)"
proof -
  have w: "bc_window_start c1 = bc_window_start c" using assms(5) by (simp add: same_baseline_def)
  have snap: "ds_bucket_id (cell_snap k c) = k" "ds_window (cell_snap k c) = bc_window_start c"
    "ds_delta (cell_snap k c) = cell_delta c" by (simp_all add: cell_snap_def)
  note put = gm.get_put [OF assms(3)]
  note dirty = ack_kept(4)
  show ?thesis
  proof (cases "usage_delta_is_zero (cell_delta c)")
    case True
    then have "n' = n + 1" "s' = s\<lparr>gv_budget := sh_put (gv_budget s) k (ack_cell (cell_snap k c) c1)\<rparr>"
      using assms(6,9) w by (simp_all add: flush_one_def snap Let_def)
    then show ?thesis
      using assms(7) put conserved_ack(2) [OF assms(4,8,5) True, of k] ack_acknowledged [OF assms(4,5), of k] dirty
      by simp
  next
    case False
    obtain r st where a: "add_usage vt k (bc_window_start c) (cell_delta c) (gv_store s) = (r, st)"
      by (cases "add_usage vt k (bc_window_start c) (cell_delta c) (gv_store s)")
    show ?thesis
    proof (cases r)
      case (Inl e)
      then have "n' = n" "s' = s\<lparr>gv_store := st, gv_budget := sh_put (gv_budget s) k (c1\<lparr>bc_dirty := True\<rparr>)\<rparr>"
        using assms(6,9) w False a by (simp_all add: flush_one_def snap Let_def)
      moreover have "get_usage vt k (bc_window_start c) st = Inr l"
        using durable_store.add_usage_err [OF assms(1,2)] a Inl assms(7) by auto
      ultimately show ?thesis using put conserved_dirty by simp
    next
      case (Inr u)
      then have "n' = n + 1" "s' = s\<lparr>gv_store := st, gv_budget := sh_put (gv_budget s) k (ack_cell (cell_snap k c) c1)\<rparr>"
        using assms(6,9) w False a by (simp_all add: flush_one_def snap Let_def)
      moreover have "get_usage vt k (bc_window_start c) st = Inr (apply_delta (cell_delta c) l)"
        using durable_store.add_usage_ok [OF assms(1,2)] a Inr assms(7) by auto
      ultimately show ?thesis
        using put conserved_ack(1) [OF assms(4,8,5), of k] ack_acknowledged [OF assms(4,5), of k] dirty by simp
    qed
  qed
qed


subsection \<open>The whole flush\<close>

definition undirty :: "BudgetCell \<Rightarrow> BudgetCell" where
  "undirty c = c\<lparr>bc_dirty := False\<rparr>"

lemma undirty_if: "(if bc_dirty c then c\<lparr>bc_dirty := False\<rparr> else c) = undirty c"
  by (cases c) (auto simp: undirty_def)

lemma snapshot_map: "map (\<lambda>(i, c). (i, if bc_dirty c then c\<lparr>bc_dirty := False\<rparr> else c)) xs = map (\<lambda>(i, c). (i, undirty c)) xs"
  by (simp add: undirty_if)

lemma flush_snapshot_get:
  assumes "budget_wf B"
  shows "sh_get (snd (flush_snapshot B)) k = map_option undirty (sh_get B k)"
  using gov_shard_lt [of k] budget_wf_len [OF assms]
  by (simp add: flush_snapshot_def sh_get_def snapshot_map al_get_map_snd)

lemma flush_snapshot_wf: "budget_wf B \<Longrightarrow> budget_wf (snd (flush_snapshot B))"
  by (auto simp: budget_wf_def flush_snapshot_def snapshot_map comp_def case_prod_unfold)

text \<open>The snapshots are those of the dirty cells, each bucket once.\<close>

lemma snapshot_ids:
  "map ds_bucket_id (fst (flush_snapshot B)) = concat (map (\<lambda>shard. map fst (filter (\<lambda>(_, c). bc_dirty c) (sh_map shard))) B)"
  by (simp add: flush_snapshot_def map_concat comp_def case_prod_unfold cell_snap_def)

lemma shard_entry:
  assumes "budget_wf B" "shard \<in> set B" "(i, c) \<in> set (sh_map shard)"
  shows "shard = B ! shard_index i" and "sh_get B i = Some c"
proof -
  obtain j where j: "j < GOV_SHARDS" "shard = B ! j"
    using assms(1,2) by (metis budget_wf_len in_set_conv_nth)
  then have "shard_index i = j" "distinct (map fst (sh_map shard))"
    using assms(1,3) unfolding budget_wf_def by (metis fst_conv)+
  with j assms(3) show "shard = B ! shard_index i" "sh_get B i = Some c" by (auto simp: sh_get_def mem_al_get)
qed

lemma concat_distinct_ids:
  assumes "\<forall>shard \<in> set Bs. distinct (map fst (sh_map shard))"
    and "\<forall>j < length Bs. \<forall>x \<in> set (sh_map (Bs ! j)). f (fst x) = j + n"
  shows "distinct (concat (map (\<lambda>shard. map fst (filter P (sh_map shard))) Bs))"
  using assms
proof (induction Bs arbitrary: n)
  case (Cons B Bs)
  have tl: "\<forall>x \<in> set (sh_map (Bs ! j)). f (fst x) = j + Suc n" if "j < length Bs" for j
    using Cons.prems(2) [rule_format, of "Suc j"] that by simp
  have "f (fst x) > n" if "shard \<in> set Bs" "x \<in> set (sh_map shard)" for shard x
  proof -
    obtain j where "j < length Bs" "shard = Bs ! j" using \<open>shard \<in> set Bs\<close> by (auto simp: in_set_conv_nth)
    then show ?thesis using tl [of j] that(2) by simp
  qed
  moreover have "f (fst x) = n" if "x \<in> set (sh_map B)" for x
    using Cons.prems(2) [rule_format, of 0 x] that by simp
  ultimately have "set (map fst (filter P (sh_map B))) \<inter> \<Union> (set ` set (map (\<lambda>shard. map fst (filter P (sh_map shard))) Bs)) = {}"
    by fastforce
  then show ?case using Cons.IH [of "Suc n"] Cons.prems(1) tl by (simp add: distinct_map_filter)
qed simp

lemma snapshot_distinct:
  assumes "budget_wf B"
  shows "distinct (map ds_bucket_id (fst (flush_snapshot B)))"
proof -
  have "\<forall>shard \<in> set B. distinct (map fst (sh_map shard))"
    using assms by (metis budget_wf_def in_set_conv_nth)
  moreover have "\<forall>j < length B. \<forall>x \<in> set (sh_map (B ! j)). shard_index (fst x) = j + 0"
    using assms by (simp add: budget_wf_def)
  ultimately show ?thesis unfolding snapshot_ids by (rule concat_distinct_ids)
qed

lemma snapshot_mem:
  assumes "budget_wf B"
  shows "snap \<in> set (fst (flush_snapshot B)) \<longleftrightarrow> (\<exists>k c. sh_get B k = Some c \<and> bc_dirty c \<and> snap = cell_snap k c)"
proof
  assume "snap \<in> set (fst (flush_snapshot B))"
  then show "\<exists>k c. sh_get B k = Some c \<and> bc_dirty c \<and> snap = cell_snap k c"
    using shard_entry [OF assms] by (fastforce simp: flush_snapshot_def)
next
  assume "\<exists>k c. sh_get B k = Some c \<and> bc_dirty c \<and> snap = cell_snap k c"
  then obtain k c where k: "sh_get B k = Some c" "bc_dirty c" "snap = cell_snap k c" by blast
  then have "(k, c) \<in> set (sh_map (B ! shard_index k))" by (simp add: sh_get_def al_get_mem)
  moreover have "B ! shard_index k \<in> set B" using gov_shard_lt budget_wf_len [OF assms] by simp
  ultimately show "snap \<in> set (fst (flush_snapshot B))" using k(2,3) by (force simp: flush_snapshot_def)
qed

lemma flush_fold_other:
  assumes "durable_store vt II" "II (gv_store s)" "budget_wf (gv_budget s)"
    and "fold (flush_one vt) snaps (n, s) = (n', s')"
  shows "II (gv_store s') \<and> budget_wf (gv_budget s')
    \<and> (k \<notin> ds_bucket_id ` set snaps \<longrightarrow> sh_get (gv_budget s') k = sh_get (gv_budget s) k
         \<and> get_usage vt k w (gv_store s') = get_usage vt k w (gv_store s))"
  using assms(2-)
proof (induction snaps arbitrary: n s)
  case (Cons snap snaps)
  obtain n1 s1 where f: "flush_one vt snap (n, s) = (n1, s1)" by (cases "flush_one vt snap (n, s)")
  note o = flush_one_other [OF assms(1) Cons.prems(1,2) f, of k w]
  show ?case using Cons.IH [of s1 n1] Cons.prems(3) f o by auto
qed simp

text \<open>
  Between the snapshot and the acknowledgement the cell may be charged by admissions, accrue usage and
  be refunded, all in the same window.
\<close>

inductive touched :: "BudgetCell \<Rightarrow> BudgetCell \<Rightarrow> bool" for c where
  Snapped: "touched c (undirty c)"
| Charge: "touched c c1 \<Longrightarrow> touched c (c1\<lparr>bc_requests := sat_add_u64 (bc_requests c1) 1,
     bc_billable_requests := sat_add_u64 (bc_billable_requests c1) 1, bc_dirty := True\<rparr>)"
| Accrue: "touched c c1 \<Longrightarrow> touched c ((accrue model t c1)\<lparr>bc_dirty := True\<rparr>)"
| Refund: "touched c c1 \<Longrightarrow> touched c (c1\<lparr>bc_billable_requests := bc_billable_requests c1 - 1, bc_dirty := True\<rparr>)"

lemma accrue_models: "bc_models (accrue model t c) = al_put (bc_models c) model
   ((model_cell c model)\<lparr>mc_cur := tier_sat_add (mc_cur (model_cell c model)) t\<rparr>)"
  by (simp add: accrue_def model_cell_def Let_def)

lemma accrue_baseline:
  "mc_flushed (model_cell ((accrue model t c)\<lparr>bc_dirty := d\<rparr>) m) = mc_flushed (model_cell c m)"
  "fst ` set (bc_models c) \<subseteq> fst ` set (bc_models (accrue model t c))"
  unfolding model_cell_def [of "(accrue model t c)\<lparr>bc_dirty := d\<rparr>"]
  by (auto simp: accrue_models model_cell_def keys_al_put split: option.splits)

lemma model_cell_irrelevant [simp]:
  "model_cell (c\<lparr>bc_dirty := d\<rparr>) m = model_cell c m" "model_cell (c\<lparr>bc_requests := r\<rparr>) m = model_cell c m"
  "model_cell (c\<lparr>bc_billable_requests := r\<rparr>) m = model_cell c m"
  by (simp_all add: model_cell_def)

lemma accrue_kept [simp]:
  "bc_window_start (accrue model t c) = bc_window_start c" "bc_flushed_requests (accrue model t c) = bc_flushed_requests c"
  "bc_flushed_billable_requests (accrue model t c) = bc_flushed_billable_requests c"
  by (simp_all add: accrue_def Let_def)

lemma touched_baseline: "touched c c1 \<Longrightarrow> same_baseline c c1"
proof (induction rule: touched.induct)
  case (Accrue c1 model t)
  then show ?case
    using accrue_baseline [where c = c1 and model = model and t = t] by (simp add: same_baseline_def) blast
qed (simp_all add: same_baseline_def undirty_def)

lemma conserved_undirty: "conserved l (undirty c) l' c' = conserved l c l' c'"
  by (simp add: conserved_def undirty_def books_requests_def books_billable_def books_tokens_def unflushed_def)

text \<open>
  A write of the flush conserves usage, whatever happens to the cell meanwhile. Take the
  snapshot of a bucket's cell, let admissions charge it, usage accrue to it and refunds reach it,
  then write the snapshot's delta and acknowledge it: the ledger row plus what the cell holds beyond
  its acknowledged baseline is the same before and after, for the requests, the billable requests and
  every model's tokens, and the live counters are untouched. A successful write leaves the snapshot's
  counters as the new baseline; a store error leaves the row and the baseline and marks the
  cell dirty again, so its usage is written later. No other bucket's cell or row changes.
\<close>

theorem flush_write_conserves_usage:
  assumes "durable_store vt II" "II (gv_store s)" "budget_wf (gv_budget s)"
    and "cell_small c" "touched c c1" "sh_get (gv_budget s) k = Some c1"
    and "get_usage vt k (bc_window_start c) (gv_store s) = Inr l" "row_fits l c"
    and "flush_one vt (cell_snap k c) (n, s) = (n', s')"
  shows "\<exists>l' c'. sh_get (gv_budget s') k = Some c' \<and> get_usage vt k (bc_window_start c) (gv_store s') = Inr l'
    \<and> conserved l c1 l' c'
    \<and> (n' = n + 1 \<and> acknowledged c c' \<and> bc_dirty c' = bc_dirty c1 \<or> n' = n \<and> l' = l \<and> c' = c1\<lparr>bc_dirty := True\<rparr>)
    \<and> (\<forall>k' w. k' \<noteq> k \<longrightarrow> sh_get (gv_budget s') k' = sh_get (gv_budget s) k'
          \<and> get_usage vt k' w (gv_store s') = get_usage vt k' w (gv_store s))"
proof -
  have "\<forall>k' w. k' \<noteq> k \<longrightarrow> sh_get (gv_budget s') k' = sh_get (gv_budget s) k'
          \<and> get_usage vt k' w (gv_store s') = get_usage vt k' w (gv_store s)"
    using flush_one_other [OF assms(1-3,9)] by (simp add: cell_snap_def)
  with flush_one_self [OF assms(1-4) touched_baseline [OF assms(5)] assms(6-)] show ?thesis by blast
qed


text \<open>A cell with two unflushed requests, one of them refunded, and six unflushed input tokens.\<close>

definition example_cell :: BudgetCell where
  "example_cell = (cell_fresh 0)\<lparr>bc_requests := 3, bc_flushed_requests := 1, bc_billable_requests := 2,
     bc_flushed_billable_requests := 1,
     bc_models := [(''m'', \<lparr>mc_cur = tier_zero\<lparr>tt_input := 10\<rparr>, mc_flushed = tier_zero\<lparr>tt_input := 4\<rparr>\<rparr>)], bc_dirty := True\<rparr>"

definition example_gov :: "BudgetCell \<Rightarrow> MemoryStore GovState" where
  "example_gov c = \<lparr>gv_store = memory_store_new, gv_by_hash = [], gv_by_access_key_id = [], gv_concurrent = [],
     gv_admin_token_hash = None, gv_budget = sh_put sharded_new ''vk_a'' c, gv_denylist = []\<rparr>"

lemma example_gov_ok:
  "mem_wf (gv_store (example_gov c))" "budget_wf (gv_budget (example_gov c))"
  "sh_get (gv_budget (example_gov c)) ''vk_a'' = Some c"
  "get_usage memory_store ''vk_a'' w (gv_store (example_gov c)) = Inr ledger_default"
proof -
  show "mem_wf (gv_store (example_gov c))" by (simp add: example_gov_def mem_wf_new)
qed (simp_all add: example_gov_def gm.wf_put gm.get_put budget_wf_new memory_store_ops memory_store_new_def)

lemma example_cell_ok:
  "cell_small example_cell" "row_fits ledger_default example_cell" "bc_window_start example_cell = 0" "bc_dirty example_cell"
  by (simp_all add: example_cell_def cell_fresh_def cell_small_def tier_small_def tier_zero_def i64_max_def row_fits_def
      books_requests_def books_billable_def books_tokens_def unflushed_def model_cell_def ledger_default_def u64_max_def
      model_tokens_def tier_fits_def tier_diff_def tier_defs)

text \<open>The snapshot is written after one more admission; the memory store takes it.\<close>

theorem flush_write_conserves_usage_witness:
  "\<exists>l' c'. sh_get (gv_budget (snd (flush_one memory_store (cell_snap ''vk_a'' example_cell)
        (0, example_gov ((undirty example_cell)\<lparr>bc_requests := 4, bc_billable_requests := 3, bc_dirty := True\<rparr>))))) ''vk_a'' = Some c'
     \<and> books_requests l' c' = 3 \<and> books_billable l' c' = 2"
proof -
  define c1 where "c1 = (undirty example_cell)\<lparr>bc_requests := 4, bc_billable_requests := 3, bc_dirty := True\<rparr>"
  have t: "touched example_cell c1"
    using touched.Charge [OF touched.Snapped, of example_cell]
    by (simp add: c1_def undirty_def example_cell_def cell_fresh_def sat_add_u64_def u64_max_def)
  obtain n' s' where f: "flush_one memory_store (cell_snap ''vk_a'' example_cell) (0, example_gov c1) = (n', s')"
    by (cases "flush_one memory_store (cell_snap ''vk_a'' example_cell) (0, example_gov c1)")
  have "books_requests ledger_default c1 = 3" "books_billable ledger_default c1 = 2"
    by (simp_all add: books_requests_def books_billable_def ledger_default_def c1_def undirty_def example_cell_def cell_fresh_def)
  then show ?thesis
    using flush_write_conserves_usage [OF mem.durable_store_axioms example_gov_ok(1,2) example_cell_ok(1) t
        example_gov_ok(3) example_gov_ok(4) example_cell_ok(2) f] f
    unfolding c1_def [symmetric] by (auto simp: conserved_def)
qed


end
