(* ===== verification/GovHydrate.thy ===== *)
theory GovHydrate
  imports GovFlush
begin

text \<open>
  Restart: the boot hydration of the ledger cells from the durable rows (\<open>hydrate_budgets\<close>), and the
  composition of a flush, a restart and a hydration.
\<close>

subsection \<open>The hydration loop\<close>

lemma hydrate_buckets_ok:
  assumes "hydrate_buckets vt st now bs B = (Inr (), B')" "budget_wf B" "distinct (map fst bs)"
  shows "budget_wf B'
    \<and> (\<forall>(b, p) \<in> set bs. \<exists>l. get_usage vt b (budget_window p now) st = Inr l
         \<and> sh_get B' b = (if ul_requests l = 0 \<and> ul_models l = [] then sh_get B b else Some (hydrate_cell (budget_window p now) l)))
    \<and> (\<forall>k. k \<notin> fst ` set bs \<longrightarrow> sh_get B' k = sh_get B k)"
  using assms
proof (induction bs arbitrary: B)
  case (Cons x bs)
  obtain b p where x: "x = (b, p)" by (cases x)
  obtain l where l: "get_usage vt b (budget_window p now) st = Inr l"
    using Cons.prems(1) by (cases "get_usage vt b (budget_window p now) st") (simp_all add: x Let_def)
  define B1 where "B1 = (if ul_requests l = 0 \<and> ul_models l = [] then B else sh_put B b (hydrate_cell (budget_window p now) l))"
  have step: "hydrate_buckets vt st now bs B1 = (Inr (), B')"
    using Cons.prems(1) l by (auto simp: x B1_def Let_def split: if_splits)
  have wf: "budget_wf B1" using Cons.prems(2) gm.wf_put by (auto simp: B1_def)
  have B1: "sh_get B1 k = (if k = b \<and> \<not> (ul_requests l = 0 \<and> ul_models l = []) then Some (hydrate_cell (budget_window p now) l) else sh_get B k)" for k
    using gm.get_put [OF Cons.prems(2)] by (auto simp: B1_def)
  have out: "b \<notin> fst ` set bs" using Cons.prems(3) by (simp add: x)
  then have "sh_get B1 b' = sh_get B b'" if "(b', p') \<in> set bs" for b' p'
    using that B1 [of b'] by force
  with Cons.IH [OF step wf] Cons.prems(3) l out B1 show ?case by (fastforce simp: x)
qed simp

lemma hydrate_buckets_err:
  "fst (hydrate_buckets vt st now bs B) = Inr () \<longleftrightarrow> (\<forall>(b, p) \<in> set bs. \<exists>l. get_usage vt b (budget_window p now) st = Inr l)"
proof (induction bs arbitrary: B)
  case (Cons x bs)
  obtain b p where "x = (b, p)" by (cases x)
  then show ?case using Cons.IH by (auto simp: Let_def split: sum.splits)
qed simp

subsection \<open>The hydrated cell\<close>

lemma hydrate_cell_models:
  "model_cell (hydrate_cell w l) m = \<lparr>mc_cur = model_tokens (ul_models l) m, mc_flushed = model_tokens (ul_models l) m\<rparr>"
  by (auto simp: model_cell_def hydrate_cell_def Let_def al_get_map_snd model_tokens_def split: option.split)

lemma hydrate_cell_delta_zero: "usage_delta_is_zero (cell_delta (hydrate_cell w l))"
  by (auto simp: usage_delta_is_zero_def cell_delta_def hydrate_cell_def Let_def list_all_iff tier_signed_diff_def tier_defs)

lemma hydrate_cell_counters:
  "bc_requests (hydrate_cell w l) = ul_requests l" "bc_window_start (hydrate_cell w l) = w"
  "\<not> bc_dirty (hydrate_cell w l)" "bc_flushed_requests (hydrate_cell w l) = ul_requests l"
  "bc_billable_requests (hydrate_cell w l) = (if ul_billable_requests l = 0 then ul_requests l else ul_billable_requests l)"
  "bc_flushed_billable_requests (hydrate_cell w l) = bc_billable_requests (hydrate_cell w l)"
  by (simp_all add: hydrate_cell_def Let_def cell_fresh_def)

text \<open>
  Hydration restores the ledger exactly and is fail-closed. It succeeds only when the key list
  and every listed row can be read; any store error is the result, so the boot stops. When it
  succeeds, each listed bucket with a row has a clean cell of the current window whose request
  count and per-model tokens are the row's, and whose first flush writes a zero delta, so nothing is
  counted twice; an empty row leaves the bucket's cell alone, and so is every bucket not listed. The
  store is only read.
\<close>

theorem hydration_restores_ledger:
  assumes "hydrate_budgets vt cm now s = (r, s')" "budget_wf (gv_budget s)"
    and "\<forall>keys. list_keys vt (gv_store s) = Inr keys \<longrightarrow> distinct (map fst (hydrate_list keys cm))"
  shows "gv_store s' = gv_store s
    \<and> (r = Inr () \<longleftrightarrow> (\<exists>keys. list_keys vt (gv_store s) = Inr keys
         \<and> (\<forall>(b, p) \<in> set (hydrate_list keys cm). \<exists>l. get_usage vt b (budget_window p now) (gv_store s) = Inr l)))
    \<and> (\<forall>keys b p l. r = Inr () \<and> list_keys vt (gv_store s) = Inr keys \<and> (b, p) \<in> set (hydrate_list keys cm)
         \<and> get_usage vt b (budget_window p now) (gv_store s) = Inr l
         \<longrightarrow> (if ul_requests l = 0 \<and> ul_models l = [] then sh_get (gv_budget s') b = sh_get (gv_budget s) b
              else \<exists>c. sh_get (gv_budget s') b = Some c \<and> bc_window_start c = budget_window p now
                \<and> bc_requests c = ul_requests l \<and> (\<forall>m. mc_cur (model_cell c m) = model_tokens (ul_models l) m)
                \<and> \<not> bc_dirty c \<and> usage_delta_is_zero (cell_delta c)))
    \<and> (\<forall>keys k. r = Inr () \<and> list_keys vt (gv_store s) = Inr keys \<and> k \<notin> fst ` set (hydrate_list keys cm)
         \<longrightarrow> sh_get (gv_budget s') k = sh_get (gv_budget s) k)"
proof (cases "list_keys vt (gv_store s)")
  case (Inl e)
  then show ?thesis using assms(1) by (auto simp: hydrate_budgets_def)
next
  case (Inr keys)
  obtain B where h: "hydrate_buckets vt (gv_store s) now (hydrate_list keys cm) (gv_budget s) = (r, B)"
    and s': "s' = s\<lparr>gv_budget := B\<rparr>"
    using assms(1) Inr
    by (cases "hydrate_buckets vt (gv_store s) now (hydrate_list keys cm) (gv_budget s)") (auto simp: hydrate_budgets_def Let_def)
  have d: "distinct (map fst (hydrate_list keys cm))" using assms(3) Inr by simp
  have iff: "r = Inr () \<longleftrightarrow> (\<forall>(b, p) \<in> set (hydrate_list keys cm). \<exists>l. get_usage vt b (budget_window p now) (gv_store s) = Inr l)"
    using hydrate_buckets_err [of vt "gv_store s" now "hydrate_list keys cm" "gv_budget s"] h by simp
  have ok: "sh_get B b = (if ul_requests l = 0 \<and> ul_models l = [] then sh_get (gv_budget s) b else Some (hydrate_cell (budget_window p now) l))"
    if "r = Inr ()" "(b, p) \<in> set (hydrate_list keys cm)" "get_usage vt b (budget_window p now) (gv_store s) = Inr l" for b p l
    using hydrate_buckets_ok [OF h [unfolded \<open>r = Inr ()\<close>] assms(2) d] that(2,3) by auto
  have other: "r = Inr () \<and> k \<notin> fst ` set (hydrate_list keys cm) \<longrightarrow> sh_get B k = sh_get (gv_budget s) k" for k
  proof
    assume a: "r = Inr () \<and> k \<notin> fst ` set (hydrate_list keys cm)"
    then have "hydrate_buckets vt (gv_store s) now (hydrate_list keys cm) (gv_budget s) = (Inr (), B)" using h by simp
    from hydrate_buckets_ok [OF this assms(2) d] a show "sh_get B k = sh_get (gv_budget s) k" by blast
  qed
  show ?thesis
  proof (intro conjI allI impI)
    show "gv_store s' = gv_store s" using s' by simp
    show "r = Inr () \<longleftrightarrow> (\<exists>keys. list_keys vt (gv_store s) = Inr keys
         \<and> (\<forall>(b, p) \<in> set (hydrate_list keys cm). \<exists>l. get_usage vt b (budget_window p now) (gv_store s) = Inr l))"
      using iff Inr by simp
  next
    fix keys' b p l
    assume "r = Inr () \<and> list_keys vt (gv_store s) = Inr keys' \<and> (b, p) \<in> set (hydrate_list keys' cm)
      \<and> get_usage vt b (budget_window p now) (gv_store s) = Inr l"
    then have "sh_get (gv_budget s') b =
        (if ul_requests l = 0 \<and> ul_models l = [] then sh_get (gv_budget s) b else Some (hydrate_cell (budget_window p now) l))"
      using ok Inr s' by simp
    then show "if ul_requests l = 0 \<and> ul_models l = [] then sh_get (gv_budget s') b = sh_get (gv_budget s) b
      else \<exists>c. sh_get (gv_budget s') b = Some c \<and> bc_window_start c = budget_window p now
        \<and> bc_requests c = ul_requests l \<and> (\<forall>m. mc_cur (model_cell c m) = model_tokens (ul_models l) m)
        \<and> \<not> bc_dirty c \<and> usage_delta_is_zero (cell_delta c)"
      by (simp add: hydrate_cell_counters hydrate_cell_models hydrate_cell_delta_zero split: if_splits)
  next
    fix keys' k assume "r = Inr () \<and> list_keys vt (gv_store s) = Inr keys' \<and> k \<notin> fst ` set (hydrate_list keys' cm)"
    then show "sh_get (gv_budget s') k = sh_get (gv_budget s) k" using other Inr s' by simp
  qed
qed

subsection \<open>Flush, restart, hydrate\<close>

text \<open>The acknowledged baseline of the cell is what the row holds.\<close>

definition in_sync :: "UsageLedger \<Rightarrow> BudgetCell \<Rightarrow> bool" where
  "in_sync l c \<longleftrightarrow> ul_requests l = bc_flushed_requests c \<and> ul_billable_requests l = bc_flushed_billable_requests c
     \<and> (\<forall>m. model_tokens (ul_models l) m = mc_flushed (model_cell c m))"

lemma model_cell_small:
  assumes "cell_small c"
  shows "tier_small (mc_cur (model_cell c m)) \<and> tier_small (mc_flushed (model_cell c m))"
proof (cases "al_get (bc_models c) m")
  case None
  then show ?thesis by (simp add: model_cell_def tier_small_def tier_zero_def i64_max_def)
next
  case (Some x)
  then have "(m, x) \<in> set (bc_models c)" by (rule al_get_mem)
  then show ?thesis using assms Some by (force simp: cell_small_def model_cell_def)
qed

lemma in_sync_books:
  assumes "in_sync l c"
  shows "books_requests l c = int (bc_requests c)" and "books_billable l c = int (bc_billable_requests c)"
    and "books_tokens l c m = tier_int (mc_cur (model_cell c m))"
  using assms
  by (simp_all add: in_sync_def books_requests_def books_billable_def books_tokens_def unflushed_def tier_diff_def tier_int_def tier_add_def)

lemma in_sync_fits:
  assumes "in_sync l c" "cell_small c"
  shows "row_fits l c"
proof -
  have "int x \<le> i64_max \<Longrightarrow> x \<le> u64_max" for x by (simp add: i64_max_def u64_max_def)
  moreover have "tier_small (mc_cur (model_cell c m))" for m using model_cell_small [OF assms(2)] by simp
  ultimately show ?thesis
    using assms(2) unfolding row_fits_def in_sync_books [OF assms(1)] cell_small_def tier_fits_def tier_int_def tier_small_def
    by auto
qed

text \<open>An acknowledged flush leaves the row equal to the live counters.\<close>

lemma acknowledged_row:
  assumes "in_sync l c" "conserved l c l' c'" "acknowledged c c'"
  shows "ul_requests l' = bc_requests c" and "ul_billable_requests l' = bc_billable_requests c"
    and "model_tokens (ul_models l') m = mc_cur (model_cell c m)"
proof -
  note b = in_sync_books [OF assms(1)]
  show "ul_requests l' = bc_requests c" "ul_billable_requests l' = bc_billable_requests c"
    using assms(2,3) b(1,2) by (simp_all add: conserved_def acknowledged_def books_requests_def books_billable_def)
  have "books_tokens l' c' m = tier_int (mc_cur (model_cell c m))"
    using assms(2) b(3) by (simp add: conserved_def)
  moreover have "unflushed c' m = delta_zero"
    using assms(2,3) by (simp add: conserved_def acknowledged_def unflushed_def tier_diff_def delta_zero_def)
  ultimately show "model_tokens (ul_models l') m = mc_cur (model_cell c m)"
    by (intro tier_eqI) (simp add: books_tokens_def)
qed


subsection \<open>An example\<close>

text \<open>One key in the store, two admitted requests, both refunded, nothing flushed yet.\<close>

definition restart_cell :: BudgetCell where
  "restart_cell = (cell_fresh 0)\<lparr>bc_requests := 2, bc_dirty := True\<rparr>"

definition restart_cost :: CostModel where
  "restart_cost = resolve_parts None 1 []"

definition restart_gov :: "MemoryStore GovState" where
  "restart_gov = \<lparr>gv_store = memory_store_new\<lparr>ms_keys := [(''vk_1'', example_key)]\<rparr>, gv_by_hash = [],
     gv_by_access_key_id = [], gv_concurrent = [], gv_admin_token_hash = None,
     gv_budget = sh_put sharded_new ''vk_1'' restart_cell, gv_denylist = []\<rparr>"

lemma restart_gov_ok:
  "mem_wf (gv_store restart_gov)" "budget_wf (gv_budget restart_gov)"
  "sh_get (gv_budget restart_gov) ''vk_1'' = Some restart_cell"
  "sh_get (gv_budget restart_gov) k = (if k = ''vk_1'' then Some restart_cell else None)"
  "get_usage memory_store b w (gv_store restart_gov) = Inr ledger_default"
  "list_keys memory_store (gv_store restart_gov) = Inr [example_key]"
  by (simp_all add: restart_gov_def mem_wf_def example_key_def gm.wf_put gm.get_put budget_wf_new memory_store_ops
      memory_store_new_def)

lemma restart_cell_ok:
  "cell_small restart_cell" "in_sync ledger_default restart_cell" "bc_window_start restart_cell = 0"
  by (simp_all add: restart_cell_def cell_fresh_def cell_small_def i64_max_def in_sync_def ledger_default_def
      model_tokens_def model_cell_def)

lemma restart_list: "hydrate_list [example_key] restart_cost = [(''vk_1'', WINDOW_TOTAL)]"
  by (simp add: hydrate_list_def restart_cost_def resolve_parts_def project_groups_def example_key_def Let_def)

lemma singleton_list: "distinct xs \<Longrightarrow> set xs = {a} \<Longrightarrow> xs = [a]"
  by (cases xs; cases "tl xs") auto

lemma restart_flush:
  "\<exists>s'. flush_budgets memory_store restart_gov = (1, s') \<and> gv_store s' = (gv_store restart_gov)\<lparr>ms_usage := ms_usage (gv_store s')\<rparr>
     \<and> sh_get (gv_budget s') ''vk_1'' = Some (ack_cell (cell_snap ''vk_1'' restart_cell) (undirty restart_cell))"
proof -
  let ?B = "gv_budget restart_gov" and ?snap = "cell_snap ''vk_1'' restart_cell"
  have wf: "budget_wf (snd (flush_snapshot ?B))" using flush_snapshot_wf restart_gov_ok(2) .
  have cell: "sh_get (snd (flush_snapshot ?B)) ''vk_1'' = Some (undirty restart_cell)"
    using flush_snapshot_get [OF restart_gov_ok(2)] restart_gov_ok(3) by simp
  have "distinct (fst (flush_snapshot ?B))"
    using snapshot_distinct [OF restart_gov_ok(2)] by (simp add: distinct_map)
  moreover have "set (fst (flush_snapshot ?B)) = {?snap}"
    using snapshot_mem [OF restart_gov_ok(2)]
    by (auto simp: restart_gov_ok(4) restart_cell_def split: if_splits)
  ultimately have "fst (flush_snapshot ?B) = [?snap]" by (rule singleton_list)
  moreover have "bc_window_start (undirty restart_cell) = bc_window_start restart_cell" by (simp add: undirty_def)
  moreover have "\<not> usage_delta_is_zero (cell_delta restart_cell)"
    by (simp add: usage_delta_is_zero_def cell_delta_def restart_cell_def cell_fresh_def i64_of_nat_def i64_max_def)
  ultimately show ?thesis
    using cell gm.get_put [OF wf]
    by (simp add: flush_budgets_def flush_one_def case_prod_unfold Let_def memory_store_ops cell_snap_def)
qed

text \<open>Hydrating the row of the example: the key has no row yet.\<close>

theorem hydration_restores_ledger_witness:
  "\<exists>s'. hydrate_budgets memory_store restart_cost 0 restart_gov = (Inr (), s')
     \<and> sh_get (gv_budget s') ''vk_1'' = Some restart_cell"
proof -
  obtain r s' where h: "hydrate_budgets memory_store restart_cost 0 restart_gov = (r, s')"
    by (cases "hydrate_budgets memory_store restart_cost 0 restart_gov")
  have "\<forall>keys. list_keys memory_store (gv_store restart_gov) = Inr keys \<longrightarrow> distinct (map fst (hydrate_list keys restart_cost))"
    using restart_gov_ok(6) restart_list by simp
  note res = hydration_restores_ledger [OF h restart_gov_ok(2) this]
  have ok: "r = Inr ()" using res restart_gov_ok(5,6) by simp
  moreover have "sh_get (gv_budget s') ''vk_1'' = sh_get (gv_budget restart_gov) ''vk_1''"
    using res [THEN conjunct2, THEN conjunct2, THEN conjunct1, rule_format, of "[example_key]" "''vk_1''" WINDOW_TOTAL ledger_default]
      ok restart_gov_ok(5,6) restart_list by (simp add: ledger_default_def)
  ultimately show ?thesis using h restart_gov_ok(3) by simp
qed


end
