(* ===== verification/GovAdmit.thy ===== *)
theory GovAdmit
  imports GovCells
begin

text \<open>
  Admission, refund and the in-flight gauges: the admission of a request is all-or-nothing, never
  exceeds a requests cap or an in-flight cap in any sequence of operations, never panics, and fails
  closed.
\<close>

subsection \<open>The passes over a chain\<close>

definition charged :: "nat \<Rightarrow> ChainBucket \<Rightarrow> BudgetCell option \<Rightarrow> BudgetCell" where
  "charged now b co =
     (let cell = live_cell co (budget_window (cb_window b) now)
      in cell\<lparr>bc_requests := sat_add_u64 (bc_requests cell) 1,
              bc_billable_requests := sat_add_u64 (bc_billable_requests cell) 1, bc_dirty := True\<rparr>)"

lemma charge_fold:
  "fold (charge_bucket now) bs B
   = fold (\<lambda>b B. sh_put B (cb_bucket_id b) (charged now b (sh_get B (cb_bucket_id b)))) bs B"
  by (rule fold_cong) (auto simp: charge_bucket_def charged_def Let_def)

lemma check_buckets_none:
  "check_buckets cm now B bs = Some None \<longleftrightarrow>
     (\<forall>b \<in> set bs. uncapped b \<or> blocked_metric cm now (sh_get B (cb_bucket_id b)) b = None)"
  by (induction bs) (auto split: option.splits)

lemma check_buckets_some:
  "check_buckets cm now B bs = Some (Some e) \<Longrightarrow>
     \<exists>b g m. b \<in> set bs \<and> \<not> uncapped b \<and> cb_group_name b = Some g
       \<and> blocked_metric cm now (sh_get B (cb_bucket_id b)) b = Some m
       \<and> e = Limit g m (Some (cb_window b)) (cb_pool b) (if m = ''budget'' then cb_downgrade_to b else None)
           (map_option (\<lambda>e. max (e - now) 1) (window_end (cb_window b) now))"
  by (induction bs) (auto split: if_splits option.splits)

lemma check_buckets_total:
  "\<forall>b \<in> set bs. uncapped b \<or> cb_group_name b \<noteq> None \<Longrightarrow> check_buckets cm now B bs \<noteq> None"
  by (induction bs) (auto split: option.splits)

text \<open>A bucket that passes the check has room for one more request.\<close>

lemma passed_requests:
  assumes "uncapped b \<or> blocked_metric cm now co b = None" "cb_requests_cap b = Some cap"
  shows "bc_requests (charged now b co) \<le> cap"
proof -
  have "blocked_metric cm now co b = None" using assms by (auto simp: uncapped_def)
  then show ?thesis
    using assms(2)
    by (auto simp: blocked_metric_def charged_def live_cell_def cell_fresh_def over_cap_def Let_def
        split: option.splits if_splits)
qed

lemma freeze_check_total: "\<forall>i \<in> set is. i < length gs \<Longrightarrow> freeze_check gs is \<noteq> None"
  by (induction "is") auto

lemma freeze_check_none:
  "freeze_check gs is = Some None \<longleftrightarrow> (\<forall>i \<in> set is. i < length gs \<and> gr_enabled (gs ! i))"
  by (induction "is") auto

lemma freeze_check_some:
  "freeze_check gs is = Some (Some e) \<Longrightarrow> \<exists>i \<in> set is. i < length gs \<and> \<not> gr_enabled (gs ! i) \<and> e = Disabled (gr_name (gs ! i))"
  by (induction "is") (auto split: if_splits)

subsection \<open>Gauges\<close>

definition gval :: "(string \<times> int) list \<Rightarrow> string \<Rightarrow> int" where
  "gval gauges g = (case al_get gauges g of Some v \<Rightarrow> v | None \<Rightarrow> 0)"

lemma gval_put [simp]: "gval (al_put gauges g v) k = (if k = g then v else gval gauges k)"
  by (simp add: gval_def)

lemma concurrent_gauge_val:
  "concurrent_gauge g gauges = (v, gauges1) \<Longrightarrow> v = gval gauges g \<and> (\<forall>k. gval gauges1 k = gval gauges k)
     \<and> al_get gauges1 g = Some v"
  by (cases "al_get gauges g") (auto simp: concurrent_gauge_def gval_def)

definition held :: "AdmitGrant \<Rightarrow> string \<Rightarrow> int" where
  "held grant g = int (count_list (ag_gauges grant) g)"

lemma held_nonneg [simp]: "0 \<le> held grant g"
  by (simp add: held_def)

lemma release_val:
  assumes "gval gauges g \<ge> 1" "gval gauges g \<le> i64_max"
  shows "gval (release_gauge g gauges) k = gval gauges k - (if k = g then 1 else 0)"
proof -
  obtain v where v: "al_get gauges g = Some v" using assms(1) by (cases "al_get gauges g") (auto simp: gval_def)
  then have "wrap_i64 (v - 1) = v - 1"
    using assms by (intro wrap_i64_id) (auto simp: gval_def i64_min_def i64_max_def)
  then show ?thesis using v by (auto simp: release_gauge_def gval_def)
qed

text \<open>Dropping a grant gives back exactly what it holds.\<close>

lemma drop_grant_val:
  assumes "\<forall>k. held grant k \<le> gval gauges k \<and> gval gauges k \<le> i64_max"
  shows "gval (drop_grant grant gauges) k = gval gauges k - held grant k"
proof -
  have "(\<forall>k. int (count_list gs k) \<le> gval gauges k \<and> gval gauges k \<le> i64_max) \<Longrightarrow>
      gval (fold release_gauge gs gauges) k = gval gauges k - int (count_list gs k)" for gs
  proof (induction gs arbitrary: gauges)
    case (Cons g gs)
    have g: "gval gauges g \<ge> 1" using Cons.prems [rule_format, of g] by simp
    have r: "gval (release_gauge g gauges) k = gval gauges k - (if k = g then 1 else 0)" for k
      using release_val [OF g] Cons.prems by blast
    have "int (count_list gs k) \<le> gval (release_gauge g gauges) k \<and> gval (release_gauge g gauges) k \<le> i64_max" for k
      using Cons.prems [rule_format, of k] r [of k] by (auto split: if_splits)
    then show ?case using Cons.IH [of "release_gauge g gauges"] r by simp
  qed simp
  then show ?thesis using assms by (simp add: drop_grant_def held_def)
qed

text \<open>
  Taking the gauges: on success the grant holds what was added, and every capped group stays within
  its cap; on failure every gauge reads as before.
\<close>

lemma take_gauges_spec:
  assumes "take_gauges gs is grant gauges = Some (r, gauges')"
    and "\<forall>k. held grant k \<le> gval gauges k \<and> gval gauges k \<le> i64_max"
  shows "case r of
      Inr grant' \<Rightarrow> (\<forall>k. held grant k \<le> held grant' k \<and> gval gauges' k - held grant' k = gval gauges k - held grant k
          \<and> gval gauges' k \<le> i64_max)
    | Inl e \<Rightarrow> (\<forall>k. gval gauges' k = gval gauges k - held grant k)
        \<and> (\<exists>i \<in> set is. \<exists>cap. gr_concurrent_cap (gs ! i) = Some cap
             \<and> e = Limit (gr_name (gs ! i)) ''concurrent'' None None None None)"
  using assms
proof (induction "is" arbitrary: grant gauges)
  case (Cons i "is")
  then have i: "i < length gs" by (auto split: if_splits)
  show ?case
  proof (cases "gr_concurrent_cap (gs ! i)")
    case None
    then show ?thesis using Cons.IH [of grant gauges] Cons.prems i by (auto split: sum.splits)
  next
    case (Some cap)
    define n where "n = gr_name (gs ! i)"
    obtain v g1 where g: "concurrent_gauge n gauges = (v, g1)" by (cases "concurrent_gauge n gauges")
    note gv = concurrent_gauge_val [OF g]
    show ?thesis
    proof (cases "v < i64_of_nat cap")
      case True
      let ?grant = "grant\<lparr>ag_gauges := ag_gauges grant @ [n]\<rparr>"
      have t: "take_gauges gs is ?grant (al_put g1 n (v + 1)) = Some (r, gauges')"
        using Cons.prems(1) i Some g True by (simp add: n_def Let_def)
      have h: "held ?grant k = held grant k + (if k = n then 1 else 0)" for k
        by (simp add: held_def)
      have val: "gval (al_put g1 n (v + 1)) k = gval gauges k + (if k = n then 1 else 0)" for k using gv by simp
      have "v + 1 \<le> i64_max" using True by (simp add: i64_of_nat_def)
      then have "\<forall>k. held ?grant k \<le> gval (al_put g1 n (v + 1)) k \<and> gval (al_put g1 n (v + 1)) k \<le> i64_max"
        unfolding h val using Cons.prems(2) gv by auto
      note ih = Cons.IH [OF t this, unfolded h val]
      show ?thesis
      proof (cases r)
        case (Inl e)
        have "\<forall>k. gval gauges' k = gval gauges k - held grant k" using ih Inl by simp
        then show ?thesis using ih Inl by auto
      next
        case (Inr grant')
        have "held grant k + (if k = n then 1 else 0) \<le> held grant' k
            \<and> gval gauges' k - held grant' k = gval gauges k - held grant k \<and> gval gauges' k \<le> i64_max" for k
          using ih Inr by simp
        then have "held grant k \<le> held grant' k \<and> gval gauges' k - held grant' k = gval gauges k - held grant k
            \<and> gval gauges' k \<le> i64_max" for k
          by (smt (verit) not_less)
        then show ?thesis using Inr by simp
      qed
    next
      case False
      have e: "r = Inl (Limit n ''concurrent'' None None None None)" "gauges' = drop_grant grant g1"
        using Cons.prems(1) i Some g False by (auto simp: n_def Let_def)
      have "gval (drop_grant grant g1) k = gval g1 k - held grant k" for k
        by (rule drop_grant_val) (use Cons.prems(2) gv in simp)
      then show ?thesis using e gv Some by (auto simp: n_def)
    qed
  qed
qed auto

lemma take_gauges_total: "\<forall>i \<in> set is. i < length gs \<Longrightarrow> take_gauges gs is grant gauges \<noteq> None"
proof (induction "is" arbitrary: grant gauges)
  case (Cons i "is")
  then show ?case by (auto simp: Let_def split: option.splits prod.splits)
qed simp

text \<open>A gauge never goes above a cap that every group of that name declares.\<close>

lemma take_gauges_cap:
  assumes "take_gauges gs is grant gauges = Some (Inr grant', gauges')"
    and "\<forall>i \<in> set is. gr_name (gs ! i) = n \<longrightarrow> gr_concurrent_cap (gs ! i) = Some cap"
    and "gval gauges n \<le> i64_of_nat cap"
  shows "gval gauges' n \<le> i64_of_nat cap"
  using assms
proof (induction "is" arbitrary: grant gauges)
  case (Cons i "is")
  show ?case
  proof (cases "gr_concurrent_cap (gs ! i)")
    case None
    then show ?thesis using Cons by (auto split: if_splits)
  next
    case (Some c)
    obtain v g1 where g: "concurrent_gauge (gr_name (gs ! i)) gauges = (v, g1)"
      by (cases "concurrent_gauge (gr_name (gs ! i)) gauges")
    note gv = concurrent_gauge_val [OF g]
    have v: "v < i64_of_nat c"
      and t: "take_gauges gs is (grant\<lparr>ag_gauges := ag_gauges grant @ [gr_name (gs ! i)]\<rparr>)
          (al_put g1 (gr_name (gs ! i)) (v + 1)) = Some (Inr grant', gauges')"
      using Cons.prems(1) Some g by (auto simp: Let_def split: if_splits)
    have "gval (al_put g1 (gr_name (gs ! i)) (v + 1)) n \<le> i64_of_nat cap"
      using gv v Some Cons.prems(2,3) by auto
    then show ?thesis using Cons.IH [OF t] Cons.prems(2) by simp
  qed
qed simp

subsection \<open>The outcomes of admission\<close>

definition pool_buckets :: "Chain \<Rightarrow> string \<Rightarrow> ChainBucket list" where
  "pool_buckets ch pool = filter (\<lambda>b. applies_to_pool b pool) (ch_buckets ch)"

lemma try_admit_cases:
  assumes "try_admit cm interval key pool now s = Some (r, s')"
  obtains
    (missing) name where "chain_for cm key = Some (Inl name)" "r = Inl (MissingGroup name)" "s' = s"
  | (frozen) ch e where "chain_for cm key = Some (Inr ch)" "freeze_check (cm_groups cm) (ch_groups ch) = Some (Some e)"
      "r = Inl e" "s' = s"
  | (full) ch e gauges where "chain_for cm key = Some (Inr ch)"
      "take_gauges (cm_groups cm) (ch_groups ch) \<lparr>ag_gauges = []\<rparr> (gv_concurrent s) = Some (Inl e, gauges)"
      "r = Inl e" "s' = s\<lparr>gv_concurrent := gauges\<rparr>"
  | (blocked) ch e grant gauges where "chain_for cm key = Some (Inr ch)"
      "take_gauges (cm_groups cm) (ch_groups ch) \<lparr>ag_gauges = []\<rparr> (gv_concurrent s) = Some (Inr grant, gauges)"
      "check_buckets cm now (acquire_shards interval now (pool_buckets ch pool) (gv_budget s)) (pool_buckets ch pool) = Some (Some e)"
      "r = Inl e" "s' = s\<lparr>gv_concurrent := drop_grant grant gauges,
         gv_budget := acquire_shards interval now (pool_buckets ch pool) (gv_budget s)\<rparr>"
  | (admitted) ch grant gauges where "chain_for cm key = Some (Inr ch)"
      "freeze_check (cm_groups cm) (ch_groups ch) = Some None"
      "take_gauges (cm_groups cm) (ch_groups ch) \<lparr>ag_gauges = []\<rparr> (gv_concurrent s) = Some (Inr grant, gauges)"
      "check_buckets cm now (acquire_shards interval now (pool_buckets ch pool) (gv_budget s)) (pool_buckets ch pool) = Some None"
      "r = Inr grant" "s' = s\<lparr>gv_concurrent := gauges,
         gv_budget := fold (charge_bucket now) (pool_buckets ch pool)
           (acquire_shards interval now (pool_buckets ch pool) (gv_budget s))\<rparr>"
proof -
  obtain c where c: "chain_for cm key = Some c" using assms by (auto simp: try_admit_def split: bind_splits)
  show thesis
  proof (cases c)
    case (Inl name)
    then show thesis using missing [of name] c assms by (simp add: try_admit_def)
  next
    case (Inr ch)
    obtain fr where fr: "freeze_check (cm_groups cm) (ch_groups ch) = Some fr"
      using assms c Inr by (auto simp: try_admit_def Let_def split: bind_splits)
    show thesis
    proof (cases fr)
      case (Some e)
      then show thesis using frozen [of ch e] assms c Inr fr by (simp add: try_admit_def Let_def)
    next
      case None
      obtain hd gauges where t: "take_gauges (cm_groups cm) (ch_groups ch) \<lparr>ag_gauges = []\<rparr> (gv_concurrent s) = Some (hd, gauges)"
        using assms c Inr fr None by (auto simp: try_admit_def Let_def split: bind_splits)
      show thesis
      proof (cases hd)
        case (Inl e)
        then show thesis using full [of ch e gauges] assms c Inr fr None t by (simp add: try_admit_def Let_def)
      next
        case g: (Inr grant)
        obtain bl where b: "check_buckets cm now (acquire_shards interval now (pool_buckets ch pool) (gv_budget s)) (pool_buckets ch pool) = Some bl"
          using assms c Inr fr None t g by (auto simp: try_admit_def Let_def pool_buckets_def split: bind_splits)
        show thesis
        proof (cases bl)
          case (Some e)
          then show thesis
            using blocked [of ch grant gauges e] assms c Inr fr None t g b
            by (simp add: try_admit_def Let_def pool_buckets_def)
        next
          case None
          then show thesis
            using admitted [of ch grant gauges] assms c Inr fr \<open>fr = None\<close> t g b
            by (simp add: try_admit_def Let_def pool_buckets_def)
        qed
      qed
    qed
  qed
qed

text \<open>A cell is as it was, or was evicted because no window can still use it.\<close>

definition same_or_swept :: "nat \<Rightarrow> BudgetCell MapShard list \<Rightarrow> BudgetCell MapShard list \<Rightarrow> string \<Rightarrow> bool" where
  "same_or_swept now B B' k \<longleftrightarrow> sh_get B' k = sh_get B k
     \<or> (\<exists>c. sh_get B k = Some c \<and> \<not> sweep_keeps now c \<and> sh_get B' k = None)"

definition gauges_ok :: "(string \<times> int) list \<Rightarrow> bool" where
  "gauges_ok gauges \<longleftrightarrow> (\<forall>k. 0 \<le> gval gauges k \<and> gval gauges k \<le> i64_max)"

lemma held_empty [simp]: "held \<lparr>ag_gauges = []\<rparr> k = 0"
  by (simp add: held_def)

lemma take_from_empty:
  assumes "take_gauges gs is \<lparr>ag_gauges = []\<rparr> gauges = Some (r, gauges')" "gauges_ok gauges"
  shows "r = Inl e \<Longrightarrow> gval gauges' k = gval gauges k"
    and "r = Inr grant \<Longrightarrow> gval gauges' k = gval gauges k + held grant k \<and> gval gauges' k \<le> i64_max"
proof -
  have "\<forall>k. held \<lparr>ag_gauges = []\<rparr> k \<le> gval gauges k \<and> gval gauges k \<le> i64_max"
    using assms(2) by (simp add: gauges_ok_def)
  note sp = take_gauges_spec [OF assms(1) this]
  show "r = Inl e \<Longrightarrow> gval gauges' k = gval gauges k" using sp by simp
  show "r = Inr grant \<Longrightarrow> gval gauges' k = gval gauges k + held grant k \<and> gval gauges' k \<le> i64_max"
  proof -
    assume "r = Inr grant"
    then have "gval gauges' k - held grant k = gval gauges k \<and> gval gauges' k \<le> i64_max" using sp by simp
    then show ?thesis by linarith
  qed
qed

lemma drop_taken:
  assumes "take_gauges gs is \<lparr>ag_gauges = []\<rparr> gauges = Some (Inr grant, gauges')" "gauges_ok gauges"
  shows "gval (drop_grant grant gauges') k = gval gauges k"
proof -
  have v: "gval gauges' j = gval gauges j + held grant j \<and> gval gauges' j \<le> i64_max" for j
    using take_from_empty(2) [OF assms refl] .
  have "gval (drop_grant grant gauges') k = gval gauges' k - held grant k"
  proof (rule drop_grant_val, intro allI conjI)
    fix j
    show "held grant j \<le> gval gauges' j" using v [of j] assms(2) by (simp add: gauges_ok_def)
    show "gval gauges' j \<le> i64_max" using v [of j] by blast
  qed
  then show ?thesis using v [of k] by linarith
qed

subsection \<open>An example\<close>

definition example_cost :: CostModel where
  "example_cost = resolve_parts None 1 example_groups"

definition example_bucket :: "string \<Rightarrow> nat \<Rightarrow> ChainBucket" where
  "example_bucket g cap = \<lparr>cb_bucket_id = ''group:'' @ g @ ''@day'', cb_group_name = Some g, cb_window = ''day'',
     cb_requests_cap = Some cap, cb_tokens_cap = None, cb_budget_cap = None, cb_pool = None, cb_downgrade_to = None\<rparr>"

definition example_state :: "MemoryStore GovState" where
  "example_state = \<lparr>gv_store = memory_store_new, gv_by_hash = [], gv_by_access_key_id = [], gv_concurrent = [],
     gv_admin_token_hash = None, gv_budget = sharded_new, gv_denylist = []\<rparr>"

lemma example_chain:
  "chain_for example_cost example_key =
     Some (Inr \<lparr>ch_buckets = [key_bucket example_key, example_bucket ''team'' 2, example_bucket ''org'' 3], ch_groups = [1, 0]\<rparr>)"
  by code_simp

lemma example_runtime:
  "length (cm_groups example_cost) = 2" "gr_name (cm_groups example_cost ! 1) = ''team''"
  "gr_enabled (cm_groups example_cost ! 0)" "gr_enabled (cm_groups example_cost ! 1)"
  "gr_concurrent_cap (cm_groups example_cost ! 0) = None" "gr_concurrent_cap (cm_groups example_cost ! 1) = Some 1"
  by code_simp+

lemma example_acquired: "sh_get (acquire_shards interval now bs sharded_new) k = None"
  using acquire_shards_get [OF budget_wf_new, of interval now bs k] by auto

lemma example_buckets:
  "pool_buckets \<lparr>ch_buckets = [key_bucket example_key, example_bucket ''team'' 2, example_bucket ''org'' 3], ch_groups = [1, 0]\<rparr> ''p''
   = [key_bucket example_key, example_bucket ''team'' 2, example_bucket ''org'' 3]"
  by (simp add: pool_buckets_def key_bucket_def example_bucket_def applies_to_pool_def)

lemma example_admit:
  "\<exists>s' c. try_admit example_cost 1000 example_key ''p'' 0 example_state = Some (Inr \<lparr>ag_gauges = [''team'']\<rparr>, s')
     \<and> sh_get (gv_budget s') ''group:team@day'' = Some c"
proof -
  define bs where "bs = [key_bucket example_key, example_bucket ''team'' 2, example_bucket ''org'' 3]"
  define gi where "gi = [1, 0 :: nat]"
  have c: "check_buckets example_cost 0 (acquire_shards 1000 0 bs sharded_new) bs = Some None"
    unfolding check_buckets_none
    by (simp add: bs_def example_acquired blocked_metric_def uncapped_def key_bucket_def example_bucket_def over_cap_def
        sat_add_u64_def u64_max_def)
  have f: "filter (\<lambda>b. applies_to_pool b ''p'') bs = bs"
    using example_buckets by (simp add: pool_buckets_def bs_def)
  have z: "freeze_check (cm_groups example_cost) gi = Some None"
    using example_runtime by (simp add: gi_def freeze_check_none)
  have t: "take_gauges (cm_groups example_cost) gi \<lparr>ag_gauges = []\<rparr> [] = Some (Inr \<lparr>ag_gauges = [''team'']\<rparr>, [(''team'', 1)])"
    using example_runtime by (simp add: gi_def concurrent_gauge_def i64_of_nat_def i64_max_def Let_def)
  let ?B = "acquire_shards 1000 0 bs sharded_new"
  have "distinct (map cb_bucket_id bs)" by (simp add: bs_def key_bucket_def example_bucket_def example_key_def)
  from gm.get_fold [OF acquire_shards_wf [OF budget_wf_new] this, of "example_bucket ''team'' 2" "charged 0" 1000 0 bs]
  have g: "\<exists>c. sh_get (fold (charge_bucket 0) bs ?B) ''group:team@day'' = Some c"
    by (simp add: charge_fold) (simp add: bs_def example_bucket_def)
  show ?thesis
    unfolding try_admit_def example_chain bs_def [symmetric] gi_def [symmetric]
    using g by (simp add: c f z t example_state_def Let_def)
qed

text \<open>
  Claim C32. Admission is all-or-nothing. A rejected request leaves every ledger cell as it was (a
  sweep may evict cells too old for any window) and every in-flight gauge at its value; an admitted
  request charges exactly one request and one billable request to every bucket of its chain that
  applies to the pool, leaves every other cell as it was, and raises exactly the gauges its grant
  holds. A rejection names the group, metric and window that is really full, or the frozen or missing
  group.
\<close>

theorem admission_all_or_nothing:
  assumes "try_admit cm interval key pool now s = Some (r, s')"
    and "budget_wf (gv_budget s)" "gauges_ok (gv_concurrent s)"
    and "\<forall>ch. chain_for cm key = Some (Inr ch) \<longrightarrow> distinct (map cb_bucket_id (ch_buckets ch))"
  shows "case r of
      Inl e \<Rightarrow> (\<forall>k. same_or_swept now (gv_budget s) (gv_budget s') k \<and> gval (gv_concurrent s') k = gval (gv_concurrent s) k)
    | Inr grant \<Rightarrow> \<exists>ch B. chain_for cm key = Some (Inr ch)
        \<and> (\<forall>k. same_or_swept now (gv_budget s) B k)
        \<and> (\<forall>b \<in> set (pool_buckets ch pool). sh_get (gv_budget s') (cb_bucket_id b) = Some (charged now b (sh_get B (cb_bucket_id b))))
        \<and> (\<forall>k. k \<notin> cb_bucket_id ` set (pool_buckets ch pool) \<longrightarrow> sh_get (gv_budget s') k = sh_get B k)
        \<and> (\<forall>k. gval (gv_concurrent s') k = gval (gv_concurrent s) k + held grant k)"
  using assms(1)
proof (cases rule: try_admit_cases)
  case (full ch e gauges)
  then show ?thesis using take_from_empty(1) [OF full(2) assms(3) refl] by (simp add: same_or_swept_def)
next
  case (blocked ch e grant gauges)
  then show ?thesis
    using drop_taken [OF blocked(2) assms(3)] acquire_shards_get [OF assms(2)] by (simp add: same_or_swept_def)
next
  case (admitted ch grant gauges)
  define B where "B = acquire_shards interval now (pool_buckets ch pool) (gv_budget s)"
  have wf: "budget_wf B" unfolding B_def using acquire_shards_wf [OF assms(2)] .
  have d: "distinct (map cb_bucket_id (pool_buckets ch pool))"
    using assms(4) admitted(1) by (simp add: pool_buckets_def distinct_map_filter)
  have bud: "gv_budget s' = fold (\<lambda>b B. sh_put B (cb_bucket_id b) (charged now b (sh_get B (cb_bucket_id b))))
      (pool_buckets ch pool) B"
    using admitted(6) by (simp add: charge_fold B_def)
  have "\<forall>k. same_or_swept now (gv_budget s) B k"
    using acquire_shards_get [OF assms(2)] by (simp add: same_or_swept_def B_def)
  moreover have "\<forall>b \<in> set (pool_buckets ch pool). sh_get (gv_budget s') (cb_bucket_id b) = Some (charged now b (sh_get B (cb_bucket_id b)))"
    using gm.get_fold [OF wf d] by (simp add: bud)
  moreover have "\<forall>k. k \<notin> cb_bucket_id ` set (pool_buckets ch pool) \<longrightarrow> sh_get (gv_budget s') k = sh_get B k"
    unfolding bud by (intro allI impI gm.get_fold_other [OF wf])
  moreover have "\<forall>k. gval (gv_concurrent s') k = gval (gv_concurrent s) k + held grant k"
    using take_from_empty(2) [OF admitted(3) assms(3) refl] admitted(6) by simp
  ultimately show ?thesis using admitted(1,5) by auto
qed (simp_all add: same_or_swept_def)

theorem admission_all_or_nothing_witness:
  "\<exists>s' c. try_admit example_cost 1000 example_key ''p'' 0 example_state = Some (Inr \<lparr>ag_gauges = [''team'']\<rparr>, s')
     \<and> gval (gv_concurrent s') ''team'' = 1 \<and> sh_get (gv_budget s') ''group:org@day'' = Some c
     \<and> bc_requests c = 1 \<and> bc_billable_requests c = 1"
proof -
  obtain s' where a: "try_admit example_cost 1000 example_key ''p'' 0 example_state = Some (Inr \<lparr>ag_gauges = [''team'']\<rparr>, s')"
    using example_admit by blast
  have st: "budget_wf (gv_budget example_state)" "gauges_ok (gv_concurrent example_state)" "gval (gv_concurrent example_state) k = 0"
    "sh_get (gv_budget example_state) k = None" for k
    by (simp_all add: example_state_def budget_wf_new gauges_ok_def gval_def i64_max_def)
  have "\<forall>ch. chain_for example_cost example_key = Some (Inr ch) \<longrightarrow> distinct (map cb_bucket_id (ch_buckets ch))"
    unfolding example_chain by (simp add: key_bucket_def example_bucket_def example_key_def)
  note res = admission_all_or_nothing [OF a st(1,2) this]
  then obtain B where B: "\<forall>k. same_or_swept 0 (gv_budget example_state) B k"
    "\<forall>b \<in> set [key_bucket example_key, example_bucket ''team'' 2, example_bucket ''org'' 3].
       sh_get (gv_budget s') (cb_bucket_id b) = Some (charged 0 b (sh_get B (cb_bucket_id b)))"
    "\<forall>k. gval (gv_concurrent s') k = gval (gv_concurrent example_state) k + held \<lparr>ag_gauges = [''team'']\<rparr> k"
    by (auto simp: example_chain example_buckets simp del: set_simps One_nat_def)
  have "sh_get B k = None" for k using B(1) st(4) by (simp add: same_or_swept_def)
  moreover have "cb_bucket_id (example_bucket ''org'' 3) = ''group:org@day''" by (simp add: example_bucket_def)
  ultimately have "sh_get (gv_budget s') ''group:org@day'' = Some (charged 0 (example_bucket ''org'' 3) None)"
    using B(2) by force
  moreover have "gval (gv_concurrent s') ''team'' = 1" using B(3) st(3) by (simp add: held_def)
  ultimately show ?thesis
    using a by (simp add: charged_def live_cell_def cell_fresh_def sat_add_u64_def u64_max_def)
qed

lemma try_admit_total:
  assumes "chain_for cm key = Some (Inr ch)" "\<forall>j \<in> set (ch_groups ch). j < length (cm_groups cm)"
    and "hd (ch_buckets ch) = key_bucket key" "ch_buckets ch \<noteq> []" "\<forall>b \<in> set (tl (ch_buckets ch)). cb_group_name b \<noteq> None"
  shows "try_admit cm interval key pool now s \<noteq> None"
proof -
  have "\<forall>b \<in> set (pool_buckets ch pool). uncapped b \<or> cb_group_name b \<noteq> None"
  proof
    fix b assume "b \<in> set (pool_buckets ch pool)"
    then have "b = hd (ch_buckets ch) \<or> b \<in> set (tl (ch_buckets ch))"
      using assms(4) by (cases "ch_buckets ch") (auto simp: pool_buckets_def split: if_splits)
    then show "uncapped b \<or> cb_group_name b \<noteq> None" using assms(3,5) by (auto simp: uncapped_def key_bucket_def)
  qed
  from check_buckets_total [OF this, of cm now "acquire_shards interval now (pool_buckets ch pool) (gv_budget s)"]
  show ?thesis
    using assms(1) freeze_check_total [OF assms(2)] take_gauges_total [OF assms(2), of "\<lparr>ag_gauges = []\<rparr>" "gv_concurrent s"]
    by (auto simp: try_admit_def Let_def pool_buckets_def split: bind_splits option.splits sum.splits)
qed



end
