(* ===== verification/Bytes.thy ===== *)
theory Bytes
  imports Prelude
begin

text \<open>
  Byte buffers. A buffer and a string slice are both a \<open>string\<close>: a character is one byte, and a
  Rust \<open>&str\<close> is a buffer that passes \<open>utf8_valid\<close>. The theory models what the sources use of the
  standard library on them: the big-endian integer conversions, \<open>str::from_utf8\<close>, \<open>str::lines\<close>,
  \<open>trim\<close>, \<open>strip_prefix\<close>, \<open>find\<close> and \<open>rsplit\<close>.
\<close>

type_synonym bytes = string

abbreviation byte_val :: "char \<Rightarrow> nat" where
  "byte_val c \<equiv> of_char c"

subsection \<open>Big-endian integers\<close>

definition u16_to_be_bytes :: "nat \<Rightarrow> bytes" where
  "u16_to_be_bytes n = [char_of (n div 256), char_of n]"

definition u32_to_be_bytes :: "nat \<Rightarrow> bytes" where
  "u32_to_be_bytes n = [char_of (n div 16777216), char_of (n div 65536), char_of (n div 256), char_of n]"

definition u16_from_be_bytes :: "char \<Rightarrow> char \<Rightarrow> nat" where
  "u16_from_be_bytes a b = byte_val a * 256 + byte_val b"

definition u32_from_be_bytes :: "char \<Rightarrow> char \<Rightarrow> char \<Rightarrow> char \<Rightarrow> nat" where
  "u32_from_be_bytes a b c d = byte_val a * 16777216 + byte_val b * 65536 + byte_val c * 256 + byte_val d"

lemma length_u16_be [simp]: "length (u16_to_be_bytes n) = 2"
  by (simp add: u16_to_be_bytes_def)

lemma length_u32_be [simp]: "length (u32_to_be_bytes n) = 4"
  by (simp add: u32_to_be_bytes_def)

lemma u16_be_round_trip: "n < 65536 \<Longrightarrow> u16_from_be_bytes (char_of (n div 256)) (char_of n) = n"
  by (simp add: u16_from_be_bytes_def)

lemma u32_be_round_trip:
  assumes "n < 4294967296"
  shows "u32_from_be_bytes (char_of (n div 16777216)) (char_of (n div 65536)) (char_of (n div 256)) (char_of n) = n"
proof -
  have "n div 16777216 < 256" using assms by simp
  moreover have "n = n div 256 * 256 + n mod 256" "n div 256 = n div 65536 * 256 + n div 256 mod 256"
    "n div 65536 = n div 16777216 * 256 + n div 65536 mod 256" using div_mult2_eq [of n 256 256] div_mult2_eq [of n 65536 256] by simp_all
  ultimately show ?thesis unfolding u32_from_be_bytes_def of_char_of by (subst mod_less [of "n div 16777216"]) linarith+
qed

lemma byte_val_lt [simp]: "byte_val c < 256"
  by (metis mod_less_divisor of_char_mod_256 zero_less_numeral)

subsection \<open>UTF-8\<close>

text \<open>\<open>core::str::from_utf8\<close> accepts exactly the well-formed sequences of the Unicode standard.\<close>

definition utf8_cont :: "char \<Rightarrow> bool" where
  "utf8_cont c \<longleftrightarrow> 0x80 \<le> byte_val c \<and> byte_val c \<le> 0xBF"

fun utf8_valid :: "bytes \<Rightarrow> bool" where
  "utf8_valid [] = True"
| "utf8_valid (a # bs) = (if byte_val a < 0x80 then utf8_valid bs
     else if 0xC2 \<le> byte_val a \<and> byte_val a \<le> 0xDF
     then (case bs of b # r \<Rightarrow> utf8_cont b \<and> utf8_valid r | _ \<Rightarrow> False)
     else if 0xE0 \<le> byte_val a \<and> byte_val a \<le> 0xEF
     then (case bs of b # c # r \<Rightarrow> utf8_cont b \<and> (byte_val a = 0xE0 \<longrightarrow> 0xA0 \<le> byte_val b)
              \<and> (byte_val a = 0xED \<longrightarrow> byte_val b \<le> 0x9F) \<and> utf8_cont c \<and> utf8_valid r | _ \<Rightarrow> False)
     else if 0xF0 \<le> byte_val a \<and> byte_val a \<le> 0xF4
     then (case bs of b # c # d # r \<Rightarrow> utf8_cont b \<and> (byte_val a = 0xF0 \<longrightarrow> 0x90 \<le> byte_val b)
              \<and> (byte_val a = 0xF4 \<longrightarrow> byte_val b \<le> 0x8F) \<and> utf8_cont c \<and> utf8_cont d \<and> utf8_valid r | _ \<Rightarrow> False)
     else False)"

definition from_utf8 :: "bytes \<Rightarrow> string option" where
  "from_utf8 bs = (if utf8_valid bs then Some bs else None)"

lemma utf8_ascii: "\<forall>c \<in> set bs. byte_val c < 0x80 \<Longrightarrow> utf8_valid bs"
  by (induction bs) auto

subsection \<open>Slices\<close>

definition slice :: "nat \<Rightarrow> nat \<Rightarrow> 'a list \<Rightarrow> 'a list" where
  "slice i j xs = take (j - i) (drop i xs)"

lemma slice_append_left: "j \<le> length xs \<Longrightarrow> slice i j (xs @ ys) = slice i j xs"
  by (auto simp: slice_def)

lemma slice_middle: "i = length xs \<Longrightarrow> j = length xs + length ys \<Longrightarrow> slice i j (xs @ ys @ zs) = ys"
  by (simp add: slice_def)

definition strip_prefix :: "bytes \<Rightarrow> bytes \<Rightarrow> bytes option" where
  "strip_prefix p s = (if take (length p) s = p then Some (drop (length p) s) else None)"

lemma strip_prefix_append [simp]: "strip_prefix p (p @ s) = Some s"
  by (simp add: strip_prefix_def)

lemma strip_prefix_SomeD: "strip_prefix p s = Some r \<Longrightarrow> s = p @ r"
  by (metis append_take_drop_id option.discI option.inject strip_prefix_def)

text \<open>\<open>str::split_once\<close> on a character.\<close>

fun split_once :: "char \<Rightarrow> string \<Rightarrow> (string \<times> string) option" where
  "split_once c [] = None"
| "split_once c (x # xs) = (if x = c then Some ([], xs) else map_option (\<lambda>(a, b). (x # a, b)) (split_once c xs))"

lemma split_once_append: "c \<notin> set a \<Longrightarrow> split_once c (a @ c # b) = Some (a, b)"
  by (induction a) auto

lemma split_once_some: "split_once c s = Some (a, b) \<Longrightarrow> s = a @ c # b \<and> c \<notin> set a"
  by (induction s arbitrary: a b) (auto split: if_splits)

text \<open>The decimal text of an unsigned integer (\<open>Display\<close>).\<close>

fun to_decimal :: "nat \<Rightarrow> string" where
  "to_decimal n = (if n < 10 then [char_of (48 + n)] else to_decimal (n div 10) @ [char_of (48 + n mod 10)])"

declare to_decimal.simps [simp del]

definition is_digit :: "char \<Rightarrow> bool" where
  "is_digit c \<longleftrightarrow> 48 \<le> byte_val c \<and> byte_val c \<le> 57"

lemma digit_char: "n < 10 \<Longrightarrow> byte_val (char_of (48 + n)) = 48 + n"
  by simp

lemma to_decimal_digits: "c \<in> set (to_decimal n) \<Longrightarrow> is_digit c"
proof (induction n rule: to_decimal.induct)
  case (1 n)
  have "is_digit (char_of (48 + n mod 10))" "n < 10 \<Longrightarrow> is_digit (char_of (48 + n))"
    using digit_char [of "n mod 10"] digit_char [of n] by (simp_all add: is_digit_def)
  then show ?case using 1 by (cases "n < 10") (auto simp: to_decimal.simps [of n])
qed

text \<open>The value of a digit string, which the decimal text determines.\<close>

definition decimal_value :: "string \<Rightarrow> nat" where
  "decimal_value s = foldl (\<lambda>v c. 10 * v + (byte_val c - 48)) 0 s"

lemma to_decimal_value: "decimal_value (to_decimal n) = n"
proof (induction n rule: to_decimal.induct)
  case (1 n)
  then show ?case using digit_char [of n] digit_char [of "n mod 10"]
    by (cases "n < 10") (simp_all add: to_decimal.simps [of n] decimal_value_def)
qed

lemma to_decimal_inj: "to_decimal m = to_decimal n \<Longrightarrow> m = n"
  by (metis to_decimal_value)

end
