(* ===== verification/GovKeys.thy ===== *)
theory GovKeys
  imports Gov Bytes
begin

text \<open>
  Signed tokens (\<open>governance/signing.rs\<close>), the key operations of \<open>governance/state.rs\<close> and the
  synthesized key of a role-carrying principal (\<open>governance/mod.rs\<close>). What the code takes from other
  packages is a parameter: the cryptography, the claims codec and the base64 codec are the record
  \<open>Crypto\<close>, the SHA-256 digest is the argument \<open>sha256_hex\<close>, and a draw of the operating system's
  entropy is an argument that is \<open>None\<close> when the source fails.
\<close>

subsection \<open>Tokens\<close>

definition TOKEN_PREFIX :: string where
  "TOKEN_PREFIX = ''bbk_''"

record TokenClaims =
  tc_sub :: string
  tc_exp :: nat
  tc_kid :: string

datatype VerifyError = Malformed | UnknownKid | BadSignature | Expired

record ('k, 'v) Crypto =
  cr_verifying_key :: "'k \<Rightarrow> 'v"
  cr_sign :: "'k \<Rightarrow> string \<Rightarrow> string"
  cr_verify :: "'v \<Rightarrow> string \<Rightarrow> string \<Rightarrow> bool"
  cr_to_vec :: "TokenClaims \<Rightarrow> string"
  cr_from_slice :: "string \<Rightarrow> TokenClaims option"
  cr_b64_encode :: "string \<Rightarrow> string"
  cr_b64_decode :: "string \<Rightarrow> string option"

record 'k TokenSigner =
  ts_key :: 'k
  ts_kid :: string

type_synonym 'v TokenVerifier = "(string \<times> 'v) list"

definition mint_token :: "('k, 'v) Crypto \<Rightarrow> 'k TokenSigner \<Rightarrow> string \<Rightarrow> nat \<Rightarrow> string" where
  "mint_token cr signer sub expiry =
     (let payload = cr_to_vec cr \<lparr>tc_sub = sub, tc_exp = expiry, tc_kid = ts_kid signer\<rparr>;
          sig = cr_sign cr (ts_key signer) payload
      in TOKEN_PREFIX @ cr_b64_encode cr payload @ ''.'' @ cr_b64_encode cr sig)"

definition verifier_single :: "string \<Rightarrow> 'v \<Rightarrow> 'v TokenVerifier" where
  "verifier_single kid key = [(kid, key)]"

definition token_verify :: "('k, 'v) Crypto \<Rightarrow> 'v TokenVerifier \<Rightarrow> string \<Rightarrow> nat \<Rightarrow> VerifyError + TokenClaims" where
  "token_verify cr keys token now =
     (case strip_prefix TOKEN_PREFIX token of
        None \<Rightarrow> Inl Malformed
      | Some body \<Rightarrow>
     (case split_once (CHR ''.'') body of
        None \<Rightarrow> Inl Malformed
      | Some (payload_b64, sig_b64) \<Rightarrow>
     (case cr_b64_decode cr payload_b64 of
        None \<Rightarrow> Inl Malformed
      | Some payload \<Rightarrow>
     (case cr_b64_decode cr sig_b64 of
        None \<Rightarrow> Inl Malformed
      | Some sig_bytes \<Rightarrow>
          if length sig_bytes \<noteq> 64 then Inl Malformed
          else (case cr_from_slice cr payload of
             None \<Rightarrow> Inl Malformed
           | Some claims \<Rightarrow>
          (case al_get keys (tc_kid claims) of
             None \<Rightarrow> Inl UnknownKid
           | Some key \<Rightarrow>
               if \<not> cr_verify cr key payload sig_bytes then Inl BadSignature
               else if tc_exp claims \<le> now then Inl Expired
               else Inr claims))))))"

subsection \<open>Key caches\<close>

definition collect_map :: "('k \<times> 'v) list \<Rightarrow> ('k \<times> 'v) list" where
  "collect_map xs = fold (\<lambda>(k, v) m. al_put m k v) xs []"

definition gov_load :: "'s Store \<Rightarrow> 's \<Rightarrow> (string \<times> VirtualKey) list store_result" where
  "gov_load vt st =
     (case list_keys vt st of Inl e \<Rightarrow> Inl e | Inr ks \<Rightarrow> Inr (collect_map (map (\<lambda>k. (vk_key_hash k, k)) ks)))"

definition load_by_access_key_id ::
  "'s Store \<Rightarrow> 's \<Rightarrow> (string \<times> VirtualKey) list \<Rightarrow> (string \<times> AwsKeyEntry) list store_result" where
  "load_by_access_key_id vt st by_hash =
     (let by_id = collect_map (map (\<lambda>(_, k). (vk_id k, k)) by_hash) in
      case list_aws_credentials vt st of
        Inl e \<Rightarrow> Inl e
      | Inr creds \<Rightarrow>
          Inr (fold (\<lambda>cred m. case al_get by_id (ac_key_id cred) of
                 Some key \<Rightarrow> al_put m (ac_access_key_id cred)
                   \<lparr>ake_key = key, ake_secret_access_key = ac_secret_access_key cred\<rparr>
               | None \<Rightarrow> m) creds []))"

definition refresh :: "'s Store \<Rightarrow> 's GovState \<Rightarrow> unit store_result \<times> 's GovState" where
  "refresh vt s =
     (case gov_load vt (gv_store s) of
        Inl e \<Rightarrow> (Inl e, s)
      | Inr fresh \<Rightarrow>
          (case load_by_access_key_id vt (gv_store s) fresh of
             Inl e \<Rightarrow> (Inl e, s)
           | Inr fresh_akid \<Rightarrow> (Inr (), s\<lparr>gv_by_hash := fresh, gv_by_access_key_id := fresh_akid\<rparr>)))"

definition gov_new :: "(string \<Rightarrow> string) \<Rightarrow> 's Store \<Rightarrow> 's \<Rightarrow> string option \<Rightarrow> 's GovState store_result" where
  "gov_new sha256_hex vt st admin_token =
     (case gov_load vt st of
        Inl e \<Rightarrow> Inl e
      | Inr by_hash \<Rightarrow>
     (case load_by_access_key_id vt st by_hash of
        Inl e \<Rightarrow> Inl e
      | Inr by_access_key_id \<Rightarrow>
     (case list_denylist vt st of
        Inl e \<Rightarrow> Inl e
      | Inr denylist \<Rightarrow>
          Inr \<lparr>gv_store = st, gv_by_hash = by_hash, gv_by_access_key_id = by_access_key_id, gv_concurrent = [],
               gv_admin_token_hash = map_option sha256_hex admin_token, gv_budget = sharded_new,
               gv_denylist = remdups denylist\<rparr>)))"

definition lookup :: "(string \<Rightarrow> string) \<Rightarrow> string \<Rightarrow> 's GovState \<Rightarrow> VirtualKey option" where
  "lookup sha256_hex secret s = al_get (gv_by_hash s) (sha256_hex secret)"

definition lookup_by_access_key_id :: "string \<Rightarrow> 's GovState \<Rightarrow> AwsKeyEntry option" where
  "lookup_by_access_key_id akid s = al_get (gv_by_access_key_id s) akid"

definition lookup_by_sub :: "string \<Rightarrow> 's GovState \<Rightarrow> VirtualKey option" where
  "lookup_by_sub sub s = find (\<lambda>k. vk_id k = sub) (map snd (gv_by_hash s))"

definition verify_token ::
  "('k, 'v) Crypto \<Rightarrow> 'v TokenVerifier option \<Rightarrow> string \<Rightarrow> nat \<Rightarrow> 's GovState \<Rightarrow> VirtualKey option" where
  "verify_token cr verifier token now s =
     (case verifier of
        None \<Rightarrow> None
      | Some keys \<Rightarrow>
          (case token_verify cr keys token now of
             Inl _ \<Rightarrow> None
           | Inr claims \<Rightarrow>
               if tc_sub claims \<in> set (gv_denylist s) then None
               else (case lookup_by_sub (tc_sub claims) s of
                  Some key \<Rightarrow> if vk_enabled key then Some key else None
                | None \<Rightarrow> None)))"

definition revoke :: "'s Store \<Rightarrow> string \<Rightarrow> string \<Rightarrow> 's GovState \<Rightarrow> unit store_result \<times> 's GovState" where
  "revoke vt sub reason s =
     (case add_denylist vt sub reason (gv_store s) of
        (Inl e, st) \<Rightarrow> (Inl e, s\<lparr>gv_store := st\<rparr>)
      | (Inr _, st) \<Rightarrow> (Inr (), s\<lparr>gv_store := st, gv_denylist := List.insert sub (gv_denylist s)\<rparr>))"

definition is_revoked :: "string \<Rightarrow> 's GovState \<Rightarrow> bool" where
  "is_revoked sub s \<longleftrightarrow> sub \<in> set (gv_denylist s)"

subsection \<open>Minting and changing keys\<close>

definition VK_ID_PREFIX :: string where
  "VK_ID_PREFIX = ''vk_''"

definition VK_ID_HASH_PREFIX_LEN :: nat where
  "VK_ID_HASH_PREFIX_LEN = 16"

definition SK_SECRET_PREFIX :: string where
  "SK_SECRET_PREFIX = ''sk-bb-''"

definition AWS_ACCESS_KEY_PREFIX :: string where
  "AWS_ACCESS_KEY_PREFIX = ''AKIA''"

definition hex_digit :: "nat \<Rightarrow> char" where
  "hex_digit n = ''0123456789abcdef'' ! (n mod 16)"

definition hex_encode :: "nat list \<Rightarrow> string" where
  "hex_encode buf = concat (map (\<lambda>b. [hex_digit (b div 16), hex_digit b]) buf)"

type_synonym entropy = "nat list option"

definition entropy_error :: StoreError where
  "entropy_error = StoreError ''CSPRNG unavailable''"

definition generate_secret :: "entropy \<Rightarrow> string store_result" where
  "generate_secret buf = (case buf of None \<Rightarrow> Inl entropy_error | Some b \<Rightarrow> Inr (SK_SECRET_PREFIX @ hex_encode b))"

definition AKID_ALPHABET :: string where
  "AKID_ALPHABET = ''ABCDEFGHIJKLMNOPQRSTUVWXYZ0123456789''"

definition generate_aws_access_key_id :: "entropy \<Rightarrow> string store_result" where
  "generate_aws_access_key_id buf =
     (case buf of None \<Rightarrow> Inl entropy_error
      | Some b \<Rightarrow> Inr (AWS_ACCESS_KEY_PREFIX @ map (\<lambda>x. AKID_ALPHABET ! (x mod length AKID_ALPHABET)) b))"

definition SECRET_ALPHABET :: string where
  "SECRET_ALPHABET = ''ABCDEFGHIJKLMNOPQRSTUVWXYZabcdefghijklmnopqrstuvwxyz0123456789+/''"

text \<open>The inner loop that emits six-bit groups, and the outer loop over the bytes.\<close>

function emit_bits :: "nat \<Rightarrow> nat \<Rightarrow> string \<Rightarrow> nat \<times> string" where
  "emit_bits acc bits out =
     (if bits \<ge> 6 then emit_bits acc (bits - 6) (out @ [SECRET_ALPHABET ! (drop_bit (bits - 6) acc AND 0x3f)])
      else (bits, out))"
  by pat_completeness auto
termination by (relation "measure (\<lambda>(_, bits, _). bits)") auto

declare emit_bits.simps [simp del]

definition secret_byte :: "nat \<Rightarrow> nat \<times> nat \<times> string \<Rightarrow> nat \<times> nat \<times> string" where
  "secret_byte b st =
     (let (acc, bits, out) = st;
          acc = wrap_u32 (push_bit 8 acc) OR b;
          (bits, out) = emit_bits acc (bits + 8) out
      in (acc, bits, out))"

definition generate_aws_secret_access_key :: "entropy \<Rightarrow> string store_result" where
  "generate_aws_secret_access_key buf =
     (case buf of None \<Rightarrow> Inl entropy_error | Some b \<Rightarrow> Inr (snd (snd (fold secret_byte b (0, 0, [])))))"

record NewKeySpec =
  nk_name :: string
  nk_allowed_pools :: "string list option"
  nk_group :: "string option"
  nk_labels :: "(string \<times> string) list"

definition spec_key :: "NewKeySpec \<Rightarrow> string \<Rightarrow> string \<Rightarrow> nat \<Rightarrow> VirtualKey" where
  "spec_key spec i hash now =
     \<lparr>vk_id = i, vk_key_hash = hash, vk_name = nk_name spec, vk_allowed_pools = nk_allowed_pools spec,
      vk_enabled = True, vk_created_at = now, vk_group = nk_group spec, vk_labels = nk_labels spec\<rparr>"

text \<open>A store write followed by a cache refresh, the tail every key change shares.\<close>

definition write_and_refresh ::
  "'s Store \<Rightarrow> ('s \<Rightarrow> unit store_result \<times> 's) \<Rightarrow> 's GovState \<Rightarrow> unit store_result \<times> 's GovState" where
  "write_and_refresh vt w s =
     (case w (gv_store s) of
        (Inl e, st) \<Rightarrow> (Inl e, s\<lparr>gv_store := st\<rparr>)
      | (Inr _, st) \<Rightarrow> refresh vt (s\<lparr>gv_store := st\<rparr>))"

definition mint_signed ::
  "('k, 'v) Crypto \<Rightarrow> 'k TokenSigner option \<Rightarrow> 's Store \<Rightarrow> NewKeySpec \<Rightarrow> entropy \<Rightarrow> nat \<Rightarrow> nat \<Rightarrow> 's GovState
   \<Rightarrow> (VirtualKey \<times> string) store_result \<times> 's GovState" where
  "mint_signed cr signer vt spec raw expiry now s =
     (case signer of
        None \<Rightarrow> (Inl (StoreError ''signed-token minting is unavailable: no signing key is configured''), s)
      | Some sg \<Rightarrow>
     (case raw of
        None \<Rightarrow> (Inl entropy_error, s)
      | Some r \<Rightarrow>
          (let i = VK_ID_PREFIX @ hex_encode r;
               binding = spec_key spec i (''binding:'' @ i) now
           in case write_and_refresh vt (put_key vt binding) s of
                (Inl e, s1) \<Rightarrow> (Inl e, s1)
              | (Inr _, s1) \<Rightarrow> (Inr (binding, mint_token cr sg i expiry), s1))))"

definition mint_signed_with_aws ::
  "('k, 'v) Crypto \<Rightarrow> 'k TokenSigner option \<Rightarrow> 's Store \<Rightarrow> NewKeySpec \<Rightarrow> entropy \<Rightarrow> entropy \<Rightarrow> entropy \<Rightarrow> nat \<Rightarrow> nat
   \<Rightarrow> 's GovState \<Rightarrow> (VirtualKey \<times> string \<times> string \<times> string) store_result \<times> 's GovState" where
  "mint_signed_with_aws cr signer vt spec raw akid_buf secret_buf expiry now s =
     (case signer of
        None \<Rightarrow> (Inl (StoreError ''signed-token minting is unavailable: no signing key is configured''), s)
      | Some sg \<Rightarrow>
     (case raw of
        None \<Rightarrow> (Inl entropy_error, s)
      | Some r \<Rightarrow>
     (case generate_aws_access_key_id akid_buf of
        Inl e \<Rightarrow> (Inl e, s)
      | Inr akid \<Rightarrow>
     (case generate_aws_secret_access_key secret_buf of
        Inl e \<Rightarrow> (Inl e, s)
      | Inr secret \<Rightarrow>
          (let i = VK_ID_PREFIX @ hex_encode r;
               binding = spec_key spec i (''binding:'' @ i) now;
               cred = \<lparr>ac_access_key_id = akid, ac_key_id = i, ac_secret_access_key = secret\<rparr>
           in case write_and_refresh vt (put_key_with_aws_credential vt binding cred) s of
                (Inl e, s1) \<Rightarrow> (Inl e, s1)
              | (Inr _, s1) \<Rightarrow> (Inr (binding, mint_token cr sg i expiry, akid, secret), s1))))))"

definition ensure_id_free_for_hash :: "'s Store \<Rightarrow> string \<Rightarrow> string \<Rightarrow> 's \<Rightarrow> unit store_result" where
  "ensure_id_free_for_hash vt i hash st =
     (case get_key vt i st of
        Inl e \<Rightarrow> Inl e
      | Inr None \<Rightarrow> Inr ()
      | Inr (Some existing) \<Rightarrow>
          if vk_key_hash existing \<noteq> hash then Inl (StoreError ''virtual-key id collision'') else Inr ())"

definition create_key ::
  "(string \<Rightarrow> string) \<Rightarrow> 's Store \<Rightarrow> NewKeySpec \<Rightarrow> entropy \<Rightarrow> nat \<Rightarrow> 's GovState
   \<Rightarrow> (VirtualKey \<times> string) store_result \<times> 's GovState" where
  "create_key sha256_hex vt spec buf now s =
     (case generate_secret buf of
        Inl e \<Rightarrow> (Inl e, s)
      | Inr secret \<Rightarrow>
          (let hash = sha256_hex secret;
               i = VK_ID_PREFIX @ take VK_ID_HASH_PREFIX_LEN hash
           in case ensure_id_free_for_hash vt i hash (gv_store s) of
                Inl e \<Rightarrow> (Inl e, s)
              | Inr _ \<Rightarrow>
                  (let key = spec_key spec i hash now
                   in case write_and_refresh vt (put_key vt key) s of
                        (Inl e, s1) \<Rightarrow> (Inl e, s1)
                      | (Inr _, s1) \<Rightarrow> (Inr (key, secret), s1))))"

definition create_key_with_aws ::
  "(string \<Rightarrow> string) \<Rightarrow> 's Store \<Rightarrow> NewKeySpec \<Rightarrow> entropy \<Rightarrow> entropy \<Rightarrow> entropy \<Rightarrow> nat \<Rightarrow> 's GovState
   \<Rightarrow> (VirtualKey \<times> string \<times> string \<times> string) store_result \<times> 's GovState" where
  "create_key_with_aws sha256_hex vt spec buf akid_buf secret_buf now s =
     (case generate_secret buf of
        Inl e \<Rightarrow> (Inl e, s)
      | Inr secret \<Rightarrow>
          (let hash = sha256_hex secret;
               i = VK_ID_PREFIX @ take VK_ID_HASH_PREFIX_LEN hash
           in case ensure_id_free_for_hash vt i hash (gv_store s) of
                Inl e \<Rightarrow> (Inl e, s)
              | Inr _ \<Rightarrow>
          (case generate_aws_access_key_id akid_buf of
             Inl e \<Rightarrow> (Inl e, s)
           | Inr akid \<Rightarrow>
          (case generate_aws_secret_access_key secret_buf of
             Inl e \<Rightarrow> (Inl e, s)
           | Inr aws_secret \<Rightarrow>
               (let key = spec_key spec i hash now;
                    cred = \<lparr>ac_access_key_id = akid, ac_key_id = i, ac_secret_access_key = aws_secret\<rparr>
                in case write_and_refresh vt (put_key_with_aws_credential vt key cred) s of
                     (Inl e, s1) \<Rightarrow> (Inl e, s1)
                   | (Inr _, s1) \<Rightarrow> (Inr (key, secret, akid, aws_secret), s1))))))"

definition delete_key :: "'s Store \<Rightarrow> string \<Rightarrow> 's GovState \<Rightarrow> unit store_result \<times> 's GovState" where
  "delete_key vt i s = write_and_refresh vt (store_delete_key vt i) s"

definition rotate_key ::
  "(string \<Rightarrow> string) \<Rightarrow> 's Store \<Rightarrow> string \<Rightarrow> entropy \<Rightarrow> 's GovState
   \<Rightarrow> (VirtualKey \<times> string) option store_result \<times> 's GovState" where
  "rotate_key sha256_hex vt i buf s =
     (case get_key vt i (gv_store s) of
        Inl e \<Rightarrow> (Inl e, s)
      | Inr None \<Rightarrow> (Inr None, s)
      | Inr (Some key) \<Rightarrow>
          (case generate_secret buf of
             Inl e \<Rightarrow> (Inl e, s)
           | Inr secret \<Rightarrow>
               (let key1 = key\<lparr>vk_key_hash := sha256_hex secret\<rparr>
                in case write_and_refresh vt (put_key vt key1) s of
                     (Inl e, s1) \<Rightarrow> (Inl e, s1)
                   | (Inr _, s1) \<Rightarrow> (Inr (Some (key1, secret)), s1))))"

definition update_key ::
  "'s Store \<Rightarrow> string \<Rightarrow> bool option \<Rightarrow> string option option \<Rightarrow> 's GovState
   \<Rightarrow> VirtualKey option store_result \<times> 's GovState" where
  "update_key vt i enabled gname s =
     (case get_key vt i (gv_store s) of
        Inl e \<Rightarrow> (Inl e, s)
      | Inr None \<Rightarrow> (Inr None, s)
      | Inr (Some key) \<Rightarrow>
          (let key1 = (case enabled of Some e \<Rightarrow> key\<lparr>vk_enabled := e\<rparr> | None \<Rightarrow> key);
               key2 = (case gname of Some g \<Rightarrow> key1\<lparr>vk_group := g\<rparr> | None \<Rightarrow> key1)
           in case write_and_refresh vt (put_key vt key2) s of
                (Inl e, s1) \<Rightarrow> (Inl e, s1)
              | (Inr _, s1) \<Rightarrow> (Inr (Some key2), s1)))"

subsection \<open>Role-carrying principals\<close>

record Principal =
  pr_id :: string
  pr_name :: "string option"
  pr_roles :: "string list"
  pr_ttl_secs :: "nat option"

record RoleBindingCfg =
  rb_allowed_pools :: "string list option"
  rb_group :: "string option"
  rb_admin_scope :: "string option"

definition starts_with :: "string \<Rightarrow> string \<Rightarrow> bool" where
  "starts_with s p \<longleftrightarrow> take (length p) s = p"

definition union_pools :: "RoleBindingCfg list \<Rightarrow> string list" where
  "union_pools bs =
     foldl (\<lambda>pools b. case rb_allowed_pools b of
         None \<Rightarrow> pools
       | Some ps \<Rightarrow> foldl (\<lambda>acc p. if p \<in> set acc then acc else acc @ [p]) pools ps) [] bs"

definition synthesize_principal_key ::
  "Principal \<Rightarrow> (string \<times> RoleBindingCfg) list option \<Rightarrow> VirtualKey option" where
  "synthesize_principal_key p bindings =
     (if starts_with (pr_id p) GROUP_BUCKET_PREFIX \<or> starts_with (pr_id p) VK_ID_PREFIX then None
      else case bindings of
        None \<Rightarrow> None
      | Some table \<Rightarrow>
          (let granting = List.map_filter (al_get table) (pr_roles p) in
           if granting = [] then None
           else
             (let pools = union_pools granting;
                  all_pools = list_ex (\<lambda>b. rb_allowed_pools b = None) granting
              in if \<not> all_pools \<and> pools = [] then None
                 else Some \<lparr>vk_id = pr_id p, vk_key_hash = ''principal:'' @ pr_id p,
                   vk_name = (case pr_name p of Some n \<Rightarrow> n | None \<Rightarrow> pr_id p),
                   vk_allowed_pools = (if all_pools then None else Some pools), vk_enabled = True, vk_created_at = 0,
                   vk_group = (case List.map_filter rb_group granting of g # _ \<Rightarrow> Some g | [] \<Rightarrow> None), vk_labels = []\<rparr>)))"

end
