(* ===== verification/CostSound.thy ===== *)
theory CostSound
  imports CostChain
begin

text \<open>
  What the resolved cost model of a validated \<open>groups:\<close> tree gives the governance runtime: every ledger
  bucket has one owner, no group has two gauges, and no chain visits a group twice.
\<close>

definition group_buckets :: "CostModel \<Rightarrow> GroupBucket list" where
  "group_buckets cm = concat (map gr_buckets (cm_groups cm))"

definition sound_model :: "CostModel \<Rightarrow> bool" where
  "sound_model cm \<longleftrightarrow> cost_wf cm \<and> distinct (map gb_bucket_id (group_buckets cm)) \<and> distinct (map gr_name (cm_groups cm))
     \<and> (\<forall>key ch. chain_for cm key = Some (Inr ch) \<longrightarrow> distinct (ch_groups ch) \<and> (\<forall>j \<in> set (ch_groups ch). j < length (cm_groups cm)))
     \<and> (\<forall>b \<in> set (group_buckets cm). \<exists>r. gb_bucket_id b = GROUP_BUCKET_PREFIX @ r)"

definition valid_tree :: "(string \<times> GroupCfg) list \<Rightarrow> bool" where
  "valid_tree cfg \<longleftrightarrow> validate_groups cfg (\<lambda>_. True) = [] \<and> distinct (map fst cfg) \<and> (\<forall>(n, g) \<in> set cfg. CHR ''@'' \<notin> set n)"

subsection \<open>Bucket names of a projected group\<close>

definition named_for :: "string \<Rightarrow> GroupBucket \<Rightarrow> bool" where
  "named_for name b \<longleftrightarrow> (\<exists>w. gb_window b = window_as_str w \<and> gb_bucket_id b = group_bucket_id name (window_as_str w) (gb_pool b))"

lemma bucket_apply_named: "named_for name (bucket_apply l b) = named_for name b"
  by (auto simp: named_for_def bucket_apply_def Let_def split: LimitMetric.split)

lemma put_limit_named:
  "list_all (named_for name) bs \<Longrightarrow> list_all (named_for name) (put_limit name (window_as_str w) l bs)"
  by (induction bs) (auto simp: bucket_apply_named, auto simp: named_for_def fresh_bucket_def)

lemma project_limit_named:
  "list_all (named_for name) (fst acc) \<Longrightarrow> list_all (named_for name) (fst (project_limit name l acc))"
  using put_limit_named by (auto simp: project_limit_def split: LimitMetric.split option.split prod.split)

lemma fold_limits_named:
  "list_all (named_for name) (fst acc) \<Longrightarrow> list_all (named_for name) (fst (fold (project_limit name) ls acc))"
  by (induction ls arbitrary: acc) (simp_all add: project_limit_named)

lemma project_group_buckets:
  shows "\<forall>b \<in> set (gr_buckets (project_group idx (name, g))). named_for name b"
    and "distinct (map (\<lambda>b. (gb_window b, gb_pool b)) (gr_buckets (project_group idx (name, g))))"
  using fold_limits_named [of name "([], None)" "gc_limits g"] fold_limits_distinct [of "([], None)" name "gc_limits g"]
  by (auto simp: project_group_def list_all_iff split: prod.split)

lemma project_group_name [simp]: "gr_name (project_group idx x) = fst x"
  by (cases x) (simp add: project_group_def split: prod.split)

lemma named_distinct:
  assumes "distinct (map (\<lambda>b. (gb_window b, gb_pool b)) bs)" "\<forall>b \<in> set bs. named_for name b" "CHR ''@'' \<notin> set name"
  shows "distinct (map gb_bucket_id bs)"
proof -
  have "inj_on gb_bucket_id (set bs)"
  proof (rule inj_onI)
    fix a b assume ab: "a \<in> set bs" "b \<in> set bs" "gb_bucket_id a = gb_bucket_id b"
    obtain w v where "gb_window a = window_as_str w" "gb_bucket_id a = group_bucket_id name (window_as_str w) (gb_pool a)"
      "gb_window b = window_as_str v" "gb_bucket_id b = group_bucket_id name (window_as_str v) (gb_pool b)"
      using assms(2) ab(1,2) unfolding named_for_def by blast
    then have "gb_window a = gb_window b \<and> gb_pool a = gb_pool b"
      using ab(3) group_bucket_id_inj [OF assms(3,3), of w "gb_pool a" v "gb_pool b"] by simp
    then show "a = b" using assms(1) ab(1,2) by (auto simp: distinct_map inj_on_def)
  qed
  then show ?thesis using assms(1) by (simp add: distinct_map)
qed

lemma projected_ids_distinct:
  assumes "distinct (map fst es)" "\<forall>(n, g) \<in> set es. CHR ''@'' \<notin> set n"
  shows "distinct (map gb_bucket_id (concat (map gr_buckets (map (project_group idx) es))))"
  using assms
proof (induction es)
  case (Cons e es)
  obtain n g where e: "e = (n, g)" by (cases e)
  have n: "CHR ''@'' \<notin> set n" using Cons.prems(2) by (simp add: e)
  have "distinct (map gb_bucket_id (gr_buckets (project_group idx (n, g))))"
    using named_distinct [OF project_group_buckets(2) project_group_buckets(1) n] .
  moreover have "gb_bucket_id a \<noteq> gb_bucket_id b"
    if a: "a \<in> set (gr_buckets (project_group idx (n, g)))" and x: "x \<in> set es" and b: "b \<in> set (gr_buckets (project_group idx x))" for a b x
  proof -
    obtain m h where x': "x = (m, h)" by (cases x)
    have "m \<noteq> n" "CHR ''@'' \<notin> set m" using Cons.prems x by (auto simp: e x' image_iff)
    moreover have "named_for n a" "named_for m b" using project_group_buckets(1) a b x' by blast+
    ultimately show ?thesis using group_bucket_id_inj [OF n, of m] unfolding named_for_def by metis
  qed
  ultimately show ?case using Cons by (auto simp: e)
qed simp

subsection \<open>Chains\<close>

lemma chain_walk_indices: "chain_walk n gs next = Some (bs, js) \<Longrightarrow> \<forall>j \<in> set js. j < length gs"
  by (induction n gs "next" arbitrary: bs js rule: chain_walk.induct) (auto split: if_splits bind_splits)

lemma walk_starts:
  assumes d: "distinct (map fst cfg)" and p: "project_groups cfg = (gs, idx)" and v: "validate_groups cfg pe = []"
    and i: "al_get idx name = Some i"
  shows "\<exists>bs js. chain_walk (length gs) gs (Some i) = Some (bs, js) \<and> distinct js \<and> (\<forall>j \<in> set js. j < length gs)"
proof -
  obtain g where g: "al_get cfg name = Some g" using projected(2) [OF d p, of name] i by (cases "al_get cfg name") auto
  obtain path where path: "ancestry cfg (name # path)" "distinct (name # path)" using validated_ancestry [OF v g d] .
  have "card (set (name # path)) \<le> card (fst ` set cfg)"
    by (rule card_mono) (use ancestry_known [OF path(1)] in simp_all)
  then have len: "length (name # path) \<le> length gs"
    using distinct_card [OF path(2)] card_image_le [of "set cfg" fst] card_length [of cfg] projected(3) [OF d p] by simp
  obtain bs js where w: "chain_walk (length gs) gs (Some i) = Some (bs, js)" "map (\<lambda>j. gr_name (gs ! j)) js = name # path"
    using chain_walk_ancestry [OF d p path(1) len] i by auto
  have "distinct js" using w(2) path(2) by (metis distinct_map)
  moreover have "\<forall>j \<in> set js. j < length gs" using chain_walk_indices [OF w(1)] .
  ultimately show ?thesis using w(1) by blast
qed

lemma chain_for_buckets:
  assumes "chain_for cm key = Some (Inr ch)"
  shows "ch_buckets ch = key_bucket key
     # concat (map (\<lambda>j. map (chain_bucket (cm_groups cm ! j)) (gr_buckets (cm_groups cm ! j))) (ch_groups ch))"
  using assms by (auto simp: chain_for_def split: option.splits bind_splits dest!: chain_walk_buckets)

lemma chain_bucket_id [simp]: "cb_bucket_id (chain_bucket g b) = gb_bucket_id b"
  by (simp add: chain_bucket_def)

text \<open>The resolved model of a validated tree is sound.\<close>

lemma valid_tree_sound:
  assumes "valid_tree cfg"
  shows "sound_model (resolve_parts rate_card fee cfg)"
proof -
  obtain gs idx where p: "project_groups cfg = (gs, idx)" by (cases "project_groups cfg")
  define es where "es = sort_key fst cfg"
  define cm where "cm = resolve_parts rate_card fee cfg"
  have cm: "cm_groups cm = gs" "cm_group_idx cm = idx" by (simp_all add: cm_def resolve_parts_def p)
  have gs: "gs = map (project_group idx) es" using p by (simp add: project_groups_def es_def Let_def) blast
  have d: "distinct (map fst cfg)" and v: "validate_groups cfg (\<lambda>_. True) = []" using assms by (simp_all add: valid_tree_def)
  have es: "distinct (map fst es)" "\<forall>(n, g) \<in> set es. CHR ''@'' \<notin> set n"
  proof -
    show "distinct (map fst es)" using d unfolding es_def by (metis mset_eq_imp_distinct_iff mset_map mset_sort)
    show "\<forall>(n, g) \<in> set es. CHR ''@'' \<notin> set n" using assms by (simp add: es_def valid_tree_def)
  qed
  have ids: "distinct (map gb_bucket_id (group_buckets cm))"
    using projected_ids_distinct [OF es] by (simp add: group_buckets_def cm gs)
  have nm: "distinct (map gr_name (cm_groups cm))" using es(1) by (simp add: cm gs comp_def)
  have pre: "\<exists>r. gb_bucket_id b = GROUP_BUCKET_PREFIX @ r" if "b \<in> set (group_buckets cm)" for b
    using that project_group_buckets(1) [of idx] by (fastforce simp: group_buckets_def cm gs named_for_def group_bucket_id_def)
  have ch: "distinct (ch_groups ch) \<and> (\<forall>j \<in> set (ch_groups ch). j < length (cm_groups cm))"
    if f: "chain_for cm key = Some (Inr ch)" for key ch
  proof (cases "vk_group key")
    case None
    then show ?thesis using f by (auto simp: chain_for_def)
  next
    case (Some name)
    then obtain i where i: "al_get idx name = Some i" using f by (auto simp: chain_for_def cm split: option.splits)
    then show ?thesis using walk_starts [OF d p v i] f Some by (auto simp: chain_for_def cm)
  qed
  show ?thesis
    using ids nm pre ch resolve_parts_wf [of rate_card fee cfg] unfolding sound_model_def cm_def by blast
qed

text \<open>A bucket name of a sound model determines its cap in every chain.\<close>

definition requests_capped :: "CostModel \<Rightarrow> string \<Rightarrow> nat \<Rightarrow> bool" where
  "requests_capped cm k cap \<longleftrightarrow> (\<exists>b \<in> set (group_buckets cm). gb_bucket_id b = k \<and> gb_requests_cap b = Some cap)"

lemma sound_chain_bucket:
  assumes "sound_model cm" "chain_for cm key = Some (Inr ch)" "b \<in> set (ch_buckets ch)"
  shows "b = key_bucket key \<or> (\<exists>g gb. gb \<in> set (group_buckets cm) \<and> b = chain_bucket g gb)"
  using assms chain_for_buckets [OF assms(2)] by (force simp: sound_model_def group_buckets_def)

lemma sound_chain_cap:
  assumes "sound_model cm" "chain_for cm key = Some (Inr ch)" "b \<in> set (ch_buckets ch)"
    and "requests_capped cm (cb_bucket_id b) cap" "\<forall>gb \<in> set (group_buckets cm). gb_bucket_id gb \<noteq> vk_id key"
  shows "cb_requests_cap b = Some cap"
proof -
  obtain gb where gb: "gb \<in> set (group_buckets cm)" "gb_bucket_id gb = cb_bucket_id b" "gb_requests_cap gb = Some cap"
    using assms(4) by (auto simp: requests_capped_def)
  then have "b \<noteq> key_bucket key" using assms(5) by (auto simp: key_bucket_def)
  then obtain g gb' where b: "gb' \<in> set (group_buckets cm)" "b = chain_bucket g gb'"
    using sound_chain_bucket [OF assms(1-3)] by blast
  have "gb' = gb" using assms(1) gb(1,2) b by (auto simp: sound_model_def distinct_map inj_on_def)
  then show ?thesis using b gb(3) by (simp add: chain_bucket_def)
qed

lemma concat_nth_distinct:
  assumes "distinct (concat (map f gs))" "distinct js" "\<forall>j \<in> set js. j < length gs"
  shows "distinct (concat (map (\<lambda>j. f (gs ! j)) js))"
  using assms(2,3)
proof (induction js)
  case (Cons j js)
  have one: "distinct (f (gs ! i))" if "i < length gs" for i
    using assms(1) that by (simp add: distinct_concat_iff)
  have two: "set (f (gs ! i)) \<inter> set (f (gs ! k)) = {}" if "i < k" "k < length gs" for i k
  proof -
    have "gs = take k gs @ gs ! k # drop (Suc k) gs" using that(2) by (rule id_take_nth_drop)
    then have "distinct (concat (map f (take k gs)) @ f (gs ! k) @ concat (map f (drop (Suc k) gs)))"
      using assms(1) by (metis concat.simps(2) concat_append list.map(2) map_append)
    moreover have "gs ! i \<in> set (take k gs)" using that by (auto simp: in_set_conv_nth)
    ultimately show ?thesis by auto
  qed
  have "set (f (gs ! j)) \<inter> set (f (gs ! k)) = {}" if "k \<in> set js" for k
    using two [of j k] two [of k j] that Cons.prems by (cases j k rule: linorder_cases) auto
  then show ?case using Cons one by auto
qed simp

lemma sound_chain_distinct:
  assumes "sound_model cm" "chain_for cm key = Some (Inr ch)" "\<forall>gb \<in> set (group_buckets cm). gb_bucket_id gb \<noteq> vk_id key"
  shows "distinct (map cb_bucket_id (ch_buckets ch))"
proof -
  let ?f = "\<lambda>g. map gb_bucket_id (gr_buckets g)"
  have js: "distinct (ch_groups ch)" "\<forall>j \<in> set (ch_groups ch). j < length (cm_groups cm)"
    using assms(1,2) by (auto simp: sound_model_def)
  have "distinct (concat (map ?f (cm_groups cm)))"
    using assms(1) by (simp add: sound_model_def group_buckets_def map_concat comp_def)
  from concat_nth_distinct [OF this js]
  have d: "distinct (concat (map (\<lambda>j. ?f (cm_groups cm ! j)) (ch_groups ch)))" .
  have ids: "map cb_bucket_id (ch_buckets ch) = vk_id key # concat (map (\<lambda>j. ?f (cm_groups cm ! j)) (ch_groups ch))"
    by (simp add: chain_for_buckets [OF assms(2)] key_bucket_def map_concat comp_def)
  have "vk_id key \<notin> set (concat (map (\<lambda>j. ?f (cm_groups cm ! j)) (ch_groups ch)))"
    using assms(3) js(2) by (fastforce simp: group_buckets_def)
  then show ?thesis using d ids by simp
qed

end
