(* ===== verification/GovRuns.thy ===== *)
theory GovRuns
  imports GovAdmit GovFlush GovKeys CostSound
begin

text \<open>
  Runs of the governance runtime: any interleaving of admissions, releases of grants, refunds, usage
  accruals and flushes, at any times. The invariants are that no requests cap and no in-flight cap is
  ever exceeded and that the gauges count exactly the grants held.
\<close>

subsection \<open>Steps\<close>

inductive gov_step :: "'s Store \<Rightarrow> CostModel \<Rightarrow> nat \<Rightarrow> 's GovState \<times> AdmitGrant list \<Rightarrow> 's GovState \<times> AdmitGrant list \<Rightarrow> bool"
  for vt cm interval where
  Admit: "gov_step vt cm interval (s, gs) (s', grant # gs)"
    if "try_admit cm interval key pool now s = Some (Inr grant, s')" "\<not> starts_with (vk_id key) GROUP_BUCKET_PREFIX"
| Reject: "gov_step vt cm interval (s, gs) (s', gs)" if "try_admit cm interval key pool now s = Some (Inl e, s')"
| Release: "gov_step vt cm interval (s, gs @ grant # gs') (drop_admit_grant grant s, gs @ gs')"
| Refund: "gov_step vt cm interval (s, gs) (s', gs)" if "refund_request cm key pool now s = Some s'"
| Usage: "gov_step vt cm interval (s, gs) (s', gs)" if "record_usage cm key pool model tokens now s = Some s'"
| Flush: "gov_step vt cm interval (s, gs) (s', gs)" if "flush_budgets vt s = (n, s')"

inductive gov_reach :: "'s Store \<Rightarrow> CostModel \<Rightarrow> nat \<Rightarrow> 's GovState \<times> AdmitGrant list \<Rightarrow> bool" for vt cm interval where
  Start: "gv_budget s = sharded_new \<Longrightarrow> gv_concurrent s = [] \<Longrightarrow> gov_reach vt cm interval (s, [])"
| Step: "gov_reach vt cm interval x \<Longrightarrow> gov_step vt cm interval x y \<Longrightarrow> gov_reach vt cm interval y"

subsection \<open>A property of every cell\<close>

definition all_cells :: "(string \<Rightarrow> BudgetCell \<Rightarrow> bool) \<Rightarrow> BudgetCell MapShard list \<Rightarrow> bool" where
  "all_cells P B \<longleftrightarrow> budget_wf B \<and> (\<forall>k c. sh_get B k = Some c \<longrightarrow> P k c)"

text \<open>The cap of a bucket bounds its request count.\<close>

definition within_cap :: "CostModel \<Rightarrow> string \<Rightarrow> BudgetCell \<Rightarrow> bool" where
  "within_cap cm k c \<longleftrightarrow> (\<forall>cap. requests_capped cm k cap \<longrightarrow> bc_requests c \<le> cap)"

lemma all_cells_put: "all_cells P B \<Longrightarrow> P k c \<Longrightarrow> all_cells P (sh_put B k c)"
  by (auto simp: all_cells_def gm.wf_put gm.get_put)

lemma all_cells_acquire: "all_cells P B \<Longrightarrow> all_cells P (acquire_shards interval now bs B)"
  using acquire_shards_keep [of B] acquire_shards_wf [of B] by (auto simp: all_cells_def)

lemma all_cells_fold: "all_cells P B \<Longrightarrow> (\<And>x B. x \<in> set xs \<Longrightarrow> all_cells P B \<Longrightarrow> all_cells P (f x B)) \<Longrightarrow> all_cells P (fold f xs B)"
  by (induction xs arbitrary: B) auto

lemma within_cap_cong: "bc_requests c = bc_requests c' \<Longrightarrow> within_cap cm k c = within_cap cm k c'"
  by (simp add: within_cap_def)

lemma within_cap_live:
  assumes "all_cells (within_cap cm) B"
  shows "within_cap cm k (live_cell (sh_get B k) w)"
  using assms by (auto simp: live_cell_def all_cells_def within_cap_def cell_fresh_def split: option.splits)

lemma accrue_bucket_within:
  assumes "all_cells (within_cap cm) B"
  shows "all_cells (within_cap cm) (accrue_bucket k period model tokens now B)"
proof -
  have "within_cap cm k ((accrue model tokens (live_cell (sh_get B k) (budget_window period now)))\<lparr>bc_dirty := True\<rparr>)"
    using within_cap_live [OF assms] by (subst within_cap_cong) (auto simp: accrue_def Let_def)
  then show ?thesis using all_cells_put [OF assms] by (simp add: accrue_bucket_def Let_def)
qed

lemma refund_bucket_within:
  assumes "all_cells (within_cap cm) B"
  shows "all_cells (within_cap cm) (refund_bucket k period now B)"
proof -
  have "within_cap cm k (c\<lparr>bc_billable_requests := n, bc_dirty := True\<rparr>)" if "sh_get B k = Some c" for c n
    using assms that by (simp add: all_cells_def within_cap_def)
  then show ?thesis using assms all_cells_put [OF assms] by (auto simp: refund_bucket_def Let_def split: option.split)
qed

lemma charge_within:
  assumes "all_cells (within_cap cm) B" "distinct (map cb_bucket_id bs)"
    and "\<forall>b \<in> set bs. uncapped b \<or> blocked_metric cm now (sh_get B (cb_bucket_id b)) b = None"
    and "\<forall>b \<in> set bs. \<forall>cap. requests_capped cm (cb_bucket_id b) cap \<longrightarrow> cb_requests_cap b = Some cap"
  shows "all_cells (within_cap cm) (fold (charge_bucket now) bs B)"
proof -
  let ?B = "fold (\<lambda>b B. sh_put B (cb_bucket_id b) (charged now b (sh_get B (cb_bucket_id b)))) bs B"
  have wf: "budget_wf B" using assms(1) by (simp add: all_cells_def)
  have "within_cap cm k c" if c: "sh_get ?B k = Some c" for k c
  proof (cases "k \<in> cb_bucket_id ` set bs")
    case False
    then show ?thesis using gm.get_fold_other [OF wf, of k cb_bucket_id bs] c assms(1) by (simp add: all_cells_def)
  next
    case True
    then obtain b where b: "b \<in> set bs" "k = cb_bucket_id b" by blast
    then have "c = charged now b (sh_get B k)" using gm.get_fold [OF wf assms(2), of b "charged now"] c by simp
    then show ?thesis using passed_requests [of b cm now "sh_get B k"] assms(3,4) b by (auto simp: within_cap_def)
  qed
  then show ?thesis using gm.wf_fold [OF wf, of cb_bucket_id "charged now" bs] unfolding charge_fold all_cells_def by blast
qed

subsection \<open>Admission and flush\<close>

lemma group_free:
  assumes "sound_model cm" "\<not> starts_with i GROUP_BUCKET_PREFIX"
  shows "\<forall>gb \<in> set (group_buckets cm). gb_bucket_id gb \<noteq> i"
  using assms by (fastforce simp: sound_model_def starts_with_def)

lemma admit_within:
  assumes "sound_model cm" "all_cells (within_cap cm) (gv_budget s)"
    and "try_admit cm interval key pool now s = Some (r, s')" "\<forall>grant. r = Inr grant \<longrightarrow> \<not> starts_with (vk_id key) GROUP_BUCKET_PREFIX"
  shows "all_cells (within_cap cm) (gv_budget s')"
  using assms(3)
proof (cases rule: try_admit_cases)
  case (blocked ch e grant gauges)
  then show ?thesis using all_cells_acquire [OF assms(2)] by simp
next
  case (admitted ch grant gauges)
  let ?bs = "pool_buckets ch pool"
  have free: "\<forall>gb \<in> set (group_buckets cm). gb_bucket_id gb \<noteq> vk_id key"
    using group_free [OF assms(1)] assms(4) admitted(5) by blast
  have "distinct (map cb_bucket_id ?bs)"
    using sound_chain_distinct [OF assms(1) admitted(1) free] by (simp add: pool_buckets_def distinct_map_filter)
  moreover have "\<forall>b \<in> set ?bs. \<forall>cap. requests_capped cm (cb_bucket_id b) cap \<longrightarrow> cb_requests_cap b = Some cap"
    using sound_chain_cap [OF assms(1) admitted(1) _ _ free] by (auto simp: pool_buckets_def)
  ultimately show ?thesis
    using charge_within [OF all_cells_acquire [OF assms(2)]] admitted(4,6) by (simp add: check_buckets_none)
qed (use assms(2) in simp_all)

lemma flush_one_kept:
  assumes "all_cells (within_cap cm) (gv_budget s)" "flush_one vt snap (n, s) = (n', s')"
  shows "all_cells (within_cap cm) (gv_budget s') \<and> gv_concurrent s' = gv_concurrent s"
proof -
  obtain r st where o: "(if usage_delta_is_zero (ds_delta snap) then (Inr (), gv_store s)
      else add_usage vt (ds_bucket_id snap) (ds_window snap) (ds_delta snap) (gv_store s)) = (r, st)"
    by (cases "if usage_delta_is_zero (ds_delta snap) then (Inr (), gv_store s)
      else add_usage vt (ds_bucket_id snap) (ds_window snap) (ds_delta snap) (gv_store s)")
  let ?k = "ds_bucket_id snap"
  have "all_cells (within_cap cm) (sh_put (gv_budget s) ?k c')" if "sh_get (gv_budget s) ?k = Some c" "bc_requests c' = bc_requests c" for c c'
  proof (rule all_cells_put [OF assms(1)])
    show "within_cap cm ?k c'" using that assms(1) by (simp add: all_cells_def within_cap_def)
  qed
  then show ?thesis
    using assms unfolding flush_one_def Let_def old.prod.case o
    by (cases r; cases "sh_get (gv_budget s) ?k") (auto simp: ack_kept split: if_splits)
qed

lemma flush_fold_kept:
  "all_cells (within_cap cm) (gv_budget s) \<Longrightarrow> fold (flush_one vt) snaps (n, s) = (n', s')
   \<Longrightarrow> all_cells (within_cap cm) (gv_budget s') \<and> gv_concurrent s' = gv_concurrent s"
proof (induction snaps arbitrary: n s)
  case (Cons snap snaps)
  obtain n1 s1 where f: "flush_one vt snap (n, s) = (n1, s1)" by (cases "flush_one vt snap (n, s)")
  then show ?case using Cons.IH [of s1 n1] flush_one_kept [OF Cons.prems(1) f] Cons.prems(2) by simp
qed simp

lemma flush_kept:
  assumes "all_cells (within_cap cm) (gv_budget s)" "flush_budgets vt s = (n, s')"
  shows "all_cells (within_cap cm) (gv_budget s') \<and> gv_concurrent s' = gv_concurrent s"
proof -
  let ?s = "s\<lparr>gv_budget := snd (flush_snapshot (gv_budget s))\<rparr>"
  have wf: "budget_wf (gv_budget s)" using assms(1) by (simp add: all_cells_def)
  have "all_cells (within_cap cm) (gv_budget ?s)"
    using assms(1) flush_snapshot_wf [OF wf] flush_snapshot_get [OF wf] by (auto simp: all_cells_def within_cap_def undirty_def)
  moreover have "fold (flush_one vt) (fst (flush_snapshot (gv_budget s))) (0, ?s) = (n, s')"
    using assms(2) by (simp add: flush_budgets_def case_prod_unfold Let_def)
  ultimately show ?thesis using flush_fold_kept by fastforce
qed

subsection \<open>The invariant\<close>

definition total_held :: "AdmitGrant list \<Rightarrow> string \<Rightarrow> int" where
  "total_held gs k = sum_list (map (\<lambda>g. held g k) gs)"

definition gauges_match :: "CostModel \<Rightarrow> (string \<times> int) list \<Rightarrow> AdmitGrant list \<Rightarrow> bool" where
  "gauges_match cm gauges gs \<longleftrightarrow> (\<forall>k. gval gauges k = total_held gs k) \<and> (\<forall>k. total_held gs k \<le> i64_max)
     \<and> (\<forall>g \<in> set (cm_groups cm). \<forall>cap. gr_concurrent_cap g = Some cap \<longrightarrow> total_held gs (gr_name g) \<le> i64_of_nat cap)"

lemma total_held_nonneg: "0 \<le> total_held gs k"
  unfolding total_held_def by (rule sum_list_nonneg) auto

lemma total_held_simps [simp]:
  "total_held [] k = 0" "total_held (g # gs) k = held g k + total_held gs k"
  "total_held (gs @ gs') k = total_held gs k + total_held gs' k"
  by (simp_all add: total_held_def)

lemma gauges_match_ok: "gauges_match cm gauges gs \<Longrightarrow> gauges_ok gauges"
  using total_held_nonneg by (simp add: gauges_match_def gauges_ok_def)

lemma gauges_match_same:
  "gauges_match cm gauges gs \<Longrightarrow> (\<And>k. gval gauges' k = gval gauges k) \<Longrightarrow> gauges_match cm gauges' gs"
  by (simp add: gauges_match_def)

lemma sound_chain_caps:
  assumes "sound_model cm" "chain_for cm key = Some (Inr ch)" "g \<in> set (cm_groups cm)" "gr_concurrent_cap g = Some cap"
  shows "\<forall>i \<in> set (ch_groups ch). gr_name (cm_groups cm ! i) = gr_name g \<longrightarrow> gr_concurrent_cap (cm_groups cm ! i) = Some cap"
proof (intro ballI impI)
  fix i assume i: "i \<in> set (ch_groups ch)" "gr_name (cm_groups cm ! i) = gr_name g"
  then have "cm_groups cm ! i \<in> set (cm_groups cm)" using assms(1,2) by (auto simp: sound_model_def)
  then have "cm_groups cm ! i = g" using assms(1,3) i(2) by (auto simp: sound_model_def distinct_map inj_on_def)
  then show "gr_concurrent_cap (cm_groups cm ! i) = Some cap" using assms(4) by simp
qed

lemma admit_gauges:
  assumes "sound_model cm" "gauges_match cm (gv_concurrent s) gs" "try_admit cm interval key pool now s = Some (r, s')"
  shows "gauges_match cm (gv_concurrent s') (case r of Inr grant \<Rightarrow> grant # gs | Inl e \<Rightarrow> gs)"
  using assms(3)
proof (cases rule: try_admit_cases)
  case (full ch e gauges)
  then show ?thesis
    using gauges_match_same [OF assms(2)] take_from_empty(1) [OF full(2) gauges_match_ok [OF assms(2)] refl] by simp
next
  case (blocked ch e grant gauges)
  then show ?thesis
    using gauges_match_same [OF assms(2)] drop_taken [OF blocked(2) gauges_match_ok [OF assms(2)]] by simp
next
  case (admitted ch grant gauges)
  note t = take_from_empty(2) [OF admitted(3) gauges_match_ok [OF assms(2)] refl]
  have "gval gauges (gr_name g) \<le> i64_of_nat cap" if "g \<in> set (cm_groups cm)" "gr_concurrent_cap g = Some cap" for g cap
    using take_gauges_cap [OF admitted(3) sound_chain_caps [OF assms(1) admitted(1) that]] assms(2) that
    by (simp add: gauges_match_def)
  moreover have "gval gauges k = total_held (grant # gs) k" for k using t [of k] assms(2) by (simp add: gauges_match_def)
  moreover from this have "total_held (grant # gs) k \<le> i64_max" for k using t [of k] by metis
  ultimately show ?thesis using admitted(5,6) by (simp add: gauges_match_def)
qed (use assms(2) in simp_all)

lemma release_gauges:
  assumes "gauges_match cm (gv_concurrent s) (gs @ grant # gs')"
  shows "gauges_match cm (gv_concurrent (drop_admit_grant grant s)) (gs @ gs')"
proof -
  have v: "gval (drop_grant grant (gv_concurrent s)) k = gval (gv_concurrent s) k - held grant k" for k
  proof (rule drop_grant_val, intro allI)
    fix k
    show "held grant k \<le> gval (gv_concurrent s) k \<and> gval (gv_concurrent s) k \<le> i64_max"
      using assms total_held_nonneg [of gs k] total_held_nonneg [of gs' k] by (simp add: gauges_match_def)
  qed
  have "total_held (gs @ gs') k \<le> x" if "total_held (gs @ grant # gs') k \<le> x" for k x
    using that held_nonneg [of grant k] unfolding total_held_simps by linarith
  then show ?thesis using assms v unfolding gauges_match_def drop_admit_grant_def by auto
qed

definition gov_inv :: "CostModel \<Rightarrow> 's GovState \<times> AdmitGrant list \<Rightarrow> bool" where
  "gov_inv cm x \<longleftrightarrow> all_cells (within_cap cm) (gv_budget (fst x)) \<and> gauges_match cm (gv_concurrent (fst x)) (snd x)"

lemma refund_kept:
  assumes "all_cells (within_cap cm) (gv_budget s)" "refund_request cm' key pool now s = Some s'"
  shows "all_cells (within_cap cm) (gv_budget s') \<and> gv_concurrent s' = gv_concurrent s"
  using assms refund_bucket_within
  by (auto simp: refund_request_def split: bind_splits sum.splits intro!: all_cells_fold)

lemma usage_kept:
  assumes "all_cells (within_cap cm) (gv_budget s)" "record_usage cm' key pool model tokens now s = Some s'"
  shows "all_cells (within_cap cm) (gv_budget s') \<and> gv_concurrent s' = gv_concurrent s"
  using assms accrue_bucket_within
  by (auto simp: record_usage_def split: if_splits bind_splits sum.splits intro!: all_cells_fold)

lemma gov_step_inv: "sound_model cm \<Longrightarrow> gov_inv cm x \<Longrightarrow> gov_step vt cm interval x y \<Longrightarrow> gov_inv cm y"
proof -
  assume sound: "sound_model cm" and inv: "gov_inv cm x" and step: "gov_step vt cm interval x y"
  from step show "gov_inv cm y"
  proof (cases rule: gov_step.cases)
    case (Admit key pool now s grant s' gs)
    then show ?thesis
      using inv admit_within [OF sound _ Admit(3)] admit_gauges [OF sound _ Admit(3), of gs] by (simp add: gov_inv_def)
  next
    case (Reject key pool now s e s' gs)
    then show ?thesis
      using inv admit_within [OF sound _ Reject(3)] admit_gauges [OF sound _ Reject(3), of gs] by (simp add: gov_inv_def)
  next
    case (Release s gs1 grant gs2)
    then show ?thesis using inv release_gauges [of cm s gs1 grant gs2] by (simp add: gov_inv_def drop_admit_grant_def)
  next
    case (Refund key pool now s s' gs)
    then show ?thesis using inv refund_kept [OF _ Refund(3), of cm] by (simp add: gov_inv_def)
  next
    case (Usage key pool model tokens now s s' gs)
    then show ?thesis using inv usage_kept [OF _ Usage(3), of cm] by (simp add: gov_inv_def)
  next
    case (Flush s n s' gs)
    then show ?thesis using inv flush_kept [OF _ Flush(3), of cm] by (simp add: gov_inv_def)
  qed
qed

lemma gov_reach_inv: "gov_reach vt cm interval x \<Longrightarrow> sound_model cm \<Longrightarrow> gov_inv cm x"
proof (induction rule: gov_reach.induct)
  case (Start s)
  then show ?case
    by (simp add: gov_inv_def all_cells_def budget_wf_new gauges_match_def gval_def i64_max_def i64_of_nat_def)
next
  case (Step x y)
  then show ?case using gov_step_inv by blast
qed


subsection \<open>The limits hold in every run\<close>

text \<open>
  Claim C36. No requests cap is ever exceeded. Take any validated \<open>groups:\<close> tree without at signs in its
  names and any interleaving of admissions, rejections, releases, refunds, accruals and flushes, at
  any times and for any keys: in every ledger cell of a bucket with a requests cap the
  request count is at most the cap.
\<close>

theorem requests_cap_never_exceeded:
  assumes "valid_tree cfg" "gov_reach vt (resolve_parts rate_card fee cfg) interval (s, grants)"
    and "sh_get (gv_budget s) k = Some c" "requests_capped (resolve_parts rate_card fee cfg) k cap"
  shows "bc_requests c \<le> cap"
  using gov_reach_inv [OF assms(2) valid_tree_sound [OF assms(1)]] assms(3,4)
  by (simp add: gov_inv_def all_cells_def within_cap_def)

text \<open>
  Claim C37. The in-flight gauges never leak and never exceed their cap: in every such run the gauge of a
  group is the number of grants held under it, which is never above the group's concurrent cap, and
  it is back at zero once every grant is released.
\<close>

theorem in_flight_gauges_exact:
  assumes "valid_tree cfg" "gov_reach vt (resolve_parts rate_card fee cfg) interval (s, grants)"
  shows "gval (gv_concurrent s) k = sum_list (map (\<lambda>g. int (count_list (ag_gauges g) k)) grants)
    \<and> (\<forall>g \<in> set (cm_groups (resolve_parts rate_card fee cfg)). \<forall>cap. gr_name g = k \<and> gr_concurrent_cap g = Some cap
         \<longrightarrow> gval (gv_concurrent s) k \<le> int cap)
    \<and> (grants = [] \<longrightarrow> gval (gv_concurrent s) k = 0)"
proof -
  have m: "gauges_match (resolve_parts rate_card fee cfg) (gv_concurrent s) grants"
    using gov_reach_inv [OF assms(2) valid_tree_sound [OF assms(1)]] by (simp add: gov_inv_def)
  have "i64_of_nat cap \<le> int cap" for cap by (simp add: i64_of_nat_def)
  then show ?thesis using m unfolding gauges_match_def total_held_def held_def by (fastforce intro: order_trans)
qed

lemma example_tree: "valid_tree example_groups"
  by (simp add: valid_tree_def example_groups_def validate_groups_def validate_group_def limit_errors_def)

lemma example_run:
  "\<exists>s c. gov_reach memory_store example_cost 1000 (s, [\<lparr>ag_gauges = [''team'']\<rparr>]) \<and> sh_get (gv_budget s) ''group:team@day'' = Some c"
proof -
  obtain s' c where a: "try_admit example_cost 1000 example_key ''p'' 0 example_state = Some (Inr \<lparr>ag_gauges = [''team'']\<rparr>, s')"
    "sh_get (gv_budget s') ''group:team@day'' = Some c"
    using example_admit by blast
  have "gov_reach memory_store example_cost 1000 (example_state, [])"
    by (rule gov_reach.Start) (simp_all add: example_state_def)
  moreover have "\<not> starts_with (vk_id example_key) GROUP_BUCKET_PREFIX"
    by (simp add: example_key_def starts_with_def GROUP_BUCKET_PREFIX_def)
  ultimately show ?thesis using gov_reach.Step gov_step.Admit [OF a(1)] a(2) by blast
qed

theorem requests_cap_never_exceeded_witness:
  "\<exists>s c. gov_reach memory_store example_cost 1000 (s, [\<lparr>ag_gauges = [''team'']\<rparr>])
     \<and> sh_get (gv_budget s) ''group:team@day'' = Some c \<and> bc_requests c \<le> 2"
proof -
  have "requests_capped example_cost ''group:team@day'' 2" by code_simp
  then show ?thesis
    using example_run requests_cap_never_exceeded [OF example_tree, folded example_cost_def] unfolding example_cost_def by metis
qed

theorem in_flight_gauges_exact_witness:
  "\<exists>s. gov_reach memory_store example_cost 1000 (s, [\<lparr>ag_gauges = [''team'']\<rparr>]) \<and> gval (gv_concurrent s) ''team'' = 1"
proof -
  obtain s where r: "gov_reach memory_store example_cost 1000 (s, [\<lparr>ag_gauges = [''team'']\<rparr>])" using example_run by blast
  have "gval (gv_concurrent s) ''team'' = 1"
    using in_flight_gauges_exact [OF example_tree r [unfolded example_cost_def], of "''team''"] by simp
  then show ?thesis using r by blast
qed

end
