(* ===== verification/GovAuth.thy ===== *)
theory GovAuth
  imports GovKeys CostChain
begin

text \<open>
  Authentication: what a signed token that verifies has proved, that a freshly minted one does, and
  that a revoked, disabled or deleted key authenticates nobody; the synthesized key of a principal
  and the shape of generated AWS credentials. The laws of the cryptography and of the codecs are the
  hypothesis \<open>crypto_laws\<close>.
\<close>

subsection \<open>Caches\<close>

lemma collect_get:
  "al_get (fold (\<lambda>(k, v) m. al_put m k v) xs m) k = (case al_get (rev xs) k of Some v \<Rightarrow> Some v | None \<Rightarrow> al_get m k)"
proof (induction xs arbitrary: m)
  case (Cons x xs)
  have app: "al_get (ys @ [(a, b)]) k = (case al_get ys k of Some v \<Rightarrow> Some v | None \<Rightarrow> if a = k then Some b else None)" for ys a b
    by (induction ys) auto
  show ?case using Cons.IH by (cases x) (auto simp: app split: option.split)
qed simp

lemma collect_map_get: "al_get (collect_map xs) k = al_get (rev xs) k"
  by (simp add: collect_map_def collect_get split: option.split)

lemma collect_map_distinct: "distinct (map fst (collect_map xs))"
proof -
  have "distinct (map fst m) \<Longrightarrow> distinct (map fst (fold (\<lambda>(k, v) m. al_put m k v) xs m))" for m
    by (induction xs arbitrary: m) (auto simp: distinct_al_put)
  then show ?thesis by (simp add: collect_map_def)
qed

lemma collect_map_mem: "(k, v) \<in> set (collect_map xs) \<Longrightarrow> (k, v) \<in> set xs"
  using mem_al_get [OF collect_map_distinct] al_get_mem [of "rev xs" k v] by (metis collect_map_get set_rev)

lemma collect_map_only:
  assumes "(k, v) \<in> set xs" "\<forall>v'. (k, v') \<in> set xs \<longrightarrow> v' = v"
  shows "(k, v) \<in> set (collect_map xs)"
proof -
  have "al_get (rev xs) k \<noteq> None" using assms(1) al_get_None [of "rev xs" k] by force
  then obtain v' where "al_get (rev xs) k = Some v'" by blast
  then have "v' = v" using assms(2) al_get_mem [of "rev xs" k v'] by simp
  with \<open>al_get (rev xs) k = Some v'\<close> show ?thesis using al_get_mem [of "collect_map xs" k v] by (simp add: collect_map_get)
qed

lemma write_and_refresh_ok:
  assumes "write_and_refresh vt w s = (Inr u, s')"
  obtains ks v where "w (gv_store s) = (Inr v, gv_store s')" "list_keys vt (gv_store s') = Inr ks"
    "gv_by_hash s' = collect_map (map (\<lambda>k. (vk_key_hash k, k)) ks)"
    "load_by_access_key_id vt (gv_store s') (gv_by_hash s') = Inr (gv_by_access_key_id s')"
    "gv_denylist s' = gv_denylist s"
  using assms
  by (auto simp: write_and_refresh_def refresh_def gov_load_def split: sum.splits prod.splits intro!: that)

lemma lookup_by_sub_some: "lookup_by_sub i s = Some k \<Longrightarrow> vk_id k = i \<and> k \<in> snd ` set (gv_by_hash s)"
  by (auto simp: lookup_by_sub_def find_Some_iff)

text \<open>A cached key is one the store listed at the last refresh.\<close>

lemma cached_listed:
  assumes "gv_by_hash s = collect_map (map (\<lambda>k. (vk_key_hash k, k)) ks)" "k \<in> snd ` set (gv_by_hash s)"
  shows "k \<in> set ks"
proof -
  obtain h where "(h, k) \<in> set (gv_by_hash s)" using assms(2) by auto
  then have "(h, k) \<in> set (map (\<lambda>k. (vk_key_hash k, k)) ks)" unfolding assms(1) by (rule collect_map_mem)
  then show ?thesis by auto
qed

lemma cached_akid_listed:
  assumes "load_by_access_key_id vt st by_hash = Inr m" "al_get m akid = Some e"
  shows "ake_key e \<in> snd ` set by_hash"
proof -
  let ?by = "collect_map (map (\<lambda>(_, k). (vk_id k, k)) by_hash)"
  let ?f = "\<lambda>cred m. case al_get ?by (ac_key_id cred) of
      Some key \<Rightarrow> al_put m (ac_access_key_id cred) \<lparr>ake_key = key, ake_secret_access_key = ac_secret_access_key cred\<rparr> | None \<Rightarrow> m"
  have byid: "key \<in> snd ` set by_hash" if "al_get ?by i = Some key" for i key
    using collect_map_mem [OF al_get_mem [OF that]] by force
  have "(\<forall>a e. al_get m a = Some e \<longrightarrow> ake_key e \<in> snd ` set by_hash)
      \<Longrightarrow> (\<forall>a e. al_get (fold ?f creds m) a = Some e \<longrightarrow> ake_key e \<in> snd ` set by_hash)" for creds m
  proof (induction creds arbitrary: m)
    case (Cons cr creds)
    have "\<forall>a e. al_get (?f cr m) a = Some e \<longrightarrow> ake_key e \<in> snd ` set by_hash"
      using Cons.prems by (auto split: option.splits dest: byid)
    then show ?case using Cons.IH [of "?f cr m"] by simp
  qed simp
  note loop = this
  obtain creds where c: "list_aws_credentials vt st = Inr creds"
    using assms(1) by (cases "list_aws_credentials vt st") (simp_all add: load_by_access_key_id_def Let_def)
  have "m = fold ?f creds []" using assms(1) by (simp add: load_by_access_key_id_def Let_def c)
  then show ?thesis using loop [of "[]" creds] assms(2) by simp
qed

subsection \<open>Tokens\<close>

text \<open>
  What the code relies on: a signature of a key verifies under its verifying key and is 64 bytes long
  (Ed25519), the claims and the base64 codec decode what they encode, and base64url has no dot.
\<close>

definition crypto_laws :: "('k, 'v) Crypto \<Rightarrow> bool" where
  "crypto_laws cr \<longleftrightarrow> (\<forall>k m. cr_verify cr (cr_verifying_key cr k) m (cr_sign cr k m)) \<and> (\<forall>k m. length (cr_sign cr k m) = 64)
     \<and> (\<forall>c. cr_from_slice cr (cr_to_vec cr c) = Some c) \<and> (\<forall>x. cr_b64_decode cr (cr_b64_encode cr x) = Some x)
     \<and> (\<forall>x. CHR ''.'' \<notin> set (cr_b64_encode cr x))"

lemma minted_token_verifies:
  assumes "crypto_laws cr" "al_get keys (ts_kid sg) = Some (cr_verifying_key cr (ts_key sg))"
  shows "token_verify cr keys (mint_token cr sg sub expiry) now =
    (if expiry \<le> now then Inl Expired else Inr \<lparr>tc_sub = sub, tc_exp = expiry, tc_kid = ts_kid sg\<rparr>)"
proof -
  define payload where "payload = cr_to_vec cr \<lparr>tc_sub = sub, tc_exp = expiry, tc_kid = ts_kid sg\<rparr>"
  have tok: "mint_token cr sg sub expiry = TOKEN_PREFIX @ (cr_b64_encode cr payload @ CHR ''.'' # cr_b64_encode cr (cr_sign cr (ts_key sg) payload))"
    by (simp add: mint_token_def Let_def payload_def)
  have "CHR ''.'' \<notin> set (cr_b64_encode cr payload)" using assms(1) by (simp add: crypto_laws_def)
  note sp = split_once_append [OF this]
  have "cr_from_slice cr payload = Some \<lparr>tc_sub = sub, tc_exp = expiry, tc_kid = ts_kid sg\<rparr>"
    using assms(1) by (simp add: crypto_laws_def payload_def)
  then show ?thesis
    using assms unfolding token_verify_def tok strip_prefix_append by (simp add: sp crypto_laws_def)
qed

lemma verify_token_some:
  assumes "verify_token cr v token now s = Some key"
  obtains keys claims where "v = Some keys" "token_verify cr keys token now = Inr claims" "tc_sub claims \<notin> set (gv_denylist s)"
    "vk_id key = tc_sub claims" "vk_enabled key" "key \<in> snd ` set (gv_by_hash s)"
  using assms
  by (auto simp: verify_token_def split: option.splits sum.splits if_splits dest!: lookup_by_sub_some intro!: that)

lemma token_verify_some:
  assumes "token_verify cr keys token now = Inr claims"
  obtains p64 s64 payload sig vk where "token = TOKEN_PREFIX @ p64 @ CHR ''.'' # s64" "cr_b64_decode cr p64 = Some payload"
    "cr_b64_decode cr s64 = Some sig" "length sig = 64" "cr_from_slice cr payload = Some claims"
    "al_get keys (tc_kid claims) = Some vk" "cr_verify cr vk payload sig" "now < tc_exp claims"
proof -
  obtain body where b: "strip_prefix TOKEN_PREFIX token = Some body"
    using assms by (cases "strip_prefix TOKEN_PREFIX token") (auto simp: token_verify_def)
  then obtain p64 s64 where ps: "split_once (CHR ''.'') body = Some (p64, s64)"
    using assms by (cases "split_once (CHR ''.'') body") (auto simp: token_verify_def)
  have "token = TOKEN_PREFIX @ body"
    using b by (auto simp: strip_prefix_def split: if_splits) (metis append_take_drop_id)
  then have t: "token = TOKEN_PREFIX @ p64 @ CHR ''.'' # s64" using split_once_some [OF ps] by simp
  have "\<exists>payload sig vk. cr_b64_decode cr p64 = Some payload \<and> cr_b64_decode cr s64 = Some sig \<and> length sig = 64
      \<and> cr_from_slice cr payload = Some claims \<and> al_get keys (tc_kid claims) = Some vk \<and> cr_verify cr vk payload sig
      \<and> now < tc_exp claims"
    using assms unfolding token_verify_def b option.case ps by (auto split: option.splits if_splits)
  then show thesis using t that by blast
qed

subsection \<open>A concrete instance of the laws\<close>

text \<open>Codecs by unary runs and a constant signature: enough for the laws, and nothing more.\<close>

definition run :: "nat \<Rightarrow> string" where
  "run n = replicate n (CHR ''a'') @ ''b''"

fun unary_encode :: "string \<Rightarrow> string" where
  "unary_encode [] = []"
| "unary_encode (c # cs) = run (of_char c) @ unary_encode cs"

fun unary_decode :: "nat \<Rightarrow> string \<Rightarrow> string option" where
  "unary_decode n [] = Some []"
| "unary_decode n (x # xs) = (if x = CHR ''a'' then unary_decode (Suc n) xs else map_option ((#) (char_of n)) (unary_decode 0 xs))"

definition run_split :: "string \<Rightarrow> nat \<times> string" where
  "run_split s = (length (takeWhile (\<lambda>c. c = CHR ''a'') s), tl (dropWhile (\<lambda>c. c = CHR ''a'') s))"

definition toy_crypto :: "(unit, unit) Crypto" where
  "toy_crypto = \<lparr>cr_verifying_key = \<lambda>k. k, cr_sign = \<lambda>k m. replicate 64 (CHR ''s''),
     cr_verify = \<lambda>v m sig. sig = replicate 64 (CHR ''s''),
     cr_to_vec = \<lambda>c. run (length (tc_sub c)) @ tc_sub c @ run (tc_exp c) @ tc_kid c,
     cr_from_slice = \<lambda>s. let (n, r) = run_split s; (e, kid) = run_split (drop n r) in Some \<lparr>tc_sub = take n r, tc_exp = e, tc_kid = kid\<rparr>,
     cr_b64_encode = unary_encode, cr_b64_decode = unary_decode 0\<rparr>"

lemma run_split_run: "run_split (run n @ x) = (n, x)"
  by (induction n) (simp_all add: run_split_def run_def)

lemma unary_decode_run: "unary_decode n (run k @ x) = map_option ((#) (char_of (n + k))) (unary_decode 0 x)"
  by (induction k arbitrary: n) (simp_all add: run_def)

lemma unary_round_trip: "unary_decode 0 (unary_encode x) = Some x"
  by (induction x) (simp_all add: unary_decode_run)

lemma unary_no_dot: "CHR ''.'' \<notin> set (unary_encode x)"
  by (induction x) (auto simp: run_def)

lemma toy_laws: "crypto_laws toy_crypto"
  by (simp add: crypto_laws_def toy_crypto_def unary_round_trip unary_no_dot run_split_run)

definition auth_gov :: "MemoryStore GovState" where
  "auth_gov = \<lparr>gv_store = memory_store_new\<lparr>ms_keys := [(''vk_1'', example_key)]\<rparr>, gv_by_hash = [(''h'', example_key)],
     gv_by_access_key_id = [], gv_concurrent = [], gv_admin_token_hash = None, gv_budget = sharded_new, gv_denylist = []\<rparr>"

definition toy_signer :: "unit TokenSigner" where
  "toy_signer = \<lparr>ts_key = (), ts_kid = ''k1''\<rparr>"

lemma auth_gov_ok:
  "mem_wf (gv_store auth_gov)" "list_keys memory_store (gv_store auth_gov) = Inr [example_key]"
  "list_denylist memory_store (gv_store auth_gov) = Inr []"
  by (simp_all add: auth_gov_def mem_wf_def example_key_def memory_store_ops memory_store_new_def)

text \<open>
  A freshly minted token authenticates its key until it expires and no longer. After a
  successful \<open>mint_signed\<close> with a signer whose verifying key the verifier knows, the returned token
  verifies, at every time before its expiry, to exactly the returned key, and at no later time;
  provided no other key has its hash and its id is not denylisted.
\<close>

theorem minted_token_authenticates:
  assumes "crypto_laws cr" "durable_store vt II" "II (gv_store s)" "list_keys vt (gv_store s) = Inr ks"
    and "mint_signed cr (Some sg) vt spec raw expiry now s = (Inr (key, token), s')"
    and "al_get keys (ts_kid sg) = Some (cr_verifying_key cr (ts_key sg))"
    and "\<forall>k \<in> set ks. vk_key_hash k = vk_key_hash key \<longrightarrow> vk_id k = vk_id key" "vk_id key \<notin> set (gv_denylist s)"
  shows "verify_token cr (Some keys) token t s' = (if expiry \<le> t then None else Some key)"
proof -
  obtain r where raw: "raw = Some r" using assms(5) by (cases raw) (auto simp: mint_signed_def)
  define i where "i = VK_ID_PREFIX @ hex_encode r"
  have w: "write_and_refresh vt (put_key vt key) s = (Inr (), s')" and token: "token = mint_token cr sg i expiry"
    and key: "key = spec_key spec i (''binding:'' @ i) now"
    using assms(5) by (auto simp: mint_signed_def raw Let_def i_def split: prod.splits sum.splits)
  obtain ks' u where put: "put_key vt key (gv_store s) = (Inr u, gv_store s')" and ks': "list_keys vt (gv_store s') = Inr ks'"
    and cache: "gv_by_hash s' = collect_map (map (\<lambda>k. (vk_key_hash k, k)) ks')"
    and "load_by_access_key_id vt (gv_store s') (gv_by_hash s') = Inr (gv_by_access_key_id s')"
    and deny: "gv_denylist s' = gv_denylist s"
    by (rule write_and_refresh_ok [OF w])
  have set: "set ks' = insert key {k' \<in> set ks. vk_id k' \<noteq> vk_id key}"
    using durable_store.put_key_ok [OF assms(2,3) put assms(4)] ks' by auto
  have "(vk_key_hash key, key) \<in> set (gv_by_hash s')"
    unfolding cache by (rule collect_map_only) (use set assms(7) in auto)
  then have "find (\<lambda>k. vk_id k = vk_id key) (map snd (gv_by_hash s')) \<noteq> None"
    unfolding find_None_iff by force
  then obtain k where k: "lookup_by_sub (vk_id key) s' = Some k" by (auto simp: lookup_by_sub_def)
  then have "vk_id k = vk_id key" "k \<in> set ks'" using lookup_by_sub_some [OF k] cached_listed [OF cache] by blast+
  then have "k = key" using set by auto
  moreover have "vk_id key = i" "vk_enabled key" by (simp_all add: key spec_key_def)
  ultimately show ?thesis
    using k assms(8) deny minted_token_verifies [OF assms(1,6)] by (simp add: verify_token_def token)
qed

theorem minted_token_authenticates_witness:
  "\<exists>key token s'. mint_signed toy_crypto (Some toy_signer) memory_store \<lparr>nk_name = ''n'', nk_allowed_pools = None, nk_group = None, nk_labels = []\<rparr>
       (Some [255]) 10 0 auth_gov = (Inr (key, token), s')
     \<and> verify_token toy_crypto (Some [(''k1'', ())]) token 5 s' = Some key
     \<and> verify_token toy_crypto (Some [(''k1'', ())]) token 10 s' = None"
proof -
  let ?spec = "\<lparr>nk_name = ''n'', nk_allowed_pools = None, nk_group = None, nk_labels = []\<rparr>"
  obtain key token s' where m: "mint_signed toy_crypto (Some toy_signer) memory_store ?spec (Some [255]) 10 0 auth_gov = (Inr (key, token), s')"
    and id: "vk_key_hash key = ''binding:vk_ff''" "vk_id key = ''vk_ff''"
    by (auto simp: mint_signed_def write_and_refresh_def refresh_def gov_load_def load_by_access_key_id_def memory_store_ops
        spec_key_def hex_encode_def hex_digit_def VK_ID_PREFIX_def Let_def)
  have "\<forall>k \<in> set [example_key]. vk_key_hash k = vk_key_hash key \<longrightarrow> vk_id k = vk_id key" "vk_id key \<notin> set (gv_denylist auth_gov)"
    "al_get [(''k1'', ())] (ts_kid toy_signer) = Some (cr_verifying_key toy_crypto (ts_key toy_signer))"
    by (simp_all add: id example_key_def auth_gov_def toy_signer_def)
  then show ?thesis
    using m minted_token_authenticates [OF toy_laws mem.durable_store_axioms auth_gov_ok(1,2) m, of "[(''k1'', ())]" 5]
      minted_token_authenticates [OF toy_laws mem.durable_store_axioms auth_gov_ok(1,2) m, of "[(''k1'', ())]" 10]
    by auto
qed

text \<open>
  A token is accepted only for what it proves: an accepted token has the prefix and two base64
  parts around its first dot, its second part is a 64-byte signature of the first under the key that the
  verifier has for the claimed \<open>kid\<close>, it has not expired, its subject is not denylisted, and the
  key it authenticates is the enabled key of that subject.
\<close>

theorem accepted_token_is_authentic:
  assumes "verify_token cr verifier token now s = Some key"
  shows "\<exists>keys p64 s64 payload sig claims vk. verifier = Some keys \<and> token = ''bbk_'' @ p64 @ ''.'' @ s64
    \<and> cr_b64_decode cr p64 = Some payload \<and> cr_b64_decode cr s64 = Some sig \<and> length sig = 64
    \<and> cr_from_slice cr payload = Some claims \<and> al_get keys (tc_kid claims) = Some vk \<and> cr_verify cr vk payload sig
    \<and> now < tc_exp claims \<and> \<not> is_revoked (tc_sub claims) s \<and> vk_id key = tc_sub claims \<and> vk_enabled key
    \<and> key \<in> snd ` set (gv_by_hash s)"
proof -
  obtain keys claims where v: "verifier = Some keys" "token_verify cr keys token now = Inr claims"
    "tc_sub claims \<notin> set (gv_denylist s)" "vk_id key = tc_sub claims" "vk_enabled key" "key \<in> snd ` set (gv_by_hash s)"
    using verify_token_some [OF assms] .
  show ?thesis
    using token_verify_some [OF v(2)] v(1,3-) unfolding is_revoked_def TOKEN_PREFIX_def
    by (metis append_Cons append_Nil)
qed

theorem accepted_token_is_authentic_witness:
  "\<exists>p64 s64 sig. mint_token toy_crypto toy_signer ''vk_1'' 10 = ''bbk_'' @ p64 @ ''.'' @ s64
     \<and> cr_b64_decode toy_crypto s64 = Some sig \<and> length sig = 64 \<and> \<not> is_revoked ''vk_1'' auth_gov"
proof -
  have "al_get [(''k1'', ())] (ts_kid toy_signer) = Some (cr_verifying_key toy_crypto (ts_key toy_signer))" by (simp add: toy_signer_def)
  from minted_token_verifies [OF toy_laws this, of "''vk_1''" 10 5]
  have "verify_token toy_crypto (Some [(''k1'', ())]) (mint_token toy_crypto toy_signer ''vk_1'' 10) 5 auth_gov = Some example_key"
    by (simp add: verify_token_def auth_gov_def lookup_by_sub_def example_key_def)
  note accepted = accepted_token_is_authentic [OF this]
  have "vk_id example_key = ''vk_1''" by (simp add: example_key_def)
  with accepted show ?thesis
    by (elim exE conjE) (intro exI conjI, assumption, assumption, assumption, simp)
qed

text \<open>No token authenticates the key with this id.\<close>

definition shut_out :: "('k, 'v) Crypto \<Rightarrow> 'v TokenVerifier option \<Rightarrow> 's GovState \<Rightarrow> string \<Rightarrow> bool" where
  "shut_out cr verifier s i \<longleftrightarrow> (\<forall>token now key. verify_token cr verifier token now s = Some key \<longrightarrow> vk_id key \<noteq> i)"

lemma shut_out_denied: "i \<in> set (gv_denylist s) \<Longrightarrow> shut_out cr v s i"
  unfolding shut_out_def by (metis verify_token_some)

lemma shut_out_cached: "(\<And>k. k \<in> snd ` set (gv_by_hash s) \<Longrightarrow> vk_id k = i \<Longrightarrow> \<not> vk_enabled k) \<Longrightarrow> shut_out cr v s i"
  unfolding shut_out_def by (metis verify_token_some)



subsection \<open>Principals\<close>

lemma insert_pools: "set (foldl (\<lambda>acc p. if p \<in> set acc then acc else acc @ [p]) pools ps) = set pools \<union> set ps"
  by (induction ps arbitrary: pools) (auto split: if_splits)

lemma union_pools_set: "p \<in> set (union_pools bs) \<longleftrightarrow> (\<exists>b \<in> set bs. \<exists>ps. rb_allowed_pools b = Some ps \<and> p \<in> set ps)"
proof -
  have "p \<in> set (foldl (\<lambda>pools b. case rb_allowed_pools b of None \<Rightarrow> pools
        | Some ps \<Rightarrow> foldl (\<lambda>acc p. if p \<in> set acc then acc else acc @ [p]) pools ps) acc bs)
      \<longleftrightarrow> p \<in> set acc \<or> (\<exists>b \<in> set bs. \<exists>ps. rb_allowed_pools b = Some ps \<and> p \<in> set ps)" for acc
    by (induction bs arbitrary: acc) (auto simp: insert_pools split: option.splits)
  then show ?thesis by (simp add: union_pools_def)
qed

lemma mem_map_filter: "y \<in> set (List.map_filter f xs) \<longleftrightarrow> (\<exists>x \<in> set xs. f x = Some y)"
  by (force simp: List.map_filter_def)

text \<open>
  The synthesized key of a role-carrying principal grants exactly the union of its roles and
  fails closed: there is a key only if the principal's id is in neither reserved namespace and some role
  of it is bound and grants a pool; the key may target a pool exactly when some bound role grants it
  (a binding without a pool list grants all), so an unbound role and an empty list grant nothing.
\<close>

theorem principal_key_exact:
  "case synthesize_principal_key p bindings of
     Some k \<Rightarrow> \<exists>table. bindings = Some table \<and> vk_id k = pr_id p
       \<and> \<not> starts_with (vk_id k) ''group:'' \<and> \<not> starts_with (vk_id k) ''vk_''
       \<and> (\<forall>pool. pool_allowed k pool \<longleftrightarrow> (\<exists>role \<in> set (pr_roles p). \<exists>b. al_get table role = Some b
             \<and> (rb_allowed_pools b = None \<or> (\<exists>ps. rb_allowed_pools b = Some ps \<and> pool \<in> set ps))))
       \<and> (\<exists>pool. pool_allowed k pool)
   | None \<Rightarrow> starts_with (pr_id p) ''group:'' \<or> starts_with (pr_id p) ''vk_'' \<or> bindings = None
       \<or> (\<forall>table role b. bindings = Some table \<and> role \<in> set (pr_roles p) \<and> al_get table role = Some b
             \<longrightarrow> rb_allowed_pools b = Some [])"
proof -
  define gs :: "(string \<times> RoleBindingCfg) list \<Rightarrow> RoleBindingCfg list"
    where "gs table = List.map_filter (al_get table) (pr_roles p)" for table
  have gs: "b \<in> set (gs table) \<longleftrightarrow> (\<exists>role \<in> set (pr_roles p). al_get table role = Some b)" for table b
    by (simp add: gs_def mem_map_filter)
  have all: "list_ex (\<lambda>b. rb_allowed_pools b = None) (gs table) \<longleftrightarrow> (\<exists>b \<in> set (gs table). rb_allowed_pools b = None)" for table
    by (simp add: list_ex_iff)
  show ?thesis
  proof (cases "synthesize_principal_key p bindings")
    case None
    show ?thesis
    proof (cases "starts_with (pr_id p) ''group:'' \<or> starts_with (pr_id p) ''vk_'' \<or> bindings = None")
      case False
      then obtain table where t: "bindings = Some table" by blast
      have "\<not> list_ex (\<lambda>b. rb_allowed_pools b = None) (gs table) \<and> union_pools (gs table) = [] \<or> gs table = []"
        using None False t by (auto simp: synthesize_principal_key_def GROUP_BUCKET_PREFIX_def VK_ID_PREFIX_def gs_def Let_def split: if_splits)
      then have none: "b \<in> set (gs table) \<Longrightarrow> rb_allowed_pools b \<noteq> None \<and> (\<forall>ps. rb_allowed_pools b = Some ps \<longrightarrow> ps = [])" for b
        using union_pools_set [of _ "gs table"] unfolding all by (metis empty_iff empty_set list.set_intros(1) neq_Nil_conv)
      show ?thesis using None none t unfolding gs by auto
    qed (use None in auto)
  next
    case (Some k)
    then obtain table where t: "bindings = Some table" "gs table \<noteq> []" "\<not> starts_with (pr_id p) ''group:''" "\<not> starts_with (pr_id p) ''vk_''"
      and ne: "list_ex (\<lambda>b. rb_allowed_pools b = None) (gs table) \<or> union_pools (gs table) \<noteq> []"
      and k: "vk_id k = pr_id p" "vk_allowed_pools k = (if list_ex (\<lambda>b. rb_allowed_pools b = None) (gs table) then None else Some (union_pools (gs table)))"
      by (auto simp: synthesize_principal_key_def GROUP_BUCKET_PREFIX_def VK_ID_PREFIX_def gs_def Let_def split: if_splits option.splits)
    have a: "pool_allowed k pool \<longleftrightarrow> (\<exists>b \<in> set (gs table). rb_allowed_pools b = None \<or> (\<exists>ps. rb_allowed_pools b = Some ps \<and> pool \<in> set ps))" for pool
      using union_pools_set [of pool "gs table"] by (auto simp: pool_allowed_def k(2) all list_ex_iff)
    have "\<exists>pool. pool_allowed k pool"
      using ne by (auto simp: pool_allowed_def k(2) list_ex_iff) (metis list.set_intros(1) neq_Nil_conv)
    moreover have "\<forall>pool. pool_allowed k pool \<longleftrightarrow> (\<exists>role \<in> set (pr_roles p). \<exists>b. al_get table role = Some b
        \<and> (rb_allowed_pools b = None \<or> (\<exists>ps. rb_allowed_pools b = Some ps \<and> pool \<in> set ps)))"
      unfolding a using gs by blast
    ultimately show ?thesis unfolding Some option.case k(1) using t(1,3,4) by blast
  qed
qed

text \<open>One bound role for one pool and one unbound role.\<close>

theorem principal_key_exact_witness:
  "\<exists>k. synthesize_principal_key \<lparr>pr_id = ''alice'', pr_name = None, pr_roles = [''dev'', ''ghost''], pr_ttl_secs = None\<rparr>
       (Some [(''dev'', \<lparr>rb_allowed_pools = Some [''fast''], rb_group = None, rb_admin_scope = None\<rparr>)]) = Some k
     \<and> pool_allowed k ''fast'' \<and> \<not> pool_allowed k ''cold''"
proof -
  let ?p = "\<lparr>pr_id = ''alice'', pr_name = None, pr_roles = [''dev'', ''ghost''], pr_ttl_secs = None\<rparr>"
  let ?t = "[(''dev'', \<lparr>rb_allowed_pools = Some [''fast''], rb_group = None, rb_admin_scope = None\<rparr>)]"
  obtain k where k: "synthesize_principal_key ?p (Some ?t) = Some k"
    by (simp add: synthesize_principal_key_def starts_with_def GROUP_BUCKET_PREFIX_def VK_ID_PREFIX_def List.map_filter_def union_pools_def Let_def)
  have "pool_allowed k pool \<longleftrightarrow> (\<exists>role \<in> set (pr_roles ?p). \<exists>b. al_get ?t role = Some b
       \<and> (rb_allowed_pools b = None \<or> (\<exists>ps. rb_allowed_pools b = Some ps \<and> pool \<in> set ps)))" for pool
    using principal_key_exact [of ?p "Some ?t", unfolded k option.case] by blast
  then show ?thesis using k by simp
qed

subsection \<open>AWS credentials\<close>

definition secret_digit :: "char \<Rightarrow> nat" where
  "secret_digit c = length (takeWhile (\<lambda>x. x \<noteq> c) SECRET_ALPHABET)"

definition digits_value :: "string \<Rightarrow> nat" where
  "digits_value out = foldl (\<lambda>a c. a * 64 + secret_digit c) 0 out"

definition bytes_value :: "nat list \<Rightarrow> nat" where
  "bytes_value bs = foldl (\<lambda>a b. a * 256 + b) 0 bs"

lemma secret_digit_nth: "i < 64 \<Longrightarrow> secret_digit (SECRET_ALPHABET ! i) = i"
proof -
  have "list_all (\<lambda>i. secret_digit (SECRET_ALPHABET ! i) = i) [0..<64]" by code_simp
  then show "i < 64 \<Longrightarrow> secret_digit (SECRET_ALPHABET ! i) = i" by (simp add: list_all_iff)
qed

lemma alphabet_length: "length SECRET_ALPHABET = 64"
  by code_simp

text \<open>The emitted digits are the leading bits of the number read so far.\<close>

lemma emit_digit:
  fixes N :: nat
  assumes "bits \<ge> 6" "bits \<le> 14"
  shows "drop_bit (bits - 6) (N mod 2 ^ 32) AND 0x3f = (N div 2 ^ (bits - 6)) mod 64"
proof -
  have m: "(0x3f :: nat) = mask 6" by (simp add: mask_eq_exp_minus_1)
  have "drop_bit (bits - 6) (take_bit 32 N) = take_bit (32 - (bits - 6)) (drop_bit (bits - 6) N)" by (rule drop_bit_take_bit)
  then have "take_bit 6 (drop_bit (bits - 6) (take_bit 32 N)) = take_bit 6 (drop_bit (bits - 6) N)"
  proof -
    have "min 6 (32 - (bits - 6)) = 6" using assms by simp
    then show ?thesis unfolding \<open>drop_bit (bits - 6) (take_bit 32 N) = _\<close> take_bit_take_bit by simp
  qed
  then show ?thesis
    by (simp add: m take_bit_eq_mod drop_bit_eq_div flip: take_bit_eq_mask)
qed

lemma emit_bits_spec:
  assumes "bits \<le> 14" "emit_bits (N mod 2 ^ 32) bits out = (bits', out')" "digits_value out = N div 2 ^ bits" "set out \<subseteq> set SECRET_ALPHABET"
  shows "bits' < 6 \<and> 6 * length out' + bits' = 6 * length out + bits \<and> digits_value out' = N div 2 ^ bits' \<and> set out' \<subseteq> set SECRET_ALPHABET"
  using assms
proof (induction "N mod 2 ^ 32" bits out rule: emit_bits.induct)
  case (1 bits out)
  show ?case
  proof (cases "bits \<ge> 6")
    case True
    let ?d = "(N div 2 ^ (bits - 6)) mod 64"
    have d: "drop_bit (bits - 6) (N mod 2 ^ 32) AND 0x3f = ?d" using emit_digit [OF True 1(2)] .
    have pow: "(2::nat) ^ bits = 2 ^ (bits - 6) * 64" using True power_add [of "2::nat" "bits - 6" 6] by simp
    have "digits_value (out @ [SECRET_ALPHABET ! ?d]) = N div 2 ^ bits * 64 + ?d"
      using 1(4) by (simp add: digits_value_def secret_digit_nth)
    also have "\<dots> = N div 2 ^ (bits - 6)" unfolding pow div_mult2_eq by simp
    finally have v: "digits_value (out @ [SECRET_ALPHABET ! ?d]) = N div 2 ^ (bits - 6)" .
    have e: "emit_bits (N mod 2 ^ 32) (bits - 6) (out @ [SECRET_ALPHABET ! ?d]) = (bits', out')"
      using 1(3) True unfolding emit_bits.simps [of "N mod 2 ^ 32" bits out] d by simp
    have "set (out @ [SECRET_ALPHABET ! ?d]) \<subseteq> set SECRET_ALPHABET" using 1(5) by (simp add: alphabet_length)
    then show ?thesis using 1(1) [OF True] d e v 1(2) True by simp
  next
    case False
    then show ?thesis using 1(3-) unfolding emit_bits.simps [of "N mod 2 ^ 32" bits out] by simp
  qed
qed

lemma secret_byte_spec:
  assumes "b < 256" "bits < 6" "digits_value out = N div 2 ^ bits" "set out \<subseteq> set SECRET_ALPHABET"
    and "secret_byte b (N mod 2 ^ 32, bits, out) = (acc', bits', out')"
  shows "acc' = (N * 256 + b) mod 2 ^ 32 \<and> bits' < 6 \<and> 6 * length out' + bits' = 6 * length out + bits + 8
    \<and> digits_value out' = (N * 256 + b) div 2 ^ bits' \<and> set out' \<subseteq> set SECRET_ALPHABET"
proof -
  have or: "(x * 256) OR b = x * 256 + b" for x :: nat
  proof -
    have "(x * 256) AND b = 0"
    proof (rule bit_eqI)
      fix n show "bit ((x * 256) AND b) n = bit (0::nat) n"
      proof (cases "n < 8")
        case True
        have "bit (push_bit 8 x) n = False" using True by (simp add: bit_push_bit_iff)
        then show ?thesis by (simp add: bit_and_iff push_bit_eq_mult)
      next
        case False
        have "bit (take_bit 8 b) n = False" using False by (simp add: bit_take_bit_iff)
        moreover have "take_bit 8 b = b" using assms(1) by (simp add: take_bit_nat_eq_self)
        ultimately show ?thesis by (simp add: bit_and_iff)
      qed
    qed
    then show ?thesis by (simp add: disjunctive_add_eq_or)
  qed
  have acc: "wrap_u32 (push_bit 8 (N mod 2 ^ 32)) OR b = (N * 256 + b) mod 2 ^ 32"
  proof -
    have "wrap_u32 (push_bit 8 (N mod 2 ^ 32)) = (N mod 2 ^ 24) * 256"
      using mod_mult_mult2 [of N 256 16777216] by (simp add: wrap_u32_def push_bit_eq_mult mod_mult_left_eq)
    moreover have "(N mod 2 ^ 24) * 256 + b = (N * 256 + b) mod 2 ^ 32"
    proof -
      have "N * 256 + b = (N div 2 ^ 24) * 2 ^ 32 + ((N mod 2 ^ 24) * 256 + b)"
      proof -
        have "N = (N div 16777216) * 16777216 + N mod 16777216" by simp
        then have "N * 256 = (N div 16777216) * 16777216 * 256 + (N mod 16777216) * 256" by (metis add_mult_distrib)
        then show ?thesis by simp
      qed
      moreover have "(N mod 2 ^ 24) * 256 + b < 2 ^ 32" using assms(1) mod_less_divisor [of "2 ^ 24" N] by simp
      ultimately show ?thesis by (metis mod_less mod_mult_self3)
    qed
    ultimately show ?thesis using or by simp
  qed
  have v: "digits_value out = (N * 256 + b) div 2 ^ (bits + 8)"
  proof -
    have "(N * 256 + b) div 2 ^ (bits + 8) = (N * 256 + b) div 256 div 2 ^ bits"
      unfolding div_mult2_eq [symmetric] power_add by (simp add: mult.commute)
    then show ?thesis using assms(1,3) by simp
  qed
  obtain x out1 where e: "emit_bits ((N * 256 + b) mod 2 ^ 32) (bits + 8) out = (x, out1)"
    by (cases "emit_bits ((N * 256 + b) mod 2 ^ 32) (bits + 8) out")
  have "secret_byte b (N mod 2 ^ 32, bits, out) = ((N * 256 + b) mod 2 ^ 32, x, out1)"
    unfolding secret_byte_def Let_def old.prod.case acc e ..
  then have "acc' = (N * 256 + b) mod 2 ^ 32" "bits' = x" "out' = out1" using assms(5) by (simp_all only: prod.inject)
  moreover have "bits + 8 \<le> 14" using assms(2) by simp
  ultimately show ?thesis using emit_bits_spec [OF _ e v assms(4)] by simp
qed

lemma secret_fold_spec:
  assumes "\<forall>b \<in> set bs. b < 256" "bits < 6" "digits_value out = N div 2 ^ bits" "set out \<subseteq> set SECRET_ALPHABET"
    and "fold secret_byte bs (N mod 2 ^ 32, bits, out) = (acc', bits', out')"
  shows "bits' < 6 \<and> 6 * length out' + bits' = 6 * length out + bits + 8 * length bs
    \<and> digits_value out' = foldl (\<lambda>a b. a * 256 + b) N bs div 2 ^ bits' \<and> set out' \<subseteq> set SECRET_ALPHABET"
  using assms
proof (induction bs arbitrary: N bits out)
  case (Cons b bs)
  obtain acc1 bits1 out1 where st: "secret_byte b (N mod 2 ^ 32, bits, out) = (acc1, bits1, out1)"
    by (cases "secret_byte b (N mod 2 ^ 32, bits, out)")
  have b: "b < 256" using Cons.prems(1) by simp
  note step = secret_byte_spec [OF b Cons.prems(2-4) st]
  have "fold secret_byte bs ((N * 256 + b) mod 2 ^ 32, bits1, out1) = (acc', bits', out')"
    using Cons.prems(5) st step by simp
  from Cons.IH [OF _ _ _ _ this] step Cons.prems(1) show ?case by simp
qed simp

text \<open>
  The generated AWS credentials have the documented shape and lose no entropy. Both generators
  return, from 16 and 30 random bytes, an access key id of 20 characters and a secret of 40 characters
  of the 64-symbol alphabet; the secret spells, in base 64, exactly the 240-bit number its bytes
  spell in base 256, so distinct draws give distinct secrets. When the entropy source fails there is an
  error and no credential.
\<close>

theorem aws_credentials_lossless:
  assumes "length akid_bytes = 16" "length secret_bytes = 30" "\<forall>b \<in> set secret_bytes. b < 256"
  shows "(\<exists>akid out. generate_aws_access_key_id (Some akid_bytes) = Inr (''AKIA'' @ akid) \<and> length akid = 16
      \<and> set akid \<subseteq> set AKID_ALPHABET
      \<and> generate_aws_secret_access_key (Some secret_bytes) = Inr out \<and> length out = 40
      \<and> set out \<subseteq> set SECRET_ALPHABET \<and> digits_value out = bytes_value secret_bytes)
    \<and> generate_aws_access_key_id None = Inl entropy_error \<and> generate_aws_secret_access_key None = Inl entropy_error"
proof -
  obtain acc bits out where f: "fold secret_byte secret_bytes (0 mod 2 ^ 32, 0, []) = (acc, bits, out)"
    by (cases "fold secret_byte secret_bytes (0 mod 2 ^ 32, 0, [])")
  have sp: "bits < 6 \<and> 6 * length out + bits = 8 * length secret_bytes
      \<and> digits_value out = foldl (\<lambda>a b. a * 256 + b) 0 secret_bytes div 2 ^ bits \<and> set out \<subseteq> set SECRET_ALPHABET"
    using secret_fold_spec [OF assms(3) _ _ _ f] by (simp add: digits_value_def)
  then have "bits < 6" "6 * length out + bits = 240" using assms(2) by simp_all
  then have "bits = 0" "length out = 40" by presburger+
  then have o: "length out = 40" "digits_value out = bytes_value secret_bytes" "set out \<subseteq> set SECRET_ALPHABET"
    using sp by (simp_all add: bytes_value_def)
  have "AKID_ALPHABET ! (x mod length AKID_ALPHABET) \<in> set AKID_ALPHABET" for x
    by (rule nth_mem) (simp add: AKID_ALPHABET_def)
  then have "\<exists>akid out. generate_aws_access_key_id (Some akid_bytes) = Inr (''AKIA'' @ akid) \<and> length akid = 16
      \<and> set akid \<subseteq> set AKID_ALPHABET
      \<and> generate_aws_secret_access_key (Some secret_bytes) = Inr out \<and> length out = 40
      \<and> set out \<subseteq> set SECRET_ALPHABET \<and> digits_value out = bytes_value secret_bytes"
    using f o assms(1)
    by (intro exI [of _ "map (\<lambda>x. AKID_ALPHABET ! (x mod length AKID_ALPHABET)) akid_bytes"] exI [of _ out])
      (auto simp: generate_aws_access_key_id_def generate_aws_secret_access_key_def AWS_ACCESS_KEY_PREFIX_def)
  then show ?thesis by (simp add: generate_aws_access_key_id_def generate_aws_secret_access_key_def)
qed

theorem aws_credentials_lossless_witness:
  "\<exists>out. generate_aws_secret_access_key (Some (replicate 30 255)) = Inr out \<and> length out = 40
     \<and> digits_value out = bytes_value (replicate 30 255)"
  using aws_credentials_lossless [of "replicate 16 0" "replicate 30 255"] by auto

end
