(* ===== verification/Status.thy ===== *)
theory Status
  imports Prelude
begin

text \<open>
  The two-stage failure classifier of \<open>crates/busbar/src/breaker.rs\<close>: stage 1b normalises a raw
  upstream error (HTTP status, provider code, structured type, \<open>Retry-After\<close>) and the operator's
  \<open>error_map\<close> into a \<open>CanonicalSignal\<close>; stage 2 maps its class to the \<open>Disposition\<close> that drives
  the breaker. \<open>warn_unrecognized_error_map_value\<close> only logs and has no model.
\<close>

datatype StatusClass = RateLimit | Overloaded | ServerError | Timeout | Network | Auth | Billing
  | ClientError | ContextLength

datatype Disposition = ClientFault | TransientUpstream | HardDown | ContextLengthD

record RawUpstreamError =
  http_status :: nat
  provider_code :: "string option"
  structured_type :: "string option"
  retry_after_secs :: "nat option"

record CanonicalSignal =
  sig_class :: StatusClass
  provider_signal :: "string option"
  retry_after :: "nat option"

definition HTTP_OVERLOADED :: nat where
  "HTTP_OVERLOADED = 529"

definition PROVIDER_CODE_CONTEXT_LENGTH :: string where
  "PROVIDER_CODE_CONTEXT_LENGTH = ''context_length_exceeded''"

definition status_class_from_str :: "string \<Rightarrow> StatusClass option" where
  "status_class_from_str s =
     (if s = ''rate_limit'' then Some RateLimit
      else if s = ''overloaded'' then Some Overloaded
      else if s = ''server_error'' then Some ServerError
      else if s = ''timeout'' then Some Timeout
      else if s = ''network'' then Some Network
      else if s = ''auth'' then Some Auth
      else if s = ''billing'' then Some Billing
      else if s = ''client_error'' then Some ClientError
      else if s = ''context_length'' then Some ContextLength
      else None)"

fun classify_class :: "StatusClass \<Rightarrow> Disposition" where
  "classify_class RateLimit = TransientUpstream"
| "classify_class Overloaded = TransientUpstream"
| "classify_class ServerError = TransientUpstream"
| "classify_class Timeout = TransientUpstream"
| "classify_class Network = TransientUpstream"
| "classify_class Auth = HardDown"
| "classify_class Billing = HardDown"
| "classify_class ClientError = ClientFault"
| "classify_class ContextLength = ContextLengthD"

definition classify :: "CanonicalSignal \<Rightarrow> Disposition" where
  "classify sg = classify_class (sig_class sg)"

definition is_5xx :: "nat \<Rightarrow> bool" where
  "is_5xx st \<longleftrightarrow> 500 \<le> st \<and> st < 600"

text \<open>Step 2 of \<open>normalize_raw_error\<close>: the class of a bare HTTP status.\<close>

definition http_class :: "nat \<Rightarrow> StatusClass" where
  "http_class st =
     (if st = 401 \<or> st = 403 then Auth
      else if st = 429 then RateLimit
      else if st = 408 then Timeout
      else if st = HTTP_OVERLOADED then Overloaded
      else if is_5xx st then ServerError
      else if 400 \<le> st \<and> st < 500 then ClientError
      else ClientError)"

text \<open>
  An operator mapping takes effect unless its value is not a class name, or it is \<open>context_length\<close>
  on a 5xx status (which would hide an outage from the breaker).
\<close>

definition effective_mapping :: "nat \<Rightarrow> (string \<rightharpoonup> string) \<Rightarrow> string \<Rightarrow> StatusClass option" where
  "effective_mapping st error_map k =
     (case error_map k of
        None \<Rightarrow> None
      | Some m \<Rightarrow> (case status_class_from_str m of
            None \<Rightarrow> None
          | Some c \<Rightarrow> if c = ContextLength \<and> is_5xx st then None else Some c))"

definition normalize_raw_error :: "RawUpstreamError \<Rightarrow> (string \<rightharpoonup> string) \<Rightarrow> CanonicalSignal" where
  "normalize_raw_error raw error_map =
     (let st = http_status raw;
          ret = (\<lambda>c ps. \<lparr>sig_class = c, provider_signal = ps, retry_after = retry_after_secs raw\<rparr>);
          by_code = (case provider_code raw of
              None \<Rightarrow> None
            | Some code \<Rightarrow>
                (case effective_mapping st error_map code of
                   Some c \<Rightarrow> Some (ret c (Some code))
                 | None \<Rightarrow>
                     if code = PROVIDER_CODE_CONTEXT_LENGTH \<and> (st = 400 \<or> st = 413)
                     then Some (ret ContextLength (Some code)) else None))
      in case by_code of
           Some sg \<Rightarrow> sg
         | None \<Rightarrow>
             (case structured_type raw of
                None \<Rightarrow> ret (http_class st) (provider_code raw)
              | Some ty \<Rightarrow>
                  (case effective_mapping st error_map ty of
                     Some c \<Rightarrow> ret c (case provider_code raw of Some p \<Rightarrow> Some p | None \<Rightarrow> Some ty)
                   | None \<Rightarrow> ret (http_class st) (provider_code raw))))"

lemma effective_mapping_5xx: "is_5xx st \<Longrightarrow> effective_mapping st m k \<noteq> Some ContextLength"
  by (auto simp: effective_mapping_def split: option.splits)

lemma http_class_not_context [simp]: "http_class st \<noteq> ContextLength"
  by (simp add: http_class_def)

lemma http_class_5xx: "is_5xx st \<Longrightarrow> http_class st = Overloaded \<or> http_class st = ServerError"
  by (auto simp: http_class_def is_5xx_def)

lemma classify_client_fault_iff: "classify_class c = ClientFault \<longleftrightarrow> c = ClientError"
  by (cases c) auto

lemmas normalize_splits = option.splits if_splits

text \<open>The class of the signal, as one expression.\<close>

definition signal_class :: "RawUpstreamError \<Rightarrow> (string \<rightharpoonup> string) \<Rightarrow> StatusClass" where
  "signal_class raw m =
     (let st = http_status raw;
          via = (\<lambda>k. Option.bind k (effective_mapping st m)) in
      case via (provider_code raw) of
        Some c \<Rightarrow> c
      | None \<Rightarrow> if provider_code raw = Some PROVIDER_CODE_CONTEXT_LENGTH \<and> (st = 400 \<or> st = 413)
          then ContextLength
          else (case via (structured_type raw) of Some c \<Rightarrow> c | None \<Rightarrow> http_class st))"

lemma signal_class_code:
  "Option.bind (provider_code raw) (effective_mapping (http_status raw) m) = Some c \<Longrightarrow>
   signal_class raw m = c"
  by (simp add: signal_class_def)

lemma normalize_class: "sig_class (normalize_raw_error raw m) = signal_class raw m"
proof (cases "provider_code raw")
  case None
  then show ?thesis
    by (cases "structured_type raw")
      (simp_all add: normalize_raw_error_def signal_class_def Let_def split: option.split)
next
  case (Some code)
  show ?thesis
  proof (cases "effective_mapping (http_status raw) m code")
    case None
    with Some show ?thesis
      by (cases "structured_type raw")
        (auto simp: normalize_raw_error_def signal_class_def Let_def split: option.split)
  next
    case (Some c)
    with \<open>provider_code raw = Some code\<close> show ?thesis
      by (simp add: normalize_raw_error_def signal_class_def Let_def)
  qed
qed

lemma normalize_retry_after: "retry_after (normalize_raw_error raw m) = retry_after_secs raw"
  by (simp add: normalize_raw_error_def Let_def split: option.split)

lemma signal_class_5xx:
  assumes "is_5xx (http_status raw)"
  shows "signal_class raw m \<noteq> ContextLength"
proof -
  have "\<not> (http_status raw = 400 \<or> http_status raw = 413)"
    using assms by (auto simp: is_5xx_def)
  then show ?thesis
    using effective_mapping_5xx [OF assms, of m]
    by (cases "provider_code raw"; cases "structured_type raw")
      (auto simp: signal_class_def Let_def split: option.split)
qed

lemma signal_class_unmapped_5xx:
  assumes "is_5xx (http_status raw)" and "\<forall>k. effective_mapping (http_status raw) m k = None"
  shows "signal_class raw m = http_class (http_status raw)"
proof -
  have "\<not> (http_status raw = 400 \<or> http_status raw = 413)"
    using assms(1) by (auto simp: is_5xx_def)
  then show ?thesis
    using assms(2)
    by (cases "provider_code raw"; cases "structured_type raw")
      (simp_all add: signal_class_def Let_def)
qed

lemma classify_context: "classify_class c = ContextLengthD \<longleftrightarrow> c = ContextLength"
  by (cases c) auto

text \<open>
  The staged early returns of \<open>normalize_raw_error\<close> compute exactly the documented
  precedence: an effective operator mapping of the provider code, then the built-in context-length
  code on 400/413, then an effective mapping of the structured type, then the HTTP status; and the
  upstream \<open>Retry-After\<close> is always carried through.
\<close>
theorem normalize_precedence:
  "sig_class (normalize_raw_error raw m) =
     (let st = http_status raw;
          via = (\<lambda>k. Option.bind k (effective_mapping st m)) in
      case via (provider_code raw) of
        Some c \<Rightarrow> c
      | None \<Rightarrow> if provider_code raw = Some PROVIDER_CODE_CONTEXT_LENGTH \<and> (st = 400 \<or> st = 413)
          then ContextLength
          else (case via (structured_type raw) of Some c \<Rightarrow> c | None \<Rightarrow> http_class st))
   \<and> retry_after (normalize_raw_error raw m) = retry_after_secs raw"
  by (simp only: normalize_class normalize_retry_after signal_class_def simp_thms)

text \<open>
  No 5xx response is ever classified as context length, whatever the operator's
  \<open>error_map\<close> says, and with no effective operator mapping a 5xx is always a transient upstream
  failure: a provider outage cannot escape the breaker.
\<close>
theorem outage_is_penalised:
  assumes "is_5xx (http_status raw)"
  shows "classify (normalize_raw_error raw m) \<noteq> ContextLengthD \<and>
    ((\<forall>k. effective_mapping (http_status raw) m k = None) \<longrightarrow>
      classify (normalize_raw_error raw m) = TransientUpstream)"
  using signal_class_5xx [OF assms] http_class_5xx [OF assms] signal_class_unmapped_5xx [OF assms]
  by (auto simp: classify_def normalize_class classify_context)

theorem outage_is_penalised_witness:
  "classify (normalize_raw_error
       \<lparr>http_status = 503, provider_code = Some ''1234'', structured_type = None,
        retry_after_secs = None\<rparr> [''1234'' \<mapsto> ''context_length'']) \<noteq> ContextLengthD"
  using outage_is_penalised
    [of "\<lparr>http_status = 503, provider_code = Some ''1234'', structured_type = None,
        retry_after_secs = None\<rparr>" "[''1234'' \<mapsto> ''context_length'']"]
  by (simp add: is_5xx_def)

end
