(* ===== verification/Select.thy ===== *)
theory Select
  imports StoreOps Status
begin

text \<open>
  Lane selection (\<open>proxy/select.rs\<close>): the request context, compliance restricts and \<open>pick_among\<close>
  with its probe guard. One request runs at a time. What a request reads from outside is the record
  \<open>Outside\<close>: the successive clock readings and jitter seeds, the semaphore (taking and giving back a
  permit), how a parked wait for a permit ends, what the upstream does with the attempt on a lane, and
  what a hook decides.
\<close>

subsection \<open>Request context\<close>

record WeightedLane =
  wl_idx :: nat
  wl_weight :: nat
  wl_reasoning :: "bool option"
  wl_attempt_timeout_ms :: "nat option"

datatype PolicyOnError = Weighted | Reject | First

record RestrictConstraint =
  tags_any :: "string list"
  on_empty :: PolicyOnError
  rs_name :: string

record RequestCtx =
  deadline :: nat
  excluded :: "nat list"
  visited_pools :: "string list"
  active_restricts :: "RestrictConstraint list"

definition RequestCtx_new :: "nat \<Rightarrow> nat \<Rightarrow> RequestCtx" where
  "RequestCtx_new start deadline_secs =
     \<lparr>deadline = sat_add_u64 start deadline_secs, excluded = [], visited_pools = [], active_restricts = []\<rparr>"

definition expired :: "RequestCtx \<Rightarrow> nat \<Rightarrow> bool" where
  "expired ctx now \<longleftrightarrow> now \<ge> deadline ctx"

definition remaining :: "RequestCtx \<Rightarrow> nat \<Rightarrow> nat" where
  "remaining ctx now = deadline ctx - now"

definition exclude :: "nat \<Rightarrow> RequestCtx \<Rightarrow> RequestCtx" where
  "exclude idx ctx = ctx\<lparr>excluded := List.insert idx (excluded ctx)\<rparr>"

definition fill_candidates :: "RequestCtx \<Rightarrow> WeightedLane list \<Rightarrow> WeightedLane list" where
  "fill_candidates ctx cands = filter (\<lambda>wl. wl_idx wl \<notin> set (excluded ctx)) cands"

definition mark_pool_visited :: "string \<Rightarrow> RequestCtx \<Rightarrow> RequestCtx" where
  "mark_pool_visited pool ctx = ctx\<lparr>visited_pools := List.insert pool (visited_pools ctx)\<rparr>"

definition is_pool_visited :: "string \<Rightarrow> RequestCtx \<Rightarrow> bool" where
  "is_pool_visited pool ctx \<longleftrightarrow> pool \<in> set (visited_pools ctx)"

text \<open>The tags of a pool's members, by pool and lane.\<close>

type_synonym member_tags = "string \<Rightarrow> nat \<Rightarrow> string list option"

definition restrict_ok :: "member_tags \<Rightarrow> string \<Rightarrow> RestrictConstraint \<Rightarrow> WeightedLane \<Rightarrow> bool" where
  "restrict_ok tags pool r wl =
     (case tags pool (wl_idx wl) of
        None \<Rightarrow> False
      | Some ts \<Rightarrow> list_ex (\<lambda>t. list_ex (\<lambda>w. w = t) (tags_any r)) ts)"

fun apply_restricts ::
  "member_tags \<Rightarrow> string \<Rightarrow> RestrictConstraint list \<Rightarrow> WeightedLane list \<Rightarrow> string + WeightedLane list" where
  "apply_restricts tags pool [] cands = Inr cands"
| "apply_restricts tags pool (r # rs) cands =
     (let restricted = filter (restrict_ok tags pool r) cands
      in if restricted = []
         then if on_empty r = Weighted then apply_restricts tags pool rs cands else Inl (rs_name r)
         else apply_restricts tags pool rs restricted)"

definition enforce_restricts ::
  "RequestCtx \<Rightarrow> member_tags \<Rightarrow> string \<Rightarrow> WeightedLane list \<Rightarrow> string + WeightedLane list" where
  "enforce_restricts ctx tags pool cands = apply_restricts tags pool (active_restricts ctx) cands"

subsection \<open>Picking a lane\<close>

datatype WaitOutcome = GotPermit nat | SemClosed | TimedOut | Dropped

datatype ReadEnd = Complete | Truncated | TransportError

text \<open>
  A response of an upstream: its status, \<open>Retry-After\<close>, the error its protocol's reader extracts from
  the body, the time to the headers, whether the body is a stream, how reading a buffered body ended and
  the status of the error to answer with when the codecs cannot translate it for the client.
\<close>

record UpstreamResponse =
  ur_status :: nat
  ur_retry_after :: "nat option"
  ur_raw :: RawUpstreamError
  ur_latency_ms :: f64
  ur_is_sse :: bool
  ur_read_end :: ReadEnd
  ur_failed :: "nat option"

text \<open>
  How an attempt can go: the request body does not parse, cannot be translated, the lane has no path for
  the operation (in these three nothing is sent), no headers within the attempt cap, a transport error, or a response.
\<close>

datatype Upstream = ParseFailed | TranslateFailed nat | NoPath | AttemptTimeout | SendError | Headers UpstreamResponse

text \<open>What a gate or a routing policy decides about a request.\<close>

datatype PolicyOutcome =
    OrderOutcome "nat list" string
  | WeightedOutcome
  | RejectOutcome
  | RejectRequest nat string string
  | RestrictOutcome "string list" string PolicyOnError

record Outside =
  clk :: "nat \<Rightarrow> nat"
  jit :: "nat \<Rightarrow> nat \<times> nat"
  max_permits :: nat
  try_owned :: "nat \<Rightarrow> nat option"
  release_owned :: "nat \<Rightarrow> nat"
  park :: "nat \<Rightarrow> nat \<Rightarrow> nat \<Rightarrow> WaitOutcome"
  upstream :: "nat \<Rightarrow> nat \<Rightarrow> Upstream"
  decide :: "nat \<Rightarrow> nat \<Rightarrow> PolicyOutcome"

text \<open>Dropping the guard of a won probe.\<close>

definition drop_probe_guard :: "bool \<Rightarrow> string \<Rightarrow> nat \<Rightarrow> nat \<Rightarrow> InMemoryStore \<Rightarrow> InMemoryStore option" where
  "drop_probe_guard armed pool lane epoch st = (if armed then release_probe_owned_in st pool lane epoch else Some st)"

text \<open>The sticky fast path: the lane and permit, or \<open>None\<close> to fall through.\<close>

definition try_sticky ::
  "Outside \<Rightarrow> WeightedLane list \<Rightarrow> RequestCtx \<Rightarrow> nat option \<Rightarrow> string \<Rightarrow> nat \<Rightarrow> InMemoryStore
   \<Rightarrow> (InMemoryStore \<times> (nat \<times> Permit) option) option" where
  "try_sticky out cands ctx affinity pool t st =
     (case affinity of
        None \<Rightarrow> Some (st, None)
      | Some h \<Rightarrow>
          if cands = [] then Some (st, None)
          else let wl = cands ! (h mod length cands); sticky = wl_idx wl in
            if wl_weight wl \<noteq> 0 \<and> sticky \<notin> set (excluded ctx) then do {
              (st1, ok) \<leftarrow> usable_for st pool sticky t;
              if \<not> ok then Some (st1, None)
              else do {
                (st2, p) \<leftarrow> try_acquire (max_permits out) (try_owned out) st1 sticky;
                case p of
                  Some permit \<Rightarrow> Some (st2, Some (sticky, permit))
                | None \<Rightarrow> do { st3 \<leftarrow> release_probe_in st2 pool sticky; Some (st3, None) } } }
            else Some (st, None))"

text \<open>The ordered walk: the first ranked candidate that is not drained and is ready.\<close>

fun find_preferred ::
  "string \<Rightarrow> nat \<Rightarrow> (nat \<times> nat) list \<Rightarrow> nat list \<Rightarrow> InMemoryStore \<Rightarrow> (InMemoryStore \<times> nat option) option" where
  "find_preferred pool now zs [] st = Some (st, None)"
| "find_preferred pool now zs (idx # order) st =
     (if (case al_get zs idx of Some w \<Rightarrow> w \<noteq> 0 | None \<Rightarrow> False)
      then do {
        (st1, ready) \<leftarrow> ready_for st pool idx now;
        if ready then Some (st1, Some idx) else find_preferred pool now zs order st1 }
      else find_preferred pool now zs order st)"

definition select_lane ::
  "string \<Rightarrow> nat \<Rightarrow> WeightedLane list \<Rightarrow> nat list option \<Rightarrow> InMemoryStore \<Rightarrow> (InMemoryStore \<times> nat option) option" where
  "select_lane pool now filtered policy_order st =
     (let candidates = map wl_idx filtered; weights = map wl_weight filtered in
      case policy_order of
        None \<Rightarrow> select_weighted_for st pool candidates weights now
      | Some order \<Rightarrow> do {
          (st1, preferred) \<leftarrow> find_preferred pool now (zip candidates weights) order st;
          case preferred of
            Some idx \<Rightarrow> Some (st1, Some idx)
          | None \<Rightarrow> select_weighted_for st1 pool candidates weights now })"

text \<open>
  After the admission of the picked lane was won: the guard is armed with the probe's epoch, and is
  disarmed only when the request gets its permit, at once or after waiting up to the deadline.
\<close>

definition dispatch_won ::
  "Outside \<Rightarrow> RequestCtx \<Rightarrow> string \<Rightarrow> nat \<Rightarrow> nat \<Rightarrow> InMemoryStore \<Rightarrow> (InMemoryStore \<times> nat \<times> (nat \<times> Permit) option) option" where
  "dispatch_won out ctx pool i k st = do {
     (st1, epoch) \<leftarrow> probe_epoch_in st pool i;
     (st2, p) \<leftarrow> try_acquire (max_permits out) (try_owned out) st1 i;
     case p of
       Some permit \<Rightarrow> do { st3 \<leftarrow> drop_probe_guard False pool i epoch st2; Some (st3, k, Some (i, permit)) }
     | None \<Rightarrow>
         if remaining ctx (clk out k) = 0
         then do { st3 \<leftarrow> drop_probe_guard True pool i epoch st2; Some (st3, k + 1, None) }
         else case park out k i (remaining ctx (clk out k)) of
           GotPermit left \<Rightarrow> do {
             ls \<leftarrow> get_lane st2 i;
             st3 \<leftarrow> drop_probe_guard False pool i epoch (set_lane st2 i (ls\<lparr>ls_permits := left\<rparr>));
             Some (st3, k + 1, Some (i, Bounded)) }
         | _ \<Rightarrow> do { st3 \<leftarrow> drop_probe_guard True pool i epoch st2; Some (st3, k + 1, None) } }"

text \<open>
  The retry loop. \<open>k\<close> counts the clock readings, \<open>local_excluded\<close> the lanes that lost their probe race.
  The fuel is one more than the number of candidates; a lane is dropped per retry.
\<close>

fun pick_loop ::
  "nat \<Rightarrow> Outside \<Rightarrow> WeightedLane list \<Rightarrow> RequestCtx \<Rightarrow> string \<Rightarrow> nat list option \<Rightarrow> nat list \<Rightarrow> nat \<Rightarrow> InMemoryStore
   \<Rightarrow> (InMemoryStore \<times> nat \<times> (nat \<times> Permit) option) option" where
  "pick_loop 0 out cands ctx pool policy_order local_excluded k st = None"
| "pick_loop (Suc n) out cands ctx pool policy_order local_excluded k st =
     (if expired ctx (clk out k) then Some (st, k + 1, None)
      else let filtered = filter (\<lambda>wl. wl_idx wl \<notin> set local_excluded) (fill_candidates ctx cands) in
        if filtered = [] then Some (st, k + 1, None)
        else do {
          (st1, picked) \<leftarrow> select_lane pool (clk out (k + 1)) filtered policy_order st;
          case picked of
            None \<Rightarrow> Some (st1, k + 2, None)
          | Some i \<Rightarrow> do {
              (st2, won) \<leftarrow> usable_for st1 pool i (clk out (k + 2));
              if \<not> won then pick_loop n out cands ctx pool policy_order (i # local_excluded) (k + 3) st2
              else dispatch_won out ctx pool i (k + 3) st2 } })"

definition pick_among ::
  "Outside \<Rightarrow> WeightedLane list \<Rightarrow> RequestCtx \<Rightarrow> nat option \<Rightarrow> string \<Rightarrow> nat list option \<Rightarrow> nat \<Rightarrow> InMemoryStore
   \<Rightarrow> (InMemoryStore \<times> nat \<times> (nat \<times> Permit) option) option" where
  "pick_among out cands ctx affinity pool policy_order k st = do {
     (st1, sticky) \<leftarrow> try_sticky out cands ctx affinity pool (clk out k) st;
     case sticky of
       Some r \<Rightarrow> Some (st1, k + 1, Some r)
     | None \<Rightarrow> pick_loop (Suc (length cands)) out cands ctx pool policy_order [] (k + 1) st1 }"

end
