(* ===== verification/Pick.thy ===== *)
theory Pick
  imports Select
begin

text \<open>
  Selection is sound: a pick returns an admitted candidate or nothing, never leaks a recovery probe and
  always returns.
\<close>

subsection \<open>What a pick may do to a cell\<close>

definition same_breaker :: "BreakerCell \<Rightarrow> BreakerCell \<Rightarrow> bool" where
  "same_breaker c c' \<longleftrightarrow> breaker_state c' = breaker_state c \<and> cooldown_until c' = cooldown_until c
     \<and> (probe_in_flight c' \<longrightarrow> probe_in_flight c)"

text \<open>The cells held half-open by a probe, over every pool, and what a lane may still spend.\<close>

definition probes :: "InMemoryStore \<Rightarrow> (string \<times> nat) set" where
  "probes st = {(p, l). \<exists>c. view st p l = Some c \<and> breaker_state c = ST_HALF_OPEN}"

definition purse :: "InMemoryStore \<Rightarrow> (bool \<times> bool \<times> int) list" where
  "purse st = map (\<lambda>ls. (dead ls, limited ls, budget ls)) (lanes st)"

text \<open>
  Outside the lanes of \<open>L\<close>, no breaker of the pool changed state and no probe was taken; no probe was
  taken in any other pool, and nothing was spent.
\<close>

definition calm :: "string \<Rightarrow> nat set \<Rightarrow> InMemoryStore \<Rightarrow> InMemoryStore \<Rightarrow> bool" where
  "calm pool L st st' \<longleftrightarrow> store_wf st' \<and> length (lanes st') = length (lanes st)
     \<and> (\<forall>l c c'. l \<notin> L \<longrightarrow> view st pool l = Some c \<longrightarrow> view st' pool l = Some c' \<longrightarrow> same_breaker c c')
     \<and> probes st' \<subseteq> probes st \<union> Pair pool ` L \<and> purse st' = purse st"

lemma same_breaker_refl [simp]: "same_breaker c c"
  by (simp add: same_breaker_def)

lemma view_some: "view st pool l \<noteq> None \<longleftrightarrow> l < length (lanes st)"
  by (simp add: view_def)

lemma calm_trans: "calm pool L st st1 \<Longrightarrow> calm pool L st1 st2 \<Longrightarrow> calm pool L st st2"
proof -
  assume a: "calm pool L st st1" "calm pool L st1 st2"
  have "same_breaker c c2" if l: "l \<notin> L" "view st pool l = Some c" "view st2 pool l = Some c2" for l c c2
  proof -
    obtain c1 where c1: "view st1 pool l = Some c1" using l(2) a(1) view_some [of st pool l] view_some [of st1 pool l] by (auto simp: calm_def)
    then have "same_breaker c c1" "same_breaker c1 c2" using a l by (auto simp: calm_def)
    then show ?thesis by (auto simp: same_breaker_def)
  qed
  then show "calm pool L st st2" using a by (auto simp: calm_def)
qed

lemma calm_refl: "store_wf st \<Longrightarrow> calm pool L st st"
  by (auto simp: calm_def)

lemma calm_mono: "calm pool L st st' \<Longrightarrow> L \<subseteq> M \<Longrightarrow> calm pool M st st'"
  using image_mono [of L M "Pair pool"] unfolding calm_def by blast

lemma calm_len: "calm pool L st st' \<Longrightarrow> length (lanes st') = length (lanes st)"
  by (simp add: calm_def)

lemma calm_wf: "calm pool L st st' \<Longrightarrow> store_wf st'"
  by (simp add: calm_def)

lemma purse_length: "purse st' = purse st \<Longrightarrow> length (lanes st') = length (lanes st)"
  by (metis length_map purse_def)

lemma probes_cong: "(\<And>p l. view st' p l = view st p l) \<Longrightarrow> probes st' = probes st"
  by (simp add: probes_def)

lemma purse_globals: "lane_globals st' = lane_globals st \<Longrightarrow> purse st' = purse st"
  by (drule arg_cong [where f = "map (\<lambda>ls. (dead ls, limited ls, budget ls))"])
    (simp add: lane_globals_def purse_def comp_def)

lemma calm_view:
  "store_wf st' \<Longrightarrow> purse st' = purse st \<Longrightarrow> (\<And>p l. view st' p l = view st p l) \<Longrightarrow> calm pool L st st'"
  using purse_length [of st' st] probes_cong [of st' st] by (auto simp: calm_def)

lemma put_cell_purse [simp]: "i < length (lanes st) \<Longrightarrow> purse (put_cell st pool i d) = purse st"
  by (simp add: put_cell_def purse_def map_update) (simp add: list_update_same_conv)

lemma set_lane_purse:
  "i < length (lanes st) \<Longrightarrow> dead ls = dead (lanes st ! i) \<Longrightarrow> limited ls = limited (lanes st ! i) \<Longrightarrow> budget ls = budget (lanes st ! i)
   \<Longrightarrow> purse (set_lane st i ls) = purse st"
  by (simp add: set_lane_def purse_def map_update) (simp add: list_update_same_conv)

lemma inherited_no_probe [simp]: "breaker_state (inherited_cell d) \<noteq> ST_HALF_OPEN"
  by (simp add: inherited_cell_def st_defs)

lemma put_cell_probes:
  assumes "i < length (lanes st)"
  shows "probes (put_cell st pool i d) \<subseteq> probes st - {(pool, i)} \<union> (if breaker_state d = ST_HALF_OPEN then {(pool, i)} else {})"
proof
  fix x assume "x \<in> probes (put_cell st pool i d)"
  then obtain p l c where x: "x = (p, l)" "view (put_cell st pool i d) p l = Some c" "breaker_state c = ST_HALF_OPEN" by (auto simp: probes_def)
  show "x \<in> probes st - {(pool, i)} \<union> (if breaker_state d = ST_HALF_OPEN then {(pool, i)} else {})"
  proof (cases "p = pool \<and> l = i")
    case True
    then show ?thesis using x assms by (simp add: put_cell_view)
  next
    case False
    have "view (put_cell st pool i d) p l = view st p l \<or> view (put_cell st pool i d) p l = Some (inherited_cell d)"
      using assms False by (auto simp: put_cell_def view_def nth_list_update split: option.split)
    then have "view st p l = Some c" using x(2,3) by auto
    then show ?thesis using False x by (auto simp: probes_def)
  qed
qed

text \<open>A write of one cell.\<close>

lemma put_effect:
  assumes "store_wf st" "i < length (lanes st)" "cell_in st pool i = Some (st1, c)" "cell_wf d"
  shows "store_wf (put_cell st1 pool i d)" "length (lanes (put_cell st1 pool i d)) = length (lanes st)"
    and "view (put_cell st1 pool i d) pool l = (if l = i then Some d else view st pool l)"
    and "same_breaker c d \<Longrightarrow> calm pool L st (put_cell st1 pool i d)"
    and "i \<in> L \<Longrightarrow> calm pool L st (put_cell st1 pool i d)"
    and "purse (put_cell st1 pool i d) = purse st"
    and "probes (put_cell st1 pool i d) \<subseteq> probes st - {(pool, i)} \<union> (if breaker_state d = ST_HALF_OPEN then {(pool, i)} else {})"
proof -
  note w = cell_in_wf [OF assms(1,3)] and kv = cell_in_keeps_view [OF assms(3)]
  have lanes: "lanes st1 = lanes st" using cell_in_view [OF assms(2), of pool] assms(3) by auto
  show wf: "store_wf (put_cell st1 pool i d)" using put_cell_wf [of st1 i d pool] w assms(2,4) lanes by simp
  show len: "length (lanes (put_cell st1 pool i d)) = length (lanes st)" using lanes by simp
  have v: "view (put_cell st1 pool i d) pool l = (if l = i then Some d else view st pool l)" for l
    using put_cell_view [of i st1 pool l pool d] kv lanes assms(2) by auto
  then show "view (put_cell st1 pool i d) pool l = (if l = i then Some d else view st pool l)" .
  show pu: "purse (put_cell st1 pool i d) = purse st" using lanes assms(2) by simp (simp add: purse_def)
  show pr: "probes (put_cell st1 pool i d) \<subseteq> probes st - {(pool, i)} \<union> (if breaker_state d = ST_HALF_OPEN then {(pool, i)} else {})"
    using put_cell_probes [of i st1 pool d] probes_cong [OF kv] lanes assms(2) by simp
  have cp: "breaker_state c = ST_HALF_OPEN \<Longrightarrow> (pool, i) \<in> probes st" using w by (simp add: probes_def)
  show "same_breaker c d \<Longrightarrow> calm pool L st (put_cell st1 pool i d)" "i \<in> L \<Longrightarrow> calm pool L st (put_cell st1 pool i d)"
    using wf len v w pu pr cp by (auto simp: calm_def same_breaker_def split: if_splits)
qed

subsection \<open>Selection\<close>

lemma weightless_same: "weightless c = weightless d \<Longrightarrow> same_breaker c d"
  by (cases c; cases d) (simp add: weightless_def same_breaker_def)

lemma add_weight_calm:
  assumes "store_wf st" "l < length (lanes st)"
  shows "\<exists>st'. add_weight st pool l w = Some st' \<and> calm pool {} st st'"
proof -
  obtain st1 c where 1: "cell_in st pool l = Some (st1, c)" using cell_in_view [OF assms(2), of pool] by blast
  then have wc: "cell_wf c" using cell_in_wf [OF assms(1)] by blast
  have "cell_wf (c\<lparr>current_weight := wrap_i64 (current_weight c + w)\<rparr>)" using wc by (simp add: cell_wf_def)
  from put_effect(4) [OF assms 1 this] show ?thesis by (simp add: add_weight_def 1 same_breaker_def)
qed

lemma add_weights_calm:
  "store_wf st \<Longrightarrow> \<forall>(l, w) \<in> set h. l < length (lanes st) \<Longrightarrow> \<exists>st'. add_weights st pool h = Some st' \<and> calm pool {} st st'"
proof (induction h arbitrary: st)
  case (Cons x h)
  obtain l w where x: "x = (l, w)" by (cases x)
  obtain st1 where 1: "add_weight st pool l w = Some st1" "calm pool {} st st1"
    using add_weight_calm [OF Cons.prems(1), of l pool w] Cons.prems(2) by (auto simp: x)
  have "\<forall>(l, w) \<in> set h. l < length (lanes st1)" using Cons.prems(2) calm_len [OF 1(2)] by auto
  with Cons.IH [OF calm_wf [OF 1(2)]] obtain st2 where "add_weights st1 pool h = Some st2" "calm pool {} st1 st2" by blast
  then show ?case using 1 calm_trans by (auto simp: x)
qed (simp add: calm_refl)

lemma find_best_mem:
  "find_best st pool h best bw = Some r \<Longrightarrow> r = best \<or> (\<exists>l w. (l, w) \<in> set h \<and> r = Some l)"
  by (induction st pool h best bw rule: find_best.induct) (fastforce split: if_splits bind_splits)+

lemma find_best_total: "\<forall>(l, w) \<in> set h. l < length (lanes st) \<Longrightarrow> \<exists>r. find_best st pool h best bw = Some r"
proof (induction h arbitrary: best bw)
  case (Cons x h)
  obtain l w where x: "x = (l, w)" by (cases x)
  obtain st' where "cell_in st pool l = Some (st', the (view st pool l))" using cell_in_view [of l st pool] Cons.prems by (auto simp: x)
  then show ?case using Cons by (simp add: x)
qed simp

lemma select_calm:
  assumes "store_wf st" "\<forall>(l, w) \<in> set (zip cs ws). l < length (lanes st)"
  shows "\<exists>st' r. select_weighted_for st pool cs ws now = Some (st', r) \<and> calm pool {} st st'
    \<and> (\<forall>l. r = Some l \<longrightarrow> (\<exists>w. (l, w) \<in> set (zip cs ws) \<and> w \<noteq> 0))"
proof -
  let ?H = "healthy_members st pool (zip cs ws) now"
  obtain st1 where 1: "healthy_set st pool (zip cs ws) now = Some (st1, ?H)" "store_wf st1" "lane_globals st1 = lane_globals st"
    "\<forall>p l. view st1 p l = view st p l"
    using healthy_set_spec [OF assms] by blast
  note len1 = lane_globals_length [OF 1(3)]
  have c1: "calm pool {} st st1" using 1 purse_globals [OF 1(3)] by (intro calm_view) auto
  have H: "l < length (lanes st) \<and> (\<exists>w. (l, w) \<in> set (zip cs ws) \<and> w \<noteq> 0)" if "(l, w) \<in> set ?H" for l w
    using that assms(2) by (auto simp: healthy_members_def)
  show ?thesis
  proof (cases "?H = []")
    case True
    then show ?thesis using 1(1) c1 by (simp add: select_weighted_for_def)
  next
    case False
    define st2 where "st2 = fst (swrr_shard st1 pool)"
    have c2: "calm pool {} st st2"
      using 1(2,4) purse_globals [OF 1(3)] purse_globals [OF swrr_shard_frame(2)] by (intro calm_view) (simp_all add: st2_def swrr_shard_frame)
    obtain st3 where 3: "add_weights st2 pool ?H = Some st3" "calm pool {} st2 st3"
    proof -
      have "\<forall>(l, w) \<in> set ?H. l < length (lanes st2)" using H calm_len [OF c2] by auto
      then show thesis using add_weights_calm [OF calm_wf [OF c2]] that by blast
    qed
    have c3: "calm pool {} st st3" using calm_trans [OF c2 3(2)] .
    obtain b where b: "find_best st3 pool ?H None i64_min = Some b"
    proof -
      have "\<forall>(l, w) \<in> set ?H. l < length (lanes st3)" using H calm_len [OF c3] by auto
      then show thesis using find_best_total [of ?H st3 pool None i64_min] that by blast
    qed
    show ?thesis
    proof (cases b)
      case None
      then show ?thesis using 1(1) False 3(1) b c3 by (auto simp: select_weighted_for_def Let_def st2_def)
    next
      case (Some l)
      then obtain w where w: "(l, w) \<in> set ?H" using find_best_mem [OF b] by auto
      then obtain st4 where "add_weight st3 pool l (- wrap_i64 (sum_list (map snd ?H))) = Some st4" "calm pool {} st3 st4"
        using add_weight_calm [OF calm_wf [OF c3], of l pool] H [OF w] calm_len [OF c3] by auto
      then have "select_weighted_for st pool cs ws now = Some (st4, Some l) \<and> calm pool {} st st4"
        using 1(1) False 3(1) b Some calm_trans [OF c3] by (simp add: select_weighted_for_def Let_def st2_def)
      then show ?thesis using H [OF w] by blast
    qed
  qed
qed

lemma cell_in_calm:
  assumes "store_wf st" "i < length (lanes st)"
  obtains st1 c where "cell_in st pool i = Some (st1, c)" "calm pool L st st1" "view st1 pool i = Some c" "view st pool i = Some c" "cell_wf c"
    "lanes st1 = lanes st"
proof -
  obtain st1 where 1: "cell_in st pool i = Some (st1, the (view st pool i))" "lanes st1 = lanes st"
    using cell_in_view [OF assms(2), of pool] by blast
  note w = cell_in_wf [OF assms(1) 1(1)] and kv = cell_in_keeps_view [OF 1(1)]
  show thesis by (rule that [OF 1(1)]) (use w kv 1(2) in \<open>auto intro: calm_view simp: purse_def\<close>)
qed

lemma ready_calm:
  assumes "store_wf st" "i < length (lanes st)"
  shows "\<exists>st' b. ready_for st pool i now = Some (st', b) \<and> calm pool {} st st'"
proof -
  obtain adm where "lane_admissible st i = Some adm" using lane_admissible_Some [OF assms(2)] by blast
  moreover obtain st1 c where "cell_in st pool i = Some (st1, c)" "calm pool {} st st1" by (rule cell_in_calm [OF assms])
  ultimately show ?thesis using calm_refl [OF assms(1)] by (auto simp: ready_for_def)
qed

lemma find_preferred_calm:
  assumes "store_wf st" "\<forall>(l, w) \<in> set zs. l < length (lanes st)"
  shows "\<exists>st' r. find_preferred pool now zs order st = Some (st', r) \<and> calm pool {} st st'
    \<and> (\<forall>l. r = Some l \<longrightarrow> (\<exists>w. (l, w) \<in> set zs \<and> w \<noteq> 0))"
  using assms
proof (induction order arbitrary: st)
  case (Cons idx order)
  show ?case
  proof (cases "case al_get zs idx of Some w \<Rightarrow> w \<noteq> 0 | None \<Rightarrow> False")
    case True
    then obtain w where w: "al_get zs idx = Some w" "w \<noteq> 0" by (auto split: option.splits)
    have m: "(idx, w) \<in> set zs" using w(1) by (rule al_get_mem)
    then obtain st1 b where 1: "ready_for st pool idx now = Some (st1, b)" "calm pool {} st st1"
      using ready_calm [OF Cons.prems(1)] Cons.prems(2) by fastforce
    show ?thesis
    proof (cases b)
      case False
      have "\<forall>(l, w) \<in> set zs. l < length (lanes st1)" using Cons.prems(2) calm_len [OF 1(2)] by auto
      from Cons.IH [OF calm_wf [OF 1(2)] this] show ?thesis using True 1 False calm_trans [OF 1(2)] by auto
    qed (use True 1 m w in auto)
  next
    case False
    then show ?thesis using Cons by auto
  qed
qed (simp add: calm_refl)

lemma select_lane_calm:
  assumes "store_wf st" "\<forall>wl \<in> set f. wl_idx wl < length (lanes st)"
  shows "\<exists>st' r. select_lane pool now f po st = Some (st', r) \<and> calm pool {} st st'
    \<and> (\<forall>i. r = Some i \<longrightarrow> (\<exists>wl \<in> set f. wl_idx wl = i \<and> wl_weight wl \<noteq> 0))"
proof -
  let ?zs = "zip (map wl_idx f) (map wl_weight f)"
  have zs: "(l, w) \<in> set ?zs \<longleftrightarrow> (\<exists>wl \<in> set f. wl_idx wl = l \<and> wl_weight wl = w)" for l w
    by (auto simp: zip_map_map zip_same_conv_map)
  have rng: "\<forall>(l, w) \<in> set ?zs. l < length (lanes st)" using assms(2) zs by auto
  note sel = select_calm [OF _ _, of _ "map wl_idx f" "map wl_weight f" pool now]
  show ?thesis
  proof (cases po)
    case None
    then show ?thesis using sel [OF assms(1) rng] zs by (fastforce simp: select_lane_def Let_def)
  next
    case (Some order)
    obtain st1 r where 1: "find_preferred pool now ?zs order st = Some (st1, r)" "calm pool {} st st1"
      "\<forall>l. r = Some l \<longrightarrow> (\<exists>w. (l, w) \<in> set ?zs \<and> w \<noteq> 0)"
      using find_preferred_calm [OF assms(1) rng] by blast
    show ?thesis
    proof (cases r)
      case None
      have "\<forall>(l, w) \<in> set ?zs. l < length (lanes st1)" using rng calm_len [OF 1(2)] by auto
      from sel [OF calm_wf [OF 1(2)] this] obtain st2 r2 where
        2: "select_weighted_for st1 pool (map wl_idx f) (map wl_weight f) now = Some (st2, r2)" "calm pool {} st1 st2"
          "\<forall>l. r2 = Some l \<longrightarrow> (\<exists>w. (l, w) \<in> set ?zs \<and> w \<noteq> 0)" by blast
      then show ?thesis
        using Some None 1(1) calm_trans [OF 1(2) 2(2)] zs by (auto simp: select_lane_def Let_def)
    next
      case (Some i)
      then show ?thesis using \<open>po = Some order\<close> 1 zs by (auto simp: select_lane_def Let_def)
    qed
  qed
qed

subsection \<open>Admission and release\<close>

definition admitted_on :: "InMemoryStore \<Rightarrow> string \<Rightarrow> nat \<Rightarrow> bool" where
  "admitted_on st pool i \<longleftrightarrow> lane_admissible st i = Some True
     \<and> (\<exists>c. view st pool i = Some c \<and> (breaker_state c = ST_CLOSED \<or> breaker_state c = ST_HALF_OPEN \<and> probe_in_flight c))"

lemma put_admissible:
  assumes "lanes st1 = lanes st" "i < length (lanes st)"
  shows "lane_admissible (put_cell st1 pool i d) i = lane_admissible st i"
  using assms by (simp add: lane_admissible_def get_lane_def put_cell_def)

definition won_from :: "BreakerCell \<Rightarrow> BreakerCell \<Rightarrow> bool" where
  "won_from c c' \<longleftrightarrow> c' = c \<and> breaker_state c = ST_CLOSED
     \<or> breaker_state c = ST_OPEN \<and> breaker_state c' = ST_HALF_OPEN \<and> cooldown_until c' = cooldown_until c"

text \<open>A won admission touches one cell: it stays closed, or an expired open one becomes half-open.\<close>

lemma usable_effect:
  assumes "store_wf st" "i < length (lanes st)"
  shows "\<exists>st' won c c'. usable_for st pool i now = Some (st', won) \<and> calm pool {i} st st' \<and> (\<not> won \<longrightarrow> calm pool {} st st')
    \<and> view st pool i = Some c \<and> view st' pool i = Some c' \<and> (won \<longrightarrow> admitted_on st' pool i \<and> won_from c c')"
proof -
  obtain adm where adm: "lane_admissible st i = Some adm" using lane_admissible_Some [OF assms(2)] by blast
  obtain st1 c where 1: "cell_in st pool i = Some (st1, c)" "view st pool i = Some c" "cell_wf c" "lanes st1 = lanes st"
    by (rule cell_in_calm [OF assms])
  show ?thesis
  proof (cases adm)
    case False
    then have "usable_for st pool i now = Some (st, False)" using adm by (simp add: usable_for_def)
    then show ?thesis using 1(2) calm_refl [OF assms(1)] by blast
  next
    case True
    obtain d won where d: "cell_acquire_breaker c now = (d, won)" by (cases "cell_acquire_breaker c now")
    have dw: "cell_wf d" using cell_acquire_wf [OF 1(3), of now] d by simp
    note p = put_effect [OF assms 1(1) dw]
    have a: "\<not> won \<Longrightarrow> d = c" "won \<Longrightarrow> d = c \<and> breaker_state c = ST_CLOSED
        \<or> breaker_state c = ST_OPEN \<and> breaker_state d = ST_HALF_OPEN \<and> cooldown_until d = cooldown_until c \<and> probe_in_flight d"
      using d by (auto simp: cell_acquire_breaker_def acquire_locked_def split: if_splits)
    have u: "usable_for st pool i now = Some (put_cell st1 pool i d, won)" using adm True 1(1) d by (simp add: usable_for_def)
    have ad: "admitted_on (put_cell st1 pool i d) pool i" if won
      using a(2) [OF that] put_admissible [OF 1(4) assms(2)] adm True p(3) by (auto simp: admitted_on_def)
    have "calm pool {i} st (put_cell st1 pool i d)" "\<not> won \<longrightarrow> calm pool {} st (put_cell st1 pool i d)"
      using p(4) [of "{}"] p(5) [of "{i}"] a(1) by auto
    moreover have "won \<longrightarrow> won_from c d" using a(2) by (auto simp: won_from_def)
    ultimately show ?thesis using u 1(2) p(3) ad by auto
  qed
qed

lemma set_permits:
  assumes "store_wf st" "i < length (lanes st)"
  shows "calm pool {} st (set_lane st i ((lanes st ! i)\<lparr>ls_permits := n\<rparr>))"
    and "view (set_lane st i ((lanes st ! i)\<lparr>ls_permits := n\<rparr>)) q l = view st q l"
    and "lane_admissible (set_lane st i ((lanes st ! i)\<lparr>ls_permits := n\<rparr>)) l = lane_admissible st l"
proof -
  have v: "view (set_lane st i ((lanes st ! i)\<lparr>ls_permits := n\<rparr>)) q l = view st q l" for q l
    using assms by (auto simp: set_lane_def view_def nth_list_update split: option.split)
  then show "view (set_lane st i ((lanes st ! i)\<lparr>ls_permits := n\<rparr>)) q l = view st q l" .
  show "lane_admissible (set_lane st i ((lanes st ! i)\<lparr>ls_permits := n\<rparr>)) l = lane_admissible st l"
    using assms by (auto simp: set_lane_def lane_admissible_def get_lane_def nth_list_update)
  show "calm pool {} st (set_lane st i ((lanes st ! i)\<lparr>ls_permits := n\<rparr>))"
    by (rule calm_view) (use v assms store_wf_set_lane store_wf_def_cell [OF assms] in \<open>auto intro: set_lane_purse\<close>)
qed

lemma try_acquire_effect:
  assumes "store_wf st" "i < length (lanes st)"
  obtains st' p where "try_acquire mx own st i = Some (st', p)" "store_wf st'" "purse st' = purse st"
    "\<And>q l. view st' q l = view st q l" "\<And>l. lane_admissible st' l = lane_admissible st l"
proof -
  have g: "get_lane st i = Some (lanes st ! i)" using assms(2) by (simp add: get_lane_def)
  note set = set_permits [OF assms]
  have wf: "store_wf (set_lane st i ((lanes st ! i)\<lparr>ls_permits := n\<rparr>))"
    "purse (set_lane st i ((lanes st ! i)\<lparr>ls_permits := n\<rparr>)) = purse st" for n
    using set(1) [of "[]" n] by (simp_all add: calm_def)
  show thesis
    by (rule that [of "fst (the (try_acquire mx own st i))" "snd (the (try_acquire mx own st i))"])
      (use assms g set(2,3) wf in \<open>auto simp: try_acquire_def split: option.split\<close>)
qed

lemma abandon_calm:
  assumes "calm pool {i} st st4" "i < length (lanes st)" "view st pool i = Some c" "view st4 pool i = Some c'" "won_from c c'"
  shows "\<exists>st5. release_probe_owned_in st4 pool i (probe_epoch c') = Some st5 \<and> calm pool {} st st5"
    and "\<exists>st5. release_probe_in st4 pool i = Some st5 \<and> calm pool {} st st5"
proof -
  have wf: "store_wf st4" and i: "i < length (lanes st4)" using assms(1,2) by (simp_all add: calm_def)
  obtain st5 d where 5: "cell_in st4 pool i = Some (st5, d)" "view st4 pool i = Some d" "cell_wf d"
    by (rule cell_in_calm [OF wf i])
  have d: "d = c'" using 5(2) assms(4) by simp
  have wd: "cell_wf (cell_release_probe_owned d e)" "cell_wf (cell_release_probe d)" for e
    using 5(3) by (simp_all add: cell_release_probe_owned_wf cell_release_probe_wf)
  have sb: "same_breaker c (cell_release_probe_owned d (probe_epoch c'))" "same_breaker c (cell_release_probe d)"
    using assms(5) d by (auto simp: won_from_def same_breaker_def cell_release_probe_owned_def cell_release_probe_def st_defs)
  have quiet: "calm pool {} st (put_cell st5 pool i e)" if "cell_wf e" "same_breaker c e" for e
  proof -
    note p = put_effect [OF wf i 5(1) that(1)]
    have "same_breaker b b'" if "view st pool l = Some b" "view (put_cell st5 pool i e) pool l = Some b'" for l b b'
      using that p(3) [of l] assms(1,3) \<open>same_breaker c e\<close> by (cases "l = i") (auto simp: calm_def)
    moreover have "breaker_state e = ST_HALF_OPEN \<Longrightarrow> (pool, i) \<in> probes st" using that(2) assms(3) by (simp add: same_breaker_def probes_def)
    then have "probes (put_cell st5 pool i e) \<subseteq> probes st" using p(7) assms(1) by (auto simp: calm_def split: if_splits)
    ultimately show ?thesis using p(1,2,6) assms(1) by (simp add: calm_def)
  qed
  show "\<exists>st5. release_probe_owned_in st4 pool i (probe_epoch c') = Some st5 \<and> calm pool {} st st5"
    using quiet [OF wd(1) sb(1)] by (simp add: release_probe_owned_in_def 5(1))
  show "\<exists>st5. release_probe_in st4 pool i = Some st5 \<and> calm pool {} st st5"
    using quiet [OF wd(2) sb(2)] by (simp add: release_probe_in_def 5(1))
qed

subsection \<open>The pick\<close>

text \<open>What a pick promises, given the store it started from.\<close>

definition pick_ok ::
  "WeightedLane list \<Rightarrow> RequestCtx \<Rightarrow> string \<Rightarrow> InMemoryStore \<Rightarrow> InMemoryStore \<Rightarrow> (nat \<times> Permit) option \<Rightarrow> bool" where
  "pick_ok cands ctx pool st st' r \<longleftrightarrow>
     (case r of
        None \<Rightarrow> calm pool {} st st'
      | Some (i, p) \<Rightarrow> calm pool {i} st st' \<and> admitted_on st' pool i
          \<and> (\<exists>wl \<in> set cands. wl_idx wl = i \<and> wl_weight wl \<noteq> 0) \<and> i \<notin> set (excluded ctx))"

lemma pick_ok_after: "calm pool {} st st1 \<Longrightarrow> pick_ok cands ctx pool st1 st2 r \<Longrightarrow> pick_ok cands ctx pool st st2 r"
  using calm_trans [of pool _ st st1 st2] calm_mono [of pool "{}" st st1]
  by (fastforce simp: pick_ok_def split: option.splits prod.splits)

lemma admitted_view:
  "admitted_on st pool i \<Longrightarrow> view st' pool i = view st pool i \<Longrightarrow> lane_admissible st' i = lane_admissible st i \<Longrightarrow> admitted_on st' pool i"
  by (simp add: admitted_on_def)

text \<open>After a won admission: the permit, the wait, and the guard.\<close>

lemma dispatch_won_ok:
  assumes "calm pool {i} st st2" "i < length (lanes st)" "view st pool i = Some c" "view st2 pool i = Some c'" "won_from c c'"
    and "admitted_on st2 pool i" "\<exists>wl \<in> set cands. wl_idx wl = i \<and> wl_weight wl \<noteq> 0" "i \<notin> set (excluded ctx)"
  shows "\<exists>st' k' r. dispatch_won out ctx pool i k st2 = Some (st', k', r) \<and> pick_ok cands ctx pool st st' r"
proof -
  have wf2: "store_wf st2" and i2: "i < length (lanes st2)" using assms(1,2) by (simp_all add: calm_def)
  obtain st3 d where 3: "cell_in st2 pool i = Some (st3, d)" "calm pool {} st2 st3" "view st3 pool i = Some d" "view st2 pool i = Some d"
    "cell_wf d" "lanes st3 = lanes st2" by (rule cell_in_calm [OF wf2 i2])
  have d: "d = c'" using 3(4) assms(4) by simp
  have e: "probe_epoch_in st2 pool i = Some (st3, probe_epoch c')" by (simp add: probe_epoch_in_def 3(1) d)
  have wf3: "store_wf st3" and i3: "i < length (lanes st3)" using 3(2,6) i2 by (simp_all add: calm_def)
  obtain st4 p where 4: "try_acquire (max_permits out) (try_owned out) st3 i = Some (st4, p)" "store_wf st4"
    "purse st4 = purse st3" and v4: "\<And>q l. view st4 q l = view st3 q l"
    and l4: "\<And>l. lane_admissible st4 l = lane_admissible st3 l"
    using try_acquire_effect [OF wf3 i3, of "max_permits out" "try_owned out"] by blast
  have i4: "i < length (lanes st4)" using purse_length [OF 4(3)] i3 by simp
  have c3: "calm pool {i} st st3" using calm_trans [OF assms(1) calm_mono [OF 3(2)]] by simp
  have c4: "calm pool {i} st st4" by (rule calm_trans [OF c3]) (use 4 v4 in \<open>auto intro: calm_view\<close>)
  have "lane_admissible st3 i = lane_admissible st2 i" using 3(6) by (simp add: lane_admissible_def get_lane_def)
  then have a4: "admitted_on st4 pool i" using admitted_view [OF assms(6)] v4 l4 3(3,4) by simp
  have v4i: "view st4 pool i = Some c'" using v4 3(3) d by simp
  obtain st5 where 5: "release_probe_owned_in st4 pool i (probe_epoch c') = Some st5" "calm pool {} st st5"
    using abandon_calm(1) [OF c4 assms(2,3) v4i assms(5)] by blast
  have ok: "pick_ok cands ctx pool st st4 (Some (i, q))" for q using c4 a4 assms(7,8) by (simp add: pick_ok_def)
  have okn: "pick_ok cands ctx pool st st5 None" using 5(2) by (simp add: pick_ok_def)
  have okp: "pick_ok cands ctx pool st (set_lane st4 i ((lanes st4 ! i)\<lparr>ls_permits := n\<rparr>)) (Some (i, q))" for n q
    using calm_trans [OF c4 calm_mono [OF set_permits(1) [OF 4(2) i4]]] admitted_view [OF a4 set_permits(2,3) [OF 4(2) i4]] assms(7,8)
    by (simp add: pick_ok_def)
  have g4: "get_lane st4 i = Some (lanes st4 ! i)" using i4 by (simp add: get_lane_def)
  show ?thesis
    using e 4(1) 5(1) ok okn okp g4
    by (auto simp: dispatch_won_def drop_probe_guard_def split: option.split WaitOutcome.split)
qed

lemma pick_loop_ok:
  assumes "store_wf st" "\<forall>wl \<in> set cands. wl_idx wl < length (lanes st)"
    and "length (filter (\<lambda>wl. wl_idx wl \<notin> set le) (fill_candidates ctx cands)) < n"
  shows "\<exists>st' k' r. pick_loop n out cands ctx pool po le k st = Some (st', k', r) \<and> pick_ok cands ctx pool st st' r"
  using assms
proof (induction n arbitrary: le k st)
  case (Suc n)
  let ?f = "filter (\<lambda>wl. wl_idx wl \<notin> set le) (fill_candidates ctx cands)"
  have none: "pick_ok cands ctx pool st st None" using calm_refl [OF Suc.prems(1)] by (simp add: pick_ok_def)
  have f: "wl \<in> set cands \<and> wl_idx wl \<notin> set (excluded ctx) \<and> wl_idx wl \<notin> set le" if "wl \<in> set ?f" for wl
    using that by (simp add: fill_candidates_def)
  then have frange: "\<forall>wl \<in> set ?f. wl_idx wl < length (lanes st)" using Suc.prems(2) by blast
  obtain st1 r where 1: "select_lane pool (clk out (k + 1)) ?f po st = Some (st1, r)" "calm pool {} st st1"
    and r: "\<forall>i. r = Some i \<longrightarrow> (\<exists>wl \<in> set ?f. wl_idx wl = i \<and> wl_weight wl \<noteq> 0)"
    using select_lane_calm [OF Suc.prems(1) frange] by blast
  show ?case
  proof (cases "expired ctx (clk out k) \<or> ?f = [] \<or> r = None")
    case True
    then show ?thesis using none 1 by (auto simp: Let_def pick_ok_def)
  next
    case False
    then obtain i where i: "r = Some i" by blast
    then obtain wl where wl: "wl \<in> set ?f" "wl_idx wl = i" "wl_weight wl \<noteq> 0" using r by blast
    note fw = f [OF wl(1)]
    have i1: "i < length (lanes st1)" using frange wl(1,2) calm_len [OF 1(2)] by auto
    obtain st2 won c c' where 2: "usable_for st1 pool i (clk out (k + 2)) = Some (st2, won)" "calm pool {i} st1 st2"
      "\<not> won \<longrightarrow> calm pool {} st1 st2" "view st1 pool i = Some c" "view st2 pool i = Some c'"
      "won \<longrightarrow> admitted_on st2 pool i \<and> won_from c c'"
      using usable_effect [OF calm_wf [OF 1(2)] i1] by blast
    show ?thesis
    proof (cases won)
      case True
      have won: "admitted_on st2 pool i" "won_from c c'" using 2(6) True by blast+
      have "\<exists>wl \<in> set cands. wl_idx wl = i \<and> wl_weight wl \<noteq> 0" "i \<notin> set (excluded ctx)" using fw wl by auto
      then obtain st' k' r' where w: "dispatch_won out ctx pool i (k + 3) st2 = Some (st', k', r')" "pick_ok cands ctx pool st1 st' r'"
        using dispatch_won_ok [OF 2(2) i1 2(4,5) won(2,1)] by blast
      have "pick_loop (Suc n) out cands ctx pool po le k st = Some (st', k', r')"
        using False 1(1) i 2(1) True w(1) by (simp add: Let_def)
      then show ?thesis using pick_ok_after [OF 1(2) w(2)] by blast
    next
      case lost: False
      note c2 = calm_trans [OF 1(2) 2(3) [THEN mp, OF lost]]
      have "length (filter (\<lambda>wl. wl_idx wl \<notin> set (i # le)) (fill_candidates ctx cands)) < length ?f"
      proof -
        have "filter (\<lambda>wl. wl_idx wl \<notin> set (i # le)) (fill_candidates ctx cands) = filter (\<lambda>wl. wl_idx wl \<noteq> i) ?f"
          unfolding filter_filter by (rule filter_cong) auto
        moreover have "length (filter (\<lambda>wl. wl_idx wl \<noteq> i) ?f) < length ?f" using wl(1,2) by (intro length_filter_less) auto
        ultimately show ?thesis by simp
      qed
      then have "length (filter (\<lambda>wl. wl_idx wl \<notin> set (i # le)) (fill_candidates ctx cands)) < n" using Suc.prems(3) by linarith
      moreover have "\<forall>wl \<in> set cands. wl_idx wl < length (lanes st2)" using Suc.prems(2) calm_len [OF c2] by simp
      ultimately obtain st' k' r' where "pick_loop n out cands ctx pool po (i # le) (k + 3) st2 = Some (st', k', r')"
        "pick_ok cands ctx pool st2 st' r'" using Suc.IH [OF calm_wf [OF c2]] by blast
      then show ?thesis
        using False 1(1) i 2(1) lost pick_ok_after [OF c2] by (simp add: Let_def)
    qed
  qed
qed simp

lemma try_sticky_ok:
  assumes "store_wf st" "\<forall>wl \<in> set cands. wl_idx wl < length (lanes st)"
  shows "\<exists>st' r. try_sticky out cands ctx aff pool t st = Some (st', r) \<and> pick_ok cands ctx pool st st' r"
proof (cases "\<exists>h. aff = Some h \<and> cands \<noteq> [] \<and> wl_weight (cands ! (h mod length cands)) \<noteq> 0
    \<and> wl_idx (cands ! (h mod length cands)) \<notin> set (excluded ctx)")
  case False
  then show ?thesis
    using calm_refl [OF assms(1)] by (auto simp: try_sticky_def pick_ok_def Let_def split: option.split)
next
  case True
  then obtain h where h: "aff = Some h" "cands \<noteq> []" "wl_weight (cands ! (h mod length cands)) \<noteq> 0"
    "wl_idx (cands ! (h mod length cands)) \<notin> set (excluded ctx)" by blast
  define wl where "wl = cands ! (h mod length cands)"
  have wl: "wl \<in> set cands" using h(2) by (simp add: wl_def)
  let ?i = "wl_idx wl"
  have i: "?i < length (lanes st)" using assms(2) wl by blast
  obtain st1 won c c' where 1: "usable_for st pool ?i t = Some (st1, won)" "calm pool {?i} st st1"
    "\<not> won \<longrightarrow> calm pool {} st st1" "view st pool ?i = Some c" "view st1 pool ?i = Some c'"
    "won \<longrightarrow> admitted_on st1 pool ?i \<and> won_from c c'"
    using usable_effect [OF assms(1) i] by blast
  have wf1: "store_wf st1" and i1: "?i < length (lanes st1)" using 1(2) i by (simp_all add: calm_def)
  obtain st2 p where 2: "try_acquire (max_permits out) (try_owned out) st1 ?i = Some (st2, p)" "store_wf st2"
    "purse st2 = purse st1" and v2: "\<And>q l. view st2 q l = view st1 q l"
    and l2: "\<And>l. lane_admissible st2 l = lane_admissible st1 l"
    using try_acquire_effect [OF wf1 i1, of "max_permits out" "try_owned out"] by blast
  have c2: "calm pool {?i} st st2" by (rule calm_trans [OF 1(2)]) (use 2 v2 in \<open>auto intro: calm_view\<close>)
  show ?thesis
  proof (cases won)
    case True
    have won: "admitted_on st1 pool ?i" "won_from c c'" using 1(6) True by blast+
    have v2i: "view st2 pool ?i = Some c'" using v2 1(5) by simp
    obtain st3 where 3: "release_probe_in st2 pool ?i = Some st3" "calm pool {} st st3"
      using abandon_calm(2) [OF c2 i 1(4) v2i won(2)] by blast
    have "pick_ok cands ctx pool st st2 (Some (?i, q))" for q
      using c2 admitted_view [OF won(1)] v2 l2 wl h(3,4) by (auto simp: pick_ok_def wl_def)
    moreover have "pick_ok cands ctx pool st st3 None" using 3(2) by (simp add: pick_ok_def)
    ultimately show ?thesis
      using h 1(1) 2(1) 3(1) True by (auto simp: try_sticky_def Let_def wl_def [symmetric] split: option.split)
  next
    case False
    then have "try_sticky out cands ctx aff pool t st = Some (st1, None)"
      using h 1(1) by (simp add: try_sticky_def Let_def wl_def [symmetric])
    then show ?thesis using 1(3) False by (auto simp: pick_ok_def)
  qed
qed

lemma pick_among_ok:
  assumes "store_wf st" "\<forall>wl \<in> set cands. wl_idx wl < length (lanes st)"
  shows "\<exists>st' k' r. pick_among out cands ctx aff pool po k st = Some (st', k', r) \<and> pick_ok cands ctx pool st st' r"
proof -
  obtain st1 r where 1: "try_sticky out cands ctx aff pool (clk out k) st = Some (st1, r)" "pick_ok cands ctx pool st st1 r"
    using try_sticky_ok [OF assms] by blast
  show ?thesis
  proof (cases r)
    case None
    then have c1: "calm pool {} st st1" using 1(2) by (simp add: pick_ok_def)
    have len: "length (filter (\<lambda>wl. wl_idx wl \<notin> set []) (fill_candidates ctx cands)) < Suc (length cands)"
      by (simp add: fill_candidates_def le_imp_less_Suc)
    have rng: "\<forall>wl \<in> set cands. wl_idx wl < length (lanes st1)" using assms(2) calm_len [OF c1] by simp
    obtain st2 k2 r2 where 2: "pick_loop (Suc (length cands)) out cands ctx pool po [] (k + 1) st1 = Some (st2, k2, r2)"
      "pick_ok cands ctx pool st1 st2 r2"
      using pick_loop_ok [OF calm_wf [OF c1] rng len] by blast
    have "pick_among out cands ctx aff pool po k st = Some (st2, k2, r2)"
      unfolding pick_among_def using 1(1) None 2(1) by simp
    then show ?thesis using pick_ok_after [OF c1 2(2)] by blast
  next
    case (Some x)
    then show ?thesis using 1 by (auto simp: pick_among_def)
  qed
qed

text \<open>
  A pick is sound, leaks no recovery probe and always returns. It never panics and its retry
  loop ends. When it returns no lane, every breaker of the pool is in the state it was in, with the same
  deadline, and no probe is held that was not held before, however the pick ended: no candidate,
  deadline passed, semaphore closed, wait timed out or dropped. When it returns a lane, that lane is a
  candidate that is neither drained nor excluded, is admissible, and its breaker is closed or half-open
  with the probe held by this request; every other lane of the pool is untouched as before.
\<close>

theorem pick_is_sound:
  assumes "store_wf st" "\<forall>wl \<in> set cands. wl_idx wl < length (lanes st)"
  shows "\<exists>st' k' r. pick_among out cands ctx affinity pool policy_order k st = Some (st', k', r)
    \<and> store_wf st'
    \<and> (\<forall>l c c'. view st pool l = Some c \<and> view st' pool l = Some c' \<and> (\<forall>p. r \<noteq> Some (l, p)) \<longrightarrow>
         breaker_state c' = breaker_state c \<and> cooldown_until c' = cooldown_until c \<and> (probe_in_flight c' \<longrightarrow> probe_in_flight c))
    \<and> (\<forall>i p. r = Some (i, p) \<longrightarrow> i \<notin> set (excluded ctx) \<and> (\<exists>wl \<in> set cands. wl_idx wl = i \<and> wl_weight wl \<noteq> 0)
         \<and> lane_admissible st' i = Some True
         \<and> (\<exists>c. view st' pool i = Some c \<and> (breaker_state c = ST_CLOSED \<or> breaker_state c = ST_HALF_OPEN \<and> probe_in_flight c)))"
proof -
  obtain st' k' r where p: "pick_among out cands ctx affinity pool policy_order k st = Some (st', k', r)" "pick_ok cands ctx pool st st' r"
    using pick_among_ok [OF assms] by blast
  have calm: "calm pool {l. \<exists>p. r = Some (l, p)} st st'"
    using p(2) by (auto simp: pick_ok_def split: option.splits intro: calm_mono)
  have "\<forall>l c c'. view st pool l = Some c \<and> view st' pool l = Some c' \<and> (\<forall>p. r \<noteq> Some (l, p)) \<longrightarrow> same_breaker c c'"
    using calm by (auto simp: calm_def)
  then have a: "\<forall>l c c'. view st pool l = Some c \<and> view st' pool l = Some c' \<and> (\<forall>p. r \<noteq> Some (l, p)) \<longrightarrow>
      breaker_state c' = breaker_state c \<and> cooldown_until c' = cooldown_until c \<and> (probe_in_flight c' \<longrightarrow> probe_in_flight c)"
    unfolding same_breaker_def .
  have b: "\<forall>i p. r = Some (i, p) \<longrightarrow> i \<notin> set (excluded ctx) \<and> (\<exists>wl \<in> set cands. wl_idx wl = i \<and> wl_weight wl \<noteq> 0)
      \<and> lane_admissible st' i = Some True
      \<and> (\<exists>c. view st' pool i = Some c \<and> (breaker_state c = ST_CLOSED \<or> breaker_state c = ST_HALF_OPEN \<and> probe_in_flight c))"
    using p(2) by (auto simp: pick_ok_def admitted_on_def)
  show ?thesis using p(1) calm_wf [OF calm] a b by blast
qed

definition example_outside :: Outside where
  "example_outside = \<lparr>clk = (\<lambda>k. 5), jit = (\<lambda>k. (1, 2)), max_permits = 10, try_owned = (\<lambda>n. None), release_owned = Suc,
     park = (\<lambda>k i r. TimedOut), upstream = (\<lambda>k i. SendError), decide = (\<lambda>n g. WeightedOutcome)\<rparr>"

definition example_cands :: "WeightedLane list" where
  "example_cands = [\<lparr>wl_idx = 0, wl_weight = 3, wl_reasoning = None, wl_attempt_timeout_ms = None\<rparr>,
     \<lparr>wl_idx = 1, wl_weight = 1, wl_reasoning = None, wl_attempt_timeout_ms = None\<rparr>]"

theorem pick_is_sound_witness:
  "\<exists>st' k' r. pick_among example_outside example_cands (RequestCtx_new 0 60) (Some 7) ''p'' (Some [1, 0]) 0 example_store = Some (st', k', r)
     \<and> store_wf st'"
  using pick_is_sound [OF example_store_wf, of example_cands example_outside "RequestCtx_new 0 60" "Some 7" "''p''" "Some [1, 0]" 0]
  by (auto simp: example_cands_def example_length)

end
