(* ===== verification/Forward.thy ===== *)
theory Forward
  imports Select Bytes
begin

text \<open>
  Forwarding one request (\<open>proxy/engine/mod.rs\<close>, \<open>proxy/engine/walk.rs\<close>): the decision gates, the
  failover loop with the breaker disposition of each attempt, and the walk over exhausted pools. Every
  function returns, beside the store and the answer, the (pool, lane) of each request that was sent
  upstream. \<open>None\<close> is a panic (a lane index out of range) or spent fuel. Bodies, headers and codecs are
  not modelled: what a codec or the network does with an attempt is \<open>upstream\<close>, what a hook answers is
  \<open>decide\<close>. The k-th reading of the clock is \<open>clk k\<close>.
\<close>

subsection \<open>Configuration\<close>

record FailoverCfg =
  timeout_secs :: nat
  exclusions :: "string list option"
  max_hops :: nat

definition DEFAULT_FAILOVER_DEADLINE_SECS :: nat where
  "DEFAULT_FAILOVER_DEADLINE_SECS = 120"

definition DEFAULT_FAILOVER_CAP :: nat where
  "DEFAULT_FAILOVER_CAP = 3"

datatype OnExhausted = Status503 | FallbackPool string | LeastBad

datatype UpstreamCreds = Own | Passthrough

text \<open>\<open>la_supports\<close>: the lane's protocol holds a handler for the operation of this request.\<close>

record Lane =
  la_model :: string
  la_provider :: string
  la_upstream_model :: "string option"
  la_protocol :: string
  la_error_map :: "(string \<times> string) list"
  la_context_max :: "nat option"
  la_supports :: bool

text \<open>A gate or policy is known by a number; a gate has a priority.\<close>

record PoolRuntime =
  rt_members :: "(nat \<times> string list) list"
  rt_failover :: "FailoverCfg option"
  rt_breaker :: "BreakerCfg option"
  rt_policy :: "nat option"
  rt_gates :: "(nat \<times> nat) list"

record App =
  app_lanes :: "Lane list"
  failover_cfg :: "FailoverCfg option"
  pool_runtime :: "(string \<times> PoolRuntime) list"
  fallback_pools :: "(string \<times> WeightedLane list) list"
  on_exhausted_cfgs :: "(string \<times> OnExhausted) list"
  global_gates :: "(nat \<times> nat) list"
  upstream_creds :: UpstreamCreds

definition app_lane :: "App \<Rightarrow> nat \<Rightarrow> Lane option" where
  "app_lane app i = (if i < length (app_lanes app) then Some (app_lanes app ! i) else None)"

definition pool_tags :: "App \<Rightarrow> member_tags" where
  "pool_tags app pool i = (case al_get (pool_runtime app) pool of None \<Rightarrow> None | Some rt \<Rightarrow> al_get (rt_members rt) i)"

definition resolve_breaker_cfg :: "App \<Rightarrow> string \<Rightarrow> BreakerCfg" where
  "resolve_breaker_cfg app pool =
     (case al_get (pool_runtime app) pool of
        None \<Rightarrow> BreakerCfg_default
      | Some rt \<Rightarrow> (case rt_breaker rt of Some cfg \<Rightarrow> cfg | None \<Rightarrow> BreakerCfg_default))"

definition pool_failover :: "App \<Rightarrow> string \<Rightarrow> FailoverCfg option" where
  "pool_failover app pool =
     (case al_get (pool_runtime app) pool of
        None \<Rightarrow> failover_cfg app
      | Some rt \<Rightarrow> (case rt_failover rt of Some f \<Rightarrow> Some f | None \<Rightarrow> failover_cfg app))"

text \<open>
  The answer to the client: a 503 with \<open>Retry-After\<close>, a 503 for an empty pool, a deadline passed, a
  gate's refusal, an error of the router's own, the answer to a rejected lane credential, an error relayed
  from a lane, or a completion from a lane.
\<close>

datatype Response =
    OverloadedFor nat
  | NoMembers
  | RequestTimeout
  | GateRejected nat
  | LocalError nat
  | AuthFailure
  | UpstreamError string nat nat
  | Delivered string nat

type_synonym sends = "(string \<times> nat) list"

subsection \<open>One attempt\<close>

definition drop_permit :: "Outside \<Rightarrow> Permit \<Rightarrow> nat \<Rightarrow> InMemoryStore \<Rightarrow> InMemoryStore option" where
  "drop_permit out permit i st =
     (case permit of
        Unbounded \<Rightarrow> Some st
      | Bounded \<Rightarrow> do { ls \<leftarrow> get_lane st i; Some (set_lane st i (ls\<lparr>ls_permits := release_owned out (ls_permits ls)\<rparr>)) })"

definition record_transient_in ::
  "Outside \<Rightarrow> App \<Rightarrow> string \<Rightarrow> nat \<Rightarrow> nat option \<Rightarrow> nat \<Rightarrow> InMemoryStore \<Rightarrow> InMemoryStore option" where
  "record_transient_in out app pool i ra k st =
     do { (st1, tripped) \<leftarrow> record_failure_for st pool i (clk out k) (resolve_breaker_cfg app pool) ra (jit out k); Some st1 }"

text \<open>An exit that records no outcome: the probe is released and the permit dropped.\<close>

definition release_and_drop :: "Outside \<Rightarrow> string \<Rightarrow> nat \<Rightarrow> Permit \<Rightarrow> InMemoryStore \<Rightarrow> InMemoryStore option" where
  "release_and_drop out pool i permit st = do { st1 \<leftarrow> release_probe_in st pool i; drop_permit out permit i st1 }"

definition is_success :: "nat \<Rightarrow> bool" where
  "is_success status \<longleftrightarrow> 200 \<le> status \<and> status < 300"

text \<open>
  A 2xx, on both paths: the success, the latency and the budget are recorded on the headers. A buffered
  body that has to be translated may still fail; a streamed one, and one in the client's own protocol, is
  handed to the response body with the permit.
\<close>

definition serve_2xx ::
  "Outside \<Rightarrow> App \<Rightarrow> string \<Rightarrow> string \<Rightarrow> nat \<Rightarrow> Permit \<Rightarrow> UpstreamResponse \<Rightarrow> nat \<Rightarrow> InMemoryStore
   \<Rightarrow> (InMemoryStore \<times> Response) option" where
  "serve_2xx out app ingress pool i permit r k st = do {
     lane \<leftarrow> app_lane app i;
     st1 \<leftarrow> record_success_for st pool i (clk out k);
     st2 \<leftarrow> record_latency_in st1 i (ur_latency_ms r);
     (st3, budget_spent) \<leftarrow> spend_budget st2 i;
     if ingress \<noteq> la_protocol lane \<and> \<not> ur_is_sse r then do {
       st4 \<leftarrow> drop_permit out permit i st3;
       case ur_read_end r of
         TransportError \<Rightarrow> do {
           st5 \<leftarrow> record_transient_in out app pool i None (k + 1) st4;
           st6 \<leftarrow> (if budget_spent then refund_budget st5 i else Some st5);
           Some (st6, LocalError 502) }
       | Truncated \<Rightarrow> Some (st4, LocalError 500)
       | Complete \<Rightarrow> Some (st4, (case ur_failed r of None \<Rightarrow> Delivered pool i | Some status \<Rightarrow> LocalError status)) }
     else Some (st3, Delivered pool i) }"

text \<open>
  The attempt of the degraded paths: no disposition, every non-2xx is a transient failure and is relayed.
  The answer is \<open>None\<close> when the caller should try another lane.
\<close>

definition forward_once ::
  "Outside \<Rightarrow> App \<Rightarrow> string \<Rightarrow> nat \<Rightarrow> Permit \<Rightarrow> string \<Rightarrow> nat \<Rightarrow> InMemoryStore
   \<Rightarrow> (InMemoryStore \<times> sends \<times> Response option) option" where
  "forward_once out app ingress i permit pool k st =
     (case upstream out k i of
        ParseFailed \<Rightarrow> do { st1 \<leftarrow> release_and_drop out pool i permit st; Some (st1, [], Some (LocalError 400)) }
      | TranslateFailed status \<Rightarrow> do { st1 \<leftarrow> release_and_drop out pool i permit st; Some (st1, [], Some (LocalError status)) }
      | NoPath \<Rightarrow> do { st1 \<leftarrow> release_and_drop out pool i permit st; Some (st1, [], Some (LocalError 500)) }
      | AttemptTimeout \<Rightarrow> do {
          st1 \<leftarrow> record_transient_in out app pool i None (k + 1) st;
          st2 \<leftarrow> release_and_drop out pool i permit st1;
          Some (st2, [(pool, i)], None) }
      | SendError \<Rightarrow> do {
          st1 \<leftarrow> record_transient_in out app pool i None (k + 1) st;
          st2 \<leftarrow> drop_permit out permit i st1;
          Some (st2, [(pool, i)], None) }
      | Headers r \<Rightarrow>
          if \<not> is_success (ur_status r) then do {
            st1 \<leftarrow> record_transient_in out app pool i None (k + 1) st;
            st2 \<leftarrow> release_and_drop out pool i permit st1;
            Some (st2, [(pool, i)], Some (UpstreamError pool i (ur_status r))) }
          else do {
            (st1, resp) \<leftarrow> serve_2xx out app ingress pool i permit r (k + 1) st;
            Some (st1, [(pool, i)], Some resp) })"

subsection \<open>The attempt of the main path\<close>

definition hard_down_reason :: "StatusClass \<Rightarrow> nat \<Rightarrow> string" where
  "hard_down_reason c status =
     (case c of
        Billing \<Rightarrow> ''billing / insufficient balance''
      | Auth \<Rightarrow> ''auth rejected (HTTP '' @ to_decimal status @ '')''
      | _ \<Rightarrow> ''request rejected (HTTP '' @ to_decimal status @ '')'')"

text \<open>Too large for this lane: so are the candidates whose known window is no larger.\<close>

fun exclude_smaller :: "App \<Rightarrow> nat option \<Rightarrow> WeightedLane list \<Rightarrow> RequestCtx \<Rightarrow> RequestCtx option" where
  "exclude_smaller app failed [] ctx = Some ctx"
| "exclude_smaller app failed (cand # cands) ctx = do {
     lane \<leftarrow> app_lane app (wl_idx cand);
     exclude_smaller app failed cands
       (case (la_context_max lane, failed) of
          (Some cand_max, Some failed_limit) \<Rightarrow> if cand_max \<le> failed_limit then exclude (wl_idx cand) ctx else ctx
        | _ \<Rightarrow> ctx) }"

text \<open>The breaker disposition of a response that is not a 2xx.\<close>

definition dispose ::
  "Outside \<Rightarrow> App \<Rightarrow> WeightedLane list \<Rightarrow> nat \<Rightarrow> Permit \<Rightarrow> string \<Rightarrow> UpstreamResponse \<Rightarrow> nat \<Rightarrow> RequestCtx \<Rightarrow> InMemoryStore
   \<Rightarrow> (InMemoryStore \<times> RequestCtx \<times> Response option) option" where
  "dispose out app cands i permit pool r k ctx st = do {
     lane \<leftarrow> app_lane app i;
     let sig = normalize_raw_error ((ur_raw r)\<lparr>retry_after_secs := ur_retry_after r\<rparr>) (map_of (la_error_map lane));
     case classify sig of
       ClientFault \<Rightarrow> do {
         st1 \<leftarrow> record_client_fault st i;
         st2 \<leftarrow> release_and_drop out pool i permit st1;
         Some (st2, ctx, Some (UpstreamError pool i (ur_status r))) }
     | TransientUpstream \<Rightarrow> do {
         st1 \<leftarrow> record_transient_in out app pool i (retry_after sig) k st;
         st2 \<leftarrow> drop_permit out permit i st1;
         Some (st2, ctx, None) }
     | HardDown \<Rightarrow> do {
         (st1, newly_tripped) \<leftarrow> record_hard_down_all_cells st i (hard_down_reason (sig_class sig) (ur_status r)) (clk out k);
         st2 \<leftarrow> drop_permit out permit i st1;
         Some (st2, ctx, if sig_class sig = Auth then Some AuthFailure else None) }
     | ContextLengthD \<Rightarrow> do {
         ctx1 \<leftarrow> exclude_smaller app (la_context_max lane) cands ctx;
         st1 \<leftarrow> release_and_drop out pool i permit st;
         Some (st1, ctx1, None) } }"

definition attempt ::
  "Outside \<Rightarrow> App \<Rightarrow> string \<Rightarrow> WeightedLane list \<Rightarrow> nat \<Rightarrow> Permit \<Rightarrow> string \<Rightarrow> nat \<Rightarrow> RequestCtx \<Rightarrow> InMemoryStore
   \<Rightarrow> (InMemoryStore \<times> RequestCtx \<times> sends \<times> Response option) option" where
  "attempt out app ingress cands i permit pool k ctx st =
     (case upstream out k i of
        ParseFailed \<Rightarrow> do { st1 \<leftarrow> release_and_drop out pool i permit st; Some (st1, ctx, [], Some (LocalError 500)) }
      | TranslateFailed status \<Rightarrow> do { st1 \<leftarrow> release_and_drop out pool i permit st; Some (st1, ctx, [], Some (LocalError status)) }
      | NoPath \<Rightarrow> do { st1 \<leftarrow> release_and_drop out pool i permit st; Some (st1, ctx, [], Some (LocalError 500)) }
      | AttemptTimeout \<Rightarrow> do {
          st1 \<leftarrow> record_transient_in out app pool i None (k + 1) st;
          st2 \<leftarrow> drop_permit out permit i st1;
          Some (st2, ctx, [(pool, i)], None) }
      | SendError \<Rightarrow> do {
          st1 \<leftarrow> record_transient_in out app pool i None (k + 1) st;
          st2 \<leftarrow> drop_permit out permit i st1;
          Some (st2, ctx, [(pool, i)], None) }
      | Headers r \<Rightarrow>
          if is_success (ur_status r) then do {
            (st1, resp) \<leftarrow> serve_2xx out app ingress pool i permit r (k + 1) st;
            Some (st1, ctx, [(pool, i)], Some resp) }
          else if upstream_creds app = Passthrough \<and> (ur_status r = 401 \<or> ur_status r = 403) then do {
            st1 \<leftarrow> release_and_drop out pool i permit st;
            Some (st1, ctx, [(pool, i)], Some (UpstreamError pool i (ur_status r))) }
          else do {
            (st1, ctx1, resp) \<leftarrow> dispose out app cands i permit pool r (k + 1) ctx st;
            Some (st1, ctx1, [(pool, i)], resp) })"

subsection \<open>Pool exhaustion\<close>

fun soonest ::
  "string \<Rightarrow> nat \<Rightarrow> WeightedLane list \<Rightarrow> nat option \<Rightarrow> nat \<Rightarrow> InMemoryStore \<Rightarrow> (InMemoryStore \<times> nat option) option" where
  "soonest pool now [] idx best st = Some (st, idx)"
| "soonest pool now (wl # wls) idx best st = do {
     (st1, r) \<leftarrow> cooldown_remaining_for st pool (wl_idx wl) now;
     if r < best then soonest pool now wls (Some (wl_idx wl)) r st1 else soonest pool now wls idx best st1 }"

definition find_soonest_cooldown ::
  "string \<Rightarrow> nat \<Rightarrow> WeightedLane list \<Rightarrow> InMemoryStore \<Rightarrow> (InMemoryStore \<times> nat option) option" where
  "find_soonest_cooldown pool now cands st = soonest pool now cands None u64_max st"

type_synonym answer = "(InMemoryStore \<times> sends \<times> Response) option"

definition handle_status_503 :: "string \<Rightarrow> nat \<Rightarrow> WeightedLane list \<Rightarrow> InMemoryStore \<Rightarrow> answer" where
  "handle_status_503 pool now cands st = do {
     (st1, idx) \<leftarrow> find_soonest_cooldown pool now cands st;
     case idx of
       None \<Rightarrow> Some (st1, [], OverloadedFor (max 1 1))
     | Some i \<Rightarrow> do { (st2, r) \<leftarrow> cooldown_remaining_for st1 pool i now; Some (st2, [], OverloadedFor (max r 1)) } }"

definition handle_least_bad ::
  "Outside \<Rightarrow> App \<Rightarrow> string \<Rightarrow> string \<Rightarrow> nat \<Rightarrow> WeightedLane list \<Rightarrow> nat \<Rightarrow> InMemoryStore \<Rightarrow> answer" where
  "handle_least_bad out app ingress pool now cands k st = do {
     (st1, idx) \<leftarrow> find_soonest_cooldown pool now cands st;
     case idx of
       None \<Rightarrow> handle_status_503 pool now cands st1
     | Some i \<Rightarrow> do {
         (st2, p) \<leftarrow> try_acquire (max_permits out) (try_owned out) st1 i;
         case p of
           None \<Rightarrow> handle_status_503 pool now cands st2
         | Some permit \<Rightarrow> do {
             (st3, sent, resp) \<leftarrow> forward_once out app ingress i permit pool k st2;
             case resp of
               Some r \<Rightarrow> Some (st3, sent, r)
             | None \<Rightarrow> do { (st4, more, r) \<leftarrow> handle_status_503 pool now cands st3; Some (st4, sent @ more, r) } } } }"

text \<open>
  The walk over fallback pools. The loop over one pool's members excludes a lane per round and has one
  more round than the pool has members; when the pool is exhausted it re-enters the handler of
  exhaustion, the argument \<open>exhausted\<close>. \<open>hops\<close> is the fuel of that recursion, which the visited set
  bounds by the number of fallback pools. An attempt reads the clock at most four times.
\<close>

type_synonym exhaustion = "WeightedLane list \<Rightarrow> nat \<Rightarrow> string \<Rightarrow> RequestCtx \<Rightarrow> nat \<Rightarrow> InMemoryStore \<Rightarrow> answer"

fun fallback_loop ::
  "exhaustion \<Rightarrow> nat \<Rightarrow> Outside \<Rightarrow> App \<Rightarrow> string \<Rightarrow> WeightedLane list \<Rightarrow> string \<Rightarrow> RequestCtx \<Rightarrow> nat \<Rightarrow> InMemoryStore \<Rightarrow> answer" where
  "fallback_loop exhausted 0 out app ingress cands pool ctx k st = None"
| "fallback_loop exhausted (Suc n) out app ingress cands pool ctx k st =
     (if expired ctx (clk out k) then Some (st, [], RequestTimeout)
      else do {
        (st1, k1, picked) \<leftarrow> pick_among out cands ctx None pool None (k + 1) st;
        case picked of
          None \<Rightarrow> exhausted cands (clk out k1) pool ctx (k1 + 1) st1
        | Some (i, permit) \<Rightarrow> do {
            let ctx = exclude i ctx;
            (st2, sent, resp) \<leftarrow> forward_once out app ingress i permit pool k1 st1;
            case resp of
              Some r \<Rightarrow> Some (st2, sent, r)
            | None \<Rightarrow> do {
                (st3, more, r) \<leftarrow> fallback_loop exhausted n out app ingress cands pool ctx (k1 + 4) st2;
                Some (st3, sent @ more, r) } } })"

definition handle_fallback_pool ::
  "exhaustion \<Rightarrow> Outside \<Rightarrow> App \<Rightarrow> string \<Rightarrow> string \<Rightarrow> RequestCtx \<Rightarrow> nat \<Rightarrow> InMemoryStore \<Rightarrow> answer" where
  "handle_fallback_pool exhausted out app ingress pool ctx k st =
     (if expired ctx (clk out k) then Some (st, [], RequestTimeout)
      else if is_pool_visited pool ctx then handle_status_503 pool (clk out (k + 1)) [] st
      else case al_get (fallback_pools app) pool of
        None \<Rightarrow> handle_status_503 pool (clk out (k + 1)) [] st
      | Some cands \<Rightarrow>
          (case enforce_restricts ctx (pool_tags app) pool cands of
             Inl name \<Rightarrow> Some (st, [], GateRejected 503)
           | Inr cands \<Rightarrow>
               fallback_loop exhausted (Suc (length cands)) out app ingress cands pool (mark_pool_visited pool ctx) (k + 1) st))"

fun handle_exhaustion_for_pool :: "nat \<Rightarrow> Outside \<Rightarrow> App \<Rightarrow> string \<Rightarrow> exhaustion" where
  "handle_exhaustion_for_pool 0 out app ingress cands now pool ctx k st = None"
| "handle_exhaustion_for_pool (Suc hops) out app ingress cands now pool ctx k st =
     (let ctx = mark_pool_visited pool ctx;
          mode = (case al_get (on_exhausted_cfgs app) pool of Some m \<Rightarrow> m | None \<Rightarrow> Status503)
      in case mode of
           Status503 \<Rightarrow> handle_status_503 pool now cands st
         | FallbackPool fallback \<Rightarrow>
             handle_fallback_pool (handle_exhaustion_for_pool hops out app ingress) out app ingress fallback ctx k st
         | LeastBad \<Rightarrow> handle_least_bad out app ingress pool now cands k st)"

subsection \<open>The decision gates\<close>

text \<open>One chain, by ascending priority; the sort is stable, so global gates come first among equals.\<close>

definition gate_chain :: "App \<Rightarrow> string \<Rightarrow> (nat \<times> nat) list" where
  "gate_chain app pool =
     sort_key fst (global_gates app @ (case al_get (pool_runtime app) pool of None \<Rightarrow> [] | Some rt \<Rightarrow> rt_gates rt))"

definition gate_outcomes :: "Outside \<Rightarrow> App \<Rightarrow> string \<Rightarrow> PolicyOutcome list" where
  "gate_outcomes out app pool = map (\<lambda>n. decide out n (snd (gate_chain app pool ! n))) [0..<length (gate_chain app pool)]"

text \<open>The outcome of the pool's own routing policy, if it has one.\<close>

definition policy_outcome :: "Outside \<Rightarrow> App \<Rightarrow> string \<Rightarrow> PolicyOutcome option" where
  "policy_outcome out app pool =
     map_option (decide out (length (gate_chain app pool))) (Option.bind (al_get (pool_runtime app) pool) rt_policy)"

definition gate_status :: "nat \<Rightarrow> nat" where
  "gate_status status = (if 100 \<le> status \<and> status \<le> 999 then status else 403)"

text \<open>First: the first rejecting gate of the chain answers.\<close>

fun first_reject :: "PolicyOutcome list \<Rightarrow> Response option" where
  "first_reject [] = None"
| "first_reject (RejectRequest status message name # os) = Some (GateRejected (gate_status status))"
| "first_reject (RejectOutcome # os) = Some (GateRejected 503)"
| "first_reject (_ # os) = first_reject os"

text \<open>Second: each restrict is recorded in the context and narrows the candidates.\<close>

definition reconcile_restrict ::
  "App \<Rightarrow> string \<Rightarrow> RestrictConstraint \<Rightarrow> RequestCtx \<times> WeightedLane list \<Rightarrow> Response + RequestCtx \<times> WeightedLane list" where
  "reconcile_restrict app pool r s =
     (case s of (ctx, cands) \<Rightarrow>
        let ctx = ctx\<lparr>active_restricts := active_restricts ctx @ [r]\<rparr>;
            restricted = filter (restrict_ok (pool_tags app) pool r) cands
        in if restricted = [] then if on_empty r = Weighted then Inr (ctx, cands) else Inl (GateRejected 503)
           else Inr (ctx, restricted))"

fun reconcile_restricts ::
  "App \<Rightarrow> string \<Rightarrow> PolicyOutcome list \<Rightarrow> RequestCtx \<times> WeightedLane list \<Rightarrow> Response + RequestCtx \<times> WeightedLane list" where
  "reconcile_restricts app pool [] s = Inr s"
| "reconcile_restricts app pool (RestrictOutcome tags name oe # os) s =
     (case reconcile_restrict app pool \<lparr>tags_any = tags, on_empty = oe, rs_name = name\<rparr> s of
        Inl resp \<Rightarrow> Inl resp
      | Inr s' \<Rightarrow> reconcile_restricts app pool os s')"
| "reconcile_restricts app pool (_ # os) s = reconcile_restricts app pool os s"

text \<open>Third: the last order of the chain that still names a candidate.\<close>

fun reconcile_order :: "WeightedLane list \<Rightarrow> nat list option \<Rightarrow> PolicyOutcome list \<Rightarrow> nat list option" where
  "reconcile_order cands order [] = order"
| "reconcile_order cands order (OrderOutcome ord name # os) =
     (let filtered = filter (\<lambda>i. i \<in> set (map wl_idx cands)) ord
      in reconcile_order cands (if filtered = [] then order else Some filtered) os)"
| "reconcile_order cands order (_ # os) = reconcile_order cands order os"

text \<open>The gates, then, unless a gate ordered, the pool's own routing policy.\<close>

definition run_gates ::
  "Outside \<Rightarrow> App \<Rightarrow> string \<Rightarrow> RequestCtx \<times> WeightedLane list \<Rightarrow> Response + (RequestCtx \<times> WeightedLane list) \<times> nat list option" where
  "run_gates out app pool s =
     (let outcomes = gate_outcomes out app pool in
      case first_reject outcomes of
        Some resp \<Rightarrow> Inl resp
      | None \<Rightarrow>
          (case reconcile_restricts app pool outcomes s of
             Inl resp \<Rightarrow> Inl resp
           | Inr (ctx, cands) \<Rightarrow> Inr ((ctx, cands), reconcile_order cands None outcomes)))"

definition run_policy ::
  "Outside \<Rightarrow> App \<Rightarrow> string \<Rightarrow> (RequestCtx \<times> WeightedLane list) \<times> nat list option
   \<Rightarrow> Response + (RequestCtx \<times> WeightedLane list) \<times> nat list option" where
  "run_policy out app pool x =
     (case x of
        (s, Some order) \<Rightarrow> Inr (s, Some order)
      | (s, None) \<Rightarrow>
          (case policy_outcome out app pool of
             None \<Rightarrow> Inr (s, None)
           | Some (OrderOutcome order name) \<Rightarrow> Inr (s, Some order)
           | Some WeightedOutcome \<Rightarrow> Inr (s, None)
           | Some RejectOutcome \<Rightarrow> Inl (GateRejected 503)
           | Some (RejectRequest status message name) \<Rightarrow> Inl (GateRejected (gate_status status))
           | Some (RestrictOutcome tags name oe) \<Rightarrow>
               (case reconcile_restrict app pool \<lparr>tags_any = tags, on_empty = oe, rs_name = name\<rparr> s of
                  Inl resp \<Rightarrow> Inl resp
                | Inr s' \<Rightarrow> Inr (s', None))))"

subsection \<open>The failover loop\<close>

text \<open>One round per hop; \<open>hops\<close> is the fuel of the walk over fallback pools.\<close>

fun failover_loop ::
  "nat \<Rightarrow> nat \<Rightarrow> Outside \<Rightarrow> App \<Rightarrow> string \<Rightarrow> WeightedLane list \<Rightarrow> nat option \<Rightarrow> string \<Rightarrow> nat list option \<Rightarrow> RequestCtx \<Rightarrow> nat
   \<Rightarrow> InMemoryStore \<Rightarrow> answer" where
  "failover_loop hops 0 out app ingress cands affinity pool policy_order ctx k st =
     handle_exhaustion_for_pool hops out app ingress cands (clk out k) pool ctx (k + 1) st"
| "failover_loop hops (Suc n) out app ingress cands affinity pool policy_order ctx k st =
     (if expired ctx (clk out k) then Some (st, [], RequestTimeout)
      else do {
        (st1, k1, picked) \<leftarrow> pick_among out cands ctx affinity pool policy_order (k + 1) st;
        case picked of
          None \<Rightarrow>
            if cands = [] then Some (st1, [], NoMembers)
            else handle_exhaustion_for_pool hops out app ingress cands (clk out k1) pool ctx (k1 + 1) st1
        | Some (i, permit) \<Rightarrow> do {
            let ctx = exclude i ctx;
            (st2, ctx1, sent, resp) \<leftarrow> attempt out app ingress cands i permit pool k1 ctx st1;
            case resp of
              Some r \<Rightarrow> Some (st2, sent, r)
            | None \<Rightarrow> do {
                (st3, more, r) \<leftarrow> failover_loop hops n out app ingress cands affinity pool policy_order ctx1 (k1 + 4) st2;
                Some (st3, sent @ more, r) } } })"

text \<open>The members named in the pool's exclusions.\<close>

fun apply_exclusions :: "App \<Rightarrow> string list \<Rightarrow> WeightedLane list \<Rightarrow> RequestCtx \<Rightarrow> RequestCtx option" where
  "apply_exclusions app excl [] ctx = Some ctx"
| "apply_exclusions app excl (wl # cands) ctx = do {
     lane \<leftarrow> app_lane app (wl_idx wl);
     apply_exclusions app excl cands (if la_model lane \<in> set excl then exclude (wl_idx wl) ctx else ctx) }"

fun supporting :: "App \<Rightarrow> WeightedLane list \<Rightarrow> WeightedLane list option" where
  "supporting app [] = Some []"
| "supporting app (wl # cands) = do {
     lane \<leftarrow> app_lane app (wl_idx wl);
     kept \<leftarrow> supporting app cands;
     Some (if la_supports lane then wl # kept else kept) }"

definition forward_with_pool ::
  "nat \<Rightarrow> Outside \<Rightarrow> App \<Rightarrow> string \<Rightarrow> WeightedLane list \<Rightarrow> nat option \<Rightarrow> string \<Rightarrow> InMemoryStore \<Rightarrow> answer" where
  "forward_with_pool hops out app ingress all_cands affinity pool st = do {
     cands \<leftarrow> supporting app all_cands;
     if cands = [] \<and> all_cands \<noteq> [] then Some (st, [], LocalError 404)
     else do {
       let failover = pool_failover app pool;
       let deadline_secs = (case failover of Some f \<Rightarrow> timeout_secs f | None \<Rightarrow> DEFAULT_FAILOVER_DEADLINE_SECS);
       let max_cap = (case failover of Some f \<Rightarrow> max_hops f | None \<Rightarrow> DEFAULT_FAILOVER_CAP);
       let ctx = RequestCtx_new (clk out 0) deadline_secs;
       ctx \<leftarrow> (case Option.bind failover exclusions of Some excl \<Rightarrow> apply_exclusions app excl cands ctx | None \<Rightarrow> Some ctx);
       case run_gates out app pool (ctx, cands) of
         Inl resp \<Rightarrow> Some (st, [], resp)
       | Inr gated \<Rightarrow>
           (case run_policy out app pool gated of
              Inl resp \<Rightarrow> Some (st, [], resp)
            | Inr ((ctx, cands), order) \<Rightarrow>
                failover_loop hops (Suc max_cap) out app ingress cands affinity pool order ctx 1 st) } }"

end
