(* ===== verification/Attempt.thy ===== *)
theory Attempt
  imports Pick Forward
begin

text \<open>
  What an attempt on a lane does to the store, for both forwarding paths: every outcome of an attempt
  leaves the lane's cell out of the half-open state, and an attempt costs at most one unit of the lane's
  budget, on the answer it gave.
\<close>

subsection \<open>Tidy steps\<close>

text \<open>A step that keeps the store well formed, spends nothing, takes no probe and ends those of \<open>X\<close>.\<close>

definition tidy :: "InMemoryStore \<Rightarrow> (string \<times> nat) set \<Rightarrow> InMemoryStore \<Rightarrow> bool" where
  "tidy st X st' \<longleftrightarrow> store_wf st' \<and> purse st' = purse st \<and> probes st' \<subseteq> probes st - X"

definition does :: "InMemoryStore \<Rightarrow> (string \<times> nat) set \<Rightarrow> InMemoryStore option \<Rightarrow> bool" where
  "does st X m \<longleftrightarrow> (\<exists>st'. m = Some st' \<and> tidy st X st')"

lemma doesE: "does st X m \<Longrightarrow> (\<And>st'. m = Some st' \<Longrightarrow> tidy st X st' \<Longrightarrow> thesis) \<Longrightarrow> thesis"
  by (auto simp: does_def)

lemma tidy_refl: "store_wf st \<Longrightarrow> tidy st {} st"
  by (simp add: tidy_def)

lemma tidy_trans: "tidy st X st1 \<Longrightarrow> tidy st1 Y st2 \<Longrightarrow> tidy st (X \<union> Y) st2"
  by (auto simp: tidy_def)

lemma tidy_mono: "tidy st X st' \<Longrightarrow> Y \<subseteq> X \<Longrightarrow> tidy st Y st'"
  by (auto simp: tidy_def)

lemma tidy_length: "tidy st X st' \<Longrightarrow> length (lanes st') = length (lanes st)"
  unfolding tidy_def by (blast intro: purse_length)

lemma tidy_next: "tidy st X st' \<Longrightarrow> i < length (lanes st) \<Longrightarrow> store_wf st' \<and> i < length (lanes st')"
  using tidy_length [of st X st'] by (simp add: tidy_def)

lemma purse_nth: "i < length (lanes st) \<Longrightarrow> purse st ! i = (dead (lanes st ! i), limited (lanes st ! i), budget (lanes st ! i))"
  by (simp add: purse_def)

lemma purse_dead:
  "purse st' = purse st \<Longrightarrow> i < length (lanes st) \<Longrightarrow> dead (lanes st' ! i) = dead (lanes st ! i)"
  using purse_nth [of i st] purse_nth [of i st'] purse_length [of st' st] by simp

lemma does_bind:
  "does st X m \<Longrightarrow> (\<And>st1. tidy st X st1 \<Longrightarrow> does st1 Y (f st1)) \<Longrightarrow> does st (X \<union> Y) (Option.bind m f)"
  unfolding does_def by (fastforce intro: tidy_trans)

lemma does_mono: "does st X m \<Longrightarrow> Y \<subseteq> X \<Longrightarrow> does st Y m"
  unfolding does_def by (blast intro: tidy_mono)

lemma probes_set_lane:
  assumes "i < length (lanes st)" "breaker_state (def_cell ls) = breaker_state (def_cell (lanes st ! i))"
  shows "probes (set_lane st i ls) = probes st"
proof -
  have "(\<exists>c. view (set_lane st i ls) p l = Some c \<and> breaker_state c = ST_HALF_OPEN)
      \<longleftrightarrow> (\<exists>c. view st p l = Some c \<and> breaker_state c = ST_HALF_OPEN)" for p l
    using assms by (auto simp: view_def set_lane_def nth_list_update split: option.splits)
  then show ?thesis by (simp add: probes_def)
qed

lemma set_lane_tidy:
  assumes "store_wf st" "i < length (lanes st)" "def_cell ls = def_cell (lanes st ! i)" "dead ls = dead (lanes st ! i)"
    "limited ls = limited (lanes st ! i)" "budget ls = budget (lanes st ! i)"
  shows "tidy st {} (set_lane st i ls)"
  using assms probes_set_lane [OF assms(2), of ls] set_lane_purse [OF assms(2)] store_wf_set_lane [OF assms(1), of ls i]
    store_wf_def_cell [OF assms(1,2)] by (simp add: tidy_def)

subsection \<open>The store operations an attempt uses\<close>

lemma drop_permit_does: "store_wf st \<Longrightarrow> i < length (lanes st) \<Longrightarrow> does st {} (drop_permit out permit i st)"
  by (auto simp: drop_permit_def does_def get_lane_def tidy_refl intro: set_lane_tidy split: Permit.split)

lemma client_fault_does: "store_wf st \<Longrightarrow> i < length (lanes st) \<Longrightarrow> does st {} (record_client_fault st i)"
  by (auto simp: record_client_fault_def does_def get_lane_def intro: set_lane_tidy)

lemma latency_does: "store_wf st \<Longrightarrow> i < length (lanes st) \<Longrightarrow> does st {} (record_latency_in st i ms)"
  by (auto simp: record_latency_in_def does_def get_lane_def Let_def tidy_refl intro: set_lane_tidy)

lemma put_tidy:
  assumes "store_wf st" "i < length (lanes st)" "cell_in st pool i = Some (st1, c)" "cell_wf d" "breaker_state d \<noteq> ST_HALF_OPEN"
  shows "tidy st {(pool, i)} (put_cell st1 pool i d)"
  using put_effect [OF assms(1-4)] assms(5) by (simp add: tidy_def)

lemma release_does:
  assumes "store_wf st" "i < length (lanes st)"
  shows "does st {(pool, i)} (release_probe_in st pool i)"
proof -
  obtain st1 c where 1: "cell_in st pool i = Some (st1, c)" "cell_wf c" by (rule fetchE [OF assms])
  have "tidy st {(pool, i)} (put_cell st1 pool i (cell_release_probe c))"
    by (rule put_tidy [OF assms 1(1)]) (use 1(2) in \<open>simp_all add: cell_release_probe_wf\<close>, simp add: cell_release_probe_def st_defs)
  then show ?thesis by (simp add: does_def release_probe_in_def 1(1))
qed

lemma failure_not_half: "cell_record_failure c now cfg ra mh sd = Some (c', r) \<Longrightarrow> breaker_state c' \<noteq> ST_HALF_OPEN"
  by (auto simp: cell_record_failure_def cell_open_locked_def Let_def st_defs split: if_splits bind_splits)

lemma success_not_half: "breaker_state (fst (cell_record_success c now)) \<noteq> ST_HALF_OPEN"
  by (auto simp: cell_record_success_def cell_closed_locked_def Let_def st_defs)

text \<open>A recorded outcome; on a dead lane nothing of a cell is recorded.\<close>

definition ends :: "InMemoryStore \<Rightarrow> string \<Rightarrow> nat \<Rightarrow> (string \<times> nat) set" where
  "ends st pool i = (if dead (lanes st ! i) then {} else {(pool, i)})"

lemma ends_tidy: "tidy st X st' \<Longrightarrow> i < length (lanes st) \<Longrightarrow> ends st' pool i = ends st pool i"
  using purse_dead [of st' st i] by (simp add: ends_def tidy_def)

lemma failure_does:
  assumes "store_wf st" "i < length (lanes st)" "cfg_ok cfg"
  shows "\<exists>st' r. record_failure_for st pool i now cfg ra seed = Some (st', r) \<and> tidy st (ends st pool i) st'"
proof (cases "dead (lanes st ! i)")
  case True
  then show ?thesis using assms by (auto simp: ends_def record_failure_for_def get_lane_def tidy_refl)
next
  case False
  obtain st1 c c' r ls' where 1: "cell_in st pool i = Some (st1, c)" "cell_wf c'" "lanes st1 = lanes st"
    and f: "cell_record_failure c now cfg ra (max_honored_retry_after_secs st) seed = Some (c', r)"
    and e: "record_failure_for st pool i now cfg ra seed = Some (set_lane (put_cell st1 pool i c') i ls', r)"
    and ls': "ls' = (lanes st ! i)\<lparr>def_cell := (if pool = [] then c'
         else (def_cell (lanes st ! i))\<lparr>err := wrap_u64 (err (def_cell (lanes st ! i)) + 1)\<rparr>),
       trips := (if r then wrap_u64 (trips (lanes st ! i) + 1) else trips (lanes st ! i)),
       last_trip_at := (if r then now else last_trip_at (lanes st ! i))\<rparr>"
    by (rule record_failure_effect [OF assms False, of pool now ra seed])
  let ?p = "put_cell st1 pool i c'"
  have t: "tidy st {(pool, i)} ?p" by (rule put_tidy [OF assms(1,2) 1(1,2) failure_not_half [OF f]])
  have p: "lanes ?p ! i = (if pool = [] then (lanes st ! i)\<lparr>def_cell := c'\<rparr> else lanes st ! i)" "i < length (lanes ?p)"
    using put_cell_nth [of i st1 pool c'] 1(3) assms(2) tidy_length [OF t] by simp_all
  have "store_wf (set_lane ?p i ls')"
    using t 1(2) store_wf_def_cell [OF assms(1,2)] by (intro store_wf_set_lane) (auto simp: tidy_def ls' err_bump_wf)
  then have "tidy st {(pool, i)} (set_lane ?p i ls')"
    using t p probes_set_lane [OF p(2), of ls'] set_lane_purse [OF p(2), of ls'] by (auto simp: tidy_def ls')
  then show ?thesis by (simp add: ends_def False e)
qed

lemma transient_does:
  assumes "store_wf st" "i < length (lanes st)" "cfg_ok (resolve_breaker_cfg app pool)"
  shows "does st (ends st pool i) (record_transient_in out app pool i ra k st)"
  using failure_does [OF assms, of pool "clk out k" ra "jit out k"] by (auto simp: does_def record_transient_in_def)

lemma success_does:
  assumes "store_wf st" "i < length (lanes st)"
  shows "does st (ends st pool i) (record_success_for st pool i now)"
proof (cases "dead (lanes st ! i)")
  case True
  then show ?thesis using assms
    by (auto simp: does_def ends_def record_success_for_def get_lane_def intro: set_lane_tidy)
next
  case False
  obtain st1 c st2 where 1: "cell_in st pool i = Some (st1, c)" "store_wf st1" "cell_wf c" "lanes st1 = lanes st"
    and st2: "st2 = put_cell (if snd (cell_record_success c now) then fst (swrr_shard st1 pool) else st1) pool i
       (sweep_cell (\<lambda>c. cell_record_success c now) c)"
    and e: "record_success_for st pool i now = Some (set_lane st2 i ((lanes st2 ! i)\<lparr>ok := wrap_u64 (ok (lanes st ! i) + 1)\<rparr>))"
    and wf2: "store_wf st2" "length (lanes st2) = length (lanes st)"
    by (rule record_success_effect [OF assms False, of pool now])
  let ?s = "if snd (cell_record_success c now) then fst (swrr_shard st1 pool) else st1"
  let ?d = "sweep_cell (\<lambda>c. cell_record_success c now) c"
  have ls: "lanes ?s = lanes st" using 1(4) by simp
  have v: "view ?s p l = view st p l" for p l using cell_in_keeps_view [OF 1(1)] by simp
  have h: "breaker_state ?d \<noteq> ST_HALF_OPEN"
    using success_not_half [of c now] by (auto simp: sweep_cell_def reset_swrr_def split: prod.split)
  have "purse st2 = purse ?s" unfolding st2 by (rule put_cell_purse) (use ls assms(2) in simp)
  also have "\<dots> = purse st" using ls by (simp only: purse_def)
  finally have "purse st2 = purse st" .
  moreover have "probes st2 \<subseteq> probes st - {(pool, i)}"
    unfolding st2 using put_cell_probes [of i ?s pool ?d] h ls assms(2) probes_cong [OF v] by simp
  ultimately have t: "tidy st {(pool, i)} st2" using wf2 by (simp add: tidy_def)
  have "tidy st2 {} (set_lane st2 i ((lanes st2 ! i)\<lparr>ok := wrap_u64 (ok (lanes st ! i) + 1)\<rparr>))"
    using wf2 assms(2) by (intro set_lane_tidy) simp_all
  from tidy_trans [OF t this] show ?thesis by (simp add: does_def ends_def False e)
qed

lemma hard_down_does:
  assumes "store_wf st" "i < length (lanes st)"
  shows "\<exists>st' b. record_hard_down_all_cells st i reason now = Some (st', b) \<and> tidy st {(pool, i)} st'"
proof -
  define f where "f = (\<lambda>c. cell_hard_down c now (hard_down_cooldown_secs st))"
  obtain st' b where 1: "record_hard_down_all_cells st i reason now = Some (st', b)" "store_wf st'"
    and l: "lanes st' = (lanes st)[i := (lanes st ! i)\<lparr>dead_reason := reason, def_cell := f (def_cell (lanes st ! i))\<rparr>]"
    and p: "pool_cells st' = (pool_cells st)(i := map (\<lambda>(p, c). (p, f c)) (pool_cells st i))"
    using hard_down_all_effect [OF assms(2) f_def, of reason] assms(1) by auto
  have f: "breaker_state (f c) \<noteq> ST_HALF_OPEN" for c by (simp add: f_def cell_hard_down_def st_defs)
  have v: "view st' q j = view st q j" if "j \<noteq> i" for q j
    using assms(2) that by (auto simp: view_def l p split: option.split)
  have h: "\<exists>c. view st' q i = Some c \<and> breaker_state c \<noteq> ST_HALF_OPEN" for q
    using assms(2) f by (auto simp: view_def l p al_get_map [where f = "\<lambda>_. f"] split: option.split)
  have "(q, j) \<notin> probes st' \<or> j \<noteq> i \<and> (q, j) \<in> probes st" for q j
    using h [of q] v [of j q] by (cases "j = i") (auto simp: probes_def)
  then have "probes st' \<subseteq> probes st - {(pool, i)}" by auto
  moreover have "purse st' = purse st" using assms(2) by (simp add: purse_def l map_update) (simp add: list_update_same_conv)
  ultimately show ?thesis using 1 by (auto simp: tidy_def)
qed

subsection \<open>What an attempt costs\<close>

type_synonym purse = "(bool \<times> bool \<times> int) list"

definition charge :: "nat \<Rightarrow> purse \<Rightarrow> purse" where
  "charge i pu = pu[i := (fst (pu ! i), fst (snd (pu ! i)), snd (snd (pu ! i)) - 1)]"

text \<open>Nothing was spent, or one unit of a limited lane's budget, on the lane that answered last.\<close>

definition paid :: "purse \<Rightarrow> purse \<Rightarrow> sends \<Rightarrow> Response \<Rightarrow> bool" where
  "paid pu pu' sent resp \<longleftrightarrow> pu' = pu
     \<or> (\<exists>p i d b. sent \<noteq> [] \<and> last sent = (p, i) \<and> (resp = Delivered p i \<or> (\<exists>s. resp = LocalError s))
          \<and> i < length pu \<and> pu ! i = (d, True, b) \<and> 0 < b \<and> pu' = charge i pu)"

text \<open>A relayed answer comes from the last lane the request was sent to.\<close>

definition from_sent :: "sends \<Rightarrow> Response \<Rightarrow> bool" where
  "from_sent sent resp \<longleftrightarrow> (\<forall>p i s. resp = Delivered p i \<or> resp = UpstreamError p i s \<longrightarrow> sent \<noteq> [] \<and> last sent = (p, i))"

definition budgets_fit :: "InMemoryStore \<Rightarrow> bool" where
  "budgets_fit st \<longleftrightarrow> (\<forall>(d, l, b) \<in> set (purse st). b \<le> i64_max)"

lemma purse_set_budget:
  "i < length (lanes st) \<Longrightarrow> purse (set_lane st i ((lanes st ! i)\<lparr>budget := b\<rparr>))
     = (purse st)[i := (dead (lanes st ! i), limited (lanes st ! i), b)]"
  by (simp add: purse_def set_lane_def map_update)

lemma set_budget:
  assumes "store_wf st" "i < length (lanes st)"
  shows "store_wf (set_lane st i ((lanes st ! i)\<lparr>budget := b\<rparr>))" "probes (set_lane st i ((lanes st ! i)\<lparr>budget := b\<rparr>)) = probes st"
  using assms store_wf_def_cell [OF assms] by (simp_all add: store_wf_set_lane probes_set_lane)

lemma spend_effect:
  assumes "store_wf st" "i < length (lanes st)"
  obtains st' spent where "spend_budget st i = Some (st', spent)" "store_wf st'" "probes st' = probes st" "length (lanes st') = length (lanes st)"
    "spent \<and> limited (lanes st ! i) \<longrightarrow> 0 < budget (lanes st ! i) \<and> purse st' = charge i (purse st)"
    "\<not> (spent \<and> limited (lanes st ! i)) \<longrightarrow> purse st' = purse st"
proof -
  have g: "get_lane st i = Some (lanes st ! i)" using assms(2) by (simp add: get_lane_def)
  show thesis
    by (rule that [of "fst (the (spend_budget st i))" "snd (the (spend_budget st i))"])
      (use assms g set_budget [OF assms] purse_set_budget [OF assms(2)] purse_nth [OF assms(2)] in \<open>auto simp: spend_budget_def charge_def\<close>)
qed

lemma refund_effect:
  assumes "store_wf st" "i < length (lanes st)" "purse st = charge i pu" "i < length pu" "pu ! i = (d, True, b)" "0 < b" "b \<le> i64_max"
  obtains st' where "refund_budget st i = Some st'" "store_wf st'" "probes st' = probes st" "purse st' = pu"
proof -
  have "purse st ! i = (d, True, b - 1)" using assms(3-5) by (simp add: charge_def)
  then have b: "limited (lanes st ! i)" "budget (lanes st ! i) = b - 1" "dead (lanes st ! i) = d"
    using purse_nth [OF assms(2)] by simp_all
  have "wrap_i64 b = b" using assms(6,7) by (intro wrap_i64_id) (simp_all add: i64_min_def)
  moreover have "(charge i pu)[i := (d, True, b)] = pu" using assms(4,5) list_update_id [of pu i] by (simp add: charge_def)
  ultimately show thesis
    using that [of "set_lane st i ((lanes st ! i)\<lparr>budget := b\<rparr>)"] b set_budget [OF assms(1,2)] purse_set_budget [OF assms(2)] assms(2,3)
    by (simp add: refund_budget_def get_lane_def)
qed

subsection \<open>The outcome of an attempt\<close>

definition attempt_ok :: "string \<Rightarrow> nat \<Rightarrow> InMemoryStore \<Rightarrow> InMemoryStore \<Rightarrow> sends \<Rightarrow> Response option \<Rightarrow> bool" where
  "attempt_ok pool i st st' sent resp \<longleftrightarrow> store_wf st' \<and> length (lanes st') = length (lanes st)
     \<and> probes st' \<subseteq> probes st - ends st pool i \<and> (sent = [] \<or> sent = [(pool, i)])
     \<and> (case resp of None \<Rightarrow> purse st' = purse st | Some r \<Rightarrow> paid (purse st) (purse st') sent r \<and> from_sent sent r)"

lemma tidy_attempt:
  assumes "tidy st X st'" "ends st pool i \<subseteq> X" "sent = [] \<or> sent = [(pool, i)]" "\<And>r. resp = Some r \<Longrightarrow> from_sent sent r"
  shows "attempt_ok pool i st st' sent resp"
  using assms tidy_length [OF assms(1)] by (auto simp: attempt_ok_def tidy_def paid_def split: option.split)

lemma release_and_drop_does:
  assumes "store_wf st" "i < length (lanes st)"
  shows "does st {(pool, i)} (release_and_drop out pool i permit st)"
  unfolding release_and_drop_def
  by (rule does_mono [OF does_bind [OF release_does [OF assms], where Y = "{}"]])
    (use assms in \<open>auto intro!: drop_permit_does dest: tidy_next\<close>)

lemma transient_drop_does:
  assumes "store_wf st" "i < length (lanes st)" "cfg_ok (resolve_breaker_cfg app pool)"
  shows "does st (ends st pool i) (do { st1 \<leftarrow> record_transient_in out app pool i ra k st; drop_permit out permit i st1 })"
  by (rule does_mono [OF does_bind [OF transient_does [OF assms], where Y = "{}"]])
    (use assms in \<open>auto intro!: drop_permit_does dest: tidy_next\<close>)

lemma transient_release_does:
  assumes "store_wf st" "i < length (lanes st)" "cfg_ok (resolve_breaker_cfg app pool)"
  shows "does st {(pool, i)} (do { st1 \<leftarrow> record_transient_in out app pool i ra k st; release_and_drop out pool i permit st1 })"
  by (rule does_mono [OF does_bind [OF transient_does [OF assms], where Y = "{(pool, i)}"]])
    (use assms in \<open>auto intro!: release_and_drop_does dest: tidy_next\<close>)

lemma ends_le: "ends st pool i \<subseteq> {(pool, i)}"
  by (simp add: ends_def)

lemma serve_2xx_ok:
  assumes "store_wf st" "i < length (lanes st)" "length (app_lanes app) = length (lanes st)" "cfg_ok (resolve_breaker_cfg app pool)"
    "budgets_fit st"
  shows "\<exists>st' resp. serve_2xx out app ingress pool i permit r k st = Some (st', resp) \<and> attempt_ok pool i st st' [(pool, i)] (Some resp)"
proof -
  obtain lane where lane: "app_lane app i = Some lane" using assms(2,3) by (simp add: app_lane_def)
  obtain st1 where 1: "record_success_for st pool i (clk out k) = Some st1" "tidy st (ends st pool i) st1"
    by (rule doesE [OF success_does [OF assms(1,2)]])
  have w1: "store_wf st1" "i < length (lanes st1)" using 1(2) tidy_length [OF 1(2)] assms(2) by (simp_all add: tidy_def)
  obtain st2 where 2: "record_latency_in st1 i (ur_latency_ms r) = Some st2" "tidy st1 {} st2" by (rule doesE [OF latency_does [OF w1]])
  have t2: "tidy st (ends st pool i) st2" using tidy_trans [OF 1(2) 2(2)] by simp
  have w2: "store_wf st2" "i < length (lanes st2)" using t2 tidy_length [OF t2] assms(2) by (simp_all add: tidy_def)
  obtain st3 spent where 3: "spend_budget st2 i = Some (st3, spent)" "store_wf st3" "probes st3 = probes st2" "length (lanes st3) = length (lanes st2)"
    and charged: "spent \<and> limited (lanes st2 ! i) \<longrightarrow> 0 < budget (lanes st2 ! i) \<and> purse st3 = charge i (purse st2)"
    and free: "\<not> (spent \<and> limited (lanes st2 ! i)) \<longrightarrow> purse st3 = purse st2"
    by (rule spend_effect [OF w2])
  have pu2: "purse st2 = purse st" using t2 by (simp add: tidy_def)
  have len: "length (purse st) = length (lanes st)" by (simp add: purse_def)
  have pay: "paid (purse st) (purse s) [(pool, i)] resp" if "purse s = purse st3" "resp = Delivered pool i \<or> (\<exists>e. resp = LocalError e)" for s resp
    using that charged free pu2 purse_nth [OF w2(2)] assms(2) len by (cases "spent \<and> limited (lanes st2 ! i)") (auto simp: paid_def)
  have i3: "i < length (lanes st3)" using 3(4) w2 by simp
  obtain st4 where 4: "drop_permit out permit i st3 = Some st4" "tidy st3 {} st4" by (rule doesE [OF drop_permit_does [OF 3(2) i3]])
  have i4: "store_wf st4" "i < length (lanes st4)" using 4(2) tidy_length [OF 4(2)] i3 by (simp_all add: tidy_def)
  obtain st5 where 5: "record_transient_in out app pool i None (k + 1) st4 = Some st5" "tidy st4 (ends st4 pool i) st5"
    by (rule doesE [OF transient_does [OF i4 assms(4)]])
  have i5: "store_wf st5" "i < length (lanes st5)" using 5(2) tidy_length [OF 5(2)] i4 by (simp_all add: tidy_def)
  have pu5: "purse st5 = purse st3" using 4(2) 5(2) by (simp add: tidy_def)
  have pr5: "probes st5 \<subseteq> probes st - ends st pool i" using t2 3(3) 4(2) 5(2) by (auto simp: tidy_def)
  obtain st6 where 6: "(if spent then refund_budget st5 i else Some st5) = Some st6" "store_wf st6" "probes st6 = probes st5" "purse st6 = purse st"
  proof (cases "spent \<and> limited (lanes st2 ! i)")
    case True
    let ?b = "budget (lanes st2 ! i)"
    have n: "purse st ! i = (dead (lanes st2 ! i), True, ?b)" using purse_nth [OF w2(2)] pu2 True by simp
    then have "?b \<le> i64_max" using assms(2,5) nth_mem [of i "purse st"] len by (auto simp: budgets_fit_def)
    from refund_effect [OF i5 _ _ n _ this] obtain st6 where
      "refund_budget st5 i = Some st6" "store_wf st6" "probes st6 = probes st5" "purse st6 = purse st"
      using charged True pu2 pu5 assms(2) len by auto
    then show thesis using that True by simp
  next
    case False
    then have p5: "purse st5 = purse st" using free pu2 pu5 by simp
    then have "limited (lanes st5 ! i) = limited (lanes st2 ! i)"
      using purse_nth [OF i5(2)] purse_nth [OF w2(2)] pu2 by simp
    then show thesis using that [of st5] False p5 i5 by (auto simp: refund_budget_def get_lane_def)
  qed
  have ok3: "attempt_ok pool i st st3 [(pool, i)] (Some (Delivered pool i))"
    using 3 t2 pay [of st3] tidy_length [OF t2] by (auto simp: attempt_ok_def tidy_def from_sent_def)
  have ok4: "attempt_ok pool i st st4 [(pool, i)] (Some resp)" if "resp = Delivered pool i \<or> (\<exists>e. resp = LocalError e)" for resp
    using that 3 4(2) t2 pay [of st4] tidy_length [OF t2] tidy_length [OF 4(2)] by (auto simp: attempt_ok_def tidy_def from_sent_def)
  have ok6: "attempt_ok pool i st st6 [(pool, i)] (Some (LocalError 502))"
    using 6 pr5 purse_length [OF 6(4)] by (auto simp: attempt_ok_def from_sent_def paid_def)
  show ?thesis
    using lane 1(1) 2(1) 3(1) 4(1) 5(1) 6(1) ok3 ok4 ok6
    by (auto simp: serve_2xx_def split: ReadEnd.split option.split)
qed

lemma bind_SomeE: "Option.bind m f = Some y \<Longrightarrow> (\<And>x. m = Some x \<Longrightarrow> f x = Some y \<Longrightarrow> thesis) \<Longrightarrow> thesis"
  by (cases m) auto

lemma forward_once_ok:
  assumes "store_wf st" "i < length (lanes st)" "length (app_lanes app) = length (lanes st)" "cfg_ok (resolve_breaker_cfg app pool)"
    "budgets_fit st"
  shows "\<exists>st' sent resp. forward_once out app ingress i permit pool k st = Some (st', sent, resp) \<and> attempt_ok pool i st st' sent resp"
proof -
  obtain st1 where 1: "release_and_drop out pool i permit st = Some st1" "tidy st {(pool, i)} st1"
    by (rule doesE [OF release_and_drop_does [OF assms(1,2)]])
  have bail: "attempt_ok pool i st st1 [] (Some (LocalError e))" for e
    by (rule tidy_attempt [OF 1(2) ends_le]) (auto simp: from_sent_def)
  obtain st2 where 2: "do { s \<leftarrow> record_transient_in out app pool i None (k + 1) st; release_and_drop out pool i permit s } = Some st2"
    "tidy st {(pool, i)} st2" by (rule doesE [OF transient_release_does [OF assms(1,2,4)]])
  have relayed: "attempt_ok pool i st st2 [(pool, i)] resp" if "resp = None \<or> (\<exists>s. resp = Some (UpstreamError pool i s))" for resp
    using tidy_attempt [OF 2(2) ends_le, of "[(pool, i)]" resp] that by (auto simp: from_sent_def)
  obtain st3 where 3: "do { s \<leftarrow> record_transient_in out app pool i None (k + 1) st; drop_permit out permit i s } = Some st3"
    "tidy st (ends st pool i) st3" by (rule doesE [OF transient_drop_does [OF assms(1,2,4)]])
  have retry: "attempt_ok pool i st st3 [(pool, i)] None" by (rule tidy_attempt [OF 3(2)]) auto
  obtain s2 where s2: "record_transient_in out app pool i None (k + 1) st = Some s2" "release_and_drop out pool i permit s2 = Some st2"
    using 2(1) by (rule bind_SomeE)
  then have s3: "drop_permit out permit i s2 = Some st3" using 3(1) by simp
  show ?thesis
  proof (cases "upstream out k i")
    case (Headers r)
    obtain s4 r4 where "serve_2xx out app ingress pool i permit r (k + 1) st = Some (s4, r4)" "attempt_ok pool i st s4 [(pool, i)] (Some r4)"
      using serve_2xx_ok [OF assms] by blast
    then show ?thesis using Headers s2 relayed by (simp add: forward_once_def)
  qed (use 1(1) s2 s3 bail relayed retry in \<open>simp_all add: forward_once_def\<close>)
qed

lemma exclude_smaller_eq:
  assumes "\<forall>wl \<in> set cands. wl_idx wl < length (app_lanes app)"
  shows "\<exists>ctx'. exclude_smaller app failed cands ctx = Some ctx' \<and> ctx' = ctx\<lparr>excluded := excluded ctx'\<rparr>
    \<and> set (excluded ctx') = set (excluded ctx)
        \<union> {wl_idx wl | wl m f. wl \<in> set cands \<and> la_context_max (app_lanes app ! wl_idx wl) = Some m \<and> failed = Some f \<and> m \<le> f}"
  using assms
proof (induction cands arbitrary: ctx)
  case (Cons cand cands)
  let ?lane = "app_lanes app ! wl_idx cand"
  define ctx1 where "ctx1 = (case (la_context_max ?lane, failed) of
      (Some cm, Some f) \<Rightarrow> if cm \<le> f then exclude (wl_idx cand) ctx else ctx | _ \<Rightarrow> ctx)"
  have l: "app_lane app (wl_idx cand) = Some ?lane" using Cons.prems by (simp add: app_lane_def)
  obtain ctx' where c: "exclude_smaller app failed cands ctx1 = Some ctx'" "ctx' = ctx1\<lparr>excluded := excluded ctx'\<rparr>"
    "set (excluded ctx') = set (excluded ctx1)
       \<union> {wl_idx wl | wl m f. wl \<in> set cands \<and> la_context_max (app_lanes app ! wl_idx wl) = Some m \<and> failed = Some f \<and> m \<le> f}"
    using Cons.IH [of ctx1] Cons.prems by auto
  have "ctx1 = ctx\<lparr>excluded := excluded ctx1\<rparr>" by (auto simp: ctx1_def exclude_def split: option.split)
  then have "ctx' = ctx\<lparr>excluded := excluded ctx'\<rparr>" using c(2) by (metis RequestCtx.surjective RequestCtx.update_convs(2))
  moreover have "set (excluded ctx1) = set (excluded ctx)
      \<union> {wl_idx cand | m f. la_context_max ?lane = Some m \<and> failed = Some f \<and> m \<le> f}"
    by (auto simp: ctx1_def exclude_def split: option.split)
  moreover have "exclude_smaller app failed (cand # cands) ctx = exclude_smaller app failed cands ctx1" using l by (simp add: ctx1_def)
  ultimately show ?case using c(1,3) by auto
qed simp

text \<open>An attempt may only add exclusions to the context.\<close>

definition ctx_grows :: "RequestCtx \<Rightarrow> RequestCtx \<Rightarrow> bool" where
  "ctx_grows ctx ctx' \<longleftrightarrow> ctx' = ctx\<lparr>excluded := excluded ctx'\<rparr> \<and> set (excluded ctx) \<subseteq> set (excluded ctx')"

lemma ctx_grows_refl: "ctx_grows ctx ctx"
  by (simp add: ctx_grows_def)

lemma ctx_grows_fields:
  "ctx_grows ctx ctx' \<Longrightarrow> visited_pools ctx' = visited_pools ctx \<and> active_restricts ctx' = active_restricts ctx \<and> deadline ctx' = deadline ctx"
  unfolding ctx_grows_def by (metis RequestCtx.select_convs(1,3,4) RequestCtx.surjective RequestCtx.update_convs(2))

lemma dispose_ok:
  assumes "store_wf st" "i < length (lanes st)" "length (app_lanes app) = length (lanes st)" "cfg_ok (resolve_breaker_cfg app pool)"
    and "\<forall>wl \<in> set cands. wl_idx wl < length (lanes st)"
  shows "\<exists>st' ctx' resp. dispose out app cands i permit pool r k ctx st = Some (st', ctx', resp)
    \<and> attempt_ok pool i st st' [(pool, i)] resp \<and> ctx_grows ctx ctx'"
proof -
  obtain lane where lane: "app_lane app i = Some lane" using assms(2,3) by (simp add: app_lane_def)
  define sig where "sig = normalize_raw_error ((ur_raw r)\<lparr>retry_after_secs := ur_retry_after r\<rparr>) (map_of (la_error_map lane))"
  have d: "dispose out app cands i permit pool r k ctx st = (case classify sig of
       ClientFault \<Rightarrow> do {
         st1 \<leftarrow> record_client_fault st i;
         st2 \<leftarrow> release_and_drop out pool i permit st1;
         Some (st2, ctx, Some (UpstreamError pool i (ur_status r))) }
     | TransientUpstream \<Rightarrow> do {
         st1 \<leftarrow> record_transient_in out app pool i (retry_after sig) k st;
         st2 \<leftarrow> drop_permit out permit i st1;
         Some (st2, ctx, None) }
     | HardDown \<Rightarrow> do {
         (st1, newly_tripped) \<leftarrow> record_hard_down_all_cells st i (hard_down_reason (sig_class sig) (ur_status r)) (clk out k);
         st2 \<leftarrow> drop_permit out permit i st1;
         Some (st2, ctx, if sig_class sig = Auth then Some AuthFailure else None) }
     | ContextLengthD \<Rightarrow> do {
         ctx1 \<leftarrow> exclude_smaller app (la_context_max lane) cands ctx;
         st1 \<leftarrow> release_and_drop out pool i permit st;
         Some (st1, ctx1, None) })"
    unfolding dispose_def lane sig_def Let_def Option.bind.bind_lunit ..
  show ?thesis
  proof (cases "classify sig")
    case ClientFault
    have "does st {(pool, i)} (do { st1 \<leftarrow> record_client_fault st i; release_and_drop out pool i permit st1 })"
      by (rule does_mono [OF does_bind [OF client_fault_does [OF assms(1,2)], where Y = "{(pool, i)}"]])
        (use assms in \<open>auto intro!: release_and_drop_does dest: tidy_next\<close>)
    then obtain st' where "do { st1 \<leftarrow> record_client_fault st i; release_and_drop out pool i permit st1 } = Some st'" "tidy st {(pool, i)} st'"
      by (rule doesE)
    moreover from this(2) have "attempt_ok pool i st st' [(pool, i)] (Some (UpstreamError pool i (ur_status r)))"
      by (rule tidy_attempt [OF _ ends_le]) (auto simp: from_sent_def)
    ultimately show ?thesis using ClientFault ctx_grows_refl by (auto simp: d elim!: bind_SomeE)
  next
    case TransientUpstream
    obtain st' where "do { s \<leftarrow> record_transient_in out app pool i (retry_after sig) k st; drop_permit out permit i s } = Some st'"
      "tidy st (ends st pool i) st'" by (rule doesE [OF transient_drop_does [OF assms(1,2,4)]])
    moreover from this(2) have "attempt_ok pool i st st' [(pool, i)] None" by (rule tidy_attempt) auto
    ultimately show ?thesis using TransientUpstream ctx_grows_refl by (auto simp: d elim!: bind_SomeE)
  next
    case HardDown
    obtain st1 b where 1: "record_hard_down_all_cells st i (hard_down_reason (sig_class sig) (ur_status r)) (clk out k) = Some (st1, b)"
      "tidy st {(pool, i)} st1" using hard_down_does [OF assms(1,2)] by blast
    then have w: "store_wf st1" "i < length (lanes st1)" using tidy_length [OF 1(2)] assms(2) by (simp_all add: tidy_def)
    obtain st2 where 2: "drop_permit out permit i st1 = Some st2" "tidy st1 {} st2" by (rule doesE [OF drop_permit_does [OF w]])
    have "attempt_ok pool i st st2 [(pool, i)] resp" if "\<forall>r. resp = Some r \<longrightarrow> r = AuthFailure" for resp
      by (rule tidy_attempt [OF tidy_trans [OF 1(2) 2(2)]]) (use that ends_le in \<open>auto simp: from_sent_def\<close>)
    then show ?thesis using HardDown 1(1) 2(1) ctx_grows_refl by (simp add: d)
  next
    case ContextLengthD
    obtain ctx1 where c: "exclude_smaller app (la_context_max lane) cands ctx = Some ctx1" "ctx_grows ctx ctx1"
      using exclude_smaller_eq [of cands app "la_context_max lane" ctx] assms(3,5) by (auto simp: ctx_grows_def)
    obtain st' where "release_and_drop out pool i permit st = Some st'" "tidy st {(pool, i)} st'"
      by (rule doesE [OF release_and_drop_does [OF assms(1,2)]])
    moreover from this(2) have "attempt_ok pool i st st' [(pool, i)] None" by (rule tidy_attempt [OF _ ends_le]) auto
    ultimately show ?thesis using ContextLengthD c by (simp add: d)
  qed
qed

lemma attempt_main_ok:
  assumes "store_wf st" "i < length (lanes st)" "length (app_lanes app) = length (lanes st)" "cfg_ok (resolve_breaker_cfg app pool)"
    "budgets_fit st" and "\<forall>wl \<in> set cands. wl_idx wl < length (lanes st)"
  shows "\<exists>st' ctx' sent resp. attempt out app ingress cands i permit pool k ctx st = Some (st', ctx', sent, resp)
    \<and> attempt_ok pool i st st' sent resp \<and> ctx_grows ctx ctx'"
proof -
  obtain st1 where 1: "release_and_drop out pool i permit st = Some st1" "tidy st {(pool, i)} st1"
    by (rule doesE [OF release_and_drop_does [OF assms(1,2)]])
  have bail: "attempt_ok pool i st st1 [] (Some (LocalError e))" for e
    by (rule tidy_attempt [OF 1(2) ends_le]) (auto simp: from_sent_def)
  have relayed: "attempt_ok pool i st st1 [(pool, i)] (Some (UpstreamError pool i s))" for s
    by (rule tidy_attempt [OF 1(2) ends_le]) (auto simp: from_sent_def)
  obtain st3 where 3: "do { s \<leftarrow> record_transient_in out app pool i None (k + 1) st; drop_permit out permit i s } = Some st3"
    "tidy st (ends st pool i) st3" by (rule doesE [OF transient_drop_does [OF assms(1,2,4)]])
  have retry: "attempt_ok pool i st st3 [(pool, i)] None" by (rule tidy_attempt [OF 3(2)]) auto
  obtain s3 where s3: "record_transient_in out app pool i None (k + 1) st = Some s3" "drop_permit out permit i s3 = Some st3"
    using 3(1) by (rule bind_SomeE)
  show ?thesis
  proof (cases "upstream out k i")
    case (Headers r)
    obtain s2 r2 where "serve_2xx out app ingress pool i permit r (k + 1) st = Some (s2, r2)" "attempt_ok pool i st s2 [(pool, i)] (Some r2)"
      using serve_2xx_ok [OF assms(1-5)] by blast
    moreover obtain s4 c4 r4 where "dispose out app cands i permit pool r (k + 1) ctx st = Some (s4, c4, r4)"
      "attempt_ok pool i st s4 [(pool, i)] r4" "ctx_grows ctx c4" using dispose_ok [OF assms(1-4,6)] by blast
    ultimately show ?thesis using Headers 1(1) relayed ctx_grows_refl by (auto simp: attempt_def)
  qed (use 1(1) s3 bail retry ctx_grows_refl in \<open>simp_all add: attempt_def\<close>)
qed

end
