(* ===== verification/Failover.thy ===== *)
theory Failover
  imports Attempt
begin

text \<open>
  The loops of a request, composed from picks and attempts: the degraded last resorts, the walk over
  fallback pools, which ends for every configuration of them, and the failover loop.
\<close>

subsection \<open>A request that is being served\<close>

text \<open>No lane twice, and none that is excluded, except for one last send.\<close>

definition once :: "RequestCtx \<Rightarrow> sends \<Rightarrow> bool" where
  "once ctx sent \<longleftrightarrow> (\<exists>xs ys. sent = xs @ ys \<and> length ys \<le> 1 \<and> distinct (map snd xs) \<and> snd ` set xs \<inter> set (excluded ctx) = {})"

lemma once_short: "length sent \<le> 1 \<Longrightarrow> once ctx sent"
  unfolding once_def by (rule exI [of _ "[]"]) simp

definition served :: "(string \<Rightarrow> nat \<Rightarrow> bool) \<Rightarrow> RequestCtx \<Rightarrow> InMemoryStore \<Rightarrow> answer \<Rightarrow> bool" where
  "served P ctx st res \<longleftrightarrow> (\<exists>st' sent resp. res = Some (st', sent, resp) \<and> store_wf st' \<and> probes st' \<subseteq> probes st
     \<and> paid (purse st) (purse st') sent resp \<and> from_sent sent resp \<and> (\<forall>(p, i) \<in> set sent. P p i) \<and> once ctx sent)"

lemma served_unsent:
  "tidy st {} st' \<Longrightarrow> from_sent [] resp \<Longrightarrow> served P ctx st (Some (st', [], resp))"
  by (auto simp: served_def tidy_def paid_def once_def)

lemma served_tidy: "served P ctx st1 res \<Longrightarrow> tidy st {} st1 \<Longrightarrow> served P ctx st res"
  by (fastforce simp: served_def tidy_def)

lemma served_mono: "served P ctx st res \<Longrightarrow> (\<And>p i. P p i \<Longrightarrow> Q p i) \<Longrightarrow> served Q ctx st res"
  by (fastforce simp: served_def)

lemma served_ctx: "served P ctx st res \<Longrightarrow> excluded ctx' = excluded ctx \<Longrightarrow> served P ctx' st res"
  by (simp add: served_def once_def)

lemma once_prefix:
  assumes "once ctx1 rest" "sent = [] \<or> sent = [(pool, i)]" "i \<notin> set (excluded ctx)" "insert i (set (excluded ctx)) \<subseteq> set (excluded ctx1)"
  shows "once ctx (sent @ rest)"
proof -
  obtain xs ys where x: "rest = xs @ ys" "length ys \<le> 1" "distinct (map snd xs)" "snd ` set xs \<inter> set (excluded ctx1) = {}"
    using assms(1) by (auto simp: once_def)
  have "sent @ rest = (sent @ xs) @ ys" using x(1) by simp
  moreover have "distinct (map snd (sent @ xs))" "snd ` set (sent @ xs) \<inter> set (excluded ctx) = {}"
    using x(3,4) assms(2-4) by (auto simp: image_iff)
  ultimately show ?thesis using x(2) unfolding once_def by blast
qed

lemma served_prefix:
  assumes "served P ctx1 st1 res" "purse st1 = purse st" "probes st1 \<subseteq> probes st" "sent = [] \<or> sent = [(pool, i)]" "P pool i"
    and "i \<notin> set (excluded ctx)" "insert i (set (excluded ctx)) \<subseteq> set (excluded ctx1)"
  shows "served P ctx st (do { (st3, rest, r) \<leftarrow> res; Some (st3, sent @ rest, r) })"
proof -
  obtain st' rest resp where r: "res = Some (st', rest, resp)" "store_wf st'" "probes st' \<subseteq> probes st1"
    "paid (purse st1) (purse st') rest resp" "from_sent rest resp" "\<forall>(p, i) \<in> set rest. P p i" "once ctx1 rest"
    using assms(1) by (auto simp: served_def)
  have "paid (purse st) (purse st') (sent @ rest) resp" using r(4) assms(2) by (auto simp: paid_def)
  moreover have "from_sent (sent @ rest) resp" using r(5) by (auto simp: from_sent_def)
  moreover have "once ctx (sent @ rest)" using once_prefix [OF r(7) assms(4,6,7)] .
  ultimately show ?thesis using r assms(3,4,5) by (auto simp: served_def)
qed

subsection \<open>The conditions a request runs under\<close>

definition ready :: "App \<Rightarrow> InMemoryStore \<Rightarrow> bool" where
  "ready app st \<longleftrightarrow> store_wf st \<and> length (app_lanes app) = length (lanes st) \<and> budgets_fit st
     \<and> (\<forall>p. cfg_ok (resolve_breaker_cfg app p))"

definition members :: "App \<Rightarrow> WeightedLane list \<Rightarrow> bool" where
  "members app cands \<longleftrightarrow> (\<forall>wl \<in> set cands. wl_idx wl < length (app_lanes app))"

lemma ready_next: "ready app st \<Longrightarrow> store_wf st1 \<Longrightarrow> purse st1 = purse st \<Longrightarrow> ready app st1"
  using purse_length [of st1 st] by (simp add: ready_def budgets_fit_def)

lemma ready_tidy: "ready app st \<Longrightarrow> tidy st X st1 \<Longrightarrow> ready app st1"
  using ready_next [of app st st1] by (simp add: tidy_def)

lemma calm_tidy: "calm pool {} st st' \<Longrightarrow> tidy st {} st'"
  by (simp add: calm_def tidy_def)

lemma cooldown_read:
  assumes "store_wf st" "i < length (lanes st)"
  shows "\<exists>st' r. cooldown_remaining_for st pool i now = Some (st', r) \<and> tidy st {} st'"
proof -
  obtain st1 c where "cell_in st pool i = Some (st1, c)" "calm pool {} st st1" by (rule cell_in_calm [OF assms])
  then show ?thesis using calm_tidy by (auto simp: cooldown_remaining_for_def)
qed

lemma soonest_ok:
  assumes "ready app st" "members app cands"
  shows "\<exists>st' x. soonest pool now cands idx best st = Some (st', x) \<and> tidy st {} st' \<and> (x = idx \<or> (\<exists>wl \<in> set cands. x = Some (wl_idx wl)))"
  using assms
proof (induction cands arbitrary: idx best st)
  case (Cons wl cands)
  obtain st1 r where 1: "cooldown_remaining_for st pool (wl_idx wl) now = Some (st1, r)" "tidy st {} st1"
    using cooldown_read [of st "wl_idx wl" pool now] Cons.prems by (auto simp: ready_def members_def)
  have m: "members app cands" using Cons.prems(2) by (simp add: members_def)
  note IH = Cons.IH [OF ready_tidy [OF Cons.prems(1) 1(2)] m]
  from IH [of "Some (wl_idx wl)" r] IH [of idx best] show ?case
    using 1 tidy_trans [OF 1(2), of "{}"] by (auto 4 4)
qed (simp add: ready_def tidy_refl)

lemma find_soonest_ok:
  assumes "ready app st" "members app cands"
  obtains st' x where "find_soonest_cooldown pool now cands st = Some (st', x)" "tidy st {} st'" "x = None \<or> (\<exists>wl \<in> set cands. x = Some (wl_idx wl))"
  using soonest_ok [OF assms, of pool now None u64_max] by (auto simp: find_soonest_cooldown_def)

lemma status_503_served:
  assumes "ready app st" "members app cands"
  shows "served P ctx st (handle_status_503 pool now cands st)"
proof -
  obtain st1 x where 1: "find_soonest_cooldown pool now cands st = Some (st1, x)" "tidy st {} st1" "x = None \<or> (\<exists>wl \<in> set cands. x = Some (wl_idx wl))"
    by (rule find_soonest_ok [OF assms])
  show ?thesis
  proof (cases x)
    case None
    then show ?thesis using 1 by (simp add: handle_status_503_def served_unsent from_sent_def)
  next
    case (Some i)
    then have "store_wf st1" "i < length (lanes st1)"
      using 1(2,3) assms tidy_length [OF 1(2)] by (auto simp: members_def ready_def tidy_def)
    from cooldown_read [OF this] obtain st2 r where "cooldown_remaining_for st1 pool i now = Some (st2, r)" "tidy st1 {} st2" by blast
    then show ?thesis using 1 Some tidy_trans [OF 1(2)] by (auto simp: handle_status_503_def from_sent_def intro!: served_unsent)
  qed
qed

subsection \<open>Least bad\<close>

lemma served_attempt:
  assumes "attempt_ok pool i st st' sent (Some r)" "P pool i"
  shows "served P ctx st (Some (st', sent, r))"
  using assms by (auto simp: attempt_ok_def served_def intro: once_short)

text \<open>A last send, which may go to an excluded lane.\<close>

lemma served_last:
  assumes "attempt_ok pool i st st' sent None" "P pool i" "served P ctx1 st' (Some (st2, [], r))"
  shows "served P ctx st (Some (st2, sent, r))"
proof -
  have "paid (purse st) (purse st2) sent r" using assms(1,3) by (auto simp: attempt_ok_def served_def paid_def)
  moreover have "from_sent sent r" using assms(3) by (auto simp: served_def from_sent_def)
  ultimately show ?thesis using assms by (auto simp: attempt_ok_def served_def intro: once_short)
qed

lemma status_503_sends: "handle_status_503 pool now cands st = Some (st', sent, r) \<Longrightarrow> sent = []"
  by (auto simp: handle_status_503_def split: option.splits bind_splits)

lemma least_bad_served:
  assumes "ready app st" "members app cands" "\<forall>wl \<in> set cands. P pool (wl_idx wl)"
  shows "served P ctx st (handle_least_bad out app ingress pool now cands k st)"
proof -
  obtain st1 x where 1: "find_soonest_cooldown pool now cands st = Some (st1, x)" "tidy st {} st1" "x = None \<or> (\<exists>wl \<in> set cands. x = Some (wl_idx wl))"
    by (rule find_soonest_ok [OF assms(1,2)])
  note r1 = ready_tidy [OF assms(1) 1(2)]
  show ?thesis
  proof (cases x)
    case None
    then show ?thesis
      using 1 served_tidy [OF status_503_served [OF r1 assms(2)] 1(2)] by (simp add: handle_least_bad_def)
  next
    case (Some i)
    then have i: "i < length (lanes st1)" "P pool i" using 1(3) assms r1 by (auto simp: members_def ready_def)
    have w1: "store_wf st1" using r1 by (simp add: ready_def)
    obtain st2 p where 2: "try_acquire (max_permits out) (try_owned out) st1 i = Some (st2, p)" "store_wf st2" "purse st2 = purse st1"
      and v2: "\<And>q l. view st2 q l = view st1 q l"
      by (rule try_acquire_effect [OF w1 i(1), of "max_permits out" "try_owned out"]) blast
    have t2: "tidy st {} st2" using 1(2) 2 probes_cong [OF v2] by (auto simp: tidy_def)
    note r2 = ready_tidy [OF assms(1) t2]
    show ?thesis
    proof (cases p)
      case None
      then show ?thesis
        using 1(1) Some 2(1) served_tidy [OF status_503_served [OF r2 assms(2)] t2] by (simp add: handle_least_bad_def)
    next
      case (Some permit)
      have i2: "i < length (lanes st2)" using i purse_length [OF 2(3)] by simp
      obtain st3 sent resp where 3: "forward_once out app ingress i permit pool k st2 = Some (st3, sent, resp)" "attempt_ok pool i st2 st3 sent resp"
        using forward_once_ok [OF 2(2) i2, of app pool out ingress permit k] r2 by (auto simp: ready_def)
      show ?thesis
      proof (cases resp)
        case (Some r)
        then have "served P ctx st2 (Some (st3, sent, r))" using served_attempt [where P = P, OF _ i(2)] 3(2) by simp
        then show ?thesis using 1(1) \<open>x = Some i\<close> 2(1) \<open>p = Some permit\<close> 3(1) Some served_tidy [OF _ t2] by (simp add: handle_least_bad_def)
      next
        case None
        have "purse st3 = purse st2" "store_wf st3" using 3(2) None by (simp_all add: attempt_ok_def)
        note s = status_503_served [OF ready_next [OF r2 this(2,1)] assms(2), of P ctx pool now]
        then obtain st4 r where 4: "handle_status_503 pool now cands st3 = Some (st4, [], r)"
          using status_503_sends by (fastforce simp: served_def)
        then have "served P ctx st2 (Some (st4, sent, r))" using served_last [where P = P, OF _ i(2)] 3(2) None s by simp
        then show ?thesis
          using 1(1) \<open>x = Some i\<close> 2(1) \<open>p = Some permit\<close> 3(1) None 4 served_tidy [OF _ t2] by (simp add: handle_least_bad_def)
      qed
    qed
  qed
qed

subsection \<open>A pick and its attempt\<close>

text \<open>An attempt on a picked lane ends the probe the pick took.\<close>

definition hop_ok :: "string \<Rightarrow> RequestCtx \<Rightarrow> WeightedLane list \<Rightarrow> InMemoryStore \<Rightarrow> InMemoryStore \<Rightarrow> nat \<Rightarrow> bool" where
  "hop_ok pool ctx cands st st1 i \<longleftrightarrow> store_wf st1 \<and> purse st1 = purse st \<and> probes st1 \<subseteq> probes st \<union> {(pool, i)}
     \<and> i < length (lanes st1) \<and> \<not> dead (lanes st1 ! i) \<and> i \<in> wl_idx ` set cands \<and> i \<notin> set (excluded ctx)"

lemma pick_hop:
  assumes "ready app st" "members app cands"
  shows "\<exists>st1 k1 r. pick_among out cands ctx aff pool po k st = Some (st1, k1, r)
    \<and> (r = None \<longrightarrow> tidy st {} st1) \<and> (\<forall>i permit. r = Some (i, permit) \<longrightarrow> hop_ok pool ctx cands st st1 i)"
proof -
  have rng: "store_wf st" "\<forall>wl \<in> set cands. wl_idx wl < length (lanes st)" using assms by (simp_all add: ready_def members_def)
  obtain st1 k1 r where 1: "pick_among out cands ctx aff pool po k st = Some (st1, k1, r)" "pick_ok cands ctx pool st st1 r"
    using pick_among_ok [OF rng] by blast
  have "hop_ok pool ctx cands st st1 i" if r: "r = Some (i, permit)" for i permit
  proof -
    have "calm pool {i} st st1" "admitted_on st1 pool i" "i \<in> wl_idx ` set cands" "i \<notin> set (excluded ctx)"
      using 1(2) r by (auto simp: pick_ok_def)
    moreover from this(2) have "i < length (lanes st1) \<and> \<not> dead (lanes st1 ! i)"
      by (auto simp: admitted_on_def lane_admissible_def get_lane_def split: if_splits)
    ultimately show ?thesis by (simp add: hop_ok_def calm_def)
  qed
  moreover have "r = None \<longrightarrow> tidy st {} st1" using 1(2) calm_tidy by (auto simp: pick_ok_def)
  ultimately show ?thesis using 1(1) by blast
qed

lemma hop_attempt:
  assumes "hop_ok pool ctx cands st st1 i" "attempt_ok pool i st1 st2 sent resp"
  shows "attempt_ok pool i st st2 sent resp"
  using assms purse_length [of st1 st] by (auto simp: hop_ok_def attempt_ok_def ends_def split: option.splits)

lemma hop_served:
  assumes "hop_ok pool ctx cands st st1 i" "attempt_ok pool i st1 st2 sent None" "served P ctx1 st2 res" "P pool i"
    "insert i (set (excluded ctx)) \<subseteq> set (excluded ctx1)"
  shows "served P ctx st (do { (st3, rest, r) \<leftarrow> res; Some (st3, sent @ rest, r) })"
proof -
  have a: "attempt_ok pool i st st2 sent None" by (rule hop_attempt [OF assms(1,2)])
  then have "purse st2 = purse st" "probes st2 \<subseteq> probes st" "sent = [] \<or> sent = [(pool, i)]"
    by (auto simp: attempt_ok_def)
  from served_prefix [where P = P, OF assms(3) this assms(4) _ assms(5)] assms(1) show ?thesis by (simp add: hop_ok_def)
qed

lemma hop_ready: "ready app st \<Longrightarrow> hop_ok pool ctx cands st st1 i \<Longrightarrow> ready app st1"
  using ready_next [of app st st1] by (simp add: hop_ok_def)

lemma attempt_ready: "ready app st \<Longrightarrow> attempt_ok pool i st st2 sent None \<Longrightarrow> ready app st2"
  using ready_next [of app st st2] by (simp add: attempt_ok_def)

lemma fill_exclude:
  assumes "i \<in> wl_idx ` set cands" "i \<notin> set (excluded ctx)" "insert i (set (excluded ctx)) \<subseteq> set (excluded ctx')"
  shows "length (fill_candidates ctx' cands) < length (fill_candidates ctx cands)"
proof -
  obtain wl where wl: "wl \<in> set cands" "wl_idx wl = i" using assms(1) by auto
  have "fill_candidates ctx' cands = filter (\<lambda>wl. wl_idx wl \<notin> set (excluded ctx')) (fill_candidates ctx cands)"
    using assms(3) unfolding fill_candidates_def filter_filter by (intro filter_cong) auto
  moreover have "length (filter (\<lambda>wl. wl_idx wl \<notin> set (excluded ctx')) (fill_candidates ctx cands)) < length (fill_candidates ctx cands)"
    using wl assms by (intro length_filter_less [of wl]) (auto simp: fill_candidates_def)
  ultimately show ?thesis by simp
qed

subsection \<open>The walk over fallback pools\<close>

lemma fallback_loop_served:
  assumes "ready app st" "members app cands" "length (fill_candidates ctx cands) < n"
    and "\<forall>wl \<in> set cands. P pool (wl_idx wl)"
    and "\<And>now ctx' k' st'. visited_pools ctx' = visited_pools ctx \<Longrightarrow> active_restricts ctx' = active_restricts ctx \<Longrightarrow> ready app st'
       \<Longrightarrow> served P ctx' st' (ex cands now pool ctx' k' st')"
  shows "served P ctx st (fallback_loop ex n out app ingress cands pool ctx k st)"
  using assms(1,3,5)
proof (induction n arbitrary: ctx k st)
  case (Suc n)
  show ?case
  proof (cases "expired ctx (clk out k)")
    case True
    then show ?thesis using Suc.prems(1) by (simp add: served_unsent tidy_refl ready_def from_sent_def)
  next
    case False
    obtain st1 k1 r where p: "pick_among out cands ctx None pool None (k + 1) st = Some (st1, k1, r)" "r = None \<longrightarrow> tidy st {} st1"
      "\<forall>i permit. r = Some (i, permit) \<longrightarrow> hop_ok pool ctx cands st st1 i"
      using pick_hop [OF Suc.prems(1) assms(2)] by blast
    show ?thesis
    proof (cases r)
      case None
      then have t: "tidy st {} st1" using p(2) by simp
      have "served P ctx st1 (ex cands (clk out k1) pool ctx (k1 + 1) st1)" by (rule Suc.prems(3) [OF refl refl ready_tidy [OF Suc.prems(1) t]])
      then show ?thesis using False p(1) None served_tidy [OF _ t] by simp
    next
      case (Some x)
      obtain i permit where x: "x = (i, permit)" by (cases x)
      then have h: "hop_ok pool ctx cands st st1 i" using p(3) Some by simp
      note r1 = hop_ready [OF Suc.prems(1) h]
      obtain st2 sent resp where a: "forward_once out app ingress i permit pool k1 st1 = Some (st2, sent, resp)" "attempt_ok pool i st1 st2 sent resp"
        using forward_once_ok [of st1 i app pool out ingress permit k1] r1 h by (auto simp: ready_def hop_ok_def)
      have P: "P pool i" using h assms(4) by (auto simp: hop_ok_def)
      show ?thesis
      proof (cases resp)
        case (Some y)
        have "served P ctx st (Some (st2, sent, y))"
          by (rule served_attempt [where P = P, OF _ P]) (use hop_attempt [OF h a(2)] Some in simp)
        then show ?thesis using False p(1) \<open>r = Some x\<close> x a(1) Some by (simp add: Let_def)
      next
        case None
        let ?ctx = "exclude i ctx"
        have "length (fill_candidates ?ctx cands) < length (fill_candidates ctx cands)"
          using h by (intro fill_exclude [of i]) (auto simp: hop_ok_def exclude_def)
        then have len: "length (fill_candidates ?ctx cands) < n" using Suc.prems(2) by simp
        have "served P ?ctx st2 (fallback_loop ex n out app ingress cands pool ?ctx (k1 + 4) st2)"
          by (rule Suc.IH [OF attempt_ready [OF r1] len]) (use a(2) None Suc.prems(3) in \<open>simp_all add: exclude_def\<close>)
        from hop_served [where P = P, OF h _ this P] show ?thesis
          using False p(1) \<open>r = Some x\<close> x a None by (simp add: Let_def exclude_def)
      qed
    qed
  qed
qed simp

definition unvisited :: "App \<Rightarrow> RequestCtx \<Rightarrow> string set" where
  "unvisited app ctx = fst ` set (fallback_pools app) - set (visited_pools ctx)"

lemma card_unvisited: "card (unvisited app ctx) \<le> length (fallback_pools app)"
proof -
  have "card (unvisited app ctx) \<le> card (fst ` set (fallback_pools app))" by (rule card_mono) (auto simp: unvisited_def)
  also have "\<dots> \<le> length (fallback_pools app)" using card_image_le [of "set (fallback_pools app)" fst] card_length [of "fallback_pools app"] by simp
  finally show ?thesis .
qed

text \<open>What a fallback pool may be sent: a member that passes every binding restrict.\<close>

definition fallback_ok :: "App \<Rightarrow> RestrictConstraint list \<Rightarrow> string \<Rightarrow> nat \<Rightarrow> bool" where
  "fallback_ok app rs p i \<longleftrightarrow> (\<exists>cands wl. al_get (fallback_pools app) p = Some cands \<and> wl \<in> set cands \<and> wl_idx wl = i
     \<and> (\<forall>r \<in> set rs. on_empty r \<noteq> Weighted \<longrightarrow> restrict_ok (pool_tags app) p r wl))"

lemma apply_restricts_ok:
  "apply_restricts tags pool rs cands = Inr cs \<Longrightarrow> set cs \<subseteq> set cands
     \<and> (\<forall>r \<in> set rs. on_empty r \<noteq> Weighted \<longrightarrow> (\<forall>wl \<in> set cs. restrict_ok tags pool r wl))"
proof (induction rs arbitrary: cands)
  case (Cons r rs)
  let ?restricted = "filter (restrict_ok tags pool r) cands"
  show ?case
  proof (cases "?restricted = []")
    case True
    then have "on_empty r = Weighted" "apply_restricts tags pool rs cands = Inr cs"
      using Cons.prems by (auto simp: Let_def split: if_splits)
    then show ?thesis using Cons.IH by simp
  next
    case False
    then have "apply_restricts tags pool rs ?restricted = Inr cs" using Cons.prems by (simp add: Let_def)
    from Cons.IH [OF this] show ?thesis by auto
  qed
qed simp

lemma exhaustion_served:
  assumes "ready app st" "members app cands" "\<forall>(p, cs) \<in> set (fallback_pools app). members app cs"
    and "card (unvisited app ctx) < hops" "\<forall>wl \<in> set cands. P pool (wl_idx wl)"
    and "\<And>p i. fallback_ok app (active_restricts ctx) p i \<Longrightarrow> P p i"
  shows "served P ctx st (handle_exhaustion_for_pool hops out app ingress cands now pool ctx k st)"
  using assms(1,2,4-)
proof (induction hops arbitrary: cands now pool ctx k st)
  case (Suc hops)
  let ?ctx = "mark_pool_visited pool ctx"
  let ?ex = "handle_exhaustion_for_pool hops out app ingress"
  note r = Suc.prems(1)
  have ex: "excluded ?ctx = excluded ctx" "excluded (mark_pool_visited q ?ctx) = excluded ctx" for q by (simp_all add: mark_pool_visited_def)
  have empty: "served P ctx st (handle_status_503 q t [] st)" for q t
    by (rule status_503_served [OF r]) (simp add: members_def)
  have fb: "served P ctx st (handle_fallback_pool ?ex out app ingress q ?ctx k st)" for q
  proof (cases "expired ?ctx (clk out k) \<or> is_pool_visited q ?ctx \<or> al_get (fallback_pools app) q = None")
    case True
    then show ?thesis
      using empty r by (auto simp: handle_fallback_pool_def ready_def from_sent_def intro!: served_unsent tidy_refl)
  next
    case False
    then obtain cs0 where cs0: "al_get (fallback_pools app) q = Some cs0" by blast
    show ?thesis
    proof (cases "enforce_restricts ?ctx (pool_tags app) q cs0")
      case (Inl a)
      then show ?thesis
        using False cs0 r by (auto simp: handle_fallback_pool_def ready_def from_sent_def intro!: served_unsent tidy_refl)
    next
      case (Inr cs)
      let ?ctx2 = "mark_pool_visited q ?ctx"
      have mem: "(q, cs0) \<in> set (fallback_pools app)" using cs0 by (rule al_get_mem)
      have e: "set cs \<subseteq> set cs0 \<and> (\<forall>r \<in> set (active_restricts ctx). on_empty r \<noteq> Weighted \<longrightarrow> (\<forall>wl \<in> set cs. restrict_ok (pool_tags app) q r wl))"
        using apply_restricts_ok [of "pool_tags app" q "active_restricts ?ctx" cs0 cs] Inr by (simp add: enforce_restricts_def mark_pool_visited_def)
      have mc: "members app cs" using e mem assms(3) by (fastforce simp: members_def)
      have P: "\<forall>wl \<in> set cs. P q (wl_idx wl)"
        using e cs0 by (intro ballI Suc.prems(5)) (auto simp: fallback_ok_def)
      have "q \<in> unvisited app ctx" using False mem
        by (force simp: unvisited_def is_pool_visited_def mark_pool_visited_def)
      then have "unvisited app ?ctx2 \<subset> unvisited app ctx" by (auto simp: unvisited_def mark_pool_visited_def)
      then have "card (unvisited app ?ctx2) < card (unvisited app ctx)"
        by (intro psubset_card_mono) (simp_all add: unvisited_def)
      then have card: "card (unvisited app ?ctx2) < hops" using Suc.prems(3) by linarith
      have "served P ?ctx2 st (fallback_loop ?ex (Suc (length cs)) out app ingress cs q ?ctx2 (k + 1) st)"
      proof (rule fallback_loop_served [where P = P and pool = q, OF r mc _ P])
        fix now' k' and ctx' :: RequestCtx and st' :: InMemoryStore
        assume a: "visited_pools ctx' = visited_pools ?ctx2" "active_restricts ctx' = active_restricts ?ctx2" "ready app st'"
        show "served P ctx' st' (?ex cs now' q ctx' k' st')"
        proof (rule Suc.IH [OF a(3) mc _ P])
          show "card (unvisited app ctx') < hops" using card a(1) by (simp add: unvisited_def)
          show "P p i" if "fallback_ok app (active_restricts ctx') p i" for p i
            using that a(2) by (intro Suc.prems(5)) (simp add: mark_pool_visited_def)
        qed
      qed (simp add: fill_candidates_def le_imp_less_Suc)
      from served_ctx [OF this, of ctx] show ?thesis using False cs0 Inr ex by (simp add: handle_fallback_pool_def)
    qed
  qed
  have lb: "served P ctx st (handle_least_bad out app ingress pool now cands k st)"
    by (rule least_bad_served [where P = P, OF r Suc.prems(2,4)])
  show ?case using fb lb status_503_served [OF r Suc.prems(2)] by (auto simp: Let_def split: option.split OnExhausted.split)
qed simp

subsection \<open>The failover loop\<close>

lemma failover_loop_served:
  assumes "ready app st" "members app cands" "\<forall>(p, cs) \<in> set (fallback_pools app). members app cs"
    and "length (fallback_pools app) < hops" "\<forall>wl \<in> set cands. P pool (wl_idx wl)"
    and "\<And>p i. fallback_ok app (active_restricts ctx) p i \<Longrightarrow> P p i"
  shows "served P ctx st (failover_loop hops n out app ingress cands aff pool po ctx k st)"
proof -
  have exh: "served P ctx' st' (handle_exhaustion_for_pool hops out app ingress cands now pool ctx' k' st')"
    if "ready app st'" "active_restricts ctx' = active_restricts ctx" for ctx' st' now k'
    by (rule exhaustion_served [where P = P, OF that(1) assms(2,3) _ assms(5)])
      (use card_unvisited [of app ctx'] assms(4,6) that(2) in auto)
  have "served P ctx' st (failover_loop hops n out app ingress cands aff pool po ctx' k st)"
    if "ready app st" "active_restricts ctx' = active_restricts ctx" for st k ctx'
    using that
  proof (induction n arbitrary: st k ctx')
    case 0
    then show ?case using exh by simp
  next
    case (Suc n)
    note r = Suc.prems(1) and c = Suc.prems(2)
    show ?case
    proof (cases "expired ctx' (clk out k)")
      case True
      then show ?thesis using r by (simp add: served_unsent tidy_refl ready_def from_sent_def)
    next
      case False
      obtain st1 k1 pr where p: "pick_among out cands ctx' aff pool po (k + 1) st = Some (st1, k1, pr)" "pr = None \<longrightarrow> tidy st {} st1"
        "\<forall>i permit. pr = Some (i, permit) \<longrightarrow> hop_ok pool ctx' cands st st1 i"
        using pick_hop [OF r assms(2)] by blast
      show ?thesis
      proof (cases pr)
        case None
        then have t: "tidy st {} st1" using p(2) by simp
        show ?thesis
          using False p(1) None served_tidy [OF exh [OF ready_tidy [OF r t] c] t] served_unsent [OF t, of NoMembers] by (simp add: from_sent_def)
      next
        case (Some x)
        obtain i permit where x: "x = (i, permit)" by (cases x)
        then have h: "hop_ok pool ctx' cands st st1 i" using p(3) Some by simp
        note r1 = hop_ready [OF r h]
        have rng: "\<forall>wl \<in> set cands. wl_idx wl < length (lanes st1)" using assms(2) r1 by (simp add: members_def ready_def)
        obtain st2 ctx2 sent resp where a: "attempt out app ingress cands i permit pool k1 (exclude i ctx') st1 = Some (st2, ctx2, sent, resp)"
          "attempt_ok pool i st1 st2 sent resp" "ctx_grows (exclude i ctx') ctx2"
          using attempt_main_ok [of st1 i app pool cands, OF _ _ _ _ _ rng] r1 h by (force simp: ready_def hop_ok_def)
        have P: "P pool i" using h assms(5) by (auto simp: hop_ok_def)
        show ?thesis
        proof (cases resp)
          case (Some y)
          have "served P ctx' st (Some (st2, sent, y))"
            by (rule served_attempt [where P = P, OF _ P]) (use hop_attempt [OF h a(2)] Some in simp)
          then show ?thesis using False p(1) \<open>pr = Some x\<close> x a(1) Some by (simp add: Let_def)
        next
          case None
          have "active_restricts ctx2 = active_restricts ctx" using ctx_grows_fields [OF a(3)] c by (simp add: exclude_def)
          then have "served P ctx2 st2 (failover_loop hops n out app ingress cands aff pool po ctx2 (k1 + 4) st2)"
            using Suc.IH attempt_ready [OF r1] a(2) None by simp
          moreover have "insert i (set (excluded ctx')) \<subseteq> set (excluded ctx2)" using a(3) by (auto simp: ctx_grows_def exclude_def)
          ultimately have "served P ctx' st (do { (st3, rest, r) \<leftarrow> failover_loop hops n out app ingress cands aff pool po ctx2 (k1 + 4) st2;
              Some (st3, sent @ rest, r) })"
            using hop_served [where P = P, OF h _ _ P] a(2) None by blast
          then show ?thesis using False p(1) \<open>pr = Some x\<close> x a(1) None by (simp add: Let_def)
        qed
      qed
    qed
  qed
  then show ?thesis using assms(1) by blast
qed

end
