(* ===== verification/Requests.thy ===== *)
theory Requests
  imports Failover
begin

text \<open>
  The whole path of a request: whatever the gates decide and the upstreams do, the request is answered,
  leaves no breaker half-open, costs at most one budget unit, tries no lane twice except as a last resort,
  and is sent only to lanes that every binding restrict allows.
\<close>

subsection \<open>Gates\<close>

text \<open>The lane carries one of the tags.\<close>

definition tagged :: "App \<Rightarrow> string list \<Rightarrow> string \<Rightarrow> nat \<Rightarrow> bool" where
  "tagged app tags p i \<longleftrightarrow> (\<exists>ts. pool_tags app p i = Some ts \<and> set ts \<inter> set tags \<noteq> {})"

lemma restrict_ok_tagged: "restrict_ok (pool_tags app) p r wl \<longleftrightarrow> tagged app (tags_any r) p (wl_idx wl)"
  by (auto simp: restrict_ok_def tagged_def list_ex_iff split: option.split)

definition restricts_of :: "PolicyOutcome list \<Rightarrow> RestrictConstraint list" where
  "restricts_of os = concat (map (\<lambda>x. case x of RestrictOutcome tags name oe \<Rightarrow> [\<lparr>tags_any = tags, on_empty = oe, rs_name = name\<rparr>] | _ \<Rightarrow> []) os)"

text \<open>After the restricts: fewer candidates, each allowed by every binding restrict, which the context keeps.\<close>

definition narrowed :: "App \<Rightarrow> string \<Rightarrow> RestrictConstraint list \<Rightarrow> RequestCtx \<times> WeightedLane list \<Rightarrow> RequestCtx \<times> WeightedLane list \<Rightarrow> bool" where
  "narrowed app pool rs s s' \<longleftrightarrow> fst s' = (fst s)\<lparr>active_restricts := active_restricts (fst s) @ rs\<rparr> \<and> set (snd s') \<subseteq> set (snd s)
     \<and> (\<forall>r \<in> set rs. on_empty r \<noteq> Weighted \<longrightarrow> (\<forall>wl \<in> set (snd s'). tagged app (tags_any r) pool (wl_idx wl)))"

lemma narrowed_refl: "narrowed app pool [] s s"
  by (simp add: narrowed_def)

lemma narrowed_trans: "narrowed app pool rs s s1 \<Longrightarrow> narrowed app pool rs' s1 s2 \<Longrightarrow> narrowed app pool (rs @ rs') s s2"
  by (auto simp: narrowed_def)

lemma reconcile_restrict_narrowed: "reconcile_restrict app pool r s = Inr s' \<Longrightarrow> narrowed app pool [r] s s'"
  by (cases s) (auto simp: reconcile_restrict_def narrowed_def Let_def restrict_ok_tagged split: if_splits)

lemma reconcile_restricts_narrowed:
  "reconcile_restricts app pool os s = Inr s' \<Longrightarrow> narrowed app pool (restricts_of os) s s'"
proof (induction app pool os s rule: reconcile_restricts.induct)
  case (2 app pool tags name oe os s)
  let ?r = "\<lparr>tags_any = tags, on_empty = oe, rs_name = name\<rparr>"
  obtain s1 where 1: "reconcile_restrict app pool ?r s = Inr s1" "reconcile_restricts app pool os s1 = Inr s'"
    using 2(2) by (auto split: sum.splits)
  from narrowed_trans [OF reconcile_restrict_narrowed [OF 1(1)] 2(1) [OF 1]] show ?case by (simp add: restricts_of_def)
qed (simp_all add: restricts_of_def narrowed_refl)

text \<open>The restricts that bind a request: those of the gates, and that of the policy when no gate ordered.\<close>

definition binding :: "Outside \<Rightarrow> App \<Rightarrow> string \<Rightarrow> nat list option \<Rightarrow> RestrictConstraint list" where
  "binding out app pool order = restricts_of (gate_outcomes out app pool)
     @ (case order of Some _ \<Rightarrow> [] | None \<Rightarrow> (case policy_outcome out app pool of None \<Rightarrow> [] | Some x \<Rightarrow> restricts_of [x]))"

lemma run_gates_narrowed:
  assumes "run_gates out app pool s = Inr (s', order)"
  shows "narrowed app pool (restricts_of (gate_outcomes out app pool)) s s' \<and> order = reconcile_order (snd s') None (gate_outcomes out app pool)"
  using assms reconcile_restricts_narrowed by (fastforce simp: run_gates_def Let_def split: option.splits sum.splits)

lemma run_policy_narrowed:
  assumes "run_policy out app pool (s, order) = Inr (s', order')"
  shows "narrowed app pool (case order of Some _ \<Rightarrow> [] | None \<Rightarrow> (case policy_outcome out app pool of None \<Rightarrow> [] | Some x \<Rightarrow> restricts_of [x])) s s'"
  using assms
  by (auto simp: run_policy_def restricts_of_def narrowed_refl split: option.splits PolicyOutcome.splits sum.splits intro: reconcile_restrict_narrowed)

lemma first_reject_gate: "first_reject os = Some resp \<Longrightarrow> \<exists>n. resp = GateRejected n"
  by (induction os rule: first_reject.induct) auto

lemma reconcile_restrict_gate: "reconcile_restrict app pool r s = Inl resp \<Longrightarrow> \<exists>n. resp = GateRejected n"
  by (auto simp: reconcile_restrict_def Let_def split: prod.splits if_splits)

lemma reconcile_restricts_gate: "reconcile_restricts app pool os s = Inl resp \<Longrightarrow> \<exists>n. resp = GateRejected n"
  by (induction app pool os s rule: reconcile_restricts.induct) (auto split: sum.splits dest: reconcile_restrict_gate)

lemma run_gates_reject: "run_gates out app pool s = Inl resp \<Longrightarrow> \<exists>n. resp = GateRejected n"
  by (auto simp: run_gates_def Let_def split: option.splits sum.splits dest: first_reject_gate reconcile_restricts_gate)

lemma run_policy_reject: "run_policy out app pool x = Inl resp \<Longrightarrow> \<exists>n. resp = GateRejected n"
  by (auto simp: run_policy_def split: prod.splits option.splits PolicyOutcome.splits sum.splits dest: reconcile_restrict_gate)

lemma reconcile_order_None: "\<forall>x \<in> set os. \<forall>ord name. x \<noteq> OrderOutcome ord name \<Longrightarrow> reconcile_order cands order os = order"
  by (induction cands order os rule: reconcile_order.induct) auto

subsection \<open>The request\<close>

lemma supporting_ok:
  "members app cands \<Longrightarrow> \<exists>kept. supporting app cands = Some kept \<and> set kept = {wl \<in> set cands. la_supports (app_lanes app ! wl_idx wl)}"
  by (induction cands) (auto simp: members_def app_lane_def)

lemma apply_exclusions_ok:
  "members app cands \<Longrightarrow> \<exists>ctx'. apply_exclusions app excl cands ctx = Some ctx' \<and> ctx' = ctx\<lparr>excluded := excluded ctx'\<rparr>
     \<and> set (excluded ctx') = set (excluded ctx) \<union> {wl_idx wl | wl. wl \<in> set cands \<and> la_model (app_lanes app ! wl_idx wl) \<in> set excl}"
proof (induction cands arbitrary: ctx)
  case (Cons wl cands)
  let ?ctx = "if la_model (app_lanes app ! wl_idx wl) \<in> set excl then exclude (wl_idx wl) ctx else ctx"
  have m: "members app cands" "app_lane app (wl_idx wl) = Some (app_lanes app ! wl_idx wl)"
    using Cons.prems by (simp_all add: members_def app_lane_def)
  obtain ctx' where c: "apply_exclusions app excl cands ?ctx = Some ctx'" "ctx' = ?ctx\<lparr>excluded := excluded ctx'\<rparr>"
    "set (excluded ctx') = set (excluded ?ctx) \<union> {wl_idx wl | wl. wl \<in> set cands \<and> la_model (app_lanes app ! wl_idx wl) \<in> set excl}"
    using Cons.IH [OF m(1), of ?ctx] by blast
  have "ctx' = ctx\<lparr>excluded := excluded ctx'\<rparr>" using c(2) by (cases ctx; cases ctx') (simp add: exclude_def split: if_splits)
  moreover have "set (excluded ctx') = set (excluded ctx)
      \<union> {wl_idx w | w. w \<in> set (wl # cands) \<and> la_model (app_lanes app ! wl_idx w) \<in> set excl}"
    using c(3) by (auto simp: exclude_def)
  ultimately show ?case using c(1) m(2) by auto
qed simp

text \<open>The members a pool's configuration excludes.\<close>

definition blocklist :: "App \<Rightarrow> string \<Rightarrow> string list" where
  "blocklist app pool = (case Option.bind (pool_failover app pool) exclusions of Some excl \<Rightarrow> excl | None \<Rightarrow> [])"

lemma forward_served:
  assumes "ready app st" "members app cands" "\<forall>(p, cs) \<in> set (fallback_pools app). members app cs" "length (fallback_pools app) < hops"
  shows "\<exists>ctx rs. served (\<lambda>p i. (p = pool \<and> i \<in> wl_idx ` set cands \<or> (\<exists>cs. al_get (fallback_pools app) p = Some cs \<and> i \<in> wl_idx ` set cs))
        \<and> (\<forall>r \<in> set rs. on_empty r \<noteq> Weighted \<longrightarrow> tagged app (tags_any r) p i))
      ctx st (forward_with_pool hops out app ingress cands aff pool st)
    \<and> (\<forall>wl \<in> set cands. la_supports (app_lanes app ! wl_idx wl) \<and> la_model (app_lanes app ! wl_idx wl) \<in> set (blocklist app pool)
        \<longrightarrow> wl_idx wl \<in> set (excluded ctx))
    \<and> set (restricts_of (gate_outcomes out app pool)) \<subseteq> set rs
    \<and> ((\<forall>ord name. OrderOutcome ord name \<notin> set (gate_outcomes out app pool))
        \<longrightarrow> (\<forall>x. policy_outcome out app pool = Some x \<longrightarrow> set (restricts_of [x]) \<subseteq> set rs))"
    (is "\<exists>ctx rs. served (?P rs) ctx st ?res \<and> ?B ctx \<and> ?G rs \<and> ?L rs")
proof -
  obtain kept where kept: "supporting app cands = Some kept" "set kept = {wl \<in> set cands. la_supports (app_lanes app ! wl_idx wl)}"
    using supporting_ok [OF assms(2)] by blast
  define ctx0 where "ctx0 = RequestCtx_new (clk out 0) (case pool_failover app pool of Some f \<Rightarrow> timeout_secs f | None \<Rightarrow> DEFAULT_FAILOVER_DEADLINE_SECS)"
  have mk: "members app kept" using assms(2) kept(2) by (simp add: members_def)
  obtain ctx where ctx: "(case Option.bind (pool_failover app pool) exclusions of Some excl \<Rightarrow> apply_exclusions app excl kept ctx0 | None \<Rightarrow> Some ctx0) = Some ctx"
    and bl: "?B ctx"
    using apply_exclusions_ok [OF mk, of _ ctx0] kept(2)
    by (cases "Option.bind (pool_failover app pool) exclusions") (fastforce simp: blocklist_def)+
  define allrs where "allrs = restricts_of (gate_outcomes out app pool) @ (case policy_outcome out app pool of None \<Rightarrow> [] | Some x \<Rightarrow> restricts_of [x])"
  have all: "?G allrs" "?L allrs" by (auto simp: allrs_def)
  have unsent: "served (?P allrs) ctx st (Some (st, [], resp))" if "from_sent [] resp" for resp
    using assms(1) that by (intro served_unsent tidy_refl) (simp add: ready_def)
  have step: "?res = (if kept = [] \<and> cands \<noteq> [] then Some (st, [], LocalError 404) else
      case run_gates out app pool (ctx, kept) of Inl resp \<Rightarrow> Some (st, [], resp)
      | Inr gated \<Rightarrow> (case run_policy out app pool gated of Inl resp \<Rightarrow> Some (st, [], resp)
          | Inr ((ctx, cands), order) \<Rightarrow> failover_loop hops (Suc (case pool_failover app pool of Some f \<Rightarrow> max_hops f | None \<Rightarrow> DEFAULT_FAILOVER_CAP))
              out app ingress cands aff pool order ctx 1 st))"
    unfolding forward_with_pool_def kept(1) Option.bind.bind_lunit Let_def ctx0_def [symmetric] ctx by simp
  show ?thesis
  proof (cases "kept = [] \<and> cands \<noteq> []")
    case True
    have "served (?P allrs) ctx st ?res" using True unsent [of "LocalError 404"] by (simp add: step from_sent_def)
    then show ?thesis using bl all by blast
  next
    case False
    show ?thesis
    proof (cases "run_gates out app pool (ctx, kept)")
      case (Inl resp)
      then have "served (?P allrs) ctx st ?res"
        using False unsent [of resp] run_gates_reject [OF Inl] by (auto simp: step from_sent_def)
      then show ?thesis using bl all by blast
    next
      case (Inr gated)
      obtain s1 order where g: "gated = (s1, order)" by (cases gated)
      note n1 = run_gates_narrowed [OF Inr [unfolded g]]
      show ?thesis
      proof (cases "run_policy out app pool (s1, order)")
        case (Inl resp)
        then have "served (?P allrs) ctx st ?res"
          using False Inr g unsent [of resp] run_policy_reject [OF Inl] by (auto simp: step from_sent_def)
        then show ?thesis using bl all by blast
      next
        case r2: (Inr y)
        obtain ctx2 cands2 order2 where y: "y = ((ctx2, cands2), order2)" by (metis prod.exhaust)
        let ?rs = "binding out app pool order"
        have n: "narrowed app pool ?rs (ctx, kept) (ctx2, cands2)"
          using narrowed_trans [OF n1 [THEN conjunct1] run_policy_narrowed [OF r2 [unfolded y]]] by (simp add: binding_def)
        have c2: "excluded ctx2 = excluded ctx" "set ?rs \<subseteq> set (active_restricts ctx2)" "set cands2 \<subseteq> set kept" using n by (auto simp: narrowed_def)
        let ?loop = "failover_loop hops (Suc (case pool_failover app pool of Some f \<Rightarrow> max_hops f | None \<Rightarrow> DEFAULT_FAILOVER_CAP))
              out app ingress cands2 aff pool order2 ctx2 1 st"
        have eq: "?res = ?loop" using False by (auto simp: step Inr g r2 y simp del: failover_loop.simps)
        have "served (?P ?rs) ctx2 st ?loop"
        proof (rule failover_loop_served [OF assms(1) _ assms(3,4)])
          show "members app cands2" using mk c2(3) by (auto simp: members_def)
          show "\<forall>wl \<in> set cands2. ?P ?rs pool (wl_idx wl)" using n c2(3) kept(2) by (auto simp: narrowed_def)
          show "?P ?rs p i" if "fallback_ok app (active_restricts ctx2) p i" for p i
            using that c2(2) by (fastforce simp: fallback_ok_def restrict_ok_tagged)
        qed
        then have "served (?P ?rs) ctx st ?res" unfolding eq by (rule served_ctx) (simp add: c2(1))
        moreover have "?G ?rs" by (auto simp: binding_def)
        moreover have "order = None" if "\<forall>ord name. OrderOutcome ord name \<notin> set (gate_outcomes out app pool)"
          using that n1 reconcile_order_None [of "gate_outcomes out app pool" "snd s1" None] by metis
        then have "?L ?rs" by (auto simp: binding_def)
        ultimately show ?thesis using bl by blast
      qed
    qed
  qed
qed

definition example_app :: App where
  "example_app = \<lparr>app_lanes = [\<lparr>la_model = ''a'', la_provider = ''x'', la_upstream_model = None, la_protocol = ''openai'', la_error_map = [], la_context_max = Some 8000, la_supports = True\<rparr>,
       \<lparr>la_model = ''b'', la_provider = ''y'', la_upstream_model = Some ''b-1'', la_protocol = ''anthropic'', la_error_map = [], la_context_max = None, la_supports = True\<rparr>],
     failover_cfg = None,
     pool_runtime = [(''p'', \<lparr>rt_members = [(0, [''eu'']), (1, [''us''])],
       rt_failover = Some \<lparr>timeout_secs = 60, exclusions = Some [''a''], max_hops = 2\<rparr>, rt_breaker = None, rt_policy = None, rt_gates = [(5, 0)]\<rparr>)],
     fallback_pools = [(''q'', example_cands)], on_exhausted_cfgs = [(''p'', LeastBad), (''q'', FallbackPool ''p'')],
     global_gates = [], upstream_creds = Own\<rparr>"

lemma example_ready: "ready example_app example_store" "members example_app example_cands"
  "\<forall>(p, cs) \<in> set (fallback_pools example_app). members example_app cs" "length (fallback_pools example_app) < 2"
proof -
  have "cfg_ok (resolve_breaker_cfg example_app p)" for p
    using BreakerCfg_default_ok by (simp add: resolve_breaker_cfg_def example_app_def split: option.split)
  then show "ready example_app example_store"
    using example_store_wf by (auto simp: ready_def example_app_def example_length budgets_fit_def purse_def example_store_def new_with_limits_def
        LaneState_new_def example_lane_def i64_max_def)
qed (simp_all add: example_app_def members_def example_cands_def)

text \<open>
  Claim C5. Every request is answered and settles. Whatever the hooks decide, the upstreams do and the
  clock reads, forwarding a request returns: it never panics, and one hop more than there are fallback
  pools is enough however they refer to one another. No breaker cell, of any pool, is left half-open by
  the request: a probe it took is ended on every exit. No lane is tried twice and no lane the pool's
  configuration excludes is tried, except possibly as the very last send (the least-bad member of an
  exhausted pool). An answer relayed from a lane comes from the lane the request was last sent to.
\<close>

theorem request_settles:
  assumes "ready app st" "members app cands" "\<forall>(p, cs) \<in> set (fallback_pools app). members app cs"
    and "length (fallback_pools app) < hops"
  shows "\<exists>st' sent resp. forward_with_pool hops out app ingress cands affinity pool st = Some (st', sent, resp) \<and> store_wf st'
    \<and> (\<forall>p l c'. view st' p l = Some c' \<and> breaker_state c' = ST_HALF_OPEN
         \<longrightarrow> (\<exists>c. view st p l = Some c \<and> breaker_state c = ST_HALF_OPEN))
    \<and> (\<exists>xs ys. sent = xs @ ys \<and> length ys \<le> 1 \<and> distinct (map snd xs)
         \<and> (\<forall>wl \<in> set cands. la_supports (app_lanes app ! wl_idx wl) \<and> la_model (app_lanes app ! wl_idx wl) \<in> set (blocklist app pool)
              \<longrightarrow> wl_idx wl \<notin> snd ` set xs))
    \<and> (\<forall>p i s. resp = Delivered p i \<or> resp = UpstreamError p i s \<longrightarrow> sent \<noteq> [] \<and> last sent = (p, i))"
proof -
  obtain P ctx where s: "served P ctx st (forward_with_pool hops out app ingress cands affinity pool st)"
    and b: "\<forall>wl \<in> set cands. la_supports (app_lanes app ! wl_idx wl) \<and> la_model (app_lanes app ! wl_idx wl) \<in> set (blocklist app pool)
        \<longrightarrow> wl_idx wl \<in> set (excluded ctx)"
    using forward_served [OF assms, of pool out ingress affinity] by blast
  obtain st' sent resp where f: "forward_with_pool hops out app ingress cands affinity pool st = Some (st', sent, resp)" "store_wf st'"
    "probes st' \<subseteq> probes st" "from_sent sent resp" "once ctx sent" using s by (auto simp: served_def)
  obtain xs ys where x: "sent = xs @ ys" "length ys \<le> 1" "distinct (map snd xs)" "snd ` set xs \<inter> set (excluded ctx) = {}"
    using f(5) by (auto simp: once_def)
  have "\<forall>p l c'. view st' p l = Some c' \<and> breaker_state c' = ST_HALF_OPEN \<longrightarrow> (\<exists>c. view st p l = Some c \<and> breaker_state c = ST_HALF_OPEN)"
    using f(3) by (auto simp: probes_def)
  moreover have "\<forall>wl \<in> set cands. la_supports (app_lanes app ! wl_idx wl) \<and> la_model (app_lanes app ! wl_idx wl) \<in> set (blocklist app pool)
      \<longrightarrow> wl_idx wl \<notin> snd ` set xs" using b x(4) by blast
  moreover have "\<forall>p i s. resp = Delivered p i \<or> resp = UpstreamError p i s \<longrightarrow> sent \<noteq> [] \<and> last sent = (p, i)"
    using f(4) by (simp add: from_sent_def)
  ultimately show ?thesis using f(1,2) x(1-3) by blast
qed


theorem request_settles_witness:
  "\<exists>st' sent resp. forward_with_pool 2 example_outside example_app ''openai'' example_cands (Some 7) ''p'' example_store = Some (st', sent, resp)
     \<and> store_wf st'"
  using request_settles [OF example_ready, of example_outside "''openai''" "Some 7" "''p''"] by blast


lemma first_reject_Some: "first_reject os \<noteq> None \<longleftrightarrow> (\<exists>x \<in> set os. x = RejectOutcome \<or> (\<exists>s m n. x = RejectRequest s m n))"
  by (induction os rule: first_reject.induct) auto

lemma rejected_unsent:
  assumes "members app cands" "first_reject (gate_outcomes out app pool) \<noteq> None"
  shows "\<exists>resp. forward_with_pool hops out app ingress cands affinity pool st = Some (st, [], resp)"
proof -
  obtain kept where kept: "supporting app cands = Some kept" "members app kept"
    using supporting_ok [OF assms(1)] assms(1) by (auto simp: members_def)
  obtain ctx where c: "(case Option.bind (pool_failover app pool) exclusions of Some excl \<Rightarrow> apply_exclusions app excl kept
      (RequestCtx_new (clk out 0) (case pool_failover app pool of Some f \<Rightarrow> timeout_secs f | None \<Rightarrow> DEFAULT_FAILOVER_DEADLINE_SECS))
      | None \<Rightarrow> Some (RequestCtx_new (clk out 0) (case pool_failover app pool of Some f \<Rightarrow> timeout_secs f | None \<Rightarrow> DEFAULT_FAILOVER_DEADLINE_SECS))) = Some ctx"
    using apply_exclusions_ok [OF kept(2)] by (cases "Option.bind (pool_failover app pool) exclusions") (auto, metis)
  obtain resp where g: "run_gates out app pool (ctx, kept) = Inl resp" using assms(2) by (auto simp: run_gates_def Let_def)
  show ?thesis
  proof (cases "kept = [] \<and> cands \<noteq> []")
    case False
    have "forward_with_pool hops out app ingress cands affinity pool st = Some (st, [], resp)"
      unfolding forward_with_pool_def kept(1) Option.bind.bind_lunit Let_def c using False g by auto
    then show ?thesis by blast
  qed (simp add: forward_with_pool_def kept(1))
qed

text \<open>
  Claim C6. Restricts are a compliance boundary. Every send of a request, on the first hop, on failover,
  in any fallback pool and on the least-bad last resort, goes to a member of the pool or of a configured
  fallback pool that carries, in that pool, one of the tags of every binding restrict: each restrict of a
  gate, and that of the pool's routing policy when no gate ordered the candidates, unless its empty result
  falls back to weighted selection. When a gate rejects the request, nothing is sent and nothing changes.
\<close>

theorem restricts_hold_everywhere:
  assumes "ready app st" "members app cands" "\<forall>(p, cs) \<in> set (fallback_pools app). members app cs"
    and "length (fallback_pools app) < hops"
  shows "\<exists>st' sent resp. forward_with_pool hops out app ingress cands affinity pool st = Some (st', sent, resp)
    \<and> (\<forall>(p, i) \<in> set sent.
         (p = pool \<and> i \<in> wl_idx ` set cands \<or> (\<exists>cs. al_get (fallback_pools app) p = Some cs \<and> i \<in> wl_idx ` set cs))
         \<and> (\<forall>tags name oe. oe \<noteq> Weighted \<and> (RestrictOutcome tags name oe \<in> set (gate_outcomes out app pool)
               \<or> policy_outcome out app pool = Some (RestrictOutcome tags name oe)
                  \<and> (\<forall>ord nm. OrderOutcome ord nm \<notin> set (gate_outcomes out app pool)))
             \<longrightarrow> (\<exists>ts. pool_tags app p i = Some ts \<and> set ts \<inter> set tags \<noteq> {})))
    \<and> ((\<exists>x \<in> set (gate_outcomes out app pool). x = RejectOutcome \<or> (\<exists>s m n. x = RejectRequest s m n)) \<longrightarrow> sent = [] \<and> st' = st)"
proof -
  let ?f = "forward_with_pool hops out app ingress cands affinity pool st"
  obtain ctx rs where s: "served (\<lambda>p i. (p = pool \<and> i \<in> wl_idx ` set cands \<or> (\<exists>cs. al_get (fallback_pools app) p = Some cs \<and> i \<in> wl_idx ` set cs))
        \<and> (\<forall>r \<in> set rs. on_empty r \<noteq> Weighted \<longrightarrow> tagged app (tags_any r) p i)) ctx st ?f"
    and g: "set (restricts_of (gate_outcomes out app pool)) \<subseteq> set rs"
    and l: "(\<forall>ord name. OrderOutcome ord name \<notin> set (gate_outcomes out app pool))
        \<longrightarrow> (\<forall>x. policy_outcome out app pool = Some x \<longrightarrow> set (restricts_of [x]) \<subseteq> set rs)"
    using forward_served [OF assms, of pool out ingress affinity] by blast
  have of_gate: "\<lparr>tags_any = tags, on_empty = oe, rs_name = name\<rparr> \<in> set (restricts_of os)" if "RestrictOutcome tags name oe \<in> set os" for tags name oe os
    using that by (force simp: restricts_of_def)
  have tg: "tagged app tags p i" if "\<forall>r \<in> set rs. on_empty r \<noteq> Weighted \<longrightarrow> tagged app (tags_any r) p i" "oe \<noteq> Weighted"
      "RestrictOutcome tags name oe \<in> set (gate_outcomes out app pool) \<or> policy_outcome out app pool = Some (RestrictOutcome tags name oe)
         \<and> (\<forall>ord nm. OrderOutcome ord nm \<notin> set (gate_outcomes out app pool))" for p i tags name oe
  proof -
    have "\<lparr>tags_any = tags, on_empty = oe, rs_name = name\<rparr> \<in> set rs"
      using that(3) of_gate [of tags name oe] g l by fastforce
    then show ?thesis using that(1,2) by fastforce
  qed
  obtain st' sent resp where f: "?f = Some (st', sent, resp)"
    "\<forall>(p, i) \<in> set sent. (p = pool \<and> i \<in> wl_idx ` set cands \<or> (\<exists>cs. al_get (fallback_pools app) p = Some cs \<and> i \<in> wl_idx ` set cs))
        \<and> (\<forall>r \<in> set rs. on_empty r \<noteq> Weighted \<longrightarrow> tagged app (tags_any r) p i)" using s by (auto simp: served_def)
  have rej: "sent = [] \<and> st' = st" if "\<exists>x \<in> set (gate_outcomes out app pool). x = RejectOutcome \<or> (\<exists>s m n. x = RejectRequest s m n)"
    using rejected_unsent [OF assms(2), of out pool hops ingress affinity st] first_reject_Some that f(1) by force
  have all: "\<forall>(p, i) \<in> set sent.
      (p = pool \<and> i \<in> wl_idx ` set cands \<or> (\<exists>cs. al_get (fallback_pools app) p = Some cs \<and> i \<in> wl_idx ` set cs))
      \<and> (\<forall>tags name oe. oe \<noteq> Weighted \<and> (RestrictOutcome tags name oe \<in> set (gate_outcomes out app pool)
            \<or> policy_outcome out app pool = Some (RestrictOutcome tags name oe)
               \<and> (\<forall>ord nm. OrderOutcome ord nm \<notin> set (gate_outcomes out app pool)))
          \<longrightarrow> tagged app tags p i)"
  proof (clarify, intro conjI allI impI)
    fix p i tags name oe
    assume "(p, i) \<in> set sent"
    then have x: "p = pool \<and> i \<in> wl_idx ` set cands \<or> (\<exists>cs. al_get (fallback_pools app) p = Some cs \<and> i \<in> wl_idx ` set cs)"
      "\<forall>r \<in> set rs. on_empty r \<noteq> Weighted \<longrightarrow> tagged app (tags_any r) p i" using f(2) by auto
    show "p = pool \<and> i \<in> wl_idx ` set cands \<or> (\<exists>cs. al_get (fallback_pools app) p = Some cs \<and> i \<in> wl_idx ` set cs)" by (rule x(1))
    assume "oe \<noteq> Weighted \<and> (RestrictOutcome tags name oe \<in> set (gate_outcomes out app pool)
            \<or> policy_outcome out app pool = Some (RestrictOutcome tags name oe)
               \<and> (\<forall>ord nm. OrderOutcome ord nm \<notin> set (gate_outcomes out app pool)))"
    then show "tagged app tags p i" using tg [OF x(2)] by blast
  qed
  show ?thesis by (intro exI conjI) (rule f(1), use all rej in \<open>simp_all add: tagged_def\<close>)
qed

definition restricting_outside :: Outside where
  "restricting_outside = example_outside\<lparr>decide := (\<lambda>n g. RestrictOutcome [''us''] ''baa'' Reject)\<rparr>"

theorem restricts_hold_everywhere_witness:
  "\<exists>st' sent resp. forward_with_pool 2 restricting_outside example_app ''openai'' example_cands None ''p'' example_store = Some (st', sent, resp)
     \<and> (\<forall>(p, i) \<in> set sent. \<exists>ts. pool_tags example_app p i = Some ts \<and> ''us'' \<in> set ts)"
proof -
  have "RestrictOutcome [''us''] ''baa'' Reject \<in> set (gate_outcomes restricting_outside example_app ''p'')"
    by (simp add: gate_outcomes_def gate_chain_def example_app_def restricting_outside_def)
  with restricts_hold_everywhere [OF example_ready, of restricting_outside "''openai''" None "''p''"] show ?thesis by fastforce
qed

end
