(* ===== verification/Dispositions.thy ===== *)
theory Dispositions
  imports Requests
begin

text \<open>
  What the disposition of a failed attempt means for the breakers and for the rest of the request: a
  caller's fault penalises no lane, a rejected credential or an unpaid bill opens the lane in every pool,
  a request too large for a lane skips the lanes that are no larger.
\<close>

subsection \<open>Faults of the caller\<close>

definition unpenalised :: "string \<Rightarrow> nat \<Rightarrow> InMemoryStore \<Rightarrow> InMemoryStore \<Rightarrow> bool" where
  "unpenalised pool i st st' \<longleftrightarrow> (\<forall>p l c. view st p l = Some c \<longrightarrow> (\<exists>c'. view st' p l = Some c'
     \<and> cooldown_until c' = cooldown_until c \<and> streak c' = streak c \<and> outcome_window c' = outcome_window c \<and> err c' = err c
     \<and> breaker_state c' = (if p = pool \<and> l = i \<and> breaker_state c = ST_HALF_OPEN then ST_OPEN else breaker_state c)))"

lemma view_set_lane:
  "i < length (lanes st) \<Longrightarrow> def_cell ls = def_cell (lanes st ! i) \<Longrightarrow> view (set_lane st i ls) p l = view st p l"
  by (auto simp: set_lane_def view_def nth_list_update split: option.split)

lemma inherited_release: "inherited_cell (cell_release_probe d) = inherited_cell d"
  by (simp add: inherited_cell_def cell_release_probe_def st_defs)

lemma release_view:
  assumes "store_wf st" "i < length (lanes st)" "release_probe_in st pool i = Some st1"
  shows "view st1 p l = (if p = pool \<and> l = i then map_option cell_release_probe (view st p l) else view st p l)"
proof -
  obtain st0 c where 0: "cell_in st pool i = Some (st0, c)" "view st pool i = Some c" "\<And>p l. view st0 p l = view st p l" "lanes st0 = lanes st"
    by (rule fetchE [OF assms(1,2), of pool]) blast
  have st1: "st1 = put_cell st0 pool i (cell_release_probe c)" using assms(3) 0(1) by (simp add: release_probe_in_def)
  have "view (put_cell st0 pool i (cell_release_probe c)) p l
      = (if p = pool \<and> l = i then Some (cell_release_probe c) else view st0 p l)"
  proof (cases "pool = [] \<and> l = i \<and> p \<noteq> []")
    case True
    then have "def_cell (lanes st ! i) = c" using 0(2) assms(2) by (simp add: view_def)
    then show ?thesis using True assms(2) 0(4) inherited_release by (auto simp: put_cell_def view_def split: option.split)
  next
    case False
    then show ?thesis using put_cell_view [of i st0 pool l p] 0(4) assms(2) by auto
  qed
  then show ?thesis using 0(2,3) st1 by auto
qed

lemma drop_permit_view: "i < length (lanes st) \<Longrightarrow> drop_permit out permit i st = Some st1 \<Longrightarrow> view st1 p l = view st p l"
  by (auto simp: drop_permit_def get_lane_def view_set_lane split: Permit.splits)

lemma release_and_drop_unpenalised:
  assumes "store_wf st" "i < length (lanes st)" "release_and_drop out pool i permit st = Some st'"
  shows "unpenalised pool i st st'"
proof -
  obtain st1 where 1: "release_probe_in st pool i = Some st1" "drop_permit out permit i st1 = Some st'"
    using assms(3) unfolding release_and_drop_def by (rule bind_SomeE)
  have "tidy st {(pool, i)} st1" using release_does [OF assms(1,2), of pool] 1(1) by (auto simp: does_def)
  then have "i < length (lanes st1)" using tidy_next assms(2) by blast
  then have "view st' p l = view st1 p l" for p l using drop_permit_view 1(2) by blast
  then show ?thesis using release_view [OF assms(1,2) 1(1)] by (auto simp: unpenalised_def cell_release_probe_def)
qed

lemma client_fault_view: "i < length (lanes st) \<Longrightarrow> record_client_fault st i = Some st1 \<Longrightarrow> view st1 p l = view st p l"
  by (auto simp: record_client_fault_def get_lane_def view_set_lane)

text \<open>The signal a response is classified by.\<close>

definition signal :: "App \<Rightarrow> nat \<Rightarrow> UpstreamResponse \<Rightarrow> CanonicalSignal" where
  "signal app i r = normalize_raw_error ((ur_raw r)\<lparr>retry_after_secs := ur_retry_after r\<rparr>) (map_of (la_error_map (app_lanes app ! i)))"


definition example_response :: "nat \<Rightarrow> string option \<Rightarrow> UpstreamResponse" where
  "example_response status code = \<lparr>ur_status = status, ur_retry_after = None,
     ur_raw = \<lparr>http_status = status, provider_code = code, structured_type = None, retry_after_secs = None\<rparr>,
     ur_latency_ms = Fin 20, ur_is_sse = False, ur_read_end = Complete, ur_failed = None\<rparr>"

lemma example_response_status [simp]: "ur_status (example_response status code) = status"
  by (simp add: example_response_def)

definition answering_outside :: "nat \<Rightarrow> string option \<Rightarrow> Outside" where
  "answering_outside status code = example_outside\<lparr>upstream := (\<lambda>k i. Headers (example_response status code))\<rparr>"

lemma answering_upstream [simp]: "upstream (answering_outside status code) k i = Headers (example_response status code)"
  by (simp add: answering_outside_def)


subsection \<open>Requests that are too large\<close>

text \<open>
  A request too large for a lane is not tried on a lane that is no larger. After a
  context-length rejection by a lane with a known window, the failover loop returns, and every later send
  of the request, fallback pools included, avoids the candidates whose known window is not larger, except
  possibly the very last send (the least-bad member of an exhausted pool).
\<close>

theorem context_length_skips_smaller:
  assumes "ready app st" "members app cands" "\<forall>(p, cs) \<in> set (fallback_pools app). members app cs"
    and "length (fallback_pools app) < hops" "i < length (lanes st)"
    and "upstream out k i = Headers r" "\<not> is_success (ur_status r)" "classify (signal app i r) = ContextLengthD"
    and "\<not> (upstream_creds app = Passthrough \<and> (ur_status r = 401 \<or> ur_status r = 403))"
    and "la_context_max (app_lanes app ! i) = Some limit"
  shows "\<exists>st1 ctx1 st2 sent resp. attempt out app ingress cands i permit pool k ctx st = Some (st1, ctx1, [(pool, i)], None)
    \<and> failover_loop hops n out app ingress cands affinity pool policy_order ctx1 k' st1 = Some (st2, sent, resp)
    \<and> (\<exists>xs ys. sent = xs @ ys \<and> length ys \<le> 1
        \<and> (\<forall>wl \<in> set cands. \<forall>m. la_context_max (app_lanes app ! wl_idx wl) = Some m \<and> m \<le> limit \<longrightarrow> wl_idx wl \<notin> snd ` set xs))"
proof -
  have wf: "store_wf st" and al: "app_lane app i = Some (app_lanes app ! i)" using assms(1,5) by (simp_all add: ready_def app_lane_def)
  obtain st1 where 1: "release_and_drop out pool i permit st = Some st1" "tidy st {(pool, i)} st1"
    by (rule doesE [OF release_and_drop_does [OF wf assms(5)]])
  obtain ctx1 where c: "exclude_smaller app (la_context_max (app_lanes app ! i)) cands ctx = Some ctx1"
    and e: "set (excluded ctx1) = set (excluded ctx) \<union> {wl_idx wl | wl m f. wl \<in> set cands
        \<and> la_context_max (app_lanes app ! wl_idx wl) = Some m \<and> la_context_max (app_lanes app ! i) = Some f \<and> m \<le> f}"
    using exclude_smaller_eq [of cands app "la_context_max (app_lanes app ! i)" ctx] assms(2) unfolding members_def by blast
  have small: "\<forall>wl \<in> set cands. \<forall>m. la_context_max (app_lanes app ! wl_idx wl) = Some m \<and> m \<le> limit \<longrightarrow> wl_idx wl \<in> set (excluded ctx1)"
    using e assms(10) by auto
  have "dispose out app cands i permit pool r (k + 1) ctx st = Some (st1, ctx1, None)"
    unfolding dispose_def Let_def al using assms(8) c 1(1) by (simp add: signal_def)
  then have a: "attempt out app ingress cands i permit pool k ctx st = Some (st1, ctx1, [(pool, i)], None)"
    using assms(6,7,9) by (auto simp: attempt_def)
  have "served (\<lambda>p i. True) ctx1 st1 (failover_loop hops n out app ingress cands affinity pool policy_order ctx1 k' st1)"
    by (rule failover_loop_served [OF ready_tidy [OF assms(1) 1(2)] assms(2-4)]) simp_all
  then obtain st2 sent resp where f: "failover_loop hops n out app ingress cands affinity pool policy_order ctx1 k' st1 = Some (st2, sent, resp)"
    "once ctx1 sent" by (auto simp: served_def)
  then obtain xs ys where "sent = xs @ ys" "length ys \<le> 1" "snd ` set xs \<inter> set (excluded ctx1) = {}" by (auto simp: once_def)
  then show ?thesis using a f(1) small by blast
qed

theorem context_length_skips_smaller_witness:
  "\<exists>st1 ctx1 st2 sent resp. attempt (answering_outside 400 (Some ''context_length_exceeded''))
      example_app ''openai'' example_cands 0 Unbounded ''p'' 3 (RequestCtx_new 0 60) example_store = Some (st1, ctx1, [(''p'', 0)], None)
     \<and> failover_loop 2 2 (answering_outside 400 (Some ''context_length_exceeded''))
      example_app ''openai'' example_cands None ''p'' None ctx1 7 st1 = Some (st2, sent, resp)"
proof -
  let ?r = "example_response 400 (Some ''context_length_exceeded'')"
  have c: "classify (signal example_app 0 ?r) = ContextLengthD"
    by (simp add: signal_def example_app_def example_response_def normalize_raw_error_def effective_mapping_def PROVIDER_CODE_CONTEXT_LENGTH_def classify_def)
  have n: "0 < length (lanes example_store)" "la_context_max (app_lanes example_app ! 0) = Some 8000" by (simp_all add: example_length example_app_def)
  have s: "\<not> is_success (ur_status ?r)" "\<not> (upstream_creds example_app = Passthrough \<and> (ur_status ?r = 401 \<or> ur_status ?r = 403))"
    by (simp_all add: is_success_def)
  from context_length_skips_smaller [OF example_ready n(1) answering_upstream s(1) c s(2) n(2),
      where ingress = "''openai''" and permit = Unbounded and pool = "''p''" and k = 3 and ctx = "RequestCtx_new 0 60"
        and n = 2 and affinity = None and policy_order = None and k' = 7]
  show ?thesis by blast
qed

end
