(* ===== verification/Ir.thy ===== *)
theory Ir
  imports Status Gov Bytes
begin

text \<open>
  The intermediate representation a response crosses protocols in, \<open>crates/busbar/src/ir/mod.rs\<close>:
  content blocks, stream events and the reasoning ask. The type parameter \<open>'v\<close> stands for
  \<open>serde_json\<close> values and for the parts the modelled code moves without looking at them (cache-control
  marks, citations, image sources, token log probabilities). The error of the stream is the
  breaker's signal, as in the source (\<open>type IrError = CanonicalSignal\<close>); \<open>IrUsage\<close> is the record
  the governance ledger reads.
\<close>

datatype IrRole = RoleSystem | RoleUser | RoleAssistant | RoleTool

datatype IrStopReason = EndTurn | StopSequence | MaxTokens | StopToolUse | StopSafety | StopRefusal
  | PauseTurn | StopError | StopOther

datatype 'v IrBlock =
    BlockText string "'v option" "'v list"
  | BlockThinking string "string option" bool "'v option"
  | BlockToolUse string string 'v "'v option"
  | BlockToolResult string "'v IrBlock list" bool "'v option"
  | BlockImage 'v "'v option"
  | BlockJson 'v

datatype IrBlockMeta = MetaText | MetaThinking | MetaToolUse string string | MetaImage

datatype 'v IrDelta = TextDelta string | ThinkingDelta string | InputJsonDelta string | SignatureDelta string
  | RedactedReasoningDelta string | CitationsDelta "'v list" | LogprobsDelta "'v list"

datatype 'v IrStreamEvent =
    MessageStart IrRole "IrUsage option" "string option" "nat option" "string option"
  | BlockStart nat IrBlockMeta
  | BlockDelta nat "'v IrDelta"
  | BlockStop nat
  | MessageDelta "IrStopReason option" "string option" IrUsage
  | MessageStop
  | StreamError CanonicalSignal

subsection \<open>The reasoning ask\<close>

datatype IrReasoningEffort = Minimal | Low | Medium | High

datatype IrReasoningAsk = Effort IrReasoningEffort | Budget nat | Dynamic

type_synonym effort_table = "nat \<times> nat \<times> nat \<times> nat"

definition REASONING_BUDGET_DEFAULTS :: effort_table where
  "REASONING_BUDGET_DEFAULTS = (1024, 4096, 8192, 16384)"

fun to_budget :: "IrReasoningAsk \<Rightarrow> effort_table \<Rightarrow> nat" where
  "to_budget (Budget n) t = n"
| "to_budget (Effort Minimal) (t0, t1, t2, t3) = t0"
| "to_budget (Effort Low) (t0, t1, t2, t3) = t1"
| "to_budget (Effort Medium) (t0, t1, t2, t3) = t2"
| "to_budget (Effort High) (t0, t1, t2, t3) = t3"
| "to_budget Dynamic (t0, t1, t2, t3) = t2"

fun to_effort :: "IrReasoningAsk \<Rightarrow> effort_table \<Rightarrow> IrReasoningEffort" where
  "to_effort (Effort e) t = e"
| "to_effort Dynamic t = Medium"
| "to_effort (Budget n) (t0, t1, t2, t3) = (if t3 \<le> n then High else if t2 \<le> n then Medium else if t1 \<le> n then Low else Minimal)"

definition as_str :: "IrReasoningEffort \<Rightarrow> string" where
  "as_str e = (case e of Minimal \<Rightarrow> ''minimal'' | Low \<Rightarrow> ''low'' | Medium \<Rightarrow> ''medium'' | High \<Rightarrow> ''high'')"

definition as_openai_reasoning_effort :: "IrReasoningEffort \<Rightarrow> string" where
  "as_openai_reasoning_effort e = (if e = Minimal then ''low'' else as_str e)"

definition parse_effort :: "string \<Rightarrow> IrReasoningEffort option" where
  "parse_effort s = (if s = ''minimal'' then Some Minimal else if s = ''low'' then Some Low
     else if s = ''medium'' then Some Medium else if s = ''high'' then Some High else None)"

lemma parse_as_str: "parse_effort (as_str e) = Some e"
  by (cases e) (simp_all add: parse_effort_def as_str_def)

text \<open>Words survive the trip through numbers on a strictly ascending table; numbers are rounded down to an entry.\<close>

lemma effort_round_trip:
  "t0 < t1 \<Longrightarrow> t1 < t2 \<Longrightarrow> t2 < t3 \<Longrightarrow> to_effort (Budget (to_budget (Effort e) (t0, t1, t2, t3))) (t0, t1, t2, t3) = e"
  by (cases e) auto

lemma effort_rounds_down:
  "t0 \<le> n \<Longrightarrow> t0 \<le> t1 \<Longrightarrow> t1 \<le> t2 \<Longrightarrow> t2 \<le> t3 \<Longrightarrow> to_budget (Effort (to_effort (Budget n) (t0, t1, t2, t3))) (t0, t1, t2, t3) \<le> n"
  by simp

end
