(* ===== verification/ToolIds.thy ===== *)
theory ToolIds
  imports Ir
begin

text \<open>
  Tool-call identifiers across a protocol boundary, \<open>crates/busbar/src/proto/mod.rs\<close>: a backend's id
  is reshaped into the client's native form on the way out and recovered from it when the client
  echoes it in the next request. The hexadecimal codec (package \<open>hex\<close>) is an argument.
\<close>

definition native_tool_id_prefix :: "string \<Rightarrow> string option" where
  "native_tool_id_prefix protocol_name = (if protocol_name = ''anthropic'' then Some ''toolu_''
     else if protocol_name = ''openai'' \<or> protocol_name = ''responses'' then Some ''call_''
     else if protocol_name = ''bedrock'' then Some ''tooluse_'' else None)"

definition TOOL_ID_REMAP_MARKER :: string where
  "TOOL_ID_REMAP_MARKER = ''bb1''"

record hex_codec =
  hex_encode :: "bytes \<Rightarrow> string"
  hex_decode :: "string \<Rightarrow> bytes option"

subsection \<open>Towards the client\<close>

text \<open>The memo of a response or stream is an association list; each operation returns the id and the memo.\<close>

type_synonym remap = "(string \<times> string) list"

definition native_for :: "hex_codec \<Rightarrow> string \<Rightarrow> string \<Rightarrow> remap \<Rightarrow> string \<times> remap" where
  "native_for hx ingress_protocol egress_id m = (case native_tool_id_prefix ingress_protocol of
       None \<Rightarrow> (egress_id, m)
     | Some prefix \<Rightarrow> (case al_get m egress_id of
           Some existing \<Rightarrow> (existing, m)
         | None \<Rightarrow> let native = prefix @ TOOL_ID_REMAP_MARKER @ hex_encode hx egress_id
             in (native, al_put m egress_id native)))"

fun remap_event :: "hex_codec \<Rightarrow> string \<Rightarrow> 'v IrStreamEvent \<Rightarrow> remap \<Rightarrow> 'v IrStreamEvent \<times> remap" where
  "remap_event hx ingress_protocol (BlockStart index (MetaToolUse ident name)) m =
     (let (ident', m') = native_for hx ingress_protocol ident m in (BlockStart index (MetaToolUse ident' name), m'))"
| "remap_event hx ingress_protocol ev m = (ev, m)"

fun remap_block :: "hex_codec \<Rightarrow> string \<Rightarrow> 'v IrBlock \<Rightarrow> remap \<Rightarrow> 'v IrBlock \<times> remap"
  and remap_blocks :: "hex_codec \<Rightarrow> string \<Rightarrow> 'v IrBlock list \<Rightarrow> remap \<Rightarrow> 'v IrBlock list \<times> remap" where
  "remap_block hx p (BlockToolUse ident name input cc) m =
     (let (ident', m') = native_for hx p ident m in (BlockToolUse ident' name input cc, m'))"
| "remap_block hx p (BlockToolResult ident content is_error cc) m =
     (let (ident', m') = native_for hx p ident m; (content', m'') = remap_blocks hx p content m'
      in (BlockToolResult ident' content' is_error cc, m''))"
| "remap_block hx p (BlockText t cc cs) m = (BlockText t cc cs, m)"
| "remap_block hx p (BlockThinking t s r cc) m = (BlockThinking t s r cc, m)"
| "remap_block hx p (BlockImage s cc) m = (BlockImage s cc, m)"
| "remap_block hx p (BlockJson v) m = (BlockJson v, m)"
| "remap_blocks hx p [] m = ([], m)"
| "remap_blocks hx p (b # bs) m = (let (b', m') = remap_block hx p b m; (bs', m'') = remap_blocks hx p bs m' in (b' # bs', m''))"

definition remap_response :: "hex_codec \<Rightarrow> string \<Rightarrow> 'v IrBlock list \<Rightarrow> remap \<Rightarrow> 'v IrBlock list \<times> remap" where
  "remap_response hx ingress_protocol content m = remap_blocks hx ingress_protocol content m"

subsection \<open>Back to the backend\<close>

definition decode_native_tool_id :: "hex_codec \<Rightarrow> string \<Rightarrow> string \<Rightarrow> string option" where
  "decode_native_tool_id hx ingress_protocol ident =
     Option.bind (native_tool_id_prefix ingress_protocol) (\<lambda>prefix.
     Option.bind (strip_prefix prefix ident) (\<lambda>rest.
     Option.bind (strip_prefix TOOL_ID_REMAP_MARKER rest) (\<lambda>hexpart.
     if hexpart = [] then None else Option.bind (hex_decode hx hexpart) from_utf8)))"

definition original_id :: "hex_codec \<Rightarrow> string \<Rightarrow> string \<Rightarrow> string" where
  "original_id hx p ident = (case decode_native_tool_id hx p ident of Some orig \<Rightarrow> orig | None \<Rightarrow> ident)"

fun walk_block :: "hex_codec \<Rightarrow> string \<Rightarrow> 'v IrBlock \<Rightarrow> 'v IrBlock" where
  "walk_block hx p (BlockToolUse ident name input cc) = BlockToolUse (original_id hx p ident) name input cc"
| "walk_block hx p (BlockToolResult ident content is_error cc) =
     BlockToolResult (original_id hx p ident) (map (walk_block hx p) content) is_error cc"
| "walk_block hx p b = b"

record 'v IrMessage =
  msg_role :: IrRole
  msg_content :: "'v IrBlock list"

definition decode_request_tool_ids :: "hex_codec \<Rightarrow> string \<Rightarrow> 'v IrMessage list \<Rightarrow> 'v IrMessage list" where
  "decode_request_tool_ids hx ingress_protocol messages =
     map (\<lambda>msg. msg\<lparr>msg_content := map (walk_block hx ingress_protocol) (msg_content msg)\<rparr>) messages"

subsection \<open>The round trip\<close>

text \<open>The ids of a block, and a memo that holds nothing but what the encoding gives.\<close>

fun block_ids :: "'v IrBlock \<Rightarrow> string list" where
  "block_ids (BlockToolUse ident name input cc) = [ident]"
| "block_ids (BlockToolResult ident content is_error cc) = ident # concat (map block_ids content)"
| "block_ids b = []"

definition native_id :: "hex_codec \<Rightarrow> string \<Rightarrow> string \<Rightarrow> string" where
  "native_id hx p ident = (case native_tool_id_prefix p of None \<Rightarrow> ident | Some prefix \<Rightarrow> prefix @ TOOL_ID_REMAP_MARKER @ hex_encode hx ident)"

definition memo_ok :: "hex_codec \<Rightarrow> string \<Rightarrow> remap \<Rightarrow> bool" where
  "memo_ok hx p m \<longleftrightarrow> (\<forall>i n. al_get m i = Some n \<longrightarrow> n = native_id hx p i)"

lemma native_for_ok: "memo_ok hx p m \<Longrightarrow> \<exists>m'. native_for hx p i m = (native_id hx p i, m') \<and> memo_ok hx p m'"
  by (auto simp: native_for_def native_id_def memo_ok_def Let_def split: option.splits)

fun native_block :: "hex_codec \<Rightarrow> string \<Rightarrow> 'v IrBlock \<Rightarrow> 'v IrBlock" where
  "native_block hx p (BlockToolUse ident name input cc) = BlockToolUse (native_id hx p ident) name input cc"
| "native_block hx p (BlockToolResult ident content is_error cc) =
     BlockToolResult (native_id hx p ident) (map (native_block hx p) content) is_error cc"
| "native_block hx p b = b"

lemma remap_native:
  fixes b :: "'v IrBlock" and bs :: "'v IrBlock list"
  shows
  "memo_ok hx p m \<Longrightarrow> \<exists>m'. remap_block hx p b m = (native_block hx p b, m') \<and> memo_ok hx p m'"
  "memo_ok hx p m \<Longrightarrow> \<exists>m'. remap_blocks hx p bs m = (map (native_block hx p) bs, m') \<and> memo_ok hx p m'"
proof (induction hx p b m and hx p bs m rule: remap_block_remap_blocks.induct)
  case (1 hx p ident name input cc m)
  then show ?case using native_for_ok [of hx p m ident] by auto
next
  case (2 hx p ident content is_error cc m)
  then show ?case using native_for_ok [of hx p m ident] by fastforce
next
  case (8 hx p b bs m)
  then show ?case by fastforce
qed auto

lemma original_native:
  assumes "hex_decode hx (hex_encode hx i) = Some i" "hex_encode hx i \<noteq> []" "utf8_valid i"
  shows "original_id hx p (native_id hx p i) = i"
  using assms by (auto simp: original_id_def native_id_def decode_native_tool_id_def from_utf8_def split: option.splits)

lemma walk_native:
  assumes "\<forall>i \<in> set (block_ids b). hex_decode hx (hex_encode hx i) = Some i \<and> hex_encode hx i \<noteq> [] \<and> utf8_valid i"
  shows "walk_block hx p (native_block hx p b) = b"
  using assms by (induction b) (auto simp: original_native intro!: map_idI)

text \<open>
  Tool-call ids survive a protocol boundary. Every block of a response, tool results nested
  inside tool results included, comes back unchanged after its ids were reshaped for the client,
  through one memo shared by the whole response, and the client echoed them in a later request, for
  every ingress protocol; equal ids stay equal and different ids stay different; and an id the client wrote itself,
  not of the form prefix, marker, non-empty hexadecimal text, is left alone.
\<close>

theorem tool_ids_round_trip:
  assumes "\<forall>i. hex_decode hx (hex_encode hx i) = Some i" "\<forall>i. i \<noteq> [] \<longrightarrow> hex_encode hx i \<noteq> []"
    and "\<forall>b \<in> set content. \<forall>i \<in> set (block_ids b). i \<noteq> [] \<and> utf8_valid i"
  shows "decode_request_tool_ids hx p [\<lparr>msg_role = role, msg_content = fst (remap_response hx p content [])\<rparr>]
      = [\<lparr>msg_role = role, msg_content = content\<rparr>]
    \<and> (native_id hx p i = native_id hx p j \<longleftrightarrow> i = j)
    \<and> fst (native_for hx p i []) = native_id hx p i
    \<and> ((\<nexists>prefix h. native_tool_id_prefix p = Some prefix \<and> own = prefix @ TOOL_ID_REMAP_MARKER @ h \<and> h \<noteq> [])
        \<longrightarrow> walk_block hx p (BlockToolResult own [] e cc) = BlockToolResult own [] e cc)"
proof (intro conjI impI)
  have m: "memo_ok hx p []" by (simp add: memo_ok_def)
  have "map (walk_block hx p) (map (native_block hx p) content) = content"
    using assms by (auto simp: comp_def intro!: map_idI walk_native)
  moreover have "fst (remap_response hx p content []) = map (native_block hx p) content"
    using remap_native(2) [OF m, of content] by (auto simp: remap_response_def)
  ultimately show "decode_request_tool_ids hx p [\<lparr>msg_role = role, msg_content = fst (remap_response hx p content [])\<rparr>]
      = [\<lparr>msg_role = role, msg_content = content\<rparr>]" by (simp add: decode_request_tool_ids_def)
  have "hex_encode hx i = hex_encode hx j \<longleftrightarrow> i = j" using assms(1) by (metis option.inject)
  then show "native_id hx p i = native_id hx p j \<longleftrightarrow> i = j" by (simp add: native_id_def split: option.split)
  show "fst (native_for hx p i []) = native_id hx p i" using native_for_ok [OF m, of i] by auto
  assume own: "\<nexists>prefix h. native_tool_id_prefix p = Some prefix \<and> own = prefix @ TOOL_ID_REMAP_MARKER @ h \<and> h \<noteq> []"
  have "decode_native_tool_id hx p own = None"
  proof (rule ccontr)
    assume "decode_native_tool_id hx p own \<noteq> None"
    then obtain prefix r h where "native_tool_id_prefix p = Some prefix" "strip_prefix prefix own = Some r"
      "strip_prefix TOOL_ID_REMAP_MARKER r = Some h" "h \<noteq> []"
      unfolding decode_native_tool_id_def by (auto simp: bind_eq_Some_conv split: if_splits)
    then show False using own strip_prefix_SomeD by blast
  qed
  then show "walk_block hx p (BlockToolResult own [] e cc) = BlockToolResult own [] e cc" by (simp add: original_id_def)
qed

text \<open>The codec of the package: two lower-case digits per byte.\<close>

definition hex_char :: "nat \<Rightarrow> char" where
  "hex_char n = (if n < 10 then char_of (48 + n) else char_of (87 + n))"

fun hex_encode_bytes :: "bytes \<Rightarrow> string" where
  "hex_encode_bytes [] = []"
| "hex_encode_bytes (c # s) = hex_char (byte_val c div 16) # hex_char (byte_val c mod 16) # hex_encode_bytes s"

definition hex_value :: "char \<Rightarrow> nat option" where
  "hex_value c = (let n = byte_val c in if 48 \<le> n \<and> n \<le> 57 then Some (n - 48) else if 97 \<le> n \<and> n \<le> 102 then Some (n - 87)
     else if 65 \<le> n \<and> n \<le> 70 then Some (n - 55) else None)"

fun hex_decode_text :: "string \<Rightarrow> bytes option" where
  "hex_decode_text [] = Some []"
| "hex_decode_text [c] = None"
| "hex_decode_text (a # b # s) = Option.bind (hex_value a) (\<lambda>x. Option.bind (hex_value b) (\<lambda>y.
     map_option ((#) (char_of (x * 16 + y))) (hex_decode_text s)))"

definition hex_lower :: hex_codec where
  "hex_lower = \<lparr>hex_encode = hex_encode_bytes, hex_decode = hex_decode_text\<rparr>"

lemma hex_value_digit: "n < 16 \<Longrightarrow> hex_value (hex_char n) = Some n"
  by (auto simp: hex_value_def hex_char_def Let_def)

lemma hex_lower_round_trip: "hex_decode hex_lower (hex_encode hex_lower b) = Some b"
proof (induction b)
  case (Cons c s)
  have "byte_val c div 16 < 16" using byte_val_lt [of c] by (intro less_mult_imp_div_less) simp
  moreover have "byte_val c div 16 * 16 + byte_val c mod 16 = byte_val c" by simp
  ultimately show ?case using Cons by (simp add: hex_lower_def hex_value_digit)
qed (simp add: hex_lower_def)

theorem tool_ids_round_trip_witness:
  "decode_request_tool_ids hex_lower ''anthropic''
      [\<lparr>msg_role = RoleUser, msg_content = fst (remap_response hex_lower ''anthropic'' [BlockToolResult ''call_9'' [BlockText ''ok'' None [0::nat]] False None] [])\<rparr>]
    = [\<lparr>msg_role = RoleUser, msg_content = [BlockToolResult ''call_9'' [BlockText ''ok'' None [0]] False None]\<rparr>]"
proof -
  have "\<forall>i. i \<noteq> [] \<longrightarrow> hex_encode hex_lower i \<noteq> []" by (simp add: hex_lower_def neq_Nil_conv) auto
  from tool_ids_round_trip [OF allI [OF hex_lower_round_trip] this, of "[BlockToolResult ''call_9'' [BlockText ''ok'' None [0::nat]] False None]" "''anthropic''" RoleUser]
  show ?thesis by simp
qed

end
