(* ===== verification/Sse.thy ===== *)
theory Sse
  imports Bytes
begin

text \<open>
  Server-sent events, \<open>crates/busbar/src/proto/mod.rs\<close>: finding the blank line that ends a frame,
  reading a frame into its event name and data, writing one, and removing the top-level \<open>usage\<close>
  member of a JSON payload without parsing it (also \<open>rewrite_frame_strip_usage\<close> of
  \<open>crates/busbar/src/proto/stream.rs\<close>). A JSON value is the text it is displayed as.
\<close>

abbreviation LF :: char where "LF \<equiv> CHR 0x0A"
abbreviation CR :: char where "CR \<equiv> CHR 0x0D"
abbreviation SP :: char where "SP \<equiv> CHR 0x20"
abbreviation QUOTE :: char where "QUOTE \<equiv> CHR 0x22"
abbreviation BACKSLASH :: char where "BACKSLASH \<equiv> CHR 0x5C"

subsection \<open>The end of a frame\<close>

definition byte_get :: "bytes \<Rightarrow> nat \<Rightarrow> char option" where
  "byte_get buf i = (if i < length buf then Some (buf ! i) else None)"

function terminator_from :: "bytes \<Rightarrow> nat \<Rightarrow> (nat \<times> nat) option" where
  "terminator_from buf i = (if i < length buf
     then if buf ! i = LF \<and> byte_get buf (i + 1) = Some LF then Some (i, 2)
       else if buf ! i = LF \<and> 1 \<le> i \<and> buf ! (i - 1) = CR \<and> byte_get buf (i + 1) = Some CR \<and> byte_get buf (i + 2) = Some LF
       then Some (i - 1, 4)
       else terminator_from buf (i + 1)
     else None)"
  by pat_completeness auto
termination by (relation "measure (\<lambda>(buf, i). length buf - i)") auto

lemmas [simp del] = terminator_from.simps

definition find_frame_terminator :: "bytes \<Rightarrow> (nat \<times> nat) option" where
  "find_frame_terminator buf = terminator_from buf 0"

subsection \<open>Reading and writing a frame\<close>

text \<open>\<open>str::lines\<close>: lines end at a line feed, which is dropped together with a carriage return before it.\<close>

definition strip_cr :: "bytes \<Rightarrow> bytes" where
  "strip_cr l = (if l \<noteq> [] \<and> last l = CR then butlast l else l)"

fun lines_from :: "bytes \<Rightarrow> bytes \<Rightarrow> bytes list" where
  "lines_from acc [] = (if acc = [] then [] else [acc])"
| "lines_from acc (c # s) = (if c = LF then strip_cr acc # lines_from [] s else lines_from (acc @ [c]) s)"

text \<open>\<open>str::trim\<close> removes the characters with the Unicode property White_Space at both ends.\<close>

definition whitespace :: "bytes list" where
  "whitespace = [
     [CHR 0x09], [CHR 0x0A], [CHR 0x0B], [CHR 0x0C],
     [CHR 0x0D], [CHR 0x20], [CHR 0xC2, CHR 0x85], [CHR 0xC2, CHR 0xA0],
     [CHR 0xE1, CHR 0x9A, CHR 0x80], [CHR 0xE2, CHR 0x80, CHR 0x80], [CHR 0xE2, CHR 0x80, CHR 0x81], [CHR 0xE2, CHR 0x80, CHR 0x82],
     [CHR 0xE2, CHR 0x80, CHR 0x83], [CHR 0xE2, CHR 0x80, CHR 0x84], [CHR 0xE2, CHR 0x80, CHR 0x85], [CHR 0xE2, CHR 0x80, CHR 0x86],
     [CHR 0xE2, CHR 0x80, CHR 0x87], [CHR 0xE2, CHR 0x80, CHR 0x88], [CHR 0xE2, CHR 0x80, CHR 0x89], [CHR 0xE2, CHR 0x80, CHR 0x8A],
     [CHR 0xE2, CHR 0x80, CHR 0xA8], [CHR 0xE2, CHR 0x80, CHR 0xA9], [CHR 0xE2, CHR 0x80, CHR 0xAF], [CHR 0xE2, CHR 0x81, CHR 0x9F],
     [CHR 0xE3, CHR 0x80, CHR 0x80]]"

function trim_front :: "bytes list \<Rightarrow> bytes \<Rightarrow> bytes" where
  "trim_front ws s = (case find (\<lambda>w. w \<noteq> [] \<and> take (length w) s = w) ws of Some w \<Rightarrow> trim_front ws (drop (length w) s) | None \<Rightarrow> s)"
  by pat_completeness auto
termination
proof (relation "measure (length \<circ> snd)", simp)
  fix ws s w assume "find (\<lambda>w. w \<noteq> [] \<and> take (length w) s = w) ws = Some w"
  then have "w \<noteq> []" "take (length w) s = w" by (auto simp: find_Some_iff)
  then have "0 < length w" "length w \<le> length s" by (simp, metis nat_le_linear take_all)
  then have "length s - length w < length s" by linarith
  then show "((ws, drop (length w) s), (ws, s)) \<in> measure (length \<circ> snd)" by (simp only: in_measure comp_def snd_conv length_drop)
qed

lemmas [simp del] = trim_front.simps

definition trim :: "bytes \<Rightarrow> bytes" where
  "trim s = rev (trim_front (map rev whitespace) (rev (trim_front whitespace s)))"

definition strip_space :: "bytes \<Rightarrow> bytes" where
  "strip_space s = (case strip_prefix [SP] s of Some r \<Rightarrow> r | None \<Rightarrow> s)"

fun sse_lines :: "bytes list \<Rightarrow> bytes \<Rightarrow> bytes list \<Rightarrow> bytes \<times> bytes list" where
  "sse_lines [] et data = (et, data)"
| "sse_lines (l # ls) et data = (case strip_prefix ''event:'' l of Some r \<Rightarrow> sse_lines ls (trim r) data
     | None \<Rightarrow> case strip_prefix ''data:'' l of Some r \<Rightarrow> sse_lines ls et (data @ [strip_space r])
     | None \<Rightarrow> sse_lines ls et data)"

fun join_lines :: "bytes list \<Rightarrow> bytes" where
  "join_lines [] = []"
| "join_lines [l] = l"
| "join_lines (l # ls) = l @ [LF] @ join_lines ls"

definition parse_sse_frame :: "bytes \<Rightarrow> (bytes \<times> bytes) option" where
  "parse_sse_frame frame = Option.bind (from_utf8 frame) (\<lambda>text.
     case sse_lines (lines_from [] text) [] [] of (et, data) \<Rightarrow> if data = [] then None else Some (et, join_lines data))"

definition reframe_sse :: "bytes \<Rightarrow> bytes \<Rightarrow> bytes" where
  "reframe_sse et data = (if et = [] then ''data: '' @ data @ [LF, LF]
     else ''event: '' @ et @ [LF] @ ''data: '' @ data @ [LF, LF])"

subsection \<open>Removing a top-level member from a JSON text\<close>

definition ascii_whitespace :: "char \<Rightarrow> bool" where
  "ascii_whitespace c \<longleftrightarrow> c \<in> {SP, CHR 0x09, LF, CHR 0x0C, CR}"

text \<open>The scanners walk the rest of the text \<open>s\<close>, which starts at index \<open>i\<close> of the whole.\<close>

fun string_body_end :: "bytes \<Rightarrow> nat \<Rightarrow> nat option" where
  "string_body_end [] i = None"
| "string_body_end (c # s) i = (if c = BACKSLASH then (case s of [] \<Rightarrow> None | _ # s' \<Rightarrow> string_body_end s' (i + 2))
     else if c = QUOTE then Some (i + 1) else string_body_end s (i + 1))"

definition scan_json_string_end :: "bytes \<Rightarrow> nat \<Rightarrow> nat option" where
  "scan_json_string_end bs open_quote = string_body_end (drop (open_quote + 1) bs) (open_quote + 1)"

definition skip_ws :: "bytes \<Rightarrow> nat \<Rightarrow> nat" where
  "skip_ws bs i = i + length (takeWhile ascii_whitespace (drop i bs))"

lemma string_body_end_bound: "string_body_end s i = Some j \<Longrightarrow> i < j \<and> j \<le> i + length s"
  by (induction s i rule: string_body_end.induct) (auto split: if_splits list.splits)

lemma scan_json_string_end_bound: "scan_json_string_end bs i = Some j \<Longrightarrow> i + 1 < j \<and> j \<le> length bs"
  using string_body_end_bound [of "drop (i + 1) bs" "i + 1" j] by (cases "i + 1 \<le> length bs") (auto simp: scan_json_string_end_def)

function nested_end :: "bytes \<Rightarrow> nat \<Rightarrow> nat \<Rightarrow> nat option" where
  "nested_end bs i depth = (if i < length bs
     then if bs ! i = QUOTE then (case scan_json_string_end bs i of None \<Rightarrow> None | Some j \<Rightarrow> nested_end bs j depth)
       else if bs ! i \<in> {CHR ''{'', CHR ''[''} then nested_end bs (i + 1) (depth + 1)
       else if bs ! i \<in> {CHR ''}'', CHR '']''} then (if depth - 1 = 0 then Some (i + 1) else nested_end bs (i + 1) (depth - 1))
       else nested_end bs (i + 1) depth
     else None)"
  by pat_completeness auto
termination
proof (relation "measure (\<lambda>(bs, i, depth). length bs - i)", goal_cases)
  case (2 bs i depth j)
  then show ?case using scan_json_string_end_bound [of bs i j] by auto
qed auto

lemmas [simp del] = nested_end.simps

definition scalar_byte :: "char \<Rightarrow> bool" where
  "scalar_byte c \<longleftrightarrow> c \<notin> {CHR '','', CHR ''}'', CHR '']''} \<and> \<not> ascii_whitespace c"

definition scan_json_value_end :: "bytes \<Rightarrow> nat \<Rightarrow> nat option" where
  "scan_json_value_end bs start = (let i = skip_ws bs start
     in if length bs \<le> i then None
        else if bs ! i = QUOTE then scan_json_string_end bs i
        else if bs ! i \<in> {CHR ''{'', CHR ''[''} then nested_end bs i 0
        else let j = i + length (takeWhile scalar_byte (drop i bs)) in if j = i then None else Some j)"

lemma nested_end_bound: "nested_end bs i depth = Some j \<Longrightarrow> i < j \<and> j \<le> length bs"
proof (induction bs i depth rule: nested_end.induct)
  case (1 bs i depth)
  have i: "i < length bs" using 1(5) by (subst (asm) nested_end.simps) (simp split: if_splits)
  consider k where "bs ! i = QUOTE" "scan_json_string_end bs i = Some k" "nested_end bs k depth = Some j"
    | "bs ! i \<noteq> QUOTE" "j = i + 1"
    | d where "bs ! i \<noteq> QUOTE" "nested_end bs (i + 1) d = Some j" "nested_end bs (i + 1) d = Some j \<Longrightarrow> i + 1 < j \<and> j \<le> length bs"
    using 1 i by (subst (asm) nested_end.simps) (auto split: if_splits option.splits)
  then show ?case
  proof cases
    case (1 k)
    then show ?thesis using "1.IH"(1) [OF i] scan_json_string_end_bound [of bs i k] by auto
  qed (use i in auto)
qed

lemma scan_json_value_end_bound: "scan_json_value_end bs i = Some j \<Longrightarrow> i < j \<and> j \<le> length bs"
proof -
  assume a: "scan_json_value_end bs i = Some j"
  have b: "k + length (takeWhile scalar_byte (drop k bs)) \<le> length bs" if "\<not> length bs \<le> k" for k
    using length_takeWhile_le [of scalar_byte "drop k bs"] that by simp
  have c: "i \<le> skip_ws bs i" by (simp add: skip_ws_def)
  have "i < skip_ws bs i + length xs" if "xs \<noteq> []" for xs :: bytes using c that by (cases xs) auto
  then show ?thesis using a c b [of "skip_ws bs i"]
    by (auto simp: scan_json_value_end_def Let_def split: if_splits dest!: scan_json_string_end_bound nested_end_bound)
qed

definition USAGE_KEY :: bytes where
  "USAGE_KEY = [QUOTE] @ ''usage'' @ [QUOTE]"

text \<open>The member scan: \<open>None\<close> where the source gives up, otherwise the range of the member found, if any.\<close>

function usage_scan :: "bytes \<Rightarrow> nat \<Rightarrow> nat \<Rightarrow> bool \<Rightarrow> (nat \<times> nat) option \<Rightarrow> (nat \<times> nat) option option" where
  "usage_scan bs i depth expect_key usage_range = (if i < length bs
     then if bs ! i = QUOTE
       then (case scan_json_string_end bs i of None \<Rightarrow> None
         | Some str_end \<Rightarrow> if depth = 0 \<and> expect_key
             then (let is_usage = slice i str_end bs = USAGE_KEY; j = skip_ws bs str_end
               in if byte_get bs j \<noteq> Some (CHR '':'') then None
                  else case scan_json_value_end bs (j + 1) of None \<Rightarrow> None
                    | Some value_end \<Rightarrow> if is_usage \<and> usage_range \<noteq> None then None
                        else usage_scan bs value_end depth False (if is_usage then Some (i, value_end) else usage_range))
             else usage_scan bs str_end depth expect_key usage_range)
       else if bs ! i \<in> {CHR ''{'', CHR ''[''} then usage_scan bs (i + 1) (depth + 1) False usage_range
       else if bs ! i \<in> {CHR ''}'', CHR '']''}
       then (if depth = 0 then (if bs ! i = CHR '']'' then None else Some usage_range) else usage_scan bs (i + 1) (depth - 1) expect_key usage_range)
       else if bs ! i = CHR '','' then usage_scan bs (i + 1) depth (expect_key \<or> depth = 0) usage_range
       else usage_scan bs (i + 1) depth expect_key usage_range
     else Some usage_range)"
  by pat_completeness auto
termination
proof (relation "measure (\<lambda>(bs, i, depth, expect_key, usage_range). length bs - i)", goal_cases)
  case (2 bs i depth expect_key usage_range str_end is_usage j value_end)
  then have "str_end \<le> j" "i + 1 < str_end" "j + 1 < value_end"
    using scan_json_string_end_bound scan_json_value_end_bound by (auto simp: skip_ws_def)
  with 2(1) show ?case by simp
next
  case (3 bs i depth expect_key usage_range str_end)
  then show ?case using scan_json_string_end_bound [of bs i str_end] by auto
qed auto

lemmas [simp del] = usage_scan.simps

definition strip_top_level_usage_member :: "bytes \<Rightarrow> bytes option" where
  "strip_top_level_usage_member json = (let obj_open = skip_ws json 0
     in if byte_get json obj_open \<noteq> Some (CHR ''{'') then None
        else case usage_scan json (obj_open + 1) 0 True None of None \<Rightarrow> None | Some None \<Rightarrow> None
        | Some (Some (start, stop)) \<Rightarrow>
          (let k = start - length (takeWhile ascii_whitespace (rev (slice (obj_open + 1) start json)));
               m = skip_ws json stop;
               cut = (if obj_open + 1 < k \<and> json ! (k - 1) = CHR '','' then (k - 1, stop)
                 else if byte_get json m = Some (CHR '','') then (start, m + 1) else (start, stop))
           in Some (take (fst cut) json @ drop (snd cut) json)))"

text \<open>\<open>str::find\<close>: the first index at which a pattern occurs.\<close>

fun find_sub :: "bytes \<Rightarrow> bytes \<Rightarrow> nat option" where
  "find_sub p [] = (if p = [] then Some 0 else None)"
| "find_sub p (c # s) = (if take (length p) (c # s) = p then Some 0 else map_option Suc (find_sub p s))"

definition ends_with :: "bytes \<Rightarrow> bytes \<Rightarrow> bool" where
  "ends_with s t \<longleftrightarrow> length t \<le> length s \<and> drop (length s - length t) s = t"

definition frame_terminator :: "bytes \<Rightarrow> bytes" where
  "frame_terminator frame = (if ends_with frame [CR, LF, CR, LF] then [CR, LF, CR, LF]
     else if ends_with frame [LF, LF] then [LF, LF] else if ends_with frame [CR, LF] then [CR, LF]
     else if ends_with frame [LF] then [LF] else [LF, LF])"

definition rewrite_frame_strip_usage :: "bytes \<Rightarrow> bytes \<Rightarrow> bytes" where
  "rewrite_frame_strip_usage frame data_str = (case strip_top_level_usage_member data_str of
       None \<Rightarrow> frame
     | Some stripped \<Rightarrow>
        (case (if utf8_valid frame then find_sub data_str frame else None) of
           Some pos \<Rightarrow> if find_sub data_str (drop (pos + length data_str) frame) = None
             then take pos frame @ stripped @ drop (pos + length data_str) frame
             else ''data: '' @ stripped @ frame_terminator frame
         | None \<Rightarrow> ''data: '' @ stripped @ frame_terminator frame))"

subsection \<open>A written frame is read back\<close>

lemma lines_from_plain: "LF \<notin> set l \<Longrightarrow> lines_from acc (l @ s) = lines_from (acc @ l) s"
  by (induction l arbitrary: acc) auto

lemma lines_of_line: "LF \<notin> set l \<Longrightarrow> lines_from [] (l @ LF # s) = strip_cr l # lines_from [] s"
  by (simp add: lines_from_plain)

lemma strip_cr_same: "l = [] \<or> last l \<noteq> CR \<Longrightarrow> strip_cr l = l"
  by (auto simp: strip_cr_def)

lemma trim_leading_space: "trim (SP # s) = trim s"
proof -
  have "find (\<lambda>w. w \<noteq> [] \<and> take (length w) (SP # s) = w) whitespace = Some [SP]"
    by (simp add: whitespace_def)
  then have "trim_front whitespace (SP # s) = trim_front whitespace s" by (subst trim_front.simps) simp
  then show ?thesis by (simp add: trim_def)
qed

lemma terminator_from_skip:
  assumes "\<forall>k. i \<le> k \<and> k < j \<longrightarrow> buf ! k \<noteq> LF \<or> byte_get buf (k + 1) \<noteq> Some LF \<and> byte_get buf (k + 1) \<noteq> Some CR" "i \<le> j" "j \<le> length buf"
  shows "terminator_from buf i = terminator_from buf j"
  using assms(2,1)
proof (induction i rule: inc_induct)
  case (step i)
  have "terminator_from buf i = terminator_from buf (i + 1)"
    using step.prems step.hyps assms(3) by (subst terminator_from.simps) auto
  then show ?case using step by auto
qed simp

text \<open>
  The frame \<open>l1 LF l2 LF LF\<close> of two lines: no earlier byte looks like a terminator when the lines
  hold no line feed and the second does not start with a line break.
\<close>

lemma terminator_at:
  assumes "LF \<notin> set l" "\<forall>k < length pre. pre ! k = LF \<longrightarrow> (pre @ l) ! (k + 1) \<noteq> CR \<and> (pre @ l) ! (k + 1) \<noteq> LF \<and> k + 1 < length (pre @ l)"
  shows "terminator_from (pre @ l @ LF # LF # rest) 0 = Some (length (pre @ l), 2)"
proof -
  let ?b = "pre @ l @ LF # LF # rest"
  have "?b ! k \<noteq> LF \<or> byte_get ?b (k + 1) \<noteq> Some LF \<and> byte_get ?b (k + 1) \<noteq> Some CR" if "k < length (pre @ l)" for k
  proof (cases "k < length pre")
    case True
    have e: "?b ! (k + 1) = (pre @ l) ! (k + 1)" if "k + 1 < length (pre @ l)"
      using that nth_append [of "pre @ l" "LF # LF # rest" "k + 1"] by (simp only: append.assoc if_True)
    show ?thesis using assms(2) True e by (cases "pre ! k = LF") (auto simp: nth_append [of pre] byte_get_def)
  next
    case False
    then have "?b ! k = l ! (k - length pre)" "k - length pre < length l" using that by (auto simp: nth_append)
    then show ?thesis using assms(1) by (metis nth_mem)
  qed
  then have "terminator_from ?b 0 = terminator_from ?b (length (pre @ l))" by (intro terminator_from_skip) auto
  also have "\<dots> = Some (length (pre @ l), 2)" by (subst terminator_from.simps) (simp add: nth_append byte_get_def)
  finally show ?thesis .
qed

lemma terminator_after_line:
  assumes "LF \<notin> set l0" "LF \<notin> set l" "l \<noteq> []" "hd l \<noteq> CR"
  shows "terminator_from ((l0 @ [LF]) @ l @ LF # LF # rest) 0 = Some (length (l0 @ [LF]) + length l, 2)"
proof -
  have "k = length l0" if "k < length (l0 @ [LF])" "(l0 @ [LF]) ! k = LF" for k
    using that assms(1) nth_mem [of k l0] by (cases "k = length l0") (auto simp: nth_append)
  moreover have "((l0 @ [LF]) @ l) ! (length l0 + 1) = hd l" using assms(3) by (cases l) (simp_all add: nth_append)
  moreover have "hd l \<noteq> LF" using assms(2,3) hd_in_set by metis
  ultimately show ?thesis using terminator_at [OF assms(2), of "l0 @ [LF]" rest] assms(3,4) by fastforce
qed

lemma parse_sse_frame_lines:
  "utf8_valid f \<Longrightarrow> lines_from [] f = ls \<Longrightarrow> sse_lines ls [] [] = (et, [d]) \<Longrightarrow> parse_sse_frame f = Some (et, d)"
  by (simp add: parse_sse_frame_def from_utf8_def)

text \<open>
  A frame the gateway writes is the frame a client reads. For an event name that is empty or
  a trimmed single line and data without line breaks (which compact JSON never has), the first frame
  terminator in a buffer that starts with the written frame is the one at its end, so frame
  boundaries survive concatenation, and reading the frame gives back the event name and the data.
\<close>

theorem sse_frame_round_trip:
  assumes "LF \<notin> set et" "trim et = et" "LF \<notin> set data" "CR \<notin> set et \<union> set data" "utf8_valid (reframe_sse et data)"
  shows "parse_sse_frame (reframe_sse et data) = Some (et, data)
    \<and> find_frame_terminator (reframe_sse et data @ rest) = Some (length (reframe_sse et data) - 2, 2)"
proof
  have last: "strip_cr l = l" if "CR \<notin> set l" for l using that by (metis last_in_set strip_cr_def)
  have d: "strip_prefix ''event:'' (''data: '' @ x) = None" "strip_prefix ''data:'' (''data: '' @ x) = Some (SP # x)"
    "strip_prefix ''event:'' (''event: '' @ x) = Some (SP # x)" "strip_space (SP # x) = x" for x
    by (simp_all add: strip_prefix_def strip_space_def)
  have n: "strip_prefix ''event:'' [] = None" "strip_prefix ''data:'' [] = None" by (simp_all add: strip_prefix_def)
  have ld: "lines_from [] (''data: '' @ data @ [LF, LF]) = [''data: '' @ data, []]"
    using lines_of_line [of "''data: '' @ data" "[LF]"] lines_of_line [of "[]" "[]"] assms(3,4) last [of "''data: '' @ data"] last [of "[]"] by simp
  have le: "lines_from [] (''event: '' @ et @ [LF] @ ''data: '' @ data @ [LF, LF]) = (''event: '' @ et) # [''data: '' @ data, []]"
    using lines_of_line [of "''event: '' @ et" "''data: '' @ data @ [LF, LF]"] ld assms(1,4) last [of "''event: '' @ et"] by simp
  show "parse_sse_frame (reframe_sse et data) = Some (et, data)"
  proof (cases "et = []")
    case True
    have "sse_lines [''data: '' @ data, []] [] [] = ([], [data])" by (simp only: sse_lines.simps d n option.case append_Nil)
    moreover have "lines_from [] (reframe_sse et data) = [''data: '' @ data, []]" unfolding reframe_sse_def if_P [OF True] by (rule ld)
    ultimately show ?thesis using parse_sse_frame_lines [OF assms(5)] True by blast
  next
    case False
    have "sse_lines ((''event: '' @ et) # [''data: '' @ data, []]) [] [] = (et, [data])"
      by (simp only: sse_lines.simps d n option.case append_Nil trim_leading_space assms(2))
    moreover have "lines_from [] (reframe_sse et data) = (''event: '' @ et) # [''data: '' @ data, []]"
      unfolding reframe_sse_def if_not_P [OF False] by (rule le)
    ultimately show ?thesis using parse_sse_frame_lines [OF assms(5)] by blast
  qed
  show "find_frame_terminator (reframe_sse et data @ rest) = Some (length (reframe_sse et data) - 2, 2)"
  proof (cases "et = []")
    case True
    then show ?thesis using terminator_at [of "''data: '' @ data" "[]" rest] assms(3) by (simp add: find_frame_terminator_def reframe_sse_def)
  next
    case False
    have "LF \<notin> set (''event: '' @ et)" "LF \<notin> set (''data: '' @ data)" "''data: '' @ data \<noteq> []" "hd (''data: '' @ data) \<noteq> CR"
      using assms(1,3) by simp_all
    from terminator_after_line [OF this, of rest] False show ?thesis by (simp add: find_frame_terminator_def reframe_sse_def)
  qed
qed

theorem sse_frame_round_trip_witness:
  "parse_sse_frame (reframe_sse ''ping'' ''{}'') = Some (''ping'', ''{}'')
    \<and> find_frame_terminator (reframe_sse ''ping'' ''{}'' @ ''da'') = Some (length (reframe_sse ''ping'' ''{}'') - 2, 2)"
  by (rule sse_frame_round_trip) (code_simp+)

end
