(* ===== verification/SseScan.thy ===== *)
theory SseScan
  imports Sse
begin

text \<open>
  The incremental frame scanner that \<open>StreamTranslate::feed\<close> (\<open>crates/busbar/src/proto/stream.rs\<close>) and
  \<open>GeminiJsonArrayFramer::feed\<close> (\<open>crates/busbar/src/proto/gemini/mod.rs\<close>) both contain: a front cursor
  \<open>consumed\<close>, and a \<open>scanned\<close> mark below which no terminator is looked for again, three bytes of
  backup apart. It is shown to find the frames that splitting the whole buffer at its blank lines
  finds, whatever the chunks were.
\<close>

subsection \<open>The first terminator\<close>

definition anchor :: "bytes \<Rightarrow> nat \<Rightarrow> (nat \<times> nat) option" where
  "anchor buf i = (if i < length buf \<and> buf ! i = LF
     then if byte_get buf (i + 1) = Some LF then Some (i, 2)
       else if 1 \<le> i \<and> buf ! (i - 1) = CR \<and> byte_get buf (i + 1) = Some CR \<and> byte_get buf (i + 2) = Some LF then Some (i - 1, 4)
       else None
     else None)"

lemma terminator_anchor:
  "terminator_from buf i = (if i < length buf then (case anchor buf i of Some x \<Rightarrow> Some x | None \<Rightarrow> terminator_from buf (i + 1)) else None)"
  by (subst terminator_from.simps) (simp add: anchor_def)

lemma terminator_from_iff:
  "terminator_from buf i = Some x \<longleftrightarrow> (\<exists>j \<ge> i. anchor buf j = Some x \<and> (\<forall>k. i \<le> k \<and> k < j \<longrightarrow> anchor buf k = None))"
proof (induction "length buf - i" arbitrary: i)
  case 0
  then have "anchor buf j = None" if "i \<le> j" for j using that by (simp add: anchor_def)
  then show ?case using 0 by (subst terminator_anchor) auto
next
  case (Suc n)
  then have lt: "i < length buf" by simp
  show ?case
  proof (cases "anchor buf i")
    case None
    have "(\<exists>j \<ge> i. anchor buf j = Some x \<and> (\<forall>k. i \<le> k \<and> k < j \<longrightarrow> anchor buf k = None))
      \<longleftrightarrow> (\<exists>j \<ge> i + 1. anchor buf j = Some x \<and> (\<forall>k. i + 1 \<le> k \<and> k < j \<longrightarrow> anchor buf k = None))"
    proof (intro iffI; elim exE conjE)
      fix j assume "i \<le> j" "anchor buf j = Some x" "\<forall>k. i \<le> k \<and> k < j \<longrightarrow> anchor buf k = None"
      moreover from this have "i \<noteq> j" using None by auto
      ultimately show "\<exists>j \<ge> i + 1. anchor buf j = Some x \<and> (\<forall>k. i + 1 \<le> k \<and> k < j \<longrightarrow> anchor buf k = None)" by (intro exI [of _ j]) auto
    next
      fix j assume j: "i + 1 \<le> j" "anchor buf j = Some x" "\<forall>k. i + 1 \<le> k \<and> k < j \<longrightarrow> anchor buf k = None"
      have "anchor buf k = None" if "i \<le> k" "k < j" for k using j(3) that None by (cases "k = i") auto
      then show "\<exists>j \<ge> i. anchor buf j = Some x \<and> (\<forall>k. i \<le> k \<and> k < j \<longrightarrow> anchor buf k = None)" using j(1,2) by (intro exI [of _ j]) auto
    qed
    then show ?thesis using Suc lt None by (subst terminator_anchor) simp
  next
    case (Some y)
    have "x = y" if "i \<le> j" "anchor buf j = Some x" "\<forall>k. i \<le> k \<and> k < j \<longrightarrow> anchor buf k = None" for j
      using that Some by (cases "j = i") auto
    then show ?thesis using lt Some by (subst terminator_anchor) auto
  qed
qed

lemma find_iff: "find_frame_terminator buf = Some x \<longleftrightarrow> (\<exists>j. anchor buf j = Some x \<and> (\<forall>k < j. anchor buf k = None))"
  by (simp add: find_frame_terminator_def terminator_from_iff)

lemma find_None: "find_frame_terminator buf = None \<longleftrightarrow> (\<forall>j. anchor buf j = None)"
proof
  assume a: "find_frame_terminator buf = None"
  show "\<forall>j. anchor buf j = None"
  proof (rule ccontr)
    assume "\<not> ?thesis"
    then obtain j where j: "anchor buf j \<noteq> None" "\<forall>k < j. \<not> anchor buf k \<noteq> None"
      using exists_least_iff [of "\<lambda>j. anchor buf j \<noteq> None"] by blast
    then show False using a find_iff [of buf] by fastforce
  qed
qed (use find_iff [of buf] in \<open>cases "find_frame_terminator buf"; auto\<close>)

lemma anchor_bounds: "anchor buf j = Some (r, l) \<Longrightarrow> 2 \<le> l \<and> r + l \<le> length buf \<and> r \<le> j \<and> j < r + l \<and> r + l \<le> j + 3"
  by (auto simp: anchor_def byte_get_def split: if_splits)

lemma find_bounds: "find_frame_terminator buf = Some (r, l) \<Longrightarrow> 2 \<le> l \<and> r + l \<le> length buf"
  using anchor_bounds by (auto simp: find_iff)

text \<open>A terminator found in a buffer stays the first one when the buffer grows.\<close>

lemma byte_get_append: "i < length a \<Longrightarrow> byte_get (a @ b) i = byte_get a i"
  by (simp add: byte_get_def nth_append)

lemma anchor_append_inner: "j + 2 < length a \<Longrightarrow> anchor (a @ b) j = anchor a j"
  unfolding anchor_def by (simp add: byte_get_append nth_append) linarith

lemma anchor_append:
  assumes "j + 2 < length a \<or> anchor a j \<noteq> None"
  shows "anchor (a @ b) j = anchor a j"
proof (cases "j + 2 < length a")
  case False
  then have "byte_get a (j + 1) = Some LF" "j < length a" "a ! j = LF" using assms by (auto simp: anchor_def byte_get_def split: if_splits)
  moreover from this have "j + 1 < length a" by (simp add: byte_get_def split: if_splits)
  ultimately show ?thesis by (simp add: anchor_def byte_get_append nth_append)
qed (rule anchor_append_inner)

lemma find_append:
  assumes "find_frame_terminator a = Some x"
  shows "find_frame_terminator (a @ b) = Some x"
proof -
  obtain j where j: "anchor a j = Some x" "\<forall>k < j. anchor a k = None" using assms by (auto simp: find_iff)
  have "j + 1 < length a" using j(1) by (auto simp: anchor_def byte_get_def split: if_splits)
  then have "anchor (a @ b) k = None" if "k < j" for k using j(2) that anchor_append [of k a b] by simp
  then show ?thesis using j anchor_append [of j a b] by (auto simp: find_iff)
qed

text \<open>Looking from a later start finds the same terminator when none ends below the mark.\<close>

lemma anchor_drop: "1 \<le> j \<Longrightarrow> anchor (drop s buf) j = map_option (\<lambda>(r, l). (r - s, l)) (anchor buf (s + j))"
  by (auto simp: anchor_def byte_get_def add.assoc)

lemma anchor_drop_None: "anchor buf (s + j) = None \<Longrightarrow> anchor (drop s buf) j = None"
  by (auto simp: anchor_def byte_get_def add.assoc split: if_splits)

lemma find_skip:
  assumes "\<forall>r l. find_frame_terminator buf = Some (r, l) \<longrightarrow> k < r + l" "s = 0 \<or> s + 3 \<le> k"
  shows "map_option (\<lambda>(r, l). s + (r + l)) (find_frame_terminator (drop s buf)) = map_option (\<lambda>(r, l). r + l) (find_frame_terminator buf)"
proof (cases "s = 0")
  case False
  then have s: "s + 3 \<le> k" using assms(2) by simp
  show ?thesis
  proof (cases "find_frame_terminator buf")
    case None
    then have "\<forall>j. anchor (drop s buf) j = None" using anchor_drop_None find_None by blast
    then have "find_frame_terminator (drop s buf) = None" by (simp add: find_None)
    then show ?thesis using None by simp
  next
    case (Some x)
    obtain r l where x: "x = (r, l)" by (cases x)
    obtain j where j: "anchor buf j = Some (r, l)" "\<forall>i < j. anchor buf i = None" using Some x by (auto simp: find_iff)
    have b: "r \<le> j" "r + l \<le> j + 3" "j \<le> r + 1" "k < r + l" using assms(1) Some x anchor_bounds [OF j(1)] j(1)
      by (auto simp: anchor_def split: if_splits)
    then have sj: "s < j" "s \<le> r" using s by linarith+
    have "anchor (drop s buf) (j - s) = Some (r - s, l)" using anchor_drop [of "j - s" s buf] j(1) sj by simp
    moreover have "\<forall>i < j - s. anchor (drop s buf) i = None" using j(2) anchor_drop_None [of buf s] by simp
    ultimately have "find_frame_terminator (drop s buf) = Some (r - s, l)" by (auto simp: find_iff)
    then show ?thesis using Some x sj by simp
  qed
qed simp

subsection \<open>The scan loop\<close>

text \<open>
  The frames one pass over the buffer finds, as pairs of start and end, with the final \<open>scanned\<close> and
  \<open>consumed\<close>. What the loop does with a frame never changes the buffer, so the pass is modelled apart
  from it.
\<close>

function frame_spans :: "bytes \<Rightarrow> nat \<Rightarrow> nat \<Rightarrow> (nat \<times> nat) list \<times> nat \<times> nat" where
  "frame_spans buf scanned consumed =
     (let search_from = min (max (scanned - 3) consumed) (length buf)
      in case find_frame_terminator (drop search_from buf) of
           Some (rel, term_len) \<Rightarrow>
             (let stop = search_from + rel + term_len; (spans, r) = frame_spans buf stop stop in ((consumed, stop) # spans, r))
         | None \<Rightarrow> ([], length buf, consumed))"
  by pat_completeness auto
termination
proof (relation "measure (\<lambda>(buf, scanned, consumed). length buf - min (max (scanned - 3) consumed) (length buf))", goal_cases)
  case (2 buf scanned consumed search_from x rel term_len stop)
  then have "2 \<le> term_len \<and> rel + term_len \<le> length buf - search_from" using find_bounds [of "drop search_from buf" rel term_len] by simp
  moreover have "search_from \<le> length buf" using 2 by simp
  ultimately have "stop \<le> length buf" "length buf - stop < length buf - search_from" using 2(4) by linarith+
  then show ?case by (simp add: 2(1) min_absorb1)
qed simp

lemmas [simp del] = frame_spans.simps

text \<open>
  One pass: the frames, the buffer with the consumed prefix reclaimed, and \<open>scanned\<close> rebased. When
  nothing was consumed \<open>scanned\<close> is the end of the buffer as well.
\<close>

definition sse_pass :: "bytes \<Rightarrow> nat \<Rightarrow> bytes list \<times> bytes \<times> nat" where
  "sse_pass buf scanned = (case frame_spans buf scanned 0 of (spans, scanned', consumed) \<Rightarrow>
     (map (\<lambda>(i, j). slice i j buf) spans, drop consumed buf, if 0 < consumed then length (drop consumed buf) else scanned'))"

text \<open>The specification: a buffer is cut at the end of every blank line.\<close>

function split_frames :: "bytes \<Rightarrow> bytes list \<times> bytes" where
  "split_frames buf = (case find_frame_terminator buf of
       Some (rel, term_len) \<Rightarrow> (case split_frames (drop (rel + term_len) buf) of (fs, r) \<Rightarrow> (take (rel + term_len) buf # fs, r))
     | None \<Rightarrow> ([], buf))"
  by pat_completeness auto
termination
  by (relation "measure length") (use find_bounds in fastforce)+

lemmas [simp del] = split_frames.simps

definition unseen :: "bytes \<Rightarrow> nat \<Rightarrow> bool" where
  "unseen buf k \<longleftrightarrow> (\<forall>r l. find_frame_terminator buf = Some (r, l) \<longrightarrow> k < r + l)"

lemma unseen_0: "unseen buf 0"
  using find_bounds by (fastforce simp: unseen_def)

lemma frame_spans_split:
  assumes "consumed \<le> length buf" "unseen (drop consumed buf) (scanned - consumed)" "scanned \<le> length buf"
  shows "(case frame_spans buf scanned consumed of (spans, scanned', consumed') \<Rightarrow>
      (map (\<lambda>(i, j). slice i j buf) spans, drop consumed' buf) = split_frames (drop consumed buf)
      \<and> scanned' = length buf \<and> consumed \<le> consumed' \<and> consumed' \<le> length buf)"
  using assms
proof (induction buf scanned consumed rule: frame_spans.induct)
  case (1 buf scanned consumed)
  let ?b = "drop consumed buf" and ?s = "min (max (scanned - 3) consumed) (length buf)"
  have s: "consumed \<le> ?s" "?s - consumed = 0 \<or> ?s - consumed + 3 \<le> scanned - consumed" "drop (?s - consumed) ?b = drop ?s buf"
    using "1.prems" by (auto simp: min_def max_def)
  have e: "map_option (\<lambda>(r, l). ?s - consumed + (r + l)) (find_frame_terminator (drop ?s buf)) = map_option (\<lambda>(r, l). r + l) (find_frame_terminator ?b)"
    using find_skip [OF "1.prems"(2) [unfolded unseen_def] s(2)] unfolding s(3) .
  show ?case
  proof (cases "find_frame_terminator (drop ?s buf)")
    case None
    then have "find_frame_terminator ?b = None" using e by (cases "find_frame_terminator ?b") auto
    then show ?thesis using None "1.prems" by (simp add: frame_spans.simps [of buf scanned] split_frames.simps [of ?b] Let_def)
  next
    case (Some x)
    obtain rel tl where x: "x = (rel, tl)" by (cases x)
    obtain r l where b: "find_frame_terminator ?b = Some (r, l)" using e Some by (cases "find_frame_terminator ?b") auto
    define stop where "stop = ?s + rel + tl"
    have st: "stop = consumed + (r + l)" using e Some x b s(1) by (simp add: stop_def)
    have le: "stop \<le> length buf" using find_bounds [OF b] "1.prems"(1) st by auto
    have ih: "case frame_spans buf stop stop of (spans, scanned', consumed') \<Rightarrow>
        (map (\<lambda>(i, j). slice i j buf) spans, drop consumed' buf) = split_frames (drop stop buf)
        \<and> scanned' = length buf \<and> stop \<le> consumed' \<and> consumed' \<le> length buf"
      using "1.IH" [OF refl Some x [symmetric] stop_def] le by (simp add: unseen_0)
    have sp: "split_frames ?b = (case split_frames (drop stop buf) of (fs, r') \<Rightarrow> (slice consumed stop buf # fs, r'))"
      using b st by (simp add: split_frames.simps [of ?b] slice_def add.commute)
    have fs: "frame_spans buf scanned consumed = (case frame_spans buf stop stop of (spans, r') \<Rightarrow> ((consumed, stop) # spans, r'))"
      using Some x by (simp add: frame_spans.simps [of buf scanned] Let_def stop_def)
    show ?thesis using ih st unfolding fs sp by (auto split: prod.splits)
  qed
qed

text \<open>One pass over a buffer no terminator of which ends below \<open>scanned\<close> is the specification, and keeps that so.\<close>

lemma split_leaves_none: "split_frames buf = (fs, r) \<Longrightarrow> find_frame_terminator r = None"
proof (induction buf arbitrary: fs rule: split_frames.induct)
  case (1 buf)
  then show ?case by (subst (asm) (2) split_frames.simps) (auto split: option.splits prod.splits)
qed

lemma sse_pass_split:
  assumes "unseen buf scanned" "scanned \<le> length buf"
  shows "sse_pass buf scanned = (fst (split_frames buf), snd (split_frames buf), length (snd (split_frames buf)))"
proof -
  obtain spans scanned' consumed where f: "frame_spans buf scanned 0 = (spans, scanned', consumed)" by (metis prod.exhaust)
  then have "split_frames buf = (map (\<lambda>(i, j). slice i j buf) spans, drop consumed buf)" "scanned' = length buf"
    using frame_spans_split [of 0 buf scanned] assms by simp_all
  then show ?thesis by (simp add: sse_pass_def f)
qed

lemma split_frames_append:
  "split_frames (a @ b) = (case split_frames a of (fs, r) \<Rightarrow> case split_frames (r @ b) of (gs, r') \<Rightarrow> (fs @ gs, r'))"
proof (induction a rule: split_frames.induct)
  case (1 a)
  show ?case
  proof (cases "find_frame_terminator a")
    case None
    then show ?thesis by (simp add: split_frames.simps [of a] split: prod.splits)
  next
    case (Some x)
    obtain r l where x: "x = (r, l)" by (cases x)
    have le: "r + l \<le> length a" using find_bounds Some x by simp
    show ?thesis
      using "1" [OF Some x [symmetric]] Some x le find_append [OF Some, of b]
      by (simp add: split_frames.simps [of a] split_frames.simps [of "a @ b"] split: prod.splits)
  qed
qed

lemma unseen_grow: "find_frame_terminator r = None \<Longrightarrow> unseen (r @ c) (length r)"
  unfolding unseen_def
proof (intro allI impI)
  fix i l assume n: "find_frame_terminator r = None" and f: "find_frame_terminator (r @ c) = Some (i, l)"
  obtain j where j: "anchor (r @ c) j = Some (i, l)" using f by (auto simp: find_iff)
  show "length r < i + l"
  proof (rule ccontr)
    assume "\<not> length r < i + l"
    then have "anchor r j = Some (i, l)" using j by (auto simp: anchor_def byte_get_def nth_append split: if_splits)
    then show False using n by (simp add: find_None)
  qed
qed

lemma split_frames_concat: "split_frames buf = (fs, r) \<Longrightarrow> concat fs @ r = buf"
proof (induction buf arbitrary: fs rule: split_frames.induct)
  case (1 buf)
  show ?case
  proof (cases "find_frame_terminator buf")
    case None
    then show ?thesis using 1(2) by (simp add: split_frames.simps [of buf])
  next
    case (Some x)
    obtain i l where x: "x = (i, l)" by (cases x)
    obtain gs where "split_frames (drop (i + l) buf) = (gs, r)" "fs = take (i + l) buf # gs"
      using 1(2) Some x by (simp add: split_frames.simps [of buf] split: prod.splits)
    then show ?thesis using "1.IH" [OF Some x [symmetric]] by simp
  qed
qed

subsection \<open>Machines that reassemble frames\<close>

text \<open>
  The contract of a machine built around the scan: it keeps a buffer and a mark, handles each frame a
  pass finds in order, and once dead ignores its input. Nothing it emits depends on how its input
  was cut into chunks.
\<close>

fun run_frames :: "('c \<Rightarrow> bytes \<Rightarrow> 'c \<times> bytes) \<Rightarrow> 'c \<Rightarrow> bytes list \<Rightarrow> 'c \<times> bytes" where
  "run_frames handle c [] = (c, [])"
| "run_frames handle c (f # fs) = (case handle c f of (c1, o1) \<Rightarrow> case run_frames handle c1 fs of (c2, o2) \<Rightarrow> (c2, o1 @ o2))"

lemma run_frames_append:
  "run_frames h c (fs @ gs) = (case run_frames h c fs of (c1, o1) \<Rightarrow> case run_frames h c1 gs of (c2, o2) \<Rightarrow> (c2, o1 @ o2))"
  by (induction fs arbitrary: c) (auto split: prod.splits)

fun feed_all :: "('s \<Rightarrow> bytes \<Rightarrow> 's \<times> bytes) \<Rightarrow> 's \<Rightarrow> bytes list \<Rightarrow> 's \<times> bytes" where
  "feed_all feed s [] = (s, [])"
| "feed_all feed s (c # cs) = (case feed s c of (s1, o1) \<Rightarrow> case feed_all feed s1 cs of (s2, o2) \<Rightarrow> (s2, o1 @ o2))"

locale reassembler =
  fixes feed :: "'s \<Rightarrow> bytes \<Rightarrow> 's \<times> bytes"
    and buffer :: "'s \<Rightarrow> bytes"
    and mark :: "'s \<Rightarrow> nat"
    and live :: "'s \<Rightarrow> bool"
    and core :: "'s \<Rightarrow> 'c"
    and handle :: "'c \<Rightarrow> bytes \<Rightarrow> 'c \<times> bytes"
    and limit :: nat
  assumes feed_pass: "live s \<Longrightarrow> sse_pass (buffer s @ c) (mark s) = (fs, left, m) \<Longrightarrow> feed s c = (s', out)
      \<Longrightarrow> run_frames handle (core s) fs = (core s', out)
        \<and> (if limit < length left then \<not> live s' \<and> buffer s' = [] else live s' \<and> buffer s' = left \<and> mark s' = m)"
    and dead_feed: "\<not> live s \<Longrightarrow> feed s c = (s, [])"
begin

definition settled :: "'s \<Rightarrow> bool" where
  "settled s \<longleftrightarrow> find_frame_terminator (buffer s) = None \<and> mark s = length (buffer s)"

lemma settled_empty: "buffer s = [] \<Longrightarrow> mark s = 0 \<Longrightarrow> settled s"
  by (simp add: settled_def find_None anchor_def)

lemma feed_frames:
  assumes "live s" "settled s" "feed s c = (s', out)"
  shows "run_frames handle (core s) (fst (split_frames (buffer s @ c))) = (core s', out)"
    and "live s' \<longleftrightarrow> length (snd (split_frames (buffer s @ c))) \<le> limit"
    and "live s' \<Longrightarrow> settled s' \<and> buffer s' = snd (split_frames (buffer s @ c))"
proof -
  have u: "unseen (buffer s @ c) (mark s)" using assms(2) unseen_grow [of "buffer s" c] by (simp add: settled_def)
  have p: "sse_pass (buffer s @ c) (mark s) = (fst (split_frames (buffer s @ c)), snd (split_frames (buffer s @ c)), length (snd (split_frames (buffer s @ c))))"
    using sse_pass_split [OF u] assms(2) by (simp add: settled_def)
  note f = feed_pass [OF assms(1) p assms(3)]
  show "run_frames handle (core s) (fst (split_frames (buffer s @ c))) = (core s', out)" using f by simp
  show l: "live s' \<longleftrightarrow> length (snd (split_frames (buffer s @ c))) \<le> limit" using f by (auto split: if_splits)
  have "find_frame_terminator (snd (split_frames (buffer s @ c))) = None" using split_leaves_none by (metis prod.collapse)
  then show "live s' \<Longrightarrow> settled s' \<and> buffer s' = snd (split_frames (buffer s @ c))" using f l by (auto simp: settled_def)
qed

lemma dead_feed_all: "\<not> live s \<Longrightarrow> feed_all feed s cs = (s, [])"
  by (induction cs) (auto simp: dead_feed)

theorem chunks_irrelevant:
  assumes "live s" "settled s" "feed_all feed s cs = (s', out)" "live s'"
  shows "run_frames handle (core s) (fst (split_frames (buffer s @ concat cs))) = (core s', out)
    \<and> buffer s' = snd (split_frames (buffer s @ concat cs)) \<and> settled s' \<and> length (buffer s') \<le> max (length (buffer s)) limit"
  using assms
proof (induction cs arbitrary: s out)
  case Nil
  then show ?case by (simp add: settled_def split_frames.simps [of "buffer s'"])
next
  case (Cons c cs)
  obtain s1 o1 where f: "feed s c = (s1, o1)" by (cases "feed s c")
  obtain o2 where g: "feed_all feed s1 cs = (s', o2)" "out = o1 @ o2" using Cons.prems(3) f by (auto split: prod.splits)
  have l: "live s1" using g(1) Cons.prems(4) dead_feed_all [of s1 cs] by (cases "live s1") auto
  note a = feed_frames [OF Cons.prems(1,2) f]
  note ih = Cons.IH [OF l _ g(1) Cons.prems(4)]
  have "length (buffer s1) \<le> limit" using a(2,3) l by simp
  then show ?case
    using ih a l g(2) split_frames_append [of "buffer s @ c" "concat cs"] by (auto simp: run_frames_append split: prod.splits)
qed

lemma short_stays_live:
  assumes "live s" "settled s" "feed_all feed s cs = (s', out)" "length (buffer s @ concat cs) \<le> limit"
  shows "live s'"
  using assms
proof (induction cs arbitrary: s out)
  case (Cons c cs)
  obtain s1 o1 where f: "feed s c = (s1, o1)" by (cases "feed s c")
  obtain o2 where g: "feed_all feed s1 cs = (s', o2)" using Cons.prems(3) f by (auto split: prod.splits)
  note a = feed_frames [OF Cons.prems(1,2) f]
  have "length (snd (split_frames (buffer s @ c))) \<le> length (buffer s @ c)"
    using split_frames_concat [of "buffer s @ c"] by (metis length_append le_add2 prod.collapse)
  then have l: "live s1" using a(2) Cons.prems(4) by simp
  have "length (buffer s1) \<le> length (buffer s @ c)" using a(3) l \<open>length (snd (split_frames (buffer s @ c))) \<le> length (buffer s @ c)\<close> by simp
  then show ?case using Cons.IH [OF l _ g] a(3) l Cons.prems(4) by simp
qed simp

text \<open>However the machine ends, what it emitted is what the frames of some part of the input give.\<close>

lemma emits_frames:
  assumes "settled s" "live s" "feed_all feed s cs = (s', out)"
  shows "\<exists>fs. run_frames handle (core s) fs = (core s', out)"
  using assms
proof (induction cs arbitrary: s out)
  case Nil
  then show ?case by (auto intro!: exI [of _ "[]"])
next
  case (Cons c cs)
  obtain s1 o1 where f: "feed s c = (s1, o1)" by (cases "feed s c")
  obtain o2 where g: "feed_all feed s1 cs = (s', o2)" "out = o1 @ o2" using Cons.prems(3) f by (auto split: prod.splits)
  note a = feed_frames [OF Cons.prems(2,1) f]
  show ?case
  proof (cases "live s1")
    case True
    then obtain gs where "run_frames handle (core s1) gs = (core s', o2)" using Cons.IH [OF _ True g(1)] a(3) by auto
    then have "run_frames handle (core s) (fst (split_frames (buffer s @ c)) @ gs) = (core s', out)" using a(1) g(2) by (simp add: run_frames_append)
    then show ?thesis by blast
  next
    case False
    then show ?thesis using dead_feed_all [OF False, of cs] g a(1) by auto
  qed
qed

end

end
