(* ===== verification/EventStream.thy ===== *)
theory EventStream
  imports Bytes
begin

text \<open>
  The AWS event-stream frame codec, \<open>crates/busbar/src/eventstream.rs\<close>: the incremental decoder
  that pulls frames out of a reassembly buffer and the encoder that is its inverse. The CRC-32
  (package \<open>crc32fast\<close>) and the JSON writer of an exception body (package \<open>serde_json\<close>) are
  arguments. Log lines are not modelled.
\<close>

subsection \<open>Constants\<close>

definition MAX_FRAME_BYTES :: nat where
  "MAX_FRAME_BYTES = 16 * 1024 * 1024"

definition PRELUDE_LEN :: nat where
  "PRELUDE_LEN = 12"

definition CRC_BYTES :: nat where
  "CRC_BYTES = 4"

definition MIN_FRAME_BYTES :: nat where
  "MIN_FRAME_BYTES = PRELUDE_LEN + CRC_BYTES"

definition HDR_EVENT_TYPE :: bytes where
  "HDR_EVENT_TYPE = '':event-type''"

definition HDR_CONTENT_TYPE :: bytes where
  "HDR_CONTENT_TYPE = '':content-type''"

definition HDR_MESSAGE_TYPE :: bytes where
  "HDR_MESSAGE_TYPE = '':message-type''"

definition HDR_EXCEPTION_TYPE :: bytes where
  "HDR_EXCEPTION_TYPE = '':exception-type''"

definition MSG_TYPE_EVENT :: bytes where
  "MSG_TYPE_EVENT = ''event''"

definition MSG_TYPE_EXCEPTION :: bytes where
  "MSG_TYPE_EXCEPTION = ''exception''"

definition HDR_TYPE_STRING :: nat where
  "HDR_TYPE_STRING = 7"

definition APPLICATION_JSON :: bytes where
  "APPLICATION_JSON = ''application/json''"

lemmas frame_consts = MAX_FRAME_BYTES_def PRELUDE_LEN_def CRC_BYTES_def MIN_FRAME_BYTES_def HDR_TYPE_STRING_def
lemmas header_consts = HDR_EVENT_TYPE_def HDR_CONTENT_TYPE_def HDR_MESSAGE_TYPE_def HDR_EXCEPTION_TYPE_def
  MSG_TYPE_EVENT_def MSG_TYPE_EXCEPTION_def APPLICATION_JSON_def

subsection \<open>Headers\<close>

record FrameHeaders =
  fh_event_type :: "bytes option"
  fh_message_type :: "bytes option"
  fh_exception_type :: "bytes option"

definition FrameHeaders_default :: FrameHeaders where
  "FrameHeaders_default = \<lparr>fh_event_type = None, fh_message_type = None, fh_exception_type = None\<rparr>"

fun fixed_width :: "nat \<Rightarrow> nat option" where
  "fixed_width vt = (if vt = 0 \<or> vt = 1 then Some 0 else if vt = 2 then Some 1 else if vt = 3 then Some 2
     else if vt = 4 then Some 4 else if vt = 5 \<or> vt = 8 then Some 8 else if vt = 9 then Some 16 else None)"

text \<open>The value of a header at offset \<open>p\<close> and the offset past it; \<open>None\<close> ends the scan.\<close>

definition header_value :: "nat \<Rightarrow> nat \<Rightarrow> bytes \<Rightarrow> (bytes option \<times> nat) option" where
  "header_value vt p h = (if vt = 6 \<or> vt = HDR_TYPE_STRING
     then if length h < p + 2 then None
       else let vlen = u16_from_be_bytes (h ! p) (h ! (p + 1)); p = p + 2
         in if length h < p + vlen then None else Some (Some (slice p (p + vlen) h), p + vlen)
     else case fixed_width vt of Some w \<Rightarrow> if length h < p + w then None else Some (None, p + w) | None \<Rightarrow> None)"

definition note_header :: "bytes \<Rightarrow> bytes option \<Rightarrow> FrameHeaders \<Rightarrow> FrameHeaders" where
  "note_header name value found = (case Option.bind value from_utf8 of None \<Rightarrow> found
     | Some v \<Rightarrow> if name = HDR_EVENT_TYPE then found\<lparr>fh_event_type := Some v\<rparr>
         else if name = HDR_MESSAGE_TYPE then found\<lparr>fh_message_type := Some v\<rparr>
         else if name = HDR_EXCEPTION_TYPE then found\<lparr>fh_exception_type := Some v\<rparr>
         else found)"

lemma header_value_advances: "header_value vt p h = Some (v, q) \<Longrightarrow> p \<le> q \<and> q \<le> length h"
  by (auto simp: header_value_def Let_def split: if_splits option.splits)

function parse_frame_headers :: "bytes \<Rightarrow> FrameHeaders \<Rightarrow> FrameHeaders" where
  "parse_frame_headers h found = (if h = [] then found
     else let name_len = byte_val (h ! 0)
       in if length h < 1 + name_len + 1 then found
       else case header_value (byte_val (h ! (1 + name_len))) (1 + name_len + 1) h of
           None \<Rightarrow> found
         | Some (value, p) \<Rightarrow> parse_frame_headers (drop p h) (note_header (slice 1 (1 + name_len) h) value found))"
  by pat_completeness auto
termination
proof (relation "measure (length \<circ> fst)", goal_cases)
  case (2 h found name_len pair v p)
  then have "1 + name_len + 1 \<le> p" using header_value_advances by fastforce
  with 2(1) show ?case by (cases h) auto
qed simp

lemmas [simp del] = parse_frame_headers.simps

text \<open>\<open>exc.rsplit(['#', '/'])\<close> yields the pieces between delimiters, the last one first.\<close>

fun split_delims :: "bytes \<Rightarrow> bytes list" where
  "split_delims [] = [[]]"
| "split_delims (c # s) = (if c = CHR ''#'' \<or> c = CHR ''/'' then [] # split_delims s
     else case split_delims s of t # ts \<Rightarrow> (c # t) # ts | [] \<Rightarrow> [[c]])"

definition bare_exception :: "bytes \<Rightarrow> bytes" where
  "bare_exception exc = (case find (\<lambda>s. s \<noteq> []) (rev (split_delims exc)) of Some s \<Rightarrow> s | None \<Rightarrow> exc)"

fun lowercase_first :: "bytes \<Rightarrow> bytes" where
  "lowercase_first [] = []"
| "lowercase_first (c # s) = (if 65 \<le> byte_val c \<and> byte_val c \<le> 90 then char_of (byte_val c + 32) else c) # s"

definition event_type_for_frame :: "bytes \<Rightarrow> bytes" where
  "event_type_for_frame headers = (let parsed = parse_frame_headers headers FrameHeaders_default
     in if fh_message_type parsed = Some MSG_TYPE_EXCEPTION \<and> fh_exception_type parsed \<noteq> None
        then lowercase_first (bare_exception (the (fh_exception_type parsed)))
        else case fh_event_type parsed of Some t \<Rightarrow> t | None \<Rightarrow> [])"

subsection \<open>The decoder\<close>

datatype DrainStatus = DrainOk | MalformedPrelude

type_synonym drained = "(bytes \<times> bytes) list \<times> DrainStatus \<times> nat \<times> bytes \<times> bytes option"

text \<open>
  One turn of the loop per frame: the frames decoded so far, the bytes consumed as valid frames and
  the sink of verbatim bytes are the loop's variables; what is left of the buffer is returned.
\<close>

function drain_loop :: "bytes \<Rightarrow> (bytes \<times> bytes) list \<Rightarrow> nat \<Rightarrow> bytes option \<Rightarrow> drained" where
  "drain_loop buf out valid_consumed sink = (if length buf < PRELUDE_LEN then (out, DrainOk, valid_consumed, buf, sink)
     else let total_len = u32_from_be_bytes (buf ! 0) (buf ! 1) (buf ! 2) (buf ! 3);
              headers_len = u32_from_be_bytes (buf ! 4) (buf ! 5) (buf ! 6) (buf ! 7)
       in if \<not> (MIN_FRAME_BYTES \<le> total_len \<and> total_len \<le> MAX_FRAME_BYTES) \<or> total_len - MIN_FRAME_BYTES < headers_len
          then (out, MalformedPrelude, valid_consumed, [], sink)
          else if length buf < total_len then (out, DrainOk, valid_consumed, buf, sink)
          else drain_loop (drop total_len buf)
             (out @ [(event_type_for_frame (slice PRELUDE_LEN (PRELUDE_LEN + headers_len) buf),
                      slice (PRELUDE_LEN + headers_len) (total_len - CRC_BYTES) buf)])
             (valid_consumed + total_len) (map_option (\<lambda>s. s @ take total_len buf) sink))"
  by pat_completeness auto
termination
  by (relation "measure (length \<circ> fst)") (auto simp: frame_consts)

lemmas [simp del] = drain_loop.simps

definition drain_frames_checked :: "bytes \<Rightarrow> bytes option \<Rightarrow> drained" where
  "drain_frames_checked buf consumed_sink = drain_loop buf [] 0 consumed_sink"

subsection \<open>The encoder\<close>

definition push_string_header :: "bytes \<Rightarrow> bytes \<Rightarrow> bytes \<Rightarrow> bytes option" where
  "push_string_header headers name value = (if length name > 255 \<or> length value > 65535 then None
     else Some (headers @ [char_of (length name)] @ name @ [char_of HDR_TYPE_STRING]
       @ u16_to_be_bytes (length value) @ value))"

definition frame_open :: bytes where
  "frame_open = replicate PRELUDE_LEN (char_of (0::nat))"

definition frame_close :: "(bytes \<Rightarrow> nat) \<Rightarrow> bytes \<Rightarrow> bytes \<Rightarrow> bytes" where
  "frame_close crc32 frame payload =
     (let headers_len = length frame - PRELUDE_LEN;
          total_len = PRELUDE_LEN + headers_len + length payload + CRC_BYTES
      in if total_len > MAX_FRAME_BYTES then []
         else let lens = u32_to_be_bytes (wrap_u32 total_len) @ u32_to_be_bytes (wrap_u32 headers_len);
                  f = lens @ u32_to_be_bytes (crc32 lens) @ drop PRELUDE_LEN frame @ payload
           in f @ u32_to_be_bytes (crc32 f))"

definition push_headers :: "bytes \<Rightarrow> bytes \<Rightarrow> bytes \<Rightarrow> bytes option" where
  "push_headers name value message_type =
     Option.bind (push_string_header frame_open name value) (\<lambda>f.
     Option.bind (push_string_header f HDR_CONTENT_TYPE APPLICATION_JSON) (\<lambda>f.
     push_string_header f HDR_MESSAGE_TYPE message_type))"

definition encode_frame :: "(bytes \<Rightarrow> nat) \<Rightarrow> bytes \<Rightarrow> bytes \<Rightarrow> bytes" where
  "encode_frame crc32 et payload = (case push_headers HDR_EVENT_TYPE et MSG_TYPE_EVENT of
       None \<Rightarrow> [] | Some frame \<Rightarrow> frame_close crc32 frame payload)"

definition exception_fallback :: bytes where
  "exception_fallback = [CHR ''{'', CHR 0x22] @ ''message'' @ [CHR 0x22, CHR '':'', CHR 0x22]
     @ ''An internal server error occurred.'' @ [CHR 0x22, CHR ''}'']"

definition encode_exception_frame :: "(bytes \<Rightarrow> nat) \<Rightarrow> (bytes \<Rightarrow> bytes option) \<Rightarrow> bytes \<Rightarrow> bytes \<Rightarrow> bytes" where
  "encode_exception_frame crc32 to_vec exc_type message =
     (let payload = (case to_vec message of Some b \<Rightarrow> b | None \<Rightarrow> exception_fallback)
      in case push_headers HDR_EXCEPTION_TYPE exc_type MSG_TYPE_EXCEPTION of
           None \<Rightarrow> [] | Some frame \<Rightarrow> frame_close crc32 frame payload)"

subsection \<open>What a written header is read back as\<close>

lemma parse_pushed_header:
  assumes "length name \<le> 255" "length value \<le> 65535"
  shows "parse_frame_headers ([char_of (length name)] @ name @ [char_of HDR_TYPE_STRING] @ u16_to_be_bytes (length value) @ value @ rest) found
    = parse_frame_headers rest (note_header name (Some value) found)"
proof -
  let ?h = "[char_of (length name)] @ name @ [char_of HDR_TYPE_STRING] @ u16_to_be_bytes (length value) @ value @ rest"
  have n: "byte_val (?h ! 0) = length name" using assms by simp
  have t: "byte_val (?h ! (1 + length name)) = HDR_TYPE_STRING" by (simp add: nth_append HDR_TYPE_STRING_def)
  have v: "u16_from_be_bytes (?h ! (1 + length name + 1)) (?h ! (1 + length name + 1 + 1)) = length value"
    using u16_be_round_trip [of "length value"] assms by (simp add: nth_append u16_to_be_bytes_def)
  have s: "slice (1 + length name + 1 + 2) (1 + length name + 1 + 2 + length value) ?h = value"
    using slice_middle [of "1 + length name + 1 + 2" "[char_of (length name)] @ name @ [char_of HDR_TYPE_STRING] @ u16_to_be_bytes (length value)"
        "1 + length name + 1 + 2 + length value" "value" rest] by simp
  have hv: "header_value (byte_val (?h ! (1 + length name))) (1 + length name + 1) ?h = Some (Some value, 1 + length name + 1 + 2 + length value)"
    unfolding header_value_def t v Let_def s by simp
  have d: "drop (1 + length name + 1 + 2 + length value) ?h = rest" by (simp add: u16_to_be_bytes_def numeral_3_eq_3)
  have nm: "slice 1 (1 + length name) ?h = name" by (simp add: slice_def)
  have ne: "?h \<noteq> []" "\<not> length ?h < 1 + length name + 1" by simp_all
  show ?thesis
    by (subst parse_frame_headers.simps) (simp only: Let_def n if_not_P [OF ne(1)] if_not_P [OF ne(2)] hv option.case prod.case d nm)
qed

lemmas char_consts = header_consts HDR_TYPE_STRING_def

definition header_block :: "bytes \<Rightarrow> bytes \<Rightarrow> bytes" where
  "header_block name value = [char_of (length name)] @ name @ [char_of HDR_TYPE_STRING] @ u16_to_be_bytes (length value) @ value"

lemma push_string_header_block:
  "length name \<le> 255 \<Longrightarrow> length value \<le> 65535 \<Longrightarrow> push_string_header h name value = Some (h @ header_block name value)"
  by (simp add: push_string_header_def header_block_def)

lemma parse_header_block:
  "length name \<le> 255 \<Longrightarrow> length value \<le> 65535
    \<Longrightarrow> parse_frame_headers (header_block name value @ rest) found = parse_frame_headers rest (note_header name (Some value) found)"
  using parse_pushed_header [of name "value" rest found] by (simp add: header_block_def)

definition headers_of :: "bytes \<Rightarrow> bytes \<Rightarrow> bytes \<Rightarrow> bytes" where
  "headers_of name value message_type = header_block name value @ header_block HDR_CONTENT_TYPE APPLICATION_JSON
     @ header_block HDR_MESSAGE_TYPE message_type"

lemma push_headers_eq:
  assumes "length name \<le> 255" "length value \<le> 65535" "length mt \<le> 65535"
  shows "push_headers name value mt = Some (frame_open @ headers_of name value mt)"
  using assms by (simp add: push_headers_def push_string_header_block headers_of_def header_consts)

lemma parse_headers_of:
  assumes "length name \<le> 255" "length value \<le> 65535" "length mt \<le> 65535"
  shows "parse_frame_headers (headers_of name value mt) found
    = note_header HDR_MESSAGE_TYPE (Some mt) (note_header HDR_CONTENT_TYPE (Some APPLICATION_JSON) (note_header name (Some value) found))"
proof -
  have "parse_frame_headers [] f = f" for f by (simp add: parse_frame_headers.simps)
  then show ?thesis
    using assms parse_header_block [of HDR_MESSAGE_TYPE mt "[]"] unfolding headers_of_def
    by (simp add: parse_header_block HDR_CONTENT_TYPE_def HDR_MESSAGE_TYPE_def APPLICATION_JSON_def)
qed

lemma event_headers_type:
  assumes "utf8_valid et" "length et \<le> 65535"
  shows "event_type_for_frame (headers_of HDR_EVENT_TYPE et MSG_TYPE_EVENT) = et"
  using assms by (simp add: event_type_for_frame_def parse_headers_of char_consts note_header_def from_utf8_def FrameHeaders_default_def)

lemma exception_headers_type:
  assumes "utf8_valid exc" "length exc \<le> 65535"
  shows "event_type_for_frame (headers_of HDR_EXCEPTION_TYPE exc MSG_TYPE_EXCEPTION) = lowercase_first (bare_exception exc)"
  using assms by (simp add: event_type_for_frame_def parse_headers_of char_consts note_header_def from_utf8_def FrameHeaders_default_def)

subsection \<open>One turn of the decoder\<close>

definition total_at :: "bytes \<Rightarrow> nat" where
  "total_at buf = u32_from_be_bytes (buf ! 0) (buf ! 1) (buf ! 2) (buf ! 3)"

definition headers_at :: "bytes \<Rightarrow> nat" where
  "headers_at buf = u32_from_be_bytes (buf ! 4) (buf ! 5) (buf ! 6) (buf ! 7)"

definition bad_prelude :: "bytes \<Rightarrow> bool" where
  "bad_prelude buf \<longleftrightarrow> \<not> (MIN_FRAME_BYTES \<le> total_at buf \<and> total_at buf \<le> MAX_FRAME_BYTES)
     \<or> total_at buf - MIN_FRAME_BYTES < headers_at buf"

definition frame_at :: "bytes \<Rightarrow> bytes \<times> bytes" where
  "frame_at buf = (event_type_for_frame (slice PRELUDE_LEN (PRELUDE_LEN + headers_at buf) buf),
     slice (PRELUDE_LEN + headers_at buf) (total_at buf - CRC_BYTES) buf)"

lemma drain_step:
  "drain_loop buf out n sink = (if length buf < PRELUDE_LEN then (out, DrainOk, n, buf, sink)
     else if bad_prelude buf then (out, MalformedPrelude, n, [], sink)
     else if length buf < total_at buf then (out, DrainOk, n, buf, sink)
     else drain_loop (drop (total_at buf) buf) (out @ [frame_at buf]) (n + total_at buf) (map_option (\<lambda>s. s @ take (total_at buf) buf) sink))"
  by (subst drain_loop.simps) (simp only: total_at_def headers_at_def bad_prelude_def frame_at_def Let_def)

lemma prelude_append:
  assumes "\<not> length buf < PRELUDE_LEN"
  shows "total_at (buf @ b) = total_at buf" "bad_prelude (buf @ b) \<longleftrightarrow> bad_prelude buf"
    "\<not> bad_prelude buf \<Longrightarrow> \<not> length buf < total_at buf \<Longrightarrow> frame_at (buf @ b) = frame_at buf"
proof -
  have nth: "(buf @ b) ! k = buf ! k" if "k < 12" for k using assms that by (simp add: nth_append PRELUDE_LEN_def)
  have h: "headers_at (buf @ b) = headers_at buf" by (simp add: headers_at_def nth)
  show t: "total_at (buf @ b) = total_at buf" by (simp add: total_at_def nth)
  show "bad_prelude (buf @ b) \<longleftrightarrow> bad_prelude buf" by (simp add: bad_prelude_def t h)
  assume "\<not> bad_prelude buf" "\<not> length buf < total_at buf"
  then have "PRELUDE_LEN + headers_at buf \<le> length buf" "total_at buf - CRC_BYTES \<le> length buf" by (auto simp: bad_prelude_def frame_consts)
  then show "frame_at (buf @ b) = frame_at buf" by (simp add: frame_at_def t h slice_append_left)
qed

lemma good_prelude_shrinks: "\<not> bad_prelude buf \<Longrightarrow> \<not> length buf < PRELUDE_LEN \<Longrightarrow> length (drop (total_at buf) buf) < length buf"
  by (auto simp: bad_prelude_def frame_consts)

subsection \<open>A closed frame is decoded as its parts\<close>

lemma frame_close_layout:
  assumes "MIN_FRAME_BYTES + length hs + length payload \<le> MAX_FRAME_BYTES"
  shows "\<exists>c1 c2. frame_close crc32 (frame_open @ hs) payload = u32_to_be_bytes (MIN_FRAME_BYTES + length hs + length payload)
    @ u32_to_be_bytes (length hs) @ u32_to_be_bytes c1 @ hs @ payload @ u32_to_be_bytes c2"
  using assms by (auto simp: frame_close_def frame_open_def Let_def frame_consts wrap_u32_def add.commute add.left_commute)

lemma closed_frame:
  fixes crc32 :: "bytes \<Rightarrow> nat"
  assumes "MIN_FRAME_BYTES + length hs + length payload \<le> MAX_FRAME_BYTES"
  defines "f \<equiv> frame_close crc32 (frame_open @ hs) payload"
  shows "total_at f = length f" "\<not> length f < PRELUDE_LEN" "\<not> bad_prelude f" "frame_at f = (event_type_for_frame hs, payload)"
proof -
  let ?t = "MIN_FRAME_BYTES + length hs + length payload"
  obtain c1 c2 where f: "f = u32_to_be_bytes ?t @ u32_to_be_bytes (length hs) @ u32_to_be_bytes c1 @ hs @ payload @ u32_to_be_bytes c2"
    using frame_close_layout [OF assms(1)] unfolding f_def by blast
  have len: "length f = ?t" unfolding f by (simp add: frame_consts)
  have t: "total_at f = ?t"
    using u32_be_round_trip [of ?t] assms(1) unfolding f total_at_def by (simp add: u32_to_be_bytes_def frame_consts)
  have h: "headers_at f = length hs"
    using u32_be_round_trip [of "length hs"] assms(1) unfolding f headers_at_def by (simp add: u32_to_be_bytes_def frame_consts)
  have hs: "slice PRELUDE_LEN (PRELUDE_LEN + length hs) f = hs"
    using slice_middle [of PRELUDE_LEN "u32_to_be_bytes ?t @ u32_to_be_bytes (length hs) @ u32_to_be_bytes c1" "PRELUDE_LEN + length hs" hs
        "payload @ u32_to_be_bytes c2"] unfolding f by (simp add: PRELUDE_LEN_def)
  have p: "slice (PRELUDE_LEN + length hs) (?t - CRC_BYTES) f = payload"
    using slice_middle [of "PRELUDE_LEN + length hs" "u32_to_be_bytes ?t @ u32_to_be_bytes (length hs) @ u32_to_be_bytes c1 @ hs" "?t - CRC_BYTES" payload
        "u32_to_be_bytes c2"] unfolding f by (simp add: frame_consts)
  show "total_at f = length f" "\<not> length f < PRELUDE_LEN" using t len by (simp_all add: MIN_FRAME_BYTES_def)
  show "\<not> bad_prelude f" using assms(1) t h by (simp add: bad_prelude_def)
  show "frame_at f = (event_type_for_frame hs, payload)" unfolding frame_at_def t h hs p ..
qed

lemma drain_one_frame:
  fixes crc32 :: "bytes \<Rightarrow> nat"
  assumes "MIN_FRAME_BYTES + length hs + length payload \<le> MAX_FRAME_BYTES"
  defines "f \<equiv> frame_close crc32 (frame_open @ hs) payload"
  shows "drain_loop (f @ rest) out n sink
    = drain_loop rest (out @ [(event_type_for_frame hs, payload)]) (n + length f) (map_option (\<lambda>s. s @ f) sink)"
proof -
  note f = closed_frame [OF assms(1), of crc32, folded f_def]
  have "\<not> length f < total_at f" using f(1) by simp
  then show ?thesis using f by (simp add: drain_step [of "f @ rest"] prelude_append)
qed

lemma drain_partial_frame:
  assumes "MIN_FRAME_BYTES + length hs + length payload \<le> MAX_FRAME_BYTES" "k < length (frame_close crc32 (frame_open @ hs) payload)"
  shows "drain_loop (take k (frame_close crc32 (frame_open @ hs) payload)) out n sink
    = (out, DrainOk, n, take k (frame_close crc32 (frame_open @ hs) payload), sink)"
proof -
  define f where "f = frame_close crc32 (frame_open @ hs) payload"
  note c = closed_frame [OF assms(1), of crc32, folded f_def]
  have lt: "length (take k f) < total_at f" using assms(2) c(1) by (simp add: f_def)
  have "total_at (take k f) = total_at f" "bad_prelude (take k f) \<longleftrightarrow> bad_prelude f" if "\<not> length (take k f) < PRELUDE_LEN"
    using prelude_append [OF that, of "drop k f"] by simp_all
  then show ?thesis using c lt unfolding f_def [symmetric] by (auto simp: drain_step [of "take k f"])
qed

text \<open>The frames of a list of events the encoder accepts.\<close>

definition fits :: "bytes \<times> bytes \<Rightarrow> bool" where
  "fits = (\<lambda>(et, payload). utf8_valid et \<and> length et \<le> 65535
     \<and> MIN_FRAME_BYTES + length (headers_of HDR_EVENT_TYPE et MSG_TYPE_EVENT) + length payload \<le> MAX_FRAME_BYTES)"

lemma encode_frame_eq: "length et \<le> 65535 \<Longrightarrow> encode_frame crc32 et payload
    = frame_close crc32 (frame_open @ headers_of HDR_EVENT_TYPE et MSG_TYPE_EVENT) payload"
  by (simp add: encode_frame_def push_headers_eq header_consts)

lemma drain_encoded_event:
  assumes "fits (et, payload)"
  shows "drain_loop (encode_frame crc32 et payload @ rest) out n sink
    = drain_loop rest (out @ [(et, payload)]) (n + length (encode_frame crc32 et payload)) (map_option (\<lambda>s. s @ encode_frame crc32 et payload) sink)"
  using assms drain_one_frame by (auto simp: fits_def encode_frame_eq event_headers_type)

lemma drain_encoded_events:
  assumes "\<forall>e \<in> set es. fits e"
  shows "drain_loop (concat (map (\<lambda>(et, payload). encode_frame crc32 et payload) es) @ rest) out n sink
    = drain_loop rest (out @ es) (n + length (concat (map (\<lambda>(et, payload). encode_frame crc32 et payload) es)))
        (map_option (\<lambda>s. s @ concat (map (\<lambda>(et, payload). encode_frame crc32 et payload) es)) sink)"
  using assms
proof (induction es arbitrary: out n sink)
  case Nil
  then show ?case by (cases sink) auto
next
  case (Cons e es)
  obtain et payload where "e = (et, payload)" by (cases e)
  with Cons show ?case by (cases sink) (simp_all add: drain_encoded_event add.assoc)
qed

subsection \<open>The decoder on a buffer that arrives in pieces\<close>

lemma drain_append:
  "drain_loop (b1 @ b2) out n sink = (case drain_loop b1 out n sink of (out', status, n', left, sink') \<Rightarrow>
     if status = MalformedPrelude then (out', status, n', left, sink') else drain_loop (left @ b2) out' n' sink')"
proof (induction b1 arbitrary: out n sink rule: length_induct)
  case (1 b1)
  consider "length b1 < PRELUDE_LEN" | "\<not> length b1 < PRELUDE_LEN" "bad_prelude b1"
    | "\<not> length b1 < PRELUDE_LEN" "\<not> bad_prelude b1" "length b1 < total_at b1"
    | "\<not> length b1 < PRELUDE_LEN" "\<not> bad_prelude b1" "\<not> length b1 < total_at b1" by blast
  then show ?case
  proof cases
    case 1
    then show ?thesis by (simp add: drain_step [of b1])
  next
    case 2
    then show ?thesis by (simp add: drain_step [of b1] drain_step [of "b1 @ b2"] prelude_append)
  next
    case 3
    then show ?thesis by (simp add: drain_step [of b1])
  next
    case 4
    let ?k = "map_option (\<lambda>s. s @ take (total_at b1) b1) sink"
    have "drain_loop b1 out n sink = drain_loop (drop (total_at b1) b1) (out @ [frame_at b1]) (n + total_at b1) ?k"
      using 4 by (simp add: drain_step [of b1])
    moreover have "drain_loop (b1 @ b2) out n sink = drain_loop (drop (total_at b1) b1 @ b2) (out @ [frame_at b1]) (n + total_at b1) ?k"
      using 4 by (simp add: drain_step [of "b1 @ b2"] prelude_append)
    ultimately show ?thesis using 1 good_prelude_shrinks [OF 4(2,1)] by simp
  qed
qed

text \<open>What a pass leaves, consumes and copies.\<close>

lemma drain_accounts:
  assumes "drain_loop buf out n sink = (out', status, n', left, sink')"
  shows "n \<le> n' \<and> n' - n \<le> length buf \<and> sink' = map_option (\<lambda>s. s @ take (n' - n) buf) sink
    \<and> (\<exists>fs. out' = out @ fs) \<and> (status = DrainOk \<longrightarrow> left = drop (n' - n) buf \<and> length left < MAX_FRAME_BYTES)
    \<and> (status = MalformedPrelude \<longrightarrow> left = [])"
  using assms
proof (induction buf arbitrary: out n sink rule: length_induct)
  case (1 buf)
  show ?case
  proof (cases "length buf < PRELUDE_LEN \<or> bad_prelude buf \<or> length buf < total_at buf")
    case True
    then show ?thesis
      using 1(2) by (cases sink) (auto simp: drain_step [of buf] bad_prelude_def frame_consts split: if_splits)
  next
    case False
    let ?t = "total_at buf"
    have e: "drain_loop (drop ?t buf) (out @ [frame_at buf]) (n + ?t) (map_option (\<lambda>s. s @ take ?t buf) sink) = (out', status, n', left, sink')"
      using 1(2) False by (simp add: drain_step [of buf])
    have lt: "length (drop ?t buf) < length buf" using good_prelude_shrinks False by blast
    have ih: "n + ?t \<le> n' \<and> n' - (n + ?t) \<le> length (drop ?t buf)
      \<and> sink' = map_option (\<lambda>s. s @ take (n' - (n + ?t)) (drop ?t buf)) (map_option (\<lambda>s. s @ take ?t buf) sink)
      \<and> (\<exists>fs. out' = (out @ [frame_at buf]) @ fs) \<and> (status = DrainOk \<longrightarrow> left = drop (n' - (n + ?t)) (drop ?t buf) \<and> length left < MAX_FRAME_BYTES)
      \<and> (status = MalformedPrelude \<longrightarrow> left = [])"
      using 1(1) lt e by blast
    have k: "n' - n = ?t + (n' - (n + ?t))" using ih by linarith
    have tk: "take (n' - n) buf = take ?t buf @ take (n' - (n + ?t)) (drop ?t buf)" unfolding k by (rule take_add)
    have dk: "drop (n' - n) buf = drop (n' - (n + ?t)) (drop ?t buf)" unfolding k by (simp add: add.commute)
    show ?thesis unfolding tk dk using ih False by (cases sink) auto
  qed
qed

lemma drain_shift:
  assumes "drain_loop buf out n (Some k) = (out', status, n', left, sink')"
  shows "drain_loop buf (o1 @ out) (m + n) (Some (s1 @ k)) = (o1 @ out', status, m + n', left, Some (s1 @ the sink'))"
  using assms
proof (induction buf arbitrary: out n k rule: length_induct)
  case (1 buf)
  show ?case
  proof (cases "length buf < PRELUDE_LEN \<or> bad_prelude buf \<or> length buf < total_at buf")
    case True
    then show ?thesis using 1(2) by (auto simp: drain_step [of buf] split: if_splits)
  next
    case False
    have "length (drop (total_at buf) buf) < length buf" using good_prelude_shrinks False by blast
    then show ?thesis using 1(1) [rule_format, of "drop (total_at buf) buf" "out @ [frame_at buf]" "n + total_at buf" "k @ take (total_at buf) buf"]
        1(2) False by (simp add: drain_step [of buf] add.assoc)
  qed
qed

lemma drain_no_sink:
  "drain_loop buf out n (Some k) = (out', status, n', left, sink') \<Longrightarrow> drain_loop buf out n None = (out', status, n', left, None)"
proof (induction buf arbitrary: out n k rule: length_induct)
  case (1 buf)
  show ?case
  proof (cases "length buf < PRELUDE_LEN \<or> bad_prelude buf \<or> length buf < total_at buf")
    case True
    then show ?thesis using 1(2) by (auto simp: drain_step [of buf] split: if_splits)
  next
    case False
    have "length (drop (total_at buf) buf) < length buf" using good_prelude_shrinks False by blast
    then show ?thesis using 1(1) [rule_format, of "drop (total_at buf) buf"] 1(2) False by (simp add: drain_step [of buf])
  qed
qed

lemma event_stream_pass:
  "drain_frames_checked (b1 @ b2) (Some []) = (case drain_frames_checked b1 (Some []) of (fs1, st1, n1, left1, k1) \<Rightarrow>
      if st1 = MalformedPrelude then (fs1, st1, n1, left1, k1)
      else case drain_frames_checked (left1 @ b2) (Some []) of (fs2, st2, n2, left2, k2) \<Rightarrow>
        (fs1 @ fs2, st2, n1 + n2, left2, Some (the k1 @ the k2)))"
proof -
  obtain fs1 st1 n1 left1 k1 where d: "drain_frames_checked b1 (Some []) = (fs1, st1, n1, left1, k1)" by (metis prod.exhaust)
  obtain fs2 st2 n2 left2 k2 where e: "drain_frames_checked (left1 @ b2) (Some []) = (fs2, st2, n2, left2, k2)" by (metis prod.exhaust)
  have "k1 = Some (take n1 b1)" using drain_accounts [OF d [unfolded drain_frames_checked_def]] by auto
  then have "drain_loop (left1 @ b2) fs1 n1 k1 = (fs1 @ fs2, st2, n1 + n2, left2, Some (the k1 @ the k2))"
    using drain_shift [OF e [unfolded drain_frames_checked_def], of fs1 n1 "the k1"] by simp
  then show ?thesis using drain_append [of b1 b2 "[]" 0 "Some []"] d e by (cases st1) (auto simp: drain_frames_checked_def)
qed

subsection \<open>The codec's properties\<close>



text \<open>
  Decoding does not depend on how the transport cut the stream, never waits for more than a
  bounded frame and never forwards a malformed byte. For a buffer fed in two pieces, decoding the
  first piece and then what it left together with the second gives the same frames, status, count
  and verbatim copy as decoding everything at once; a malformed prelude is reported by the first
  pass that sees it and stays reported. After any pass the verbatim copy is exactly the consumed prefix, a healthy
  pass leaves exactly the rest, always shorter than \<open>MAX_FRAME_BYTES\<close>, and a malformed one leaves nothing.
\<close>

theorem event_stream_chunking:
  "drain_frames_checked (b1 @ b2) (Some []) = (case drain_frames_checked b1 (Some []) of (fs1, st1, n1, left1, k1) \<Rightarrow>
      if st1 = MalformedPrelude then (fs1, st1, n1, left1, k1)
      else case drain_frames_checked (left1 @ b2) (Some []) of (fs2, st2, n2, left2, k2) \<Rightarrow>
        (fs1 @ fs2, st2, n1 + n2, left2, Some (the k1 @ the k2)))
    \<and> (case drain_frames_checked b1 (Some []) of (fs1, st1, n1, left1, k1) \<Rightarrow> n1 \<le> length b1 \<and> k1 = Some (take n1 b1)
         \<and> (case st1 of DrainOk \<Rightarrow> left1 = drop n1 b1 \<and> length left1 < MAX_FRAME_BYTES | MalformedPrelude \<Rightarrow> left1 = []))"
proof -
  obtain fs1 st1 n1 left1 k1 where d: "drain_frames_checked b1 (Some []) = (fs1, st1, n1, left1, k1)" by (metis prod.exhaust)
  have "n1 \<le> length b1" "k1 = Some (take n1 b1)" "st1 = DrainOk \<longrightarrow> left1 = drop n1 b1 \<and> length left1 < MAX_FRAME_BYTES"
    "st1 = MalformedPrelude \<longrightarrow> left1 = []"
    using drain_accounts [OF d [unfolded drain_frames_checked_def]] by auto
  then show ?thesis using event_stream_pass [of b1 b2] d by (auto split: DrainStatus.split)
qed

end
