(* ===== verification/JsonStrip.thy ===== *)
theory JsonStrip
  imports Sse
begin

text \<open>
  What the byte-level removal of a top-level \<open>usage\<close> member computes. The specification is the
  compact text of a JSON document given as a tree; on the text of any object the scanner of
  \<open>crates/busbar/src/proto/mod.rs\<close> agrees with removing the member from the tree.
\<close>

subsection \<open>Compact JSON texts\<close>

datatype json = JScalar bytes | JStr bytes | JArr "json list" | JObj "(bytes \<times> json) list"

fun join_comma :: "bytes list \<Rightarrow> bytes" where
  "join_comma [] = []"
| "join_comma [x] = x"
| "join_comma (x # xs) = x @ CHR '','' # join_comma xs"

definition quoted :: "bytes \<Rightarrow> bytes" where
  "quoted b = QUOTE # b @ [QUOTE]"

fun jtext :: "json \<Rightarrow> bytes" where
  "jtext (JScalar b) = b"
| "jtext (JStr b) = quoted b"
| "jtext (JArr vs) = CHR ''['' # join_comma (map jtext vs) @ '']''"
| "jtext (JObj ms) = CHR ''{'' # join_comma (map (\<lambda>(k, v). quoted k @ CHR '':'' # jtext v) ms) @ ''}''"

text \<open>The body of a string as it is escaped on the wire, and a scalar: a number or a literal.\<close>

fun body_ok :: "bytes \<Rightarrow> bool" where
  "body_ok [] = True"
| "body_ok (c # s) = (if c = BACKSLASH then (case s of [] \<Rightarrow> False | _ # s' \<Rightarrow> body_ok s') else c \<noteq> QUOTE \<and> body_ok s)"

definition scalar_ok :: "bytes \<Rightarrow> bool" where
  "scalar_ok b \<longleftrightarrow> b \<noteq> [] \<and> (\<forall>c \<in> set b. scalar_byte c \<and> c \<notin> {QUOTE, CHR ''{'', CHR ''['', CHR '':''})"

fun json_ok :: "json \<Rightarrow> bool" where
  "json_ok (JScalar b) = scalar_ok b"
| "json_ok (JStr b) = body_ok b"
| "json_ok (JArr vs) = (\<forall>v \<in> set vs. json_ok v)"
| "json_ok (JObj ms) = (\<forall>(k, v) \<in> set ms. body_ok k \<and> json_ok v)"

subsection \<open>Texts the nesting scan passes over\<close>

lemma string_body_end_body: "body_ok b \<Longrightarrow> string_body_end (b @ QUOTE # s) i = Some (i + length b + 1)"
  by (induction b arbitrary: i rule: body_ok.induct) (auto split: list.splits if_splits)

lemma scan_quoted: "body_ok b \<Longrightarrow> scan_json_string_end (pre @ quoted b @ post) (length pre) = Some (length pre + length (quoted b))"
  using string_body_end_body [of b post "length pre + 1"] by (simp add: scan_json_string_end_def quoted_def)

definition inert :: "bytes \<Rightarrow> bool" where
  "inert t \<longleftrightarrow> (\<forall>pre post d. 0 < d \<longrightarrow> nested_end (pre @ t @ post) (length pre) d = nested_end (pre @ t @ post) (length pre + length t) d)"

lemma inertD: "inert t \<Longrightarrow> 0 < d \<Longrightarrow> nested_end (pre @ t @ post) (length pre) d = nested_end (pre @ t @ post) (length pre + length t) d"
  by (simp add: inert_def)

lemma inert_Nil: "inert []"
  by (simp add: inert_def)

lemma inert_append: assumes "inert s" "inert t" shows "inert (s @ t)"
  unfolding inert_def
proof (intro allI impI)
  fix pre post :: bytes and d :: nat assume "0 < d"
  then show "nested_end (pre @ (s @ t) @ post) (length pre) d = nested_end (pre @ (s @ t) @ post) (length pre + length (s @ t)) d"
    using inertD [OF assms(1), of d pre "t @ post"] inertD [OF assms(2), of d "pre @ s" post] by (simp add: add.assoc)
qed

lemma nested_step: "nested_end (pre @ c # s) (length pre) d = (if c = QUOTE
     then (case scan_json_string_end (pre @ c # s) (length pre) of None \<Rightarrow> None | Some j \<Rightarrow> nested_end (pre @ c # s) j d)
     else if c \<in> {CHR ''{'', CHR ''[''} then nested_end (pre @ c # s) (length pre + 1) (d + 1)
     else if c \<in> {CHR ''}'', CHR '']''} then (if d - 1 = 0 then Some (length pre + 1) else nested_end (pre @ c # s) (length pre + 1) (d - 1))
     else nested_end (pre @ c # s) (length pre + 1) d)"
  by (subst nested_end.simps) (simp add: nth_append)

lemma inert_plain: "c \<notin> {QUOTE, CHR ''{'', CHR ''['', CHR ''}'', CHR '']''} \<Longrightarrow> inert [c]"
  unfolding inert_def by (auto simp: nested_step)

lemma inert_plains: "\<forall>c \<in> set t. c \<notin> {QUOTE, CHR ''{'', CHR ''['', CHR ''}'', CHR '']''} \<Longrightarrow> inert t"
proof (induction t)
  case (Cons c t)
  then show ?case using inert_append [OF inert_plain, of c t] by simp
qed (rule inert_Nil)

lemma inert_quoted: "body_ok b \<Longrightarrow> inert (quoted b)"
  unfolding inert_def
proof (intro allI impI)
  fix pre post :: bytes and d :: nat assume "body_ok b"
  then have "scan_json_string_end (pre @ QUOTE # b @ QUOTE # post) (length pre) = Some (length pre + length (quoted b))"
    using scan_quoted [of b pre post] by (simp add: quoted_def)
  then show "nested_end (pre @ quoted b @ post) (length pre) d = nested_end (pre @ quoted b @ post) (length pre + length (quoted b)) d"
    by (simp add: quoted_def nested_step)
qed

lemma nested_bracketed:
  assumes "inert t" "a \<in> {CHR ''{'', CHR ''[''}" "z \<in> {CHR ''}'', CHR '']''}"
  shows "nested_end (pre @ (a # t @ [z]) @ post) (length pre) d = (if d = 0 then Some (length pre + length (a # t @ [z]))
    else nested_end (pre @ (a # t @ [z]) @ post) (length pre + length (a # t @ [z])) d)"
proof -
  let ?b = "pre @ (a # t @ [z]) @ post"
  have "nested_end ?b (length pre) d = nested_end ?b (length pre + 1) (d + 1)" using assms(2) by (auto simp: nested_step)
  also have "\<dots> = nested_end ?b (length pre + 1 + length t) (d + 1)" using inertD [OF assms(1), of "d + 1" "pre @ [a]" "z # post"] by simp
  also have "\<dots> = (if d = 0 then Some (length pre + length (a # t @ [z])) else nested_end ?b (length pre + length (a # t @ [z])) d)"
    using nested_step [of "pre @ a # t" z post "d + 1"] assms(3) by auto
  finally show ?thesis .
qed

lemma inert_bracketed: "inert t \<Longrightarrow> a \<in> {CHR ''{'', CHR ''[''} \<Longrightarrow> z \<in> {CHR ''}'', CHR '']''} \<Longrightarrow> inert (a # t @ [z])"
  unfolding inert_def using nested_bracketed [unfolded inert_def] by (metis not_gr_zero)

lemma inert_join: "\<forall>x \<in> set xs. inert x \<Longrightarrow> inert (join_comma xs)"
proof (induction xs rule: join_comma.induct)
  case (3 x y ys)
  then show ?case using inert_append [of x "[CHR '',''] @ join_comma (y # ys)"] inert_append [OF inert_plain, of "CHR '',''" "join_comma (y # ys)"] by simp
qed (auto simp: inert_Nil)

lemma inert_colon: "inert t \<Longrightarrow> inert (CHR '':'' # t)"
  using inert_append [OF inert_plain, of "CHR '':''" t] by simp

lemma inert_jtext: "json_ok v \<Longrightarrow> inert (jtext v)"
proof (induction v)
  case (JScalar b)
  then show ?case by (auto simp: scalar_ok_def scalar_byte_def intro!: inert_plains)
next
  case (JStr b)
  then show ?case by (simp add: inert_quoted)
next
  case (JArr vs)
  then show ?case by (auto intro!: inert_bracketed inert_join)
next
  case (JObj ms)
  have "inert (quoted k @ CHR '':'' # jtext v)" if "(k, v) \<in> set ms" for k v
    using JObj that by (intro inert_append inert_quoted inert_colon) (fastforce simp: snds.simps)+
  then show ?case by (auto intro!: inert_bracketed inert_join)
qed

subsection \<open>The scan of one value and of one member\<close>

lemma jtext_start: assumes "json_ok v" shows "jtext v \<noteq> []" "\<not> ascii_whitespace (hd (jtext v))"
proof -
  have "b \<noteq> [] \<and> \<not> ascii_whitespace (hd b)" if "scalar_ok b" for b
    using that hd_in_set [of b] by (auto simp: scalar_ok_def scalar_byte_def)
  then show "jtext v \<noteq> []" "\<not> ascii_whitespace (hd (jtext v))"
    using assms by (cases v; simp add: quoted_def ascii_whitespace_def)+
qed

lemma skip_ws_none: "s \<noteq> [] \<Longrightarrow> \<not> ascii_whitespace (hd s) \<Longrightarrow> skip_ws (pre @ s) (length pre) = length pre"
  by (cases s) (auto simp: skip_ws_def)

lemma nth_start: "s \<noteq> [] \<Longrightarrow> (pre @ s) ! length pre = hd s"
  by (cases s) auto

lemma scan_value:
  assumes "json_ok v" "z \<in> {CHR '','', CHR ''}''}"
  shows "scan_json_value_end (pre @ jtext v @ z # post) (length pre) = Some (length pre + length (jtext v))"
proof -
  let ?b = "pre @ jtext v @ z # post"
  have w: "skip_ws ?b (length pre) = length pre" using jtext_start [OF assms(1)] by (intro skip_ws_none) auto
  have f: "?b ! length pre = hd (jtext v)" "\<not> length ?b \<le> length pre" using jtext_start [OF assms(1)] by (simp_all add: nth_start)
  show ?thesis
  proof (cases v)
    case (JScalar b)
    then have b: "b \<noteq> []" "\<forall>c \<in> set b. scalar_byte c" "hd b \<noteq> QUOTE" "hd b \<notin> {CHR ''{'', CHR ''[''}"
      using assms(1) by (auto simp: scalar_ok_def dest: hd_in_set)
    have "\<not> scalar_byte z" using assms(2) by (auto simp: scalar_byte_def)
    then have "takeWhile scalar_byte (b @ z # post) = b" using b(2) by (simp add: takeWhile_append2)
    then show ?thesis using w f b JScalar by (simp add: scan_json_value_end_def Let_def)
  next
    case (JStr b)
    then show ?thesis using w f scan_quoted [of b pre "z # post"] assms(1) by (simp add: scan_json_value_end_def quoted_def)
  next
    case (JArr vs)
    then have "inert (join_comma (map jtext vs))" using assms(1) by (auto intro!: inert_join inert_jtext)
    from nested_bracketed [OF this, of "CHR ''[''" "CHR '']''" pre "z # post" 0] show ?thesis
      using w f JArr by (simp add: scan_json_value_end_def Let_def)
  next
    case (JObj ms)
    have "inert (quoted k @ CHR '':'' # jtext v)" if "(k, v) \<in> set ms" for k v
      using assms(1) JObj that by (intro inert_append inert_quoted inert_colon inert_jtext) auto
    then have "inert (join_comma (map (\<lambda>(k, v). quoted k @ CHR '':'' # jtext v) ms))" by (auto intro!: inert_join)
    from nested_bracketed [OF this, of "CHR ''{''" "CHR ''}''" pre "z # post" 0] show ?thesis
      using w f JObj by (simp add: scan_json_value_end_def Let_def)
  qed
qed

definition mtext :: "bytes \<times> json \<Rightarrow> bytes" where
  "mtext = (\<lambda>(k, v). quoted k @ CHR '':'' # jtext v)"

definition member_ok :: "bytes \<times> json \<Rightarrow> bool" where
  "member_ok = (\<lambda>(k, v). body_ok k \<and> json_ok v)"

abbreviation is_usage :: "bytes \<times> json \<Rightarrow> bool" where
  "is_usage m \<equiv> fst m = ''usage''"

lemma scan_member:
  assumes "member_ok m" "z \<in> {CHR '','', CHR ''}''}"
  shows "usage_scan (pre @ mtext m @ z # post) (length pre) 0 True r = (if is_usage m \<and> r \<noteq> None then None
    else usage_scan (pre @ mtext m @ z # post) (length pre + length (mtext m)) 0 False
      (if is_usage m then Some (length pre, length pre + length (mtext m)) else r))"
proof -
  obtain k v where m: "m = (k, v)" by (cases m)
  have ok: "body_ok k" "json_ok v" using assms(1) by (simp_all add: member_ok_def m)
  let ?b = "pre @ mtext m @ z # post" and ?e = "length pre + length (quoted k)"
  have q: "scan_json_string_end ?b (length pre) = Some ?e" using scan_quoted [OF ok(1), of pre "CHR '':'' # jtext v @ z # post"] by (simp add: mtext_def m)
  have s: "slice (length pre) ?e ?b = quoted k" using slice_middle [of "length pre" pre ?e "quoted k"] by (simp add: mtext_def m)
  have u: "quoted k = USAGE_KEY \<longleftrightarrow> is_usage m" by (auto simp: quoted_def USAGE_KEY_def m)
  have w: "skip_ws ?b ?e = ?e" using skip_ws_none [of "CHR '':'' # jtext v @ z # post" "pre @ quoted k"] by (simp add: mtext_def m ascii_whitespace_def)
  have c: "byte_get ?b ?e = Some (CHR '':'')"
    using nth_start [of "CHR '':'' # jtext v @ z # post" "pre @ quoted k"] by (simp add: byte_get_def mtext_def m)
  have v: "scan_json_value_end ?b (?e + 1) = Some (length pre + length (mtext m))"
    using scan_value [OF ok(2) assms(2), of "pre @ quoted k @ '':''" post] by (simp add: mtext_def m)
  have i: "length pre < length ?b" "?b ! length pre = QUOTE" by (simp_all add: mtext_def m quoted_def nth_append)
  show ?thesis
    by (subst usage_scan.simps) (simp only: i if_True q option.case Let_def s u w c v simp_thms if_not_P [OF notI] refl if_cancel not_True_eq_False if_False)
qed

lemma scan_comma: "usage_scan (pre @ CHR '','' # post) (length pre) 0 e r = usage_scan (pre @ CHR '','' # post) (length pre + 1) 0 True r"
  by (subst usage_scan.simps) (simp add: nth_append)

lemma scan_close: "usage_scan (pre @ CHR ''}'' # post) (length pre) 0 e r = Some r"
  by (subst usage_scan.simps) (simp add: nth_append)

subsection \<open>The scan of an object\<close>

abbreviation members_text :: "(bytes \<times> json) list \<Rightarrow> bytes" where
  "members_text ms \<equiv> join_comma (map mtext ms)"

fun usage_ranges :: "(bytes \<times> json) list \<Rightarrow> nat \<Rightarrow> (nat \<times> nat) option \<Rightarrow> (nat \<times> nat) option option" where
  "usage_ranges [] i r = Some r"
| "usage_ranges (m # ms) i r = (if is_usage m \<and> r \<noteq> None then None
     else usage_ranges ms (i + length (mtext m) + 1) (if is_usage m then Some (i, i + length (mtext m)) else r))"

lemma scan_members:
  assumes "\<forall>m \<in> set ms. member_ok m" "ms \<noteq> []"
  shows "usage_scan (pre @ members_text ms @ CHR ''}'' # post) (length pre) 0 True r = usage_ranges ms (length pre) r"
  using assms
proof (induction ms arbitrary: pre r)
  case (Cons m ms)
  have ok: "member_ok m" using Cons.prems by simp
  show ?case
  proof (cases "ms = []")
    case True
    then show ?thesis using scan_member [OF ok, of "CHR ''}''" pre post r] scan_close [of "pre @ mtext m" post] by simp
  next
    case False
    let ?b = "pre @ mtext m @ CHR '','' # members_text ms @ CHR ''}'' # post"
    have t: "members_text (m # ms) = mtext m @ CHR '','' # members_text ms" using False by (cases ms) auto
    have "usage_scan ?b (length pre + length (mtext m)) 0 e r' = usage_ranges ms (length pre + length (mtext m) + 1) r'" for e r'
      using scan_comma [of "pre @ mtext m" "members_text ms @ CHR ''}'' # post" e r'] Cons.IH [of "pre @ mtext m @ '',''" r'] Cons.prems False
      by (simp add: add.assoc)
    then show ?thesis using scan_member [OF ok, of "CHR '',''" pre "members_text ms @ CHR ''}'' # post" r] unfolding t by (cases r) auto
  qed
qed simp

lemma ranges_none: "filter is_usage ms = [] \<Longrightarrow> usage_ranges ms i r = Some r"
  by (induction ms arbitrary: i) (auto split: if_splits)

lemma ranges_dup: "r \<noteq> None \<Longrightarrow> filter is_usage ms \<noteq> [] \<Longrightarrow> usage_ranges ms i r = None"
  by (induction ms arbitrary: i) (auto split: if_splits)

definition leading :: "(bytes \<times> json) list \<Rightarrow> bytes" where
  "leading ms = concat (map (\<lambda>m. mtext m @ '','') ms)"

lemma ranges_at:
  assumes "\<forall>m \<in> set as. \<not> is_usage m" "is_usage u"
  shows "usage_ranges (as @ u # bs) i None = (if filter is_usage bs = []
    then Some (Some (i + length (leading as), i + length (leading as) + length (mtext u))) else None)"
  using assms ranges_none ranges_dup by (induction as arbitrary: i) (auto simp: leading_def add.assoc)

lemma members_text_split: "ms \<noteq> [] \<Longrightarrow> members_text (as @ ms) = leading as @ members_text ms"
proof (induction as)
  case (Cons a as)
  then show ?case by (cases "as @ ms") (auto simp: leading_def)
qed (simp add: leading_def)

lemma leading_text: "as \<noteq> [] \<Longrightarrow> leading as = members_text as @ '',''"
proof (induction as)
  case (Cons a as)
  then show ?case by (cases as) (auto simp: leading_def)
qed simp

lemma jtext_obj: "jtext (JObj ms) = CHR ''{'' # members_text ms @ ''}''"
  by (simp add: mtext_def case_prod_beta)

lemmas [simp del] = jtext.simps(4)

lemma obj_open: "skip_ws (CHR ''{'' # s) 0 = 0" "byte_get (CHR ''{'' # s) 0 = Some (CHR ''{'')"
  by (simp_all add: skip_ws_def byte_get_def ascii_whitespace_def)

lemma strip_cut:
  assumes "usage_scan json 1 0 True None = Some (Some (start, stop))" "json = CHR ''{'' # leading as @ mtext u @ tail"
    and "start = 1 + length (leading as)" "stop = start + length (mtext u)" "tail \<noteq> []" "hd tail \<in> {CHR '','', CHR ''}''}"
  shows "strip_top_level_usage_member json = Some (if as \<noteq> [] then CHR ''{'' # members_text as @ tail
    else if hd tail = CHR '','' then CHR ''{'' # tl tail else CHR ''{'' # tail)"
proof -
  obtain c t where tl: "tail = c # t" "c \<in> {CHR '','', CHR ''}''}" using assms(5,6) by (cases tail) auto
  have w: "\<not> ascii_whitespace (CHR '','')" "\<not> ascii_whitespace c" using tl by (auto simp: ascii_whitespace_def)
  have m: "skip_ws json stop = stop" using skip_ws_none [of tail "CHR ''{'' # leading as @ mtext u"] w assms(2-4) tl by simp
  have g: "byte_get json stop = Some c" using nth_start [of tail "CHR ''{'' # leading as @ mtext u"] assms(2-4) tl by (simp add: byte_get_def)
  have sl: "slice 1 start json = leading as" using assms(2,3) by (simp add: slice_def)
  have d: "drop stop json = tail" "drop (stop + 1) json = t" using assms(2-4) tl by simp_all
  have j: "json = CHR ''{'' # leading as @ mtext u @ c # t" using assms(2) tl by simp
  show ?thesis
  proof (cases "as = []")
    case True
    then have "start = 1" "leading as = []" using assms(3) by (simp_all add: leading_def)
    moreover have "take 1 json = ''{''" unfolding j by simp
    ultimately show ?thesis using assms(1) True m g sl d tl obj_open unfolding strip_top_level_usage_member_def
      by (subst (1 2) j) (auto simp: Let_def slice_def)
  next
    case False
    then have l: "leading as = members_text as @ '',''" by (rule leading_text)
    have k: "start - length (takeWhile ascii_whitespace (rev (slice 1 start json))) = start" using sl l w by simp
    have b: "json ! (start - 1) = CHR '',''" "1 < start" using assms(2,3) l by (simp_all add: nth_append)
    have tk: "take (start - 1) json = CHR ''{'' # members_text as" using assms(2,3) l by simp
    have o: "skip_ws json 0 = 0" "byte_get json 0 = Some (CHR ''{'')" unfolding assms(2) by (rule obj_open)+
    show ?thesis using b tk d False unfolding strip_top_level_usage_member_def o Let_def add_0_left assms(1) option.case prod.case k by simp
  qed
qed

text \<open>
  Claim C23. Removing the top-level \<open>usage\<close> member of a streamed chunk is exact. On the compact text of
  any JSON object, however deeply nested and whatever its strings contain, the byte-level editor
  removes the member named \<open>usage\<close> with exactly one comma and changes nothing else when there is
  exactly one such member, and declines otherwise: a nested \<open>usage\<close>, or one inside a string, is never
  touched.
\<close>

theorem strip_usage_exact:
  assumes "json_ok (JObj ms)"
  shows "strip_top_level_usage_member (jtext (JObj ms)) = (if length (filter (\<lambda>m. fst m = ''usage'') ms) = 1
    then Some (jtext (JObj (filter (\<lambda>m. fst m \<noteq> ''usage'') ms))) else None)"
proof -
  have ok: "\<forall>m \<in> set ms. member_ok m" using assms by (auto simp: member_ok_def)
  have scan: "usage_scan (jtext (JObj ms)) 1 0 True None = usage_ranges ms 1 None"
    using scan_members [OF ok, of "''{''" "[]" None] scan_close [of "''{''" "[]"] by (cases ms) (auto simp: jtext_obj)
  show ?thesis
  proof (cases "filter is_usage ms")
    case Nil
    then show ?thesis using scan ranges_none [OF Nil] by (simp add: strip_top_level_usage_member_def jtext_obj obj_open)
  next
    case (Cons u us)
    then obtain as bs where ms: "ms = as @ u # bs" "\<forall>m \<in> set as. \<not> is_usage m" "is_usage u" "us = filter is_usage bs"
      by (auto simp: filter_eq_Cons_iff)
    show ?thesis
    proof (cases "us = []")
      case False
      then have "usage_ranges ms 1 None = None" using ranges_at [OF ms(2,3)] ms by simp
      then show ?thesis using scan False Cons by (simp add: strip_top_level_usage_member_def jtext_obj obj_open)
    next
      case True
      let ?tail = "(if bs = [] then [] else CHR '','' # members_text bs) @ ''}''"
      have r: "usage_ranges ms 1 None = Some (Some (1 + length (leading as), 1 + length (leading as) + length (mtext u)))"
        using ranges_at [OF ms(2,3)] ms True by simp
      have j: "jtext (JObj ms) = CHR ''{'' # leading as @ mtext u @ ?tail"
        using members_text_split [of "u # bs" as] ms(1) by (cases bs) (auto simp: jtext_obj)
      have "filter is_usage bs = []" using True ms(4) by simp
      then have nb: "\<forall>m \<in> set bs. \<not> is_usage m" unfolding filter_empty_conv .
      have f: "filter (\<lambda>m. fst m \<noteq> ''usage'') ms = as @ bs"
        using ms(2,3) nb unfolding ms(1) by simp
      have e: "members_text (as @ bs) = members_text as @ CHR '','' # members_text bs" if "as \<noteq> []" "bs \<noteq> []"
        using members_text_split [OF that(2)] leading_text [OF that(1)] by simp
      show ?thesis using strip_cut [OF scan [unfolded r] j refl refl] Cons True f e
        by (cases "as = []"; cases "bs = []") (simp_all add: jtext_obj)
    qed
  qed
qed

theorem strip_usage_exact_witness:
  "strip_top_level_usage_member (jtext (JObj [(''id'', JStr ''usage''), (''usage'', JObj [(''n'', JScalar ''3'')]), (''choices'', JArr [])]))
    = Some (jtext (JObj [(''id'', JStr ''usage''), (''choices'', JArr [])]))"
  using strip_usage_exact [of "[(''id'', JStr ''usage''), (''usage'', JObj [(''n'', JScalar ''3'')]), (''choices'', JArr [])]"]
  by (simp add: scalar_ok_def scalar_byte_def ascii_whitespace_def del: jtext.simps)

end
