(* ===== verification/JsonArray.thy ===== *)
theory JsonArray
  imports SseScan EventStream JsonStrip
begin

text \<open>
  The Gemini JSON-array reframer, \<open>GeminiJsonArrayFramer\<close> of
  \<open>crates/busbar/src/proto/gemini/mod.rs\<close>: server-sent events in, one streaming JSON array out. The JSON
  package is an argument: \<open>reparse\<close> parses a payload and displays the value again, \<open>status_json\<close> is the
  text of the error element.
\<close>

definition SSE_DONE_SENTINEL :: bytes where
  "SSE_DONE_SENTINEL = ''[DONE]''"

record JsonArrayFramer =
  ja_buf :: bytes
  ja_scanned :: nat
  ja_started :: bool
  ja_finished :: bool
  ja_aborted :: bool

definition ja_MAX_BUF :: nat where
  "ja_MAX_BUF = MAX_FRAME_BYTES"

definition ja_new :: JsonArrayFramer where
  "ja_new = \<lparr>ja_buf = [], ja_scanned = 0, ja_started = False, ja_finished = False, ja_aborted = False\<rparr>"

definition frame_payload :: "(bytes \<Rightarrow> bytes option) \<Rightarrow> bytes \<Rightarrow> bytes option" where
  "frame_payload reparse frame = (case parse_sse_frame frame of None \<Rightarrow> None
     | Some (et, data_str) \<Rightarrow> if data_str = [] \<or> data_str = SSE_DONE_SENTINEL then None else reparse data_str)"

definition ja_handle :: "(bytes \<Rightarrow> bytes option) \<Rightarrow> bool \<Rightarrow> bytes \<Rightarrow> bool \<times> bytes" where
  "ja_handle reparse started frame = (case frame_payload reparse frame of None \<Rightarrow> (started, [])
     | Some data \<Rightarrow> (True, (if started then '','' else ''['') @ data))"

definition ja_feed :: "(bytes \<Rightarrow> bytes option) \<Rightarrow> JsonArrayFramer \<Rightarrow> bytes \<Rightarrow> JsonArrayFramer \<times> bytes" where
  "ja_feed reparse s chunk = (if ja_aborted s \<or> ja_finished s then (s, [])
     else case sse_pass (ja_buf s @ chunk) (ja_scanned s) of (frames, left, scanned) \<Rightarrow>
       case run_frames (ja_handle reparse) (ja_started s) frames of (started, out) \<Rightarrow>
         (if ja_MAX_BUF < length left
          then s\<lparr>ja_started := started, ja_aborted := True, ja_buf := [], ja_scanned := 0\<rparr>
          else s\<lparr>ja_started := started, ja_buf := left, ja_scanned := scanned\<rparr>, out))"

definition finish_with_error :: "(nat \<Rightarrow> bytes \<Rightarrow> bytes \<Rightarrow> bytes) \<Rightarrow> nat \<Rightarrow> bytes \<Rightarrow> bytes \<Rightarrow> JsonArrayFramer \<Rightarrow> JsonArrayFramer \<times> bytes" where
  "finish_with_error status_json code status message s = (if ja_finished s then (s, [])
     else (s\<lparr>ja_finished := True, ja_started := True\<rparr>,
       (if ja_started s then '','' else ''['') @ status_json code message status @ '']''))"

definition GRPC_INTERNAL :: bytes where
  "GRPC_INTERNAL = ''INTERNAL''"

definition INTERNAL_ERROR_TEXT :: bytes where
  "INTERNAL_ERROR_TEXT = ''Internal error encountered.''"

definition ja_finish :: "(nat \<Rightarrow> bytes \<Rightarrow> bytes \<Rightarrow> bytes) \<Rightarrow> JsonArrayFramer \<Rightarrow> JsonArrayFramer \<times> bytes" where
  "ja_finish status_json s = (if ja_finished s then (s, [])
     else if ja_aborted s then finish_with_error status_json 500 GRPC_INTERNAL INTERNAL_ERROR_TEXT s
     else (s\<lparr>ja_finished := True\<rparr>, if ja_started s then '']'' else ''[]''))"

definition finish_for_translate :: "(nat \<Rightarrow> bytes \<Rightarrow> bytes \<Rightarrow> bytes) \<Rightarrow> bool \<Rightarrow> JsonArrayFramer \<Rightarrow> JsonArrayFramer \<times> bytes" where
  "finish_for_translate status_json translate_aborted s = (if ja_finished s then (s, [])
     else if translate_aborted \<or> ja_aborted s then finish_with_error status_json 500 GRPC_INTERNAL INTERNAL_ERROR_TEXT s
     else ja_finish status_json s)"

definition finish_with_server_error :: "(nat \<Rightarrow> bytes \<Rightarrow> bytes \<Rightarrow> bytes) \<Rightarrow> bytes \<Rightarrow> JsonArrayFramer \<Rightarrow> JsonArrayFramer \<times> bytes" where
  "finish_with_server_error status_json message s = finish_with_error status_json 500 GRPC_INTERNAL message s"

subsection \<open>The framer is a reassembler\<close>

interpretation ja: reassembler "ja_feed reparse" ja_buf ja_scanned "\<lambda>s. \<not> (ja_aborted s \<or> ja_finished s)" ja_started "ja_handle reparse" ja_MAX_BUF
  for reparse
  by unfold_locales (auto simp: ja_feed_def split: prod.splits if_splits)

definition payloads :: "(bytes \<Rightarrow> bytes option) \<Rightarrow> bytes list \<Rightarrow> bytes list" where
  "payloads reparse frames = List.map_filter (frame_payload reparse) frames"

lemma payloads_simps:
  "payloads reparse [] = []"
  "payloads reparse (f # fs) = (case frame_payload reparse f of None \<Rightarrow> payloads reparse fs | Some d \<Rightarrow> d # payloads reparse fs)"
  by (simp_all add: payloads_def map_filter_simps split: option.split)

text \<open>What has been emitted: nothing yet, or an array that is still open.\<close>

definition open_array :: "bytes list \<Rightarrow> bytes" where
  "open_array es = (if es = [] then [] else CHR ''['' # join_comma es)"

lemma join_comma_snoc: "es \<noteq> [] \<Longrightarrow> join_comma (es @ [d]) = join_comma es @ CHR '','' # d"
proof (induction es)
  case (Cons e es)
  then show ?case by (cases es) auto
qed simp

lemma open_array_snoc: "open_array es @ (if es \<noteq> [] then '','' else ''['') @ d = open_array (es @ [d])"
  by (simp add: open_array_def join_comma_snoc)

lemma ja_run:
  "run_frames (ja_handle reparse) (es \<noteq> []) fs = (started, out) \<Longrightarrow> open_array es @ out = open_array (es @ payloads reparse fs) \<and> started = (es @ payloads reparse fs \<noteq> [])"
proof (induction fs arbitrary: es out)
  case (Cons f fs)
  show ?case
  proof (cases "frame_payload reparse f")
    case None
    then have "ja_handle reparse (es \<noteq> []) f = (es \<noteq> [], [])" by (simp add: ja_handle_def)
    then show ?thesis using Cons None by (auto simp: payloads_simps split: prod.splits)
  next
    case (Some d)
    then have "ja_handle reparse (es \<noteq> []) f = (es @ [d] \<noteq> [], (if es \<noteq> [] then '','' else ''['') @ d)" by (simp add: ja_handle_def)
    then obtain o2 where o: "run_frames (ja_handle reparse) (es @ [d] \<noteq> []) fs = (started, o2)" "out = ((if es \<noteq> [] then '','' else ''['') @ d) @ o2"
      using Cons.prems by (auto split: prod.splits)
    have "open_array es @ out = open_array (es @ [d]) @ o2" unfolding o(2) by (simp add: open_array_snoc [symmetric])
    then show ?thesis using Cons.IH [OF o(1)] Some by (simp add: payloads_simps)
  qed
qed (simp add: payloads_simps)

lemma ja_feed_flags: "ja_feed reparse s c = (s', out) \<Longrightarrow> ja_finished s' = ja_finished s"
  by (auto simp: ja_feed_def split: prod.splits if_splits)

lemma ja_feed_all_flags: "feed_all (ja_feed reparse) s cs = (s', out) \<Longrightarrow> ja_finished s' = ja_finished s"
  by (induction cs arbitrary: s out) (auto split: prod.splits dest: ja_feed_flags)



end
