(* ===== verification/Translate.thy ===== *)
theory Translate
  imports ToolIds JsonArray
begin

text \<open>
  The response-stream translator, \<open>StreamTranslate\<close> of \<open>crates/busbar/src/proto/stream.rs\<close>: upstream bytes
  in, client bytes out. The protocol readers, writers and per-stream framings are trait objects in
  the source and records of operations here (\<open>Protocols\<close>), with their private states \<open>'d\<close>, \<open>'w\<close> and \<open>'f\<close>
  threaded through; a JSON value is \<open>'j\<close>, and the JSON, hexadecimal and CRC packages are fields. Two
  framings of the source are modelled in full: the inert default and the one of Bedrock clients. The
  instant of the first byte only feeds the latency figure a framing writes into a frame, and belongs
  to \<open>inject_streaming_metrics\<close>.
\<close>

subsection \<open>What the translator is built from\<close>

record ('v, 'j, 'd, 'w, 'f) Protocols =
  p_ingress :: string
  read_response_events :: "bytes \<Rightarrow> 'j \<Rightarrow> 'd \<Rightarrow> 'v IrStreamEvent list \<times> 'd"
  write_response_event :: "'w \<Rightarrow> 'v IrStreamEvent \<Rightarrow> (bytes \<times> 'j) option \<times> 'w"
  write_response_exception :: "CanonicalSignal \<Rightarrow> (bytes \<times> bytes) option"
  max_citations_per_delta :: "nat option"
  emit_done :: bool
  ingress_eventstream :: bool
  egress_eventstream :: bool
  same_proto :: bool
  on_egress_chunk :: "'f \<Rightarrow> 'j \<Rightarrow> 'j option \<times> 'j \<times> 'f"
  on_combined_stop_delta :: "'f \<Rightarrow> IrStopReason \<Rightarrow> string option \<Rightarrow> IrUsage \<Rightarrow> 'v IrStreamEvent list option \<times> 'f"
  on_usage_only_delta :: "'f \<Rightarrow> bool option \<times> 'f"
  on_finish :: "'f \<Rightarrow> 'v IrStreamEvent option \<times> 'f"
  inject_streaming_metrics :: "'f \<Rightarrow> bytes \<Rightarrow> 'j \<Rightarrow> 'j"
  abort_exception_type :: "'f \<Rightarrow> bytes option"
  folds_terminal_usage :: "'f \<Rightarrow> bool"
  set_include_usage :: "bool \<Rightarrow> 'f \<Rightarrow> 'f"
  suppress_same_proto_frame :: "'f \<Rightarrow> 'j \<Rightarrow> bool"
  strip_same_proto_usage :: "'f \<Rightarrow> 'j \<Rightarrow> bool"
  json_parse :: "bytes \<Rightarrow> 'j option"
  json_show :: "'j \<Rightarrow> bytes"
  json_to_vec :: "'j \<Rightarrow> bytes option"
  json_set_type :: "bytes \<Rightarrow> 'j \<Rightarrow> 'j"
  hexes :: hex_codec
  crc32 :: "bytes \<Rightarrow> nat"
  message_json :: "bytes \<Rightarrow> bytes option"

text \<open>The decoding state, and the translator: that state with the reassembly buffer around it.\<close>

record ('d, 'w, 'f) Translation =
  decode :: 'd
  framing :: 'f
  writing :: 'w
  tool_id_remap :: remap
  start_usage :: "IrUsage option"
  message_stopped :: bool
  last_usage :: "IrUsage option"
  terminal_error :: "string option"
  pending_terminal :: "(IrStopReason \<times> string option \<times> IrUsage) option"
  pending_stop :: bool

record ('d, 'w, 'f) StreamTranslate =
  buf :: bytes
  scanned :: nat
  aborted :: bool
  translation :: "('d, 'w, 'f) Translation"

definition MAX_BUF :: nat where
  "MAX_BUF = MAX_FRAME_BYTES"

definition STREAM_ABORT_DETAIL :: bytes where
  "STREAM_ABORT_DETAIL = ''The response stream was interrupted.''"

definition SSE_DONE_FRAME :: bytes where
  "SSE_DONE_FRAME = ''data: [DONE]'' @ [LF, LF]"

definition translate_build :: "'d \<Rightarrow> 'w \<Rightarrow> 'f \<Rightarrow> ('d, 'w, 'f) StreamTranslate" where
  "translate_build d w f = \<lparr>buf = [], scanned = 0, aborted = False,
     translation = \<lparr>decode = d, framing = f, writing = w, tool_id_remap = [], start_usage = None, message_stopped = False,
       last_usage = None, terminal_error = None, pending_terminal = None, pending_stop = False\<rparr>\<rparr>"

definition set_client_include_usage ::
  "('v, 'j, 'd, 'w, 'f) Protocols \<Rightarrow> bool \<Rightarrow> ('d, 'w, 'f) StreamTranslate \<Rightarrow> ('d, 'w, 'f) StreamTranslate" where
  "set_client_include_usage p include t =
     t\<lparr>translation := (translation t)\<lparr>framing := set_include_usage p include (framing (translation t))\<rparr>\<rparr>"

subsection \<open>Emitting an event\<close>

definition emit_ir_event ::
  "('v, 'j, 'd, 'w, 'f) Protocols \<Rightarrow> 'v IrStreamEvent \<Rightarrow> ('d, 'w, 'f) Translation \<Rightarrow> ('d, 'w, 'f) Translation \<times> bytes" where
  "emit_ir_event p ev s = (case write_response_event p (writing s) ev of (written, w) \<Rightarrow>
     (let s = s\<lparr>writing := w\<rparr> in case written of None \<Rightarrow> (s, [])
       | Some (out_et, out_data) \<Rightarrow>
         if ingress_eventstream p
         then let data = inject_streaming_metrics p (framing s) out_et out_data;
                  payload = (case json_to_vec p data of Some b \<Rightarrow> b | None \<Rightarrow> [])
           in (s, encode_frame (crc32 p) out_et payload)
         else case on_egress_chunk p (framing s) out_data of (trailing, data, f) \<Rightarrow>
           (s\<lparr>framing := f\<rparr>, reframe_sse out_et (json_show p data)
              @ (case trailing of Some t \<Rightarrow> reframe_sse out_et (json_show p t) | None \<Rightarrow> []))))"

datatype 'v action = Emit "'v IrStreamEvent" | RaiseException bytes bytes

fun act :: "('v, 'j, 'd, 'w, 'f) Protocols \<Rightarrow> 'v action \<Rightarrow> ('d, 'w, 'f) Translation \<Rightarrow> ('d, 'w, 'f) Translation \<times> bytes" where
  "act p (Emit ev) s = emit_ir_event p ev s"
| "act p (RaiseException exc message) s = (s, encode_exception_frame (crc32 p) (message_json p) exc message)"

fun act_all :: "('v, 'j, 'd, 'w, 'f) Protocols \<Rightarrow> 'v action list \<Rightarrow> ('d, 'w, 'f) Translation \<Rightarrow> ('d, 'w, 'f) Translation \<times> bytes" where
  "act_all p [] s = (s, [])"
| "act_all p (a # as) s = (case act p a s of (s1, o1) \<Rightarrow> case act_all p as s1 of (s2, o2) \<Rightarrow> (s2, o1 @ o2))"

subsection \<open>One event\<close>

definition zero_usage :: IrUsage where
  "zero_usage = \<lparr>input_tokens = 0, output_tokens = 0, cache_creation_input_tokens = None, cache_read_input_tokens = None\<rparr>"

definition or_else :: "'a option \<Rightarrow> 'a option \<Rightarrow> 'a option" where
  "or_else a b = (if a = None then b else a)"

definition backfill :: "IrUsage option \<Rightarrow> IrUsage \<Rightarrow> IrUsage" where
  "backfill start usage = (case start of None \<Rightarrow> usage | Some st \<Rightarrow> usage
     \<lparr>input_tokens := if input_tokens usage = 0 then input_tokens st else input_tokens usage,
      cache_creation_input_tokens := or_else (cache_creation_input_tokens usage) (cache_creation_input_tokens st),
      cache_read_input_tokens := or_else (cache_read_input_tokens usage) (cache_read_input_tokens st)\<rparr>)"

definition tap_usage :: "IrUsage \<Rightarrow> IrUsage option \<Rightarrow> IrUsage" where
  "tap_usage usage prev = (let acc = (case prev of Some u \<Rightarrow> u | None \<Rightarrow> zero_usage) in acc
     \<lparr>input_tokens := if input_tokens usage \<noteq> 0 then input_tokens usage else input_tokens acc,
      output_tokens := if output_tokens usage \<noteq> 0 then output_tokens usage else output_tokens acc,
      cache_creation_input_tokens := or_else (cache_creation_input_tokens usage) (cache_creation_input_tokens acc),
      cache_read_input_tokens := or_else (cache_read_input_tokens usage) (cache_read_input_tokens acc)\<rparr>)"

definition merge_trailing_usage :: "IrUsage \<Rightarrow> IrUsage \<Rightarrow> IrUsage" where
  "merge_trailing_usage acc trailing = acc
     \<lparr>input_tokens := if 0 < input_tokens trailing then input_tokens trailing else input_tokens acc,
      output_tokens := if 0 < output_tokens trailing then output_tokens trailing else output_tokens acc,
      cache_creation_input_tokens := or_else (cache_creation_input_tokens trailing) (cache_creation_input_tokens acc),
      cache_read_input_tokens := or_else (cache_read_input_tokens trailing) (cache_read_input_tokens acc)\<rparr>"

definition error_text :: "CanonicalSignal \<Rightarrow> string" where
  "error_text err = (case provider_signal err of Some t \<Rightarrow> t | None \<Rightarrow> ''upstream stream error'')"

text \<open>The part of \<open>translate_event\<close> that rewrites the event and taps usage and errors from it.\<close>

fun prepare :: "('v, 'j, 'd, 'w, 'f) Protocols \<Rightarrow> 'v IrStreamEvent \<Rightarrow> ('d, 'w, 'f) Translation
    \<Rightarrow> 'v IrStreamEvent \<times> ('d, 'w, 'f) Translation" where
  "prepare p (MessageStart role usage ident created model) s =
     (MessageStart role usage None None model, s\<lparr>start_usage := or_else usage (start_usage s)\<rparr>)"
| "prepare p (MessageDelta reason seq usage) s =
     (let usage' = backfill (start_usage s) usage in (MessageDelta reason seq usage', s\<lparr>last_usage := Some (tap_usage usage' (last_usage s))\<rparr>))"
| "prepare p (StreamError err) s = (StreamError err, s\<lparr>terminal_error := Some (error_text err)\<rparr>)"
| "prepare p ev s = (case remap_event (hexes p) (p_ingress p) ev (tool_id_remap s) of (ev', m) \<Rightarrow> (ev', s\<lparr>tool_id_remap := m\<rparr>))"

fun chunks_of :: "nat \<Rightarrow> 'a list \<Rightarrow> 'a list list" where
  "chunks_of n xs = (if xs = [] \<or> n = 0 then [] else take n xs # chunks_of n (drop n xs))"

lemmas [simp del] = chunks_of.simps

definition fan_out :: "nat option \<Rightarrow> 'v IrStreamEvent \<Rightarrow> 'v action list" where
  "fan_out limit ev = (case (limit, ev) of (Some n, BlockDelta index (CitationsDelta cs)) \<Rightarrow>
       if n < length cs then map (\<lambda>c. Emit (BlockDelta index (CitationsDelta c))) (chunks_of n cs) else [Emit ev]
     | _ \<Rightarrow> [Emit ev])"

fun is_message_delta :: "'v IrStreamEvent \<Rightarrow> bool" where
  "is_message_delta (MessageDelta reason seq usage) = True"
| "is_message_delta ev = False"

text \<open>The tail of the loop body: the ordering guard, the stop flag and the citation fan-out.\<close>

definition emit_ordered :: "('v, 'j, 'd, 'w, 'f) Protocols \<Rightarrow> 'v IrStreamEvent \<Rightarrow> ('d, 'w, 'f) Translation
    \<Rightarrow> 'v action list \<times> ('d, 'w, 'f) Translation" where
  "emit_ordered p ev s = (if message_stopped s \<and> is_message_delta ev then ([], s)
     else (fan_out (max_citations_per_delta p) ev, if ev = MessageStop then s\<lparr>message_stopped := True\<rparr> else s))"

definition usage_only :: "('v, 'j, 'd, 'w, 'f) Protocols \<Rightarrow> 'v IrStreamEvent \<Rightarrow> ('d, 'w, 'f) Translation
    \<Rightarrow> 'v action list \<times> ('d, 'w, 'f) Translation" where
  "usage_only p ev s = (case ev of MessageDelta None seq usage \<Rightarrow>
       (case on_usage_only_delta p (framing s) of (verdict, f) \<Rightarrow>
          (let s = s\<lparr>framing := f\<rparr> in case verdict of Some b \<Rightarrow> (if b then [Emit ev] else [], s) | None \<Rightarrow> emit_ordered p ev s))
     | _ \<Rightarrow> emit_ordered p ev s)"

definition fold_terminal :: "('v, 'j, 'd, 'w, 'f) Protocols \<Rightarrow> 'v IrStreamEvent \<Rightarrow> ('d, 'w, 'f) Translation
    \<Rightarrow> 'v action list \<times> ('d, 'w, 'f) Translation" where
  "fold_terminal p ev s = (if folds_terminal_usage p (framing s)
     then (case ev of
         MessageDelta (Some reason) seq usage \<Rightarrow> ([], s\<lparr>pending_terminal := Some (case pending_terminal s of
             Some (r, q, acc) \<Rightarrow> (r, q, merge_trailing_usage acc usage) | None \<Rightarrow> (reason, seq, usage))\<rparr>)
       | MessageStop \<Rightarrow> (if pending_terminal s \<noteq> None then ([], s\<lparr>pending_stop := True\<rparr>) else usage_only p ev s)
       | MessageDelta None seq usage \<Rightarrow> (case pending_terminal s of
             Some (r, q, acc) \<Rightarrow> ([], s\<lparr>pending_terminal := Some (r, q, merge_trailing_usage acc usage)\<rparr>)
           | None \<Rightarrow> usage_only p ev s)
       | _ \<Rightarrow> usage_only p ev s)
     else usage_only p ev s)"

definition combined_stop :: "('v, 'j, 'd, 'w, 'f) Protocols \<Rightarrow> 'v IrStreamEvent \<Rightarrow> ('d, 'w, 'f) Translation
    \<Rightarrow> 'v action list \<times> ('d, 'w, 'f) Translation" where
  "combined_stop p ev s = (case ev of MessageDelta (Some reason) seq usage \<Rightarrow>
       (case on_combined_stop_delta p (framing s) reason seq usage of (events, f) \<Rightarrow>
          (let s = s\<lparr>framing := f\<rparr> in case events of Some es \<Rightarrow> (map Emit es, s) | None \<Rightarrow> fold_terminal p ev s))
     | _ \<Rightarrow> fold_terminal p ev s)"

definition route :: "('v, 'j, 'd, 'w, 'f) Protocols \<Rightarrow> 'v IrStreamEvent \<Rightarrow> ('d, 'w, 'f) Translation
    \<Rightarrow> 'v action list \<times> ('d, 'w, 'f) Translation" where
  "route p ev s = (case (if ingress_eventstream p then (case ev of StreamError err \<Rightarrow> write_response_exception p err | _ \<Rightarrow> None) else None) of
       Some (exc, message) \<Rightarrow> ([RaiseException exc message], s)
     | None \<Rightarrow> combined_stop p ev s)"

definition translate_one :: "('v, 'j, 'd, 'w, 'f) Protocols \<Rightarrow> 'v IrStreamEvent \<Rightarrow> ('d, 'w, 'f) Translation
    \<Rightarrow> ('d, 'w, 'f) Translation \<times> bytes" where
  "translate_one p ev s = (case prepare p ev s of (ev', s') \<Rightarrow> case route p ev' s' of (as, s'') \<Rightarrow> act_all p as s'')"

fun translate_events :: "('v, 'j, 'd, 'w, 'f) Protocols \<Rightarrow> 'v IrStreamEvent list \<Rightarrow> ('d, 'w, 'f) Translation
    \<Rightarrow> ('d, 'w, 'f) Translation \<times> bytes" where
  "translate_events p [] s = (s, [])"
| "translate_events p (ev # evs) s = (case translate_one p ev s of (s1, o1) \<Rightarrow> case translate_events p evs s1 of (s2, o2) \<Rightarrow> (s2, o1 @ o2))"

definition translate_event :: "('v, 'j, 'd, 'w, 'f) Protocols \<Rightarrow> bytes \<Rightarrow> 'j \<Rightarrow> ('d, 'w, 'f) Translation
    \<Rightarrow> ('d, 'w, 'f) Translation \<times> bytes" where
  "translate_event p et data s = (case read_response_events p et data (decode s) of (evs, d) \<Rightarrow> translate_events p evs (s\<lparr>decode := d\<rparr>))"

subsection \<open>The same-protocol side channel\<close>

fun extract_one :: "'v IrStreamEvent \<Rightarrow> ('d, 'w, 'f) Translation \<Rightarrow> ('d, 'w, 'f) Translation" where
  "extract_one (MessageStart role (Some u) ident created model) s = s\<lparr>start_usage := Some u\<rparr>"
| "extract_one (StreamError err) s = s\<lparr>terminal_error := Some (case provider_signal err of Some t \<Rightarrow> t | None \<Rightarrow> ''upstream stream error'')\<rparr>"
| "extract_one (MessageDelta reason seq usage) s =
     (let inp = (case start_usage s of Some st \<Rightarrow> if input_tokens usage = 0 then input_tokens st else input_tokens usage | None \<Rightarrow> input_tokens usage);
          cc = (case start_usage s of Some st \<Rightarrow> if cache_creation_input_tokens usage = None then cache_creation_input_tokens st
                  else cache_creation_input_tokens usage | None \<Rightarrow> cache_creation_input_tokens usage);
          cr = (case start_usage s of Some st \<Rightarrow> if cache_read_input_tokens usage = None then cache_read_input_tokens st
                  else cache_read_input_tokens usage | None \<Rightarrow> cache_read_input_tokens usage);
          acc = (case last_usage s of Some u \<Rightarrow> u | None \<Rightarrow> zero_usage);
          acc = (if inp \<noteq> 0 then acc\<lparr>input_tokens := inp\<rparr> else acc);
          acc = (if output_tokens usage \<noteq> 0 then acc\<lparr>output_tokens := output_tokens usage\<rparr> else acc);
          acc = (if cc \<noteq> None then acc\<lparr>cache_creation_input_tokens := cc\<rparr> else acc);
          acc = (if cr \<noteq> None then acc\<lparr>cache_read_input_tokens := cr\<rparr> else acc)
      in s\<lparr>last_usage := Some acc\<rparr>)"
| "extract_one ev s = s"

definition extract_usage_only :: "('v, 'j, 'd, 'w, 'f) Protocols \<Rightarrow> bytes \<Rightarrow> 'j \<Rightarrow> ('d, 'w, 'f) Translation
    \<Rightarrow> ('d, 'w, 'f) Translation" where
  "extract_usage_only p et data s = (case read_response_events p et data (decode s) of (evs, d) \<Rightarrow> foldl (\<lambda>s ev. extract_one ev s) (s\<lparr>decode := d\<rparr>) evs)"

subsection \<open>Feeding upstream bytes\<close>

text \<open>
  One frame of the loop. The loop's variables are the output and \<open>emit_from\<close>, where the bytes not
  yet copied verbatim begin; in the same-protocol mode only a suppressed or rewritten frame flushes.
\<close>

definition flush_run :: "bytes \<Rightarrow> nat \<Rightarrow> nat \<Rightarrow> bytes" where
  "flush_run b emit_from frame_start = (if emit_from < frame_start then slice emit_from frame_start b else [])"

definition sse_step ::
  "('v, 'j, 'd, 'w, 'f) Protocols \<Rightarrow> bytes \<Rightarrow> ('d, 'w, 'f) Translation \<times> bytes \<times> nat \<Rightarrow> nat \<times> nat \<Rightarrow> ('d, 'w, 'f) Translation \<times> bytes \<times> nat" where
  "sse_step p b = (\<lambda>(s, out, emit_from) (frame_start, stop). (let frame = slice frame_start stop b in
     case parse_sse_frame frame of None \<Rightarrow> (s, out, emit_from)
     | Some (et, data_str) \<Rightarrow> if data_str = [] \<or> data_str = SSE_DONE_SENTINEL then (s, out, emit_from)
       else case json_parse p data_str of None \<Rightarrow> (s, out, emit_from)
         | Some data \<Rightarrow> if same_proto p
             then let s = extract_usage_only p et data s
               in if suppress_same_proto_frame p (framing s) data then (s, out @ flush_run b emit_from frame_start, stop)
                  else if strip_same_proto_usage p (framing s) data
                  then (s, out @ flush_run b emit_from frame_start @ rewrite_frame_strip_usage frame data_str, stop)
                  else (s, out, emit_from)
             else case translate_event p et data s of (s, o1) \<Rightarrow> (s, out @ o1, emit_from)))"

definition abort_translate :: "('d, 'w, 'f) StreamTranslate \<Rightarrow> ('d, 'w, 'f) StreamTranslate" where
  "abort_translate t = t\<lparr>aborted := True, buf := [], scanned := 0\<rparr>"

definition feed_sse :: "('v, 'j, 'd, 'w, 'f) Protocols \<Rightarrow> bytes \<Rightarrow> ('d, 'w, 'f) StreamTranslate \<Rightarrow> ('d, 'w, 'f) StreamTranslate \<times> bytes" where
  "feed_sse p b t = (case frame_spans b (scanned t) 0 of (spans, scanned', consumed) \<Rightarrow>
     case foldl (sse_step p b) (translation t, [], 0) spans of (s, out, emit_from) \<Rightarrow>
       (let out = (if same_proto p \<and> emit_from < consumed then out @ slice emit_from consumed b else out);
            left = drop consumed b;
            t = t\<lparr>buf := left, scanned := if 0 < consumed then length left else scanned', translation := s\<rparr>
        in (if MAX_BUF < length left then abort_translate t else t, out)))"

fun event_frames :: "('v, 'j, 'd, 'w, 'f) Protocols \<Rightarrow> (bytes \<times> bytes) list \<Rightarrow> ('d, 'w, 'f) Translation \<Rightarrow> ('d, 'w, 'f) Translation \<times> bytes" where
  "event_frames p [] s = (s, [])"
| "event_frames p ((et, payload) # fs) s = (case json_parse p payload of None \<Rightarrow> event_frames p fs s
     | Some data \<Rightarrow> if same_proto p then event_frames p fs (extract_usage_only p et (json_set_type p et data) s)
         else case translate_event p et (json_set_type p et data) s of (s1, o1) \<Rightarrow> case event_frames p fs s1 of (s2, o2) \<Rightarrow> (s2, o1 @ o2))"

definition feed_eventstream :: "('v, 'j, 'd, 'w, 'f) Protocols \<Rightarrow> bytes \<Rightarrow> ('d, 'w, 'f) StreamTranslate \<Rightarrow> ('d, 'w, 'f) StreamTranslate \<times> bytes" where
  "feed_eventstream p b t = (case drain_frames_checked b (if same_proto p then Some [] else None) of (frames, status, _, left, sink) \<Rightarrow>
     case event_frames p frames (translation t) of (s, out) \<Rightarrow>
       (let t = t\<lparr>buf := left, translation := s\<rparr>
        in (if status = MalformedPrelude \<or> MAX_BUF < length left then abort_translate t else t,
            (case sink of Some verbatim \<Rightarrow> verbatim | None \<Rightarrow> []) @ out)))"

definition feed :: "('v, 'j, 'd, 'w, 'f) Protocols \<Rightarrow> ('d, 'w, 'f) StreamTranslate \<Rightarrow> bytes \<Rightarrow> ('d, 'w, 'f) StreamTranslate \<times> bytes" where
  "feed p t chunk = (if aborted t then (t, [])
     else if egress_eventstream p then feed_eventstream p (buf t @ chunk) t else feed_sse p (buf t @ chunk) t)"

subsection \<open>The end of the stream\<close>

definition flush_terminal :: "('v, 'j, 'd, 'w, 'f) Protocols \<Rightarrow> ('d, 'w, 'f) Translation \<Rightarrow> ('d, 'w, 'f) Translation \<times> bytes" where
  "flush_terminal p s = (case pending_terminal s of None \<Rightarrow> (s, [])
     | Some (reason, seq, usage) \<Rightarrow> act_all p (Emit (MessageDelta (Some reason) seq usage) # (if pending_stop s then [Emit MessageStop] else []))
         (s\<lparr>pending_terminal := None\<rparr>))"

definition finish :: "('v, 'j, 'd, 'w, 'f) Protocols \<Rightarrow> ('d, 'w, 'f) StreamTranslate \<Rightarrow> ('d, 'w, 'f) StreamTranslate \<times> bytes" where
  "finish p t = (let s = translation t; terminator = (if emit_done p then SSE_DONE_FRAME else []) in
     if aborted t
     then (case abort_exception_type p (framing s) of
         Some exc \<Rightarrow> (t, encode_exception_frame (crc32 p) (message_json p) exc STREAM_ABORT_DETAIL)
       | None \<Rightarrow> (case emit_ir_event p (StreamError \<lparr>sig_class = ServerError, provider_signal = Some STREAM_ABORT_DETAIL, retry_after = None\<rparr>) s of
           (s, out) \<Rightarrow> (t\<lparr>translation := s\<rparr>, out @ terminator)))
     else if same_proto p then (t, [])
     else case on_finish p (framing s) of (trailing, f) \<Rightarrow>
       case act_all p (case trailing of Some ev \<Rightarrow> [Emit ev] | None \<Rightarrow> []) (s\<lparr>framing := f\<rparr>) of (s, o1) \<Rightarrow>
       case flush_terminal p s of (s, o2) \<Rightarrow> (t\<lparr>translation := s\<rparr>, o1 @ o2 @ terminator))"

subsection \<open>Framings\<close>

record bedrock_framing =
  emitted :: bool
  pending :: bool

definition bedrock_default :: bedrock_framing where
  "bedrock_default = \<lparr>emitted = False, pending = False\<rparr>"

definition has_usage :: "IrUsage \<Rightarrow> bool" where
  "has_usage u \<longleftrightarrow> input_tokens u \<noteq> 0 \<or> output_tokens u \<noteq> 0 \<or> or_zero (cache_read_input_tokens u) \<noteq> 0
     \<or> or_zero (cache_creation_input_tokens u) \<noteq> 0"

definition bedrock_combined :: "bedrock_framing \<Rightarrow> IrStopReason \<Rightarrow> string option \<Rightarrow> IrUsage \<Rightarrow> 'v IrStreamEvent list option \<times> bedrock_framing" where
  "bedrock_combined f reason seq usage = (let stop = MessageDelta (Some reason) seq zero_usage in
     if emitted f then (Some [stop], f)
     else if has_usage usage then (Some [stop, MessageDelta None seq usage], \<lparr>emitted = True, pending = False\<rparr>)
     else (Some [stop], f\<lparr>pending := True\<rparr>))"

definition bedrock_usage_only :: "bedrock_framing \<Rightarrow> bool option \<times> bedrock_framing" where
  "bedrock_usage_only f = (if emitted f then (Some False, f) else (Some True, \<lparr>emitted = True, pending = False\<rparr>))"

definition bedrock_finish :: "bedrock_framing \<Rightarrow> 'v IrStreamEvent option \<times> bedrock_framing" where
  "bedrock_finish f = (if \<not> pending f \<or> emitted f then (None, f)
     else (Some (MessageDelta None None zero_usage), \<lparr>emitted = True, pending = False\<rparr>))"

definition EXC_INTERNAL_SERVER :: bytes where
  "EXC_INTERNAL_SERVER = ''InternalServerException''"

text \<open>The framing a protocol's writer builds: Bedrock's, and the inert one of the protocols without a quirk.\<close>

definition with_bedrock_framing :: "('v, 'j, 'd, 'w, bedrock_framing) Protocols \<Rightarrow> ('v, 'j, 'd, 'w, bedrock_framing) Protocols" where
  "with_bedrock_framing p = p\<lparr>ingress_eventstream := True, on_combined_stop_delta := bedrock_combined,
     on_usage_only_delta := bedrock_usage_only, on_finish := bedrock_finish, folds_terminal_usage := (\<lambda>f. False),
     abort_exception_type := (\<lambda>f. Some EXC_INTERNAL_SERVER), on_egress_chunk := (\<lambda>f data. (None, data, f)),
     set_include_usage := (\<lambda>b f. f), suppress_same_proto_frame := (\<lambda>f data. False), strip_same_proto_usage := (\<lambda>f data. False)\<rparr>"

definition with_passthrough_framing :: "('v, 'j, 'd, 'w, 'f) Protocols \<Rightarrow> ('v, 'j, 'd, 'w, 'f) Protocols" where
  "with_passthrough_framing p = p\<lparr>on_egress_chunk := (\<lambda>f data. (None, data, f)), on_combined_stop_delta := (\<lambda>f r q u. (None, f)),
     on_usage_only_delta := (\<lambda>f. (None, f)), on_finish := (\<lambda>f. (None, f)), inject_streaming_metrics := (\<lambda>f et data. data),
     abort_exception_type := (\<lambda>f. None), folds_terminal_usage := (\<lambda>f. True), set_include_usage := (\<lambda>b f. f),
     suppress_same_proto_frame := (\<lambda>f data. False), strip_same_proto_usage := (\<lambda>f data. False)\<rparr>"

end
