(* ===== verification/TranslateRuns.thy ===== *)
theory TranslateRuns
  imports Translate
begin

text \<open>
  The translator over whole streams: the bulk copy of verbatim frames is the frame-by-frame one, the
  translator is a reassembler, so its output does not depend on chunk boundaries; a same-protocol
  stream is relayed byte for byte; both modes meter the same usage; and a Bedrock client sees exactly
  one usage frame.
\<close>

subsection \<open>Frame by frame\<close>

definition sse_handle :: "('v, 'j, 'd, 'w, 'f) Protocols \<Rightarrow> ('d, 'w, 'f) Translation \<Rightarrow> bytes \<Rightarrow> ('d, 'w, 'f) Translation \<times> bytes" where
  "sse_handle p s frame = (let verbatim = (if same_proto p then frame else []) in
     case parse_sse_frame frame of None \<Rightarrow> (s, verbatim)
     | Some (et, data_str) \<Rightarrow> if data_str = [] \<or> data_str = SSE_DONE_SENTINEL then (s, verbatim)
       else case json_parse p data_str of None \<Rightarrow> (s, verbatim)
         | Some data \<Rightarrow> if same_proto p
             then let s = extract_usage_only p et data s
               in (s, if suppress_same_proto_frame p (framing s) data then []
                      else if strip_same_proto_usage p (framing s) data then rewrite_frame_strip_usage frame data_str
                      else frame)
             else translate_event p et data s)"

fun chain :: "nat \<Rightarrow> nat \<Rightarrow> (nat \<times> nat) list \<Rightarrow> nat \<Rightarrow> bool" where
  "chain n i [] k \<longleftrightarrow> i = k"
| "chain n i ((a, b) # sp) k \<longleftrightarrow> a = i \<and> a \<le> b \<and> b \<le> n \<and> chain n b sp k"

lemma chain_le: "chain n i sp k \<Longrightarrow> i \<le> n \<Longrightarrow> i \<le> k \<and> k \<le> n"
  by (induction n i sp k rule: chain.induct) auto

lemma frame_spans_chain: "consumed \<le> length b \<Longrightarrow> frame_spans b sc consumed = (sp, sc', k) \<Longrightarrow> chain (length b) consumed sp k"
proof (induction b sc consumed arbitrary: sp rule: frame_spans.induct)
  case (1 b sc consumed)
  let ?s = "min (max (sc - 3) consumed) (length b)"
  show ?case
  proof (cases "find_frame_terminator (drop ?s b)")
    case None
    then show ?thesis using "1.prems"(2) by (simp add: frame_spans.simps [of b sc] Let_def)
  next
    case (Some x)
    obtain rel tl where x: "x = (rel, tl)" by (cases x)
    have bd: "rel + tl \<le> length b - ?s" using find_bounds [of "drop ?s b" rel tl] Some x by simp
    then have st: "?s + rel + tl \<le> length b" "consumed \<le> ?s + rel + tl" using "1.prems"(1) by simp_all
    obtain sp' where f: "frame_spans b (?s + rel + tl) (?s + rel + tl) = (sp', sc', k)" "sp = (consumed, ?s + rel + tl) # sp'"
      using "1.prems"(2) Some x by (auto simp: frame_spans.simps [of b sc] Let_def split: prod.splits)
    show ?thesis using "1.IH" [OF refl Some x [symmetric] refl st(1) f(1)] st f(2) by simp
  qed
qed

lemma slice_join: "i \<le> j \<Longrightarrow> j \<le> k \<Longrightarrow> slice i j xs @ slice j k xs = slice i k xs"
proof -
  assume a: "i \<le> j" "j \<le> k"
  have "take (k - i) (drop i xs) = take (j - i) (drop i xs) @ take (k - i - (j - i)) (drop (j - i) (drop i xs))"
    using take_add [of "j - i" "k - i - (j - i)" "drop i xs"] a by simp
  then show ?thesis using a by (simp add: slice_def)
qed

lemma slice_same [simp]: "slice i i xs = []"
  by (simp add: slice_def)

lemma flush_run_slice: "flush_run b i j = slice i j b"
  by (simp add: flush_run_def slice_def)

text \<open>Where the pending verbatim run begins, and what it holds.\<close>

lemma sse_step_handle:
  assumes "sse_step p b (s, out, e) (i, j) = (s', out', e')" "e \<le> i" "i \<le> j"
  shows "sse_handle p s (slice i j b) = (s', x) \<Longrightarrow> (same_proto p \<longrightarrow> out' @ slice e' j b = out @ slice e i b @ x)
    \<and> (\<not> same_proto p \<longrightarrow> out' = out @ x) \<and> e' \<le> j"
  using assms slice_join [OF assms(2,3), of b]
  by (auto simp: sse_step_def sse_handle_def Let_def flush_run_slice split: option.splits if_splits prod.splits)

lemma sse_step_state: "sse_step p b (s, out, e) (i, j) = (s', out', e') \<Longrightarrow> fst (sse_handle p s (slice i j b)) = s'"
  by (auto simp: sse_step_def sse_handle_def Let_def split: option.splits if_splits prod.splits)

lemma bulk_copy_is_frame_by_frame:
  assumes "foldl (sse_step p b) (s, out, e) sp = (s', out', e')" "chain (length b) i sp k" "e \<le> i" "i \<le> length b"
    "run_frames (sse_handle p) s (map (\<lambda>(i, j). slice i j b) sp) = (s2, x)"
  shows "s2 = s' \<and> e' \<le> k \<and> (same_proto p \<longrightarrow> out' @ slice e' k b = out @ slice e i b @ x) \<and> (\<not> same_proto p \<longrightarrow> out' = out @ x)"
  using assms
proof (induction sp arbitrary: s out e i x)
  case (Cons ij sp)
  obtain j where ij: "ij = (i, j)" "i \<le> j" "j \<le> length b" "chain (length b) j sp k" using Cons.prems(2) by (cases ij) auto
  obtain s1 out1 e1 where st: "sse_step p b (s, out, e) (i, j) = (s1, out1, e1)" by (metis prod.exhaust)
  obtain x1 where h: "sse_handle p s (slice i j b) = (s1, x1)" using sse_step_state [OF st] by (metis prod.collapse)
  obtain x2 where r: "run_frames (sse_handle p) s1 (map (\<lambda>(i, j). slice i j b) sp) = (s2, x2)" "x = x1 @ x2"
    using Cons.prems(5) h ij by (auto split: prod.splits)
  have f: "foldl (sse_step p b) (s1, out1, e1) sp = (s', out', e')" using Cons.prems(1) st ij by simp
  note a = sse_step_handle [OF st Cons.prems(3) ij(2) h]
  show ?case using Cons.IH [OF f ij(4) _ ij(3) r(1)] a r(2) by auto
qed (auto simp: slice_def)

lemma feed_sse_frames:
  assumes "feed_sse p b t = (t', out)" "sse_pass b (scanned t) = (fs, left, m)"
  shows "run_frames (sse_handle p) (translation t) fs = (translation t', out)
    \<and> (if MAX_BUF < length left then aborted t' \<and> buf t' = [] else aborted t' = aborted t \<and> buf t' = left \<and> scanned t' = m)"
proof -
  obtain sp sc k where f: "frame_spans b (scanned t) 0 = (sp, sc, k)" by (metis prod.exhaust)
  obtain s o1 e where g: "foldl (sse_step p b) (translation t, [], 0) sp = (s, o1, e)" by (metis prod.exhaust)
  have ps: "fs = map (\<lambda>(i, j). slice i j b) sp" "left = drop k b" "m = (if 0 < k then length left else sc)"
    using assms(2) f by (auto simp: sse_pass_def)
  obtain s2 x where r: "run_frames (sse_handle p) (translation t) fs = (s2, x)" by (metis prod.exhaust)
  have c: "chain (length b) 0 sp k" using frame_spans_chain [of 0 b] f by simp
  note bulk = bulk_copy_is_frame_by_frame [OF g c le0 le0 r [unfolded ps]]
  have t': "t' = (let t1 = t\<lparr>buf := left, scanned := m, translation := s\<rparr> in if MAX_BUF < length left then abort_translate t1 else t1)"
    and out: "out = (if same_proto p \<and> e < k then o1 @ slice e k b else o1)"
    using assms(1) f g ps by (auto simp: feed_sse_def Let_def)
  have "out = x" using bulk out by (cases "e = k") auto
  then show ?thesis using bulk r unfolding t' by (simp add: Let_def abort_translate_def)
qed

interpretation st: reassembler "\<lambda>t c. if aborted t then (t, []) else feed_sse p (buf t @ c) t" buf scanned "\<lambda>t. \<not> aborted t" translation "sse_handle p" MAX_BUF
  for p :: "('v, 'j, 'd, 'w, 'f) Protocols"
proof
  fix t t' :: "('d, 'w, 'f) StreamTranslate" and c fs left m out
  assume "\<not> aborted t" "sse_pass (buf t @ c) (scanned t) = (fs, left, m)" "(if aborted t then (t, []) else feed_sse p (buf t @ c) t) = (t', out)"
  then show "run_frames (sse_handle p) (translation t) fs = (translation t', out)
     \<and> (if MAX_BUF < length left then \<not> \<not> aborted t' \<and> buf t' = [] else \<not> aborted t' \<and> buf t' = left \<and> scanned t' = m)"
    using feed_sse_frames [of p "buf t @ c" t t' out fs left m] by auto
qed simp

text \<open>The binary mode: a pass of the frame decoder, and an abort that nothing reverts.\<close>

lemma event_frames_append:
  "event_frames p (fs @ gs) s = (case event_frames p fs s of (s1, o1) \<Rightarrow> case event_frames p gs s1 of (s2, o2) \<Rightarrow> (s2, o1 @ o2))"
  by (induction p fs s rule: event_frames.induct) (auto split: option.splits prod.splits)

lemma event_frames_same: "same_proto p \<Longrightarrow> snd (event_frames p fs s) = []"
  by (induction p fs s rule: event_frames.induct) (auto split: option.splits)

lemma feed_event_frames:
  assumes "\<not> aborted t" "feed_eventstream p (buf t @ c) t = (t', out)" "\<not> aborted t'"
    "drain_frames_checked b (Some []) = (fs, DrainOk, n, buf t, k)"
  shows "\<exists>gs n' k'. drain_frames_checked (b @ c) (Some []) = (fs @ gs, DrainOk, n + n', buf t', Some (the k @ k'))
    \<and> event_frames p gs (translation t) = (translation t', if same_proto p then [] else out) \<and> (same_proto p \<longrightarrow> out = k')
    \<and> length (buf t') < MAX_FRAME_BYTES"
proof -
  obtain gs st n' left k2 where d: "drain_frames_checked (buf t @ c) (Some []) = (gs, st, n', left, k2)" by (metis prod.exhaust)
  have k2: "k2 = Some (take n' (buf t @ c))" and left: "st = DrainOk \<longrightarrow> length left < MAX_FRAME_BYTES"
    using drain_accounts [OF d [unfolded drain_frames_checked_def]] by auto
  have dn: "drain_frames_checked (buf t @ c) None = (gs, st, n', left, None)"
    using drain_no_sink d by (simp add: drain_frames_checked_def)
  obtain s o1 where e: "event_frames p gs (translation t) = (s, o1)" by (metis prod.exhaust)
  let ?t = "t\<lparr>buf := left, translation := s\<rparr>"
  have "feed_eventstream p (buf t @ c) t
      = (if st = MalformedPrelude \<or> MAX_BUF < length left then abort_translate ?t else ?t, (if same_proto p then the k2 else []) @ o1)"
    using d dn e k2 by (cases "same_proto p") (simp_all add: feed_eventstream_def Let_def)
  then have t': "t' = (if st = MalformedPrelude \<or> MAX_BUF < length left then abort_translate ?t else ?t)"
    and out: "out = (if same_proto p then the k2 else []) @ o1" using assms(2) by simp_all
  have ok: "st = DrainOk" "\<not> MAX_BUF < length left" using assms(3) t' by (cases st; auto simp: abort_translate_def split: if_splits)+
  have "drain_frames_checked (b @ c) (Some []) = (fs @ gs, DrainOk, n + n', left, Some (the k @ the k2))"
    using event_stream_pass [of b c] assms(4) d ok(1) by simp
  then show ?thesis using t' ok e out event_frames_same [of p gs "translation t"] left k2 by auto
qed

subsection \<open>Whole streams\<close>

lemma feed_sse_mode: "\<not> egress_eventstream p \<Longrightarrow> feed p = (\<lambda>t c. if aborted t then (t, []) else feed_sse p (buf t @ c) t)"
  by (intro ext) (simp add: feed_def)

lemma feed_dead: "aborted t \<Longrightarrow> feed_all (feed p) t cs = (t, [])"
  by (induction cs) (simp_all add: feed_def)

lemma feed_bounded:
  assumes "feed p t c = (t', out)" "length (buf t) \<le> MAX_BUF" "aborted t \<Longrightarrow> buf t = []"
  shows "length (buf t') \<le> MAX_BUF" "aborted t' \<Longrightarrow> buf t' = []"
  using assms by (auto simp: feed_def feed_sse_def feed_eventstream_def Let_def abort_translate_def split: if_splits prod.splits)

lemma feed_all_bounded:
  "feed_all (feed p) t cs = (t', out) \<Longrightarrow> length (buf t) \<le> MAX_BUF \<Longrightarrow> (aborted t \<longrightarrow> buf t = []) \<Longrightarrow> length (buf t') \<le> MAX_BUF \<and> (aborted t' \<longrightarrow> buf t' = [])"
proof (induction cs arbitrary: t out)
  case (Cons c cs)
  obtain t1 o1 where f: "feed p t c = (t1, o1)" by (cases "feed p t c")
  obtain o2 where g: "feed_all (feed p) t1 cs = (t', o2)" using Cons.prems(1) f by (auto split: prod.splits)
  show ?case using Cons.IH [OF g] feed_bounded [OF f Cons.prems(2)] Cons.prems(3) by blast
qed simp

lemma feed_all_events:
  assumes "feed_all (feed p) t cs = (t', out)" "egress_eventstream p" "\<not> aborted t'" "drain_frames_checked b (Some []) = (fs, DrainOk, n, buf t, Some k)"
  shows "\<exists>gs n' k'. drain_frames_checked (b @ concat cs) (Some []) = (fs @ gs, DrainOk, n', buf t', Some (k @ k'))
    \<and> event_frames p gs (translation t) = (translation t', if same_proto p then [] else out) \<and> (same_proto p \<longrightarrow> out = k')"
  using assms
proof (induction cs arbitrary: t out b fs n k)
  case Nil
  then show ?case by (auto intro!: exI [of _ "[]"])
next
  case (Cons c cs)
  obtain t1 o1 where f: "feed p t c = (t1, o1)" by (cases "feed p t c")
  obtain o2 where g: "feed_all (feed p) t1 cs = (t', o2)" "out = o1 @ o2" using Cons.prems(1) f by (auto split: prod.splits)
  have live: "\<not> aborted t1" using g(1) Cons.prems(3) feed_dead [of t1 p cs] by (cases "aborted t1") auto
  have live0: "\<not> aborted t" using f live by (auto simp: feed_def)
  have fe: "feed_eventstream p (buf t @ c) t = (t1, o1)" using f live0 Cons.prems(2) by (simp add: feed_def)
  obtain gs n1 k1 where d: "drain_frames_checked (b @ c) (Some []) = (fs @ gs, DrainOk, n + n1, buf t1, Some (k @ k1))"
    "event_frames p gs (translation t) = (translation t1, if same_proto p then [] else o1)" "same_proto p \<longrightarrow> o1 = k1"
    using feed_event_frames [OF live0 fe live Cons.prems(4)] by auto
  obtain hs n2 k2 where e: "drain_frames_checked ((b @ c) @ concat cs) (Some []) = ((fs @ gs) @ hs, DrainOk, n2, buf t', Some ((k @ k1) @ k2))"
    "event_frames p hs (translation t1) = (translation t', if same_proto p then [] else o2)" "same_proto p \<longrightarrow> o2 = k2"
    using Cons.IH [OF g(1) Cons.prems(2,3) d(1)] by blast
  have "event_frames p (gs @ hs) (translation t) = (translation t', if same_proto p then [] else out)"
    using d(2) e(2) g(2) by (simp add: event_frames_append)
  then show ?case using e(1,3) d(3) g(2) by (intro exI [of _ "gs @ hs"] exI [of _ n2] exI [of _ "k1 @ k2"]) simp
qed

lemma translate_build_stays_live:
  assumes "\<not> egress_eventstream p" "length (concat cs) \<le> MAX_BUF"
  shows "\<not> aborted (fst (feed_all (feed p) (translate_build d w f) cs))"
  using st.short_stays_live [of "translate_build d w f" p cs "fst (feed_all (feed p) (translate_build d w f) cs)" "snd (feed_all (feed p) (translate_build d w f) cs)"]
    assms st.settled_empty [of "translate_build d w f"] by (simp add: feed_sse_mode translate_build_def)

text \<open>A pair of protocols to instantiate the theorems at: a JSON value is its text.\<close>

definition example_protocols :: "(unit, bytes, unit, unit, unit) Protocols" where
  "example_protocols = with_passthrough_framing \<lparr>p_ingress = ''anthropic'',
     read_response_events = (\<lambda>et data d. ([MessageDelta None None \<lparr>input_tokens = 1, output_tokens = length data,
       cache_creation_input_tokens = None, cache_read_input_tokens = None\<rparr>], d)),
     write_response_event = (\<lambda>w ev. (Some ([], ''{}''), w)), write_response_exception = (\<lambda>err. None), max_citations_per_delta = None, emit_done = False,
     ingress_eventstream = False, egress_eventstream = False, same_proto = True, on_egress_chunk = (\<lambda>f data. (None, data, f)),
     on_combined_stop_delta = (\<lambda>f r q u. (None, f)), on_usage_only_delta = (\<lambda>f. (None, f)), on_finish = (\<lambda>f. (None, f)),
     inject_streaming_metrics = (\<lambda>f et data. data), abort_exception_type = (\<lambda>f. None), folds_terminal_usage = (\<lambda>f. True), set_include_usage = (\<lambda>b f. f),
     suppress_same_proto_frame = (\<lambda>f data. False), strip_same_proto_usage = (\<lambda>f data. False),
     json_parse = (\<lambda>b. if b \<noteq> [] \<and> hd b = CHR ''{'' then Some b else None), json_show = (\<lambda>j. j), json_to_vec = Some, json_set_type = (\<lambda>et j. j),
     hexes = hex_lower, crc32 = length, message_json = Some\<rparr>"

definition example_chunks :: "bytes list" where
  "example_chunks = [''data: {}'' @ [LF], [LF] @ ''data: {'']"

lemma example_live: "\<not> aborted (fst (feed_all (feed example_protocols) (translate_build () () ()) example_chunks))"
  by (rule translate_build_stays_live) (simp_all add: example_protocols_def with_passthrough_framing_def example_chunks_def MAX_BUF_def MAX_FRAME_BYTES_def)

text \<open>
  Claim C19. The translator's output does not depend on how the transport cut the upstream bytes, and its
  memory is bounded. While it has not given up, what it has emitted and the state it is in are those of
  handling, one after the other, the frames the whole input splits into, for server-sent events as
  for the binary framing, and what it holds back is exactly the incomplete last frame. It never
  holds more than \<open>MAX_BUF\<close> bytes; once it has given up it holds none, ignores all further input, and closes the stream
  with the client protocol's exception frame or error event.
\<close>

theorem stream_translation_chunking:
  assumes "feed_all (feed p) (translate_build d w f) cs = (t, out)"
  shows "(\<not> aborted t \<and> \<not> egress_eventstream p \<longrightarrow>
        run_frames (sse_handle p) (translation (translate_build d w f)) (fst (split_frames (concat cs))) = (translation t, out)
        \<and> buf t = snd (split_frames (concat cs)))
    \<and> (\<not> aborted t \<and> egress_eventstream p \<longrightarrow> (\<exists>fs n k. drain_frames_checked (concat cs) (Some []) = (fs, DrainOk, n, buf t, Some k)
        \<and> event_frames p fs (translation (translate_build d w f)) = (translation t, if same_proto p then [] else out) \<and> (same_proto p \<longrightarrow> out = k)))
    \<and> length (buf t) \<le> MAX_BUF
    \<and> (aborted t \<longrightarrow> buf t = [] \<and> feed p t c = (t, [])
        \<and> (\<forall>exc. abort_exception_type p (framing (translation t)) = Some exc
             \<longrightarrow> finish p t = (t, encode_exception_frame (crc32 p) (message_json p) exc STREAM_ABORT_DETAIL)))"
proof -
  have i: "\<not> aborted (translate_build d w f)" "buf (translate_build d w f) = []" "scanned (translate_build d w f) = 0"
    by (simp_all add: translate_build_def)
  have "run_frames (sse_handle p) (translation (translate_build d w f)) (fst (split_frames (concat cs))) = (translation t, out)
        \<and> buf t = snd (split_frames (concat cs))" if "\<not> aborted t" "\<not> egress_eventstream p"
    using st.chunks_irrelevant [of "translate_build d w f" p cs t out] that i assms st.settled_empty [OF i(2,3)] by (simp add: feed_sse_mode)
  moreover have "\<exists>fs n k. drain_frames_checked (concat cs) (Some []) = (fs, DrainOk, n, buf t, Some k)
        \<and> event_frames p fs (translation (translate_build d w f)) = (translation t, if same_proto p then [] else out) \<and> (same_proto p \<longrightarrow> out = k)"
    if "\<not> aborted t" "egress_eventstream p"
    using feed_all_events [OF assms that(2,1), of "[]" "[]" 0 "[]"] i by (simp add: drain_frames_checked_def drain_step [of "[]"] PRELUDE_LEN_def)
  moreover have "length (buf t) \<le> MAX_BUF \<and> (aborted t \<longrightarrow> buf t = [])" using feed_all_bounded [OF assms] i by simp
  ultimately show ?thesis by (auto simp: feed_def finish_def Let_def)
qed

subsection \<open>A same-protocol stream is relayed as it is\<close>

definition relays_all :: "('v, 'j, 'd, 'w, 'f) Protocols \<Rightarrow> bool" where
  "relays_all p \<longleftrightarrow> same_proto p \<and> (\<forall>f data. \<not> suppress_same_proto_frame p f data \<and> \<not> strip_same_proto_usage p f data)"

lemma handle_relays: "relays_all p \<Longrightarrow> snd (sse_handle p s frame) = frame"
  by (auto simp: relays_all_def sse_handle_def Let_def split: option.splits prod.splits)

lemma run_relays: "relays_all p \<Longrightarrow> snd (run_frames (sse_handle p) s fs) = concat fs"
proof (induction fs arbitrary: s)
  case (Cons fr fs)
  then show ?case using handle_relays [OF Cons.prems, of s fr] by (auto split: prod.splits) (metis snd_conv)
qed simp

lemma feed_relays:
  assumes "feed p t c = (t', out)" "relays_all p" "\<not> aborted t" "\<not> egress_eventstream p \<Longrightarrow> st.settled t"
  shows "\<exists>rest. buf t @ c = out @ rest \<and> (\<not> aborted t' \<longrightarrow> buf t' = rest \<and> (\<not> egress_eventstream p \<longrightarrow> st.settled t'))"
proof (cases "egress_eventstream p")
  case False
  then have f: "(if aborted t then (t, []) else feed_sse p (buf t @ c) t) = (t', out)" using assms(1) feed_sse_mode [OF False] by simp
  note a = st.feed_frames [OF assms(3) assms(4) [OF False] f]
  have "out = concat (fst (split_frames (buf t @ c)))" using a(1) run_relays [OF assms(2)] by (metis snd_conv)
  then have "buf t @ c = out @ snd (split_frames (buf t @ c))" using split_frames_concat [of "buf t @ c"] by (metis prod.collapse)
  then show ?thesis using a(3) False by blast
next
  case True
  have sp: "same_proto p" using assms(2) by (simp add: relays_all_def)
  obtain gs status n left k where d: "drain_frames_checked (buf t @ c) (Some []) = (gs, status, n, left, k)" by (metis prod.exhaust)
  have acc: "k = Some (take n (buf t @ c))" "status = DrainOk \<longrightarrow> left = drop n (buf t @ c)"
    using drain_accounts [OF d [unfolded drain_frames_checked_def]] by auto
  have fe: "feed_eventstream p (buf t @ c) t = (t', out)" using assms(1,3) True by (simp add: feed_def)
  have o: "out = take n (buf t @ c)" using fe d acc(1) sp event_frames_same [OF sp, of gs "translation t"]
    by (auto simp: feed_eventstream_def Let_def split: prod.splits)
  have "\<not> aborted t' \<longrightarrow> buf t' = drop n (buf t @ c)" using fe d acc sp assms(3)
    by (cases status) (auto simp: feed_eventstream_def Let_def abort_translate_def split: prod.splits if_splits)
  then show ?thesis using o True by (intro exI [of _ "drop n (buf t @ c)"]) (simp del: take_append drop_append)
qed

lemma feed_all_relays:
  assumes "feed_all (feed p) t cs = (t', out)" "relays_all p" "\<not> aborted t" "\<not> egress_eventstream p \<Longrightarrow> st.settled t"
  shows "\<exists>rest. buf t @ concat cs = out @ rest \<and> (\<not> aborted t' \<longrightarrow> buf t' = rest)"
  using assms
proof (induction cs arbitrary: t out)
  case (Cons c cs)
  obtain t1 o1 where f: "feed p t c = (t1, o1)" by (cases "feed p t c")
  obtain o2 where g: "feed_all (feed p) t1 cs = (t', o2)" "out = o1 @ o2" using Cons.prems(1) f by (auto split: prod.splits)
  obtain r where r: "buf t @ c = o1 @ r" "\<not> aborted t1 \<longrightarrow> buf t1 = r \<and> (\<not> egress_eventstream p \<longrightarrow> st.settled t1)"
    using feed_relays [OF f Cons.prems(2,3,4)] by blast
  show ?case
  proof (cases "aborted t1")
    case True
    then have "t' = t1" "o2 = []" using feed_dead [OF True, of p cs] g(1) by simp_all
    moreover have "buf t @ concat (c # cs) = o1 @ r @ concat cs" using r(1) by (metis append.assoc concat.simps(2))
    ultimately show ?thesis using True g(2) by (intro exI [of _ "r @ concat cs"]) simp
  next
    case False
    obtain rest where "buf t1 @ concat cs = o2 @ rest" "\<not> aborted t' \<longrightarrow> buf t' = rest" using Cons.IH [OF g(1) Cons.prems(2) False] r(2) False by blast
    moreover have "buf t @ concat (c # cs) = o1 @ buf t1 @ concat cs" using r False by (metis append.assoc concat.simps(2))
    ultimately show ?thesis using g(2) by (intro exI [of _ rest]) simp
  qed
qed simp

theorem stream_translation_chunking_witness:
  "run_frames (sse_handle example_protocols) (translation (translate_build () () ())) (fst (split_frames (concat example_chunks)))
      = (translation (fst (feed_all (feed example_protocols) (translate_build () () ()) example_chunks)),
         snd (feed_all (feed example_protocols) (translate_build () () ()) example_chunks))
    \<and> buf (fst (feed_all (feed example_protocols) (translate_build () () ()) example_chunks)) = snd (split_frames (concat example_chunks))"
  using stream_translation_chunking [OF prod.collapse [symmetric], of example_protocols "()" "()" "()" example_chunks] example_live
  by (simp add: example_protocols_def with_passthrough_framing_def)



subsection \<open>Both modes meter the same\<close>

definition metered :: "('d, 'w, 'f) Translation \<Rightarrow> 'd \<times> IrUsage option \<times> IrUsage option \<times> string option" where
  "metered s = (decode s, start_usage s, last_usage s, terminal_error s)"

lemma metered_simps [simp]:
  "metered (s\<lparr>framing := f\<rparr>) = metered s" "metered (s\<lparr>writing := w\<rparr>) = metered s" "metered (s\<lparr>tool_id_remap := m\<rparr>) = metered s"
  "metered (s\<lparr>message_stopped := b\<rparr>) = metered s" "metered (s\<lparr>pending_terminal := pt\<rparr>) = metered s" "metered (s\<lparr>pending_stop := b\<rparr>) = metered s"
  by (simp_all add: metered_def)

lemma act_metered: "metered (fst (act p a s)) = metered s"
  by (cases a) (auto simp: emit_ir_event_def Let_def split: prod.splits option.splits)

lemma act_all_metered: "metered (fst (act_all p as s)) = metered s"
proof (induction as arbitrary: s)
  case (Cons a as)
  then show ?case using act_metered [of p a s] by (auto split: prod.splits) (metis fst_conv)
qed simp

lemma emit_ordered_metered: "metered (snd (emit_ordered p ev s)) = metered s"
  by (simp add: emit_ordered_def)

lemma usage_only_metered: "metered (snd (usage_only p ev s)) = metered s"
  by (auto simp: usage_only_def Let_def emit_ordered_metered split: IrStreamEvent.splits option.splits prod.splits)

lemma fold_terminal_metered: "metered (snd (fold_terminal p ev s)) = metered s"
  by (auto simp: fold_terminal_def usage_only_metered split: IrStreamEvent.splits option.splits prod.splits)

lemma route_metered: "metered (snd (route p ev s)) = metered s"
  by (auto simp: route_def combined_stop_def Let_def fold_terminal_metered split: IrStreamEvent.splits option.splits prod.splits)

lemma extract_delta:
  "extract_one (MessageDelta reason seq u) s = s\<lparr>last_usage := Some (tap_usage (backfill (start_usage s) u) (last_usage s))\<rparr>"
proof -
  have "(let acc = a; acc = (if i \<noteq> 0 then acc\<lparr>input_tokens := i\<rparr> else acc); acc = (if v \<noteq> 0 then acc\<lparr>output_tokens := v\<rparr> else acc);
          acc = (if cc \<noteq> None then acc\<lparr>cache_creation_input_tokens := cc\<rparr> else acc);
          acc = (if cr \<noteq> None then acc\<lparr>cache_read_input_tokens := cr\<rparr> else acc) in acc)
      = a\<lparr>input_tokens := if i \<noteq> 0 then i else input_tokens a, output_tokens := if v \<noteq> 0 then v else output_tokens a,
          cache_creation_input_tokens := or_else cc (cache_creation_input_tokens a), cache_read_input_tokens := or_else cr (cache_read_input_tokens a)\<rparr>"
    for a :: IrUsage and i v cc cr by (cases a) (simp add: Let_def or_else_def)
  note m = this [unfolded Let_def]
  show ?thesis by (cases "start_usage s") (simp_all add: Let_def m tap_usage_def backfill_def or_else_def)
qed

lemma prepare_extract: "metered s = metered s' \<Longrightarrow> metered (snd (prepare p ev s)) = metered (extract_one ev s')"
proof (cases ev)
  case (MessageStart role usage ident created model)
  moreover assume "metered s = metered s'"
  ultimately show ?thesis by (cases usage) (auto simp: metered_def or_else_def)
next
  case (MessageDelta reason seq usage)
  moreover assume "metered s = metered s'"
  ultimately show ?thesis by (simp add: metered_def extract_delta Let_def del: extract_one.simps)
next
  case (StreamError err)
  moreover assume "metered s = metered s'"
  ultimately show ?thesis by (auto simp: metered_def error_text_def)
qed (auto simp: metered_def split: prod.splits)

lemma translate_one_metered:
  assumes "metered s = metered s'"
  shows "metered (fst (translate_one p ev s)) = metered (extract_one ev s')"
proof -
  obtain ev' s1 where pr: "prepare p ev s = (ev', s1)" by (cases "prepare p ev s")
  obtain as s2 where ro: "route p ev' s1 = (as, s2)" by (cases "route p ev' s1")
  show ?thesis using prepare_extract [OF assms, of p ev] route_metered [of p ev' s1] act_all_metered [of p as s2]
    by (simp add: translate_one_def pr ro)
qed

lemma translate_events_metered:
  "metered s = metered s' \<Longrightarrow> metered (fst (translate_events p evs s)) = metered (foldl (\<lambda>s ev. extract_one ev s) s' evs)"
proof (induction evs arbitrary: s s')
  case (Cons ev evs)
  obtain s1 o1 where t: "translate_one p ev s = (s1, o1)" by (cases "translate_one p ev s")
  have "metered s1 = metered (extract_one ev s')" using translate_one_metered [OF Cons.prems, of p ev] t by simp
  then show ?case using Cons.IH [of s1 "extract_one ev s'"] t by (auto split: prod.splits)
qed simp

lemma translate_extract_metered:
  assumes "metered s = metered s'"
  shows "metered (fst (translate_event p et data s)) = metered (extract_usage_only p et data s')"
proof -
  obtain evs d where r: "read_response_events p et data (decode s) = (evs, d)" by (cases "read_response_events p et data (decode s)")
  have "decode s' = decode s" "metered (s\<lparr>decode := d\<rparr>) = metered (s'\<lparr>decode := d\<rparr>)" using assms by (simp_all add: metered_def)
  then show ?thesis using translate_events_metered [of "s\<lparr>decode := d\<rparr>" "s'\<lparr>decode := d\<rparr>" p evs] r
    by (simp add: translate_event_def extract_usage_only_def)
qed

lemma extract_metered: "metered s = metered s' \<Longrightarrow> metered (extract_usage_only p et data s) = metered (extract_usage_only p et data s')"
  using translate_extract_metered [of s s p et data] translate_extract_metered [of s s' p et data] by simp

text \<open>What a frame leaves metered, in either mode.\<close>

definition meter_frame :: "('v, 'j, 'd, 'w, 'f) Protocols \<Rightarrow> bytes \<Rightarrow> ('d, 'w, 'f) Translation \<Rightarrow> ('d, 'w, 'f) Translation" where
  "meter_frame p frame s = (case parse_sse_frame frame of None \<Rightarrow> s
     | Some (et, data_str) \<Rightarrow> if data_str = [] \<or> data_str = SSE_DONE_SENTINEL then s
       else case json_parse p data_str of None \<Rightarrow> s | Some data \<Rightarrow> extract_usage_only p et data s)"

lemma handle_meters: "metered (fst (sse_handle p s frame)) = metered (meter_frame p frame s)"
proof (cases "parse_sse_frame frame")
  case (Some x)
  obtain et ds where x: "x = (et, ds)" by (cases x)
  show ?thesis
  proof (cases "json_parse p ds")
    case None
    then show ?thesis using Some x by (simp add: sse_handle_def meter_frame_def Let_def)
  next
    case (Some data)
    then show ?thesis using \<open>parse_sse_frame frame = Some x\<close> x translate_extract_metered [of s s p et data]
      by (simp add: sse_handle_def meter_frame_def Let_def)
  qed
qed (simp add: sse_handle_def meter_frame_def Let_def)

lemma mode_extract: "extract_usage_only (p\<lparr>same_proto := b\<rparr>) = extract_usage_only p"
  by (intro ext) (simp add: extract_usage_only_def)

lemma mode_json [simp]:
  "json_parse (p\<lparr>same_proto := b\<rparr>) = json_parse p" "json_set_type (p\<lparr>same_proto := b\<rparr>) = json_set_type p"
  "egress_eventstream (p\<lparr>same_proto := b\<rparr>) = egress_eventstream p"
  by simp_all

lemma mode_meter: "meter_frame (p\<lparr>same_proto := b\<rparr>) = meter_frame p"
  unfolding meter_frame_def mode_extract mode_json ..

lemma meter_cong: "metered s = metered s' \<Longrightarrow> metered (meter_frame p frame s) = metered (meter_frame p frame s')"
  by (auto simp: meter_frame_def intro: extract_metered split: option.split prod.split)

lemma run_frames_metered:
  "metered s = metered s' \<Longrightarrow> metered (fst (run_frames (sse_handle p) s fs)) = metered (fst (run_frames (sse_handle (p\<lparr>same_proto := b\<rparr>)) s' fs))"
proof (induction fs arbitrary: s s')
  case (Cons fr fs)
  obtain s1 o1 where h: "sse_handle p s fr = (s1, o1)" by (cases "sse_handle p s fr")
  obtain s2 o2 where h': "sse_handle (p\<lparr>same_proto := b\<rparr>) s' fr = (s2, o2)" by (cases "sse_handle (p\<lparr>same_proto := b\<rparr>) s' fr")
  have "metered s1 = metered s2"
    using handle_meters [of p s fr] handle_meters [of "p\<lparr>same_proto := b\<rparr>" s' fr] meter_cong [OF Cons.prems, of p fr] h h' by (simp add: mode_meter)
  from Cons.IH [OF this] show ?case using h h' by (simp add: case_prod_beta)
qed simp

lemma event_frame_step:
  assumes "json_parse p payload = Some data"
  shows "\<exists>s1. fst (event_frames p ((et, payload) # fs) s) = fst (event_frames p fs s1) \<and> metered s1 = metered (extract_usage_only p et (json_set_type p et data) s)"
proof (cases "same_proto p")
  case True
  then show ?thesis using assms by (intro exI [of _ "extract_usage_only p et (json_set_type p et data) s"]) simp
next
  case False
  then show ?thesis using assms translate_extract_metered [of s s p et "json_set_type p et data"]
    by (intro exI [of _ "fst (translate_event p et (json_set_type p et data) s)"]) (simp add: case_prod_beta)
qed

lemma event_frames_metered:
  "metered s = metered s' \<Longrightarrow> metered (fst (event_frames p fs s)) = metered (fst (event_frames (p\<lparr>same_proto := b\<rparr>) fs s'))"
proof (induction fs arbitrary: s s')
  case (Cons f fs)
  obtain et payload where f: "f = (et, payload)" by (cases f)
  show ?case
  proof (cases "json_parse p payload")
    case None
    then show ?thesis using Cons f by simp
  next
    case (Some data)
    obtain s1 where s1: "fst (event_frames p ((et, payload) # fs) s) = fst (event_frames p fs s1)"
      "metered s1 = metered (extract_usage_only p et (json_set_type p et data) s)" using event_frame_step [OF Some] by blast
    obtain s2 where s2: "fst (event_frames (p\<lparr>same_proto := b\<rparr>) ((et, payload) # fs) s') = fst (event_frames (p\<lparr>same_proto := b\<rparr>) fs s2)"
      "metered s2 = metered (extract_usage_only p et (json_set_type p et data) s')"
      using event_frame_step [of "p\<lparr>same_proto := b\<rparr>" payload data et fs s'] Some unfolding mode_json mode_extract by blast
    have "metered s1 = metered s2" using s1(2) s2(2) extract_metered [OF Cons.prems] by simp
    from Cons.IH [OF this] show ?thesis using s1(1) s2(1) f by simp
  qed
qed simp

text \<open>Two translators that differ in mode only stay in step: same buffer, same mark, same abort.\<close>

definition in_step :: "('d, 'w, 'f) StreamTranslate \<Rightarrow> ('d, 'w, 'f) StreamTranslate \<Rightarrow> bool" where
  "in_step t t' \<longleftrightarrow> buf t = buf t' \<and> scanned t = scanned t' \<and> aborted t = aborted t' \<and> metered (translation t) = metered (translation t')"

lemma feed_sse_shape:
  assumes "sse_pass b (scanned t) = (fs, left, m)" "run_frames (sse_handle p) (translation t) fs = (s, out)"
  shows "feed_sse p b t = (if MAX_BUF < length left then abort_translate (t\<lparr>translation := s\<rparr>) else t\<lparr>buf := left, scanned := m, translation := s\<rparr>, out)"
proof -
  obtain t' o' where f: "feed_sse p b t = (t', o')" by (cases "feed_sse p b t")
  have "t' = (if MAX_BUF < length left then abort_translate (t\<lparr>translation := translation t'\<rparr>) else t\<lparr>buf := left, scanned := m, translation := translation t'\<rparr>)"
    using f assms(1) by (auto simp: feed_sse_def sse_pass_def Let_def abort_translate_def split: prod.splits if_splits)
  then show ?thesis using feed_sse_frames [OF f assms(1)] assms(2) f by auto
qed

lemma feed_sse_in_step:
  assumes "in_step t t'"
  shows "in_step (fst (feed_sse p b t)) (fst (feed_sse (p\<lparr>same_proto := m\<rparr>) b t'))"
proof -
  obtain fs left k where pass: "sse_pass b (scanned t) = (fs, left, k)" by (metis prod.exhaust)
  have pass': "sse_pass b (scanned t') = (fs, left, k)" using pass assms by (simp add: in_step_def)
  obtain s out where r: "run_frames (sse_handle p) (translation t) fs = (s, out)" by (metis prod.exhaust)
  obtain s' out' where r': "run_frames (sse_handle (p\<lparr>same_proto := m\<rparr>)) (translation t') fs = (s', out')" by (metis prod.exhaust)
  have "metered s = metered s'" using run_frames_metered [of "translation t" "translation t'" p fs m] assms r r' by (simp add: in_step_def)
  then show ?thesis using assms
    by (simp add: feed_sse_shape [OF pass r] feed_sse_shape [OF pass' r'] in_step_def abort_translate_def)
qed

lemma feed_eventstream_in_step:
  assumes "in_step t t'"
  shows "in_step (fst (feed_eventstream p b t)) (fst (feed_eventstream (p\<lparr>same_proto := m\<rparr>) b t'))"
proof -
  have any: "\<exists>k'. drain_frames_checked b sink = (gs, status, n, left, k')" if "drain_frames_checked b None = (gs, status, n, left, k)" for sink gs status n left k
    using that drain_no_sink [of b "[]" 0]
    by (cases sink; cases "drain_frames_checked b sink") (fastforce simp: drain_frames_checked_def)+
  obtain gs status n left k where d: "drain_frames_checked b None = (gs, status, n, left, k)" by (metis prod.exhaust)
  obtain k1 where d1: "drain_frames_checked b (if same_proto p then Some [] else None) = (gs, status, n, left, k1)" using any [OF d] by blast
  obtain k2 where d2: "drain_frames_checked b (if m then Some [] else None) = (gs, status, n, left, k2)" using any [OF d] by blast
  have "metered (fst (event_frames p gs (translation t))) = metered (fst (event_frames (p\<lparr>same_proto := m\<rparr>) gs (translation t')))"
    using assms by (intro event_frames_metered) (simp add: in_step_def)
  then show ?thesis using assms d1 d2
    by (simp add: feed_eventstream_def Let_def case_prod_beta in_step_def abort_translate_def)
qed

lemma feed_in_step: "in_step t t' \<Longrightarrow> in_step (fst (feed p t c)) (fst (feed (p\<lparr>same_proto := m\<rparr>) t' c))"
proof -
  assume i: "in_step t t'"
  then have "aborted t = aborted t'" "buf t = buf t'" by (simp_all add: in_step_def)
  then show ?thesis using i feed_sse_in_step [OF i, of p "buf t @ c" m] feed_eventstream_in_step [OF i, of p "buf t @ c" m]
    by (auto simp: feed_def)
qed

lemma feed_all_in_step: "in_step t t' \<Longrightarrow> in_step (fst (feed_all (feed p) t cs)) (fst (feed_all (feed (p\<lparr>same_proto := m\<rparr>)) t' cs))"
proof (induction cs arbitrary: t t')
  case (Cons c cs)
  from Cons.IH [OF feed_in_step [OF Cons.prems, of p c m]] show ?case by (simp add: case_prod_beta)
qed simp

text \<open>
  Claim C21. Metering does not depend on the mode: whatever chunks arrive, a translator that relays a same-protocol
  stream verbatim and one that translates it event by event end with the same billable usage, the
  same recorded in-band error and the same verdict on whether the stream had to be given up.
\<close>

theorem metering_agrees:
  "let t = fst (feed_all (feed p) (translate_build d w f) cs);
       t' = fst (feed_all (feed (p\<lparr>same_proto := m\<rparr>)) (translate_build d w f) cs)
   in last_usage (translation t) = last_usage (translation t') \<and> terminal_error (translation t) = terminal_error (translation t')
      \<and> aborted t = aborted t'"
  using feed_all_in_step [of "translate_build d w f" "translate_build d w f" p cs m] by (simp add: in_step_def metered_def Let_def)


subsection \<open>One metadata frame per Bedrock stream\<close>

text \<open>The translation of a list of events, with the actions it takes.\<close>

fun trace :: "('v, 'j, 'd, 'w, 'f) Protocols \<Rightarrow> 'v IrStreamEvent list \<Rightarrow> ('d, 'w, 'f) Translation \<Rightarrow> 'v action list \<times> ('d, 'w, 'f) Translation \<times> bytes" where
  "trace p [] s = ([], s, [])"
| "trace p (ev # evs) s = (case prepare p ev s of (ev', s0) \<Rightarrow> case route p ev' s0 of (as, s1) \<Rightarrow> case act_all p as s1 of (s2, o1) \<Rightarrow>
     case trace p evs s2 of (bs, s3, o2) \<Rightarrow> (as @ bs, s3, o1 @ o2))"

lemma trace_translates: "translate_events p evs s = snd (trace p evs s)"
proof (induction evs arbitrary: s)
  case (Cons ev evs)
  then show ?case by (simp add: translate_one_def split: prod.split)
qed simp

fun is_metadata :: "'v action \<Rightarrow> bool" where
  "is_metadata (Emit (MessageDelta None seq usage)) = True"
| "is_metadata a = False"

definition metadata_frames :: "'v action list \<Rightarrow> nat" where
  "metadata_frames as = length (filter is_metadata as)"

lemma metadata_simps [simp]:
  "metadata_frames [] = 0" "metadata_frames (as @ bs) = metadata_frames as + metadata_frames bs"
  "metadata_frames (a # as) = (if is_metadata a then Suc (metadata_frames as) else metadata_frames as)"
  by (simp_all add: metadata_frames_def)

lemma prepare_framing: "prepare p ev s = (ev', s') \<Longrightarrow> framing s' = framing s \<and> is_message_delta ev' = is_message_delta ev"
  by (cases ev) (auto simp: Let_def split: prod.splits option.splits elim: remap_event.elims)

lemma act_framing: "ingress_eventstream p \<Longrightarrow> framing (fst (act p a s)) = framing s"
  by (cases a) (auto simp: emit_ir_event_def Let_def split: prod.splits option.splits)

lemma act_all_framing: "ingress_eventstream p \<Longrightarrow> framing (fst (act_all p as s)) = framing s"
proof (induction as arbitrary: s)
  case (Cons a as)
  then show ?case using act_framing [OF Cons.prems, of a s] by (simp add: case_prod_beta)
qed simp

lemma fan_out_metadata: "\<not> is_message_delta ev \<Longrightarrow> metadata_frames (fan_out n ev) = 0"
proof -
  assume a: "\<not> is_message_delta ev"
  have "metadata_frames (map (\<lambda>c. Emit (BlockDelta i (CitationsDelta c))) cs) = 0" for i and cs :: "'a list list" by (induction cs) simp_all
  then show ?thesis using a by (cases ev) (auto simp: fan_out_def split: option.split IrDelta.split)
qed

lemma bedrock_route:
  assumes "route (with_bedrock_framing p) ev s = (as, s')" "emitted (framing s) \<Longrightarrow> \<not> pending (framing s)"
  shows "metadata_frames as + of_bool (emitted (framing s)) = of_bool (emitted (framing s')) \<and> (emitted (framing s') \<longrightarrow> \<not> pending (framing s'))
    \<and> (emitted (framing s') \<or> pending (framing s') \<longleftrightarrow> is_message_delta ev \<or> emitted (framing s) \<or> pending (framing s))"
proof (cases ev)
  case (MessageDelta reason seq usage)
  then show ?thesis using assms
    by (cases reason) (auto simp: route_def combined_stop_def fold_terminal_def usage_only_def with_bedrock_framing_def bedrock_combined_def bedrock_usage_only_def
        Let_def split: if_splits)
qed (use assms fan_out_metadata [of ev] in \<open>auto simp: route_def combined_stop_def fold_terminal_def usage_only_def emit_ordered_def with_bedrock_framing_def
    split: option.splits prod.splits if_splits\<close>)

lemma bedrock_trace:
  assumes "trace (with_bedrock_framing p) evs s = (as, s', out)" "emitted (framing s) \<Longrightarrow> \<not> pending (framing s)"
  shows "metadata_frames as + of_bool (emitted (framing s)) = of_bool (emitted (framing s')) \<and> (emitted (framing s') \<longrightarrow> \<not> pending (framing s'))
    \<and> (emitted (framing s') \<or> pending (framing s') \<longleftrightarrow> list_ex is_message_delta evs \<or> emitted (framing s) \<or> pending (framing s))"
  using assms
proof (induction evs arbitrary: s as out)
  case (Cons ev evs)
  let ?p = "with_bedrock_framing p"
  obtain ev' s0 where pr: "prepare ?p ev s = (ev', s0)" by (cases "prepare ?p ev s")
  obtain as1 s1 where ro: "route ?p ev' s0 = (as1, s1)" by (cases "route ?p ev' s0")
  obtain s2 o1 where ac: "act_all ?p as1 s1 = (s2, o1)" by (cases "act_all ?p as1 s1")
  obtain bs o2 where tr: "trace ?p evs s2 = (bs, s', o2)" "as = as1 @ bs" using Cons.prems(1) pr ro ac by (auto split: prod.splits)
  have f: "framing s0 = framing s" "is_message_delta ev' = is_message_delta ev" "framing s2 = framing s1"
    using prepare_framing [OF pr] act_all_framing [of ?p as1 s1] ac by (simp_all add: with_bedrock_framing_def)
  have r: "metadata_frames as1 + of_bool (emitted (framing s)) = of_bool (emitted (framing s1))" "emitted (framing s1) \<longrightarrow> \<not> pending (framing s1)"
    "emitted (framing s1) \<or> pending (framing s1) \<longleftrightarrow> is_message_delta ev \<or> emitted (framing s) \<or> pending (framing s)"
    using bedrock_route [OF ro] Cons.prems(2) f by simp_all
  show ?case using Cons.IH [OF tr(1)] r f tr(2) by (simp add: disj_left_commute)
qed simp

text \<open>
  A Bedrock client is sent exactly one \<open>metadata\<close> frame by every stream that reports an end or any
  usage, and none otherwise, whatever mixture of combined, split, repeated and late usage events
  the upstream protocol produces: a usage-only event is emitted the first time, a stop that carries
  usage is split in two, and a stop without usage leaves a frame to be emitted when the stream closes.
\<close>

theorem bedrock_one_metadata:
  "let p = with_bedrock_framing q; (as, s, out) = trace p evs (translation (translate_build d w bedrock_default));
       closing = (case fst (on_finish p (framing s)) of Some ev \<Rightarrow> [Emit ev] | None \<Rightarrow> [])
   in translate_events p evs (translation (translate_build d w bedrock_default)) = (s, out)
      \<and> metadata_frames (as @ closing) = (if list_ex is_message_delta evs then 1 else 0)"
proof -
  obtain as s out where t: "trace (with_bedrock_framing q) evs (translation (translate_build d w bedrock_default)) = (as, s, out)" by (metis prod.exhaust)
  have b: "framing (translation (translate_build d w bedrock_default)) = bedrock_default" by (simp add: translate_build_def)
  have "metadata_frames as = of_bool (emitted (framing s))" "emitted (framing s) \<or> pending (framing s) \<longleftrightarrow> list_ex is_message_delta evs"
    using bedrock_trace [OF t] b by (simp_all add: bedrock_default_def)
  then show ?thesis using trace_translates [of "with_bedrock_framing q" evs "translation (translate_build d w bedrock_default)"] t
    by (auto simp: Let_def with_bedrock_framing_def bedrock_finish_def)
qed


text \<open>
  The order guard of the loop comes after the terminal fold: on a framing that folds, a stop that
  arrives after the message stop is kept, and written when the stream is closed, after the stop.
\<close>

lemma post_stop_delta_is_kept:
  "\<exists>s out. trace (with_passthrough_framing q) [MessageStop, MessageDelta (Some reason) seq usage] (translation (translate_build d w f))
       = ([Emit MessageStop], s, out) \<and> message_stopped s \<and> pending_terminal s = Some (reason, seq, usage)"
proof -
  let ?p = "with_passthrough_framing q"
  let ?s = "(translation (translate_build d w f))\<lparr>message_stopped := True\<rparr>"
  have keep: "message_stopped (fst (emit_ir_event ?p ev x)) = message_stopped x \<and> pending_terminal (fst (emit_ir_event ?p ev x)) = pending_terminal x
     \<and> start_usage (fst (emit_ir_event ?p ev x)) = start_usage x" for ev x
    by (auto simp: emit_ir_event_def Let_def split: prod.split option.split)
  obtain s1 o1 where e: "emit_ir_event ?p MessageStop ?s = (s1, o1)" by (cases "emit_ir_event ?p MessageStop ?s")
  have k: "message_stopped s1" "pending_terminal s1 = None" "start_usage s1 = None" using keep [of MessageStop ?s] e by (simp_all add: translate_build_def)
  have first: "prepare ?p MessageStop (translation (translate_build d w f)) = (MessageStop, translation (translate_build d w f))"
    "route ?p MessageStop (translation (translate_build d w f)) = ([Emit MessageStop], ?s)"
    by (simp_all add: route_def combined_stop_def fold_terminal_def usage_only_def emit_ordered_def fan_out_def translate_build_def with_passthrough_framing_def
        split: option.split)
  show ?thesis using e k first
    by (simp add: route_def combined_stop_def fold_terminal_def with_passthrough_framing_def Let_def backfill_def)
qed

end
