(* ===== verification/StreamBody.thy ===== *)
theory StreamBody
  imports TranslateRuns Attempt
begin

text \<open>
  The response body handed to the client (\<open>crates/busbar/src/proxy/response_body.rs\<close>), with the usage
  accounting of \<open>proxy/usage.rs\<close> and the body reads of \<open>proxy/wire.rs\<close>: the upstream chunks are translated
  or passed on, a failure of the stream is charged to the breaker, and its tokens are billed once. The
  inner stream is the list of its successive poll results; an exhausted list is a stream that is not
  ready. \<open>None\<close> is a panic. The governance handle and the admission grant inside a usage sink are
  reference counted; the release of the grant is \<open>drop_admit_grant\<close>.
\<close>

subsection \<open>Billing\<close>

definition wire_model :: "Lane \<Rightarrow> string" where
  "wire_model lane = (case la_upstream_model lane of Some m \<Rightarrow> m | None \<Rightarrow> la_model lane)"

record UsageSink =
  us_cost :: CostModel
  us_key :: VirtualKey
  us_pool :: string
  us_charged_at :: nat

definition tier_tokens :: "IrUsage \<Rightarrow> TierTokens" where
  "tier_tokens u = \<lparr>tt_input = input_tokens u, tt_output = output_tokens u,
     tt_cache_read = or_zero (cache_read_input_tokens u), tt_cache_write = or_zero (cache_creation_input_tokens u)\<rparr>"

definition billable_tokens :: "IrUsage \<Rightarrow> nat" where
  "billable_tokens u = sat_add_u64 (sat_add_u64 (sat_add_u64 (input_tokens u) (or_zero (cache_read_input_tokens u)))
     (or_zero (cache_creation_input_tokens u))) (output_tokens u)"

text \<open>The four tiers of the ledger add up to the billable total, whatever the order of the saturating additions.\<close>

lemma tier_tokens_total: "tier_total (tier_tokens u) = billable_tokens u"
  by (simp add: tier_total_def tier_tokens_def billable_tokens_def sat_add_u64_def min_def)

definition tier_of :: "IrUsage option \<Rightarrow> TierTokens" where
  "tier_of usage = (case usage of Some u \<Rightarrow> tier_tokens u | None \<Rightarrow> tier_zero)"

definition bill :: "'s Store \<Rightarrow> UsageSink \<Rightarrow> Lane \<Rightarrow> IrUsage option \<Rightarrow> 's GovState \<Rightarrow> 's GovState option" where
  "bill vt sink lane usage g = do {
     g1 \<leftarrow> record_usage (us_cost sink) (us_key sink) (us_pool sink) (wire_model lane) (tier_of usage) (us_charged_at sink) g;
     Some (record_metering vt (vk_id (us_key sink)) (la_model lane) (la_provider lane) usage (us_charged_at sink) g1) }"

text \<open>The buffered path: \<open>record_ir_usage\<close>, and \<open>record_resp_usage\<close> over the billable item of the response.\<close>

record TokenUsage =
  tu_input :: nat
  tu_output :: nat
  tu_cache_read :: "nat option"
  tu_cache_creation :: "nat option"
  tu_input_text :: "nat option"
  tu_input_audio :: "nat option"
  tu_input_image :: "nat option"

datatype Billing = BillTokens TokenUsage | BillDuration f64 | BillCharacters nat | BillImages nat "string option" "string option" | BillFlat

definition record_ir_usage :: "'s Store \<Rightarrow> IrUsage \<Rightarrow> UsageSink option \<Rightarrow> Lane option \<Rightarrow> 's GovState \<Rightarrow> 's GovState option" where
  "record_ir_usage vt usage sink lane g = (case (sink, lane) of (Some sink, Some lane) \<Rightarrow> (let tier = tier_tokens usage in do {
       g1 \<leftarrow> (if \<not> tier_is_zero tier
             then record_usage (us_cost sink) (us_key sink) (us_pool sink) (wire_model lane) tier (us_charged_at sink) g else Some g);
       Some (record_metering vt (vk_id (us_key sink)) (la_model lane) (la_provider lane) (Some usage) (us_charged_at sink) g1) })
     | _ \<Rightarrow> Some g)"

definition record_resp_usage :: "'s Store \<Rightarrow> Billing option \<Rightarrow> UsageSink option \<Rightarrow> Lane option \<Rightarrow> 's GovState \<Rightarrow> 's GovState option" where
  "record_resp_usage vt billing sink lane g = (case billing of
       Some (BillTokens t) \<Rightarrow> record_ir_usage vt \<lparr>input_tokens = tu_input t, output_tokens = tu_output t,
         cache_creation_input_tokens = tu_cache_creation t, cache_read_input_tokens = tu_cache_read t\<rparr> sink lane g
     | _ \<Rightarrow> (case (sink, lane) of (Some sink, Some lane) \<Rightarrow>
           Some (record_metering vt (vk_id (us_key sink)) (la_model lane) (la_provider lane) None (us_charged_at sink) g)
         | _ \<Rightarrow> Some g))"

subsection \<open>The body\<close>

datatype inner_poll = Chunk bytes | Failure | EndOfStream | NotReady

datatype poll = Ready bytes | ReadyErr | ReadyNone | Pending

record ('v, 'j, 'd, 'w, 'f, 's) BodyEnv =
  be_out :: Outside
  be_app :: App
  be_vt :: "'s Store"
  be_proto :: "('v, 'j, 'd, 'w, 'f) Protocols"
  be_fresh_writer :: 'w
  be_reparse :: "bytes \<Rightarrow> bytes option"
  be_status_json :: "nat \<Rightarrow> bytes \<Rightarrow> bytes \<Rightarrow> bytes"
  be_api_error_json :: "bytes \<Rightarrow> bytes"
  be_taps_nonstream_usage :: bool
  be_extract_usage :: "bytes \<Rightarrow> IrUsage option"
  max_translated_body_bytes :: nat

record ('d, 'w, 'f) FirstByteBody =
  fb_first_byte_sent :: bool
  fb_is_sse :: bool
  fb_permit :: "Permit option"
  fb_lane_idx :: nat
  fb_breaker_cfg :: BreakerCfg
  fb_pool :: string
  fb_translate :: "('d, 'w, 'f) StreamTranslate option"
  fb_json_array :: "JsonArrayFramer option"
  fb_usage_sink :: "UsageSink option"
  fb_budget_spent :: bool
  fb_ended :: bool
  fb_stream_failed :: bool
  fb_nonstream_buf :: bytes

text \<open>What the body acts on: the breaker store, the governance state and the number of the next clock reading.\<close>

record 's World =
  wd_store :: InMemoryStore
  wd_gov :: "'s GovState"
  wd_tick :: nat

definition FirstByteBody_new ::
  "bool \<Rightarrow> Permit \<Rightarrow> nat \<Rightarrow> BreakerCfg \<Rightarrow> string \<Rightarrow> ('d, 'w, 'f) StreamTranslate option \<Rightarrow> JsonArrayFramer option
   \<Rightarrow> UsageSink option \<Rightarrow> bool \<Rightarrow> ('d, 'w, 'f) FirstByteBody" where
  "FirstByteBody_new sse permit lane cfg pool t ja sink spent =
     \<lparr>fb_first_byte_sent = False, fb_is_sse = sse, fb_permit = Some permit, fb_lane_idx = lane, fb_breaker_cfg = cfg, fb_pool = pool,
      fb_translate = t, fb_json_array = ja, fb_usage_sink = sink, fb_budget_spent = spent, fb_ended = False, fb_stream_failed = False,
      fb_nonstream_buf = []\<rparr>"

subsection \<open>A chunk\<close>

definition tap_nonstream :: "('v, 'j, 'd, 'w, 'f, 's) BodyEnv \<Rightarrow> bytes \<Rightarrow> ('d, 'w, 'f) FirstByteBody \<Rightarrow> ('d, 'w, 'f) FirstByteBody" where
  "tap_nonstream e chunk b =
     (if \<not> fb_is_sse b \<and> be_taps_nonstream_usage e \<and> fb_usage_sink b \<noteq> None \<and> length (fb_nonstream_buf b) < max_translated_body_bytes e
      then let remaining = max_translated_body_bytes e - length (fb_nonstream_buf b)
        in b\<lparr>fb_nonstream_buf := fb_nonstream_buf b @ (if length chunk \<le> remaining then chunk else take remaining chunk)\<rparr>
      else b)"

text \<open>The result is \<open>None\<close> when the loop polls the inner stream again.\<close>

definition on_chunk :: "('v, 'j, 'd, 'w, 'f, 's) BodyEnv \<Rightarrow> bytes \<Rightarrow> ('d, 'w, 'f) FirstByteBody \<Rightarrow> ('d, 'w, 'f) FirstByteBody \<times> bytes option" where
  "on_chunk e chunk b = (let b = b\<lparr>fb_first_byte_sent := True\<rparr> in
     case fb_translate b of
       Some t \<Rightarrow> (case feed (be_proto e) t chunk of (t, out) \<Rightarrow> (let b = b\<lparr>fb_translate := Some t\<rparr> in
           case fb_json_array b of
             Some fr \<Rightarrow> (case ja_feed (be_reparse e) fr out of (fr, framed) \<Rightarrow>
                 (b\<lparr>fb_json_array := Some fr\<rparr>, if framed = [] then None else Some framed))
           | None \<Rightarrow> (b, if out = [] then None else Some out)))
     | None \<Rightarrow> (let b = tap_nonstream e chunk b in
           case fb_json_array b of
             Some fr \<Rightarrow> (case ja_feed (be_reparse e) fr chunk of (fr, framed) \<Rightarrow>
                 (b\<lparr>fb_json_array := Some fr\<rparr>, if framed = [] then None else Some framed))
           | None \<Rightarrow> (b, Some chunk)))"

subsection \<open>A transport failure\<close>

definition MID_STREAM_GENERIC_DETAIL :: bytes where
  "MID_STREAM_GENERIC_DETAIL = STREAM_ABORT_DETAIL"

definition mid_stream_error_bytes :: "('v, 'j, 'd, 'w, 'f, 's) BodyEnv \<Rightarrow> bytes \<Rightarrow> bytes" where
  "mid_stream_error_bytes e message = (let p = be_proto e; err = \<lparr>sig_class = ServerError, provider_signal = Some message, retry_after = None\<rparr> in
     case (if ingress_eventstream p then write_response_exception p err else None) of
       Some (exc_name, msg) \<Rightarrow> encode_exception_frame (crc32 p) (message_json p) exc_name msg
     | None \<Rightarrow> (case fst (write_response_event p (be_fresh_writer e) (StreamError err)) of
           Some (event_type, data) \<Rightarrow> (let text = (case json_to_vec p data of Some d \<Rightarrow> d | None \<Rightarrow> be_api_error_json e message) in
             if event_type = [] then ''data: '' @ text @ [LF, LF] else ''event: '' @ event_type @ [LF] @ ''data: '' @ text @ [LF, LF])
         | None \<Rightarrow> ''data: '' @ be_api_error_json e message @ [LF, LF]))"

definition body_transient :: "('v, 'j, 'd, 'w, 'f, 's) BodyEnv \<Rightarrow> ('d, 'w, 'f) FirstByteBody \<Rightarrow> 's World \<Rightarrow> 's World option" where
  "body_transient e b w = do {
     (st, tripped) \<leftarrow> record_failure_for (wd_store w) (fb_pool b) (fb_lane_idx b) (clk (be_out e) (wd_tick w)) (fb_breaker_cfg b) None
        (jit (be_out e) (wd_tick w));
     Some (w\<lparr>wd_store := st, wd_tick := wd_tick w + 1\<rparr>) }"

definition body_refund :: "('d, 'w, 'f) FirstByteBody \<Rightarrow> 's World \<Rightarrow> 's World option" where
  "body_refund b w = do { st \<leftarrow> refund_budget (wd_store w) (fb_lane_idx b); Some (w\<lparr>wd_store := st\<rparr>) }"

definition take_permit :: "('v, 'j, 'd, 'w, 'f, 's) BodyEnv \<Rightarrow> ('d, 'w, 'f) FirstByteBody \<Rightarrow> 's World \<Rightarrow> 's World option" where
  "take_permit e b w = (case fb_permit b of None \<Rightarrow> Some w
     | Some permit \<Rightarrow> do { st \<leftarrow> drop_permit (be_out e) permit (fb_lane_idx b) (wd_store w); Some (w\<lparr>wd_store := st\<rparr>) })"

definition on_failure :: "('v, 'j, 'd, 'w, 'f, 's) BodyEnv \<Rightarrow> ('d, 'w, 'f) FirstByteBody \<Rightarrow> 's World
    \<Rightarrow> (poll \<times> ('d, 'w, 'f) FirstByteBody \<times> 's World) option" where
  "on_failure e b w = (let b = b\<lparr>fb_stream_failed := True\<rparr> in
     if fb_first_byte_sent b \<and> fb_is_sse b then do {
       w1 \<leftarrow> body_transient e b w;
       w2 \<leftarrow> take_permit e b w1;
       let b = b\<lparr>fb_permit := None, fb_ended := True\<rparr>;
       case fb_json_array b of
         Some fr \<Rightarrow> (case finish_with_server_error (be_status_json e) MID_STREAM_GENERIC_DETAIL fr of (fr, err_bytes) \<Rightarrow>
             Some (Ready err_bytes, b\<lparr>fb_json_array := Some fr\<rparr>, w2))
       | None \<Rightarrow> Some (Ready (mid_stream_error_bytes e MID_STREAM_GENERIC_DETAIL), b, w2) }
     else do {
       w1 \<leftarrow> body_transient e b w;
       w2 \<leftarrow> (if fb_budget_spent b then body_refund b w1 else Some w1);
       w3 \<leftarrow> take_permit e b w2;
       Some (ReadyErr, b\<lparr>fb_budget_spent := False, fb_permit := None, fb_ended := True\<rparr>, w3) })"

subsection \<open>The end of the stream\<close>

definition translate_aborted :: "('d, 'w, 'f) FirstByteBody \<Rightarrow> bool" where
  "translate_aborted b = (case fb_translate b of Some t \<Rightarrow> aborted t | None \<Rightarrow> False)"

definition stream_terminal_error :: "('d, 'w, 'f) FirstByteBody \<Rightarrow> bool" where
  "stream_terminal_error b = (case fb_translate b of Some t \<Rightarrow> terminal_error (translation t) \<noteq> None | None \<Rightarrow> False)"

definition finish_translate :: "('v, 'j, 'd, 'w, 'f, 's) BodyEnv \<Rightarrow> ('d, 'w, 'f) FirstByteBody \<Rightarrow> ('d, 'w, 'f) FirstByteBody \<times> bytes" where
  "finish_translate e b = (case fb_translate b of None \<Rightarrow> (b, [])
     | Some t \<Rightarrow> (case finish (be_proto e) t of (t, tail) \<Rightarrow> (b\<lparr>fb_translate := Some t\<rparr>, tail)))"

definition close_bytes :: "('v, 'j, 'd, 'w, 'f, 's) BodyEnv \<Rightarrow> bool \<Rightarrow> bytes \<Rightarrow> ('d, 'w, 'f) FirstByteBody \<Rightarrow> ('d, 'w, 'f) FirstByteBody \<times> bytes" where
  "close_bytes e t_aborted tail b = (case fb_json_array b of None \<Rightarrow> (b, tail)
     | Some fr \<Rightarrow> (case (if t_aborted then (fr, []) else ja_feed (be_reparse e) fr tail) of (fr, wrapped) \<Rightarrow>
         case finish_for_translate (be_status_json e) t_aborted fr of (fr, closing) \<Rightarrow> (b\<lparr>fb_json_array := Some fr\<rparr>, wrapped @ closing)))"

definition end_usage :: "('v, 'j, 'd, 'w, 'f, 's) BodyEnv \<Rightarrow> ('d, 'w, 'f) FirstByteBody \<Rightarrow> IrUsage option" where
  "end_usage e b = (if fb_usage_sink b = None then None
     else case fb_translate b of Some t \<Rightarrow> last_usage (translation t)
     | None \<Rightarrow> if \<not> fb_is_sse b \<and> fb_nonstream_buf b \<noteq> [] then be_extract_usage e (fb_nonstream_buf b) else None)"

definition on_end :: "('v, 'j, 'd, 'w, 'f, 's) BodyEnv \<Rightarrow> ('d, 'w, 'f) FirstByteBody \<Rightarrow> 's World
    \<Rightarrow> (poll \<times> ('d, 'w, 'f) FirstByteBody \<times> 's World) option" where
  "on_end e b w = (let t_aborted = translate_aborted b; breaker_failed = stream_terminal_error b \<or> t_aborted in do {
     w1 \<leftarrow> (if fb_is_sse b \<and> fb_first_byte_sent b \<and> breaker_failed then body_transient e b w else Some w);
     let (b, tail) = finish_translate e b;
     let (b, closing) = close_bytes e t_aborted tail b;
     w2 \<leftarrow> take_permit e b w1;
     let b = b\<lparr>fb_permit := None, fb_ended := True\<rparr>;
     let usage = end_usage e b;
     w3 \<leftarrow> (case fb_usage_sink b of None \<Rightarrow> Some w2
        | Some sink \<Rightarrow> if stream_terminal_error b \<or> t_aborted then Some w2
            else (case app_lane (be_app e) (fb_lane_idx b) of None \<Rightarrow> Some w2
              | Some lane \<Rightarrow> do { g \<leftarrow> bill (be_vt e) sink lane usage (wd_gov w2); Some (w2\<lparr>wd_gov := g\<rparr>) }));
     Some (if closing \<noteq> [] then Ready closing else ReadyNone,
           b\<lparr>fb_usage_sink := None, fb_nonstream_buf := if fb_usage_sink b \<noteq> None \<and> fb_translate b = None \<and> \<not> fb_is_sse b then [] else fb_nonstream_buf b\<rparr>, w3) })"

subsection \<open>Polling and dropping\<close>

fun poll_loop :: "('v, 'j, 'd, 'w, 'f, 's) BodyEnv \<Rightarrow> inner_poll list \<Rightarrow> ('d, 'w, 'f) FirstByteBody \<Rightarrow> 's World
    \<Rightarrow> (poll \<times> ('d, 'w, 'f) FirstByteBody \<times> 's World \<times> inner_poll list) option" where
  "poll_loop e [] b w = Some (Pending, b, w, [])"
| "poll_loop e (NotReady # s) b w = Some (Pending, b, w, s)"
| "poll_loop e (Chunk c # s) b w = (case on_chunk e c b of (b1, Some out) \<Rightarrow> Some (Ready out, b1, w, s) | (b1, None) \<Rightarrow> poll_loop e s b1 w)"
| "poll_loop e (Failure # s) b w = do { (r, b1, w1) \<leftarrow> on_failure e b w; Some (r, b1, w1, s) }"
| "poll_loop e (EndOfStream # s) b w = do { (r, b1, w1) \<leftarrow> on_end e b w; Some (r, b1, w1, s) }"

definition poll_next :: "('v, 'j, 'd, 'w, 'f, 's) BodyEnv \<Rightarrow> inner_poll list \<Rightarrow> ('d, 'w, 'f) FirstByteBody \<Rightarrow> 's World
    \<Rightarrow> (poll \<times> ('d, 'w, 'f) FirstByteBody \<times> 's World \<times> inner_poll list) option" where
  "poll_next e s b w = (if fb_ended b then Some (ReadyNone, b, w, s) else poll_loop e s b w)"

text \<open>Dropping the body: the \<open>Drop\<close> implementation, then the fields, the permit among them.\<close>

definition drop_body :: "('v, 'j, 'd, 'w, 'f, 's) BodyEnv \<Rightarrow> ('d, 'w, 'f) FirstByteBody \<Rightarrow> 's World \<Rightarrow> 's World option" where
  "drop_body e b w = do {
     w1 \<leftarrow> (case fb_usage_sink b of None \<Rightarrow> Some w
       | Some sink \<Rightarrow> if fb_stream_failed b \<or> stream_terminal_error b \<or> translate_aborted b then Some w
           else let usage = Option.bind (fb_translate b) (\<lambda>t. last_usage (translation t)) in
             if tier_is_zero (tier_of usage) then Some w
             else case app_lane (be_app e) (fb_lane_idx b) of None \<Rightarrow> Some w
               | Some lane \<Rightarrow> do { g \<leftarrow> bill (be_vt e) sink lane usage (wd_gov w); Some (w\<lparr>wd_gov := g\<rparr>) });
     take_permit e b w1 }"

text \<open>A client that polls \<open>n\<close> times and then drops the body.\<close>

fun polls :: "nat \<Rightarrow> ('v, 'j, 'd, 'w, 'f, 's) BodyEnv \<Rightarrow> inner_poll list \<Rightarrow> ('d, 'w, 'f) FirstByteBody \<Rightarrow> 's World
    \<Rightarrow> (poll list \<times> ('d, 'w, 'f) FirstByteBody \<times> 's World) option" where
  "polls 0 e s b w = Some ([], b, w)"
| "polls (Suc n) e s b w = do { (r, b1, w1, s1) \<leftarrow> poll_next e s b w; (rs, b2, w2) \<leftarrow> polls n e s1 b1 w1; Some (r # rs, b2, w2) }"

definition serve_body :: "nat \<Rightarrow> ('v, 'j, 'd, 'w, 'f, 's) BodyEnv \<Rightarrow> inner_poll list \<Rightarrow> ('d, 'w, 'f) FirstByteBody \<Rightarrow> 's World
    \<Rightarrow> (poll list \<times> ('d, 'w, 'f) FirstByteBody \<times> 's World) option" where
  "serve_body n e s b w = do { (rs, b1, w1) \<leftarrow> polls n e s b w; w2 \<leftarrow> drop_body e b1 w1; Some (rs, b1, w2) }"

text \<open>\<open>read_capped\<close> of \<open>proxy/wire.rs\<close>: the buffered read of a body under a cap.\<close>

fun read_capped :: "nat \<Rightarrow> bytes \<Rightarrow> inner_poll list \<Rightarrow> bytes \<times> ReadEnd" where
  "read_capped cap acc [] = (acc, Complete)"
| "read_capped cap acc (NotReady # s) = read_capped cap acc s"
| "read_capped cap acc (EndOfStream # s) = (acc, Complete)"
| "read_capped cap acc (Failure # s) = (acc, TransportError)"
| "read_capped cap acc (Chunk c # s) = (let remaining = cap - length acc; n = min remaining (length c) in
     if remaining = 0 then (acc, Truncated)
     else if n < length c then (acc @ take n c, Truncated)
     else read_capped cap (acc @ take n c) s)"

end
