(* ===== verification/BodyRuns.thy ===== *)
theory BodyRuns
  imports StreamBody Requests GovAdmit
begin

text \<open>
  What a streamed response does to the breaker, the lane's budget and the ledger, for every sequence of
  upstream events, every number of client polls and a client that goes away at any moment.
\<close>

subsection \<open>A body before its end\<close>

definition steady :: "('d, 'w, 'f) FirstByteBody \<Rightarrow> ('d, 'w, 'f) FirstByteBody \<Rightarrow> bool" where
  "steady b0 b \<longleftrightarrow> fb_is_sse b = fb_is_sse b0 \<and> fb_permit b = fb_permit b0 \<and> fb_lane_idx b = fb_lane_idx b0
     \<and> fb_breaker_cfg b = fb_breaker_cfg b0 \<and> fb_pool b = fb_pool b0 \<and> fb_usage_sink b = fb_usage_sink b0
     \<and> fb_budget_spent b = fb_budget_spent b0 \<and> \<not> fb_ended b \<and> \<not> fb_stream_failed b"

definition failed :: "('d, 'w, 'f) FirstByteBody \<Rightarrow> bool" where
  "failed b \<longleftrightarrow> fb_stream_failed b \<or> stream_terminal_error b \<or> translate_aborted b"

definition stream_ok :: "('d, 'w, 'f) FirstByteBody \<Rightarrow> 's World \<Rightarrow> bool" where
  "stream_ok b w \<longleftrightarrow> store_wf (wd_store w) \<and> fb_lane_idx b < length (lanes (wd_store w)) \<and> cfg_ok (fb_breaker_cfg b)
     \<and> (\<forall>sink. fb_usage_sink b = Some sink \<longrightarrow> chain_for (us_cost sink) (us_key sink) \<noteq> None)"

lemma tap_nonstream_steady [simp]: "steady b0 (tap_nonstream e c b) = steady b0 b"
  by (simp add: tap_nonstream_def steady_def Let_def)

lemma tap_nonstream_same [simp]:
  "fb_translate (tap_nonstream e c b) = fb_translate b" "fb_json_array (tap_nonstream e c b) = fb_json_array b"
  "fb_first_byte_sent (tap_nonstream e c b) = fb_first_byte_sent b"
  by (simp_all add: tap_nonstream_def Let_def)

lemma steady_simps [simp]:
  "steady b0 (b\<lparr>fb_first_byte_sent := x\<rparr>) = steady b0 b" "steady b0 (b\<lparr>fb_translate := t\<rparr>) = steady b0 b"
  "steady b0 (b\<lparr>fb_json_array := ja\<rparr>) = steady b0 b"
  by (simp_all add: steady_def)

lemma on_chunk_steady: "on_chunk e c b = (b', r) \<Longrightarrow> steady b0 b \<Longrightarrow> steady b0 b'"
  by (auto simp: on_chunk_def Let_def split: option.splits prod.splits)

subsection \<open>Settling\<close>

text \<open>The breaker failure, the refund and the release of the permit a stream may owe.\<close>

definition settle :: "('v, 'j, 'd, 'w, 'f, 's) BodyEnv \<Rightarrow> ('d, 'w, 'f) FirstByteBody \<Rightarrow> bool \<Rightarrow> bool \<Rightarrow> 's World \<Rightarrow> 's World option" where
  "settle e b fails refund w = do {
     w1 \<leftarrow> (if fails then body_transient e b w else Some w);
     w2 \<leftarrow> (if refund then body_refund b w1 else Some w1);
     take_permit e b w2 }"

lemma settle_cong:
  "fb_lane_idx b = fb_lane_idx b0 \<Longrightarrow> fb_pool b = fb_pool b0 \<Longrightarrow> fb_breaker_cfg b = fb_breaker_cfg b0 \<Longrightarrow>
     body_transient e b = body_transient e b0 \<and> body_refund b = body_refund b0 \<and> (fb_permit b = fb_permit b0 \<longrightarrow> take_permit e b = take_permit e b0)"
  by (intro conjI impI ext) (simp_all add: body_transient_def body_refund_def take_permit_def split: option.split)

lemma body_transient_total:
  assumes "stream_ok b w"
  obtains w1 where "body_transient e b w = Some w1" "stream_ok b w1" "wd_gov w1 = wd_gov w"
proof -
  obtain st' r where f: "record_failure_for (wd_store w) (fb_pool b) (fb_lane_idx b) (clk (be_out e) (wd_tick w)) (fb_breaker_cfg b) None
      (jit (be_out e) (wd_tick w)) = Some (st', r)"
    and t: "tidy (wd_store w) (ends (wd_store w) (fb_pool b) (fb_lane_idx b)) st'"
    using assms failure_does unfolding stream_ok_def by metis
  show thesis
    by (rule that [of "w\<lparr>wd_store := st', wd_tick := wd_tick w + 1\<rparr>"]) (use f assms tidy_next [OF t, of "fb_lane_idx b"] in \<open>simp_all add: body_transient_def stream_ok_def\<close>)
qed

lemma body_refund_total:
  assumes "stream_ok b w"
  obtains w1 where "body_refund b w = Some w1" "stream_ok b w1" "wd_gov w1 = wd_gov w"
proof -
  let ?i = "fb_lane_idx b" and ?st = "wd_store w"
  have g: "get_lane ?st ?i = Some (lanes ?st ! ?i)" and w: "store_wf ?st" "?i < length (lanes ?st)" using assms by (simp_all add: stream_ok_def get_lane_def)
  have "store_wf (set_lane ?st ?i ((lanes ?st ! ?i)\<lparr>budget := x\<rparr>))" for x using set_budget [OF w] by simp
  then show thesis using that assms g by (auto simp: body_refund_def refund_budget_def stream_ok_def set_lane_def)
qed

lemma take_permit_total:
  assumes "stream_ok b w"
  obtains w1 where "take_permit e b w = Some w1" "stream_ok b w1" "wd_gov w1 = wd_gov w"
proof (cases "fb_permit b")
  case (Some permit)
  obtain st where "drop_permit (be_out e) permit (fb_lane_idx b) (wd_store w) = Some st" "tidy (wd_store w) {} st"
    using drop_permit_does assms unfolding stream_ok_def by (metis doesE)
  then show thesis
    by (intro that [of "w\<lparr>wd_store := st\<rparr>"]) (use Some assms tidy_next [of "wd_store w" "{}" st "fb_lane_idx b"] in \<open>simp_all add: take_permit_def stream_ok_def\<close>)
qed (use that assms in \<open>simp add: take_permit_def\<close>)

lemma body_ok_gov [simp]: "stream_ok b (w\<lparr>wd_gov := g\<rparr>) = stream_ok b w"
  by (simp add: stream_ok_def)

lemma settle_total:
  assumes "stream_ok b w"
  obtains w1 where "settle e b fails refund w = Some w1" "wd_gov w1 = wd_gov w"
proof -
  obtain w1 where 1: "(if fails then body_transient e b w else Some w) = Some w1" "stream_ok b w1" "wd_gov w1 = wd_gov w"
    using assms by (metis body_transient_total)
  obtain w2 where 2: "(if refund then body_refund b w1 else Some w1) = Some w2" "stream_ok b w2" "wd_gov w2 = wd_gov w1"
    using 1(2) by (metis body_refund_total)
  obtain w3 where "take_permit e b w2 = Some w3" "wd_gov w3 = wd_gov w2" using take_permit_total [OF 2(2)] by blast
  then show thesis using that 1 2 by (simp add: settle_def)
qed

lemma bill_total:
  assumes "chain_for (us_cost sink) (us_key sink) \<noteq> None"
  shows "\<exists>g'. bill vt sink lane usage g = Some g'"
  using assms by (auto simp: bill_def record_usage_def)

subsection \<open>The end arms\<close>

text \<open>The bytes a client received, and what a stream that has ended left in the ledger.\<close>

definition delivered :: "poll list \<Rightarrow> bytes" where
  "delivered rs = concat (map (\<lambda>r. case r of Ready x \<Rightarrow> x | _ \<Rightarrow> []) rs)"

lemma delivered_Cons: "delivered (r # rs) = delivered [r] @ delivered rs"
  by (simp add: delivered_def)

lemma delivered_simps [simp]:
  "delivered [] = []" "delivered (Ready x # rs) = x @ delivered rs" "delivered (ReadyNone # rs) = delivered rs"
  "delivered (ReadyErr # rs) = delivered rs" "delivered (Pending # rs) = delivered rs" "delivered (replicate n ReadyNone) = []"
  by (simp_all add: delivered_def)

definition billed :: "('v, 'j, 'd, 'w, 'f, 's) BodyEnv \<Rightarrow> ('d, 'w, 'f) FirstByteBody \<Rightarrow> IrUsage option \<Rightarrow> 's GovState \<Rightarrow> 's GovState \<Rightarrow> bool" where
  "billed e b usage g g' \<longleftrightarrow> (case (fb_usage_sink b, app_lane (be_app e) (fb_lane_idx b)) of
      (Some sink, Some lane) \<Rightarrow> bill (be_vt e) sink lane usage g = Some g' | _ \<Rightarrow> g' = g)"

lemma verdict_simps [simp]:
  "stream_terminal_error (b\<lparr>fb_permit := x\<rparr>) = stream_terminal_error b" "stream_terminal_error (b\<lparr>fb_ended := y\<rparr>) = stream_terminal_error b"
  "stream_terminal_error (b\<lparr>fb_usage_sink := z\<rparr>) = stream_terminal_error b" "stream_terminal_error (b\<lparr>fb_nonstream_buf := q\<rparr>) = stream_terminal_error b"
  "stream_terminal_error (b\<lparr>fb_stream_failed := y\<rparr>) = stream_terminal_error b" "stream_terminal_error (b\<lparr>fb_budget_spent := y\<rparr>) = stream_terminal_error b"
  "translate_aborted (b\<lparr>fb_permit := x\<rparr>) = translate_aborted b" "translate_aborted (b\<lparr>fb_ended := y\<rparr>) = translate_aborted b"
  "translate_aborted (b\<lparr>fb_usage_sink := z\<rparr>) = translate_aborted b" "translate_aborted (b\<lparr>fb_nonstream_buf := q\<rparr>) = translate_aborted b"
  "translate_aborted (b\<lparr>fb_stream_failed := y\<rparr>) = translate_aborted b" "translate_aborted (b\<lparr>fb_budget_spent := y\<rparr>) = translate_aborted b"
  "end_usage e (b\<lparr>fb_permit := x\<rparr>) = end_usage e b" "end_usage e (b\<lparr>fb_ended := y\<rparr>) = end_usage e b"
  by (simp_all add: stream_terminal_error_def translate_aborted_def end_usage_def split: option.split)

lemma billed_total: "stream_ok b w \<Longrightarrow> \<exists>g'. billed e b usage g g'"
  by (cases "fb_usage_sink b"; cases "app_lane (be_app e) (fb_lane_idx b)") (auto simp: billed_def stream_ok_def intro!: bill_total)

lemma flush_terminal_metered: "metered (fst (flush_terminal p s)) = metered s"
proof (cases "pending_terminal s")
  case (Some x)
  then show ?thesis by (cases x) (simp only: flush_terminal_def option.case prod.case act_all_metered metered_simps)
qed (simp add: flush_terminal_def)

lemma finish_keeps:
  "metered (translation (fst (finish p t))) = metered (translation t) \<and> aborted (fst (finish p t)) = aborted t"
proof -
  let ?s = "translation t"
  have emit: "metered (fst (emit_ir_event p ev s)) = metered s" for ev s using act_metered [of p "Emit ev" s] by simp
  obtain trailing f where o: "on_finish p (framing ?s) = (trailing, f)" by (cases "on_finish p (framing ?s)")
  let ?as = "case trailing of Some ev \<Rightarrow> [Emit ev] | None \<Rightarrow> []"
  have "metered (fst (flush_terminal p (fst (act_all p ?as (?s\<lparr>framing := f\<rparr>))))) = metered ?s"
    by (simp only: flush_terminal_metered act_all_metered metered_simps)
  then show ?thesis using o by (simp add: finish_def Let_def case_prod_beta emit split: option.split)
qed

lemma close_bytes_same:
  assumes "close_bytes e ab tail b = (b', closing)"
  shows "b' = b\<lparr>fb_json_array := fb_json_array b'\<rparr>"
  using assms by (cases b) (auto simp: close_bytes_def split: option.splits prod.splits if_splits)


lemma finish_translate_keeps:
  assumes "finish_translate e b = (b', tail)"
  shows "b' = b\<lparr>fb_translate := fb_translate b'\<rparr>" "stream_terminal_error b' = stream_terminal_error b"
    "translate_aborted b' = translate_aborted b" "end_usage e b' = end_usage e b" "fb_translate b' = None \<longleftrightarrow> fb_translate b = None"
proof -
  show "b' = b\<lparr>fb_translate := fb_translate b'\<rparr>"
    using assms by (cases b) (auto simp: finish_translate_def split: option.splits prod.splits)
  have "fb_translate b' = map_option (\<lambda>t. fst (finish (be_proto e) t)) (fb_translate b)" "fb_usage_sink b' = fb_usage_sink b"
    "fb_is_sse b' = fb_is_sse b" "fb_nonstream_buf b' = fb_nonstream_buf b"
    using assms by (auto simp: finish_translate_def split: option.splits prod.splits)
  then show "stream_terminal_error b' = stream_terminal_error b" "translate_aborted b' = translate_aborted b"
    "end_usage e b' = end_usage e b" "fb_translate b' = None \<longleftrightarrow> fb_translate b = None"
    using finish_keeps [of "be_proto e"]
    by (auto simp: stream_terminal_error_def translate_aborted_def end_usage_def metered_def split: option.split)
qed

lemma close_bytes_keeps:
  assumes "close_bytes e ab tail b = (b', closing)"
  shows "stream_terminal_error b' = stream_terminal_error b" "translate_aborted b' = translate_aborted b" "end_usage e b' = end_usage e b"
  by (subst close_bytes_same [OF assms], simp add: stream_terminal_error_def translate_aborted_def end_usage_def split: option.split)+

text \<open>Both gates of the end arm, the breaker's and the ledger's, read the same verdict.\<close>

lemma on_end_effect:
  assumes "steady b0 b" "stream_ok b0 w"
  obtains r b' w' where "on_end e b w = Some (r, b', w')" "fb_ended b'" "fb_permit b' = None" "fb_usage_sink b' = None" "\<not> fb_stream_failed b'"
    "\<exists>w1. settle e b0 (fb_is_sse b \<and> fb_first_byte_sent b \<and> failed b) False w = Some w1 \<and> wd_store w' = wd_store w1"
    "failed b' = failed b" "if failed b then wd_gov w' = wd_gov w else billed e b0 (end_usage e b) (wd_gov w) (wd_gov w')"
    "r \<noteq> ReadyErr" "fb_first_byte_sent b' = fb_first_byte_sent b"
    "delivered [r] = snd (close_bytes e (translate_aborted b) (snd (finish_translate e b)) (fst (finish_translate e b)))"
proof -
  obtain b1 tail where 1: "finish_translate e b = (b1, tail)" by (cases "finish_translate e b")
  obtain b2 closing where 2: "close_bytes e (translate_aborted b) tail b1 = (b2, closing)" by (cases "close_bytes e (translate_aborted b) tail b1")
  have k: "stream_terminal_error b2 = stream_terminal_error b" "translate_aborted b2 = translate_aborted b" "end_usage e b2 = end_usage e b"
    using finish_translate_keeps [OF 1] close_bytes_keeps [OF 2] by simp_all
  have f: "failed b \<longleftrightarrow> stream_terminal_error b \<or> translate_aborted b" using assms(1) by (simp add: failed_def steady_def)
  have b2: "fb_lane_idx b2 = fb_lane_idx b0" "fb_pool b2 = fb_pool b0" "fb_breaker_cfg b2 = fb_breaker_cfg b0" "fb_permit b2 = fb_permit b0"
    "fb_usage_sink b2 = fb_usage_sink b0" "fb_stream_failed b2 = False" "fb_first_byte_sent b2 = fb_first_byte_sent b"
    using assms(1) by (subst close_bytes_same [OF 2], subst finish_translate_keeps(1) [OF 1], simp add: steady_def)+
  let ?fails = "fb_is_sse b \<and> fb_first_byte_sent b \<and> failed b"
  obtain w2 where w2: "settle e b0 ?fails False w = Some w2" "wd_gov w2 = wd_gov w" using settle_total [OF assms(2)] by blast
  have b: "body_transient e b = body_transient e b0" using assms(1) settle_cong [of b b0 e] unfolding steady_def by blast
  have p: "take_permit e b2 = take_permit e b0" using settle_cong [of b2 b0 e] b2 by blast
  obtain g where g: "billed e b0 (end_usage e b) (wd_gov w) g" using billed_total [OF assms(2)] by blast
  let ?w = "if failed b then w2 else w2\<lparr>wd_gov := g\<rparr>"
  let ?b = "b2\<lparr>fb_permit := None, fb_ended := True, fb_usage_sink := None,
     fb_nonstream_buf := if fb_usage_sink b2 \<noteq> None \<and> fb_translate b2 = None \<and> \<not> fb_is_sse b2 then [] else fb_nonstream_buf b2\<rparr>"
  obtain w1 where w1: "(if ?fails then body_transient e b w else Some w) = Some w1" "take_permit e b0 w1 = Some w2"
    using w2(1) b by (auto simp: settle_def split: bind_splits if_splits)
  have "on_end e b w = Some (if closing \<noteq> [] then Ready closing else ReadyNone, ?b, ?w)"
    using w1 w2(2) g f p b2 k by (simp add: on_end_def Let_def 1 2 billed_def split: option.splits)
  moreover have "(if closing \<noteq> [] then Ready closing else ReadyNone) \<noteq> ReadyErr" "delivered [if closing \<noteq> [] then Ready closing else ReadyNone] = closing"
    by simp_all
  ultimately show thesis using that [of _ ?b ?w] b2 k w2 g f by (auto simp: failed_def 1 2)
qed

lemma on_failure_effect:
  fixes w :: "'s World"
  assumes "steady b0 b" "stream_ok b0 w"
  obtains r b' w' where "on_failure e b w = Some (r, b', w')" "fb_ended b'" "fb_permit b' = None" "fb_usage_sink b' = fb_usage_sink b0" "fb_stream_failed b'"
    "settle e b0 True (fb_budget_spent b0 \<and> r = ReadyErr) w = Some w'" "wd_gov w' = wd_gov w"
    "r = ReadyErr \<longleftrightarrow> \<not> (fb_first_byte_sent b \<and> fb_is_sse b0)"
proof -
  let ?sse = "fb_first_byte_sent b \<and> fb_is_sse b0" and ?b = "b\<lparr>fb_stream_failed := True\<rparr>"
  obtain w' where w': "settle e b0 True (fb_budget_spent b0 \<and> \<not> ?sse) w = Some w'" "wd_gov w' = wd_gov w" using settle_total [OF assms(2)] by blast
  have b: "body_transient e ?b = body_transient e b0" "body_refund ?b = (body_refund b0 :: 's World \<Rightarrow> _)" "take_permit e ?b = take_permit e b0"
    using assms(1) settle_cong [of ?b b0 e] unfolding steady_def by auto
  have s: "fb_is_sse b = fb_is_sse b0" "fb_budget_spent b = fb_budget_spent b0" "fb_usage_sink b = fb_usage_sink b0" using assms(1) by (simp_all add: steady_def)
  show thesis
  proof (cases ?sse)
    case True
    obtain fr x where fr: "\<And>y. fb_json_array b = Some y \<Longrightarrow> finish_with_server_error (be_status_json e) MID_STREAM_GENERIC_DETAIL y = (fr, x)"
      by (cases "fb_json_array b"; cases "finish_with_server_error (be_status_json e) MID_STREAM_GENERIC_DETAIL (the (fb_json_array b))") auto
    let ?bj = "case fb_json_array b of None \<Rightarrow> ?b\<lparr>fb_permit := None, fb_ended := True\<rparr>
       | Some y \<Rightarrow> ?b\<lparr>fb_permit := None, fb_ended := True, fb_json_array := Some fr\<rparr>"
    let ?r = "case fb_json_array b of None \<Rightarrow> Ready (mid_stream_error_bytes e MID_STREAM_GENERIC_DETAIL) | Some y \<Rightarrow> Ready x"
    have "on_failure e b w = Some (?r, ?bj, w')" using True s b w'(1) fr
      by (cases "fb_json_array b") (auto simp: on_failure_def Let_def settle_def split: bind_splits)
    then show thesis using that [of ?r ?bj w'] True s w' by (auto split: option.splits)
  next
    case False
    have "on_failure e b w = Some (ReadyErr, ?b\<lparr>fb_budget_spent := False, fb_permit := None, fb_ended := True\<rparr>, w')" using False s b w'(1)
      by (cases "fb_budget_spent b0") (auto simp: on_failure_def Let_def settle_def split: bind_splits)
    then show thesis using that [of ReadyErr _ w'] False s w' by auto
  qed
qed


subsection \<open>Any number of polls\<close>

lemma polls_ended: "fb_ended b \<Longrightarrow> polls n e s b w = Some (replicate n ReadyNone, b, w)"
  by (induction n) (simp_all add: poll_next_def)

text \<open>What polling from \<open>b0\<close> leaves when the body has ended.\<close>

definition over :: "('v, 'j, 'd, 'w, 'f, 's) BodyEnv \<Rightarrow> ('d, 'w, 'f) FirstByteBody \<Rightarrow> 's World \<Rightarrow> bool \<Rightarrow> ('d, 'w, 'f) FirstByteBody \<Rightarrow> 's World \<Rightarrow> bool" where
  "over e b0 w broken b' w' \<longleftrightarrow> fb_ended b' \<and> fb_permit b' = None
     \<and> (\<exists>w1. settle e b0 (fb_stream_failed b' \<or> fb_is_sse b0 \<and> fb_first_byte_sent b' \<and> failed b') (fb_budget_spent b0 \<and> broken) w = Some w1 \<and> wd_store w' = wd_store w1)
     \<and> (broken \<longrightarrow> fb_stream_failed b')
     \<and> (if fb_stream_failed b' then fb_usage_sink b' = fb_usage_sink b0 else fb_usage_sink b' = None)
     \<and> (if failed b' then wd_gov w' = wd_gov w else \<exists>usage. billed e b0 usage (wd_gov w) (wd_gov w'))"

lemma on_end_over:
  assumes "steady b0 b" "stream_ok b0 w"
  shows "\<exists>r b' w'. on_end e b w = Some (r, b', w') \<and> over e b0 w False b' w' \<and> r \<noteq> ReadyErr"
proof -
  obtain r b' w' where r: "on_end e b w = Some (r, b', w')" "fb_ended b'" "fb_permit b' = None" "fb_usage_sink b' = None" "\<not> fb_stream_failed b'"
    "\<exists>w1. settle e b0 (fb_is_sse b \<and> fb_first_byte_sent b \<and> failed b) False w = Some w1 \<and> wd_store w' = wd_store w1"
    "failed b' = failed b" "if failed b then wd_gov w' = wd_gov w else billed e b0 (end_usage e b) (wd_gov w) (wd_gov w')"
    "r \<noteq> ReadyErr" "fb_first_byte_sent b' = fb_first_byte_sent b"
    by (rule on_end_effect [OF assms, of e])
  have "over e b0 w False b' w'" using r assms(1) by (auto simp: over_def steady_def split: if_splits)
  then show ?thesis using r(1,9) by blast
qed

lemma on_failure_over:
  assumes "steady b0 b" "stream_ok b0 w"
  shows "\<exists>r b' w'. on_failure e b w = Some (r, b', w') \<and> over e b0 w (r = ReadyErr) b' w'"
  by (rule on_failure_effect [OF assms, of e]) (auto simp: over_def failed_def)

lemma poll_loop_outcome:
  assumes "steady b0 b" "stream_ok b0 w"
  shows "\<exists>r b' w' s'. poll_loop e s b w = Some (r, b', w', s') \<and> (steady b0 b' \<and> w' = w \<and> r \<noteq> ReadyErr \<or> over e b0 w (r = ReadyErr) b' w')"
  using assms
proof (induction s arbitrary: b)
  case (Cons x s)
  show ?case
  proof (cases x)
    case (Chunk c)
    obtain b1 o1 where c: "on_chunk e c b = (b1, o1)" by (cases "on_chunk e c b")
    note st = on_chunk_steady [OF c Cons.prems(1)]
    show ?thesis using Cons.IH [OF st Cons.prems(2)] Chunk c st by (cases o1) auto
  next
    case Failure
    then show ?thesis using on_failure_over [OF Cons.prems, of e] by fastforce
  next
    case EndOfStream
    then show ?thesis using on_end_over [OF Cons.prems, of e] by fastforce
  next
    case NotReady
    then show ?thesis using Cons.prems by simp
  qed
qed simp

lemma steady_live: "steady b0 b \<Longrightarrow> \<not> fb_ended b \<and> \<not> fb_stream_failed b"
  by (simp add: steady_def)

lemma polls_outcome:
  assumes "steady b0 b" "stream_ok b0 w"
  shows "\<exists>rs b' w'. polls n e s b w = Some (rs, b', w') \<and> (steady b0 b' \<and> w' = w \<and> ReadyErr \<notin> set rs \<or> over e b0 w (ReadyErr \<in> set rs) b' w')"
  using assms
proof (induction n arbitrary: s b)
  case (Suc n)
  obtain r b1 w1 s1 where r: "poll_loop e s b w = Some (r, b1, w1, s1)"
    and c: "steady b0 b1 \<and> w1 = w \<and> r \<noteq> ReadyErr \<or> over e b0 w (r = ReadyErr) b1 w1" using poll_loop_outcome [OF Suc.prems] by blast
  have p: "poll_next e s b w = Some (r, b1, w1, s1)" using r steady_live [OF Suc.prems(1)] by (simp add: poll_next_def)
  show ?case
  proof (cases "steady b0 b1 \<and> w1 = w \<and> r \<noteq> ReadyErr")
    case True
    obtain rs b' w' where "polls n e s1 b1 w = Some (rs, b', w')"
      "steady b0 b' \<and> w' = w \<and> ReadyErr \<notin> set rs \<or> over e b0 w (ReadyErr \<in> set rs) b' w'" using Suc.IH [of b1 s1] True Suc.prems(2) by blast
    then show ?thesis using p True by auto
  next
    case False
    then have o: "over e b0 w (r = ReadyErr) b1 w1" using c by blast
    then have "fb_ended b1" by (simp add: over_def)
    moreover have "ReadyErr \<in> set (r # replicate n ReadyNone) \<longleftrightarrow> r = ReadyErr" by (cases n) auto
    ultimately show ?thesis using p o polls_ended [of b1 n e s1 w1]
      by (intro exI [of _ "r # replicate n ReadyNone"] exI [of _ b1] exI [of _ w1]) simp
  qed
qed simp

lemma drop_ended:
  assumes "over e b0 w broken b' w'"
  shows "drop_body e b' w' = Some w'"
  using assms by (auto simp: over_def drop_body_def take_permit_def split: if_splits option.split)

lemma drop_steady:
  fixes w :: "'s World"
  assumes "steady b0 b" "stream_ok b0 w"
  defines "usage \<equiv> Option.bind (fb_translate b) (\<lambda>t. last_usage (translation t))"
  shows "\<exists>w'. drop_body e b w = Some w' \<and> (\<exists>w1. settle e b0 False False w = Some w1 \<and> wd_store w' = wd_store w1)
     \<and> (if failed b \<or> tier_is_zero (tier_of usage) then wd_gov w' = wd_gov w else billed e b0 usage (wd_gov w) (wd_gov w'))"
proof -
  let ?quiet = "failed b \<or> tier_is_zero (tier_of usage)"
  obtain g where g: "if ?quiet then g = wd_gov w else billed e b0 usage (wd_gov w) g" using billed_total [OF assms(2)] by metis
  have s: "fb_usage_sink b = fb_usage_sink b0" "fb_lane_idx b = fb_lane_idx b0" "\<not> fb_stream_failed b" using assms(1) by (simp_all add: steady_def)
  have p: "take_permit e b = take_permit e b0" using assms(1) settle_cong [of b b0 e] unfolding steady_def by blast
  have "stream_ok b0 (w\<lparr>wd_gov := g\<rparr>)" using assms(2) by simp
  then obtain w' where w': "take_permit e b0 (w\<lparr>wd_gov := g\<rparr>) = Some w'" "wd_gov w' = g" by (rule take_permit_total) auto
  have "drop_body e b w = take_permit e b (w\<lparr>wd_gov := g\<rparr>)"
    using g s by (cases "fb_usage_sink b0"; cases "app_lane (be_app e) (fb_lane_idx b0)")
      (auto simp: drop_body_def billed_def failed_def usage_def [symmetric] Let_def split: if_splits)
  moreover obtain w1 where "take_permit e b0 w = Some w1" "wd_store w' = wd_store w1"
    using w'(1) by (auto simp: take_permit_def split: option.splits bind_splits)
  ultimately show ?thesis using w' p g by (intro exI [of _ w']) (auto simp: settle_def)
qed

text \<open>A body to instantiate the theorems at: a plain answer of lane 0, to be billed to the example key.\<close>

definition example_env :: "(unit, bytes, unit, unit, unit, MemoryStore) BodyEnv" where
  "example_env = \<lparr>be_out = example_outside, be_app = example_app, be_vt = memory_store, be_proto = example_protocols, be_fresh_writer = (),
     be_reparse = Some, be_status_json = (\<lambda>code msg st. msg), be_api_error_json = (\<lambda>m. m), be_taps_nonstream_usage = True,
     be_extract_usage = (\<lambda>b. None), max_translated_body_bytes = 100\<rparr>"

definition example_world :: "MemoryStore World" where
  "example_world = \<lparr>wd_store = example_store, wd_gov = example_state, wd_tick = 0\<rparr>"

definition example_body :: "(unit, unit, unit) FirstByteBody" where
  "example_body = FirstByteBody_new False Bounded 0 BreakerCfg_default ''p'' None None
     (Some \<lparr>us_cost = example_cost, us_key = example_key, us_pool = ''p'', us_charged_at = 7\<rparr>) True"

lemma example_stream_ok: "stream_ok example_body example_world"
  using example_store_wf BreakerCfg_default_ok example_length example_chain
  by (auto simp: stream_ok_def example_body_def FirstByteBody_new_def example_world_def)

text \<open>
  Claim C17. A streamed answer is settled exactly once. Whatever the upstream sends, however often the client
  polls and whenever it goes away: serving the body never panics; the lane's permit is given back
  exactly once; the breaker is charged at most one failure, exactly when the transport broke or an
  SSE stream that had begun ended with an in-band error or had to be given up; the lane's budget
  unit is refunded at most once, exactly when it was spent and the client was handed a transport
  error; and the ledger is charged at most once, never for a failed stream.
\<close>

theorem stream_settles_once:
  assumes "b = FirstByteBody_new sse permit lane cfg pool t ja sink spent" "stream_ok b w"
  shows "\<exists>rs b' w'. serve_body n e s b w = Some (rs, b', w')
     \<and> (\<exists>w1. settle e b (fb_stream_failed b' \<or> fb_ended b' \<and> sse \<and> fb_first_byte_sent b' \<and> failed b') (spent \<and> ReadyErr \<in> set rs) w = Some w1
          \<and> wd_store w' = wd_store w1)
     \<and> (ReadyErr \<in> set rs \<longrightarrow> fb_stream_failed b')
     \<and> (if failed b' then wd_gov w' = wd_gov w else wd_gov w' = wd_gov w \<or> (\<exists>usage. billed e b usage (wd_gov w) (wd_gov w')))"
proof -
  have st: "steady b b" "fb_is_sse b = sse" "fb_budget_spent b = spent" using assms(1) by (simp_all add: FirstByteBody_new_def steady_def)
  obtain rs b' w' where p: "polls n e s b w = Some (rs, b', w')"
    and c: "steady b b' \<and> w' = w \<and> ReadyErr \<notin> set rs \<or> over e b w (ReadyErr \<in> set rs) b' w'" using polls_outcome [OF st(1) assms(2)] by blast
  show ?thesis
  proof (cases "over e b w (ReadyErr \<in> set rs) b' w'")
    case True
    have "serve_body n e s b w = Some (rs, b', w')" using p drop_ended [OF True] by (simp add: serve_body_def)
    then show ?thesis using True st by (intro exI [of _ rs] exI [of _ b'] exI [of _ w']) (auto simp: over_def)
  next
    case False
    then have l: "steady b b'" "w' = w" "ReadyErr \<notin> set rs" using c by blast+
    obtain w2 where d: "drop_body e b' w = Some w2" "\<exists>w1. settle e b False False w = Some w1 \<and> wd_store w2 = wd_store w1"
      "if failed b' then wd_gov w2 = wd_gov w else wd_gov w2 = wd_gov w \<or> (\<exists>usage. billed e b usage (wd_gov w) (wd_gov w2))"
      using drop_steady [OF l(1) assms(2), of e] by metis
    have "serve_body n e s b w = Some (rs, b', w2)" using p d(1) l(2) by (simp add: serve_body_def)
    then show ?thesis using d(2,3) l(3) steady_live [OF l(1)] by (intro exI [of _ rs] exI [of _ b'] exI [of _ w2]) simp
  qed
qed


theorem stream_settles_once_witness:
  "\<exists>rs b' w' w1. serve_body 2 example_env [Chunk ''x'', Failure] example_body example_world = Some (rs, b', w')
     \<and> settle example_env example_body (fb_stream_failed b' \<or> fb_ended b' \<and> False \<and> fb_first_byte_sent b' \<and> failed b') (True \<and> ReadyErr \<in> set rs) example_world = Some w1
     \<and> wd_store w' = wd_store w1"
  using stream_settles_once [OF example_body_def example_stream_ok, of 2 example_env "[Chunk ''x'', Failure]"] by blast

subsection \<open>A complete stream\<close>

fun chunks :: "('v, 'j, 'd, 'w, 'f, 's) BodyEnv \<Rightarrow> bytes list \<Rightarrow> ('d, 'w, 'f) FirstByteBody \<Rightarrow> ('d, 'w, 'f) FirstByteBody \<times> bytes" where
  "chunks e [] b = (b, [])"
| "chunks e (c # cs) b = (case on_chunk e c b of (b1, o1) \<Rightarrow> case chunks e cs b1 of (b2, o2) \<Rightarrow> (b2, (case o1 of Some x \<Rightarrow> x | None \<Rightarrow> []) @ o2))"

lemma chunks_steady: "chunks e cs b = (b', out) \<Longrightarrow> steady b0 b \<Longrightarrow> steady b0 b'"
proof (induction cs arbitrary: b out)
  case (Cons c cs)
  obtain b1 o1 where c: "on_chunk e c b = (b1, o1)" by (cases "on_chunk e c b")
  obtain b2 o2 where "chunks e cs b1 = (b2, o2)" by (cases "chunks e cs b1")
  then show ?case using Cons.IH on_chunk_steady [OF c Cons.prems(2)] Cons.prems(1) c by auto
qed simp

lemma polls_clean:
  assumes "chunks e cs b = (b1, out)" "on_end e b1 w = Some (r, b2, w2)" "steady b0 b" "fb_ended b2" "length cs < n"
  shows "\<exists>rs. polls n e (map Chunk cs @ [EndOfStream]) b w = Some (rs, b2, w2) \<and> delivered rs = out @ delivered [r]"
  using assms
proof (induction cs arbitrary: b out n)
  case Nil
  obtain m where "n = Suc m" using Nil(5) by (cases n) auto
  moreover have "polls (Suc m) e [EndOfStream] b1 w = Some (r # replicate m ReadyNone, b2, w2)"
    using Nil(1,2) steady_live [OF Nil(3)] by (simp add: poll_next_def polls_ended [OF Nil(4)])
  moreover have "delivered (r # replicate m ReadyNone) = delivered [r]" by (subst delivered_Cons) simp
  ultimately show ?case using Nil(1) by auto
next
  case (Cons c cs)
  obtain b' o1 where c: "on_chunk e c b = (b', o1)" by (cases "on_chunk e c b")
  obtain out' where o: "chunks e cs b' = (b1, out')" "out = (case o1 of Some x \<Rightarrow> x | None \<Rightarrow> []) @ out'"
    using Cons.prems(1) c by (auto split: prod.splits)
  have s: "steady b0 b'" by (rule on_chunk_steady [OF c Cons.prems(3)])
  have l: "\<not> fb_ended b" "\<not> fb_ended b'" using steady_live [OF s] steady_live [OF Cons.prems(3)] by simp_all
  obtain m where n: "n = Suc m" "length cs < m" using Cons.prems(5) by (cases n) auto
  show ?case
  proof (cases o1)
    case None
    have "length cs < n" using n by simp
    from Cons.IH [OF o(1) Cons.prems(2) s Cons.prems(4) this] show ?thesis using None c o(2) l n(1) by (simp add: poll_next_def)
  next
    case (Some x)
    from Cons.IH [OF o(1) Cons.prems(2) s Cons.prems(4) n(2)] show ?thesis using Some c o(2) l n(1) by (auto simp: poll_next_def)
  qed
qed

text \<open>What the chunks leave for the end: the translator's state, and the copy of an untranslated body.\<close>

lemma on_chunk_translate:
  "on_chunk e c b = (b', r) \<Longrightarrow> fb_translate b' = map_option (\<lambda>t. fst (feed (be_proto e) t c)) (fb_translate b)"
  by (auto simp: on_chunk_def Let_def split: option.splits prod.splits)

lemma chunks_translate:
  "chunks e cs b = (b', out) \<Longrightarrow> fb_translate b' = map_option (\<lambda>t. fst (feed_all (feed (be_proto e)) t cs)) (fb_translate b)"
proof (induction cs arbitrary: b out)
  case (Cons c cs)
  obtain b1 o1 where c: "on_chunk e c b = (b1, o1)" by (cases "on_chunk e c b")
  obtain o2 where "chunks e cs b1 = (b', o2)" using Cons.prems c by (auto split: prod.splits)
  from Cons.IH [OF this] on_chunk_translate [OF c] show ?case by (cases "fb_translate b") (simp_all add: case_prod_beta)
qed (simp add: option.map_ident)

definition tapping :: "('v, 'j, 'd, 'w, 'f, 's) BodyEnv \<Rightarrow> ('d, 'w, 'f) FirstByteBody \<Rightarrow> bool" where
  "tapping e b \<longleftrightarrow> fb_translate b = None \<and> \<not> fb_is_sse b \<and> be_taps_nonstream_usage e \<and> fb_usage_sink b \<noteq> None"

lemma on_chunk_copy:
  assumes "on_chunk e c b = (b', r)" "fb_nonstream_buf b = (if tapping e b then take (max_translated_body_bytes e) q else [])"
  shows "fb_nonstream_buf b' = (if tapping e b then take (max_translated_body_bytes e) (q @ c) else []) \<and> tapping e b' = tapping e b"
proof (cases "fb_translate b")
  case (Some t)
  then show ?thesis using assms by (auto simp: on_chunk_def tapping_def Let_def split: option.splits prod.splits)
next
  case None
  let ?cap = "max_translated_body_bytes e"
  have "fb_nonstream_buf b' = fb_nonstream_buf (tap_nonstream e c (b\<lparr>fb_first_byte_sent := True\<rparr>))" "tapping e b' = tapping e b"
    using assms(1) None by (auto simp: on_chunk_def tapping_def Let_def tap_nonstream_def split: option.splits prod.splits if_splits)
  moreover have "fb_nonstream_buf (tap_nonstream e c (b\<lparr>fb_first_byte_sent := True\<rparr>)) = (if tapping e b then take ?cap (q @ c) else [])"
    using assms(2) None by (auto simp: tap_nonstream_def tapping_def Let_def min_def)
  ultimately show ?thesis by simp
qed

lemma chunks_copy:
  "chunks e cs b = (b', out) \<Longrightarrow> fb_nonstream_buf b = (if tapping e b then take (max_translated_body_bytes e) q else []) \<Longrightarrow>
     fb_nonstream_buf b' = (if tapping e b then take (max_translated_body_bytes e) (q @ concat cs) else [])"
proof (induction cs arbitrary: b out q)
  case (Cons c cs)
  obtain b1 o1 where c: "on_chunk e c b = (b1, o1)" by (cases "on_chunk e c b")
  obtain o2 where o: "chunks e cs b1 = (b', o2)" using Cons.prems(1) c by (auto split: prod.splits)
  have k: "fb_nonstream_buf b1 = (if tapping e b then take (max_translated_body_bytes e) (q @ c) else [])" "tapping e b1 = tapping e b"
    using on_chunk_copy [OF c Cons.prems(2)] by simp_all
  show ?case using Cons.IH [OF o, of "q @ c"] k by (simp del: take_append)
qed simp

lemma chunks_bytes:
  "chunks e cs b = (b', out) \<Longrightarrow> fb_json_array b = None \<Longrightarrow>
     fb_json_array b' = None \<and> out = (case fb_translate b of None \<Rightarrow> concat cs | Some t \<Rightarrow> snd (feed_all (feed (be_proto e)) t cs))"
proof (induction cs arbitrary: b out)
  case (Cons c cs)
  obtain b1 o1 where c: "on_chunk e c b = (b1, o1)" by (cases "on_chunk e c b")
  obtain o2 where o: "chunks e cs b1 = (b', o2)" "out = (case o1 of Some x \<Rightarrow> x | None \<Rightarrow> []) @ o2" using Cons.prems(1) c by (auto split: prod.splits)
  have j: "fb_json_array b1 = None" "(case o1 of Some x \<Rightarrow> x | None \<Rightarrow> []) = (case fb_translate b of None \<Rightarrow> c | Some t \<Rightarrow> snd (feed (be_proto e) t c))"
    using c Cons.prems(2) by (auto simp: on_chunk_def Let_def split: option.splits prod.splits if_splits)
  show ?case using Cons.IH [OF o(1) j(1)] j o(2) on_chunk_translate [OF c] by (cases "fb_translate b") (simp_all add: case_prod_beta)
qed (simp split: option.split)


text \<open>
  Claim C18. A complete stream is billed for exactly what the upstream reported. When the chunks of an answer are
  followed by its end, the ledger is charged once, to the admitted key and the serving lane, with
  the usage the translator has read from all the chunks, or, for a plain body relayed untouched, with
  the usage found in its first \<open>max_translated_body_bytes\<close> bytes; it is not charged when the
  translator saw an in-band error or gave up. The client receives the chunks themselves, or all of the
  translator's output followed by its closing bytes.
\<close>

theorem complete_stream_billed:
  assumes "b = FirstByteBody_new sse permit lane cfg pool t ja sink spent" "stream_ok b w" "length cs < n"
  shows "let p = be_proto e; t' = map_option (\<lambda>t. fst (feed_all (feed p) t cs)) t; body = take (max_translated_body_bytes e) (concat cs);
      usage = (case t' of Some x \<Rightarrow> last_usage (translation x)
         | None \<Rightarrow> if \<not> sse \<and> be_taps_nonstream_usage e \<and> body \<noteq> [] then be_extract_usage e body else None)
    in \<exists>rs b' w'. serve_body n e (map Chunk cs @ [EndOfStream]) b w = Some (rs, b', w')
      \<and> (if \<exists>x. t' = Some x \<and> (terminal_error (translation x) \<noteq> None \<or> aborted x) then wd_gov w' = wd_gov w
         else billed e b usage (wd_gov w) (wd_gov w'))
      \<and> (ja = None \<longrightarrow> delivered rs = (case t of None \<Rightarrow> concat cs | Some x \<Rightarrow> snd (feed_all (feed p) x cs) @ snd (finish p (the t'))))"
proof -
  have st: "steady b b" "fb_translate b = t" "fb_json_array b = ja" "fb_is_sse b = sse" "fb_nonstream_buf b = []" "fb_usage_sink b = sink"
    using assms(1) by (simp_all add: FirstByteBody_new_def steady_def)
  obtain b1 out where c: "chunks e cs b = (b1, out)" by (cases "chunks e cs b")
  have s1: "steady b b1" by (rule chunks_steady [OF c st(1)])
  note tr = chunks_translate [OF c] note copy = chunks_copy [OF c, of "[]"] note by' = chunks_bytes [OF c]
  obtain r b2 w2 where r: "on_end e b1 w = Some (r, b2, w2)" "fb_ended b2" "fb_permit b2 = None" "fb_usage_sink b2 = None"
    and g: "if failed b1 then wd_gov w2 = wd_gov w else billed e b (end_usage e b1) (wd_gov w) (wd_gov w2)"
    and d: "delivered [r] = snd (close_bytes e (translate_aborted b1) (snd (finish_translate e b1)) (fst (finish_translate e b1)))"
    by (rule on_end_effect [OF s1 assms(2), of e]) blast
  obtain rs where rs: "polls n e (map Chunk cs @ [EndOfStream]) b w = Some (rs, b2, w2)" "delivered rs = out @ delivered [r]"
    using polls_clean [OF c r(1) st(1) r(2) assms(3)] by blast
  have serve: "serve_body n e (map Chunk cs @ [EndOfStream]) b w = Some (rs, b2, w2)"
    using rs(1) r by (simp add: serve_body_def drop_body_def take_permit_def)
  let ?t = "map_option (\<lambda>t. fst (feed_all (feed (be_proto e)) t cs)) t" and ?body = "take (max_translated_body_bytes e) (concat cs)"
  let ?usage = "case ?t of Some x \<Rightarrow> last_usage (translation x)
     | None \<Rightarrow> if \<not> sse \<and> be_taps_nonstream_usage e \<and> ?body \<noteq> [] then be_extract_usage e ?body else None"
  have f: "failed b1 \<longleftrightarrow> (\<exists>x. ?t = Some x \<and> (terminal_error (translation x) \<noteq> None \<or> aborted x))"
    using s1 tr st(2) by (cases t) (auto simp: failed_def steady_def stream_terminal_error_def translate_aborted_def)
  have "end_usage e b1 = ?usage" if "sink \<noteq> None"
    using s1 tr st copy that by (cases t) (auto simp: end_usage_def steady_def tapping_def)
  then have u: "billed e b (end_usage e b1) (wd_gov w) (wd_gov w2) = billed e b ?usage (wd_gov w) (wd_gov w2)"
    using st(6) by (cases "sink = None") (simp_all add: billed_def)
  have "delivered rs = (case t of None \<Rightarrow> concat cs | Some x \<Rightarrow> snd (feed_all (feed (be_proto e)) x cs) @ snd (finish (be_proto e) (the ?t)))" if "ja = None"
    using rs(2) d by' that st tr by (cases t) (auto simp: close_bytes_def finish_translate_def split: prod.splits)
  moreover have "if \<exists>x. ?t = Some x \<and> (terminal_error (translation x) \<noteq> None \<or> aborted x) then wd_gov w2 = wd_gov w
     else billed e b ?usage (wd_gov w) (wd_gov w2)" using g unfolding f u .
  ultimately show ?thesis using serve unfolding Let_def by blast
qed

theorem complete_stream_billed_witness:
  "\<exists>rs b' w'. serve_body 3 example_env (map Chunk example_chunks @ [EndOfStream]) example_body example_world = Some (rs, b', w')
     \<and> billed example_env example_body None (wd_gov example_world) (wd_gov w') \<and> delivered rs = concat example_chunks"
proof -
  have "length example_chunks < 3" by (simp add: example_chunks_def)
  from complete_stream_billed [OF example_body_def example_stream_ok this, of example_env] show ?thesis
    by (simp add: Let_def example_env_def if_distrib cong: if_cong)
qed

end
