(* ===== verification/AdminAudit.thy ===== *)
theory AdminAudit
  imports Ledger Bytes
begin

text \<open>
  The hash-chained audit log of admin mutations (\<open>crates/busbar/src/admin/audit.rs\<close>): a bounded ring
  in memory, written through to the durable store, restored from it at boot. SHA-256 is the argument
  \<open>sha256_hex\<close>. The attached store is its operations and its state. \<open>seq\<close> and \<open>durable_high\<close> are
  \<open>AtomicU64\<close> and wrap.
\<close>

subsection \<open>Entries\<close>

record AuditEntry =
  ae_seq :: nat
  ae_ts :: nat
  ae_action :: string
  ae_resource :: string
  ae_outcome :: string
  ae_principal :: string
  ae_prev_hash :: string
  ae_hash :: string

definition BAR :: char where
  "BAR = CHR ''|''"

definition canonical :: "AuditEntry \<Rightarrow> string" where
  "canonical e = ae_prev_hash e @ [BAR] @ to_decimal (ae_seq e) @ [BAR] @ to_decimal (ae_ts e) @ [BAR] @ ae_action e @ [BAR]
     @ ae_resource e @ [BAR] @ ae_outcome e @ [BAR] @ ae_principal e"

definition compute_hash :: "(string \<Rightarrow> string) \<Rightarrow> AuditEntry \<Rightarrow> string" where
  "compute_hash sha256_hex e = sha256_hex (canonical e)"

definition MAX_AUDIT_ENTRIES :: nat where
  "MAX_AUDIT_ENTRIES = 1000"

definition to_record :: "AuditEntry \<Rightarrow> AuditRecord" where
  "to_record e = \<lparr>ar_seq = ae_seq e, ar_ts = ae_ts e, ar_action = ae_action e, ar_resource = ae_resource e, ar_outcome = ae_outcome e,
     ar_principal = ae_principal e, ar_prev_hash = ae_prev_hash e, ar_hash = ae_hash e\<rparr>"

definition from_record :: "AuditRecord \<Rightarrow> AuditEntry" where
  "from_record r = \<lparr>ae_seq = ar_seq r, ae_ts = ar_ts r, ae_action = ar_action r, ae_resource = ar_resource r, ae_outcome = ar_outcome r,
     ae_principal = ar_principal r, ae_prev_hash = ar_prev_hash r, ae_hash = ar_hash r\<rparr>"

lemma record_round_trip [simp]: "from_record (to_record e) = e" "to_record (from_record r) = r"
  by (simp_all add: to_record_def from_record_def)

subsection \<open>The log\<close>

record 's AuditLog =
  al_entries :: "AuditEntry list"
  al_seq :: nat
  al_sink :: "('s Store \<times> 's) option"
  al_durable_high :: nat

definition AuditLog_new :: "'s AuditLog" where
  "AuditLog_new = \<lparr>al_entries = [], al_seq = 1, al_sink = None, al_durable_high = 0\<rparr>"

definition set_sink :: "'s Store \<Rightarrow> 's \<Rightarrow> 's AuditLog \<Rightarrow> 's AuditLog" where
  "set_sink vt s lg = lg\<lparr>al_sink := Some (vt, s)\<rparr>"

text \<open>The loop of \<open>durable_write_through\<close> over \<open>start..=new_seq\<close>.\<close>

fun backfill_loop :: "'s Store \<Rightarrow> AuditEntry list \<Rightarrow> nat list \<Rightarrow> nat \<Rightarrow> 's \<Rightarrow> nat \<times> 's" where
  "backfill_loop vt q [] high s = (high, s)"
| "backfill_loop vt q (seq # seqs) high s = (case find (\<lambda>e. ae_seq e = seq) q of
       None \<Rightarrow> backfill_loop vt q seqs high s
     | Some e \<Rightarrow> (case append_audit vt (to_record e) s of
           (Inl err, s1) \<Rightarrow> (high, s1)
         | (Inr _, s1) \<Rightarrow> backfill_loop vt q seqs (max high seq) s1))"

definition durable_write_through :: "nat \<Rightarrow> 's AuditLog \<Rightarrow> 's AuditLog" where
  "durable_write_through new_seq lg = (case al_sink lg of None \<Rightarrow> lg
     | Some (vt, s) \<Rightarrow> (case backfill_loop vt (al_entries lg) [wrap_u64 (al_durable_high lg + 1) ..< Suc new_seq] (al_durable_high lg) s of
         (high, s1) \<Rightarrow> lg\<lparr>al_durable_high := high, al_sink := Some (vt, s1)\<rparr>))"

fun prune :: "AuditEntry list \<Rightarrow> AuditEntry list" where
  "prune [] = []"
| "prune (e # q) = (if MAX_AUDIT_ENTRIES \<le> length (e # q) then prune q else e # q)"

definition next_entry :: "(string \<Rightarrow> string) \<Rightarrow> nat \<Rightarrow> string \<Rightarrow> string \<Rightarrow> string \<Rightarrow> string \<Rightarrow> 's AuditLog \<Rightarrow> AuditEntry" where
  "next_entry sha256_hex now action resource outcome who lg =
     (let e = \<lparr>ae_seq = al_seq lg, ae_ts = now, ae_action = action, ae_resource = resource, ae_outcome = outcome, ae_principal = who,
          ae_prev_hash = (if al_entries lg = [] then [] else ae_hash (last (al_entries lg))), ae_hash = []\<rparr>
      in e\<lparr>ae_hash := compute_hash sha256_hex e\<rparr>)"

definition record_by :: "(string \<Rightarrow> string) \<Rightarrow> nat \<Rightarrow> string \<Rightarrow> string \<Rightarrow> string \<Rightarrow> string \<Rightarrow> 's AuditLog \<Rightarrow> 's AuditLog" where
  "record_by sha256_hex now action resource outcome who lg =
     (let e = next_entry sha256_hex now action resource outcome who lg
      in durable_write_through (ae_seq e) (lg\<lparr>al_entries := prune (al_entries lg) @ [e], al_seq := wrap_u64 (al_seq lg + 1)\<rparr>))"

datatype RestoreError = ReadFailed StoreError | BadDigest nat | BadLink nat

text \<open>The verification loop of \<open>restore_from_store\<close> (and of \<open>verify\<close>); \<open>prev\<close> is the digest before.\<close>

fun verify_chain :: "(string \<Rightarrow> string) \<Rightarrow> string option \<Rightarrow> AuditEntry list \<Rightarrow> RestoreError option" where
  "verify_chain sha256_hex prev [] = None"
| "verify_chain sha256_hex prev (e # es) =
     (if ae_hash e \<noteq> compute_hash sha256_hex e then Some (BadDigest (ae_seq e))
      else if prev \<noteq> None \<and> ae_prev_hash e \<noteq> the prev then Some (BadLink (ae_seq e))
      else verify_chain sha256_hex (Some (ae_hash e)) es)"

definition verify :: "(string \<Rightarrow> string) \<Rightarrow> 's AuditLog \<Rightarrow> bool" where
  "verify sha256_hex lg \<longleftrightarrow> verify_chain sha256_hex None (al_entries lg) = None"

definition max_seq :: "AuditEntry list \<Rightarrow> nat" where
  "max_seq es = foldl max 0 (map ae_seq es)"

definition restore_from_store :: "(string \<Rightarrow> string) \<Rightarrow> 's Store \<Rightarrow> 's \<Rightarrow> 's AuditLog \<Rightarrow> (RestoreError + nat) \<times> 's AuditLog" where
  "restore_from_store sha256_hex vt s lg = (case list_audit_tail vt MAX_AUDIT_ENTRIES s of
       Inl err \<Rightarrow> (Inl (ReadFailed err), lg)
     | Inr records \<Rightarrow> if records = [] then (Inr 0, lg)
         else let es = map from_record records; durable_max = max_seq es;
                  lg = lg\<lparr>al_seq := max (al_seq lg) (wrap_u64 (durable_max + 1)), al_durable_high := max (al_durable_high lg) durable_max\<rparr>
           in (case verify_chain sha256_hex None es of
                 Some err \<Rightarrow> (Inl err, lg)
               | None \<Rightarrow> (Inr (length es), lg\<lparr>al_entries := drop (length es - MAX_AUDIT_ENTRIES) es\<rparr>)))"

definition export :: "'s AuditLog \<Rightarrow> AuditEntry list" where
  "export lg = al_entries lg"

definition load :: "AuditEntry list \<Rightarrow> 's AuditLog \<Rightarrow> 's AuditLog" where
  "load es lg = lg\<lparr>al_entries := es, al_seq := max (al_seq lg) (wrap_u64 (max_seq es + 1))\<rparr>"

definition list_filtered :: "nat \<Rightarrow> nat \<Rightarrow> string option \<Rightarrow> string option \<Rightarrow> 's AuditLog \<Rightarrow> AuditEntry list" where
  "list_filtered offset limit action resource lg = take limit (drop offset
     (filter (\<lambda>e. resource = None \<or> ae_resource e = the resource) (filter (\<lambda>e. action = None \<or> ae_action e = the action) (rev (al_entries lg)))))"

end
