(* ===== verification/AuditChain.thy ===== *)
theory AuditChain
  imports AdminAudit
begin

text \<open>
  The audit log as a chain: every mutation leaves one entry whatever the durable store does, the retained
  ring always verifies, a verified chain with a known head cannot have been altered, and what the store
  holds is a prefix of the history that a restart restores.
\<close>

subsection \<open>Chains\<close>

lemma verify_chain_weaken: "verify_chain sha (Some h) es = None \<Longrightarrow> verify_chain sha None es = None"
  by (cases es) (auto split: if_splits)

lemma verify_chain_snoc:
  "verify_chain sha prev (es @ [e]) = None \<longleftrightarrow> verify_chain sha prev es = None \<and> ae_hash e = compute_hash sha e
     \<and> (if es = [] then prev = None \<or> ae_prev_hash e = the prev else ae_prev_hash e = ae_hash (last es))"
  by (induction es arbitrary: prev) auto

lemma verify_chain_drop: "verify_chain sha None es = None \<Longrightarrow> verify_chain sha None (drop n es) = None"
proof (induction es arbitrary: n)
  case (Cons e es)
  have "verify_chain sha None es = None" using Cons.prems by (auto intro: verify_chain_weaken split: if_splits)
  then show ?case using Cons by (cases n) auto
qed simp

lemma prune_eq: "prune q = drop (length q - (MAX_AUDIT_ENTRIES - 1)) q"
proof (induction q)
  case (Cons e q)
  show ?case
  proof (cases "MAX_AUDIT_ENTRIES \<le> length (e # q)")
    case True
    then have "length (e # q) - (MAX_AUDIT_ENTRIES - 1) = Suc (length q - (MAX_AUDIT_ENTRIES - 1))" by (simp add: MAX_AUDIT_ENTRIES_def)
    then show ?thesis using Cons True by simp
  qed (simp add: MAX_AUDIT_ENTRIES_def)
qed simp

lemma write_through_same [simp]:
  "al_entries (durable_write_through n lg) = al_entries lg" "al_seq (durable_write_through n lg) = al_seq lg"
  by (auto simp: durable_write_through_def split: option.split prod.split)

subsection \<open>Histories\<close>

text \<open>
  A history is every entry ever recorded. The ring is its tail, and a mutation is the time, the action, the resource, the
  outcome and the principal.
\<close>

definition ring :: "AuditEntry list \<Rightarrow> AuditEntry list" where
  "ring hist = drop (length hist - MAX_AUDIT_ENTRIES) hist"

definition follows :: "(string \<Rightarrow> string) \<Rightarrow> AuditEntry list \<Rightarrow> 's AuditLog \<Rightarrow> bool" where
  "follows sha hist lg \<longleftrightarrow> verify_chain sha None hist = None \<and> map ae_seq hist = [1 ..< Suc (length hist)]
     \<and> al_seq lg = Suc (length hist) \<and> al_entries lg = ring hist"

type_synonym mutation = "nat \<times> string \<times> string \<times> string \<times> string"

definition mutation_of :: "AuditEntry \<Rightarrow> mutation" where
  "mutation_of e = (ae_ts e, ae_action e, ae_resource e, ae_outcome e, ae_principal e)"

fun record_all :: "(string \<Rightarrow> string) \<Rightarrow> mutation list \<Rightarrow> 's AuditLog \<Rightarrow> 's AuditLog" where
  "record_all sha [] lg = lg"
| "record_all sha ((now, action, resource, outcome, who) # ms) lg = record_all sha ms (record_by sha now action resource outcome who lg)"

lemma ring_snoc: "ring (hist @ [e]) = prune (ring hist) @ [e]"
proof -
  have "length hist - (length hist - 1000 + 999) + (length hist - 1000) = length hist - 999" by linarith
  then show ?thesis by (simp add: ring_def prune_eq MAX_AUDIT_ENTRIES_def)
qed

lemma ring_last: "hist \<noteq> [] \<Longrightarrow> ring hist \<noteq> [] \<and> last (ring hist) = last hist"
proof -
  assume "hist \<noteq> []"
  then have "length hist - MAX_AUDIT_ENTRIES < length hist" by (cases hist) (simp_all add: MAX_AUDIT_ENTRIES_def)
  then show ?thesis by (simp add: ring_def last_drop)
qed

lemma ring_chain: "verify_chain sha None hist = None \<Longrightarrow> verify_chain sha None (ring hist) = None"
  by (simp add: ring_def verify_chain_drop)

lemma record_follows:
  assumes "follows sha hist lg" "al_seq lg < u64_max"
  shows "follows sha (hist @ [next_entry sha now a r c p lg]) (record_by sha now a r c p lg)"
proof -
  let ?e = "next_entry sha now a r c p lg"
  have "ae_hash ?e = compute_hash sha ?e" by (simp add: next_entry_def Let_def compute_hash_def canonical_def)
  moreover have "ae_prev_hash ?e = (if hist = [] then [] else ae_hash (last hist))"
    using assms(1) ring_last [of hist] by (auto simp: next_entry_def Let_def follows_def ring_def)
  moreover have "ae_seq ?e = al_seq lg" by (simp add: next_entry_def Let_def)
  moreover have "wrap_u64 (al_seq lg + 1) = al_seq lg + 1" using assms(2) by (simp add: wrap_u64_def u64_max_def)
  ultimately show ?thesis using assms(1)
    by (auto simp: follows_def record_by_def Let_def verify_chain_snoc ring_snoc)
qed


lemma follows_new: "follows sha [] AuditLog_new" "follows sha [] (set_sink vt s AuditLog_new)"
  by (simp_all add: follows_def AuditLog_new_def set_sink_def ring_def)

lemma record_all_follows:
  assumes "follows sha hist lg" "al_seq lg + length ms \<le> u64_max"
  shows "\<exists>es. map mutation_of es = ms \<and> follows sha (hist @ es) (record_all sha ms lg)"
  using assms
proof (induction ms arbitrary: hist lg)
  case (Cons m ms)
  obtain now a r c p where m: "m = (now, a, r, c, p)" by (cases m)
  let ?e = "next_entry sha now a r c p lg" and ?lg = "record_by sha now a r c p lg"
  have f: "follows sha (hist @ [?e]) ?lg" using Cons.prems by (intro record_follows) simp_all
  moreover have "al_seq ?lg + length ms \<le> u64_max" using f Cons.prems by (simp add: follows_def)
  ultimately obtain es where "map mutation_of es = ms" "follows sha ((hist @ [?e]) @ es) (record_all sha ms ?lg)" using Cons.IH by blast
  moreover have "mutation_of ?e = m" by (simp add: mutation_of_def next_entry_def Let_def m)
  ultimately show ?case using m by (intro exI [of _ "?e # es"]) simp
qed simp

text \<open>
  Claim C39. No mutation is lost or reordered. Whatever the durable store answers, any sequence of recorded mutations
  leaves exactly one entry per mutation, in order and numbered from one without a gap; every entry is
  chained to its predecessor by the digest of all its fields; the ring holds the latest thousand of them
  and passes verification.
\<close>

theorem audit_chain_intact:
  assumes "length ms < u64_max"
  shows "\<exists>hist. map mutation_of hist = ms \<and> map ae_seq hist = [1 ..< Suc (length ms)] \<and> verify_chain sha None hist = None
     \<and> al_entries (record_all sha ms (set_sink vt s AuditLog_new)) = drop (length ms - MAX_AUDIT_ENTRIES) hist
     \<and> verify sha (record_all sha ms (set_sink vt s AuditLog_new))"
proof -
  have "al_seq (set_sink vt s AuditLog_new) + length ms \<le> u64_max" using assms by (simp add: set_sink_def AuditLog_new_def)
  from record_all_follows [OF follows_new(2) this] obtain es where es: "map mutation_of es = ms" "follows sha es (record_all sha ms (set_sink vt s AuditLog_new))"
    by auto
  have "length es = length ms" using es(1) by (metis length_map)
  then show ?thesis using es ring_chain [of sha es] by (intro exI [of _ es]) (simp add: follows_def ring_def verify_def)
qed

text \<open>A store for the concrete runs: it keeps the rows it accepts, and the schedule says which appends it refuses.\<close>

definition flaky_append :: "AuditRecord \<Rightarrow> AuditRecord list \<times> bool list \<Rightarrow> unit store_result \<times> (AuditRecord list \<times> bool list)" where
  "flaky_append r s = (case s of (rs, refuse # fs) \<Rightarrow> if refuse then (Inl (StoreError ''down''), (rs, fs)) else (Inr (), (rs @ [r], fs))
     | (rs, []) \<Rightarrow> (Inr (), (rs @ [r], [])))"

definition flaky_store :: "(AuditRecord list \<times> bool list) Store" where
  "flaky_store = \<lparr>put_key = (\<lambda>k s. (Inr (), s)), get_key = (\<lambda>i s. Inr None), list_keys = (\<lambda>s. Inr []), store_delete_key = (\<lambda>i s. (Inr (), s)),
     get_usage = (\<lambda>b w s. Inl (StoreError ''down'')), put_usage = (\<lambda>b w l s. (Inr (), s)), add_usage = (\<lambda>b w d s. (Inr (), s)),
     add_metering = (\<lambda>d s. (Inr (), s)), list_metering = (\<lambda>w s. Inr []), put_aws_credential = (\<lambda>c s. (Inr (), s)),
     put_key_with_aws_credential = (\<lambda>k c s. (Inr (), s)), list_aws_credentials = (\<lambda>s. Inr []), append_audit = flaky_append,
     list_audit = (\<lambda>s. Inr (fst s)), add_denylist = (\<lambda>f t s. (Inr (), s)), list_denylist = (\<lambda>s. Inr []),
     list_audit_tail = (\<lambda>n s. Inr (drop (length (fst s) - n) (fst s)))\<rparr>"

definition two_mutations :: "mutation list" where
  "two_mutations = [(5, ''hook.register'', ''hook:a'', ''applied'', ''admin''), (9, ''hook.delete'', ''hook:a'', ''rejected'', ''admin'')]"

theorem audit_chain_intact_witness:
  "length two_mutations < u64_max \<and> (\<exists>hist. map mutation_of hist = two_mutations \<and> map ae_seq hist = [1 ..< 3] \<and> verify_chain id None hist = None
     \<and> al_entries (record_all id two_mutations (set_sink flaky_store ([], [True]) AuditLog_new)) = drop (2 - MAX_AUDIT_ENTRIES) hist
     \<and> verify id (record_all id two_mutations (set_sink flaky_store ([], [True]) AuditLog_new)))"
proof -
  have l: "length two_mutations = 2" "Suc 2 = 3" by (simp_all add: two_mutations_def)
  then have "length two_mutations < u64_max" by (simp add: u64_max_def)
  then show ?thesis using audit_chain_intact [of two_mutations id flaky_store "([], [True])"] by (simp only: l simp_thms)
qed

subsection \<open>Tamper evidence\<close>

text \<open>No field contains the separator, so the canonical text determines the fields.\<close>

definition plain :: "AuditEntry \<Rightarrow> bool" where
  "plain e \<longleftrightarrow> BAR \<notin> set (ae_action e) \<and> BAR \<notin> set (ae_resource e) \<and> BAR \<notin> set (ae_outcome e) \<and> BAR \<notin> set (ae_prev_hash e)"

text \<open>The digest tells the entries of a set apart.\<close>

definition collision_free :: "(string \<Rightarrow> string) \<Rightarrow> AuditEntry set \<Rightarrow> bool" where
  "collision_free sha E \<longleftrightarrow> inj_on sha (canonical ` E)"

lemma collision_free_mono: "collision_free sha E \<Longrightarrow> D \<subseteq> E \<Longrightarrow> collision_free sha D"
  by (auto simp: collision_free_def intro: inj_on_subset)

lemma split_at_bar: "x @ BAR # y = x' @ BAR # y' \<Longrightarrow> BAR \<notin> set x \<Longrightarrow> BAR \<notin> set x' \<Longrightarrow> x = x' \<and> y = y'"
proof (induction x arbitrary: x')
  case Nil
  then show ?case by (cases x') simp_all
next
  case (Cons c x)
  then show ?case by (cases x') simp_all
qed

lemma decimal_no_bar: "BAR \<notin> set (to_decimal n)"
  using to_decimal_digits [of BAR n] by (auto simp: is_digit_def BAR_def)

lemma canonical_inj:
  assumes "canonical e = canonical e'" "plain e" "plain e'"
  shows "ae_prev_hash e = ae_prev_hash e' \<and> ae_seq e = ae_seq e' \<and> mutation_of e = mutation_of e'"
proof -
  have 1: "ae_prev_hash e = ae_prev_hash e' \<and> to_decimal (ae_seq e) @ BAR # to_decimal (ae_ts e) @ BAR # ae_action e @ BAR # ae_resource e @ BAR # ae_outcome e @ BAR # ae_principal e
      = to_decimal (ae_seq e') @ BAR # to_decimal (ae_ts e') @ BAR # ae_action e' @ BAR # ae_resource e' @ BAR # ae_outcome e' @ BAR # ae_principal e'"
    using assms by (intro split_at_bar) (simp_all add: canonical_def plain_def)
  have 2: "to_decimal (ae_seq e) = to_decimal (ae_seq e') \<and> to_decimal (ae_ts e) @ BAR # ae_action e @ BAR # ae_resource e @ BAR # ae_outcome e @ BAR # ae_principal e
      = to_decimal (ae_ts e') @ BAR # ae_action e' @ BAR # ae_resource e' @ BAR # ae_outcome e' @ BAR # ae_principal e'"
    using 1 by (intro split_at_bar) (simp_all add: decimal_no_bar)
  have 3: "to_decimal (ae_ts e) = to_decimal (ae_ts e') \<and> ae_action e @ BAR # ae_resource e @ BAR # ae_outcome e @ BAR # ae_principal e
      = ae_action e' @ BAR # ae_resource e' @ BAR # ae_outcome e' @ BAR # ae_principal e'"
    using 2 by (intro split_at_bar) (simp_all add: decimal_no_bar)
  have 4: "ae_action e = ae_action e' \<and> ae_resource e @ BAR # ae_outcome e @ BAR # ae_principal e = ae_resource e' @ BAR # ae_outcome e' @ BAR # ae_principal e'"
    using 3 assms by (intro split_at_bar) (simp_all add: plain_def)
  have 5: "ae_resource e = ae_resource e' \<and> ae_outcome e @ BAR # ae_principal e = ae_outcome e' @ BAR # ae_principal e'"
    using 4 assms by (intro split_at_bar) (simp_all add: plain_def)
  have 6: "ae_outcome e = ae_outcome e' \<and> ae_principal e = ae_principal e'"
    using 5 assms by (intro split_at_bar) (simp_all add: plain_def)
  show ?thesis using 1 2 3 4 5 6 to_decimal_inj by (auto simp: mutation_of_def)
qed


text \<open>
  Claim C40. The chain is tamper-evident from its head. If the digest has no collision among their entries and no field holds the
  separator, two chains of the same length that both verify and end in the same digest are equal entry by entry: nothing
  before a digest that is known good can have been altered, reordered or replaced.
\<close>

theorem audit_chain_tamper_evident:
  assumes "collision_free sha (set es \<union> set es')" "\<forall>e \<in> set es \<union> set es'. plain e" "length es = length es'"
    "verify_chain sha None es = None" "verify_chain sha None es' = None" "es \<noteq> [] \<longrightarrow> ae_hash (last es) = ae_hash (last es')"
  shows "es = es'"
  using assms
proof (induction es arbitrary: es' rule: rev_induct)
  case (snoc e es)
  obtain ds d where d: "es' = ds @ [d]" using snoc.prems(3) by (cases es' rule: rev_cases) auto
  have v: "verify_chain sha None es = None" "ae_hash e = compute_hash sha e" "es \<noteq> [] \<longrightarrow> ae_prev_hash e = ae_hash (last es)"
    "verify_chain sha None ds = None" "ae_hash d = compute_hash sha d" "ds \<noteq> [] \<longrightarrow> ae_prev_hash d = ae_hash (last ds)"
    using snoc.prems(4,5) by (auto simp: d verify_chain_snoc split: if_splits)
  have "ae_hash e = ae_hash d" using snoc.prems(6) by (simp add: d)
  then have "compute_hash sha e = compute_hash sha d" using v(2,5) by metis
  moreover have "e \<in> set (es @ [e]) \<union> set es'" "d \<in> set (es @ [e]) \<union> set es'" by (simp_all add: d)
  ultimately have "canonical e = canonical d" using snoc.prems(1) unfolding collision_free_def compute_hash_def by (meson imageI inj_onD)
  then have f: "ae_prev_hash e = ae_prev_hash d \<and> ae_seq e = ae_seq d \<and> mutation_of e = mutation_of d"
    using snoc.prems(2) by (intro canonical_inj) (simp_all add: d)
  then have "e = d" using \<open>ae_hash e = ae_hash d\<close> by (cases e; cases d) (simp add: mutation_of_def)
  moreover have l: "length es = length ds" using snoc.prems(3) by (simp add: d)
  moreover have h: "es \<noteq> [] \<longrightarrow> ae_hash (last es) = ae_hash (last ds)" using v(3,6) f l by (metis length_0_conv)
  have "es = ds"
  proof (rule snoc.IH [OF _ _ l v(1,4) h])
    show "collision_free sha (set es \<union> set ds)" by (rule collision_free_mono [OF snoc.prems(1)]) (auto simp: d)
    show "\<forall>e \<in> set es \<union> set ds. plain e" using snoc.prems(2) by (auto simp: d)
  qed
  ultimately show ?case by (simp add: d)
qed simp

definition genesis :: AuditEntry where
  "genesis = \<lparr>ae_seq = 1, ae_ts = 5, ae_action = ''hook.register'', ae_resource = ''hook:a'', ae_outcome = ''applied'', ae_principal = ''admin'',
     ae_prev_hash = [], ae_hash = ''|1|5|hook.register|hook:a|applied|admin''\<rparr>"

lemma genesis_chain: "plain genesis" "verify_chain id None [genesis] = None"
  by (simp_all add: genesis_def plain_def BAR_def compute_hash_def canonical_def to_decimal.simps char_of_def bit_0)

theorem audit_chain_tamper_evident_witness:
  "collision_free id {genesis} \<and> plain genesis \<and> verify_chain id None [genesis] = None \<and> [genesis] = [genesis]"
  using audit_chain_tamper_evident [of id "[genesis]" "[genesis]"] genesis_chain by (simp add: collision_free_def)

text \<open>
  Without the condition on the separator the canonical text is ambiguous: moving a separator and the text after it from one
  field to the next alters an entry and keeps its digest.
\<close>

lemma separator_is_ambiguous:
  "\<exists>e e'. compute_hash sha e = compute_hash sha e' \<and> ae_action e \<noteq> ae_action e' \<and> ae_resource e \<noteq> ae_resource e' \<and> ae_principal e = ae_principal e'"
  by (intro exI [of _ "genesis\<lparr>ae_action := ''key.mint'', ae_resource := ''a|b''\<rparr>"] exI [of _ "genesis\<lparr>ae_action := ''key.mint|a'', ae_resource := ''b''\<rparr>"])
     (simp add: compute_hash_def canonical_def BAR_def)

subsection \<open>The durable copy\<close>

text \<open>What the engine relies on of a store that keeps the audit log: it appends, and a refused append changes nothing.\<close>

definition keeps_rows :: "'s Store \<Rightarrow> ('s \<Rightarrow> AuditRecord list) \<Rightarrow> bool" where
  "keeps_rows vt rows \<longleftrightarrow> (\<forall>r s. rows (snd (append_audit vt r s)) = (case fst (append_audit vt r s) of Inr u \<Rightarrow> rows s @ [r] | Inl err \<Rightarrow> rows s))"

lemma find_in_ring:
  assumes "map ae_seq hist = [1 ..< Suc (length hist)]" "length hist - MAX_AUDIT_ENTRIES \<le> k" "k < length hist"
  shows "find (\<lambda>e. ae_seq e = Suc k) (ring hist) = Some (hist ! k)"
proof -
  let ?d = "length hist - MAX_AUDIT_ENTRIES"
  have nth: "ae_seq (hist ! i) = Suc i" if "i < length hist" for i
    using arg_cong [OF assms(1), of "\<lambda>xs. xs ! i"] that by (simp del: upt_Suc add: nth_upt)
  have "find (\<lambda>e. ae_seq e = Suc k) (ring hist) = Some (ring hist ! (k - ?d))"
  proof (subst find_Some_iff, intro exI [of _ "k - ?d"] conjI allI impI)
    show "k - ?d < length (ring hist)" "ae_seq (ring hist ! (k - ?d)) = Suc k" "ring hist ! (k - ?d) = ring hist ! (k - ?d)"
      using assms nth [of k] by (simp_all add: ring_def)
    fix j assume "j < k - ?d"
    then show "\<not> ae_seq (ring hist ! j) = Suc k" using nth [of "?d + j"] assms by (simp add: ring_def)
  qed
  then show ?thesis using assms by (simp add: ring_def)
qed

lemma backfill_prefix:
  assumes "keeps_rows vt rows" "map ae_seq hist = [1 ..< Suc (length hist)]" "length hist - MAX_AUDIT_ENTRIES \<le> h" "h \<le> length hist"
    "rows s = map to_record (take h hist)" "backfill_loop vt (ring hist) [Suc h ..< Suc (length hist)] h s = (h', s')"
  shows "h \<le> h' \<and> h' \<le> length hist \<and> rows s' = map to_record (take h' hist)"
  using assms(3-6)
proof (induction "length hist - h" arbitrary: h s)
  case 0
  then show ?case by simp
next
  case (Suc n)
  have h: "h < length hist" using Suc.hyps(2) by simp
  then have u: "[Suc h ..< Suc (length hist)] = Suc h # [Suc (Suc h) ..< Suc (length hist)]" by (simp add: upt_conv_Cons)
  have f: "find (\<lambda>e. ae_seq e = Suc h) (ring hist) = Some (hist ! h)" using find_in_ring [OF assms(2) Suc.prems(1) h] .
  obtain res s1 where a: "append_audit vt (to_record (hist ! h)) s = (res, s1)" by (cases "append_audit vt (to_record (hist ! h)) s")
  have r: "rows s1 = (case res of Inr x \<Rightarrow> rows s @ [to_record (hist ! h)] | Inl err \<Rightarrow> rows s)"
    using assms(1) a by (metis fst_conv snd_conv keeps_rows_def)
  show ?case
  proof (cases res)
    case (Inl err)
    then show ?thesis using Suc.prems u f a r by simp
  next
    case (Inr x)
    have "rows s1 = map to_record (take (Suc h) hist)" using r Inr Suc.prems(3) h by (simp add: take_Suc_conv_app_nth)
    then have "Suc h \<le> h' \<and> h' \<le> length hist \<and> rows s' = map to_record (take h' hist)"
      using Suc.hyps(1) [of "Suc h" s1] Suc.hyps(2) Suc.prems u f a Inr h by simp
    then show ?thesis by simp
  qed
qed

definition stored :: "'s Store \<Rightarrow> ('s \<Rightarrow> AuditRecord list) \<Rightarrow> AuditEntry list \<Rightarrow> 's AuditLog \<Rightarrow> bool" where
  "stored vt rows hist lg \<longleftrightarrow> (\<exists>s. al_sink lg = Some (vt, s) \<and> rows s = map to_record (take (al_durable_high lg) hist)) \<and> al_durable_high lg \<le> length hist"

lemma record_stored:
  assumes "keeps_rows vt rows" "follows sha hist lg" "stored vt rows hist lg" "al_seq lg < u64_max" "al_seq lg \<le> al_durable_high lg + MAX_AUDIT_ENTRIES"
  shows "stored vt rows (hist @ [next_entry sha now a r c p lg]) (record_by sha now a r c p lg)"
proof -
  let ?e = "next_entry sha now a r c p lg" and ?h = "al_durable_high lg"
  let ?hist = "hist @ [?e]" and ?lg = "lg\<lparr>al_entries := prune (al_entries lg) @ [?e], al_seq := wrap_u64 (al_seq lg + 1)\<rparr>"
  obtain s where s: "al_sink lg = Some (vt, s)" "rows s = map to_record (take ?h hist)" "?h \<le> length hist" using assms(3) by (auto simp: stored_def)
  have f: "follows sha ?hist (record_by sha now a r c p lg)" by (rule record_follows [OF assms(2,4)])
  have e: "al_entries ?lg = ring ?hist" "ae_seq ?e = length ?hist" using assms(2) by (simp_all add: follows_def ring_snoc next_entry_def Let_def)
  have w: "wrap_u64 (?h + 1) = Suc ?h" using s(3) assms(2,4) by (simp add: follows_def wrap_u64_def u64_max_def)
  obtain h' s' where b: "backfill_loop vt (ring ?hist) [Suc ?h ..< Suc (length ?hist)] ?h s = (h', s')" by (metis prod.exhaust)
  have "?h \<le> h' \<and> h' \<le> length ?hist \<and> rows s' = map to_record (take h' ?hist)"
    by (rule backfill_prefix [OF assms(1) _ _ _ _ b]) (use f s assms(2,5) in \<open>simp_all add: follows_def del: upt_Suc\<close>)
  moreover have "record_by sha now a r c p lg = ?lg\<lparr>al_durable_high := h', al_sink := Some (vt, s')\<rparr>"
    using b e w s(1) by (simp add: record_by_def Let_def durable_write_through_def del: upt_Suc backfill_loop.simps)
  ultimately show ?thesis by (simp add: stored_def)
qed


text \<open>The store is never more than a ring behind.\<close>

fun never_behind :: "(string \<Rightarrow> string) \<Rightarrow> mutation list \<Rightarrow> 's AuditLog \<Rightarrow> bool" where
  "never_behind sha [] lg = True"
| "never_behind sha ((now, a, r, c, p) # ms) lg \<longleftrightarrow> al_seq lg \<le> al_durable_high lg + MAX_AUDIT_ENTRIES
     \<and> never_behind sha ms (record_by sha now a r c p lg)"

lemma record_all_stored:
  assumes "keeps_rows vt rows" "follows sha hist lg" "stored vt rows hist lg" "al_seq lg + length ms \<le> u64_max" "never_behind sha ms lg"
  shows "\<exists>es. map mutation_of es = ms \<and> follows sha (hist @ es) (record_all sha ms lg) \<and> stored vt rows (hist @ es) (record_all sha ms lg)"
  using assms(2-5)
proof (induction ms arbitrary: hist lg)
  case (Cons m ms)
  obtain now a r c p where m: "m = (now, a, r, c, p)" by (cases m)
  let ?e = "next_entry sha now a r c p lg" and ?lg = "record_by sha now a r c p lg"
  have q: "al_seq lg < u64_max" "al_seq lg \<le> al_durable_high lg + MAX_AUDIT_ENTRIES" "never_behind sha ms ?lg" using Cons.prems(3,4) m by simp_all
  have f: "follows sha (hist @ [?e]) ?lg" by (rule record_follows [OF Cons.prems(1) q(1)])
  moreover have "stored vt rows (hist @ [?e]) ?lg" by (rule record_stored [OF assms(1) Cons.prems(1,2) q(1,2)])
  moreover have "al_seq ?lg + length ms \<le> u64_max" using f Cons.prems(1,3) by (simp add: follows_def)
  ultimately obtain es where "map mutation_of es = ms" "follows sha ((hist @ [?e]) @ es) (record_all sha ms ?lg)"
    "stored vt rows ((hist @ [?e]) @ es) (record_all sha ms ?lg)" using Cons.IH q(3) by blast
  moreover have "mutation_of ?e = m" by (simp add: mutation_of_def next_entry_def Let_def m)
  ultimately show ?case using m by (intro exI [of _ "?e # es"]) simp
qed simp

lemma max_seq_upt: "map ae_seq es = [a ..< b] \<Longrightarrow> a < b \<Longrightarrow> max_seq es = b - 1"
proof -
  have "foldl max m [a ..< b] = (if a < b then max m (b - 1) else m)" for m
    by (induction b) (auto simp: max_def)
  then show "map ae_seq es = [a ..< b] \<Longrightarrow> a < b \<Longrightarrow> max_seq es = b - 1" by (simp add: max_seq_def)
qed

lemma verify_chain_take: "verify_chain sha prev es = None \<Longrightarrow> verify_chain sha prev (take n es) = None"
proof (induction es arbitrary: prev n)
  case (Cons e es)
  then show ?case by (cases n) (auto split: if_splits)
qed simp

lemma restore_prefix:
  assumes "verify_chain sha None hist = None" "map ae_seq hist = [1 ..< Suc (length hist)]" "0 < h" "h \<le> length hist" "h < u64_max"
    "list_audit_tail vt MAX_AUDIT_ENTRIES s = Inr (drop (h - MAX_AUDIT_ENTRIES) (map to_record (take h hist)))"
  shows "restore_from_store sha vt s AuditLog_new
    = (Inr (min h MAX_AUDIT_ENTRIES), \<lparr>al_entries = ring (take h hist), al_seq = Suc h, al_sink = None, al_durable_high = h\<rparr>)"
proof -
  define es where "es = drop (h - MAX_AUDIT_ENTRIES) (take h hist)"
  have m: "drop (h - MAX_AUDIT_ENTRIES) (map to_record (take h hist)) = map to_record es" by (simp add: es_def drop_map)
  have l: "length es = min h MAX_AUDIT_ENTRIES" using assms(4) by (simp add: es_def min_def)
  have ne: "es \<noteq> []" using l assms(3) by (auto simp: MAX_AUDIT_ENTRIES_def)
  have "map ae_seq es = drop (h - MAX_AUDIT_ENTRIES) (take h [1 ..< Suc (length hist)])"
    unfolding es_def using assms(2) by (metis drop_map take_map)
  also have "\<dots> = [1 + (h - MAX_AUDIT_ENTRIES) ..< Suc h]" using assms(4) by (simp add: take_upt drop_upt del: upt_Suc)
  finally have x: "max_seq es = h" using max_seq_upt [of es "1 + (h - MAX_AUDIT_ENTRIES)" "Suc h"] assms(3) by (simp add: MAX_AUDIT_ENTRIES_def)
  have v: "verify_chain sha None es = None" unfolding es_def by (intro verify_chain_drop verify_chain_take assms(1))
  have w: "wrap_u64 (Suc h) = Suc h" using assms(5) by (simp add: wrap_u64_def u64_max_def)
  have r: "ring (take h hist) = es" using assms(4) by (simp add: es_def ring_def min_def)
  have f: "map from_record (map to_record es) = es" by (simp add: comp_def)
  have n: "map to_record es \<noteq> []" using ne by simp
  show ?thesis unfolding restore_from_store_def assms(6) m sum.case if_not_P [OF n] Let_def f r by (simp add: l x v w AuditLog_new_def)
qed

text \<open>
  The durable copy is a prefix of the history, and a restart restores it. Take a store that keeps the rows it
  accepts and may refuse any append. As long as it is never more than a ring behind, its rows are at every point
  the records of the first \<open>durable_high\<close> mutations, in order and without a gap, however the refusals fall; a fresh
  log restored from it holds the latest thousand of them, verifies, and numbers its next entry after the last row.
\<close>

theorem durable_audit_restores:
  assumes "keeps_rows vt rows" "rows s = []" "length ms < u64_max" "never_behind sha ms (set_sink vt s AuditLog_new)"
    "\<forall>s. list_audit_tail vt MAX_AUDIT_ENTRIES s = Inr (drop (length (rows s) - MAX_AUDIT_ENTRIES) (rows s))"
  shows "\<exists>hist s'. let lg = record_all sha ms (set_sink vt s AuditLog_new); high = al_durable_high lg in
     map mutation_of hist = ms \<and> map ae_seq hist = [1 ..< Suc (length ms)] \<and> high \<le> length ms
     \<and> al_sink lg = Some (vt, s') \<and> rows s' = map to_record (take high hist)
     \<and> restore_from_store sha vt s' AuditLog_new
         = (Inr (min high MAX_AUDIT_ENTRIES), (AuditLog_new :: 's AuditLog)\<lparr>al_entries := ring (take high hist), al_seq := Suc high, al_durable_high := high\<rparr>)
     \<and> verify_chain sha None (ring (take high hist)) = None"
proof -
  let ?l0 = "set_sink vt s AuditLog_new"
  have "stored vt rows [] ?l0" "al_seq ?l0 + length ms \<le> u64_max"
    using assms(2,3) by (simp_all add: stored_def set_sink_def AuditLog_new_def)
  from record_all_stored [OF assms(1) follows_new(2) this assms(4)] obtain hist
    where h: "map mutation_of hist = ms" "follows sha hist (record_all sha ms ?l0)" "stored vt rows hist (record_all sha ms ?l0)" by auto
  define high where "high = al_durable_high (record_all sha ms ?l0)"
  obtain s' where s': "al_sink (record_all sha ms ?l0) = Some (vt, s')" "rows s' = map to_record (take high hist)" "high \<le> length hist"
    using h(3) by (auto simp: stored_def high_def)
  have l: "length hist = length ms" using h(1) by (metis length_map)
  have v: "verify_chain sha None hist = None" "map ae_seq hist = [1 ..< Suc (length hist)]" using h(2) by (simp_all add: follows_def)
  have t: "list_audit_tail vt MAX_AUDIT_ENTRIES s' = Inr (drop (high - MAX_AUDIT_ENTRIES) (map to_record (take high hist)))"
    using assms(5) s'(2,3) by (simp add: min_def)
  have "restore_from_store sha vt s' AuditLog_new
      = (Inr (min high MAX_AUDIT_ENTRIES), (AuditLog_new :: 's AuditLog)\<lparr>al_entries := ring (take high hist), al_seq := Suc high, al_durable_high := high\<rparr>)"
  proof (cases "high = 0")
    case True
    then show ?thesis using t by (simp add: restore_from_store_def AuditLog_new_def ring_def)
  next
    case False
    then show ?thesis using restore_prefix [OF v _ _ _ t] s'(3) l assms(3) by (simp add: AuditLog_new_def)
  qed
  moreover have "verify_chain sha None (ring (take high hist)) = None" by (intro ring_chain verify_chain_take v(1))
  ultimately show ?thesis unfolding Let_def high_def [symmetric] using h(1) s' v(2) l by (intro exI [of _ hist] exI [of _ s']) simp
qed


lemma flaky_keeps: "keeps_rows flaky_store fst"
  by (simp add: keeps_rows_def flaky_store_def flaky_append_def split: prod.split list.split)

lemma two_never_behind: "never_behind id two_mutations (set_sink flaky_store ([], [True]) AuditLog_new)"
  by (simp add: two_mutations_def set_sink_def AuditLog_new_def MAX_AUDIT_ENTRIES_def record_by_def Let_def wrap_u64_def
      durable_write_through_def flaky_store_def flaky_append_def next_entry_def split: prod.split option.split)

theorem durable_audit_restores_witness:
  "keeps_rows flaky_store fst \<and> never_behind id two_mutations (set_sink flaky_store ([], [True]) AuditLog_new)
   \<and> (\<exists>hist s'. let lg = record_all id two_mutations (set_sink flaky_store ([], [True]) AuditLog_new); high = al_durable_high lg in
     map mutation_of hist = two_mutations \<and> map ae_seq hist = [1 ..< Suc (length two_mutations)] \<and> high \<le> length two_mutations
     \<and> al_sink lg = Some (flaky_store, s') \<and> fst s' = map to_record (take high hist)
     \<and> restore_from_store id flaky_store s' AuditLog_new
         = (Inr (min high MAX_AUDIT_ENTRIES), AuditLog_new\<lparr>al_entries := ring (take high hist), al_seq := Suc high, al_durable_high := high\<rparr>)
     \<and> verify_chain id None (ring (take high hist)) = None)"
proof -
  have a: "fst ([] :: AuditRecord list, [True]) = []" by simp
  have b: "length two_mutations < u64_max" by (simp add: two_mutations_def u64_max_def)
  have c: "\<forall>s. list_audit_tail flaky_store MAX_AUDIT_ENTRIES s = Inr (drop (length (fst s) - MAX_AUDIT_ENTRIES) (fst s))"
    by (simp add: flaky_store_def)
  from durable_audit_restores [OF flaky_keeps a b two_never_behind c] show ?thesis
    by (intro conjI flaky_keeps two_never_behind)
qed

text \<open>
  Once an entry has left the ring before the store took it, the loop passes over it and still raises the watermark with the
  next row: the hole stays, and the linkage check of the next restart refuses the rows around it.
\<close>

lemma watermark_passes_hole:
  assumes "find (\<lambda>e. ae_seq e = Suc h) q = None" "find (\<lambda>e. ae_seq e = Suc (Suc h)) q = Some e" "append_audit vt (to_record e) s = (Inr u, s')"
  shows "backfill_loop vt q [Suc h ..< Suc (Suc (Suc h))] h s = (Suc (Suc h), s')"
proof -
  have "[Suc h ..< Suc (Suc (Suc h))] = [Suc h, Suc (Suc h)]" by (simp add: upt_conv_Cons)
  then show ?thesis using assms by simp
qed

end
