(* ===== verification/Text.thy ===== *)
theory Text
  imports Bytes
begin

text \<open>
  What the sources use of \<open>str\<close> beyond \<open>Bytes\<close>: splitting at a character, joining, trimming,
  ASCII case, zero-padded decimals, and the timing-safe comparison of \<open>crates/api/src/auth.rs\<close>. The strings
  these are applied to are header texts, hosts and dates, whose white space and letters are ASCII.
\<close>

subsection \<open>Splitting and joining\<close>

fun split_on :: "char \<Rightarrow> string \<Rightarrow> string list" where
  "split_on c [] = [[]]"
| "split_on c (x # xs) = (if x = c then [] # split_on c xs else (x # hd (split_on c xs)) # tl (split_on c xs))"

fun join_with :: "string \<Rightarrow> string list \<Rightarrow> string" where
  "join_with sep [] = []"
| "join_with sep [x] = x"
| "join_with sep (x # y # xs) = x @ sep @ join_with sep (y # xs)"

lemma split_on_ne [simp]: "split_on c s \<noteq> []"
  by (cases s) auto

lemma split_on_plain: "c \<notin> set s \<Longrightarrow> split_on c s = [s]"
  by (induction s) auto

lemma split_on_append: "c \<notin> set s \<Longrightarrow> split_on c (s @ c # r) = s # split_on c r"
  by (induction s) auto

lemma split_join:
  assumes "xs \<noteq> []" "\<forall>x \<in> set xs. c \<notin> set x"
  shows "split_on c (join_with [c] xs) = xs"
  using assms by (induction xs rule: induct_list012) (auto simp: split_on_plain split_on_append)

lemma join_split: "join_with [c] (split_on c s) = s"
proof (induction s)
  case (Cons x s)
  obtain y ys where "split_on c s = y # ys" by (metis list.exhaust split_on_ne)
  then show ?case using Cons by (cases ys) auto
qed simp

lemma join_no_char: "d \<notin> set sep \<Longrightarrow> \<forall>x \<in> set xs. d \<notin> set x \<Longrightarrow> d \<notin> set (join_with sep xs)"
  by (induction xs rule: induct_list012) auto

text \<open>The first and the last occurrence of a separator determine the text around it.\<close>

lemma split_first: "c \<notin> set x \<Longrightarrow> c \<notin> set x' \<Longrightarrow> x @ c # y = x' @ c # y' \<longleftrightarrow> x = x' \<and> y = y'"
proof (induction x arbitrary: x')
  case Nil
  then show ?case by (cases x') auto
next
  case (Cons a x)
  then show ?case by (cases x') auto
qed

lemma split_last: "c \<notin> set y \<Longrightarrow> c \<notin> set y' \<Longrightarrow> x @ c # y = x' @ c # y' \<longleftrightarrow> x = x' \<and> y = y'"
proof -
  assume "c \<notin> set y" "c \<notin> set y'"
  then have "rev y @ c # rev x = rev y' @ c # rev x' \<longleftrightarrow> rev y = rev y' \<and> rev x = rev x'" by (intro split_first) simp_all
  moreover have "x @ c # y = x' @ c # y' \<longleftrightarrow> rev (x @ c # y) = rev (x' @ c # y')" by (simp only: rev_is_rev_conv)
  ultimately show ?thesis by auto
qed

subsection \<open>Trimming and case\<close>

definition is_ws :: "char \<Rightarrow> bool" where
  "is_ws c \<longleftrightarrow> byte_val c \<in> {9, 10, 11, 12, 13, 32}"

definition trim_start :: "string \<Rightarrow> string" where
  "trim_start s = dropWhile is_ws s"

definition trim :: "string \<Rightarrow> string" where
  "trim s = rev (dropWhile is_ws (rev (dropWhile is_ws s)))"

lemma trim_id: "s \<noteq> [] \<Longrightarrow> \<not> is_ws (hd s) \<Longrightarrow> \<not> is_ws (last s) \<Longrightarrow> trim s = s"
proof -
  have d: "dropWhile is_ws xs = xs" if "xs \<noteq> []" "\<not> is_ws (hd xs)" for xs using that by (cases xs) auto
  assume "s \<noteq> []" "\<not> is_ws (hd s)" "\<not> is_ws (last s)"
  then show ?thesis by (simp add: trim_def d hd_rev)
qed

lemma trim_no_ws: "\<forall>c \<in> set s. \<not> is_ws c \<Longrightarrow> trim s = s"
proof (cases "s = []")
  case False
  assume "\<forall>c \<in> set s. \<not> is_ws c"
  then show ?thesis using False by (intro trim_id) (simp_all)
qed (simp add: trim_def)

definition ascii_lower :: "char \<Rightarrow> char" where
  "ascii_lower c = (if 65 \<le> byte_val c \<and> byte_val c \<le> 90 then char_of (byte_val c + 32) else c)"

definition to_ascii_lowercase :: "string \<Rightarrow> string" where
  "to_ascii_lowercase = map ascii_lower"

definition eq_ignore_ascii_case :: "string \<Rightarrow> string \<Rightarrow> bool" where
  "eq_ignore_ascii_case a b \<longleftrightarrow> to_ascii_lowercase a = to_ascii_lowercase b"

lemma ascii_lower_idem [simp]: "ascii_lower (ascii_lower c) = ascii_lower c"
  by (auto simp: ascii_lower_def)

lemma lowercase_idem [simp]: "to_ascii_lowercase (to_ascii_lowercase s) = to_ascii_lowercase s"
  by (simp add: to_ascii_lowercase_def)

definition is_upper :: "char \<Rightarrow> bool" where
  "is_upper c \<longleftrightarrow> 65 \<le> byte_val c \<and> byte_val c \<le> 90"

lemma lowercase_id: "\<forall>c \<in> set s. \<not> is_upper c \<Longrightarrow> to_ascii_lowercase s = s"
  by (induction s) (auto simp: to_ascii_lowercase_def ascii_lower_def is_upper_def)

subsection \<open>Padded decimals\<close>

text \<open>\<open>{n:0w}\<close> of \<open>format!\<close>.\<close>

definition pad_decimal :: "nat \<Rightarrow> nat \<Rightarrow> string" where
  "pad_decimal w n = replicate (w - length (to_decimal n)) (CHR ''0'') @ to_decimal n"

lemma length_to_decimal: "n < 10 ^ w \<Longrightarrow> 0 < w \<Longrightarrow> length (to_decimal n) \<le> w"
proof (induction n arbitrary: w rule: to_decimal.induct)
  case (1 n)
  show ?case
  proof (cases "n < 10")
    case False
    then obtain v where v: "w = Suc v" "0 < v" using 1(2,3) by (cases w; cases "w - 1") auto
    have "n div 10 < 10 ^ v" using 1(2) v by (simp add: less_mult_imp_div_less mult.commute)
    then show ?thesis using 1(1) False v by (subst to_decimal.simps) auto
  qed (use 1 in \<open>simp add: to_decimal.simps\<close>)
qed

lemma pad_decimal_digits: "c \<in> set (pad_decimal w n) \<Longrightarrow> is_digit c"
  by (auto simp: pad_decimal_def is_digit_def dest: to_decimal_digits split: if_splits)

lemma length_pad_decimal: "n < 10 ^ w \<Longrightarrow> 0 < w \<Longrightarrow> length (pad_decimal w n) = w"
  using length_to_decimal by (simp add: pad_decimal_def)

lemma decimal_value_zeros: "decimal_value (replicate k (CHR ''0'') @ s) = decimal_value s"
  by (induction k) (auto simp: decimal_value_def)

lemma pad_decimal_value: "decimal_value (pad_decimal w n) = n"
  by (simp add: pad_decimal_def decimal_value_zeros to_decimal_value)

subsection \<open>Timing-safe comparison\<close>

definition constant_time_eq :: "string \<Rightarrow> string \<Rightarrow> bool" where
  "constant_time_eq a b \<longleftrightarrow> length a = length b
     \<and> foldl (\<lambda>result (x, y). or result (xor (byte_val x) (byte_val y))) (0 :: nat) (zip a b) = 0"

lemma or_zero_nat: "or x y = 0 \<longleftrightarrow> x = 0 \<and> y = 0" for x y :: nat
  by (rule or_eq_0_iff)

lemma xor_zero_char: "xor (byte_val x) (byte_val y) = (0 :: nat) \<longleftrightarrow> x = y"
proof
  assume a: "xor (byte_val x) (byte_val y) = (0 :: nat)"
  have "xor (xor (byte_val x) (byte_val y)) (byte_val y) = (byte_val x :: nat)" by (simp add: xor.assoc)
  then have "byte_val x = (byte_val y :: nat)" using a by simp
  then show "x = y" by simp
qed simp

lemma constant_time_eq_iff [simp]: "constant_time_eq a b \<longleftrightarrow> a = b"
proof -
  have "foldl (\<lambda>result (x, y). or result (xor (byte_val x) (byte_val y))) r (zip a b) = 0 \<longleftrightarrow> r = 0 \<and> a = b"
    if "length a = length b" for r
    using that by (induction a b arbitrary: r rule: list_induct2) (simp_all add: or_zero_nat xor_zero_char)
  then show ?thesis by (auto simp: constant_time_eq_def)
qed

end
