(* ===== verification/SigV4.thy ===== *)
theory SigV4
  imports GovKeys Text "HOL-Library.Product_Lexorder"
begin

text \<open>
  AWS Signature Version 4 (\<open>crates/busbar/src/sigv4.rs\<close>), its two users: the egress signer of Bedrock
  lanes (\<open>sigv4_sign_headers\<close> of \<open>proto/bedrock/writer.rs\<close>) and the ingress verifier
  (\<open>verify_bedrock_sigv4\<close> of \<open>auth/mod.rs\<close>). SHA-256, HMAC and hexadecimal come from other packages and
  are the record \<open>SigCrypto\<close>. The inlined civil-date arithmetic is the one of \<open>Calendar\<close>.
\<close>

record SigCrypto =
  sc_sha256_hex :: "string \<Rightarrow> string"
  sc_hmac :: "string \<Rightarrow> string \<Rightarrow> string"
  sc_hex :: "string \<Rightarrow> string"

definition SECS_PER_HOUR :: nat where
  "SECS_PER_HOUR = 3600"

definition SIGV4_ALGORITHM :: string where
  "SIGV4_ALGORITHM = ''AWS4-HMAC-SHA256''"

definition SIGV4_TERMINATION :: string where
  "SIGV4_TERMINATION = ''aws4_request''"

definition SIGV4_KEY_PREFIX :: string where
  "SIGV4_KEY_PREFIX = ''AWS4''"

definition X_AMZ_DATE :: string where
  "X_AMZ_DATE = ''x-amz-date''"

definition X_AMZ_CONTENT_SHA256 :: string where
  "X_AMZ_CONTENT_SHA256 = ''x-amz-content-sha256''"

definition X_AMZ_SECURITY_TOKEN :: string where
  "X_AMZ_SECURITY_TOKEN = ''x-amz-security-token''"

definition NL :: char where
  "NL = CHR 0x0A"

subsection \<open>Signing\<close>

definition signing_key :: "SigCrypto \<Rightarrow> string \<Rightarrow> string \<Rightarrow> string \<Rightarrow> string \<Rightarrow> string" where
  "signing_key cr secret datestamp region service =
     (let k_date = sc_hmac cr (SIGV4_KEY_PREFIX @ secret) datestamp;
          k_region = sc_hmac cr k_date region;
          k_service = sc_hmac cr k_region service
      in sc_hmac cr k_service SIGV4_TERMINATION)"

definition unreserved :: "char \<Rightarrow> bool" where
  "unreserved b \<longleftrightarrow> (65 \<le> byte_val b \<and> byte_val b \<le> 90) \<or> (97 \<le> byte_val b \<and> byte_val b \<le> 122) \<or> is_digit b
     \<or> b \<in> {CHR ''-'', CHR ''_'', CHR ''.'', CHR ''~''}"

definition percent :: "char \<Rightarrow> string" where
  "percent b = [CHR ''%'', ''0123456789ABCDEF'' ! (byte_val b div 16), ''0123456789ABCDEF'' ! (byte_val b mod 16)]"

definition uri_encode_path :: "string \<Rightarrow> string" where
  "uri_encode_path path = concat (map (\<lambda>b. if unreserved b \<or> b = CHR ''/'' then [b] else percent b) path)"

definition uri_encode_query :: "string \<Rightarrow> string" where
  "uri_encode_query s = concat (map (\<lambda>b. if unreserved b then [b] else percent b) s)"

definition format_amz_time :: "nat \<Rightarrow> string \<times> string" where
  "format_amz_time epoch_secs =
     (let days = int (epoch_secs div SECS_PER_DAY); sod = epoch_secs mod SECS_PER_DAY;
          h = sod div SECS_PER_HOUR; mi = sod mod SECS_PER_HOUR div 60; s = sod mod 60
      in case civil_from_days days of (year, month, day) \<Rightarrow>
        (let datestamp = pad_decimal 4 (nat year) @ pad_decimal 2 (nat month) @ pad_decimal 2 (nat day)
         in (datestamp @ ''T'' @ pad_decimal 2 h @ pad_decimal 2 mi @ pad_decimal 2 s @ ''Z'', datestamp)))"

fun canonicalize_loop :: "string \<Rightarrow> bool \<Rightarrow> string \<Rightarrow> string" where
  "canonicalize_loop out prev_space [] = out"
| "canonicalize_loop out prev_space (ch # v) =
     (if ch = CHR '' '' then canonicalize_loop out True v
      else canonicalize_loop ((if prev_space \<and> out \<noteq> [] then out @ '' '' else out) @ [ch]) False v)"

definition canonicalize_header_value :: "string \<Rightarrow> string" where
  "canonicalize_header_value v = canonicalize_loop [] False v"

text \<open>The parts of \<open>sign_v4\<close>: the sorted header lines, the canonical request and the text that is signed.\<close>

definition sorted_headers :: "(string \<times> string) list \<Rightarrow> (string \<times> string) list" where
  "sorted_headers headers = sort_key fst (map (\<lambda>(k, v). (to_ascii_lowercase k, canonicalize_header_value v)) headers)"

definition canonical_headers :: "(string \<times> string) list \<Rightarrow> string" where
  "canonical_headers h = concat (map (\<lambda>(k, v). k @ '':'' @ v @ [NL]) h)"

definition canonical_request :: "string \<Rightarrow> string \<Rightarrow> string \<Rightarrow> (string \<times> string) list \<Rightarrow> string \<Rightarrow> string" where
  "canonical_request meth canonical_uri canonical_querystring h payload_hash =
     meth @ [NL] @ canonical_uri @ [NL] @ canonical_querystring @ [NL] @ canonical_headers h @ [NL]
       @ join_with '';'' (map fst h) @ [NL] @ payload_hash"

definition string_to_sign :: "SigCrypto \<Rightarrow> string \<Rightarrow> string \<Rightarrow> string \<Rightarrow> string \<Rightarrow> string \<Rightarrow> string" where
  "string_to_sign cr region service amzdate datestamp creq =
     SIGV4_ALGORITHM @ [NL] @ amzdate @ [NL] @ datestamp @ ''/'' @ region @ ''/'' @ service @ ''/'' @ SIGV4_TERMINATION @ [NL] @ sc_sha256_hex cr creq"

definition sign_v4 :: "SigCrypto \<Rightarrow> string \<Rightarrow> string \<Rightarrow> string \<Rightarrow> string \<Rightarrow> string \<Rightarrow> string \<Rightarrow> (string \<times> string) list \<Rightarrow> string \<Rightarrow> string \<Rightarrow> string
    \<Rightarrow> string \<times> string" where
  "sign_v4 cr secret region service meth canonical_uri canonical_querystring headers payload_hash amzdate datestamp =
     (let h = sorted_headers headers;
          creq = canonical_request meth canonical_uri canonical_querystring h payload_hash;
          key = signing_key cr secret datestamp region service
      in (sc_hex cr (sc_hmac cr key (string_to_sign cr region service amzdate datestamp creq)), join_with '';'' (map fst h)))"

subsection \<open>Verifying\<close>

definition CLOCK_SKEW_SECS :: nat where
  "CLOCK_SKEW_SECS = 300"

datatype SigVerifyError = MissingAuthorization | MalformedAuthorization | MissingDate | SigExpired | SignedHeadersMismatch | SignatureMismatch

record ParsedAuthHeader =
  pa_access_key_id :: string
  pa_datestamp :: string
  pa_region :: string
  pa_service :: string
  pa_signed_headers :: string
  pa_signature :: string

text \<open>The loop over the comma-separated sections; \<open>None\<close> is a section without an equals sign.\<close>

fun auth_sections :: "string list \<Rightarrow> string option \<times> string option \<times> string option \<Rightarrow> (string option \<times> string option \<times> string option) option" where
  "auth_sections [] acc = Some acc"
| "auth_sections (section # rest) (credential, signed_headers, signature) = (case split_once (CHR ''='') (trim section) of
       None \<Rightarrow> None
     | Some (k, v) \<Rightarrow>
         if trim k = ''Credential'' then auth_sections rest (Some (trim v), signed_headers, signature)
         else if trim k = ''SignedHeaders'' then auth_sections rest (credential, Some (trim v), signature)
         else if trim k = ''Signature'' then auth_sections rest (credential, signed_headers, Some (trim v))
         else auth_sections rest (credential, signed_headers, signature))"

definition parse_authorization_header :: "string \<Rightarrow> SigVerifyError + ParsedAuthHeader" where
  "parse_authorization_header value = (case split_once (CHR '' '') (trim value) of
       None \<Rightarrow> Inl MissingAuthorization
     | Some (algo, rest) \<Rightarrow>
         if algo \<noteq> SIGV4_ALGORITHM then Inl MissingAuthorization
         else (case auth_sections (split_on (CHR '','') rest) (None, None, None) of
             Some (Some credential, Some signed_headers, Some signature) \<Rightarrow>
               if signature = [] \<or> signed_headers = [] then Inl MalformedAuthorization
               else (case split_on (CHR ''/'') credential of
                   [access_key_id, datestamp, region, service, termination] \<Rightarrow>
                     if termination \<noteq> SIGV4_TERMINATION then Inl MalformedAuthorization
                     else if access_key_id = [] \<or> datestamp = [] \<or> region = [] \<or> service = [] then Inl MalformedAuthorization
                     else Inr \<lparr>pa_access_key_id = access_key_id, pa_datestamp = datestamp, pa_region = region, pa_service = service,
                       pa_signed_headers = signed_headers, pa_signature = signature\<rparr>
                 | _ \<Rightarrow> Inl MalformedAuthorization)
           | _ \<Rightarrow> Inl MalformedAuthorization))"

definition amz_digits :: "string \<Rightarrow> int option" where
  "amz_digits s = (if list_all is_digit s then Some (int (decimal_value s)) else None)"

definition parse_amz_date :: "string \<Rightarrow> nat option" where
  "parse_amz_date amzdate =
     (if length amzdate \<noteq> 16 \<or> amzdate ! 8 \<noteq> CHR ''T'' \<or> amzdate ! 15 \<noteq> CHR ''Z'' then None
      else if \<not> list_all (\<lambda>c. byte_val c < 128) amzdate then None
      else do {
        year \<leftarrow> amz_digits (slice 0 4 amzdate);
        month \<leftarrow> amz_digits (slice 4 6 amzdate);
        day \<leftarrow> amz_digits (slice 6 8 amzdate);
        hour \<leftarrow> amz_digits (slice 9 11 amzdate);
        mi \<leftarrow> amz_digits (slice 11 13 amzdate);
        sec \<leftarrow> amz_digits (slice 13 15 amzdate);
        (if month < 1 \<or> 12 < month \<or> day < 1 \<or> 31 < day \<or> 23 < hour \<or> 59 < mi \<or> 60 < sec then None
         else let epoch = days_from_civil year month day * int SECS_PER_DAY + hour * int SECS_PER_HOUR + mi * 60 + sec
           in if epoch < 0 then None else Some (nat epoch))
      })"

record InboundRequest =
  ir_method :: string
  ir_canonical_uri :: string
  ir_canonical_querystring :: string
  ir_headers :: "(string \<times> string) list"
  ir_payload_hash :: string
  ir_amzdate :: string

definition HOST :: string where
  "HOST = ''host''"

text \<open>The headers named in \<open>SignedHeaders\<close>, each with its value on the request; \<open>None\<close> when one is absent.\<close>

fun select_signed :: "(string \<times> string) list \<Rightarrow> string list \<Rightarrow> (string \<times> string) list option" where
  "select_signed headers [] = Some []"
| "select_signed headers (name # names) = do {
     let lname = to_ascii_lowercase name;
     (_, value) \<leftarrow> find (\<lambda>(k, _). eq_ignore_ascii_case k lname) headers;
     selected \<leftarrow> select_signed headers names;
     Some ((lname, value) # selected)
   }"

definition abs_diff :: "nat \<Rightarrow> nat \<Rightarrow> nat" where
  "abs_diff a b = (if a \<le> b then b - a else a - b)"

definition verify_inbound_sigv4 :: "SigCrypto \<Rightarrow> ParsedAuthHeader \<Rightarrow> InboundRequest \<Rightarrow> string \<Rightarrow> nat \<Rightarrow> SigVerifyError + unit" where
  "verify_inbound_sigv4 cr parsed req secret now = (case parse_amz_date (ir_amzdate req) of
       None \<Rightarrow> Inl MissingDate
     | Some req_epoch \<Rightarrow>
         if CLOCK_SKEW_SECS < abs_diff req_epoch now then Inl SigExpired
         else if length (ir_amzdate req) < 8 \<or> pa_datestamp parsed \<noteq> slice 0 8 (ir_amzdate req) then Inl MalformedAuthorization
         else let signed = split_on (CHR '';'') (pa_signed_headers parsed) in
           if \<not> list_ex (\<lambda>h. eq_ignore_ascii_case h HOST) signed then Inl SignedHeadersMismatch
           else (case select_signed (ir_headers req) signed of
               None \<Rightarrow> Inl SignedHeadersMismatch
             | Some selected \<Rightarrow> (case sign_v4 cr secret (pa_region parsed) (pa_service parsed) (ir_method req) (ir_canonical_uri req)
                   (ir_canonical_querystring req) selected (ir_payload_hash req) (ir_amzdate req) (pa_datestamp parsed) of
                 (computed_sig, computed_signed_headers) \<Rightarrow>
                   if constant_time_eq computed_signed_headers (pa_signed_headers parsed) \<and> constant_time_eq computed_sig (pa_signature parsed)
                   then Inr () else Inl SignatureMismatch)))"

subsection \<open>The ingress\<close>

text \<open>
  A request as the server sees it: header names are lower case, and a value is \<open>None\<close> when it is not
  visible ASCII text (\<open>HeaderValue::to_str\<close>).
\<close>

record HttpRequest =
  hr_method :: string
  hr_path :: string
  hr_query :: "string option"
  hr_headers :: "(string \<times> string option) list"

definition AUTHORIZATION :: string where
  "AUTHORIZATION = ''authorization''"

definition DUMMY_SECRET :: string where
  "DUMMY_SECRET = ''AWS4-DUMMY-SECRET-FOR-CONSTANT-TIME-REJECT-PATH''"

definition UNSIGNED_PAYLOAD :: string where
  "UNSIGNED_PAYLOAD = ''UNSIGNED-PAYLOAD''"

definition get_header :: "HttpRequest \<Rightarrow> string \<Rightarrow> string option" where
  "get_header req name = Option.bind (find (\<lambda>(k, _). k = name) (hr_headers req)) snd"

definition has_sigv4_authorization :: "HttpRequest \<Rightarrow> bool" where
  "has_sigv4_authorization req = (case get_header req AUTHORIZATION of None \<Rightarrow> False
     | Some v \<Rightarrow> strip_prefix SIGV4_ALGORITHM (trim_start v) \<noteq> None)"

definition canonical_query_string :: "string option \<Rightarrow> string" where
  "canonical_query_string query = (case query of None \<Rightarrow> [] | Some q \<Rightarrow>
     if q = [] then []
     else join_with ''&'' (map (\<lambda>(k, v). k @ ''='' @ v) (sort (map (\<lambda>pair. case split_once (CHR ''='') pair of
         Some (k, v) \<Rightarrow> (uri_encode_query k, uri_encode_query v)
       | None \<Rightarrow> (uri_encode_query pair, uri_encode_query [])) (filter (\<lambda>p. p \<noteq> []) (split_on (CHR ''&'') q))))))"

definition signed_subset :: "string \<Rightarrow> (string \<times> string option) list \<Rightarrow> (string \<times> string) list" where
  "signed_subset signed_headers hs =
     (let signed_names = filter (\<lambda>h. h \<noteq> []) (map (\<lambda>h. to_ascii_lowercase (trim h)) (split_on (CHR '';'') signed_headers))
      in List.map_filter (\<lambda>(name, value). let lname = to_ascii_lowercase name in
           if lname \<notin> set signed_names then None else map_option (\<lambda>v. (lname, v)) value) hs)"

definition verify_bedrock_sigv4 :: "SigCrypto \<Rightarrow> nat \<Rightarrow> 's GovState \<Rightarrow> HttpRequest \<Rightarrow> string \<Rightarrow> VirtualKey option" where
  "verify_bedrock_sigv4 cr now gov req body =
     (case parse_authorization_header (case get_header req AUTHORIZATION of Some v \<Rightarrow> v | None \<Rightarrow> []) of
        Inl _ \<Rightarrow> None
      | Inr parsed \<Rightarrow>
          (let headers = signed_subset (pa_signed_headers parsed) (hr_headers req) in do {
             (_, payload_hash) \<leftarrow> find (\<lambda>(k, _). k = X_AMZ_CONTENT_SHA256) headers;
             (if eq_ignore_ascii_case payload_hash UNSIGNED_PAYLOAD then None
              else if \<not> constant_time_eq (sc_sha256_hex cr body) (to_ascii_lowercase payload_hash) then None
              else do {
                (_, amzdate) \<leftarrow> find (\<lambda>(k, _). k = X_AMZ_DATE) headers;
                (let inbound = \<lparr>ir_method = hr_method req, ir_canonical_uri = uri_encode_path (hr_path req),
                       ir_canonical_querystring = canonical_query_string (hr_query req), ir_headers = headers,
                       ir_payload_hash = payload_hash, ir_amzdate = amzdate\<rparr>;
                     (secret, resolved) = (case lookup_by_access_key_id (pa_access_key_id parsed) gov of
                       Some entry \<Rightarrow> (ake_secret_access_key entry, Some (ake_key entry)) | None \<Rightarrow> (DUMMY_SECRET, None))
                 in case (verify_inbound_sigv4 cr parsed inbound secret now, resolved) of
                      (Inr _, Some key) \<Rightarrow> if vk_enabled key then Some key else None
                    | _ \<Rightarrow> None)
              })
           }))"

subsection \<open>The egress signer\<close>

record SigningContext =
  sx_host :: string
  sx_canonical_uri :: string
  sx_body :: string
  sx_timestamp_epoch :: nat

definition is_alpha :: "char \<Rightarrow> bool" where
  "is_alpha c \<longleftrightarrow> (65 \<le> byte_val c \<and> byte_val c \<le> 90) \<or> (97 \<le> byte_val c \<and> byte_val c \<le> 122)"

definition looks_like_region :: "string \<Rightarrow> bool" where
  "looks_like_region label = (let parts = split_on (CHR ''-'') label in
     3 \<le> length parts \<and> list_all (\<lambda>p. p \<noteq> []) parts \<and> list_all is_digit (last parts) \<and> list_all (list_all is_alpha) (butlast parts))"

fun region_walk :: "string list \<Rightarrow> string option" where
  "region_walk (label # nxt # labels) =
     (if label \<in> {''bedrock-runtime'', ''bedrock-runtime-fips'', ''bedrock'', ''bedrock-fips''} \<and> looks_like_region nxt then Some nxt
      else region_walk (nxt # labels))"
| "region_walk labels = None"

definition derive_sigv4_region :: "string \<Rightarrow> string option" where
  "derive_sigv4_region host = region_walk (split_on (CHR ''.'') host)"

text \<open>\<open>key.splitn(3, ':')\<close>: the access key id, the secret and the optional session token.\<close>

definition split_lane_key :: "string \<Rightarrow> (string \<times> string \<times> string option) option" where
  "split_lane_key key = (case split_once (CHR '':'') key of
       None \<Rightarrow> None
     | Some (access, rest) \<Rightarrow>
         (let (secret, token) = (case split_once (CHR '':'') rest of None \<Rightarrow> (rest, None) | Some (s, t) \<Rightarrow> (s, Some t))
          in if access = [] \<or> secret = [] then None else Some (access, secret, token)))"

definition authorization_text :: "string \<Rightarrow> string \<Rightarrow> string \<Rightarrow> string \<Rightarrow> string \<Rightarrow> string \<Rightarrow> string" where
  "authorization_text access datestamp region service signed_headers signature =
     SIGV4_ALGORITHM @ '' Credential='' @ access @ ''/'' @ datestamp @ ''/'' @ region @ ''/'' @ service @ ''/'' @ SIGV4_TERMINATION
       @ '', SignedHeaders='' @ signed_headers @ '', Signature='' @ signature"

text \<open>\<open>header_ok\<close> is \<open>HeaderValue::from_str\<close> accepting a text. An empty list sends nothing.\<close>

definition sigv4_sign_headers :: "SigCrypto \<Rightarrow> (string \<Rightarrow> bool) \<Rightarrow> string \<Rightarrow> SigningContext \<Rightarrow> (string \<times> string) list" where
  "sigv4_sign_headers cr header_ok key ctx = (case split_lane_key key of
       None \<Rightarrow> []
     | Some (access, secret, token) \<Rightarrow>
         (let region = (case derive_sigv4_region (sx_host ctx) of Some r \<Rightarrow> r | None \<Rightarrow> ''us-east-1'');
              service = ''bedrock'';
              (amzdate, datestamp) = format_amz_time (sx_timestamp_epoch ctx);
              payload_hash = sc_sha256_hex cr (sx_body ctx);
              tokens = (case token of Some t \<Rightarrow> [(X_AMZ_SECURITY_TOKEN, t)] | None \<Rightarrow> []);
              signed = [(''content-type'', ''application/json''), (HOST, sx_host ctx), (X_AMZ_CONTENT_SHA256, payload_hash), (X_AMZ_DATE, amzdate)] @ tokens;
              (signature, signed_headers) = sign_v4 cr secret region service ''POST'' (sx_canonical_uri ctx) [] signed payload_hash amzdate datestamp;
              authorization = authorization_text access datestamp region service signed_headers signature
          in if \<not> list_all (\<lambda>(_, t). header_ok t) tokens then []
             else if \<not> (header_ok authorization \<and> header_ok amzdate \<and> header_ok payload_hash) then []
             else [(AUTHORIZATION, authorization), (X_AMZ_DATE, amzdate), (X_AMZ_CONTENT_SHA256, payload_hash)] @ tokens))"

end
