(* ===== verification/SigV4Dates.thy ===== *)
theory SigV4Dates
  imports SigV4
begin

text \<open>
  The \<open>x-amz-date\<close> text of a signature: formatting and parsing are inverse up to the year 9999, the
  civil-date arithmetic being the inverse pair of \<open>Calendar\<close>.
\<close>

lemma month_first_step: "month_first (mp + 1) - month_first mp \<le> 31" for mp :: int
proof -
  have "153 * (mp + 1) + 2 \<le> (153 * mp + 2) + 153" by simp
  then show ?thesis using div_bounds [of 5 "153 * mp + 2"] div_bounds [of 5 "153 * (mp + 1) + 2"] unfolding month_first_def by linarith
qed

lemma civil_date_round_trip:
  assumes "civil_from_days z = (y, m, d)"
  shows "days_from_civil y m d = z" and "1 \<le> m" and "m \<le> 12" and "1 \<le> d" and "d \<le> 31"
proof -
  obtain era yr doy where i: "is_day z era yr doy" using is_day_exists .
  note c = i [unfolded is_day_def]
  define mp where "mp = (5 * doy + 2) div 153"
  have yr: "0 \<le> yr" "yr \<le> 399" using c by simp_all
  have mp: "0 \<le> mp" "mp \<le> 11"
    using div_bounds [of 153 "5 * doy + 2"] c year_length(2) [OF yr] unfolding mp_def by linarith+
  have f: "month_first mp \<le> doy" "doy < month_first (mp + 1)" using month_first_iff [of doy mp] by (simp_all add: mp_def)
  have e: "y = (if mp < 10 then yr + era * 400 else yr + era * 400 + 1)" "m = (if mp < 10 then mp + 3 else mp - 9)" "d = doy - month_first mp + 1"
    using civil_of_day [OF i] assms by (auto simp: Let_def mp_def split: if_splits)
  show "1 \<le> m" "m \<le> 12" "1 \<le> d" "d \<le> 31" using mp f month_first_step [of mp] by (auto simp: e)
  show "days_from_civil y m d = z" using days_of_month [OF yr mp, of era d] c by (simp add: e)
qed

lemma civil_year:
  assumes "civil_from_days z = (y, m, d)" "0 \<le> z" "z < 2932897"
  shows "0 \<le> y" and "y \<le> 9999"
proof -
  obtain era yr doy where i: "is_day z era yr doy" using is_day_exists .
  note c = i [unfolded is_day_def]
  define mp where "mp = (5 * doy + 2) div 153"
  have yr: "0 \<le> yr" "yr \<le> 399" using c by simp_all
  have b: "0 \<le> year_start yr + doy" "year_start yr + doy < 146097"
    using c year_length(3) [OF yr] year_end_le [OF yr] by linarith+
  have era: "0 \<le> era" "era \<le> 24" using b c assms(2,3) by linarith+
  have e: "y = (if mp < 10 then yr + era * 400 else yr + era * 400 + 1)"
    using civil_of_day [OF i] assms(1) by (auto simp: Let_def mp_def split: if_splits)
  show "0 \<le> y" using e yr era by auto
  show "y \<le> 9999"
  proof (rule ccontr)
    assume "\<not> y \<le> 9999"
    then have h: "yr = 399" "era = 24" "10 \<le> mp" using e yr era by (auto split: if_splits)
    have "306 \<le> doy" using h(3) div_bounds [of 153 "5 * doy + 2"] unfolding mp_def by linarith
    then show False using c h assms(3) by (simp add: year_start_def)
  qed
qed

lemma amz_digits_pad: "amz_digits (pad_decimal w n) = Some (int n)"
  using pad_decimal_digits [of _ w n] by (simp add: amz_digits_def pad_decimal_value list_all_iff)

lemma digits_ascii: "list_all (\<lambda>c. byte_val c < 128) (pad_decimal w n)"
proof -
  have "byte_val c < 128" if "c \<in> set (pad_decimal w n)" for c
    using pad_decimal_digits [OF that] unfolding is_digit_def by linarith
  then show ?thesis by (simp add: list_all_iff)
qed

lemma date_fields:
  assumes "length y = 4" "length m = 2" "length d = 2" "length h = 2" "length mi = 2" "length s = 2"
  defines "t \<equiv> (y @ m @ d) @ ''T'' @ h @ mi @ s @ ''Z''"
  shows "length t = 16" "t ! 8 = CHR ''T''" "t ! 15 = CHR ''Z''" "slice 0 4 t = y" "slice 4 6 t = m" "slice 6 8 t = d"
    "slice 9 11 t = h" "slice 11 13 t = mi" "slice 13 15 t = s" "slice 0 8 t = y @ m @ d"
  using assms by (simp_all add: slice_def nth_append)

lemma format_amz_time_parts:
  assumes "t < 253402300800"
  obtains y m d where "civil_from_days (int (t div SECS_PER_DAY)) = (y, m, d)"
    "format_amz_time t = ((pad_decimal 4 (nat y) @ pad_decimal 2 (nat m) @ pad_decimal 2 (nat d)) @ ''T'' @ pad_decimal 2 (t mod SECS_PER_DAY div SECS_PER_HOUR)
      @ pad_decimal 2 (t mod SECS_PER_DAY mod SECS_PER_HOUR div 60) @ pad_decimal 2 (t mod SECS_PER_DAY mod 60) @ ''Z'',
      pad_decimal 4 (nat y) @ pad_decimal 2 (nat m) @ pad_decimal 2 (nat d))"
    "length (pad_decimal 4 (nat y)) = 4" "length (pad_decimal 2 (nat m)) = 2" "length (pad_decimal 2 (nat d)) = 2"
    "length (pad_decimal 2 (t mod SECS_PER_DAY div SECS_PER_HOUR)) = 2" "length (pad_decimal 2 (t mod SECS_PER_DAY mod SECS_PER_HOUR div 60)) = 2"
    "length (pad_decimal 2 (t mod SECS_PER_DAY mod 60)) = 2" "0 \<le> y"
proof -
  obtain y m d where c: "civil_from_days (int (t div SECS_PER_DAY)) = (y, m, d)" by (metis prod_cases3)
  have "t div SECS_PER_DAY < 2932897" using assms by (simp add: SECS_PER_DAY_def)
  then have y: "0 \<le> y" "y \<le> 9999" using civil_year [OF c] by simp_all
  have md: "1 \<le> m" "m \<le> 12" "1 \<le> d" "d \<le> 31" using civil_date_round_trip [OF c] by simp_all
  have "t mod SECS_PER_DAY < 86400" by (simp add: SECS_PER_DAY_def)
  then have "t mod SECS_PER_DAY div SECS_PER_HOUR < 24" "t mod SECS_PER_DAY mod SECS_PER_HOUR div 60 < 60" "t mod SECS_PER_DAY mod 60 < 60"
    by (simp_all add: SECS_PER_HOUR_def less_mult_imp_div_less)
  then show thesis using c y md
    by (intro that [of y m d]) (simp_all add: format_amz_time_def Let_def length_pad_decimal)
qed

lemma length_datestamp: "t < 253402300800 \<Longrightarrow> length (snd (format_amz_time t)) = 8"
  by (rule format_amz_time_parts [of t]) simp_all

lemma amz_date_prefix: "t < 253402300800 \<Longrightarrow> slice 0 8 (fst (format_amz_time t)) = snd (format_amz_time t)"
  by (rule format_amz_time_parts [of t]) (simp_all add: slice_def)

lemma amz_date_round_trip:
  assumes "t < 253402300800"
  shows "parse_amz_date (fst (format_amz_time t)) = Some t"
proof (rule format_amz_time_parts [OF assms])
  fix y m d
  assume c: "civil_from_days (int (t div SECS_PER_DAY)) = (y, m, d)" and y0: "0 \<le> y"
  let ?h = "t mod SECS_PER_DAY div SECS_PER_HOUR" and ?mi = "t mod SECS_PER_DAY mod SECS_PER_HOUR div 60" and ?s = "t mod SECS_PER_DAY mod 60"
  assume f: "format_amz_time t = ((pad_decimal 4 (nat y) @ pad_decimal 2 (nat m) @ pad_decimal 2 (nat d)) @ ''T'' @ pad_decimal 2 ?h
      @ pad_decimal 2 ?mi @ pad_decimal 2 ?s @ ''Z'', pad_decimal 4 (nat y) @ pad_decimal 2 (nat m) @ pad_decimal 2 (nat d))"
  assume len: "length (pad_decimal 4 (nat y)) = 4" "length (pad_decimal 2 (nat m)) = 2" "length (pad_decimal 2 (nat d)) = 2"
    "length (pad_decimal 2 ?h) = 2" "length (pad_decimal 2 ?mi) = 2" "length (pad_decimal 2 ?s) = 2"
  let ?t = "(pad_decimal 4 (nat y) @ pad_decimal 2 (nat m) @ pad_decimal 2 (nat d)) @ ''T'' @ pad_decimal 2 ?h @ pad_decimal 2 ?mi @ pad_decimal 2 ?s @ ''Z''"
  note r = civil_date_round_trip [OF c]
  have ascii: "list_all (\<lambda>c. byte_val c < 128) ?t" by (simp add: digits_ascii)
  have b: "?h < 24" "?mi < 60" "?s < 60" by (simp_all add: SECS_PER_HOUR_def SECS_PER_DAY_def less_mult_imp_div_less)
  have sod: "?h * SECS_PER_HOUR + ?mi * 60 + ?s = t mod SECS_PER_DAY"
  proof -
    have "t mod SECS_PER_DAY mod SECS_PER_HOUR mod 60 = ?s" unfolding SECS_PER_HOUR_def by (rule mod_mod_cancel) simp
    then show ?thesis by (metis div_mult_mod_eq add.assoc)
  qed
  have n: "int (nat y) = y" "int (nat m) = m" "int (nat d) = d" using y0 r by simp_all
  have e: "days_from_civil y m d * int SECS_PER_DAY + int ?h * int SECS_PER_HOUR + int ?mi * 60 + int ?s = int t"
  proof -
    have "int (t div SECS_PER_DAY) * int SECS_PER_DAY + int (?h * SECS_PER_HOUR + ?mi * 60 + ?s) = int t"
      unfolding sod by (metis div_mult_mod_eq of_nat_add of_nat_mult)
    then show ?thesis unfolding r(1) by simp
  qed
  show ?thesis unfolding f fst_conv parse_amz_date_def date_fields [OF len] amz_digits_pad bind.bind_lunit Let_def n
    using ascii r b e by simp
qed

end
