(* ===== verification/SigV4Auth.thy ===== *)
theory SigV4Auth
  imports SigV4Dates GovAuth
begin

text \<open>
  The signer and the verifier together: what the egress signer sends, the ingress verifier admits; and a
  signature binds the request it was made for.
\<close>

subsection \<open>The authorization header\<close>

definition clean :: "string \<Rightarrow> bool" where
  "clean s \<longleftrightarrow> s \<noteq> [] \<and> (\<forall>c \<in> set s. \<not> is_ws c \<and> c \<noteq> CHR '','')"

lemma trim_space: "trim (CHR '' '' # s) = trim s"
  by (simp add: trim_def is_ws_def)

lemma auth_sections_three:
  assumes "clean cred" "clean sh" "clean sig"
  shows "auth_sections (split_on (CHR '','') (''Credential='' @ cred @ '', SignedHeaders='' @ sh @ '', Signature='' @ sig)) (None, None, None)
    = Some (Some cred, Some sh, Some sig)"
proof -
  have c: "CHR '','' \<notin> set cred" "CHR '','' \<notin> set sh" "CHR '','' \<notin> set sig" using assms by (auto simp: clean_def)
  have "split_on (CHR '','') ((''Credential='' @ cred) @ CHR '','' # ('' SignedHeaders='' @ sh) @ CHR '','' # ('' Signature='' @ sig))
      = [''Credential='' @ cred, '' SignedHeaders='' @ sh, '' Signature='' @ sig]"
    using c by (subst split_on_append, simp)+ (subst split_on_plain, simp_all)
  then have s: "split_on (CHR '','') (''Credential='' @ cred @ '', SignedHeaders='' @ sh @ '', Signature='' @ sig)
      = [''Credential='' @ cred, CHR '' '' # ''SignedHeaders='' @ sh, CHR '' '' # ''Signature='' @ sig]" by simp
  have n1: "trim (w @ x) = w @ x" if "clean x" "\<forall>c \<in> set w. \<not> is_ws c" for w x
    using that by (intro trim_no_ws) (auto simp: clean_def)
  have n2: "trim x = x" if "clean x" for x using that by (intro trim_no_ws) (auto simp: clean_def)
  have w: "\<forall>c \<in> set ''Credential=''. \<not> is_ws c" "\<forall>c \<in> set ''SignedHeaders=''. \<not> is_ws c" "\<forall>c \<in> set ''Signature=''. \<not> is_ws c" by (simp_all add: is_ws_def)
  have o: "split_once (CHR ''='') (''Credential='' @ cred) = Some (''Credential'', cred)"
    "split_once (CHR ''='') (''SignedHeaders='' @ sh) = Some (''SignedHeaders'', sh)" "split_once (CHR ''='') (''Signature='' @ sig) = Some (''Signature'', sig)"
    using split_once_append [of "CHR ''=''" "''Credential''" cred] split_once_append [of "CHR ''=''" "''SignedHeaders''" sh]
      split_once_append [of "CHR ''=''" "''Signature''" sig] by simp_all
  have k: "trim ''Credential'' = ''Credential''" "trim ''SignedHeaders'' = ''SignedHeaders''" "trim ''Signature'' = ''Signature''"
    by (rule trim_no_ws, simp add: is_ws_def)+
  show ?thesis unfolding s auth_sections.simps trim_space n1 [OF assms(1) w(1)] n1 [OF assms(2) w(2)] n1 [OF assms(3) w(3)] o option.case prod.case k
      n2 [OF assms(1)] n2 [OF assms(2)] n2 [OF assms(3)] by simp
qed

lemma authorization_parses:
  assumes "clean access" "clean datestamp" "clean region" "clean service" "clean sh" "clean sig"
    "CHR ''/'' \<notin> set access" "CHR ''/'' \<notin> set datestamp" "CHR ''/'' \<notin> set region" "CHR ''/'' \<notin> set service"
  shows "parse_authorization_header (authorization_text access datestamp region service sh sig)
    = Inr \<lparr>pa_access_key_id = access, pa_datestamp = datestamp, pa_region = region, pa_service = service, pa_signed_headers = sh, pa_signature = sig\<rparr>"
proof -
  let ?cred = "access @ ''/'' @ datestamp @ ''/'' @ region @ ''/'' @ service @ ''/'' @ SIGV4_TERMINATION"
  have cred: "clean ?cred" using assms(1-4) by (auto simp: clean_def SIGV4_TERMINATION_def is_ws_def)
  have parts: "split_on (CHR ''/'') ?cred = [access, datestamp, region, service, SIGV4_TERMINATION]"
  proof -
    have "split_on (CHR ''/'') (join_with [CHR ''/''] [access, datestamp, region, service, SIGV4_TERMINATION]) = [access, datestamp, region, service, SIGV4_TERMINATION]"
      using assms(7-10) by (intro split_join) (auto simp: SIGV4_TERMINATION_def)
    then show ?thesis by simp
  qed
  let ?rest = "''Credential='' @ ?cred @ '', SignedHeaders='' @ sh @ '', Signature='' @ sig"
  have t: "authorization_text access datestamp region service sh sig = SIGV4_ALGORITHM @ CHR '' '' # ?rest" by (simp add: authorization_text_def)
  have "last (SIGV4_ALGORITHM @ CHR '' '' # ?rest) = last sig" using assms(6) by (simp add: clean_def last_append)
  then have "trim (SIGV4_ALGORITHM @ CHR '' '' # ?rest) = SIGV4_ALGORITHM @ CHR '' '' # ?rest"
    using assms(6) by (intro trim_id) (auto simp: clean_def SIGV4_ALGORITHM_def is_ws_def)
  then have o: "split_once (CHR '' '') (trim (authorization_text access datestamp region service sh sig)) = Some (SIGV4_ALGORITHM, ?rest)"
    unfolding t by (simp add: split_once_append SIGV4_ALGORITHM_def)
  have ne: "access \<noteq> []" "datestamp \<noteq> []" "region \<noteq> []" "service \<noteq> []" "sh \<noteq> []" "sig \<noteq> []" using assms by (simp_all add: clean_def)
  show ?thesis unfolding parse_authorization_header_def o option.case prod.case auth_sections_three [OF cred assms(5,6)] parts
    using ne by (simp add: SIGV4_TERMINATION_def)
qed

subsection \<open>What the signer sends is admitted\<close>

text \<open>The headers a Bedrock lane signs, with or without a session token, are in order already.\<close>

definition lane_headers :: "string \<Rightarrow> string \<Rightarrow> string \<Rightarrow> string option \<Rightarrow> (string \<times> string) list" where
  "lane_headers host payload_hash amzdate token =
     [(''content-type'', ''application/json''), (HOST, host), (X_AMZ_CONTENT_SHA256, payload_hash), (X_AMZ_DATE, amzdate)]
       @ (case token of Some t \<Rightarrow> [(X_AMZ_SECURITY_TOKEN, t)] | None \<Rightarrow> [])"

definition lane_names :: "string option \<Rightarrow> string list" where
  "lane_names token = [''content-type'', HOST, X_AMZ_CONTENT_SHA256, X_AMZ_DATE] @ (if token = None then [] else [X_AMZ_SECURITY_TOKEN])"

lemmas header_names = HOST_def X_AMZ_CONTENT_SHA256_def X_AMZ_DATE_def X_AMZ_SECURITY_TOKEN_def AUTHORIZATION_def

lemma lane_headers_names: "map fst (lane_headers host ph ad token) = lane_names token"
  by (simp add: lane_headers_def lane_names_def split: option.split)

lemma lane_names_sorted: "sorted (lane_names token)"
  by (simp add: lane_names_def header_names less_char_def)

lemma lane_names_chars: "\<forall>n \<in> set (lane_names token). \<forall>c \<in> set n. \<not> is_upper c \<and> \<not> is_ws c \<and> c \<noteq> CHR '';'' \<and> c \<noteq> CHR '',''"
  by (simp add: lane_names_def header_names is_upper_def is_ws_def)

lemma lane_names_lower: "n \<in> set (lane_names token) \<Longrightarrow> to_ascii_lowercase n = n"
  using lane_names_chars by (intro lowercase_id) blast

lemma sorted_headers_lane:
  assumes "map fst hs = lane_names token"
  shows "sorted_headers hs = map (\<lambda>(k, v). (k, canonicalize_header_value v)) hs" "map fst (sorted_headers hs) = lane_names token"
proof -
  have "to_ascii_lowercase k = k" if "(k, v) \<in> set hs" for k v
    using that lane_names_lower [of k token] by (metis assms fst_conv image_eqI list.set_map)
  then have "map (\<lambda>(k, v). (to_ascii_lowercase k, canonicalize_header_value v)) hs = map (\<lambda>(k, v). (k, canonicalize_header_value v)) hs" (is "?l = ?r")
    by (intro map_cong) auto
  moreover have "map fst ?r = lane_names token" using assms by (simp add: comp_def case_prod_beta)
  then have "sort_key fst ?r = ?r" using lane_names_sorted [of token] by (intro sort_key_id_if_sorted) simp
  ultimately show "sorted_headers hs = ?r" "map fst (sorted_headers hs) = lane_names token"
    using \<open>map fst ?r = lane_names token\<close> by (simp_all only: sorted_headers_def)
qed

lemma lane_names_joined:
  "split_on (CHR '';'') (join_with '';'' (lane_names token)) = lane_names token" "clean (join_with '';'' (lane_names token))"
proof -
  have "lane_names token \<noteq> []" by (simp add: lane_names_def)
  then show "split_on (CHR '';'') (join_with '';'' (lane_names token)) = lane_names token"
    using lane_names_chars [of token] by (intro split_join) auto
  have sep: "\<not> is_ws (CHR '';'')" by (simp add: is_ws_def)
  have "\<not> is_ws d \<and> d \<noteq> CHR '',''" if "d \<in> set (join_with '';'' (lane_names token))" for d
  proof (rule ccontr)
    assume n: "\<not> (\<not> is_ws d \<and> d \<noteq> CHR '','')"
    then have "d \<noteq> CHR '';''" using sep by auto
    then have "d \<notin> set (join_with '';'' (lane_names token))" using n lane_names_chars [of token] by (intro join_no_char) auto
    then show False using that by blast
  qed
  then show "clean (join_with '';'' (lane_names token))" unfolding clean_def by (simp add: lane_names_def)
qed


lemma names_lower:
  "to_ascii_lowercase ''content-type'' = ''content-type''" "to_ascii_lowercase HOST = HOST" "to_ascii_lowercase X_AMZ_CONTENT_SHA256 = X_AMZ_CONTENT_SHA256"
  "to_ascii_lowercase X_AMZ_DATE = X_AMZ_DATE" "to_ascii_lowercase X_AMZ_SECURITY_TOKEN = X_AMZ_SECURITY_TOKEN" "to_ascii_lowercase AUTHORIZATION = AUTHORIZATION"
  by (rule lowercase_id, simp add: header_names is_upper_def)+

lemma names_distinct: "distinct [''content-type'', HOST, X_AMZ_CONTENT_SHA256, X_AMZ_DATE, X_AMZ_SECURITY_TOKEN, AUTHORIZATION]"
  by (simp add: header_names)

definition received_headers :: "string \<Rightarrow> string \<Rightarrow> string \<Rightarrow> string option \<Rightarrow> (string \<times> string) list" where
  "received_headers host payload_hash amzdate token = [(''content-type'', ''application/json''), (HOST, host), (X_AMZ_DATE, amzdate), (X_AMZ_CONTENT_SHA256, payload_hash)]
     @ (case token of Some t \<Rightarrow> [(X_AMZ_SECURITY_TOKEN, t)] | None \<Rightarrow> [])"

lemma signed_subset_lane:
  assumes "\<forall>(n, v) \<in> set extra. to_ascii_lowercase n \<notin> set (lane_names token)"
  shows "signed_subset (join_with '';'' (lane_names token)) ([(''content-type'', Some ''application/json''), (HOST, Some host)]
      @ map (\<lambda>(k, v). (k, Some v)) ([(AUTHORIZATION, a), (X_AMZ_DATE, ad), (X_AMZ_CONTENT_SHA256, ph)] @ (case token of Some t \<Rightarrow> [(X_AMZ_SECURITY_TOKEN, t)] | None \<Rightarrow> [])) @ extra)
    = received_headers host ph ad token"
proof -
  have "to_ascii_lowercase (trim n) = n \<and> n \<noteq> []" if "n \<in> set (lane_names token)" for n
    using that lane_names_chars [of token] trim_no_ws [of n] lane_names_lower [OF that] by (auto simp: lane_names_def header_names split: if_splits)
  then have m: "filter (\<lambda>h. h \<noteq> []) (map (\<lambda>h. to_ascii_lowercase (trim h)) (lane_names token)) = lane_names token"
    by (subst map_cong [OF refl, where g = "\<lambda>n. n"]) auto
  let ?f = "\<lambda>(name, value). if to_ascii_lowercase name \<notin> set (lane_names token) then None else map_option (\<lambda>v. (to_ascii_lowercase name, v)) value"
  have e: "List.map_filter ?f extra = []" using assms by (induction extra) (auto simp: map_filter_simps)
  have n: "AUTHORIZATION \<notin> set (lane_names token)" using names_distinct by (auto simp: lane_names_def)
  have i: "''content-type'' \<in> set (lane_names token)" "HOST \<in> set (lane_names token)" "X_AMZ_CONTENT_SHA256 \<in> set (lane_names token)" "X_AMZ_DATE \<in> set (lane_names token)"
    "token \<noteq> None \<Longrightarrow> X_AMZ_SECURITY_TOKEN \<in> set (lane_names token)" by (auto simp: lane_names_def)
  show ?thesis unfolding signed_subset_def lane_names_joined m Let_def received_headers_def
    using e n i by (cases token) (simp_all add: map_filter_simps names_lower)
qed

lemma find_received:
  "find (\<lambda>(k, _). k = X_AMZ_CONTENT_SHA256) (received_headers host ph ad token) = Some (X_AMZ_CONTENT_SHA256, ph)"
  "find (\<lambda>(k, _). k = X_AMZ_DATE) (received_headers host ph ad token) = Some (X_AMZ_DATE, ad)"
  using names_distinct by (auto simp: received_headers_def)

lemma select_received: "select_signed (received_headers host ph ad token) (lane_names token) = Some (lane_headers host ph ad token)"
  using names_distinct [THEN distinct_rev [THEN iffD2]] names_distinct
  by (cases token) (simp_all add: received_headers_def lane_names_def lane_headers_def eq_ignore_ascii_case_def names_lower)


text \<open>Lower-case hexadecimal text.\<close>

definition hex_text :: "string \<Rightarrow> bool" where
  "hex_text s \<longleftrightarrow> s \<noteq> [] \<and> (\<forall>c \<in> set s. is_digit c \<or> (97 \<le> byte_val c \<and> byte_val c \<le> 102))"

lemma hex_text_clean: "hex_text s \<Longrightarrow> clean s"
  by (auto simp: hex_text_def clean_def is_digit_def is_ws_def)

lemma hex_text_lower: "hex_text s \<Longrightarrow> to_ascii_lowercase s = s"
  by (rule lowercase_id) (auto simp: hex_text_def is_digit_def is_upper_def)

lemma hex_text_signed: "hex_text s \<Longrightarrow> \<not> eq_ignore_ascii_case s UNSIGNED_PAYLOAD"
proof
  assume "hex_text s" "eq_ignore_ascii_case s UNSIGNED_PAYLOAD"
  then have "s = to_ascii_lowercase UNSIGNED_PAYLOAD" by (simp add: eq_ignore_ascii_case_def hex_text_lower)
  then have "CHR ''p'' \<in> set s" by (simp add: UNSIGNED_PAYLOAD_def to_ascii_lowercase_def ascii_lower_def char_of_def bit_0)
  then show False using \<open>hex_text s\<close> by (force simp: hex_text_def is_digit_def)
qed

lemma join_chars: "set (join_with sep xs) \<subseteq> set sep \<union> (\<Union>x \<in> set xs. set x)"
  by (induction xs rule: induct_list012) auto

lemma region_chars:
  assumes "looks_like_region r"
  shows "r \<noteq> [] \<and> (\<forall>c \<in> set r. c = CHR ''-'' \<or> is_digit c \<or> is_alpha c)"
proof -
  let ?ps = "split_on (CHR ''-'') r"
  have "set r \<subseteq> {CHR ''-''} \<union> (\<Union>x \<in> set ?ps. set x)" using join_chars [of "''-''" ?ps] join_split [of "CHR ''-''" r] by simp
  moreover have "set ?ps = insert (last ?ps) (set (butlast ?ps))" by (metis append_butlast_last_id list.simps(15) rotate1.simps(2) set_rotate1 split_on_ne)
  moreover have "\<forall>c \<in> set (last ?ps). is_digit c" "\<forall>p \<in> set (butlast ?ps). \<forall>c \<in> set p. is_alpha c" "3 \<le> length ?ps"
    using assms by (simp_all add: looks_like_region_def Let_def list_all_iff)
  ultimately show ?thesis by (cases "r = []") auto
qed

lemma region_walk_some: "region_walk ls = Some r \<Longrightarrow> looks_like_region r"
  by (induction ls rule: region_walk.induct) (auto split: if_splits)

lemma region_clean:
  "clean (case derive_sigv4_region host of Some r \<Rightarrow> r | None \<Rightarrow> ''us-east-1'') \<and> CHR ''/'' \<notin> set (case derive_sigv4_region host of Some r \<Rightarrow> r | None \<Rightarrow> ''us-east-1'')"
proof (cases "derive_sigv4_region host")
  case None
  then show ?thesis by (simp add: clean_def is_ws_def)
next
  case (Some r)
  then have c: "r \<noteq> []" "\<forall>c \<in> set r. c = CHR ''-'' \<or> is_digit c \<or> is_alpha c" using region_chars region_walk_some by (auto simp: derive_sigv4_region_def)
  have "\<not> is_ws c \<and> c \<noteq> CHR '','' \<and> c \<noteq> CHR ''/''" if "c = CHR ''-'' \<or> is_digit c \<or> is_alpha c" for c
    using that by (auto simp: is_ws_def is_digit_def is_alpha_def)
  then show ?thesis using c Some by (auto simp: clean_def)
qed

lemma datestamp_clean:
  assumes "t < 253402300800"
  shows "clean (snd (format_amz_time t)) \<and> CHR ''/'' \<notin> set (snd (format_amz_time t))"
proof (rule format_amz_time_parts [OF assms])
  fix y m d s assume f: "format_amz_time t = (s, pad_decimal 4 (nat y) @ pad_decimal 2 (nat m) @ pad_decimal 2 (nat d))"
  have "is_digit c" if "c \<in> set (snd (format_amz_time t))" for c using that by (auto simp: f dest: pad_decimal_digits)
  moreover have "\<not> is_ws c \<and> c \<noteq> CHR '','' \<and> c \<noteq> CHR ''/''" if "is_digit c" for c using that by (auto simp: is_ws_def is_digit_def)
  moreover have "snd (format_amz_time t) \<noteq> []" using length_datestamp [OF assms] by auto
  ultimately show ?thesis by (auto simp: clean_def)
qed


lemma authorization_first:
  "get_header \<lparr>hr_method = m, hr_path = p, hr_query = q, hr_headers = [(''content-type'', x), (HOST, y)] @ map (\<lambda>(k, v). (k, Some v)) ((AUTHORIZATION, a) # hs) @ extra\<rparr> AUTHORIZATION = Some a"
  by (simp add: get_header_def header_names)

lemma lane_request_admitted:
  assumes "split_lane_key key = Some (access, secret, token)" "clean access" "CHR ''/'' \<notin> set access"
    and "lookup_by_access_key_id access gov = Some entry" "ake_secret_access_key entry = secret" "vk_enabled (ake_key entry)"
    and "t < 253402300800" "abs_diff t now \<le> CLOCK_SKEW_SECS"
    and "\<forall>x. hex_text (sc_sha256_hex cr x)" "\<forall>k x. hex_text (sc_hex cr (sc_hmac cr k x))"
    and "sigv4_sign_headers cr header_ok key \<lparr>sx_host = host, sx_canonical_uri = uri_encode_path path, sx_body = body, sx_timestamp_epoch = t\<rparr> \<noteq> []"
    and "\<forall>(n, v) \<in> set extra. to_ascii_lowercase n \<notin> set (lane_names token)"
  shows "verify_bedrock_sigv4 cr now gov
     \<lparr>hr_method = ''POST'', hr_path = path, hr_query = None,
       hr_headers = [(''content-type'', Some ''application/json''), (HOST, Some host)]
         @ map (\<lambda>(k, v). (k, Some v)) (sigv4_sign_headers cr header_ok key \<lparr>sx_host = host, sx_canonical_uri = uri_encode_path path, sx_body = body, sx_timestamp_epoch = t\<rparr>)
         @ extra\<rparr> body = Some (ake_key entry)"
proof -
  define region where "region = (case derive_sigv4_region host of Some r \<Rightarrow> r | None \<Rightarrow> ''us-east-1'')"
  obtain ad ds where f: "format_amz_time t = (ad, ds)" by fastforce
  define ph where "ph = sc_sha256_hex cr body"
  define tokens where "tokens = (case token of Some x \<Rightarrow> [(X_AMZ_SECURITY_TOKEN, x)] | None \<Rightarrow> [])"
  define hs where "hs = lane_headers host ph ad token"
  obtain sig sh where sg: "sign_v4 cr secret region ''bedrock'' ''POST'' (uri_encode_path path) [] hs ph ad ds = (sig, sh)" by fastforce
  define a where "a = authorization_text access ds region ''bedrock'' sh sig"
  have hn: "map fst hs = lane_names token" by (simp add: hs_def lane_headers_names)
  have sh: "sh = join_with '';'' (lane_names token)" and sig: "hex_text sig"
    using sg assms(10) sorted_headers_lane(2) [OF hn] by (auto simp: sign_v4_def Let_def)
  have sent: "sigv4_sign_headers cr header_ok key \<lparr>sx_host = host, sx_canonical_uri = uri_encode_path path, sx_body = body, sx_timestamp_epoch = t\<rparr>
      = (AUTHORIZATION, a) # [(X_AMZ_DATE, ad), (X_AMZ_CONTENT_SHA256, ph)] @ tokens"
    using sg assms(1,11) by (simp add: sigv4_sign_headers_def f region_def [symmetric] ph_def [symmetric] tokens_def [symmetric] hs_def lane_headers_def a_def Let_def case_prod_beta split: if_splits)
  have p: "parse_authorization_header a = Inr \<lparr>pa_access_key_id = access, pa_datestamp = ds, pa_region = region, pa_service = ''bedrock'', pa_signed_headers = sh, pa_signature = sig\<rparr>"
    unfolding a_def using assms(2,3) datestamp_clean [OF assms(7)] region_clean [of host] lane_names_joined(2) sh hex_text_clean [OF sig]
    by (intro authorization_parses) (simp_all add: f region_def clean_def is_ws_def)
  have ss: "signed_subset sh ([(''content-type'', Some ''application/json''), (HOST, Some host)]
      @ map (\<lambda>(k, v). (k, Some v)) ((AUTHORIZATION, a) # [(X_AMZ_DATE, ad), (X_AMZ_CONTENT_SHA256, ph)] @ tokens) @ extra) = received_headers host ph ad token"
    using signed_subset_lane [OF assms(12), of host a ad ph] by (simp add: sh tokens_def)
  have d: "parse_amz_date ad = Some t" "slice 0 8 ad = ds" "\<not> length ad < 8"
    using amz_date_round_trip [OF assms(7)] amz_date_prefix [OF assms(7)] length_datestamp [OF assms(7)] by (auto simp: f slice_def)
  have host: "list_ex (\<lambda>h. eq_ignore_ascii_case h HOST) (lane_names token)" by (simp add: lane_names_def eq_ignore_ascii_case_def)
  have v: "verify_inbound_sigv4 cr \<lparr>pa_access_key_id = access, pa_datestamp = ds, pa_region = region, pa_service = ''bedrock'', pa_signed_headers = sh, pa_signature = sig\<rparr>
      \<lparr>ir_method = ''POST'', ir_canonical_uri = uri_encode_path path, ir_canonical_querystring = [], ir_headers = received_headers host ph ad token, ir_payload_hash = ph, ir_amzdate = ad\<rparr>
      secret now = Inr ()"
    using d assms(8) host select_received [of host ph ad token] sg
    by (simp add: verify_inbound_sigv4_def Let_def sh lane_names_joined(1) hs_def)
  have ph: "to_ascii_lowercase ph = ph" "\<not> eq_ignore_ascii_case ph UNSIGNED_PAYLOAD" "sc_sha256_hex cr body = ph"
    using assms(9) by (simp_all add: ph_def hex_text_lower hex_text_signed)
  show ?thesis unfolding verify_bedrock_sigv4_def sent authorization_first option.case p sum.case
    using ss find_received [of host ph ad token] ph v assms(4-6) by (simp add: canonical_query_string_def)
qed

text \<open>
  Claim C12. What the gateway signs, the gateway admits. A request signed by the egress signer of a Bedrock lane, with a
  session token or without, for a host, path and body, is admitted by the ingress verifier as the virtual key whose
  access key id and secret the lane key holds, if that key is enabled and the request arrives within the allowed
  clock skew, unless signing was skipped for a text no header can carry; other headers on the request make no
  difference.
\<close>

theorem signed_request_admitted:
  assumes "split_lane_key key = Some (access, secret, token)" "clean access" "CHR ''/'' \<notin> set access"
    and "lookup_by_access_key_id access gov = Some entry" "ake_secret_access_key entry = secret" "vk_enabled (ake_key entry)"
    and "t < 253402300800" "abs_diff t now \<le> CLOCK_SKEW_SECS"
    and "\<forall>x. hex_text (sc_sha256_hex cr x)" "\<forall>k x. hex_text (sc_hex cr (sc_hmac cr k x))"
    and "sigv4_sign_headers cr header_ok key \<lparr>sx_host = host, sx_canonical_uri = uri_encode_path path, sx_body = body, sx_timestamp_epoch = t\<rparr> \<noteq> []"
    and "\<forall>(n, v) \<in> set extra. to_ascii_lowercase n \<notin> set (lane_names token)"
  shows "verify_bedrock_sigv4 cr now gov
     \<lparr>hr_method = ''POST'', hr_path = path, hr_query = None,
       hr_headers = [(''content-type'', Some ''application/json''), (HOST, Some host)]
         @ map (\<lambda>(k, v). (k, Some v)) (sigv4_sign_headers cr header_ok key \<lparr>sx_host = host, sx_canonical_uri = uri_encode_path path, sx_body = body, sx_timestamp_epoch = t\<rparr>)
         @ extra\<rparr> body = Some (ake_key entry)"
  using assms by (rule lane_request_admitted)


definition toy_sig :: SigCrypto where
  "toy_sig = \<lparr>sc_sha256_hex = (\<lambda>x. ''ab''), sc_hmac = (\<lambda>k x. x), sc_hex = (\<lambda>x. ''cd'')\<rparr>"

definition aws_gov :: "MemoryStore GovState" where
  "aws_gov = auth_gov\<lparr>gv_by_access_key_id := [(''AKIA1'', \<lparr>ake_key = example_key, ake_secret_access_key = ''s3cret''\<rparr>)]\<rparr>"

definition lane_ctx :: SigningContext where
  "lane_ctx = \<lparr>sx_host = ''gw'', sx_canonical_uri = uri_encode_path ''/model/m:0/converse'', sx_body = ''{}'', sx_timestamp_epoch = 1440938160\<rparr>"

theorem signed_request_admitted_witness:
  "verify_bedrock_sigv4 toy_sig 1440938200 aws_gov \<lparr>hr_method = ''POST'', hr_path = ''/model/m:0/converse'', hr_query = None,
     hr_headers = [(''content-type'', Some ''application/json''), (HOST, Some ''gw'')]
       @ map (\<lambda>(k, v). (k, Some v)) (sigv4_sign_headers toy_sig (\<lambda>x. True) ''AKIA1:s3cret'' lane_ctx) @ [(''accept'', None)]\<rparr> ''{}'' = Some example_key"
proof -
  have k: "split_lane_key ''AKIA1:s3cret'' = Some (''AKIA1'', ''s3cret'', None)" by (simp add: split_lane_key_def)
  have c: "clean ''AKIA1''" "CHR ''/'' \<notin> set ''AKIA1''" by (simp_all add: clean_def is_ws_def)
  have l: "lookup_by_access_key_id ''AKIA1'' aws_gov = Some \<lparr>ake_key = example_key, ake_secret_access_key = ''s3cret''\<rparr>"
    by (simp add: lookup_by_access_key_id_def aws_gov_def)
  have h: "\<forall>x. hex_text (sc_sha256_hex toy_sig x)" "\<forall>k x. hex_text (sc_hex toy_sig (sc_hmac toy_sig k x))"
    by (simp_all add: toy_sig_def hex_text_def)
  have n: "sigv4_sign_headers toy_sig (\<lambda>x. True) ''AKIA1:s3cret'' lane_ctx \<noteq> []"
    using k by (simp add: sigv4_sign_headers_def Let_def case_prod_beta)
  have x: "\<forall>(n, v) \<in> set [(''accept'', None :: string option)]. to_ascii_lowercase n \<notin> set (lane_names None)"
    using lowercase_id [of "''accept''"] by (simp add: lane_names_def header_names is_upper_def)
  show ?thesis
    using signed_request_admitted [OF k c l, of 1440938160 1440938200 toy_sig "\<lambda>x. True" "''gw''" "''/model/m:0/converse''" "''{}''" "[(''accept'', None)]"] h n x
    by (simp add: lane_ctx_def abs_diff_def CLOCK_SKEW_SECS_def example_key_def)
qed

end
