(* ===== verification/SigV4Bind.thy ===== *)
theory SigV4Bind
  imports SigV4Auth
begin

text \<open>
  What a signature binds: two requests that are admitted under the same authorization header agree in
  everything the signature covers, unless the digest or the keyed digest collides on their texts.
\<close>

subsection \<open>URI encoding\<close>

lemma hex_digits_distinct: "i < 16 \<Longrightarrow> j < 16 \<Longrightarrow> ''0123456789ABCDEF'' ! i = ''0123456789ABCDEF'' ! j \<longleftrightarrow> i = j"
  by (rule nth_eq_iff_index_eq) simp_all

lemma byte_nibbles: "byte_val b div 16 < 16" "byte_val b mod 16 < 16"
  using byte_val_lt [of b] by (simp_all add: less_mult_imp_div_less)

lemma percent_inj: "percent a = percent b \<longleftrightarrow> a = b"
proof
  assume "percent a = percent b"
  then have "byte_val a div 16 = byte_val b div 16" "byte_val a mod 16 = byte_val b mod 16"
    using byte_nibbles [of a] byte_nibbles [of b] by (simp_all add: percent_def hex_digits_distinct)
  then have "byte_val a = byte_val b" by (metis div_mult_mod_eq)
  then show "a = b" by simp
qed simp

lemma percent_chars: "c \<in> set (percent b) \<Longrightarrow> c = CHR ''%'' \<or> c \<in> set ''0123456789ABCDEF''"
  using nth_mem [of "byte_val b div 16" "''0123456789ABCDEF''"] nth_mem [of "byte_val b mod 16" "''0123456789ABCDEF''"] byte_nibbles [of b]
  unfolding percent_def by auto

definition encode_with :: "(char \<Rightarrow> bool) \<Rightarrow> string \<Rightarrow> string" where
  "encode_with ok s = concat (map (\<lambda>b. if ok b then [b] else percent b) s)"

lemma encode_with_inj:
  assumes "\<not> ok (CHR ''%'')" "encode_with ok x = encode_with ok y"
  shows "x = y"
  using assms(2)
proof (induction x arbitrary: y)
  case Nil
  then show ?case by (cases y) (auto simp: encode_with_def percent_def split: if_splits)
next
  case (Cons a x)
  obtain b z where y: "y = b # z" using Cons.prems by (cases y) (auto simp: encode_with_def percent_def split: if_splits)
  have "a = b \<and> encode_with ok x = encode_with ok z"
  proof (cases "ok a = ok b")
    case True
    then have "(if ok a then [a] else percent a) @ encode_with ok x = (if ok a then [b] else percent b) @ encode_with ok z"
      using Cons.prems by (simp add: encode_with_def y)
    moreover have "length (percent a) = length (percent b)" by (simp add: percent_def)
    ultimately show ?thesis by (auto simp: percent_inj split: if_splits)
  next
    case False
    then show ?thesis using Cons.prems assms(1) by (auto simp: encode_with_def y percent_def split: if_splits)
  qed
  then show ?case using Cons.IH y by simp
qed

lemma encode_no_newline: "\<not> ok NL \<Longrightarrow> NL \<notin> set (encode_with ok s)"
  using percent_chars [of NL] by (auto simp: encode_with_def NL_def)

lemma unreserved_not: "\<not> unreserved (CHR ''%'')" "\<not> unreserved NL"
  by (simp_all add: unreserved_def is_digit_def NL_def)

lemma path_encoding: "uri_encode_path x = uri_encode_path y \<Longrightarrow> x = y" "NL \<notin> set (uri_encode_path x)"
proof -
  have e: "uri_encode_path = encode_with (\<lambda>b. unreserved b \<or> b = CHR ''/'')" by (simp add: uri_encode_path_def encode_with_def fun_eq_iff)
  show "uri_encode_path x = uri_encode_path y \<Longrightarrow> x = y" unfolding e by (rule encode_with_inj) (simp_all add: unreserved_not)
  show "NL \<notin> set (uri_encode_path x)" unfolding e by (rule encode_no_newline) (simp add: unreserved_not, simp add: NL_def)
qed

lemma query_no_newline: "NL \<notin> set (canonical_query_string q)"
proof -
  have e: "NL \<notin> set (uri_encode_query s)" for s
    using encode_no_newline [of unreserved s] unreserved_not by (simp add: uri_encode_query_def encode_with_def)
  have "NL \<notin> set (join_with ''&'' (map (\<lambda>(k, v). k @ ''='' @ v) (sort (map (\<lambda>pair. case split_once (CHR ''='') pair of
         Some (k, v) \<Rightarrow> (uri_encode_query k, uri_encode_query v)
       | None \<Rightarrow> (uri_encode_query pair, uri_encode_query [])) ps))))" (is "NL \<notin> set (join_with _ (map ?g (sort (map ?f ps))))") for ps
  proof (rule join_no_char)
    have "NL \<notin> set (?g (?f p))" for p using e by (cases "split_once (CHR ''='') p") (auto simp: NL_def)
    then show "\<forall>x \<in> set (map ?g (sort (map ?f ps))). NL \<notin> set x" unfolding set_map set_sort by blast
  qed (simp add: NL_def)
  then show ?thesis by (simp add: canonical_query_string_def split: option.split)
qed

subsection \<open>The canonical request\<close>

lemma header_lines_inj:
  assumes "map fst h = map fst h'" "\<forall>(k, v) \<in> set h. NL \<notin> set v" "\<forall>(k, v) \<in> set h'. NL \<notin> set v" "canonical_headers h = canonical_headers h'"
  shows "h = h'"
  using assms
proof (induction h arbitrary: h')
  case (Cons x h)
  obtain k v where x: "x = (k, v)" by (cases x)
  obtain v' g where g: "h' = (k, v') # g" using Cons.prems(1) by (cases h') (auto simp: x)
  have n: "NL \<notin> set v" "NL \<notin> set v'" using Cons.prems(2,3) by (auto simp: x g)
  have "v @ NL # canonical_headers h = v' @ NL # canonical_headers g" using Cons.prems(4) by (simp add: canonical_headers_def x g)
  then have "v = v' \<and> canonical_headers h = canonical_headers g" by (simp only: split_first [OF n])
  then show ?case using Cons.IH [of g] Cons.prems by (simp add: x g)
qed simp

lemma canonical_request_inj:
  assumes "canonical_request m u q h p = canonical_request m' u' q' h' p'" "map fst h = map fst h'"
    "NL \<notin> set m" "NL \<notin> set m'" "NL \<notin> set u" "NL \<notin> set u'" "NL \<notin> set q" "NL \<notin> set q'" "NL \<notin> set p" "NL \<notin> set p'"
    "\<forall>(k, v) \<in> set h. NL \<notin> set v" "\<forall>(k, v) \<in> set h'. NL \<notin> set v"
  shows "m = m' \<and> u = u' \<and> q = q' \<and> h = h' \<and> p = p'"
proof -
  let ?n = "join_with '';'' (map fst h)"
  let ?t = "\<lambda>h p. (canonical_headers h @ NL # ?n) @ NL # p"
  have "m @ NL # u @ NL # q @ NL # ?t h p = m' @ NL # u' @ NL # q' @ NL # ?t h' p'" using assms(1,2) by (simp add: canonical_request_def)
  then have 1: "m = m'" "u = u'" "q = q'" "?t h p = ?t h' p'" by (simp_all only: split_first [OF assms(3,4)] split_first [OF assms(5,6)] split_first [OF assms(7,8)])
  then have "canonical_headers h @ NL # ?n = canonical_headers h' @ NL # ?n \<and> p = p'" by (simp only: split_last [OF assms(9,10)])
  then show ?thesis using 1 header_lines_inj [OF assms(2,11,12)] by simp
qed

subsection \<open>Admission\<close>

definition authorization_of :: "HttpRequest \<Rightarrow> string" where
  "authorization_of req = (case get_header req AUTHORIZATION of Some v \<Rightarrow> v | None \<Rightarrow> [])"

text \<open>What the verifier signs again for a request: the signing key, the signed text and the canonical request in it.\<close>

definition signed_text :: "SigCrypto \<Rightarrow> 's GovState \<Rightarrow> HttpRequest \<Rightarrow> (string \<times> string \<times> string) option" where
  "signed_text cr gov req = (case parse_authorization_header (authorization_of req) of Inl _ \<Rightarrow> None
     | Inr parsed \<Rightarrow> (let headers = signed_subset (pa_signed_headers parsed) (hr_headers req) in do {
         (_, payload_hash) \<leftarrow> find (\<lambda>(k, _). k = X_AMZ_CONTENT_SHA256) headers;
         (_, amzdate) \<leftarrow> find (\<lambda>(k, _). k = X_AMZ_DATE) headers;
         selected \<leftarrow> select_signed headers (split_on (CHR '';'') (pa_signed_headers parsed));
         entry \<leftarrow> lookup_by_access_key_id (pa_access_key_id parsed) gov;
         let creq = canonical_request (hr_method req) (uri_encode_path (hr_path req)) (canonical_query_string (hr_query req)) (sorted_headers selected) payload_hash;
         Some (signing_key cr (ake_secret_access_key entry) (pa_datestamp parsed) (pa_region parsed) (pa_service parsed),
           string_to_sign cr (pa_region parsed) (pa_service parsed) amzdate (pa_datestamp parsed) creq, creq)
       }))"

lemma admitted_cases:
  assumes "verify_bedrock_sigv4 cr now gov req body = Some key"
  obtains parsed entry k1 ph k2 ad t sel
  where "parse_authorization_header (authorization_of req) = Inr parsed"
    "lookup_by_access_key_id (pa_access_key_id parsed) gov = Some entry" "ake_key entry = key" "vk_enabled key"
    "find (\<lambda>(k, _). k = X_AMZ_CONTENT_SHA256) (signed_subset (pa_signed_headers parsed) (hr_headers req)) = Some (k1, ph)"
    "sc_sha256_hex cr body = to_ascii_lowercase ph"
    "find (\<lambda>(k, _). k = X_AMZ_DATE) (signed_subset (pa_signed_headers parsed) (hr_headers req)) = Some (k2, ad)"
    "parse_amz_date ad = Some t" "abs_diff t now \<le> CLOCK_SKEW_SECS"
    "list_ex (\<lambda>h. eq_ignore_ascii_case h HOST) (split_on (CHR '';'') (pa_signed_headers parsed))"
    "select_signed (signed_subset (pa_signed_headers parsed) (hr_headers req)) (split_on (CHR '';'') (pa_signed_headers parsed)) = Some sel"
    "sign_v4 cr (ake_secret_access_key entry) (pa_region parsed) (pa_service parsed) (hr_method req) (uri_encode_path (hr_path req))
       (canonical_query_string (hr_query req)) sel ph ad (pa_datestamp parsed) = (pa_signature parsed, pa_signed_headers parsed)"
proof -
  from assms obtain parsed where p: "parse_authorization_header (authorization_of req) = Inr parsed"
    by (cases "parse_authorization_header (authorization_of req)") (simp_all add: verify_bedrock_sigv4_def authorization_of_def)
  define hs where "hs = signed_subset (pa_signed_headers parsed) (hr_headers req)"
  from assms obtain k1 ph k2 ad where f: "find (\<lambda>(k, _). k = X_AMZ_CONTENT_SHA256) hs = Some (k1, ph)" "find (\<lambda>(k, _). k = X_AMZ_DATE) hs = Some (k2, ad)"
    "sc_sha256_hex cr body = to_ascii_lowercase ph"
    by (auto simp: verify_bedrock_sigv4_def authorization_of_def [symmetric] p hs_def Let_def bind_eq_Some_conv split: if_splits)
  let ?in = "\<lparr>ir_method = hr_method req, ir_canonical_uri = uri_encode_path (hr_path req), ir_canonical_querystring = canonical_query_string (hr_query req),
      ir_headers = hs, ir_payload_hash = ph, ir_amzdate = ad\<rparr>"
  from assms obtain entry where e: "lookup_by_access_key_id (pa_access_key_id parsed) gov = Some entry" "ake_key entry = key" "vk_enabled key"
    and v: "verify_inbound_sigv4 cr parsed ?in (ake_secret_access_key entry) now = Inr ()"
    using f by (auto simp: verify_bedrock_sigv4_def authorization_of_def [symmetric] p hs_def [symmetric] Let_def split: if_splits option.splits sum.splits)
  from v obtain t sel where "parse_amz_date ad = Some t" "abs_diff t now \<le> CLOCK_SKEW_SECS"
    "list_ex (\<lambda>h. eq_ignore_ascii_case h HOST) (split_on (CHR '';'') (pa_signed_headers parsed))"
    "select_signed hs (split_on (CHR '';'') (pa_signed_headers parsed)) = Some sel"
    "sign_v4 cr (ake_secret_access_key entry) (pa_region parsed) (pa_service parsed) (hr_method req) (uri_encode_path (hr_path req))
       (canonical_query_string (hr_query req)) sel ph ad (pa_datestamp parsed) = (pa_signature parsed, pa_signed_headers parsed)"
    by (auto simp: verify_inbound_sigv4_def Let_def split: if_splits option.splits prod.splits)
  then show thesis using that p e f unfolding hs_def by blast
qed

subsection \<open>Selected headers\<close>

lemma select_names: "select_signed hs ns = Some sel \<Longrightarrow> map fst sel = map to_ascii_lowercase ns"
  by (induction ns arbitrary: sel) (auto simp: bind_eq_Some_conv Let_def)

lemma select_value:
  "select_signed hs ns = Some sel \<Longrightarrow> (n, v) \<in> set sel \<Longrightarrow> \<exists>k. find (\<lambda>(k, _). eq_ignore_ascii_case k n) hs = Some (k, v)"
  by (induction ns arbitrary: sel) (auto simp: bind_eq_Some_conv Let_def)

lemma sorted_headers_names: "map fst (sorted_headers hs) = sort (map to_ascii_lowercase (map fst hs))"
proof -
  have "map fst (sort_key fst xs) = sort (map fst xs)" for xs :: "(string \<times> string) list"
    by (rule sym, rule properties_for_sort) simp_all
  moreover have "map fst (map (\<lambda>(k, v). (to_ascii_lowercase k, canonicalize_header_value v)) hs) = map to_ascii_lowercase (map fst hs)"
    by (simp add: comp_def case_prod_beta)
  ultimately show ?thesis by (simp only: sorted_headers_def)
qed

lemma selected_names:
  assumes "select_signed hs ns = Some sel"
  shows "fst ` set (sorted_headers sel) = to_ascii_lowercase ` set ns"
proof -
  have "fst ` set (sorted_headers sel) = set (map fst (sorted_headers sel))" by simp
  also have "\<dots> = to_ascii_lowercase ` to_ascii_lowercase ` set ns" unfolding sorted_headers_names select_names [OF assms] by (simp only: set_sort set_map)
  also have "\<dots> = to_ascii_lowercase ` set ns" by (simp only: image_image lowercase_idem)
  finally show ?thesis .
qed

lemma canonicalize_chars: "c \<noteq> CHR '' '' \<Longrightarrow> c \<in> set (canonicalize_header_value v) \<Longrightarrow> c \<in> set v"
proof -
  have "c \<in> set (canonicalize_loop out b v) \<Longrightarrow> c \<in> set out \<union> set v \<or> c = CHR '' ''" for out b
    by (induction out b v rule: canonicalize_loop.induct) (auto split: if_splits)
  then show "c \<noteq> CHR '' '' \<Longrightarrow> c \<in> set (canonicalize_header_value v) \<Longrightarrow> c \<in> set v" by (force simp: canonicalize_header_value_def)
qed

lemma signed_subset_values: "(k, v) \<in> set (signed_subset sh hs) \<Longrightarrow> \<exists>n. (n, Some v) \<in> set hs"
  by (induction hs) (auto simp: signed_subset_def map_filter_simps Let_def split: if_splits option.splits)

lemma find_in: "find P xs = Some x \<Longrightarrow> x \<in> set xs"
  by (metis find_Some_iff nth_mem)

text \<open>Neither the method nor a header value holds a line break, as HTTP has it.\<close>

definition no_line_breaks :: "HttpRequest \<Rightarrow> bool" where
  "no_line_breaks req \<longleftrightarrow> NL \<notin> set (hr_method req) \<and> (\<forall>(n, v) \<in> set (hr_headers req). \<forall>x. v = Some x \<longrightarrow> NL \<notin> set x)"

lemma subset_no_break:
  assumes "no_line_breaks req" "find P (signed_subset sh (hr_headers req)) = Some (k, v)"
  shows "NL \<notin> set v"
  using signed_subset_values [OF find_in [OF assms(2)]] assms(1) by (auto simp: no_line_breaks_def)

lemma selected_no_break:
  assumes "no_line_breaks req" "select_signed (signed_subset sh (hr_headers req)) ns = Some sel"
  shows "\<forall>(k, v) \<in> set (sorted_headers sel). NL \<notin> set v"
proof -
  have "NL \<notin> set v" if "(k, v) \<in> set sel" for k v
    using select_value [OF assms(2) that] subset_no_break [OF assms(1)] by blast
  then have "NL \<notin> set (canonicalize_header_value v)" if "(k, v) \<in> set sel" for k v
    using that canonicalize_chars [of NL v] by (auto simp: NL_def)
  then show ?thesis by (auto simp: sorted_headers_def)
qed

definition signed_value :: "HttpRequest \<Rightarrow> string \<Rightarrow> string option" where
  "signed_value req name = (case parse_authorization_header (authorization_of req) of Inl _ \<Rightarrow> None
     | Inr parsed \<Rightarrow> map_option snd (find (\<lambda>(k, _). eq_ignore_ascii_case k name) (signed_subset (pa_signed_headers parsed) (hr_headers req))))"

lemma sorted_headers_value:
  assumes "parse_authorization_header (authorization_of req) = Inr parsed"
    "select_signed (signed_subset (pa_signed_headers parsed) (hr_headers req)) ns = Some sel" "(n, w) \<in> set (sorted_headers sel)"
  shows "map_option canonicalize_header_value (signed_value req n) = Some w"
proof -
  obtain k v where k: "(k, v) \<in> set sel" "n = to_ascii_lowercase k" "w = canonicalize_header_value v" using assms(3) by (auto simp: sorted_headers_def)
  have "k \<in> to_ascii_lowercase ` set ns" using select_names [OF assms(2)] k(1) by (metis fst_conv image_eqI list.set_map)
  then have "n = k" using k(2) by auto
  then show ?thesis using select_value [OF assms(2) k(1)] k(3) assms(1) by (auto simp: signed_value_def)
qed

subsection \<open>Binding\<close>

lemma abs_diff_bound: "abs_diff t a \<le> k \<Longrightarrow> abs_diff t b \<le> k \<Longrightarrow> abs_diff a b \<le> 2 * k"
  unfolding abs_diff_def by (cases "t \<le> a"; cases "t \<le> b"; cases "a \<le> b") simp_all

text \<open>The digests do not collide on the texts of these two requests.\<close>

definition no_collision :: "SigCrypto \<Rightarrow> 's GovState \<Rightarrow> HttpRequest \<Rightarrow> string \<Rightarrow> HttpRequest \<Rightarrow> string \<Rightarrow> bool" where
  "no_collision cr gov req body req' body' \<longleftrightarrow> (sc_sha256_hex cr body = sc_sha256_hex cr body' \<longrightarrow> body = body')
     \<and> (\<forall>k s c k' s' c'. signed_text cr gov req = Some (k, s, c) \<and> signed_text cr gov req' = Some (k', s', c')
          \<longrightarrow> (k = k' \<and> sc_hex cr (sc_hmac cr k s) = sc_hex cr (sc_hmac cr k' s') \<longrightarrow> s = s') \<and> (sc_sha256_hex cr c = sc_sha256_hex cr c' \<longrightarrow> c = c'))"

lemma string_to_sign_inj:
  assumes "string_to_sign cr region service ad ds c = string_to_sign cr region service ad' ds c'" "NL \<notin> set ad" "NL \<notin> set ad'"
  shows "ad = ad' \<and> sc_sha256_hex cr c = sc_sha256_hex cr c'"
proof -
  have "ad @ NL # (ds @ ''/'' @ region @ ''/'' @ service @ ''/'' @ SIGV4_TERMINATION @ NL # sc_sha256_hex cr c)
      = ad' @ NL # (ds @ ''/'' @ region @ ''/'' @ service @ ''/'' @ SIGV4_TERMINATION @ NL # sc_sha256_hex cr c')"
    using assms(1) by (simp add: string_to_sign_def)
  then show ?thesis by (simp only: split_first [OF assms(2,3)]) simp
qed

lemma signed_values_agree:
  assumes "parse_authorization_header (authorization_of req) = Inr parsed" "parse_authorization_header (authorization_of req') = Inr parsed"
    and "select_signed (signed_subset (pa_signed_headers parsed) (hr_headers req)) (split_on (CHR '';'') (pa_signed_headers parsed)) = Some sel"
    and "select_signed (signed_subset (pa_signed_headers parsed) (hr_headers req')) (split_on (CHR '';'') (pa_signed_headers parsed)) = Some sel'"
    and "sorted_headers sel = sorted_headers sel'" "n \<in> set (map to_ascii_lowercase (split_on (CHR '';'') (pa_signed_headers parsed)))"
  shows "map_option canonicalize_header_value (signed_value req n) = map_option canonicalize_header_value (signed_value req' n) \<and> signed_value req n \<noteq> None"
proof -
  have "n \<in> fst ` set (sorted_headers sel)" using assms(6) selected_names [OF assms(3)] by simp
  then obtain w where "(n, w) \<in> set (sorted_headers sel)" by auto
  then show ?thesis using sorted_headers_value [OF assms(1,3), of n w] sorted_headers_value [OF assms(2,4), of n w] assms(5) by auto
qed

text \<open>
  Claim C11. A signature binds the request it was made for. If two requests are admitted under the same authorization
  header, one of them perhaps a replay or an altered copy of the other, and the digests do not collide on
  their texts, then they authenticate the same key, were received at most twice the clock skew apart, and have the same
  method, path, canonical query and body and the same value, up to runs of spaces, of every signed header, of which the
  host is one.
\<close>

theorem signature_binds_request:
  assumes "verify_bedrock_sigv4 cr now gov req body = Some key" "verify_bedrock_sigv4 cr now' gov req' body' = Some key'"
    and "authorization_of req = authorization_of req'" "no_line_breaks req" "no_line_breaks req'" "no_collision cr gov req body req' body'"
  shows "key = key' \<and> vk_enabled key \<and> abs_diff now now' \<le> 2 * CLOCK_SKEW_SECS \<and> hr_method req = hr_method req' \<and> hr_path req = hr_path req'
    \<and> canonical_query_string (hr_query req) = canonical_query_string (hr_query req') \<and> body = body'
    \<and> (\<exists>parsed. parse_authorization_header (authorization_of req) = Inr parsed
         \<and> (let names = map to_ascii_lowercase (split_on (CHR '';'') (pa_signed_headers parsed)) in HOST \<in> set names
            \<and> (\<forall>n \<in> set names. map_option canonicalize_header_value (signed_value req n) = map_option canonicalize_header_value (signed_value req' n)
                 \<and> signed_value req n \<noteq> None)))"
proof (rule admitted_cases [OF assms(1)], rule admitted_cases [OF assms(2)])
  fix parsed entry k1 ph k2 ad t sel parsed' entry' k1' ph' k2' ad' t' sel'
  assume p: "parse_authorization_header (authorization_of req) = Inr parsed" and p': "parse_authorization_header (authorization_of req') = Inr parsed'"
  have pp: "parsed' = parsed" using p p' assms(3) by simp
  let ?ns = "split_on (CHR '';'') (pa_signed_headers parsed)" and ?hs = "signed_subset (pa_signed_headers parsed) (hr_headers req)"
    and ?hs' = "signed_subset (pa_signed_headers parsed) (hr_headers req')"
  assume l: "lookup_by_access_key_id (pa_access_key_id parsed) gov = Some entry" "ake_key entry = key" "vk_enabled key"
    and l': "lookup_by_access_key_id (pa_access_key_id parsed') gov = Some entry'" "ake_key entry' = key'"
    and f: "find (\<lambda>(k, _). k = X_AMZ_CONTENT_SHA256) ?hs = Some (k1, ph)" "sc_sha256_hex cr body = to_ascii_lowercase ph" "find (\<lambda>(k, _). k = X_AMZ_DATE) ?hs = Some (k2, ad)"
    and f': "find (\<lambda>(k, _). k = X_AMZ_CONTENT_SHA256) (signed_subset (pa_signed_headers parsed') (hr_headers req')) = Some (k1', ph')"
      "sc_sha256_hex cr body' = to_ascii_lowercase ph'" "find (\<lambda>(k, _). k = X_AMZ_DATE) (signed_subset (pa_signed_headers parsed') (hr_headers req')) = Some (k2', ad')"
    and d: "parse_amz_date ad = Some t" "abs_diff t now \<le> CLOCK_SKEW_SECS" and d': "parse_amz_date ad' = Some t'" "abs_diff t' now' \<le> CLOCK_SKEW_SECS"
    and h: "list_ex (\<lambda>h. eq_ignore_ascii_case h HOST) ?ns"
    and s: "select_signed ?hs ?ns = Some sel" and s': "select_signed (signed_subset (pa_signed_headers parsed') (hr_headers req')) (split_on (CHR '';'') (pa_signed_headers parsed')) = Some sel'"
    and g: "sign_v4 cr (ake_secret_access_key entry) (pa_region parsed) (pa_service parsed) (hr_method req) (uri_encode_path (hr_path req))
       (canonical_query_string (hr_query req)) sel ph ad (pa_datestamp parsed) = (pa_signature parsed, pa_signed_headers parsed)"
    and g': "sign_v4 cr (ake_secret_access_key entry') (pa_region parsed') (pa_service parsed') (hr_method req') (uri_encode_path (hr_path req'))
       (canonical_query_string (hr_query req')) sel' ph' ad' (pa_datestamp parsed') = (pa_signature parsed', pa_signed_headers parsed')"
  note l' = l' [unfolded pp] and f' = f' [unfolded pp] and s' = s' [unfolded pp] and g' = g' [unfolded pp]
  have e: "entry' = entry" using l l' by simp
  let ?c = "canonical_request (hr_method req) (uri_encode_path (hr_path req)) (canonical_query_string (hr_query req)) (sorted_headers sel) ph"
  let ?c' = "canonical_request (hr_method req') (uri_encode_path (hr_path req')) (canonical_query_string (hr_query req')) (sorted_headers sel') ph'"
  let ?k = "signing_key cr (ake_secret_access_key entry) (pa_datestamp parsed) (pa_region parsed) (pa_service parsed)"
  let ?s = "\<lambda>ad c. string_to_sign cr (pa_region parsed) (pa_service parsed) ad (pa_datestamp parsed) c"
  have t: "signed_text cr gov req = Some (?k, ?s ad ?c, ?c)" using p l f s by (simp add: signed_text_def Let_def)
  have t': "signed_text cr gov req' = Some (?k, ?s ad' ?c', ?c')" using p' pp l' e f' s' by (simp add: signed_text_def Let_def)
  have "sc_hex cr (sc_hmac cr ?k (?s ad ?c)) = sc_hex cr (sc_hmac cr ?k (?s ad' ?c'))" using g g' e by (simp add: sign_v4_def Let_def)
  then have ss: "?s ad ?c = ?s ad' ?c'" and cc: "sc_sha256_hex cr ?c = sc_sha256_hex cr ?c' \<Longrightarrow> ?c = ?c'" and bb: "sc_sha256_hex cr body = sc_sha256_hex cr body' \<Longrightarrow> body = body'"
    using assms(6) t t' unfolding no_collision_def by blast+
  have nb: "NL \<notin> set ph" "NL \<notin> set ad" "NL \<notin> set ph'" "NL \<notin> set ad'"
    using subset_no_break [OF assms(4) f(1)] subset_no_break [OF assms(4) f(3)] subset_no_break [OF assms(5) f'(1)] subset_no_break [OF assms(5) f'(3)] .
  have "ad = ad'" "?c = ?c'" using string_to_sign_inj [OF ss nb(2,4)] cc by blast+
  have ns: "map fst (sorted_headers sel) = map fst (sorted_headers sel')" using select_names [OF s] select_names [OF s'] by (simp add: sorted_headers_names)
  have eq: "hr_method req = hr_method req' \<and> uri_encode_path (hr_path req) = uri_encode_path (hr_path req')
      \<and> canonical_query_string (hr_query req) = canonical_query_string (hr_query req') \<and> sorted_headers sel = sorted_headers sel' \<and> ph = ph'"
    using \<open>?c = ?c'\<close> ns assms(4,5) path_encoding(2) query_no_newline nb selected_no_break [OF assms(4) s] selected_no_break [OF assms(5) s']
    by (intro canonical_request_inj) (simp_all add: no_line_breaks_def)
  have vals: "map_option canonicalize_header_value (signed_value req n) = map_option canonicalize_header_value (signed_value req' n) \<and> signed_value req n \<noteq> None"
    if "n \<in> set (map to_ascii_lowercase ?ns)" for n
    using signed_values_agree [OF p p' [unfolded pp] s s' _ that] eq by blast
  have host: "HOST \<in> set (map to_ascii_lowercase ?ns)" using h names_lower(2) unfolding list_ex_iff eq_ignore_ascii_case_def set_map by force
  have "abs_diff now now' \<le> 2 * CLOCK_SKEW_SECS" using d d' \<open>ad = ad'\<close> by (simp add: abs_diff_bound)
  moreover have "body = body'" using f(2) f'(2) eq bb by simp
  moreover have "hr_path req = hr_path req'" using eq path_encoding(1) by blast
  ultimately show ?thesis using p l l' e eq vals host unfolding Let_def by (intro conjI exI [of _ parsed]) blast+
qed


definition lane_request :: "(string \<times> string option) list \<Rightarrow> HttpRequest" where
  "lane_request extra = \<lparr>hr_method = ''POST'', hr_path = ''/model/m:0/converse'', hr_query = None,
     hr_headers = [(''content-type'', Some ''application/json''), (HOST, Some ''gw'')]
       @ map (\<lambda>(k, v). (k, Some v)) (sigv4_sign_headers toy_sig (\<lambda>x. True) ''AKIA1:s3cret'' lane_ctx) @ extra\<rparr>"

definition lane_authorization :: string where
  "lane_authorization = ''AWS4-HMAC-SHA256 Credential=AKIA1/20150830/us-east-1/bedrock/aws4_request, SignedHeaders=content-type;host;x-amz-content-sha256;x-amz-date, Signature=cd''"

lemma lane_time: "format_amz_time 1440938160 = (''20150830T123600Z'', ''20150830'')"
proof -
  have c: "civil_from_days 16677 = (2015, 8, 30)" by (simp add: civil_from_days_def tdiv_def)
  have p: "pad_decimal 4 2015 = ''2015''" "pad_decimal 2 8 = ''08''" "pad_decimal 2 30 = ''30''" "pad_decimal 2 12 = ''12''" "pad_decimal 2 36 = ''36''" "pad_decimal 2 0 = ''00''"
    by (simp_all add: pad_decimal_def to_decimal.simps char_of_def bit_0)
  show ?thesis by (simp add: format_amz_time_def SECS_PER_DAY_def SECS_PER_HOUR_def c p)
qed

lemma lane_sent:
  "sigv4_sign_headers toy_sig (\<lambda>x. True) ''AKIA1:s3cret'' lane_ctx
    = [(AUTHORIZATION, lane_authorization), (X_AMZ_DATE, ''20150830T123600Z''), (X_AMZ_CONTENT_SHA256, ''ab'')]"
proof -
  have n: "map fst (sorted_headers [(''content-type'', ''application/json''), (HOST, ''gw''), (X_AMZ_CONTENT_SHA256, ''ab''), (X_AMZ_DATE, ''20150830T123600Z'')]) = lane_names None"
    by (rule sorted_headers_lane(2)) (simp add: lane_names_def)
  have k: "split_lane_key ''AKIA1:s3cret'' = Some (''AKIA1'', ''s3cret'', None)" by (simp add: split_lane_key_def)
  have r: "derive_sigv4_region ''gw'' = None" by (simp add: derive_sigv4_region_def)
  show ?thesis using n k r
    by (simp add: sigv4_sign_headers_def lane_ctx_def lane_time sign_v4_def toy_sig_def Let_def authorization_text_def lane_authorization_def
        SIGV4_ALGORITHM_def SIGV4_TERMINATION_def lane_names_def header_names)
qed

lemma lane_request_fields:
  "hr_method (lane_request extra) = ''POST''" "hr_path (lane_request extra) = ''/model/m:0/converse''" "hr_query (lane_request extra) = None"
  by (simp_all add: lane_request_def)

lemma lane_request_facts:
  assumes "extra = [] \<or> extra = [(''accept'', None)]"
  shows "authorization_of (lane_request extra) = lane_authorization" "no_line_breaks (lane_request extra)"
    "signed_text toy_sig aws_gov (lane_request extra) = signed_text toy_sig aws_gov (lane_request [])"
    "abs_diff 1440938160 now \<le> CLOCK_SKEW_SECS \<Longrightarrow> verify_bedrock_sigv4 toy_sig now aws_gov (lane_request extra) ''{}'' = Some example_key"
proof -
  have x: "\<forall>(n, v) \<in> set extra. to_ascii_lowercase n \<notin> set (lane_names None)"
    using assms lowercase_id [of "''accept''"] by (auto simp: lane_names_def header_names is_upper_def)
  show a: "authorization_of (lane_request extra) = lane_authorization" for extra
    by (simp add: authorization_of_def lane_request_def lane_sent get_header_def header_names)
  show "no_line_breaks (lane_request extra)"
    using assms by (auto simp: no_line_breaks_def lane_request_def lane_sent lane_authorization_def NL_def)
  have "lane_authorization = authorization_text ''AKIA1'' ''20150830'' ''us-east-1'' ''bedrock'' (join_with '';'' (lane_names None)) ''cd''"
    by (simp add: lane_authorization_def authorization_text_def SIGV4_ALGORITHM_def SIGV4_TERMINATION_def lane_names_def header_names)
  moreover have "clean ''AKIA1''" "clean ''20150830''" "clean ''us-east-1''" "clean ''bedrock''" "clean ''cd''" by (simp_all add: clean_def is_ws_def)
  ultimately have p: "parse_authorization_header lane_authorization = Inr \<lparr>pa_access_key_id = ''AKIA1'', pa_datestamp = ''20150830'', pa_region = ''us-east-1'',
      pa_service = ''bedrock'', pa_signed_headers = join_with '';'' (lane_names None), pa_signature = ''cd''\<rparr>"
    using authorization_parses [of "''AKIA1''" "''20150830''" "''us-east-1''" "''bedrock''" "join_with '';'' (lane_names None)" "''cd''"] lane_names_joined(2) [of None]
    by simp
  have "signed_subset (join_with '';'' (lane_names None)) (hr_headers (lane_request e)) = received_headers ''gw'' ''ab'' ''20150830T123600Z'' None"
    if "\<forall>(n, v) \<in> set e. to_ascii_lowercase n \<notin> set (lane_names None)" for e
    using signed_subset_lane [OF that, of "''gw''" lane_authorization "''20150830T123600Z''" "''ab''"] by (simp add: lane_request_def lane_sent)
  then have "signed_subset (join_with '';'' (lane_names None)) (hr_headers (lane_request extra)) = signed_subset (join_with '';'' (lane_names None)) (hr_headers (lane_request []))"
    using x by simp
  then show "signed_text toy_sig aws_gov (lane_request extra) = signed_text toy_sig aws_gov (lane_request [])"
    unfolding signed_text_def a p sum.case by (simp add: Let_def lane_request_fields)
  have c: "clean ''AKIA1''" "CHR ''/'' \<notin> set ''AKIA1''" by (simp_all add: clean_def is_ws_def)
  have l: "lookup_by_access_key_id ''AKIA1'' aws_gov = Some \<lparr>ake_key = example_key, ake_secret_access_key = ''s3cret''\<rparr>"
    by (simp add: lookup_by_access_key_id_def aws_gov_def)
  have k: "split_lane_key ''AKIA1:s3cret'' = Some (''AKIA1'', ''s3cret'', None)" by (simp add: split_lane_key_def)
  have h: "\<forall>x. hex_text (sc_sha256_hex toy_sig x)" "\<forall>k x. hex_text (sc_hex toy_sig (sc_hmac toy_sig k x))" by (simp_all add: toy_sig_def hex_text_def)
  show "verify_bedrock_sigv4 toy_sig now aws_gov (lane_request extra) ''{}'' = Some example_key" if "abs_diff 1440938160 now \<le> CLOCK_SKEW_SECS"
    using lane_request_admitted [OF k c l, of 1440938160 now toy_sig "\<lambda>x. True" "''gw''" "''/model/m:0/converse''" "''{}''" extra] that h x lane_sent
    by (simp add: lane_ctx_def example_key_def lane_request_def)
qed

theorem signature_binds_request_witness:
  "verify_bedrock_sigv4 toy_sig 1440938100 aws_gov (lane_request []) ''{}'' = Some example_key
   \<and> verify_bedrock_sigv4 toy_sig 1440938400 aws_gov (lane_request [(''accept'', None)]) ''{}'' = Some example_key
   \<and> abs_diff 1440938100 1440938400 \<le> 2 * CLOCK_SKEW_SECS \<and> hr_path (lane_request []) = hr_path (lane_request [(''accept'', None)])"
proof -
  note f = lane_request_facts [of "[]"] and g = lane_request_facts [of "[(''accept'', None)]"]
  have v: "verify_bedrock_sigv4 toy_sig 1440938100 aws_gov (lane_request []) ''{}'' = Some example_key"
    "verify_bedrock_sigv4 toy_sig 1440938400 aws_gov (lane_request [(''accept'', None)]) ''{}'' = Some example_key"
    by (rule f(4), simp, simp add: abs_diff_def CLOCK_SKEW_SECS_def) (rule g(4), simp, simp add: abs_diff_def CLOCK_SKEW_SECS_def)
  have "no_collision toy_sig aws_gov (lane_request []) ''{}'' (lane_request [(''accept'', None)]) ''{}''" using g(3) by (auto simp: no_collision_def)
  from signature_binds_request [OF v _ _ _ this] show ?thesis using f(1,2) g(1,2) v by simp
qed

text \<open>
  The query the server sees is percent-encoded already; encoding it again gives a text no client signed.
\<close>

lemma query_encoded_twice: "canonical_query_string (Some ''a=b%20c'') = ''a=b%2520c''"
  by (simp add: canonical_query_string_def uri_encode_query_def unreserved_def is_digit_def percent_def)

end
