(* ===== verification/AuthChain.thy ===== *)
theory AuthChain
  imports GovKeys
begin

text \<open>
  The front door: the chain of authentication modules (\<open>run_chain_cached\<close> of \<open>auth/mod.rs\<close>, the contract of
  \<open>crates/api/src/auth.rs\<close>) and the credential cache around it (\<open>auth_cache.rs\<close>). A module is
  outside code: what it answers at a time is the argument \<open>authenticate\<close>. The cache is keyed on the
  SHA-256 of the credential, an argument too; a panic is \<open>None\<close>.
\<close>

subsection \<open>The credential cache\<close>

datatype AuthOutcome = Identify Principal | Reject | Pass

definition DEFAULT_IDENTIFY_TTL_SECS :: nat where
  "DEFAULT_IDENTIFY_TTL_SECS = 300"

definition MAX_IDENTIFY_TTL_SECS :: nat where
  "MAX_IDENTIFY_TTL_SECS = 3600"

definition PASS_TTL_SECS :: nat where
  "PASS_TTL_SECS = 5"

definition MAX_ENTRIES :: nat where
  "MAX_ENTRIES = 4096"

datatype CachedVerdict = CachedIdentify Principal | CachedPass

record CacheEntry =
  ce_expires_at :: nat
  ce_inserted_seq :: nat
  ce_verdict :: CachedVerdict

type_synonym CacheKey = "string \<times> string"

record CredentialCache =
  cc_entries :: "(CacheKey \<times> CacheEntry) list"
  cc_seq :: nat

definition CredentialCache_new :: CredentialCache where
  "CredentialCache_new = \<lparr>cc_entries = [], cc_seq = 0\<rparr>"

definition map_remove :: "'k \<Rightarrow> ('k \<times> 'v) list \<Rightarrow> ('k \<times> 'v) list" where
  "map_remove k xs = filter (\<lambda>(k', _). k' \<noteq> k) xs"

definition outcome_of :: "CachedVerdict \<Rightarrow> AuthOutcome" where
  "outcome_of v = (case v of CachedIdentify p \<Rightarrow> Identify p | CachedPass \<Rightarrow> Pass)"

definition cache_get :: "(string \<Rightarrow> string) \<Rightarrow> string \<Rightarrow> string \<Rightarrow> nat \<Rightarrow> CredentialCache \<Rightarrow> AuthOutcome option \<times> CredentialCache" where
  "cache_get sha256_hex modname credential now c =
     (let key = (modname, sha256_hex credential) in case al_get (cc_entries c) key of
        Some e \<Rightarrow> if now < ce_expires_at e then (Some (outcome_of (ce_verdict e)), c) else (None, c\<lparr>cc_entries := map_remove key (cc_entries c)\<rparr>)
      | None \<Rightarrow> (None, c))"

text \<open>The verdict to keep with its time to live; nothing for a rejection, a panic on an empty digest.\<close>

definition cacheable_verdict :: "string \<Rightarrow> AuthOutcome \<Rightarrow> (CachedVerdict \<times> nat) option option" where
  "cacheable_verdict hash outcome = (case outcome of
       Identify p \<Rightarrow> Some (Some (CachedIdentify p, min (case pr_ttl_secs p of Some t \<Rightarrow> t | None \<Rightarrow> DEFAULT_IDENTIFY_TTL_SECS) MAX_IDENTIFY_TTL_SECS))
     | Pass \<Rightarrow> (case hash of [] \<Rightarrow> None | b # _ \<Rightarrow> Some (Some (CachedPass, PASS_TTL_SECS + of_char b mod 3)))
     | Reject \<Rightarrow> Some None)"

fun oldest :: "(CacheKey \<times> CacheEntry) list \<Rightarrow> CacheKey option" where
  "oldest [] = None"
| "oldest ((k, e) # xs) = Some (fst (foldl (\<lambda>(bk, bs) (k', e'). if ce_inserted_seq e' < bs then (k', ce_inserted_seq e') else (bk, bs)) (k, ce_inserted_seq e) xs))"

definition make_room :: "nat \<Rightarrow> (CacheKey \<times> CacheEntry) list \<Rightarrow> (CacheKey \<times> CacheEntry) list" where
  "make_room now es = (if length es < MAX_ENTRIES then es
     else let live = filter (\<lambda>(_, e). now < ce_expires_at e) es in
       if length live < MAX_ENTRIES then live
       else (case oldest live of Some k \<Rightarrow> map_remove k live | None \<Rightarrow> live))"

definition cache_put :: "(string \<Rightarrow> string) \<Rightarrow> string \<Rightarrow> string \<Rightarrow> AuthOutcome \<Rightarrow> nat \<Rightarrow> CredentialCache \<Rightarrow> CredentialCache option" where
  "cache_put sha256_hex modname credential outcome now c =
     (let hash = sha256_hex credential in case cacheable_verdict hash outcome of
        None \<Rightarrow> None
      | Some None \<Rightarrow> Some c
      | Some (Some (verdict, ttl)) \<Rightarrow>
          (let es = make_room now (cc_entries c); seq = wrap_u64 (cc_seq c + 1)
           in Some \<lparr>cc_entries = al_put es (modname, hash) \<lparr>ce_expires_at = wrap_u64 (now + ttl), ce_inserted_seq = seq, ce_verdict = verdict\<rparr>, cc_seq = seq\<rparr>))"

definition flush_module :: "string \<Rightarrow> CredentialCache \<Rightarrow> nat \<times> CredentialCache" where
  "flush_module modname c = (let kept = filter (\<lambda>((m, _), _). m \<noteq> modname) (cc_entries c)
     in (length (cc_entries c) - length kept, c\<lparr>cc_entries := kept\<rparr>))"

definition flush_all :: "CredentialCache \<Rightarrow> nat \<times> CredentialCache" where
  "flush_all c = (length (cc_entries c), c\<lparr>cc_entries := []\<rparr>)"

subsection \<open>The chain\<close>

record AuthModule =
  am_name :: string
  am_cacheable :: bool
  am_authenticate :: "string option \<Rightarrow> AuthOutcome"

datatype ChainVerdict = Identified string Principal | Open | Denied

text \<open>One module, with the cache consulted around it when there is one, a credential and a cacheable module.\<close>

definition ask_module :: "(string \<Rightarrow> string) \<Rightarrow> nat \<Rightarrow> string option \<Rightarrow> AuthModule \<Rightarrow> CredentialCache option \<Rightarrow> (AuthOutcome \<times> CredentialCache option) option" where
  "ask_module sha256_hex now candidate m cache = (case (cache, candidate) of
       (Some c, Some cred) \<Rightarrow>
         if am_cacheable m
         then (case cache_get sha256_hex (am_name m) cred now c of
             (Some o1, c1) \<Rightarrow> Some (o1, Some c1)
           | (None, c1) \<Rightarrow> (let o1 = am_authenticate m candidate in map_option (\<lambda>c2. (o1, Some c2)) (cache_put sha256_hex (am_name m) cred o1 now c1)))
         else Some (am_authenticate m candidate, cache)
     | _ \<Rightarrow> Some (am_authenticate m candidate, cache))"

fun chain_loop :: "(string \<Rightarrow> string) \<Rightarrow> nat \<Rightarrow> string option \<Rightarrow> AuthModule list \<Rightarrow> CredentialCache option \<Rightarrow> (ChainVerdict \<times> CredentialCache option) option" where
  "chain_loop sha256_hex now candidate [] cache = Some (Denied, cache)"
| "chain_loop sha256_hex now candidate (m # ms) cache = (case ask_module sha256_hex now candidate m cache of
       None \<Rightarrow> None
     | Some (Identify p, cache1) \<Rightarrow> Some (Identified (am_name m) p, cache1)
     | Some (Reject, cache1) \<Rightarrow> Some (Denied, cache1)
     | Some (Pass, cache1) \<Rightarrow> chain_loop sha256_hex now candidate ms cache1)"

definition run_chain_cached :: "(string \<Rightarrow> string) \<Rightarrow> nat \<Rightarrow> string option \<Rightarrow> AuthModule list \<Rightarrow> CredentialCache option \<Rightarrow> (ChainVerdict \<times> CredentialCache option) option" where
  "run_chain_cached sha256_hex now candidate chain cache = (if chain = [] then Some (Open, cache) else chain_loop sha256_hex now candidate chain cache)"

subsection \<open>The cache invariant\<close>

lemma set_map_remove: "set (map_remove k xs) \<subseteq> set xs"
  by (auto simp: map_remove_def)

lemma distinct_filter_keys: "distinct (map fst xs) \<Longrightarrow> distinct (map fst (filter P xs))"
  by (simp add: distinct_map_filter)

lemma oldest_some: "xs \<noteq> [] \<Longrightarrow> \<exists>k. oldest xs = Some k \<and> k \<in> fst ` set xs"
proof -
  have f: "fst (foldl (\<lambda>(bk, bs) (k', e'). if ce_inserted_seq e' < bs then (k', ce_inserted_seq e') else (bk, bs)) (b, s) xs) \<in> insert b (fst ` set xs)" for b s xs
  proof (induction xs arbitrary: b s)
    case (Cons x xs)
    obtain k e where x: "x = (k, e)" by (cases x)
    show ?case
    proof (cases "ce_inserted_seq e < s")
      case True
      then show ?thesis using Cons.IH [of k "ce_inserted_seq e"] by (auto simp: x)
    next
      case False
      then show ?thesis using Cons.IH [of b s] by (auto simp: x)
    qed
  qed simp
  assume "xs \<noteq> []"
  then obtain k e ys where "xs = (k, e) # ys" by (cases xs) auto
  then show ?thesis using f [of k "ce_inserted_seq e" ys] by auto
qed

lemma length_map_remove: "k \<in> fst ` set xs \<Longrightarrow> length (map_remove k xs) < length xs"
proof -
  assume "k \<in> fst ` set xs"
  then obtain v where "(k, v) \<in> set xs" by auto
  then show ?thesis unfolding map_remove_def by (rule length_filter_less) simp
qed

lemma make_room:
  assumes "length es \<le> MAX_ENTRIES"
  shows "length (make_room now es) < MAX_ENTRIES" "set (make_room now es) \<subseteq> set es" "distinct (map fst es) \<Longrightarrow> distinct (map fst (make_room now es))"
proof -
  let ?live = "filter (\<lambda>(_, e). now < ce_expires_at e) es"
  show "set (make_room now es) \<subseteq> set es" by (auto simp: make_room_def Let_def map_remove_def split: option.splits if_splits)
  show "distinct (map fst es) \<Longrightarrow> distinct (map fst (make_room now es))"
    by (simp add: make_room_def Let_def map_remove_def distinct_filter_keys split: option.split)
  show "length (make_room now es) < MAX_ENTRIES"
  proof (cases "length es < MAX_ENTRIES \<or> length ?live < MAX_ENTRIES")
    case False
    then have "?live \<noteq> []" by (auto simp: MAX_ENTRIES_def)
    then obtain k where "oldest ?live = Some k" "k \<in> fst ` set ?live" using oldest_some by blast
    moreover have "length ?live \<le> MAX_ENTRIES" using assms length_filter_le [of _ es] le_trans by blast
    ultimately show ?thesis using False length_map_remove [of k ?live] by (simp add: make_room_def)
  qed (auto simp: make_room_def)
qed

end
