(* ===== verification/AuthRuns.thy ===== *)
theory AuthRuns
  imports AuthChain
begin

text \<open>
  Runs of the front door: requests and cache flushes in any order. Every verdict is what the modules said recently:
  an identity at most an hour old, a pass at most seven seconds old, a rejection never remembered, and nothing from before the
  last flush.
\<close>

text \<open>\<open>ans t m cred\<close> is what module \<open>m\<close> answers for a credential at time \<open>t\<close>; a chain is its modules' names, each with
  its \<open>cacheable\<close> flag.\<close>

type_synonym answers = "nat \<Rightarrow> string \<Rightarrow> string option \<Rightarrow> AuthOutcome"

definition modules_at :: "answers \<Rightarrow> nat \<Rightarrow> (string \<times> bool) list \<Rightarrow> AuthModule list" where
  "modules_at ans now cfg = map (\<lambda>(n, c). \<lparr>am_name = n, am_cacheable = c, am_authenticate = ans now n\<rparr>) cfg"

fun lifetime :: "AuthOutcome \<Rightarrow> nat" where
  "lifetime (Identify p) = 3600"
| "lifetime Pass = 7"
| "lifetime Reject = 0"

definition recent :: "(string \<Rightarrow> string) \<Rightarrow> answers \<Rightarrow> (string \<Rightarrow> nat) \<Rightarrow> nat \<Rightarrow> string option \<Rightarrow> string \<times> bool \<Rightarrow> AuthOutcome \<Rightarrow> bool" where
  "recent sha ans flushed now cand mc v \<longleftrightarrow> ans now (fst mc) cand = v
     \<or> (snd mc \<and> (\<exists>x t cred. cand = Some x \<and> sha cred = sha x \<and> ans t (fst mc) (Some cred) = v \<and> flushed (fst mc) \<le> t \<and> t \<le> now \<and> now < t + lifetime v))"

fun explains :: "(string \<Rightarrow> string) \<Rightarrow> answers \<Rightarrow> (string \<Rightarrow> nat) \<Rightarrow> nat \<Rightarrow> string option \<Rightarrow> (string \<times> bool) list \<Rightarrow> ChainVerdict \<Rightarrow> bool" where
  "explains sha ans flushed now cand [] v \<longleftrightarrow> v = Denied"
| "explains sha ans flushed now cand (mc # cfg) v \<longleftrightarrow>
     (\<exists>p. v = Identified (fst mc) p \<and> recent sha ans flushed now cand mc (Identify p))
     \<or> (v = Denied \<and> ans now (fst mc) cand = Reject)
     \<or> (recent sha ans flushed now cand mc Pass \<and> explains sha ans flushed now cand cfg v)"

definition cache_ok :: "(string \<Rightarrow> string) \<Rightarrow> answers \<Rightarrow> (string \<Rightarrow> nat) \<Rightarrow> nat \<Rightarrow> CredentialCache \<Rightarrow> bool" where
  "cache_ok sha ans flushed now c \<longleftrightarrow> length (cc_entries c) \<le> MAX_ENTRIES \<and> distinct (map fst (cc_entries c))
     \<and> (\<forall>((m, h), e) \<in> set (cc_entries c). \<exists>t cred. flushed m \<le> t \<and> t \<le> now \<and> sha cred = h \<and> ans t m (Some cred) = outcome_of (ce_verdict e)
          \<and> ce_expires_at e \<le> t + lifetime (outcome_of (ce_verdict e)))"

lemma length_al_put: "length (al_put xs k v) \<le> Suc (length xs)"
  by (induction xs k v rule: al_put.induct) auto

lemma cache_ok_sub:
  assumes "cache_ok sha ans flushed now c" "set es \<subseteq> set (cc_entries c)" "distinct (map fst es)"
  shows "cache_ok sha ans flushed now (c\<lparr>cc_entries := es\<rparr>)"
proof -
  have "length es \<le> length (cc_entries c)"
    using card_mono [OF _ assms(2)] assms(1,3) by (simp add: cache_ok_def distinct_map distinct_card)
  then show ?thesis using assms by (auto simp: cache_ok_def)
qed

lemma cache_ok_later: "cache_ok sha ans flushed now c \<Longrightarrow> now \<le> now' \<Longrightarrow> cache_ok sha ans flushed now' c"
  unfolding cache_ok_def by (elim conjE, intro conjI ballI) (simp, simp, fastforce dest!: bspec)

lemma cacheable_lifetime: "cacheable_verdict h v = Some (Some (cv, ttl)) \<Longrightarrow> outcome_of cv = v \<and> ttl \<le> lifetime v"
proof (cases v)
  case (Identify p)
  then show "cacheable_verdict h v = Some (Some (cv, ttl)) \<Longrightarrow> ?thesis" by (auto simp: cacheable_verdict_def outcome_of_def MAX_IDENTIFY_TTL_SECS_def)
next
  case Pass
  assume "cacheable_verdict h v = Some (Some (cv, ttl))"
  then obtain b hs where "h = b # hs" "cv = CachedPass" "ttl = 5 + of_char b mod 3" using Pass by (cases h) (auto simp: cacheable_verdict_def PASS_TTL_SECS_def)
  moreover have "(of_char b :: nat) mod 3 \<le> 2" using mod_less_divisor [of 3 "of_char b :: nat"] by linarith
  ultimately show ?thesis using Pass by (simp add: outcome_of_def)
qed (simp add: cacheable_verdict_def)

lemma put_ok:
  assumes "cache_ok sha ans flushed now c" "flushed m \<le> now" "now + 3600 \<le> u64_max" "sha cred \<noteq> []"
  shows "\<exists>c'. cache_put sha m cred (ans now m (Some cred)) now c = Some c' \<and> cache_ok sha ans flushed now c'"
proof -
  let ?v = "ans now m (Some cred)"
  have "cacheable_verdict (sha cred) ?v \<noteq> None" using assms(4) by (auto simp: cacheable_verdict_def split: AuthOutcome.split list.split)
  then consider (no) "cacheable_verdict (sha cred) ?v = Some None" | (yes) cv ttl where "cacheable_verdict (sha cred) ?v = Some (Some (cv, ttl))" by force
  then show ?thesis
  proof cases
    case no
    then show ?thesis using assms(1) by (simp add: cache_put_def)
  next
    case yes
    have l: "outcome_of cv = ?v" "ttl \<le> lifetime ?v" using cacheable_lifetime [OF yes] by simp_all
    have "lifetime ?v \<le> 3600" by (cases ?v) simp_all
    then have x: "wrap_u64 (now + ttl) = now + ttl" using assms(3) l by (simp add: wrap_u64_def u64_max_def)
    have len: "length (cc_entries c) \<le> MAX_ENTRIES" and dist: "distinct (map fst (cc_entries c))" using assms(1) by (simp_all add: cache_ok_def)
    let ?es = "make_room now (cc_entries c)"
    note room = make_room(1) [OF len, of now] make_room(2) [OF len, of now] make_room(3) [OF len dist, of now]
    let ?e = "\<lparr>ce_expires_at = now + ttl, ce_inserted_seq = wrap_u64 (cc_seq c + 1), ce_verdict = cv\<rparr>"
    have "length (al_put ?es (m, sha cred) ?e) \<le> MAX_ENTRIES" using room(1) length_al_put [of ?es "(m, sha cred)" ?e] by linarith
    moreover have "distinct (map fst (al_put ?es (m, sha cred) ?e))" using room(3) by (rule distinct_al_put)
    moreover have "set (al_put ?es (m, sha cred) ?e) \<subseteq> insert ((m, sha cred), ?e) (set (cc_entries c))" using room(2) set_al_put_subset [of ?es] by blast
    moreover have "\<exists>t cr. flushed m \<le> t \<and> t \<le> now \<and> sha cr = sha cred \<and> ans t m (Some cr) = outcome_of cv \<and> now + ttl \<le> t + lifetime (outcome_of cv)"
      using assms(2) l by (intro exI [of _ now] exI [of _ cred]) simp
    ultimately have "cache_ok sha ans flushed now \<lparr>cc_entries = al_put ?es (m, sha cred) ?e, cc_seq = wrap_u64 (cc_seq c + 1)\<rparr>"
      using assms(1) unfolding cache_ok_def by fastforce
    then show ?thesis using yes x by (simp add: cache_put_def Let_def)
  qed
qed


lemma get_ok:
  assumes "cache_ok sha ans flushed now c" "cache_get sha m cred now c = (res, c')"
  shows "cache_ok sha ans flushed now c' \<and> (\<forall>v. res = Some v \<longrightarrow> recent sha ans flushed now (Some cred) (m, True) v)"
proof (cases "al_get (cc_entries c) (m, sha cred)")
  case (Some e)
  then obtain t cr where t: "flushed m \<le> t" "t \<le> now" "sha cr = sha cred" "ans t m (Some cr) = outcome_of (ce_verdict e)"
    "ce_expires_at e \<le> t + lifetime (outcome_of (ce_verdict e))" using assms(1) by (fastforce simp: cache_ok_def dest!: al_get_mem)
  have sub: "cache_ok sha ans flushed now (c\<lparr>cc_entries := map_remove (m, sha cred) (cc_entries c)\<rparr>)"
    using assms(1) by (intro cache_ok_sub set_map_remove) (simp_all add: cache_ok_def map_remove_def distinct_filter_keys)
  have "recent sha ans flushed now (Some cred) (m, True) (outcome_of (ce_verdict e))" if "now < ce_expires_at e"
    using t that unfolding recent_def by (intro disjI2 conjI exI [of _ cred] exI [of _ t] exI [of _ cr]) simp_all
  then show ?thesis using Some assms sub by (auto simp: cache_get_def Let_def split: if_splits)
qed (use assms in \<open>simp add: cache_get_def\<close>)

lemma ask_ok:
  assumes "cache_ok sha ans flushed now c" "flushed n \<le> now" "now + 3600 \<le> u64_max" "\<forall>x. sha x \<noteq> []"
  shows "\<exists>v c'. ask_module sha now cand \<lparr>am_name = n, am_cacheable = b, am_authenticate = ans now n\<rparr> (Some c) = Some (v, Some c')
    \<and> cache_ok sha ans flushed now c' \<and> recent sha ans flushed now cand (n, b) v"
proof (cases "cand \<noteq> None \<and> b")
  case True
  then obtain cred where cred: "cand = Some cred" and b by blast
  obtain res c1 where g: "cache_get sha n cred now c = (res, c1)" by fastforce
  note ok = get_ok [OF assms(1) g]
  show ?thesis
  proof (cases res)
    case None
    obtain c' where "cache_put sha n cred (ans now n (Some cred)) now c1 = Some c'" "cache_ok sha ans flushed now c'"
      using put_ok [of sha ans flushed now c1 n cred] ok assms by blast
    then show ?thesis using cred \<open>b\<close> g None by (simp add: ask_module_def recent_def)
  next
    case (Some v)
    then show ?thesis using cred \<open>b\<close> g ok by (simp add: ask_module_def)
  qed
next
  case False
  then show ?thesis using assms(1) by (cases cand) (simp_all add: ask_module_def recent_def)
qed

lemma chain_ok:
  assumes "cache_ok sha ans flushed now c" "\<forall>m. flushed m \<le> now" "now + 3600 \<le> u64_max" "\<forall>x. sha x \<noteq> []"
  shows "\<exists>v c'. chain_loop sha now cand (modules_at ans now cfg) (Some c) = Some (v, Some c') \<and> cache_ok sha ans flushed now c' \<and> explains sha ans flushed now cand cfg v"
  using assms(1)
proof (induction cfg arbitrary: c)
  case (Cons mc cfg)
  obtain n b where mc: "mc = (n, b)" by (cases mc)
  obtain v c1 where a: "ask_module sha now cand \<lparr>am_name = n, am_cacheable = b, am_authenticate = ans now n\<rparr> (Some c) = Some (v, Some c1)"
    and ok: "cache_ok sha ans flushed now c1" "recent sha ans flushed now cand (n, b) v"
    using ask_ok [OF Cons.prems spec [OF assms(2)] assms(3,4)] by blast
  show ?case
  proof (cases v)
    case (Identify p)
    then show ?thesis using a ok by (simp add: modules_at_def mc)
  next
    case Reject
    then have "ans now n cand = Reject" using ok(2) by (auto simp: recent_def)
    then show ?thesis using a ok Reject by (simp add: modules_at_def mc)
  next
    case Pass
    obtain v' c' where "chain_loop sha now cand (modules_at ans now cfg) (Some c1) = Some (v', Some c')" "cache_ok sha ans flushed now c'"
      "explains sha ans flushed now cand cfg v'" using Cons.IH [OF ok(1)] by blast
    then show ?thesis using a ok Pass by (simp add: modules_at_def mc)
  qed
qed (simp add: modules_at_def)

subsection \<open>Runs\<close>

datatype FrontDoor = Request nat "string option" | FlushModule nat string | FlushAll nat

fun event_time :: "FrontDoor \<Rightarrow> nat" where
  "event_time (Request t cand) = t"
| "event_time (FlushModule t m) = t"
| "event_time (FlushAll t) = t"

fun serve :: "(string \<Rightarrow> string) \<Rightarrow> answers \<Rightarrow> (string \<times> bool) list \<Rightarrow> FrontDoor list \<Rightarrow> CredentialCache \<Rightarrow> (ChainVerdict list \<times> CredentialCache) option" where
  "serve sha ans cfg [] c = Some ([], c)"
| "serve sha ans cfg (Request now cand # evs) c = (case run_chain_cached sha now cand (modules_at ans now cfg) (Some c) of
       Some (v, Some c1) \<Rightarrow> map_option (\<lambda>(vs, c2). (v # vs, c2)) (serve sha ans cfg evs c1)
     | _ \<Rightarrow> None)"
| "serve sha ans cfg (FlushModule t m # evs) c = serve sha ans cfg evs (snd (flush_module m c))"
| "serve sha ans cfg (FlushAll t # evs) c = serve sha ans cfg evs (snd (flush_all c))"

text \<open>Every verdict of the run is explained by recent answers, \<open>flushed\<close> being the time of each module's last flush.\<close>

fun all_explained :: "(string \<Rightarrow> string) \<Rightarrow> answers \<Rightarrow> (string \<times> bool) list \<Rightarrow> (string \<Rightarrow> nat) \<Rightarrow> FrontDoor list \<Rightarrow> ChainVerdict list \<Rightarrow> bool" where
  "all_explained sha ans cfg flushed [] vs \<longleftrightarrow> vs = []"
| "all_explained sha ans cfg flushed (Request now cand # evs) vs \<longleftrightarrow> (case vs of [] \<Rightarrow> False
     | v # vs \<Rightarrow> (if cfg = [] then v = Open else explains sha ans flushed now cand cfg v) \<and> all_explained sha ans cfg flushed evs vs)"
| "all_explained sha ans cfg flushed (FlushModule t m # evs) vs \<longleftrightarrow> all_explained sha ans cfg (flushed(m := t)) evs vs"
| "all_explained sha ans cfg flushed (FlushAll t # evs) vs \<longleftrightarrow> all_explained sha ans cfg (\<lambda>m. t) evs vs"

lemma flush_ok:
  assumes "cache_ok sha ans flushed now c"
  shows "cache_ok sha ans (flushed(m := t)) now (snd (flush_module m c))" "cache_ok sha ans g now (snd (flush_all c))"
proof -
  have "cache_ok sha ans flushed now (snd (flush_module m c))"
    using assms by (simp add: flush_module_def Let_def, intro cache_ok_sub) (auto simp: cache_ok_def distinct_filter_keys)
  moreover have "m' \<noteq> m" if "((m', h), e) \<in> set (cc_entries (snd (flush_module m c)))" for m' h e
    using that by (auto simp: flush_module_def Let_def)
  ultimately show "cache_ok sha ans (flushed(m := t)) now (snd (flush_module m c))" by (fastforce simp: cache_ok_def)
  show "cache_ok sha ans g now (snd (flush_all c))" by (simp add: cache_ok_def flush_all_def)
qed

lemma serve_ok:
  assumes "cache_ok sha ans flushed now c" "\<forall>m. flushed m \<le> now" "sorted (now # map event_time evs)" "\<forall>e \<in> set evs. event_time e + 3600 \<le> u64_max" "\<forall>x. sha x \<noteq> []"
  shows "\<exists>vs c'. serve sha ans cfg evs c = Some (vs, c') \<and> all_explained sha ans cfg flushed evs vs \<and> length (cc_entries c') \<le> MAX_ENTRIES"
  using assms(1-4)
proof (induction evs arbitrary: c flushed now)
  case Nil
  then show ?case by (simp add: cache_ok_def)
next
  case (Cons ev evs)
  let ?t = "event_time ev"
  have le: "now \<le> ?t" and sorted: "sorted (?t # map event_time evs)" and lim: "?t + 3600 \<le> u64_max" "\<forall>e \<in> set evs. event_time e + 3600 \<le> u64_max"
    using Cons.prems by simp_all
  have ok: "cache_ok sha ans flushed ?t c" by (rule cache_ok_later [OF Cons.prems(1) le])
  have fl: "\<forall>m. flushed m \<le> ?t" using Cons.prems(2) le le_trans by blast
  show ?case
  proof (cases ev)
    case (Request t cand)
    have "\<exists>v c1. run_chain_cached sha t cand (modules_at ans t cfg) (Some c) = Some (v, Some c1) \<and> cache_ok sha ans flushed t c1
        \<and> (if cfg = [] then v = Open else explains sha ans flushed t cand cfg v)"
    proof (cases "cfg = []")
      case False
      then have "modules_at ans t cfg \<noteq> []" by (simp add: modules_at_def)
      then show ?thesis using chain_ok [of sha ans flushed t c cand cfg] ok fl lim(1) assms(5) False by (simp add: run_chain_cached_def Request)
    qed (use ok in \<open>simp add: run_chain_cached_def modules_at_def Request\<close>)
    then obtain v c1 where r: "run_chain_cached sha t cand (modules_at ans t cfg) (Some c) = Some (v, Some c1)" "cache_ok sha ans flushed t c1"
      "if cfg = [] then v = Open else explains sha ans flushed t cand cfg v" by blast
    then obtain vs c' where "serve sha ans cfg evs c1 = Some (vs, c')" "all_explained sha ans cfg flushed evs vs" "length (cc_entries c') \<le> MAX_ENTRIES"
      using Cons.IH [of flushed t c1] fl sorted lim(2) Request by auto
    then show ?thesis using r Request by simp
  next
    case (FlushModule t m)
    have "\<forall>k. (flushed(m := t)) k \<le> t" using fl FlushModule by simp
    moreover have "cache_ok sha ans (flushed(m := t)) t (snd (flush_module m c))" using flush_ok(1) [OF ok] FlushModule by simp
    ultimately show ?thesis using Cons.IH [of "flushed(m := t)" t] sorted lim(2) unfolding FlushModule by (simp del: fun_upd_apply)
  next
    case (FlushAll t)
    then show ?thesis using Cons.IH [of "\<lambda>m. t" t "snd (flush_all c)"] flush_ok(2) [OF ok] sorted lim(2) by simp
  qed
qed



end
