(* ===== verification/AdminRate.thy ===== *)
theory AdminRate
  imports Prelude
begin

text \<open>
  The rate limit on admin mutations (\<open>crates/busbar/src/admin/rate.rs\<close>): fixed one-minute windows per
  principal and mutation class, swept on every check. The code's lazily created map is an option of an association list.
\<close>

definition MUTATION_RATE_WINDOW_SECS :: nat where
  "MUTATION_RATE_WINDOW_SECS = 60"

datatype MutationClass = Config | Crud

fun mutation_limit :: "MutationClass \<Rightarrow> nat" where
  "mutation_limit Config = 10"
| "mutation_limit Crud = 60"

fun mutation_label :: "MutationClass \<Rightarrow> string" where
  "mutation_label Config = ''config''"
| "mutation_label Crud = ''crud''"

type_synonym limiter_map = "((string \<times> MutationClass) \<times> (nat \<times> nat)) list"

record MutationLimiter =
  ml_windows :: "limiter_map option"

definition MutationLimiter_new :: MutationLimiter where
  "MutationLimiter_new = \<lparr>ml_windows = None\<rparr>"

definition rate_window :: "nat \<Rightarrow> nat" where
  "rate_window now = now - now mod MUTATION_RATE_WINDOW_SECS"

definition rate_check :: "string \<Rightarrow> MutationClass \<Rightarrow> nat \<Rightarrow> MutationLimiter \<Rightarrow> bool \<times> MutationLimiter" where
  "rate_check who cls now l =
     (let window = rate_window now;
          m = (case ml_windows l of Some m \<Rightarrow> m | None \<Rightarrow> []);
          m1 = filter (\<lambda>(_, (w, _)). w = window) m;
          (w, n) = (case al_get m1 (who, cls) of Some e \<Rightarrow> e | None \<Rightarrow> (window, 0))
      in if mutation_limit cls \<le> n then (False, l\<lparr>ml_windows := Some (al_put m1 (who, cls) (w, n))\<rparr>)
         else (True, l\<lparr>ml_windows := Some (al_put m1 (who, cls) (w, n + 1))\<rparr>))"

type_synonym mutation_attempt = "string \<times> MutationClass \<times> nat"

fun rate_checks :: "mutation_attempt list \<Rightarrow> MutationLimiter \<Rightarrow> bool list \<times> MutationLimiter" where
  "rate_checks [] l = ([], l)"
| "rate_checks ((who, cls, now) # as) l = (case rate_check who cls now l of (ok, l1) \<Rightarrow> (case rate_checks as l1 of (oks, l2) \<Rightarrow> (ok # oks, l2)))"

subsection \<open>The limit\<close>

text \<open>The specification: an attempt is granted iff fewer than the limit were made before it by the same principal, of the same class, in
  the same window.\<close>

definition earlier :: "mutation_attempt list \<Rightarrow> string \<Rightarrow> MutationClass \<Rightarrow> nat \<Rightarrow> nat" where
  "earlier hist who cls window = length (filter (\<lambda>(w, c, t). w = who \<and> c = cls \<and> rate_window t = window) hist)"

fun granted :: "mutation_attempt list \<Rightarrow> mutation_attempt list \<Rightarrow> bool list" where
  "granted hist [] = []"
| "granted hist ((who, cls, now) # as) = (earlier hist who cls (rate_window now) < mutation_limit cls) # granted (hist @ [(who, cls, now)]) as"

text \<open>The map holds the attempts of the current window, saturated at the limit.\<close>

definition counts :: "mutation_attempt list \<Rightarrow> nat \<Rightarrow> MutationLimiter \<Rightarrow> bool" where
  "counts hist window l \<longleftrightarrow> (let m = (case ml_windows l of Some m \<Rightarrow> m | None \<Rightarrow> []) in distinct (map fst m)
     \<and> (\<forall>who cls. al_get m (who, cls) = (if earlier hist who cls window = 0 then None else Some (window, min (earlier hist who cls window) (mutation_limit cls)))))"

lemma al_get_retain: "distinct (map fst xs) \<Longrightarrow> al_get (filter (\<lambda>(k, v). P v) xs) k = (case al_get xs k of Some v \<Rightarrow> if P v then Some v else None | None \<Rightarrow> None)"
proof (induction xs)
  case (Cons x xs)
  obtain k' v where x: "x = (k', v)" by (cases x)
  have "al_get xs k' = None" using Cons.prems by (simp add: x al_get_None)
  then show ?case using Cons by (auto simp: x split: option.split)
qed simp

lemma rate_window_mono: "a \<le> b \<Longrightarrow> rate_window a \<le> rate_window b"
proof -
  have w: "rate_window n = n div 60 * 60" for n by (simp add: rate_window_def MUTATION_RATE_WINDOW_SECS_def minus_mod_eq_div_mult)
  show "a \<le> b \<Longrightarrow> ?thesis" unfolding w by (simp add: div_le_mono)
qed

text \<open>A later window starts empty.\<close>

lemma counts_advance:
  assumes "counts hist window l" "window \<le> window'" "\<forall>(w, c, t) \<in> set hist. rate_window t \<le> window"
  defines "m1 \<equiv> filter (\<lambda>(_, (w, _)). w = window') (case ml_windows l of Some m \<Rightarrow> m | None \<Rightarrow> [])"
  shows "distinct (map fst m1)" "al_get m1 (who, cls) = (if earlier hist who cls window' = 0 then None else Some (window', min (earlier hist who cls window') (mutation_limit cls)))"
proof -
  define m where "m = (case ml_windows l of Some m \<Rightarrow> m | None \<Rightarrow> [])"
  have c: "distinct (map fst m)" "\<And>who cls. al_get m (who, cls) = (if earlier hist who cls window = 0 then None else Some (window, min (earlier hist who cls window) (mutation_limit cls)))"
    using assms(1) by (simp_all add: counts_def m_def Let_def)
  have m1: "m1 = filter (\<lambda>(_, v). (\<lambda>(w, _). w = window') v) m" unfolding m1_def m_def [symmetric] by (rule filter_cong) auto
  show "distinct (map fst m1)" unfolding m1 using c(1) by (simp add: distinct_map_filter)
  have none: "earlier hist who cls window' = 0" if "window' \<noteq> window"
    using assms(2,3) that by (force simp: earlier_def filter_empty_conv)
  show "al_get m1 (who, cls) = (if earlier hist who cls window' = 0 then None else Some (window', min (earlier hist who cls window') (mutation_limit cls)))"
    unfolding m1 al_get_retain [OF c(1)] c(2) using none by auto
qed

lemma rate_check_counts:
  assumes "counts hist window l" "window \<le> rate_window now" "\<forall>(w, c, t) \<in> set hist. rate_window t \<le> window" "rate_check who cls now l = (ok, l')"
  shows "ok \<longleftrightarrow> earlier hist who cls (rate_window now) < mutation_limit cls" "counts (hist @ [(who, cls, now)]) (rate_window now) l'"
proof -
  define m1 where "m1 = filter (\<lambda>(_, (w, _)). w = rate_window now) (case ml_windows l of Some m \<Rightarrow> m | None \<Rightarrow> [])"
  note a = counts_advance [OF assms(1-3), folded m1_def]
  let ?n = "earlier hist who cls (rate_window now)"
  have e: "(case al_get m1 (who, cls) of Some e \<Rightarrow> e | None \<Rightarrow> (rate_window now, 0)) = (rate_window now, min ?n (mutation_limit cls))" by (simp add: a(2))
  have lim: "0 < mutation_limit cls" by (cases cls) simp_all
  have r: "ok = (?n < mutation_limit cls)" "ml_windows l' = Some (al_put m1 (who, cls) (rate_window now, min (Suc ?n) (mutation_limit cls)))"
    using assms(4) unfolding rate_check_def Let_def m1_def [symmetric] e by (auto simp: min_def split: if_splits)
  show "ok \<longleftrightarrow> ?n < mutation_limit cls" by (rule r(1))
  have s: "earlier (hist @ [(who, cls, now)]) w c (rate_window now) = earlier hist w c (rate_window now) + (if w = who \<and> c = cls then 1 else 0)" for w c
    by (simp add: earlier_def)
  show "counts (hist @ [(who, cls, now)]) (rate_window now) l'"
    unfolding counts_def r(2) Let_def option.case using a distinct_al_put s by auto
qed

text \<open>
  Claim C26. The mutation limit is exact. With a clock that does not go back, an attempt is granted if and only if fewer
  than the limit of its class (ten configuration changes, sixty other changes) were attempted before it by the same
  principal, of the same class, in the same minute; refused attempts count, and neither other principals nor the other class
  take from the budget.
\<close>

theorem mutation_limit_exact:
  assumes "sorted (map (\<lambda>(who, cls, now). now) as)"
  shows "fst (rate_checks as MutationLimiter_new) = granted [] as"
proof -
  have "fst (rate_checks as l) = granted hist as"
    if "counts hist window l" "\<forall>(w, c, t) \<in> set hist. rate_window t \<le> window" "\<forall>(w, c, t) \<in> set as. window \<le> rate_window t" for hist window l
    using assms that
  proof (induction as arbitrary: hist window l)
    case (Cons a as)
    obtain who cls now where x: "a = (who, cls, now)" by (cases a)
    obtain ok l' where r: "rate_check who cls now l = (ok, l')" by fastforce
    have w: "window \<le> rate_window now" using Cons.prems(4) by (simp add: x)
    note c = rate_check_counts [OF Cons.prems(2) w Cons.prems(3) r]
    have "fst (rate_checks as l') = granted (hist @ [(who, cls, now)]) as"
      using Cons.prems w by (intro Cons.IH [OF _ c(2)]) (auto simp: x intro: rate_window_mono)
    then show ?case using r c(1) by (simp add: x case_prod_beta)
  qed simp
  moreover have "counts [] 0 MutationLimiter_new" by (simp add: counts_def MutationLimiter_new_def earlier_def)
  ultimately show ?thesis by force
qed

definition eleven_and_one :: "mutation_attempt list" where
  "eleven_and_one = replicate 11 (''a'', Config, 30) @ [(''a'', Config, 60)]"

lemma eleven_granted: "granted [] eleven_and_one = replicate 10 True @ [False, True]"
  by code_simp

theorem mutation_limit_exact_witness:
  "sorted (map (\<lambda>(who, cls, now). now) eleven_and_one) \<and> fst (rate_checks eleven_and_one MutationLimiter_new) = replicate 10 True @ [False, True]"
proof -
  have "sorted (map (\<lambda>(who, cls, now). now) eleven_and_one)" by (simp add: eleven_and_one_def sorted_append)
  then show ?thesis using mutation_limit_exact [of eleven_and_one] eleven_granted by simp
qed

end
