(* ===== verification/NetGuard.thy ===== *)
theory NetGuard
  imports Text
begin

text \<open>
  The guards on outbound URLs: the address predicates of \<open>net_guard.rs\<close>, the host extraction and the
  cloud-metadata denylist of \<open>config_validate/mod.rs\<close>, and the webhook and trace-collector guards of
  \<open>observability.rs\<close>. The address types and their parser are those of the standard library
  (\<open>core::net\<close>); \<open>reqwest::Url::parse\<close> is an argument. Messages are constructors of an error type.
\<close>

subsection \<open>Addresses\<close>

datatype Ipv4Addr = Ipv4 nat nat nat nat

definition v4_of_u32 :: "nat \<Rightarrow> Ipv4Addr" where
  "v4_of_u32 n = Ipv4 (n div 16777216) (n div 65536 mod 256) (n div 256 mod 256) (n mod 256)"

fun v4_is_loopback :: "Ipv4Addr \<Rightarrow> bool" where
  "v4_is_loopback (Ipv4 a b c d) \<longleftrightarrow> a = 127"

fun v4_is_link_local :: "Ipv4Addr \<Rightarrow> bool" where
  "v4_is_link_local (Ipv4 a b c d) \<longleftrightarrow> a = 169 \<and> b = 254"

fun v4_is_private :: "Ipv4Addr \<Rightarrow> bool" where
  "v4_is_private (Ipv4 a b c d) \<longleftrightarrow> a = 10 \<or> (a = 172 \<and> 16 \<le> b \<and> b \<le> 31) \<or> (a = 192 \<and> b = 168)"

definition v4_is_unspecified :: "Ipv4Addr \<Rightarrow> bool" where
  "v4_is_unspecified v \<longleftrightarrow> v = Ipv4 0 0 0 0"

definition v4_is_broadcast :: "Ipv4Addr \<Rightarrow> bool" where
  "v4_is_broadcast v \<longleftrightarrow> v = Ipv4 255 255 255 255"

text \<open>The eight segments of an IPv6 address.\<close>

type_synonym Ipv6Addr = "nat list"

definition v6_is_loopback :: "Ipv6Addr \<Rightarrow> bool" where
  "v6_is_loopback s \<longleftrightarrow> s = [0, 0, 0, 0, 0, 0, 0, 1]"

definition v6_is_unspecified :: "Ipv6Addr \<Rightarrow> bool" where
  "v6_is_unspecified s \<longleftrightarrow> s = [0, 0, 0, 0, 0, 0, 0, 0]"

fun to_ipv4 :: "Ipv6Addr \<Rightarrow> Ipv4Addr option" where
  "to_ipv4 [s0, s1, s2, s3, s4, s5, ab, cd] =
     (if s0 = 0 \<and> s1 = 0 \<and> s2 = 0 \<and> s3 = 0 \<and> s4 = 0 \<and> (s5 = 0 \<or> s5 = 0xFFFF)
      then Some (Ipv4 (ab div 256) (ab mod 256) (cd div 256) (cd mod 256)) else None)"
| "to_ipv4 _ = None"

datatype IpAddr = V4 Ipv4Addr | V6 Ipv6Addr

subsection \<open>The standard library's address parser\<close>

definition hex_value :: "char \<Rightarrow> nat option" where
  "hex_value c = (if is_digit c then Some (byte_val c - 48)
     else if 97 \<le> byte_val c \<and> byte_val c \<le> 102 then Some (byte_val c - 87)
     else if 65 \<le> byte_val c \<and> byte_val c \<le> 70 then Some (byte_val c - 55) else None)"

definition to_digit :: "nat \<Rightarrow> char \<Rightarrow> nat option" where
  "to_digit radix c = (case hex_value c of Some d \<Rightarrow> if d < radix then Some d else None | None \<Rightarrow> None)"

text \<open>\<open>read_number\<close>: the digits up to the first other character; no number when there are none, too many, or
  a leading zero where none is allowed.\<close>

fun read_digits :: "nat \<Rightarrow> nat \<Rightarrow> nat \<Rightarrow> string \<Rightarrow> nat \<times> nat \<times> string" where
  "read_digits radix n v [] = (n, v, [])"
| "read_digits radix n v (c # s) = (case to_digit radix c of Some d \<Rightarrow> read_digits radix (n + 1) (v * radix + d) s | None \<Rightarrow> (n, v, c # s))"

definition read_number :: "nat \<Rightarrow> nat \<Rightarrow> bool \<Rightarrow> nat \<Rightarrow> string \<Rightarrow> (nat \<times> string) option" where
  "read_number radix max_digits allow_zero_prefix limit s = (case read_digits radix 0 0 s of (n, v, rest) \<Rightarrow>
     if max_digits < n \<or> n = 0 \<or> (\<not> allow_zero_prefix \<and> take 1 s = ''0'' \<and> 1 < n) \<or> limit \<le> v then None else Some (v, rest))"

definition read_char :: "char \<Rightarrow> string \<Rightarrow> string option" where
  "read_char c s = (case s of x # r \<Rightarrow> if x = c then Some r else None | [] \<Rightarrow> None)"

definition read_octet :: "string \<Rightarrow> (nat \<times> string) option" where
  "read_octet s = read_number 10 3 False 256 s"

definition read_ipv4_addr :: "string \<Rightarrow> (Ipv4Addr \<times> string) option" where
  "read_ipv4_addr s0 = do {
     (a, s1) \<leftarrow> read_octet s0; s2 \<leftarrow> read_char (CHR ''.'') s1;
     (b, s3) \<leftarrow> read_octet s2; s4 \<leftarrow> read_char (CHR ''.'') s3;
     (c, s5) \<leftarrow> read_octet s4; s6 \<leftarrow> read_char (CHR ''.'') s5;
     (d, s7) \<leftarrow> read_octet s6;
     Some (Ipv4 a b c d, s7)
   }"

text \<open>\<open>read_groups\<close> over the groups \<open>i\<close> to \<open>limit\<close>: the groups read, whether an IPv4 tail was among them, the rest.\<close>

definition group_sep :: "nat \<Rightarrow> string \<Rightarrow> string option" where
  "group_sep i s = (if 0 < i then read_char (CHR '':'') s else Some s)"

function read_groups :: "nat \<Rightarrow> nat \<Rightarrow> string \<Rightarrow> nat list \<times> bool \<times> string" where
  "read_groups limit i s = (if limit \<le> i then ([], False, s)
     else (case (if i < limit - 1 then Option.bind (group_sep i s) read_ipv4_addr else None) of
         Some (Ipv4 a b c d, rest) \<Rightarrow> ([a * 256 + b, c * 256 + d], True, rest)
       | None \<Rightarrow> (case Option.bind (group_sep i s) (read_number 16 4 True 65536) of
             Some (g, rest) \<Rightarrow> (case read_groups limit (i + 1) rest of (gs, v4, rest1) \<Rightarrow> (g # gs, v4, rest1))
           | None \<Rightarrow> ([], False, s))))"
  by pat_completeness auto
termination by (relation "measure (\<lambda>(limit, i, s). limit - i)") auto

declare read_groups.simps [simp del]

definition read_ipv6_addr :: "string \<Rightarrow> (Ipv6Addr \<times> string) option" where
  "read_ipv6_addr s = (case read_groups 8 0 s of (head, head_ipv4, s1) \<Rightarrow>
     if length head = 8 then Some (head, s1)
     else if head_ipv4 then None
     else do {
       s2 \<leftarrow> read_char (CHR '':'') s1;
       s3 \<leftarrow> read_char (CHR '':'') s2;
       (case read_groups (8 - (length head + 1)) 0 s3 of (tail, _, s4) \<Rightarrow> Some (head @ replicate (8 - length head - length tail) 0 @ tail, s4))
     })"

definition parse_ipv4 :: "string \<Rightarrow> Ipv4Addr option" where
  "parse_ipv4 s = (if 15 < length s then None else (case read_ipv4_addr s of Some (v, []) \<Rightarrow> Some v | _ \<Rightarrow> None))"

definition parse_ipv6 :: "string \<Rightarrow> Ipv6Addr option" where
  "parse_ipv6 s = (case read_ipv6_addr s of Some (v, []) \<Rightarrow> Some v | _ \<Rightarrow> None)"

definition parse_ip :: "string \<Rightarrow> IpAddr option" where
  "parse_ip s = (case read_ipv4_addr s of Some (v, rest) \<Rightarrow> if rest = [] then Some (V4 v) else None
     | None \<Rightarrow> map_option V6 (parse_ipv6 s))"

subsection \<open>Address predicates\<close>

definition is_unique_local_v6 :: "Ipv6Addr \<Rightarrow> bool" where
  "is_unique_local_v6 s \<longleftrightarrow> and (hd s) 0xFE00 = 0xFC00"

definition is_link_local_v6 :: "Ipv6Addr \<Rightarrow> bool" where
  "is_link_local_v6 s \<longleftrightarrow> and (hd s) 0xFFC0 = 0xFE80"

fun is_cgnat_shared_v4 :: "Ipv4Addr \<Rightarrow> bool" where
  "is_cgnat_shared_v4 (Ipv4 a b c d) \<longleftrightarrow> a = 100 \<and> and b 0xC0 = 64"

definition strip_hex_prefix :: "string \<Rightarrow> string option" where
  "strip_hex_prefix s = (case strip_prefix ''0x'' s of Some r \<Rightarrow> Some r | None \<Rightarrow> strip_prefix ''0X'' s)"

definition is_hexdigit :: "char \<Rightarrow> bool" where
  "is_hexdigit c \<longleftrightarrow> hex_value c \<noteq> None"

definition is_alternate_ipv4_encoding :: "string \<Rightarrow> bool" where
  "is_alternate_ipv4_encoding host =
     (if host = [] then False
      else if CHR ''.'' \<notin> set host
      then (case strip_hex_prefix host of
              Some hex \<Rightarrow> hex \<noteq> [] \<and> list_all is_hexdigit hex
            | None \<Rightarrow> list_all is_digit host)
      else (let parts = split_on (CHR ''.'') host in
        if \<not> list_all (\<lambda>p. case strip_hex_prefix p of Some hex \<Rightarrow> hex \<noteq> [] \<and> list_all is_hexdigit hex | None \<Rightarrow> p \<noteq> [] \<and> list_all is_digit p) parts then False
        else if length parts < 4 then True
        else list_ex (\<lambda>p. strip_hex_prefix p \<noteq> None \<or> (1 < length p \<and> take 1 p = ''0'' \<and> list_all is_digit p)) parts))"

subsection \<open>The host of a URL\<close>

fun percent_decode_bytes :: "string \<Rightarrow> string" where
  "percent_decode_bytes (p # h # l # s) = (case (hex_value h, hex_value l) of
       (Some hi, Some lo) \<Rightarrow> if p = CHR ''%'' then char_of (hi * 16 + lo) # percent_decode_bytes s else p # percent_decode_bytes (h # l # s)
     | _ \<Rightarrow> p # percent_decode_bytes (h # l # s))"
| "percent_decode_bytes s = s"

definition percent_decode_host :: "string \<Rightarrow> string" where
  "percent_decode_host host = (case from_utf8 (percent_decode_bytes host) of Some s \<Rightarrow> s | None \<Rightarrow> host)"

fun split_once_str :: "string \<Rightarrow> string \<Rightarrow> (string \<times> string) option" where
  "split_once_str pat [] = (if pat = [] then Some ([], []) else None)"
| "split_once_str pat (c # s) = (case strip_prefix pat (c # s) of Some r \<Rightarrow> Some ([], r)
     | None \<Rightarrow> map_option (\<lambda>(a, b). (c # a, b)) (split_once_str pat s))"

definition rsplit_once :: "char \<Rightarrow> string \<Rightarrow> (string \<times> string) option" where
  "rsplit_once c s = map_option (\<lambda>(a, b). (rev b, rev a)) (split_once c (rev s))"

definition scheme_is :: "string \<Rightarrow> string \<Rightarrow> bool" where
  "scheme_is url scheme = (case split_once_str ''://'' url of Some (s, _) \<Rightarrow> eq_ignore_ascii_case s scheme | None \<Rightarrow> False)"

definition strip_scheme :: "string \<Rightarrow> string option" where
  "strip_scheme url = (case split_once_str ''://'' url of
       Some (scheme, rest) \<Rightarrow> if eq_ignore_ascii_case scheme ''https'' \<or> eq_ignore_ascii_case scheme ''http'' then Some rest else None
     | None \<Rightarrow> None)"

definition strip_dot :: "string \<Rightarrow> string" where
  "strip_dot s = (if s \<noteq> [] \<and> last s = CHR ''.'' then butlast s else s)"

definition extract_normalized_host :: "string \<Rightarrow> string option" where
  "extract_normalized_host url = do {
     rest0 \<leftarrow> strip_scheme url;
     let rest = map (\<lambda>c. if c = CHR 0x5C then CHR ''/'' else c) rest0;
     let authority = takeWhile (\<lambda>c. c \<notin> {CHR ''/'', CHR ''?'', CHR ''#''}) rest;
     let host_port = (case rsplit_once (CHR ''@'') authority of Some (_, r) \<Rightarrow> r | None \<Rightarrow> authority);
     let host = (case strip_prefix ''['' host_port of
         Some after_bracket \<Rightarrow> (case split_once (CHR '']'') after_bracket of Some (inner, _) \<Rightarrow> inner | None \<Rightarrow> after_bracket)
       | None \<Rightarrow> (case rsplit_once (CHR '':'') host_port of
             Some (left, _) \<Rightarrow> if CHR '':'' \<notin> set left then left else host_port
           | None \<Rightarrow> host_port));
     if host = [] then None else Some (strip_dot (percent_decode_host host))
   }"

definition is_localhost :: "string \<Rightarrow> bool" where
  "is_localhost host \<longleftrightarrow> to_ascii_lowercase host = ''localhost''
     \<or> (case rsplit_once (CHR ''.'') (to_ascii_lowercase host) of Some (_, tld) \<Rightarrow> tld = ''localhost'' | None \<Rightarrow> False)"

definition local_v4 :: "Ipv4Addr \<Rightarrow> bool" where
  "local_v4 v \<longleftrightarrow> v4_is_loopback v \<or> v4_is_private v \<or> v4_is_link_local v \<or> v4_is_unspecified v \<or> is_cgnat_shared_v4 v"

definition host_is_private_or_loopback :: "string \<Rightarrow> bool" where
  "host_is_private_or_loopback host =
     (if is_localhost host then True
      else if is_alternate_ipv4_encoding host then True
      else (case parse_ip host of
          Some (V4 v4) \<Rightarrow> local_v4 v4
        | Some (V6 v6) \<Rightarrow> v6_is_loopback v6 \<or> v6_is_unspecified v6 \<or> is_unique_local_v6 v6 \<or> is_link_local_v6 v6
            \<or> (case to_ipv4 v6 of Some m \<Rightarrow> local_v4 m | None \<Rightarrow> False)
        | None \<Rightarrow> False))"

subsection \<open>Alternate IPv4 spellings\<close>

definition radix_value :: "nat \<Rightarrow> string \<Rightarrow> nat" where
  "radix_value radix s = foldl (\<lambda>v c. v * radix + (case hex_value c of Some d \<Rightarrow> d | None \<Rightarrow> 0)) 0 s"

text \<open>\<open>from_str_radix\<close> of digits only: an error when the value does not fit the type.\<close>

definition fits_u64 :: "nat \<Rightarrow> nat option" where
  "fits_u64 n = (if n \<le> u64_max then Some n else None)"

definition is_octdigit :: "char \<Rightarrow> bool" where
  "is_octdigit c \<longleftrightarrow> 48 \<le> byte_val c \<and> byte_val c \<le> 55"

definition parse_component :: "string \<Rightarrow> nat option" where
  "parse_component p =
     (if p = [] then None
      else (case strip_hex_prefix p of
          Some hex \<Rightarrow> if hex = [] \<or> \<not> list_all is_hexdigit hex then None else fits_u64 (radix_value 16 hex)
        | None \<Rightarrow>
            if 1 < length p \<and> take 1 p = ''0''
            then (if \<not> list_all is_octdigit p then None else fits_u64 (radix_value 8 p))
            else (if \<not> list_all is_digit p then None else fits_u64 (radix_value 10 p))))"

fun parse_components :: "string list \<Rightarrow> nat list option" where
  "parse_components [] = Some []"
| "parse_components (p # ps) = do { v \<leftarrow> parse_component p; vs \<leftarrow> parse_components ps; Some (v # vs) }"

definition is_alternate_octet :: "string \<Rightarrow> nat \<Rightarrow> bool" where
  "is_alternate_octet p v \<longleftrightarrow> 255 < v \<or> strip_hex_prefix p \<noteq> None \<or> (1 < length p \<and> take 1 p = ''0'')"

definition expand_alternate_ipv4 :: "string \<Rightarrow> Ipv4Addr option" where
  "expand_alternate_ipv4 host =
     (if host = [] then None
      else let parts = split_on (CHR ''.'') host in do {
        vals \<leftarrow> parse_components parts;
        (if length parts = 4 \<and> \<not> list_ex (\<lambda>(p, v). is_alternate_octet p v) (zip parts vals) then None
         else do {
           addr \<leftarrow> (case vals of
               [a] \<Rightarrow> if a \<le> u32_max then Some a else None
             | [a, b] \<Rightarrow> if 0xFF < a \<or> 0xFFFFFF < b then None else Some (a * 16777216 + b)
             | [a, b, c] \<Rightarrow> if 0xFF < a \<or> 0xFF < b \<or> 0xFFFF < c then None else Some (a * 16777216 + b * 65536 + c)
             | [a, b, c, d] \<Rightarrow> if 0xFF < a \<or> 0xFF < b \<or> 0xFF < c \<or> 0xFF < d then None else Some (a * 16777216 + b * 65536 + c * 256 + d)
             | _ \<Rightarrow> None);
           Some (v4_of_u32 addr)
         })
      })"

subsection \<open>The metadata denylist\<close>

definition METADATA_HOSTS :: "string list" where
  "METADATA_HOSTS = [''metadata.google.internal'', ''metadata.internal'', ''metadata.tencentyun.com'', ''metadata.platformequinix.com'',
     ''instance-data'', ''instance-data.ec2.internal'']"

definition imds_v6 :: Ipv6Addr where
  "imds_v6 = [0xFD00, 0x0EC2, 0, 0, 0, 0, 0, 0x254]"

definition alibaba_v4 :: Ipv4Addr where
  "alibaba_v4 = Ipv4 100 100 100 200"

definition azure_v4 :: Ipv4Addr where
  "azure_v4 = Ipv4 168 63 129 16"

definition oci_v4 :: Ipv4Addr where
  "oci_v4 = Ipv4 192 0 0 192"

definition is_metadata_v4 :: "Ipv4Addr \<Rightarrow> bool" where
  "is_metadata_v4 v4 \<longleftrightarrow> v4_is_link_local v4 \<or> v4 = alibaba_v4 \<or> v4 = azure_v4 \<or> v4 = oci_v4"

definition entry_text :: "string \<Rightarrow> string" where
  "entry_text entry = rev (dropWhile (\<lambda>c. c = CHR ''.'') (rev (trim entry)))"

definition host_matches_any :: "string \<Rightarrow> string list \<Rightarrow> bool" where
  "host_matches_any host entries =
     (if entries = [] then False
      else if list_ex (\<lambda>e. entry_text e \<noteq> [] \<and> eq_ignore_ascii_case (entry_text e) host) entries then True
      else let entry_v4 = List.map_filter (\<lambda>e. parse_ipv4 (entry_text e)) entries; entry_v6 = List.map_filter (\<lambda>e. parse_ipv6 (entry_text e)) entries in
        if entry_v4 = [] \<and> entry_v6 = [] then False
        else if (case expand_alternate_ipv4 host of Some x \<Rightarrow> x \<in> set entry_v4 | None \<Rightarrow> False) then True
        else (case parse_ip host of
            Some (V4 v4) \<Rightarrow> v4 \<in> set entry_v4
          | Some (V6 v6) \<Rightarrow> v6 \<in> set entry_v6 \<or> (case to_ipv4 v6 of Some m \<Rightarrow> m \<in> set entry_v4 | None \<Rightarrow> False)
          | None \<Rightarrow> False))"

definition ssrf_blocked_host :: "string \<Rightarrow> string list \<Rightarrow> bool \<Rightarrow> string list \<Rightarrow> string option" where
  "ssrf_blocked_host url allow_overrides allow_all extra_blocked =
     (if allow_all then None
      else (case extract_normalized_host url of
          None \<Rightarrow> None
        | Some host \<Rightarrow>
            if host_matches_any host allow_overrides then None
            else if to_ascii_lowercase host \<in> set METADATA_HOSTS then Some host
            else if host_matches_any host extra_blocked then Some host
            else if (case expand_alternate_ipv4 host of Some x \<Rightarrow> is_metadata_v4 x | None \<Rightarrow> False) then Some host
            else if (case parse_ip host of
                Some (V4 v4) \<Rightarrow> is_metadata_v4 v4
              | Some (V6 v6) \<Rightarrow> v6 = imds_v6 \<or> (case to_ipv4 v6 of Some m \<Rightarrow> is_metadata_v4 m | None \<Rightarrow> False)
              | None \<Rightarrow> False) then Some host
            else None))"

definition metadata_denylist_entries :: "string list" where
  "metadata_denylist_entries = [''169.254.0.0/16'', ''100.100.100.200'', ''168.63.129.16'', ''192.0.0.192'', ''fd00:ec2::254''] @ METADATA_HOSTS"

text \<open>The checks of a provider's URLs. \<open>resolve_key\<close> gives the provider's resolved secret (\<open>resolve_builtin_string\<close>
  reads the environment or a file) and \<open>check_account\<close> the verdict on a service-account key, whose JSON and RSA parsers are libraries.\<close>

definition str_contains :: "string \<Rightarrow> string \<Rightarrow> bool" where
  "str_contains s pat \<longleftrightarrow> split_once_str pat s \<noteq> None"

definition is_env_placeholder :: "string list \<Rightarrow> string \<Rightarrow> bool" where
  "is_env_placeholder unset_env_vars v \<longleftrightarrow> \<not> str_contains v ''://'' \<and> list_ex (\<lambda>u. u \<noteq> [] \<and> str_contains v u) unset_env_vars"

datatype ProviderAuth = Bearer | ApiKey | JwtBearer | OAuthClientCredentials

record ProviderUrls =
  pu_base_url :: string
  pu_path :: "string option"
  pu_path_base :: "string option"
  pu_token_url :: "string option"
  pu_scope :: "string option"
  pu_auth :: "ProviderAuth option"
  pu_allow_metadata_hosts :: "string list"

record MetadataCfg =
  mc_allow_metadata_hosts :: "string list"
  mc_allow_all_metadata :: bool
  mc_blocked_metadata_hosts :: "string list"

record MetadataSsrfPolicy =
  sp_allow_overrides :: "string list"
  sp_allow_all :: bool
  sp_blocked_hosts :: "string list"

datatype UrlField = BaseUrl | TokenUrl
datatype UrlError = PublicNeedsHttps UrlField | BadScheme UrlField | BlockedUrl UrlField string | PathFuses | BlockedPath string | PathBaseFuses | BlockedPathBase string
  | CidrEntry string | NoTokenUrl | NoScope | BadCredential

definition reject_cidr_metadata_entries :: "string list \<Rightarrow> UrlError list" where
  "reject_cidr_metadata_entries entries = map CidrEntry (filter (\<lambda>e. CHR ''/'' \<in> set e) entries)"

definition url_scheme_ok :: "string list \<Rightarrow> string \<Rightarrow> bool" where
  "url_scheme_ok unset_env_vars url \<longleftrightarrow> is_env_placeholder unset_env_vars url \<or> scheme_is url ''https''
     \<or> ((case extract_normalized_host url of Some h \<Rightarrow> host_is_private_or_loopback h | None \<Rightarrow> False) \<and> scheme_is url ''http'')"

definition checked_url :: "string list \<Rightarrow> (string \<Rightarrow> string option) \<Rightarrow> UrlField \<Rightarrow> string \<Rightarrow> UrlError list" where
  "checked_url unset_env_vars guard field url =
     (if \<not> url_scheme_ok unset_env_vars url then [if scheme_is url ''http'' then PublicNeedsHttps field else BadScheme field]
      else (case guard url of Some host \<Rightarrow> [BlockedUrl field host] | None \<Rightarrow> []))"

definition composed_errors :: "(string \<Rightarrow> UrlError) \<Rightarrow> UrlError \<Rightarrow> bool \<Rightarrow> (string \<Rightarrow> string option) \<Rightarrow> string \<Rightarrow> string option \<Rightarrow> UrlError list" where
  "composed_errors blocked fuses scheme_ok guard base_url path_opt = (case path_opt of None \<Rightarrow> []
     | Some path \<Rightarrow> if take 1 path \<noteq> ''/'' then [fuses]
         else if scheme_ok then (case guard (base_url @ path) of Some host \<Rightarrow> [blocked host] | None \<Rightarrow> []) else [])"

definition split_credential :: "string \<Rightarrow> (string \<times> string) option" where
  "split_credential credential = (case split_once (CHR '':'') credential of None \<Rightarrow> None
     | Some (client_id, client_secret) \<Rightarrow> if client_id = [] \<or> client_secret = [] then None else Some (client_id, client_secret))"

definition blank :: "string option \<Rightarrow> bool" where
  "blank s \<longleftrightarrow> trim (case s of Some t \<Rightarrow> t | None \<Rightarrow> []) = []"

definition oauth_errors :: "string list \<Rightarrow> (string \<Rightarrow> string option) \<Rightarrow> string option \<Rightarrow> ProviderUrls \<Rightarrow> UrlError list" where
  "oauth_errors unset_env_vars guard resolve_key p =
     (if blank (pu_token_url p) then [NoTokenUrl]
      else (case pu_token_url p of Some tu \<Rightarrow> checked_url unset_env_vars guard TokenUrl tu | None \<Rightarrow> []))
     @ (if blank (pu_scope p) then [NoScope] else [])
     @ (let cred = (case resolve_key of Some c \<Rightarrow> c | None \<Rightarrow> []) in
        if trim cred \<noteq> [] \<and> split_credential cred = None then [BadCredential] else [])"

definition jwt_errors :: "(string \<Rightarrow> MetadataSsrfPolicy \<Rightarrow> bool) \<Rightarrow> MetadataSsrfPolicy \<Rightarrow> string option \<Rightarrow> UrlError list" where
  "jwt_errors check_account ssrf resolve_key =
     (let cred = (case resolve_key of Some c \<Rightarrow> c | None \<Rightarrow> []) in
      if trim cred \<noteq> [] \<and> \<not> check_account cred ssrf then [BadCredential] else [])"

definition validate_provider_urls ::
  "(string \<Rightarrow> MetadataSsrfPolicy \<Rightarrow> bool) \<Rightarrow> string list \<Rightarrow> MetadataCfg \<Rightarrow> string option \<Rightarrow> ProviderUrls \<Rightarrow> UrlError list" where
  "validate_provider_urls check_account unset_env_vars cfg resolve_key p =
     (let allow_overrides = pu_allow_metadata_hosts p @ mc_allow_metadata_hosts cfg;
          guard = (\<lambda>url. ssrf_blocked_host url allow_overrides (mc_allow_all_metadata cfg) (mc_blocked_metadata_hosts cfg));
          base_url = pu_base_url p;
          scheme_ok = url_scheme_ok unset_env_vars base_url
      in reject_cidr_metadata_entries (pu_allow_metadata_hosts p)
         @ checked_url unset_env_vars guard BaseUrl base_url
         @ composed_errors BlockedPath PathFuses scheme_ok guard base_url (pu_path p)
         @ composed_errors BlockedPathBase PathBaseFuses scheme_ok guard base_url (pu_path_base p)
         @ (if pu_auth p = Some OAuthClientCredentials then oauth_errors unset_env_vars guard resolve_key p else [])
         @ (if pu_auth p = Some JwtBearer
            then jwt_errors check_account \<lparr>sp_allow_overrides = allow_overrides, sp_allow_all = mc_allow_all_metadata cfg, sp_blocked_hosts = mc_blocked_metadata_hosts cfg\<rparr> resolve_key
            else []))"

subsection \<open>The webhook and the trace collector\<close>

text \<open>\<open>host_str\<close> is the host of the parsed URL, \<open>None\<close> when it has none.\<close>

definition TELEMETRY_METADATA_HOSTS :: "string list" where
  "TELEMETRY_METADATA_HOSTS = [''metadata.google.internal'', ''metadata.internal'']"

definition is_internal_v4 :: "Ipv4Addr \<Rightarrow> bool" where
  "is_internal_v4 v4 \<longleftrightarrow> v4_is_loopback v4 \<or> v4_is_link_local v4 \<or> v4_is_private v4 \<or> is_cgnat_shared_v4 v4 \<or> v4_is_unspecified v4 \<or> v4_is_broadcast v4
     \<or> v4 = azure_v4 \<or> v4 = oci_v4"

definition bare_host :: "string \<Rightarrow> string" where
  "bare_host h0 = (let h1 = (case strip_prefix ''['' h0 of Some r \<Rightarrow> r | None \<Rightarrow> h0);
       h2 = (if h1 \<noteq> [] \<and> last h1 = CHR '']'' then butlast h1 else h1) in strip_dot h2)"

definition host_is_internal :: "string option \<Rightarrow> bool" where
  "host_is_internal host_str = (case host_str of None \<Rightarrow> True
     | Some h \<Rightarrow> (let host = bare_host h in
         if list_ex (\<lambda>m. eq_ignore_ascii_case host m) TELEMETRY_METADATA_HOSTS then True
         else if is_alternate_ipv4_encoding host then True
         else (case parse_ip host of
             Some (V4 v4) \<Rightarrow> is_internal_v4 v4
           | Some (V6 v6) \<Rightarrow> if v6_is_loopback v6 then True
               else (case to_ipv4 v6 of Some v4 \<Rightarrow> is_internal_v4 v4
                 | None \<Rightarrow> v6_is_unspecified v6 \<or> is_unique_local_v6 v6 \<or> is_link_local_v6 v6)
           | None \<Rightarrow> is_localhost host)))"

text \<open>\<open>str::parse::<u32>\<close> and \<open>u32::from_str_radix\<close>: an optional plus sign and digits of the radix, within the type.\<close>

definition parse_u32 :: "nat \<Rightarrow> string \<Rightarrow> nat option" where
  "parse_u32 radix s = (let ds = (case s of c # r \<Rightarrow> if c = CHR ''+'' then r else s | [] \<Rightarrow> s) in
     if ds = [] \<or> \<not> list_all (\<lambda>c. to_digit radix c \<noteq> None) ds then None
     else if radix_value radix ds \<le> u32_max then Some (radix_value radix ds) else None)"

definition LOOPBACK_U32 :: nat where
  "LOOPBACK_U32 = 0x7F000001"

definition is_alternate_loopback_v4 :: "string \<Rightarrow> bool" where
  "is_alternate_loopback_v4 host =
     (if CHR ''.'' \<notin> set host
      then (case strip_hex_prefix host of
          Some hex \<Rightarrow> parse_u32 16 hex = Some LOOPBACK_U32
        | None \<Rightarrow> (case (if 1 < length host then Option.bind (strip_prefix ''0'' host) (parse_u32 8) else None) of
              Some v \<Rightarrow> v = LOOPBACK_U32
            | None \<Rightarrow> (case parse_u32 10 host of Some v \<Rightarrow> v = LOOPBACK_U32 | None \<Rightarrow> False)))
      else let parts = split_on (CHR ''.'') host in
        if 4 \<le> length parts then False
        else (case parse_u32 10 (hd parts) of None \<Rightarrow> False
          | Some first \<Rightarrow> first = 127 \<and> list_all (\<lambda>p. parse_u32 10 p \<noteq> None) parts))"

definition otlp_host_is_loopback :: "string option \<Rightarrow> bool" where
  "otlp_host_is_loopback host_str = (case host_str of None \<Rightarrow> False
     | Some h \<Rightarrow> (let host = bare_host h in
         if is_alternate_ipv4_encoding host then is_alternate_loopback_v4 host
         else (case parse_ip host of
             Some (V4 v4) \<Rightarrow> v4_is_loopback v4
           | Some (V6 v6) \<Rightarrow> v6_is_loopback v6 \<or> (case to_ipv4 v6 of Some v4 \<Rightarrow> v4_is_loopback v4 | None \<Rightarrow> False)
           | None \<Rightarrow> is_localhost host)))"

definition otlp_host_is_blocked :: "string option \<Rightarrow> bool" where
  "otlp_host_is_blocked host_str = (case host_str of None \<Rightarrow> True
     | Some h \<Rightarrow> (let host = bare_host h in
         if list_ex (\<lambda>m. eq_ignore_ascii_case host m) TELEMETRY_METADATA_HOSTS then True
         else if is_alternate_ipv4_encoding host then \<not> is_alternate_loopback_v4 host
         else (case parse_ip host of
             Some (V4 v4) \<Rightarrow> \<not> v4_is_loopback v4 \<and> is_internal_v4 v4
           | Some (V6 v6) \<Rightarrow> if v6_is_loopback v6 then False
               else (case to_ipv4 v6 of Some v4 \<Rightarrow> \<not> v4_is_loopback v4 \<and> is_internal_v4 v4
                 | None \<Rightarrow> v6_is_unspecified v6 \<or> is_unique_local_v6 v6 \<or> is_link_local_v6 v6)
           | None \<Rightarrow> False)))"

datatype EndpointError = SchemeRefused | NotAUrl | InternalHost | PlaintextRemote

text \<open>\<open>url_parse\<close> is \<open>reqwest::Url::parse\<close>: \<open>None\<close> for an error, else the host.\<close>

definition validate_webhook_url :: "(string \<Rightarrow> string option option) \<Rightarrow> string option \<Rightarrow> EndpointError + string option" where
  "validate_webhook_url url_parse url = (case url of None \<Rightarrow> Inr None
     | Some u \<Rightarrow> if \<not> scheme_is u ''https'' then Inl SchemeRefused
         else (case url_parse u of None \<Rightarrow> Inl NotAUrl
           | Some host_str \<Rightarrow> if host_is_internal host_str then Inl InternalHost else Inr (Some u)))"

definition validate_otlp_endpoint :: "(string \<Rightarrow> string option option) \<Rightarrow> string option \<Rightarrow> EndpointError + string option" where
  "validate_otlp_endpoint url_parse endpoint = (case endpoint of None \<Rightarrow> Inr None
     | Some e \<Rightarrow> if \<not> (scheme_is e ''https'' \<or> scheme_is e ''http'') then Inl SchemeRefused
         else (case url_parse e of None \<Rightarrow> Inl NotAUrl
           | Some host_str \<Rightarrow> if otlp_host_is_blocked host_str then Inl InternalHost
               else if scheme_is e ''http'' \<and> \<not> otlp_host_is_loopback host_str then Inl PlaintextRemote else Inr (Some e)))"

end
