(* ===== verification/ConfigValidate.thy ===== *)
theory ConfigValidate
  imports NetGuard Forward Cost GovKeys
begin

text \<open>
  The configuration validator of \<open>config_validate/mod.rs\<close>: every rule in the order of the source, each giving the
  list of its errors. The maps of the configuration are association lists in the order in which the map is iterated; a message
  is a constructor carrying the names the message prints. The compile-time features are an argument, as are the
  two readers of secrets (\<open>resolve_key\<close> reads the environment or a file, \<open>check_account\<close> parses a service-account key).
  Warnings have no effect and are left out.
\<close>

subsection \<open>The configuration\<close>

record SecretRef =
  sr_module :: string
  sr_settings :: "(string \<times> string option) list"

definition SECRET_MODULE_ENV :: string where "SECRET_MODULE_ENV = ''env''"
definition SECRET_MODULE_FILE :: string where "SECRET_MODULE_FILE = ''file''"
definition SECRET_ENV_SETTING_KEY :: string where "SECRET_ENV_SETTING_KEY = ''key''"
definition SECRET_FILE_SETTING_PATH :: string where "SECRET_FILE_SETTING_PATH = ''path''"

text \<open>The settings hold JSON values; the value here is that of \<open>as_str\<close>.\<close>

definition env_var :: "SecretRef \<Rightarrow> string option" where
  "env_var r = (if sr_module r = SECRET_MODULE_ENV then Option.bind (al_get (sr_settings r) SECRET_ENV_SETTING_KEY) id else None)"

definition file_path :: "SecretRef \<Rightarrow> string option" where
  "file_path r = (if sr_module r = SECRET_MODULE_FILE then Option.bind (al_get (sr_settings r) SECRET_FILE_SETTING_PATH) id else None)"

record TlsCfg =
  tls_cert :: SecretRef
  tls_key :: SecretRef
  tls_client_ca :: "SecretRef option"

record AuthChainEntry =
  ce_module :: string
  ce_max_admin_scope :: "string option"
  ce_token :: "SecretRef option"

record AuthCfg =
  au_signing_key :: "SecretRef option"
  au_upstream_credentials :: UpstreamCreds
  au_chain :: "AuthChainEntry list"
  au_admin_auth :: "AuthChainEntry list"
  au_role_bindings :: "(string \<times> (string \<times> RoleBindingCfg) list) list"

definition KEYS_MODULE :: string where "KEYS_MODULE = ''keys''"
definition ADMIN_TOKENS_MODULE :: string where "ADMIN_TOKENS_MODULE = ''admin-tokens''"

definition admin_token_ref :: "AuthCfg \<Rightarrow> SecretRef option" where
  "admin_token_ref a = Option.bind (find (\<lambda>e. ce_module e = ADMIN_TOKENS_MODULE) (au_admin_auth a @ au_chain a)) ce_token"

record HealthCfg =
  hc_interval_secs :: "nat option"
  hc_timeout_secs :: "nat option"

record ProviderCfg =
  pr_protocol :: string
  pr_urls :: ProviderUrls
  pr_api_key :: SecretRef
  pr_health :: "HealthCfg option"
  pr_error_map :: "(string \<times> string) list"

record ModelCfg =
  mo_max_requests :: int
  mo_provider :: string
  mo_max_concurrent :: "nat option"
  mo_default_max_tokens :: "nat option"
  mo_upstream_model :: "string option"
  mo_attempt_timeout_ms :: "nat option"
  mo_reasoning :: "bool option"
  mo_prompt_caching :: "bool option"

record PoolMember =
  pm_model :: string
  pm_weight :: nat
  pm_context_max :: "nat option"
  pm_tier :: "string option"
  pm_attempt_timeout_ms :: "nat option"
  pm_reasoning :: "bool option"
  pm_tags :: "string list"

datatype OnExhaustedCfg = RejectCfg | LeastBadCfg | FallbackPoolCfg string

fun to_runtime :: "OnExhaustedCfg \<Rightarrow> OnExhausted" where
  "to_runtime RejectCfg = Status503"
| "to_runtime LeastBadCfg = LeastBad"
| "to_runtime (FallbackPoolCfg name) = FallbackPool name"

datatype PoolPolicy = WeightedPolicy | CheapestPolicy | FastestPolicy | LeastBusyPolicy | UsagePolicy

text \<open>An affinity block has one optional header name.\<close>

record PoolCfg =
  po_members :: "PoolMember list"
  po_breaker :: "ConfigBreakerCfg option"
  po_failover :: "FailoverCfg option"
  po_on_exhausted :: "OnExhaustedCfg option"
  po_affinity :: "string option option"
  po_policy :: PoolPolicy
  po_gates :: "string list"

datatype HookKind = Tap | Gate
datatype PromptAccess = PromptNo | PromptRo | PromptRw

record HookCfg =
  hk_kind :: HookKind
  hk_plugin :: string
  hk_on_error :: string
  hk_prompt :: PromptAccess
  hk_default :: bool

definition STRATEGY_CHEAPEST :: string where "STRATEGY_CHEAPEST = ''cheapest''"
definition STRATEGY_FASTEST :: string where "STRATEGY_FASTEST = ''fastest''"
definition STRATEGY_LEAST_BUSY :: string where "STRATEGY_LEAST_BUSY = ''least_busy''"
definition STRATEGY_USAGE :: string where "STRATEGY_USAGE = ''usage''"
definition ON_ERROR_WEIGHTED :: string where "ON_ERROR_WEIGHTED = ''weighted''"
definition ON_ERROR_REJECT :: string where "ON_ERROR_REJECT = ''reject''"
definition ON_ERROR_FIRST :: string where "ON_ERROR_FIRST = ''first''"
definition ON_ERROR_NOTHING :: string where "ON_ERROR_NOTHING = ''nothing''"

definition on_error_terminal :: "string \<Rightarrow> PolicyOnError option" where
  "on_error_terminal name = (if name = ON_ERROR_WEIGHTED \<or> name = ON_ERROR_NOTHING then Some Weighted
     else if name = ON_ERROR_REJECT then Some Reject else if name = ON_ERROR_FIRST then Some First else None)"

definition ranking_strategy :: "string \<Rightarrow> bool" where
  "ranking_strategy name \<longleftrightarrow> name \<in> {STRATEGY_CHEAPEST, STRATEGY_FASTEST, STRATEGY_LEAST_BUSY, STRATEGY_USAGE}"

definition RESERVED_HOOK_NAMES :: "string list" where
  "RESERVED_HOOK_NAMES = [ON_ERROR_WEIGHTED, ON_ERROR_REJECT, ON_ERROR_FIRST, ON_ERROR_NOTHING, STRATEGY_CHEAPEST, STRATEGY_FASTEST, STRATEGY_LEAST_BUSY,
     STRATEGY_USAGE, ''tokens'', ''admin-tokens'']"

record ReasoningEffortBudgets =
  re_minimal :: nat
  re_low :: nat
  re_medium :: nat
  re_high :: nat

record LimitsResolved =
  li_upstream_request_timeout_secs :: nat
  li_request_body_max_bytes :: nat
  li_hard_down_cooldown_secs :: nat
  li_upstream_error_body_max_bytes :: nat
  li_tls_handshake_timeout_secs :: nat
  li_request_body_read_timeout_secs :: nat
  li_max_honored_retry_after_secs :: nat
  li_default_max_tokens :: nat
  li_reasoning_effort_budgets :: ReasoningEffortBudgets
  li_max_inflight_webhook_deliveries :: nat
  li_webhook_delivery_timeout_secs :: nat
  li_rate_sweep_interval :: nat
  li_default_probe_interval_secs :: nat
  li_default_probe_timeout_secs :: nat
  li_default_policy_timeout_ms :: nat

record RootCfg =
  rc_tls :: "TlsCfg option"
  rc_admin_tls :: "TlsCfg option"
  rc_auth :: "AuthCfg option"
  rc_providers :: "(string \<times> ProviderCfg) list"
  rc_models :: "(string \<times> ModelCfg) list"
  rc_pools :: "(string \<times> PoolCfg) list"
  rc_hooks :: "(string \<times> HookCfg) list"
  rc_admin_auth :: "string list"
  rc_groups :: "(string \<times> GroupCfg) list"
  rc_rate_card :: "(string \<times> RateEntryCfg) list option"
  rc_per_request_fee :: int
  rc_store_module :: "string option"
  rc_global_hooks :: "string list"
  rc_metadata :: MetadataCfg
  rc_limits :: LimitsResolved

record Features =
  hooks_ranking :: bool
  auth_admin_tokens :: bool

datatype Scope = ReadOnly | HooksRegister | Mint | Full

definition Scope_parse :: "string \<Rightarrow> Scope option" where
  "Scope_parse token = (if token = ''read-only'' then Some ReadOnly else if token = ''hooks-register'' then Some HooksRegister
     else if token = ''mint'' then Some Mint else if token = ''full'' then Some Full else None)"

definition MAX_AFFINITY_HEADER_NAME_LEN :: nat where "MAX_AFFINITY_HEADER_NAME_LEN = 64"
definition REQUEST_BODY_MAX_BYTES_FLOOR :: nat where "REQUEST_BODY_MAX_BYTES_FLOOR = 64 * 1024"
definition REQUEST_BODY_MAX_BYTES_CEIL :: nat where "REQUEST_BODY_MAX_BYTES_CEIL = 1024 * 1024 * 1024"

definition KNOWN_PROTOCOLS :: "string list" where
  "KNOWN_PROTOCOLS = [''anthropic'', ''openai'', ''gemini'', ''bedrock'', ''responses'', ''cohere'']"

subsection \<open>Errors\<close>

datatype NameError = ReservedName | PoolIsProvider | PoolIsModel

datatype ModelError = UnknownProvider string | ZeroDefaultMaxTokens | ZeroMaxConcurrent | ZeroMaxRequests | ZeroModelTimeout | EmptyUpstreamModel

datatype ProviderError = UnknownProtocol string | ZeroHealthInterval | ZeroHealthTimeout | BadErrorMap string string | ProviderUrl UrlError

datatype MemberError = ZeroWeight | ZeroMemberTimeout | MemberUnresolvable | MemberUnknown

datatype PoolError = NoMembers | Member string MemberError | PoolBreaker BreakerCfgError | ZeroFailoverTimeout | UnknownExclusion string
  | UnknownFallback string | SelfFallback | AffinityEmpty | AffinityNotAscii | AffinityTooLong

datatype HookError = HookNoPlugin | TapRewrites | TapDefault | ReservedHook | NoRankingFeature string | OnErrorCycle "string list" string
  | OnErrorUnknown string | OnErrorTap string

datatype RefError = ManyDefaults "string list" | UnknownGate string string | GateIsTap string string | UnknownGlobalHook string | PolicyWithoutRanking string

datatype AuthError = UnknownAdminModule string | InactiveBinding string | ReservedRole string string | UnknownScope string string string
  | UnknownGroup string string string | UnknownMaxScope string string | MisplacedToken string | RemovedAuthModule string | UnknownAuthModule string

datatype SecretError = UnknownSecretModule string | EnvWithoutKey | FileWithoutPath

datatype CostError = BadRate string string | RatesMissing "string list" | RateUnknownModel string | NegativeFee | GroupTree GroupsError
  | ZeroGroupLimit string LimitMetric | EmptyStoreModule | AdminTokenNotCompiled

datatype ConfigError = GlobalList UrlError | EffortZero | EffortNotAscending | ModelName string NameError | ModelErr string ModelError
  | PoolName string NameError | ProviderName string NameError | ProviderErr string ProviderError | PoolErr string PoolError | FallbackCycle "string list"
  | HookErr string HookError | RefErr RefError | AuthErr AuthError | LimitOutOfRange string | ContextConflict string nat nat | CostErr CostError
  | SecretErr string SecretError

definition error_if :: "bool \<Rightarrow> 'e \<Rightarrow> 'e list" where
  "error_if b e = (if b then [e] else [])"

lemma error_if_Nil [simp]: "error_if b e = [] \<longleftrightarrow> \<not> b"
  by (simp add: error_if_def)

subsection \<open>Models, providers and pools\<close>

definition reserved_admin_name :: "string \<Rightarrow> bool" where
  "reserved_admin_name name \<longleftrightarrow> name = ''admin'' \<or> take 6 name = ''admin/'' \<or> hd (split_on (CHR ''/'') name) = ''admin''"

definition effort_errors :: "ReasoningEffortBudgets \<Rightarrow> ConfigError list" where
  "effort_errors b = error_if (re_minimal b = 0 \<or> re_low b = 0 \<or> re_medium b = 0 \<or> re_high b = 0) EffortZero
     @ error_if (\<not> (re_minimal b \<le> re_low b \<and> re_low b \<le> re_medium b \<and> re_medium b \<le> re_high b)) EffortNotAscending"

definition model_errors :: "RootCfg \<Rightarrow> string \<times> ModelCfg \<Rightarrow> ConfigError list" where
  "model_errors cfg e = (let (name, m) = e in
       error_if (al_get (rc_providers cfg) (mo_provider m) = None) (ModelErr name (UnknownProvider (mo_provider m)))
     @ error_if (mo_default_max_tokens m = Some 0) (ModelErr name ZeroDefaultMaxTokens)
     @ error_if (mo_max_concurrent m = Some 0) (ModelErr name ZeroMaxConcurrent)
     @ error_if (mo_max_requests m = 0) (ModelErr name ZeroMaxRequests)
     @ error_if (mo_attempt_timeout_ms m = Some 0) (ModelErr name ZeroModelTimeout)
     @ (case mo_upstream_model m of Some um \<Rightarrow> error_if (trim um = []) (ModelErr name EmptyUpstreamModel) | None \<Rightarrow> [])
     @ error_if (reserved_admin_name name) (ModelName name ReservedName))"

text \<open>The protocol of a model, when its provider is configured.\<close>

definition model_protocols :: "RootCfg \<Rightarrow> string \<Rightarrow> string option" where
  "model_protocols cfg name = Option.bind (al_get (rc_models cfg) name) (\<lambda>m. map_option pr_protocol (al_get (rc_providers cfg) (mo_provider m)))"

definition pool_name_errors :: "RootCfg \<Rightarrow> string \<times> PoolCfg \<Rightarrow> ConfigError list" where
  "pool_name_errors cfg e = (let name = fst e in
       error_if (name \<in> fst ` set (rc_providers cfg)) (PoolName name PoolIsProvider)
     @ error_if (name \<in> fst ` set (rc_models cfg)) (PoolName name PoolIsModel)
     @ error_if (reserved_admin_name name) (PoolName name ReservedName))"

definition provider_errors ::
  "(string \<Rightarrow> MetadataSsrfPolicy \<Rightarrow> bool) \<Rightarrow> (SecretRef \<Rightarrow> string option) \<Rightarrow> string list \<Rightarrow> RootCfg \<Rightarrow> string \<times> ProviderCfg \<Rightarrow> ConfigError list" where
  "provider_errors check_account resolve_key unset_env_vars cfg e = (let (name, p) = e in
       error_if (pr_protocol p \<notin> set KNOWN_PROTOCOLS) (ProviderErr name (UnknownProtocol (pr_protocol p)))
     @ (case pr_health p of None \<Rightarrow> [] | Some h \<Rightarrow>
           error_if (hc_interval_secs h = Some 0) (ProviderErr name ZeroHealthInterval) @ error_if (hc_timeout_secs h = Some 0) (ProviderErr name ZeroHealthTimeout))
     @ concat (map (\<lambda>(code, mapped_class). error_if (status_class_from_str mapped_class = None) (ProviderErr name (BadErrorMap code mapped_class))) (pr_error_map p))
     @ map (ProviderErr name \<circ> ProviderUrl) (validate_provider_urls check_account unset_env_vars (rc_metadata cfg) (resolve_key (pr_api_key p)) (pr_urls p)))"

definition member_errors :: "RootCfg \<Rightarrow> PoolMember \<Rightarrow> MemberError list" where
  "member_errors cfg m =
       error_if (pm_weight m = 0) ZeroWeight
     @ error_if (pm_attempt_timeout_ms m = Some 0) ZeroMemberTimeout
     @ (if model_protocols cfg (pm_model m) \<noteq> None then []
        else if pm_model m \<in> fst ` set (rc_models cfg) then [MemberUnresolvable]
        else [MemberUnknown])"

definition failover_errors :: "PoolCfg \<Rightarrow> PoolError list" where
  "failover_errors p = (case po_failover p of None \<Rightarrow> [] | Some f \<Rightarrow>
       error_if (timeout_secs f = 0) ZeroFailoverTimeout
     @ (case exclusions f of None \<Rightarrow> [] | Some xs \<Rightarrow>
          concat (map (\<lambda>x. error_if (x \<notin> pm_model ` set (po_members p)) (UnknownExclusion x)) xs)))"

definition fallback_errors :: "RootCfg \<Rightarrow> string \<Rightarrow> PoolCfg \<Rightarrow> PoolError list" where
  "fallback_errors cfg pool p = (case po_on_exhausted p of
       Some (FallbackPoolCfg target) \<Rightarrow> if al_get (rc_pools cfg) target = None then [UnknownFallback target]
         else if target = pool then [SelfFallback] else []
     | _ \<Rightarrow> [])"

definition is_ascii :: "string \<Rightarrow> bool" where
  "is_ascii s \<longleftrightarrow> list_all (\<lambda>c. byte_val c < 128) s"

definition affinity_errors :: "PoolCfg \<Rightarrow> PoolError list" where
  "affinity_errors p = (case po_affinity p of
       Some (Some header_name) \<Rightarrow> error_if (header_name = []) AffinityEmpty @ error_if (\<not> is_ascii header_name) AffinityNotAscii
         @ error_if (MAX_AFFINITY_HEADER_NAME_LEN < length header_name) AffinityTooLong
     | _ \<Rightarrow> [])"

definition pool_errors :: "RootCfg \<Rightarrow> string \<times> PoolCfg \<Rightarrow> ConfigError list" where
  "pool_errors cfg e = (let (name, p) = e in
map (PoolErr name) (
       error_if (po_members p = []) NoMembers
     @ concat (map (\<lambda>m. map (Member (pm_model m)) (member_errors cfg m)) (po_members p))
     @ (case po_breaker p of None \<Rightarrow> [] | Some b \<Rightarrow> map PoolBreaker (validate_breaker b))
     @ failover_errors p @ fallback_errors cfg name p @ affinity_errors p))"

subsection \<open>Fallback cycles\<close>

definition resolve_fallback_target :: "RootCfg \<Rightarrow> string \<Rightarrow> string option" where
  "resolve_fallback_target cfg pool = (case al_get (rc_pools cfg) pool of None \<Rightarrow> None
     | Some p \<Rightarrow> (case po_on_exhausted p of Some (FallbackPoolCfg target) \<Rightarrow> Some target | _ \<Rightarrow> None))"

text \<open>The walk from one pool: the ring it closes and the pool that closes it, or \<open>None\<close> where the chain ends.\<close>

lemma fresh_key_measure: "cur \<in> K \<Longrightarrow> finite K \<Longrightarrow> cur \<notin> set path \<Longrightarrow> card (K - set (path @ [cur])) < card (K - set path)"
  by (rule psubset_card_mono) auto

function fallback_ring :: "RootCfg \<Rightarrow> string list \<Rightarrow> string \<Rightarrow> (string list \<times> string) option" where
  "fallback_ring cfg path cursor =
     (if cursor \<in> set path then Some (dropWhile (\<lambda>p. p \<noteq> cursor) path, cursor)
      else (case resolve_fallback_target cfg cursor of None \<Rightarrow> None
        | Some next \<Rightarrow> if al_get (rc_pools cfg) next = None then None else fallback_ring cfg (path @ [cursor]) next))"
  by pat_completeness auto
termination
proof (relation "measure (\<lambda>(cfg, path, cursor). card (fst ` set (rc_pools cfg) - set path))")
  fix cfg path cursor "next" assume "cursor \<notin> set path" "resolve_fallback_target cfg cursor = Some next"
  moreover from this have "cursor \<in> fst ` set (rc_pools cfg)" using al_get_None [of "rc_pools cfg" cursor] by (auto simp: resolve_fallback_target_def split: option.splits)
  ultimately show "((cfg, path @ [cursor], next), cfg, path, cursor) \<in> measure (\<lambda>(cfg, path, cursor). card (fst ` set (rc_pools cfg) - set path))"
    using fresh_key_measure [of cursor "fst ` set (rc_pools cfg)" path] by simp
qed simp

declare fallback_ring.simps [simp del]

definition fallback_cycle_errors :: "RootCfg \<Rightarrow> string \<times> PoolCfg \<Rightarrow> ConfigError list" where
  "fallback_cycle_errors cfg e = (case fallback_ring cfg [] (fst e) of None \<Rightarrow> []
     | Some (ring, cursor) \<Rightarrow> error_if (fst e = Min (set ring) \<and> 1 < length ring) (FallbackCycle (ring @ [cursor])))"

subsection \<open>Hooks\<close>

definition hook_errors :: "string \<times> HookCfg \<Rightarrow> ConfigError list" where
  "hook_errors e = (let (name, h) = e in
       error_if (trim (hk_plugin h) = []) (HookErr name HookNoPlugin)
     @ error_if (hk_prompt h = PromptRw \<and> hk_kind h = Tap) (HookErr name TapRewrites)
     @ error_if (hk_default h \<and> hk_kind h = Tap) (HookErr name TapDefault))"

definition reserved_hook_errors :: "string \<times> HookCfg \<Rightarrow> ConfigError list" where
  "reserved_hook_errors e = error_if (fst e \<in> set RESERVED_HOOK_NAMES) (HookErr (fst e) ReservedHook)"

definition default_hook_errors :: "RootCfg \<Rightarrow> ConfigError list" where
  "default_hook_errors cfg = (let defaults = map fst (filter (\<lambda>(_, h). hk_default h) (rc_hooks cfg)) in error_if (1 < length defaults) (RefErr (ManyDefaults (sort defaults))))"

definition gate_errors :: "RootCfg \<Rightarrow> string \<times> PoolCfg \<Rightarrow> ConfigError list" where
  "gate_errors cfg e = concat (map (\<lambda>g. case al_get (rc_hooks cfg) g of None \<Rightarrow> [RefErr (UnknownGate (fst e) g)]
     | Some h \<Rightarrow> error_if (hk_kind h \<noteq> Gate) (RefErr (GateIsTap (fst e) g))) (po_gates (snd e)))"

function on_error_walk :: "Features \<Rightarrow> (string \<times> HookCfg) list \<Rightarrow> string list \<Rightarrow> string \<Rightarrow> HookError option" where
  "on_error_walk fs hooks visited current =
     (if on_error_terminal current \<noteq> None then None
      else if ranking_strategy current then (if hooks_ranking fs then None else Some (NoRankingFeature current))
      else if current \<in> set visited then Some (OnErrorCycle visited current)
      else (case al_get hooks current of None \<Rightarrow> Some (OnErrorUnknown current)
        | Some h \<Rightarrow> if hk_kind h \<noteq> Gate then Some (OnErrorTap current)
            else on_error_walk fs hooks (visited @ [current]) (hk_on_error h)))"
  by pat_completeness auto
termination
proof (relation "measure (\<lambda>(fs, hooks, visited, current). card (fst ` set hooks - set visited))")
  fix fs :: Features and hooks :: "(string \<times> HookCfg) list" and visited current h
  assume "current \<notin> set visited" "al_get hooks current = Some h"
  moreover from this have "current \<in> fst ` set hooks" using al_get_mem by force
  ultimately show "((fs, hooks, visited @ [current], hk_on_error h), fs, hooks, visited, current)
    \<in> measure (\<lambda>(fs, hooks, visited, current). card (fst ` set hooks - set visited))"
    using fresh_key_measure [of current "fst ` set hooks" visited] by simp
qed simp

declare on_error_walk.simps [simp del]

definition on_error_errors :: "Features \<Rightarrow> RootCfg \<Rightarrow> string \<times> HookCfg \<Rightarrow> ConfigError list" where
  "on_error_errors fs cfg e = (case on_error_walk fs (rc_hooks cfg) [fst e] (hk_on_error (snd e)) of None \<Rightarrow> [] | Some x \<Rightarrow> [HookErr (fst e) x])"

definition global_hook_errors :: "RootCfg \<Rightarrow> ConfigError list" where
  "global_hook_errors cfg = concat (map (\<lambda>n. error_if (al_get (rc_hooks cfg) n = None) (RefErr (UnknownGlobalHook n))) (rc_global_hooks cfg))"

definition policy_errors :: "Features \<Rightarrow> string \<times> PoolCfg \<Rightarrow> ConfigError list" where
  "policy_errors fs e = error_if (\<not> hooks_ranking fs \<and> po_policy (snd e) \<noteq> WeightedPolicy) (RefErr (PolicyWithoutRanking (fst e)))"

subsection \<open>Authentication\<close>

definition admin_auth_errors :: "RootCfg \<Rightarrow> ConfigError list" where
  "admin_auth_errors cfg = concat (map (\<lambda>n. error_if (n \<noteq> ''admin-tokens'') (AuthErr (UnknownAdminModule n))) (rc_admin_auth cfg))"

definition role_errors :: "RootCfg \<Rightarrow> string \<Rightarrow> string \<times> RoleBindingCfg \<Rightarrow> ConfigError list" where
  "role_errors cfg mdl e = (let (role, b) = e in
       error_if (reserved_admin_name role) (AuthErr (ReservedRole mdl role))
     @ (case rb_admin_scope b of Some s \<Rightarrow> error_if (Scope_parse s = None) (AuthErr (UnknownScope mdl role s)) | None \<Rightarrow> [])
     @ (case rb_group b of Some g \<Rightarrow> error_if (al_get (rc_groups cfg) g = None) (AuthErr (UnknownGroup mdl role g)) | None \<Rightarrow> []))"

definition binding_errors :: "RootCfg \<Rightarrow> AuthCfg \<Rightarrow> ConfigError list" where
  "binding_errors cfg a = (let chain_modules = ce_module ` set (au_chain a @ au_admin_auth a) in
     concat (map (\<lambda>(mdl, roles). error_if (mdl \<notin> chain_modules) (AuthErr (InactiveBinding mdl)) @ concat (map (role_errors cfg mdl) roles)) (au_role_bindings a)))"

definition entry_errors :: "AuthChainEntry \<Rightarrow> ConfigError list" where
  "entry_errors e = (case ce_max_admin_scope e of Some s \<Rightarrow> error_if (Scope_parse s = None) (AuthErr (UnknownMaxScope (ce_module e) s)) | None \<Rightarrow> [])
     @ error_if (ce_token e \<noteq> None \<and> ce_module e \<noteq> ADMIN_TOKENS_MODULE) (AuthErr (MisplacedToken (ce_module e)))"

definition role_binding_errors :: "RootCfg \<Rightarrow> ConfigError list" where
  "role_binding_errors cfg = (case rc_auth cfg of None \<Rightarrow> [] | Some a \<Rightarrow> binding_errors cfg a @ concat (map entry_errors (au_chain a @ au_admin_auth a)))"

definition auth_chain_errors :: "RootCfg \<Rightarrow> ConfigError list" where
  "auth_chain_errors cfg = (case rc_auth cfg of None \<Rightarrow> [] | Some a \<Rightarrow> concat (map (\<lambda>e. let name = ce_module e in
     if name = KEYS_MODULE then [] else if name = ''tokens'' \<or> name = ''static-tokens'' then [AuthErr (RemovedAuthModule name)] else [AuthErr (UnknownAuthModule name)]) (au_chain a)))"

subsection \<open>Limits, costs and secrets\<close>

definition validate_limits :: "LimitsResolved \<Rightarrow> ConfigError list" where
  "validate_limits l =
       error_if (li_upstream_request_timeout_secs l < 1) (LimitOutOfRange ''limits.upstream_request_timeout_secs'')
     @ error_if (li_tls_handshake_timeout_secs l < 1) (LimitOutOfRange ''limits.tls_handshake_timeout_secs'')
     @ error_if (li_request_body_read_timeout_secs l < 1) (LimitOutOfRange ''limits.request_body_read_timeout_secs'')
     @ error_if (li_webhook_delivery_timeout_secs l < 1) (LimitOutOfRange ''observability.webhook_delivery_timeout_secs'')
     @ error_if (li_max_inflight_webhook_deliveries l < 1) (LimitOutOfRange ''observability.max_inflight_webhook_deliveries'')
     @ error_if (li_max_honored_retry_after_secs l < 1) (LimitOutOfRange ''limits.max_honored_retry_after_secs'')
     @ error_if (li_hard_down_cooldown_secs l < 1) (LimitOutOfRange ''limits.hard_down_cooldown_secs'')
     @ error_if (li_request_body_max_bytes l < REQUEST_BODY_MAX_BYTES_FLOOR) (LimitOutOfRange ''limits.request_body_max_bytes'')
     @ error_if (REQUEST_BODY_MAX_BYTES_CEIL < li_request_body_max_bytes l) (LimitOutOfRange ''limits.request_body_max_bytes'')
     @ error_if (li_upstream_error_body_max_bytes l < 1) (LimitOutOfRange ''limits.upstream_error_body_max_bytes'')
     @ error_if (li_default_max_tokens l < 1) (LimitOutOfRange ''limits.default_max_tokens'')
     @ error_if (li_default_probe_interval_secs l < 1) (LimitOutOfRange ''health.default_probe_interval_secs'')
     @ error_if (li_default_probe_timeout_secs l < 1) (LimitOutOfRange ''health.default_probe_timeout_secs'')
     @ error_if (li_default_policy_timeout_ms l < 1) (LimitOutOfRange ''routing.default_policy_timeout_ms'')
     @ error_if (li_rate_sweep_interval l = 0) (LimitOutOfRange ''advanced.rate_sweep_interval'')"

text \<open>The context sizes over all members, with the first explicit size of each model seen so far.\<close>

fun context_errors :: "(string \<times> nat) list \<Rightarrow> PoolMember list \<Rightarrow> ConfigError list" where
  "context_errors seen [] = []"
| "context_errors seen (m # ms) = (case pm_context_max m of None \<Rightarrow> context_errors seen ms
     | Some c \<Rightarrow> (case al_get seen (pm_model m) of
           Some existing \<Rightarrow> if existing \<noteq> c then ContextConflict (pm_model m) existing c # context_errors seen ms
             else context_errors (al_put seen (pm_model m) c) ms
         | None \<Rightarrow> context_errors (al_put seen (pm_model m) c) ms))"

definition rate_errors :: "string \<times> RateEntryCfg \<Rightarrow> ConfigError list" where
  "rate_errors e = concat (map (\<lambda>(tier, v). error_if (\<not> f64_is_finite v \<or> \<not> f64_ge v (Fin 0)) (CostErr (BadRate (fst e) tier)))
     [(''input_utok'', input_utok (snd e)), (''output_utok'', output_utok (snd e)), (''cache_read_utok'', cache_read_utok (snd e)), (''cache_write_utok'', cache_write_utok (snd e))])"

definition rate_card_errors :: "RootCfg \<Rightarrow> ConfigError list" where
  "rate_card_errors cfg = (case rc_rate_card cfg of None \<Rightarrow> [] | Some rates \<Rightarrow>
       concat (map rate_errors rates)
     @ (let missing = filter (\<lambda>n. al_get rates n = None) (sort (map fst (rc_models cfg))) in error_if (missing \<noteq> []) (CostErr (RatesMissing missing)))
     @ concat (map (\<lambda>n. error_if (al_get (rc_models cfg) n = None) (CostErr (RateUnknownModel n))) (map fst rates)))"

definition check_secret :: "string \<Rightarrow> SecretRef \<Rightarrow> ConfigError list" where
  "check_secret what r =
     (if sr_module r \<noteq> SECRET_MODULE_ENV \<and> sr_module r \<noteq> SECRET_MODULE_FILE then [SecretErr what (UnknownSecretModule (sr_module r))]
      else if sr_module r = SECRET_MODULE_ENV \<and> env_var r = None then [SecretErr what EnvWithoutKey]
      else if sr_module r = SECRET_MODULE_FILE \<and> file_path r = None then [SecretErr what FileWithoutPath] else [])"

definition tls_errors :: "string \<Rightarrow> TlsCfg option \<Rightarrow> ConfigError list" where
  "tls_errors what t = (case t of None \<Rightarrow> [] | Some c \<Rightarrow> check_secret (what @ ''.cert'') (tls_cert c) @ check_secret (what @ ''.key'') (tls_key c)
     @ (case tls_client_ca c of Some ca \<Rightarrow> check_secret (what @ ''.client_ca'') ca | None \<Rightarrow> []))"

definition secret_errors :: "RootCfg \<Rightarrow> ConfigError list" where
  "secret_errors cfg =
       concat (map (\<lambda>(name, p). check_secret (''providers.'' @ name @ ''.api_key'') (pr_api_key p)) (rc_providers cfg))
     @ tls_errors ''tls'' (rc_tls cfg) @ tls_errors ''admin_tls'' (rc_admin_tls cfg)
     @ (case rc_auth cfg of None \<Rightarrow> [] | Some a \<Rightarrow>
          (case au_signing_key a of Some sk \<Rightarrow> check_secret ''auth.signing_key'' sk | None \<Rightarrow> [])
        @ (case admin_token_ref a of Some tok \<Rightarrow> check_secret ''auth.admin_auth admin-tokens token'' tok | None \<Rightarrow> []))"

definition validate_cost_model :: "Features \<Rightarrow> RootCfg \<Rightarrow> ConfigError list" where
  "validate_cost_model fs cfg =
       rate_card_errors cfg
     @ error_if (rc_per_request_fee cfg < 0) (CostErr NegativeFee)
     @ map (CostErr \<circ> GroupTree) (validate_groups (rc_groups cfg) (\<lambda>p. al_get (rc_pools cfg) p \<noteq> None))
     @ concat (map (\<lambda>(name, g). concat (map (\<lambda>l. error_if (lc_amount l = 0) (CostErr (ZeroGroupLimit name (lc_metric l)))) (gc_limits g))) (rc_groups cfg))
     @ (case rc_store_module cfg of Some m \<Rightarrow> error_if (trim m = []) (CostErr EmptyStoreModule) | None \<Rightarrow> [])
     @ secret_errors cfg
     @ error_if (\<not> auth_admin_tokens fs \<and> (case rc_auth cfg of Some a \<Rightarrow> admin_token_ref a \<noteq> None | None \<Rightarrow> False)) (CostErr AdminTokenNotCompiled)"

subsection \<open>The validator\<close>

definition validation_errors ::
  "(string \<Rightarrow> MetadataSsrfPolicy \<Rightarrow> bool) \<Rightarrow> (SecretRef \<Rightarrow> string option) \<Rightarrow> Features \<Rightarrow> RootCfg \<Rightarrow> string list \<Rightarrow> ConfigError list" where
  "validation_errors check_account resolve_key fs cfg unset_env_vars =
       map GlobalList (reject_cidr_metadata_entries (mc_blocked_metadata_hosts (rc_metadata cfg)))
     @ map GlobalList (reject_cidr_metadata_entries (mc_allow_metadata_hosts (rc_metadata cfg)))
     @ effort_errors (li_reasoning_effort_budgets (rc_limits cfg))
     @ concat (map (model_errors cfg) (rc_models cfg))
     @ concat (map (pool_name_errors cfg) (rc_pools cfg))
     @ concat (map (\<lambda>e. error_if (reserved_admin_name (fst e)) (ProviderName (fst e) ReservedName)) (rc_providers cfg))
     @ concat (map (provider_errors check_account resolve_key unset_env_vars cfg) (rc_providers cfg))
     @ concat (map (pool_errors cfg) (rc_pools cfg))
     @ concat (map (fallback_cycle_errors cfg) (rc_pools cfg))
     @ concat (map hook_errors (rc_hooks cfg))
     @ concat (map reserved_hook_errors (rc_hooks cfg))
     @ default_hook_errors cfg
     @ concat (map (gate_errors cfg) (rc_pools cfg))
     @ concat (map (on_error_errors fs cfg) (rc_hooks cfg))
     @ admin_auth_errors cfg
     @ role_binding_errors cfg
     @ global_hook_errors cfg
     @ concat (map (policy_errors fs) (rc_pools cfg))
     @ auth_chain_errors cfg
     @ validate_limits (rc_limits cfg)
     @ context_errors [] (concat (map (po_members \<circ> snd) (rc_pools cfg)))
     @ validate_cost_model fs cfg"

definition validate_with_unset ::
  "(string \<Rightarrow> MetadataSsrfPolicy \<Rightarrow> bool) \<Rightarrow> (SecretRef \<Rightarrow> string option) \<Rightarrow> Features \<Rightarrow> RootCfg \<Rightarrow> string list \<Rightarrow> ConfigError list + unit" where
  "validate_with_unset check_account resolve_key fs cfg unset_env_vars =
     (let errors = validation_errors check_account resolve_key fs cfg unset_env_vars in if errors = [] then Inr () else Inl errors)"

definition validate :: "(string \<Rightarrow> MetadataSsrfPolicy \<Rightarrow> bool) \<Rightarrow> (SecretRef \<Rightarrow> string option) \<Rightarrow> Features \<Rightarrow> RootCfg \<Rightarrow> ConfigError list + unit" where
  "validate check_account resolve_key fs cfg = validate_with_unset check_account resolve_key fs cfg []"

end
