(* ===== verification/InetText.thy ===== *)
theory InetText
  imports NetGuard
begin

text \<open>
  The spellings of an IPv4 address that a resolver accepts (one to four numbers in C notation, the last filling the
  remaining bytes), and the proof that the code's two readers together read exactly these.
\<close>

subsection \<open>Specification\<close>

definition number_text :: "string \<Rightarrow> nat \<Rightarrow> bool" where
  "number_text p v \<longleftrightarrow> (\<exists>ds. (p = ''0x'' @ ds \<or> p = ''0X'' @ ds) \<and> ds \<noteq> [] \<and> list_all is_hexdigit ds \<and> v = radix_value 16 ds)
     \<or> (\<exists>ds. p = CHR ''0'' # ds \<and> ds \<noteq> [] \<and> list_all is_octdigit ds \<and> v = radix_value 8 ds)
     \<or> (p \<noteq> [] \<and> list_all is_digit p \<and> (hd p \<noteq> CHR ''0'' \<or> p = ''0'') \<and> v = radix_value 10 p)"

definition inet_value :: "nat list \<Rightarrow> nat option" where
  "inet_value vs = (if vs = [] \<or> 4 < length vs \<or> (\<exists>x \<in> set (butlast vs). 255 < x) \<or> 256 ^ (5 - length vs) \<le> last vs then None
     else Some (foldl (\<lambda>acc x. acc * 256 + x) 0 (butlast vs) * 256 ^ (5 - length vs) + last vs))"

definition denotes :: "string \<Rightarrow> Ipv4Addr \<Rightarrow> bool" where
  "denotes h v \<longleftrightarrow> (\<exists>ps vs a. ps \<noteq> [] \<and> h = join_with ''.'' ps \<and> list_all2 number_text ps vs \<and> inet_value vs = Some a \<and> v = v4_of_u32 a)"

subsection \<open>Numbers\<close>

lemma strip_hex_some: "strip_hex_prefix p = Some ds \<longleftrightarrow> p = ''0x'' @ ds \<or> p = ''0X'' @ ds"
proof -
  have x: "strip_prefix q p = Some ds \<longleftrightarrow> p = q @ ds" for q by (metis strip_prefix_SomeD strip_prefix_append)
  have "strip_prefix ''0x'' p = None" if "p = ''0X'' @ ds" using that by (simp add: strip_prefix_def)
  then show ?thesis using x [of "''0x''"] x [of "''0X''"] unfolding strip_hex_prefix_def by (cases "strip_prefix ''0x'' p") auto
qed

lemma strip_hex_none: "strip_hex_prefix p = None \<longleftrightarrow> (\<nexists>ds. p = ''0x'' @ ds \<or> p = ''0X'' @ ds)"
  using strip_hex_some [of p] by (metis option.exhaust option.distinct(1))

lemma octdigit_digit: "is_octdigit c \<Longrightarrow> is_digit c"
  by (simp add: is_octdigit_def is_digit_def)

lemma digits_not_hex: "list_all is_digit p \<Longrightarrow> strip_hex_prefix p = None"
  by (auto simp: strip_hex_none is_digit_def)

lemma radix_value_zero: "radix_value r (CHR ''0'' # ds) = radix_value r ds"
  by (simp add: radix_value_def hex_value_def is_digit_def)

lemma zero_octdigit: "is_octdigit (CHR ''0'')"
  by (simp add: is_octdigit_def)

lemma parse_component_iff: "parse_component p = Some v \<longleftrightarrow> number_text p v \<and> v \<le> u64_max"
proof (cases "strip_hex_prefix p")
  case (Some ds)
  then have p: "p = ''0x'' @ ds \<or> p = ''0X'' @ ds" by (simp add: strip_hex_some)
  then have d: "\<not> list_all is_digit p" and o: "\<not> list_all is_octdigit (tl p)" and ne: "p \<noteq> []" by (auto simp: is_digit_def is_octdigit_def)
  have e: "(p = ''0x'' @ es \<or> p = ''0X'' @ es) \<longleftrightarrow> es = ds" for es using Some strip_hex_some [of p es] by auto
  have "number_text p v \<longleftrightarrow> ds \<noteq> [] \<and> list_all is_hexdigit ds \<and> v = radix_value 16 ds"
    unfolding number_text_def e using d o by force
  then show ?thesis using Some ne by (auto simp: parse_component_def fits_u64_def)
next
  case None
  then have n: "\<nexists>ds. p = ''0x'' @ ds \<or> p = ''0X'' @ ds" by (simp add: strip_hex_none)
  show ?thesis
  proof (cases "1 < length p \<and> take 1 p = ''0''")
    case True
    then obtain ds where p: "p = CHR ''0'' # ds" "ds \<noteq> []" by (cases p) auto
    then show ?thesis using True None n by (auto simp: parse_component_def number_text_def fits_u64_def radix_value_zero zero_octdigit)
  next
    case False
    then have "p = [] \<or> hd p \<noteq> CHR ''0'' \<or> p = ''0''" by (cases p; cases "tl p") auto
    moreover have "\<not> (\<exists>ds. p = CHR ''0'' # ds \<and> ds \<noteq> [])" using False by (cases p) auto
    ultimately show ?thesis using False None n by (auto simp: parse_component_def number_text_def fits_u64_def)
  qed
qed

lemma parse_components_iff: "parse_components ps = Some vs \<longleftrightarrow> list_all2 number_text ps vs \<and> (\<forall>v \<in> set vs. v \<le> u64_max)"
  by (induction ps arbitrary: vs) (auto simp: bind_eq_Some_conv parse_component_iff list_all2_Cons1)

lemma byte_val_inj: "byte_val c = byte_val d \<longleftrightarrow> c = d"
  by simp

lemma radix_value_snoc: "radix_value r (s @ [c]) = radix_value r s * r + (case hex_value c of Some d \<Rightarrow> d | None \<Rightarrow> 0)"
  by (simp add: radix_value_def)

lemma radix_value_ge: "s \<noteq> [] \<Longrightarrow> is_digit (hd s) \<Longrightarrow> hd s \<noteq> CHR ''0'' \<Longrightarrow> 10 ^ (length s - 1) \<le> radix_value 10 s"
proof (induction s rule: rev_induct)
  case (snoc c s)
  show ?case
  proof (cases "s = []")
    case True
    then have "is_digit c" "c \<noteq> CHR ''0''" using snoc.prems by simp_all
    moreover have "byte_val c \<noteq> 48" using \<open>c \<noteq> CHR ''0''\<close> byte_val_inj [of c "CHR ''0''"] by auto
    ultimately show ?thesis using True by (auto simp: radix_value_def hex_value_def is_digit_def)
  next
    case False
    then have "10 ^ (length s - 1) \<le> radix_value 10 s" using snoc by simp
    moreover have "(10 :: nat) ^ length s = 10 ^ (length s - 1) * 10" using False by (metis length_greater_0_conv power_minus_mult)
    ultimately show ?thesis by (simp add: radix_value_snoc)
  qed
qed simp

subsection \<open>Dotted quads\<close>

definition octet_text :: "string \<Rightarrow> nat \<Rightarrow> bool" where
  "octet_text p v \<longleftrightarrow> p \<noteq> [] \<and> list_all is_digit p \<and> (hd p \<noteq> CHR ''0'' \<or> p = ''0'') \<and> v = radix_value 10 p \<and> v \<le> 255"

lemma to_digit_10: "to_digit 10 c = (if is_digit c then Some (byte_val c - 48) else None)"
  by (auto simp: to_digit_def hex_value_def is_digit_def)

lemma read_digits_10:
  "read_digits 10 n v s = (n + length (takeWhile is_digit s),
     foldl (\<lambda>v c. v * 10 + (case hex_value c of Some d \<Rightarrow> d | None \<Rightarrow> 0)) v (takeWhile is_digit s), dropWhile is_digit s)"
  by (induction s arbitrary: n v) (auto simp: to_digit_10 hex_value_def)

lemma octet_length: "octet_text p v \<Longrightarrow> length p \<le> 3"
proof (rule ccontr)
  assume o: "octet_text p v" and "\<not> length p \<le> 3"
  then have "hd p \<noteq> CHR ''0''" "is_digit (hd p)" "p \<noteq> []" by (auto simp: octet_text_def list_all_iff)
  then have "10 ^ (length p - 1) \<le> v" using radix_value_ge [of p] o by (simp add: octet_text_def)
  moreover have "(10 :: nat) ^ 3 \<le> 10 ^ (length p - 1)" using \<open>\<not> length p \<le> 3\<close> by (intro power_increasing) simp_all
  ultimately show False using o by (simp add: octet_text_def)
qed

lemma read_octet_iff:
  "read_octet s = Some (v, rest) \<longleftrightarrow> (\<exists>p. s = p @ rest \<and> octet_text p v \<and> (rest = [] \<or> \<not> is_digit (hd rest)))"
proof
  assume r: "read_octet s = Some (v, rest)"
  define p where "p = takeWhile is_digit s"
  have sp: "s = p @ dropWhile is_digit s" by (simp add: p_def)
  have r1: "p \<noteq> []" "v = radix_value 10 p" "v \<le> 255" "rest = dropWhile is_digit s" "\<not> (take 1 s = ''0'' \<and> 1 < length p)"
    using r by (auto simp: read_octet_def read_number_def read_digits_10 radix_value_def p_def [symmetric] split: if_splits)
  obtain x xs where x: "p = x # xs" using r1(1) by (cases p) auto
  have "take 1 s = [x]" by (subst sp) (simp add: x)
  then have "hd p \<noteq> CHR ''0'' \<or> p = ''0''" using r1(5) x by (cases xs) auto
  moreover have "list_all is_digit p" by (auto simp: p_def list_all_iff dest: set_takeWhileD)
  moreover have "rest = [] \<or> \<not> is_digit (hd rest)" using hd_dropWhile [of is_digit s] r1(4) by blast
  ultimately have "s = p @ rest \<and> octet_text p v \<and> (rest = [] \<or> \<not> is_digit (hd rest))" using sp r1 by (simp add: octet_text_def)
  then show "\<exists>p. s = p @ rest \<and> octet_text p v \<and> (rest = [] \<or> \<not> is_digit (hd rest))" by blast
next
  assume "\<exists>p. s = p @ rest \<and> octet_text p v \<and> (rest = [] \<or> \<not> is_digit (hd rest))"
  then obtain p where p: "s = p @ rest" "octet_text p v" "rest = [] \<or> \<not> is_digit (hd rest)" by blast
  have d: "\<forall>c \<in> set p. is_digit c" using p(2) by (simp add: octet_text_def list_all_iff)
  have "takeWhile is_digit s = p" "dropWhile is_digit s = rest" using p(1,3) d by (cases rest; simp add: takeWhile_append dropWhile_append)+
  moreover have "\<not> (take 1 s = ''0'' \<and> 1 < length p)" using p by (cases p) (auto simp: octet_text_def)
  ultimately show "read_octet s = Some (v, rest)"
    using p(2) octet_length [OF p(2)] by (auto simp: read_octet_def read_number_def read_digits_10 radix_value_def octet_text_def)
qed

lemma read_char_iff: "read_char c s = Some r \<longleftrightarrow> s = c # r"
  by (cases s) (auto simp: read_char_def)

lemma dot_not_digit: "\<not> is_digit (CHR ''.'')"
  by (simp add: is_digit_def)

lemma read_ipv4_iff:
  "read_ipv4_addr s = Some (Ipv4 a b c d, rest) \<longleftrightarrow> (\<exists>p q r t. s = p @ CHR ''.'' # q @ CHR ''.'' # r @ CHR ''.'' # t @ rest
     \<and> octet_text p a \<and> octet_text q b \<and> octet_text r c \<and> octet_text t d \<and> (rest = [] \<or> \<not> is_digit (hd rest)))" (is "?l \<longleftrightarrow> ?r")
proof
  assume ?l
  then show ?r by (auto simp: read_ipv4_addr_def bind_eq_Some_conv read_octet_iff read_char_iff split: prod.splits)
next
  assume ?r
  then obtain p q r t where s: "s = p @ CHR ''.'' # q @ CHR ''.'' # r @ CHR ''.'' # t @ rest"
    and o: "octet_text p a" "octet_text q b" "octet_text r c" "octet_text t d" "rest = [] \<or> \<not> is_digit (hd rest)" by blast
  have "read_octet s = Some (a, CHR ''.'' # q @ CHR ''.'' # r @ CHR ''.'' # t @ rest)" unfolding read_octet_iff using s o dot_not_digit by auto
  moreover have "read_octet (q @ CHR ''.'' # r @ CHR ''.'' # t @ rest) = Some (b, CHR ''.'' # r @ CHR ''.'' # t @ rest)" unfolding read_octet_iff using o dot_not_digit by auto
  moreover have "read_octet (r @ CHR ''.'' # t @ rest) = Some (c, CHR ''.'' # t @ rest)" unfolding read_octet_iff using o dot_not_digit by auto
  moreover have "read_octet (t @ rest) = Some (d, rest)" unfolding read_octet_iff using o by auto
  ultimately show ?l by (simp add: read_ipv4_addr_def read_char_def)
qed

lemma parse_ip_v4:
  "parse_ip h = Some (V4 (Ipv4 a b c d)) \<longleftrightarrow> (\<exists>p q r t. h = join_with ''.'' [p, q, r, t] \<and> octet_text p a \<and> octet_text q b \<and> octet_text r c \<and> octet_text t d)"
proof -
  have "parse_ip h = Some (V4 (Ipv4 a b c d)) \<longleftrightarrow> read_ipv4_addr h = Some (Ipv4 a b c d, [])"
    by (auto simp: parse_ip_def split: option.splits if_splits)
  then show ?thesis by (simp add: read_ipv4_iff)
qed

subsection \<open>Every spelling is read\<close>

lemma number_no_dot: "number_text p v \<Longrightarrow> CHR ''.'' \<notin> set p \<and> p \<noteq> []"
proof -
  have "\<not> is_hexdigit (CHR ''.'')" "\<not> is_octdigit (CHR ''.'')" "\<not> is_digit (CHR ''.'')" by (simp_all add: is_hexdigit_def hex_value_def is_digit_def is_octdigit_def)
  then show "number_text p v \<Longrightarrow> ?thesis" by (auto simp: number_text_def list_all_iff)
qed

lemma octet_number: "octet_text p v \<longleftrightarrow> number_text p v \<and> \<not> is_alternate_octet p v"
proof
  assume o: "octet_text p v"
  then have "strip_hex_prefix p = None" using digits_not_hex by (simp add: octet_text_def)
  moreover have "\<not> (1 < length p \<and> take 1 p = ''0'')" using o by (cases p) (auto simp: octet_text_def)
  ultimately show "number_text p v \<and> \<not> is_alternate_octet p v" using o by (auto simp: octet_text_def number_text_def is_alternate_octet_def)
next
  assume n: "number_text p v \<and> \<not> is_alternate_octet p v"
  then have a: "v \<le> 255" "strip_hex_prefix p = None" "\<not> (1 < length p \<and> take 1 p = ''0'')" by (auto simp: is_alternate_octet_def)
  have "\<not> (\<exists>ds. p = CHR ''0'' # ds \<and> ds \<noteq> [])" using a(3) by auto
  then show "octet_text p v" using n a(1,2) by (auto simp: number_text_def octet_text_def strip_hex_none)
qed

lemma inet_value_forms:
  "inet_value [a] = (if a \<le> u32_max then Some a else None)"
  "inet_value [a, b] = (if 0xFF < a \<or> 0xFFFFFF < b then None else Some (a * 16777216 + b))"
  "inet_value [a, b, c] = (if 0xFF < a \<or> 0xFF < b \<or> 0xFFFF < c then None else Some (a * 16777216 + b * 65536 + c))"
  "inet_value [a, b, c, d] = (if 0xFF < a \<or> 0xFF < b \<or> 0xFF < c \<or> 0xFF < d then None else Some (a * 16777216 + b * 65536 + c * 256 + d))"
  by (auto simp: inet_value_def u32_max_def algebra_simps)

lemma inet_value_length: "inet_value vs = Some a \<Longrightarrow> (\<exists>w. vs = [w]) \<or> (\<exists>w x. vs = [w, x]) \<or> (\<exists>w x y. vs = [w, x, y]) \<or> (\<exists>w x y z. vs = [w, x, y, z])"
proof -
  assume "inet_value vs = Some a"
  then have "vs \<noteq> []" "length vs \<le> 4" by (auto simp: inet_value_def split: if_splits)
  then have "length vs \<noteq> 0" "length vs \<le> 4" by auto
  then have "length vs = 1 \<or> length vs = 2 \<or> length vs = 3 \<or> length vs = 4" by linarith
  then show ?thesis by (auto simp: numeral_eq_Suc length_Suc_conv)
qed

lemma inet_value_code:
  "(case vs of [a] \<Rightarrow> if a \<le> u32_max then Some a else None
     | [a, b] \<Rightarrow> if 0xFF < a \<or> 0xFFFFFF < b then None else Some (a * 16777216 + b)
     | [a, b, c] \<Rightarrow> if 0xFF < a \<or> 0xFF < b \<or> 0xFFFF < c then None else Some (a * 16777216 + b * 65536 + c)
     | [a, b, c, d] \<Rightarrow> if 0xFF < a \<or> 0xFF < b \<or> 0xFF < c \<or> 0xFF < d then None else Some (a * 16777216 + b * 65536 + c * 256 + d)
     | _ \<Rightarrow> None) = inet_value vs"
proof (cases "inet_value vs")
  case None
  then show ?thesis by (auto simp: inet_value_forms split: list.split)
next
  case (Some a)
  then show ?thesis using inet_value_length [OF Some] by (auto simp: inet_value_forms)
qed

lemma inet_value_fits: "inet_value vs = Some a \<Longrightarrow> \<forall>v \<in> set vs. v \<le> u64_max"
  using inet_value_length [of vs a] by (auto simp: inet_value_forms u32_max_def u64_max_def split: if_splits)

lemma expand_iff:
  "expand_alternate_ipv4 h = Some v \<longleftrightarrow> h \<noteq> [] \<and> (\<exists>vs a. list_all2 number_text (split_on (CHR ''.'') h) vs \<and> inet_value vs = Some a \<and> v = v4_of_u32 a
     \<and> \<not> (length (split_on (CHR ''.'') h) = 4 \<and> \<not> list_ex (\<lambda>(p, v). is_alternate_octet p v) (zip (split_on (CHR ''.'') h) vs)))"
  unfolding expand_alternate_ipv4_def Let_def inet_value_code
  using inet_value_fits by (auto simp: bind_eq_Some_conv parse_components_iff split: if_splits)

lemma list_all2_number: "list_all2 number_text ps vs \<Longrightarrow> p \<in> set ps \<Longrightarrow> CHR ''.'' \<notin> set p \<and> p \<noteq> []"
  by (induction ps vs rule: list_all2_induct) (auto dest: number_no_dot)

lemma split_numbers: "list_all2 number_text ps vs \<Longrightarrow> ps \<noteq> [] \<Longrightarrow> split_on (CHR ''.'') (join_with ''.'' ps) = ps"
  by (intro split_join) (simp_all add: list_all2_number)

lemma v4_octets: "a \<le> 255 \<Longrightarrow> b \<le> 255 \<Longrightarrow> c \<le> 255 \<Longrightarrow> d \<le> 255 \<Longrightarrow> v4_of_u32 (a * 16777216 + b * 65536 + c * 256 + d) = Ipv4 a b c d"
proof -
  assume l: "a \<le> 255" "b \<le> 255" "c \<le> 255" "d \<le> 255"
  let ?n = "a * 16777216 + b * 65536 + c * 256 + d"
  have "?n = d + 256 * (a * 65536 + b * 256 + c)" by simp
  then have "?n div 256 = a * 65536 + b * 256 + c" "?n mod 256 = d" using l by (simp_all only: div_mult_self2 mod_mult_self2) simp_all
  moreover have "?n div 65536 = (a * 65536 + b * 256 + c) div 256" "?n div 16777216 = (a * 65536 + b * 256 + c) div 65536"
    using \<open>?n div 256 = _\<close> div_mult2_eq [of ?n 256 256] div_mult2_eq [of ?n 256 65536] by simp_all
  moreover have "a * 65536 + b * 256 + c = c + 256 * (a * 256 + b)" by simp
  then have "(a * 65536 + b * 256 + c) div 256 = a * 256 + b" "(a * 65536 + b * 256 + c) mod 256 = c" using l by (simp_all only: div_mult_self2 mod_mult_self2) simp_all
  moreover have "(a * 65536 + b * 256 + c) div 65536 = a" "(a * 256 + b) mod 256 = b" using l by simp_all
  ultimately show ?thesis by (simp add: v4_of_u32_def)
qed

lemma every_spelling_exact:
  "(expand_alternate_ipv4 h = Some v \<or> parse_ip h = Some (V4 v)) \<longleftrightarrow> denotes h v"
proof
  assume "expand_alternate_ipv4 h = Some v \<or> parse_ip h = Some (V4 v)"
  then show "denotes h v"
  proof
    assume "expand_alternate_ipv4 h = Some v"
    then show ?thesis unfolding expand_iff denotes_def using join_split [of "CHR ''.''" h] split_on_ne by (metis (no_types, lifting))
  next
    assume p: "parse_ip h = Some (V4 v)"
    obtain a b c d where v: "v = Ipv4 a b c d" by (cases v)
    obtain p q r t where o: "h = join_with ''.'' [p, q, r, t]" "octet_text p a" "octet_text q b" "octet_text r c" "octet_text t d" using p unfolding v parse_ip_v4 by blast
    have l: "a \<le> 255" "b \<le> 255" "c \<le> 255" "d \<le> 255" using o by (simp_all add: octet_text_def)
    have "list_all2 number_text [p, q, r, t] [a, b, c, d]" using o by (simp add: octet_number)
    moreover have "inet_value [a, b, c, d] = Some (a * 16777216 + b * 65536 + c * 256 + d)" using l by (simp add: inet_value_forms)
    ultimately show ?thesis unfolding denotes_def using o(1) v4_octets [OF l] v by (metis list.distinct(1))
  qed
next
  assume "denotes h v"
  then obtain ps vs a where d: "ps \<noteq> []" "h = join_with ''.'' ps" "list_all2 number_text ps vs" "inet_value vs = Some a" "v = v4_of_u32 a" unfolding denotes_def by blast
  have s: "split_on (CHR ''.'') h = ps" using split_numbers [OF d(3,1)] d(2) by simp
  have ne: "h \<noteq> []" using s list_all2_number [OF d(3), of "[]"] by auto
  show "expand_alternate_ipv4 h = Some v \<or> parse_ip h = Some (V4 v)"
  proof (cases "length ps = 4 \<and> \<not> list_ex (\<lambda>(p, v). is_alternate_octet p v) (zip ps vs)")
    case True
    then obtain p q r t where ps: "ps = [p, q, r, t]" by (auto simp: numeral_eq_Suc length_Suc_conv)
    then obtain w x y z where vs: "vs = [w, x, y, z]" using d(3) by (auto simp: list_all2_Cons1)
    have o: "octet_text p w" "octet_text q x" "octet_text r y" "octet_text t z" using True d(3) by (simp_all add: ps vs octet_number)
    then have "v = Ipv4 w x y z" using d(4,5) v4_octets [of w x y z] by (simp add: vs inet_value_forms octet_text_def)
    then show ?thesis using parse_ip_v4 [of h w x y z] o d(2) ps by blast
  next
    case False
    then show ?thesis using d ne unfolding expand_iff s by blast
  qed
qed

text \<open>
  The guard reads every spelling a resolver reads, and nothing else. A host text denotes an IPv4 address
  in the resolver's notation (one to four numbers, each decimal, octal or hexadecimal with any number of leading zeros, the
  last one filling the remaining bytes) if and only if the expansion of alternate spellings or the strict dotted-quad parser
  gives that address.
\<close>

theorem every_spelling_is_read:
  "(expand_alternate_ipv4 h = Some v \<or> parse_ip h = Some (V4 v)) \<longleftrightarrow> denotes h v"
  by (rule every_spelling_exact)

end
