(* ===== verification/UrlGuard.thy ===== *)
theory UrlGuard
  imports InetText
begin

text \<open>
  What the outbound guards decide, stated over the texts of URLs: the host that
  \<open>extract_normalized_host\<close> finds in every URL of the usual form, the denylist as a set of addresses
  and names, and the guards of the providers, the webhook and the trace collector.
\<close>

subsection \<open>Specification\<close>

text \<open>The texts a percent-decoder maps to a given text.\<close>

inductive encodes :: "string \<Rightarrow> string \<Rightarrow> bool" where
  plain_end: "encodes [] []"
| plain_char: "encodes t h \<Longrightarrow> c \<noteq> CHR ''%'' \<Longrightarrow> encodes (c # t) (c # h)"
| escaped: "encodes t h \<Longrightarrow> hex_value x = Some hi \<Longrightarrow> hex_value y = Some lo \<Longrightarrow> encodes (CHR ''%'' # x # y # t) (char_of (hi * 16 + lo) # h)"

definition delim :: "char \<Rightarrow> bool" where
  "delim c \<longleftrightarrow> c \<in> {CHR ''/'', CHR ''?'', CHR ''#'', CHR 0x5C}"

definition is_ascii_text :: "string \<Rightarrow> bool" where
  "is_ascii_text s \<longleftrightarrow> list_all (\<lambda>c. byte_val c < 128) s"

text \<open>The host part, in brackets or not, possibly percent-encoded, possibly with the root dot.\<close>

definition host_text :: "string \<Rightarrow> string \<Rightarrow> bool" where
  "host_text t h \<longleftrightarrow> h \<noteq> [] \<and> is_ascii_text h \<and> last h \<noteq> CHR ''.'' \<and> (\<exists>e. (encodes e h \<or> encodes e (h @ ''.''))
     \<and> list_all (\<lambda>c. \<not> delim c \<and> c \<noteq> CHR ''@'') e
     \<and> (t = e \<and> hd e \<noteq> CHR ''['' \<and> CHR '':'' \<notin> set e \<or> t = ''['' @ e @ '']'' \<and> CHR '']'' \<notin> set e))"

definition url_names :: "string \<Rightarrow> string \<Rightarrow> bool" where
  "url_names url h \<longleftrightarrow> (\<exists>scheme user t port rest. url = scheme @ ''://'' @ user @ t @ port @ rest
     \<and> (eq_ignore_ascii_case scheme ''https'' \<or> eq_ignore_ascii_case scheme ''http'')
     \<and> (user = [] \<or> (\<exists>w. user = w @ ''@'' \<and> list_all (\<lambda>c. \<not> delim c) w))
     \<and> host_text t h
     \<and> (port = [] \<or> (\<exists>ds. port = CHR '':'' # ds \<and> list_all is_digit ds))
     \<and> (rest = [] \<or> delim (hd rest)))"

text \<open>The IPv4 addresses a host text leads to, directly or embedded in an IPv6 address.\<close>

definition reaches :: "string \<Rightarrow> Ipv4Addr \<Rightarrow> bool" where
  "reaches h v \<longleftrightarrow> denotes h v \<or> (\<exists>w. parse_ip h = Some (V6 w) \<and> to_ipv4 w = Some v)"

definition listed :: "string list \<Rightarrow> string \<Rightarrow> bool" where
  "listed entries h \<longleftrightarrow> (\<exists>e \<in> entry_text ` set entries. (e \<noteq> [] \<and> eq_ignore_ascii_case e h)
     \<or> (\<exists>v. parse_ipv4 e = Some v \<and> reaches h v) \<or> (\<exists>w. parse_ipv6 e = Some w \<and> parse_ip h = Some (V6 w)))"

text \<open>The metadata services, written out: the link-local block and the addresses of Alibaba, Azure and Oracle; the names; the IPv6
  address of the AWS service.\<close>

definition metadata_address :: "Ipv4Addr \<Rightarrow> bool" where
  "metadata_address v \<longleftrightarrow> (\<exists>c d. v = Ipv4 169 254 c d) \<or> v \<in> {Ipv4 100 100 100 200, Ipv4 168 63 129 16, Ipv4 192 0 0 192}"

definition metadata_target :: "string \<Rightarrow> bool" where
  "metadata_target h \<longleftrightarrow>
     to_ascii_lowercase h \<in> {''metadata.google.internal'', ''metadata.internal'', ''metadata.tencentyun.com'', ''metadata.platformequinix.com'',
       ''instance-data'', ''instance-data.ec2.internal''}
     \<or> (\<exists>v. reaches h v \<and> metadata_address v) \<or> parse_ip h = Some (V6 [0xFD00, 0x0EC2, 0, 0, 0, 0, 0, 0x254])"

lemma is_metadata_v4_iff: "is_metadata_v4 v \<longleftrightarrow> metadata_address v"
  by (cases v) (auto simp: is_metadata_v4_def metadata_address_def alibaba_v4_def azure_v4_def oci_v4_def)

lemma metadata_target_iff:
  "metadata_target h \<longleftrightarrow> to_ascii_lowercase h \<in> set METADATA_HOSTS \<or> (\<exists>v. reaches h v \<and> is_metadata_v4 v) \<or> parse_ip h = Some (V6 imds_v6)"
  unfolding metadata_target_def is_metadata_v4_iff METADATA_HOSTS_def imds_v6_def by simp

subsection \<open>The host of a URL\<close>

lemma decode_plain: "c \<noteq> CHR ''%'' \<Longrightarrow> percent_decode_bytes (c # t) = c # percent_decode_bytes t"
  by (cases t; cases "tl t") (auto split: option.split)

lemma decode_encodes: "encodes t h \<Longrightarrow> percent_decode_bytes t = h"
  by (induction rule: encodes.induct) (simp_all add: decode_plain)

lemma utf8_ascii_text: "is_ascii_text s \<Longrightarrow> utf8_valid s"
  by (induction s) (simp_all add: is_ascii_text_def)

lemma decode_host: "encodes t h \<Longrightarrow> is_ascii_text h \<Longrightarrow> percent_decode_host t = h"
  by (simp add: percent_decode_host_def decode_encodes from_utf8_def utf8_ascii_text)

lemma encodes_nonempty: "encodes t h \<Longrightarrow> h \<noteq> [] \<Longrightarrow> t \<noteq> []"
  by (auto elim: encodes.cases)

lemma rsplit_once_append: "c \<notin> set b \<Longrightarrow> rsplit_once c (a @ c # b) = Some (a, b)"
  using split_once_append [of c "rev b" "rev a"] by (simp add: rsplit_once_def)

lemma split_once_none: "c \<notin> set s \<Longrightarrow> split_once c s = None"
  by (induction s) auto

lemma rsplit_once_none: "c \<notin> set s \<Longrightarrow> rsplit_once c s = None"
  by (simp add: rsplit_once_def split_once_none)

lemma split_once_str_append: "CHR '':'' \<notin> set a \<Longrightarrow> split_once_str ''://'' (a @ ''://'' @ b) = Some (a, b)"
  by (induction a) (auto simp: strip_prefix_def)

lemma scheme_no_colon: "eq_ignore_ascii_case s ''https'' \<or> eq_ignore_ascii_case s ''http'' \<Longrightarrow> CHR '':'' \<notin> set s"
proof
  assume e: "eq_ignore_ascii_case s ''https'' \<or> eq_ignore_ascii_case s ''http''" and "CHR '':'' \<in> set s"
  then have "ascii_lower (CHR '':'') \<in> set (to_ascii_lowercase s)" by (simp add: to_ascii_lowercase_def)
  then show False using e by (auto simp: eq_ignore_ascii_case_def to_ascii_lowercase_def ascii_lower_def)
qed

lemma digits_plain: "list_all is_digit ds \<Longrightarrow> c \<in> set ds \<Longrightarrow> \<not> delim c \<and> c \<noteq> CHR ''@'' \<and> c \<noteq> CHR '':''"
  by (auto simp: list_all_iff is_digit_def delim_def)

lemma delim_not [simp]: "\<not> delim (CHR ''@'')" "\<not> delim (CHR '':'')" "\<not> delim (CHR ''['')" "\<not> delim (CHR '']'')"
  by (simp_all add: delim_def)

lemma fold_slashes: "list_all (\<lambda>c. \<not> delim c) a \<Longrightarrow> map (\<lambda>c. if c = CHR 0x5C then CHR ''/'' else c) a = a"
  by (induction a) (simp_all add: delim_def)

lemma authority_of: "list_all (\<lambda>c. \<not> delim c) a \<Longrightarrow> rest = [] \<or> delim (hd rest) \<Longrightarrow>
  takeWhile (\<lambda>c. c \<notin> {CHR ''/'', CHR ''?'', CHR ''#''}) (map (\<lambda>c. if c = CHR 0x5C then CHR ''/'' else c) (a @ rest)) = a"
  by (cases rest) (auto simp: fold_slashes delim_def list_all_iff takeWhile_append)

text \<open>The host of the text after the user part, and that of a whole URL.\<close>

definition host_of_port :: "string \<Rightarrow> string" where
  "host_of_port host_port = (case strip_prefix ''['' host_port of
       Some after_bracket \<Rightarrow> (case split_once (CHR '']'') after_bracket of Some (inner, _) \<Rightarrow> inner | None \<Rightarrow> after_bracket)
     | None \<Rightarrow> (case rsplit_once (CHR '':'') host_port of
           Some (left, _) \<Rightarrow> if CHR '':'' \<notin> set left then left else host_port
         | None \<Rightarrow> host_port))"

lemma host_of_bracket: "CHR '']'' \<notin> set e \<Longrightarrow> host_of_port (''['' @ e @ '']'' @ port) = e"
  using split_once_append [of "CHR '']''" e port] by (simp add: host_of_port_def strip_prefix_def)

lemma host_of_plain: "e \<noteq> [] \<Longrightarrow> hd e \<noteq> CHR ''['' \<Longrightarrow> CHR '':'' \<notin> set e \<Longrightarrow> port = [] \<or> (\<exists>ds. port = CHR '':'' # ds \<and> list_all is_digit ds) \<Longrightarrow> host_of_port (e @ port) = e"
proof -
  assume e: "e \<noteq> []" "hd e \<noteq> CHR ''[''" "CHR '':'' \<notin> set e" and p: "port = [] \<or> (\<exists>ds. port = CHR '':'' # ds \<and> list_all is_digit ds)"
  have n: "strip_prefix ''['' (e @ port) = None" using e by (cases e) (auto simp: strip_prefix_def)
  show ?thesis using p
  proof
    assume "port = []"
    then show ?thesis using n e by (simp add: host_of_port_def rsplit_once_none)
  next
    assume "\<exists>ds. port = CHR '':'' # ds \<and> list_all is_digit ds"
    then obtain ds where "port = CHR '':'' # ds" "list_all is_digit ds" by blast
    moreover from this have "rsplit_once (CHR '':'') (e @ port) = Some (e, ds)" using digits_plain [of ds "CHR '':''"] rsplit_once_append [of "CHR '':''" ds e] by blast
    ultimately show ?thesis using n e by (simp add: host_of_port_def)
  qed
qed

lemma extract_form:
  assumes "eq_ignore_ascii_case scheme ''https'' \<or> eq_ignore_ascii_case scheme ''http''"
    and "user = [] \<or> (\<exists>w. user = w @ ''@'' \<and> list_all (\<lambda>c. \<not> delim c) w)"
    and "list_all (\<lambda>c. \<not> delim c \<and> c \<noteq> CHR ''@'') hp" and "rest = [] \<or> delim (hd rest)" and "host_of_port hp \<noteq> []"
  shows "extract_normalized_host (scheme @ ''://'' @ user @ hp @ rest) = Some (strip_dot (percent_decode_host (host_of_port hp)))"
proof -
  have s: "strip_scheme (scheme @ ''://'' @ user @ hp @ rest) = Some ((user @ hp) @ rest)"
    using assms(1) split_once_str_append [OF scheme_no_colon [OF assms(1)], of "user @ hp @ rest"] by (auto simp: strip_scheme_def)
  have "list_all (\<lambda>c. \<not> delim c) user" using assms(2) delim_not by (elim disjE exE conjE) simp_all
  moreover have "list_all (\<lambda>c. \<not> delim c) hp" using assms(3) by (simp add: list_all_iff)
  ultimately have "list_all (\<lambda>c. \<not> delim c) (user @ hp)" by simp
  note a = authority_of [OF this assms(4)]
  have n: "CHR ''@'' \<notin> set hp" using assms(3) by (auto simp: list_all_iff)
  have h: "(case rsplit_once (CHR ''@'') (user @ hp) of Some (_, r) \<Rightarrow> r | None \<Rightarrow> user @ hp) = hp"
    using assms(2) n rsplit_once_append [OF n] by (auto simp: rsplit_once_none)
  show ?thesis using assms(5) unfolding extract_normalized_host_def s Let_def Option.bind.simps(2) a h host_of_port_def [symmetric] by simp
qed

lemma host_text_port:
  assumes "host_text t h" and "port = [] \<or> (\<exists>ds. port = CHR '':'' # ds \<and> list_all is_digit ds)"
  shows "list_all (\<lambda>c. \<not> delim c \<and> c \<noteq> CHR ''@'') (t @ port) \<and> host_of_port (t @ port) \<noteq> [] \<and> strip_dot (percent_decode_host (host_of_port (t @ port))) = h"
proof -
  obtain e where e: "encodes e h \<or> encodes e (h @ ''.'')" "list_all (\<lambda>c. \<not> delim c \<and> c \<noteq> CHR ''@'') e"
    "t = e \<and> hd e \<noteq> CHR ''['' \<and> CHR '':'' \<notin> set e \<or> t = ''['' @ e @ '']'' \<and> CHR '']'' \<notin> set e" and h: "h \<noteq> []" "is_ascii_text h" "last h \<noteq> CHR ''.''"
    using assms(1) unfolding host_text_def by blast
  have ne: "e \<noteq> []" using e(1) h(1) encodes_nonempty by blast
  have o: "host_of_port (t @ port) = e" using e(3) host_of_bracket [of e port] host_of_plain [OF ne _ _ assms(2)] by auto
  have "is_ascii_text (h @ ''.'')" using h(2) by (simp add: is_ascii_text_def)
  then have "strip_dot (percent_decode_host e) = h" using e(1) h decode_host [of e h] decode_host [of e "h @ ''.''"] by (auto simp: strip_dot_def)
  moreover have "list_all (\<lambda>c. \<not> delim c \<and> c \<noteq> CHR ''@'') t" using e(2,3) by (elim disjE conjE) simp_all
  moreover have "list_all (\<lambda>c. \<not> delim c \<and> c \<noteq> CHR ''@'') port" using assms(2) digits_plain by (elim disjE exE conjE) (simp_all add: list_all_iff)
  ultimately show ?thesis using o ne by simp
qed

lemma extract_names: "url_names url h \<Longrightarrow> extract_normalized_host url = Some h"
proof -
  assume "url_names url h"
  then obtain scheme user t port rest where u0: "url = scheme @ ''://'' @ user @ t @ port @ rest"
    and a: "eq_ignore_ascii_case scheme ''https'' \<or> eq_ignore_ascii_case scheme ''http''" "user = [] \<or> (\<exists>w. user = w @ ''@'' \<and> list_all (\<lambda>c. \<not> delim c) w)"
      "rest = [] \<or> delim (hd rest)" and t: "host_text t h" "port = [] \<or> (\<exists>ds. port = CHR '':'' # ds \<and> list_all is_digit ds)"
    unfolding url_names_def by blast
  have u: "url = scheme @ ''://'' @ user @ (t @ port) @ rest" using u0 by simp
  show ?thesis unfolding u using extract_form [OF a(1,2) _ a(3)] host_text_port [OF t] by blast
qed

subsection \<open>The denylist\<close>

lemma map_filter_mem: "v \<in> set (List.map_filter f xs) \<longleftrightarrow> (\<exists>x \<in> set xs. f x = Some v)"
  by (induction xs) (auto simp: map_filter_simps split: option.splits)

lemma host_matches_listed: "host_matches_any h entries \<longleftrightarrow> listed entries h"
proof -
  define e4 where "e4 = List.map_filter (\<lambda>e. parse_ipv4 (entry_text e)) entries"
  define e6 where "e6 = List.map_filter (\<lambda>e. parse_ipv6 (entry_text e)) entries"
  have m4: "v \<in> set e4 \<longleftrightarrow> (\<exists>e \<in> set entries. parse_ipv4 (entry_text e) = Some v)" for v by (simp add: e4_def map_filter_mem)
  have m6: "w \<in> set e6 \<longleftrightarrow> (\<exists>e \<in> set entries. parse_ipv6 (entry_text e) = Some w)" for w by (simp add: e6_def map_filter_mem)
  have n: "entries = [] \<Longrightarrow> e4 = [] \<and> e6 = []" by (simp add: e4_def e6_def map_filter_simps)
  have "host_matches_any h entries \<longleftrightarrow> (\<exists>e \<in> set entries. entry_text e \<noteq> [] \<and> eq_ignore_ascii_case (entry_text e) h)
    \<or> (\<exists>v \<in> set e4. expand_alternate_ipv4 h = Some v \<or> parse_ip h = Some (V4 v) \<or> (\<exists>w. parse_ip h = Some (V6 w) \<and> to_ipv4 w = Some v))
    \<or> (\<exists>w \<in> set e6. parse_ip h = Some (V6 w))"
    using n by (auto simp: host_matches_any_def e4_def [symmetric] e6_def [symmetric] Let_def list_ex_iff split: option.splits IpAddr.splits)
  then show ?thesis unfolding listed_def reaches_def every_spelling_exact [symmetric] by (simp add: Bex_def m4 m6) blast
qed

lemma metadata_addresses:
  "((case expand_alternate_ipv4 h of Some x \<Rightarrow> is_metadata_v4 x | None \<Rightarrow> False)
     \<or> (case parse_ip h of Some (V4 v4) \<Rightarrow> is_metadata_v4 v4
          | Some (V6 v6) \<Rightarrow> v6 = imds_v6 \<or> (case to_ipv4 v6 of Some m \<Rightarrow> is_metadata_v4 m | None \<Rightarrow> False)
          | None \<Rightarrow> False)) \<longleftrightarrow> (\<exists>v. reaches h v \<and> is_metadata_v4 v) \<or> parse_ip h = Some (V6 imds_v6)"
  unfolding reaches_def every_spelling_exact [symmetric] by (auto split: option.splits IpAddr.splits)

lemma guard_exact:
  assumes "url_names url h"
  shows "ssrf_blocked_host url allow_overrides allow_all extra_blocked =
    (if \<not> allow_all \<and> (metadata_target h \<or> listed extra_blocked h) \<and> \<not> listed allow_overrides h then Some h else None)"
proof -
  have "ssrf_blocked_host url allow_overrides allow_all extra_blocked = (if allow_all \<or> listed allow_overrides h then None
     else if to_ascii_lowercase h \<in> set METADATA_HOSTS \<or> listed extra_blocked h \<or> (\<exists>v. reaches h v \<and> is_metadata_v4 v) \<or> parse_ip h = Some (V6 imds_v6) then Some h else None)"
    unfolding ssrf_blocked_host_def extract_names [OF assms] metadata_addresses [symmetric] host_matches_listed option.case by presburger
  then show ?thesis by (auto simp: metadata_target_iff)
qed

text \<open>
  Claim C9. The one-rule matrix of the metadata guard. For every URL of the usual form (any letter case of http or https,
  an optional user part, a host in brackets or not, percent-encoded in any way, with or without the root dot, an optional
  port, any path, query or fragment, with slashes of either kind), the guard blocks the URL, naming its host, exactly when
  the guard is not disabled, the host is on the hardcoded denylist or on the operator's extension, and no allow entry lists
  it. A host is on the denylist when it is one of the metadata names in any letter case, when it leads, in any spelling a
  resolver reads or embedded in an IPv6 address, to one of the metadata addresses, or when it is the IPv6 metadata address.
\<close>

theorem metadata_guard_exact:
  assumes "url_names url h"
  shows "ssrf_blocked_host url allow_overrides allow_all extra_blocked =
    (if \<not> allow_all \<and> (metadata_target h \<or> listed extra_blocked h) \<and> \<not> listed allow_overrides h then Some h else None)"
  using assms by (rule guard_exact)

text \<open>The definitions that evaluate a host text and an address text.\<close>

lemmas host_eval = split_once.simps strip_prefix_def extract_normalized_host_def strip_scheme_def scheme_is_def eq_ignore_ascii_case_def to_ascii_lowercase_def
  ascii_lower_def char_of_def bit_0 rsplit_once_def percent_decode_host_def from_utf8_def strip_dot_def hex_value_def is_digit_def
lemmas addr_eval = strip_prefix_def strip_hex_prefix_def expand_alternate_ipv4_def parse_component_def fits_u64_def radix_value_def hex_value_def is_digit_def
  is_octdigit_def is_hexdigit_def is_alternate_octet_def v4_of_u32_def u32_max_def u64_max_def parse_ip_def read_ipv4_addr_def read_octet_def read_number_def
  to_digit_def read_char_def

lemma encodes_plain: "CHR ''%'' \<notin> set h \<Longrightarrow> encodes h h"
  by (induction h) (auto intro: encodes.intros)

lemma sample_url: "url_names ''HTTPS://user@0xA9.0376.43518:443/latest'' ''0xA9.0376.43518''"
proof -
  have "host_text ''0xA9.0376.43518'' ''0xA9.0376.43518''" unfolding host_text_def
    by (intro conjI exI [of _ "''0xA9.0376.43518''"] disjI1 encodes_plain) (simp_all add: is_ascii_text_def delim_def)
  moreover have "user = [] \<or> (\<exists>w. user = w @ ''@'' \<and> list_all (\<lambda>c. \<not> delim c) w)" if "user = ''user@''" for user
    using that by (intro disjI2 exI [of _ "''user''"]) (simp add: delim_def)
  moreover have "''HTTPS://user@0xA9.0376.43518:443/latest'' = ''HTTPS'' @ ''://'' @ ''user@'' @ ''0xA9.0376.43518'' @ '':443'' @ ''/latest''" by simp
  moreover have "eq_ignore_ascii_case ''HTTPS'' ''https''" by (simp add: host_eval)
  moreover have "list_all is_digit ''443''" by (simp add: is_digit_def)
  moreover have "delim (CHR ''/'')" by (simp add: delim_def)
  ultimately show ?thesis unfolding url_names_def by (metis list.sel(1))
qed

theorem metadata_guard_exact_witness:
  "ssrf_blocked_host ''HTTPS://user@0xA9.0376.43518:443/latest'' [''10.0.0.1''] False [] = Some ''0xA9.0376.43518''
   \<and> metadata_target ''0xA9.0376.43518'' \<and> \<not> listed [''10.0.0.1''] ''0xA9.0376.43518''"
proof -
  have x: "expand_alternate_ipv4 ''0xA9.0376.43518'' = Some (Ipv4 169 254 169 254)" "parse_ipv4 ''10.0.0.1'' = Some (Ipv4 10 0 0 1)" "parse_ipv6 ''10.0.0.1'' = None"
    "parse_ip ''0xA9.0376.43518'' = None"
    by (simp_all add: addr_eval parse_ipv4_def parse_ipv6_def read_ipv6_addr_def read_groups.simps group_sep_def)
  have "ssrf_blocked_host ''HTTPS://user@0xA9.0376.43518:443/latest'' [''10.0.0.1''] False [] = Some ''0xA9.0376.43518''"
    by (simp add: ssrf_blocked_host_def extract_names [OF sample_url] x host_matches_any_def entry_text_def trim_def is_ws_def map_filter_simps
      eq_ignore_ascii_case_def to_ascii_lowercase_def METADATA_HOSTS_def is_metadata_v4_def)
  moreover have "\<not> listed [] ''0xA9.0376.43518''" by (simp add: listed_def)
  ultimately show ?thesis using metadata_guard_exact [OF sample_url, of "[''10.0.0.1'']" False "[]"] by (auto split: if_splits)
qed

subsection \<open>Providers\<close>

lemma env_placeholder_no_scheme: "scheme_is url s \<Longrightarrow> \<not> is_env_placeholder vars url"
  by (auto simp: scheme_is_def is_env_placeholder_def str_contains_def split: option.splits)

lemma url_names_scheme: "url_names url h \<Longrightarrow> scheme_is url ''https'' \<or> scheme_is url ''http''"
  unfolding url_names_def scheme_is_def using split_once_str_append scheme_no_colon by fastforce

lemma checked_url_ok: "checked_url vars guard field url = [] \<Longrightarrow> guard url = None \<and> url_scheme_ok vars url"
  by (auto simp: checked_url_def split: if_splits option.splits)

lemma scheme_ok_names: "url_scheme_ok vars url \<Longrightarrow> url_names url h \<Longrightarrow> scheme_is url ''https'' \<or> host_is_private_or_loopback h"
  using env_placeholder_no_scheme url_names_scheme extract_names by (fastforce simp: url_scheme_ok_def)

lemma composed_ok:
  assumes "composed_errors blocked fuses True guard base_url path_opt = []" "path_opt = Some path"
  shows "guard (base_url @ path) = None"
  using assms by (auto simp: composed_errors_def split: if_splits option.splits)

text \<open>The URLs a provider's configuration makes the program contact.\<close>

definition contacted :: "ProviderUrls \<Rightarrow> string set" where
  "contacted p = {pu_base_url p} \<union> (@) (pu_base_url p) ` (set_option (pu_path p) \<union> set_option (pu_path_base p))
     \<union> (if pu_auth p = Some OAuthClientCredentials then set_option (pu_token_url p) else {})"

lemma contacted_guarded:
  assumes "validate_provider_urls check_account vars cfg key p = []" "url \<in> contacted p"
  shows "ssrf_blocked_host url (pu_allow_metadata_hosts p @ mc_allow_metadata_hosts cfg) (mc_allow_all_metadata cfg) (mc_blocked_metadata_hosts cfg) = None"
proof -
  let ?g = "\<lambda>url. ssrf_blocked_host url (pu_allow_metadata_hosts p @ mc_allow_metadata_hosts cfg) (mc_allow_all_metadata cfg) (mc_blocked_metadata_hosts cfg)"
  note v = assms(1) [unfolded validate_provider_urls_def Let_def append_is_Nil_conv]
  have b: "checked_url vars ?g BaseUrl (pu_base_url p) = []" using v by blast
  have s: "url_scheme_ok vars (pu_base_url p)" using checked_url_ok [OF b] by blast
  have c: "composed_errors BlockedPath PathFuses True ?g (pu_base_url p) (pu_path p) = []"
    "composed_errors BlockedPathBase PathBaseFuses True ?g (pu_base_url p) (pu_path_base p) = []" using v s by simp_all
  consider "url = pu_base_url p" | path where "pu_path p = Some path" "url = pu_base_url p @ path"
    | path where "pu_path_base p = Some path" "url = pu_base_url p @ path"
    | "pu_auth p = Some OAuthClientCredentials" "pu_token_url p = Some url"
    using assms(2) by (auto simp: contacted_def elem_set split: if_splits)
  then show ?thesis
  proof cases
    case 1
    then show ?thesis using checked_url_ok [OF b] by simp
  next
    case 2
    then show ?thesis using composed_ok [OF c(1) 2(1)] by simp
  next
    case 3
    then show ?thesis using composed_ok [OF c(2) 3(1)] by simp
  next
    case 4
    then have "oauth_errors vars ?g key p = []" using v by simp
    then have "checked_url vars ?g TokenUrl url = []" using 4 by (auto simp: oauth_errors_def split: if_splits)
    then show ?thesis using checked_url_ok by blast
  qed
qed


definition sample_provider :: ProviderUrls where
  "sample_provider = \<lparr>pu_base_url = ''http://u@127.0.0.1:11434'', pu_path = Some ''/v1/x'', pu_path_base = None, pu_token_url = None, pu_scope = None,
     pu_auth = None, pu_allow_metadata_hosts = []\<rparr>"

definition sample_metadata :: MetadataCfg where
  "sample_metadata = \<lparr>mc_allow_metadata_hosts = [], mc_allow_all_metadata = False, mc_blocked_metadata_hosts = [''10.9.9.9'']\<rparr>"

lemma sample_provider_url: "url_names ''http://u@127.0.0.1:11434'' ''127.0.0.1''"
proof -
  have "host_text ''127.0.0.1'' ''127.0.0.1''" unfolding host_text_def
    by (intro conjI exI [of _ "''127.0.0.1''"] disjI1 encodes_plain) (simp_all add: is_ascii_text_def delim_def)
  moreover have "user = [] \<or> (\<exists>w. user = w @ ''@'' \<and> list_all (\<lambda>c. \<not> delim c) w)" if "user = ''u@''" for user
    using that by (intro disjI2 exI [of _ "''u''"]) (simp add: delim_def)
  moreover have "''http://u@127.0.0.1:11434'' = ''http'' @ ''://'' @ ''u@'' @ ''127.0.0.1'' @ '':11434'' @ []" by simp
  moreover have "eq_ignore_ascii_case ''http'' ''http''" by (simp add: eq_ignore_ascii_case_def)
  moreover have "list_all is_digit ''11434''" by (simp add: is_digit_def)
  ultimately show ?thesis unfolding url_names_def by metis
qed

lemma sample_provider_valid: "validate_provider_urls check_account [] sample_metadata key sample_provider = []"
proof -
  have x: "expand_alternate_ipv4 ''127.0.0.1'' = None" "parse_ip ''127.0.0.1'' = Some (V4 (Ipv4 127 0 0 1))" "parse_ipv4 ''10.9.9.9'' = Some (Ipv4 10 9 9 9)"
    "parse_ipv6 ''10.9.9.9'' = None"
    by (simp_all add: addr_eval parse_ipv4_def parse_ipv6_def read_ipv6_addr_def read_groups.simps group_sep_def)
  have y: "extract_normalized_host ''http://u@127.0.0.1:11434'' = Some ''127.0.0.1''" "extract_normalized_host ''http://u@127.0.0.1:11434/v1/x'' = Some ''127.0.0.1''"
    by (simp_all add: host_eval)
  have z: "ssrf_blocked_host url [] False [''10.9.9.9''] = None" if "extract_normalized_host url = Some ''127.0.0.1''" for url
    using that by (simp add: ssrf_blocked_host_def x host_matches_any_def entry_text_def trim_def is_ws_def map_filter_simps
      eq_ignore_ascii_case_def to_ascii_lowercase_def ascii_lower_def METADATA_HOSTS_def is_metadata_v4_def alibaba_v4_def azure_v4_def oci_v4_def)
  have s: "\<not> scheme_is ''http://u@127.0.0.1:11434'' ''https''" "scheme_is ''http://u@127.0.0.1:11434'' ''http''" by (simp_all add: host_eval)
  have o: "url_scheme_ok [] ''http://u@127.0.0.1:11434''"
    using s y(1) by (simp add: url_scheme_ok_def host_is_private_or_loopback_def x(2) local_v4_def)
  show ?thesis
    using o z [OF y(1)] z [OF y(2)]
    by (simp add: validate_provider_urls_def sample_provider_def sample_metadata_def reject_cidr_metadata_entries_def checked_url_def composed_errors_def)
qed


subsection \<open>The webhook and the trace collector\<close>

lemma number_shape: "number_text p v \<Longrightarrow> (case strip_hex_prefix p of Some hex \<Rightarrow> hex \<noteq> [] \<and> list_all is_hexdigit hex | None \<Rightarrow> p \<noteq> [] \<and> list_all is_digit p)"
proof (cases "strip_hex_prefix p")
  case None
  moreover have "is_digit (CHR ''0'')" by (simp add: is_digit_def)
  moreover assume "number_text p v"
  ultimately have "p \<noteq> [] \<and> list_all is_digit p" using octdigit_digit by (auto simp: number_text_def strip_hex_none list_all_iff)
  then show ?thesis using \<open>strip_hex_prefix p = None\<close> by simp
next
  case (Some ds)
  then have p: "p = ''0x'' @ ds \<or> p = ''0X'' @ ds" and e: "\<And>es. p = ''0x'' @ es \<or> p = ''0X'' @ es \<Longrightarrow> es = ds" using strip_hex_some by auto
  have "\<not> list_all is_digit p" "\<not> (\<exists>es. p = CHR ''0'' # es \<and> list_all is_octdigit es)" using p by (auto simp: is_digit_def is_octdigit_def)
  moreover assume "number_text p v"
  ultimately show ?thesis using Some e by (auto simp: number_text_def)
qed

lemma numbers_shape: "list_all2 number_text ps vs \<Longrightarrow>
  list_all (\<lambda>p. case strip_hex_prefix p of Some hex \<Rightarrow> hex \<noteq> [] \<and> list_all is_hexdigit hex | None \<Rightarrow> p \<noteq> [] \<and> list_all is_digit p) ps"
  by (induction ps vs rule: list_all2_induct) (use number_shape in auto)

lemma expanded_is_alternate: "expand_alternate_ipv4 h = Some v \<Longrightarrow> is_alternate_ipv4_encoding h"
proof -
  assume "expand_alternate_ipv4 h = Some v"
  then obtain vs a where h: "h \<noteq> []" and n: "list_all2 number_text (split_on (CHR ''.'') h) vs" and i: "inet_value vs = Some a"
    and x: "\<not> (length (split_on (CHR ''.'') h) = 4 \<and> \<not> list_ex (\<lambda>(p, v). is_alternate_octet p v) (zip (split_on (CHR ''.'') h) vs))" unfolding expand_iff by blast
  note shape = numbers_shape [OF n]
  show ?thesis
  proof (cases "CHR ''.'' \<in> set h")
    case False
    then show ?thesis using h shape by (auto simp: is_alternate_ipv4_encoding_def split_on_plain split: option.splits)
  next
    case True
    let ?ps = "split_on (CHR ''.'') h"
    have len: "length ?ps \<le> 4" using list_all2_lengthD [OF n] inet_value_length [OF i] by auto
    have "list_ex (\<lambda>p. strip_hex_prefix p \<noteq> None \<or> (1 < length p \<and> take 1 p = ''0'' \<and> list_all is_digit p)) ?ps" if "\<not> length ?ps < 4"
    proof -
      have "list_ex (\<lambda>(p, v). is_alternate_octet p v) (zip ?ps vs)" using that len x by auto
      then obtain p w where p: "p \<in> set ?ps" "w \<in> set vs" "is_alternate_octet p w" by (auto simp: list_ex_iff dest: set_zip_leftD set_zip_rightD)
      have "length vs = 4" using that len list_all2_lengthD [OF n] by simp
      then obtain b c d e where "vs = [b, c, d, e]" using inet_value_length [OF i] by auto
      then have "\<not> 255 < w" using i p(2) by (auto simp: inet_value_forms split: if_splits)
      then have "strip_hex_prefix p \<noteq> None \<or> (1 < length p \<and> take 1 p = ''0'')" using p(3) by (simp add: is_alternate_octet_def)
      moreover have "strip_hex_prefix p = None \<Longrightarrow> list_all is_digit p" using shape p(1) by (auto simp: list_all_iff)
      ultimately show ?thesis using p(1) by (auto simp: list_ex_iff)
    qed
    then show ?thesis using True h shape by (auto simp: is_alternate_ipv4_encoding_def Let_def)
  qed
qed

lemma reached_addresses:
  assumes "\<not> is_alternate_ipv4_encoding h" "reaches h v"
  shows "parse_ip h = Some (V4 v) \<or> (\<exists>w. parse_ip h = Some (V6 w) \<and> to_ipv4 w = Some v)"
  using assms expanded_is_alternate unfolding reaches_def every_spelling_exact [symmetric] by blast

text \<open>The internal addresses, written out block by block.\<close>

fun internal_address :: "Ipv4Addr \<Rightarrow> bool" where
  "internal_address (Ipv4 a b c d) \<longleftrightarrow> a = 127 \<or> (a = 169 \<and> b = 254) \<or> a = 10 \<or> (a = 172 \<and> 16 \<le> b \<and> b \<le> 31) \<or> (a = 192 \<and> b = 168)
     \<or> (a = 100 \<and> 64 \<le> b \<and> b \<le> 127) \<or> [a, b, c, d] \<in> {[0, 0, 0, 0], [255, 255, 255, 255], [168, 63, 129, 16], [192, 0, 0, 192]}"

lemma shared_block: "64 \<le> b \<Longrightarrow> b \<le> 127 \<Longrightarrow> and b 0xC0 = (64 :: nat)"
proof -
  assume "64 \<le> b" "b \<le> 127"
  moreover have "list_all (\<lambda>b. and b 0xC0 = (64 :: nat)) [64..<128]" by code_simp
  ultimately show ?thesis by (simp add: list_all_iff del: upt_rec_numeral)
qed

lemma internal_address_covered:
  assumes "internal_address v"
  shows "is_internal_v4 v"
proof (cases v)
  case (Ipv4 a b c d)
  have c: "is_cgnat_shared_v4 (Ipv4 100 b c d)" if "64 \<le> b" "b \<le> 127" using shared_block that by simp
  show ?thesis using assms unfolding Ipv4 internal_address.simps insert_iff empty_iff list.inject
    by (elim disjE conjE) (simp_all add: is_internal_v4_def v4_is_unspecified_def v4_is_broadcast_def azure_v4_def oci_v4_def c del: is_cgnat_shared_v4.simps)
qed

text \<open>
  Claim C25. The webhook goes to a public host. When the guard accepts a webhook URL, the URL has the https scheme and
  a host, the parser accepted it, and that host is no metadata name and leads, in no spelling a resolver reads and through
  no embedding in an IPv6 address, to an internal address (loopback, link-local, private, carrier-grade, unspecified,
  broadcast, or one of the metadata addresses); nor is it the loopback, unspecified, a unique-local or a link-local IPv6
  address; nor a localhost name.
\<close>

theorem webhook_goes_outside:
  assumes "validate_webhook_url url_parse (Some u) = Inr r"
  shows "r = Some u \<and> scheme_is u ''https'' \<and> (\<exists>h0. url_parse u = Some (Some h0) \<and> (let h = bare_host h0 in
    to_ascii_lowercase h \<notin> {''metadata.google.internal'', ''metadata.internal''} \<and> (\<forall>v. \<not> (reaches h v \<and> internal_address v))
    \<and> (\<forall>w. \<not> (parse_ip h = Some (V6 w) \<and> (v6_is_loopback w \<or> v6_is_unspecified w \<or> to_ipv4 w = None \<and> (is_unique_local_v6 w \<or> is_link_local_v6 w))))
    \<and> \<not> (parse_ip h = None \<and> is_localhost h)))"
proof -
  have a: "scheme_is u ''https''" "r = Some u" using assms by (auto simp: validate_webhook_url_def split: if_splits option.splits)
  obtain p where p: "url_parse u = Some p" "\<not> host_is_internal p" using assms by (auto simp: validate_webhook_url_def split: if_splits option.splits)
  then obtain h0 where h0: "p = Some h0" by (cases p) (auto simp: host_is_internal_def)
  define h where "h = bare_host h0"
  have lo: "to_ascii_lowercase m = m" if "m \<in> set TELEMETRY_METADATA_HOSTS" for m
    using that by (auto simp: TELEMETRY_METADATA_HOSTS_def to_ascii_lowercase_def ascii_lower_def)
  have k: "to_ascii_lowercase h \<notin> set TELEMETRY_METADATA_HOSTS" and n: "\<not> is_alternate_ipv4_encoding h"
    using p(2) lo unfolding h0 by (auto simp: host_is_internal_def h_def [symmetric] Let_def list_ex_iff eq_ignore_ascii_case_def split: if_splits)
  note d = p(2) [unfolded h0 host_is_internal_def option.case Let_def h_def [symmetric]]
  have i: "\<not> (reaches h v \<and> is_internal_v4 v)" for v
    using reached_addresses [OF n, of v] d n by (auto split: if_splits)
  have "to_ascii_lowercase h \<notin> {''metadata.google.internal'', ''metadata.internal''}" using k by (simp add: TELEMETRY_METADATA_HOSTS_def)
  moreover have "\<not> (reaches h v \<and> internal_address v)" for v using i internal_address_covered by blast
  moreover have "\<not> (parse_ip h = Some (V6 w) \<and> (v6_is_loopback w \<or> v6_is_unspecified w \<or> to_ipv4 w = None \<and> (is_unique_local_v6 w \<or> is_link_local_v6 w)))" for w
    using d n by (auto simp: v6_is_unspecified_def is_internal_v4_def v4_is_unspecified_def split: if_splits option.splits)
  moreover have "\<not> (parse_ip h = None \<and> is_localhost h)" using d n by (auto split: if_splits)
  ultimately show ?thesis using a p(1) h0 unfolding Let_def h_def by blast
qed

theorem webhook_goes_outside_witness:
  "validate_webhook_url (\<lambda>_. Some (Some ''8.8.8.8'')) (Some ''https://8.8.8.8/hook'') = Inr (Some ''https://8.8.8.8/hook'')
   \<and> (\<forall>v. \<not> (reaches (bare_host ''8.8.8.8'') v \<and> internal_address v))"
proof -
  have v: "validate_webhook_url (\<lambda>_. Some (Some ''8.8.8.8'')) (Some ''https://8.8.8.8/hook'') = Inr (Some ''https://8.8.8.8/hook'')"
    by (simp add: validate_webhook_url_def host_is_internal_def bare_host_def TELEMETRY_METADATA_HOSTS_def is_alternate_ipv4_encoding_def is_internal_v4_def is_cgnat_shared_v4.simps
      v4_is_unspecified_def v4_is_broadcast_def azure_v4_def oci_v4_def host_eval addr_eval)
  show ?thesis using v webhook_goes_outside [OF v] by (simp add: Let_def)
qed

text \<open>
  Three places where the guards and their descriptions part: a URL with an empty authority has no host for the guard,
  a decimal spelling of a public address counts as local, and an octal spelling of another network counts as loopback.
\<close>

lemma empty_authority_unchecked: "ssrf_blocked_host ''https:///169.254.169.254/'' [] False [] = None"
  by (simp add: ssrf_blocked_host_def host_eval)

lemma public_address_counts_local: "host_is_private_or_loopback ''134744072'' \<and> expand_alternate_ipv4 ''134744072'' = Some (Ipv4 8 8 8 8)"
  by (simp add: addr_eval host_is_private_or_loopback_def is_alternate_ipv4_encoding_def)

lemma octal_counts_loopback: "is_alternate_loopback_v4 ''0127.1'' \<and> expand_alternate_ipv4 ''0127.1'' = Some (Ipv4 87 0 0 1)"
  by (simp add: addr_eval is_alternate_loopback_v4_def parse_u32_def)

end
