(* ===== verification/ConfigSound.thy ===== *)
theory ConfigSound
  imports ConfigValidate UrlGuard
begin

text \<open>
  What the validator's two chain rules decide: the fallback pools form no cycle, and every error chain of a hook bottoms
  out. Both walks are shown to be exact, not only sound.
\<close>

subsection \<open>A sample configuration\<close>

text \<open>Two pools of one local model, the second the fallback of the first, and two gates, the second the error hook of the first.\<close>

definition sample_secret :: SecretRef where
  "sample_secret = \<lparr>sr_module = ''env'', sr_settings = [(''key'', Some ''KEY'')]\<rparr>"

definition sample_model :: ModelCfg where
  "sample_model = \<lparr>mo_max_requests = 500, mo_provider = ''local'', mo_max_concurrent = Some 4, mo_default_max_tokens = None, mo_upstream_model = None,
     mo_attempt_timeout_ms = None, mo_reasoning = None, mo_prompt_caching = None\<rparr>"

definition sample_pool :: "OnExhaustedCfg \<Rightarrow> PoolCfg" where
  "sample_pool x = \<lparr>po_members = [\<lparr>pm_model = ''m'', pm_weight = 3, pm_context_max = Some 8000, pm_tier = None, pm_attempt_timeout_ms = None, pm_reasoning = None, pm_tags = []\<rparr>],
     po_breaker = Some \<lparr>cfg_base_cooldown_secs = 5, cfg_max_cooldown_secs = 60, cfg_trip = None\<rparr>,
     po_failover = Some \<lparr>timeout_secs = 30, exclusions = None, max_hops = 2\<rparr>, po_on_exhausted = Some x, po_affinity = None, po_policy = WeightedPolicy, po_gates = [''g'']\<rparr>"

definition sample_hook :: "string \<Rightarrow> HookCfg" where
  "sample_hook x = \<lparr>hk_kind = Gate, hk_plugin = ''plug'', hk_on_error = x, hk_prompt = PromptNo, hk_default = False\<rparr>"

definition sample_limits :: LimitsResolved where
  "sample_limits = \<lparr>li_upstream_request_timeout_secs = 600, li_request_body_max_bytes = 100000, li_hard_down_cooldown_secs = 1800, li_upstream_error_body_max_bytes = 4096,
     li_tls_handshake_timeout_secs = 10, li_request_body_read_timeout_secs = 30, li_max_honored_retry_after_secs = 86400, li_default_max_tokens = 4096,
     li_reasoning_effort_budgets = \<lparr>re_minimal = 1024, re_low = 2048, re_medium = 8192, re_high = 16384\<rparr>, li_max_inflight_webhook_deliveries = 64,
     li_webhook_delivery_timeout_secs = 10, li_rate_sweep_interval = 256, li_default_probe_interval_secs = 30, li_default_probe_timeout_secs = 5, li_default_policy_timeout_ms = 1\<rparr>"

definition sample_cfg :: RootCfg where
  "sample_cfg = \<lparr>rc_tls = None, rc_admin_tls = None, rc_auth = None,
     rc_providers = [(''local'', \<lparr>pr_protocol = ''openai'', pr_urls = sample_provider, pr_api_key = sample_secret, pr_health = None, pr_error_map = [(''full'', ''overloaded'')]\<rparr>)],
     rc_models = [(''m'', sample_model)], rc_pools = [(''main'', sample_pool (FallbackPoolCfg ''spare'')), (''spare'', sample_pool LeastBadCfg)],
     rc_hooks = [(''g'', sample_hook ''h''), (''h'', sample_hook ''first'')], rc_admin_auth = [''admin-tokens''], rc_groups = [], rc_rate_card = None, rc_per_request_fee = 0,
     rc_store_module = None, rc_global_hooks = [], rc_metadata = sample_metadata, rc_limits = sample_limits\<rparr>"

subsection \<open>Fallback chains\<close>

definition fallback_edges :: "RootCfg \<Rightarrow> (string \<times> string) set" where
  "fallback_edges cfg = {(a, b). resolve_fallback_target cfg a = Some b}"

lemma edge_unique: "(a, b) \<in> fallback_edges cfg \<Longrightarrow> (a, c) \<in> fallback_edges cfg \<Longrightarrow> b = c"
  by (simp add: fallback_edges_def)

lemma edge_from_pool: "(a, b) \<in> fallback_edges cfg \<Longrightarrow> a \<in> fst ` set (rc_pools cfg)"
  using al_get_None [of "rc_pools cfg" a] by (auto simp: fallback_edges_def resolve_fallback_target_def split: option.splits)

text \<open>A walk that closes a ring has met a cycle.\<close>

lemma ring_cycle: "fallback_ring cfg path cur = Some (ring, c) \<Longrightarrow> \<forall>a \<in> set path. (a, cur) \<in> (fallback_edges cfg)\<^sup>+ \<Longrightarrow> (c, c) \<in> (fallback_edges cfg)\<^sup>+"
proof (induction cfg path cur rule: fallback_ring.induct)
  case (1 cfg path cur)
  show ?case
  proof (cases "cur \<in> set path")
    case True
    then show ?thesis using "1.prems" by (simp add: fallback_ring.simps)
  next
    case False
    then obtain nx where n: "resolve_fallback_target cfg cur = Some nx" "al_get (rc_pools cfg) nx \<noteq> None" "fallback_ring cfg (path @ [cur]) nx = Some (ring, c)"
      using "1.prems"(1) by (subst (asm) fallback_ring.simps) (auto split: option.splits if_splits)
    have e: "(cur, nx) \<in> fallback_edges cfg" using n(1) by (simp add: fallback_edges_def)
    then have "\<forall>a \<in> set (path @ [cur]). (a, nx) \<in> (fallback_edges cfg)\<^sup>+" using "1.prems"(2) by (auto intro: trancl_into_trancl)
    then show ?thesis using "1.IH" [OF False n(1,2) n(3)] by blast
  qed
qed

text \<open>A walk that starts on a cycle closes the ring at its start, and the ring holds only pools reached from there.\<close>

definition on_path :: "RootCfg \<Rightarrow> string \<Rightarrow> string list \<Rightarrow> string \<Rightarrow> bool" where
  "on_path cfg m path cur \<longleftrightarrow> distinct path \<and> hd (path @ [cur]) = m
     \<and> (\<forall>i < length path. resolve_fallback_target cfg (path ! i) = Some ((path @ [cur]) ! Suc i))"

lemma path_closed:
  assumes "on_path cfg m path cur" "i < length path" "path ! i = cur" "(cur, x) \<in> (fallback_edges cfg)\<^sup>*"
  shows "x \<in> set (drop i path)"
  using assms(4)
proof (induction rule: rtrancl_induct)
  case base
  have "drop i path = path ! i # drop (Suc i) path" using assms(2) by (simp add: Cons_nth_drop_Suc)
  then show ?case using assms(3) by simp
next
  case (step y z)
  then obtain j where j: "i \<le> j" "j < length path" "y = path ! j"
    by (metis add_leD1 in_set_conv_nth le_add1 length_drop less_diff_conv add.commute nth_drop less_imp_le_nat)
  have z: "z = (path @ [cur]) ! Suc j" using step.hyps(2) j assms(1) by (simp add: fallback_edges_def on_path_def)
  show ?case
  proof (cases "Suc j < length path")
    case True
    then have "drop i path ! (Suc j - i) = z" using z j(1) by (simp add: nth_append)
    then show ?thesis using True j(1) by (metis Suc_leD diff_less_mono le_Suc_eq length_drop nth_mem)
  next
    case False
    then have "z = cur" using z j(2) by (simp add: nth_append less_antisym)
    moreover have "drop i path = path ! i # drop (Suc i) path" using assms(2) by (simp add: Cons_nth_drop_Suc)
    ultimately show ?thesis using assms(3) by simp
  qed
qed

lemma ring_at_start:
  assumes "(m, m) \<in> (fallback_edges cfg)\<^sup>+" "\<forall>(a, b) \<in> fallback_edges cfg. b \<in> fst ` set (rc_pools cfg)"
  shows "on_path cfg m path cur \<Longrightarrow> (cur, m) \<in> (fallback_edges cfg)\<^sup>* \<Longrightarrow> set path \<subseteq> {y. (m, y) \<in> (fallback_edges cfg)\<^sup>*} \<Longrightarrow> (m, cur) \<in> (fallback_edges cfg)\<^sup>*
    \<Longrightarrow> \<exists>ring. fallback_ring cfg path cur = Some (ring, m) \<and> ring \<noteq> [] \<and> hd ring = m \<and> set ring \<subseteq> {y. (m, y) \<in> (fallback_edges cfg)\<^sup>*}
      \<and> (length ring = 1 \<longrightarrow> (m, m) \<in> fallback_edges cfg)"
proof (induction "card (fst ` set (rc_pools cfg) - set path)" arbitrary: path cur rule: less_induct)
  case less
  show ?case
  proof (cases "cur \<in> set path")
    case True
    then obtain i where i: "i < length path" "path ! i = cur" by (auto simp: in_set_conv_nth)
    have ne: "path \<noteq> []" using True by auto
    have hd: "path ! 0 = m" using less.prems(1) ne by (simp add: on_path_def hd_append hd_conv_nth)
    have "m \<in> set (drop i path)" using path_closed [OF less.prems(1) i less.prems(2)] .
    then obtain j where "j < length (drop i path)" "drop i path ! j = m" unfolding in_set_conv_nth by blast
    then have j: "i + j < length path" "path ! (i + j) = m" using i(1) by auto
    have "i + j = 0" using j less.prems(1) hd ne nth_eq_iff_index_eq [of path "i + j" 0] by (simp add: on_path_def)
    then have "i = 0" by simp
    then have "cur = m" using i hd by simp
    moreover have "dropWhile (\<lambda>p. p \<noteq> m) path = path" using hd ne by (cases path) auto
    moreover have "(m, m) \<in> fallback_edges cfg" if "length path = 1"
      using less.prems(1) that \<open>cur = m\<close> hd by (auto simp: on_path_def fallback_edges_def nth_append)
    ultimately show ?thesis using True less.prems(3) ne hd by (subst fallback_ring.simps) (simp add: hd_conv_nth)
  next
    case False
    obtain nx where nx: "(cur, nx) \<in> fallback_edges cfg" "(nx, m) \<in> (fallback_edges cfg)\<^sup>*"
      using less.prems(2) assms(1) by (metis converse_rtranclE tranclD)
    have nk: "nx \<in> fst ` set (rc_pools cfg)" using assms(2) nx(1) by blast
    have "on_path cfg m (path @ [cur]) nx"
      using less.prems(1) False nx(1) by (auto simp: on_path_def fallback_edges_def nth_append hd_append less_Suc_eq)
    moreover have "card (fst ` set (rc_pools cfg) - set (path @ [cur])) < card (fst ` set (rc_pools cfg) - set path)"
      using fresh_key_measure [OF edge_from_pool [OF nx(1)] _ False] by simp
    moreover have "set (path @ [cur]) \<subseteq> {y. (m, y) \<in> (fallback_edges cfg)\<^sup>*}" "(m, nx) \<in> (fallback_edges cfg)\<^sup>*"
      using less.prems(3,4) nx(1) by auto
    ultimately obtain ring where "fallback_ring cfg (path @ [cur]) nx = Some (ring, m) \<and> ring \<noteq> [] \<and> hd ring = m
      \<and> set ring \<subseteq> {y. (m, y) \<in> (fallback_edges cfg)\<^sup>*} \<and> (length ring = 1 \<longrightarrow> (m, m) \<in> fallback_edges cfg)"
      using less.hyps [of "path @ [cur]" nx] nx(2) by blast
    then show ?thesis using False nx(1) nk al_get_None [of "rc_pools cfg" nx] by (subst fallback_ring.simps) (auto simp: fallback_edges_def)
  qed
qed

lemma cycle_reported:
  assumes "\<forall>(a, b) \<in> fallback_edges cfg. b \<in> fst ` set (rc_pools cfg) \<and> a \<noteq> b" "(x, x) \<in> (fallback_edges cfg)\<^sup>+"
  shows "\<exists>e \<in> set (rc_pools cfg). fallback_cycle_errors cfg e \<noteq> []"
proof -
  define C where "C = {y. (x, y) \<in> (fallback_edges cfg)\<^sup>*}"
  have k: "C \<subseteq> insert x (fst ` set (rc_pools cfg))" using assms(1) by (auto simp: C_def elim: rtranclE)
  then have fin: "finite C" using finite_subset by blast
  have ne: "x \<in> C" by (simp add: C_def)
  have home: "(y, x) \<in> (fallback_edges cfg)\<^sup>*" if "(x, y) \<in> (fallback_edges cfg)\<^sup>*" for y using that
  proof (induction rule: rtrancl_induct)
    case (step y z)
    obtain w where w: "(y, w) \<in> fallback_edges cfg" "(w, x) \<in> (fallback_edges cfg)\<^sup>*" using step.IH assms(2) by (metis converse_rtranclE tranclD)
    then show ?case using edge_unique [OF step.hyps(2) w(1)] by simp
  qed simp
  define m where "m = Min C"
  have mC: "m \<in> C" using Min_in [OF fin] ne m_def by blast
  have xm: "(x, m) \<in> (fallback_edges cfg)\<^sup>*" using mC by (simp add: C_def)
  have mm: "(m, m) \<in> (fallback_edges cfg)\<^sup>+" using home [OF xm] assms(2) xm by (meson rtrancl_trancl_trancl trancl_rtrancl_trancl)
  have "\<forall>(a, b) \<in> fallback_edges cfg. b \<in> fst ` set (rc_pools cfg)" using assms(1) by auto
  from ring_at_start [OF mm this, of "[]" m] obtain ring where r: "fallback_ring cfg [] m = Some (ring, m)" "ring \<noteq> []" "hd ring = m" "set ring \<subseteq> {y. (m, y) \<in> (fallback_edges cfg)\<^sup>*}"
    "length ring = 1 \<longrightarrow> (m, m) \<in> fallback_edges cfg"
    by (auto simp: on_path_def)
  have "set ring \<subseteq> C" using r(4) xm by (auto simp: C_def)
  moreover have "m \<in> set ring" using r(2,3) by (metis hd_in_set)
  ultimately have "Min (set ring) = m" using Min_le [OF fin] by (intro Min_eqI) (auto simp: m_def)
  moreover have "1 < length ring" using r(2,5) assms(1) by (cases ring; cases "tl ring") auto
  moreover obtain y where "(m, y) \<in> fallback_edges cfg" using mm by (meson tranclD)
  then obtain p where "(m, p) \<in> set (rc_pools cfg)" using edge_from_pool by force
  ultimately show ?thesis using r(1) by (intro bexI [of _ "(m, p)"]) (simp_all add: fallback_cycle_errors_def)
qed

lemma fallback_target_rule:
  assumes "distinct (map fst (rc_pools cfg))"
  shows "(\<forall>(n, p) \<in> set (rc_pools cfg). fallback_errors cfg n p = []) \<longleftrightarrow> (\<forall>(a, b) \<in> fallback_edges cfg. b \<in> fst ` set (rc_pools cfg) \<and> a \<noteq> b)"
proof -
  have e: "(n, b) \<in> fallback_edges cfg \<longleftrightarrow> po_on_exhausted p = Some (FallbackPoolCfg b)" if "(n, p) \<in> set (rc_pools cfg)" for n p b
    using mem_al_get [OF assms that] by (auto simp: fallback_edges_def resolve_fallback_target_def split: option.splits OnExhaustedCfg.splits)
  have "fallback_errors cfg n p = [] \<longleftrightarrow> (\<forall>b. (n, b) \<in> fallback_edges cfg \<longrightarrow> b \<in> fst ` set (rc_pools cfg) \<and> n \<noteq> b)" if "(n, p) \<in> set (rc_pools cfg)" for n p
    using al_get_None [of "rc_pools cfg"] by (auto simp: fallback_errors_def e [OF that] split: option.splits OnExhaustedCfg.splits if_splits)
  then have "(\<forall>(n, p) \<in> set (rc_pools cfg). fallback_errors cfg n p = [])
    \<longleftrightarrow> (\<forall>(n, p) \<in> set (rc_pools cfg). \<forall>b. (n, b) \<in> fallback_edges cfg \<longrightarrow> b \<in> fst ` set (rc_pools cfg) \<and> n \<noteq> b)" by fastforce
  also have "\<dots> \<longleftrightarrow> (\<forall>(a, b) \<in> fallback_edges cfg. b \<in> fst ` set (rc_pools cfg) \<and> a \<noteq> b)" using edge_from_pool by fastforce
  finally show ?thesis .
qed

lemma fallback_rules:
  assumes "distinct (map fst (rc_pools cfg))"
  shows "(\<forall>(n, p) \<in> set (rc_pools cfg). fallback_errors cfg n p = [] \<and> fallback_cycle_errors cfg (n, p) = [])
    \<longleftrightarrow> acyclic (fallback_edges cfg) \<and> Range (fallback_edges cfg) \<subseteq> fst ` set (rc_pools cfg)"
proof -
  have cyc: "fallback_cycle_errors cfg e = []" if "acyclic (fallback_edges cfg)" for e
    using ring_cycle [of cfg "[]" "fst e"] that by (auto simp: fallback_cycle_errors_def acyclic_def split: option.splits)
  have loop: "a \<noteq> b" if "acyclic (fallback_edges cfg)" "(a, b) \<in> fallback_edges cfg" for a b using that by (auto simp: acyclic_def)
  have "acyclic (fallback_edges cfg)" if "\<forall>(a, b) \<in> fallback_edges cfg. b \<in> fst ` set (rc_pools cfg) \<and> a \<noteq> b" "\<forall>e \<in> set (rc_pools cfg). fallback_cycle_errors cfg e = []"
    using cycle_reported [OF that(1)] that(2) unfolding acyclic_def by blast
  then show ?thesis using fallback_target_rule [OF assms] cyc loop by fastforce
qed

text \<open>
  Claim C14. The fallback rules are exact. Over a configuration whose pools have distinct names, the validator reports no
  unknown, self-referring or cyclic fallback pool if and only if every fallback pool is configured and following the
  fallback of a pool never comes back to it. Although a ring is reported only from its smallest member, no ring goes
  unreported.
\<close>

theorem fallback_rules_exact:
  assumes "distinct (map fst (rc_pools cfg))"
  shows "(\<forall>(n, p) \<in> set (rc_pools cfg). fallback_errors cfg n p = [] \<and> fallback_cycle_errors cfg (n, p) = [])
    \<longleftrightarrow> acyclic (fallback_edges cfg) \<and> Range (fallback_edges cfg) \<subseteq> fst ` set (rc_pools cfg)"
  using assms by (rule fallback_rules)

theorem fallback_rules_exact_witness:
  "distinct (map fst (rc_pools sample_cfg)) \<and> acyclic (fallback_edges sample_cfg) \<and> Range (fallback_edges sample_cfg) \<subseteq> {''main'', ''spare''}"
proof -
  have d: "distinct (map fst (rc_pools sample_cfg))" by (simp add: sample_cfg_def)
  have "\<forall>(n, p) \<in> set (rc_pools sample_cfg). fallback_errors sample_cfg n p = [] \<and> fallback_cycle_errors sample_cfg (n, p) = []"
    by (simp add: sample_cfg_def sample_pool_def fallback_errors_def fallback_cycle_errors_def fallback_ring.simps resolve_fallback_target_def)
  then show ?thesis using fallback_rules_exact [OF d] d by (simp add: sample_cfg_def)
qed

subsection \<open>Error chains of hooks\<close>

text \<open>A name bottoms out when it is a terminal, a compiled-in strategy, or a gate whose own error name bottoms out.\<close>

inductive bottoms_out :: "Features \<Rightarrow> (string \<times> HookCfg) list \<Rightarrow> string \<Rightarrow> bool" for fs hooks where
  terminal: "on_error_terminal n \<noteq> None \<Longrightarrow> bottoms_out fs hooks n"
| strategy: "ranking_strategy n \<Longrightarrow> hooks_ranking fs \<Longrightarrow> bottoms_out fs hooks n"
| gate: "al_get hooks n = Some h \<Longrightarrow> hk_kind h = Gate \<Longrightarrow> bottoms_out fs hooks (hk_on_error h) \<Longrightarrow> \<not> ranking_strategy n \<Longrightarrow> bottoms_out fs hooks n"

definition chains_to :: "(string \<times> HookCfg) list \<Rightarrow> (string \<times> string) set" where
  "chains_to hooks = {(a, b). on_error_terminal a = None \<and> \<not> ranking_strategy a \<and> (\<exists>h. al_get hooks a = Some h \<and> hk_kind h = Gate \<and> hk_on_error h = b)}"

lemma bottoms_out_acyclic: "bottoms_out fs hooks n \<Longrightarrow> (n, n) \<notin> (chains_to hooks)\<^sup>+"
proof (induction rule: bottoms_out.induct)
  case (terminal n)
  then show ?case by (auto simp: chains_to_def dest: tranclD)
next
  case (strategy n)
  then show ?case by (auto simp: chains_to_def dest: tranclD)
next
  case (gate n h)
  show ?case
  proof
    assume "(n, n) \<in> (chains_to hooks)\<^sup>+"
    then obtain m where "(n, m) \<in> chains_to hooks" "(m, n) \<in> (chains_to hooks)\<^sup>*" by (meson tranclD)
    moreover from this have "m = hk_on_error h" using gate.hyps by (auto simp: chains_to_def)
    ultimately show False using gate.IH by (meson rtrancl_into_trancl1)
  qed
qed

lemma walk_bottoms_out:
  "on_error_walk fs hooks visited current = None \<Longrightarrow> bottoms_out fs hooks current"
proof (induction fs hooks visited current rule: on_error_walk.induct)
  case (1 fs hooks visited current)
  show ?case
  proof (cases "on_error_terminal current \<noteq> None \<or> ranking_strategy current")
    case True
    then show ?thesis using "1.prems" by (subst (asm) on_error_walk.simps) (auto intro: bottoms_out.intros split: if_splits)
  next
    case False
    then obtain h where h: "current \<notin> set visited" "al_get hooks current = Some h" "hk_kind h = Gate"
      "on_error_walk fs hooks (visited @ [current]) (hk_on_error h) = None"
      using "1.prems" by (subst (asm) on_error_walk.simps) (auto split: if_splits option.splits)
    then show ?thesis using "1.IH" [of h] False by (auto intro: bottoms_out.gate)
  qed
qed

lemma bottoms_out_walk:
  "bottoms_out fs hooks current \<Longrightarrow> \<forall>v \<in> set visited. (v, current) \<in> (chains_to hooks)\<^sup>+ \<or> \<not> bottoms_out fs hooks v \<Longrightarrow> on_error_walk fs hooks visited current = None"
proof (induction arbitrary: visited rule: bottoms_out.induct)
  case (terminal n)
  then show ?case by (simp add: on_error_walk.simps)
next
  case (strategy n)
  then show ?case by (simp add: on_error_walk.simps)
next
  case (gate n h)
  show ?case
  proof (cases "on_error_terminal n = None")
    case True
    have b: "bottoms_out fs hooks n" using gate by (auto intro: bottoms_out.gate)
    have e: "(n, hk_on_error h) \<in> chains_to hooks" using True gate.hyps by (auto simp: chains_to_def)
    have "n \<notin> set visited" using gate.prems bottoms_out_acyclic [OF b] b by blast
    moreover have "\<forall>v \<in> set (visited @ [n]). (v, hk_on_error h) \<in> (chains_to hooks)\<^sup>+ \<or> \<not> bottoms_out fs hooks v"
      using gate.prems e by (auto intro: trancl_into_trancl)
    ultimately show ?thesis using gate.hyps gate.IH True by (subst on_error_walk.simps) simp
  qed (simp add: on_error_walk.simps)
qed

text \<open>
  Claim C15. A failing hook always ends on something that cannot fail. When no hook takes a reserved name (a rule of
  its own), the validator accepts the error chain of every hook in the registry if and only if each of these chains
  bottoms out: through configured gates only, it reaches one of the terminal words or a ranking strategy that is compiled in.
\<close>

theorem on_error_rule_exact:
  assumes "distinct (map fst (rc_hooks cfg))" "\<forall>e \<in> set (rc_hooks cfg). reserved_hook_errors e = []"
  shows "(\<forall>e \<in> set (rc_hooks cfg). on_error_errors fs cfg e = []) \<longleftrightarrow> (\<forall>(n, h) \<in> set (rc_hooks cfg). bottoms_out fs (rc_hooks cfg) (hk_on_error h))"
proof -
  have "on_error_errors fs cfg (n, h) = [] \<longleftrightarrow> bottoms_out fs (rc_hooks cfg) (hk_on_error h)" if m: "(n, h) \<in> set (rc_hooks cfg)" for n h
  proof
    assume "on_error_errors fs cfg (n, h) = []"
    then show "bottoms_out fs (rc_hooks cfg) (hk_on_error h)" using walk_bottoms_out by (auto simp: on_error_errors_def split: option.splits)
  next
    assume b: "bottoms_out fs (rc_hooks cfg) (hk_on_error h)"
    have "n \<notin> set RESERVED_HOOK_NAMES" using assms(2) m by (force simp: reserved_hook_errors_def)
    then have r: "on_error_terminal n = None" "\<not> ranking_strategy n" by (auto simp: RESERVED_HOOK_NAMES_def on_error_terminal_def ranking_strategy_def)
    have "(n, hk_on_error h) \<in> chains_to (rc_hooks cfg) \<or> \<not> bottoms_out fs (rc_hooks cfg) n"
      using r mem_al_get [OF assms(1) m] by (cases "hk_kind h") (auto simp: chains_to_def elim: bottoms_out.cases)
    then have "\<forall>v \<in> set [n]. (v, hk_on_error h) \<in> (chains_to (rc_hooks cfg))\<^sup>+ \<or> \<not> bottoms_out fs (rc_hooks cfg) v" by auto
    from bottoms_out_walk [OF b this] show "on_error_errors fs cfg (n, h) = []" by (simp add: on_error_errors_def)
  qed
  then show ?thesis by fastforce
qed

theorem on_error_rule_exact_witness:
  "distinct (map fst (rc_hooks sample_cfg)) \<and> (\<forall>fs. bottoms_out fs (rc_hooks sample_cfg) ''h'')"
proof (intro conjI allI)
  show d: "distinct (map fst (rc_hooks sample_cfg))" by (simp add: sample_cfg_def)
  fix fs
  have r: "\<forall>e \<in> set (rc_hooks sample_cfg). reserved_hook_errors e = []"
    by (simp add: sample_cfg_def reserved_hook_errors_def RESERVED_HOOK_NAMES_def ON_ERROR_WEIGHTED_def ON_ERROR_REJECT_def ON_ERROR_FIRST_def ON_ERROR_NOTHING_def
      STRATEGY_CHEAPEST_def STRATEGY_FASTEST_def STRATEGY_LEAST_BUSY_def STRATEGY_USAGE_def)
  have "\<forall>e \<in> set (rc_hooks sample_cfg). on_error_errors fs sample_cfg e = []"
    by (simp add: sample_cfg_def sample_hook_def on_error_errors_def on_error_walk.simps on_error_terminal_def ranking_strategy_def ON_ERROR_WEIGHTED_def ON_ERROR_REJECT_def
      ON_ERROR_FIRST_def ON_ERROR_NOTHING_def STRATEGY_CHEAPEST_def STRATEGY_FASTEST_def STRATEGY_LEAST_BUSY_def STRATEGY_USAGE_def)
  then show "bottoms_out fs (rc_hooks sample_cfg) ''h''" using on_error_rule_exact [OF d r, of fs] by (simp add: sample_cfg_def sample_hook_def)
qed

end
