(* ===== verification/EgressAuth.thy ===== *)
theory EgressAuth
  imports SigV4 NetGuard Forward
begin

text \<open>
  The outbound credentials of \<open>egress_auth/\<close>: the headers each credential presents upstream, the checks on
  the token endpoints of the OAuth styles, and the background refresh of a minted bearer token. \<open>header_ok\<close> is
  \<open>HeaderValue::from_str\<close> accepting a text; the mint (an HTTP exchange) is an input of the refresh loop.
\<close>

subsection \<open>Headers\<close>

definition HDR_AUTHORIZATION :: string where "HDR_AUTHORIZATION = ''authorization''"
definition HDR_X_API_KEY :: string where "HDR_X_API_KEY = ''x-api-key''"
definition HDR_ANTHROPIC_VERSION :: string where "HDR_ANTHROPIC_VERSION = ''anthropic-version''"
definition ANTHROPIC_API_VERSION :: string where "ANTHROPIC_API_VERSION = ''2023-06-01''"

definition bearer_auth_headers :: "(string \<Rightarrow> bool) \<Rightarrow> string \<Rightarrow> (string \<times> string) list" where
  "bearer_auth_headers header_ok key = (let v = ''Bearer '' @ key in if header_ok v then [(HDR_AUTHORIZATION, v)] else [])"

definition api_key_headers :: "(string \<Rightarrow> bool) \<Rightarrow> string \<Rightarrow> string \<Rightarrow> (string \<times> string) list" where
  "api_key_headers header_ok header key = (if header_ok key then [(header, key)] else [])"

datatype AnthropicCredScheme = SchemeApiKey | SchemeOAuth | SchemeAmbiguous

definition CRED_PREFIX_API_KEY :: string where "CRED_PREFIX_API_KEY = ''sk-ant-api''"
definition CRED_PREFIX_OAUTH :: string where "CRED_PREFIX_OAUTH = ''sk-ant-oat''"

definition classify_credential :: "string \<Rightarrow> AnthropicCredScheme" where
  "classify_credential key = (let k = trim_start key in
     if strip_prefix CRED_PREFIX_API_KEY k \<noteq> None then SchemeApiKey
     else if strip_prefix CRED_PREFIX_OAUTH k \<noteq> None then SchemeOAuth else SchemeAmbiguous)"

definition anthropic_auth_headers :: "(string \<Rightarrow> bool) \<Rightarrow> string \<Rightarrow> UpstreamCreds option \<Rightarrow> (string \<times> string) list" where
  "anthropic_auth_headers header_ok key creds =
     (let safe = (\<lambda>name raw. if header_ok raw then [(name, raw)] else []);
          x_api_key = safe HDR_X_API_KEY key;
          x_api_key_trimmed = safe HDR_X_API_KEY (trim_start key);
          authorization = safe HDR_AUTHORIZATION (''Bearer '' @ key);
          assemble = (\<lambda>cs. cs @ [(HDR_ANTHROPIC_VERSION, ANTHROPIC_API_VERSION)])
      in case classify_credential key of
           SchemeApiKey \<Rightarrow> assemble x_api_key_trimmed
         | SchemeOAuth \<Rightarrow> assemble authorization
         | SchemeAmbiguous \<Rightarrow> (case creds of
               Some Passthrough \<Rightarrow> assemble authorization
             | Some Own \<Rightarrow> assemble x_api_key
             | None \<Rightarrow> assemble (x_api_key @ authorization)))"

subsection \<open>Minted tokens\<close>

definition REFRESH_SKEW_SECS :: nat where "REFRESH_SKEW_SECS = 300"
definition MIN_SLEEP_SECS :: nat where "MIN_SLEEP_SECS = 30"

record CachedToken =
  ct_token :: string
  ct_expires_at :: nat

definition empty_token :: CachedToken where
  "empty_token = \<lparr>ct_token = [], ct_expires_at = 0\<rparr>"

definition is_ready :: "CachedToken \<Rightarrow> bool" where
  "is_ready cached \<longleftrightarrow> ct_token cached \<noteq> []"

definition minted_headers :: "(string \<Rightarrow> bool) \<Rightarrow> CachedToken \<Rightarrow> (string \<times> string) list" where
  "minted_headers header_ok cached = (if ct_token cached = [] then [] else bearer_auth_headers header_ok (ct_token cached))"

definition next_refresh_secs :: "nat \<Rightarrow> nat \<Rightarrow> nat" where
  "next_refresh_secs expires_at now = (let ttl = expires_at - now in
     if ttl = 0 then MIN_SLEEP_SECS else if ttl \<le> REFRESH_SKEW_SECS then max (ttl div 2) 1 else max (ttl - REFRESH_SKEW_SECS) MIN_SLEEP_SECS)"

text \<open>One turn of the loop after a mint that ended at \<open>now\<close>: the token in force and the sleep. A dropped provider ends the loop.\<close>

definition refresh_step :: "nat \<Rightarrow> CachedToken \<Rightarrow> CachedToken option \<Rightarrow> CachedToken \<times> nat" where
  "refresh_step now cached minted = (case minted of
       Some fresh \<Rightarrow> if ct_token fresh = [] then (cached, MIN_SLEEP_SECS) else (fresh, next_refresh_secs (ct_expires_at fresh) now)
     | None \<Rightarrow> (cached, MIN_SLEEP_SECS))"

text \<open>The loop over the outcomes of its mints, each with the seconds it took and whether the provider still exists: the times at
  which a token came into force.\<close>

fun refresh_loop :: "nat \<Rightarrow> CachedToken \<Rightarrow> (bool \<times> nat \<times> CachedToken option) list \<Rightarrow> (nat \<times> CachedToken) list" where
  "refresh_loop start cached [] = []"
| "refresh_loop start cached ((alive, took, minted) # outcomes) =
     (if \<not> alive then []
      else case refresh_step (start + took) cached minted of (cached1, sleep_secs) \<Rightarrow>
        (start + took, cached1) # refresh_loop (start + took + sleep_secs) cached1 outcomes)"

subsection \<open>Credentials\<close>

datatype Credential = NoCredential | StaticBearer | ApiKeyHeader string | AnthropicNative | SigV4Signer | BearerToken CachedToken

definition resolve_credential :: "string \<Rightarrow> ProviderAuth option \<Rightarrow> Credential" where
  "resolve_credential protocol_name auth =
     (if auth = Some ApiKey then ApiKeyHeader ''api-key''
      else if auth = Some JwtBearer \<or> auth = Some OAuthClientCredentials then NoCredential
      else if protocol_name = ''gemini'' then ApiKeyHeader ''x-goog-api-key''
      else if protocol_name = ''anthropic'' then AnthropicNative
      else if protocol_name = ''bedrock'' then SigV4Signer
      else StaticBearer)"

definition headers_for :: "SigCrypto \<Rightarrow> (string \<Rightarrow> bool) \<Rightarrow> Credential \<Rightarrow> string \<Rightarrow> SigningContext \<Rightarrow> UpstreamCreds \<Rightarrow> (string \<times> string) list" where
  "headers_for cr header_ok c key ctx creds = (case c of
       NoCredential \<Rightarrow> []
     | StaticBearer \<Rightarrow> bearer_auth_headers header_ok key
     | ApiKeyHeader header \<Rightarrow> api_key_headers header_ok header key
     | AnthropicNative \<Rightarrow> anthropic_auth_headers header_ok key (Some creds)
     | SigV4Signer \<Rightarrow> sigv4_sign_headers cr header_ok key ctx
     | BearerToken cached \<Rightarrow> minted_headers header_ok cached)"

text \<open>The checks on a token endpoint: the same for the \<open>token_url\<close> of client credentials and the \<open>token_uri\<close> of a service account.\<close>

definition validate_token_url :: "MetadataSsrfPolicy \<Rightarrow> string \<Rightarrow> bool" where
  "validate_token_url ssrf token_url \<longleftrightarrow>
     (scheme_is token_url ''https'' \<or> ((case extract_normalized_host token_url of Some h \<Rightarrow> host_is_private_or_loopback h | None \<Rightarrow> False) \<and> scheme_is token_url ''http''))
     \<and> ssrf_blocked_host token_url (sp_allow_overrides ssrf) (sp_allow_all ssrf) (sp_blocked_hosts ssrf) = None"

text \<open>The credential of a lane as the boot builds it; \<open>check_account\<close> is the service-account parser. An OAuth credential starts with no token.\<close>

definition build_credential ::
  "(string \<Rightarrow> MetadataSsrfPolicy \<Rightarrow> bool) \<Rightarrow> MetadataSsrfPolicy \<Rightarrow> string \<Rightarrow> ProviderUrls \<Rightarrow> string \<Rightarrow> Credential option" where
  "build_credential check_account ssrf protocol_name p api_key =
     (if pu_auth p = Some JwtBearer then (if check_account api_key ssrf then Some (BearerToken empty_token) else None)
      else if pu_auth p = Some OAuthClientCredentials
      then do {
        token_url \<leftarrow> pu_token_url p;
        scope \<leftarrow> pu_scope p;
        _ \<leftarrow> split_credential api_key;
        (if validate_token_url ssrf token_url then Some (BearerToken empty_token) else None)
      }
      else Some (resolve_credential protocol_name (pu_auth p)))"

subsection \<open>Refresh\<close>

lemma next_refresh_slack: "now + 62 \<le> expires_at \<Longrightarrow> now + next_refresh_secs expires_at now + 30 < expires_at"
  by (auto simp: next_refresh_secs_def Let_def REFRESH_SKEW_SECS_def MIN_SLEEP_SECS_def)

text \<open>A run in which the provider lives, every mint ends within the client's timeout and gives a token of at least a minute.\<close>

fun prompt_mints :: "nat \<Rightarrow> CachedToken \<Rightarrow> (bool \<times> nat \<times> CachedToken option) list \<Rightarrow> bool" where
  "prompt_mints start cached [] = True"
| "prompt_mints start cached ((alive, took, minted) # outcomes) \<longleftrightarrow>
     (case minted of None \<Rightarrow> False
      | Some fresh \<Rightarrow> alive \<and> took \<le> 30 \<and> ct_token fresh \<noteq> [] \<and> start + took + 62 \<le> ct_expires_at fresh
          \<and> prompt_mints (start + took + next_refresh_secs (ct_expires_at fresh) (start + took)) fresh outcomes)"

lemma refresh_times:
  "prompt_mints start cached outcomes \<Longrightarrow> Suc i < length (refresh_loop start cached outcomes)
    \<Longrightarrow> (\<exists>t0 tok t1 tok1. refresh_loop start cached outcomes ! i = (t0, tok) \<and> refresh_loop start cached outcomes ! Suc i = (t1, tok1)
          \<and> ct_token tok \<noteq> [] \<and> t0 < t1 \<and> t1 < ct_expires_at tok)"
proof (induction outcomes arbitrary: start cached i)
  case (Cons o1 rest)
  obtain alive took minted where o1: "o1 = (alive, took, minted)" by (cases o1)
  obtain fresh where f: "minted = Some fresh" "alive" "took \<le> 30" "ct_token fresh \<noteq> []" "start + took + 62 \<le> ct_expires_at fresh"
    "prompt_mints (start + took + next_refresh_secs (ct_expires_at fresh) (start + took)) fresh rest"
    using Cons.prems(1) by (auto simp: o1 split: option.splits)
  let ?s = "start + took + next_refresh_secs (ct_expires_at fresh) (start + took)"
  have r: "refresh_loop start cached (o1 # rest) = (start + took, fresh) # refresh_loop ?s fresh rest" using f by (simp add: o1 refresh_step_def)
  show ?case
  proof (cases i)
    case 0
    have "refresh_loop ?s fresh rest \<noteq> []" using Cons.prems(2) r 0 by auto
    then obtain o2 rest2 where rest: "rest = o2 # rest2" by (cases rest) auto
    obtain alive2 took2 minted2 where o2: "o2 = (alive2, took2, minted2)" by (cases o2)
    obtain fresh2 where g: "minted2 = Some fresh2" "alive2" "took2 \<le> 30" "ct_token fresh2 \<noteq> []" using f(6) by (auto simp: rest o2 split: option.splits)
    have "refresh_loop ?s fresh rest ! 0 = (?s + took2, fresh2)" using g by (simp add: rest o2 refresh_step_def)
    moreover have "start + took < ?s + took2" "?s + took2 < ct_expires_at fresh"
      using next_refresh_slack [OF f(5)] g(3) f(5) by (auto simp: next_refresh_secs_def Let_def MIN_SLEEP_SECS_def REFRESH_SKEW_SECS_def)
    ultimately show ?thesis using 0 f(4) by (simp add: r)
  next
    case (Suc j)
    then show ?thesis using Cons.IH [OF f(6), of j] Cons.prems(2) by (simp add: r)
  qed
qed simp


definition sample_token :: "nat \<Rightarrow> CachedToken" where
  "sample_token t = \<lparr>ct_token = ''t'', ct_expires_at = t\<rparr>"


text \<open>A token of one second is slept over to its expiry, not strictly before it.\<close>

lemma one_second_token: "next_refresh_secs (now + 1) now = 1"
  by (simp add: next_refresh_secs_def REFRESH_SKEW_SECS_def)

subsection \<open>One credential, one scheme\<close>

definition credential_headers :: "string set" where
  "credential_headers = {HDR_AUTHORIZATION, HDR_X_API_KEY, ''api-key'', ''x-goog-api-key''}"

text \<open>
  A request presents one identity. For every protocol and authentication style, the headers of the lane's
  credential hold at most one credential header; a credential text that is no legal header value is left out rather than sent
  empty; the OAuth styles, should they ever reach the synchronous resolver, send nothing; and a minted credential never sends
  the configured key.
\<close>

theorem one_credential_header:
  "length (filter (\<lambda>(n, _). n \<in> credential_headers) (headers_for cr header_ok (resolve_credential protocol_name auth) key ctx creds)) \<le> 1
   \<and> (\<forall>(n, v) \<in> set (headers_for cr header_ok (resolve_credential protocol_name auth) key ctx creds). n \<in> credential_headers \<longrightarrow> header_ok v)
   \<and> (auth = Some JwtBearer \<or> auth = Some OAuthClientCredentials \<longrightarrow> headers_for cr header_ok (resolve_credential protocol_name auth) key ctx creds = [])
   \<and> (\<forall>key'. headers_for cr header_ok (BearerToken cached) key ctx creds = headers_for cr header_ok (BearerToken cached) key' ctx creds)"
proof -
  note hdrs = HDR_AUTHORIZATION_def HDR_X_API_KEY_def HDR_ANTHROPIC_VERSION_def credential_headers_def
  have v: "length (filter (\<lambda>(n, _). n \<in> credential_headers) (sigv4_sign_headers cr header_ok key ctx)) \<le> 1"
    "\<forall>(n, v) \<in> set (sigv4_sign_headers cr header_ok key ctx). n \<in> credential_headers \<longrightarrow> header_ok v"
    by (auto simp: sigv4_sign_headers_def hdrs AUTHORIZATION_def X_AMZ_DATE_def X_AMZ_CONTENT_SHA256_def X_AMZ_SECURITY_TOKEN_def Let_def case_prod_beta
      split: option.splits)
  have a: "length (filter (\<lambda>(n, _). n \<in> credential_headers) (anthropic_auth_headers header_ok key (Some creds))) \<le> 1"
    "\<forall>(n, v) \<in> set (anthropic_auth_headers header_ok key (Some creds)). n \<in> credential_headers \<longrightarrow> header_ok v"
    by (auto simp: anthropic_auth_headers_def hdrs Let_def split: AnthropicCredScheme.splits UpstreamCreds.splits)
  show ?thesis using v a
    by (auto simp: headers_for_def resolve_credential_def bearer_auth_headers_def api_key_headers_def Let_def)
qed

theorem one_credential_header_witness:
  "\<forall>cr ctx. headers_for cr (\<lambda>v. CHR 0x0A \<notin> set v) (resolve_credential ''anthropic'' None) ''sk-ant-oat1'' ctx Own
     = [(''authorization'', ''Bearer sk-ant-oat1''), (''anthropic-version'', ''2023-06-01'')]
   \<and> headers_for cr (\<lambda>v. CHR 0x0A \<notin> set v) (resolve_credential ''anthropic'' (Some JwtBearer)) ''sk-ant-oat1'' ctx Own = []"
proof (intro allI)
  fix cr ctx
  show "headers_for cr (\<lambda>v. CHR 0x0A \<notin> set v) (resolve_credential ''anthropic'' None) ''sk-ant-oat1'' ctx Own
     = [(''authorization'', ''Bearer sk-ant-oat1''), (''anthropic-version'', ''2023-06-01'')]
   \<and> headers_for cr (\<lambda>v. CHR 0x0A \<notin> set v) (resolve_credential ''anthropic'' (Some JwtBearer)) ''sk-ant-oat1'' ctx Own = []"
    using one_credential_header [of cr "\<lambda>v. CHR 0x0A \<notin> set v" "''anthropic''" "Some JwtBearer" "''sk-ant-oat1''" ctx Own]
    by (simp add: headers_for_def resolve_credential_def anthropic_auth_headers_def classify_credential_def trim_start_def is_ws_def strip_prefix_def CRED_PREFIX_API_KEY_def
      CRED_PREFIX_OAUTH_def HDR_AUTHORIZATION_def HDR_ANTHROPIC_VERSION_def ANTHROPIC_API_VERSION_def)
qed

end
