(* ===== verification/BuildApp.thy ===== *)
theory BuildApp
  imports ConfigSound EgressAuth UrlGuard Requests
begin

text \<open>
  The construction of the gateway from a configuration (\<open>build_app_from_config\<close> of \<open>main.rs\<close>): the validation
  gate, the lanes in the order of their model names, the credentials, the pools, the store, and the routing tables of the
  pools. Loading plugins, the HTTP client, governance and the telemetry tables are not part of it; what the hook resolver
  gives for a pool is an argument (\<open>policy_of\<close>, \<open>gates_of\<close>, \<open>global\<close>), as is whether a protocol handles the operation
  at hand (\<open>supports\<close>).
\<close>

subsection \<open>Lanes\<close>

datatype BuildError = ValidationFailed "ConfigError list" | BuildUnknownProvider string string | ContextMaxConflict string nat nat
  | BuildUnknownProtocol string string | BadLaneCredential string | BuildUnknownModel string string | SemaphorePanic string

text \<open>\<open>Semaphore::MAX_PERMITS\<close>; \<open>Semaphore::new\<close> panics on more permits, which is the value \<open>SemaphorePanic\<close>.\<close>

definition MAX_PERMITS :: nat where "MAX_PERMITS = 2 ^ 61 - 1"

definition lane_data :: "string \<times> ModelCfg \<Rightarrow> LaneData" where
  "lane_data e = (let (model, mc) = e; is_limited = 0 \<le> mo_max_requests mc;
       max_concurrent = (case mo_max_concurrent mc of Some n \<Rightarrow> n | None \<Rightarrow> MAX_PERMITS)
     in \<lparr>ld_model = model, ld_provider = mo_provider mc, ld_max = max_concurrent, ld_permits = max_concurrent, ld_limited = is_limited,
         ld_budget = (if is_limited then mo_max_requests mc else -1), ld_cooldown_until = 0, ld_streak = 0, ld_dead = False, ld_dead_reason = [],
         ld_ok = 0, ld_err = 0, ld_client_fault = 0, ld_upstream_model = mo_upstream_model mc, ld_attempt_timeout_ms = mo_attempt_timeout_ms mc,
         ld_reasoning = (mo_reasoning mc = Some True), ld_prompt_caching = (mo_prompt_caching mc = Some True)\<rparr>)"

definition sorted_models :: "RootCfg \<Rightarrow> (string \<times> ModelCfg) list" where
  "sorted_models cfg = sort_key fst (rc_models cfg)"

fun lanes_data :: "RootCfg \<Rightarrow> (string \<times> ModelCfg) list \<Rightarrow> BuildError + (LaneData \<times> ProviderCfg) list" where
  "lanes_data cfg [] = Inr []"
| "lanes_data cfg (e # es) = (case al_get (rc_providers cfg) (mo_provider (snd e)) of
       None \<Rightarrow> Inl (BuildUnknownProvider (fst e) (mo_provider (snd e)))
     | Some p \<Rightarrow> if MAX_PERMITS < ld_max (lane_data e) then Inl (SemaphorePanic (fst e))
         else (case lanes_data cfg es of Inl er \<Rightarrow> Inl er | Inr ls \<Rightarrow> Inr ((lane_data e, p) # ls)))"

definition by_model :: "RootCfg \<Rightarrow> (string \<times> nat) list" where
  "by_model cfg = (let ms = map fst (sorted_models cfg) in zip ms [0..<length ms])"

text \<open>\<open>resolve_model_context_max\<close> over the members of all pools.\<close>

fun resolve_model_context_max :: "(string \<times> nat option) list \<Rightarrow> PoolMember list \<Rightarrow> BuildError + (string \<times> nat option) list" where
  "resolve_model_context_max resolved [] = Inr resolved"
| "resolve_model_context_max resolved (m # ms) = (case al_get resolved (pm_model m) of
       None \<Rightarrow> resolve_model_context_max (al_put resolved (pm_model m) (pm_context_max m)) ms
     | Some None \<Rightarrow> resolve_model_context_max (al_put resolved (pm_model m) (pm_context_max m)) ms
     | Some (Some existing) \<Rightarrow> (case pm_context_max m of
           None \<Rightarrow> resolve_model_context_max resolved ms
         | Some c \<Rightarrow> if c = existing then resolve_model_context_max resolved ms else Inl (ContextMaxConflict (pm_model m) existing c)))"

definition all_members :: "RootCfg \<Rightarrow> PoolMember list" where
  "all_members cfg = concat (map (po_members \<circ> snd) (rc_pools cfg))"

definition ssrf_policy :: "RootCfg \<Rightarrow> ProviderCfg \<Rightarrow> MetadataSsrfPolicy" where
  "ssrf_policy cfg p = \<lparr>sp_allow_overrides = pu_allow_metadata_hosts (pr_urls p) @ mc_allow_metadata_hosts (rc_metadata cfg),
     sp_allow_all = mc_allow_all_metadata (rc_metadata cfg), sp_blocked_hosts = mc_blocked_metadata_hosts (rc_metadata cfg)\<rparr>"

definition lane_key :: "(SecretRef \<Rightarrow> string option) \<Rightarrow> ProviderCfg \<Rightarrow> string" where
  "lane_key resolve_key p = (case resolve_key (pr_api_key p) of Some k \<Rightarrow> k | None \<Rightarrow> [])"

definition build_lane ::
  "(string \<Rightarrow> MetadataSsrfPolicy \<Rightarrow> bool) \<Rightarrow> (SecretRef \<Rightarrow> string option) \<Rightarrow> (string \<Rightarrow> bool) \<Rightarrow> RootCfg \<Rightarrow> (string \<times> nat option) list
     \<Rightarrow> LaneData \<times> ProviderCfg \<Rightarrow> BuildError + (Lane \<times> Credential)" where
  "build_lane check_account resolve_key supports cfg context_max e = (let (ld, p) = e in
     if pr_protocol p \<notin> set KNOWN_PROTOCOLS then Inl (BuildUnknownProtocol (ld_provider ld) (pr_protocol p))
     else (case build_credential check_account (ssrf_policy cfg p) (pr_protocol p) (pr_urls p) (lane_key resolve_key p) of
         None \<Rightarrow> Inl (BadLaneCredential (ld_provider ld))
       | Some c \<Rightarrow> Inr (\<lparr>la_model = ld_model ld, la_provider = ld_provider ld, la_upstream_model = ld_upstream_model ld, la_protocol = pr_protocol p,
             la_error_map = pr_error_map p, la_context_max = (case al_get context_max (ld_model ld) of Some c \<Rightarrow> c | None \<Rightarrow> None),
             la_supports = supports (pr_protocol p)\<rparr>, c)))"

fun build_lanes :: "(LaneData \<times> ProviderCfg \<Rightarrow> BuildError + 'l) \<Rightarrow> (LaneData \<times> ProviderCfg) list \<Rightarrow> BuildError + 'l list" where
  "build_lanes f [] = Inr []"
| "build_lanes f (e # es) = (case f e of Inl er \<Rightarrow> Inl er
     | Inr l \<Rightarrow> (case build_lanes f es of Inl er \<Rightarrow> Inl er | Inr ls \<Rightarrow> Inr (l # ls)))"

subsection \<open>Pools\<close>

fun weighted_members :: "(string \<times> nat) list \<Rightarrow> string \<Rightarrow> PoolMember list \<Rightarrow> BuildError + WeightedLane list" where
  "weighted_members bm pool [] = Inr []"
| "weighted_members bm pool (m # ms) = (case al_get bm (pm_model m) of
       None \<Rightarrow> Inl (BuildUnknownModel pool (pm_model m))
     | Some i \<Rightarrow> (case weighted_members bm pool ms of Inl er \<Rightarrow> Inl er
         | Inr ws \<Rightarrow> Inr (\<lparr>wl_idx = i, wl_weight = pm_weight m, wl_reasoning = pm_reasoning m, wl_attempt_timeout_ms = pm_attempt_timeout_ms m\<rparr> # ws)))"

fun build_pools :: "(string \<times> nat) list \<Rightarrow> (string \<times> PoolCfg) list \<Rightarrow> BuildError + (string \<times> WeightedLane list) list" where
  "build_pools bm [] = Inr []"
| "build_pools bm ((name, p) # ps) = (case weighted_members bm name (po_members p) of Inl er \<Rightarrow> Inl er
     | Inr ws \<Rightarrow> (case build_pools bm ps of Inl er \<Rightarrow> Inl er | Inr qs \<Rightarrow> Inr ((name, ws) # qs)))"

text \<open>The tags of the members are keyed by lane; a later member of the same lane replaces an earlier one.\<close>

definition member_tags_of :: "(string \<times> nat) list \<Rightarrow> PoolCfg \<Rightarrow> (nat \<times> string list) list" where
  "member_tags_of bm p = foldl (\<lambda>acc m. case al_get bm (pm_model m) of Some i \<Rightarrow> al_put acc i (pm_tags m) | None \<Rightarrow> acc) [] (po_members p)"

definition pool_runtime_of :: "(PoolCfg \<Rightarrow> nat option) \<Rightarrow> (PoolCfg \<Rightarrow> (nat \<times> nat) list) \<Rightarrow> (string \<times> nat) list \<Rightarrow> PoolCfg \<Rightarrow> PoolRuntime" where
  "pool_runtime_of policy_of gates_of bm p = \<lparr>rt_members = member_tags_of bm p, rt_failover = po_failover p, rt_breaker = map_option BreakerCfg_from (po_breaker p),
     rt_policy = policy_of p, rt_gates = gates_of p\<rparr>"

definition on_exhausted_of :: "PoolCfg \<Rightarrow> OnExhausted" where
  "on_exhausted_of p = (case po_on_exhausted p of Some x \<Rightarrow> to_runtime x | None \<Rightarrow> Status503)"

subsection \<open>The gateway\<close>

record Hooks =
  policy_of :: "PoolCfg \<Rightarrow> nat option"
  gates_of :: "PoolCfg \<Rightarrow> (nat \<times> nat) list"
  global_of :: "(nat \<times> nat) list"

record Gateway =
  gw_app :: App
  gw_store :: InMemoryStore
  gw_pools :: "(string \<times> WeightedLane list) list"
  gw_credentials :: "Credential list"

definition build_store :: "RootCfg \<Rightarrow> LaneData list \<Rightarrow> InMemoryStore option \<Rightarrow> InMemoryStore" where
  "build_store cfg lds prior = (case prior of
       Some st \<Rightarrow> new_with_limits_restored lds (li_hard_down_cooldown_secs (rc_limits cfg)) (li_max_honored_retry_after_secs (rc_limits cfg)) (export_health st)
     | None \<Rightarrow> new_with_limits lds (li_hard_down_cooldown_secs (rc_limits cfg)) (li_max_honored_retry_after_secs (rc_limits cfg)))"

definition build_app_from_config ::
  "(string \<Rightarrow> MetadataSsrfPolicy \<Rightarrow> bool) \<Rightarrow> (SecretRef \<Rightarrow> string option) \<Rightarrow> Features \<Rightarrow> (string \<Rightarrow> bool) \<Rightarrow> Hooks \<Rightarrow> RootCfg \<Rightarrow> InMemoryStore option
     \<Rightarrow> BuildError + Gateway" where
  "build_app_from_config check_account resolve_key fs supports hks cfg prior = (case validate check_account resolve_key fs cfg of
       Inl errors \<Rightarrow> Inl (ValidationFailed errors)
     | Inr _ \<Rightarrow> (case lanes_data cfg (sorted_models cfg) of Inl er \<Rightarrow> Inl er
     | Inr lds \<Rightarrow> (case resolve_model_context_max [] (all_members cfg) of Inl er \<Rightarrow> Inl er
     | Inr context_max \<Rightarrow> (case build_lanes (build_lane check_account resolve_key supports cfg context_max) lds of Inl er \<Rightarrow> Inl er
     | Inr ls \<Rightarrow> (case build_pools (by_model cfg) (rc_pools cfg) of Inl er \<Rightarrow> Inl er
     | Inr pools \<Rightarrow> Inr \<lparr>gw_app = \<lparr>app_lanes = map fst ls,
             failover_cfg = Some \<lparr>timeout_secs = DEFAULT_FAILOVER_DEADLINE_SECS, exclusions = None, max_hops = DEFAULT_FAILOVER_CAP\<rparr>,
             pool_runtime = map (\<lambda>(n, p). (n, pool_runtime_of (policy_of hks) (gates_of hks) (by_model cfg) p)) (rc_pools cfg),
             fallback_pools = pools, on_exhausted_cfgs = map (\<lambda>(n, p). (n, on_exhausted_of p)) (rc_pools cfg), global_gates = global_of hks,
             upstream_creds = (case rc_auth cfg of Some a \<Rightarrow> au_upstream_credentials a | None \<Rightarrow> Own)\<rparr>,
           gw_store = build_store cfg (map fst lds) prior, gw_pools = pools, gw_credentials = map snd ls\<rparr>)))))"

end
