(* ===== verification/BuildSound.thy ===== *)
theory BuildSound
  imports BuildApp StoreRestore
begin

text \<open>
  A configuration that validates builds, and what it builds is a gateway on which every request is answered: the
  validator's rules are exactly what the construction and the routing rely on.
\<close>

subsection \<open>What validation gives\<close>

lemma validate_parts:
  assumes "validate check_account resolve_key fs cfg = Inr ()"
  shows "\<forall>e \<in> set (rc_models cfg). model_errors cfg e = []"
    and "\<forall>e \<in> set (rc_providers cfg). provider_errors check_account resolve_key [] cfg e = []"
    and "\<forall>e \<in> set (rc_pools cfg). pool_errors cfg e = []"
    and "\<forall>e \<in> set (rc_pools cfg). fallback_cycle_errors cfg e = []"
    and "context_errors [] (all_members cfg) = []"
proof -
  have v: "validation_errors check_account resolve_key fs cfg [] = []" using assms by (auto simp: validate_def validate_with_unset_def Let_def split: if_splits)
  note w = v [unfolded validation_errors_def append_is_Nil_conv concat_eq_Nil_conv set_map ball_simps(9)]
  show "\<forall>e \<in> set (rc_models cfg). model_errors cfg e = []" using w by (elim conjE)
  show "\<forall>e \<in> set (rc_providers cfg). provider_errors check_account resolve_key [] cfg e = []" using w by (elim conjE)
  show "\<forall>e \<in> set (rc_pools cfg). pool_errors cfg e = []" using w by (elim conjE)
  show "\<forall>e \<in> set (rc_pools cfg). fallback_cycle_errors cfg e = []" using w by (elim conjE)
  show "context_errors [] (all_members cfg) = []" unfolding all_members_def using w by (elim conjE)
qed

subsection \<open>Lanes\<close>

lemma lanes_data_ok:
  assumes "\<forall>e \<in> set es. al_get (rc_providers cfg) (mo_provider (snd e)) \<noteq> None \<and> ld_max (lane_data e) \<le> MAX_PERMITS"
  shows "\<exists>lds. lanes_data cfg es = Inr lds \<and> map fst lds = map lane_data es \<and> snd ` set lds \<subseteq> snd ` set (rc_providers cfg)"
  using assms
proof (induction es)
  case (Cons e es)
  obtain p where p: "al_get (rc_providers cfg) (mo_provider (snd e)) = Some p" using Cons.prems by auto
  then have i: "p \<in> snd ` set (rc_providers cfg)" using al_get_mem by force
  obtain lds where "lanes_data cfg es = Inr lds" "map fst lds = map lane_data es" "snd ` set lds \<subseteq> snd ` set (rc_providers cfg)" using Cons by auto
  then show ?case using p i Cons.prems by simp
qed simp

lemma context_max_ok:
  assumes "context_errors seen ms = []" "\<forall>n c. al_get resolved n = Some (Some c) \<longleftrightarrow> al_get seen n = Some c"
  shows "\<exists>r. resolve_model_context_max resolved ms = Inr r"
  using assms
proof (induction ms arbitrary: seen resolved)
  case (Cons m ms)
  show ?case
  proof (cases "pm_context_max m")
    case None
    then have c: "context_errors seen ms = []" using Cons.prems(1) by simp
    show ?thesis
    proof (cases "al_get resolved (pm_model m)")
      case N: None
      have "al_get seen (pm_model m) \<noteq> Some c" for c using Cons.prems(2) [rule_format, of "pm_model m" c] N by simp
      then have "\<forall>n c. al_get (al_put resolved (pm_model m) None) n = Some (Some c) \<longleftrightarrow> al_get seen n = Some c" using Cons.prems(2) by simp
      then show ?thesis using Cons.IH [OF c] None N by simp
    next
      case (Some o1)
      have "al_get seen (pm_model m) \<noteq> Some c" if "o1 = None" for c using Cons.prems(2) [rule_format, of "pm_model m" c] Some that by simp
      then have "\<forall>n c. al_get (al_put resolved (pm_model m) None) n = Some (Some c) \<longleftrightarrow> al_get seen n = Some c" if "o1 = None" using Cons.prems(2) that by simp
      then have "\<exists>r. resolve_model_context_max (al_put resolved (pm_model m) None) ms = Inr r" if "o1 = None" using Cons.IH [OF c] that by blast
      moreover have "\<exists>r. resolve_model_context_max resolved ms = Inr r" using Cons.IH [OF c Cons.prems(2)] .
      ultimately show ?thesis using None by (cases o1) (simp_all add: Some)
    qed
  next
    case (Some c)
    show ?thesis
    proof (cases "al_get seen (pm_model m)")
      case N: None
      then have s: "al_get resolved (pm_model m) = None \<or> al_get resolved (pm_model m) = Some None" using Cons.prems(2) by (metis option.exhaust)
      have e: "context_errors (al_put seen (pm_model m) c) ms = []" using Cons.prems(1) Some N by simp
      have "\<forall>n d. al_get (al_put resolved (pm_model m) (Some c)) n = Some (Some d) \<longleftrightarrow> al_get (al_put seen (pm_model m) c) n = Some d" using Cons.prems(2) by simp
      then show ?thesis using Cons.IH [OF e] s Some by auto
    next
      case S: (Some d)
      then have "d = c" "context_errors (al_put seen (pm_model m) c) ms = []" using Cons.prems(1) Some by (auto split: if_splits)
      moreover have a: "al_get resolved (pm_model m) = Some (Some d)" using Cons.prems(2) S by blast
      ultimately have "\<exists>r. resolve_model_context_max resolved ms = Inr r" using Cons.IH [of seen resolved] Cons.prems(2) S by simp
      then show ?thesis using \<open>d = c\<close> by (simp add: a Some)
    qed
  qed
qed simp

text \<open>The validator's check of an OAuth endpoint is the one the construction repeats.\<close>

lemma env_placeholder_none: "\<not> is_env_placeholder [] v"
  by (simp add: is_env_placeholder_def)

lemma credential_ok:
  assumes "provider_errors check_account resolve_key [] cfg (n, p) = []"
    and "pu_auth (pr_urls p) = Some JwtBearer \<or> pu_auth (pr_urls p) = Some OAuthClientCredentials \<longrightarrow> trim (lane_key resolve_key p) \<noteq> []"
  shows "pr_protocol p \<in> set KNOWN_PROTOCOLS
    \<and> (\<exists>c. build_credential check_account (ssrf_policy cfg p) (pr_protocol p) (pr_urls p) (lane_key resolve_key p) = Some c)"
proof -
  let ?u = "pr_urls p" and ?g = "\<lambda>url. ssrf_blocked_host url (pu_allow_metadata_hosts (pr_urls p) @ mc_allow_metadata_hosts (rc_metadata cfg)) (mc_allow_all_metadata (rc_metadata cfg))
    (mc_blocked_metadata_hosts (rc_metadata cfg))"
  have k: "pr_protocol p \<in> set KNOWN_PROTOCOLS" and v: "validate_provider_urls check_account [] (rc_metadata cfg) (resolve_key (pr_api_key p)) ?u = []"
    using assms(1) by (auto simp: provider_errors_def)
  note w = v [unfolded validate_provider_urls_def Let_def append_is_Nil_conv]
  consider (jwt) "pu_auth ?u = Some JwtBearer" | (oauth) "pu_auth ?u = Some OAuthClientCredentials"
    | (other) "pu_auth ?u \<noteq> Some JwtBearer" "pu_auth ?u \<noteq> Some OAuthClientCredentials" by blast
  then have "\<exists>c. build_credential check_account (ssrf_policy cfg p) (pr_protocol p) ?u (lane_key resolve_key p) = Some c"
  proof cases
    case jwt
    have "jwt_errors check_account (ssrf_policy cfg p) (resolve_key (pr_api_key p)) = []" using w jwt by (simp add: ssrf_policy_def)
    then have "check_account (lane_key resolve_key p) (ssrf_policy cfg p)" using assms(2) jwt by (auto simp: jwt_errors_def lane_key_def Let_def split: if_splits)
    then show ?thesis using jwt by (simp add: build_credential_def)
  next
    case oauth
    have e: "oauth_errors [] ?g (resolve_key (pr_api_key p)) ?u = []" using w oauth by simp
    then obtain tu where tu: "pu_token_url ?u = Some tu" "checked_url [] ?g TokenUrl tu = []"
      by (auto simp: oauth_errors_def blank_def trim_def split: option.splits if_splits)
    obtain sc where sc: "pu_scope ?u = Some sc" using e by (auto simp: oauth_errors_def blank_def trim_def split: option.splits if_splits)
    have s: "split_credential (lane_key resolve_key p) \<noteq> None" using e assms(2) oauth by (auto simp: oauth_errors_def lane_key_def Let_def split: if_splits)
    have "validate_token_url (ssrf_policy cfg p) tu" using checked_url_ok [OF tu(2)] by (auto simp: validate_token_url_def url_scheme_ok_def env_placeholder_none ssrf_policy_def)
    then show ?thesis using oauth tu(1) sc s by (auto simp: build_credential_def)
  next
    case other
    then show ?thesis by (simp add: build_credential_def)
  qed
  then show ?thesis using k by blast
qed

lemma build_lanes_ok: "\<forall>e \<in> set es. \<exists>l. f e = Inr l \<Longrightarrow> \<exists>ls. build_lanes f es = Inr ls \<and> length ls = length es"
proof (induction es)
  case (Cons e es)
  then obtain l ls where "f e = Inr l" "build_lanes f es = Inr ls" "length ls = length es" by auto
  then show ?case by simp
qed simp

subsection \<open>Pools\<close>

lemma by_model_some: "n \<in> fst ` set (rc_models cfg) \<Longrightarrow> \<exists>i. al_get (by_model cfg) n = Some i \<and> i < length (rc_models cfg)"
proof -
  let ?ms = "map fst (sorted_models cfg)"
  assume "n \<in> fst ` set (rc_models cfg)"
  then have "n \<in> set ?ms" by (simp add: sorted_models_def)
  moreover have "fst ` set (by_model cfg) = set ?ms" by (simp add: by_model_def Let_def flip: set_map)
  ultimately have n: "n \<in> fst ` set (by_model cfg)" by simp
  then obtain i where i: "al_get (by_model cfg) n = Some i" using al_get_None [of "by_model cfg" n] by auto
  then have "(n, i) \<in> set (by_model cfg)" by (rule al_get_mem)
  then have "i < length (rc_models cfg)" by (auto simp: by_model_def sorted_models_def Let_def dest: set_zip_rightD)
  then show ?thesis using i by blast
qed

definition usable_members :: "RootCfg \<Rightarrow> WeightedLane list \<Rightarrow> bool" where
  "usable_members cfg ws \<longleftrightarrow> (\<forall>w \<in> set ws. wl_idx w < length (rc_models cfg) \<and> 1 \<le> wl_weight w)"

lemma weighted_members_ok:
  assumes "\<forall>m \<in> set ms. pm_model m \<in> fst ` set (rc_models cfg) \<and> 1 \<le> pm_weight m"
  shows "\<exists>ws. weighted_members (by_model cfg) pool ms = Inr ws \<and> length ws = length ms \<and> usable_members cfg ws"
  using assms
proof (induction ms)
  case (Cons m ms)
  obtain ws where "weighted_members (by_model cfg) pool ms = Inr ws" "length ws = length ms" "usable_members cfg ws" using Cons by auto
  moreover obtain i where "al_get (by_model cfg) (pm_model m) = Some i" "i < length (rc_models cfg)" using by_model_some Cons.prems by force
  ultimately show ?case using Cons.prems by (simp add: usable_members_def)
qed (simp add: usable_members_def)

lemma build_pools_ok:
  assumes "\<forall>(n, p) \<in> set ps. po_members p \<noteq> [] \<and> (\<forall>m \<in> set (po_members p). pm_model m \<in> fst ` set (rc_models cfg) \<and> 1 \<le> pm_weight m)"
  shows "\<exists>qs. build_pools (by_model cfg) ps = Inr qs \<and> map fst qs = map fst ps \<and> (\<forall>(n, ws) \<in> set qs. ws \<noteq> [] \<and> usable_members cfg ws)"
  using assms
proof (induction ps)
  case (Cons e ps)
  obtain n p where e: "e = (n, p)" by (cases e)
  obtain ws where w: "weighted_members (by_model cfg) n (po_members p) = Inr ws" "length ws = length (po_members p)" "usable_members cfg ws"
    using weighted_members_ok [of "po_members p" cfg n] Cons.prems by (auto simp: e)
  have "ws \<noteq> []" using w(2) Cons.prems by (auto simp: e)
  then show ?case using Cons w by (auto simp: e)
qed simp

lemma pool_members_ok:
  assumes "pool_errors cfg (n, p) = []"
  shows "po_members p \<noteq> [] \<and> (\<forall>m \<in> set (po_members p). pm_model m \<in> fst ` set (rc_models cfg) \<and> 1 \<le> pm_weight m)"
proof (intro conjI ballI)
  have e: "\<forall>m \<in> set (po_members p). member_errors cfg m = []" "po_members p \<noteq> []" using assms by (auto simp: pool_errors_def)
  show "po_members p \<noteq> []" by (rule e(2))
  fix m assume "m \<in> set (po_members p)"
  then have m: "member_errors cfg m = []" using e(1) by blast
  then show "1 \<le> pm_weight m" by (auto simp: member_errors_def)
  have "al_get (rc_models cfg) (pm_model m) \<noteq> None" using m by (cases "al_get (rc_models cfg) (pm_model m)") (auto simp: member_errors_def model_protocols_def split: if_splits)
  then show "pm_model m \<in> fst ` set (rc_models cfg)" by (simp add: al_get_None)
qed

subsection \<open>The store\<close>

lemma lane_data_facts: "lane_data_ok (lane_data e) \<and> ld_budget (lane_data e) = (if 0 \<le> mo_max_requests (snd e) then mo_max_requests (snd e) else -1)"
  by (simp add: lane_data_ok_def lane_data_def case_prod_beta Let_def)

lemma restore_cell_wf: "cell_wf c \<Longrightarrow> cell_wf d \<Longrightarrow> cell_wf (restore_cell d (export_cell (p, c)))"
  by (auto simp: cell_wf_def restore_cell_def export_cell_def restored_breaker_state_def ST_HALF_OPEN_def ST_OPEN_def ST_CLOSED_def)

lemma restore_cells_wf: "cells_wf acc \<Longrightarrow> cells_wf cells \<Longrightarrow> cells_wf (restore_cells acc (map export_cell cells))"
proof (induction cells arbitrary: acc)
  case (Cons x cells)
  obtain p c where x: "x = (p, c)" by (cases x)
  have w: "cell_wf c" "p \<noteq> []" "cells_wf cells" using Cons.prems(2) by (auto simp: x cells_wf_def)
  have pc: "pc_pool (export_cell x) = p" by (simp add: x export_cell_def)
  show ?case
  proof (cases "al_get acc p")
    case None
    have "cells_wf (acc @ [(p, restore_cell BreakerCell_new (export_cell x))])"
      using cells_wf_append [OF Cons.prems(1) restore_cell_wf [OF w(1) BreakerCell_new_wf, of p] w(2) None] by (simp add: x)
    then show ?thesis using Cons.IH [OF _ w(3)] None pc by simp
  next
    case (Some d)
    have "cell_wf d" using Cons.prems(1) al_get_mem [OF Some] by (auto simp: cells_wf_def)
    then have "cells_wf (al_put acc p (restore_cell d (export_cell x)))" using cells_wf_put [OF Cons.prems(1) restore_cell_wf [OF w(1), of d p] w(2)] by (simp add: x)
    then show ?thesis using Cons.IH [OF _ w(3)] Some pc by simp
  qed
qed simp

lemma restored_lane_facts:
  assumes "store_wf st" "cell_wf (def_cell ls)"
  shows "cell_wf (def_cell (restored_lane (export_health st) ls)) \<and> budget (restored_lane (export_health st) ls) \<le> budget ls \<and> limited (restored_lane (export_health st) ls) = limited ls
    \<and> (cells_wf cells \<longrightarrow> cells_wf (restored_cells (export_health st) ls cells))"
proof (cases "find (matches ls) (export_health st)")
  case None
  then show ?thesis using assms(2) by (simp add: restored_lane_def restored_cells_def)
next
  case (Some s)
  then have "s \<in> set (export_health st)" by (metis find_Some_iff nth_mem)
  then obtain i where i: "i < length (lanes st)" "s = export_lane (lanes st ! i) (pool_cells st i)" by (auto simp: export_health_def)
  have w: "cell_wf (def_cell (lanes st ! i))" "cells_wf (pool_cells st i)" using assms(1) i(1) by (auto simp: store_wf_def)
  have "cell_wf (def_cell (restore_lane ls s))"
    using w(1) assms(2) by (auto simp: i(2) restore_lane_def export_lane_def Let_def cell_wf_def restored_breaker_state_def ST_HALF_OPEN_def ST_OPEN_def ST_CLOSED_def)
  moreover have "budget (restore_lane ls s) \<le> budget ls" "limited (restore_lane ls s) = limited ls" by (simp_all add: restore_lane_def)
  moreover have "h_cells s = map export_cell (pool_cells st i)" by (simp add: i(2) export_lane_def Let_def)
  ultimately show ?thesis using Some restore_cells_wf [OF _ w(2)] by (simp add: restored_lane_def restored_cells_def)
qed

lemma foldl_keeps: "P s \<Longrightarrow> (\<And>s x. P s \<Longrightarrow> P (f s x)) \<Longrightarrow> P (foldl f s xs)"
  by (induction xs arbitrary: s) auto

lemma restored_store:
  assumes "store_wf st" "\<forall>ld \<in> set lds. lane_data_ok ld"
  shows "store_wf (new_with_limits_restored lds a b (export_health st)) \<and> length (lanes (new_with_limits_restored lds a b (export_health st))) = length lds
    \<and> (\<forall>i < length lds. budget (lanes (new_with_limits_restored lds a b (export_health st)) ! i) \<le> ld_budget (lds ! i))"
proof -
  let ?n = "new_with_limits lds a b" and ?r = "new_with_limits_restored lds a b (export_health st)"
  have n: "store_wf ?n" "length (lanes ?n) = length lds" using new_with_limits_wf [OF assms(2)] by (simp_all add: new_with_limits_def)
  have c: "cell_wf (def_cell (lanes ?n ! i))" if "i < length lds" for i using n that by (auto simp: store_wf_def)
  note f = restore_fold [of "length (lanes ?n)" ?n "export_health st", simplified, folded restore_health_impl_def]
  have r: "?r = restore_health_impl ?n (export_health st)" by (simp add: new_with_limits_restored_def)
  have l: "length (lanes ?r) = length lds" using f n(2) by (simp add: r restore_health_impl_def)
  have li: "lanes ?r ! i = restored_lane (export_health st) (lanes ?n ! i)" if "i < length lds" for i using restore_lanes(1) [of i ?n "export_health st"] that n(2) by (simp add: r)
  have pc: "pool_cells ?r i = (if i < length lds then restored_cells (export_health st) (lanes ?n ! i) [] else [])" for i
    using restore_fold [of "length (lanes ?n)" ?n "export_health st"] n(2) by (simp add: r restore_health_impl_def new_with_limits_def)
  have "pool_shards ?r = []" unfolding r restore_health_impl_def
    by (rule foldl_keeps) (auto simp: new_with_limits_def restore_one_def set_lane_def Let_def split: option.splits)
  moreover have "cells_wf []" by (simp add: cells_wf_def)
  ultimately have "store_wf ?r" unfolding store_wf_def
    using l li pc c restored_lane_facts [OF assms(1)] by (auto simp: in_set_conv_nth)
  moreover have "budget (lanes ?r ! i) \<le> ld_budget (lds ! i)" if "i < length lds" for i
    using li [OF that] restored_lane_facts [OF assms(1) c [OF that]] that by (simp add: new_with_limits_def LaneState_new_def)
  ultimately show ?thesis using l by blast
qed

subsection \<open>The gateway\<close>

text \<open>What the types of the configuration guarantee, and the distinct keys of its maps.\<close>

definition config_typed :: "RootCfg \<Rightarrow> bool" where
  "config_typed cfg \<longleftrightarrow> distinct (map fst (rc_pools cfg)) \<and> (\<forall>(n, m) \<in> set (rc_models cfg). mo_max_requests m \<le> i64_max)
     \<and> (\<forall>(n, p) \<in> set (rc_pools cfg). \<forall>b. po_breaker p = Some b \<longrightarrow> cfg_max_cooldown_secs b \<le> u64_max)"

text \<open>No concurrency cap is above what a semaphore can hold; the validator does not check this (\<open>oversized_cap_panics\<close>).\<close>

definition caps_fit :: "RootCfg \<Rightarrow> bool" where
  "caps_fit cfg \<longleftrightarrow> (\<forall>(n, m) \<in> set (rc_models cfg). \<forall>c. mo_max_concurrent m = Some c \<longrightarrow> c \<le> MAX_PERMITS)"

lemma caps_fit_lane: "caps_fit cfg \<Longrightarrow> e \<in> set (rc_models cfg) \<Longrightarrow> ld_max (lane_data e) \<le> MAX_PERMITS"
  by (cases e) (fastforce simp: caps_fit_def lane_data_def Let_def split: option.splits)

definition secrets_present :: "(SecretRef \<Rightarrow> string option) \<Rightarrow> RootCfg \<Rightarrow> bool" where
  "secrets_present resolve_key cfg \<longleftrightarrow> (\<forall>(n, p) \<in> set (rc_providers cfg).
     pu_auth (pr_urls p) = Some JwtBearer \<or> pu_auth (pr_urls p) = Some OAuthClientCredentials \<longrightarrow> trim (lane_key resolve_key p) \<noteq> [])"

lemma built_store_facts:
  assumes "\<forall>st. prior = Some st \<longrightarrow> store_wf st" "\<forall>ld \<in> set lds. lane_data_ok ld \<and> ld_budget ld \<le> i64_max"
  shows "store_wf (build_store cfg lds prior) \<and> length (lanes (build_store cfg lds prior)) = length lds \<and> budgets_fit (build_store cfg lds prior)"
proof -
  have b: "budgets_fit st" if "length (lanes st) = length lds" "\<forall>i < length lds. budget (lanes st ! i) \<le> ld_budget (lds ! i)" for st
  proof -
    have "budget (lanes st ! i) \<le> i64_max" if "i < length lds" for i using \<open>\<forall>i < length lds. _ i\<close> that assms(2) nth_mem [OF that] by (meson order_trans)
    then show ?thesis using that(1) by (auto simp: budgets_fit_def purse_def in_set_conv_nth)
  qed
  show ?thesis
  proof (cases prior)
    case None
    then show ?thesis using new_with_limits_wf [of lds] assms(2) b by (auto simp: build_store_def new_with_limits_def LaneState_new_def)
  next
    case (Some st)
    then show ?thesis using restored_store [of st lds] assms b by (auto simp: build_store_def)
  qed
qed

lemma built_breakers_ok:
  assumes "\<forall>e \<in> set (rc_pools cfg). pool_errors cfg e = []" "config_typed cfg"
    and "pool_runtime app = map (\<lambda>(n, p). (n, pool_runtime_of pf gf bm p)) (rc_pools cfg)"
  shows "cfg_ok (resolve_breaker_cfg app pool)"
proof (cases "al_get (rc_pools cfg) pool")
  case None
  then show ?thesis using BreakerCfg_default_ok by (simp add: resolve_breaker_cfg_def assms(3) al_get_map)
next
  case (Some p)
  have m: "(pool, p) \<in> set (rc_pools cfg)" using Some by (rule al_get_mem)
  show ?thesis
  proof (cases "po_breaker p")
    case N: None
    then show ?thesis using BreakerCfg_default_ok Some by (simp add: resolve_breaker_cfg_def assms(3) al_get_map pool_runtime_of_def)
  next
    case S: (Some b)
    have "validate_breaker b = []" using assms(1) m S by (fastforce simp: pool_errors_def)
    moreover have "cfg_max_cooldown_secs b \<le> u64_max" using assms(2) m S by (fastforce simp: config_typed_def)
    ultimately show ?thesis using validated_cfg_ok S Some by (simp add: resolve_breaker_cfg_def assms(3) al_get_map pool_runtime_of_def)
  qed
qed

lemma validated_builds:
  assumes "validate check_account resolve_key fs cfg = Inr ()" "config_typed cfg" "secrets_present resolve_key cfg" "caps_fit cfg" "\<forall>st. prior = Some st \<longrightarrow> store_wf st"
  shows "\<exists>gw. build_app_from_config check_account resolve_key fs supports hks cfg prior = Inr gw \<and> map fst (gw_pools gw) = map fst (rc_pools cfg)
    \<and> fallback_pools (gw_app gw) = gw_pools gw \<and> on_exhausted_cfgs (gw_app gw) = map (\<lambda>(n, p). (n, on_exhausted_of p)) (rc_pools cfg)
    \<and> ready (gw_app gw) (gw_store gw) \<and> (\<forall>(n, cs) \<in> set (gw_pools gw). cs \<noteq> [] \<and> members (gw_app gw) cs \<and> (\<forall>w \<in> set cs. 1 \<le> wl_weight w))"
proof -
  note v = validate_parts [OF assms(1)]
  have "\<forall>e \<in> set (sorted_models cfg). al_get (rc_providers cfg) (mo_provider (snd e)) \<noteq> None \<and> ld_max (lane_data e) \<le> MAX_PERMITS"
    using v(1) caps_fit_lane [OF assms(4)] by (auto simp: sorted_models_def model_errors_def)
  then obtain lds where lds: "lanes_data cfg (sorted_models cfg) = Inr lds" "map fst lds = map lane_data (sorted_models cfg)" "snd ` set lds \<subseteq> snd ` set (rc_providers cfg)"
    using lanes_data_ok by blast
  obtain cm where cm: "resolve_model_context_max [] (all_members cfg) = Inr cm" using context_max_ok [OF v(5), of "[]"] by auto
  have "\<forall>e \<in> set lds. \<exists>l. build_lane check_account resolve_key supports cfg cm e = Inr l"
  proof
    fix e assume "e \<in> set lds"
    then have "snd e \<in> snd ` set (rc_providers cfg)" using lds(3) by blast
    then obtain n where n: "(n, snd e) \<in> set (rc_providers cfg)" by force
    have "provider_errors check_account resolve_key [] cfg (n, snd e) = []" using v(2) n by blast
    moreover have "pu_auth (pr_urls (snd e)) = Some JwtBearer \<or> pu_auth (pr_urls (snd e)) = Some OAuthClientCredentials \<longrightarrow> trim (lane_key resolve_key (snd e)) \<noteq> []"
      using assms(3) n unfolding secrets_present_def by blast
    ultimately show "\<exists>l. build_lane check_account resolve_key supports cfg cm e = Inr l"
      using credential_ok [of check_account resolve_key cfg n "snd e"] by (cases e) (auto simp: build_lane_def)
  qed
  then obtain ls where ls: "build_lanes (build_lane check_account resolve_key supports cfg cm) lds = Inr ls" "length ls = length lds" using build_lanes_ok by blast
  obtain qs where qs: "build_pools (by_model cfg) (rc_pools cfg) = Inr qs" "map fst qs = map fst (rc_pools cfg)" "\<forall>(n, ws) \<in> set qs. ws \<noteq> [] \<and> usable_members cfg ws"
    using build_pools_ok [of "rc_pools cfg" cfg] pool_members_ok v(3) by blast
  have len: "length lds = length (rc_models cfg)" using arg_cong [OF lds(2), of length] by (simp add: sorted_models_def)
  have "\<forall>ld \<in> set (map fst lds). lane_data_ok ld \<and> ld_budget ld \<le> i64_max"
    using lane_data_facts assms(2) unfolding lds(2) by (force simp: sorted_models_def config_typed_def i64_max_def)
  then have st: "store_wf (build_store cfg (map fst lds) prior)" "length (lanes (build_store cfg (map fst lds) prior)) = length lds" "budgets_fit (build_store cfg (map fst lds) prior)"
    using built_store_facts [OF assms(5), of "map fst lds" cfg] by simp_all
  obtain gw where gw: "build_app_from_config check_account resolve_key fs supports hks cfg prior = Inr gw" "app_lanes (gw_app gw) = map fst ls"
    "pool_runtime (gw_app gw) = map (\<lambda>(n, p). (n, pool_runtime_of (policy_of hks) (gates_of hks) (by_model cfg) p)) (rc_pools cfg)"
    "fallback_pools (gw_app gw) = qs" "gw_pools gw = qs" "gw_store gw = build_store cfg (map fst lds) prior"
    "on_exhausted_cfgs (gw_app gw) = map (\<lambda>(n, p). (n, on_exhausted_of p)) (rc_pools cfg)"
    by (simp add: build_app_from_config_def assms(1) lds(1) cm ls(1) qs(1))
  have "ready (gw_app gw) (gw_store gw)" using st ls(2) built_breakers_ok [OF v(3) assms(2) gw(3)] by (simp add: ready_def gw(2,6))
  moreover have "members (gw_app gw) cs \<and> (\<forall>w \<in> set cs. 1 \<le> wl_weight w)" if "usable_members cfg cs" for cs
    using that by (simp add: members_def usable_members_def gw(2) ls(2) len)
  ultimately show ?thesis using gw(1,4,5,7) qs(2,3) by (intro exI [of _ gw]) auto
qed


lemmas name_consts = RESERVED_HOOK_NAMES_def ON_ERROR_WEIGHTED_def ON_ERROR_REJECT_def ON_ERROR_FIRST_def ON_ERROR_NOTHING_def
  STRATEGY_CHEAPEST_def STRATEGY_FASTEST_def STRATEGY_LEAST_BUSY_def STRATEGY_USAGE_def

text \<open>The sample configuration with a concurrency cap of choice.\<close>

definition sample_with :: "nat \<Rightarrow> RootCfg" where
  "sample_with c = sample_cfg\<lparr>rc_models := [(''m'', sample_model\<lparr>mo_max_concurrent := Some c\<rparr>)]\<rparr>"

lemma sample_with_4: "sample_with 4 = sample_cfg"
  by (simp add: sample_with_def sample_cfg_def sample_model_def)

lemma sample_rules:
  "0 < c \<Longrightarrow> model_errors (sample_with c) (''m'', sample_model\<lparr>mo_max_concurrent := Some c\<rparr>) = []"
  "pool_name_errors (sample_with c) (''main'', x) = []" "pool_name_errors (sample_with c) (''spare'', x) = []"
  "pool_errors (sample_with c) (''main'', sample_pool (FallbackPoolCfg ''spare'')) = []" "pool_errors (sample_with c) (''spare'', sample_pool LeastBadCfg) = []"
  "fallback_cycle_errors (sample_with c) (''main'', sample_pool (FallbackPoolCfg ''spare'')) = []" "fallback_cycle_errors (sample_with c) (''spare'', sample_pool LeastBadCfg) = []"
  "on_error_errors fs (sample_with c) (''g'', sample_hook ''h'') = []" "on_error_errors fs (sample_with c) (''h'', sample_hook ''first'') = []"
  "context_errors [] (concat (map (po_members \<circ> snd) (rc_pools (sample_with c)))) = []"
  "validate_limits sample_limits = []"
  by (simp_all add: Let_def model_errors_def pool_name_errors_def pool_errors_def member_errors_def model_protocols_def validate_breaker_def failover_errors_def fallback_errors_def
    affinity_errors_def fallback_cycle_errors_def fallback_ring.simps resolve_fallback_target_def on_error_errors_def on_error_walk.simps on_error_terminal_def ranking_strategy_def
    name_consts validate_limits_def REQUEST_BODY_MAX_BYTES_FLOOR_def REQUEST_BODY_MAX_BYTES_CEIL_def reserved_admin_name_def sample_with_def sample_cfg_def sample_model_def sample_pool_def
    sample_hook_def sample_limits_def)

lemma sample_provider_rule: "provider_errors check_account resolve_key [] (sample_with c) (''local'', \<lparr>pr_protocol = ''openai'', pr_urls = sample_provider, pr_api_key = sample_secret,
   pr_health = None, pr_error_map = [(''full'', ''overloaded'')]\<rparr>) = []"
proof -
  have "rc_metadata (sample_with c) = sample_metadata" by (simp add: sample_with_def sample_cfg_def)
  then show ?thesis by (simp add: provider_errors_def KNOWN_PROTOCOLS_def status_class_from_str_def sample_provider_valid)
qed

lemma sample_fields:
  "rc_models (sample_with c) = [(''m'', sample_model\<lparr>mo_max_concurrent := Some c\<rparr>)]" "rc_pools (sample_with c) = [(''main'', sample_pool (FallbackPoolCfg ''spare'')), (''spare'', sample_pool LeastBadCfg)]"
  "rc_providers (sample_with c) = [(''local'', \<lparr>pr_protocol = ''openai'', pr_urls = sample_provider, pr_api_key = sample_secret, pr_health = None, pr_error_map = [(''full'', ''overloaded'')]\<rparr>)]"
  "rc_hooks (sample_with c) = [(''g'', sample_hook ''h''), (''h'', sample_hook ''first'')]" "rc_limits (sample_with c) = sample_limits" "rc_metadata (sample_with c) = sample_metadata"
  "rc_auth (sample_with c) = None" "rc_admin_auth (sample_with c) = [''admin-tokens'']" "rc_global_hooks (sample_with c) = []"
  by (simp_all add: sample_with_def sample_cfg_def)

lemma sample_validates:
  assumes "0 < c"
  shows "validate check_account resolve_key fs (sample_with c) = Inr ()"
proof -
  have cost: "validate_cost_model fs (sample_with c) = []"
    by (simp add: validate_cost_model_def rate_card_errors_def validate_groups_def secret_errors_def check_secret_def tls_errors_def sample_with_def sample_cfg_def sample_secret_def
      SECRET_MODULE_ENV_def SECRET_MODULE_FILE_def env_var_def SECRET_ENV_SETTING_KEY_def)
  have hooks: "hook_errors (n, sample_hook x) = []" "n = ''g'' \<or> n = ''h'' \<Longrightarrow> reserved_hook_errors (n, sample_hook x) = []" "\<not> hk_default (sample_hook x)" for n x
    by (auto simp: hook_errors_def sample_hook_def trim_def is_ws_def reserved_hook_errors_def name_consts)
  have pools: "gate_errors (sample_with c) (n, sample_pool x) = []" "policy_errors fs (n, sample_pool x) = []" for n x
    by (simp_all add: gate_errors_def policy_errors_def sample_fields) (simp_all add: sample_pool_def sample_hook_def)
  have limits: "effort_errors (li_reasoning_effort_budgets sample_limits) = []" "reject_cidr_metadata_entries (mc_blocked_metadata_hosts sample_metadata) = []"
    "reject_cidr_metadata_entries (mc_allow_metadata_hosts sample_metadata) = []" "\<not> reserved_admin_name ''local''"
    by (simp_all add: effort_errors_def sample_limits_def reject_cidr_metadata_entries_def sample_metadata_def reserved_admin_name_def)
  have rest: "default_hook_errors (sample_with c) = []" "admin_auth_errors (sample_with c) = []" "role_binding_errors (sample_with c) = []" "global_hook_errors (sample_with c) = []" "auth_chain_errors (sample_with c) = []"
    by (simp_all add: default_hook_errors_def admin_auth_errors_def role_binding_errors_def global_hook_errors_def auth_chain_errors_def sample_fields hooks)
  have ctx: "context_errors [] (concat (map (po_members \<circ> snd) (rc_pools (sample_with c)))) = []" by (rule sample_rules)
  have "validation_errors check_account resolve_key fs (sample_with c) [] = []"
    unfolding validation_errors_def append_is_Nil_conv cost rest ctx concat_eq_Nil_conv set_map ball_simps(9)
    using assms by (simp add: sample_fields sample_rules sample_provider_rule hooks pools limits)
  then show ?thesis by (simp add: validate_def validate_with_unset_def)
qed

lemma oversized_cap_panics:
  assumes "MAX_PERMITS < c"
  shows "validate check_account resolve_key fs (sample_with c) = Inr () \<and> build_app_from_config check_account resolve_key fs supports hks (sample_with c) prior = Inl (SemaphorePanic ''m'')"
proof -
  have v: "validate check_account resolve_key fs (sample_with c) = Inr ()" using sample_validates assms by (simp add: gr_implies_not0)
  have "lanes_data (sample_with c) (sorted_models (sample_with c)) = Inl (SemaphorePanic ''m'')"
    using assms by (simp add: sorted_models_def sample_fields lane_data_def Let_def) (simp add: sample_model_def)
  then show ?thesis using v by (simp add: build_app_from_config_def)
qed


end
