(* ===== verification/Spec2Isabelle.thy ===== *)
theory Spec2Isabelle
  imports StoreRestore Windows CostChain MemStore GovHydrate GovRuns GovAuth Dispositions BodyRuns AuditChain
    SigV4Bind AuthRuns AdminRate BuildSound
begin

text \<open>
  Busbar, a gateway in front of language-model providers: a verification development.

  The program. A request arrives at an ingress speaking one of six wire protocols, is authenticated to
  a virtual key, admitted against the key's limits, routed to a lane (one model at one provider) of a
  pool, sent upstream with failover over the pool's lanes, and answered with a buffered or streamed body
  that may have to be translated between protocols. What the lanes did is remembered in circuit
  breakers; what a request consumed is charged to a token ledger. Paths below are under
  \<open>src/crates/busbar/src\<close> unless they name another crate.

  Conventions. A Rust function is a HOL function that takes and returns the state it mutates; a panic
  (an index out of range, a failed assertion) is the value \<open>None\<close> of an option type, and an error a
  value of a sum type. A mutex-protected section is one atomic function, and concurrency is a sequence of
  such functions in any order. Unsigned integers are natural numbers with saturation and wrap-around
  written out at the operations that have it, \<open>i64\<close> and \<open>i128\<close> are integers with their bounds, \<open>f64\<close> is a
  rational rounded to nearest even. Hash maps are association lists. The clock, entropy, the network, hooks and
  third-party packages (JSON, hexadecimal, CRC-32, cryptography, semaphores) are arguments; what a
  theorem needs of them is a hypothesis of that theorem.

  \<^bold>\<open>Shared.\<close> \<open>Prelude\<close> (machine integers, association lists, the fact collections), \<open>F64\<close>, \<open>Hash\<close>
  (FNV-1a), \<open>Bytes\<close> (byte buffers, big-endian integers, UTF-8), \<open>Text\<close> (the string operations of the standard library).

  \<^bold>\<open>Circuit breaker\<close> (\<open>breaker.rs\<close>, \<open>store/in_memory.rs\<close>, \<open>store/mod.rs\<close>).
  \<^item> \<open>Status\<close>: the failure classifier (\<open>normalize_raw_error\<close>, \<open>classify\<close>) and its precedence.
  \<^item> \<open>Window\<close>: the sliding outcome window and the error-rate decision.
  \<^item> \<open>Cell\<close>, \<open>CellFsm\<close>: one breaker cell with every transition; the cells refine the three-state
    breaker of the design; an open cell admits nobody, probes are single flight and owned, no cell is
    benched for ever, cooldowns are bounded.
  \<^item> \<open>Store\<close>, \<open>StoreCells\<close>, \<open>StoreOps\<close>: the store of lanes and per-pool cells; no operation panics on an
    existing lane, pools are isolated, the request budget is a ceiling. \<open>Swrr\<close>, \<open>StoreSelect\<close>: weighted
    selection refines smooth weighted round-robin and is proportionally fair. \<open>StoreRestore\<close>: learned
    health survives a configuration change.

  \<^bold>\<open>Requests\<close> (\<open>proxy/select.rs\<close>, \<open>proxy/engine/mod.rs\<close>, \<open>proxy/engine/walk.rs\<close>).
  \<^item> \<open>Select\<close>, \<open>Pick\<close>: picking a lane, with the guard of a won probe.
  \<^item> \<open>Forward\<close>: gates, routing policy, one attempt and its disposition, the failover loop, the walk over
    exhausted pools. \<open>Attempt\<close>, \<open>Failover\<close>, \<open>Requests\<close>, \<open>Dispositions\<close>: every request is answered,
    settles every probe it took, spends at most one budget unit, respects every restrict everywhere, and
    a caller's fault penalises nobody.

  \<^bold>\<open>Limits and money\<close> (\<open>governance/\<close>, \<open>cost.rs\<close>, \<open>config/groups.rs\<close>, \<open>crates/api\<close>, \<open>crates/store-memory\<close>).
  \<^item> \<open>Calendar\<close>, \<open>Windows\<close>: limit windows tile time.
  \<^item> \<open>Ledger\<close>, \<open>MemStore\<close>: the durable-store contract and its default implementation.
  \<^item> \<open>LimitGroups\<close>, \<open>Cost\<close>, \<open>CostChain\<close>, \<open>CostSound\<close>: the limit tree, its projection into buckets, the
    enforcement chain of a key, derived spend.
  \<^item> \<open>Gov\<close>, \<open>GovLedger\<close>, \<open>GovCells\<close>, \<open>GovAdmit\<close>, \<open>GovRuns\<close>, \<open>GovFlush\<close>, \<open>GovHydrate\<close>: admission is all or
    nothing, fails closed, and never exceeds a requests or an in-flight cap in any interleaving; the
    write-behind flush conserves usage; a restart restores it.
  \<^item> \<open>GovKeys\<close>, \<open>GovAuth\<close>: signed tokens, key operations, revocation.

  \<^bold>\<open>Response streams\<close> (\<open>eventstream.rs\<close>, \<open>proto/mod.rs\<close>, \<open>proto/stream.rs\<close>, \<open>proto/gemini/mod.rs\<close>,
  \<open>proto/bedrock/mod.rs\<close>, \<open>ir/mod.rs\<close>, \<open>proxy/response_body.rs\<close>, \<open>proxy/usage.rs\<close>, \<open>proxy/wire.rs\<close>).
  \<^item> \<open>EventStream\<close>: the binary frame codec; round trip, and independence of chunk boundaries.
  \<^item> \<open>Sse\<close>, \<open>SseScan\<close>: text frames and the incremental scan loop; the locale \<open>reassembler\<close> says once what
    every user of that loop gets (output independent of how the transport cut the bytes, bounded buffer)
    and is interpreted on the JSON-array framer and on the translator.
  \<^item> \<open>JsonStrip\<close>: the byte-level removal of a member is exact on every JSON text.
  \<^item> \<open>Ir\<close>, \<open>ToolIds\<close>: the intermediate representation and the round trip of tool-call ids.
  \<^item> \<open>JsonArray\<close>: a JSON-array client always receives one closed array.
  \<^item> \<open>Translate\<close>, \<open>TranslateRuns\<close>: the translator; chunking, verbatim relay, equal metering in both modes, one
    metadata frame per Bedrock stream.
  \<^item> \<open>StreamBody\<close>, \<open>BodyRuns\<close>: the body handed to the client as a poll state machine; a stream settles its
    permit, breaker, budget and bill exactly once however it ends, and a complete stream is billed what the
    upstream reported.

  \<^bold>\<open>Front door\<close> (\<open>sigv4.rs\<close>, \<open>auth/mod.rs\<close>, \<open>auth_cache.rs\<close>, \<open>proto/bedrock/writer.rs\<close>, \<open>crates/api/src/auth.rs\<close>).
  \<^item> \<open>SigV4\<close>, \<open>SigV4Dates\<close>, \<open>SigV4Auth\<close>, \<open>SigV4Bind\<close>: the canonical request, the egress signer of a Bedrock lane and the
    ingress verifier; what a lane signs is admitted as its key, and a signature binds method, path, query, body and
    signed headers.
  \<^item> \<open>AuthChain\<close>, \<open>AuthRuns\<close>: the credential cache and the chain of authentication modules; every verdict rests on
    recent answers, and the cache is bounded.

  \<^bold>\<open>Outbound URLs and credentials\<close> (\<open>config_validate/mod.rs\<close>, \<open>net_guard.rs\<close>, \<open>observability.rs\<close>, \<open>egress_auth/\<close>,
  \<open>proto/anthropic/mod.rs\<close>).
  \<^item> \<open>NetGuard\<close>: addresses and their texts, host extraction, the metadata denylist, the rules on a provider's URLs, the
    webhook and collector guards. \<open>InetText\<close>: the guards read exactly the spellings a resolver reads. \<open>UrlGuard\<close>: the denylist
    is exact over URLs of the usual form (\<open>url_names\<close>), a validated provider contacts no metadata service, a webhook goes to
    a public host.
  \<^item> \<open>EgressAuth\<close>: the credential of a lane and the refresh loop of minted tokens; no token expires in use, one credential
    header per request.

  \<^bold>\<open>Configuration and construction\<close> (\<open>config/mod.rs\<close>, \<open>config/secret.rs\<close>, \<open>config_validate/mod.rs\<close>, \<open>main.rs\<close>).
  \<^item> \<open>ConfigValidate\<close>: the resolved configuration and every rule of \<open>validate\<close>, error messages as constructors.
    \<open>ConfigSound\<close>: the rules on fallback pools and on error hooks are exact.
  \<^item> \<open>BuildApp\<close>, \<open>BuildSound\<close>: the construction of lanes, pools, store and routing tables; a configuration that validates
    builds, and the gateway it builds answers every request.

  \<^bold>\<open>Administration\<close> (\<open>admin/audit.rs\<close>, \<open>admin/rate.rs\<close>).
  \<^item> \<open>AdminAudit\<close>, \<open>AuditChain\<close>: the hash-chained audit log; the ring always verifies, a chain with a known head
    cannot have been altered, the durable copy is a prefix of the history and a restart restores it.
  \<^item> \<open>AdminRate\<close>: the rate limit of mutations, exact per principal, class and minute.

  \<^bold>\<open>Interfaces.\<close> The locales \<open>outcome_log\<close> (\<open>Window\<close>), \<open>cell_store\<close> (\<open>StoreCells\<close>), \<open>keyed_map\<close> (\<open>GovCells\<close>),
  \<open>durable_store\<close> (\<open>MemStore\<close>) and \<open>reassembler\<close> (\<open>SseScan\<close>) are each interpreted on the model's own
  definitions.

  \<^bold>\<open>Bounds and fuel.\<close> The picking loop gets one round more than there are candidates, since every round
  excludes one; the walk over exhausted pools gets one hop more than there are fallback pools, since no pool is
  visited twice; the failover loop is bounded by its hop cap. In each case a theorem shows that the fuel is enough
  (\<open>pick_is_sound\<close>, \<open>request_settles\<close>). All other loops are structural or have a measure. \<open>MAX_FRAME_BYTES\<close> bounds
  every reassembly buffer.

  \<^bold>\<open>Not modelled.\<close> The six protocols' JSON readers and writers, the ingress and operation handlers, the admin API
  but for its audit log and rate limit, the HTTP middleware around the authentication chain and the OIDC module, hooks
  and plugins, the SQL and Redis stores, the parsing of configuration files (the model starts at the resolved
  configuration), the HTTP exchange that mints a token, the health prober's timers, TLS, metrics, logging and the process
  itself. These are
  JSON shape translation, I/O, or calls of third-party packages; where the modelled code relies on them they are
  arguments. Request bodies and headers are not part of the forwarding model. Real parallelism inside a request
  (parked waits, hedging by the runtime) is represented by the outcomes it can have, not by threads.
\<close>

end
